(* ===== verification/Prelude.thy ===== *)
theory Prelude
  imports Main "HOL-Library.Multiset"
begin

text \<open>
  Shared by every component: the control-flow patterns of the Go code
  (an early return on an error, a loop that stops at the first error), the
  interface of a comparison function given to \<open>sort.Slice\<close> with the facts a
  caller may rely on, and the collections of simplification rules the component
  theories fill.
\<close>

named_theorems go_err \<open>equations of the error-propagation combinators\<close>
named_theorems go_str \<open>equations of the string primitives\<close>
named_theorems plan_simps \<open>field equations of plan sets and resolutions\<close>

section \<open>Errors as values\<close>

text \<open>
  \<open>try_res r k\<close> is \<open>x, err := r; if err != nil { return err }; k(x)\<close> and
  \<open>check e r\<close> is \<open>if err := e; err != nil { return err }; r\<close>, where an error
  result of a function without another value is an \<open>option\<close>.
\<close>

definition try_res :: "'e + 'a \<Rightarrow> ('a \<Rightarrow> 'e + 'b) \<Rightarrow> 'e + 'b" where
  "try_res r k = (case r of Inl e \<Rightarrow> Inl e | Inr x \<Rightarrow> k x)"

definition check :: "'e option \<Rightarrow> 'e option \<Rightarrow> 'e option" where
  "check e r = (case e of None \<Rightarrow> r | Some x \<Rightarrow> Some x)"

definition guard_res :: "'e option \<Rightarrow> 'e + 'a \<Rightarrow> 'e + 'a" where
  "guard_res e r = (case e of None \<Rightarrow> r | Some x \<Rightarrow> Inl x)"

fun first_error :: "('a \<Rightarrow> 'e option) \<Rightarrow> 'a list \<Rightarrow> 'e option" where
  "first_error f [] = None"
| "first_error f (x # xs) = check (f x) (first_error f xs)"

lemma try_res_simps [simp, go_err]:
  "try_res (Inl e) k = Inl e" "try_res (Inr x) k = k x"
  by (simp_all add: try_res_def)

lemma try_res_Inr [simp]: "try_res r k = Inr y \<longleftrightarrow> (\<exists>x. r = Inr x \<and> k x = Inr y)"
  by (cases r) auto

lemma check_simps [simp, go_err]: "check None r = r" "check (Some e) r = Some e"
  by (simp_all add: check_def)

lemma check_None [simp]: "check e r = None \<longleftrightarrow> e = None \<and> r = None"
  by (cases e) auto

lemma guard_res_simps [simp, go_err]: "guard_res None r = r" "guard_res (Some e) r = Inl e"
  by (simp_all add: guard_res_def)

lemma guard_res_Inr [simp]: "guard_res e r = Inr y \<longleftrightarrow> e = None \<and> r = Inr y"
  by (cases e) auto

lemma first_error_None [simp]: "first_error f xs = None \<longleftrightarrow> (\<forall>x \<in> set xs. f x = None)"
  by (induction xs) auto

lemma first_error_Some: "first_error f xs = Some e \<Longrightarrow> \<exists>x \<in> set xs. f x = Some e"
proof (induction xs)
  case (Cons x xs)
  then show ?case by (cases "f x") auto
qed simp

lemma first_error_append: "first_error f (xs @ ys) = check (first_error f xs) (first_error f ys)"
proof (induction xs)
  case (Cons x xs)
  then show ?case by (cases "f x") auto
qed simp

section \<open>Sorting with a comparison function\<close>

text \<open>
  \<open>sort.Slice\<close> permutes a slice so that no later element is less than an earlier
  one. The model runs an insertion sort (what Go itself runs on a slice of at most
  twelve elements); the locale below shows that whenever the comparison separates
  the elements, every sorting algorithm returns the same slice, so nothing proved
  from it depends on that choice.
\<close>

fun insert_by :: "('a \<Rightarrow> 'a \<Rightarrow> bool) \<Rightarrow> 'a \<Rightarrow> 'a list \<Rightarrow> 'a list" where
  "insert_by lt x [] = [x]"
| "insert_by lt x (y # ys) = (if lt y x then y # insert_by lt x ys else x # y # ys)"

fun sort_by :: "('a \<Rightarrow> 'a \<Rightarrow> bool) \<Rightarrow> 'a list \<Rightarrow> 'a list" where
  "sort_by lt [] = []"
| "sort_by lt (x # xs) = insert_by lt x (sort_by lt xs)"

abbreviation slice_sorted :: "('a \<Rightarrow> 'a \<Rightarrow> bool) \<Rightarrow> 'a list \<Rightarrow> bool" where
  "slice_sorted lt \<equiv> sorted_wrt (\<lambda>x y. \<not> lt y x)"

lemma mset_insert_by [simp]: "mset (insert_by lt x ys) = add_mset x (mset ys)"
  by (induction ys) auto

lemma mset_sort_by [simp]: "mset (sort_by lt xs) = mset xs"
  by (induction xs) auto

lemma set_insert_by [simp]: "set (insert_by lt x ys) = insert x (set ys)"
  by (induction ys) auto

lemma set_sort_by [simp]: "set (sort_by lt xs) = set xs"
  by (induction xs) auto

lemma length_insert_by [simp]: "length (insert_by lt x ys) = Suc (length ys)"
  by (induction ys) auto

lemma length_sort_by [simp]: "length (sort_by lt xs) = length xs"
  by (induction xs) auto

lemma distinct_sort_by [simp]: "distinct (sort_by lt xs) = distinct xs"
  by (metis mset_eq_imp_distinct_iff mset_sort_by)

locale slice_less =
  fixes lt :: "'a \<Rightarrow> 'a \<Rightarrow> bool"
  assumes lt_irrefl: "\<not> lt x x"
    and lt_trans: "lt x y \<Longrightarrow> lt y z \<Longrightarrow> lt x z"
    and lt_incomp: "\<not> lt x y \<Longrightarrow> \<not> lt y z \<Longrightarrow> \<not> lt x z"
begin

lemma lt_asym: "lt x y \<Longrightarrow> \<not> lt y x"
  using lt_irrefl lt_trans by blast

lemma sorted_insert_by: "slice_sorted lt ys \<Longrightarrow> slice_sorted lt (insert_by lt x ys)"
proof (induction ys)
  case (Cons y ys)
  show ?case
  proof (cases "lt y x")
    case True
    with Cons show ?thesis by (auto dest: lt_asym)
  next
    case False
    then have "\<not> lt z x" if "z \<in> set ys" for z
      using Cons.prems that lt_incomp by auto
    with False Cons.prems show ?thesis by auto
  qed
qed simp

lemma sorted_sort_by: "slice_sorted lt (sort_by lt xs)"
  by (induction xs) (auto intro: sorted_insert_by)

lemma sorted_unique:
  assumes "slice_sorted lt xs" "slice_sorted lt ys" "mset xs = mset ys"
    and "\<forall>x \<in> set xs. \<forall>y \<in> set xs. \<not> lt x y \<longrightarrow> \<not> lt y x \<longrightarrow> x = y"
  shows "xs = ys"
  using assms
proof (induction xs arbitrary: ys)
  case (Cons x xs)
  then obtain y ys' where ys: "ys = y # ys'" by (cases ys) auto
  have yx: "y \<in> set (x # xs)" using Cons.prems(3) ys by (metis list.set_intros(1) set_mset_mset)
  have xy: "x \<in> set (y # ys')" using Cons.prems(3) ys by (metis list.set_intros(1) set_mset_mset)
  have "x = y"
  proof (rule ccontr)
    assume "x \<noteq> y"
    with yx xy have "y \<in> set xs" "x \<in> set ys'" by auto
    with Cons.prems(1,2) ys have "\<not> lt y x" "\<not> lt x y" by auto
    with Cons.prems(4) yx \<open>x \<noteq> y\<close> show False by (metis list.set_intros(1))
  qed
  moreover have "xs = ys'"
    using Cons.prems \<open>x = y\<close> ys by (intro Cons.IH) auto
  ultimately show ?case using ys by simp
qed simp

lemma sort_by_permutation:
  assumes "mset xs = mset ys"
    and "\<forall>x \<in> set xs. \<forall>y \<in> set xs. \<not> lt x y \<longrightarrow> \<not> lt y x \<longrightarrow> x = y"
  shows "sort_by lt xs = sort_by lt ys"
  using assms by (intro sorted_unique) (auto simp: sorted_sort_by)

end

section \<open>Comparison by a sequence of keys\<close>

text \<open>
  The comparison functions of the code compare one string field after another and
  decide on the first that differs. Each is the lexicographic order of its list of
  keys, which is a \<open>slice_less\<close>.
\<close>

fun lex_less :: "('k::linorder) list \<Rightarrow> 'k list \<Rightarrow> bool" where
  "lex_less (a # as) (b # bs) = (if a \<noteq> b then a < b else lex_less as bs)"
| "lex_less _ _ = False"

lemma lex_less_irrefl [simp]: "\<not> lex_less xs xs"
  by (induction xs) auto

lemma lex_less_trans:
  "length xs = length ys \<Longrightarrow> length ys = length zs \<Longrightarrow> lex_less xs ys \<Longrightarrow> lex_less ys zs \<Longrightarrow> lex_less xs zs"
proof (induction xs zs arbitrary: ys rule: lex_less.induct)
  case (1 a as c cs)
  then show ?case by (cases ys) (auto split: if_splits)
qed auto

lemma lex_less_total:
  "length xs = length ys \<Longrightarrow> \<not> lex_less xs ys \<Longrightarrow> \<not> lex_less ys xs \<Longrightarrow> xs = ys"
proof (induction xs ys rule: lex_less.induct)
  case (1 a as b bs)
  then show ?case by (auto split: if_splits)
qed auto

lemma slice_less_lex:
  assumes "\<And>x y. lt x y = lex_less (key x) (key y)" and "\<And>x y. length (key x) = length (key y)"
  shows "slice_less lt"
proof
  show "\<not> lt x x" for x by (simp add: assms)
  show "lt x z" if "lt x y" "lt y z" for x y z
    using that assms lex_less_trans by metis
  show "\<not> lt x z" if "\<not> lt x y" "\<not> lt y z" for x y z
    using that assms lex_less_trans lex_less_total by metis
qed

section \<open>Lists\<close>

lemma find_Some_in: "List.find P xs = Some x \<Longrightarrow> x \<in> set xs \<and> P x"
  by (auto simp: find_Some_iff)

lemma length_one_mem: "length xs = 1 \<Longrightarrow> x \<in> set xs \<Longrightarrow> xs = [x]"
  by (cases xs) auto

end
