(* ===== verification/GoStrings.thy ===== *)
theory GoStrings
  imports Prelude "HOL-Library.Sublist" "HOL-Library.Char_ord" "HOL-Library.List_Lexorder"
begin

text \<open>
  Go strings are byte sequences; a \<open>string\<close> of the model is the list of its bytes,
  and \<open><\<close> on strings is Go's bytewise order. This theory models what the code
  uses of the packages \<open>strings\<close>, \<open>utf8\<close> and of the fixed regular
  expressions, byte for byte: \<open>TrimSpace\<close> and \<open>Fields\<close> know every Unicode
  space in its UTF-8 encoding.
\<close>

section \<open>Bytes\<close>

abbreviation byte :: "char \<Rightarrow> nat" where
  "byte c \<equiv> of_char c"

definition byte_in :: "nat \<Rightarrow> nat \<Rightarrow> char \<Rightarrow> bool" where
  "byte_in lo hi c \<longleftrightarrow> lo \<le> byte c \<and> byte c \<le> hi"

abbreviation is_digit :: "char \<Rightarrow> bool" where
  "is_digit \<equiv> byte_in 48 57"

abbreviation is_lower :: "char \<Rightarrow> bool" where
  "is_lower \<equiv> byte_in 97 122"

abbreviation is_upper :: "char \<Rightarrow> bool" where
  "is_upper \<equiv> byte_in 65 90"

definition is_letter :: "char \<Rightarrow> bool" where
  "is_letter c \<longleftrightarrow> is_lower c \<or> is_upper c"

definition CR :: char where "CR = CHR 0x0D"
definition LF :: char where "LF = CHR 0x0A"
definition NUL :: char where "NUL = CHR 0x00"
definition BSLASH :: char where "BSLASH = CHR 0x5C"

lemmas control_chars = CR_def LF_def NUL_def

section \<open>Substrings\<close>

fun contains_str :: "string \<Rightarrow> string \<Rightarrow> bool" where
  "contains_str sub [] = (sub = [])"
| "contains_str sub (c # s) = (prefix sub (c # s) \<or> contains_str sub s)"

definition contains_any :: "string \<Rightarrow> string \<Rightarrow> bool" where
  "contains_any s chars \<longleftrightarrow> (\<exists>c \<in> set s. c \<in> set chars)"

definition replace_byte :: "char \<Rightarrow> char \<Rightarrow> string \<Rightarrow> string" where
  "replace_byte a b s = map (\<lambda>c. if c = a then b else c) s"

definition trim_suffix_byte :: "char \<Rightarrow> string \<Rightarrow> string" where
  "trim_suffix_byte c s = (if s \<noteq> [] \<and> last s = c then butlast s else s)"

definition trim_right_cut :: "string \<Rightarrow> string \<Rightarrow> string" where
  "trim_right_cut chars s = rev (dropWhile (\<lambda>c. c \<in> set chars) (rev s))"

lemma contains_str_iff: "contains_str sub s \<longleftrightarrow> (\<exists>u v. s = u @ sub @ v)"
proof (induction s)
  case (Cons c s)
  show ?case
  proof
    assume "contains_str sub (c # s)"
    then show "\<exists>u v. c # s = u @ sub @ v"
    proof (simp, elim disjE)
      assume "prefix sub (c # s)"
      then show ?thesis by (metis append_Nil prefixE)
    next
      assume "contains_str sub s"
      then show ?thesis using Cons.IH by (metis append_Cons)
    qed
  next
    assume "\<exists>u v. c # s = u @ sub @ v"
    then obtain u v where uv: "c # s = u @ sub @ v" by blast
    show "contains_str sub (c # s)"
    proof (cases u)
      case Nil
      with uv show ?thesis by (metis append_Nil contains_str.simps(2) prefixI)
    next
      case (Cons d u')
      with uv have "s = u' @ sub @ v" by simp
      with Cons.IH show ?thesis by auto
    qed
  qed
qed auto

lemma contains_byte: "contains_str [c] s \<longleftrightarrow> c \<in> set s"
  by (induction s) (auto simp: prefix_def)

lemma contains_any_append [simp]:
  "contains_any (s @ t) chars \<longleftrightarrow> contains_any s chars \<or> contains_any t chars"
  by (auto simp: contains_any_def)

lemma contains_any_Nil [simp]: "\<not> contains_any [] chars"
  by (simp add: contains_any_def)

section \<open>Split and Join\<close>

fun split_on :: "char \<Rightarrow> string \<Rightarrow> string list" where
  "split_on c [] = [[]]"
| "split_on c (x # xs) =
     (if x = c then [] # split_on c xs
      else (case split_on c xs of [] \<Rightarrow> [[x]] | w # ws \<Rightarrow> (x # w) # ws))"

fun join_with :: "string \<Rightarrow> string list \<Rightarrow> string" where
  "join_with sep [] = []"
| "join_with sep [w] = w"
| "join_with sep (w # v # ws) = w @ sep @ join_with sep (v # ws)"

lemma split_on_nonempty [simp]: "split_on c s \<noteq> []"
  by (induction s) (auto split: list.splits)

lemma split_on_fresh: "w \<in> set (split_on c s) \<Longrightarrow> c \<notin> set w"
  by (induction s arbitrary: w) (auto split: list.splits if_splits)

lemma set_split_on: "w \<in> set (split_on c s) \<Longrightarrow> set w \<subseteq> set s"
proof (induction s arbitrary: w)
  case (Cons x s)
  then show ?case by (force split: list.splits if_splits)
qed simp

lemma join_split [simp]: "join_with [c] (split_on c s) = s"
proof (induction s)
  case (Cons x s)
  obtain w ws where "split_on c s = w # ws" by (cases "split_on c s") auto
  with Cons show ?case by (cases ws) auto
qed simp

lemma split_on_no_sep: "c \<notin> set s \<Longrightarrow> split_on c s = [s]"
  by (induction s) auto

lemma split_on_append: "c \<notin> set u \<Longrightarrow> split_on c (u @ c # s) = u # split_on c s"
  by (induction u) auto

lemma split_join:
  "ws \<noteq> [] \<Longrightarrow> \<forall>w \<in> set ws. c \<notin> set w \<Longrightarrow> split_on c (join_with [c] ws) = ws"
proof (induction "[c]" ws rule: join_with.induct)
  case (3 w v ws)
  then show ?case by (simp add: split_on_append)
qed (auto simp: split_on_no_sep)

lemma join_with_Cons: "ws \<noteq> [] \<Longrightarrow> join_with sep (w # ws) = w @ sep @ join_with sep ws"
  by (cases ws) auto

lemma split_on_inj: "split_on c s = split_on c t \<Longrightarrow> s = t"
  by (metis join_split)

section \<open>White space\<close>

text \<open>
  The UTF-8 encodings of the runes \<open>unicode.IsSpace\<close> accepts. No encoding is a
  prefix of another and none of their first bytes is a continuation byte, so the
  scan by bytes finds exactly the runes Go's scan by runes finds.
\<close>

definition space_runes :: "string list" where
  "space_runes =
     [[CHR 0x20], [CHR 0x09], [CHR 0x0A], [CHR 0x0B], [CHR 0x0C], [CHR 0x0D],
      [CHR 0xC2, CHR 0x85], [CHR 0xC2, CHR 0xA0], [CHR 0xE1, CHR 0x9A, CHR 0x80],
      [CHR 0xE2, CHR 0x80, CHR 0x80], [CHR 0xE2, CHR 0x80, CHR 0x81], [CHR 0xE2, CHR 0x80, CHR 0x82],
      [CHR 0xE2, CHR 0x80, CHR 0x83], [CHR 0xE2, CHR 0x80, CHR 0x84], [CHR 0xE2, CHR 0x80, CHR 0x85],
      [CHR 0xE2, CHR 0x80, CHR 0x86], [CHR 0xE2, CHR 0x80, CHR 0x87], [CHR 0xE2, CHR 0x80, CHR 0x88],
      [CHR 0xE2, CHR 0x80, CHR 0x89], [CHR 0xE2, CHR 0x80, CHR 0x8A], [CHR 0xE2, CHR 0x80, CHR 0xA8],
      [CHR 0xE2, CHR 0x80, CHR 0xA9], [CHR 0xE2, CHR 0x80, CHR 0xAF], [CHR 0xE2, CHR 0x81, CHR 0x9F],
      [CHR 0xE3, CHR 0x80, CHR 0x80]]"

definition lead_width :: "string list \<Rightarrow> string \<Rightarrow> nat" where
  "lead_width runes s = (case List.find (\<lambda>w. prefix w s) runes of None \<Rightarrow> 0 | Some w \<Rightarrow> length w)"

function trim_lead :: "string list \<Rightarrow> string \<Rightarrow> string" where
  "trim_lead runes s =
     (if s \<noteq> [] \<and> 0 < lead_width runes s then trim_lead runes (drop (lead_width runes s) s) else s)"
  by pat_completeness auto
termination by (relation "measure (\<lambda>(_, s). length s)") auto

declare trim_lead.simps [simp del]

definition trim_space :: "string \<Rightarrow> string" where
  "trim_space s = rev (trim_lead (map rev space_runes) (rev (trim_lead space_runes s)))"

text \<open>\<open>strings.Fields\<close>: the maximal runs without a space rune.\<close>

function fields_from :: "string \<Rightarrow> string \<Rightarrow> string list" where
  "fields_from cur s =
     (case s of [] \<Rightarrow> (if cur = [] then [] else [rev cur])
      | c # rest \<Rightarrow>
          (if 0 < lead_width space_runes s
           then (if cur = [] then [] else [rev cur]) @ fields_from [] (drop (lead_width space_runes s) s)
           else fields_from (c # cur) rest))"
  by pat_completeness auto
termination by (relation "measure (\<lambda>(_, s). length s)") auto

declare fields_from.simps [simp del]

abbreviation string_fields :: "string \<Rightarrow> string list" where
  "string_fields \<equiv> fields_from []"

lemma trim_lead_suffix: "suffix (trim_lead runes s) s"
proof (induction runes s rule: trim_lead.induct)
  case (1 runes s)
  then show ?case
    by (subst trim_lead.simps) (auto intro: suffix_order.trans suffix_drop)
qed

lemma set_trim_lead: "set (trim_lead runes s) \<subseteq> set s"
  by (rule set_mono_suffix) (rule trim_lead_suffix)

lemma set_trim_space: "set (trim_space s) \<subseteq> set s"
  using set_trim_lead[of "map rev space_runes" "rev (trim_lead space_runes s)"]
    set_trim_lead[of space_runes s]
  by (auto simp: trim_space_def)

lemma lead_width_trim_lead: "trim_lead runes s = [] \<or> lead_width runes (trim_lead runes s) = 0"
proof (induction runes s rule: trim_lead.induct)
  case (1 runes s)
  then show ?case by (subst (1 2) trim_lead.simps) auto
qed

lemma lead_width_head: "list_all (\<lambda>w. w \<noteq> [] \<and> hd w \<noteq> c) runes \<Longrightarrow> lead_width runes (c # s) = 0"
proof -
  assume runes: "list_all (\<lambda>w. w \<noteq> [] \<and> hd w \<noteq> c) runes"
  have "\<not> prefix w (c # s)" if "w \<in> set runes" for w
    using runes that by (cases w) (auto simp: list_all_iff)
  then have "List.find (\<lambda>w. prefix w (c # s)) runes = None" by (auto simp: find_None_iff)
  then show ?thesis by (simp add: lead_width_def)
qed

lemma trim_lead_id: "lead_width runes s = 0 \<Longrightarrow> trim_lead runes s = s"
  by (subst trim_lead.simps) simp

lemma trim_lead_Nil [simp]: "trim_lead runes [] = []"
  by (subst trim_lead.simps) simp

lemma trim_space_Nil [simp]: "trim_space [] = []"
  by (simp add: trim_space_def)

text \<open>A string is trimmed when neither end is a space rune.\<close>

definition no_outer_space :: "string \<Rightarrow> bool" where
  "no_outer_space s \<longleftrightarrow> s = [] \<or>
     lead_width space_runes s = 0 \<and> lead_width (map rev space_runes) (rev s) = 0"

lemma trim_space_id: "no_outer_space s \<Longrightarrow> trim_space s = s"
  by (auto simp: no_outer_space_def trim_space_def trim_lead_id)

lemma trim_lead_length: "length (trim_lead runes s) \<le> length s"
  by (rule suffix_length_le) (rule trim_lead_suffix)

lemma trim_lead_fixed: "trim_lead runes s = s \<Longrightarrow> s = [] \<or> lead_width runes s = 0"
  using lead_width_trim_lead[of runes s] by auto

lemma trim_space_fixed: "trim_space s = s \<longleftrightarrow> no_outer_space s"
proof
  assume eq: "trim_space s = s"
  have "length s \<le> length (trim_lead space_runes s)"
    using eq trim_lead_length[of "map rev space_runes" "rev (trim_lead space_runes s)"]
    by (metis length_rev trim_space_def)
  then have lead: "trim_lead space_runes s = s"
    using trim_lead_suffix[of space_runes s] by (metis suffix_length_suffix suffix_order.order_antisym suffix_order.refl)
  then have "trim_lead (map rev space_runes) (rev s) = rev s"
    using eq by (metis rev_rev_ident trim_space_def)
  then show "no_outer_space s"
    using lead trim_lead_fixed no_outer_space_def by fastforce
qed (rule trim_space_id)

text \<open>A byte that occurs in no space rune survives trimming and stops it.\<close>

lemma lead_width_zero:
  "\<forall>w \<in> set runes. w \<noteq> [] \<Longrightarrow> lead_width runes s = 0 \<longleftrightarrow> (\<forall>w \<in> set runes. \<not> prefix w s)"
  by (auto simp: lead_width_def find_None_iff find_Some_iff split: option.splits)

lemma lead_width_zero_append:
  assumes "\<forall>w \<in> set runes. w \<noteq> [] \<and> c \<notin> set w" "lead_width runes k = 0"
  shows "lead_width runes (k @ c # t) = 0"
proof -
  have "\<not> prefix w (k @ c # t)" if w: "w \<in> set runes" for w
  proof
    assume "prefix w (k @ c # t)"
    then consider "prefix w k" | us where "w = k @ us" "prefix us (c # t)" by (auto simp: prefix_append)
    then show False
    proof cases
      case (2 us)
      then have "us = []" using assms(1) w by (cases us) auto
      then show False using 2 assms w lead_width_zero[of runes k] by auto
    qed (use assms w lead_width_zero[of runes k] in auto)
  qed
  then show ?thesis using assms(1) lead_width_zero by blast
qed

lemma trim_lead_keeps:
  "\<forall>w \<in> set runes. c \<notin> set w \<Longrightarrow> c \<in> set s \<Longrightarrow> c \<in> set (trim_lead runes s)"
proof (induction runes s rule: trim_lead.induct)
  case (1 runes s)
  show ?case
  proof (cases "s \<noteq> [] \<and> 0 < lead_width runes s")
    case True
    then obtain w where w: "List.find (\<lambda>w. prefix w s) runes = Some w"
      by (auto simp: lead_width_def split: option.splits)
    then obtain u where "w \<in> set runes" "s = w @ u" by (metis find_Some_in prefixE)
    moreover have "lead_width runes s = length w" using w by (simp add: lead_width_def)
    ultimately have "c \<in> set (drop (lead_width runes s) s)" using 1(2,3) by auto
    then show ?thesis using 1(1)[OF True 1(2)] True by (subst trim_lead.simps) simp
  next
    case False
    then have "trim_lead runes s = s" by (subst trim_lead.simps) auto
    then show ?thesis using 1(3) by simp
  qed
qed

lemma trim_space_prefix: "prefix (trim_space s) (trim_lead space_runes s)"
  using trim_lead_suffix[of "map rev space_runes" "rev (trim_lead space_runes s)"]
  by (simp add: trim_space_def suffix_to_prefix)

lemma trim_space_infix: "\<exists>u v. s = u @ trim_space s @ v"
  using trim_space_prefix[of s] trim_lead_suffix[of space_runes s] unfolding prefix_def suffix_def
  by metis

lemma trim_space_head:
  assumes "lead_width space_runes s = 0" "c \<in> set s" "\<forall>w \<in> set space_runes. c \<notin> set w"
  shows "trim_space s \<noteq> []" "hd (trim_space s) = hd s"
proof -
  have "c \<in> set (trim_lead (map rev space_runes) (rev s))"
    by (rule trim_lead_keeps) (use assms(2,3) in auto)
  then show ne: "trim_space s \<noteq> []" using trim_lead_id[OF assms(1)] by (auto simp: trim_space_def)
  have "prefix (trim_space s) s" using trim_space_prefix[of s] trim_lead_id[OF assms(1)] by simp
  then obtain t where "s = trim_space s @ t" by (rule prefixE)
  then show "hd (trim_space s) = hd s" using ne by (metis hd_append2)
qed

section \<open>Valid UTF-8\<close>

text \<open>
  \<open>utf8.Valid\<close>: the table of first bytes and of the ranges of their continuation
  bytes, without overlong forms, surrogates and values above U+10FFFF.
\<close>

abbreviation continuation :: "char \<Rightarrow> bool" where
  "continuation \<equiv> byte_in 128 191"

fun rune2 :: "string \<Rightarrow> bool" where
  "rune2 (c # d # _) \<longleftrightarrow> byte_in 194 223 c \<and> continuation d"
| "rune2 _ \<longleftrightarrow> False"

fun rune3 :: "string \<Rightarrow> bool" where
  "rune3 (c # d # e # _) \<longleftrightarrow> byte_in 224 239 c \<and> continuation e \<and>
     (if byte c = 224 then byte_in 160 191 d else if byte c = 237 then byte_in 128 159 d else continuation d)"
| "rune3 _ \<longleftrightarrow> False"

fun rune4 :: "string \<Rightarrow> bool" where
  "rune4 (c # d # e # f # _) \<longleftrightarrow> byte_in 240 244 c \<and> continuation e \<and> continuation f \<and>
     (if byte c = 240 then byte_in 144 191 d else if byte c = 244 then byte_in 128 143 d else continuation d)"
| "rune4 _ \<longleftrightarrow> False"

definition rune_width :: "string \<Rightarrow> nat" where
  "rune_width s =
     (if s = [] then 0 else if byte (hd s) < 128 then 1
      else if rune2 s then 2 else if rune3 s then 3 else if rune4 s then 4 else 0)"

lemma rune2_D: "rune2 s \<Longrightarrow> 2 \<le> length s \<and> byte_in 194 223 (hd s)"
  by (cases s rule: rune2.cases) auto

lemma rune3_D: "rune3 s \<Longrightarrow> 3 \<le> length s \<and> byte_in 224 239 (hd s)"
  by (cases s rule: rune3.cases) auto

lemma rune4_D: "rune4 s \<Longrightarrow> 4 \<le> length s \<and> byte_in 240 244 (hd s)"
  by (cases s rule: rune4.cases) auto

lemma rune_append:
  "rune2 s \<Longrightarrow> rune2 (s @ t)" "rune3 s \<Longrightarrow> rune3 (s @ t)" "rune4 s \<Longrightarrow> rune4 (s @ t)"
  by (cases s rule: rune2.cases, auto, cases s rule: rune3.cases, auto, cases s rule: rune4.cases, auto)

lemma rune_stop:
  assumes "s \<noteq> []" "byte a < 128"
  shows "rune2 (s @ a # t) = rune2 s" "rune3 (s @ a # t) = rune3 s" "rune4 (s @ a # t) = rune4 s"
proof -
  show "rune2 (s @ a # t) = rune2 s"
    using assms by (cases s rule: rune2.cases) (simp_all add: byte_in_def)
  show "rune3 (s @ a # t) = rune3 s"
    using assms by (cases s rule: rune3.cases) (cases t; simp add: byte_in_def)+
  show "rune4 (s @ a # t) = rune4 s"
    using assms by (cases s rule: rune4.cases) (cases t; cases "tl t"; simp add: byte_in_def)+
qed

function utf8_valid :: "string \<Rightarrow> bool" where
  "utf8_valid s =
     (if s = [] then True else if rune_width s = 0 then False else utf8_valid (drop (rune_width s) s))"
  by pat_completeness auto
termination by (relation "measure length") auto

declare utf8_valid.simps [simp del]

lemma utf8_valid_Nil [simp]: "utf8_valid []"
  by (subst utf8_valid.simps) simp

lemma utf8_valid_step:
  "s \<noteq> [] \<Longrightarrow> utf8_valid s \<longleftrightarrow> 0 < rune_width s \<and> utf8_valid (drop (rune_width s) s)"
  by (subst utf8_valid.simps) simp

lemma utf8_valid_ascii [simp]: "byte c < 128 \<Longrightarrow> utf8_valid (c # s) \<longleftrightarrow> utf8_valid s"
  by (subst utf8_valid.simps) (simp add: rune_width_def)

lemma rune_width_le: "rune_width s \<le> length s"
  using rune2_D[of s] rune3_D[of s] rune4_D[of s] by (cases s) (auto simp: rune_width_def)

lemma rune_width_append: "0 < rune_width s \<Longrightarrow> rune_width (s @ t) = rune_width s"
  using rune_append[of s t] rune2_D[of s] rune3_D[of s] rune4_D[of s] rune2_D[of "s @ t"] rune3_D[of "s @ t"]
  by (cases s) (auto simp: rune_width_def byte_in_def split: if_splits)

text \<open>A rune never runs past an ASCII byte.\<close>

lemma rune_width_stop: "s \<noteq> [] \<Longrightarrow> byte a < 128 \<Longrightarrow> rune_width (s @ a # t) = rune_width s"
  using rune_stop[of s a t] by (cases s) (simp_all add: rune_width_def)

lemma utf8_valid_append: "utf8_valid s \<Longrightarrow> utf8_valid t \<Longrightarrow> utf8_valid (s @ t)"
proof (induction s rule: utf8_valid.induct)
  case (1 s)
  show ?case
  proof (cases "s = []")
    case False
    then have w: "0 < rune_width s" "utf8_valid (drop (rune_width s) s)"
      using 1(2) utf8_valid_step by blast+
    then have "utf8_valid (drop (rune_width s) s @ t)" using False 1(1,3) by simp
    then show ?thesis
      using w False rune_width_append[of s t] rune_width_le[of s] by (simp add: utf8_valid_step)
  qed (use 1 in simp)
qed

lemma utf8_valid_split:
  "byte a < 128 \<Longrightarrow> utf8_valid (s @ a # t) \<longleftrightarrow> utf8_valid s \<and> utf8_valid t"
proof (induction s rule: utf8_valid.induct)
  case (1 s)
  show ?case
  proof (cases "s = []")
    case False
    have w: "rune_width (s @ a # t) = rune_width s" "rune_width s \<le> length s"
      using False 1(2) rune_width_stop rune_width_le by auto
    show ?thesis
    proof (cases "0 < rune_width s")
      case True
      have "utf8_valid (s @ a # t) \<longleftrightarrow> utf8_valid (drop (rune_width s) s @ a # t)"
        using w True utf8_valid_step[of "s @ a # t"] by simp
      also have "\<dots> \<longleftrightarrow> utf8_valid (drop (rune_width s) s) \<and> utf8_valid t" using 1(1)[OF False _ 1(2)] True by simp
      also have "\<dots> \<longleftrightarrow> utf8_valid s \<and> utf8_valid t" using True utf8_valid_step[OF False] by simp
      finally show ?thesis .
    next
      case nope: False
      have "\<not> utf8_valid (s @ a # t)" using w nope utf8_valid_step[of "s @ a # t"] by simp
      moreover have "\<not> utf8_valid s" using nope utf8_valid_step[OF False] by simp
      ultimately show ?thesis by simp
    qed
  qed (use 1 in simp)
qed

lemma utf8_valid_split_on:
  "byte a < 128 \<Longrightarrow> utf8_valid s \<longleftrightarrow> (\<forall>w \<in> set (split_on a s). utf8_valid w)"
proof (induction "length s" arbitrary: s rule: less_induct)
  case less
  show ?case
  proof (cases "a \<in> set s")
    case True
    then obtain u v where uv: "s = u @ a # v" "a \<notin> set u" by (metis split_list_first)
    then have "utf8_valid v \<longleftrightarrow> (\<forall>w \<in> set (split_on a v). utf8_valid w)" using less by simp
    then show ?thesis using uv less.prems by (simp add: split_on_append utf8_valid_split)
  next
    case False
    then show ?thesis by (simp add: split_on_no_sep)
  qed
qed

lemma utf8_valid_all_ascii: "list_all (\<lambda>c. byte c < 128) s \<Longrightarrow> utf8_valid s"
  by (induction s) auto

lemma utf8_valid_join:
  "utf8_valid sep \<Longrightarrow> \<forall>w \<in> set ws. utf8_valid w \<Longrightarrow> utf8_valid (join_with sep ws)"
  by (induction sep ws rule: join_with.induct) (auto intro!: utf8_valid_append)

text \<open>The bytes of a multi-byte rune are not ASCII, and they are all the width depends on.\<close>

lemma rune_bytes:
  assumes "s \<noteq> []" "128 \<le> byte (hd s)" "0 < rune_width s"
  shows "list_all (\<lambda>c. 128 \<le> byte c) (take (rune_width s) s)"
    and "rune_width (take (rune_width s) s @ t) = rune_width s"
proof -
  consider (two) c d r where "s = c # d # r" "rune2 s" "rune_width s = 2"
    | (three) c d e r where "s = c # d # e # r" "\<not> rune2 s" "rune3 s" "rune_width s = 3"
    | (four) c d e f r where "s = c # d # e # f # r" "\<not> rune2 s" "\<not> rune3 s" "rune4 s" "rune_width s = 4"
    using assms by (cases s rule: rune4.cases) (auto simp: rune_width_def split: if_splits)
  then have "list_all (\<lambda>c. 128 \<le> byte c) (take (rune_width s) s) \<and>
      rune_width (take (rune_width s) s @ t) = rune_width s"
  proof cases
    case two
    then show ?thesis by (auto simp: rune_width_def byte_in_def)
  next
    case three
    then show ?thesis by (auto simp: rune_width_def byte_in_def split: if_splits)
  next
    case four
    then show ?thesis by (auto simp: rune_width_def byte_in_def split: if_splits)
  qed
  then show "list_all (\<lambda>c. 128 \<le> byte c) (take (rune_width s) s)"
    "rune_width (take (rune_width s) s @ t) = rune_width s" by auto
qed

lemma utf8_valid_concat_map:
  assumes ascii: "\<And>c. byte c < 128 \<Longrightarrow> utf8_valid (f c)" and same: "\<And>c. 128 \<le> byte c \<Longrightarrow> f c = [c]"
  shows "utf8_valid s \<Longrightarrow> utf8_valid (concat (map f s))"
proof (induction s rule: utf8_valid.induct)
  case (1 s)
  show ?case
  proof (cases "s = []")
    case False
    let ?w = "rune_width s"
    have w: "0 < ?w" "utf8_valid (drop ?w s)" using 1(2) False utf8_valid_step by blast+
    then have rest: "utf8_valid (concat (map f (drop ?w s)))" using 1(1) False by simp
    have split: "concat (map f s) = concat (map f (take ?w s)) @ concat (map f (drop ?w s))"
      by (metis append_take_drop_id concat_append map_append)
    show ?thesis
    proof (cases "byte (hd s) < 128")
      case True
      then have "take ?w s = [hd s]" using False by (cases s) (simp_all add: rune_width_def)
      then show ?thesis using split rest ascii[OF True] by (simp add: utf8_valid_append)
    next
      case multi: False
      then have b: "list_all (\<lambda>c. 128 \<le> byte c) (take ?w s)" using rune_bytes(1)[OF False _ w(1)] by simp
      have id_on: "list_all (\<lambda>c. 128 \<le> byte c) xs \<Longrightarrow> concat (map f xs) = xs" for xs
        by (induction xs) (simp_all add: same)
      have "utf8_valid (take ?w s @ concat (map f (drop ?w s)))"
        using rune_bytes(2)[OF False _ w(1)] multi rest w(1) False rune_width_le[of s]
        by (subst utf8_valid_step) simp_all
      then show ?thesis using split id_on[OF b] by simp
    qed
  qed simp
qed

section \<open>Decimal and hexadecimal digits\<close>

fun digits_value :: "nat \<Rightarrow> string \<Rightarrow> nat" where
  "digits_value n [] = n"
| "digits_value n (c # cs) = digits_value (10 * n + (byte c - 48)) cs"

text \<open>\<open>strconv.Atoi\<close> on a non-empty string of digits, with 64-bit integers.\<close>

definition atoi_digits :: "string \<Rightarrow> nat option" where
  "atoi_digits s = (let n = digits_value 0 s in if n \<le> 9223372036854775807 then Some n else None)"

definition hex_digit :: "char \<Rightarrow> nat option" where
  "hex_digit c =
     (if is_digit c then Some (byte c - 48)
      else if byte_in 97 102 c then Some (byte c - 87)
      else if byte_in 65 70 c then Some (byte c - 55) else None)"

fun hex4 :: "string \<Rightarrow> (nat \<times> string) option" where
  "hex4 (a # b # c # d # s) =
     (case (hex_digit a, hex_digit b, hex_digit c, hex_digit d) of
        (Some w, Some x, Some y, Some z) \<Rightarrow> Some (4096 * w + 256 * x + 16 * y + z, s)
      | _ \<Rightarrow> None)"
| "hex4 _ = None"

lemma hex4_length: "hex4 s = Some (n, r) \<Longrightarrow> length r < length s"
  by (induction s rule: hex4.induct) (auto split: option.splits)

text \<open>\<open>utf8.EncodeRune\<close> for a code point below the surrogates or above them.\<close>

definition encode_rune :: "nat \<Rightarrow> string" where
  "encode_rune n =
     (if n < 128 then [char_of n]
      else if n < 2048 then [char_of (192 + n div 64), char_of (128 + n mod 64)]
      else if n < 65536 then
        [char_of (224 + n div 4096), char_of (128 + n div 64 mod 64), char_of (128 + n mod 64)]
      else [char_of (240 + n div 262144), char_of (128 + n div 4096 mod 64),
            char_of (128 + n div 64 mod 64), char_of (128 + n mod 64)])"

text \<open>The first rune of a string; an invalid byte is the replacement character.\<close>

definition rune_value :: "string \<Rightarrow> nat" where
  "rune_value s =
     (let b = (\<lambda>i. byte (s ! i)) in
      if rune_width s = 0 then 65533
      else if rune_width s = 1 then b 0
      else if rune_width s = 2 then (b 0 - 192) * 64 + (b 1 - 128)
      else if rune_width s = 3 then (b 0 - 224) * 4096 + (b 1 - 128) * 64 + (b 2 - 128)
      else (b 0 - 240) * 262144 + (b 1 - 128) * 4096 + (b 2 - 128) * 64 + (b 3 - 128))"

end
