(* ===== verification/ModuleTypes.thy ===== *)
theory ModuleTypes
  imports GoStrings "HOL-Library.Finite_Map"
begin

text \<open>
  The declarative data of a config module (\<open>internal/modules/types.go\<close>), as
  records with the fields of the Go structs that the engine interprets. A Go
  pointer is an \<open>option\<close>; a JSON value held in an \<open>any\<close> is a \<open>json\<close>, with
  numbers kept as their literal text (the decoder runs with \<open>UseNumber\<close>) and
  objects as finite maps.
\<close>

datatype json =
    JNull
  | JBool bool
  | JNum string
  | JStr string
  | JArr "json list"
  | JObj "(string, json) fmap"

record version_selector =
  sel_versionRange :: string
  sel_versionPattern :: string

record validation_def =
  vd_type :: string
  vd_path :: string
  vd_jsonPath :: string
  vd_section :: string
  vd_key :: string

record capture_file =
  cf_source :: string
  cf_dest :: string
  cf_optional :: bool

record capture_registry_key =
  crk_key :: string
  crk_dest :: string
  crk_optional :: bool

record capture_registry_value =
  crv_key :: string
  crv_valueName :: string
  crv_optional :: bool

record capture_def =
  cap_files :: "capture_file list"
  cap_registryKeys :: "capture_registry_key list"
  cap_registryValues :: "capture_registry_value list"
  cap_excludeGlobs :: "string list"

record restore_def =
  rd_type :: string
  rd_source :: string
  rd_target :: string
  rd_pattern :: string
  rd_backup :: bool
  rd_optional :: bool
  rd_exclude :: "string list"
  rd_key :: string
  rd_valueName :: string
  rd_valueType :: string
  rd_data :: string

record verify_def =
  vf_type :: string
  vf_path :: string
  vf_command :: string
  vf_valueName :: string
  vf_valueType :: string
  vf_data :: string

text \<open>
  \<open>op_value\<close> is \<open>None\<close> when the declaration omits \<open>value\<close>; an explicit
  JSON null is \<open>Some JNull\<close> (the struct's private \<open>valueSet\<close> bit).
\<close>

record migration_operation =
  op_type :: string
  op_source :: string
  op_target :: string
  op_path :: string
  op_jsonPath :: string
  op_from :: string
  op_to :: string
  op_section :: string
  op_key :: string
  op_fromSection :: string
  op_fromKey :: string
  op_toSection :: string
  op_toKey :: string
  op_value :: "json option"

record migration_edge =
  edge_from :: string
  edge_to :: string
  edge_operations :: "migration_operation list"
  edge_validate :: "validation_def list"

record generation_def =
  gen_id :: string
  gen_order :: int
  gen_matches :: "version_selector list"
  gen_accepts :: "string list"
  gen_capture :: "capture_def option"
  gen_restore :: "restore_def list"
  gen_validate :: "validation_def list"
  gen_requiresAppClosed :: bool
  gen_fingerprint :: string

record config_set =
  set_id :: string
  set_generations :: "generation_def list"
  set_migrations :: "migration_edge list"

record instance_detector =
  det_id :: string
  det_type :: string
  det_glob :: string
  det_versionPattern :: string

record config_def =
  cd_detectors :: "instance_detector list"
  cd_sets :: "config_set list"

record match_criteria =
  mc_winget :: "string list"
  mc_chocolatey :: "string list"
  mc_exe :: "string list"
  mc_uninstallDisplayName :: "string list"
  mc_pathExists :: "string list"

record module_def =
  mod_schemaVersion :: int
  mod_id :: string
  mod_displayName :: string
  mod_matches :: match_criteria
  mod_verify :: "verify_def list"
  mod_restore :: "restore_def list"
  mod_capture :: "capture_def option"
  mod_config :: "config_def option"
  mod_revision :: string

text \<open>An omitted \<open>moduleSchemaVersion\<close> is the backward-compatible schema 1.\<close>

definition effective_schema_version :: "module_def option \<Rightarrow> int" where
  "effective_schema_version m =
     (case m of None \<Rightarrow> 1
      | Some md \<Rightarrow> if mod_schemaVersion md = 0 then 1 else mod_schemaVersion md)"

text \<open>The empty declarations, on which examples are built by record update.\<close>

definition empty_generation :: generation_def where
  "empty_generation = \<lparr>gen_id = [], gen_order = 0, gen_matches = [], gen_accepts = [],
     gen_capture = None, gen_restore = [], gen_validate = [], gen_requiresAppClosed = False,
     gen_fingerprint = []\<rparr>"

definition empty_operation :: migration_operation where
  "empty_operation = \<lparr>op_type = [], op_source = [], op_target = [], op_path = [], op_jsonPath = [],
     op_from = [], op_to = [], op_section = [], op_key = [], op_fromSection = [], op_fromKey = [],
     op_toSection = [], op_toKey = [], op_value = None\<rparr>"

definition empty_validation :: validation_def where
  "empty_validation = \<lparr>vd_type = [], vd_path = [], vd_jsonPath = [], vd_section = [], vd_key = []\<rparr>"

end
