(* ===== verification/Versions.thy ===== *)
theory Versions
  imports ModuleTypes
begin

text \<open>
  \<open>internal/modules/version.go\<close>: numeric dotted versions of unbounded size, version
  ranges, version selectors and the exactly-one choice of a generation. Raw version
  patterns are handed to \<open>regexp\<close>, whose matcher is the parameter \<open>rx\<close>:
  \<open>rx p\<close> is \<open>None\<close> when \<open>p\<close> does not compile and otherwise the match predicate.
\<close>

type_synonym regexp = "string \<Rightarrow> (string \<Rightarrow> bool) option"

datatype version_error =
    NotNumericDotted string
  | EmptyRange
  | InvalidConstraint string
  | BadSelector
  | UnanchoredPattern string
  | InvalidPattern string

record version_evidence =
  ve_raw :: string
  ve_normalized :: string
  ve_numeric :: bool

section \<open>Normalisation\<close>

text \<open>The pattern \<open>^[0-9]+(?:\.[0-9]+)*$\<close>.\<close>

definition numeric_dotted :: "string \<Rightarrow> bool" where
  "numeric_dotted s \<longleftrightarrow> list_all (\<lambda>w. w \<noteq> [] \<and> list_all is_digit w) (split_on CHR ''.'' s)"

definition strip_leading_zeros :: "string \<Rightarrow> string" where
  "strip_leading_zeros part =
     (let p = dropWhile (\<lambda>c. c = CHR ''0'') part in if p = [] then ''0'' else p)"

function drop_zero_parts :: "string list \<Rightarrow> string list" where
  "drop_zero_parts parts =
     (if 1 < length parts \<and> last parts = ''0'' then drop_zero_parts (butlast parts) else parts)"
  by pat_completeness auto
termination by (relation "measure length") auto

declare drop_zero_parts.simps [simp del]

definition normalize_numeric_version :: "string \<Rightarrow> version_error + string" where
  "normalize_numeric_version version =
     (let trimmed = trim_space version in
      if \<not> numeric_dotted trimmed then Inl (NotNumericDotted version)
      else Inr (join_with ''.''
             (drop_zero_parts (map strip_leading_zeros (split_on CHR ''.'' trimmed)))))"

definition new_version_evidence :: "string \<Rightarrow> version_evidence" where
  "new_version_evidence raw =
     (case normalize_numeric_version raw of
        Inl _ \<Rightarrow> \<lparr>ve_raw = raw, ve_normalized = [], ve_numeric = False\<rparr>
      | Inr n \<Rightarrow> \<lparr>ve_raw = raw, ve_normalized = n, ve_numeric = True\<rparr>)"

section \<open>Comparison\<close>

definition compare_part :: "string \<Rightarrow> string \<Rightarrow> int" where
  "compare_part l r =
     (if length l < length r then -1
      else if length l > length r then 1
      else if l < r then -1
      else if l > r then 1
      else 0)"

text \<open>The loop over the longer of the two part lists; a missing part is \<open>0\<close>.\<close>

fun compare_parts :: "string list \<Rightarrow> string list \<Rightarrow> int" where
  "compare_parts [] [] = 0"
| "compare_parts (l # ls) [] =
     (let c = compare_part l ''0'' in if c \<noteq> 0 then c else compare_parts ls [])"
| "compare_parts [] (r # rs) =
     (let c = compare_part ''0'' r in if c \<noteq> 0 then c else compare_parts [] rs)"
| "compare_parts (l # ls) (r # rs) =
     (let c = compare_part l r in if c \<noteq> 0 then c else compare_parts ls rs)"

definition compare_numeric_versions :: "string \<Rightarrow> string \<Rightarrow> version_error + int" where
  "compare_numeric_versions left right =
     try_res (normalize_numeric_version left) (\<lambda>l.
     try_res (normalize_numeric_version right) (\<lambda>r.
     Inr (compare_parts (split_on CHR ''.'' l) (split_on CHR ''.'' r))))"

section \<open>Ranges\<close>

text \<open>
  The pattern \<open>^(>=|<=|==|!=|>|<|=)?([0-9]+(?:\.[0-9]+)*)$\<close>: the operator is
  optional and the version starts with a digit, so at most one split of the
  constraint matches.
\<close>

definition range_operators :: "string list" where
  "range_operators = [''>='', ''<='', ''=='', ''!='', ''>'', ''<'', ''='']"

definition parse_constraint :: "string \<Rightarrow> (string \<times> string) option" where
  "parse_constraint s =
     (case List.find (\<lambda>p. prefix p s \<and> numeric_dotted (drop (length p) s)) range_operators of
        Some p \<Rightarrow> Some (p, drop (length p) s)
      | None \<Rightarrow> if numeric_dotted s then Some (''='', s) else None)"

definition constraint_holds :: "string \<Rightarrow> int \<Rightarrow> bool" where
  "constraint_holds operator comparison =
     (if operator = ''>'' then 0 < comparison
      else if operator = ''>='' then 0 \<le> comparison
      else if operator = ''<'' then comparison < 0
      else if operator = ''<='' then comparison \<le> 0
      else if operator = ''='' \<or> operator = ''=='' then comparison = 0
      else if operator = ''!='' then comparison \<noteq> 0
      else False)"

fun parse_constraints :: "string list \<Rightarrow> version_error + (string \<times> string) list" where
  "parse_constraints [] = Inr []"
| "parse_constraints (c # cs) =
     (case parse_constraint c of
        None \<Rightarrow> Inl (InvalidConstraint c)
      | Some p \<Rightarrow> try_res (parse_constraints cs) (\<lambda>ps. Inr (p # ps)))"

fun all_constraints_hold :: "string \<Rightarrow> (string \<times> string) list \<Rightarrow> version_error + bool" where
  "all_constraints_hold version [] = Inr True"
| "all_constraints_hold version ((operator, bound) # ps) =
     try_res (compare_numeric_versions version bound) (\<lambda>comparison.
       if constraint_holds operator comparison then all_constraints_hold version ps else Inr False)"

definition match_numeric_version_range :: "string \<Rightarrow> string \<Rightarrow> version_error + bool" where
  "match_numeric_version_range version expression =
     try_res (normalize_numeric_version version) (\<lambda>_.
       let constraints = string_fields (trim_space expression) in
       if constraints = [] then Inl EmptyRange
       else try_res (parse_constraints constraints) (all_constraints_hold version))"

section \<open>Selectors and the choice of a generation\<close>

definition validate_anchored_pattern :: "regexp \<Rightarrow> string \<Rightarrow> version_error option" where
  "validate_anchored_pattern rx pattern =
     (if \<not> prefix ''^'' pattern \<or> \<not> suffix ''$'' pattern then Some (UnanchoredPattern pattern)
      else if rx pattern = None then Some (InvalidPattern pattern) else None)"

definition match_version_selector ::
    "regexp \<Rightarrow> version_selector \<Rightarrow> version_evidence \<Rightarrow> version_error + bool" where
  "match_version_selector rx selector evidence =
     (let hasRange = sel_versionRange selector \<noteq> [];
          hasPattern = sel_versionPattern selector \<noteq> [] in
      if hasRange = hasPattern then Inl BadSelector
      else if hasRange then
        (if \<not> ve_numeric evidence then Inr False
         else match_numeric_version_range (ve_normalized evidence) (sel_versionRange selector))
      else guard_res (validate_anchored_pattern rx (sel_versionPattern selector))
        (case rx (sel_versionPattern selector) of
           None \<Rightarrow> Inl (InvalidPattern (sel_versionPattern selector))
         | Some m \<Rightarrow> Inr (m (ve_raw evidence))))"

datatype generation_match_error =
    SelectorError version_error
  | GenerationUnknown string
  | GenerationAmbiguous string "string list"

text \<open>The selectors of one generation: any match decides, an error stops.\<close>

fun any_selector_matches ::
    "regexp \<Rightarrow> version_selector list \<Rightarrow> version_evidence \<Rightarrow> version_error + bool" where
  "any_selector_matches rx [] evidence = Inr False"
| "any_selector_matches rx (s # ss) evidence =
     try_res (match_version_selector rx s evidence) (\<lambda>matched.
       if matched then Inr True else any_selector_matches rx ss evidence)"

definition generation_matches ::
    "regexp \<Rightarrow> generation_def \<Rightarrow> version_evidence \<Rightarrow> version_error + bool" where
  "generation_matches rx g evidence =
     (if gen_matches g = [] then Inr True else any_selector_matches rx (gen_matches g) evidence)"

fun matching_generations ::
    "regexp \<Rightarrow> generation_def list \<Rightarrow> version_evidence \<Rightarrow> version_error + generation_def list" where
  "matching_generations rx [] evidence = Inr []"
| "matching_generations rx (g # gs) evidence =
     try_res (generation_matches rx g evidence) (\<lambda>matched.
     try_res (matching_generations rx gs evidence) (\<lambda>rest.
       Inr (if matched then g # rest else rest)))"

definition select_generation ::
    "regexp \<Rightarrow> config_set option \<Rightarrow> version_evidence \<Rightarrow> generation_match_error + generation_def" where
  "select_generation rx cset evidence =
     (case cset of
        None \<Rightarrow> Inl (GenerationUnknown [])
      | Some s \<Rightarrow>
          (case matching_generations rx (set_generations s) evidence of
             Inl e \<Rightarrow> Inl (SelectorError e)
           | Inr [] \<Rightarrow> Inl (GenerationUnknown (set_id s))
           | Inr [g] \<Rightarrow> Inr g
           | Inr gs \<Rightarrow> Inl (GenerationAmbiguous (set_id s) (map gen_id gs))))"

text \<open>\<open>GenerationMatchCode\<close>: the stable reason, empty for a selector error.\<close>

definition generation_match_code :: "generation_match_error \<Rightarrow> string" where
  "generation_match_code e =
     (case e of SelectorError _ \<Rightarrow> []
      | GenerationUnknown _ \<Rightarrow> ''unknown_generation''
      | GenerationAmbiguous _ _ \<Rightarrow> ''ambiguous_generation'')"


section \<open>What a version denotes\<close>

text \<open>
  A numeric version denotes the sequence of its component values, with zeros after
  the last component. The order of versions is the lexicographic order of these
  sequences.
\<close>

definition part_at :: "nat list \<Rightarrow> nat \<Rightarrow> nat" where
  "part_at vs i = (if i < length vs then vs ! i else 0)"

definition version_component :: "string \<Rightarrow> nat \<Rightarrow> nat" where
  "version_component v = part_at (map (digits_value 0) (split_on CHR ''.'' (trim_space v)))"

definition first_difference_less :: "(nat \<Rightarrow> nat) \<Rightarrow> (nat \<Rightarrow> nat) \<Rightarrow> bool" where
  "first_difference_less f g \<longleftrightarrow> (\<exists>i. (\<forall>j < i. f j = g j) \<and> f i < g i)"

lemma part_at_simps [simp]:
  "part_at [] i = 0" "part_at (v # vs) 0 = v" "part_at (v # vs) (Suc i) = part_at vs i"
  by (simp_all add: part_at_def)

lemma first_difference_less_step:
  "first_difference_less f g \<longleftrightarrow>
     f 0 < g 0 \<or> f 0 = g 0 \<and> first_difference_less (\<lambda>i. f (Suc i)) (\<lambda>i. g (Suc i))"
proof
  assume "first_difference_less f g"
  then obtain i where i: "\<forall>j < i. f j = g j" "f i < g i"
    by (auto simp: first_difference_less_def)
  show "f 0 < g 0 \<or> f 0 = g 0 \<and> first_difference_less (\<lambda>i. f (Suc i)) (\<lambda>i. g (Suc i))"
  proof (cases i)
    case (Suc k)
    with i show ?thesis by (auto simp: first_difference_less_def)
  qed (use i in simp)
next
  assume "f 0 < g 0 \<or> f 0 = g 0 \<and> first_difference_less (\<lambda>i. f (Suc i)) (\<lambda>i. g (Suc i))"
  then show "first_difference_less f g"
  proof (elim disjE conjE)
    assume "f 0 = g 0" "first_difference_less (\<lambda>i. f (Suc i)) (\<lambda>i. g (Suc i))"
    then obtain i where "\<forall>j < i. f (Suc j) = g (Suc j)" "f (Suc i) < g (Suc i)"
      by (auto simp: first_difference_less_def)
    with \<open>f 0 = g 0\<close> show ?thesis
      unfolding first_difference_less_def by (intro exI[of _ "Suc i"]) (auto simp: less_Suc_eq_0_disj)
  qed (auto simp: first_difference_less_def)
qed

lemma all_nat_step: "(\<forall>i. f i = g i) \<longleftrightarrow> f 0 = g 0 \<and> (\<forall>i. f (Suc i) = g (Suc i))"
  by (metis not0_implies_Suc)

section \<open>Digit strings\<close>

definition canonical_part :: "string \<Rightarrow> bool" where
  "canonical_part p \<longleftrightarrow> p \<noteq> [] \<and> list_all is_digit p \<and> (p = ''0'' \<or> hd p \<noteq> CHR ''0'')"

lemma digits_value_shift: "digits_value n cs = n * 10 ^ length cs + digits_value 0 cs"
proof (induction cs arbitrary: n)
  case (Cons c cs)
  have "digits_value n (c # cs) = (10 * n + (byte c - 48)) * 10 ^ length cs + digits_value 0 cs"
    using Cons.IH[of "10 * n + (byte c - 48)"] by simp
  moreover have "digits_value 0 (c # cs) = (byte c - 48) * 10 ^ length cs + digits_value 0 cs"
    using Cons.IH[of "byte c - 48"] by simp
  ultimately show ?case by (simp add: algebra_simps)
qed simp

lemma digits_value_Cons:
  "digits_value 0 (c # cs) = (byte c - 48) * 10 ^ length cs + digits_value 0 cs"
  using digits_value_shift[of "byte c - 48" cs] by simp

declare digits_value.simps(2) [simp del]

lemma digits_value_bound: "list_all is_digit p \<Longrightarrow> digits_value 0 p < 10 ^ length p"
proof (induction p)
  case (Cons c cs)
  then have "byte c - 48 \<le> 9" "digits_value 0 cs < 10 ^ length cs"
    by (auto simp: byte_in_def)
  then have "(byte c - 48) * 10 ^ length cs + digits_value 0 cs < 9 * 10 ^ length cs + 10 ^ length cs"
    by (intro add_le_less_mono) auto
  then show ?case by (simp add: digits_value_Cons)
qed simp

lemma digits_value_less:
  "length p = length q \<Longrightarrow> list_all is_digit p \<Longrightarrow> list_all is_digit q \<Longrightarrow>
     p < q \<longleftrightarrow> digits_value 0 p < digits_value 0 q"
proof (induction p q rule: list_induct2)
  case (Cons x xs y ys)
  let ?n = "10 ^ length xs :: nat"
  have bounds: "digits_value 0 xs < ?n" "digits_value 0 ys < ?n"
    using Cons digits_value_bound[of xs] digits_value_bound[of ys] by auto
  have digit: "48 \<le> byte x" "48 \<le> byte y" using Cons.prems by (auto simp: byte_in_def)
  have lt: "digits_value 0 (a # as) < digits_value 0 (b # bs)"
    if "byte a < byte b" "48 \<le> byte a" "digits_value 0 as < ?n" "length as = length xs"
      "length bs = length xs" for a b :: char and as bs
  proof -
    have "Suc (byte a - 48) \<le> byte b - 48" using that by simp
    then have "Suc (byte a - 48) * ?n \<le> (byte b - 48) * ?n" by (rule mult_le_mono1)
    then show ?thesis using that by (simp add: digits_value_Cons)
  qed
  show ?case
  proof (cases "byte x" "byte y" rule: linorder_cases)
    case less
    then have "x < y" by (simp add: less_char_def)
    then show ?thesis using lt[OF less] bounds digit Cons.hyps by auto
  next
    case equal
    then have "x = y" by simp
    then show ?thesis using Cons by (simp add: digits_value_Cons)
  next
    case greater
    then have "y < x" by (simp add: less_char_def)
    then show ?thesis using lt[OF greater] bounds digit Cons.hyps by (auto dest: less_not_sym)
  qed
qed simp

lemma digits_value_ge: "canonical_part p \<Longrightarrow> p \<noteq> ''0'' \<Longrightarrow> 10 ^ (length p - 1) \<le> digits_value 0 p"
proof (cases p)
  case (Cons c cs)
  assume "canonical_part p" "p \<noteq> ''0''"
  then have "48 \<le> byte c" "c \<noteq> CHR ''0''" using Cons by (auto simp: canonical_part_def byte_in_def)
  moreover from this have "byte c \<noteq> (of_char (CHR ''0'') :: nat)" by (simp only: of_char_eq_iff not_False_eq_True)
  ultimately have "1 \<le> byte c - 48" by simp
  then have "1 * 10 ^ length cs \<le> (byte c - 48) * 10 ^ length cs" by (rule mult_le_mono1)
  then have "10 ^ length cs \<le> (byte c - 48) * 10 ^ length cs + digits_value 0 cs" by linarith
  then show ?thesis using Cons by (simp add: digits_value_Cons)
qed (simp add: canonical_part_def)

lemma compare_part_value:
  assumes "canonical_part p" "canonical_part q"
  shows "compare_part p q =
     (if digits_value 0 p < digits_value 0 q then -1
      else if digits_value 0 q < digits_value 0 p then 1 else 0)"
proof -
  have shorter: "digits_value 0 a < digits_value 0 b"
    if "length a < length b" "canonical_part a" "canonical_part b" for a b
  proof -
    have "b \<noteq> ''0''" using that by (auto simp: canonical_part_def)
    then have "10 ^ (length b - 1) \<le> digits_value 0 b" using that digits_value_ge by blast
    moreover have "digits_value 0 a < 10 ^ length a"
      using that digits_value_bound by (auto simp: canonical_part_def)
    moreover have "(10::nat) ^ length a \<le> 10 ^ (length b - 1)"
      using that by (intro power_increasing) auto
    ultimately show ?thesis by linarith
  qed
  have digits: "list_all is_digit p" "list_all is_digit q" using assms by (auto simp: canonical_part_def)
  show ?thesis
  proof (cases "length p" "length q" rule: linorder_cases)
    case equal
    then show ?thesis
      using digits_value_less[OF equal digits] digits_value_less[OF equal[symmetric] digits(2,1)]
      by (auto simp: compare_part_def)
  qed (use shorter assms in \<open>auto simp: compare_part_def dest: less_not_sym\<close>)
qed

lemma canonical_zero [simp]: "canonical_part ''0''" "digits_value 0 ''0'' = 0"
  by (simp_all add: canonical_part_def byte_in_def digits_value_Cons)

lemma canonical_strip:
  assumes "w \<noteq> []" "list_all is_digit w"
  shows "canonical_part (strip_leading_zeros w)"
proof (cases "dropWhile (\<lambda>c. c = CHR ''0'') w")
  case (Cons c cs)
  then have "c \<noteq> CHR ''0''" "w = takeWhile (\<lambda>c. c = CHR ''0'') w @ c # cs"
    using dropWhile_eq_Cons_conv[of "\<lambda>c. c = CHR ''0''" w c cs] by auto
  moreover from this have "list_all is_digit (c # cs)" using assms(2) by (metis list_all_append)
  ultimately show ?thesis using Cons by (simp add: strip_leading_zeros_def canonical_part_def)
qed (simp add: strip_leading_zeros_def)

lemma digits_value_strip: "digits_value 0 (strip_leading_zeros w) = digits_value 0 w"
proof -
  have drop: "digits_value 0 (dropWhile (\<lambda>c. c = CHR ''0'') w) = digits_value 0 w"
    by (induction w) (auto simp: digits_value_Cons)
  show ?thesis
  proof (cases "dropWhile (\<lambda>c. c = CHR ''0'') w = []")
    case True
    then have "digits_value 0 w = 0" using drop by (metis digits_value.simps(1))
    then show ?thesis using True by (simp add: strip_leading_zeros_def)
  next
    case False
    then show ?thesis using drop by (simp add: strip_leading_zeros_def Let_def del: dropWhile_eq_Nil_conv)
  qed
qed

section \<open>The comparison decides the lexicographic order\<close>

lemma compare_parts_spec:
  assumes "list_all canonical_part ls" "list_all canonical_part rs"
  shows "compare_parts ls rs =
     (if first_difference_less (part_at (map (digits_value 0) ls)) (part_at (map (digits_value 0) rs)) then -1
      else if \<forall>i. part_at (map (digits_value 0) ls) i = part_at (map (digits_value 0) rs) i then 0 else 1)"
  using assms
proof (induction ls rs rule: compare_parts.induct)
  case 1
  then show ?case by (simp add: first_difference_less_def)
next
  case (2 l ls)
  then show ?case
    by (subst first_difference_less_step, subst all_nat_step)
      (auto simp: compare_part_value Let_def)
next
  case (3 r rs)
  then show ?case
    by (subst first_difference_less_step, subst all_nat_step)
      (auto simp: compare_part_value Let_def)
next
  case (4 l ls r rs)
  then show ?case
    by (subst first_difference_less_step, subst all_nat_step)
      (auto simp: compare_part_value Let_def)
qed

lemma first_difference_total:
  "first_difference_less f g \<or> (\<forall>i. f i = g i) \<or> first_difference_less g f"
proof (cases "\<forall>i. f i = g i")
  case False
  define k where "k = (LEAST i. f i \<noteq> g i)"
  have "f k \<noteq> g k" "\<forall>j < k. f j = g j"
    using False not_less_Least unfolding k_def by (metis (mono_tags, lifting) LeastI, blast)
  then show ?thesis by (metis first_difference_less_def linorder_neqE_nat)
qed simp

lemma first_difference_asym: "first_difference_less f g \<Longrightarrow> \<not> first_difference_less g f"
  unfolding first_difference_less_def by (metis less_irrefl_nat linorder_neqE_nat order_less_asym)

lemma drop_zero_step:
  "1 < length ps \<and> last ps = ''0'' \<Longrightarrow> drop_zero_parts ps = drop_zero_parts (butlast ps)"
  by (subst drop_zero_parts.simps) simp

lemma drop_zero_stop: "\<not> (1 < length ps \<and> last ps = ''0'') \<Longrightarrow> drop_zero_parts ps = ps"
  by (subst drop_zero_parts.simps) (simp only: if_False)

lemma drop_zero_parts_induct [case_names drop stop]:
  assumes "\<And>ps. 1 < length ps \<and> last ps = ''0'' \<Longrightarrow> P (butlast ps) \<Longrightarrow> P ps"
    and "\<And>ps. \<not> (1 < length ps \<and> last ps = ''0'') \<Longrightarrow> P ps"
  shows "P (ps :: string list)"
  by (induction ps rule: drop_zero_parts.induct) (metis assms)

lemma drop_zero_parts_part_at:
  "part_at (map (digits_value 0) (drop_zero_parts ps)) = part_at (map (digits_value 0) ps)"
proof (induction ps rule: drop_zero_parts_induct)
  case (drop ps)
  then have ps: "ps = butlast ps @ [''0'']" by (metis append_butlast_last_id list.size(3) not_one_less_zero)
  have "part_at (map (digits_value 0) (butlast ps)) i = part_at (map (digits_value 0) (butlast ps @ [''0''])) i" for i
    by (auto simp: part_at_def nth_append)
  then have "part_at (map (digits_value 0) (butlast ps)) = part_at (map (digits_value 0) ps)"
    using ps by (auto simp: fun_eq_iff)
  with drop show ?case by (simp add: drop_zero_step)
qed (simp add: drop_zero_stop)

lemma drop_zero_parts_prefix: "prefix (drop_zero_parts ps) ps"
proof (induction ps rule: drop_zero_parts_induct)
  case (drop ps)
  then show ?case unfolding drop_zero_step[OF drop(1)] by (meson prefix_order.trans prefixeq_butlast)
qed (simp add: drop_zero_stop)

lemma drop_zero_parts_nonempty: "ps \<noteq> [] \<Longrightarrow> drop_zero_parts ps \<noteq> []"
proof (induction ps rule: drop_zero_parts_induct)
  case (drop ps)
  then have "butlast ps \<noteq> []" by (cases ps) auto
  with drop show ?case by (simp add: drop_zero_step)
qed (simp add: drop_zero_stop)

lemma drop_zero_parts_last: "1 < length (drop_zero_parts ps) \<Longrightarrow> last (drop_zero_parts ps) \<noteq> ''0''"
proof (induction ps rule: drop_zero_parts_induct)
  case (drop ps)
  then show ?case by (simp add: drop_zero_step)
next
  case (stop ps)
  then show ?case unfolding drop_zero_stop[OF stop(1)] by blast
qed

text \<open>The parts of the normal form of a numeric version.\<close>

definition normal_parts :: "string \<Rightarrow> string list" where
  "normal_parts version =
     drop_zero_parts (map strip_leading_zeros (split_on CHR ''.'' (trim_space version)))"

lemma normal_parts_canonical:
  assumes "numeric_dotted (trim_space v)"
  shows "list_all canonical_part (normal_parts v)"
proof -
  have "list_all canonical_part (map strip_leading_zeros (split_on CHR ''.'' (trim_space v)))"
    using assms canonical_strip by (auto simp: numeric_dotted_def list_all_iff)
  then show ?thesis
    using set_mono_prefix[OF drop_zero_parts_prefix] unfolding normal_parts_def list_all_iff by blast
qed

lemma canonical_no_dot: "canonical_part p \<Longrightarrow> CHR ''.'' \<notin> set p"
  by (auto simp: canonical_part_def list_all_iff byte_in_def)

lemma normalize_eq:
  "normalize_numeric_version v =
     (if numeric_dotted (trim_space v) then Inr (join_with ''.'' (normal_parts v)) else Inl (NotNumericDotted v))"
  by (simp add: normalize_numeric_version_def normal_parts_def Let_def)

lemma split_normal:
  assumes "numeric_dotted (trim_space v)"
  shows "split_on CHR ''.'' (join_with ''.'' (normal_parts v)) = normal_parts v"
proof (rule split_join)
  show "normal_parts v \<noteq> []" by (simp add: normal_parts_def drop_zero_parts_nonempty)
  show "\<forall>w \<in> set (normal_parts v). CHR ''.'' \<notin> set w"
    using normal_parts_canonical[OF assms] canonical_no_dot by (auto simp: list_all_iff)
qed

lemma normal_parts_component: "part_at (map (digits_value 0) (normal_parts v)) = version_component v"
  unfolding normal_parts_def version_component_def drop_zero_parts_part_at
  by (simp add: comp_def digits_value_strip)

lemma compare_numeric_versions_eq:
  "numeric_dotted (trim_space l) \<Longrightarrow> numeric_dotted (trim_space r) \<Longrightarrow>
     compare_numeric_versions l r =
       Inr (if first_difference_less (version_component l) (version_component r) then -1
            else if version_component l = version_component r then 0 else 1)"
  by (simp add: compare_numeric_versions_def normalize_eq split_normal compare_parts_spec
      normal_parts_canonical normal_parts_component fun_eq_iff)

text \<open>
  On any two numeric dotted versions the comparison returns, and its
  result is the sign of the lexicographic comparison of the component values, with
  missing components read as zero and no bound on a component's size.
\<close>

theorem compare_numeric_versions_correct:
  assumes "numeric_dotted (trim_space left)" and "numeric_dotted (trim_space right)"
  shows "\<exists>c. compare_numeric_versions left right = Inr c \<and> c \<in> {-1, 0, 1} \<and>
     (c = -1 \<longleftrightarrow> first_difference_less (version_component left) (version_component right)) \<and>
     (c = 0 \<longleftrightarrow> version_component left = version_component right) \<and>
     (c = 1 \<longleftrightarrow> first_difference_less (version_component right) (version_component left))"
proof -
  let ?f = "version_component left" and ?g = "version_component right"
  have "first_difference_less ?f ?g \<or> ?f = ?g \<or> first_difference_less ?g ?f"
    using first_difference_total by (auto simp: fun_eq_iff)
  moreover have "\<not> first_difference_less f f" for f by (simp add: first_difference_less_def)
  ultimately show ?thesis
    using assms first_difference_asym[of ?f ?g] by (auto simp: compare_numeric_versions_eq)
qed

theorem compare_numeric_versions_witness:
  "\<exists>c. compare_numeric_versions '' 1.010 '' ''1.9'' = Inr c \<and> c \<in> {-1, 0, 1} \<and>
     (c = -1 \<longleftrightarrow> first_difference_less (version_component '' 1.010 '') (version_component ''1.9'')) \<and>
     (c = 0 \<longleftrightarrow> version_component '' 1.010 '' = version_component ''1.9'') \<and>
     (c = 1 \<longleftrightarrow> first_difference_less (version_component ''1.9'') (version_component '' 1.010 ''))"
  by (rule compare_numeric_versions_correct) code_simp+

section \<open>Normal forms\<close>

lemma canonical_value_inj:
  assumes "canonical_part p" "canonical_part q" "digits_value 0 p = digits_value 0 q"
  shows "p = q"
proof -
  have "compare_part p q = 0" using assms by (simp add: compare_part_value)
  then show ?thesis by (auto simp: compare_part_def split: if_splits)
qed

lemma canonical_zero_value: "canonical_part p \<Longrightarrow> digits_value 0 p = 0 \<Longrightarrow> p = ''0''"
  using canonical_value_inj[of p "''0''"] by simp

lemma canonical_parts_inj:
  assumes "list_all canonical_part ps" "list_all canonical_part qs" "ps \<noteq> []" "qs \<noteq> []"
    and "1 < length ps \<Longrightarrow> last ps \<noteq> ''0''" "1 < length qs \<Longrightarrow> last qs \<noteq> ''0''"
    and eq: "part_at (map (digits_value 0) ps) = part_at (map (digits_value 0) qs)"
  shows "ps = qs"
proof -
  have longer: False
    if "length a < length b" "a \<noteq> []" "list_all canonical_part b" "1 < length b \<Longrightarrow> last b \<noteq> ''0''"
      "part_at (map (digits_value 0) a) = part_at (map (digits_value 0) b)" for a b
  proof -
    have len: "1 < length b" using that by (cases a) auto
    have "part_at (map (digits_value 0) b) (length b - 1) = 0"
      using that len by (auto simp: part_at_def fun_eq_iff dest!: spec[of _ "length b - 1"] split: if_splits)
    moreover have "b \<noteq> []" using len by auto
    ultimately have "digits_value 0 (last b) = 0" by (simp add: part_at_def last_conv_nth)
    then show False
      using that len \<open>b \<noteq> []\<close> canonical_zero_value[of "last b"] by (auto simp: list_all_iff)
  qed
  have len: "length ps = length qs"
    using longer[of ps qs] longer[of qs ps] assms by (cases "length ps" "length qs" rule: linorder_cases) auto
  show ?thesis
  proof (rule nth_equalityI[OF len])
    fix i assume i: "i < length ps"
    then have "digits_value 0 (ps ! i) = digits_value 0 (qs ! i)"
      using eq len by (auto simp: part_at_def fun_eq_iff dest!: spec[of _ i])
    then show "ps ! i = qs ! i"
      using assms(1,2) i len by (intro canonical_value_inj) (auto simp: list_all_length)
  qed
qed

lemma space_runes_no_digit:
  "list_all (\<lambda>w. w \<noteq> [] \<and> \<not> is_digit (hd w)) space_runes"
  "list_all (\<lambda>w. w \<noteq> [] \<and> \<not> is_digit (hd w)) (map rev space_runes)"
  by code_simp+

lemma lead_width_digit: "is_digit c \<Longrightarrow> lead_width space_runes (c # s) = 0"
  by (rule lead_width_head) (use space_runes_no_digit(1) in \<open>auto simp: list_all_iff\<close>)

lemma lead_width_digit_rev: "is_digit c \<Longrightarrow> lead_width (map rev space_runes) (c # s) = 0"
  by (rule lead_width_head) (use space_runes_no_digit(2) in \<open>auto simp: list_all_iff\<close>)

lemma trim_space_digits:
  "s \<noteq> [] \<Longrightarrow> is_digit (hd s) \<Longrightarrow> is_digit (last s) \<Longrightarrow> trim_space s = s"
proof -
  assume "s \<noteq> []" "is_digit (hd s)" "is_digit (last s)"
  moreover from this have "rev s = last s # rev (butlast s)"
    by (metis append_butlast_last_id rev.simps(2) rev_rev_ident rev_append append_Cons append_Nil)
  ultimately have "no_outer_space s"
    using lead_width_digit lead_width_digit_rev by (cases s) (auto simp: no_outer_space_def)
  then show ?thesis by (rule trim_space_id)
qed

lemma hd_split_on: "s \<noteq> [] \<Longrightarrow> hd (split_on c s) \<noteq> [] \<Longrightarrow> hd (hd (split_on c s)) = hd s"
  by (cases s) (auto split: list.splits)

lemma last_split_on: "s \<noteq> [] \<Longrightarrow> last (split_on c s) \<noteq> [] \<Longrightarrow> last (last (split_on c s)) = last s"
proof (induction s)
  case (Cons x s)
  obtain w ws where w: "split_on c s = w # ws" by (cases "split_on c s") auto
  show ?case
  proof (cases "s = []")
    case False
    then have "split_on c s \<noteq> [[]]" using join_split[of c s] by fastforce
    with Cons w False show ?thesis by (auto split: if_splits)
  qed (use Cons in auto)
qed simp

lemma numeric_dotted_ends:
  assumes "numeric_dotted s"
  shows "s \<noteq> []" "is_digit (hd s)" "is_digit (last s)"
proof -
  show ne: "s \<noteq> []" using assms by (auto simp: numeric_dotted_def)
  have all: "w \<noteq> [] \<and> list_all is_digit w" if "w \<in> set (split_on CHR ''.'' s)" for w
    using assms that by (auto simp: numeric_dotted_def list_all_iff)
  have "hd (split_on CHR ''.'' s) \<in> set (split_on CHR ''.'' s)"
    "last (split_on CHR ''.'' s) \<in> set (split_on CHR ''.'' s)" by simp_all
  then show "is_digit (hd s)" "is_digit (last s)"
    using all hd_split_on[OF ne, of "CHR ''.''"] last_split_on[OF ne, of "CHR ''.''"]
    by (metis list_all_iff hd_in_set, metis list_all_iff last_in_set)
qed

lemma numeric_dotted_trim: "numeric_dotted s \<Longrightarrow> trim_space s = s"
  using numeric_dotted_ends trim_space_digits by metis

lemma numeric_dotted_normal:
  assumes "numeric_dotted (trim_space v)"
  shows "numeric_dotted (join_with ''.'' (normal_parts v))"
  using normal_parts_canonical[OF assms] split_normal[OF assms]
  by (auto simp: numeric_dotted_def canonical_part_def list_all_iff)

text \<open>
  Normalisation is idempotent and canonical: a normalised version
  normalises to itself, and two versions have the same normal form exactly when
  they denote the same component values, that is, when they compare as equal.
\<close>

theorem normalize_numeric_version_canonical:
  assumes "normalize_numeric_version v = Inr n" and "normalize_numeric_version w = Inr m"
  shows "normalize_numeric_version n = Inr n \<and> version_component n = version_component v \<and>
     (n = m \<longleftrightarrow> compare_numeric_versions v w = Inr 0)"
proof -
  have v: "numeric_dotted (trim_space v)" "n = join_with ''.'' (normal_parts v)"
    and w: "numeric_dotted (trim_space w)" "m = join_with ''.'' (normal_parts w)"
    using assms by (auto simp: normalize_eq split: if_splits)
  have n: "numeric_dotted (trim_space n)"
    using v numeric_dotted_normal numeric_dotted_trim by simp
  have comp: "version_component n = version_component v"
    using v n numeric_dotted_normal[OF v(1)]
    by (simp add: version_component_def numeric_dotted_trim split_normal normal_parts_component[unfolded version_component_def])
  have inj: "normal_parts a = normal_parts b"
    if "numeric_dotted (trim_space a)" "numeric_dotted (trim_space b)"
      "version_component a = version_component b" for a b
  proof (rule canonical_parts_inj)
    show "normal_parts a \<noteq> []" "normal_parts b \<noteq> []"
      by (simp_all add: normal_parts_def drop_zero_parts_nonempty)
    show "last (normal_parts a) \<noteq> ''0''" if "1 < length (normal_parts a)"
      using that drop_zero_parts_last unfolding normal_parts_def by blast
    show "last (normal_parts b) \<noteq> ''0''" if "1 < length (normal_parts b)"
      using that drop_zero_parts_last unfolding normal_parts_def by blast
  qed (use that normal_parts_canonical normal_parts_component in simp_all)
  have "normalize_numeric_version n = Inr n"
    using inj[OF n v(1) comp] n v(2) by (simp add: normalize_eq)
  moreover have "n = m \<longleftrightarrow> version_component v = version_component w"
    using inj[OF v(1) w(1)] v w comp split_normal normal_parts_component by metis
  moreover have "compare_numeric_versions v w = Inr 0 \<longleftrightarrow> version_component v = version_component w"
    using compare_numeric_versions_eq[OF v(1) w(1)] by (auto simp: first_difference_less_def)
  ultimately show ?thesis using comp by simp
qed

theorem normalize_numeric_version_witness:
  "normalize_numeric_version ''1.2'' = Inr ''1.2'' \<and> version_component ''1.2'' = version_component ''01.2.0.0'' \<and>
     (''1.2'' = ''1.20'' \<longleftrightarrow> compare_numeric_versions ''01.2.0.0'' ''1.20'' = Inr 0)"
  by (rule normalize_numeric_version_canonical) code_simp+

section \<open>Ranges denote conjunctions\<close>

definition satisfies :: "string \<Rightarrow> string \<times> string \<Rightarrow> bool" where
  "satisfies version constraint =
     (let lt = first_difference_less (version_component version) (version_component (snd constraint));
          gt = first_difference_less (version_component (snd constraint)) (version_component version) in
      if fst constraint = ''>'' then gt
      else if fst constraint = ''>='' then \<not> lt
      else if fst constraint = ''<'' then lt
      else if fst constraint = ''<='' then \<not> gt
      else if fst constraint = ''!='' then lt \<or> gt
      else \<not> lt \<and> \<not> gt)"

lemma parse_constraint_Some:
  assumes "parse_constraint s = Some (operator, bound)"
  shows "numeric_dotted bound" "operator \<in> set range_operators"
proof -
  have "numeric_dotted bound \<and> operator \<in> set range_operators"
  proof (cases "List.find (\<lambda>p. prefix p s \<and> numeric_dotted (drop (length p) s)) range_operators")
    case None
    with assms show ?thesis by (auto simp: parse_constraint_def range_operators_def split: if_splits)
  next
    case (Some p)
    with assms find_Some_in[OF Some] show ?thesis by (auto simp: parse_constraint_def)
  qed
  then show "numeric_dotted bound" "operator \<in> set range_operators" by auto
qed

lemma constraint_holds_satisfies:
  assumes "numeric_dotted (trim_space v)" "numeric_dotted bound" "operator \<in> set range_operators"
  shows "\<exists>c. compare_numeric_versions v bound = Inr c \<and> constraint_holds operator c = satisfies v (operator, bound)"
proof -
  let ?f = "version_component v" and ?g = "version_component bound"
  have "numeric_dotted (trim_space bound)" using assms(2) numeric_dotted_trim by simp
  note cmp = compare_numeric_versions_eq[OF assms(1) this]
  have tri: "first_difference_less ?f ?g \<or> ?f = ?g \<or> first_difference_less ?g ?f"
    using first_difference_total by (auto simp: fun_eq_iff)
  have irr: "\<not> first_difference_less f f" for f by (simp add: first_difference_less_def)
  show ?thesis
    using tri irr first_difference_asym[of ?f ?g] first_difference_asym[of ?g ?f] assms(3)
    unfolding cmp by (auto simp: constraint_holds_def satisfies_def range_operators_def Let_def)
qed

lemma parse_constraints_Inr:
  "parse_constraints cs = Inr ps \<longleftrightarrow> map parse_constraint cs = map Some ps"
proof (induction cs arbitrary: ps)
  case (Cons c cs)
  then show ?case by (cases ps) (auto split: option.splits)
qed auto

lemma all_constraints_hold_eq:
  assumes "numeric_dotted (trim_space v)"
    and "\<forall>p \<in> set ps. numeric_dotted (snd p) \<and> fst p \<in> set range_operators"
  shows "all_constraints_hold v ps = Inr (\<forall>p \<in> set ps. satisfies v p)"
  using assms(2)
proof (induction ps)
  case (Cons p ps)
  obtain operator bound where p: "p = (operator, bound)" by (cases p)
  then obtain c where "compare_numeric_versions v bound = Inr c"
    "constraint_holds operator c = satisfies v (operator, bound)"
    using constraint_holds_satisfies[OF assms(1)] Cons.prems by fastforce
  with Cons p show ?case by simp
qed simp

text \<open>
  A range evaluates to a truth value exactly when the version is
  numeric and the expression is a non-empty list of well-formed constraints, and
  then to the conjunction of the constraints read in the order of versions; in
  every other case the evaluation is an error, whatever the version.
\<close>

theorem match_numeric_version_range_iff:
  "match_numeric_version_range version expression = Inr b \<longleftrightarrow>
     numeric_dotted (trim_space version) \<and>
     (\<exists>ps. ps \<noteq> [] \<and> map parse_constraint (string_fields (trim_space expression)) = map Some ps \<and>
        b = (\<forall>p \<in> set ps. satisfies version p))"
proof -
  let ?cs = "string_fields (trim_space expression)"
  have ok: "\<forall>p \<in> set ps. numeric_dotted (snd p) \<and> fst p \<in> set range_operators"
    if "map parse_constraint ?cs = map Some ps" for ps
  proof
    fix p assume "p \<in> set ps"
    then have "Some p \<in> set (map parse_constraint ?cs)" using that by simp
    then show "numeric_dotted (snd p) \<and> fst p \<in> set range_operators"
      using parse_constraint_Some by (metis ex_map_conv prod.collapse)
  qed
  have "match_numeric_version_range version expression = Inr b \<longleftrightarrow>
     numeric_dotted (trim_space version) \<and> ?cs \<noteq> [] \<and>
     (\<exists>ps. map parse_constraint ?cs = map Some ps \<and> all_constraints_hold version ps = Inr b)"
    by (auto simp: match_numeric_version_range_def normalize_eq parse_constraints_Inr Let_def)
  also have "\<dots> \<longleftrightarrow> numeric_dotted (trim_space version) \<and>
     (\<exists>ps. ps \<noteq> [] \<and> map parse_constraint ?cs = map Some ps \<and> b = (\<forall>p \<in> set ps. satisfies version p))"
  proof (rule conj_cong [OF refl])
    assume v: "numeric_dotted (trim_space version)"
    have "?cs \<noteq> [] \<and> map parse_constraint ?cs = map Some ps \<and> all_constraints_hold version ps = Inr b \<longleftrightarrow>
       ps \<noteq> [] \<and> map parse_constraint ?cs = map Some ps \<and> b = (\<forall>p \<in> set ps. satisfies version p)" for ps
    proof (cases "map parse_constraint ?cs = map Some ps")
      case True
      then have "?cs = [] \<longleftrightarrow> ps = []" by (metis list.map_disc_iff)
      then show ?thesis using True all_constraints_hold_eq[OF v ok[OF True]] by auto
    qed simp
    then show "(?cs \<noteq> [] \<and> (\<exists>ps. map parse_constraint ?cs = map Some ps \<and> all_constraints_hold version ps = Inr b)) =
       (\<exists>ps. ps \<noteq> [] \<and> map parse_constraint ?cs = map Some ps \<and> b = (\<forall>p \<in> set ps. satisfies version p))"
      by metis
  qed
  finally show ?thesis .
qed

theorem match_numeric_version_range_witness:
  "match_numeric_version_range ''2.10'' ''>=2.9 <3'' = Inr True \<and>
     numeric_dotted (trim_space ''2.10'') \<and>
     (\<exists>ps. ps \<noteq> [] \<and> map parse_constraint (string_fields (trim_space ''>=2.9 <3'')) = map Some ps \<and>
        True = (\<forall>p \<in> set ps. satisfies ''2.10'' p))"
proof -
  have "match_numeric_version_range ''2.10'' ''>=2.9 <3'' = Inr True" by code_simp
  then show ?thesis using match_numeric_version_range_iff[of "''2.10''" "''>=2.9 <3''" True] by blast
qed

section \<open>Exactly one generation\<close>

lemma matching_generations_Inr:
  "matching_generations rx gs ev = Inr hs \<longleftrightarrow>
     (\<forall>g \<in> set gs. \<exists>b. generation_matches rx g ev = Inr b) \<and>
     hs = filter (\<lambda>g. generation_matches rx g ev = Inr True) gs"
proof (induction gs arbitrary: hs)
  case (Cons g gs)
  show ?case
  proof (cases "generation_matches rx g ev")
    case (Inr b)
    then show ?thesis by (cases b) (auto simp: Cons.IH)
  qed simp
qed auto

lemma select_generation_filter:
  "select_generation rx (Some s) evidence = Inr g \<longleftrightarrow>
     matching_generations rx (set_generations s) evidence = Inr [g]"
proof (cases "matching_generations rx (set_generations s) evidence")
  case (Inr hs)
  then show ?thesis by (cases hs; cases "tl hs") (simp_all add: select_generation_def)
qed (simp add: select_generation_def)

lemma select_generation_member:
  assumes "select_generation rx (Some s) evidence = Inr g"
  shows "g \<in> set (set_generations s)" "generation_matches rx g evidence = Inr True"
proof -
  have "[g] = filter (\<lambda>h. generation_matches rx h evidence = Inr True) (set_generations s)"
    using assms by (simp add: select_generation_filter matching_generations_Inr)
  then have "g \<in> set (filter (\<lambda>h. generation_matches rx h evidence = Inr True) (set_generations s))"
    by (metis list.set_intros(1))
  then show "g \<in> set (set_generations s)" "generation_matches rx g evidence = Inr True" by auto
qed

text \<open>
  Property C32: a generation is selected exactly when every selector of the set
  evaluates without an error and that generation is the only one that matches; in
  particular no choice is made between two matching generations.
\<close>

theorem select_generation_exactly_one:
  "select_generation rx (Some s) evidence = Inr g \<longleftrightarrow>
     (\<forall>h \<in> set (set_generations s). generation_matches rx h evidence \<in> range Inr) \<and>
     filter (\<lambda>h. generation_matches rx h evidence = Inr True) (set_generations s) = [g]"
  unfolding select_generation_filter matching_generations_Inr by (auto simp: image_iff)

definition sample_set :: config_set where
  "sample_set = \<lparr>set_id = ''settings'',
     set_generations =
       [empty_generation\<lparr>gen_id := ''old'', gen_matches := [\<lparr>sel_versionRange = ''<2'', sel_versionPattern = []\<rparr>]\<rparr>,
        empty_generation\<lparr>gen_id := ''new'', gen_matches := [\<lparr>sel_versionRange = ''>=2'', sel_versionPattern = []\<rparr>]\<rparr>],
     set_migrations = []\<rparr>"

theorem select_generation_witness:
  "select_generation (\<lambda>_. None) (Some sample_set) (new_version_evidence ''10.0'') = Inr (set_generations sample_set ! 1) \<and>
     filter (\<lambda>h. generation_matches (\<lambda>_. None) h (new_version_evidence ''10.0'') = Inr True)
       (set_generations sample_set) = [set_generations sample_set ! 1]"
proof -
  have "select_generation (\<lambda>_. None) (Some sample_set) (new_version_evidence ''10.0'') =
     Inr (set_generations sample_set ! 1)" by code_simp
  then show ?thesis using select_generation_exactly_one[of "\<lambda>_. None" sample_set] by blast
qed

end
