(* ===== verification/MigrationGraph.thy ===== *)
theory MigrationGraph
  imports ModuleTypes
begin

text \<open>
  The graph algorithms behind the validation of a config set
  (\<open>hasMigrationCycle\<close>, \<open>findAmbiguousRoute\<close>, \<open>countMigrationPaths\<close> of
  \<open>internal/modules/validation.go\<close>). The recursions carry a fuel that bounds
  their depth; on the graphs the validator builds (every edge ends in a declared
  generation) the fuel chosen is proved never to run out.
\<close>

type_synonym adjacency = "string \<Rightarrow> string list"

definition adjacency_of :: "migration_edge list \<Rightarrow> adjacency" where
  "adjacency_of edges x = map edge_to (filter (\<lambda>e. edge_from e = x) edges)"

section \<open>The depth-first search for a cycle\<close>

datatype mark = Unseen | Visiting | Visited

function (sequential)
  visit :: "nat \<Rightarrow> adjacency \<Rightarrow> string \<Rightarrow> (string \<Rightarrow> mark) \<Rightarrow> (bool \<times> (string \<Rightarrow> mark)) option" and
  visit_each :: "nat \<Rightarrow> adjacency \<Rightarrow> string list \<Rightarrow> (string \<Rightarrow> mark) \<Rightarrow> (bool \<times> (string \<Rightarrow> mark)) option"
where
  "visit 0 adj current st = None"
| "visit (Suc fuel) adj current st =
     (case st current of
        Visiting \<Rightarrow> Some (True, st)
      | Visited \<Rightarrow> Some (False, st)
      | Unseen \<Rightarrow>
          (case visit_each fuel adj (adj current) (st(current := Visiting)) of
             None \<Rightarrow> None
           | Some (True, st') \<Rightarrow> Some (True, st')
           | Some (False, st') \<Rightarrow> Some (False, st'(current := Visited))))"
| "visit_each fuel adj [] st = Some (False, st)"
| "visit_each fuel adj (nx # rest) st =
     (case visit fuel adj nx st of
        None \<Rightarrow> None
      | Some (True, st') \<Rightarrow> Some (True, st')
      | Some (False, st') \<Rightarrow> visit_each fuel adj rest st')"
  by pat_completeness auto
termination
  by (relation "measures [\<lambda>a. case a of Inl (n, _) \<Rightarrow> n | Inr (n, _) \<Rightarrow> n,
        \<lambda>a. case a of Inl _ \<Rightarrow> 0 | Inr (_, _, xs, _) \<Rightarrow> Suc (length xs)]") auto

fun cycle_from :: "nat \<Rightarrow> adjacency \<Rightarrow> string list \<Rightarrow> (string \<Rightarrow> mark) \<Rightarrow> bool option" where
  "cycle_from fuel adj [] st = Some False"
| "cycle_from fuel adj (gid # ids) st =
     (if st gid = Unseen then
        (case visit fuel adj gid st of
           None \<Rightarrow> None
         | Some (True, _) \<Rightarrow> Some True
         | Some (False, st') \<Rightarrow> cycle_from fuel adj ids st')
      else cycle_from fuel adj ids st)"

text \<open>The search over all generations; a recursion deeper than their number cannot happen.\<close>

definition has_migration_cycle :: "string list \<Rightarrow> adjacency \<Rightarrow> bool" where
  "has_migration_cycle ids adj =
     (case cycle_from (Suc (length ids)) adj ids (\<lambda>_. Unseen) of Some b \<Rightarrow> b | None \<Rightarrow> False)"

section \<open>Counting routes up to a limit\<close>

function (sequential)
  count_migration_paths :: "nat \<Rightarrow> adjacency \<Rightarrow> string \<Rightarrow> string \<Rightarrow> int \<Rightarrow> int option" and
  count_each :: "nat \<Rightarrow> adjacency \<Rightarrow> string list \<Rightarrow> string \<Rightarrow> int \<Rightarrow> int \<Rightarrow> int option"
where
  "count_migration_paths 0 adj current target limit = None"
| "count_migration_paths (Suc fuel) adj current target limit =
     (if current = target then Some 1 else count_each fuel adj (adj current) target limit 0)"
| "count_each fuel adj [] target limit found = Some found"
| "count_each fuel adj (nx # rest) target limit found =
     (case count_migration_paths fuel adj nx target (limit - found) of
        None \<Rightarrow> None
      | Some c \<Rightarrow>
          (if limit \<le> found + c then Some (found + c)
           else count_each fuel adj rest target limit (found + c)))"
  by pat_completeness auto
termination
  by (relation "measures [\<lambda>a. case a of Inl (n, _) \<Rightarrow> n | Inr (n, _) \<Rightarrow> n,
        \<lambda>a. case a of Inl _ \<Rightarrow> 0 | Inr (_, _, xs, _) \<Rightarrow> Suc (length xs)]") auto

definition ordered_pairs :: "string list \<Rightarrow> (string \<times> string) list" where
  "ordered_pairs ids =
     (let s = sort_by (<) ids in
      filter (\<lambda>(from, to). from \<noteq> to) (concat (map (\<lambda>from. map (Pair from) s) s)))"

definition find_ambiguous_route :: "string list \<Rightarrow> adjacency \<Rightarrow> (string \<times> string) option" where
  "find_ambiguous_route ids adj =
     List.find (\<lambda>(from, to).
        case count_migration_paths (Suc (length ids)) adj from to 2 of Some c \<Rightarrow> 1 < c | None \<Rightarrow> False)
       (ordered_pairs ids)"

section \<open>The graph as a relation\<close>

definition edge_rel :: "adjacency \<Rightarrow> (string \<times> string) set" where
  "edge_rel adj = {(x, y). y \<in> set (adj x)}"

definition closed_graph :: "string list \<Rightarrow> adjacency \<Rightarrow> bool" where
  "closed_graph ids adj \<longleftrightarrow> (\<forall>x \<in> set ids. set (adj x) \<subseteq> set ids)"

lemma edge_rel_iff [simp]: "(x, y) \<in> edge_rel adj \<longleftrightarrow> y \<in> set (adj x)"
  by (simp add: edge_rel_def)

definition unseen_in :: "string list \<Rightarrow> (string \<Rightarrow> mark) \<Rightarrow> string set" where
  "unseen_in ids st = {x \<in> set ids. st x = Unseen}"

lemma finite_unseen [simp]: "finite (unseen_in ids st)"
  by (simp add: unseen_in_def)

lemma unseen_visiting: "unseen_in ids (st(x := Visiting)) = unseen_in ids st - {x}"
  by (auto simp: unseen_in_def)

subsection \<open>What the search keeps\<close>

text \<open>
  A search that reports no cycle leaves the set of nodes being visited as it was,
  only turns unseen nodes into visited ones, visits the start node, and keeps the
  visited nodes closed under edges and free of cycles.
\<close>

definition visited_ok :: "adjacency \<Rightarrow> (string \<Rightarrow> mark) \<Rightarrow> bool" where
  "visited_ok adj st \<longleftrightarrow>
     (\<forall>x. st x = Visited \<longrightarrow> (x, x) \<notin> (edge_rel adj)\<^sup>+ \<and> (\<forall>y \<in> set (adj x). st y = Visited))"

definition only_visits :: "(string \<Rightarrow> mark) \<Rightarrow> (string \<Rightarrow> mark) \<Rightarrow> bool" where
  "only_visits st st' \<longleftrightarrow> (\<forall>x. st' x = st x \<or> st x = Unseen \<and> st' x = Visited)"

lemma only_visits_refl [simp]: "only_visits st st"
  by (simp add: only_visits_def)

lemma only_visits_trans: "only_visits st st' \<Longrightarrow> only_visits st' st'' \<Longrightarrow> only_visits st st''"
  unfolding only_visits_def by (metis mark.distinct(3) mark.distinct(5))

lemma only_visits_unseen: "only_visits st st' \<Longrightarrow> unseen_in ids st' \<subseteq> unseen_in ids st"
  unfolding only_visits_def unseen_in_def by (auto, metis mark.distinct(3))

lemma visited_reach:
  assumes "visited_ok adj st" "st x = Visited" "(x, y) \<in> (edge_rel adj)\<^sup>+"
  shows "st y = Visited"
  using assms(3,2) by (induction rule: trancl_induct) (use assms(1) in \<open>auto simp: visited_ok_def\<close>)

lemma visit_no_cycle:
  shows "visit fuel adj current st = Some (False, st') \<Longrightarrow> visited_ok adj st \<Longrightarrow>
      visited_ok adj st' \<and> only_visits st st' \<and> st' current = Visited"
    and "visit_each fuel adj nexts st = Some (False, st') \<Longrightarrow> visited_ok adj st \<Longrightarrow>
      visited_ok adj st' \<and> only_visits st st' \<and> (\<forall>x \<in> set nexts. st' x = Visited)"
proof (induction fuel adj current st and fuel adj nexts st arbitrary: st' and st'
    rule: visit_visit_each.induct)
  case (2 fuel adj current st)
  show ?case
  proof (cases "st current")
    case Unseen
    let ?st = "st(current := Visiting)"
    obtain st1 where each: "visit_each fuel adj (adj current) ?st = Some (False, st1)"
      and st': "st' = st1(current := Visited)"
      using 2(2) Unseen by (auto split: option.splits prod.splits bool.splits)
    have "visited_ok adj ?st"
      using 2(3) Unseen unfolding visited_ok_def by auto
    note conj = 2(1)[OF Unseen each this]
    have IH: "visited_ok adj st1" "only_visits ?st st1" "\<forall>x \<in> set (adj current). st1 x = Visited"
      by (rule conj[THEN conjunct1], rule conj[THEN conjunct2, THEN conjunct1],
          rule conj[THEN conjunct2, THEN conjunct2])
    have cur: "st1 current = Visiting"
      using IH(2)[unfolded only_visits_def, rule_format, of current] by simp
    have "(current, current) \<notin> (edge_rel adj)\<^sup>+"
    proof
      assume "(current, current) \<in> (edge_rel adj)\<^sup>+"
      then show False
        using IH cur visited_reach by (metis edge_rel_iff mark.distinct(5) tranclD rtranclD)
    qed
    then have "visited_ok adj st'"
      using IH st' unfolding visited_ok_def by auto
    moreover have "only_visits st st'"
      using IH(2) Unseen st' unfolding only_visits_def by (metis fun_upd_apply)
    ultimately show ?thesis unfolding st' by (simp only: fun_upd_same simp_thms)
  qed (use 2 in auto)
next
  case (4 fuel adj nx rest st)
  then obtain st1 where v: "visit fuel adj nx st = Some (False, st1)"
    and r: "visit_each fuel adj rest st1 = Some (False, st')"
    by (auto split: option.splits prod.splits bool.splits)
  have one: "visited_ok adj st1" "only_visits st st1" "st1 nx = Visited"
    using 4(1)[OF v] 4(4) by auto
  have two: "visited_ok adj st'" "only_visits st1 st'" "\<forall>x \<in> set rest. st' x = Visited"
    using 4(2)[OF v] r one by auto
  have "st' nx = Visited" using two(2) one(3) unfolding only_visits_def by (metis mark.distinct(3))
  then show ?case using one two only_visits_trans by auto
qed auto

text \<open>A search that reports a cycle has found one: the visiting nodes lead to the current one.\<close>

lemma visit_cycle:
  shows "visit fuel adj current st = Some (True, st') \<Longrightarrow>
      \<forall>x. st x = Visiting \<longrightarrow> (x, current) \<in> (edge_rel adj)\<^sup>+ \<Longrightarrow> visited_ok adj st \<Longrightarrow>
      \<exists>y. (current, y) \<in> (edge_rel adj)\<^sup>* \<and> (y, y) \<in> (edge_rel adj)\<^sup>+"
    and "visit_each fuel adj nexts st = Some (True, st') \<Longrightarrow> set nexts \<subseteq> set (adj p) \<Longrightarrow>
      \<forall>x. st x = Visiting \<longrightarrow> (x, p) \<in> (edge_rel adj)\<^sup>* \<Longrightarrow> visited_ok adj st \<Longrightarrow>
      \<exists>y. (p, y) \<in> (edge_rel adj)\<^sup>* \<and> (y, y) \<in> (edge_rel adj)\<^sup>+"
proof (induction fuel adj current st and fuel adj nexts st arbitrary: st' and st' p
    rule: visit_visit_each.induct)
  case (2 fuel adj current st)
  show ?case
  proof (cases "st current")
    case Unseen
    let ?st = "st(current := Visiting)"
    have each: "visit_each fuel adj (adj current) ?st = Some (True, st')"
      using 2(2) Unseen by (auto split: option.splits prod.splits bool.splits)
    have "visited_ok adj ?st" using 2(4) Unseen unfolding visited_ok_def by auto
    moreover have "\<forall>x. ?st x = Visiting \<longrightarrow> (x, current) \<in> (edge_rel adj)\<^sup>*"
      using 2(3) by (auto intro: trancl_into_rtrancl)
    ultimately show ?thesis by (intro 2(1)[OF Unseen each subset_refl])
  next
    case Visiting
    with 2(3) show ?thesis by auto
  qed (use 2 in auto)
next
  case (4 fuel adj nx rest st)
  from 4(3) consider "visit fuel adj nx st = Some (True, st')"
    | st1 where "visit fuel adj nx st = Some (False, st1)" "visit_each fuel adj rest st1 = Some (True, st')"
    by (auto split: option.splits prod.splits bool.splits)
  then show ?case
  proof cases
    case 1
    have step: "(p, nx) \<in> edge_rel adj" using 4(4) by auto
    have "\<forall>x. st x = Visiting \<longrightarrow> (x, nx) \<in> (edge_rel adj)\<^sup>+"
      using 4(5) step by (auto intro: rtrancl_into_trancl1)
    from 4(1)[OF 1 this 4(6)] show ?thesis
      using step by (meson converse_rtrancl_into_rtrancl)
  next
    case (2 st1)
    have keep: "visited_ok adj st1" "only_visits st st1" using visit_no_cycle(1)[OF 2(1) 4(6)] by auto
    have "\<forall>x. st1 x = Visiting \<longrightarrow> (x, p) \<in> (edge_rel adj)\<^sup>*"
      using 4(5) keep(2) unfolding only_visits_def by (metis mark.distinct(5))
    then show ?thesis using 4(2)[OF 2(1) refl refl 2(2)] 4(4) keep(1) by simp
  qed
qed auto

text \<open>More fuel than unseen nodes is enough.\<close>

lemma visit_fuel:
  assumes "closed_graph ids adj"
  shows "current \<in> set ids \<Longrightarrow> card (unseen_in ids st) < fuel \<Longrightarrow> visited_ok adj st \<Longrightarrow>
      visit fuel adj current st \<noteq> None"
    and "set nexts \<subseteq> set ids \<Longrightarrow> card (unseen_in ids st) < fuel \<or> nexts = [] \<Longrightarrow> visited_ok adj st \<Longrightarrow>
      visit_each fuel adj nexts st \<noteq> None"
  using assms
proof (induction fuel adj current st and fuel adj nexts st rule: visit_visit_each.induct)
  case (2 fuel adj current st)
  show ?case
  proof (cases "st current")
    case Unseen
    let ?st = "st(current := Visiting)"
    have mem: "current \<in> unseen_in ids st" using Unseen 2(2) by (simp add: unseen_in_def)
    then have "card (unseen_in ids ?st) = card (unseen_in ids st) - 1" "0 < card (unseen_in ids st)"
      by (auto simp: unseen_visiting card_gt_0_iff)
    then have "card (unseen_in ids ?st) < fuel" using 2(3) by linarith
    moreover have "visited_ok adj ?st" using 2(4) Unseen unfolding visited_ok_def by auto
    moreover have "set (adj current) \<subseteq> set ids" using 2(2,5) by (auto simp: closed_graph_def)
    ultimately have "visit_each fuel adj (adj current) ?st \<noteq> None"
      using 2(1)[OF Unseen] 2(5) by blast
    then show ?thesis using Unseen by (auto split: option.splits prod.splits bool.splits)
  qed auto
next
  case (4 fuel adj nx rest st)
  have "visit fuel adj nx st \<noteq> None" using 4 by auto
  then obtain b st1 where v: "visit fuel adj nx st = Some (b, st1)" by auto
  show ?case
  proof (cases b)
    case False
    then have v0: "visit fuel adj nx st = Some (False, st1)" using v by simp
    note keep = visit_no_cycle(1)[OF v0 4(5)]
    then have "card (unseen_in ids st1) \<le> card (unseen_in ids st)"
      using only_visits_unseen by (intro card_mono) auto
    then have "visit_each fuel adj rest st1 \<noteq> None"
      using 4(2)[OF v0 refl refl] 4(3-6) keep by auto
    then show ?thesis using v False by simp
  qed (use v in auto)
qed auto

lemma cycle_from_correct:
  assumes "closed_graph all adj" "set ids \<subseteq> set all" "visited_ok adj st"
    and "\<forall>x. st x \<noteq> Visiting" "length all < fuel"
  shows "cycle_from fuel adj ids st =
     Some (\<exists>x \<in> set ids. st x = Unseen \<and> (\<exists>y. (x, y) \<in> (edge_rel adj)\<^sup>* \<and> (y, y) \<in> (edge_rel adj)\<^sup>+))"
  using assms(2-4)
proof (induction ids arbitrary: st)
  case (Cons x ids)
  show ?case
  proof (cases "st x = Unseen")
    case True
    have "card (unseen_in all st) \<le> card (set all)"
      by (rule card_mono) (auto simp: unseen_in_def)
    then have "card (unseen_in all st) \<le> length all"
      using card_length le_trans by blast
    then have "visit fuel adj x st \<noteq> None"
      using visit_fuel(1)[OF assms(1)] Cons.prems assms(5) by simp
    then obtain b st1 where v: "visit fuel adj x st = Some (b, st1)" by auto
    show ?thesis
    proof (cases b)
      case True
      then have "\<exists>y. (x, y) \<in> (edge_rel adj)\<^sup>* \<and> (y, y) \<in> (edge_rel adj)\<^sup>+"
        using visit_cycle(1)[of fuel adj x st st1] v Cons.prems by simp
      with v True \<open>st x = Unseen\<close> show ?thesis by auto
    next
      case False
      then have v0: "visit fuel adj x st = Some (False, st1)" using v by simp
      note keep = visit_no_cycle(1)[OF v0 Cons.prems(2)]
      have none: "\<not> (\<exists>y. (z, y) \<in> (edge_rel adj)\<^sup>* \<and> (y, y) \<in> (edge_rel adj)\<^sup>+)" if "st1 z = Visited" for z
        using keep that visited_reach by (metis rtranclD visited_ok_def)
      have "\<forall>z. st1 z \<noteq> Visiting" using keep Cons.prems(3) by (auto simp: only_visits_def, metis mark.distinct(5))
      then have "cycle_from fuel adj ids st1 =
         Some (\<exists>z \<in> set ids. st1 z = Unseen \<and> (\<exists>y. (z, y) \<in> (edge_rel adj)\<^sup>* \<and> (y, y) \<in> (edge_rel adj)\<^sup>+))"
        using Cons keep by auto
      moreover have "st z = Unseen \<and> (\<exists>y. (z, y) \<in> (edge_rel adj)\<^sup>* \<and> (y, y) \<in> (edge_rel adj)\<^sup>+) \<longleftrightarrow>
          st1 z = Unseen \<and> (\<exists>y. (z, y) \<in> (edge_rel adj)\<^sup>* \<and> (y, y) \<in> (edge_rel adj)\<^sup>+)" for z
        using keep none unfolding only_visits_def by metis
      ultimately show ?thesis using v False True none[of x] keep by auto
    qed
  qed (use Cons in auto)
qed simp

lemma has_migration_cycle_iff:
  assumes "closed_graph ids adj"
  shows "has_migration_cycle ids adj \<longleftrightarrow> (\<exists>x \<in> set ids. (x, x) \<in> (edge_rel adj)\<^sup>+)"
proof -
  have stay: "y \<in> set ids" if "(x, y) \<in> (edge_rel adj)\<^sup>*" "x \<in> set ids" for x y
    using that by (induction rule: rtrancl_induct) (use assms in \<open>auto simp: closed_graph_def\<close>)
  have "cycle_from (Suc (length ids)) adj ids (\<lambda>_. Unseen) =
     Some (\<exists>x \<in> set ids. \<exists>y. (x, y) \<in> (edge_rel adj)\<^sup>* \<and> (y, y) \<in> (edge_rel adj)\<^sup>+)"
    using cycle_from_correct[OF assms subset_refl, of "\<lambda>_. Unseen" "Suc (length ids)"]
    by (simp add: visited_ok_def)
  then show ?thesis using stay by (auto simp: has_migration_cycle_def)
qed


text \<open>
  On a graph whose edges stay among the generations, the depth-first
  search answers yes exactly when some generation reaches itself, and the answer
  does not depend on the order in which the map of generations is traversed.
\<close>

theorem migration_cycle_detection:
  assumes "closed_graph ids adj" and "set ids' = set ids"
  shows "has_migration_cycle ids' adj \<longleftrightarrow> (\<exists>x \<in> set ids. (x, x) \<in> (edge_rel adj)\<^sup>+)"
  using has_migration_cycle_iff[of ids' adj] assms by (simp add: closed_graph_def)

definition sample_edges :: "migration_edge list" where
  "sample_edges = map (\<lambda>(f, t). \<lparr>edge_from = f, edge_to = t, edge_operations = [], edge_validate = []\<rparr>)
     [(''a'', ''b''), (''b'', ''c''), (''a'', ''c'')]"

theorem migration_cycle_detection_witness:
  "has_migration_cycle [''c'', ''b'', ''a''] (adjacency_of sample_edges) \<longleftrightarrow>
     (\<exists>x \<in> set [''a'', ''b'', ''c'']. (x, x) \<in> (edge_rel (adjacency_of sample_edges))\<^sup>+)"
  by (rule migration_cycle_detection) (auto simp: closed_graph_def adjacency_of_def sample_edges_def)

section \<open>Walks\<close>

text \<open>\<open>walk adj x p y\<close>: following the edges through the nodes of \<open>p\<close> leads from \<open>x\<close> to \<open>y\<close>.\<close>

fun walk :: "adjacency \<Rightarrow> string \<Rightarrow> string list \<Rightarrow> string \<Rightarrow> bool" where
  "walk adj x [] y \<longleftrightarrow> x = y"
| "walk adj x (z # p) y \<longleftrightarrow> z \<in> set (adj x) \<and> walk adj z p y"

fun all_walks :: "nat \<Rightarrow> adjacency \<Rightarrow> string \<Rightarrow> string \<Rightarrow> string list list" where
  "all_walks 0 adj x y = []"
| "all_walks (Suc n) adj x y =
     (if x = y then [[]] else concat (map (\<lambda>z. map (Cons z) (all_walks n adj z y)) (adj x)))"

definition dag :: "string list \<Rightarrow> adjacency \<Rightarrow> bool" where
  "dag ids adj \<longleftrightarrow> closed_graph ids adj \<and> (\<forall>x \<in> set ids. (x, x) \<notin> (edge_rel adj)\<^sup>+)"

definition descendants :: "string list \<Rightarrow> adjacency \<Rightarrow> string \<Rightarrow> string set" where
  "descendants ids adj x = {z \<in> set ids. (x, z) \<in> (edge_rel adj)\<^sup>+}"

lemma walk_append: "walk adj x (p @ q) z \<longleftrightarrow> (\<exists>y. walk adj x p y \<and> walk adj y q z)"
  by (induction p arbitrary: x) auto

lemma walk_reach: "walk adj x p y \<Longrightarrow> p \<noteq> [] \<Longrightarrow> (x, y) \<in> (edge_rel adj)\<^sup>+"
proof (induction p arbitrary: x)
  case (Cons z p)
  then have "(x, z) \<in> edge_rel adj" by simp
  with Cons show ?case by (cases "p = []") (auto intro: trancl_into_trancl2)
qed simp

lemma dag_step: "dag ids adj \<Longrightarrow> x \<in> set ids \<Longrightarrow> z \<in> set (adj x) \<Longrightarrow> z \<in> set ids"
  by (auto simp: dag_def closed_graph_def)

lemma set_all_walks:
  "dag ids adj \<Longrightarrow> x \<in> set ids \<Longrightarrow> p \<in> set (all_walks n adj x y) \<longleftrightarrow> walk adj x p y \<and> length p < n"
proof (induction n arbitrary: x p)
  case (Suc n)
  show ?case
  proof (cases "x = y")
    case True
    then have "walk adj x p y \<longleftrightarrow> p = []"
      using Suc.prems walk_reach[of adj x p y] by (auto simp: dag_def)
    then show ?thesis using True by auto
  next
    case False
    show ?thesis
    proof (cases p)
      case (Cons z q)
      have "z \<in> set (adj x) \<Longrightarrow> q \<in> set (all_walks n adj z y) \<longleftrightarrow> walk adj z q y \<and> length q < n"
        using Suc.IH[OF Suc.prems(1)] dag_step[OF Suc.prems] by blast
      with False Cons show ?thesis by auto
    qed (use False in auto)
  qed
qed simp

lemma distinct_all_walks:
  "dag ids adj \<Longrightarrow> x \<in> set ids \<Longrightarrow> \<forall>z \<in> set ids. distinct (adj z) \<Longrightarrow> distinct (all_walks n adj x y)"
proof (induction n arbitrary: x)
  case (Suc n)
  have each: "distinct (all_walks n adj z y)" if "z \<in> set (adj x)" for z
    using Suc dag_step that by blast
  have "distinct (concat (map (\<lambda>z. map (Cons z) (all_walks n adj z y)) zs))"
    if "distinct zs" "set zs \<subseteq> set (adj x)" for zs
    using that by (induction zs) (auto simp: each distinct_map)
  then show ?case using Suc.prems by simp
qed simp

lemma descendants_step:
  assumes "dag ids adj" "x \<in> set ids" "z \<in> set (adj x)"
  shows "card (descendants ids adj z) < card (descendants ids adj x)"
proof (rule psubset_card_mono)
  show "finite (descendants ids adj x)" by (simp add: descendants_def)
  have z: "z \<in> set ids" using assms dag_step by blast
  then have "z \<notin> descendants ids adj z" using assms by (simp add: dag_def descendants_def)
  moreover have "z \<in> descendants ids adj x" using z assms(3) by (auto simp: descendants_def)
  moreover have "descendants ids adj z \<subseteq> descendants ids adj x"
    using assms(3) by (auto simp: descendants_def intro: trancl_into_trancl2)
  ultimately show "descendants ids adj z \<subset> descendants ids adj x" by blast
qed

lemma card_descendants: "card (descendants ids adj x) \<le> length ids"
proof -
  have "card (descendants ids adj x) \<le> card (set ids)"
    by (rule card_mono) (auto simp: descendants_def)
  then show ?thesis using card_length le_trans by blast
qed

lemma walk_length:
  "dag ids adj \<Longrightarrow> x \<in> set ids \<Longrightarrow> walk adj x p y \<Longrightarrow> length p \<le> card (descendants ids adj x)"
proof (induction p arbitrary: x)
  case (Cons z p)
  then have "length p \<le> card (descendants ids adj z)" using dag_step[of ids adj x z] by simp
  also have "\<dots> < card (descendants ids adj x)" using Cons.prems descendants_step by simp
  finally show ?case by simp
qed simp

text \<open>What a count bounded by a limit says about the true number of walks.\<close>

definition agrees :: "int \<Rightarrow> int \<Rightarrow> nat \<Rightarrow> bool" where
  "agrees limit c n \<longleftrightarrow> (if int n < limit then c = int n else limit \<le> c)"

lemma count_migration_paths_agrees:
  shows "card (descendants ids adj x) < fuel \<Longrightarrow> x \<in> set ids \<Longrightarrow> 1 \<le> limit \<Longrightarrow> dag ids adj \<Longrightarrow>
     \<exists>c. count_migration_paths fuel adj x y limit = Some c \<and> agrees limit c (length (all_walks fuel adj x y))"
    and "\<forall>z \<in> set zs. z \<in> set ids \<and> card (descendants ids adj z) < fuel \<Longrightarrow> found < limit \<Longrightarrow> 0 \<le> found \<Longrightarrow>
     dag ids adj \<Longrightarrow>
     \<exists>c. count_each fuel adj zs y limit found = Some c \<and>
       agrees (limit - found) (c - found) (\<Sum>z \<leftarrow> zs. length (all_walks fuel adj z y))"
proof (induction fuel adj x y limit and fuel adj zs y limit found rule: count_migration_paths_count_each.induct)
  case (2 fuel adj x y limit)
  show ?case
  proof (cases "x = y")
    case False
    have "\<forall>z \<in> set (adj x). z \<in> set ids \<and> card (descendants ids adj z) < fuel"
      using descendants_step[of ids adj x] dag_step[of ids adj x] 2(2,3,5) by fastforce
    from 2(1)[OF False this] False 2(4,5) show ?thesis
      by (simp add: length_concat comp_def)
  qed (use 2 in \<open>simp add: agrees_def\<close>)
next
  case (4 fuel adj z zs y limit found)
  let ?n = "length (all_walks fuel adj z y)" and ?m = "\<Sum>z \<leftarrow> zs. length (all_walks fuel adj z y)"
  obtain c where c: "count_migration_paths fuel adj z y (limit - found) = Some c" "agrees (limit - found) c ?n"
    using 4(1) 4(3-6) by auto
  show ?case
  proof (cases "limit \<le> found + c")
    case True
    then have "agrees (limit - found) (found + c - found) (?n + ?m)"
      using c(2) by (auto simp: agrees_def split: if_splits)
    with c True show ?thesis by simp
  next
    case False
    then have eq: "c = int ?n" using c(2) by (auto simp: agrees_def split: if_splits)
    then obtain d where d: "count_each fuel adj zs y limit (found + c) = Some d"
        "agrees (limit - (found + c)) (d - (found + c)) ?m"
      using 4(2)[OF c(1) False] 4(3,5,6) False by auto
    then have "agrees (limit - found) (d - found) (?n + ?m)"
      using eq False by (auto simp: agrees_def split: if_splits)
    with c d False show ?thesis by simp
  qed
qed (auto simp: agrees_def)

lemma ordered_pairs_mem: "(x, y) \<in> set (ordered_pairs ids) \<longleftrightarrow> x \<in> set ids \<and> y \<in> set ids \<and> x \<noteq> y"
  by (auto simp: ordered_pairs_def Let_def)

definition two_walks :: "adjacency \<Rightarrow> string \<Rightarrow> string \<Rightarrow> bool" where
  "two_walks adj x y \<longleftrightarrow> (\<exists>p q. p \<noteq> q \<and> walk adj x p y \<and> walk adj x q y)"

lemma two_distinct: "distinct xs \<Longrightarrow> 1 < length xs \<longleftrightarrow> (\<exists>p \<in> set xs. \<exists>q \<in> set xs. p \<noteq> q)"
  by (cases xs; cases "tl xs") auto

lemma count_migration_paths_two:
  assumes "dag ids adj" "x \<in> set ids" "\<forall>z \<in> set ids. distinct (adj z)"
  shows "\<exists>c. count_migration_paths (Suc (length ids)) adj x y 2 = Some c \<and> (1 < c \<longleftrightarrow> two_walks adj x y)"
proof -
  let ?ws = "all_walks (Suc (length ids)) adj x y"
  have "card (descendants ids adj x) < Suc (length ids)" using card_descendants[of ids adj x] by simp
  then obtain c where c: "count_migration_paths (Suc (length ids)) adj x y 2 = Some c" "agrees 2 c (length ?ws)"
    using count_migration_paths_agrees(1)[of ids adj x "Suc (length ids)" 2 y] assms by auto
  have "p \<in> set ?ws \<longleftrightarrow> walk adj x p y" for p
    using set_all_walks[OF assms(1,2)] walk_length[OF assms(1,2)] card_descendants[of ids adj x]
    by (meson le_imp_less_Suc le_trans)
  then have "1 < length ?ws \<longleftrightarrow> two_walks adj x y"
    unfolding two_distinct[OF distinct_all_walks[OF assms]] two_walks_def by metis
  moreover have "1 < c \<longleftrightarrow> 1 < length ?ws" using c(2) by (auto simp: agrees_def split: if_splits)
  ultimately show ?thesis using c(1) by auto
qed

lemma find_ambiguous_route_None:
  assumes "dag ids adj" "\<forall>z \<in> set ids. distinct (adj z)"
  shows "find_ambiguous_route ids adj = None \<longleftrightarrow> (\<forall>x \<in> set ids. \<forall>y \<in> set ids. \<not> two_walks adj x y)"
proof -
  have same: "\<not> two_walks adj x x" if "x \<in> set ids" for x
    using assms(1) that walk_reach[of adj x _ x] unfolding two_walks_def dag_def by metis
  have pair: "(case count_migration_paths (Suc (length ids)) adj x y 2 of Some c \<Rightarrow> 1 < c | None \<Rightarrow> False)
      \<longleftrightarrow> two_walks adj x y" if "x \<in> set ids" for x y
    using count_migration_paths_two[OF assms(1) that assms(2), of y] by auto
  have "find_ambiguous_route ids adj = None \<longleftrightarrow> (\<forall>(x, y) \<in> set (ordered_pairs ids). \<not> two_walks adj x y)"
    unfolding find_ambiguous_route_def find_None_iff using pair by (force simp: ordered_pairs_mem)
  also have "\<dots> \<longleftrightarrow> (\<forall>x \<in> set ids. \<forall>y \<in> set ids. \<not> two_walks adj x y)"
    using same by (fastforce simp: ordered_pairs_mem)
  finally show ?thesis .
qed

lemma find_ambiguous_route_Some:
  assumes "dag ids adj" "\<forall>z \<in> set ids. distinct (adj z)" "find_ambiguous_route ids adj = Some (x, y)"
  shows "x \<in> set ids" "y \<in> set ids" "two_walks adj x y"
proof -
  have f: "(x, y) \<in> set (ordered_pairs ids)"
    "case count_migration_paths (Suc (length ids)) adj x y 2 of Some c \<Rightarrow> 1 < c | None \<Rightarrow> False"
    using find_Some_in[OF assms(3)[unfolded find_ambiguous_route_def]] by auto
  then show "x \<in> set ids" "y \<in> set ids" by (auto simp: ordered_pairs_mem)
  then show "two_walks adj x y" using f(2) count_migration_paths_two[OF assms(1) _ assms(2), of x y] by auto
qed

text \<open>
  Once the cycle check has passed, the search for an ambiguous route
  finds nothing exactly when any two generations are joined by at most one sequence
  of migration edges; when it reports a pair, that pair has two different routes.
  The counts are cut off at two and the recursion returns on every such graph.
\<close>

theorem ambiguous_route_detection:
  assumes "closed_graph ids adj" and "\<not> has_migration_cycle ids adj"
    and "\<forall>z \<in> set ids. distinct (adj z)"
  shows "(find_ambiguous_route ids adj = None \<longleftrightarrow>
      (\<forall>x \<in> set ids. \<forall>y \<in> set ids. \<forall>p q. walk adj x p y \<longrightarrow> walk adj x q y \<longrightarrow> p = q)) \<and>
    (\<forall>x y. find_ambiguous_route ids adj = Some (x, y) \<longrightarrow>
      (\<exists>p q. p \<noteq> q \<and> walk adj x p y \<and> walk adj x q y))"
proof -
  have dag: "dag ids adj" using assms(1,2) has_migration_cycle_iff by (simp add: dag_def)
  show ?thesis
    unfolding find_ambiguous_route_None[OF dag assms(3)]
    using find_ambiguous_route_Some(3)[OF dag assms(3)] unfolding two_walks_def by blast
qed

theorem ambiguous_route_detection_witness:
  "find_ambiguous_route [''a'', ''b'', ''c''] (adjacency_of sample_edges) = Some (''a'', ''c'') \<and>
     (\<exists>p q. p \<noteq> q \<and> walk (adjacency_of sample_edges) ''a'' p ''c'' \<and> walk (adjacency_of sample_edges) ''a'' q ''c'')"
proof -
  have some: "find_ambiguous_route [''a'', ''b'', ''c''] (adjacency_of sample_edges) = Some (''a'', ''c'')"
    by code_simp
  have closed: "closed_graph [''a'', ''b'', ''c''] (adjacency_of sample_edges)"
    by (auto simp: closed_graph_def adjacency_of_def sample_edges_def)
  have acyclic: "\<not> has_migration_cycle [''a'', ''b'', ''c''] (adjacency_of sample_edges)" by code_simp
  have single: "\<forall>z \<in> set [''a'', ''b'', ''c'']. distinct (adjacency_of sample_edges z)"
    by (simp add: adjacency_of_def sample_edges_def)
  show ?thesis using some ambiguous_route_detection[OF closed acyclic single] by blast
qed

end
