(* ===== verification/JsonPath.thy ===== *)
theory JsonPath
  imports ModuleTypes
begin

text \<open>
  \<open>internal/configdoc/json_path.go\<close>: the parser of the closed JSONPath subset
  (\<open>$\<close>, \<open>.name\<close>, \<open>["quoted key"]\<close>, \<open>[index]\<close>), and the error
  codes of \<open>errors.go\<close>. The byte offsets of the Go loop are the remaining
  suffixes of the recursion; the JSON string literal of a quoted key is decoded
  with its escapes, surrogate pairs included.
\<close>

datatype doc_code =
    MalformedJSON | InvalidJSONPath | InvalidJSONValue | JSONParentMissing | JSONSourceMissing
  | JSONDestinationExists | MalformedINI | InvalidINIValue | INISourceMissing | INIDestinationExists

datatype json_path_token = Key string | Index nat

definition QUOTE :: char where "QUOTE = CHR 0x22"

lemmas quote_chars = QUOTE_def BSLASH_def

definition is_json_field_start :: "char \<Rightarrow> bool" where
  "is_json_field_start c \<longleftrightarrow> c = CHR ''_'' \<or> is_upper c \<or> is_lower c"

definition is_json_field_continue :: "char \<Rightarrow> bool" where
  "is_json_field_continue c \<longleftrightarrow> is_json_field_start c \<or> is_digit c"

section \<open>JSON string literals\<close>

text \<open>The scan for the closing quote; the flag is the Go variable \<open>escaped\<close>.\<close>

fun scan_quoted :: "bool \<Rightarrow> string \<Rightarrow> (string \<times> string) option" where
  "scan_quoted escaped [] = None"
| "scan_quoted True (c # s) = map_option (apfst (Cons c)) (scan_quoted False s)"
| "scan_quoted False (c # s) =
     (if c = BSLASH then map_option (apfst (Cons c)) (scan_quoted True s)
      else if c = QUOTE then Some ([], s)
      else map_option (apfst (Cons c)) (scan_quoted False s))"

definition surrogate :: "nat \<Rightarrow> bool" where
  "surrogate n \<longleftrightarrow> 55296 \<le> n \<and> n < 57344"

definition simple_escape :: "char \<Rightarrow> char option" where
  "simple_escape e =
     (if e = QUOTE \<or> e = BSLASH \<or> e = CHR ''/'' then Some e
      else if e = CHR ''b'' then Some (CHR 0x08)
      else if e = CHR ''f'' then Some (CHR 0x0C)
      else if e = CHR ''n'' then Some (CHR 0x0A)
      else if e = CHR ''r'' then Some (CHR 0x0D)
      else if e = CHR ''t'' then Some (CHR 0x09) else None)"

text \<open>
  A low surrogate written right after a high one; \<open>None\<close> means that the first
  half stands alone and becomes U+FFFD.
\<close>

fun low_half :: "nat \<Rightarrow> string \<Rightarrow> (nat \<times> string) option" where
  "low_half high (b # u # s) =
     (if b = BSLASH \<and> u = CHR ''u'' \<and> high < 56320 then
        (case hex4 s of
           Some (low, r) \<Rightarrow>
             if 56320 \<le> low \<and> low < 57344
             then Some (65536 + (high - 55296) * 1024 + (low - 56320), r) else None
         | None \<Rightarrow> None)
      else None)"
| "low_half high _ = None"

lemma low_half_length: "low_half n s = Some (m, r) \<Longrightarrow> length r < length s"
  by (induction n s rule: low_half.induct) (auto split: option.splits if_splits dest: hex4_length)

function (sequential) unquote_json :: "string \<Rightarrow> string option" where
  "unquote_json [] = Some []"
| "unquote_json (c # s) =
     (if byte c < 32 \<or> c = QUOTE then None
      else if c = BSLASH then
        (case s of [] \<Rightarrow> None
         | e # r \<Rightarrow>
           (if e = CHR ''u'' then
              (case hex4 r of None \<Rightarrow> None
               | Some (n, r1) \<Rightarrow>
                 (if surrogate n then
                    (case low_half n r1 of
                       Some (m, r2) \<Rightarrow> map_option (append (encode_rune m)) (unquote_json r2)
                     | None \<Rightarrow> map_option (append (encode_rune 65533)) (unquote_json r1))
                  else map_option (append (encode_rune n)) (unquote_json r1)))
            else (case simple_escape e of None \<Rightarrow> None
                  | Some d \<Rightarrow> map_option (Cons d) (unquote_json r))))
      else map_option (Cons c) (unquote_json s))"
  by pat_completeness auto

termination
  by (relation "measure length") (auto dest!: hex4_length low_half_length)

section \<open>The path parser\<close>

lemma scan_quoted_length: "scan_quoted b s = Some (body, r) \<Longrightarrow> length r < length s"
  by (induction b s arbitrary: body rule: scan_quoted.induct) (fastforce split: if_splits)+

lemma dropWhile_length: "dropWhile P s = e # r \<Longrightarrow> length r < length s"
  by (metis length_dropWhile_le length_Cons Suc_le_eq)

function (sequential) parse_tokens :: "string \<Rightarrow> json_path_token list option" where
  "parse_tokens [] = Some []"
| "parse_tokens (c # r) =
     (if c = CHR ''.'' then
        (if r = [] \<or> \<not> is_json_field_start (hd r) then None
         else map_option (Cons (Key (takeWhile is_json_field_continue r)))
                (parse_tokens (dropWhile is_json_field_continue r)))
      else if c = CHR ''['' then
        (case r of [] \<Rightarrow> None
         | d # s \<Rightarrow>
           (if d = QUOTE then
              (case scan_quoted False s of None \<Rightarrow> None
               | Some (body, rest) \<Rightarrow>
                 (case unquote_json body of None \<Rightarrow> None
                  | Some key \<Rightarrow>
                    (case rest of [] \<Rightarrow> None
                     | e # rest' \<Rightarrow>
                       (if e = CHR '']'' then map_option (Cons (Key key)) (parse_tokens rest') else None))))
            else
              (case dropWhile is_digit r of [] \<Rightarrow> None
               | e # rest \<Rightarrow>
                 (if takeWhile is_digit r = [] \<or> e \<noteq> CHR '']'' \<or>
                     1 < length (takeWhile is_digit r) \<and> d = CHR ''0'' then None
                  else (case atoi_digits (takeWhile is_digit r) of None \<Rightarrow> None
                        | Some n \<Rightarrow> map_option (Cons (Index n)) (parse_tokens rest))))))
      else None)"
  by pat_completeness auto

termination
  by (relation "measure length")
    (auto simp: le_imp_less_Suc length_dropWhile_le dest!: scan_quoted_length dropWhile_length split: if_splits)

definition parse_json_path :: "string \<Rightarrow> doc_code + json_path_token list" where
  "parse_json_path value =
     (if value = [] \<or> \<not> utf8_valid value \<or> hd value \<noteq> CHR ''$'' then Inl InvalidJSONPath
      else (case parse_tokens (tl value) of None \<Rightarrow> Inl InvalidJSONPath | Some ts \<Rightarrow> Inr ts))"

definition validate_json_path :: "string \<Rightarrow> doc_code option" where
  "validate_json_path path = (case parse_json_path path of Inl e \<Rightarrow> Some e | Inr _ \<Rightarrow> None)"

section \<open>Every location can be written\<close>

text \<open>A printer for paths, as a reference: names where possible, quoted keys elsewhere.\<close>

definition plain_name :: "string \<Rightarrow> bool" where
  "plain_name k \<longleftrightarrow> k \<noteq> [] \<and> is_json_field_start (hd k) \<and> list_all is_json_field_continue k"

definition hex_char :: "nat \<Rightarrow> char" where
  "hex_char n = char_of (if n < 10 then 48 + n else 87 + n)"

definition escape_char :: "char \<Rightarrow> string" where
  "escape_char c =
     (if c = QUOTE \<or> c = BSLASH then [BSLASH, c]
      else if byte c < 32 then BSLASH # ''u00'' @ [hex_char (byte c div 16), hex_char (byte c mod 16)]
      else [c])"

function decimal :: "nat \<Rightarrow> string" where
  "decimal n = (if n < 10 then [char_of (48 + n)] else decimal (n div 10) @ [char_of (48 + n mod 10)])"
  by pat_completeness auto
termination by (relation "measure id") auto

declare decimal.simps [simp del]

definition render_token :: "json_path_token \<Rightarrow> string" where
  "render_token t =
     (case t of
        Key k \<Rightarrow> if plain_name k then CHR ''.'' # k
                 else CHR ''['' # QUOTE # concat (map escape_char k) @ [QUOTE, CHR '']'']
      | Index n \<Rightarrow> CHR ''['' # decimal n @ [CHR '']''])"

definition render_path :: "json_path_token list \<Rightarrow> string" where
  "render_path ts = CHR ''$'' # concat (map render_token ts)"

definition addressable :: "json_path_token \<Rightarrow> bool" where
  "addressable t = (case t of Key k \<Rightarrow> utf8_valid k | Index n \<Rightarrow> n \<le> 9223372036854775807)"

subsection \<open>Quoted keys\<close>

lemma byte_less_256: "byte c < 256"
  by simp

lemma hex_digit_hex_char: "n < 16 \<Longrightarrow> hex_digit (hex_char n) = Some n"
  by (auto simp: hex_digit_def hex_char_def byte_in_def)

lemma byte_hex_char: "n < 16 \<Longrightarrow> byte (hex_char n) = (if n < 10 then 48 + n else 87 + n)"
  by (auto simp: hex_char_def)

lemma hex_char_plain: "n < 16 \<Longrightarrow> hex_char n \<noteq> QUOTE \<and> hex_char n \<noteq> BSLASH"
  using byte_hex_char[of n] by (auto simp: quote_chars split: if_splits)

lemma quote_neq [simp]: "QUOTE \<noteq> BSLASH" "BSLASH \<noteq> QUOTE"
  by (simp_all add: quote_chars)

lemma plain_chars [simp]: "CHR ''u'' \<noteq> BSLASH" "CHR ''u'' \<noteq> QUOTE" "CHR ''0'' \<noteq> BSLASH" "CHR ''0'' \<noteq> QUOTE"
  by (simp_all add: quote_chars)

lemma scan_escape: "scan_quoted False (escape_char c @ s) = map_option (apfst (append (escape_char c))) (scan_quoted False s)"
  using hex_char_plain[of "byte c div 16"] hex_char_plain[of "byte c mod 16"] byte_less_256[of c]
  by (auto simp: escape_char_def option.map_comp comp_def less_mult_imp_div_less intro!: option.map_cong)

lemma scan_quoted_escaped:
  "scan_quoted False (concat (map escape_char k) @ QUOTE # s) = Some (concat (map escape_char k), s)"
  by (induction k) (simp_all add: scan_escape)

lemma encode_rune_ascii: "byte c < 128 \<Longrightarrow> encode_rune (byte c) = [c]"
  by (simp add: encode_rune_def)

lemma unquote_escape: "unquote_json (escape_char c @ s) = map_option (Cons c) (unquote_json s)"
proof -
  have hex: "hex_digit CHR ''0'' = Some 0" by (simp add: hex_digit_def byte_in_def)
  show ?thesis
    using hex_digit_hex_char[of "byte c div 16"] hex_digit_hex_char[of "byte c mod 16"] byte_less_256[of c]
    by (auto simp: escape_char_def simple_escape_def hex surrogate_def encode_rune_ascii quote_chars less_mult_imp_div_less
        intro!: option.map_cong)
qed

lemma unquote_escaped: "unquote_json (concat (map escape_char k)) = Some k"
  by (induction k) (simp_all add: unquote_escape)

subsection \<open>Indices\<close>

lemma decimal_digits: "list_all is_digit (decimal n)"
proof (induction n rule: decimal.induct)
  case (1 n)
  have "is_digit (char_of (48 + n mod 10))" "n < 10 \<Longrightarrow> is_digit (char_of (48 + n))"
    by (simp_all add: byte_in_def)
  with 1 show ?case by (subst decimal.simps) simp
qed

lemma digits_value_snoc: "digits_value n (s @ [c]) = 10 * digits_value n s + (byte c - 48)"
  by (induction s arbitrary: n) simp_all

lemma digits_value_decimal: "digits_value 0 (decimal n) = n"
proof (induction n rule: decimal.induct)
  case (1 n)
  then show ?case by (subst decimal.simps) (auto simp: digits_value_snoc)
qed

lemma decimal_nonempty [simp]: "decimal n \<noteq> []"
  by (subst decimal.simps) simp

lemma decimal_no_leading_zero: "1 < length (decimal n) \<Longrightarrow> hd (decimal n) \<noteq> CHR ''0''"
proof (induction n rule: decimal.induct)
  case (1 n)
  show ?case
  proof (cases "n < 10")
    case False
    then have d: "decimal n = decimal (n div 10) @ [char_of (48 + n mod 10)]" by (subst decimal.simps) simp
    show ?thesis
    proof (cases "1 < length (decimal (n div 10))")
      case True
      then show ?thesis using 1(1)[OF False True] d by simp
    next
      case short: False
      then have "n div 10 < 10" by (subst (asm) decimal.simps) (auto split: if_splits)
      then have "decimal (n div 10) = [char_of (48 + n div 10)]" "n div 10 \<noteq> 0"
        using False by (subst decimal.simps, simp, simp add: div_eq_0_iff)
      moreover have "char_of (48 + n div 10) \<noteq> CHR ''0''"
      proof
        assume "char_of (48 + n div 10) = CHR ''0''"
        then have "byte (char_of (48 + n div 10)) = byte CHR ''0''" by simp
        then show False using \<open>n div 10 < 10\<close> \<open>n div 10 \<noteq> 0\<close> by simp
      qed
      ultimately show ?thesis using d by simp
    qed
  qed (use 1(2) in \<open>subst (asm) decimal.simps, simp\<close>)
qed

subsection \<open>The round trip\<close>

lemma render_boundary:
  "concat (map render_token ts) = [] \<or> \<not> is_json_field_continue (hd (concat (map render_token ts)))"
  by (cases ts) (auto simp: render_token_def is_json_field_continue_def is_json_field_start_def byte_in_def
      split: json_path_token.splits)

lemma takeWhile_boundary:
  assumes "list_all P k" "r = [] \<or> \<not> P (hd r)"
  shows "takeWhile P (k @ r) = k" "dropWhile P (k @ r) = r"
  using assms by (induction k) (cases r; auto)+

lemma parse_render: "list_all addressable ts \<Longrightarrow> parse_tokens (concat (map render_token ts)) = Some ts"
proof (induction ts)
  case (Cons t ts)
  let ?r = "concat (map render_token ts)"
  show ?case
  proof (cases t)
    case (Key k)
    show ?thesis
    proof (cases "plain_name k")
      case True
      then obtain c k' where k: "k = c # k'" "is_json_field_start c" "list_all is_json_field_continue k"
        by (cases k) (auto simp: plain_name_def)
      note tw = takeWhile_boundary[OF k(3) render_boundary, of ts]
      have "parse_tokens (CHR ''.'' # k @ ?r) =
         map_option (Cons (Key (takeWhile is_json_field_continue (k @ ?r))))
           (parse_tokens (dropWhile is_json_field_continue (k @ ?r)))"
        using k(1,2) by (subst parse_tokens.simps) simp
      then have "parse_tokens (CHR ''.'' # k @ ?r) = Some (Key k # ts)" using Key Cons tw by simp
      then show ?thesis using True Key by (simp add: render_token_def[of "Key k"])
    next
      case False
      have "parse_tokens (CHR ''['' # QUOTE # concat (map escape_char k) @ QUOTE # CHR '']'' # ?r) =
         map_option (Cons (Key k)) (parse_tokens ?r)"
        by (subst parse_tokens.simps) (simp add: scan_quoted_escaped unquote_escaped)
      then show ?thesis using False Key Cons by (simp add: render_token_def[of "Key k"])
    qed
  next
    case (Index n)
    obtain d ds where d: "decimal n = d # ds" by (cases "decimal n") simp_all
    have "is_digit d" using decimal_digits[of n] d by simp
    then have nq: "d \<noteq> QUOTE" by (auto simp: quote_chars byte_in_def)
    have tw: "takeWhile is_digit (decimal n @ CHR '']'' # ?r) = decimal n"
      "dropWhile is_digit (decimal n @ CHR '']'' # ?r) = CHR '']'' # ?r"
      using takeWhile_boundary[OF decimal_digits, of "CHR '']'' # ?r" n] by (auto simp: byte_in_def)
    have zero: "\<not> (1 < length (decimal n) \<and> d = CHR ''0'')" using decimal_no_leading_zero[of n] d by auto
    have atoi: "atoi_digits (decimal n) = Some n"
      using Cons.prems Index by (simp add: atoi_digits_def addressable_def digits_value_decimal)
    have start: "decimal n @ CHR '']'' # ?r = d # ds @ CHR '']'' # ?r" using d by simp
    have "parse_tokens (CHR ''['' # decimal n @ CHR '']'' # ?r) = map_option (Cons (Index n)) (parse_tokens ?r)"
      unfolding parse_tokens.simps(2) tw using zero nq start atoi by auto
    then show ?thesis using Index Cons by (simp add: render_token_def[of "Index n"])
  qed
qed simp

lemma escape_valid: "utf8_valid k \<Longrightarrow> utf8_valid (concat (map escape_char k))"
proof (rule utf8_valid_concat_map)
  show "utf8_valid (escape_char c)" if "byte c < 128" for c
  proof -
    have "byte (hex_char n) < 128" if "n < 16" for n using byte_hex_char[OF that] that by simp
    then show ?thesis using that
      by (simp add: escape_char_def quote_chars less_mult_imp_div_less)
  qed
  show "escape_char c = [c]" if "128 \<le> byte c" for c
    using that by (auto simp: escape_char_def quote_chars)
qed

lemma decimal_valid: "utf8_valid (decimal n @ s) \<longleftrightarrow> utf8_valid s"
proof -
  have "list_all is_digit p \<Longrightarrow> utf8_valid (p @ s) \<longleftrightarrow> utf8_valid s" for p
    by (induction p) (auto simp: byte_in_def)
  then show ?thesis using decimal_digits by blast
qed

lemma render_valid: "list_all addressable ts \<Longrightarrow> utf8_valid (concat (map render_token ts))"
proof (induction ts)
  case (Cons t ts)
  have "utf8_valid (render_token t)"
    using Cons.prems utf8_valid_append[OF escape_valid, of _ "[QUOTE, CHR '']'']"]
    by (auto simp: render_token_def addressable_def decimal_valid quote_chars split: json_path_token.splits)
  then show ?case using Cons by (simp add: utf8_valid_append)
qed simp

lemma parse_json_path_render: "list_all addressable ts \<Longrightarrow> parse_json_path (render_path ts) = Inr ts"
  using parse_render render_valid by (simp add: parse_json_path_def render_path_def)

text \<open>
  The path syntax reaches every location: any sequence of keys (valid
  UTF-8) and indices (up to the largest 64-bit integer) has a spelling that the
  parser reads back as exactly that sequence, so two locations never share one.
\<close>

theorem json_path_roundtrip:
  assumes "list_all addressable ts"
  shows "parse_json_path (render_path ts) = Inr ts"
  using assms by (rule parse_json_path_render)

theorem json_path_roundtrip_witness:
  "parse_json_path (render_path [Key ''editor'', Key ''a b'', Index 10]) = Inr [Key ''editor'', Key ''a b'', Index 10]"
proof (rule json_path_roundtrip)
  show "list_all addressable [Key ''editor'', Key ''a b'', Index 10]"
    by (simp add: addressable_def)
qed

end
