(* ===== verification/DocumentStore.thy ===== *)
theory DocumentStore
  imports JsonPath
begin

text \<open>
  The interface shared by the JSON and the INI documents of \<open>internal/configdoc\<close>:
  a value can be read, written and removed at an address. \<open>apart\<close> says that two
  addresses name disjoint parts of a document and \<open>stable\<close> that removing at an
  address renumbers nothing. The moves of both document kinds are a removal
  followed by a write, so their effect follows from the laws once.
\<close>

locale document_store =
  fixes get :: "'d \<Rightarrow> 'p \<Rightarrow> 'v option"
    and put :: "'d \<Rightarrow> 'p \<Rightarrow> 'v \<Rightarrow> 'e + 'd"
    and del :: "'d \<Rightarrow> 'p \<Rightarrow> 'e + 'd"
    and apart :: "'p \<Rightarrow> 'p \<Rightarrow> bool"
    and stable :: "'p \<Rightarrow> bool"
  assumes apart_sym: "apart p q \<Longrightarrow> apart q p"
    and get_put: "put d p v = Inr d' \<Longrightarrow> get d' p = Some v"
    and get_put_apart: "put d p v = Inr d' \<Longrightarrow> apart p q \<Longrightarrow> get d' q = get d q"
    and del_present: "del d p = Inr d' \<Longrightarrow> get d p \<noteq> None"
    and get_del: "del d p = Inr d' \<Longrightarrow> stable p \<Longrightarrow> get d' p = None"
    and get_del_apart: "del d p = Inr d' \<Longrightarrow> stable p \<Longrightarrow> apart p q \<Longrightarrow> get d' q = get d q"
begin

lemma put_put:
  assumes "put d p v = Inr d1" "put d1 q w = Inr d2" "apart p q"
  shows "get d2 p = Some v" "get d2 q = Some w"
  using assms get_put get_put_apart apart_sym by metis+

lemma put_del:
  assumes "put d p v = Inr d1" "del d1 p = Inr d2" "stable p"
  shows "get d2 p = None" and "apart p q \<Longrightarrow> get d2 q = get d q"
  using assms get_put_apart get_del get_del_apart by metis+

lemma relocate:
  assumes "del d p = Inr d1" "put d1 q v = Inr d2" "stable p" "apart p q"
  shows "get d2 q = Some v" and "get d2 p = None"
    and "apart p r \<Longrightarrow> apart q r \<Longrightarrow> get d2 r = get d r"
  using assms get_put get_put_apart get_del get_del_apart apart_sym by metis+

end

end
