(* ===== verification/JsonDocument.thy ===== *)
theory JsonDocument
  imports DocumentStore
begin

text \<open>
  \<open>internal/configdoc/json.go\<close>: reading, writing, deleting and moving values of
  decoded JSON documents. The Go functions work on a deep copy of the document, so
  their in-place updates are the functional updates below; \<open>copyJSONValue\<close> is the
  identity on decoded values. The bytes-to-tree decoder of \<open>encoding/json\<close> is not
  modelled here.
\<close>

fun lookup_json_value :: "json \<Rightarrow> json_path_token list \<Rightarrow> json option" where
  "lookup_json_value doc [] = Some doc"
| "lookup_json_value doc (Key k # ts) =
     (case doc of
        JObj m \<Rightarrow> (case fmlookup m k of None \<Rightarrow> None | Some child \<Rightarrow> lookup_json_value child ts)
      | _ \<Rightarrow> None)"
| "lookup_json_value doc (Index i # ts) =
     (case doc of
        JArr xs \<Rightarrow> if i < length xs then lookup_json_value (xs ! i) ts else None
      | _ \<Rightarrow> None)"

fun set_json_value :: "json \<Rightarrow> json_path_token list \<Rightarrow> json \<Rightarrow> doc_code + json" where
  "set_json_value doc [] value = Inr value"
| "set_json_value doc (Key k # ts) value =
     (case doc of
        JObj m \<Rightarrow>
          if ts = [] then Inr (JObj (fmupd k value m))
          else (case fmlookup m k of
                  None \<Rightarrow> Inl JSONParentMissing
                | Some child \<Rightarrow>
                    try_res (set_json_value child ts value) (\<lambda>updated. Inr (JObj (fmupd k updated m))))
      | _ \<Rightarrow> Inl JSONParentMissing)"
| "set_json_value doc (Index i # ts) value =
     (case doc of
        JArr xs \<Rightarrow>
          if \<not> i < length xs then Inl JSONParentMissing
          else if ts = [] then Inr (JArr (xs[i := value]))
          else try_res (set_json_value (xs ! i) ts value) (\<lambda>updated. Inr (JArr (xs[i := updated])))
      | _ \<Rightarrow> Inl JSONParentMissing)"

text \<open>No caller passes the empty path, on which the Go function would panic.\<close>

fun delete_json_value :: "json \<Rightarrow> json_path_token list \<Rightarrow> doc_code + json" where
  "delete_json_value doc [] = Inl JSONSourceMissing"
| "delete_json_value doc (Key k # ts) =
     (case doc of
        JObj m \<Rightarrow>
          (case fmlookup m k of
             None \<Rightarrow> Inl JSONSourceMissing
           | Some child \<Rightarrow>
               if ts = [] then Inr (JObj (fmdrop k m))
               else try_res (delete_json_value child ts) (\<lambda>updated. Inr (JObj (fmupd k updated m))))
      | _ \<Rightarrow> Inl JSONSourceMissing)"
| "delete_json_value doc (Index i # ts) =
     (case doc of
        JArr xs \<Rightarrow>
          if \<not> i < length xs then Inl JSONSourceMissing
          else if ts = [] then Inr (JArr (take i xs @ drop (Suc i) xs))
          else try_res (delete_json_value (xs ! i) ts) (\<lambda>updated. Inr (JArr (xs[i := updated])))
      | _ \<Rightarrow> Inl JSONSourceMissing)"

definition require_creatable_json_destination ::
    "json \<Rightarrow> json_path_token list \<Rightarrow> doc_code option" where
  "require_creatable_json_destination doc ts =
     (case lookup_json_value doc (butlast ts) of
        None \<Rightarrow> Some JSONParentMissing
      | Some parent \<Rightarrow>
          (case last ts of
             Key k \<Rightarrow>
               (case parent of
                  JObj m \<Rightarrow> if fmlookup m k \<noteq> None then Some JSONDestinationExists else None
                | _ \<Rightarrow> Some JSONParentMissing)
           | Index i \<Rightarrow>
               (case parent of
                  JArr xs \<Rightarrow> if i < length xs then Some JSONDestinationExists else Some JSONParentMissing
                | _ \<Rightarrow> Some JSONParentMissing)))"

definition json_set :: "json \<Rightarrow> string \<Rightarrow> json \<Rightarrow> doc_code + json" where
  "json_set doc path value =
     try_res (parse_json_path path) (\<lambda>tokens. set_json_value doc tokens value)"

definition json_delete :: "json \<Rightarrow> string \<Rightarrow> doc_code + json" where
  "json_delete doc path =
     try_res (parse_json_path path) (\<lambda>tokens.
       if tokens = [] then Inl InvalidJSONPath else delete_json_value doc tokens)"

definition json_move :: "json \<Rightarrow> string \<Rightarrow> string \<Rightarrow> doc_code + json" where
  "json_move doc from to =
     try_res (parse_json_path from) (\<lambda>fromTokens.
     try_res (parse_json_path to) (\<lambda>toTokens.
       if fromTokens = [] \<or> toTokens = [] then Inl InvalidJSONPath
       else (case lookup_json_value doc fromTokens of
          None \<Rightarrow> Inl JSONSourceMissing
        | Some source \<Rightarrow>
            if lookup_json_value doc toTokens \<noteq> None then Inl JSONDestinationExists
            else guard_res (require_creatable_json_destination doc toTokens)
              (try_res (delete_json_value doc fromTokens) (\<lambda>removed.
                 set_json_value removed toTokens source)))))"

definition json_path_exists :: "json \<Rightarrow> string \<Rightarrow> doc_code + bool" where
  "json_path_exists doc path =
     try_res (parse_json_path path) (\<lambda>tokens. Inr (lookup_json_value doc tokens \<noteq> None))"

section \<open>The document laws\<close>

text \<open>Two paths are apart when they part at some step, neither being a prefix of the other.\<close>

fun paths_apart :: "json_path_token list \<Rightarrow> json_path_token list \<Rightarrow> bool" where
  "paths_apart (a # as) (b # bs) \<longleftrightarrow> a \<noteq> b \<or> paths_apart as bs"
| "paths_apart _ _ \<longleftrightarrow> False"

definition ends_in_key :: "json_path_token list \<Rightarrow> bool" where
  "ends_in_key ts \<longleftrightarrow> ts \<noteq> [] \<and> (\<exists>k. last ts = Key k)"

lemma ends_in_key_simps [simp]:
  "\<not> ends_in_key []" "ends_in_key [Key k]" "\<not> ends_in_key [Index i]"
  "ts \<noteq> [] \<Longrightarrow> ends_in_key (t # ts) = ends_in_key ts"
  by (auto simp: ends_in_key_def)

lemma paths_apart_sym: "paths_apart p q \<Longrightarrow> paths_apart q p"
  by (induction p q rule: paths_apart.induct) auto

lemma lookup_set: "set_json_value d p v = Inr d' \<Longrightarrow> lookup_json_value d' p = Some v"
  by (induction d p v arbitrary: d' rule: set_json_value.induct)
    (auto split: json.splits if_splits option.splits)

lemma lookup_set_apart:
  "set_json_value d p v = Inr d' \<Longrightarrow> paths_apart p q \<Longrightarrow> lookup_json_value d' q = lookup_json_value d q"
proof (induction d p v arbitrary: d' q rule: set_json_value.induct)
  case (2 d k ts v)
  then show ?case
    by (cases q; cases "hd q") (auto split: json.splits if_splits option.splits)
next
  case (3 d i ts v)
  then show ?case
    by (cases q; cases "hd q") (auto simp: nth_list_update split: json.splits if_splits)
qed simp

lemma delete_present: "delete_json_value d p = Inr d' \<Longrightarrow> lookup_json_value d p \<noteq> None"
  by (induction d p arbitrary: d' rule: delete_json_value.induct)
    (auto split: json.splits if_splits option.splits)

lemma lookup_delete: "delete_json_value d p = Inr d' \<Longrightarrow> ends_in_key p \<Longrightarrow> lookup_json_value d' p = None"
  by (induction d p arbitrary: d' rule: delete_json_value.induct)
    (auto split: json.splits if_splits option.splits)

lemma lookup_delete_apart:
  "delete_json_value d p = Inr d' \<Longrightarrow> ends_in_key p \<Longrightarrow> paths_apart p q \<Longrightarrow>
     lookup_json_value d' q = lookup_json_value d q"
proof (induction d p arbitrary: d' q rule: delete_json_value.induct)
  case (2 d k ts)
  then show ?case
    by (cases q; cases "hd q") (auto split: json.splits if_splits option.splits)
next
  case (3 d i ts)
  then show ?case
    by (cases q; cases "hd q") (auto simp: nth_list_update split: json.splits if_splits)
qed simp

interpretation json: document_store lookup_json_value set_json_value delete_json_value paths_apart ends_in_key
  by unfold_locales
    (fact paths_apart_sym lookup_set lookup_set_apart delete_present lookup_delete lookup_delete_apart)+

lemma delete_total:
  "p \<noteq> [] \<Longrightarrow> (\<exists>d'. delete_json_value d p = Inr d') \<longleftrightarrow> lookup_json_value d p \<noteq> None"
proof (induction d p rule: delete_json_value.induct)
  case (2 d k ts)
  then show ?case by (cases "ts = []") (auto split: json.splits option.splits)
next
  case (3 d i ts)
  then show ?case by (cases "ts = []") (auto split: json.splits)
qed simp

lemma set_total:
  "p \<noteq> [] \<Longrightarrow> (\<exists>d'. set_json_value d p v = Inr d') \<longleftrightarrow>
     (case last p of
        Key k \<Rightarrow> (\<exists>m. lookup_json_value d (butlast p) = Some (JObj m))
      | Index i \<Rightarrow> lookup_json_value d p \<noteq> None)"
proof (induction d p v rule: set_json_value.induct)
  case (2 d k ts v)
  then show ?case by (cases "ts = []") (auto split: json.splits option.splits json_path_token.splits)
next
  case (3 d i ts v)
  then show ?case by (cases "ts = []") (auto split: json.splits json_path_token.splits)
qed simp

text \<open>
  Setting a value succeeds exactly when the path is well formed and its
  parent exists (an object for a key, a position in range for an index); afterwards
  the path holds that value and every path apart from it is as before.
\<close>

theorem json_set_correct:
  assumes "parse_json_path path = Inr p" and "p \<noteq> []"
  shows "((\<exists>d'. json_set d path v = Inr d') \<longleftrightarrow>
       (case last p of Key k \<Rightarrow> (\<exists>m. lookup_json_value d (butlast p) = Some (JObj m))
        | Index i \<Rightarrow> lookup_json_value d p \<noteq> None)) \<and>
     (\<forall>d'. json_set d path v = Inr d' \<longrightarrow>
       lookup_json_value d' p = Some v \<and>
       (\<forall>q. paths_apart p q \<longrightarrow> lookup_json_value d' q = lookup_json_value d q))"
  using assms set_total[OF assms(2), of d v] json.get_put json.get_put_apart
  by (simp add: json_set_def)

definition sample_document :: json where
  "sample_document = JObj (fmap_of_list
     [(''editor'', JObj (fmap_of_list [(''tabs'', JNum ''4'')])), (''recent'', JArr [JStr ''a'', JStr ''b''])])"

theorem json_set_witness:
  "\<exists>d'. json_set sample_document ''$.editor.theme'' (JStr ''dark'') = Inr d' \<and>
     lookup_json_value d' [Key ''editor'', Key ''theme''] = Some (JStr ''dark'')"
proof -
  have path: "parse_json_path ''$.editor.theme'' = Inr [Key ''editor'', Key ''theme'']" by code_simp
  have parent: "\<exists>m. lookup_json_value sample_document [Key ''editor''] = Some (JObj m)"
    by (simp add: sample_document_def)
  show ?thesis
    using json_set_correct[OF path, of sample_document "JStr ''dark''"] parent by auto
qed

lemma lookup_append: "lookup_json_value d (p @ q) =
    (case lookup_json_value d p of None \<Rightarrow> None | Some c \<Rightarrow> lookup_json_value c q)"
  by (induction d p rule: lookup_json_value.induct) (auto split: json.splits option.splits)

lemma paths_cases:
  obtains "paths_apart p q" | r where "q = p @ r" | r where "p = q @ r"
proof (induction p q arbitrary: thesis rule: paths_apart.induct)
  case (1 a as b bs)
  show ?case
  proof (cases "a = b")
    case True
    show ?thesis
      by (rule "1.IH") (use 1(2-) True in auto)
  qed (use 1 in auto)
qed auto

lemma creatable_iff:
  "q \<noteq> [] \<Longrightarrow> require_creatable_json_destination d q = None \<longleftrightarrow>
     lookup_json_value d q = None \<and> ends_in_key q \<and> (\<exists>m. lookup_json_value d (butlast q) = Some (JObj m))"
proof -
  assume q: "q \<noteq> []"
  then have "lookup_json_value d q =
     (case lookup_json_value d (butlast q) of None \<Rightarrow> None | Some c \<Rightarrow> lookup_json_value c [last q])"
    using lookup_append[of d "butlast q" "[last q]"] by simp
  with q show ?thesis
    by (cases "last q")
      (auto simp: require_creatable_json_destination_def ends_in_key_def split: option.splits json.splits if_splits)
qed

lemma apart_snoc: "paths_apart p (s @ [x]) \<Longrightarrow> paths_apart p s \<or> (\<exists>r. r \<noteq> [] \<and> p = s @ r)"
proof (induction p s rule: paths_apart.induct, goal_cases)
  case (1 a as b bs)
  then show ?case by (cases "a = b") auto
next
  case (3 p)
  then show ?case by (cases p) auto
qed simp

lemma delete_keeps_object:
  "delete_json_value d (s @ r) = Inr d' \<Longrightarrow> r \<noteq> [] \<Longrightarrow> lookup_json_value d s = Some (JObj m) \<Longrightarrow>
     \<exists>m'. lookup_json_value d' s = Some (JObj m')"
proof (induction s arbitrary: d d')
  case Nil
  then obtain t ts where r: "r = t # ts" by (cases r) auto
  show ?case using Nil unfolding r by (cases t) (auto split: option.splits if_splits)
next
  case (Cons t s)
  show ?case
  proof (cases t)
    case (Key k)
    then obtain n c u where "d = JObj n" "fmlookup n k = Some c" "lookup_json_value c s = Some (JObj m)"
      "delete_json_value c (s @ r) = Inr u" "d' = JObj (fmupd k u n)"
      using Cons.prems by (auto split: json.splits option.splits)
    then show ?thesis using Cons.IH[of c u] Cons.prems(2) Key by simp
  next
    case (Index i)
    then obtain xs u where "d = JArr xs" "i < length xs" "lookup_json_value (xs ! i) s = Some (JObj m)"
      "delete_json_value (xs ! i) (s @ r) = Inr u" "d' = JArr (xs[i := u])"
      using Cons.prems by (auto split: json.splits if_splits)
    then show ?thesis using Cons.IH[of "xs ! i" u] Cons.prems(2) Index by simp
  qed
qed

lemma set_after_delete:
  assumes del: "delete_json_value d p = Inr d1" and key: "ends_in_key p" "ends_in_key q"
    and free: "lookup_json_value d q = None" and parent: "lookup_json_value d (butlast q) = Some (JObj m)"
  shows "(\<exists>d'. set_json_value d1 q v = Inr d') \<longleftrightarrow> paths_apart p q"
proof -
  have q: "q \<noteq> []" "q = butlast q @ [last q]" using key by (auto simp: ends_in_key_def)
  obtain k where k: "last q = Key k" using key(2) by (auto simp: ends_in_key_def)
  have set_ok: "(\<exists>d'. set_json_value d1 q v = Inr d') \<longleftrightarrow> (\<exists>m. lookup_json_value d1 (butlast q) = Some (JObj m))"
    using set_total[OF q(1), of d1 v] k by simp
  show ?thesis
  proof (rule paths_cases[of p q])
    assume apart: "paths_apart p q"
    then have "paths_apart p (butlast q) \<or> (\<exists>r. r \<noteq> [] \<and> p = butlast q @ r)"
      using apart_snoc[of p "butlast q" "last q"] q by simp
    then have "\<exists>m. lookup_json_value d1 (butlast q) = Some (JObj m)"
    proof
      assume "paths_apart p (butlast q)"
      then show ?thesis using json.get_del_apart[OF del key(1)] parent by simp
    next
      assume "\<exists>r. r \<noteq> [] \<and> p = butlast q @ r"
      then obtain r where "r \<noteq> []" "p = butlast q @ r" by blast
      then show ?thesis using delete_keeps_object[of d "butlast q" r d1 m] del parent by simp
    qed
    then show ?thesis using set_ok apart by simp
  next
    fix r assume r: "q = p @ r"
    then have "r \<noteq> []" using free json.del_present[OF del] by auto
    then have "lookup_json_value d1 (butlast q) = None"
      using r lookup_append[of d1 p "butlast r"] json.get_del[OF del key(1)] by (simp add: butlast_append)
    moreover have "\<not> paths_apart p (p @ r)" for p r by (induction p) auto
    ultimately show ?thesis using set_ok r by simp
  next
    fix r assume "p = q @ r"
    then have False using free json.del_present[OF del] lookup_append[of d q r] by simp
    then show ?thesis ..
  qed
qed

text \<open>
  Property C36: a move whose source is an object member, when it succeeds, puts the
  old value at the destination, leaves nothing at the source and changes no path
  apart from both. It succeeds exactly when the source exists, the destination does
  not, its parent is an object, and the destination is not inside the source.
\<close>

theorem json_move_correct:
  assumes "parse_json_path from = Inr p" and "parse_json_path to = Inr q" and "ends_in_key p"
  shows "((\<exists>d'. json_move d from to = Inr d') \<longleftrightarrow>
       lookup_json_value d p \<noteq> None \<and> lookup_json_value d q = None \<and> ends_in_key q \<and>
       (\<exists>m. lookup_json_value d (butlast q) = Some (JObj m)) \<and> paths_apart p q) \<and>
     (\<forall>d'. json_move d from to = Inr d' \<longrightarrow>
       lookup_json_value d' q = lookup_json_value d p \<and> lookup_json_value d' p = None \<and>
       (\<forall>r. paths_apart p r \<longrightarrow> paths_apart q r \<longrightarrow> lookup_json_value d' r = lookup_json_value d r))"
proof -
  have p: "p \<noteq> []" using assms(3) by auto
  have unfold: "json_move d from to = Inr d' \<longleftrightarrow> q \<noteq> [] \<and> (\<exists>v d1. lookup_json_value d p = Some v \<and>
      lookup_json_value d q = None \<and> require_creatable_json_destination d q = None \<and>
      delete_json_value d p = Inr d1 \<and> set_json_value d1 q v = Inr d')" for d'
    using assms(1,2) p by (auto simp: json_move_def split: option.splits)
  have moved: "lookup_json_value d q = None \<and> ends_in_key q \<and> (\<exists>m. lookup_json_value d (butlast q) = Some (JObj m)) \<and>
      paths_apart p q \<and> (\<exists>v d1. lookup_json_value d p = Some v \<and> delete_json_value d p = Inr d1 \<and>
      set_json_value d1 q v = Inr d')" if "json_move d from to = Inr d'" for d'
    using that creatable_iff[of q d] set_after_delete[of d p _ q] assms(3) unfolding unfold by blast
  have "\<exists>d'. json_move d from to = Inr d'"
    if "lookup_json_value d p = Some v" "lookup_json_value d q = None" "ends_in_key q"
      "lookup_json_value d (butlast q) = Some (JObj m)" "paths_apart p q" for v m
  proof -
    have q: "q \<noteq> []" using that(3) by auto
    have ex: "\<exists>d1. delete_json_value d p = Inr d1" unfolding delete_total[OF p] using that(1) by simp
    obtain d1 where del: "delete_json_value d p = Inr d1" using ex by blast
    have "\<exists>d'. set_json_value d1 q v = Inr d'"
      unfolding set_after_delete[OF del assms(3) that(3,2,4)] by (rule that(5))
    moreover have "require_creatable_json_destination d q = None"
      using creatable_iff[OF q] that(2,3,4) by blast
    ultimately show ?thesis using unfold that(1,2) q del by blast
  qed
  moreover have "lookup_json_value d' q = lookup_json_value d p \<and> lookup_json_value d' p = None \<and>
      (\<forall>r. paths_apart p r \<longrightarrow> paths_apart q r \<longrightarrow> lookup_json_value d' r = lookup_json_value d r)"
    if ok: "json_move d from to = Inr d'" for d'
  proof -
    obtain v d1 where m: "paths_apart p q" "lookup_json_value d p = Some v"
      "delete_json_value d p = Inr d1" "set_json_value d1 q v = Inr d'" using moved[OF ok] by blast
    show ?thesis using json.relocate[OF m(3,4) assms(3) m(1)] m(2) by simp
  qed
  ultimately show ?thesis using moved by blast
qed

theorem json_move_witness:
  "\<exists>d'. json_move sample_document ''$.editor.tabs'' ''$.indent'' = Inr d' \<and>
     lookup_json_value d' [Key ''indent''] = Some (JNum ''4'') \<and> lookup_json_value d' [Key ''editor'', Key ''tabs''] = None"
proof -
  have src: "parse_json_path ''$.editor.tabs'' = Inr [Key ''editor'', Key ''tabs'']" by code_simp
  have dst: "parse_json_path ''$.indent'' = Inr [Key ''indent'']" by code_simp
  show ?thesis
    using json_move_correct[OF src dst, of sample_document] by (auto simp: sample_document_def)
qed

section \<open>Moving an array element\<close>

text \<open>
  Removing the element \<open>i\<close> of the array at \<open>p\<close> renumbers the elements behind it: what a path
  reads afterwards is what \<open>renumbered p i\<close> of it read before.
\<close>

fun renumbered :: "json_path_token list \<Rightarrow> nat \<Rightarrow> json_path_token list \<Rightarrow> json_path_token list" where
  "renumbered [] i (Index j # r) = Index (if j < i then j else Suc j) # r"
| "renumbered (t # p) i (u # r) = (if t = u then u # renumbered p i r else u # r)"
| "renumbered _ _ r = r"

lemma renumbered_prefix: "renumbered (r @ p) i r = r"
  by (induction r) (cases p; simp)+

lemma lookup_delete_element:
  "delete_json_value d (p @ [Index i]) = Inr d1 \<Longrightarrow> \<nexists>s. p = r @ s \<Longrightarrow>
     lookup_json_value d1 r = lookup_json_value d (renumbered p i r)"
proof (induction p arbitrary: d d1 r)
  case Nil
  obtain xs where xs: "d = JArr xs" "i < length xs" "d1 = JArr (take i xs @ drop (Suc i) xs)"
    using Nil(1) by (auto split: json.splits if_splits)
  obtain t ts where r: "r = t # ts" using Nil(2) by (cases r) auto
  show ?case
  proof (cases t)
    case (Index j)
    have "(take i xs @ drop (Suc i) xs) ! j = xs ! (if j < i then j else Suc j)"
      if "j < length xs - 1" using that xs(2) by (auto simp: nth_append min_def)
    then show ?thesis using xs r Index by auto
  qed (simp add: xs r)
next
  case (Cons t p)
  obtain u us where r: "r = u # us" using Cons.prems(2) by (cases r) auto
  have rest: "\<nexists>s. p = us @ s" if "t = u" using Cons.prems(2) that r by simp
  show ?case
  proof (cases t)
    case (Key k)
    then obtain n c w where "d = JObj n" "fmlookup n k = Some c" "delete_json_value c (p @ [Index i]) = Inr w"
      "d1 = JObj (fmupd k w n)" using Cons.prems(1) by (auto split: json.splits option.splits)
    then show ?thesis using Cons.IH[of c w us] rest r Key by (cases u) auto
  next
    case (Index j)
    then obtain xs w where "d = JArr xs" "j < length xs" "delete_json_value (xs ! j) (p @ [Index i]) = Inr w"
      "d1 = JArr (xs[j := w])" using Cons.prems(1) by (auto split: json.splits if_splits)
    then show ?thesis using Cons.IH[of "xs ! j" w us] rest r Index by (cases u) (auto simp: nth_list_update)
  qed
qed

lemma object_after_delete_element:
  assumes "delete_json_value d (p @ [Index i]) = Inr d1" and "lookup_json_value d s = Some (JObj m)"
  shows "(\<exists>m. lookup_json_value d1 s = Some (JObj m)) \<longleftrightarrow> (\<exists>m. lookup_json_value d (renumbered p i s) = Some (JObj m))"
proof (cases "\<exists>r. p = s @ r")
  case True
  then obtain r where r: "p = s @ r" by blast
  show ?thesis using delete_keeps_object[of d s "r @ [Index i]" d1 m] assms r by (auto simp: renumbered_prefix)
next
  case False
  show ?thesis unfolding lookup_delete_element[OF assms(1) False] ..
qed

text \<open>
  Property C37: a move whose source is the element \<open>i\<close> of the array at \<open>p\<close>. The destination is checked
  before the removal and written after it, so it is the renumbered place that is written: the
  move succeeds when the source exists, the destination does not, and the destination's
  parent is an object both before and after the renumbering. The write then finds
  at the free destination whatever the renumbering moved there, a value of another element
  included, and replaces it; every other path reads what its renumbered path read.
\<close>

theorem json_move_array_source_overwrites:
  assumes "parse_json_path from = Inr (p @ [Index i])" and "parse_json_path to = Inr q"
  shows "((\<exists>d'. json_move d from to = Inr d') \<longleftrightarrow>
       lookup_json_value d (p @ [Index i]) \<noteq> None \<and> lookup_json_value d q = None \<and> ends_in_key q \<and>
       (\<exists>m. lookup_json_value d (butlast q) = Some (JObj m)) \<and>
       (\<exists>m. lookup_json_value d (renumbered p i (butlast q)) = Some (JObj m))) \<and>
     (\<forall>d'. json_move d from to = Inr d' \<longrightarrow>
       lookup_json_value d' q = lookup_json_value d (p @ [Index i]) \<and>
       (\<exists>v removed. delete_json_value d (p @ [Index i]) = Inr removed \<and>
          lookup_json_value removed q = lookup_json_value d (renumbered p i q) \<and>
          set_json_value removed q v = Inr d') \<and>
       (\<forall>r. paths_apart q r \<longrightarrow> (\<nexists>s. p = r @ s) \<longrightarrow>
          lookup_json_value d' r = lookup_json_value d (renumbered p i r)))"
proof -
  let ?p = "p @ [Index i]"
  have unfold: "json_move d from to = Inr d' \<longleftrightarrow> q \<noteq> [] \<and> (\<exists>v d1. lookup_json_value d ?p = Some v \<and>
      lookup_json_value d q = None \<and> require_creatable_json_destination d q = None \<and>
      delete_json_value d ?p = Inr d1 \<and> set_json_value d1 q v = Inr d')" for d'
    using assms by (auto simp: json_move_def split: option.splits)
  have written: "(\<exists>d'. set_json_value d1 q v = Inr d') \<longleftrightarrow>
      (\<exists>m. lookup_json_value d (renumbered p i (butlast q)) = Some (JObj m))"
    if "delete_json_value d ?p = Inr d1" "ends_in_key q" "lookup_json_value d (butlast q) = Some (JObj m)" for d1 v m
  proof -
    have q: "q \<noteq> []" and k: "\<exists>k. last q = Key k" using that(2) by (auto simp: ends_in_key_def)
    show ?thesis using set_total[OF q, of d1 v] k object_after_delete_element[OF that(1,3)] by auto
  qed
  have removable: "lookup_json_value d ?p = Some v \<Longrightarrow> \<exists>d1. delete_json_value d ?p = Inr d1" for v
    using delete_total[of ?p d] by simp
  have creatable: "q \<noteq> [] \<and> lookup_json_value d q = None \<and> require_creatable_json_destination d q = None \<longleftrightarrow>
      lookup_json_value d q = None \<and> ends_in_key q \<and> (\<exists>m. lookup_json_value d (butlast q) = Some (JObj m))"
    using creatable_iff[of q d] by (cases "q = []") auto
  have success: "(\<exists>d'. json_move d from to = Inr d') \<longleftrightarrow> lookup_json_value d ?p \<noteq> None \<and>
      lookup_json_value d q = None \<and> ends_in_key q \<and> (\<exists>m. lookup_json_value d (butlast q) = Some (JObj m)) \<and>
      (\<exists>m. lookup_json_value d (renumbered p i (butlast q)) = Some (JObj m))"
    unfolding unfold using written removable creatable by (metis not_Some_eq)
  have not_above: "\<nexists>s. p = q @ s" if "lookup_json_value d ?p = Some v" "lookup_json_value d q = None" for v
    using that lookup_append[of d q] by auto
  have "lookup_json_value d' q = lookup_json_value d ?p \<and>
       (\<exists>v removed. delete_json_value d ?p = Inr removed \<and>
          lookup_json_value removed q = lookup_json_value d (renumbered p i q) \<and>
          set_json_value removed q v = Inr d') \<and>
       (\<forall>r. paths_apart q r \<longrightarrow> (\<nexists>s. p = r @ s) \<longrightarrow>
          lookup_json_value d' r = lookup_json_value d (renumbered p i r))"
    if ok: "json_move d from to = Inr d'" for d'
  proof -
    obtain v d1 where m: "lookup_json_value d ?p = Some v" "lookup_json_value d q = None"
      "delete_json_value d ?p = Inr d1" "set_json_value d1 q v = Inr d'" using ok unfolding unfold by blast
    show ?thesis
      using json.get_put[OF m(4)] json.get_put_apart[OF m(4)] lookup_delete_element[OF m(3)] not_above[OF m(1,2)] m(1,3,4)
      by auto
  qed
  then show ?thesis using success by blast
qed

definition array_document :: json where
  "array_document = JArr [JStr ''v'', JObj fmempty, JObj (fmap_of_list [(''x'', JNum ''1'')])]"

theorem json_move_array_source_overwrites_witness:
  "lookup_json_value array_document [Index 1, Key ''x''] = None \<and>
   lookup_json_value array_document [Index 2, Key ''x''] = Some (JNum ''1'') \<and>
   (\<exists>d'. json_move array_document ''$[0]'' ''$[1].x'' = Inr d' \<and>
      lookup_json_value d' [Index 0] = Some (JObj fmempty) \<and>
      lookup_json_value d' [Index 1, Key ''x''] = Some (JStr ''v'') \<and> lookup_json_value d' [Index 2] = None)"
proof -
  have name: "plain_name ''x''"
    by (simp add: plain_name_def is_json_field_continue_def is_json_field_start_def byte_in_def)
  have digit: "decimal 0 = ''0''" "decimal (Suc 0) = ''1''" by code_simp+
  have spelling: "''$[0]'' = render_path [Index 0]" "''$[1].x'' = render_path [Index 1, Key ''x'']"
    by (simp_all add: render_path_def render_token_def digit name)
  have src: "parse_json_path ''$[0]'' = Inr ([] @ [Index 0])"
    unfolding spelling append_Nil by (rule parse_json_path_render) (simp add: addressable_def)
  have dst: "parse_json_path ''$[1].x'' = Inr [Index 1, Key ''x'']"
    unfolding spelling by (rule parse_json_path_render) (simp add: addressable_def)
  note rule = json_move_array_source_overwrites[OF src dst, of array_document]
  have "\<exists>d'. json_move array_document ''$[0]'' ''$[1].x'' = Inr d'"
    unfolding conjunct1[OF rule] by (simp add: array_document_def)
  then obtain d' where d': "json_move array_document ''$[0]'' ''$[1].x'' = Inr d'" ..
  note after = conjunct2[OF rule, rule_format, OF d']
  have "lookup_json_value d' [Index 0] = Some (JObj fmempty)" "lookup_json_value d' [Index 2] = None"
    using after by (auto simp: array_document_def)
  moreover have "lookup_json_value d' [Index 1, Key ''x''] = Some (JStr ''v'')"
    using after by (auto simp: array_document_def)
  ultimately show ?thesis using d' by (auto simp: array_document_def)
qed

end
