(* ===== verification/IniDocument.thy ===== *)
theory IniDocument
  imports DocumentStore
begin

text \<open>
  \<open>internal/configdoc/ini.go\<close>: parsing, printing and editing of INI documents. A
  document maps section names to the keys and values of the section; the section
  named by the empty string holds the assignments before the first header.
  Iteration over a Go map followed by a sort is the sorted list of the keys.
\<close>

type_synonym ini = "(string, (string, string) fmap) fmap"

section \<open>Parsing\<close>

definition count_byte :: "char \<Rightarrow> string \<Rightarrow> nat" where
  "count_byte c s = length (filter (\<lambda>x. x = c) s)"

text \<open>The section name of a trimmed line that starts with a bracket.\<close>

definition ini_section_name :: "string \<Rightarrow> string option" where
  "ini_section_name trimmed =
     (if last trimmed \<noteq> CHR '']'' \<or> count_byte CHR ''['' trimmed \<noteq> 1 \<or> count_byte CHR '']'' trimmed \<noteq> 1
      then None
      else (let name = butlast (tl trimmed) in
            if name = [] \<or> name \<noteq> trim_space name \<or> contains_any name [CHR ''['', CHR '']'', CR, LF]
            then None else Some name))"

text \<open>
  One iteration of the loop over the lines. The Go set \<open>seenSections\<close> always
  equals the set of sections of the document.
\<close>

definition parse_ini_line :: "ini \<times> string \<Rightarrow> string \<Rightarrow> doc_code + ini \<times> string" where
  "parse_ini_line st raw =
     (case st of (sections, currentSection) \<Rightarrow>
       let line = trim_suffix_byte CR raw; trimmed = trim_space line in
       if CR \<in> set line then Inl MalformedINI
       else if trimmed = [] \<or> hd trimmed = CHR '';'' \<or> hd trimmed = CHR ''#'' then Inr (sections, currentSection)
       else if hd trimmed = CHR ''['' then
         (case ini_section_name trimmed of
            None \<Rightarrow> Inl MalformedINI
          | Some name \<Rightarrow>
              if fmlookup sections name \<noteq> None then Inl MalformedINI
              else Inr (fmupd name fmempty sections, name))
       else if CHR ''='' \<notin> set line \<or> hd line = CHR ''='' then Inl MalformedINI
       else (let key = takeWhile (\<lambda>c. c \<noteq> CHR ''='') line;
                 value = tl (dropWhile (\<lambda>c. c \<noteq> CHR ''='') line) in
             if key \<noteq> trim_space key \<or> contains_any key [CHR ''['', CHR '']'', CR, LF] then Inl MalformedINI
             else (case fmlookup sections currentSection of
                     None \<Rightarrow> Inl MalformedINI
                   | Some values \<Rightarrow>
                       if fmlookup values key \<noteq> None then Inl MalformedINI
                       else Inr (fmupd currentSection (fmupd key value values) sections, currentSection))))"

fun parse_ini_lines :: "ini \<times> string \<Rightarrow> string list \<Rightarrow> doc_code + ini \<times> string" where
  "parse_ini_lines st [] = Inr st"
| "parse_ini_lines st (l # ls) = try_res (parse_ini_line st l) (\<lambda>st'. parse_ini_lines st' ls)"

definition parse_ini :: "string \<Rightarrow> doc_code + ini" where
  "parse_ini text =
     (if \<not> utf8_valid text \<or> NUL \<in> set text then Inl MalformedINI
      else try_res (parse_ini_lines (fmupd [] fmempty fmempty, []) (split_on LF text)) (\<lambda>st. Inr (fst st)))"

section \<open>Printing\<close>

definition sorted_keys :: "(string, 'v) fmap \<Rightarrow> string list" where
  "sorted_keys m = sorted_list_of_fset (fmdom m)"

definition assignment :: "(string, string) fmap \<Rightarrow> string \<Rightarrow> string" where
  "assignment values key = key @ CHR ''='' # the (fmlookup values key)"

definition encode_ini_keys :: "(string, string) fmap \<Rightarrow> string" where
  "encode_ini_keys values = join_with [LF] (map (assignment values) (sorted_keys values))"

definition encode_ini :: "ini \<Rightarrow> string" where
  "encode_ini document =
     (let global = (case fmlookup document [] of None \<Rightarrow> [] | Some m \<Rightarrow> encode_ini_keys m);
          sections = filter (\<lambda>s. s \<noteq> []) (sorted_keys document);
          group = (\<lambda>s. let body = encode_ini_keys (the (fmlookup document s)) in
                       CHR ''['' # s @ CHR '']'' # (if body \<noteq> [] then LF # body else []));
          groups = (if global \<noteq> [] then [global] else []) @ map group sections in
      if groups = [] then [] else join_with [LF, LF] groups @ [LF])"

section \<open>Editing\<close>

definition validate_ini_value :: "string \<Rightarrow> doc_code option" where
  "validate_ini_value value =
     (if \<not> utf8_valid value \<or> contains_any value [CR, LF, NUL] then Some InvalidINIValue else None)"

definition validate_ini_address :: "string \<Rightarrow> string \<Rightarrow> doc_code option" where
  "validate_ini_address section_name key =
     (if trim_space section_name = [] \<or> trim_space key = [] \<or>
         section_name \<noteq> trim_space section_name \<or> key \<noteq> trim_space key \<or>
         \<not> utf8_valid section_name \<or> \<not> utf8_valid key \<or>
         contains_any section_name [CHR ''['', CHR '']'', CR, LF, NUL] \<or>
         contains_any key [CHR ''['', CHR '']'', CHR ''='', CR, LF, NUL] \<or>
         prefix '';'' key \<or> prefix ''#'' key
      then Some MalformedINI else None)"

definition ini_lookup :: "ini \<Rightarrow> string \<times> string \<Rightarrow> string option" where
  "ini_lookup document address =
     (case fmlookup document (fst address) of None \<Rightarrow> None | Some values \<Rightarrow> fmlookup values (snd address))"

definition ini_store :: "ini \<Rightarrow> string \<times> string \<Rightarrow> string \<Rightarrow> ini" where
  "ini_store document address value =
     fmupd (fst address)
       (fmupd (snd address) value
         (case fmlookup document (fst address) of None \<Rightarrow> fmempty | Some values \<Rightarrow> values))
       document"

definition ini_set :: "ini \<Rightarrow> string \<Rightarrow> string \<Rightarrow> string \<Rightarrow> doc_code + ini" where
  "ini_set document section_name key value =
     guard_res (validate_ini_address section_name key)
       (guard_res (validate_ini_value value) (Inr (ini_store document (section_name, key) value)))"

definition ini_key_exists :: "ini \<Rightarrow> string \<Rightarrow> string \<Rightarrow> doc_code + bool" where
  "ini_key_exists document section_name key =
     guard_res (validate_ini_address section_name key) (Inr (ini_lookup document (section_name, key) \<noteq> None))"

definition ini_remove :: "ini \<Rightarrow> string \<times> string \<Rightarrow> doc_code + ini" where
  "ini_remove document address =
     (case fmlookup document (fst address) of
        None \<Rightarrow> Inl INISourceMissing
      | Some values \<Rightarrow>
          if fmlookup values (snd address) = None then Inl INISourceMissing
          else Inr (fmupd (fst address) (fmdrop (snd address) values) document))"

definition ini_delete :: "ini \<Rightarrow> string \<Rightarrow> string \<Rightarrow> doc_code + ini" where
  "ini_delete document section_name key =
     guard_res (validate_ini_address section_name key) (ini_remove document (section_name, key))"

definition ini_move :: "ini \<Rightarrow> string \<Rightarrow> string \<Rightarrow> string \<Rightarrow> string \<Rightarrow> doc_code + ini" where
  "ini_move document fromSection fromKey toSection toKey =
     guard_res (validate_ini_address fromSection fromKey)
       (guard_res (validate_ini_address toSection toKey)
         (case ini_lookup document (fromSection, fromKey) of
            None \<Rightarrow> Inl INISourceMissing
          | Some value \<Rightarrow>
              if ini_lookup document (toSection, toKey) \<noteq> None then Inl INIDestinationExists
              else try_res (ini_remove document (fromSection, fromKey)) (\<lambda>removed.
                     Inr (ini_store removed (toSection, toKey) value))))"

section \<open>The document laws\<close>

interpretation ini: document_store ini_lookup "\<lambda>d a v. Inr (ini_store d a v)" ini_remove "(\<noteq>)" "\<lambda>_. True"
  by unfold_locales
    (auto simp: ini_lookup_def ini_store_def ini_remove_def prod_eq_iff split: option.splits if_splits)

text \<open>
  A move between valid addresses succeeds exactly when the source key
  exists and the destination key does not; then the destination holds the value, the
  source is gone and every other key of every section is as before. Invalid
  addresses are rejected.
\<close>

theorem ini_move_correct:
  assumes "validate_ini_address s k = None" and "validate_ini_address s' k' = None"
  shows "((\<exists>d'. ini_move d s k s' k' = Inr d') \<longleftrightarrow>
       ini_lookup d (s, k) \<noteq> None \<and> ini_lookup d (s', k') = None) \<and>
     (\<forall>d'. ini_move d s k s' k' = Inr d' \<longrightarrow>
       ini_lookup d' (s', k') = ini_lookup d (s, k) \<and> ini_lookup d' (s, k) = None \<and>
       (\<forall>a. a \<noteq> (s, k) \<longrightarrow> a \<noteq> (s', k') \<longrightarrow> ini_lookup d' a = ini_lookup d a))"
proof -
  have removable: "\<exists>r. ini_remove d (s, k) = Inr r" if "ini_lookup d (s, k) = Some v" for v
    using that by (auto simp: ini_remove_def ini_lookup_def split: option.splits)
  have moved: "ini_lookup d' (s', k') = ini_lookup d (s, k) \<and> ini_lookup d' (s, k) = None \<and>
      (\<forall>a. a \<noteq> (s, k) \<longrightarrow> a \<noteq> (s', k') \<longrightarrow> ini_lookup d' a = ini_lookup d a)"
    if ok: "ini_move d s k s' k' = Inr d'" for d'
  proof -
    obtain v r where m: "ini_lookup d (s, k) = Some v" "ini_lookup d (s', k') = None"
        "ini_remove d (s, k) = Inr r" "d' = ini_store r (s', k') v"
      using ok assms by (auto simp: ini_move_def split: option.splits if_splits)
    then have apart: "(s, k) \<noteq> (s', k')" by auto
    show ?thesis using ini.relocate[OF m(3) _ TrueI apart, of v d'] m(1,4) by auto
  qed
  have "(\<exists>d'. ini_move d s k s' k' = Inr d') \<longleftrightarrow>
      ini_lookup d (s, k) \<noteq> None \<and> ini_lookup d (s', k') = None"
  proof (cases "ini_lookup d (s, k)")
    case (Some v)
    obtain r where "ini_remove d (s, k) = Inr r" using removable[OF Some] by blast
    with Some show ?thesis by (simp add: ini_move_def assms)
  qed (simp add: ini_move_def assms)
  then show ?thesis using moved by simp
qed

section \<open>Well-formed documents\<close>

definition ini_section_ok :: "string \<Rightarrow> bool" where
  "ini_section_ok s \<longleftrightarrow> s \<noteq> [] \<and> no_outer_space s \<and> utf8_valid s \<and>
     \<not> contains_any s [CHR ''['', CHR '']'', CR, LF, NUL]"

definition ini_key_ok :: "string \<Rightarrow> bool" where
  "ini_key_ok k \<longleftrightarrow> k \<noteq> [] \<and> no_outer_space k \<and> utf8_valid k \<and>
     \<not> contains_any k [CHR ''['', CHR '']'', CHR ''='', CR, LF, NUL] \<and> hd k \<noteq> CHR '';'' \<and> hd k \<noteq> CHR ''#''"

definition ini_value_ok :: "string \<Rightarrow> bool" where
  "ini_value_ok v \<longleftrightarrow> utf8_valid v \<and> \<not> contains_any v [CR, LF, NUL]"

definition wf_ini :: "ini \<Rightarrow> bool" where
  "wf_ini d \<longleftrightarrow> fmlookup d [] \<noteq> None \<and>
     (\<forall>s m. fmlookup d s = Some m \<longrightarrow> (s = [] \<or> ini_section_ok s) \<and>
        (\<forall>k v. fmlookup m k = Some v \<longrightarrow> ini_key_ok k \<and> ini_value_ok v))"

lemma validate_ini_value_iff: "validate_ini_value v = None \<longleftrightarrow> ini_value_ok v"
  by (simp add: validate_ini_value_def ini_value_ok_def)

lemma validate_ini_address_iff:
  "validate_ini_address s k = None \<longleftrightarrow> ini_section_ok s \<and> ini_key_ok k"
proof -
  have trim: "x \<noteq> trim_space x \<longleftrightarrow> \<not> no_outer_space x" for x
    using trim_space_fixed[of x] by auto
  have empty: "no_outer_space x \<Longrightarrow> trim_space x = [] \<longleftrightarrow> x = []" for x
    by (simp add: trim_space_id)
  have head: "prefix [c] k \<longleftrightarrow> k \<noteq> [] \<and> hd k = c" for c
    by (cases k) auto
  show ?thesis
    unfolding validate_ini_address_def ini_section_ok_def ini_key_ok_def trim head
    using empty by auto
qed

subsection \<open>Editing keeps documents well formed\<close>

lemma wf_ini_store:
  "wf_ini d \<Longrightarrow> ini_section_ok s \<Longrightarrow> ini_key_ok k \<Longrightarrow> ini_value_ok v \<Longrightarrow> wf_ini (ini_store d (s, k) v)"
  by (auto simp: wf_ini_def ini_store_def split: option.splits if_splits)

lemma wf_ini_remove: "wf_ini d \<Longrightarrow> ini_remove d a = Inr d' \<Longrightarrow> wf_ini d'"
  by (fastforce simp: wf_ini_def ini_remove_def split: option.splits if_splits)

lemma wf_ini_lookup: "wf_ini d \<Longrightarrow> ini_lookup d a = Some v \<Longrightarrow> ini_value_ok v"
  by (auto simp: wf_ini_def ini_lookup_def split: option.splits)

text \<open>
  Every edit keeps a well-formed document well formed: names and
  values written by \<open>INISet\<close>, \<open>INIDelete\<close> and \<open>INIMove\<close> can always be
  printed and parsed again.
\<close>

theorem ini_edit_preserves_wf:
  assumes "wf_ini d"
  shows "(\<forall>s k v d'. ini_set d s k v = Inr d' \<longrightarrow> wf_ini d') \<and>
     (\<forall>s k d'. ini_delete d s k = Inr d' \<longrightarrow> wf_ini d') \<and>
     (\<forall>s k s' k' d'. ini_move d s k s' k' = Inr d' \<longrightarrow> wf_ini d')"
  using assms
  by (auto simp: ini_set_def ini_delete_def ini_move_def validate_ini_address_iff validate_ini_value_iff
      intro: wf_ini_store wf_ini_remove wf_ini_lookup split: option.splits if_splits)

lemma wf_ini_empty: "wf_ini (fmupd [] fmempty fmempty)"
  by (simp add: wf_ini_def)

theorem ini_edit_preserves_wf_witness:
  "\<exists>d'. ini_set (fmupd [] fmempty fmempty) ''window'' ''width'' ''800'' = Inr d' \<and> wf_ini d'"
proof -
  have "validate_ini_address ''window'' ''width'' = None" "validate_ini_value ''800'' = None" by code_simp+
  then show ?thesis using ini_edit_preserves_wf[OF wf_ini_empty] by (simp add: ini_set_def)
qed

theorem ini_move_witness:
  "ini_lookup (ini_store fmempty (''window'', ''width'') ''800'') (''window'', ''width'') = Some ''800'' \<and>
   (\<exists>d'. ini_move (ini_store fmempty (''window'', ''width'') ''800'') ''window'' ''width'' ''frame'' ''width'' = Inr d' \<and>
      ini_lookup d' (''frame'', ''width'') = Some ''800'')"
proof -
  have ok: "validate_ini_address ''window'' ''width'' = None" "validate_ini_address ''frame'' ''width'' = None"
    by code_simp+
  show ?thesis
    using ini_move_correct[OF ok, of "ini_store fmempty (''window'', ''width'') ''800''"]
    by (auto simp: ini_store_def ini_lookup_def)
qed

section \<open>Printing and parsing again\<close>

lemma space_runes_clean:
  "\<forall>w \<in> set space_runes. w \<noteq> [] \<and> CHR ''='' \<notin> set w \<and> CHR ''['' \<notin> set w \<and> CHR '']'' \<notin> set w"
  by (simp add: space_runes_def)

lemma control_neq [simp]:
  "CR \<noteq> LF" "CR \<noteq> NUL" "LF \<noteq> NUL" "LF \<noteq> CR" "CHR ''['' \<noteq> CR" "CHR ''['' \<noteq> LF" "CHR '']'' \<noteq> CR" "CHR '']'' \<noteq> LF"
  "CHR ''='' \<noteq> CR" "CHR ''='' \<noteq> LF" "CR \<noteq> CHR ''=''" "LF \<noteq> CHR ''=''" "LF \<noteq> CHR ''[''" "LF \<noteq> CHR '']''"
  "CR \<noteq> CHR ''[''" "CR \<noteq> CHR '']''" "NUL \<noteq> CHR ''[''" "NUL \<noteq> CHR '']''" "NUL \<noteq> CHR ''=''" "NUL \<noteq> LF"
  by (simp_all add: control_chars)

lemma contains_any_simps [simp]:
  "contains_any s [] \<longleftrightarrow> False" "contains_any s (c # cs) \<longleftrightarrow> c \<in> set s \<or> contains_any s cs"
  by (auto simp: contains_any_def)

lemma parse_blank_line [simp]: "parse_ini_line st [] = Inr st"
  by (cases st) (simp add: parse_ini_line_def trim_suffix_byte_def)

lemma trim_suffix_absent: "c \<notin> set s \<Longrightarrow> trim_suffix_byte c s = s"
  by (auto simp: trim_suffix_byte_def)

lemma trim_bracketed: "trim_space (CHR ''['' # s @ [CHR '']'']) = CHR ''['' # s @ [CHR '']'']"
proof (rule trim_space_id)
  show "no_outer_space (CHR ''['' # s @ [CHR '']''])"
    unfolding no_outer_space_def
    by (intro disjI2 conjI) (simp_all add: lead_width_head space_runes_def)
qed

lemma count_byte_absent: "c \<notin> set s \<Longrightarrow> count_byte c s = 0"
  by (auto simp: count_byte_def filter_empty_conv)

lemma count_byte_simps [simp]:
  "count_byte c [] = 0" "count_byte c (x # s) = (if x = c then Suc (count_byte c s) else count_byte c s)"
  "count_byte c (s @ t) = count_byte c s + count_byte c t"
  by (simp_all add: count_byte_def)

lemma parse_header:
  assumes "ini_section_ok s" "fmlookup d s = None"
  shows "parse_ini_line (d, cur) (CHR ''['' # s @ [CHR '']'']) = Inr (fmupd s fmempty d, s)"
proof -
  have s: "s \<noteq> []" "trim_space s = s" "CHR ''['' \<notin> set s" "CHR '']'' \<notin> set s" "CR \<notin> set s" "LF \<notin> set s"
    using assms(1) by (auto simp: ini_section_ok_def trim_space_id)
  then have "ini_section_name (CHR ''['' # s @ [CHR '']'']) = Some s"
    by (simp add: ini_section_name_def count_byte_absent Let_def)
  then show ?thesis
    using s assms(2) by (simp add: parse_ini_line_def trim_suffix_absent trim_bracketed Let_def)
qed

lemma take_drop_equals:
  assumes "CHR ''='' \<notin> set k"
  shows "takeWhile (\<lambda>c. c \<noteq> CHR ''='') (k @ CHR ''='' # v) = k"
    "dropWhile (\<lambda>c. c \<noteq> CHR ''='') (k @ CHR ''='' # v) = CHR ''='' # v"
  using assms by (induction k) auto

lemma assignment_head:
  assumes "k \<noteq> []" "no_outer_space k"
  shows "trim_space (k @ CHR ''='' # v) \<noteq> []" "hd (trim_space (k @ CHR ''='' # v)) = hd k"
proof -
  have "lead_width space_runes (k @ CHR ''='' # v) = 0"
    by (rule lead_width_zero_append) (use assms space_runes_clean in \<open>auto simp: no_outer_space_def\<close>)
  from trim_space_head[OF this, of "CHR ''=''"] space_runes_clean assms(1)
  show "trim_space (k @ CHR ''='' # v) \<noteq> []" "hd (trim_space (k @ CHR ''='' # v)) = hd k" by auto
qed

lemma parse_assignment:
  assumes "ini_key_ok k" "ini_value_ok v" "fmlookup d cur = Some m" "fmlookup m k = None"
  shows "parse_ini_line (d, cur) (k @ CHR ''='' # v) = Inr (fmupd cur (fmupd k v m) d, cur)"
proof -
  have k: "k \<noteq> []" "no_outer_space k" "hd k \<noteq> CHR '';''" "hd k \<noteq> CHR ''#''" "hd k \<noteq> CHR ''[''" "hd k \<noteq> CHR ''=''"
      "trim_space k = k" "CHR ''['' \<notin> set k" "CHR '']'' \<notin> set k" "CHR ''='' \<notin> set k" "CR \<notin> set k" "LF \<notin> set k"
    using assms(1) list.set_sel(1)[of k] by (force simp: ini_key_ok_def trim_space_id)+
  have v: "CR \<notin> set v" using assms(2) by (simp add: ini_value_ok_def)
  have cr: "trim_suffix_byte CR (k @ CHR ''='' # v) = k @ CHR ''='' # v"
    by (rule trim_suffix_absent) (use k v in simp)
  show ?thesis
    using k v assms(3,4) assignment_head[OF k(1,2), of v]
    by (simp add: parse_ini_line_def cr take_drop_equals Let_def)
qed

text \<open>Blank lines do not matter.\<close>

lemma parse_ini_lines_append:
  "parse_ini_lines st (ls @ ls') = try_res (parse_ini_lines st ls) (\<lambda>st'. parse_ini_lines st' ls')"
proof (induction ls arbitrary: st)
  case (Cons l ls)
  then show ?case by (cases "parse_ini_line st l") simp_all
qed simp

lemma parse_ini_lines_filter: "parse_ini_lines st ls = parse_ini_lines st (filter (\<lambda>l. l \<noteq> []) ls)"
proof (induction ls arbitrary: st)
  case (Cons l ls)
  then show ?case by (cases "l = []"; cases "parse_ini_line st l") simp_all
qed simp

subsection \<open>The lines of a printed document\<close>

definition section_lines :: "ini \<Rightarrow> string \<Rightarrow> string list" where
  "section_lines d s =
     (CHR ''['' # s @ [CHR '']'']) # map (assignment (the (fmlookup d s))) (sorted_keys (the (fmlookup d s)))"

definition document_groups :: "ini \<Rightarrow> string list list" where
  "document_groups d =
     filter (\<lambda>g. g \<noteq> []) [map (assignment (the (fmlookup d []))) (sorted_keys (the (fmlookup d [])))] @
     map (section_lines d) (filter (\<lambda>s. s \<noteq> []) (sorted_keys d))"

fun separated :: "string list list \<Rightarrow> string list" where
  "separated [] = []"
| "separated [g] = g"
| "separated (g # h # gs) = g @ [] # separated (h # gs)"

definition unlines :: "string list \<Rightarrow> string" where
  "unlines ls = concat (map (\<lambda>l. l @ [LF]) ls)"

lemma unlines_simps [simp]:
  "unlines [] = []" "unlines (l # ls) = l @ LF # unlines ls" "unlines (ls @ ls') = unlines ls @ unlines ls'"
  by (simp_all add: unlines_def)

lemma sorted_keys_facts [simp]: "set (sorted_keys m) = fset (fmdom m)" "distinct (sorted_keys m)"
  by (simp_all add: sorted_keys_def sorted_list_of_fset.rep_eq)

lemma join_unlines: "g \<noteq> [] \<Longrightarrow> join_with [LF] g @ LF # t = unlines g @ t"
  by (induction "[LF]" g rule: join_with.induct) simp_all

lemma join_groups:
  "gs \<noteq> [] \<Longrightarrow> \<forall>g \<in> set gs. g \<noteq> [] \<Longrightarrow> join_with [LF, LF] (map (join_with [LF]) gs) @ [LF] = unlines (separated gs)"
proof (induction gs rule: separated.induct)
  case (3 g h gs)
  have "join_with [LF, LF] (map (join_with [LF]) (g # h # gs)) @ [LF] =
      join_with [LF] g @ LF # LF # (join_with [LF, LF] (map (join_with [LF]) (h # gs)) @ [LF])" by simp
  also have "\<dots> = unlines g @ LF # unlines (separated (h # gs))"
    using 3 join_unlines[of g] by simp
  finally show ?case by simp
qed (simp_all add: join_unlines)

lemma split_unlines: "\<forall>l \<in> set ls. LF \<notin> set l \<Longrightarrow> split_on LF (unlines ls) = ls @ [[]]"
  by (induction ls) (simp_all add: split_on_append)

lemma set_separated: "set (separated gs) \<subseteq> insert [] (\<Union>g \<in> set gs. set g)"
  by (induction gs rule: separated.induct) auto

lemma filter_separated:
  "\<forall>g \<in> set gs. \<forall>l \<in> set g. l \<noteq> [] \<Longrightarrow> filter (\<lambda>l. l \<noteq> []) (separated gs) = concat gs"
  by (induction gs rule: separated.induct) (simp_all add: filter_id_conv)

lemma assignment_nonempty [simp]: "assignment m k \<noteq> []"
  by (simp add: assignment_def)

lemma join_empty: "join_with [LF] ls = [] \<longleftrightarrow> ls = [] \<or> ls = [[]]"
  by (cases ls; cases "tl ls") auto

lemma encode_ini_keys_empty: "encode_ini_keys m = [] \<longleftrightarrow> sorted_keys m = []"
  by (auto simp: encode_ini_keys_def join_empty map_eq_Cons_conv)

lemma encode_ini_eq:
  assumes "fmlookup d [] \<noteq> None"
  shows "encode_ini d = unlines (separated (document_groups d))"
proof -
  obtain m where m: "fmlookup d [] = Some m" using assms by auto
  have body: "CHR ''['' # s @ CHR '']'' # (if encode_ini_keys n \<noteq> [] then LF # encode_ini_keys n else []) =
      join_with [LF] ((CHR ''['' # s @ [CHR '']'']) # map (assignment n) (sorted_keys n))" for s n
  proof (cases "sorted_keys n = []")
    case False
    then show ?thesis
      using encode_ini_keys_empty[of n] by (simp add: encode_ini_keys_def join_with_Cons)
  qed (use encode_ini_keys_empty[of n] in simp)
  let ?gs = "document_groups d"
  have groups: "(if encode_ini_keys m \<noteq> [] then [encode_ini_keys m] else []) @
      map (\<lambda>s. CHR ''['' # s @ CHR '']'' # (if encode_ini_keys (the (fmlookup d s)) \<noteq> []
        then LF # encode_ini_keys (the (fmlookup d s)) else [])) (filter (\<lambda>s. s \<noteq> []) (sorted_keys d)) =
      map (join_with [LF]) ?gs"
    unfolding body using m encode_ini_keys_empty[of m]
    by (auto simp: document_groups_def section_lines_def encode_ini_keys_def)
  have ne: "\<forall>g \<in> set ?gs. g \<noteq> []" by (auto simp: document_groups_def section_lines_def)
  show ?thesis
    unfolding encode_ini_def Let_def m option.case groups
    using join_groups[OF _ ne] by (cases "?gs = []") simp_all
qed

subsection \<open>Reading them back\<close>

lemma fold_assign_lookup:
  "fmlookup (fold (\<lambda>k. fmupd k (g k)) ks acc) x = (if x \<in> set ks then Some (g x) else fmlookup acc x)"
  by (induction ks arbitrary: acc) auto

lemma parse_keys:
  assumes "\<forall>k v. fmlookup m k = Some v \<longrightarrow> ini_key_ok k \<and> ini_value_ok v"
  shows "distinct ks \<Longrightarrow> set ks \<subseteq> fset (fmdom m) \<Longrightarrow> fmlookup d cur = Some acc \<Longrightarrow>
     \<forall>k \<in> set ks. fmlookup acc k = None \<Longrightarrow>
     parse_ini_lines (d, cur) (map (assignment m) ks) =
       Inr (fmupd cur (fold (\<lambda>k. fmupd k (the (fmlookup m k))) ks acc) d, cur)"
proof (induction ks arbitrary: d acc)
  case Nil
  then have "fmupd cur acc d = d" by (intro fmap_ext) auto
  then show ?case by simp
next
  case (Cons k ks)
  obtain v where v: "fmlookup m k = Some v" using Cons.prems(2) by (auto simp: fmlookup_dom_iff)
  have same: "fmupd cur a (fmupd cur b d) = fmupd cur a d" for a b by (intro fmap_ext) simp
  have "parse_ini_line (d, cur) (assignment m k) = Inr (fmupd cur (fmupd k v acc) d, cur)"
    unfolding assignment_def v option.sel by (rule parse_assignment) (use assms v Cons.prems in auto)
  moreover have "parse_ini_lines (fmupd cur (fmupd k v acc) d, cur) (map (assignment m) ks) =
      Inr (fmupd cur (fold (\<lambda>k. fmupd k (the (fmlookup m k))) ks (fmupd k v acc)) (fmupd cur (fmupd k v acc) d), cur)"
    by (rule Cons.IH) (use Cons.prems in auto)
  ultimately show ?case by (simp add: same v)
qed

lemma fold_all_keys: "fold (\<lambda>k. fmupd k (the (fmlookup m k))) (sorted_keys m) fmempty = m"
proof (rule fmap_ext)
  show "fmlookup (fold (\<lambda>k. fmupd k (the (fmlookup m k))) (sorted_keys m) fmempty) x = fmlookup m x" for x
    by (cases "fmlookup m x") (auto simp: fold_assign_lookup fmlookup_dom_iff)
qed

lemma parse_section:
  assumes "ini_section_ok s" "fmlookup d s = None" "fmlookup doc s = Some m"
    and "\<forall>k v. fmlookup m k = Some v \<longrightarrow> ini_key_ok k \<and> ini_value_ok v"
  shows "parse_ini_lines (d, cur) (section_lines doc s) = Inr (fmupd s m d, s)"
proof -
  have "parse_ini_lines (fmupd s fmempty d, s) (map (assignment m) (sorted_keys m)) =
      Inr (fmupd s m (fmupd s fmempty d), s)"
    using parse_keys[OF assms(4), of "sorted_keys m" "fmupd s fmempty d" s fmempty] by (simp add: fold_all_keys)
  moreover have "fmupd s m (fmupd s fmempty d) = fmupd s m d" by (intro fmap_ext) simp
  ultimately show ?thesis
    using assms(3) parse_header[OF assms(1,2)] by (simp add: section_lines_def)
qed

lemma parse_sections:
  assumes "wf_ini doc"
  shows "distinct ss \<Longrightarrow> [] \<notin> set ss \<Longrightarrow> set ss \<subseteq> fset (fmdom doc) \<Longrightarrow> \<forall>s \<in> set ss. fmlookup d s = None \<Longrightarrow>
     \<exists>cur'. parse_ini_lines (d, cur) (concat (map (section_lines doc) ss)) =
       Inr (fold (\<lambda>s. fmupd s (the (fmlookup doc s))) ss d, cur')"
proof (induction ss arbitrary: d cur)
  case (Cons s ss)
  obtain m where m: "fmlookup doc s = Some m" using Cons.prems(3) by (auto simp: fmlookup_dom_iff)
  then have ok: "ini_section_ok s" "\<forall>k v. fmlookup m k = Some v \<longrightarrow> ini_key_ok k \<and> ini_value_ok v"
    using assms Cons.prems(2) by (auto simp: wf_ini_def)
  have "\<exists>cur'. parse_ini_lines (fmupd s m d, s) (concat (map (section_lines doc) ss)) =
      Inr (fold (\<lambda>s. fmupd s (the (fmlookup doc s))) ss (fmupd s m d), cur')"
    by (rule Cons.IH) (use Cons.prems in auto)
  moreover have "parse_ini_lines (d, cur) (section_lines doc s) = Inr (fmupd s m d, s)"
    by (rule parse_section[OF ok(1) _ m ok(2)]) (use Cons.prems in simp)
  ultimately show ?case using m by (simp add: parse_ini_lines_append)
qed simp

lemma parse_document:
  assumes "wf_ini d"
  shows "\<exists>cur. parse_ini_lines (fmupd [] fmempty fmempty, []) (concat (document_groups d)) = Inr (d, cur)"
proof -
  obtain m where m: "fmlookup d [] = Some m" using assms by (auto simp: wf_ini_def)
  then have ok: "\<forall>k v. fmlookup m k = Some v \<longrightarrow> ini_key_ok k \<and> ini_value_ok v"
    using assms by (auto simp: wf_ini_def)
  let ?ss = "filter (\<lambda>s. s \<noteq> []) (sorted_keys d)"
  have lines: "concat (document_groups d) =
      map (assignment m) (sorted_keys m) @ concat (map (section_lines d) ?ss)"
    using m by (auto simp: document_groups_def)
  have global: "parse_ini_lines (fmupd [] fmempty fmempty, []) (map (assignment m) (sorted_keys m)) =
      Inr (fmupd [] m (fmupd [] fmempty fmempty), [])"
    using parse_keys[OF ok, of "sorted_keys m" "fmupd [] fmempty fmempty" "[]" fmempty] by (simp add: fold_all_keys)
  have "\<exists>cur. parse_ini_lines (fmupd [] m (fmupd [] fmempty fmempty), []) (concat (map (section_lines d) ?ss)) =
      Inr (fold (\<lambda>s. fmupd s (the (fmlookup d s))) ?ss (fmupd [] m (fmupd [] fmempty fmempty)), cur)"
    by (rule parse_sections[OF assms]) auto
  then obtain cur where rest: "parse_ini_lines (fmupd [] m (fmupd [] fmempty fmempty), []) (concat (map (section_lines d) ?ss)) =
      Inr (fold (\<lambda>s. fmupd s (the (fmlookup d s))) ?ss (fmupd [] m (fmupd [] fmempty fmempty)), cur)" by blast
  have "fold (\<lambda>s. fmupd s (the (fmlookup d s))) ?ss (fmupd [] m (fmupd [] fmempty fmempty)) = d"
  proof (rule fmap_ext)
    show "fmlookup (fold (\<lambda>s. fmupd s (the (fmlookup d s))) ?ss (fmupd [] m (fmupd [] fmempty fmempty))) x =
        fmlookup d x" for x
      by (cases "fmlookup d x") (auto simp: fold_assign_lookup fmlookup_dom_iff m)
  qed
  then show ?thesis using lines global rest by (auto simp: parse_ini_lines_append)
qed

definition line_ok :: "string \<Rightarrow> bool" where
  "line_ok l \<longleftrightarrow> l \<noteq> [] \<and> utf8_valid l \<and> LF \<notin> set l \<and> NUL \<notin> set l"

lemma assignment_ok: "ini_key_ok k \<Longrightarrow> ini_value_ok v \<Longrightarrow> line_ok (k @ CHR ''='' # v)"
  by (auto simp: line_ok_def ini_key_ok_def ini_value_ok_def utf8_valid_split control_chars)

lemma header_ok: "ini_section_ok s \<Longrightarrow> line_ok (CHR ''['' # s @ [CHR '']''])"
  by (auto simp: line_ok_def ini_section_ok_def utf8_valid_split control_chars)

lemma document_lines_ok:
  assumes "wf_ini d"
  shows "\<forall>g \<in> set (document_groups d). \<forall>l \<in> set g. line_ok l"
proof -
  have keys: "line_ok (assignment m k)" if s: "fmlookup d s = Some m" and k: "k \<in> set (sorted_keys m)" for s m k
  proof -
    obtain v where v: "fmlookup m k = Some v" using k by (auto simp: fmlookup_dom_iff)
    then have "ini_key_ok k" "ini_value_ok v" using assms s by (auto simp: wf_ini_def)
    then show ?thesis using assignment_ok v by (simp add: assignment_def)
  qed
  have heads: "line_ok (CHR ''['' # s @ [CHR '']''])" if s: "s \<in> set (sorted_keys d)" "s \<noteq> []" for s
  proof (rule header_ok)
    obtain m where "fmlookup d s = Some m" using s(1) by (auto simp: fmlookup_dom_iff)
    then show "ini_section_ok s" using assms s(2) by (auto simp: wf_ini_def)
  qed
  have global: "line_ok l" if "l \<in> set (map (assignment (the (fmlookup d []))) (sorted_keys (the (fmlookup d []))))" for l
  proof -
    obtain m where "fmlookup d [] = Some m" using assms by (auto simp: wf_ini_def)
    then show ?thesis using keys that by auto
  qed
  have sections: "line_ok l" if s: "s \<in> set (sorted_keys d)" "s \<noteq> []" and l: "l \<in> set (section_lines d s)" for s l
  proof -
    obtain m where m: "fmlookup d s = Some m" using s(1) by (auto simp: fmlookup_dom_iff)
    then show ?thesis using l keys[OF m] heads[OF s] by (auto simp: section_lines_def)
  qed
  show ?thesis
  proof (intro ballI)
    fix g l assume "g \<in> set (document_groups d)" "l \<in> set g"
    then show "line_ok l" using global sections by (auto simp: document_groups_def split: if_splits)
  qed
qed

lemma unlines_valid: "\<forall>l \<in> set ls. utf8_valid l \<Longrightarrow> utf8_valid (unlines ls)"
  by (induction ls) (auto simp: utf8_valid_split control_chars)

lemma set_unlines: "set (unlines ls) \<subseteq> insert LF (\<Union>l \<in> set ls. set l)"
  by (induction ls) auto

lemma parse_encode:
  assumes "wf_ini d"
  shows "parse_ini (encode_ini d) = Inr d"
proof -
  let ?ls = "separated (document_groups d)"
  have enc: "encode_ini d = unlines ?ls" using encode_ini_eq assms by (simp add: wf_ini_def)
  have ok: "l = [] \<or> line_ok l" if "l \<in> set ?ls" for l
    using that document_lines_ok[OF assms] set_separated[of "document_groups d"] by blast
  have "utf8_valid (unlines ?ls)"
    by (rule unlines_valid) (use ok utf8_valid_Nil in \<open>unfold line_ok_def, blast\<close>)
  moreover have "NUL \<notin> set (unlines ?ls)"
    using set_unlines[of ?ls] ok by (fastforce simp: line_ok_def)
  moreover have "split_on LF (unlines ?ls) = ?ls @ [[]]"
    by (rule split_unlines) (use ok in \<open>unfold line_ok_def, metis empty_iff empty_set\<close>)
  moreover have "filter (\<lambda>l. l \<noteq> []) (?ls @ [[]]) = concat (document_groups d)"
    using document_lines_ok[OF assms] filter_separated[of "document_groups d"] by (simp add: line_ok_def)
  ultimately show ?thesis
    using parse_document[OF assms] parse_ini_lines_filter[of _ "?ls @ [[]]"] by (auto simp: parse_ini_def enc)
qed

text \<open>
  Printing a well-formed document and parsing the text gives the
  document back: no name or value can be confused with the syntax.
\<close>

theorem ini_roundtrip:
  assumes "wf_ini d"
  shows "parse_ini (encode_ini d) = Inr d"
  using assms by (rule parse_encode)

theorem ini_roundtrip_witness:
  "parse_ini (encode_ini (ini_store (fmupd [] fmempty fmempty) (''window'', ''width'') ''800'')) =
     Inr (ini_store (fmupd [] fmempty fmempty) (''window'', ''width'') ''800'')"
proof (rule ini_roundtrip)
  have "validate_ini_address ''window'' ''width'' = None" "validate_ini_value ''800'' = None" by code_simp+
  then show "wf_ini (ini_store (fmupd [] fmempty fmempty) (''window'', ''width'') ''800'')"
    by (intro wf_ini_store wf_ini_empty) (simp_all add: validate_ini_address_iff validate_ini_value_iff)
qed

section \<open>What the parser accepts\<close>

lemma ini_section_name_ok:
  assumes "ini_section_name trimmed = Some name" "hd trimmed = CHR ''[''" "trimmed \<noteq> []"
    and line: "line = u @ trimmed @ v" "utf8_valid line" "NUL \<notin> set line"
  shows "ini_section_ok name"
proof -
  have name: "last trimmed = CHR '']''" "name = butlast (tl trimmed)" "name \<noteq> []" "name = trim_space name"
    "\<not> contains_any name [CHR ''['', CHR '']'', CR, LF]"
    using assms(1) by (auto simp: ini_section_name_def Let_def split: if_splits)
  obtain r where r: "trimmed = CHR ''['' # r" using assms(2,3) by (cases trimmed) auto
  have "r \<noteq> []" using name(2,3) r by auto
  then have "r = name @ [CHR '']'']" using name(1,2) r append_butlast_last_id[of r] by simp
  then have t: "line = u @ CHR ''['' # (name @ CHR '']'' # v)" using line(1) r by simp
  have "utf8_valid name" using line(2) unfolding t by (simp add: utf8_valid_split)
  moreover have "NUL \<notin> set name" using line(3) unfolding t by simp
  moreover have "no_outer_space name" using name(4) trim_space_fixed[of name] by simp
  ultimately show ?thesis using name by (simp add: ini_section_ok_def)
qed

lemma parse_ini_key_ok:
  assumes line: "utf8_valid line" "NUL \<notin> set line" "LF \<notin> set line" "CR \<notin> set line"
    and split: "line = key @ CHR ''='' # value" "CHR ''='' \<notin> set key" "key \<noteq> []"
    and key: "key = trim_space key" "\<not> contains_any key [CHR ''['', CHR '']'', CR, LF]"
    and start: "hd (trim_space line) \<noteq> CHR '';''" "hd (trim_space line) \<noteq> CHR ''#''"
  shows "ini_key_ok key" "ini_value_ok value"
proof -
  have outer: "no_outer_space key" using key(1) trim_space_fixed[of key] by simp
  have valid: "utf8_valid key" "utf8_valid value" using line(1) unfolding split(1) by (simp_all add: utf8_valid_split)
  have "hd key \<noteq> CHR '';''" "hd key \<noteq> CHR ''#''"
    using start assignment_head(2)[OF split(3) outer, of "value"] unfolding split(1) by simp_all
  then show "ini_key_ok key" using split outer valid key(2) line(2) by (simp add: ini_key_ok_def)
  show "ini_value_ok value" using valid line(2-4) split(1) by (simp add: ini_value_ok_def)
qed

lemma parse_ini_line_wf:
  assumes "parse_ini_line (d, cur) raw = Inr (d', cur')" "wf_ini d" "fmlookup d cur \<noteq> None"
    and raw: "utf8_valid raw" "LF \<notin> set raw" "NUL \<notin> set raw"
  shows "wf_ini d' \<and> fmlookup d' cur' \<noteq> None"
proof -
  let ?line = "trim_suffix_byte CR raw" and ?t = "trim_space (trim_suffix_byte CR raw)"
  have lu: "utf8_valid ?line"
  proof (cases "raw \<noteq> [] \<and> last raw = CR")
    case True
    then have "raw = ?line @ CR # []" using append_butlast_last_id[of raw] by (simp add: trim_suffix_byte_def)
    then show ?thesis using raw(1) utf8_valid_split[of CR ?line "[]"] by (simp add: CR_def)
  qed (use raw(1) in \<open>auto simp: trim_suffix_byte_def\<close>)
  have sub: "set ?line \<subseteq> set raw" by (auto simp: trim_suffix_byte_def dest: in_set_butlastD)
  have line: "utf8_valid ?line" "NUL \<notin> set ?line" "LF \<notin> set ?line" using lu sub raw by auto
  have cr: "CR \<notin> set ?line" using assms(1) by (auto simp: parse_ini_line_def Let_def split: if_splits)
  consider (comment) "?t = [] \<or> hd ?t = CHR '';'' \<or> hd ?t = CHR ''#''"
    | (header) "?t \<noteq> []" "hd ?t = CHR ''[''"
    | (pair) "?t \<noteq> []" "hd ?t \<noteq> CHR '';''" "hd ?t \<noteq> CHR ''#''" "hd ?t \<noteq> CHR ''[''"
    by blast
  then show ?thesis
  proof cases
    case comment
    then show ?thesis using assms(1-3) cr by (auto simp: parse_ini_line_def Let_def split: if_splits)
  next
    case header
    have eq: "parse_ini_line (d, cur) raw =
        (case ini_section_name ?t of None \<Rightarrow> Inl MalformedINI
         | Some name \<Rightarrow> if fmlookup d name \<noteq> None then Inl MalformedINI else Inr (fmupd name fmempty d, name))"
      using cr header by (simp add: parse_ini_line_def Let_def)
    obtain name where some: "ini_section_name ?t = Some name"
      using assms(1) unfolding eq by (cases "ini_section_name ?t") simp_all
    have "fmupd name fmempty d = d' \<and> name = cur'"
      using assms(1) unfolding eq some option.case
      by (metis Inl_Inr_False prod.inject sum.inject(2))
    then have "d' = fmupd name fmempty d" "cur' = name" by blast+
    note name = some this
    obtain u v where "?line = u @ ?t @ v" using trim_space_infix by blast
    then have "ini_section_ok name" using ini_section_name_ok[OF name(1) header(2,1) _ line(1,2)] by blast
    then show ?thesis using assms(2) name(2,3) by (auto simp: wf_ini_def)
  next
    case pair
    let ?key = "takeWhile (\<lambda>c. c \<noteq> CHR ''='') ?line" and ?val = "tl (dropWhile (\<lambda>c. c \<noteq> CHR ''='') ?line)"
    have eq: "parse_ini_line (d, cur) raw =
        (if CHR ''='' \<notin> set ?line \<or> hd ?line = CHR ''='' then Inl MalformedINI
         else if ?key \<noteq> trim_space ?key \<or> contains_any ?key [CHR ''['', CHR '']'', CR, LF] then Inl MalformedINI
         else (case fmlookup d cur of None \<Rightarrow> Inl MalformedINI
               | Some values \<Rightarrow> if fmlookup values ?key \<noteq> None then Inl MalformedINI
                   else Inr (fmupd cur (fmupd ?key ?val values) d, cur)))"
      using cr pair by (simp only: parse_ini_line_def Let_def prod.case if_False simp_thms)
    have m1: "CHR ''='' \<in> set ?line" "hd ?line \<noteq> CHR ''=''" "?key = trim_space ?key"
        "\<not> contains_any ?key [CHR ''['', CHR '']'', CR, LF]"
      using assms(1) unfolding eq by (metis Inl_Inr_False)+
    obtain m where m2: "fmlookup d cur = Some m" "d' = fmupd cur (fmupd ?key ?val m) d" "cur' = cur"
    proof (cases "fmlookup d cur")
      case (Some m)
      have "Inr (fmupd cur (fmupd ?key ?val m) d, cur) = (Inr (d', cur') :: doc_code + ini \<times> string)"
        using assms(1) m1 unfolding eq Some option.case by (metis Inl_Inr_False)
      then show ?thesis using that Some by blast
    qed (use assms(3) in simp)
    note m = m1 m2
    have ne: "dropWhile (\<lambda>c. c \<noteq> CHR ''='') ?line \<noteq> []" using m(1) by (auto simp: dropWhile_eq_Nil_conv)
    have "hd (dropWhile (\<lambda>c. c \<noteq> CHR ''='') ?line) = CHR ''=''" using hd_dropWhile[OF ne] by simp
    then have split: "?line = ?key @ CHR ''='' # ?val"
      using ne takeWhile_dropWhile_id[of "\<lambda>c. c \<noteq> CHR ''=''" ?line] list.collapse[OF ne] by metis
    have "?key \<noteq> []" using m(1,2) by (cases ?line) auto
    moreover have "CHR ''='' \<notin> set ?key" by (auto dest: set_takeWhileD)
    ultimately have ok: "ini_key_ok ?key" "ini_value_ok ?val"
      using parse_ini_key_ok[OF line cr split _ _ m(3,4) pair(2,3)] by blast+
    have sec: "cur = [] \<or> ini_section_ok cur" "\<forall>k v. fmlookup m k = Some v \<longrightarrow> ini_key_ok k \<and> ini_value_ok v"
      using assms(2) m(5) unfolding wf_ini_def by blast+
    show ?thesis
      using assms(2) ok sec unfolding m(6,7) wf_ini_def by auto
  qed
qed

lemma parse_ini_lines_wf:
  "parse_ini_lines (d, cur) ls = Inr st \<Longrightarrow> wf_ini d \<Longrightarrow> fmlookup d cur \<noteq> None \<Longrightarrow>
     \<forall>l \<in> set ls. utf8_valid l \<and> LF \<notin> set l \<and> NUL \<notin> set l \<Longrightarrow> wf_ini (fst st)"
proof (induction ls arbitrary: d cur)
  case (Cons l ls)
  obtain d' cur' where l: "parse_ini_line (d, cur) l = Inr (d', cur')" "parse_ini_lines (d', cur') ls = Inr st"
    using Cons.prems(1) by auto
  have "wf_ini d' \<and> fmlookup d' cur' \<noteq> None" by (rule parse_ini_line_wf[OF l(1)]) (use Cons.prems in auto)
  then show ?case using Cons.IH[OF l(2)] Cons.prems(4) by simp
qed auto

text \<open>
  Whatever text the parser accepts becomes a well-formed document, so
  that printing it and parsing again reproduces it: the printed text is a normal form.
\<close>

theorem parse_ini_normal_form:
  assumes "parse_ini text = Inr d"
  shows "wf_ini d \<and> parse_ini (encode_ini d) = parse_ini text"
proof -
  obtain st where st: "utf8_valid text" "NUL \<notin> set text"
      "parse_ini_lines (fmupd [] fmempty fmempty, []) (split_on LF text) = Inr st" "d = fst st"
    using assms by (auto simp: parse_ini_def split: if_splits)
  have "\<forall>l \<in> set (split_on LF text). utf8_valid l \<and> LF \<notin> set l \<and> NUL \<notin> set l"
    using st(1,2) utf8_valid_split_on[of LF "text"] split_on_fresh[of _ LF "text"] set_split_on[of _ LF "text"]
    by (auto simp: LF_def)
  then have wf: "wf_ini d" using parse_ini_lines_wf[OF st(3) wf_ini_empty] st(4) by simp
  then show ?thesis using parse_encode assms by simp
qed

theorem parse_ini_normal_form_witness:
  "\<exists>d. parse_ini ''a=1'' = Inr d \<and> wf_ini d"
proof -
  have "validate_ini_address ''x'' ''a'' = None" "validate_ini_value ''1'' = None" by code_simp+
  then have ok: "ini_key_ok ''a''" "ini_value_ok ''1''"
    by (simp_all add: validate_ini_address_iff validate_ini_value_iff)
  have "parse_ini_line (fmupd [] fmempty fmempty, []) (''a'' @ CHR ''='' # ''1'') =
      Inr (fmupd [] (fmupd ''a'' ''1'' fmempty) (fmupd [] fmempty fmempty), [])"
    by (rule parse_assignment[OF ok]) simp_all
  moreover have "split_on LF ''a=1'' = [''a=1'']" "utf8_valid ''a=1''" "NUL \<notin> set ''a=1''"
    by (simp_all add: control_chars)
  ultimately have "parse_ini ''a=1'' = Inr (fmupd [] (fmupd ''a'' ''1'' fmempty) (fmupd [] fmempty fmempty))"
    by (simp add: parse_ini_def)
  then show ?thesis using parse_ini_normal_form by blast
qed

end
