(* ===== verification/GoPaths.thy ===== *)
theory GoPaths
  imports GoStrings
begin

text \<open>
  The lexical part of the package \<open>path/filepath\<close> as built for Unix: cleaning,
  joining, relative paths. A path is processed as the list of its slash-separated
  elements, which is how the package documents \<open>Clean\<close>.
\<close>

section \<open>Cleaning\<close>

definition is_abs :: "string \<Rightarrow> bool" where
  "is_abs p \<longleftrightarrow> prefix ''/'' p"

definition path_elements :: "string \<Rightarrow> string list" where
  "path_elements p = filter (\<lambda>w. w \<noteq> [] \<and> w \<noteq> ''.'') (split_on CHR ''/'' p)"

text \<open>The elements kept so far, the last one first.\<close>

fun clean_stack :: "bool \<Rightarrow> string list \<Rightarrow> string list \<Rightarrow> string list" where
  "clean_stack rooted st [] = rev st"
| "clean_stack rooted st (w # ws) =
     (if w = ''..'' then
        (case st of
           [] \<Rightarrow> if rooted then clean_stack rooted [] ws else clean_stack rooted [''..''] ws
         | tp # rest \<Rightarrow>
             if tp = ''..'' then clean_stack rooted (''..'' # st) ws else clean_stack rooted rest ws)
      else clean_stack rooted (w # st) ws)"

definition clean_elements :: "string \<Rightarrow> string list" where
  "clean_elements p = clean_stack (is_abs p) [] (path_elements p)"

definition render_clean :: "bool \<Rightarrow> string list \<Rightarrow> string" where
  "render_clean rooted ws =
     (if rooted then CHR ''/'' # join_with ''/'' ws else if ws = [] then ''.'' else join_with ''/'' ws)"

definition clean_path :: "string \<Rightarrow> string" where
  "clean_path p = render_clean (is_abs p) (clean_elements p)"

definition join_path :: "string list \<Rightarrow> string" where
  "join_path parts =
     (let ps = dropWhile (\<lambda>p. p = []) parts in if ps = [] then [] else clean_path (join_with ''/'' ps))"

fun drop_common :: "string list \<Rightarrow> string list \<Rightarrow> string list \<times> string list" where
  "drop_common (a # as) (b # bs) = (if a = b then drop_common as bs else (a # as, b # bs))"
| "drop_common as bs = (as, bs)"

text \<open>\<open>filepath.Rel\<close>; \<open>None\<close> is its error.\<close>

definition rel_path :: "string \<Rightarrow> string \<Rightarrow> string option" where
  "rel_path base target =
     (if is_abs base \<noteq> is_abs target then None
      else (case drop_common (clean_elements base) (clean_elements target) of
              (b, t) \<Rightarrow>
                if ''..'' \<in> set b then None
                else Some (render_clean False (replicate (length b) ''..'' @ t))))"

section \<open>Elements\<close>

definition plain_element :: "string \<Rightarrow> bool" where
  "plain_element w \<longleftrightarrow> w \<noteq> [] \<and> w \<noteq> ''.'' \<and> CHR ''/'' \<notin> set w"

lemma path_elements_plain: "list_all plain_element (path_elements p)"
  by (auto simp: path_elements_def plain_element_def list_all_iff dest: split_on_fresh)

lemma clean_stack_plain:
  "list_all P st \<Longrightarrow> list_all P ws \<Longrightarrow> P ''..'' \<Longrightarrow> list_all P (clean_stack rooted st ws)"
  by (induction rooted st ws rule: clean_stack.induct) (auto simp: list_all_iff split: list.splits)

lemma clean_elements_plain: "list_all plain_element (clean_elements p)"
  unfolding clean_elements_def
  by (rule clean_stack_plain) (simp_all add: path_elements_plain plain_element_def)

lemma elements_join:
  assumes "list_all plain_element ws"
  shows "path_elements (join_with ''/'' ws) = ws"
proof (cases "ws = []")
  case False
  then have split: "split_on CHR ''/'' (join_with ''/'' ws) = ws"
    using assms by (intro split_join) (auto simp: plain_element_def list_all_iff)
  have "filter (\<lambda>w. w \<noteq> [] \<and> w \<noteq> ''.'') ws = ws"
    using assms by (auto simp: filter_id_conv plain_element_def list_all_iff)
  then show ?thesis unfolding path_elements_def split .
qed (simp add: path_elements_def)

lemma path_elements_slash: "path_elements (CHR ''/'' # p) = path_elements p"
  by (simp add: path_elements_def)

lemma join_first:
  "list_all plain_element ws \<Longrightarrow> ws \<noteq> [] \<Longrightarrow> join_with ''/'' ws \<noteq> [] \<and> hd (join_with ''/'' ws) \<noteq> CHR ''/''"
  by (cases ws; cases "tl ws") (auto simp: plain_element_def hd_append dest: hd_in_set)

lemma elements_render:
  assumes "list_all plain_element ws"
  shows "path_elements (render_clean rooted ws) = ws" and "is_abs (render_clean rooted ws) = rooted"
proof -
  show "path_elements (render_clean rooted ws) = ws"
    using elements_join[OF assms]
    by (cases "ws = []") (simp_all add: render_clean_def path_elements_slash, simp_all add: path_elements_def)
  show "is_abs (render_clean rooted ws) = rooted"
    using assms join_first[of ws] by (cases "join_with ''/'' ws") (auto simp: render_clean_def is_abs_def)
qed

text \<open>Parent elements survive only at the front of a relative path.\<close>

definition dots_in_front :: "bool \<Rightarrow> string list \<Rightarrow> bool" where
  "dots_in_front rooted ws \<longleftrightarrow>
     (\<exists>n rest. ws = replicate n ''..'' @ rest \<and> ''..'' \<notin> set rest \<and> (rooted \<longrightarrow> n = 0))"

lemma clean_stack_no_dots:
  "''..'' \<notin> set ws \<Longrightarrow> clean_stack rooted st ws = rev st @ ws"
  by (induction ws arbitrary: st) auto

lemma clean_stack_dots: "clean_stack False (replicate n ''..'') (replicate m ''..'' @ ws) =
    clean_stack False (replicate (n + m) ''..'') ws"
proof (induction m arbitrary: n)
  case (Suc m)
  have "clean_stack False (replicate n ''..'') (replicate (Suc m) ''..'' @ ws) =
      clean_stack False (replicate (Suc n) ''..'') (replicate m ''..'' @ ws)"
    by (cases n) simp_all
  then show ?case using Suc[of "Suc n"] by simp
qed simp

lemma dots_in_front_snoc:
  "dots_in_front rooted ws \<Longrightarrow> w \<noteq> ''..'' \<Longrightarrow> dots_in_front rooted (ws @ [w])"
proof -
  assume "dots_in_front rooted ws" "w \<noteq> ''..''"
  then obtain n rest where "ws = replicate n ''..'' @ rest" "''..'' \<notin> set rest" "rooted \<longrightarrow> n = 0"
    by (auto simp: dots_in_front_def)
  with \<open>w \<noteq> ''..''\<close> show ?thesis
    unfolding dots_in_front_def by (intro exI[of _ n] exI[of _ "rest @ [w]"]) auto
qed

lemma dots_in_front_butlast: "dots_in_front rooted (ws @ [w]) \<Longrightarrow> dots_in_front rooted ws"
proof -
  assume "dots_in_front rooted (ws @ [w])"
  then obtain n rest where d: "ws @ [w] = replicate n ''..'' @ rest" "''..'' \<notin> set rest" "rooted \<longrightarrow> n = 0"
    by (auto simp: dots_in_front_def)
  show ?thesis
  proof (cases rest rule: rev_cases)
    case Nil
    then obtain k where "n = Suc k" using d by (cases n) auto
    then have "ws = replicate k ''..''" using d Nil
      by (metis append_Nil2 butlast_snoc replicate_Suc replicate_append_same)
    then show ?thesis using d \<open>n = Suc k\<close> unfolding dots_in_front_def by (intro exI[of _ k] exI[of _ "[]"]) auto
  next
    case (snoc r x)
    then have "ws = replicate n ''..'' @ r" using d by (metis append_assoc butlast_snoc)
    then show ?thesis using d snoc unfolding dots_in_front_def by (intro exI[of _ n] exI[of _ r]) auto
  qed
qed

lemma clean_stack_dots_in_front:
  "dots_in_front rooted (rev st) \<Longrightarrow> dots_in_front rooted (clean_stack rooted st ws)"
proof (induction rooted st ws rule: clean_stack.induct)
  case (2 rooted st w ws)
  show ?case
  proof (cases "w = ''..''")
    case dots: True
    show ?thesis
    proof (cases st)
      case Nil
      have "dots_in_front rooted []" "dots_in_front False [''..'']"
        unfolding dots_in_front_def by (simp, intro exI[of _ 1] exI[of _ "[]"], simp)
      then show ?thesis using 2 dots Nil by (cases rooted) auto
    next
      case (Cons tp rest)
      show ?thesis
      proof (cases "tp = ''..''")
        case True
        obtain n r where d: "rev st = replicate n ''..'' @ r" "''..'' \<notin> set r" "rooted \<longrightarrow> n = 0"
          using "2.prems" unfolding dots_in_front_def by blast
        have "r = []"
        proof (rule ccontr)
          assume "r \<noteq> []"
          then have "last (rev st) = last r" using d(1) by simp
          then show False using d(2) \<open>r \<noteq> []\<close> Cons True last_in_set[of r] by (simp add: last_rev)
        qed
        then have "dots_in_front rooted (rev (''..'' # st))"
          using d Cons unfolding dots_in_front_def
          by (intro exI[of _ "Suc n"] exI[of _ "[]"]) (auto simp: replicate_append_same)
        then show ?thesis using 2 dots Cons True by simp
      next
        case False
        then show ?thesis using 2 dots Cons dots_in_front_butlast by simp
      qed
    qed
  next
    case False
    then show ?thesis using 2 dots_in_front_snoc by simp
  qed
qed simp

lemma clean_elements_front: "dots_in_front (is_abs p) (clean_elements p)"
  unfolding clean_elements_def by (rule clean_stack_dots_in_front) (simp add: dots_in_front_def)

lemma clean_stack_id: "dots_in_front rooted ws \<Longrightarrow> clean_stack rooted [] ws = ws"
proof -
  assume "dots_in_front rooted ws"
  then obtain n rest where d: "ws = replicate n ''..'' @ rest" "''..'' \<notin> set rest" "rooted \<longrightarrow> n = 0"
    by (auto simp: dots_in_front_def)
  show ?thesis
  proof (cases rooted)
    case False
    then show ?thesis using d clean_stack_dots[of 0 n rest] clean_stack_no_dots[of rest False] by simp
  qed (use d clean_stack_no_dots in simp)
qed

text \<open>Cleaning is idempotent: the cleaned path has exactly the cleaned elements.\<close>

lemma clean_path_facts [simp]:
  "is_abs (clean_path p) = is_abs p" "path_elements (clean_path p) = clean_elements p"
  using clean_elements_plain elements_render by (simp_all add: clean_path_def)

lemma clean_elements_clean [simp]: "clean_elements (clean_path p) = clean_elements p"
  using clean_stack_id clean_elements_front by (simp add: clean_elements_def[of "clean_path p"])

lemma clean_path_idem [simp]: "clean_path (clean_path p) = clean_path p"
  by (simp add: clean_path_def[of "clean_path p"]) (simp add: clean_path_def)

end
