(* ===== verification/ModuleValidation.thy ===== *)
theory ModuleValidation
  imports Versions MigrationGraph JsonDocument IniDocument GoPaths
begin

text \<open>
  \<open>internal/modules/validation.go\<close>: the validation of a schema-v2 module. Every
  check returns the diagnostic code of the first problem in the order of the code,
  \<open>None\<close> standing for a nil error; the texts of the messages are left out. The Go
  maps \<open>generationIDs\<close>, \<open>orders\<close> and \<open>edges\<close> are the lists of what the loop has
  seen. \<open>rx\<close> and \<open>groups\<close> are the parts of package \<open>regexp\<close> that version
  patterns use: matching, and the names of the subexpressions of a pattern.
\<close>

section \<open>Diagnostics\<close>

datatype diagnostic =
    SchemaVersionRequired | UnsupportedSchema | InvalidID | DuplicateID | UnknownDetector
  | InvalidDetector | MissingConfigSet | InvalidGenerationOrder | InvalidVersionSelector
  | InvalidVersionRange | InvalidVersionPattern | InvalidPlaceholder | UnsafePath
  | UnknownGeneration | InvalidMigrationEdge | DuplicateMigrationEdge | MigrationCycle
  | AmbiguousMigrationRoute | UnknownMigrationOperation | InvalidMigrationOperation
  | MissingMigrationValidation | UnknownValidation | InvalidValidation

fun diagnostic_code :: "diagnostic \<Rightarrow> string" where
  "diagnostic_code SchemaVersionRequired = ''module_schema_version_required''"
| "diagnostic_code UnsupportedSchema = ''unsupported_module_schema''"
| "diagnostic_code InvalidID = ''invalid_id''"
| "diagnostic_code DuplicateID = ''duplicate_id''"
| "diagnostic_code UnknownDetector = ''unknown_instance_detector''"
| "diagnostic_code InvalidDetector = ''invalid_instance_detector''"
| "diagnostic_code MissingConfigSet = ''missing_config_set''"
| "diagnostic_code InvalidGenerationOrder = ''invalid_generation_order''"
| "diagnostic_code InvalidVersionSelector = ''invalid_version_selector''"
| "diagnostic_code InvalidVersionRange = ''invalid_version_range''"
| "diagnostic_code InvalidVersionPattern = ''invalid_version_pattern''"
| "diagnostic_code InvalidPlaceholder = ''invalid_placeholder''"
| "diagnostic_code UnsafePath = ''unsafe_path''"
| "diagnostic_code UnknownGeneration = ''unknown_generation''"
| "diagnostic_code InvalidMigrationEdge = ''invalid_migration_edge''"
| "diagnostic_code DuplicateMigrationEdge = ''duplicate_migration_edge''"
| "diagnostic_code MigrationCycle = ''migration_cycle''"
| "diagnostic_code AmbiguousMigrationRoute = ''ambiguous_migration_route''"
| "diagnostic_code UnknownMigrationOperation = ''unknown_migration_operation''"
| "diagnostic_code InvalidMigrationOperation = ''invalid_migration_operation''"
| "diagnostic_code MissingMigrationValidation = ''missing_migration_validation''"
| "diagnostic_code UnknownValidation = ''unknown_validation''"
| "diagnostic_code InvalidValidation = ''invalid_validation''"

text \<open>An error of a helper: a \<open>pathValidationError\<close> with its code, or another error.\<close>

datatype check_error = PathError diagnostic | OtherError

definition diagnostic_code_for_path_error :: "check_error \<Rightarrow> diagnostic option" where
  "diagnostic_code_for_path_error e = (case e of PathError d \<Rightarrow> Some d | OtherError \<Rightarrow> None)"

section \<open>Identifiers and placeholders\<close>

text \<open>The pattern \<open>^[a-z][a-z0-9]*(?:[-._][a-z0-9]+)*$\<close>; the flag says that a separator came last.\<close>

fun stable_tail :: "bool \<Rightarrow> string \<Rightarrow> bool" where
  "stable_tail sep [] \<longleftrightarrow> \<not> sep"
| "stable_tail sep (c # s) \<longleftrightarrow>
     (if is_lower c \<or> is_digit c then stable_tail False s
      else c \<in> set ''-._'' \<and> \<not> sep \<and> stable_tail True s)"

definition stable_id :: "string \<Rightarrow> bool" where
  "stable_id s \<longleftrightarrow> s \<noteq> [] \<and> is_lower (hd s) \<and> stable_tail False (tl s)"

definition validate_stable_id :: "string \<Rightarrow> diagnostic option" where
  "validate_stable_id i = (if stable_id i then None else Some InvalidID)"

text \<open>
  The matches of \<open>\$\{([^}]*)\}\<close>: the captured names and the text without the
  matches.
\<close>

function (sequential) placeholders :: "string \<Rightarrow> string list \<times> string" where
  "placeholders [] = ([], [])"
| "placeholders (c # s) =
     (if prefix ''${'' (c # s) \<and> CHR ''}'' \<in> set s
      then (let rest = placeholders (tl (dropWhile (\<lambda>x. x \<noteq> CHR ''}'') s)) in
            (takeWhile (\<lambda>x. x \<noteq> CHR ''}'') (tl s) # fst rest, snd rest))
      else (let rest = placeholders s in (fst rest, c # snd rest)))"
  by pat_completeness auto
termination
  by (relation "measure length") (auto intro!: le_imp_less_Suc le_trans[OF diff_le_self] length_dropWhile_le)

definition allowed_placeholders :: "string list" where
  "allowed_placeholders = [''instance.root'', ''instance.version'', ''instance.id'']"

definition validate_template_placeholders :: "string \<Rightarrow> check_error option" where
  "validate_template_placeholders value =
     (if \<exists>name \<in> set (fst (placeholders value)). name \<notin> set allowed_placeholders
      then Some (PathError InvalidPlaceholder)
      else if contains_str ''${'' (snd (placeholders value)) then Some (PathError InvalidPlaceholder)
      else None)"

section \<open>Paths\<close>

definition to_slashes :: "string \<Rightarrow> string" where
  "to_slashes p = replace_byte BSLASH CHR ''/'' p"

definition has_traversal :: "string \<Rightarrow> bool" where
  "has_traversal p \<longleftrightarrow> ''..'' \<in> set (split_on CHR ''/'' (to_slashes p))"

text \<open>The pattern \<open>^[A-Za-z]:[\\/]\<close>.\<close>

fun windows_absolute_path :: "string \<Rightarrow> bool" where
  "windows_absolute_path (a # b # c # _) \<longleftrightarrow> is_letter a \<and> b = CHR '':'' \<and> (c = BSLASH \<or> c = CHR ''/'')"
| "windows_absolute_path _ \<longleftrightarrow> False"

definition is_host_absolute :: "string \<Rightarrow> bool" where
  "is_host_absolute p \<longleftrightarrow>
     (let trimmed = trim_space p in
      is_abs trimmed \<or> windows_absolute_path trimmed \<or> prefix [BSLASH, BSLASH] trimmed \<or>
      prefix ''/'' trimmed \<or> prefix [BSLASH] trimmed)"

definition contains_host_expansion :: "string \<Rightarrow> bool" where
  "contains_host_expansion p \<longleftrightarrow>
     (let trimmed = trim_space p in
      prefix ''~'' trimmed \<or> CHR ''%'' \<in> set trimmed \<or> contains_str ''${'' trimmed \<or> prefix ''$'' trimmed)"

definition contains_portable_host_expansion :: "string \<Rightarrow> bool" where
  "contains_portable_host_expansion p \<longleftrightarrow>
     (let trimmed = trim_space p in
      prefix ''~'' trimmed \<or> CHR ''%'' \<in> set trimmed \<or> CHR ''$'' \<in> set trimmed)"

fun drive_prefix :: "string \<Rightarrow> bool" where
  "drive_prefix (a # b # _) \<longleftrightarrow> is_letter a \<and> b = CHR '':''"
| "drive_prefix _ \<longleftrightarrow> False"

text \<open>On Unix \<open>filepath.VolumeName\<close> is always empty.\<close>

definition is_portable_absolute_or_volume :: "string \<Rightarrow> bool" where
  "is_portable_absolute_or_volume p \<longleftrightarrow>
     (let trimmed = trim_space p; normalized = to_slashes trimmed in
      prefix ''/'' normalized \<or> is_abs trimmed \<or> drive_prefix normalized)"

definition validate_host_template_path :: "string \<Rightarrow> check_error option" where
  "validate_host_template_path p =
     (if trim_space p = [] then Some (PathError UnsafePath)
      else check (validate_template_placeholders p)
        (if has_traversal p then Some (PathError UnsafePath)
         else if is_host_absolute p then Some (PathError UnsafePath) else None))"

definition validate_portable_path :: "string \<Rightarrow> check_error option" where
  "validate_portable_path p =
     check (validate_host_template_path p)
       (if contains_str ''${instance.root}'' p \<or> contains_host_expansion p
        then Some (PathError UnsafePath) else None)"

definition validate_staging_path :: "string \<Rightarrow> check_error option" where
  "validate_staging_path p =
     (if trim_space p = [] then Some (PathError UnsafePath)
      else check (validate_template_placeholders p)
        (if fst (placeholders p) \<noteq> [] \<or> contains_portable_host_expansion p \<or>
            is_portable_absolute_or_volume p \<or> has_traversal p
         then Some (PathError UnsafePath) else None))"

section \<open>Operations and validations\<close>

definition allowed_operations :: "string list" where
  "allowed_operations =
     [''file-copy'', ''file-move'', ''file-delete'', ''json-set'', ''json-delete'', ''json-move'',
      ''ini-set'', ''ini-delete'', ''ini-move'']"

definition is_allowed_migration_operation :: "string \<Rightarrow> bool" where
  "is_allowed_migration_operation t \<longleftrightarrow> t \<in> set allowed_operations"

definition require_value :: "string \<Rightarrow> check_error option" where
  "require_value v = (if trim_space v = [] then Some OtherError else None)"

definition other_error :: "'e option \<Rightarrow> check_error option" where
  "other_error e = (if e = None then None else Some OtherError)"

definition validate_migration_operation :: "migration_operation \<Rightarrow> check_error option" where
  "validate_migration_operation opn =
     (let t = op_type opn in
      if \<not> is_allowed_migration_operation t then Some OtherError
      else if t = ''file-copy'' \<or> t = ''file-move'' then
        check (require_value (op_source opn)) (check (require_value (op_target opn))
          (first_error validate_staging_path [op_source opn, op_target opn]))
      else if t = ''file-delete'' then
        check (require_value (op_path opn)) (validate_staging_path (op_path opn))
      else if t = ''json-set'' \<or> t = ''json-delete'' then
        check (require_value (op_path opn)) (check (require_value (op_jsonPath opn))
          (check (validate_staging_path (op_path opn))
            (check (other_error (validate_json_path (op_jsonPath opn)))
              (if t = ''json-delete'' \<and> op_jsonPath opn = ''$'' then Some OtherError
               else if t = ''json-set'' \<and> op_value opn = None then Some OtherError else None))))
      else if t = ''json-move'' then
        check (require_value (op_path opn)) (check (require_value (op_from opn))
          (check (require_value (op_to opn)) (check (validate_staging_path (op_path opn))
            (check (other_error (validate_json_path (op_from opn)))
              (check (other_error (validate_json_path (op_to opn)))
                (if op_from opn = ''$'' \<or> op_to opn = ''$'' then Some OtherError else None))))))
      else if t = ''ini-set'' then
        check (require_value (op_path opn)) (check (require_value (op_section opn))
          (check (require_value (op_key opn)) (check (validate_staging_path (op_path opn))
            (case op_value opn of
               Some (JStr v) \<Rightarrow> other_error (validate_ini_value v)
             | _ \<Rightarrow> Some OtherError))))
      else if t = ''ini-delete'' then
        check (require_value (op_path opn)) (check (require_value (op_section opn))
          (check (require_value (op_key opn)) (validate_staging_path (op_path opn))))
      else
        check (require_value (op_path opn))
          (check (first_error require_value [op_fromSection opn, op_fromKey opn, op_toSection opn, op_toKey opn])
            (validate_staging_path (op_path opn))))"

definition validate_validation :: "validation_def \<Rightarrow> check_error option" where
  "validate_validation v =
     check (validate_staging_path (vd_path v))
       (if vd_type v = ''file-exists'' \<or> vd_type v = ''json-parse'' \<or> vd_type v = ''ini-parse'' then None
        else if vd_type v = ''json-path-exists'' then
          (if vd_jsonPath v = [] then Some OtherError else other_error (validate_json_path (vd_jsonPath v)))
        else if vd_type v = ''ini-key-exists'' then
          (if vd_section v = [] \<or> vd_key v = [] then Some OtherError
           else other_error (validate_ini_address (vd_section v) (vd_key v)))
        else Some OtherError)"

definition validation_diagnostic_code :: "string \<Rightarrow> diagnostic" where
  "validation_diagnostic_code t =
     (if t \<in> set [''file-exists'', ''json-parse'', ''json-path-exists'', ''ini-parse'', ''ini-key-exists'']
      then InvalidValidation else UnknownValidation)"

text \<open>The code of a failed operation or validation.\<close>

definition operation_diagnostic :: "migration_operation \<Rightarrow> diagnostic option" where
  "operation_diagnostic opn =
     (case validate_migration_operation opn of
        None \<Rightarrow> None
      | Some e \<Rightarrow>
          (case diagnostic_code_for_path_error e of
             Some d \<Rightarrow> Some d
           | None \<Rightarrow> Some (if is_allowed_migration_operation (op_type opn)
                          then InvalidMigrationOperation else UnknownMigrationOperation)))"

definition validation_diagnostic :: "validation_def \<Rightarrow> diagnostic option" where
  "validation_diagnostic v =
     (case validate_validation v of
        None \<Rightarrow> None
      | Some e \<Rightarrow>
          (case diagnostic_code_for_path_error e of
             Some d \<Rightarrow> Some d
           | None \<Rightarrow> Some (validation_diagnostic_code (vd_type v))))"

text \<open>Every error of a path validator carries its code; the empty code cannot arise.\<close>

definition path_diagnostic :: "check_error option \<Rightarrow> diagnostic option" where
  "path_diagnostic r = (case r of None \<Rightarrow> None | Some e \<Rightarrow> diagnostic_code_for_path_error e)"

section \<open>Generations, config sets and modules\<close>

definition validate_selector :: "regexp \<Rightarrow> version_selector \<Rightarrow> diagnostic option" where
  "validate_selector rx sel =
     (let hasRange = sel_versionRange sel \<noteq> []; hasPattern = sel_versionPattern sel \<noteq> [] in
      if hasRange = hasPattern then Some InvalidVersionSelector
      else if hasRange then
        (case match_numeric_version_range ''0'' (sel_versionRange sel) of
           Inl _ \<Rightarrow> Some InvalidVersionRange | Inr _ \<Rightarrow> None)
      else (if validate_anchored_pattern rx (sel_versionPattern sel) = None then None
            else Some InvalidVersionPattern))"

definition validate_generation_paths :: "generation_def \<Rightarrow> diagnostic option" where
  "validate_generation_paths g =
     check (case gen_capture g of None \<Rightarrow> None
            | Some c \<Rightarrow>
                check (first_error (\<lambda>f. check (path_diagnostic (validate_host_template_path (cf_source f)))
                                          (path_diagnostic (validate_portable_path (cf_dest f)))) (cap_files c))
                  (first_error (\<lambda>k. path_diagnostic (validate_portable_path (crk_dest k))) (cap_registryKeys c)))
       (check (first_error (\<lambda>r.
            check (if rd_source r \<noteq> [] then path_diagnostic (validate_staging_path (rd_source r)) else None)
              (if rd_target r \<noteq> [] then path_diagnostic (validate_host_template_path (rd_target r)) else None))
            (gen_restore g))
          (first_error validation_diagnostic (gen_validate g)))"

fun validate_generations ::
    "regexp \<Rightarrow> string list \<Rightarrow> int list \<Rightarrow> generation_def list \<Rightarrow> diagnostic option" where
  "validate_generations rx ids orders [] = None"
| "validate_generations rx ids orders (g # gs) =
     check (validate_stable_id (gen_id g))
      (if gen_id g \<in> set ids then Some DuplicateID
       else if gen_order g \<le> 0 then Some InvalidGenerationOrder
       else if gen_order g \<in> set orders then Some InvalidGenerationOrder
       else check (first_error (validate_selector rx) (gen_matches g))
         (check (validate_generation_paths g)
           (validate_generations rx (gen_id g # ids) (gen_order g # orders) gs)))"

definition edge_key :: "migration_edge \<Rightarrow> string" where
  "edge_key e = edge_from e @ [NUL] @ edge_to e"

fun validate_edges :: "string list \<Rightarrow> string list \<Rightarrow> migration_edge list \<Rightarrow> diagnostic option" where
  "validate_edges ids seen [] = None"
| "validate_edges ids seen (e # es) =
     (if edge_from e \<notin> set ids \<or> edge_to e \<notin> set ids then Some UnknownGeneration
      else if edge_from e = edge_to e then Some InvalidMigrationEdge
      else if edge_key e \<in> set seen then Some DuplicateMigrationEdge
      else if edge_operations e = [] then Some InvalidMigrationOperation
      else check (first_error operation_diagnostic (edge_operations e))
        (if edge_validate e = [] then Some MissingMigrationValidation
         else check (first_error validation_diagnostic (edge_validate e))
           (validate_edges ids (edge_key e # seen) es)))"

definition generation_order :: "generation_def list \<Rightarrow> string \<Rightarrow> int" where
  "generation_order gs i = (case List.find (\<lambda>g. gen_id g = i) gs of Some g \<Rightarrow> gen_order g | None \<Rightarrow> 0)"

definition validate_migration_graph :: "config_set \<Rightarrow> diagnostic option" where
  "validate_migration_graph s =
     (let gs = set_generations s; ids = map gen_id gs; adjacency = adjacency_of (set_migrations s) in
      check (validate_edges ids [] (set_migrations s))
        (if has_migration_cycle ids adjacency then Some MigrationCycle
         else check (first_error (\<lambda>e.
                if generation_order gs (edge_to e) \<le> generation_order gs (edge_from e)
                then Some InvalidMigrationEdge else None) (set_migrations s))
           (if find_ambiguous_route ids adjacency \<noteq> None then Some AmbiguousMigrationRoute else None)))"

definition validate_config_set :: "regexp \<Rightarrow> config_set \<Rightarrow> diagnostic option" where
  "validate_config_set rx s =
     (if set_generations s = [] then Some MissingConfigSet
      else check (validate_generations rx [] [] (set_generations s)) (validate_migration_graph s))"

definition validate_version_extraction_pattern ::
    "regexp \<Rightarrow> (string \<Rightarrow> string list) \<Rightarrow> string \<Rightarrow> diagnostic option" where
  "validate_version_extraction_pattern rx groups pattern =
     (if validate_anchored_pattern rx pattern \<noteq> None then Some InvalidVersionPattern
      else if length (filter (\<lambda>name. name = ''version'') (groups pattern)) \<noteq> 1
      then Some InvalidVersionPattern else None)"

fun validate_detectors ::
    "regexp \<Rightarrow> (string \<Rightarrow> string list) \<Rightarrow> string list \<Rightarrow> instance_detector list \<Rightarrow> diagnostic option" where
  "validate_detectors rx groups seen [] = None"
| "validate_detectors rx groups seen (d # ds) =
     check (validate_stable_id (det_id d))
      (if det_id d \<in> set seen then Some DuplicateID
       else check
         (if det_type d = ''package'' then
            (if det_glob d \<noteq> [] \<or> det_versionPattern d \<noteq> [] then Some InvalidDetector else None)
          else if det_type d = ''path'' then
            (if trim_space (det_glob d) = [] then Some InvalidDetector
             else if validate_template_placeholders (det_glob d) \<noteq> None then Some InvalidPlaceholder
             else if has_traversal (det_glob d) then Some UnsafePath
             else if det_versionPattern d \<noteq> []
             then validate_version_extraction_pattern rx groups (det_versionPattern d) else None)
          else Some UnknownDetector)
         (validate_detectors rx groups (det_id d # seen) ds))"

fun validate_sets :: "regexp \<Rightarrow> string list \<Rightarrow> config_set list \<Rightarrow> diagnostic option" where
  "validate_sets rx seen [] = None"
| "validate_sets rx seen (s # ss) =
     check (validate_stable_id (set_id s))
      (if set_id s \<in> set seen then Some DuplicateID
       else check (validate_config_set rx s) (validate_sets rx (set_id s # seen) ss))"

definition validate_module_v2 :: "regexp \<Rightarrow> (string \<Rightarrow> string list) \<Rightarrow> module_def \<Rightarrow> diagnostic option" where
  "validate_module_v2 rx groups m =
     (let schemaVersion = effective_schema_version (Some m) in
      if schemaVersion \<noteq> 1 \<and> schemaVersion \<noteq> 2 then Some UnsupportedSchema
      else (case mod_config m of
          None \<Rightarrow> None
        | Some config \<Rightarrow>
            if schemaVersion \<noteq> 2 then Some SchemaVersionRequired
            else check (validate_stable_id (mod_id m))
              (if cd_detectors config = [] then Some InvalidDetector
               else check (validate_detectors rx groups [] (cd_detectors config))
                 (if cd_sets config = [] then Some MissingConfigSet
                  else validate_sets rx [] (cd_sets config)))))"

section \<open>Contained staging paths\<close>

lemma has_traversal_elements: "\<not> has_traversal p \<Longrightarrow> ''..'' \<notin> set (path_elements (to_slashes p))"
  by (auto simp: has_traversal_def path_elements_def)

lemma replace_byte_simps [simp]:
  "replace_byte a b [] = []" "replace_byte a b (y # s) = (if y = a then b else y) # replace_byte a b s"
  by (simp_all add: replace_byte_def)

lemma split_refine_parts:
  "a \<noteq> b \<Longrightarrow> split_on b s = v # vs \<Longrightarrow> split_on b (replace_byte a b s) = u # us \<Longrightarrow>
     (a \<notin> set v \<longrightarrow> v = u) \<and> (\<forall>z \<in> set vs. a \<notin> set z \<longrightarrow> z \<in> set us)"
proof (induction s arbitrary: v vs u us)
  case (Cons y s)
  obtain v' vs' where v': "split_on b s = v' # vs'" by (cases "split_on b s") auto
  obtain u' us' where u': "split_on b (replace_byte a b s) = u' # us'"
    by (cases "split_on b (replace_byte a b s)") auto
  note IH = Cons.IH[OF Cons.prems(1) v' u']
  consider (sep) "y = b" | (old) "y = a" "y \<noteq> b" | (other) "y \<noteq> a" "y \<noteq> b" by blast
  then show ?case
  proof cases
    case sep
    then have "vs = v' # vs'" "us = u' # us'" "v = []" "u = []" using Cons.prems v' u' by auto
    then show ?thesis using IH by auto
  next
    case old
    then have "vs = vs'" "v = a # v'" "us = u' # us'" using Cons.prems v' u' by auto
    then show ?thesis using IH by auto
  next
    case other
    then have "vs = vs'" "v = y # v'" "us = us'" "u = y # u'" using Cons.prems v' u' by auto
    then show ?thesis using IH by auto
  qed
qed simp

lemma split_refine:
  assumes "a \<noteq> b" "w \<in> set (split_on b s)" "a \<notin> set w"
  shows "w \<in> set (split_on b (replace_byte a b s))"
proof -
  obtain v vs where v: "split_on b s = v # vs" by (cases "split_on b s") auto
  obtain u us where u: "split_on b (replace_byte a b s) = u # us"
    by (cases "split_on b (replace_byte a b s)") auto
  show ?thesis using split_refine_parts[OF assms(1) v u] assms(2,3) v u by auto
qed

lemma no_traversal_elements:
  assumes "\<not> has_traversal p"
  shows "''..'' \<notin> set (path_elements p)"
proof
  assume "''..'' \<in> set (path_elements p)"
  then have "''..'' \<in> set (split_on CHR ''/'' p)" by (simp add: path_elements_def)
  then have "''..'' \<in> set (split_on CHR ''/'' (to_slashes p))"
    unfolding to_slashes_def by (intro split_refine) (auto simp: BSLASH_def)
  then show False using assms by (simp add: has_traversal_def)
qed

lemma is_abs_trim: "is_abs p \<Longrightarrow> is_abs (trim_space p)"
proof -
  assume "is_abs p"
  then obtain r where p: "p = CHR ''/'' # r" by (auto simp: is_abs_def prefix_def)
  have "lead_width space_runes p = 0" unfolding p by (rule lead_width_head) (simp add: space_runes_def)
  then have "trim_space p \<noteq> []" "hd (trim_space p) = hd p"
    using trim_space_head[of p "CHR ''/''"] p by (auto simp: space_runes_def)
  then show ?thesis using p by (cases "trim_space p") (auto simp: is_abs_def)
qed

lemma clean_relative:
  assumes "\<not> is_abs p" "''..'' \<notin> set (path_elements p)"
  shows "clean_elements p = path_elements p"
  using assms clean_stack_no_dots[of "path_elements p" False "[]"] by (simp add: clean_elements_def)

lemma staging_path_contained:
  assumes "validate_staging_path p = None"
  shows "\<not> is_abs p" "''..'' \<notin> set (path_elements p)"
proof -
  have v: "\<not> is_portable_absolute_or_volume p" "\<not> has_traversal p"
    using assms by (auto simp: validate_staging_path_def split: if_splits)
  show "\<not> is_abs p" using v(1) is_abs_trim by (auto simp: is_portable_absolute_or_volume_def Let_def)
  show "''..'' \<notin> set (path_elements p)" using v(2) no_traversal_elements by simp
qed

text \<open>
  A path that passes the staging validation stays below the directory
  it is joined to: under every absolute root the joined path has exactly the
  elements of the root followed by those of the path.
\<close>

lemma split_slash_append: "split_on CHR ''/'' (u @ CHR ''/'' # s) = split_on CHR ''/'' u @ split_on CHR ''/'' s"
proof (induction u)
  case (Cons x u)
  obtain w ws where "split_on CHR ''/'' u = w # ws" by (cases "split_on CHR ''/'' u") auto
  with Cons show ?case by auto
qed simp

lemma path_elements_append: "path_elements (u @ CHR ''/'' # s) = path_elements u @ path_elements s"
  by (simp add: path_elements_def split_slash_append)

lemma clean_stack_app:
  "''..'' \<notin> set vs \<Longrightarrow> clean_stack rooted st (ws @ vs) = clean_stack rooted st ws @ vs"
  by (induction rooted st ws rule: clean_stack.induct) (auto simp: clean_stack_no_dots split: list.splits)

lemma join_below:
  assumes "is_abs root" "p \<noteq> []" "''..'' \<notin> set (path_elements p)"
  shows "clean_elements (join_path [root, p]) = clean_elements root @ path_elements p"
    and "is_abs (join_path [root, p])"
proof -
  have root: "root \<noteq> []" using assms(1) by (auto simp: is_abs_def)
  have abs: "is_abs (root @ CHR ''/'' # p)" using assms(1) by (auto simp: is_abs_def prefix_def)
  have "clean_elements (root @ CHR ''/'' # p) = clean_elements root @ path_elements p"
    unfolding clean_elements_def path_elements_append
    using assms abs clean_stack_app by simp
  moreover have "join_path [root, p] = clean_path (root @ CHR ''/'' # p)"
    using root by (simp add: join_path_def)
  ultimately show "clean_elements (join_path [root, p]) = clean_elements root @ path_elements p"
    "is_abs (join_path [root, p])" using abs by simp_all
qed

theorem staging_path_stays_below_root:
  assumes "validate_staging_path p = None" and "is_abs root"
  shows "clean_elements (join_path [root, p]) = clean_elements root @ path_elements p \<and>
     is_abs (join_path [root, p]) \<and> ''..'' \<notin> set (path_elements p)"
proof -
  have "p \<noteq> []" using assms(1) by (auto simp: validate_staging_path_def)
  then show ?thesis using join_below[OF assms(2) _] staging_path_contained[OF assms(1)] by simp
qed

theorem staging_path_stays_below_root_witness:
  "clean_elements (join_path [''/tmp/stage'', ''settings/user.json'']) =
     clean_elements ''/tmp/stage'' @ path_elements ''settings/user.json'' \<and>
   is_abs (join_path [''/tmp/stage'', ''settings/user.json'']) \<and> ''..'' \<notin> set (path_elements ''settings/user.json'')"
proof (rule staging_path_stays_below_root)
  show "validate_staging_path ''settings/user.json'' = None" by code_simp
  show "is_abs ''/tmp/stage''" by code_simp
qed

section \<open>What a valid config set guarantees\<close>

definition generation_ok :: "regexp \<Rightarrow> generation_def \<Rightarrow> bool" where
  "generation_ok rx g \<longleftrightarrow> stable_id (gen_id g) \<and> 0 < gen_order g \<and>
     (\<forall>sel \<in> set (gen_matches g). validate_selector rx sel = None) \<and> validate_generation_paths g = None"

definition edge_ok :: "generation_def list \<Rightarrow> migration_edge \<Rightarrow> bool" where
  "edge_ok gs e \<longleftrightarrow> edge_from e \<in> gen_id ` set gs \<and> edge_to e \<in> gen_id ` set gs \<and>
     generation_order gs (edge_from e) < generation_order gs (edge_to e) \<and>
     edge_operations e \<noteq> [] \<and> (\<forall>opn \<in> set (edge_operations e). validate_migration_operation opn = None) \<and>
     edge_validate e \<noteq> [] \<and> (\<forall>v \<in> set (edge_validate e). validate_validation v = None)"

definition edge_ends :: "migration_edge \<Rightarrow> string \<times> string" where
  "edge_ends e = (edge_from e, edge_to e)"

definition config_set_ok :: "regexp \<Rightarrow> config_set \<Rightarrow> bool" where
  "config_set_ok rx s \<longleftrightarrow>
     set_generations s \<noteq> [] \<and> distinct (map gen_id (set_generations s)) \<and>
     distinct (map gen_order (set_generations s)) \<and> (\<forall>g \<in> set (set_generations s). generation_ok rx g) \<and>
     (\<forall>e \<in> set (set_migrations s). edge_ok (set_generations s) e) \<and>
     distinct (map edge_ends (set_migrations s)) \<and>
     (\<forall>x y p q. walk (adjacency_of (set_migrations s)) x p y \<longrightarrow>
        walk (adjacency_of (set_migrations s)) x q y \<longrightarrow> p = q)"

lemma operation_diagnostic_None [simp]:
  "operation_diagnostic opn = None \<longleftrightarrow> validate_migration_operation opn = None"
  by (auto simp: operation_diagnostic_def split: option.splits)

lemma validation_diagnostic_None [simp]: "validation_diagnostic v = None \<longleftrightarrow> validate_validation v = None"
  by (auto simp: validation_diagnostic_def split: option.splits)

lemma validate_generations_None:
  "validate_generations rx ids orders gs = None \<longleftrightarrow>
     distinct (map gen_id gs) \<and> distinct (map gen_order gs) \<and>
     gen_id ` set gs \<inter> set ids = {} \<and> gen_order ` set gs \<inter> set orders = {} \<and> (\<forall>g \<in> set gs. generation_ok rx g)"
  by (induction gs arbitrary: ids orders) (auto simp: generation_ok_def validate_stable_id_def)

lemma validate_edges_None:
  "validate_edges ids seen es = None \<longleftrightarrow>
     (\<forall>e \<in> set es. edge_from e \<in> set ids \<and> edge_to e \<in> set ids \<and> edge_from e \<noteq> edge_to e \<and>
        edge_operations e \<noteq> [] \<and> (\<forall>opn \<in> set (edge_operations e). validate_migration_operation opn = None) \<and>
        edge_validate e \<noteq> [] \<and> (\<forall>v \<in> set (edge_validate e). validate_validation v = None)) \<and>
     distinct (map edge_key es) \<and> edge_key ` set es \<inter> set seen = {}"
  by (induction es arbitrary: seen) auto

lemma stable_tail_chars: "stable_tail b s \<Longrightarrow> NUL \<notin> set s"
proof (induction b s rule: stable_tail.induct)
  case (2 b c s)
  have "c \<noteq> NUL" using 2(3) by (auto simp: NUL_def byte_in_def split: if_splits)
  then show ?case using 2 by (auto split: if_splits)
qed simp

lemma stable_id_chars: "stable_id s \<Longrightarrow> NUL \<notin> set s"
  by (cases s) (auto simp: stable_id_def NUL_def byte_in_def dest: stable_tail_chars[unfolded NUL_def])

lemma edge_key_ends:
  assumes "\<forall>e \<in> set es. NUL \<notin> set (edge_from e)"
  shows "distinct (map edge_key es) \<longleftrightarrow> distinct (map edge_ends es)"
proof -
  have "edge_key e = edge_key f \<longleftrightarrow> edge_ends e = edge_ends f" if "e \<in> set es" "f \<in> set es" for e f
  proof
    assume eq: "edge_key e = edge_key f"
    have "takeWhile (\<lambda>c. c \<noteq> NUL) (edge_key e) = edge_from e" "takeWhile (\<lambda>c. c \<noteq> NUL) (edge_key f) = edge_from f"
      using assms that by (auto simp: edge_key_def takeWhile_append2 takeWhile_tail)
    then show "edge_ends e = edge_ends f" using eq by (simp add: edge_ends_def edge_key_def)
  qed (simp add: edge_ends_def edge_key_def)
  then show ?thesis by (auto simp: distinct_map inj_on_def)
qed

lemma adjacency_edge: "y \<in> set (adjacency_of es x) \<longleftrightarrow> (\<exists>e \<in> set es. edge_from e = x \<and> edge_to e = y)"
  by (auto simp: adjacency_of_def)

lemma adjacency_distinct: "distinct (map edge_ends es) \<Longrightarrow> distinct (adjacency_of es x)"
proof (induction es)
  case (Cons e es)
  have "edge_to e \<notin> set (adjacency_of es (edge_from e))"
    using Cons.prems by (force simp: adjacency_edge edge_ends_def image_iff)
  with Cons show ?case by (auto simp: adjacency_of_def)
qed (simp add: adjacency_of_def)

text \<open>Along edges that increase an order there is no cycle.\<close>

lemma increasing_no_cycle:
  assumes "\<And>x y. y \<in> set (adj x) \<Longrightarrow> (f x :: int) < f y"
  shows "(x, x) \<notin> (edge_rel adj)\<^sup>+"
proof -
  have "f a < f b" if "(a, b) \<in> (edge_rel adj)\<^sup>+" for a b
    using that by (induction rule: trancl_induct) (use assms in fastforce)+
  then show ?thesis by blast
qed

lemma walk_inside:
  assumes "\<And>x y. y \<in> set (adj x) \<Longrightarrow> x \<in> A \<and> y \<in> A"
  shows "walk adj x p y \<Longrightarrow> p \<noteq> [] \<Longrightarrow> x \<in> A \<and> y \<in> A"
proof (induction p arbitrary: x)
  case (Cons z p)
  then show ?case using assms[of z x] by (cases "p = []") auto
qed simp

lemma validate_migration_graph_None:
  assumes ids: "\<forall>g \<in> set (set_generations s). stable_id (gen_id g)"
  shows "validate_migration_graph s = None \<longleftrightarrow>
     (\<forall>e \<in> set (set_migrations s). edge_ok (set_generations s) e) \<and> distinct (map edge_ends (set_migrations s)) \<and>
     (\<forall>x y p q. walk (adjacency_of (set_migrations s)) x p y \<longrightarrow> walk (adjacency_of (set_migrations s)) x q y \<longrightarrow> p = q)"
    (is "_ \<longleftrightarrow> ?edges \<and> ?single \<and> ?walks")
proof -
  let ?gs = "set_generations s" and ?es = "set_migrations s"
  let ?ids = "map gen_id ?gs" and ?adj = "adjacency_of ?es"
  let ?ord = "generation_order ?gs"
  let ?forward = "\<forall>e \<in> set ?es. ?ord (edge_from e) < ?ord (edge_to e)"
  have edges: "(validate_edges ?ids [] ?es = None \<and> ?forward) \<longleftrightarrow> ?edges \<and> ?single"
  proof -
    have nul: "\<forall>e \<in> set ?es. NUL \<notin> set (edge_from e)" if "\<forall>e \<in> set ?es. edge_from e \<in> gen_id ` set ?gs"
      using that ids stable_id_chars by fastforce
    have "validate_edges ?ids [] ?es = None \<and> ?forward \<longleftrightarrow> ?edges \<and> distinct (map edge_key ?es)"
      unfolding validate_edges_None edge_ok_def by auto
    also have "\<dots> \<longleftrightarrow> ?edges \<and> ?single"
      using edge_key_ends[OF nul] by (auto simp: edge_ok_def)
    finally show ?thesis .
  qed
  have graph: "\<not> has_migration_cycle ?ids ?adj \<and> (find_ambiguous_route ?ids ?adj = None \<longleftrightarrow> ?walks)"
    if ok: "?edges" "?single"
  proof -
    have ends: "x \<in> set ?ids \<and> y \<in> set ?ids \<and> ?ord x < ?ord y" if "y \<in> set (?adj x)" for x y
      using ok(1) that by (auto simp: adjacency_edge edge_ok_def)
    have acyclic: "(x, x) \<notin> (edge_rel ?adj)\<^sup>+" for x
      by (rule increasing_no_cycle[where f = ?ord]) (use ends in blast)
    have closed: "closed_graph ?ids ?adj" using ends by (auto simp: closed_graph_def)
    then have dag: "dag ?ids ?adj" using acyclic by (simp add: dag_def)
    have no_cycle: "\<not> has_migration_cycle ?ids ?adj" using has_migration_cycle_iff[OF closed] acyclic by blast
    have inside: "x \<in> set ?ids \<and> y \<in> set ?ids" if "walk ?adj x p y" "p \<noteq> []" for x y p
      using walk_inside[of ?adj "set ?ids"] ends that by blast
    have "find_ambiguous_route ?ids ?adj = None \<longleftrightarrow> (\<forall>x \<in> set ?ids. \<forall>y \<in> set ?ids. \<not> two_walks ?adj x y)"
      by (rule find_ambiguous_route_None[OF dag]) (use adjacency_distinct ok(2) in blast)
    also have "\<dots> \<longleftrightarrow> ?walks"
      unfolding two_walks_def using inside by (metis walk.simps(1))
    finally show ?thesis using no_cycle by simp
  qed
  have "validate_migration_graph s = None \<longleftrightarrow>
     (validate_edges ?ids [] ?es = None \<and> ?forward) \<and> \<not> has_migration_cycle ?ids ?adj \<and> find_ambiguous_route ?ids ?adj = None"
    by (cases "find_ambiguous_route ?ids ?adj") (auto simp: validate_migration_graph_def Let_def not_less not_le)
  also have "\<dots> \<longleftrightarrow> ?edges \<and> ?single \<and> ?walks" unfolding edges using graph by blast
  finally show ?thesis .
qed

lemma validate_config_set_None: "validate_config_set rx s = None \<longleftrightarrow> config_set_ok rx s"
proof -
  have "validate_generations rx [] [] (set_generations s) = None \<Longrightarrow>
      \<forall>g \<in> set (set_generations s). stable_id (gen_id g)"
    by (simp add: validate_generations_None generation_ok_def)
  then show ?thesis
    using validate_migration_graph_None[of s]
    by (auto simp: validate_config_set_def config_set_ok_def validate_generations_None generation_ok_def)
qed

text \<open>
  Property C29: a config set is accepted exactly when its generations have distinct
  identifiers and distinct positive orders, every selector, path, operation and
  validation is valid, every migration leads to a generation of higher order, no two
  migrations have the same ends, and no two generations are joined by two routes. The
  separate cycle check never decides: it is implied by the order.
\<close>

theorem validate_config_set_correct:
  "validate_config_set rx s = None \<longleftrightarrow>
     set_generations s \<noteq> [] \<and> distinct (map gen_id (set_generations s)) \<and>
     distinct (map gen_order (set_generations s)) \<and> (\<forall>g \<in> set (set_generations s). generation_ok rx g) \<and>
     (\<forall>e \<in> set (set_migrations s). edge_ok (set_generations s) e) \<and>
     distinct (map edge_ends (set_migrations s)) \<and>
     (\<forall>x y p q. walk (adjacency_of (set_migrations s)) x p y \<longrightarrow>
        walk (adjacency_of (set_migrations s)) x q y \<longrightarrow> p = q)"
  unfolding validate_config_set_None config_set_ok_def ..

definition editor_set :: config_set where
  "editor_set = \<lparr>set_id = ''settings'',
     set_generations =
       [empty_generation\<lparr>gen_id := ''v1'', gen_order := 1, gen_matches := [\<lparr>sel_versionRange = ''<2'', sel_versionPattern = []\<rparr>]\<rparr>,
        empty_generation\<lparr>gen_id := ''v2'', gen_order := 2, gen_matches := [\<lparr>sel_versionRange = ''>=2 <3'', sel_versionPattern = []\<rparr>]\<rparr>,
        empty_generation\<lparr>gen_id := ''v3'', gen_order := 3, gen_matches := [\<lparr>sel_versionRange = ''>=3'', sel_versionPattern = []\<rparr>]\<rparr>],
     set_migrations =
       [\<lparr>edge_from = ''v1'', edge_to = ''v2'',
          edge_operations = [empty_operation\<lparr>op_type := ''json-move'', op_path := ''user.json'',
             op_from := ''$.tabs'', op_to := ''$.indent''\<rparr>],
          edge_validate = [empty_validation\<lparr>vd_type := ''json-parse'', vd_path := ''user.json''\<rparr>]\<rparr>,
        \<lparr>edge_from = ''v2'', edge_to = ''v3'',
          edge_operations = [empty_operation\<lparr>op_type := ''file-move'', op_source := ''user.json'', op_target := ''config/user.json''\<rparr>],
          edge_validate = [empty_validation\<lparr>vd_type := ''file-exists'', vd_path := ''config/user.json''\<rparr>]\<rparr>]\<rparr>"

lemma editor_set_valid: "validate_config_set (\<lambda>_. None) editor_set = None"
  by code_simp

theorem validate_config_set_witness:
  "validate_config_set (\<lambda>_. None) editor_set = None \<and> distinct (map gen_order (set_generations editor_set)) \<and>
     distinct (map edge_ends (set_migrations editor_set))"
  using validate_config_set_correct[of "\<lambda>_. None" editor_set] editor_set_valid by blast

end
