(* ===== verification/Instances.thy ===== *)
theory Instances
  imports ModuleValidation
begin

text \<open>
  \<open>internal/modules/instances.go\<close> and \<open>instance_template.go\<close>: discovery of
  application instances from the declared detectors, and the expansion of instance
  placeholders in paths and registry names. What the operating system and package
  \<open>regexp\<close> answer is a parameter: the records \<open>discovery_host\<close> and
  \<open>pattern_engine\<close>, the hash \<open>sha\<close> behind instance identifiers, and \<open>ul\<close>,
  the part of \<open>strings.ToLower\<close> for strings that are not ASCII.
\<close>

section \<open>Data\<close>

record package_evidence =
  pkg_appID :: string
  pkg_backend :: string
  pkg_platform :: string
  pkg_ref :: string
  pkg_driver :: string
  pkg_rawVersion :: string

record instance_evidence =
  ie_type :: string
  ie_appID :: string
  ie_backend :: string
  ie_platform :: string
  ie_ref :: string
  ie_driver :: string
  ie_path :: string

record config_instance =
  ci_id :: string
  ci_moduleID :: string
  ci_detectorID :: string
  ci_root :: string
  ci_version :: version_evidence
  ci_evidence :: instance_evidence
  ci_locator :: string

record discovery_host =
  dh_glob :: "string \<Rightarrow> string list option"
  dh_badPattern :: "string \<Rightarrow> bool"
  dh_expandEnv :: "string \<Rightarrow> string"
  dh_cwd :: string

record pattern_engine =
  pe_match :: regexp
  pe_groups :: "string \<Rightarrow> string list"
  pe_version :: "string \<Rightarrow> string \<Rightarrow> string option"

datatype path_role = HostPath | PortableRelativePath

datatype instance_error =
    NilModule | UnsupportedDetector string | EvidenceWithoutBackend | EvidenceWithoutRef
  | BadGlob | BadVersionPattern | GlobFailed
  | EmptyTemplate | BadPlaceholder | PlaceholderWithoutValue | HostExpansion
  | AbsoluteOrVolume | Traversal | EscapesRoot

section \<open>Case folding\<close>

definition ascii_lower :: "char \<Rightarrow> char" where
  "ascii_lower c = (if is_upper c then char_of (byte c + 32) else c)"

definition to_lower :: "(string \<Rightarrow> string) \<Rightarrow> string \<Rightarrow> string" where
  "to_lower ul s = (if list_all (\<lambda>c. byte c < 128) s then map ascii_lower s else ul s)"

section \<open>Paths of an instance\<close>

definition instance_values :: "config_instance \<Rightarrow> (string \<times> string) list" where
  "instance_values i =
     [(''${instance.root}'', ci_root i), (''${instance.version}'', ve_raw (ci_version i)),
      (''${instance.id}'', ci_id i)]"

text \<open>\<open>strings.Replacer\<close> with tokens none of which is a prefix of another.\<close>

function (sequential) replace_tokens :: "(string \<times> string) list \<Rightarrow> string \<Rightarrow> string" where
  "replace_tokens vals [] = []"
| "replace_tokens vals (c # s) =
     (case List.find (\<lambda>(token, _). token \<noteq> [] \<and> prefix token (c # s)) vals of
        Some (token, value) \<Rightarrow> value @ replace_tokens vals (drop (length token - 1) s)
      | None \<Rightarrow> c # replace_tokens vals s)"
  by pat_completeness auto
termination by (relation "measure (\<lambda>(_, s). length s)") auto

definition expand_instance_placeholders :: "string \<Rightarrow> config_instance \<Rightarrow> instance_error + string" where
  "expand_instance_placeholders template i =
     guard_res (if validate_template_placeholders template = None then None else Some BadPlaceholder)
       (let used = filter (\<lambda>(token, _). contains_str token template) (instance_values i) in
        if \<exists>(token, value) \<in> set used. value = [] then Inl PlaceholderWithoutValue
        else if used = [] then Inr template
        else Inr (replace_tokens used template))"

definition expand_instance_template :: "string \<Rightarrow> config_instance \<Rightarrow> instance_error + string" where
  "expand_instance_template template i =
     (if trim_space template = [] then Inl EmptyTemplate else expand_instance_placeholders template i)"

text \<open>The first token in a template, with the text before and after it.\<close>

fun split_token :: "(string \<times> string) list \<Rightarrow> string \<Rightarrow> (string \<times> string \<times> string) option" where
  "split_token vals [] = None"
| "split_token vals (c # s) =
     (case List.find (\<lambda>(token, _). token \<noteq> [] \<and> prefix token (c # s)) vals of
        Some (token, value) \<Rightarrow> Some ([], value, drop (length token) (c # s))
      | None \<Rightarrow> map_option (\<lambda>(pre, v, post). (c # pre, v, post)) (split_token vals s))"

lemma split_token_length: "split_token vals s = Some (pre, v, post) \<Longrightarrow> length post < length s"
  by (induction vals s arbitrary: pre rule: split_token.induct)
    (auto split: option.splits prod.splits dest!: find_Some_in)

function expand_host_segments ::
    "(string \<Rightarrow> string) \<Rightarrow> (string \<times> string) list \<Rightarrow> string \<Rightarrow> instance_error + string" where
  "expand_host_segments env vals s =
     (if s = [] then Inr []
      else (case split_token vals s of
          None \<Rightarrow> Inr (env s)
        | Some (pre, v, post) \<Rightarrow>
            if v = [] then Inl PlaceholderWithoutValue
            else try_res (expand_host_segments env vals post) (\<lambda>rest. Inr (env pre @ v @ rest))))"
  by pat_completeness auto
termination by (relation "measure (\<lambda>(_, _, s). length s)") (auto dest: split_token_length)

declare expand_host_segments.simps [simp del]

definition expand_host_instance_path_template ::
    "(string \<Rightarrow> string) \<Rightarrow> string \<Rightarrow> config_instance \<Rightarrow> instance_error + string" where
  "expand_host_instance_path_template env template i =
     guard_res (if validate_template_placeholders template = None then None else Some BadPlaceholder)
       (expand_host_segments env (instance_values i) template)"

definition abs_path :: "string \<Rightarrow> string \<Rightarrow> string" where
  "abs_path cwd p = (if is_abs p then clean_path p else join_path [cwd, p])"

definition require_contained_path :: "string \<Rightarrow> string \<Rightarrow> string \<Rightarrow> instance_error option" where
  "require_contained_path cwd root candidate =
     (case rel_path (abs_path cwd (clean_path root)) (abs_path cwd (clean_path candidate)) of
        None \<Rightarrow> Some EscapesRoot
      | Some relative \<Rightarrow>
          if relative = ''..'' \<or> prefix ''../'' relative \<or> is_abs relative then Some EscapesRoot else None)"

definition expand_instance_path ::
    "discovery_host \<Rightarrow> string \<Rightarrow> config_instance \<Rightarrow> path_role \<Rightarrow> instance_error + string" where
  "expand_instance_path h template i role =
     (if trim_space template = [] then Inl EmptyTemplate
      else (case role of
          PortableRelativePath \<Rightarrow>
            try_res (expand_instance_placeholders template i) (\<lambda>expanded.
              if contains_portable_host_expansion expanded then Inl HostExpansion
              else if is_portable_absolute_or_volume expanded then Inl AbsoluteOrVolume
              else if has_traversal expanded then Inl Traversal
              else Inr (clean_path expanded))
        | HostPath \<Rightarrow>
            try_res (expand_host_instance_path_template (dh_expandEnv h) template i) (\<lambda>expanded.
              if has_traversal template then Inl Traversal
              else if has_traversal expanded then Inl Traversal
              else guard_res
                (if contains_str ''${instance.root}'' template
                 then require_contained_path (dh_cwd h) (ci_root i) (clean_path expanded) else None)
                (Inr (clean_path expanded)))))"

section \<open>Discovery\<close>

definition stable_instance_id :: "(string \<Rightarrow> string) \<Rightarrow> string \<Rightarrow> string \<Rightarrow> string \<Rightarrow> string" where
  "stable_instance_id sha moduleID detectorID locator =
     ''instance-'' @ sha (moduleID @ [NUL] @ detectorID @ [NUL] @ locator)"

definition canonical_package_ref :: "(string \<Rightarrow> string) \<Rightarrow> string \<Rightarrow> string \<Rightarrow> string" where
  "canonical_package_ref ul backend ref =
     (if backend = ''winget'' \<or> backend = ''chocolatey'' then to_lower ul ref else ref)"

definition package_instance ::
    "(string \<Rightarrow> string) \<Rightarrow> string \<Rightarrow> string \<Rightarrow> package_evidence \<Rightarrow> instance_error + config_instance" where
  "package_instance ul moduleID detectorID ev =
     (let backend = to_lower ul (trim_space (pkg_backend ev)); ref = trim_space (pkg_ref ev) in
      if backend = [] then Inl EvidenceWithoutBackend
      else if ref = [] then Inl EvidenceWithoutRef
      else Inr \<lparr>ci_id = [], ci_moduleID = moduleID, ci_detectorID = detectorID, ci_root = [],
             ci_version = new_version_evidence (pkg_rawVersion ev),
             ci_evidence = \<lparr>ie_type = ''package'', ie_appID = pkg_appID ev, ie_backend = backend,
               ie_platform = pkg_platform ev, ie_ref = ref, ie_driver = pkg_driver ev, ie_path = []\<rparr>,
             ci_locator = ''package:'' @ backend @ '':'' @ canonical_package_ref ul backend ref\<rparr>)"

definition validate_discovery_glob :: "discovery_host \<Rightarrow> string \<Rightarrow> instance_error option" where
  "validate_discovery_glob h pattern =
     (if trim_space pattern = [] \<or> contains_str ''**'' pattern \<or> contains_any pattern ''{}'' \<or>
         dh_badPattern h pattern
      then Some BadGlob else None)"

definition base_name :: "string \<Rightarrow> string" where
  "base_name p = (let ws = path_elements p in if ws = [] then (if is_abs p then ''/'' else ''.'') else last ws)"

text \<open>On Unix \<open>canonicalPath\<close> only cleans: there is no case folding and no other separator.\<close>

definition canonical_path :: "string \<Rightarrow> string" where
  "canonical_path p = clean_path p"

definition path_instance ::
    "discovery_host \<Rightarrow> pattern_engine \<Rightarrow> string \<Rightarrow> instance_detector \<Rightarrow> string \<Rightarrow> config_instance option" where
  "path_instance h e moduleID d found =
     (let root = abs_path (dh_cwd h) (clean_path found) in
      case (if det_versionPattern d = [] then Some [] else pe_version e (det_versionPattern d) (base_name root)) of
        None \<Rightarrow> None
      | Some rawVersion \<Rightarrow>
          Some \<lparr>ci_id = [], ci_moduleID = moduleID, ci_detectorID = det_id d, ci_root = root,
            ci_version = new_version_evidence rawVersion,
            ci_evidence = \<lparr>ie_type = ''path'', ie_appID = [], ie_backend = [], ie_platform = [],
              ie_ref = [], ie_driver = [], ie_path = root\<rparr>,
            ci_locator = ''path:'' @ canonical_path root\<rparr>)"

definition discover_path_instances ::
    "discovery_host \<Rightarrow> pattern_engine \<Rightarrow> string \<Rightarrow> instance_detector \<Rightarrow> instance_error + config_instance list" where
  "discover_path_instances h e moduleID d =
     (let expandedGlob = dh_expandEnv h (det_glob d) in
      guard_res (validate_discovery_glob h expandedGlob)
       (guard_res (if det_versionPattern d \<noteq> [] \<and>
             validate_version_extraction_pattern (pe_match e) (pe_groups e) (det_versionPattern d) \<noteq> None
           then Some BadVersionPattern else None)
         (case dh_glob h expandedGlob of
            None \<Rightarrow> Inl GlobFailed
          | Some matches \<Rightarrow> Inr (List.map_filter (path_instance h e moduleID d) matches))))"

definition deterministic_non_empty :: "string \<Rightarrow> string \<Rightarrow> string" where
  "deterministic_non_empty l r = (if l = [] then r else if r = [] \<or> l \<le> r then l else r)"

definition merge_instance_evidence :: "instance_evidence \<Rightarrow> instance_evidence \<Rightarrow> instance_evidence" where
  "merge_instance_evidence l r =
     \<lparr>ie_type = deterministic_non_empty (ie_type l) (ie_type r),
      ie_appID = deterministic_non_empty (ie_appID l) (ie_appID r),
      ie_backend = deterministic_non_empty (ie_backend l) (ie_backend r),
      ie_platform = deterministic_non_empty (ie_platform l) (ie_platform r),
      ie_ref = deterministic_non_empty (ie_ref l) (ie_ref r),
      ie_driver = deterministic_non_empty (ie_driver l) (ie_driver r),
      ie_path = deterministic_non_empty (ie_path l) (ie_path r)\<rparr>"

text \<open>
  The accumulators by their key; the set of raw versions holds the non-empty ones.
\<close>

type_synonym accumulators = "(string, config_instance \<times> string fset) fmap"

definition instance_key :: "config_instance \<Rightarrow> string" where
  "instance_key c = ci_detectorID c @ [NUL] @ ci_locator c"

definition accumulate_instance :: "accumulators \<Rightarrow> config_instance \<Rightarrow> accumulators" where
  "accumulate_instance accs candidate =
     (let raw = ve_raw (ci_version candidate);
          new = (if raw = [] then {||} else {|raw|}) in
      case fmlookup accs (instance_key candidate) of
        None \<Rightarrow> fmupd (instance_key candidate) (candidate, new) accs
      | Some (i, raws) \<Rightarrow>
          fmupd (instance_key candidate)
            (i\<lparr>ci_evidence := merge_instance_evidence (ci_evidence i) (ci_evidence candidate),
               ci_root := deterministic_non_empty (ci_root i) (ci_root candidate)\<rparr>, raws |\<union>| new) accs)"

fun package_instances ::
    "(string \<Rightarrow> string) \<Rightarrow> string \<Rightarrow> string \<Rightarrow> package_evidence list \<Rightarrow> instance_error + config_instance list" where
  "package_instances ul moduleID detectorID [] = Inr []"
| "package_instances ul moduleID detectorID (ev # evs) =
     try_res (package_instance ul moduleID detectorID ev) (\<lambda>i.
     try_res (package_instances ul moduleID detectorID evs) (\<lambda>is. Inr (i # is)))"

fun discover_candidates ::
    "(string \<Rightarrow> string) \<Rightarrow> discovery_host \<Rightarrow> pattern_engine \<Rightarrow> string \<Rightarrow> package_evidence list \<Rightarrow>
     instance_detector list \<Rightarrow> instance_error + config_instance list" where
  "discover_candidates ul h e moduleID packages [] = Inr []"
| "discover_candidates ul h e moduleID packages (d # ds) =
     try_res
       (if det_type d = ''package'' then package_instances ul moduleID (det_id d) packages
        else if det_type d = ''path'' then discover_path_instances h e moduleID d
        else Inl (UnsupportedDetector (det_type d))) (\<lambda>found.
     try_res (discover_candidates ul h e moduleID packages ds) (\<lambda>rest. Inr (found @ rest)))"

text \<open>One raw version decides; conflicting versions leave the version unknown.\<close>

definition finish_instance :: "(string \<Rightarrow> string) \<Rightarrow> config_instance \<times> string fset \<Rightarrow> config_instance" where
  "finish_instance sha acc =
     (let i = fst acc; raws = sorted_list_of_fset (snd acc);
          j = (case raws of [] \<Rightarrow> i
               | [raw] \<Rightarrow> i\<lparr>ci_version := new_version_evidence raw\<rparr>
               | _ \<Rightarrow> i\<lparr>ci_version := new_version_evidence []\<rparr>) in
      j\<lparr>ci_id := stable_instance_id sha (ci_moduleID i) (ci_detectorID i) (ci_locator i)\<rparr>)"

definition instance_less :: "config_instance \<Rightarrow> config_instance \<Rightarrow> bool" where
  "instance_less l r =
     (if ci_detectorID l \<noteq> ci_detectorID r then ci_detectorID l < ci_detectorID r
      else ci_locator l < ci_locator r)"

interpretation instance_order: slice_less instance_less
  by (rule slice_less_lex[where key = "\<lambda>i. [ci_detectorID i, ci_locator i]"]) (simp_all add: instance_less_def)

text \<open>The values of the accumulator map, listed by key here, are sorted afterwards.\<close>

definition finish_discovery :: "(string \<Rightarrow> string) \<Rightarrow> accumulators \<Rightarrow> config_instance list" where
  "finish_discovery sha accs =
     sort_by instance_less
       (map (\<lambda>k. finish_instance sha (the (fmlookup accs k))) (sorted_list_of_fset (fmdom accs)))"

definition discover_instances ::
    "(string \<Rightarrow> string) \<Rightarrow> (string \<Rightarrow> string) \<Rightarrow> discovery_host \<Rightarrow> pattern_engine \<Rightarrow>
     module_def option \<Rightarrow> package_evidence list \<Rightarrow> instance_error + config_instance list" where
  "discover_instances sha ul h e m packages =
     (case m of
        None \<Rightarrow> Inl NilModule
      | Some md \<Rightarrow>
          (case mod_config md of
             None \<Rightarrow> Inr []
           | Some config \<Rightarrow>
               try_res (discover_candidates ul h e (mod_id md) packages (cd_detectors config)) (\<lambda>candidates.
                 Inr (finish_discovery sha (foldl accumulate_instance fmempty candidates)))))"

definition is_generation_capture_eligible :: "module_def option \<Rightarrow> bool" where
  "is_generation_capture_eligible m =
     (case m of
        None \<Rightarrow> False
      | Some md \<Rightarrow>
          effective_schema_version m = 2 \<and>
          (case mod_config md of
             None \<Rightarrow> False
           | Some config \<Rightarrow> cd_detectors config \<noteq> [] \<and>
               (\<exists>s \<in> set (cd_sets config). \<exists>g \<in> set (set_generations s). gen_capture g \<noteq> None)))"

section \<open>Expanded paths stay contained\<close>

lemma drop_common_eq: "drop_common as bs = (a, b) \<Longrightarrow> \<exists>cs. as = cs @ a \<and> bs = cs @ b"
proof (induction as bs rule: drop_common.induct)
  case (1 x xs y ys)
  show ?case
  proof (cases "x = y")
    case True
    then obtain cs where "xs = cs @ a \<and> ys = cs @ b" using 1 by auto
    then show ?thesis using True by (intro exI[of _ "x # cs"]) simp
  qed (use 1(2) in auto)
qed auto

lemma contained_elements:
  assumes "rel_path b c = Some r" "r \<noteq> ''..''" "\<not> prefix ''../'' r"
  shows "\<exists>rest. clean_elements c = clean_elements b @ rest" and "is_abs c = is_abs b"
proof -
  obtain b' t' where d: "drop_common (clean_elements b) (clean_elements c) = (b', t')"
      "r = render_clean False (replicate (length b') ''..'' @ t')" "is_abs c = is_abs b"
    using assms(1) by (auto simp: rel_path_def split: if_splits prod.splits)
  have "b' = []"
  proof (rule ccontr)
    assume "b' \<noteq> []"
    then obtain ws where "replicate (length b') ''..'' @ t' = ''..'' # ws"
      by (cases b') auto
    then have "r = join_with ''/'' (''..'' # ws)" using d(2) by (simp add: render_clean_def)
    then show False using assms(2,3) by (cases ws) auto
  qed
  then show "\<exists>rest. clean_elements c = clean_elements b @ rest" "is_abs c = is_abs b"
    using drop_common_eq[OF d(1)] d(3) by auto
qed

lemma require_contained_None:
  assumes "require_contained_path cwd root p = None"
  shows "\<exists>rest. clean_elements (abs_path cwd (clean_path p)) = clean_elements (abs_path cwd (clean_path root)) @ rest"
proof -
  obtain r where "rel_path (abs_path cwd (clean_path root)) (abs_path cwd (clean_path p)) = Some r"
      "r \<noteq> ''..''" "\<not> prefix ''../'' r"
    using assms by (auto simp: require_contained_path_def split: option.splits if_splits)
  then show ?thesis by (rule contained_elements)
qed

text \<open>
  Property C31: an expanded portable path is relative and has no parent element; an
  expanded host path whose template names the instance root denotes a place at or
  below that root, whatever the placeholder values and the environment are.
\<close>

theorem expand_instance_path_contained:
  assumes "expand_instance_path h template i role = Inr p"
  shows "(role = PortableRelativePath \<longrightarrow> \<not> is_abs p \<and> ''..'' \<notin> set (path_elements p)) \<and>
     (role = HostPath \<longrightarrow> contains_str ''${instance.root}'' template \<longrightarrow>
        (\<exists>rest. clean_elements (abs_path (dh_cwd h) p) =
           clean_elements (abs_path (dh_cwd h) (clean_path (ci_root i))) @ rest))"
proof (cases role)
  case HostPath
  then show ?thesis
    using assms require_contained_None[of "dh_cwd h" "ci_root i" p]
    by (auto simp: expand_instance_path_def split: if_splits)
next
  case PortableRelativePath
  then obtain x where x: "\<not> is_portable_absolute_or_volume x" "\<not> has_traversal x" "p = clean_path x"
    using assms by (auto simp: expand_instance_path_def split: if_splits)
  have "\<not> is_abs x" using x(1) is_abs_trim by (auto simp: is_portable_absolute_or_volume_def Let_def)
  then have "\<not> is_abs p" "''..'' \<notin> set (path_elements p)"
    using x(2,3) clean_relative[of x] no_traversal_elements[of x] by simp_all
  with PortableRelativePath show ?thesis by simp
qed

definition sample_instance :: config_instance where
  "sample_instance = \<lparr>ci_id = ''i1'', ci_moduleID = ''apps.editor'', ci_detectorID = ''path'', ci_root = ''/opt/editor'',
     ci_version = new_version_evidence ''2.1'',
     ci_evidence = \<lparr>ie_type = ''path'', ie_appID = [], ie_backend = [], ie_platform = [], ie_ref = [],
       ie_driver = [], ie_path = ''/opt/editor''\<rparr>, ci_locator = ''path:/opt/editor''\<rparr>"

definition sample_host :: discovery_host where
  "sample_host = \<lparr>dh_glob = \<lambda>_. Some [], dh_badPattern = \<lambda>_. False, dh_expandEnv = \<lambda>s. s, dh_cwd = ''/home''\<rparr>"

theorem expand_instance_path_contained_witness:
  "expand_instance_path sample_host ''${instance.root}/user.json'' sample_instance HostPath = Inr ''/opt/editor/user.json'' \<and>
   (\<exists>rest. clean_elements (abs_path (dh_cwd sample_host) ''/opt/editor/user.json'') =
      clean_elements (abs_path (dh_cwd sample_host) (clean_path (ci_root sample_instance))) @ rest)"
proof -
  have ok: "expand_instance_path sample_host ''${instance.root}/user.json'' sample_instance HostPath =
      Inr ''/opt/editor/user.json''" by code_simp
  have "contains_str ''${instance.root}'' ''${instance.root}/user.json''" by code_simp
  then show ?thesis using ok expand_instance_path_contained[OF ok] by blast
qed

section \<open>Discovery does not depend on the order of the evidence\<close>

lemma deterministic_non_empty_commute: "deterministic_non_empty a b = deterministic_non_empty b a"
  by (auto simp: deterministic_non_empty_def)

lemma deterministic_non_empty_assoc:
  "deterministic_non_empty (deterministic_non_empty a b) c = deterministic_non_empty a (deterministic_non_empty b c)"
  by (auto simp: deterministic_non_empty_def)

lemma deterministic_non_empty_left:
  "deterministic_non_empty (deterministic_non_empty a b) c = deterministic_non_empty (deterministic_non_empty a c) b"
  using deterministic_non_empty_assoc deterministic_non_empty_commute by metis

lemma merge_commute: "merge_instance_evidence a b = merge_instance_evidence b a"
  by (simp add: merge_instance_evidence_def deterministic_non_empty_commute)

lemma merge_left:
  "merge_instance_evidence (merge_instance_evidence a b) c = merge_instance_evidence (merge_instance_evidence a c) b"
  by (simp add: merge_instance_evidence_def deterministic_non_empty_left)

text \<open>
  An accumulator without the part that the order of the evidence influences: the
  version of the first instance, which the final step overwrites or which is the
  empty version.
\<close>

definition forget_version :: "config_instance \<times> string fset \<Rightarrow> config_instance \<times> string fset" where
  "forget_version acc = ((fst acc)\<lparr>ci_version := new_version_evidence []\<rparr>, snd acc)"

definition candidate_ok :: "config_instance \<Rightarrow> bool" where
  "candidate_ok c \<longleftrightarrow> ci_id c = [] \<and> NUL \<notin> set (ci_detectorID c) \<and>
     ci_version c = new_version_evidence (ve_raw (ci_version c))"

definition same_place :: "config_instance \<Rightarrow> config_instance \<Rightarrow> bool" where
  "same_place a b \<longleftrightarrow> ci_moduleID a = ci_moduleID b \<and> ci_detectorID a = ci_detectorID b \<and>
     ci_locator a = ci_locator b \<and> ci_id a = ci_id b"

definition absorb :: "config_instance \<times> string fset \<Rightarrow> config_instance \<Rightarrow> config_instance \<times> string fset" where
  "absorb acc c =
     ((fst acc)\<lparr>ci_evidence := merge_instance_evidence (ci_evidence (fst acc)) (ci_evidence c),
        ci_root := deterministic_non_empty (ci_root (fst acc)) (ci_root c)\<rparr>,
      snd acc |\<union>| (if ve_raw (ci_version c) = [] then {||} else {|ve_raw (ci_version c)|}))"

definition fresh :: "config_instance \<Rightarrow> config_instance \<times> string fset" where
  "fresh c = (c\<lparr>ci_version := new_version_evidence []\<rparr>,
     if ve_raw (ci_version c) = [] then {||} else {|ve_raw (ci_version c)|})"

definition step :: "accumulators \<Rightarrow> config_instance \<Rightarrow> accumulators" where
  "step accs c = fmupd (instance_key c)
     (case fmlookup accs (instance_key c) of None \<Rightarrow> fresh c | Some acc \<Rightarrow> absorb acc c) accs"

lemma fmmap_update: "fmmap f (fmupd k v m) = fmupd k (f v) (fmmap f m)"
  by (intro fmap_ext) auto

lemma version_update_swap:
  "i\<lparr>ci_evidence := e, ci_root := r, ci_version := v\<rparr> = i\<lparr>ci_version := v, ci_evidence := e, ci_root := r\<rparr>"
  by (rule config_instance.equality) simp_all

lemma accumulate_step:
  "fmmap forget_version (accumulate_instance accs c) = step (fmmap forget_version accs) c"
  by (auto simp: accumulate_instance_def step_def Let_def forget_version_def fresh_def absorb_def fmmap_update version_update_swap
      split: option.splits)

lemma absorb_commute: "absorb (absorb acc a) b = absorb (absorb acc b) a"
  by (simp add: absorb_def merge_left deterministic_non_empty_left sup_commute sup_left_commute)

lemma fresh_commute: "same_place a b \<Longrightarrow> absorb (fresh a) b = absorb (fresh b) a"
  by (simp add: absorb_def fresh_def same_place_def merge_commute deterministic_non_empty_commute sup_commute)

lemma step_commute:
  assumes "instance_key a = instance_key b \<Longrightarrow> same_place a b"
  shows "step (step accs a) b = step (step accs b) a"
proof (cases "instance_key a = instance_key b")
  case True
  then show ?thesis
    using fresh_commute assms
    by (intro fmap_ext) (auto simp: step_def absorb_commute split: option.splits)
next
  case False
  then show ?thesis by (intro fmap_ext) (auto simp: step_def)
qed

lemma instance_key_place:
  assumes "candidate_ok a" "candidate_ok b" "ci_moduleID a = ci_moduleID b" "instance_key a = instance_key b"
  shows "same_place a b"
proof -
  have tw: "NUL \<notin> set d \<Longrightarrow> takeWhile (\<lambda>x. x \<noteq> NUL) (d @ NUL # l) = d" for d l
    by (induction d) auto
  have det: "takeWhile (\<lambda>x. x \<noteq> NUL) (instance_key c) = ci_detectorID c" if "candidate_ok c" for c
    using that tw by (simp add: instance_key_def candidate_ok_def)
  have "ci_detectorID a = ci_detectorID b" using det[OF assms(1)] det[OF assms(2)] assms(4) by simp
  then show ?thesis using assms by (simp add: same_place_def candidate_ok_def instance_key_def)
qed

lemma fold_step_permuted:
  assumes "mset cs = mset cs'" "\<forall>c \<in> set cs. candidate_ok c \<and> ci_moduleID c = mid"
  shows "foldl step m cs = foldl step m cs'"
proof -
  have "fold (\<lambda>c accs. step accs c) cs = fold (\<lambda>c accs. step accs c) cs'"
  proof (rule fold_multiset_equiv[OF _ assms(1)])
    fix a b assume ab: "a \<in> set cs" "b \<in> set cs"
    have "step (step accs b) a = step (step accs a) b" for accs
      by (rule step_commute) (use ab assms(2) instance_key_place in metis)
    then show "(\<lambda>accs. step accs a) \<circ> (\<lambda>accs. step accs b) = (\<lambda>accs. step accs b) \<circ> (\<lambda>accs. step accs a)"
      by (simp add: fun_eq_iff)
  qed
  then show ?thesis by (simp add: foldl_conv_fold)
qed

lemma fmmap_fold: "fmmap forget_version (foldl accumulate_instance accs cs) = foldl step (fmmap forget_version accs) cs"
  by (induction cs arbitrary: accs) (simp_all add: accumulate_step)

definition version_kept :: "accumulators \<Rightarrow> bool" where
  "version_kept accs \<longleftrightarrow> (\<forall>k acc. fmlookup accs k = Some acc \<longrightarrow> snd acc = {||} \<longrightarrow>
     ci_version (fst acc) = new_version_evidence [])"

lemma version_kept_step: "version_kept accs \<Longrightarrow> candidate_ok c \<Longrightarrow> version_kept (accumulate_instance accs c)"
  by (auto simp: version_kept_def accumulate_instance_def Let_def candidate_ok_def split: option.splits if_splits)

lemma version_kept_fold:
  "version_kept accs \<Longrightarrow> \<forall>c \<in> set cs. candidate_ok c \<Longrightarrow> version_kept (foldl accumulate_instance accs cs)"
  by (induction cs arbitrary: accs) (auto intro: version_kept_step)

lemma finish_forget:
  assumes "snd acc = {||} \<Longrightarrow> ci_version (fst acc) = new_version_evidence []"
  shows "finish_instance sha (forget_version acc) = finish_instance sha acc"
proof (cases "sorted_list_of_fset (snd acc)")
  case Nil
  then have "snd acc = {||}"
    by (metis bot_fset.rep_eq fset_inject set_empty sorted_list_of_fset_simps(1))
  then show ?thesis using assms Nil by (simp add: finish_instance_def forget_version_def Let_def)
next
  case (Cons r rs)
  then show ?thesis by (cases rs) (simp_all add: finish_instance_def forget_version_def Let_def)
qed

lemma finish_discovery_forget:
  assumes "version_kept accs"
  shows "finish_discovery sha (fmmap forget_version accs) = finish_discovery sha accs"
proof -
  have "map (\<lambda>k. finish_instance sha (the (fmlookup (fmmap forget_version accs) k))) (sorted_list_of_fset (fmdom accs)) =
      map (\<lambda>k. finish_instance sha (the (fmlookup accs k))) (sorted_list_of_fset (fmdom accs))"
  proof (rule map_cong[OF refl])
    fix k assume "k \<in> set (sorted_list_of_fset (fmdom accs))"
    then obtain acc where acc: "fmlookup accs k = Some acc" by (auto simp: fmlookup_dom_iff)
    have "finish_instance sha (forget_version acc) = finish_instance sha acc"
      by (rule finish_forget) (use assms acc in \<open>cases acc, auto simp: version_kept_def\<close>)
    then show "finish_instance sha (the (fmlookup (fmmap forget_version accs) k)) = finish_instance sha (the (fmlookup accs k))"
      using acc by simp
  qed
  then show ?thesis unfolding finish_discovery_def fmdom_map by (simp only:)
qed

lemma package_instances_map:
  "package_instances ul mid d evs = Inr is \<longleftrightarrow> map (package_instance ul mid d) evs = map Inr is"
proof (induction evs arbitrary: "is")
  case (Cons ev evs)
  then show ?case by (cases "is") auto
qed auto

lemma mset_map_Inr: "mset (map f xs) = mset (map Inr ys) \<Longrightarrow> \<exists>zs. map f xs = map Inr zs \<and> mset zs = mset ys"
proof -
  assume eq: "mset (map f xs) = mset (map Inr ys)"
  have "\<forall>x \<in> set xs. f x \<in> range Inr"
  proof
    fix x assume "x \<in> set xs"
    then have "f x \<in># mset (map Inr ys)" using eq by (metis image_eqI set_map set_mset_mset)
    then show "f x \<in> range Inr" by auto
  qed
  then have "\<exists>zs. map f xs = map Inr zs" by (induction xs) (auto, metis list.simps(9))
  then obtain zs where zs: "map f xs = map Inr zs" by blast
  have "image_mset projr (mset (map f xs)) = mset zs" unfolding zs by (simp add: multiset.map_comp comp_def)
  moreover have "image_mset projr (mset (map f xs)) = mset ys"
    unfolding eq by (simp add: multiset.map_comp comp_def)
  ultimately have "mset zs = mset ys" by simp
  then show ?thesis using zs by blast
qed

lemma package_instances_permuted:
  assumes "package_instances ul mid d evs = Inr is" "mset evs' = mset evs"
  shows "\<exists>is'. package_instances ul mid d evs' = Inr is' \<and> mset is' = mset is"
proof -
  have "mset (map (package_instance ul mid d) evs') = mset (map Inr is)"
    using assms unfolding package_instances_map by (metis mset_map)
  from mset_map_Inr[OF this] show ?thesis unfolding package_instances_map by blast
qed

lemma discover_candidates_permuted:
  "discover_candidates ul h e mid evs ds = Inr cs \<Longrightarrow> mset evs' = mset evs \<Longrightarrow>
     \<exists>cs'. discover_candidates ul h e mid evs' ds = Inr cs' \<and> mset cs' = mset cs"
proof (induction ds arbitrary: cs)
  case (Cons d ds)
  obtain found rest where r: "discover_candidates ul h e mid evs ds = Inr rest" "cs = found @ rest"
      "(if det_type d = ''package'' then package_instances ul mid (det_id d) evs
        else if det_type d = ''path'' then discover_path_instances h e mid d
        else Inl (UnsupportedDetector (det_type d))) = Inr found"
    using Cons.prems(1) by auto
  obtain rest' where rest': "discover_candidates ul h e mid evs' ds = Inr rest'" "mset rest' = mset rest"
    using Cons.IH[OF r(1) Cons.prems(2)] by blast
  have "\<exists>found'. (if det_type d = ''package'' then package_instances ul mid (det_id d) evs'
        else if det_type d = ''path'' then discover_path_instances h e mid d
        else Inl (UnsupportedDetector (det_type d))) = Inr found' \<and> mset found' = mset found"
    using package_instances_permuted[of ul mid "det_id d" evs found evs'] r(3) Cons.prems(2)
    by (auto split: if_splits)
  then obtain found' where found': "mset found' = mset found"
      "(if det_type d = ''package'' then package_instances ul mid (det_id d) evs'
        else if det_type d = ''path'' then discover_path_instances h e mid d
        else Inl (UnsupportedDetector (det_type d))) = Inr found'" by blast
  show ?case
    unfolding discover_candidates.simps found'(2) try_res_simps rest'(1)
    using found'(1) rest'(2) r(2) by simp
qed simp

lemma new_version_evidence_raw [simp]: "ve_raw (new_version_evidence v) = v"
  by (simp add: new_version_evidence_def split: sum.splits)

lemma map_filter_mem: "c \<in> set (List.map_filter f xs) \<Longrightarrow> \<exists>x. f x = Some c"
  by (auto simp: List.map_filter_def)

lemma discover_candidates_ok:
  "discover_candidates ul h e mid evs ds = Inr cs \<Longrightarrow> \<forall>d \<in> set ds. stable_id (det_id d) \<Longrightarrow>
     \<forall>c \<in> set cs. candidate_ok c \<and> ci_moduleID c = mid"
proof (induction ds arbitrary: cs)
  case (Cons d ds)
  obtain found rest where r: "discover_candidates ul h e mid evs ds = Inr rest" "cs = found @ rest"
      "(if det_type d = ''package'' then package_instances ul mid (det_id d) evs
        else if det_type d = ''path'' then discover_path_instances h e mid d
        else Inl (UnsupportedDetector (det_type d))) = Inr found"
    using Cons.prems(1) by auto
  have nul: "NUL \<notin> set (det_id d)" using Cons.prems(2) stable_id_chars by simp
  have packages: "candidate_ok c \<and> ci_moduleID c = mid"
    if p: "package_instances ul mid (det_id d) evs = Inr is" "c \<in> set is" for "is" c
  proof -
    have "Inr c \<in> set (map (package_instance ul mid (det_id d)) evs)"
      using p unfolding package_instances_map by simp
    then obtain ev where "package_instance ul mid (det_id d) ev = Inr c" by auto
    then show ?thesis using nul by (auto simp: package_instance_def candidate_ok_def Let_def split: if_splits)
  qed
  have paths: "candidate_ok c \<and> ci_moduleID c = mid"
    if p: "discover_path_instances h e mid d = Inr is" "c \<in> set is" for "is" c
  proof -
    obtain matches where "is = List.map_filter (path_instance h e mid d) matches"
      using p(1) by (auto simp: discover_path_instances_def Let_def split: option.splits)
    then have "\<exists>m. path_instance h e mid d m = Some c" using p(2) map_filter_mem by metis
    then show ?thesis using nul by (auto simp: path_instance_def candidate_ok_def Let_def split: option.splits)
  qed
  have "\<forall>c \<in> set found. candidate_ok c \<and> ci_moduleID c = mid"
    using r(3) packages paths by (auto split: if_splits)
  then show ?case using Cons.IH[OF r(1)] Cons.prems(2) r(2) by auto
qed simp

text \<open>
  Discovery is a function of the set of facts: permuting the package
  evidence never changes the instances found, their merged evidence, their versions
  or their order, and conflicting versions of one instance leave its version unknown
  instead of preferring one of them.
\<close>

theorem discovery_order_independent:
  assumes "discover_instances sha ul h e (Some m) evs = Inr found" and "mset evs' = mset evs"
    and "\<forall>config. mod_config m = Some config \<longrightarrow> (\<forall>d \<in> set (cd_detectors config). stable_id (det_id d))"
  shows "discover_instances sha ul h e (Some m) evs' = Inr found"
proof (cases "mod_config m")
  case (Some config)
  obtain cs where cs: "discover_candidates ul h e (mod_id m) evs (cd_detectors config) = Inr cs"
      "found = finish_discovery sha (foldl accumulate_instance fmempty cs)"
    using assms(1) Some by (auto simp: discover_instances_def)
  obtain cs' where cs': "discover_candidates ul h e (mod_id m) evs' (cd_detectors config) = Inr cs'"
      "mset cs' = mset cs"
    using discover_candidates_permuted[OF cs(1) assms(2)] by blast
  have ok: "\<forall>c \<in> set cs. candidate_ok c \<and> ci_moduleID c = mod_id m"
    using discover_candidates_ok[OF cs(1)] assms(3) Some by simp
  have ok': "\<forall>c \<in> set cs'. candidate_ok c" using ok cs'(2) by (metis mset_eq_setD)
  have kept: "version_kept fmempty" by (simp add: version_kept_def)
  have "finish_discovery sha (foldl accumulate_instance fmempty cs) =
      finish_discovery sha (fmmap forget_version (foldl accumulate_instance fmempty cs))"
    using finish_discovery_forget version_kept_fold[OF kept] ok by simp
  also have "\<dots> = finish_discovery sha (foldl step fmempty cs)" by (simp add: fmmap_fold)
  also have "\<dots> = finish_discovery sha (foldl step fmempty cs')"
    using fold_step_permuted[of cs cs'] cs'(2) ok by metis
  also have "\<dots> = finish_discovery sha (fmmap forget_version (foldl accumulate_instance fmempty cs'))"
    by (simp add: fmmap_fold)
  also have "\<dots> = finish_discovery sha (foldl accumulate_instance fmempty cs')"
    using finish_discovery_forget version_kept_fold[OF kept] ok' by simp
  finally show ?thesis using Some cs(2) cs'(1) by (simp add: discover_instances_def)
qed (use assms(1) in \<open>simp add: discover_instances_def\<close>)

definition discovery_module :: module_def where
  "discovery_module = \<lparr>mod_schemaVersion = 2, mod_id = ''apps.editor'', mod_displayName = ''Editor'',
     mod_matches = \<lparr>mc_winget = [], mc_chocolatey = [], mc_exe = [], mc_uninstallDisplayName = [], mc_pathExists = []\<rparr>,
     mod_verify = [], mod_restore = [], mod_capture = None,
     mod_config = Some \<lparr>cd_detectors = [\<lparr>det_id = ''pkg'', det_type = ''package'', det_glob = [], det_versionPattern = []\<rparr>],
       cd_sets = []\<rparr>, mod_revision = ''r1''\<rparr>"

definition winget_evidence :: "string \<Rightarrow> package_evidence" where
  "winget_evidence version = \<lparr>pkg_appID = ''editor'', pkg_backend = ''winget'', pkg_platform = ''windows'',
     pkg_ref = ''Editor.Editor'', pkg_driver = ''winget'', pkg_rawVersion = version\<rparr>"

theorem discovery_order_independent_witness:
  "\<exists>found. discover_instances id id sample_host \<lparr>pe_match = \<lambda>_. None, pe_groups = \<lambda>_. [], pe_version = \<lambda>_ _. None\<rparr>
       (Some discovery_module) [winget_evidence ''1.0'', winget_evidence ''2.0''] = Inr found \<and>
     discover_instances id id sample_host \<lparr>pe_match = \<lambda>_. None, pe_groups = \<lambda>_. [], pe_version = \<lambda>_ _. None\<rparr>
       (Some discovery_module) [winget_evidence ''2.0'', winget_evidence ''1.0''] = Inr found"
proof -
  let ?e = "\<lparr>pe_match = \<lambda>_. None, pe_groups = \<lambda>_. [], pe_version = \<lambda>_ _. None\<rparr>"
  let ?evs = "[winget_evidence ''1.0'', winget_evidence ''2.0'']"
  have "trim_space ''winget'' = ''winget''" "trim_space ''Editor.Editor'' = ''Editor.Editor''" by code_simp+
  then obtain found where found: "discover_instances id id sample_host ?e (Some discovery_module) ?evs = Inr found"
    by (auto simp: discover_instances_def discovery_module_def package_instance_def winget_evidence_def
        to_lower_def byte_in_def ascii_lower_def Let_def)
  have "discover_instances id id sample_host ?e (Some discovery_module) [winget_evidence ''2.0'', winget_evidence ''1.0''] = Inr found"
  proof (rule discovery_order_independent[OF found])
    have "stable_id ''pkg''" by code_simp
    then show "\<forall>config. mod_config discovery_module = Some config \<longrightarrow> (\<forall>d \<in> set (cd_detectors config). stable_id (det_id d))"
      by (auto simp: discovery_module_def)
  qed simp
  with found show ?thesis by blast
qed

end
