(* ===== verification/TargetClaims.thy ===== *)
theory TargetClaims
  imports Instances
begin

text \<open>
  \<open>internal/configtarget/target.go\<close>: the canonical form of restore targets and
  the test whether two claims overlap, shared by the planner and the capture guard.
\<close>

datatype claim_kind = FilesystemTarget | RegistryTarget

record target_claim =
  tc_kind :: claim_kind
  tc_canonical :: string

definition canonical_filesystem :: "(string \<Rightarrow> string) \<Rightarrow> string \<Rightarrow> string" where
  "canonical_filesystem ul target = to_lower ul (clean_path (trim_space target))"

definition canonical_registry :: "(string \<Rightarrow> string) \<Rightarrow> string \<Rightarrow> string \<Rightarrow> string" where
  "canonical_registry ul key valueName =
     to_lower ul (trim_right_cut [BSLASH] (replace_byte CHR ''/'' BSLASH (trim_space key))) @
     [NUL] @ to_lower ul valueName"

definition filesystem_overlap :: "string \<Rightarrow> string \<Rightarrow> bool" where
  "filesystem_overlap l r \<longleftrightarrow> l = r \<or>
     (let l' = trim_suffix_byte CHR ''/'' l; r' = trim_suffix_byte CHR ''/'' r in
      prefix (r' @ ''/'') l' \<or> prefix (l' @ ''/'') r')"

definition claims_overlap :: "target_claim \<Rightarrow> target_claim \<Rightarrow> bool" where
  "claims_overlap l r \<longleftrightarrow>
     tc_kind l = tc_kind r \<and>
     (if tc_kind l = RegistryTarget then tc_canonical l = tc_canonical r
      else filesystem_overlap (tc_canonical l) (tc_canonical r))"

section \<open>Overlap is nesting of paths\<close>

lemma filesystem_overlap_sym: "filesystem_overlap l r = filesystem_overlap r l"
  by (auto simp: filesystem_overlap_def Let_def)

lemma claims_overlap_sym: "claims_overlap a b = claims_overlap b a"
  by (auto simp: claims_overlap_def filesystem_overlap_sym)

text \<open>The text of a cleaned absolute path, and one as a prefix of another.\<close>

lemma join_with_append:
  "ws \<noteq> [] \<Longrightarrow> vs \<noteq> [] \<Longrightarrow> join_with sep (ws @ vs) = join_with sep ws @ sep @ join_with sep vs"
proof (induction ws)
  case (Cons w ws)
  then show ?case by (cases "ws = []") (simp_all add: join_with_Cons)
qed simp

lemma join_slash_prefix:
  assumes "list_all plain_element as" "list_all plain_element bs" "as \<noteq> []"
  shows "prefix (join_with ''/'' as @ ''/'') (join_with ''/'' bs) \<longleftrightarrow> (\<exists>rest. rest \<noteq> [] \<and> bs = as @ rest)"
proof
  assume "prefix (join_with ''/'' as @ ''/'') (join_with ''/'' bs)"
  then obtain t where t: "join_with ''/'' bs = join_with ''/'' as @ CHR ''/'' # t" by (auto simp: prefix_def)
  have bs: "bs \<noteq> []" using t by auto
  have split: "split_on CHR ''/'' (join_with ''/'' ws) = ws" if "list_all plain_element ws" "ws \<noteq> []" for ws
    using that by (intro split_join) (auto simp: plain_element_def list_all_iff)
  have "bs = split_on CHR ''/'' (join_with ''/'' as @ CHR ''/'' # t)" using split[OF assms(2) bs] t by simp
  also have "\<dots> = as @ split_on CHR ''/'' t" using split[OF assms(1,3)] by (simp add: split_slash_append)
  finally show "\<exists>rest. rest \<noteq> [] \<and> bs = as @ rest" by (metis split_on_nonempty)
next
  assume "\<exists>rest. rest \<noteq> [] \<and> bs = as @ rest"
  then obtain rest where rest: "rest \<noteq> []" "bs = as @ rest" by blast
  have "join_with ''/'' (as @ rest) = join_with ''/'' as @ CHR ''/'' # join_with ''/'' rest"
    using join_with_append[OF assms(3) rest(1)] by simp
  then show "prefix (join_with ''/'' as @ ''/'') (join_with ''/'' bs)" using rest by (auto simp: prefix_def)
qed

lemma cleaned_text: "is_abs p \<Longrightarrow> clean_path p = CHR ''/'' # join_with ''/'' (clean_elements p)"
  by (simp add: clean_path_def render_clean_def)

lemma trim_slash_cleaned:
  assumes "list_all plain_element ws"
  shows "trim_suffix_byte CHR ''/'' (CHR ''/'' # join_with ''/'' ws) = (if ws = [] then [] else CHR ''/'' # join_with ''/'' ws)"
proof (cases "ws = []")
  case False
  then obtain vs w where ws: "ws = vs @ [w]" by (cases ws rule: rev_cases) auto
  then have w: "w \<noteq> []" "CHR ''/'' \<notin> set w" using assms by (auto simp: plain_element_def)
  have "\<exists>u. join_with ''/'' ws = u @ w"
    using ws join_with_append[of vs "[w]" "''/''"] by (cases "vs = []") auto
  then obtain u where u: "join_with ''/'' ws = u @ w" by blast
  have "last w \<noteq> CHR ''/''" using w last_in_set by metis
  then show ?thesis using False w u by (simp add: trim_suffix_byte_def)
qed (simp add: trim_suffix_byte_def)

text \<open>
  For cleaned absolute paths the overlap test is exactly equality or
  nesting of the element sequences: no two paths overlap merely because one name is a
  prefix of another, and the root overlaps everything.
\<close>

theorem filesystem_overlap_is_nesting:
  assumes "is_abs p" and "is_abs q"
  shows "filesystem_overlap (clean_path p) (clean_path q) \<longleftrightarrow>
     (\<exists>rest. clean_elements q = clean_elements p @ rest) \<or> (\<exists>rest. clean_elements p = clean_elements q @ rest)"
proof -
  let ?a = "clean_elements p" and ?b = "clean_elements q"
  have plain: "list_all plain_element ?a" "list_all plain_element ?b" by (rule clean_elements_plain)+
  have nest: "prefix ((if as = [] then [] else CHR ''/'' # join_with ''/'' as) @ ''/'')
        (if bs = [] then [] else CHR ''/'' # join_with ''/'' bs) \<longleftrightarrow> (\<exists>rest. rest \<noteq> [] \<and> bs = as @ rest)"
    if "list_all plain_element as" "list_all plain_element bs" for as bs
    using join_slash_prefix[OF that] by (cases "as = []"; cases "bs = []") auto
  have eq: "clean_path p = clean_path q \<longleftrightarrow> ?a = ?b"
    using cleaned_text[OF assms(1)] cleaned_text[OF assms(2)] clean_path_facts(2) by metis
  have "filesystem_overlap (clean_path p) (clean_path q) \<longleftrightarrow> ?a = ?b \<or>
      (\<exists>rest. rest \<noteq> [] \<and> ?a = ?b @ rest) \<or> (\<exists>rest. rest \<noteq> [] \<and> ?b = ?a @ rest)"
    unfolding filesystem_overlap_def Let_def eq
    unfolding cleaned_text[OF assms(1)] cleaned_text[OF assms(2)] trim_slash_cleaned[OF plain(1)]
      trim_slash_cleaned[OF plain(2)] nest[OF plain] nest[OF plain(2,1)] ..
  then show ?thesis by (metis append_Nil2)
qed

theorem filesystem_overlap_is_nesting_witness:
  "filesystem_overlap (clean_path ''/home/u/.config'') (clean_path ''/home/u/.config-old'') \<longleftrightarrow>
     (\<exists>rest. clean_elements ''/home/u/.config-old'' = clean_elements ''/home/u/.config'' @ rest) \<or>
     (\<exists>rest. clean_elements ''/home/u/.config'' = clean_elements ''/home/u/.config-old'' @ rest)"
  by (rule filesystem_overlap_is_nesting) (simp_all add: is_abs_def)

end
