(* ===== verification/ConfigResolution.thy ===== *)
theory ConfigResolution
  imports TargetClaims
begin

text \<open>
  \<open>internal/planner/config_resolution.go\<close>: the values a configuration plan is made
  of, and the summary accounting. The zero value of a Go string type is a
  constructor of its own (\<open>ResolutionNone\<close>, \<open>StatusNone\<close>).
\<close>

datatype resolution =
    ResolutionNone | ResolutionDirect | ResolutionMigrate | ResolutionIncompatible
  | ResolutionUnknown | ResolutionLegacyUnverified

datatype terminal_status =
    StatusNone | StatusPlanned | StatusRestored | StatusSkipped | StatusFailed
  | StatusRolledBack | StatusRollbackFailed

datatype resolution_reason =
    ReasonUnknownGeneration | ReasonAmbiguousGeneration | ReasonDowngradeUnsupported
  | ReasonMigrationPathMissing | ReasonAmbiguousTargetInstance | ReasonTargetNotDetected
  | ReasonMappedTargetNotDetected | ReasonMappedTargetIncompatible | ReasonTargetCollision
  | ReasonPayloadIntegrityFailed | ReasonUnsupportedModuleSchema | ReasonCatalogModuleMissing
  | ReasonConfigSetMissing | ReasonSourceGenerationUnknown | ReasonSourceGenerationDefinitionChanged
  | ReasonAppRunning | ReasonRecoveryRequired | ReasonRestoreFiltered | ReasonRestoreNotEnabled
  | ReasonTargetDetectionFailed | ReasonStagingValidationFailed | ReasonBackupFailed
  | ReasonJournalIntentFailed | ReasonCommitFailed | ReasonTargetValidationFailed
  | ReasonJournalCompletionFailed | ReasonAlreadyUpToDate

record planner_evidence =
  evd_type :: string
  evd_appID :: string
  evd_backend :: string
  evd_platform :: string
  evd_ref :: string
  evd_driver :: string

record source_instance =
  si_id :: string
  si_detectorID :: string
  si_rawVersion :: string
  si_normalizedVersion :: string
  si_evidence :: planner_evidence

record source_capture =
  sc_captureID :: string
  sc_moduleID :: string
  sc_configSetID :: string
  sc_instance :: source_instance
  sc_generation :: string
  sc_fingerprint :: string
  sc_moduleRevision :: string
  sc_moduleSchemaVersion :: int
  sc_payloadIntegrityFailed :: bool

record target_instance =
  ti_id :: string
  ti_moduleID :: string
  ti_detectorID :: string
  ti_rawVersion :: string
  ti_normalizedVersion :: string
  ti_evidence :: planner_evidence
  ti_generation :: string
  ti_fingerprint :: string
  ti_moduleRevision :: string
  ti_root :: string

record config_resolution =
  cr_captureID :: string
  cr_moduleID :: string
  cr_configSetID :: string
  cr_sourceInstance :: "source_instance option"
  cr_sourceInstanceID :: string
  cr_targetInstanceID :: string
  cr_targetCandidates :: "target_instance list"
  cr_sourceGeneration :: string
  cr_sourceFingerprint :: string
  cr_targetGeneration :: string
  cr_resolution :: resolution
  cr_reason :: "resolution_reason option"
  cr_migrationPath :: "string list"
  cr_captureRevision :: string
  cr_restoreRevision :: string
  cr_resolvedTargets :: "string list"
  cr_status :: terminal_status
  cr_label :: string
  cr_message :: string
  cr_remediation :: "string option"

record resolution_summary =
  sum_total :: int
  sum_direct :: int
  sum_migrate :: int
  sum_incompatible :: int
  sum_unknown :: int
  sum_legacyUnverified :: int
  sum_selected :: int
  sum_skipped :: int
  sum_failed :: int

record plan_set =
  ps_source :: source_capture
  ps_targets :: "target_instance list"
  ps_resolution :: config_resolution
  ps_targetDef :: "generation_def option"
  ps_edges :: "migration_edge list"

record config_plan =
  cp_sets :: "plan_set list"
  cp_summary :: resolution_summary

definition empty_summary :: resolution_summary where
  "empty_summary = \<lparr>sum_total = 0, sum_direct = 0, sum_migrate = 0, sum_incompatible = 0, sum_unknown = 0,
     sum_legacyUnverified = 0, sum_selected = 0, sum_skipped = 0, sum_failed = 0\<rparr>"

section \<open>Summary accounting\<close>

definition count_resolution :: "resolution \<Rightarrow> resolution_summary \<Rightarrow> resolution_summary" where
  "count_resolution r s =
     (case r of
        ResolutionDirect \<Rightarrow> s\<lparr>sum_direct := sum_direct s + 1\<rparr>
      | ResolutionMigrate \<Rightarrow> s\<lparr>sum_migrate := sum_migrate s + 1\<rparr>
      | ResolutionIncompatible \<Rightarrow> s\<lparr>sum_incompatible := sum_incompatible s + 1\<rparr>
      | ResolutionUnknown \<Rightarrow> s\<lparr>sum_unknown := sum_unknown s + 1\<rparr>
      | ResolutionLegacyUnverified \<Rightarrow> s\<lparr>sum_legacyUnverified := sum_legacyUnverified s + 1\<rparr>
      | ResolutionNone \<Rightarrow> s)"

definition selected_statuses :: "terminal_status list" where
  "selected_statuses = [StatusPlanned, StatusRestored, StatusFailed, StatusRolledBack, StatusRollbackFailed]"

definition failed_statuses :: "terminal_status list" where
  "failed_statuses = [StatusFailed, StatusRolledBack, StatusRollbackFailed]"

definition count_status :: "terminal_status \<Rightarrow> resolution_summary \<Rightarrow> resolution_summary" where
  "count_status st s =
     (let s1 = (if st \<in> set selected_statuses then s\<lparr>sum_selected := sum_selected s + 1\<rparr>
                else if st = StatusSkipped then s\<lparr>sum_skipped := sum_skipped s + 1\<rparr> else s) in
      if st \<in> set failed_statuses then s1\<lparr>sum_failed := sum_failed s1 + 1\<rparr> else s1)"

definition summarize_config_resolutions :: "config_resolution list \<Rightarrow> resolution_summary" where
  "summarize_config_resolutions rs =
     foldl (\<lambda>s r. count_status (cr_status r) (count_resolution (cr_resolution r) s))
       (empty_summary\<lparr>sum_total := int (length rs)\<rparr>) rs"

definition count_where :: "('a \<Rightarrow> bool) \<Rightarrow> 'a list \<Rightarrow> int" where
  "count_where P xs = int (length (filter P xs))"

lemma count_where_simps [simp]:
  "count_where P [] = 0" "count_where P (x # xs) = (if P x then 1 else 0) + count_where P xs"
  by (simp_all add: count_where_def)

lemma count_where_nonneg [simp]: "0 \<le> count_where P xs"
  by (simp add: count_where_def)

lemma count_where_length: "count_where P xs + count_where (\<lambda>x. \<not> P x) xs = int (length xs)"
  by (induction xs) auto

lemma summarize_fold:
  "foldl (\<lambda>s r. count_status (cr_status r) (count_resolution (cr_resolution r) s)) s0 rs =
     \<lparr>sum_total = sum_total s0,
      sum_direct = sum_direct s0 + count_where (\<lambda>r. cr_resolution r = ResolutionDirect) rs,
      sum_migrate = sum_migrate s0 + count_where (\<lambda>r. cr_resolution r = ResolutionMigrate) rs,
      sum_incompatible = sum_incompatible s0 + count_where (\<lambda>r. cr_resolution r = ResolutionIncompatible) rs,
      sum_unknown = sum_unknown s0 + count_where (\<lambda>r. cr_resolution r = ResolutionUnknown) rs,
      sum_legacyUnverified = sum_legacyUnverified s0 + count_where (\<lambda>r. cr_resolution r = ResolutionLegacyUnverified) rs,
      sum_selected = sum_selected s0 + count_where (\<lambda>r. cr_status r \<in> set selected_statuses) rs,
      sum_skipped = sum_skipped s0 + count_where (\<lambda>r. cr_status r = StatusSkipped) rs,
      sum_failed = sum_failed s0 + count_where (\<lambda>r. cr_status r \<in> set failed_statuses) rs\<rparr>"
proof (induction rs arbitrary: s0)
  case Nil
  show ?case by (cases s0) simp
next
  case (Cons r rs)
  show ?case
    unfolding foldl_Cons Cons.IH
    by (cases "cr_resolution r"; cases "cr_status r")
      (simp_all add: count_resolution_def count_status_def Let_def selected_statuses_def failed_statuses_def)
qed

text \<open>
  The summary accounts for every result exactly once on both axes:
  results whose resolution is set are partitioned into the five compatibility totals,
  results whose status is set into selected and skipped, and every failure, rolled
  back ones included, is a selected attempt.
\<close>

theorem summary_accounting:
  assumes "\<forall>r \<in> set rs. cr_resolution r \<noteq> ResolutionNone \<and> cr_status r \<noteq> StatusNone"
  shows "let s = summarize_config_resolutions rs in
     sum_total s = int (length rs) \<and>
     sum_direct s + sum_migrate s + sum_incompatible s + sum_unknown s + sum_legacyUnverified s = sum_total s \<and>
     sum_selected s + sum_skipped s = sum_total s \<and>
     0 \<le> sum_failed s \<and> sum_failed s \<le> sum_selected s"
proof -
  have kinds: "count_where (\<lambda>r. cr_resolution r = ResolutionDirect) rs + count_where (\<lambda>r. cr_resolution r = ResolutionMigrate) rs +
      count_where (\<lambda>r. cr_resolution r = ResolutionIncompatible) rs + count_where (\<lambda>r. cr_resolution r = ResolutionUnknown) rs +
      count_where (\<lambda>r. cr_resolution r = ResolutionLegacyUnverified) rs = int (length rs)"
    using assms
  proof (induction rs)
    case (Cons r rs)
    then show ?case by (cases "cr_resolution r") auto
  qed simp
  have statuses: "count_where (\<lambda>r. cr_status r \<in> set selected_statuses) rs + count_where (\<lambda>r. cr_status r = StatusSkipped) rs =
      int (length rs)"
    using assms
  proof (induction rs)
    case (Cons r rs)
    then show ?case by (cases "cr_status r") (auto simp: selected_statuses_def)
  qed simp
  have failed: "count_where (\<lambda>r. cr_status r \<in> set failed_statuses) rs \<le> count_where (\<lambda>r. cr_status r \<in> set selected_statuses) rs"
    by (induction rs) (auto simp: selected_statuses_def failed_statuses_def)
  show ?thesis
    using kinds statuses failed
    by (simp add: summarize_config_resolutions_def summarize_fold empty_summary_def)
qed

definition sample_resolution :: "resolution \<Rightarrow> terminal_status \<Rightarrow> config_resolution" where
  "sample_resolution r st = \<lparr>cr_captureID = ''c1'', cr_moduleID = ''apps.editor'', cr_configSetID = ''settings'',
     cr_sourceInstance = None, cr_sourceInstanceID = [], cr_targetInstanceID = [], cr_targetCandidates = [],
     cr_sourceGeneration = ''v1'', cr_sourceFingerprint = [], cr_targetGeneration = [], cr_resolution = r,
     cr_reason = None, cr_migrationPath = [], cr_captureRevision = [], cr_restoreRevision = [],
     cr_resolvedTargets = [], cr_status = st, cr_label = [], cr_message = [], cr_remediation = None\<rparr>"

theorem summary_accounting_witness:
  "let s = summarize_config_resolutions
       [sample_resolution ResolutionDirect StatusRolledBack, sample_resolution ResolutionUnknown StatusSkipped] in
     sum_total s = int (length [sample_resolution ResolutionDirect StatusRolledBack,
        sample_resolution ResolutionUnknown StatusSkipped]) \<and>
     sum_direct s + sum_migrate s + sum_incompatible s + sum_unknown s + sum_legacyUnverified s = sum_total s \<and>
     sum_selected s + sum_skipped s = sum_total s \<and>
     0 \<le> sum_failed s \<and> sum_failed s \<le> sum_selected s"
  by (rule summary_accounting) (simp add: sample_resolution_def)

end
