(* ===== verification/Compatibility.thy ===== *)
theory Compatibility
  imports ConfigResolution
begin

text \<open>
  \<open>internal/planner/config_compatibility.go\<close>: the resolver that pins the catalog
  for one run and decides, for one captured config set and one target instance,
  whether the settings apply directly, need a migration, or cannot be restored. The
  deep copies of the Go code are the identity on values.
\<close>

section \<open>The pinned catalog\<close>

record pinned_module =
  pin_schemaVersion :: int
  pin_revision :: string
  pin_sets :: "string \<Rightarrow> config_set option"
  pin_detectors :: "instance_detector list"
  pin_processPatterns :: "string list"

record compatibility_resolver =
  rs_modules :: "string \<Rightarrow> pinned_module option"
  rs_rejected :: "string set"

fun drop_repeats :: "string list \<Rightarrow> string list" where
  "drop_repeats (x # y # ys) = (if x = y then drop_repeats (y # ys) else x # drop_repeats (y # ys))"
| "drop_repeats xs = xs"

definition sorted_unique_strings :: "string list \<Rightarrow> string list" where
  "sorted_unique_strings values = drop_repeats (sort_by (<) values)"

definition pin_module :: "module_def \<Rightarrow> pinned_module" where
  "pin_module m =
     \<lparr>pin_schemaVersion = effective_schema_version (Some m), pin_revision = mod_revision m,
      pin_sets = (case mod_config m of None \<Rightarrow> (\<lambda>_. None)
                  | Some c \<Rightarrow> map_of (rev (map (\<lambda>s. (set_id s, s)) (cd_sets c)))),
      pin_detectors = (case mod_config m of None \<Rightarrow> [] | Some c \<Rightarrow> cd_detectors c),
      pin_processPatterns = sorted_unique_strings (mc_exe (mod_matches m))\<rparr>"

text \<open>The catalog maps module identifiers to modules; a nil entry is skipped.\<close>

definition new_compatibility_resolver ::
    "(string \<Rightarrow> module_def option option) \<Rightarrow> string list \<Rightarrow> compatibility_resolver" where
  "new_compatibility_resolver catalog diagnosed =
     \<lparr>rs_modules = (\<lambda>mid. case catalog mid of Some (Some m) \<Rightarrow> Some (pin_module m) | _ \<Rightarrow> None),
      rs_rejected = set (filter (\<lambda>mid. mid \<noteq> []) diagnosed)\<rparr>"

definition target_instance_from_discovered :: "config_instance \<Rightarrow> target_instance" where
  "target_instance_from_discovered i =
     \<lparr>ti_id = ci_id i, ti_moduleID = ci_moduleID i, ti_detectorID = ci_detectorID i,
      ti_rawVersion = ve_raw (ci_version i), ti_normalizedVersion = ve_normalized (ci_version i),
      ti_evidence = \<lparr>evd_type = ie_type (ci_evidence i), evd_appID = ie_appID (ci_evidence i),
        evd_backend = ie_backend (ci_evidence i), evd_platform = ie_platform (ci_evidence i),
        evd_ref = ie_ref (ci_evidence i), evd_driver = ie_driver (ci_evidence i)\<rparr>,
      ti_generation = [], ti_fingerprint = [], ti_moduleRevision = [], ti_root = ci_root i\<rparr>"

definition discovery_request :: "string \<Rightarrow> pinned_module \<Rightarrow> module_def" where
  "discovery_request moduleID pinned =
     \<lparr>mod_schemaVersion = pin_schemaVersion pinned, mod_id = moduleID, mod_displayName = [],
      mod_matches = \<lparr>mc_winget = [], mc_chocolatey = [], mc_exe = [], mc_uninstallDisplayName = [], mc_pathExists = []\<rparr>,
      mod_verify = [], mod_restore = [], mod_capture = None,
      mod_config = Some \<lparr>cd_detectors = pin_detectors pinned, cd_sets = []\<rparr>,
      mod_revision = pin_revision pinned\<rparr>"

definition discover_targets ::
    "(string \<Rightarrow> string) \<Rightarrow> (string \<Rightarrow> string) \<Rightarrow> discovery_host \<Rightarrow> pattern_engine \<Rightarrow>
     compatibility_resolver option \<Rightarrow> string \<Rightarrow> package_evidence list \<Rightarrow> instance_error + target_instance list" where
  "discover_targets sha ul h e r moduleID evidence =
     (case Option.bind r (\<lambda>res. rs_modules res moduleID) of
        None \<Rightarrow> Inr []
      | Some pinned \<Rightarrow>
          if pin_schemaVersion pinned \<noteq> 2 \<or> pin_detectors pinned = [] then Inr []
          else try_res (discover_instances sha ul h e (Some (discovery_request moduleID pinned)) evidence)
                 (\<lambda>is. Inr (map target_instance_from_discovered is)))"

definition process_patterns :: "compatibility_resolver option \<Rightarrow> string \<Rightarrow> string list" where
  "process_patterns r moduleID =
     (case Option.bind r (\<lambda>res. rs_modules res moduleID) of None \<Rightarrow> [] | Some p \<Rightarrow> pin_processPatterns p)"

section \<open>The migration route\<close>

definition edge_less :: "migration_edge \<Rightarrow> migration_edge \<Rightarrow> bool" where
  "edge_less l r = (if edge_to l \<noteq> edge_to r then edge_to l < edge_to r else edge_from l < edge_from r)"

interpretation edge_order: slice_less edge_less
  by (rule slice_less_lex[where key = "\<lambda>e. [edge_to e, edge_from e]"]) (simp_all add: edge_less_def)

definition outgoing :: "migration_edge list \<Rightarrow> string \<Rightarrow> migration_edge list" where
  "outgoing ms x = sort_by edge_less (filter (\<lambda>e. edge_from e = x) ms)"

text \<open>The variables the closure \<open>visit\<close> updates: the count and the first route found.\<close>

type_synonym route_state = "int \<times> string list \<times> migration_edge list"

fun record_route :: "string list \<times> migration_edge list \<Rightarrow> route_state \<Rightarrow> route_state" where
  "record_route (path, edges) (pathCount, p, es) =
     (if 1 < pathCount then (pathCount, p, es)
      else if pathCount = 0 then (1, path, edges) else (pathCount + 1, p, es))"

text \<open>
  The recursive closure with its loop over the outgoing edges. The fuel bounds the
  depth; a path visits each target of an edge at most once, so more fuel than there
  are edges is enough.
\<close>

function (sequential)
  route_visit :: "nat \<Rightarrow> migration_edge list \<Rightarrow> string \<Rightarrow> string set \<Rightarrow> string \<Rightarrow> string list \<Rightarrow>
     migration_edge list \<Rightarrow> route_state \<Rightarrow> route_state" and
  route_each :: "nat \<Rightarrow> migration_edge list \<Rightarrow> string \<Rightarrow> string set \<Rightarrow> migration_edge list \<Rightarrow> string list \<Rightarrow>
     migration_edge list \<Rightarrow> route_state \<Rightarrow> route_state"
where
  "route_visit 0 ms target visited current path edges st = st"
| "route_visit (Suc fuel) ms target visited current path edges st =
     (if 1 < fst st then st
      else if current = target then record_route (path, edges) st
      else route_each fuel ms target visited (outgoing ms current) path edges st)"
| "route_each fuel ms target visited [] path edges st = st"
| "route_each fuel ms target visited (e # es) path edges st =
     (if edge_to e \<in> visited then route_each fuel ms target visited es path edges st
      else route_each fuel ms target visited es path edges
        (route_visit fuel ms target (insert (edge_to e) visited) (edge_to e)
          (path @ [edge_to e]) (edges @ [e]) st))"
  by pat_completeness auto
termination
  by (relation "measures [\<lambda>a. case a of Inl (n, _) \<Rightarrow> n | Inr (n, _) \<Rightarrow> n,
        \<lambda>a. case a of Inl _ \<Rightarrow> 0 | Inr (_, _, _, _, xs, _) \<Rightarrow> Suc (length xs)]") auto

definition unique_migration_route ::
    "config_set \<Rightarrow> string \<Rightarrow> string \<Rightarrow> string list \<times> migration_edge list \<times> bool" where
  "unique_migration_route s sourceID targetID =
     (case route_visit (Suc (length (set_migrations s))) (set_migrations s) targetID {sourceID} sourceID
             [sourceID] [] (0, [], []) of
        (pathCount, path, edges) \<Rightarrow> (path, edges, pathCount = 1))"

section \<open>One source and one target\<close>

definition find_generation :: "config_set \<Rightarrow> string \<Rightarrow> generation_def option" where
  "find_generation s generationID = List.find (\<lambda>g. gen_id g = generationID) (set_generations s)"

definition target_version_evidence :: "target_instance \<Rightarrow> version_evidence" where
  "target_version_evidence t =
     (if ti_normalizedVersion t = [] then new_version_evidence (ti_rawVersion t)
      else \<lparr>ve_raw = ti_rawVersion t, ve_normalized = ti_normalizedVersion t, ve_numeric = True\<rparr>)"

definition finish_compatibility ::
    "plan_set \<Rightarrow> resolution \<Rightarrow> resolution_reason \<Rightarrow> terminal_status \<Rightarrow> plan_set" where
  "finish_compatibility plan res reason status =
     plan\<lparr>ps_resolution := (ps_resolution plan)\<lparr>cr_resolution := res, cr_reason := Some reason, cr_status := status\<rparr>\<rparr>"

definition unresolved_config :: "source_capture \<Rightarrow> config_resolution" where
  "unresolved_config source =
     \<lparr>cr_captureID = sc_captureID source, cr_moduleID = sc_moduleID source, cr_configSetID = sc_configSetID source,
      cr_sourceInstance = None, cr_sourceInstanceID = si_id (sc_instance source), cr_targetInstanceID = [],
      cr_targetCandidates = [], cr_sourceGeneration = sc_generation source,
      cr_sourceFingerprint = sc_fingerprint source, cr_targetGeneration = [], cr_resolution = ResolutionNone,
      cr_reason = None, cr_migrationPath = [], cr_captureRevision = sc_moduleRevision source,
      cr_restoreRevision = [], cr_resolvedTargets = [], cr_status = StatusNone, cr_label = [], cr_message = [],
      cr_remediation = None\<rparr>"

text \<open>The compatibility of two recognised generations of a set, after the target was matched.\<close>

definition resolve_generations ::
    "plan_set \<Rightarrow> config_set \<Rightarrow> source_capture \<Rightarrow> generation_def \<Rightarrow> generation_def \<Rightarrow> plan_set" where
  "resolve_generations plan s source sourceGen targetGen =
     (if gen_id targetGen = sc_generation source
      then plan\<lparr>ps_resolution := (ps_resolution plan)\<lparr>cr_resolution := ResolutionDirect\<rparr>\<rparr>
      else if gen_order targetGen < gen_order sourceGen
      then finish_compatibility plan ResolutionIncompatible ReasonDowngradeUnsupported StatusSkipped
      else (case unique_migration_route s (gen_id sourceGen) (gen_id targetGen) of
          (path, edges, unique) \<Rightarrow>
            if \<not> unique
            then finish_compatibility plan ResolutionIncompatible ReasonMigrationPathMissing StatusSkipped
            else plan\<lparr>ps_resolution := (ps_resolution plan)\<lparr>cr_resolution := ResolutionMigrate,
                        cr_migrationPath := path\<rparr>, ps_edges := edges\<rparr>))"

definition match_target ::
    "regexp \<Rightarrow> plan_set \<Rightarrow> pinned_module \<Rightarrow> config_set \<Rightarrow> source_capture \<Rightarrow> generation_def \<Rightarrow>
     target_instance \<Rightarrow> plan_set" where
  "match_target rx plan current s source sourceGen target0 =
     (let target = target0\<lparr>ti_moduleRevision := pin_revision current\<rparr>;
          plan1 = plan\<lparr>ps_targets := [target]\<rparr> in
      case select_generation rx (Some s) (target_version_evidence target) of
        Inl e \<Rightarrow>
          finish_compatibility plan1 ResolutionUnknown
            (if generation_match_code e = ''ambiguous_generation'' then ReasonAmbiguousGeneration
             else ReasonUnknownGeneration) StatusSkipped
      | Inr targetGen \<Rightarrow>
          resolve_generations
            (plan1\<lparr>ps_targets := [target\<lparr>ti_generation := gen_id targetGen, ti_fingerprint := gen_fingerprint targetGen\<rparr>],
                   ps_targetDef := Some targetGen,
                   ps_resolution := (ps_resolution plan1)\<lparr>cr_targetGeneration := gen_id targetGen\<rparr>\<rparr>)
            s source sourceGen targetGen)"

definition resolve_candidate ::
    "regexp \<Rightarrow> compatibility_resolver \<Rightarrow> source_capture \<Rightarrow> target_instance \<Rightarrow> plan_set" where
  "resolve_candidate rx r source target =
     (let plan = \<lparr>ps_source = source, ps_targets = [target],
                  ps_resolution = (unresolved_config source)\<lparr>cr_targetInstanceID := ti_id target\<rparr>,
                  ps_targetDef = None, ps_edges = []\<rparr> in
      if sc_moduleSchemaVersion source \<noteq> 2
      then finish_compatibility plan ResolutionUnknown ReasonUnsupportedModuleSchema StatusSkipped
      else if sc_payloadIntegrityFailed source
      then finish_compatibility plan ResolutionUnknown ReasonPayloadIntegrityFailed StatusFailed
      else (case rs_modules r (sc_moduleID source) of
          None \<Rightarrow>
            finish_compatibility plan ResolutionUnknown
              (if sc_moduleID source \<in> rs_rejected r then ReasonUnsupportedModuleSchema
               else ReasonCatalogModuleMissing) StatusSkipped
        | Some current \<Rightarrow>
            (let plan1 = plan\<lparr>ps_resolution := (ps_resolution plan)\<lparr>cr_restoreRevision := pin_revision current\<rparr>\<rparr> in
             if pin_schemaVersion current \<noteq> 2
             then finish_compatibility plan1 ResolutionUnknown ReasonUnsupportedModuleSchema StatusSkipped
             else (case pin_sets current (sc_configSetID source) of
                 None \<Rightarrow> finish_compatibility plan1 ResolutionUnknown ReasonConfigSetMissing StatusSkipped
               | Some s \<Rightarrow>
                   (case find_generation s (sc_generation source) of
                      None \<Rightarrow> finish_compatibility plan1 ResolutionUnknown ReasonSourceGenerationUnknown StatusSkipped
                    | Some sourceGen \<Rightarrow>
                        if sc_fingerprint source \<noteq> gen_fingerprint sourceGen \<and>
                           sc_fingerprint source \<notin> set (gen_accepts sourceGen)
                        then finish_compatibility plan1 ResolutionUnknown ReasonSourceGenerationDefinitionChanged StatusSkipped
                        else match_target rx plan1 current s source sourceGen target)))))"

section \<open>What the route search computes\<close>

text \<open>
  \<open>route ms seen x es y\<close>: the edges \<open>es\<close> lead from \<open>x\<close> to \<open>y\<close>, stop the first time
  they reach \<open>y\<close> and enter no node of \<open>seen\<close> and none twice. \<open>all_routes\<close> lists them
  in the order of the search.
\<close>

fun route :: "migration_edge list \<Rightarrow> string set \<Rightarrow> string \<Rightarrow> migration_edge list \<Rightarrow> string \<Rightarrow> bool" where
  "route ms seen x [] y \<longleftrightarrow> x = y"
| "route ms seen x (e # es) y \<longleftrightarrow>
     x \<noteq> y \<and> e \<in> set ms \<and> edge_from e = x \<and> edge_to e \<notin> seen \<and> route ms (insert (edge_to e) seen) (edge_to e) es y"

fun all_routes :: "nat \<Rightarrow> migration_edge list \<Rightarrow> string set \<Rightarrow> string \<Rightarrow> string \<Rightarrow> migration_edge list list" where
  "all_routes 0 ms seen x y = []"
| "all_routes (Suc n) ms seen x y =
     (if x = y then [[]]
      else concat (map (\<lambda>e. map (Cons e) (all_routes n ms (insert (edge_to e) seen) (edge_to e) y))
        (filter (\<lambda>e. edge_to e \<notin> seen) (outgoing ms x))))"

definition record_routes ::
    "string list \<Rightarrow> migration_edge list \<Rightarrow> migration_edge list list \<Rightarrow> route_state \<Rightarrow> route_state" where
  "record_routes path edges rs st = fold (\<lambda>r. record_route (path @ map edge_to r, edges @ r)) rs st"

lemma record_route_done: "1 < fst st \<Longrightarrow> record_route r st = st"
  by (cases st; cases r) simp

lemma record_routes_done: "1 < fst st \<Longrightarrow> record_routes path edges rs st = st"
  by (induction rs) (simp_all add: record_routes_def record_route_done)

lemma record_routes_append:
  "record_routes path edges (rs @ rs') st = record_routes path edges rs' (record_routes path edges rs st)"
  by (simp add: record_routes_def)

lemma record_routes_Cons:
  "record_routes path edges (map (Cons e) rs) st = record_routes (path @ [edge_to e]) (edges @ [e]) rs st"
  by (simp add: record_routes_def fold_map comp_def)

lemma route_visit_records:
  shows "route_visit n ms y seen x path edges st = record_routes path edges (all_routes n ms seen x y) st"
    and "route_each n ms y seen es path edges st =
      record_routes path edges
        (concat (map (\<lambda>e. map (Cons e) (all_routes n ms (insert (edge_to e) seen) (edge_to e) y))
          (filter (\<lambda>e. edge_to e \<notin> seen) es))) st"
proof (induction n ms y seen x path edges st and n ms y seen es path edges st
    rule: route_visit_route_each.induct)
  case (2 fuel ms target seen current path edges st)
  show ?case
  proof (cases "1 < fst st")
    case True
    then show ?thesis using record_routes_done[OF True] by simp
  next
    case False
    show ?thesis
    proof (cases "current = target")
      case True
      with False show ?thesis by (simp add: record_routes_def)
    next
      case neq: False
      show ?thesis using 2[OF False neq] False neq by simp
    qed
  qed
next
  case (4 fuel ms target seen e es path edges st)
  then show ?case by (simp add: record_routes_append record_routes_Cons)
qed (simp_all add: record_routes_def)

lemma record_routes_count:
  "record_routes path edges rs (0, [], []) =
     (case rs of [] \<Rightarrow> (0, [], [])
      | r # rest \<Rightarrow> (if rest = [] then 1 else 2, path @ map edge_to r, edges @ r))"
proof (cases rs)
  case (Cons r rest)
  have "fold (\<lambda>r. record_route (path @ map edge_to r, edges @ r)) rest (1, p, q) = (if rest = [] then 1 else 2, p, q)" for p q
  proof (cases rest)
    case (Cons r' rest')
    have "fold (\<lambda>r. record_route (path @ map edge_to r, edges @ r)) rest' (2, p, q) = (2, p, q)"
      by (induction rest') simp_all
    with Cons show ?thesis by simp
  qed simp
  with Cons show ?thesis by (simp add: record_routes_def)
qed (simp add: record_routes_def)

lemma set_outgoing: "e \<in> set (outgoing ms x) \<longleftrightarrow> e \<in> set ms \<and> edge_from e = x"
  by (simp add: outgoing_def)

lemma set_all_routes: "es \<in> set (all_routes n ms seen x y) \<longleftrightarrow> route ms seen x es y \<and> length es < n"
proof (induction n arbitrary: seen x es)
  case (Suc n)
  show ?case
  proof (cases "x = y")
    case True
    then show ?thesis by (cases es) auto
  next
    case False
    then show ?thesis by (cases es) (auto simp: Suc.IH set_outgoing)
  qed
qed simp

lemma distinct_all_routes: "distinct ms \<Longrightarrow> distinct (all_routes n ms seen x y)"
proof (induction n arbitrary: seen x)
  case (Suc n)
  have "distinct (concat (map (\<lambda>e. map (Cons e) (all_routes n ms (insert (edge_to e) seen) (edge_to e) y)) es))"
    if "distinct es" for es
    using that by (induction es) (auto simp: Suc distinct_map)
  then show ?case using Suc.prems by (simp add: outgoing_def)
qed simp

lemma route_length:
  "route ms seen x es y \<Longrightarrow> length es \<le> card (edge_to ` set ms - seen)"
proof (induction es arbitrary: seen x)
  case (Cons e es)
  then have "edge_to e \<in> edge_to ` set ms - seen" by auto
  moreover have "edge_to ` set ms - insert (edge_to e) seen = edge_to ` set ms - seen - {edge_to e}" by auto
  ultimately have "card (edge_to ` set ms - insert (edge_to e) seen) < card (edge_to ` set ms - seen)"
    by (metis List.finite_set card_Diff1_less finite_Diff finite_imageI)
  moreover have "length es \<le> card (edge_to ` set ms - insert (edge_to e) seen)"
    by (rule Cons.IH[where x = "edge_to e"]) (use Cons.prems in simp)
  ultimately have "length es < card (edge_to ` set ms - seen)" by linarith
  then show ?case by simp
qed simp

lemma route_short: "route ms seen x es y \<Longrightarrow> length es < Suc (length ms)"
proof -
  assume "route ms seen x es y"
  then have "length es \<le> card (edge_to ` set ms - seen)" by (rule route_length)
  also have "\<dots> \<le> card (edge_to ` set ms)" by (rule card_mono) auto
  also have "\<dots> \<le> card (set ms)" by (rule card_image_le) simp
  also have "\<dots> \<le> length ms" by (rule card_length)
  finally show ?thesis by simp
qed

lemma unique_migration_route_routes:
  assumes "distinct (set_migrations s)"
  shows "unique_migration_route s x y = (path, edges, unique) \<Longrightarrow>
      unique \<longleftrightarrow> (\<exists>!es. route (set_migrations s) {x} x es y)"
    and "unique_migration_route s x y = (path, edges, True) \<Longrightarrow>
      route (set_migrations s) {x} x edges y \<and> path = x # map edge_to edges"
proof -
  let ?ms = "set_migrations s"
  define rs where "rs = all_routes (Suc (length ?ms)) ?ms {x} x y"
  have mem: "es \<in> set rs \<longleftrightarrow> route ?ms {x} x es y" for es
    using set_all_routes[of es "Suc (length ?ms)"] route_short unfolding rs_def by metis
  have dist: "distinct rs" unfolding rs_def by (rule distinct_all_routes) (rule assms)
  have visit: "route_visit (Suc (length ?ms)) ?ms y {x} x [x] [] (0, [], []) =
      (case rs of [] \<Rightarrow> (0, [], []) | r # rest \<Rightarrow> (if rest = [] then 1 else 2, [x] @ map edge_to r, [] @ r))"
    unfolding route_visit_records(1) record_routes_count rs_def ..
  have result: "unique_migration_route s x y =
      (case rs of [] \<Rightarrow> ([], [], False) | r # rest \<Rightarrow> (x # map edge_to r, r, rest = []))"
    unfolding unique_migration_route_def visit by (simp split: list.splits)
  have one: "(\<exists>!es. route ?ms {x} x es y) \<longleftrightarrow> (\<exists>r. rs = [r])"
  proof
    assume "\<exists>!es. route ?ms {x} x es y"
    then obtain r where "set rs = {r}" using mem by blast
    then show "\<exists>r. rs = [r]" using dist by (cases rs; cases "tl rs") auto
  next
    assume "\<exists>r. rs = [r]"
    then obtain r where "rs = [r]" ..
    then show "\<exists>!es. route ?ms {x} x es y" using mem by (metis list.set_intros(1) empty_iff empty_set set_ConsD)
  qed
  show "unique \<longleftrightarrow> (\<exists>!es. route ?ms {x} x es y)" if "unique_migration_route s x y = (path, edges, unique)"
    using that unfolding one result by (cases rs; cases "tl rs") auto
  show "route ?ms {x} x edges y \<and> path = x # map edge_to edges"
    if "unique_migration_route s x y = (path, edges, True)"
    using that mem[of edges] unfolding result by (cases rs) auto
qed

text \<open>
  The search returns a route exactly when there is one and only one
  route without repeated generations from the source to the target, and then it is
  that route: the path lists its generations and the edges are its edges in order.
\<close>

theorem unique_migration_route_correct:
  assumes "distinct (set_migrations s)" and "unique_migration_route s x y = (path, edges, unique)"
  shows "(unique \<longleftrightarrow> (\<exists>!es. route (set_migrations s) {x} x es y)) \<and>
     (unique \<longrightarrow> route (set_migrations s) {x} x edges y \<and> path = x # map edge_to edges)"
  using unique_migration_route_routes[OF assms(1)] assms(2) by (cases unique) auto

theorem unique_migration_route_witness:
  "unique_migration_route editor_set ''v1'' ''v3'' = ([''v1'', ''v2'', ''v3''], set_migrations editor_set, True) \<and>
     route (set_migrations editor_set) {''v1''} ''v1'' (set_migrations editor_set) ''v3''"
proof -
  have found: "unique_migration_route editor_set ''v1'' ''v3'' = ([''v1'', ''v2'', ''v3''], set_migrations editor_set, True)"
    by code_simp
  have "distinct (set_migrations editor_set)" by code_simp
  then show ?thesis using found unique_migration_route_correct by blast
qed

subsection \<open>Routes of a validated set\<close>

lemma walk_of_route: "route ms seen x es y \<Longrightarrow> walk (adjacency_of ms) x (map edge_to es) y"
  by (induction es arbitrary: seen x) (auto simp: adjacency_edge)

lemma route_of_walk:
  assumes "\<And>a b. b \<in> set (adjacency_of ms a) \<Longrightarrow> (f a :: int) < f b"
  shows "walk (adjacency_of ms) x p y \<Longrightarrow> \<forall>z \<in> seen. f z \<le> f x \<Longrightarrow>
     \<exists>es. route ms seen x es y \<and> map edge_to es = p"
proof (induction p arbitrary: seen x)
  case (Cons z p)
  then obtain e where e: "e \<in> set ms" "edge_from e = x" "edge_to e = z" by (auto simp: adjacency_edge)
  have up: "f x < f z" using assms Cons.prems(1) by simp
  have "\<exists>es. route ms (insert z seen) z es y \<and> map edge_to es = p"
    by (rule Cons.IH) (use Cons.prems up in force)+
  then obtain es where es: "route ms (insert z seen) z es y" "map edge_to es = p" by blast
  have "x \<noteq> y"
  proof
    assume "x = y"
    then have "(x, x) \<in> (edge_rel (adjacency_of ms))\<^sup>+" using walk_reach[OF Cons.prems(1)] by simp
    then show False using increasing_no_cycle[of "adjacency_of ms" f x] assms by blast
  qed
  then have "route ms seen x (e # es) y" using e es up Cons.prems(2) by auto
  then show ?case using e es by (intro exI[of _ "e # es"]) simp
qed simp

lemma route_determined:
  "distinct (map edge_ends ms) \<Longrightarrow> route ms seen x es y \<Longrightarrow> route ms seen' x es' y' \<Longrightarrow>
     map edge_to es = map edge_to es' \<Longrightarrow> es = es'"
proof (induction es arbitrary: es' seen seen' x)
  case (Cons e es)
  then obtain f fs where es': "es' = f # fs" by (cases es') auto
  have "edge_ends e = edge_ends f" using Cons.prems es' by (auto simp: edge_ends_def)
  then have "e = f" using Cons.prems es' by (auto simp: distinct_map dest: inj_onD)
  then show ?case using Cons es' by auto
qed simp

lemma reach_iff_walk: "(x, y) \<in> (edge_rel adj)\<^sup>* \<longleftrightarrow> (\<exists>p. walk adj x p y)"
proof
  assume "(x, y) \<in> (edge_rel adj)\<^sup>*"
  then show "\<exists>p. walk adj x p y"
  proof (induction rule: converse_rtrancl_induct)
    case base
    then show ?case by (intro exI[of _ "[]"]) simp
  next
    case (step x z)
    then obtain p where "walk adj z p y" by blast
    with step(1) show ?case by (intro exI[of _ "z # p"]) simp
  qed
next
  assume "\<exists>p. walk adj x p y"
  then obtain p where "walk adj x p y" ..
  then show "(x, y) \<in> (edge_rel adj)\<^sup>*"
    by (induction p arbitrary: x) (auto intro: converse_rtrancl_into_rtrancl)
qed

lemma edge_order_increases:
  "config_set_ok rx s \<Longrightarrow> b \<in> set (adjacency_of (set_migrations s) a) \<Longrightarrow>
     generation_order (set_generations s) a < generation_order (set_generations s) b"
  by (auto simp: config_set_ok_def adjacency_edge edge_ok_def)

lemma distinct_migrations: "config_set_ok rx s \<Longrightarrow> distinct (set_migrations s)"
  by (auto simp: config_set_ok_def distinct_map)

lemma valid_route_iff_reachable:
  assumes "config_set_ok rx s"
  shows "(\<exists>!es. route (set_migrations s) {x} x es y) \<longleftrightarrow> (x, y) \<in> (edge_rel (adjacency_of (set_migrations s)))\<^sup>*"
proof -
  let ?ms = "set_migrations s"
  have walks: "walk (adjacency_of ?ms) x p y \<Longrightarrow> walk (adjacency_of ?ms) x q y \<Longrightarrow> p = q" for p q
    using assms unfolding config_set_ok_def by blast
  have ends: "distinct (map edge_ends ?ms)" using assms by (simp add: config_set_ok_def)
  have single: "es = es'" if "route ?ms {x} x es y" "route ?ms {x} x es' y" for es es'
    using route_determined[OF ends that] walks walk_of_route that by blast
  have "(\<exists>es. route ?ms {x} x es y) \<longleftrightarrow> (\<exists>p. walk (adjacency_of ?ms) x p y)"
  proof
    assume "\<exists>p. walk (adjacency_of ?ms) x p y"
    then obtain p where "walk (adjacency_of ?ms) x p y" ..
    from route_of_walk[of ?ms "generation_order (set_generations s)", OF _ this, of "{x}"]
    show "\<exists>es. route ?ms {x} x es y" using edge_order_increases[OF assms] by auto
  qed (use walk_of_route in blast)
  then show ?thesis unfolding reach_iff_walk using single by blast
qed

text \<open>
  For a config set that passed validation, the planner finds a
  migration path between two generations exactly when the declared migrations lead
  from one to the other; the checks of the validator and the search of the planner
  fit together, so a declared upgrade is never refused as ambiguous.
\<close>

theorem validated_set_route_found:
  assumes "validate_config_set rx s = None" and "unique_migration_route s x y = (path, edges, unique)"
  shows "unique \<longleftrightarrow> (x, y) \<in> (edge_rel (adjacency_of (set_migrations s)))\<^sup>*"
proof -
  have ok: "config_set_ok rx s" using assms(1) validate_config_set_None by blast
  show ?thesis
    using unique_migration_route_routes(1)[OF distinct_migrations[OF ok] assms(2)] valid_route_iff_reachable[OF ok]
    by simp
qed

theorem validated_set_route_witness:
  "unique_migration_route editor_set ''v1'' ''v3'' = ([''v1'', ''v2'', ''v3''], set_migrations editor_set, True) \<and>
     (''v1'', ''v3'') \<in> (edge_rel (adjacency_of (set_migrations editor_set)))\<^sup>*"
proof -
  have found: "unique_migration_route editor_set ''v1'' ''v3'' = ([''v1'', ''v2'', ''v3''], set_migrations editor_set, True)"
    by code_simp
  then show ?thesis using validated_set_route_found[OF editor_set_valid found] by simp
qed

section \<open>When settings can be restored to a target\<close>

definition is_viable_compatibility :: "config_resolution \<Rightarrow> bool" where
  "is_viable_compatibility res \<longleftrightarrow> cr_reason res = None \<and>
     (cr_resolution res = ResolutionDirect \<or> cr_resolution res = ResolutionMigrate)"

text \<open>The catalog facts that make a captured set interpretable.\<close>

definition source_recognised ::
    "compatibility_resolver \<Rightarrow> source_capture \<Rightarrow> pinned_module \<Rightarrow> config_set \<Rightarrow> generation_def \<Rightarrow> bool" where
  "source_recognised r source current s sourceGen \<longleftrightarrow>
     sc_moduleSchemaVersion source = 2 \<and> \<not> sc_payloadIntegrityFailed source \<and>
     rs_modules r (sc_moduleID source) = Some current \<and> pin_schemaVersion current = 2 \<and>
     pin_sets current (sc_configSetID source) = Some s \<and> find_generation s (sc_generation source) = Some sourceGen \<and>
     (sc_fingerprint source = gen_fingerprint sourceGen \<or> sc_fingerprint source \<in> set (gen_accepts sourceGen))"

lemma find_generation_id: "find_generation s i = Some g \<Longrightarrow> gen_id g = i \<and> g \<in> set (set_generations s)"
  using find_Some_in[of "\<lambda>g. gen_id g = i" "set_generations s" g] by (simp add: find_generation_def)

lemma target_version_evidence_revision [simp]:
  "target_version_evidence (t\<lparr>ti_moduleRevision := v\<rparr>) = target_version_evidence t"
  by (simp add: target_version_evidence_def)

lemma resolve_candidate_recognised:
  assumes "source_recognised r source current s sourceGen"
  shows "resolve_candidate rx r source target =
     match_target rx
       \<lparr>ps_source = source, ps_targets = [target],
        ps_resolution = (unresolved_config source)\<lparr>cr_targetInstanceID := ti_id target,
          cr_restoreRevision := pin_revision current\<rparr>,
        ps_targetDef = None, ps_edges = []\<rparr> current s source sourceGen target"
  using assms by (auto simp: resolve_candidate_def source_recognised_def Let_def)

lemma resolve_candidate_unrecognised:
  assumes "\<nexists>current s g. source_recognised r source current s g"
  shows "\<exists>reason status. cr_reason (ps_resolution (resolve_candidate rx r source target)) = Some reason \<and>
     cr_resolution (ps_resolution (resolve_candidate rx r source target)) = ResolutionUnknown \<and>
     cr_status (ps_resolution (resolve_candidate rx r source target)) = status \<and>
     status \<in> {StatusSkipped, StatusFailed}"
  using assms
  by (auto simp: resolve_candidate_def source_recognised_def finish_compatibility_def Let_def split: option.splits)


lemma match_target_viable:
  assumes "cr_reason (ps_resolution plan) = None" "cr_status (ps_resolution plan) = StatusNone"
    and res: "r = ps_resolution (match_target rx plan current s source g target)"
  shows "is_viable_compatibility r \<longleftrightarrow>
      (\<exists>h path edges unique. select_generation rx (Some s) (target_version_evidence target) = Inr h \<and>
        unique_migration_route s (gen_id g) (gen_id h) = (path, edges, unique) \<and>
        (gen_id h = sc_generation source \<or> gen_order g \<le> gen_order h \<and> unique))"
    and "cr_reason r = None \<longleftrightarrow> is_viable_compatibility r"
    and "cr_status r = StatusNone \<longleftrightarrow> is_viable_compatibility r"
proof -
  have "(is_viable_compatibility r \<longleftrightarrow>
      (\<exists>h path edges unique. select_generation rx (Some s) (target_version_evidence target) = Inr h \<and>
        unique_migration_route s (gen_id g) (gen_id h) = (path, edges, unique) \<and>
        (gen_id h = sc_generation source \<or> gen_order g \<le> gen_order h \<and> unique))) \<and>
      (cr_reason r = None \<longleftrightarrow> is_viable_compatibility r) \<and> (cr_status r = StatusNone \<longleftrightarrow> is_viable_compatibility r)"
  proof (cases "select_generation rx (Some s) (target_version_evidence target)")
    case (Inl e)
    then show ?thesis
      by (simp add: res match_target_def finish_compatibility_def is_viable_compatibility_def Let_def)
  next
    case (Inr h)
    obtain path edges unique where u: "unique_migration_route s (gen_id g) (gen_id h) = (path, edges, unique)"
      by (cases "unique_migration_route s (gen_id g) (gen_id h)") auto
    show ?thesis
      using Inr u assms(1,2)
      by (simp add: res match_target_def resolve_generations_def finish_compatibility_def is_viable_compatibility_def
          Let_def not_less)
  qed
  then show "is_viable_compatibility r \<longleftrightarrow>
      (\<exists>h path edges unique. select_generation rx (Some s) (target_version_evidence target) = Inr h \<and>
        unique_migration_route s (gen_id g) (gen_id h) = (path, edges, unique) \<and>
        (gen_id h = sc_generation source \<or> gen_order g \<le> gen_order h \<and> unique))"
    "cr_reason r = None \<longleftrightarrow> is_viable_compatibility r" "cr_status r = StatusNone \<longleftrightarrow> is_viable_compatibility r"
    by blast+
qed

lemma resolve_candidate_outcome:
  shows "cr_reason (ps_resolution (resolve_candidate rx r source target)) = None \<longleftrightarrow>
      is_viable_compatibility (ps_resolution (resolve_candidate rx r source target))"
    and "cr_status (ps_resolution (resolve_candidate rx r source target)) = StatusNone \<longleftrightarrow>
      is_viable_compatibility (ps_resolution (resolve_candidate rx r source target))"
proof -
  have "(cr_reason (ps_resolution (resolve_candidate rx r source target)) = None \<longleftrightarrow>
      is_viable_compatibility (ps_resolution (resolve_candidate rx r source target))) \<and>
    (cr_status (ps_resolution (resolve_candidate rx r source target)) = StatusNone \<longleftrightarrow>
      is_viable_compatibility (ps_resolution (resolve_candidate rx r source target)))"
  proof (cases "\<exists>current s g. source_recognised r source current s g")
    case True
    then obtain current s g where rec: "source_recognised r source current s g" by blast
    show ?thesis
      unfolding resolve_candidate_recognised[OF rec]
      using match_target_viable(2,3)[OF _ _ refl] by (simp add: unresolved_config_def)
  next
    case False
    from resolve_candidate_unrecognised[OF this, of rx target]
    show ?thesis by (auto simp: is_viable_compatibility_def)
  qed
  then show "cr_reason (ps_resolution (resolve_candidate rx r source target)) = None \<longleftrightarrow>
      is_viable_compatibility (ps_resolution (resolve_candidate rx r source target))"
    "cr_status (ps_resolution (resolve_candidate rx r source target)) = StatusNone \<longleftrightarrow>
      is_viable_compatibility (ps_resolution (resolve_candidate rx r source target))" by blast+
qed

lemma resolve_candidate_viable:
  "is_viable_compatibility (ps_resolution (resolve_candidate rx r source target)) \<longleftrightarrow>
     (\<exists>current s g h path edges unique. source_recognised r source current s g \<and>
        select_generation rx (Some s) (target_version_evidence target) = Inr h \<and>
        unique_migration_route s (gen_id g) (gen_id h) = (path, edges, unique) \<and>
        (gen_id h = sc_generation source \<or> gen_order g \<le> gen_order h \<and> unique))"
proof (cases "\<exists>current s g. source_recognised r source current s g")
  case True
  then obtain current s g where rec: "source_recognised r source current s g" by blast
  have only: "current' = current \<and> s' = s \<and> g' = g" if "source_recognised r source current' s' g'" for current' s' g'
    using rec that by (auto simp: source_recognised_def)
  have "is_viable_compatibility (ps_resolution (resolve_candidate rx r source target)) \<longleftrightarrow>
     (\<exists>h path edges unique. select_generation rx (Some s) (target_version_evidence target) = Inr h \<and>
        unique_migration_route s (gen_id g) (gen_id h) = (path, edges, unique) \<and>
        (gen_id h = sc_generation source \<or> gen_order g \<le> gen_order h \<and> unique))"
    unfolding resolve_candidate_recognised[OF rec]
    by (rule match_target_viable(1)[OF _ _ refl]) (simp_all add: unresolved_config_def)
  then show ?thesis using rec only by blast
next
  case False
  from resolve_candidate_unrecognised[OF this, of rx target]
  have "\<not> is_viable_compatibility (ps_resolution (resolve_candidate rx r source target))"
    by (auto simp: is_viable_compatibility_def)
  with False show ?thesis by blast
qed

text \<open>
  Property C27: a target is viable for a captured set exactly when the payload is
  intact, the current catalog recognises the module, the set, the generation and its
  fingerprint, exactly one current generation matches the target's version, and that
  generation is the captured one or is not older and reached by the only migration
  route. Every other outcome carries a reason and a final status; a viable one has
  neither.
\<close>

theorem resolve_candidate_viable_iff:
  "(is_viable_compatibility (ps_resolution (resolve_candidate rx r source target)) \<longleftrightarrow>
     (\<exists>current s g h path edges unique. source_recognised r source current s g \<and>
        select_generation rx (Some s) (target_version_evidence target) = Inr h \<and>
        unique_migration_route s (gen_id g) (gen_id h) = (path, edges, unique) \<and>
        (gen_id h = sc_generation source \<or> gen_order g \<le> gen_order h \<and> unique))) \<and>
   (is_viable_compatibility (ps_resolution (resolve_candidate rx r source target)) \<longleftrightarrow>
     cr_reason (ps_resolution (resolve_candidate rx r source target)) = None) \<and>
   (is_viable_compatibility (ps_resolution (resolve_candidate rx r source target)) \<longleftrightarrow>
     cr_status (ps_resolution (resolve_candidate rx r source target)) = StatusNone)"
  using resolve_candidate_viable resolve_candidate_outcome by blast

end
