(* ===== verification/Selection.thy ===== *)
theory Selection
  imports Compatibility
begin

text \<open>
  \<open>internal/planner/config_selection.go\<close>: the choice of at most one target instance
  for each captured config set, by explicit mapping, by being the only viable one, or
  by being the only viable one with exactly the captured version.
\<close>

section \<open>Deterministic order\<close>

definition source_capture_less :: "source_capture \<Rightarrow> source_capture \<Rightarrow> bool" where
  "source_capture_less l r =
     (if sc_captureID l \<noteq> sc_captureID r then sc_captureID l < sc_captureID r
      else if sc_moduleID l \<noteq> sc_moduleID r then sc_moduleID l < sc_moduleID r
      else if sc_configSetID l \<noteq> sc_configSetID r then sc_configSetID l < sc_configSetID r
      else si_id (sc_instance l) < si_id (sc_instance r))"

definition source_key :: "source_capture \<Rightarrow> string list" where
  "source_key s = [sc_captureID s, sc_moduleID s, sc_configSetID s, si_id (sc_instance s)]"

interpretation source_order: slice_less source_capture_less
  by (rule slice_less_lex[where key = source_key]) (simp_all add: source_capture_less_def source_key_def)

definition target_instance_less :: "target_instance \<Rightarrow> target_instance \<Rightarrow> bool" where
  "target_instance_less l r =
     (if ti_id l \<noteq> ti_id r then ti_id l < ti_id r
      else if ti_detectorID l \<noteq> ti_detectorID r then ti_detectorID l < ti_detectorID r
      else if ti_rawVersion l \<noteq> ti_rawVersion r then ti_rawVersion l < ti_rawVersion r
      else if ti_normalizedVersion l \<noteq> ti_normalizedVersion r
      then ti_normalizedVersion l < ti_normalizedVersion r
      else ti_root l < ti_root r)"

definition target_key :: "target_instance \<Rightarrow> string list" where
  "target_key t = [ti_id t, ti_detectorID t, ti_rawVersion t, ti_normalizedVersion t, ti_root t]"

interpretation target_order: slice_less target_instance_less
  by (rule slice_less_lex[where key = target_key]) (simp_all add: target_instance_less_def target_key_def)

definition sorted_target_instances :: "target_instance list \<Rightarrow> target_instance list" where
  "sorted_target_instances targets = sort_by target_instance_less targets"

section \<open>The choice\<close>

definition unresolved_source_plan ::
    "source_capture \<Rightarrow> target_instance list \<Rightarrow> resolution \<Rightarrow> resolution_reason \<Rightarrow> terminal_status \<Rightarrow> plan_set" where
  "unresolved_source_plan source targets res reason status =
     \<lparr>ps_source = source, ps_targets = targets,
      ps_resolution = (unresolved_config source)\<lparr>cr_resolution := res, cr_reason := Some reason, cr_status := status\<rparr>,
      ps_targetDef = None, ps_edges = []\<rparr>"

definition clear_selected_target :: "plan_set \<Rightarrow> plan_set" where
  "clear_selected_target plan =
     plan\<lparr>ps_resolution := (ps_resolution plan)\<lparr>cr_targetInstanceID := [], cr_targetGeneration := [],
            cr_migrationPath := [], cr_resolvedTargets := []\<rparr>,
          ps_targetDef := None, ps_edges := []\<rparr>"

definition is_target_compatibility_reason :: "resolution_reason option \<Rightarrow> bool" where
  "is_target_compatibility_reason reason \<longleftrightarrow>
     reason \<in> {Some ReasonUnknownGeneration, Some ReasonAmbiguousGeneration,
       Some ReasonDowngradeUnsupported, Some ReasonMigrationPathMissing}"

definition exact_version_match :: "source_instance \<Rightarrow> target_instance \<Rightarrow> bool" where
  "exact_version_match source target \<longleftrightarrow>
     si_rawVersion source \<noteq> [] \<and> ti_rawVersion target \<noteq> [] \<and> si_rawVersion source = ti_rawVersion target \<or>
     si_normalizedVersion source \<noteq> [] \<and> ti_normalizedVersion target \<noteq> [] \<and>
       si_normalizedVersion source = ti_normalizedVersion target"

definition candidates_share_outcome :: "plan_set list \<Rightarrow> bool" where
  "candidates_share_outcome candidates =
     (case candidates of
        [] \<Rightarrow> False
      | c # cs \<Rightarrow> list_all (\<lambda>d. cr_resolution (ps_resolution d) = cr_resolution (ps_resolution c) \<and>
                             cr_reason (ps_resolution d) = cr_reason (ps_resolution c)) cs)"

text \<open>A candidate always has its one target, annotated by the resolution.\<close>

definition candidate_target :: "plan_set \<Rightarrow> target_instance \<Rightarrow> target_instance" where
  "candidate_target candidate target = (case ps_targets candidate of [t] \<Rightarrow> t | _ \<Rightarrow> target)"

definition viable_set :: "plan_set \<Rightarrow> bool" where
  "viable_set p \<longleftrightarrow> is_viable_compatibility (ps_resolution p)"

definition resolve_mapped ::
    "source_capture \<Rightarrow> plan_set list \<Rightarrow> target_instance list \<Rightarrow> string \<Rightarrow> plan_set" where
  "resolve_mapped source candidates resolvedTargets mappedID =
     (case List.find (\<lambda>(c, t). ti_id t = mappedID) (zip candidates resolvedTargets) of
        None \<Rightarrow>
          (let plan = unresolved_source_plan source resolvedTargets ResolutionUnknown ReasonMappedTargetNotDetected StatusSkipped in
           plan\<lparr>ps_resolution := (ps_resolution plan)\<lparr>cr_targetInstanceID := mappedID\<rparr>\<rparr>)
      | Some (candidate0, _) \<Rightarrow>
          (let candidate = candidate0\<lparr>ps_targets := resolvedTargets\<rparr> in
           if viable_set candidate then candidate
           else if is_target_compatibility_reason (cr_reason (ps_resolution candidate))
           then candidate\<lparr>ps_resolution := (ps_resolution candidate)
                  \<lparr>cr_reason := Some ReasonMappedTargetIncompatible, cr_status := StatusSkipped\<rparr>\<rparr>
           else candidate))"

definition resolve_detected ::
    "source_capture \<Rightarrow> plan_set list \<Rightarrow> target_instance list \<Rightarrow> plan_set" where
  "resolve_detected source candidates resolvedTargets =
     (let viable = filter viable_set candidates;
          exact = filter (\<lambda>c. exact_version_match (sc_instance source) (hd (ps_targets c))) viable;
          ambiguous = unresolved_source_plan source resolvedTargets ResolutionUnknown ReasonAmbiguousTargetInstance StatusSkipped in
      if length viable = 1 then (hd viable)\<lparr>ps_targets := resolvedTargets\<rparr>
      else if 1 < length viable then
        (if length exact = 1 then (hd exact)\<lparr>ps_targets := resolvedTargets\<rparr> else ambiguous)
      else if candidates_share_outcome candidates
      then clear_selected_target ((hd candidates)\<lparr>ps_targets := resolvedTargets\<rparr>)
      else ambiguous)"

definition resolve_source_targets ::
    "regexp \<Rightarrow> compatibility_resolver \<Rightarrow> source_capture \<Rightarrow> target_instance list \<Rightarrow>
     (string \<Rightarrow> string option) \<Rightarrow> plan_set" where
  "resolve_source_targets rx r source targets mappings =
     (let candidates = map (resolve_candidate rx r source) targets;
          resolvedTargets = map2 candidate_target candidates targets in
      case mappings (sc_captureID source) of
        Some mappedID \<Rightarrow> resolve_mapped source candidates resolvedTargets mappedID
      | None \<Rightarrow>
          if targets = []
          then unresolved_source_plan source resolvedTargets ResolutionUnknown ReasonTargetNotDetected StatusSkipped
          else resolve_detected source candidates resolvedTargets)"

section \<open>No silent choice\<close>

lemma resolve_candidate_target:
  "\<exists>t. ps_targets (resolve_candidate rx r source target) = [t] \<and> ti_id t = ti_id target \<and>
     ti_rawVersion t = ti_rawVersion target \<and> ti_normalizedVersion t = ti_normalizedVersion target \<and>
     cr_targetInstanceID (ps_resolution (resolve_candidate rx r source target)) = ti_id target"
  by (auto simp: resolve_candidate_def match_target_def resolve_generations_def finish_compatibility_def Let_def
      split: option.splits sum.splits prod.splits)

definition viable_target :: "regexp \<Rightarrow> compatibility_resolver \<Rightarrow> source_capture \<Rightarrow> target_instance \<Rightarrow> bool" where
  "viable_target rx r source t \<longleftrightarrow> is_viable_compatibility (ps_resolution (resolve_candidate rx r source t))"

lemma filter_map_comp: "filter P (map f xs) = map f (filter (\<lambda>x. P (f x)) xs)"
  by (induction xs) auto

lemma viable_with_targets [simp]: "viable_set (p\<lparr>ps_targets := ts\<rparr>) = viable_set p"
  by (simp add: viable_set_def)

lemma not_viable_plans [simp]:
  "\<not> viable_set (unresolved_source_plan source targets res reason status)"
  by (simp add: viable_set_def is_viable_compatibility_def unresolved_source_plan_def)

lemma clear_not_viable: "\<not> viable_set p \<Longrightarrow> \<not> viable_set (clear_selected_target p)"
  by (simp add: viable_set_def is_viable_compatibility_def clear_selected_target_def)

lemma resolve_detected_viable:
  assumes "targets \<noteq> []"
  shows "viable_set (resolve_detected source (map (resolve_candidate rx r source) targets) ts) \<longleftrightarrow>
      length (filter (viable_target rx r source) targets) = 1 \<or>
      1 < length (filter (viable_target rx r source) targets) \<and>
      length (filter (\<lambda>t. viable_target rx r source t \<and> exact_version_match (sc_instance source) t) targets) = 1"
    (is "?v \<longleftrightarrow> ?one \<or> ?many \<and> ?exact")
    and "viable_set (resolve_detected source (map (resolve_candidate rx r source) targets) ts) \<Longrightarrow>
      \<exists>t \<in> set targets. viable_target rx r source t \<and>
        resolve_detected source (map (resolve_candidate rx r source) targets) ts =
          (resolve_candidate rx r source t)\<lparr>ps_targets := ts\<rparr> \<and>
        (1 < length (filter (viable_target rx r source) targets) \<longrightarrow> exact_version_match (sc_instance source) t)"
proof -
  let ?c = "resolve_candidate rx r source"
  let ?vt = "filter (viable_target rx r source) targets"
  let ?et = "filter (\<lambda>t. viable_target rx r source t \<and> exact_version_match (sc_instance source) t) targets"
  have viable: "filter viable_set (map ?c targets) = map ?c ?vt"
    by (simp add: filter_map_comp viable_set_def viable_target_def[abs_def])
  have same: "exact_version_match s (hd (ps_targets (?c t))) = exact_version_match s t" for s t
    using resolve_candidate_target[of rx r source t] by (auto simp: exact_version_match_def)
  have exact: "filter (\<lambda>c. exact_version_match (sc_instance source) (hd (ps_targets c))) (map ?c ?vt) = map ?c ?et"
    by (simp add: filter_map_comp same conj_commute)
  have none: "\<not> viable_set (?c (hd targets))" if "?vt = []"
    using that assms by (cases targets) (auto simp: viable_set_def viable_target_def split: if_splits)
  have form: "resolve_detected source (map ?c targets) ts =
      (if length ?vt = 1 then (?c (hd ?vt))\<lparr>ps_targets := ts\<rparr>
       else if 1 < length ?vt then
         (if length ?et = 1 then (?c (hd ?et))\<lparr>ps_targets := ts\<rparr>
          else unresolved_source_plan source ts ResolutionUnknown ReasonAmbiguousTargetInstance StatusSkipped)
       else if candidates_share_outcome (map ?c targets)
       then clear_selected_target ((?c (hd targets))\<lparr>ps_targets := ts\<rparr>)
       else unresolved_source_plan source ts ResolutionUnknown ReasonAmbiguousTargetInstance StatusSkipped)"
    unfolding resolve_detected_def Let_def viable exact using assms
    by (cases ?vt; cases ?et) (auto simp: hd_map)
  have in_v: "hd ?vt \<in> set targets \<and> viable_target rx r source (hd ?vt)" if "?vt \<noteq> []"
    using that hd_in_set[OF that] by auto
  have in_e: "hd ?et \<in> set targets \<and> viable_target rx r source (hd ?et) \<and> exact_version_match (sc_instance source) (hd ?et)"
    if "?et \<noteq> []" using that hd_in_set[OF that] by auto
  consider (one) "length ?vt = 1" | (exact) "1 < length ?vt" "length ?et = 1"
    | (many) "1 < length ?vt" "length ?et \<noteq> 1" | (zero) "?vt = []"
    by (cases ?vt; cases "tl ?vt") auto
  then have "(?v \<longleftrightarrow> ?one \<or> ?many \<and> ?exact) \<and> (?v \<longrightarrow> (\<exists>t \<in> set targets. viable_target rx r source t \<and>
        resolve_detected source (map ?c targets) ts = (?c t)\<lparr>ps_targets := ts\<rparr> \<and>
        (1 < length ?vt \<longrightarrow> exact_version_match (sc_instance source) t)))"
  proof cases
    case one
    then have "?vt \<noteq> []" by auto
    then show ?thesis using one in_v form by (auto simp: viable_set_def viable_target_def)
  next
    case exact
    then have "?et \<noteq> []" by auto
    then show ?thesis using exact in_e form by (auto simp: viable_set_def viable_target_def)
  next
    case many
    then show ?thesis using form by simp
  next
    case zero
    then show ?thesis using form clear_not_viable[of "(?c (hd targets))\<lparr>ps_targets := ts\<rparr>"] none by simp
  qed
  then show "?v \<longleftrightarrow> ?one \<or> ?many \<and> ?exact"
    "?v \<Longrightarrow> \<exists>t \<in> set targets. viable_target rx r source t \<and>
        resolve_detected source (map ?c targets) ts = (?c t)\<lparr>ps_targets := ts\<rparr> \<and>
        (1 < length ?vt \<longrightarrow> exact_version_match (sc_instance source) t)" by blast+
qed

text \<open>
  Property C28: without an explicit mapping a target is chosen exactly when one
  target alone is viable, or several are and one alone has the captured version; the
  chosen target is viable, and it has the captured version whenever there was a
  choice.
\<close>

theorem no_silent_choice:
  assumes "targets \<noteq> []" and "mappings (sc_captureID source) = None"
  shows "(viable_set (resolve_source_targets rx r source targets mappings) \<longleftrightarrow>
      length (filter (viable_target rx r source) targets) = 1 \<or>
      1 < length (filter (viable_target rx r source) targets) \<and>
      length (filter (\<lambda>t. viable_target rx r source t \<and> exact_version_match (sc_instance source) t) targets) = 1) \<and>
    (viable_set (resolve_source_targets rx r source targets mappings) \<longrightarrow>
      (\<exists>t \<in> set targets. viable_target rx r source t \<and>
        cr_targetInstanceID (ps_resolution (resolve_source_targets rx r source targets mappings)) = ti_id t \<and>
        (1 < length (filter (viable_target rx r source) targets) \<longrightarrow> exact_version_match (sc_instance source) t)))"
proof -
  let ?ts = "map2 candidate_target (map (resolve_candidate rx r source) targets) targets"
  have eq: "resolve_source_targets rx r source targets mappings =
      resolve_detected source (map (resolve_candidate rx r source) targets) ?ts"
    using assms by (simp add: resolve_source_targets_def Let_def)
  have chosen: "cr_targetInstanceID (ps_resolution ((resolve_candidate rx r source t)\<lparr>ps_targets := ts\<rparr>)) = ti_id t" for t ts
    using resolve_candidate_target[of rx r source t] by auto
  have "\<exists>t \<in> set targets. viable_target rx r source t \<and>
      cr_targetInstanceID (ps_resolution (resolve_source_targets rx r source targets mappings)) = ti_id t \<and>
      (1 < length (filter (viable_target rx r source) targets) \<longrightarrow> exact_version_match (sc_instance source) t)"
    if v: "viable_set (resolve_source_targets rx r source targets mappings)"
  proof -
    obtain t where t: "t \<in> set targets" "viable_target rx r source t"
        "resolve_source_targets rx r source targets mappings = (resolve_candidate rx r source t)\<lparr>ps_targets := ?ts\<rparr>"
        "1 < length (filter (viable_target rx r source) targets) \<longrightarrow> exact_version_match (sc_instance source) t"
      using resolve_detected_viable(2)[OF assms(1) v[unfolded eq]] unfolding eq by blast
    have "cr_targetInstanceID (ps_resolution (resolve_source_targets rx r source targets mappings)) = ti_id t"
      unfolding t(3) by (rule chosen)
    then show ?thesis using t(1,2,4) by blast
  qed
  then show ?thesis unfolding eq resolve_detected_viable(1)[OF assms(1)] by blast
qed

lemma find_map: "List.find P (map f xs) = map_option f (List.find (\<lambda>x. P (f x)) xs)"
  by (induction xs) auto

lemma zip_candidates:
  "zip (map f ts) (map2 g (map f ts) ts) = map (\<lambda>t. (f t, g (f t) t)) ts"
  by (induction ts) auto

lemma candidate_target_id: "ti_id (candidate_target (resolve_candidate rx r source t) t) = ti_id t"
  using resolve_candidate_target[of rx r source t] by (auto simp: candidate_target_def)

text \<open>
  With an explicit mapping the result is about the mapped target only,
  whatever other targets were detected, and it is viable exactly when that target is
  detected and viable.
\<close>

theorem explicit_mapping_is_honoured:
  assumes "mappings (sc_captureID source) = Some mappedID"
  shows "cr_targetInstanceID (ps_resolution (resolve_source_targets rx r source targets mappings)) = mappedID \<and>
     (viable_set (resolve_source_targets rx r source targets mappings) \<longleftrightarrow>
       (\<exists>t. List.find (\<lambda>t. ti_id t = mappedID) targets = Some t \<and> viable_target rx r source t))"
proof -
  let ?c = "resolve_candidate rx r source"
  let ?ts = "map2 candidate_target (map ?c targets) targets"
  have eq: "resolve_source_targets rx r source targets mappings = resolve_mapped source (map ?c targets) ?ts mappedID"
    using assms by (simp add: resolve_source_targets_def Let_def)
  have find: "List.find (\<lambda>(c, t). ti_id t = mappedID) (zip (map ?c targets) ?ts) =
      map_option (\<lambda>t. (?c t, candidate_target (?c t) t)) (List.find (\<lambda>t. ti_id t = mappedID) targets)"
    unfolding zip_candidates find_map by (simp add: candidate_target_id)
  show ?thesis
  proof (cases "List.find (\<lambda>t. ti_id t = mappedID) targets")
    case None
    then show ?thesis
      unfolding eq resolve_mapped_def find
      by (simp add: Let_def viable_set_def is_viable_compatibility_def unresolved_source_plan_def)
  next
    case (Some t)
    have t: "ti_id t = mappedID" using find_Some_in[OF Some] by simp
    have rid: "cr_targetInstanceID (ps_resolution (?c t)) = mappedID"
      using resolve_candidate_target[of rx r source t] t by auto
    show ?thesis
      unfolding eq resolve_mapped_def find Some
      using rid by (auto simp: Let_def viable_set_def viable_target_def is_viable_compatibility_def)
  qed
qed

section \<open>Examples\<close>

definition sample_evidence :: planner_evidence where
  "sample_evidence = \<lparr>evd_type = ''path'', evd_appID = [], evd_backend = [], evd_platform = [], evd_ref = [], evd_driver = []\<rparr>"

definition sample_source :: source_capture where
  "sample_source = \<lparr>sc_captureID = ''c1'', sc_moduleID = ''apps.editor'', sc_configSetID = ''settings'',
     sc_instance = \<lparr>si_id = ''old'', si_detectorID = ''path'', si_rawVersion = ''1.0'', si_normalizedVersion = ''1'',
       si_evidence = sample_evidence\<rparr>,
     sc_generation = ''v1'', sc_fingerprint = [], sc_moduleRevision = ''r0'', sc_moduleSchemaVersion = 2,
     sc_payloadIntegrityFailed = False\<rparr>"

definition sample_target :: "string \<Rightarrow> string \<Rightarrow> target_instance" where
  "sample_target i version = \<lparr>ti_id = i, ti_moduleID = ''apps.editor'', ti_detectorID = ''path'', ti_rawVersion = version,
     ti_normalizedVersion = version, ti_evidence = sample_evidence, ti_generation = [], ti_fingerprint = [],
     ti_moduleRevision = [], ti_root = ''/opt/editor''\<rparr>"

definition sample_resolver :: compatibility_resolver where
  "sample_resolver = \<lparr>rs_modules = (\<lambda>mid. if mid = ''apps.editor'' then Some
       \<lparr>pin_schemaVersion = 2, pin_revision = ''r1'',
        pin_sets = (\<lambda>sid. if sid = ''settings'' then Some editor_set else None),
        pin_detectors = [], pin_processPatterns = []\<rparr> else None), rs_rejected = {}\<rparr>"

lemma sample_viable:
  "cr_reason (ps_resolution (resolve_candidate (\<lambda>_. None) sample_resolver sample_source (sample_target ''t1'' ''1''))) = None"
  "cr_reason (ps_resolution (resolve_candidate (\<lambda>_. None) sample_resolver sample_source (sample_target ''t2'' ''3''))) = None"
  by code_simp+

lemma sample_viable_target:
  "viable_target (\<lambda>_. None) sample_resolver sample_source (sample_target ''t1'' ''1'')"
  "viable_target (\<lambda>_. None) sample_resolver sample_source (sample_target ''t2'' ''3'')"
  using sample_viable resolve_candidate_outcome(1) unfolding viable_target_def by blast+

theorem no_silent_choice_witness:
  "viable_set (resolve_source_targets (\<lambda>_. None) sample_resolver sample_source
     [sample_target ''t1'' ''1'', sample_target ''t2'' ''3''] (\<lambda>_. None)) \<and>
   cr_targetInstanceID (ps_resolution (resolve_source_targets (\<lambda>_. None) sample_resolver sample_source
     [sample_target ''t1'' ''1'', sample_target ''t2'' ''3''] (\<lambda>_. None))) = ''t1''"
proof -
  have exact: "exact_version_match (sc_instance sample_source) (sample_target ''t1'' ''1'')"
    "\<not> exact_version_match (sc_instance sample_source) (sample_target ''t2'' ''3'')"
    by (simp_all add: exact_version_match_def sample_source_def sample_target_def)
  let ?ts = "[sample_target ''t1'' ''1'', sample_target ''t2'' ''3'']"
  have vs: "filter (viable_target (\<lambda>_. None) sample_resolver sample_source) ?ts = ?ts"
    by (simp add: sample_viable_target)
  have es: "filter (\<lambda>t. viable_target (\<lambda>_. None) sample_resolver sample_source t \<and>
      exact_version_match (sc_instance sample_source) t) ?ts = [sample_target ''t1'' ''1'']"
    by (simp add: sample_viable_target exact)
  have r: "viable_set (resolve_source_targets (\<lambda>_. None) sample_resolver sample_source ?ts (\<lambda>_. None)) \<and>
      (\<exists>t \<in> set ?ts. cr_targetInstanceID (ps_resolution (resolve_source_targets (\<lambda>_. None) sample_resolver sample_source
          ?ts (\<lambda>_. None))) = ti_id t \<and> exact_version_match (sc_instance sample_source) t)"
    using no_silent_choice[of ?ts "\<lambda>_. None" sample_source "\<lambda>_. None" sample_resolver] unfolding vs es by auto
  then show ?thesis using exact by (auto simp: sample_target_def)
qed

theorem explicit_mapping_witness:
  "cr_targetInstanceID (ps_resolution (resolve_source_targets (\<lambda>_. None) sample_resolver sample_source
     [sample_target ''t1'' ''1'', sample_target ''t2'' ''3''] (\<lambda>_. Some ''t2''))) = ''t2''"
  using explicit_mapping_is_honoured[of "\<lambda>_. Some ''t2''" sample_source "''t2''"] by blast

end
