(* ===== verification/Collision.thy ===== *)
theory Collision
  imports Selection
begin

text \<open>
  \<open>internal/planner/config_collision.go\<close>: the concrete targets of every selected set
  and the refusal of sets whose targets overlap or that compete for one instance.
\<close>

section \<open>Claims of one set\<close>

record resolved_claim =
  rc_planIndex :: nat
  rc_claim :: target_claim
  rc_display :: string

definition planned_instance :: "target_instance \<Rightarrow> config_instance" where
  "planned_instance t =
     \<lparr>ci_id = ti_id t, ci_moduleID = ti_moduleID t, ci_detectorID = ti_detectorID t, ci_root = ti_root t,
      ci_version = target_version_evidence t,
      ci_evidence = \<lparr>ie_type = evd_type (ti_evidence t), ie_appID = evd_appID (ti_evidence t),
        ie_backend = evd_backend (ti_evidence t), ie_platform = evd_platform (ti_evidence t),
        ie_ref = evd_ref (ti_evidence t), ie_driver = evd_driver (ti_evidence t), ie_path = []\<rparr>,
      ci_locator = []\<rparr>"

definition resolve_restore_target ::
    "discovery_host \<Rightarrow> (string \<Rightarrow> string) \<Rightarrow> restore_def \<Rightarrow> config_instance \<Rightarrow> nat \<Rightarrow> resolved_claim option" where
  "resolve_restore_target h ul restore i planIndex =
     (if rd_type restore \<in> set [''copy'', ''merge-json'', ''merge-ini'', ''append'', ''delete-glob''] then
        (case expand_instance_path h (rd_target restore) i HostPath of
           Inl _ \<Rightarrow> None
         | Inr target \<Rightarrow>
             Some \<lparr>rc_planIndex = planIndex,
               rc_claim = \<lparr>tc_kind = FilesystemTarget, tc_canonical = canonical_filesystem ul target\<rparr>,
               rc_display = target\<rparr>)
      else if rd_type restore = ''registry-set'' then
        (case expand_instance_template (rd_key restore) i of
           Inl _ \<Rightarrow> None
         | Inr key \<Rightarrow>
             (case expand_instance_template (rd_valueName restore) i of
                Inl _ \<Rightarrow> None
              | Inr valueName \<Rightarrow>
                  Some \<lparr>rc_planIndex = planIndex,
                    rc_claim = \<lparr>tc_kind = RegistryTarget, tc_canonical = canonical_registry ul key valueName\<rparr>,
                    rc_display = trim_right_cut [BSLASH, CHR ''/''] key @ [BSLASH] @ valueName\<rparr>))
      else None)"

definition selected_target_instance :: "plan_set \<Rightarrow> target_instance option" where
  "selected_target_instance p =
     List.find (\<lambda>t. ti_id t = cr_targetInstanceID (ps_resolution p)) (ps_targets p)"

definition stable_target_display_less :: "(string \<Rightarrow> string) \<Rightarrow> string \<Rightarrow> string \<Rightarrow> bool" where
  "stable_target_display_less ul l r =
     (if to_lower ul l \<noteq> to_lower ul r then to_lower ul l < to_lower ul r else l < r)"

interpretation display_order: slice_less "stable_target_display_less ul" for ul
  by (rule slice_less_lex[where key = "\<lambda>s. [to_lower ul s, s]"]) (simp_all add: stable_target_display_less_def)

text \<open>The map from identities to the display shown for them, as an association list.\<close>

definition add_display ::
    "(string \<Rightarrow> string) \<Rightarrow> (target_claim \<times> string) list \<Rightarrow> resolved_claim \<Rightarrow> (target_claim \<times> string) list" where
  "add_display ul displays c =
     (case map_of displays (rc_claim c) of
        Some current \<Rightarrow>
          if stable_target_display_less ul (rc_display c) current
          then AList.update (rc_claim c) (rc_display c) displays else displays
      | None \<Rightarrow> AList.update (rc_claim c) (rc_display c) displays)"

definition sorted_resolved_target_displays :: "(string \<Rightarrow> string) \<Rightarrow> (target_claim \<times> string) list \<Rightarrow> string list" where
  "sorted_resolved_target_displays ul displays = sort_by (stable_target_display_less ul) (map snd displays)"

fun resolve_restores ::
    "discovery_host \<Rightarrow> (string \<Rightarrow> string) \<Rightarrow> config_instance \<Rightarrow> nat \<Rightarrow> restore_def list \<Rightarrow> resolved_claim list option" where
  "resolve_restores h ul i planIndex [] = Some []"
| "resolve_restores h ul i planIndex (r # rs) =
     (case resolve_restore_target h ul r i planIndex of
        None \<Rightarrow> None
      | Some c \<Rightarrow> map_option (Cons c) (resolve_restores h ul i planIndex rs))"

definition with_targets :: "plan_set \<Rightarrow> string list \<Rightarrow> plan_set" where
  "with_targets p ts = p\<lparr>ps_resolution := (ps_resolution p)\<lparr>cr_resolvedTargets := ts\<rparr>\<rparr>"

text \<open>The set with its resolved targets, and its claims when they are safe.\<close>

definition resolve_plan_set_targets ::
    "discovery_host \<Rightarrow> (string \<Rightarrow> string) \<Rightarrow> plan_set \<Rightarrow> nat \<Rightarrow> plan_set \<times> resolved_claim list option" where
  "resolve_plan_set_targets h ul p planIndex =
     (case (selected_target_instance p, ps_targetDef p) of
        (Some target, Some g) \<Rightarrow>
          (case resolve_restores h ul (planned_instance target) planIndex (gen_restore g) of
             None \<Rightarrow> (with_targets p [], None)
           | Some claims \<Rightarrow>
               (with_targets p (sorted_resolved_target_displays ul (foldl (add_display ul) [] claims)), Some claims))
      | _ \<Rightarrow> (with_targets p [], None))"

section \<open>The whole plan\<close>

definition mark_target_collision :: "plan_set \<Rightarrow> plan_set" where
  "mark_target_collision p =
     p\<lparr>ps_resolution := (ps_resolution p)\<lparr>cr_reason := Some ReasonTargetCollision, cr_status := StatusFailed\<rparr>\<rparr>"

definition pending_set :: "plan_set \<Rightarrow> bool" where
  "pending_set p \<longleftrightarrow> viable_set p \<and> cr_status (ps_resolution p) = StatusNone"

text \<open>The first loop: sets, indices of the selected sets, and all claims.\<close>

fun collect_claims ::
    "discovery_host \<Rightarrow> (string \<Rightarrow> string) \<Rightarrow> nat \<Rightarrow> plan_set list \<Rightarrow> plan_set list \<times> nat list \<times> resolved_claim list" where
  "collect_claims h ul n [] = ([], [], [])"
| "collect_claims h ul n (p # ps) =
     (case collect_claims h ul (Suc n) ps of
        (sets, selected, claims) \<Rightarrow>
          if \<not> pending_set p then (p # sets, selected, claims)
          else (case resolve_plan_set_targets h ul p n of
              (q, None) \<Rightarrow> (mark_target_collision q # sets, selected, claims)
            | (q, Some cs) \<Rightarrow> (q # sets, n # selected, cs @ claims)))"

definition mark_at :: "plan_set list \<Rightarrow> nat \<Rightarrow> plan_set list" where
  "mark_at sets i = sets[i := mark_target_collision (sets ! i)]"

definition competition_key :: "plan_set \<Rightarrow> string" where
  "competition_key p =
     sc_moduleID (ps_source p) @ [NUL] @ sc_configSetID (ps_source p) @ [NUL] @ cr_targetInstanceID (ps_resolution p)"

text \<open>The owners of every key; the groups of two and more are marked.\<close>

definition competition_groups :: "plan_set list \<Rightarrow> nat list \<Rightarrow> nat list list" where
  "competition_groups sets selected =
     map (\<lambda>k. filter (\<lambda>i. competition_key (sets ! i) = k) selected)
       (remdups (map (\<lambda>i. competition_key (sets ! i)) selected))"

definition mark_target_instance_competition :: "plan_set list \<Rightarrow> nat list \<Rightarrow> plan_set list" where
  "mark_target_instance_competition sets selected =
     foldl mark_at sets (concat (filter (\<lambda>g. 2 \<le> length g) (competition_groups sets selected)))"

text \<open>The pairs of claims of different sets that overlap, in the order of the nested loops.\<close>

fun overlapping_indices :: "resolved_claim list \<Rightarrow> nat list" where
  "overlapping_indices [] = []"
| "overlapping_indices (c # cs) =
     concat (map (\<lambda>d. [rc_planIndex c, rc_planIndex d])
       (filter (\<lambda>d. rc_planIndex c \<noteq> rc_planIndex d \<and> claims_overlap (rc_claim c) (rc_claim d)) cs)) @
     overlapping_indices cs"

definition resolve_plan_collisions ::
    "discovery_host \<Rightarrow> (string \<Rightarrow> string) \<Rightarrow> plan_set list \<Rightarrow> plan_set list" where
  "resolve_plan_collisions h ul sets =
     (case collect_claims h ul 0 sets of
        (collected, selected, claims) \<Rightarrow>
          foldl mark_at (mark_target_instance_competition collected selected) (overlapping_indices claims))"

section \<open>Marking\<close>

lemma foldl_mark_length [simp]: "length (foldl mark_at sets is) = length sets"
  by (induction "is" arbitrary: sets) (simp_all add: mark_at_def)

lemma mark_idem [simp]: "mark_target_collision (mark_target_collision p) = mark_target_collision p"
  by (simp add: mark_target_collision_def)

lemma foldl_mark_nth:
  "i < length sets \<Longrightarrow>
     foldl mark_at sets is ! i = (if i \<in> set is then mark_target_collision (sets ! i) else sets ! i)"
proof (induction "is" arbitrary: sets)
  case (Cons j "is")
  have "foldl mark_at sets (j # is) ! i = foldl mark_at (mark_at sets j) is ! i" by simp
  also have "\<dots> = (if i \<in> set is then mark_target_collision (mark_at sets j ! i) else mark_at sets j ! i)"
    by (rule Cons.IH) (use Cons.prems in \<open>simp add: mark_at_def\<close>)
  also have "\<dots> = (if i \<in> set (j # is) then mark_target_collision (sets ! i) else sets ! i)"
    using Cons.prems by (cases "i = j") (auto simp: mark_at_def)
  finally show ?case .
qed simp

lemma length_collected: "collect_claims h ul n ps = (sets, selected, claims) \<Longrightarrow> length sets = length ps"
  by (induction h ul n ps arbitrary: sets selected claims rule: collect_claims.induct)
    (auto split: prod.splits if_splits option.splits)

definition claims_of :: "discovery_host \<Rightarrow> (string \<Rightarrow> string) \<Rightarrow> plan_set \<Rightarrow> nat \<Rightarrow> resolved_claim list option" where
  "claims_of h ul p n = snd (resolve_plan_set_targets h ul p n)"

text \<open>The set as the first loop leaves it, whether it is selected, and its claims.\<close>

definition collected_set :: "discovery_host \<Rightarrow> (string \<Rightarrow> string) \<Rightarrow> plan_set \<Rightarrow> nat \<Rightarrow> plan_set" where
  "collected_set h ul p n =
     (if \<not> pending_set p then p
      else if claims_of h ul p n = None then mark_target_collision (fst (resolve_plan_set_targets h ul p n))
      else fst (resolve_plan_set_targets h ul p n))"

definition selected_at :: "discovery_host \<Rightarrow> (string \<Rightarrow> string) \<Rightarrow> plan_set \<Rightarrow> nat \<Rightarrow> bool" where
  "selected_at h ul p n \<longleftrightarrow> pending_set p \<and> claims_of h ul p n \<noteq> None"

lemma collect_claims_facts:
  "collect_claims h ul n ps = (sets, selected, claims) \<Longrightarrow>
     (\<forall>i < length ps. sets ! i = collected_set h ul (ps ! i) (n + i)) \<and>
     set selected = {n + i | i. i < length ps \<and> selected_at h ul (ps ! i) (n + i)} \<and> distinct selected \<and>
     set claims = (\<Union>i \<in> {i. i < length ps \<and> pending_set (ps ! i)}.
        case claims_of h ul (ps ! i) (n + i) of None \<Rightarrow> {} | Some cs \<Rightarrow> set cs)"
proof (induction ps arbitrary: n sets selected claims)
  case (Cons p ps)
  obtain sets' selected' claims' where rec: "collect_claims h ul (Suc n) ps = (sets', selected', claims')"
    by (cases "collect_claims h ul (Suc n) ps") auto
  note IH = Cons.IH[OF rec]
  have nth: "i < length (p # ps) \<longleftrightarrow> i = 0 \<or> (\<exists>j < length ps. i = Suc j)" for i by (cases i) auto
  have sel': "set selected' = {Suc n + i | i. i < length ps \<and> selected_at h ul (ps ! i) (Suc n + i)}"
    using IH by blast
  have cl': "set claims' = (\<Union>i \<in> {i. i < length ps \<and> pending_set (ps ! i)}.
        case claims_of h ul (ps ! i) (Suc n + i) of None \<Rightarrow> {} | Some cs \<Rightarrow> set cs)" using IH by blast
  have head: "sets = collected_set h ul p n # sets' \<and>
      selected = (if selected_at h ul p n then n # selected' else selected') \<and>
      claims = (if pending_set p then (case claims_of h ul p n of None \<Rightarrow> [] | Some cs \<Rightarrow> cs) else []) @ claims'"
    using Cons.prems rec
    by (auto simp: collected_set_def selected_at_def claims_of_def split: if_splits option.splits prod.splits)
  have selset: "{n + i | i. i < length (p # ps) \<and> selected_at h ul ((p # ps) ! i) (n + i)} =
      (if selected_at h ul p n then {n} else {}) \<union> set selected'"
  proof -
    have "{n + i | i. i < length (p # ps) \<and> selected_at h ul ((p # ps) ! i) (n + i)} =
        (\<lambda>i. n + i) ` {i. i < length (p # ps) \<and> selected_at h ul ((p # ps) ! i) (n + i)}" by blast
    also have "{i. i < length (p # ps) \<and> selected_at h ul ((p # ps) ! i) (n + i)} =
        (if selected_at h ul p n then {0} else {}) \<union> Suc ` {i. i < length ps \<and> selected_at h ul (ps ! i) (Suc n + i)}"
      unfolding nth by auto
    also have "(\<lambda>i. n + i) ` \<dots> = (if selected_at h ul p n then {n} else {}) \<union>
        (\<lambda>i. Suc n + i) ` {i. i < length ps \<and> selected_at h ul (ps ! i) (Suc n + i)}"
      by (simp add: image_Un image_image)
    finally show ?thesis unfolding sel' by blast
  qed
  have claimset: "(\<Union>i \<in> {i. i < length (p # ps) \<and> pending_set ((p # ps) ! i)}.
        case claims_of h ul ((p # ps) ! i) (n + i) of None \<Rightarrow> {} | Some cs \<Rightarrow> set cs) =
      (if pending_set p then (case claims_of h ul p n of None \<Rightarrow> {} | Some cs \<Rightarrow> set cs) else {}) \<union> set claims'"
  proof -
    have "{i. i < length (p # ps) \<and> pending_set ((p # ps) ! i)} =
        (if pending_set p then {0} else {}) \<union> Suc ` {i. i < length ps \<and> pending_set (ps ! i)}"
      unfolding nth by auto
    then show ?thesis unfolding cl' by simp
  qed
  have "n \<notin> set selected'" unfolding sel' by auto
  then have d: "distinct selected" using head IH by simp
  have sl: "set selected = (if selected_at h ul p n then {n} else {}) \<union> set selected'" using head by auto
  have cl: "set claims = (if pending_set p then (case claims_of h ul p n of None \<Rightarrow> {} | Some cs \<Rightarrow> set cs) else {}) \<union> set claims'"
  proof -
    have "claims = (if pending_set p then (case claims_of h ul p n of None \<Rightarrow> [] | Some cs \<Rightarrow> cs) else []) @ claims'"
      using head by blast
    then show ?thesis
      by (cases "pending_set p"; cases "claims_of h ul p n")
        (simp_all only: if_True if_False option.case append_Nil set_append list.set(1) Un_empty_left)
  qed
  have st: "\<forall>i < length (p # ps). sets ! i = collected_set h ul ((p # ps) ! i) (n + i)"
  proof (intro allI impI)
    fix i assume "i < length (p # ps)"
    then show "sets ! i = collected_set h ul ((p # ps) ! i) (n + i)" using head IH by (cases i) auto
  qed
  show ?case unfolding selset claimset by (intro conjI) (rule st sl d cl)+
qed simp

text \<open>Every claim of a set carries the index of the set.\<close>

lemma resolve_restore_target_index:
  "resolve_restore_target h ul r i n = Some c \<Longrightarrow> rc_planIndex c = n"
  by (auto simp: resolve_restore_target_def split: if_splits sum.splits)

lemma resolve_restores_index:
  "resolve_restores h ul i n rs = Some cs \<Longrightarrow> c \<in> set cs \<Longrightarrow> rc_planIndex c = n"
proof (induction rs arbitrary: cs)
  case (Cons r rs)
  then obtain d ds where d: "resolve_restore_target h ul r i n = Some d"
    and ds: "resolve_restores h ul i n rs = Some ds" and cs: "cs = d # ds"
    by (auto split: option.splits)
  show ?case using Cons.IH[OF ds] Cons.prems(2) resolve_restore_target_index[OF d] unfolding cs by auto
qed simp

lemma claims_of_index: "claims_of h ul p n = Some cs \<Longrightarrow> c \<in> set cs \<Longrightarrow> rc_planIndex c = n"
  unfolding claims_of_def resolve_plan_set_targets_def
  by (auto split: option.splits dest: resolve_restores_index)

lemma set_overlapping_indices:
  "i \<in> set (overlapping_indices cs) \<longleftrightarrow>
     (\<exists>c \<in> set cs. \<exists>d \<in> set cs. rc_planIndex c = i \<and> rc_planIndex d \<noteq> i \<and> claims_overlap (rc_claim c) (rc_claim d))"
proof (induction cs)
  case (Cons c cs)
  have "i \<in> set (overlapping_indices (c # cs)) \<longleftrightarrow>
      (\<exists>d \<in> set cs. rc_planIndex c \<noteq> rc_planIndex d \<and> claims_overlap (rc_claim c) (rc_claim d) \<and>
         (i = rc_planIndex c \<or> i = rc_planIndex d)) \<or> i \<in> set (overlapping_indices cs)"
    by auto
  then show ?case unfolding Cons.IH using claims_overlap_sym by (auto 4 3)
qed simp

lemma set_competition_groups:
  assumes "distinct selected"
  shows "i \<in> set (concat (filter (\<lambda>g. 2 \<le> length g) (competition_groups sets selected))) \<longleftrightarrow>
     i \<in> set selected \<and> (\<exists>j \<in> set selected. j \<noteq> i \<and> competition_key (sets ! j) = competition_key (sets ! i))"
proof -
  define grp where "grp k = filter (\<lambda>i. competition_key (sets ! i) = k) selected" for k
  have two: "2 \<le> length (grp (competition_key (sets ! i))) \<longleftrightarrow>
      (\<exists>j \<in> set selected. j \<noteq> i \<and> competition_key (sets ! j) = competition_key (sets ! i))" if "i \<in> set selected"
  proof -
    have d: "distinct (grp (competition_key (sets ! i)))" using assms by (simp add: grp_def)
    have m: "i \<in> set (grp (competition_key (sets ! i)))" using \<open>i \<in> set selected\<close> by (simp add: grp_def)
    have "2 \<le> length (grp (competition_key (sets ! i))) \<longleftrightarrow> 2 \<le> card (set (grp (competition_key (sets ! i))))"
      using distinct_card[OF d] by simp
    also have "\<dots> \<longleftrightarrow> 1 \<le> card (set (grp (competition_key (sets ! i))) - {i})"
      using card_Diff_singleton[OF m] by auto
    also have "\<dots> \<longleftrightarrow> set (grp (competition_key (sets ! i))) - {i} \<noteq> {}"
      by (metis One_nat_def card_gt_0_iff finite_Diff List.finite_set less_eq_Suc_le)
    also have "\<dots> \<longleftrightarrow> (\<exists>j \<in> set selected. j \<noteq> i \<and> competition_key (sets ! j) = competition_key (sets ! i))"
      by (auto simp: grp_def)
    finally show ?thesis .
  qed
  have "i \<in> set (concat (filter (\<lambda>g. 2 \<le> length g) (competition_groups sets selected))) \<longleftrightarrow>
      (\<exists>a \<in> set selected. 2 \<le> length (grp (competition_key (sets ! a))) \<and> i \<in> set (grp (competition_key (sets ! a))))"
    by (auto simp: competition_groups_def grp_def)
  also have "\<dots> \<longleftrightarrow> i \<in> set selected \<and> 2 \<le> length (grp (competition_key (sets ! i)))"
  proof
    assume "\<exists>a \<in> set selected. 2 \<le> length (grp (competition_key (sets ! a))) \<and> i \<in> set (grp (competition_key (sets ! a)))"
    then obtain a where "2 \<le> length (grp (competition_key (sets ! a)))" "i \<in> set (grp (competition_key (sets ! a)))" by blast
    moreover from this(2) have "i \<in> set selected" "competition_key (sets ! i) = competition_key (sets ! a)"
      by (auto simp: grp_def)
    ultimately show "i \<in> set selected \<and> 2 \<le> length (grp (competition_key (sets ! i)))" by simp
  next
    assume a: "i \<in> set selected \<and> 2 \<le> length (grp (competition_key (sets ! i)))"
    then have "i \<in> set (grp (competition_key (sets ! i)))" by (simp add: grp_def)
    with a show "\<exists>a \<in> set selected. 2 \<le> length (grp (competition_key (sets ! a))) \<and> i \<in> set (grp (competition_key (sets ! a)))"
      by blast
  qed
  finally show ?thesis using two by blast
qed

section \<open>Which sets collide\<close>

text \<open>
  Two selected sets clash when they restore the same set of the same module into one target
  instance, or when one of them would write where the other writes.
\<close>

definition sets_clash :: "discovery_host \<Rightarrow> (string \<Rightarrow> string) \<Rightarrow> plan_set list \<Rightarrow> nat \<Rightarrow> nat \<Rightarrow> bool" where
  "sets_clash h ul ps i j \<longleftrightarrow>
     selected_at h ul (ps ! i) i \<and> selected_at h ul (ps ! j) j \<and>
     (competition_key (ps ! i) = competition_key (ps ! j) \<or>
      (\<exists>c \<in> set (the (claims_of h ul (ps ! i) i)). \<exists>d \<in> set (the (claims_of h ul (ps ! j) j)).
         claims_overlap (rc_claim c) (rc_claim d)))"

definition clashes :: "discovery_host \<Rightarrow> (string \<Rightarrow> string) \<Rightarrow> plan_set list \<Rightarrow> nat \<Rightarrow> bool" where
  "clashes h ul ps i \<longleftrightarrow> (\<exists>j < length ps. j \<noteq> i \<and> sets_clash h ul ps i j)"

lemma competition_key_resolved: "competition_key (fst (resolve_plan_set_targets h ul p n)) = competition_key p"
  by (simp add: resolve_plan_set_targets_def competition_key_def with_targets_def split: option.splits)

lemma competition_key_collected: "selected_at h ul p n \<Longrightarrow> competition_key (collected_set h ul p n) = competition_key p"
  by (auto simp: selected_at_def collected_set_def competition_key_resolved)

lemma resolve_plan_collisions_length: "length (resolve_plan_collisions h ul ps) = length ps"
  using length_collected[of h ul 0 ps]
  by (simp add: resolve_plan_collisions_def mark_target_instance_competition_def split: prod.splits)

lemma resolve_plan_collisions_nth:
  assumes i: "i < length ps"
  shows "resolve_plan_collisions h ul ps ! i =
     (if clashes h ul ps i
      then mark_target_collision (collected_set h ul (ps ! i) i) else collected_set h ul (ps ! i) i)"
proof -
  obtain sets selected claims where col: "collect_claims h ul 0 ps = (sets, selected, claims)"
    by (cases "collect_claims h ul 0 ps") auto
  note facts = collect_claims_facts[OF col, simplified]
  have nth: "\<And>i. i < length ps \<Longrightarrow> sets ! i = collected_set h ul (ps ! i) i"
    and sel: "\<And>i. i \<in> set selected \<longleftrightarrow> i < length ps \<and> selected_at h ul (ps ! i) i" and dist: "distinct selected"
    and cls: "set claims = (\<Union>i \<in> {i. i < length ps \<and> pending_set (ps ! i)}.
        case claims_of h ul (ps ! i) i of None \<Rightarrow> {} | Some cs \<Rightarrow> set cs)"
    using facts by auto
  have in_claims: "c \<in> set claims \<longleftrightarrow>
      (\<exists>j < length ps. selected_at h ul (ps ! j) j \<and> c \<in> set (the (claims_of h ul (ps ! j) j)))" for c
    unfolding cls selected_at_def by (auto split: option.splits)
  have idx: "rc_planIndex c = j" if "selected_at h ul (ps ! j) j" "c \<in> set (the (claims_of h ul (ps ! j) j))" for c j
    using that claims_of_index by (auto simp: selected_at_def)
  have over: "i \<in> set (overlapping_indices claims) \<longleftrightarrow>
      (\<exists>j < length ps. j \<noteq> i \<and> selected_at h ul (ps ! i) i \<and> selected_at h ul (ps ! j) j \<and>
         (\<exists>c \<in> set (the (claims_of h ul (ps ! i) i)). \<exists>d \<in> set (the (claims_of h ul (ps ! j) j)).
            claims_overlap (rc_claim c) (rc_claim d)))" (is "?l \<longleftrightarrow> ?r")
  proof
    assume ?l
    then obtain c d where c: "c \<in> set claims" and d: "d \<in> set claims" and ci: "rc_planIndex c = i"
      and di: "rc_planIndex d \<noteq> i" and o: "claims_overlap (rc_claim c) (rc_claim d)"
      unfolding set_overlapping_indices by blast
    obtain a where "a < length ps" "selected_at h ul (ps ! a) a" "c \<in> set (the (claims_of h ul (ps ! a) a))"
      using c in_claims by blast
    moreover obtain b where "b < length ps" "selected_at h ul (ps ! b) b" "d \<in> set (the (claims_of h ul (ps ! b) b))"
      using d in_claims by blast
    ultimately show ?r using idx ci di o by metis
  next
    assume ?r
    then show ?l unfolding set_overlapping_indices using i in_claims idx by metis
  qed
  have comp: "i \<in> set (concat (filter (\<lambda>g. 2 \<le> length g) (competition_groups sets selected))) \<longleftrightarrow>
      (\<exists>j < length ps. j \<noteq> i \<and> selected_at h ul (ps ! i) i \<and> selected_at h ul (ps ! j) j \<and>
         competition_key (ps ! i) = competition_key (ps ! j))"
    unfolding set_competition_groups[OF dist] Bex_def sel
    using i by (metis nth competition_key_collected)
  have len: "length sets = length ps" by (rule length_collected[OF col])
  have "resolve_plan_collisions h ul ps ! i =
      (if i \<in> set (overlapping_indices claims) \<or>
          i \<in> set (concat (filter (\<lambda>g. 2 \<le> length g) (competition_groups sets selected)))
       then mark_target_collision (sets ! i) else sets ! i)"
    using i len
    by (simp add: resolve_plan_collisions_def col mark_target_instance_competition_def foldl_mark_nth del: set_concat set_filter)
  moreover have "(i \<in> set (overlapping_indices claims) \<or>
          i \<in> set (concat (filter (\<lambda>g. 2 \<le> length g) (competition_groups sets selected)))) \<longleftrightarrow>
      clashes h ul ps i"
    unfolding over comp clashes_def sets_clash_def by blast
  ultimately show ?thesis unfolding nth[OF i] by (simp only:)
qed

lemma pending_resolved: "pending_set (fst (resolve_plan_set_targets h ul p n)) \<longleftrightarrow> pending_set p"
  by (simp add: resolve_plan_set_targets_def with_targets_def pending_set_def viable_set_def
      is_viable_compatibility_def split: option.splits)

lemma pending_mark [simp]: "\<not> pending_set (mark_target_collision p)"
  by (simp add: pending_set_def mark_target_collision_def)

lemma still_pending:
  assumes "i < length ps" and "pending_set (resolve_plan_collisions h ul ps ! i)"
  shows "selected_at h ul (ps ! i) i \<and> resolve_plan_collisions h ul ps ! i = fst (resolve_plan_set_targets h ul (ps ! i) i) \<and>
     (\<forall>j < length ps. j \<noteq> i \<longrightarrow> \<not> sets_clash h ul ps i j)"
proof -
  note nth = resolve_plan_collisions_nth[OF assms(1), of h ul]
  have no: "\<not> clashes h ul ps i"
  proof
    assume "clashes h ul ps i"
    then show False using assms(2) nth by simp
  qed
  then have eq: "resolve_plan_collisions h ul ps ! i = collected_set h ul (ps ! i) i" using nth by simp
  have p: "pending_set (ps ! i)" using assms(2) unfolding eq collected_set_def by (simp split: if_splits)
  have c: "claims_of h ul (ps ! i) i \<noteq> None" using assms(2) p unfolding eq collected_set_def by (simp split: if_splits)
  show ?thesis using no p c by (auto simp: eq collected_set_def selected_at_def clashes_def)
qed

text \<open>
  Property C30. The plan pass leaves a set that is not pending alone; it fails a pending set
  with reason \<open>target_collision\<close> exactly when its targets cannot be resolved or it clashes with
  another selected set; and every other set keeps its outcome and gains its resolved targets.
\<close>

theorem plan_collisions_correct:
  assumes "i < length ps"
  shows "resolve_plan_collisions h ul ps ! i =
     (if \<not> pending_set (ps ! i) then ps ! i
      else if claims_of h ul (ps ! i) i = None \<or> clashes h ul ps i
      then mark_target_collision (fst (resolve_plan_set_targets h ul (ps ! i) i))
      else fst (resolve_plan_set_targets h ul (ps ! i) i))"
proof (cases "pending_set (ps ! i) \<and> claims_of h ul (ps ! i) i \<noteq> None")
  case True
  then show ?thesis unfolding resolve_plan_collisions_nth[OF assms] collected_set_def by auto
next
  case False
  then have "\<not> clashes h ul ps i" by (auto simp: clashes_def sets_clash_def selected_at_def)
  then show ?thesis using False resolve_plan_collisions_nth[OF assms, of h ul] by (auto simp: collected_set_def)
qed

text \<open>
  Property C26. After the pass two sets that are still to be restored never write where the
  other writes, and never restore the same set of a module into the same instance.
\<close>

theorem remaining_sets_are_disjoint:
  assumes "i < length ps" and "j < length ps" and "i \<noteq> j"
    and "pending_set (resolve_plan_collisions h ul ps ! i)" and "pending_set (resolve_plan_collisions h ul ps ! j)"
  shows "competition_key (resolve_plan_collisions h ul ps ! i) \<noteq> competition_key (resolve_plan_collisions h ul ps ! j) \<and>
     (\<exists>cs ds. claims_of h ul (ps ! i) i = Some cs \<and> claims_of h ul (ps ! j) j = Some ds \<and>
        \<not> (\<exists>c \<in> set cs. \<exists>d \<in> set ds. claims_overlap (rc_claim c) (rc_claim d)))"
  using still_pending[OF assms(1,4)] still_pending[OF assms(2,5)] assms(2,3)
  by (auto simp: sets_clash_def selected_at_def competition_key_resolved)

section \<open>Examples\<close>

definition writing_set :: "string \<Rightarrow> string \<Rightarrow> plan_set" where
  "writing_set configSetID restoreTarget =
     (unresolved_source_plan (sample_source\<lparr>sc_configSetID := configSetID\<rparr>) [sample_target ''t1'' ''1'']
        ResolutionDirect ReasonTargetNotDetected StatusNone)
     \<lparr>ps_resolution := (ps_resolution (unresolved_source_plan (sample_source\<lparr>sc_configSetID := configSetID\<rparr>)
         [sample_target ''t1'' ''1''] ResolutionDirect ReasonTargetNotDetected StatusNone))
         \<lparr>cr_reason := None, cr_targetInstanceID := ''t1''\<rparr>,
      ps_targetDef := Some (empty_generation\<lparr>gen_restore :=
        [\<lparr>rd_type = ''copy'', rd_source = ''payload'', rd_target = restoreTarget, rd_pattern = [], rd_backup = True,
          rd_optional = False, rd_exclude = [], rd_key = [], rd_valueName = [], rd_valueType = [], rd_data = []\<rparr>]\<rparr>)\<rparr>"

definition three_sets :: "plan_set list" where
  "three_sets = [writing_set ''settings'' ''${instance.root}'', writing_set ''themes'' ''${instance.root}/themes'',
     writing_set ''logs'' ''/var/editor'']"

theorem plan_collisions_witness:
  "map (\<lambda>p. (cr_status (ps_resolution p), cr_resolvedTargets (ps_resolution p)))
     [resolve_plan_collisions sample_host id three_sets ! 0, resolve_plan_collisions sample_host id three_sets ! 1,
      resolve_plan_collisions sample_host id three_sets ! 2] =
     [(StatusFailed, [''/opt/editor'']), (StatusFailed, [''/opt/editor/themes'']), (StatusNone, [''/var/editor''])]"
proof -
  have "map (\<lambda>i. (pending_set (three_sets ! i), claims_of sample_host id (three_sets ! i) i = None,
        clashes sample_host id three_sets i)) [0, 1, 2] = [(True, False, True), (True, False, True), (True, False, False)]"
    by code_simp
  moreover have "map (\<lambda>i. cr_resolvedTargets (ps_resolution (fst (resolve_plan_set_targets sample_host id (three_sets ! i) i))))
      [0, 1, 2] = [[''/opt/editor''], [''/opt/editor/themes''], [''/var/editor'']]"
    by code_simp
  moreover have "cr_status (ps_resolution (fst (resolve_plan_set_targets sample_host id (three_sets ! 2) 2))) = StatusNone"
    by code_simp
  moreover have "length three_sets = 3" by (simp add: three_sets_def)
  ultimately show ?thesis
    using plan_collisions_correct[of 0 three_sets sample_host id] plan_collisions_correct[of 1 three_sets sample_host id]
      plan_collisions_correct[of 2 three_sets sample_host id]
    by (simp add: mark_target_collision_def)
qed

definition two_disjoint_sets :: "plan_set list" where
  "two_disjoint_sets = [writing_set ''settings'' ''${instance.root}'', writing_set ''logs'' ''/var/editor'']"

theorem remaining_sets_witness:
  "\<exists>cs ds. claims_of sample_host id (two_disjoint_sets ! 0) 0 = Some cs \<and> claims_of sample_host id (two_disjoint_sets ! 1) 1 = Some ds \<and>
     \<not> (\<exists>c \<in> set cs. \<exists>d \<in> set ds. claims_overlap (rc_claim c) (rc_claim d))"
proof -
  have "pending_set (resolve_plan_collisions sample_host id two_disjoint_sets ! 0)"
    "pending_set (resolve_plan_collisions sample_host id two_disjoint_sets ! 1)"
    by code_simp+
  then show ?thesis
    using remaining_sets_are_disjoint[of 0 two_disjoint_sets 1 sample_host id] by (simp add: two_disjoint_sets_def)
qed

end
