(* ===== verification/Projection.thy ===== *)
theory Projection
  imports Collision
begin

text \<open>
  \<open>internal/planner/config_projection.go\<close>: the portable, presentation-ready result of a plan
  set, and \<open>ResolveSources\<close> of \<open>config_selection.go\<close>, which plans a whole backup.
\<close>

section \<open>Presentation\<close>

definition has_source_facts :: "source_capture \<Rightarrow> bool" where
  "has_source_facts s \<longleftrightarrow> sc_captureID s \<noteq> [] \<or> sc_moduleID s \<noteq> [] \<or> sc_configSetID s \<noteq> [] \<or>
     si_id (sc_instance s) \<noteq> [] \<or> sc_generation s \<noteq> [] \<or> sc_fingerprint s \<noteq> [] \<or> sc_moduleRevision s \<noteq> []"

definition resolution_label :: "resolution \<Rightarrow> string" where
  "resolution_label r =
     (case r of
        ResolutionDirect \<Rightarrow> ''Compatible''
      | ResolutionMigrate \<Rightarrow> ''Will be upgraded''
      | ResolutionIncompatible \<Rightarrow> ''Not supported''
      | _ \<Rightarrow> ''Compatibility unknown'')"

definition reason_presentation :: "resolution_reason \<Rightarrow> string \<times> string option" where
  "reason_presentation r =
     (case r of
       ReasonUnknownGeneration \<Rightarrow>
         (''The target version does not match a known configuration generation.'',
          Some ''Install or select a supported target version, or update the module catalog.'')
     | ReasonAmbiguousGeneration \<Rightarrow>
         (''The target version matches more than one configuration generation.'',
          Some ''Update the module catalog so the target version matches exactly one generation.'')
     | ReasonDowngradeUnsupported \<Rightarrow>
         (''Settings cannot be restored to an older configuration generation.'',
          Some ''Choose a target with the same or a newer supported configuration generation.'')
     | ReasonMigrationPathMissing \<Rightarrow>
         (''No supported migration path exists between the source and target generations.'',
          Some ''Choose a compatible target version or add a reviewed forward migration to the module catalog.'')
     | ReasonAmbiguousTargetInstance \<Rightarrow>
         (''More than one compatible target instance was detected.'',
          Some ''Select a target instance explicitly.'')
     | ReasonTargetNotDetected \<Rightarrow>
         (''No target instance was detected for these settings.'',
          Some ''Install the application or select a detected target, then retry.'')
     | ReasonMappedTargetNotDetected \<Rightarrow>
         (''The selected target instance is no longer detected.'',
          Some ''Refresh detection and select an available target instance.'')
     | ReasonMappedTargetIncompatible \<Rightarrow>
         (''The selected target instance is not compatible with these settings.'',
          Some ''Select a compatible target instance.'')
     | ReasonTargetCollision \<Rightarrow>
         (''This config set overlaps another selected restore target.'',
          Some ''Restore only one of the colliding config sets or change the target selection.'')
     | ReasonPayloadIntegrityFailed \<Rightarrow>
         (''The captured settings payload failed integrity verification.'',
          Some ''Create a new backup or use an untampered backup.'')
     | ReasonUnsupportedModuleSchema \<Rightarrow>
         (''The current engine cannot safely interpret this module schema.'',
          Some ''Update Endstate or use a module schema supported by this engine.'')
     | ReasonCatalogModuleMissing \<Rightarrow>
         (''The current module catalog does not contain this application module.'',
          Some ''Install or update the module catalog, then retry.'')
     | ReasonConfigSetMissing \<Rightarrow>
         (''The current module no longer defines this config set.'',
          Some ''Update the module catalog or restore without this config set.'')
     | ReasonSourceGenerationUnknown \<Rightarrow>
         (''The current module does not recognize the captured configuration generation.'',
          Some ''Update the module catalog with the captured generation history.'')
     | ReasonSourceGenerationDefinitionChanged \<Rightarrow>
         (''The captured generation fingerprint is not accepted by the current module.'',
          Some ''Use a catalog that accepts this historical fingerprint or create a new backup.'')
     | ReasonAppRunning \<Rightarrow>
         (''The application must be closed before these settings can be restored.'',
          Some ''Close the application and retry.'')
     | ReasonRecoveryRequired \<Rightarrow>
         (''A previous config restore requires recovery before new changes can begin.'',
          Some ''Review the recovery failure, restore a safe state, and retry.'')
     | ReasonRestoreFiltered \<Rightarrow>
         (''This config set was excluded by the restore filter.'',
          Some ''Change the restore filter to include this module and retry.'')
     | ReasonRestoreNotEnabled \<Rightarrow>
         (''Settings restore is not enabled for this invocation.'',
          Some ''Enable settings restore and retry.'')
     | ReasonTargetDetectionFailed \<Rightarrow>
         (''Target detection failed, so compatibility could not be determined.'',
          Some ''Review the detection failure, resolve its cause, and retry.'')
     | ReasonStagingValidationFailed \<Rightarrow>
         (''The staged settings failed validation before target changes began.'',
          Some ''Review the staging validation failure, resolve its cause, and retry.'')
     | ReasonBackupFailed \<Rightarrow>
         (''Required target backups could not be created.'',
          Some ''Review the backup failure, resolve its cause, and retry.'')
     | ReasonJournalIntentFailed \<Rightarrow>
         (''The restore journal could not be written before target changes began.'',
          Some ''Review the journal storage failure, resolve its cause, and retry.'')
     | ReasonCommitFailed \<Rightarrow>
         (''The settings transaction failed while writing the target configuration.'',
          Some ''Review the target write failure, resolve its cause, and retry.'')
     | ReasonTargetValidationFailed \<Rightarrow>
         (''The restored target configuration failed validation.'',
          Some ''Review the target validation failure before retrying.'')
     | ReasonJournalCompletionFailed \<Rightarrow>
         (''The restore journal could not record transaction completion.'',
          Some ''Review the journal storage failure before retrying.'')
     | ReasonAlreadyUpToDate \<Rightarrow> (''The target already has the desired settings.'', None))"

definition resolution_presentation :: "config_resolution \<Rightarrow> string \<times> string option" where
  "resolution_presentation c =
     (case cr_reason c of
        Some reason \<Rightarrow> reason_presentation reason
      | None \<Rightarrow>
          (case cr_resolution c of
             ResolutionDirect \<Rightarrow> (''Settings are compatible with the selected target.'', None)
           | ResolutionMigrate \<Rightarrow>
               if cr_sourceGeneration c \<noteq> [] \<and> cr_targetGeneration c \<noteq> []
               then (''Settings will be upgraded from '' @ cr_sourceGeneration c @ '' to '' @ cr_targetGeneration c @
                     '' before restore.'', None)
               else (''Settings will be upgraded before restore.'', None)
           | ResolutionIncompatible \<Rightarrow>
               (''These settings cannot be restored to the selected target.'',
                Some ''Choose a compatible target version or restore without these settings.'')
           | ResolutionLegacyUnverified \<Rightarrow>
               (''These settings predate compatibility checks, so compatibility could not be verified.'',
                Some ''Review the legacy settings and enable restore only if you trust this backup.'')
           | ResolutionUnknown \<Rightarrow>
               (''Settings compatibility could not be verified.'',
                Some ''Review the compatibility details or choose another detected target.'')
           | ResolutionNone \<Rightarrow>
               (''Settings compatibility could not be verified.'',
                Some ''Review the compatibility details before restoring.'')))"

text \<open>The three steps of the projection: source facts, candidates, the erasure of legacy provenance.\<close>

definition project_source :: "source_capture \<Rightarrow> config_resolution \<Rightarrow> config_resolution" where
  "project_source s c0 =
     (let c = (if has_source_facts s
               then c0\<lparr>cr_captureID := sc_captureID s, cr_moduleID := sc_moduleID s, cr_configSetID := sc_configSetID s,
                 cr_sourceGeneration := sc_generation s, cr_sourceFingerprint := sc_fingerprint s,
                 cr_captureRevision := sc_moduleRevision s\<rparr>
               else c0) in
      if si_id (sc_instance s) \<noteq> []
      then c\<lparr>cr_sourceInstance := Some (sc_instance s), cr_sourceInstanceID := si_id (sc_instance s)\<rparr>
      else c\<lparr>cr_sourceInstance := None, cr_sourceInstanceID := []\<rparr>)"

definition erase_legacy :: "config_resolution \<Rightarrow> config_resolution" where
  "erase_legacy c =
     c\<lparr>cr_sourceInstance := None, cr_sourceInstanceID := [], cr_targetInstanceID := [], cr_targetCandidates := [],
       cr_sourceGeneration := [], cr_sourceFingerprint := [], cr_targetGeneration := [], cr_migrationPath := [],
       cr_captureRevision := [], cr_restoreRevision := []\<rparr>"

definition project_config_resolution :: "plan_set \<Rightarrow> config_resolution" where
  "project_config_resolution p =
     (let c1 = (project_source (ps_source p) (ps_resolution p))
            \<lparr>cr_targetCandidates := map (\<lambda>t. t\<lparr>ti_root := []\<rparr>) (ps_targets p)\<rparr>;
          c2 = (if cr_resolution c1 = ResolutionLegacyUnverified then erase_legacy c1 else c1);
          c3 = c2\<lparr>cr_label := resolution_label (cr_resolution c2)\<rparr> in
      c3\<lparr>cr_message := fst (resolution_presentation c3), cr_remediation := snd (resolution_presentation c3)\<rparr>)"

section \<open>The plan\<close>

text \<open>A Go map that misses a key yields the zero value, here the empty list of targets.\<close>

definition resolve_sources ::
    "discovery_host \<Rightarrow> (string \<Rightarrow> string) \<Rightarrow> regexp \<Rightarrow> compatibility_resolver \<Rightarrow> source_capture list \<Rightarrow>
     (string \<Rightarrow> target_instance list) \<Rightarrow> (string \<Rightarrow> string option) \<Rightarrow> config_plan" where
  "resolve_sources h ul rx r sources targetsByModule mappings =
     (let sets = resolve_plan_collisions h ul
            (map (\<lambda>s. resolve_source_targets rx r s (sorted_target_instances (targetsByModule (sc_moduleID s))) mappings)
              (sort_by source_capture_less sources));
          projected = map (\<lambda>p. p\<lparr>ps_resolution := project_config_resolution p\<rparr>) sets in
      \<lparr>cp_sets = projected, cp_summary = summarize_config_resolutions (map ps_resolution projected)\<rparr>)"

section \<open>What a projection shows\<close>

text \<open>The projection as one update; what the second projection reads of the first.\<close>

definition projected_facts :: "plan_set \<Rightarrow> config_resolution" where
  "projected_facts p =
     (let c = (project_source (ps_source p) (ps_resolution p))
          \<lparr>cr_targetCandidates := map (\<lambda>t. t\<lparr>ti_root := []\<rparr>) (ps_targets p)\<rparr> in
      if cr_resolution c = ResolutionLegacyUnverified then erase_legacy c else c)"

definition present :: "config_resolution \<Rightarrow> config_resolution" where
  "present c = (let c' = c\<lparr>cr_label := resolution_label (cr_resolution c)\<rparr> in
     c'\<lparr>cr_message := fst (resolution_presentation c'), cr_remediation := snd (resolution_presentation c')\<rparr>)"

lemma project_split: "project_config_resolution p = present (projected_facts p)"
  by (simp add: project_config_resolution_def present_def projected_facts_def Let_def)

lemma presentation_text [simp]:
  "resolution_presentation (c\<lparr>cr_label := a\<rparr>) = resolution_presentation c"
  "resolution_presentation (c\<lparr>cr_message := a\<rparr>) = resolution_presentation c"
  "resolution_presentation (c\<lparr>cr_remediation := b\<rparr>) = resolution_presentation c"
  by (cases "cr_reason c"; cases "cr_resolution c"; simp add: resolution_presentation_def)+

lemma present_fields:
  "present c = c\<lparr>cr_label := resolution_label (cr_resolution c), cr_message := fst (resolution_presentation c),
     cr_remediation := snd (resolution_presentation c)\<rparr>"
  by (simp add: present_def)

lemma projected_facts_again:
  "projected_facts (p\<lparr>ps_resolution := (projected_facts p)\<lparr>cr_label := a, cr_message := b, cr_remediation := d\<rparr>\<rparr>) =
     (projected_facts p)\<lparr>cr_label := a, cr_message := b, cr_remediation := d\<rparr>"
  by (cases "ps_resolution p"; cases "has_source_facts (ps_source p)"; cases "si_id (sc_instance (ps_source p)) = []";
      cases "cr_resolution (ps_resolution p) = ResolutionLegacyUnverified")
    (simp_all add: projected_facts_def project_source_def erase_legacy_def Let_def)

lemma projected_facts_fields:
  "cr_status (projected_facts p) = cr_status (ps_resolution p)" "cr_reason (projected_facts p) = cr_reason (ps_resolution p)"
  "cr_resolution (projected_facts p) = cr_resolution (ps_resolution p)"
  "cr_resolvedTargets (projected_facts p) = cr_resolvedTargets (ps_resolution p)"
  "ti_root ` set (cr_targetCandidates (projected_facts p)) \<subseteq> {[]}"
  by (auto simp: projected_facts_def project_source_def erase_legacy_def Let_def)

lemma projection_idem:
  "project_config_resolution (p\<lparr>ps_resolution := project_config_resolution p\<rparr>) = project_config_resolution p"
proof -
  let ?f = "projected_facts p"
  have "project_config_resolution (p\<lparr>ps_resolution := present ?f\<rparr>) = present (present ?f)"
    unfolding project_split present_fields[of ?f] projected_facts_again ..
  also have "\<dots> = present ?f" by (simp add: present_fields)
  finally show ?thesis unfolding project_split .
qed

lemma projection_erases_legacy:
  "cr_resolution (ps_resolution p) = ResolutionLegacyUnverified \<Longrightarrow>
     erase_legacy (project_config_resolution p) = project_config_resolution p"
  by (simp add: project_split present_fields)
    (simp add: projected_facts_def project_source_def erase_legacy_def Let_def)

text \<open>
  Projecting a plan set again changes nothing; the outcome is the one planned; no
  path of the host is shown; and a legacy result shows neither a source, a target, a generation
  nor a revision.
\<close>

theorem projection_is_portable:
  "project_config_resolution (p\<lparr>ps_resolution := project_config_resolution p\<rparr>) = project_config_resolution p \<and>
   ti_root ` set (cr_targetCandidates (project_config_resolution p)) \<subseteq> {[]} \<and>
   cr_status (project_config_resolution p) = cr_status (ps_resolution p) \<and>
   cr_reason (project_config_resolution p) = cr_reason (ps_resolution p) \<and>
   (if cr_resolution (ps_resolution p) = ResolutionLegacyUnverified
    then erase_legacy (project_config_resolution p) else project_config_resolution p) = project_config_resolution p"
proof (intro conjI)
  show "ti_root ` set (cr_targetCandidates (project_config_resolution p)) \<subseteq> {[]}"
    using projected_facts_fields(5)[of p] by (simp add: project_split present_fields)
qed (use projection_erases_legacy in \<open>simp_all add: projection_idem\<close>,
     simp_all add: project_split present_fields projected_facts_fields)

section \<open>Determinism of the plan\<close>

lemma sort_sources_permutation:
  assumes "mset sources = mset sources'" and "inj_on source_key (set sources)"
  shows "sort_by source_capture_less sources = sort_by source_capture_less sources'"
proof (rule source_order.sort_by_permutation[OF assms(1)], intro ballI impI)
  fix x y assume "x \<in> set sources" "y \<in> set sources" "\<not> source_capture_less x y" "\<not> source_capture_less y x"
  then have "source_key x = source_key y"
    by (auto simp: source_capture_less_def source_key_def split: if_splits)
  then show "x = y" using assms(2) \<open>x \<in> set sources\<close> \<open>y \<in> set sources\<close> by (simp add: inj_on_def)
qed

lemma sort_targets_permutation:
  assumes "mset targets = mset targets'" and "inj_on target_key (set targets)"
  shows "sorted_target_instances targets = sorted_target_instances targets'"
  unfolding sorted_target_instances_def
proof (rule target_order.sort_by_permutation[OF assms(1)], intro ballI impI)
  fix x y assume "x \<in> set targets" "y \<in> set targets" "\<not> target_instance_less x y" "\<not> target_instance_less y x"
  then have "target_key x = target_key y"
    by (auto simp: target_instance_less_def target_key_def split: if_splits)
  then show "x = y" using assms(2) \<open>x \<in> set targets\<close> \<open>y \<in> set targets\<close> by (simp add: inj_on_def)
qed

text \<open>
  Property C38. The plan depends neither on the order in which the sources were listed nor on
  the order in which the targets were detected, provided no two of them agree on every key of
  the comparison; and it has one set for every source.
\<close>

theorem plan_is_deterministic:
  assumes "mset sources = mset sources'" and "inj_on source_key (set sources)"
    and "\<And>m. mset (targets m) = mset (targets' m)" and "\<And>m. inj_on target_key (set (targets m))"
  shows "resolve_sources h ul rx r sources targets mappings = resolve_sources h ul rx r sources' targets' mappings \<and>
     length (cp_sets (resolve_sources h ul rx r sources targets mappings)) = length sources"
  unfolding resolve_sources_def sort_sources_permutation[OF assms(1,2)] sort_targets_permutation[OF assms(3,4)]
  using mset_eq_length[OF assms(1)] by (simp add: Let_def resolve_plan_collisions_length)

theorem plan_is_deterministic_witness:
  "resolve_sources sample_host id (\<lambda>_. None) sample_resolver [sample_source, sample_source\<lparr>sc_captureID := ''c0''\<rparr>]
     (\<lambda>_. [sample_target ''t2'' ''3'', sample_target ''t1'' ''1'']) (\<lambda>_. None) =
   resolve_sources sample_host id (\<lambda>_. None) sample_resolver [sample_source\<lparr>sc_captureID := ''c0''\<rparr>, sample_source]
     (\<lambda>_. [sample_target ''t1'' ''1'', sample_target ''t2'' ''3'']) (\<lambda>_. None)"
proof -
  have s: "inj_on source_key (set [sample_source, sample_source\<lparr>sc_captureID := ''c0''\<rparr>])"
    by (simp add: source_key_def sample_source_def)
  have t: "inj_on target_key (set [sample_target ''t2'' ''3'', sample_target ''t1'' ''1''])"
    by (simp add: target_key_def sample_target_def)
  show ?thesis
    using plan_is_deterministic[of "[sample_source, sample_source\<lparr>sc_captureID := ''c0''\<rparr>]"
        "[sample_source\<lparr>sc_captureID := ''c0''\<rparr>, sample_source]"
        "\<lambda>_. [sample_target ''t2'' ''3'', sample_target ''t1'' ''1'']"
        "\<lambda>_. [sample_target ''t1'' ''1'', sample_target ''t2'' ''3'']"] s t by (simp add: add_mset_commute)
qed

end
