(* ===== verification/FileSystem.thy ===== *)
theory FileSystem
  imports GoPaths "HOL-Library.Finite_Map" "HOL-Library.List_Lexorder" "HOL-Library.Char_ord"
begin

text \<open>
  The part of Go's \<open>os\<close> and \<open>filepath\<close> packages the engine uses to read and change a directory
  tree, on a Unix host. A tree maps the element lists of absolute paths to nodes; the root is
  always a directory. Every call of the operating system is one step of a \<open>world\<close>, whose
  events decide whether the call goes through, fails, or another process changes the tree just
  before it. The random parts of temporary names are drawn from the world too.
\<close>

section \<open>Trees\<close>

type_synonym key = "string list"

text \<open>Permission bits are numbers below 512; a file carries its identity (\<open>os.SameFile\<close>).\<close>

datatype node = Dir nat | File nat nat string | Link string | Special

type_synonym tree = "(key, node) fmap"

datatype errno = ENOENT | EEXIST | ENOTDIR | EISDIR | ENOTEMPTY | ELOOP | EINVAL | EIO

definition entry :: "tree \<Rightarrow> key \<Rightarrow> node option" where
  "entry t k = (if k = [] then Some (Dir 493) else fmlookup t k)"

definition is_dir :: "node \<Rightarrow> bool" where "is_dir n = (case n of Dir _ \<Rightarrow> True | _ \<Rightarrow> False)"
definition is_regular :: "node \<Rightarrow> bool" where "is_regular n = (case n of File _ _ _ \<Rightarrow> True | _ \<Rightarrow> False)"
definition is_link :: "node \<Rightarrow> bool" where "is_link n = (case n of Link _ \<Rightarrow> True | _ \<Rightarrow> False)"

definition node_mode :: "node \<Rightarrow> nat" where
  "node_mode n = (case n of Dir m \<Rightarrow> m | File _ m _ \<Rightarrow> m | Link _ \<Rightarrow> 511 | Special \<Rightarrow> 420)"

definition same_file :: "node \<Rightarrow> node \<Rightarrow> bool" where
  "same_file a b = (case (a, b) of (File i _ _, File j _ _) \<Rightarrow> i = j | _ \<Rightarrow> False)"

text \<open>
  Resolution of a path by the kernel: links in the middle are followed, at most \<open>fuel\<close> of them
  (Linux allows 40). A link in the last place is followed only when \<open>final\<close> holds.
\<close>

function follow :: "bool \<Rightarrow> nat \<Rightarrow> tree \<Rightarrow> key \<Rightarrow> string list \<Rightarrow> errno + key" where
  "follow final fuel t cur [] = Inr cur"
| "follow final fuel t cur (x # xs) =
     (if x = ''..'' then follow final fuel t (butlast cur) xs
      else (case entry t (cur @ [x]) of
          None \<Rightarrow> if xs = [] then Inr (cur @ [x]) else Inl ENOENT
        | Some (Dir _) \<Rightarrow> follow final fuel t (cur @ [x]) xs
        | Some (Link target) \<Rightarrow>
            if xs = [] \<and> \<not> final then Inr (cur @ [x])
            else (case fuel of 0 \<Rightarrow> Inl ELOOP
              | Suc n \<Rightarrow> follow final n t (if is_abs target then [] else cur) (path_elements target @ xs))
        | Some _ \<Rightarrow> if xs = [] then Inr (cur @ [x]) else Inl ENOTDIR))"
  by pat_completeness auto
termination by (relation "measures [\<lambda>(_, fuel, _). fuel, \<lambda>(_, _, _, _, xs). length xs]") auto

definition locate :: "tree \<Rightarrow> string \<Rightarrow> errno + key" where
  "locate t p = follow False 40 t [] (clean_elements p)"

definition locate_final :: "tree \<Rightarrow> string \<Rightarrow> errno + key" where
  "locate_final t p = follow True 40 t [] (clean_elements p)"

definition node_at :: "tree \<Rightarrow> errno + key \<Rightarrow> errno + node" where
  "node_at t r = (case r of Inl e \<Rightarrow> Inl e
     | Inr k \<Rightarrow> (case entry t k of None \<Rightarrow> Inl ENOENT | Some n \<Rightarrow> Inr n))"

section \<open>Changes of a tree\<close>

definition below :: "tree \<Rightarrow> key \<Rightarrow> key list" where
  "below t k = filter (prefix k) (sorted_list_of_fset (fmdom t))"

definition prune :: "tree \<Rightarrow> key \<Rightarrow> tree" where
  "prune t k = fmfilter (\<lambda>j. \<not> prefix k j) t"

text \<open>The subtree at \<open>a\<close> moves to \<open>b\<close>, replacing what is there.\<close>

definition graft :: "tree \<Rightarrow> key \<Rightarrow> key \<Rightarrow> tree" where
  "graft t a b = fmadd (prune (prune t a) b)
     (fmap_of_list (map (\<lambda>k. (b @ drop (length a) k, the (fmlookup t k))) (below t a)))"

definition mkdir_tree :: "string \<Rightarrow> nat \<Rightarrow> tree \<Rightarrow> errno + tree" where
  "mkdir_tree p mode t =
     (case locate t p of Inl e \<Rightarrow> Inl e
      | Inr k \<Rightarrow> (case entry t k of Some _ \<Rightarrow> Inl EEXIST | None \<Rightarrow> Inr (fmupd k (Dir mode) t)))"

definition create_tree :: "string \<Rightarrow> nat \<Rightarrow> nat \<Rightarrow> tree \<Rightarrow> errno + tree" where
  "create_tree p mode fresh t =
     (case locate t p of Inl e \<Rightarrow> Inl e
      | Inr k \<Rightarrow> (case entry t k of Some _ \<Rightarrow> Inl EEXIST | None \<Rightarrow> Inr (fmupd k (File fresh mode []) t)))"

definition chmod_node :: "nat \<Rightarrow> node \<Rightarrow> node" where
  "chmod_node mode n = (case n of Dir _ \<Rightarrow> Dir mode | File i _ d \<Rightarrow> File i mode d | other \<Rightarrow> other)"

definition chmod_tree :: "string \<Rightarrow> nat \<Rightarrow> tree \<Rightarrow> errno + tree" where
  "chmod_tree p mode t =
     (case locate_final t p of Inl e \<Rightarrow> Inl e
      | Inr k \<Rightarrow> (case fmlookup t k of None \<Rightarrow> Inl ENOENT | Some n \<Rightarrow> Inr (fmupd k (chmod_node mode n) t)))"

definition append_tree :: "string \<Rightarrow> string \<Rightarrow> tree \<Rightarrow> errno + tree" where
  "append_tree p data t =
     (case locate_final t p of Inl e \<Rightarrow> Inl e
      | Inr k \<Rightarrow> (case fmlookup t k of Some (File i m d) \<Rightarrow> Inr (fmupd k (File i m (d @ data)) t) | _ \<Rightarrow> Inl EINVAL))"

definition remove_key :: "key \<Rightarrow> tree \<Rightarrow> errno + tree" where
  "remove_key k t =
     (case fmlookup t k of None \<Rightarrow> Inl ENOENT
      | Some (Dir _) \<Rightarrow> if below t k = [k] then Inr (fmdrop k t) else Inl ENOTEMPTY
      | Some _ \<Rightarrow> Inr (fmdrop k t))"

definition remove_tree :: "string \<Rightarrow> tree \<Rightarrow> errno + tree" where
  "remove_tree p t = (case locate t p of Inl e \<Rightarrow> Inl e | Inr k \<Rightarrow> remove_key k t)"

text \<open>\<open>os.Rename\<close>: an existing directory is never replaced.\<close>

definition rename_tree :: "string \<Rightarrow> string \<Rightarrow> tree \<Rightarrow> errno + tree" where
  "rename_tree p q t =
     (case (locate t p, locate t q) of
        (Inl e, _) \<Rightarrow> Inl e
      | (_, Inl e) \<Rightarrow> Inl e
      | (Inr a, Inr b) \<Rightarrow>
          (case fmlookup t a of None \<Rightarrow> Inl ENOENT
           | Some n \<Rightarrow>
               (case entry t b of
                  Some (Dir _) \<Rightarrow> Inl EEXIST
                | old \<Rightarrow>
                    if a = b then Inr t
                    else if is_dir n \<and> prefix a b then Inl EINVAL
                    else if is_dir n \<and> old \<noteq> None then Inl ENOTDIR
                    else Inr (graft t a b))))"

section \<open>Calls of the operating system\<close>

datatype event = Quiet | Fail | Interfere "tree \<Rightarrow> tree"

record world =
  w_tree :: tree
  w_fresh :: nat
  w_random :: "string list"
  w_events :: "event list"

text \<open>
  A computation with a state of any type that ends with an error or a value; the calls below
  work on the world, larger programs on a state that holds a world.
\<close>

type_synonym ('s, 'e, 'a) run = "'s \<Rightarrow> ('e + 'a) \<times> 's"
type_synonym ('e, 'a) io = "(world, 'e, 'a) run"

definition io_return :: "'a \<Rightarrow> ('s, 'e, 'a) run" where "io_return x w = (Inr x, w)"
definition io_fail :: "'e \<Rightarrow> ('s, 'e, 'a) run" where "io_fail e w = (Inl e, w)"

definition io_bind :: "('s, 'e, 'a) run \<Rightarrow> ('a \<Rightarrow> ('s, 'e, 'b) run) \<Rightarrow> ('s, 'e, 'b) run" where
  "io_bind m k w = (case m w of (Inl e, w') \<Rightarrow> (Inl e, w') | (Inr x, w') \<Rightarrow> k x w')"

definition io_then :: "('s, 'e, unit) run \<Rightarrow> ('s, 'e, 'b) run \<Rightarrow> ('s, 'e, 'b) run" where
  "io_then m k = io_bind m (\<lambda>_. k)"

text \<open>The result as a value, errors included; and the translation of errors.\<close>

definition io_try :: "('s, 'e, 'a) run \<Rightarrow> ('s, 'f, 'e + 'a) run" where
  "io_try m w = (case m w of (r, w') \<Rightarrow> (Inr r, w'))"

definition io_map_error :: "('e \<Rightarrow> 'f) \<Rightarrow> ('s, 'e, 'a) run \<Rightarrow> ('s, 'f, 'a) run" where
  "io_map_error f m w = (case m w of (Inl e, w') \<Rightarrow> (Inl (f e), w') | (Inr x, w') \<Rightarrow> (Inr x, w'))"

definition io_of :: "'e + 'a \<Rightarrow> ('s, 'e, 'a) run" where "io_of r w = (r, w)"

definition io_when :: "bool \<Rightarrow> 'e \<Rightarrow> ('s, 'e, unit) run" where
  "io_when b e = (if b then io_fail e else io_return ())"

text \<open>\<open>defer\<close>: when the body fails, the clean-up runs and its own error is dropped.\<close>

definition io_on_error :: "('s, 'e, 'a) run \<Rightarrow> ('s, 'f, unit) run \<Rightarrow> ('s, 'e, 'a) run" where
  "io_on_error m c w = (case m w of (Inl e, w') \<Rightarrow> (Inl e, snd (c w')) | (Inr x, w') \<Rightarrow> (Inr x, w'))"

fun io_each :: "('a \<Rightarrow> ('s, 'e, unit) run) \<Rightarrow> 'a list \<Rightarrow> ('s, 'e, unit) run" where
  "io_each f [] = io_return ()"
| "io_each f (x # xs) = io_then (f x) (io_each f xs)"

definition perform :: "(nat \<Rightarrow> tree \<Rightarrow> errno + 'a \<times> tree) \<Rightarrow> (errno, 'a) io" where
  "perform f w =
     (case f (w_fresh w) (w_tree w) of
        Inl e \<Rightarrow> (Inl e, w\<lparr>w_fresh := Suc (w_fresh w)\<rparr>)
      | Inr (x, t) \<Rightarrow> (Inr x, w\<lparr>w_tree := t, w_fresh := Suc (w_fresh w)\<rparr>))"

definition syscall :: "(nat \<Rightarrow> tree \<Rightarrow> errno + 'a \<times> tree) \<Rightarrow> (errno, 'a) io" where
  "syscall f w =
     (case w_events w of
        [] \<Rightarrow> perform f w
      | ev # evs \<Rightarrow>
          (case ev of
             Quiet \<Rightarrow> perform f (w\<lparr>w_events := evs\<rparr>)
           | Fail \<Rightarrow> (Inl EIO, w\<lparr>w_events := evs\<rparr>)
           | Interfere g \<Rightarrow> perform f (w\<lparr>w_events := evs, w_tree := g (w_tree w)\<rparr>)))"

definition query :: "(tree \<Rightarrow> errno + 'a) \<Rightarrow> (errno, 'a) io" where
  "query f = syscall (\<lambda>_ t. map_sum id (\<lambda>x. (x, t)) (f t))"

definition change :: "(nat \<Rightarrow> tree \<Rightarrow> errno + tree) \<Rightarrow> (errno, unit) io" where
  "change f = syscall (\<lambda>n t. map_sum id (Pair ()) (f n t))"

definition lstat :: "string \<Rightarrow> (errno, node) io" where "lstat p = query (\<lambda>t. node_at t (locate t p))"
definition open_file :: "string \<Rightarrow> (errno, node) io" where "open_file p = query (\<lambda>t. node_at t (locate_final t p))"
definition mkdir :: "string \<Rightarrow> nat \<Rightarrow> (errno, unit) io" where "mkdir p mode = change (\<lambda>_. mkdir_tree p mode)"
definition chmod :: "string \<Rightarrow> nat \<Rightarrow> (errno, unit) io" where "chmod p mode = change (\<lambda>_. chmod_tree p mode)"
definition write_file :: "string \<Rightarrow> string \<Rightarrow> (errno, unit) io" where "write_file p data = change (\<lambda>_. append_tree p data)"
definition sync_file :: "string \<Rightarrow> (errno, unit) io" where "sync_file p = query (\<lambda>t. Inr ())"
definition remove :: "string \<Rightarrow> (errno, unit) io" where "remove p = change (\<lambda>_. remove_tree p)"
definition rename :: "string \<Rightarrow> string \<Rightarrow> (errno, unit) io" where "rename p q = change (\<lambda>_. rename_tree p q)"

text \<open>\<open>os.MkdirTemp\<close> and \<open>os.CreateTemp\<close>: random names until one is free.\<close>

definition next_random :: "(errno, string) io" where
  "next_random w = (case w_random w of [] \<Rightarrow> (Inl EEXIST, w) | r # rs \<Rightarrow> (Inr r, w\<lparr>w_random := rs\<rparr>))"

fun make_temp :: "(string \<Rightarrow> (errno, unit) io) \<Rightarrow> string \<Rightarrow> string \<Rightarrow> nat \<Rightarrow> (errno, string) io" where
  "make_temp mk dir stem 0 = io_fail EEXIST"
| "make_temp mk dir stem (Suc tries) =
     io_bind next_random (\<lambda>r.
       let p = join_path [dir, stem @ r] in
       io_bind (io_try (mk p)) (\<lambda>res.
         case res of
           Inl EEXIST \<Rightarrow> make_temp mk dir stem tries
         | Inl e \<Rightarrow> io_fail e
         | Inr _ \<Rightarrow> io_return p))"

definition random_left :: "('e, nat) io" where "random_left w = (Inr (length (w_random w)), w)"

definition mkdir_temp :: "string \<Rightarrow> string \<Rightarrow> (errno, string) io" where
  "mkdir_temp dir stem = io_bind random_left (make_temp (\<lambda>p. mkdir p 448) dir stem)"

definition create_temp :: "string \<Rightarrow> string \<Rightarrow> (errno, string) io" where
  "create_temp dir stem =
     io_bind random_left (make_temp (\<lambda>p. change (\<lambda>n. create_tree p 384 n)) dir stem)"

text \<open>The paths of a walk (\<open>filepath.WalkDir\<close>), parents first.\<close>

definition key_path :: "key \<Rightarrow> string" where "key_path k = render_clean True k"

definition walk_paths :: "string \<Rightarrow> (errno, string list) io" where
  "walk_paths p = query (\<lambda>t.
     case locate t p of Inl e \<Rightarrow> Inl e
     | Inr k \<Rightarrow> Inr (map (\<lambda>j. key_path (clean_elements p @ drop (length k) j)) (below t k)))"

text \<open>
  \<open>os.RemoveAll\<close> works with descriptors of directories, so it follows no link: it removes the
  entries below the path, children first, goes on after an error and returns the first one.
\<close>

definition keys_below :: "string \<Rightarrow> (errno, key list) io" where
  "keys_below p = query (\<lambda>t. case locate t p of Inl e \<Rightarrow> Inl e | Inr k \<Rightarrow> Inr (below t k))"

fun remove_each :: "key list \<Rightarrow> (errno, unit) io" where
  "remove_each [] = io_return ()"
| "remove_each (k # ks) =
     io_bind (io_try (change (\<lambda>_. remove_key k))) (\<lambda>r.
       case r of
         Inr _ \<Rightarrow> remove_each ks
       | Inl ENOENT \<Rightarrow> remove_each ks
       | Inl e \<Rightarrow> io_bind (io_try (remove_each ks)) (\<lambda>_. io_fail e))"

definition remove_all :: "string \<Rightarrow> (errno, unit) io" where
  "remove_all p =
     io_bind (io_try (keys_below p)) (\<lambda>r.
       case r of
         Inl ENOENT \<Rightarrow> io_return ()
       | Inl e \<Rightarrow> io_fail e
       | Inr ks \<Rightarrow> remove_each (rev ks))"

end
