(* ===== verification/SafePath.thy ===== *)
theory SafePath
  imports FileSystem ModuleValidation
begin

text \<open>
  \<open>internal/safepath\<close> on a Unix host: portable relative paths, their resolution below a root
  without following links, and the atomic replacement of files. An open file is the node that
  was read when it was opened; that its content changes while it is open is not modelled.
\<close>

section \<open>Paths\<close>

datatype path_error = UnsafePath | UnsafeRoot | LinkUnsupported | SourceChanged | ByteLimit | OsError errno

abbreviation os :: "(errno, 'a) io \<Rightarrow> (path_error, 'a) io" where
  "os \<equiv> io_map_error OsError"

definition has_drive_prefix :: "string \<Rightarrow> bool" where
  "has_drive_prefix s = (case s of c # d # _ \<Rightarrow> (is_upper c \<or> is_lower c) \<and> d = CHR '':'' | _ \<Rightarrow> False)"

definition bad_component :: "string \<Rightarrow> bool" where
  "bad_component c \<longleftrightarrow> c = [] \<or> c = ''.'' \<or> c = ''..'' \<or> c \<noteq> trim_space c \<or> (\<exists>b \<in> set c. byte b < 32)"

definition normalize_portable :: "string \<Rightarrow> path_error + string" where
  "normalize_portable value =
     (if value = [] \<or> value \<noteq> trim_space value \<or> NUL \<in> set value then Inl UnsafePath
      else let normalized = to_slashes value in
        if prefix ''/'' normalized \<or> has_drive_prefix normalized \<or> CHR '':'' \<in> set normalized \<or>
           contains_any normalized ''$%~'' then Inl UnsafePath
        else if list_ex bad_component (split_on CHR ''/'' normalized) then Inl UnsafePath
        else let cleaned = clean_path normalized in
          if cleaned = ''.'' \<or> cleaned = ''..'' \<or> prefix ''../'' cleaned then Inl UnsafePath else Inr cleaned)"

definition contained :: "string \<Rightarrow> string \<Rightarrow> bool" where
  "contained root candidate =
     (case rel_path root candidate of None \<Rightarrow> False
      | Some relative \<Rightarrow> relative \<noteq> ''..'' \<and> \<not> prefix ''../'' relative \<and> \<not> is_abs relative)"

section \<open>Resolution below a root\<close>

text \<open>The chain from the file system root down to the given root.\<close>

definition root_chain :: "string \<Rightarrow> string list" where
  "root_chain root = map (\<lambda>n. key_path (take n (clean_elements root))) [0..<Suc (length (clean_elements root))]"

fun reject_chain_links :: "string list \<Rightarrow> node \<Rightarrow> (path_error, node) io" where
  "reject_chain_links [] info = io_return info"
| "reject_chain_links (p # ps) info =
     io_bind (io_map_error (\<lambda>_. UnsafeRoot) (lstat p)) (\<lambda>i.
       if is_link i then io_fail LinkUnsupported else reject_chain_links ps i)"

definition validate_root :: "string \<Rightarrow> (path_error, string) io" where
  "validate_root root =
     (if root = [] \<or> \<not> is_abs root then io_fail UnsafeRoot
      else io_bind (reject_chain_links (root_chain root) Special) (\<lambda>info.
        if is_dir info then io_return (clean_path root) else io_fail UnsafeRoot))"

fun reject_existing_links :: "string \<Rightarrow> string list \<Rightarrow> (path_error, unit) io" where
  "reject_existing_links current [] = io_return ()"
| "reject_existing_links current (c # cs) =
     (let here = join_path [current, c] in
      io_bind (io_try (lstat here)) (\<lambda>r.
        case r of
          Inl ENOENT \<Rightarrow> io_return ()
        | Inl e \<Rightarrow> io_fail (OsError e)
        | Inr info \<Rightarrow> if is_link info then io_fail LinkUnsupported else reject_existing_links here cs))"

definition resolve :: "string \<Rightarrow> string \<Rightarrow> (path_error, string) io" where
  "resolve root relative =
     io_bind (validate_root root) (\<lambda>rootPath.
     io_bind (io_of (normalize_portable relative)) (\<lambda>normalized.
       let candidate = join_path [rootPath, normalized] in
       if \<not> contained rootPath candidate then io_fail UnsafePath
       else io_then (reject_existing_links rootPath (split_on CHR ''/'' normalized)) (io_return candidate)))"

fun make_parents :: "string \<Rightarrow> nat \<Rightarrow> string list \<Rightarrow> (path_error, unit) io" where
  "make_parents current mode [] = io_return ()"
| "make_parents current mode (c # cs) =
     (let here = join_path [current, c] in
      io_bind (io_try (lstat here)) (\<lambda>r.
      io_bind (case r of
          Inl ENOENT \<Rightarrow> io_then (os (mkdir here mode)) (os (lstat here))
        | Inl e \<Rightarrow> io_fail (OsError e)
        | Inr info \<Rightarrow> io_return info) (\<lambda>info.
      if is_link info then io_fail LinkUnsupported
      else if \<not> is_dir info then io_fail UnsafePath
      else make_parents here mode cs)))"

definition mkdir_parent :: "string \<Rightarrow> string \<Rightarrow> nat \<Rightarrow> (path_error, unit) io" where
  "mkdir_parent root relative mode =
     io_bind (validate_root root) (\<lambda>rootPath.
     io_bind (io_of (normalize_portable relative)) (\<lambda>normalized.
       make_parents rootPath mode (butlast (split_on CHR ''/'' normalized))))"

section \<open>Reading and replacing files\<close>

definition perm :: "nat \<Rightarrow> nat" where "perm mode = mode mod 512"

definition verify_copy_source :: "string \<Rightarrow> node \<Rightarrow> (path_error, unit) io" where
  "verify_copy_source source opened =
     io_bind (os (lstat source)) (\<lambda>current.
       if is_link current then io_fail LinkUnsupported
       else if \<not> is_regular current \<or> \<not> same_file current opened then io_fail SourceChanged
       else io_return ())"

definition open_verified :: "string \<Rightarrow> (path_error, node) io" where
  "open_verified source =
     io_bind (os (lstat source)) (\<lambda>prior.
       if is_link prior then io_fail LinkUnsupported
       else if \<not> is_regular prior then io_fail UnsafePath
       else io_bind (os (open_file source)) (\<lambda>opened.
         if \<not> is_regular opened then io_fail SourceChanged
         else io_then (verify_copy_source source opened)
           (if \<not> same_file prior opened then io_fail SourceChanged else io_return opened)))"

definition file_data :: "node \<Rightarrow> string" where
  "file_data n = (case n of File _ _ d \<Rightarrow> d | _ \<Rightarrow> [])"

definition read_regular_file_bounded :: "string \<Rightarrow> int \<Rightarrow> (path_error, string \<times> nat) io" where
  "read_regular_file_bounded source maxBytes =
     io_bind (open_verified source) (\<lambda>opened.
       if maxBytes < 0 \<or> maxBytes < int (length (file_data opened)) then io_fail ByteLimit
       else io_then (verify_copy_source source opened)
         (io_return (file_data opened, node_mode opened)))"

definition read_regular_file :: "string \<Rightarrow> (path_error, string \<times> nat) io" where
  "read_regular_file source = read_regular_file_bounded source (2 ^ 63 - 1)"

definition dir_name :: "string \<Rightarrow> string" where
  "dir_name p = key_path (butlast (clean_elements p))"

definition atomic_write :: "string \<Rightarrow> nat \<Rightarrow> (string \<Rightarrow> (path_error, unit) io) \<Rightarrow> (path_error, unit) io" where
  "atomic_write destination mode write =
     io_bind (os (create_temp (dir_name destination) ''.endstate-write-'')) (\<lambda>temporary.
       io_on_error
         (io_then (os (chmod temporary (perm mode)))
         (io_then (write temporary)
         (io_then (os (sync_file temporary))
           (os (rename temporary destination)))))
         (os (remove temporary)))"

definition atomic_write_file :: "string \<Rightarrow> string \<Rightarrow> nat \<Rightarrow> (path_error, unit) io" where
  "atomic_write_file destination data mode = atomic_write destination mode (\<lambda>t. os (write_file t data))"

definition atomic_copy_file :: "string \<Rightarrow> string \<Rightarrow> nat \<Rightarrow> (path_error, unit) io" where
  "atomic_copy_file source destination mode =
     io_bind (open_verified source) (\<lambda>opened.
       atomic_write destination mode (\<lambda>t.
         io_then (os (write_file t (file_data opened))) (verify_copy_source source opened)))"

definition atomic_rename :: "string \<Rightarrow> string \<Rightarrow> (path_error, unit) io" where
  "atomic_rename source destination = os (rename source destination)"

end
