(* ===== verification/MigrationEngine.thy ===== *)
theory MigrationEngine
  imports SafePath JsonDocument IniDocument
begin

text \<open>
  \<open>internal/migration\<close> (engine.go, file.go, json.go, ini.go, errors.go, registry.go): the
  declarative operations applied in order to one staging root. The decoder and the encoder of
  \<open>encoding/json\<close> are the fields of a \<open>json_codec\<close>.
\<close>

section \<open>Errors\<close>

datatype migration_code =
    CodeUnsupportedOperation | CodeInvalidStageRequest | CodePayloadIntegrityFailed
  | CodeInvalidMigrationPath | CodeValidationFailed | CodeCanceled | CodeUnsafeRoot | CodeUnsafePath
  | CodeLinkUnsupported | CodePathNotFound | CodeUnsupportedFileType | CodeDestinationExists
  | CodeSourceDescendant | CodeSourceChanged | CodeMalformedJSON | CodeInvalidJSONPath
  | CodeInvalidJSONValue | CodeJSONParentMissing | CodeJSONSourceMissing | CodeJSONDestinationExists
  | CodeMalformedINI | CodeInvalidINIValue | CodeINISourceMissing | CodeINIDestinationExists | CodeIO

definition map_path_error :: "path_error \<Rightarrow> migration_code" where
  "map_path_error e =
     (case e of
        LinkUnsupported \<Rightarrow> CodeLinkUnsupported
      | UnsafeRoot \<Rightarrow> CodeUnsafeRoot
      | UnsafePath \<Rightarrow> CodeUnsafePath
      | SourceChanged \<Rightarrow> CodeSourceChanged
      | _ \<Rightarrow> CodeIO)"

definition map_document_error :: "doc_code \<Rightarrow> migration_code" where
  "map_document_error e =
     (case e of
        MalformedJSON \<Rightarrow> CodeMalformedJSON
      | InvalidJSONPath \<Rightarrow> CodeInvalidJSONPath
      | InvalidJSONValue \<Rightarrow> CodeInvalidJSONValue
      | JSONParentMissing \<Rightarrow> CodeJSONParentMissing
      | JSONSourceMissing \<Rightarrow> CodeJSONSourceMissing
      | JSONDestinationExists \<Rightarrow> CodeJSONDestinationExists
      | MalformedINI \<Rightarrow> CodeMalformedINI
      | InvalidINIValue \<Rightarrow> CodeInvalidINIValue
      | INISourceMissing \<Rightarrow> CodeINISourceMissing
      | INIDestinationExists \<Rightarrow> CodeINIDestinationExists)"

abbreviation io_error :: "(errno, 'a) io \<Rightarrow> (migration_code, 'a) io" where
  "io_error \<equiv> io_map_error (\<lambda>_. CodeIO)"

definition resolve_operation_path :: "string \<Rightarrow> string \<Rightarrow> (migration_code, string) io" where
  "resolve_operation_path root portable = io_map_error map_path_error (resolve root portable)"

section \<open>File operations\<close>

record source_tree_entry =
  ste_relative :: string
  ste_info :: node

definition target_is_source_or_descendant :: "string \<Rightarrow> string \<Rightarrow> bool" where
  "target_is_source_or_descendant source target =
     (case rel_path (clean_path source) (clean_path target) of
        None \<Rightarrow> False
      | Some relative \<Rightarrow> relative = ''.'' \<or> relative \<noteq> ''..'' \<and> \<not> prefix ''../'' relative)"

text \<open>The callback of the walk over a source tree.\<close>

definition visit_entry :: "string \<Rightarrow> string \<Rightarrow> string \<Rightarrow> (migration_code, source_tree_entry) io" where
  "visit_entry root source current =
     (case rel_path root current of
        None \<Rightarrow> io_fail CodeIO
      | Some relativeToRoot \<Rightarrow>
          io_bind (io_map_error map_path_error (resolve root relativeToRoot)) (\<lambda>_.
          io_bind (io_error (lstat current)) (\<lambda>info.
            if \<not> is_dir info \<and> \<not> is_regular info then io_fail CodeUnsupportedFileType
            else (case rel_path source current of
                None \<Rightarrow> io_fail CodeIO
              | Some relative \<Rightarrow> io_return \<lparr>ste_relative = relative, ste_info = info\<rparr>))))"

fun visit_all :: "string \<Rightarrow> string \<Rightarrow> string list \<Rightarrow> (migration_code, source_tree_entry list) io" where
  "visit_all root source [] = io_return []"
| "visit_all root source (p # ps) =
     io_bind (visit_entry root source p) (\<lambda>e. io_bind (visit_all root source ps) (\<lambda>es. io_return (e # es)))"

definition entry_less :: "source_tree_entry \<Rightarrow> source_tree_entry \<Rightarrow> bool" where
  "entry_less l r \<longleftrightarrow> ste_relative l < ste_relative r"

interpretation tree_entry_order: slice_less entry_less
  by (rule slice_less_lex[where key = "\<lambda>e. [ste_relative e]"]) (simp_all add: entry_less_def)

definition inspect_source_tree ::
    "string \<Rightarrow> string \<Rightarrow> (migration_code, source_tree_entry list \<times> node) io" where
  "inspect_source_tree root source =
     io_bind (io_try (lstat source)) (\<lambda>r.
       case r of
         Inl ENOENT \<Rightarrow> io_fail CodePathNotFound
       | Inl e \<Rightarrow> io_fail CodeIO
       | Inr info \<Rightarrow>
           if \<not> is_dir info \<and> \<not> is_regular info then io_fail CodeUnsupportedFileType
           else if is_regular info then io_return ([\<lparr>ste_relative = [], ste_info = info\<rparr>], info)
           else io_bind (io_error (walk_paths source)) (\<lambda>paths.
             io_bind (visit_all root source paths) (\<lambda>entries.
               io_return (sort_by entry_less entries, info))))"

definition copy_entry :: "string \<Rightarrow> string \<Rightarrow> source_tree_entry \<Rightarrow> (migration_code, unit) io" where
  "copy_entry source temporary e =
     (if ste_relative e = ''.'' then io_return ()
      else let sourcePath = join_path [source, ste_relative e]; targetPath = join_path [temporary, ste_relative e] in
        if is_dir (ste_info e) then io_error (mkdir targetPath (perm (node_mode (ste_info e))))
        else io_map_error map_path_error (atomic_copy_file sourcePath targetPath (node_mode (ste_info e))))"

definition copy_directory_tree ::
    "string \<Rightarrow> string \<Rightarrow> source_tree_entry list \<Rightarrow> (migration_code, unit) io" where
  "copy_directory_tree source target entries =
     io_bind (io_error (mkdir_temp (dir_name target) ''.endstate-copy-'')) (\<lambda>temporary.
       io_on_error
         (io_then (if entries = [] then io_return ()
                   else io_error (chmod temporary (perm (node_mode (ste_info (hd entries))))))
         (io_then (io_each (copy_entry source temporary) entries)
           (io_error (rename temporary target))))
         (remove_all temporary))"

text \<open>The shared beginning of a copy and a move: the two paths and the source tree.\<close>

definition open_transfer ::
    "string \<Rightarrow> migration_operation \<Rightarrow> (migration_code, string \<times> string \<times> source_tree_entry list \<times> node) io" where
  "open_transfer root operation =
     io_bind (resolve_operation_path root (op_source operation)) (\<lambda>source.
     io_bind (resolve_operation_path root (op_target operation)) (\<lambda>target.
     io_then (io_when (target_is_source_or_descendant source target) CodeSourceDescendant)
     (io_bind (inspect_source_tree root source) (\<lambda>(entries, info).
     io_then (io_map_error map_path_error (mkdir_parent root (op_target operation) 493))
     (io_bind (resolve_operation_path root (op_target operation)) (\<lambda>_.
       io_return (source, target, entries, info)))))))"

text \<open>What happens once the state of the destination is known.\<close>

definition finish_copy ::
    "string \<Rightarrow> string \<Rightarrow> source_tree_entry list \<Rightarrow> node \<Rightarrow> errno + node \<Rightarrow> (migration_code, unit) io" where
  "finish_copy source target entries info stat =
     (if (case stat of Inl e \<Rightarrow> e \<noteq> ENOENT | Inr _ \<Rightarrow> False) then io_fail CodeIO
      else if is_dir info then
        (case stat of Inr _ \<Rightarrow> io_fail CodeDestinationExists
         | Inl _ \<Rightarrow> copy_directory_tree source target entries)
      else if (case stat of Inr n \<Rightarrow> \<not> is_regular n | Inl _ \<Rightarrow> False) then io_fail CodeUnsupportedFileType
      else io_map_error map_path_error (atomic_copy_file source target (node_mode info)))"

definition apply_file_copy :: "string \<Rightarrow> migration_operation \<Rightarrow> (migration_code, unit) io" where
  "apply_file_copy root operation =
     io_bind (open_transfer root operation) (\<lambda>(source, target, entries, info).
       io_bind (io_try (lstat target)) (finish_copy source target entries info))"

definition finish_move :: "string \<Rightarrow> string \<Rightarrow> node \<Rightarrow> errno + node \<Rightarrow> (migration_code, unit) io" where
  "finish_move source target info stat =
     (if (case stat of Inl e \<Rightarrow> e \<noteq> ENOENT | Inr _ \<Rightarrow> False) then io_fail CodeIO
      else if is_dir info \<and> (case stat of Inr _ \<Rightarrow> True | Inl _ \<Rightarrow> False) then io_fail CodeDestinationExists
      else if (case stat of Inr n \<Rightarrow> \<not> is_regular n | Inl _ \<Rightarrow> False) then io_fail CodeUnsupportedFileType
      else io_error (rename source target))"

definition apply_file_move :: "string \<Rightarrow> migration_operation \<Rightarrow> (migration_code, unit) io" where
  "apply_file_move root operation =
     io_bind (open_transfer root operation) (\<lambda>(source, target, _, info).
       io_bind (io_try (lstat target)) (finish_move source target info))"

definition apply_file_delete :: "string \<Rightarrow> migration_operation \<Rightarrow> (migration_code, unit) io" where
  "apply_file_delete root operation =
     io_bind (resolve_operation_path root (op_path operation)) (\<lambda>source.
     io_bind (inspect_source_tree root source) (\<lambda>_.
     io_bind (io_error (mkdir_temp (dir_name source) ''.endstate-delete-'')) (\<lambda>tombstone.
     io_then (io_error (remove tombstone))
     (io_then (io_error (rename source tombstone))
       (io_error (remove_all tombstone))))))"

section \<open>Document operations\<close>

record json_codec =
  jc_decode :: "string \<Rightarrow> json option"
  jc_encode :: "json \<Rightarrow> string option"

definition parse_json :: "json_codec \<Rightarrow> string \<Rightarrow> doc_code + json" where
  "parse_json c data =
     (if \<not> utf8_valid data then Inl MalformedJSON
      else (case jc_decode c data of None \<Rightarrow> Inl MalformedJSON | Some d \<Rightarrow> Inr d))"

definition encode_json :: "json_codec \<Rightarrow> json \<Rightarrow> doc_code + string" where
  "encode_json c d = (case jc_encode c d of None \<Rightarrow> Inl InvalidJSONValue | Some s \<Rightarrow> Inr (s @ [LF]))"

text \<open>The file an operation edits: it exists, is regular, and is read with its mode.\<close>

definition read_operand :: "string \<Rightarrow> string \<Rightarrow> (migration_code, string \<times> string \<times> nat) io" where
  "read_operand root path =
     io_bind (resolve_operation_path root path) (\<lambda>target.
     io_bind (io_try (lstat target)) (\<lambda>r.
       case r of
         Inl ENOENT \<Rightarrow> io_fail CodePathNotFound
       | Inl _ \<Rightarrow> io_fail CodeIO
       | Inr info \<Rightarrow>
           if \<not> is_regular info then io_fail CodeUnsupportedFileType
           else io_bind (io_map_error map_path_error (read_regular_file target)) (\<lambda>(data, mode).
             io_return (target, data, mode))))"

definition edit_json :: "migration_operation \<Rightarrow> json \<Rightarrow> doc_code + json" where
  "edit_json operation d =
     (if op_type operation = ''json-set''
      then json_set d (op_jsonPath operation) (case op_value operation of Some v \<Rightarrow> v | None \<Rightarrow> JNull)
      else if op_type operation = ''json-delete'' then json_delete d (op_jsonPath operation)
      else if op_type operation = ''json-move'' then json_move d (op_from operation) (op_to operation)
      else Inr d)"

definition edit_json_text :: "json_codec \<Rightarrow> migration_operation \<Rightarrow> string \<Rightarrow> doc_code + string" where
  "edit_json_text c operation data =
     try_res (parse_json c data) (\<lambda>d. try_res (edit_json operation d) (encode_json c))"

definition edit_ini :: "migration_operation \<Rightarrow> ini \<Rightarrow> doc_code + ini" where
  "edit_ini operation d =
     (if op_type operation = ''ini-set'' then
        (case op_value operation of
           Some (JStr v) \<Rightarrow> ini_set d (op_section operation) (op_key operation) v
         | _ \<Rightarrow> Inl InvalidINIValue)
      else if op_type operation = ''ini-delete'' then ini_delete d (op_section operation) (op_key operation)
      else if op_type operation = ''ini-move''
      then ini_move d (op_fromSection operation) (op_fromKey operation) (op_toSection operation) (op_toKey operation)
      else Inr d)"

definition edit_ini_text :: "migration_operation \<Rightarrow> string \<Rightarrow> doc_code + string" where
  "edit_ini_text operation data =
     try_res (parse_ini data) (\<lambda>d. try_res (edit_ini operation d) (\<lambda>d'. Inr (encode_ini d')))"

definition apply_text_edit ::
    "string \<Rightarrow> migration_operation \<Rightarrow> (string \<Rightarrow> doc_code + string) \<Rightarrow> (migration_code, unit) io" where
  "apply_text_edit root operation edit =
     io_bind (read_operand root (op_path operation)) (\<lambda>(target, data, mode).
     io_bind (io_of (map_sum map_document_error id (edit data))) (\<lambda>encoded.
       io_map_error (\<lambda>_. CodeIO) (atomic_write_file target encoded mode)))"

definition apply_json_operation :: "json_codec \<Rightarrow> string \<Rightarrow> migration_operation \<Rightarrow> (migration_code, unit) io" where
  "apply_json_operation c root operation = apply_text_edit root operation (edit_json_text c operation)"

definition apply_ini_operation :: "string \<Rightarrow> migration_operation \<Rightarrow> (migration_code, unit) io" where
  "apply_ini_operation root operation = apply_text_edit root operation (edit_ini_text operation)"

section \<open>The engine\<close>

record operation_error =
  oe_code :: migration_code
  oe_operation :: string
  oe_index :: int

definition supported_operation_types :: "string list" where
  "supported_operation_types =
     [''file-copy'', ''file-delete'', ''file-move'', ''ini-delete'', ''ini-move'', ''ini-set'',
      ''json-delete'', ''json-move'', ''json-set'']"

definition is_supported_operation_type :: "string \<Rightarrow> bool" where
  "is_supported_operation_type t \<longleftrightarrow>
     t \<in> set [''file-copy'', ''file-move'', ''file-delete'', ''json-set'', ''json-delete'', ''json-move'',
       ''ini-set'', ''ini-delete'', ''ini-move'']"

definition apply_operation :: "json_codec \<Rightarrow> string \<Rightarrow> migration_operation \<Rightarrow> (migration_code, unit) io" where
  "apply_operation c root operation =
     (let t = op_type operation in
      if \<not> is_supported_operation_type t then io_fail CodeUnsupportedOperation
      else if t = ''file-copy'' then apply_file_copy root operation
      else if t = ''file-move'' then apply_file_move root operation
      else if t = ''file-delete'' then apply_file_delete root operation
      else if t = ''json-set'' \<or> t = ''json-delete'' \<or> t = ''json-move'' then apply_json_operation c root operation
      else if t = ''ini-set'' \<or> t = ''ini-delete'' \<or> t = ''ini-move'' then apply_ini_operation root operation
      else io_fail CodeUnsupportedOperation)"

fun apply_operations ::
    "json_codec \<Rightarrow> string \<Rightarrow> int \<Rightarrow> migration_operation list \<Rightarrow> (operation_error, unit) io" where
  "apply_operations c root index [] = io_return ()"
| "apply_operations c root index (operation # rest) =
     io_then (io_map_error (\<lambda>e. \<lparr>oe_code = e, oe_operation = op_type operation, oe_index = index\<rparr>)
       (apply_operation c root operation))
     (apply_operations c root (index + 1) rest)"

definition engine_apply :: "json_codec \<Rightarrow> string \<Rightarrow> migration_operation list \<Rightarrow> (operation_error, unit) io" where
  "engine_apply c root operations =
     io_bind (io_map_error (\<lambda>e. \<lparr>oe_code = map_path_error e, oe_operation = [], oe_index = - 1\<rparr>) (validate_root root)) (\<lambda>_.
       apply_operations c root 0 operations)"

end
