(* ===== verification/TreeLogic.thy ===== *)
theory TreeLogic
  imports FileSystem
begin

text \<open>
  Reasoning about the calls of \<open>FileSystem\<close>: what a path reaches when no link lies on it, the
  trees a change can produce, and triples \<open>triple P m Q E\<close> (after \<open>m\<close> started in \<open>P\<close>, \<open>Q\<close> holds of a
  result and \<open>E\<close> after an error) with the assertion \<open>st\<close> that says which keys are known to be free
  of links and that nothing outside the root has changed.
\<close>

section \<open>Paths without links\<close>

lemma node_tests [simp]:
  "is_dir (Dir m)" "\<not> is_dir (File i m d)" "\<not> is_dir (Link l)" "\<not> is_dir Special"
  "\<not> is_link (Dir m)" "\<not> is_link (File i m d)" "is_link (Link l)" "\<not> is_link Special"
  "is_regular (File i m d)" "\<not> is_regular (Dir m)" "\<not> is_regular (Link l)" "\<not> is_regular Special"
  by (simp_all add: is_dir_def is_link_def is_regular_def)

lemma is_dir_iff: "is_dir n \<longleftrightarrow> (\<exists>m. n = Dir m)"
  by (cases n) simp_all

definition linkfree :: "tree \<Rightarrow> key \<Rightarrow> bool" where
  "linkfree t k \<longleftrightarrow> (\<forall>j n. prefix j k \<longrightarrow> entry t j = Some n \<longrightarrow> \<not> is_link n)"

lemma linkfree_prefix: "linkfree t k \<Longrightarrow> prefix j k \<Longrightarrow> linkfree t j"
  unfolding linkfree_def using prefix_order.trans by blast

lemma linkfree_Nil [simp]: "linkfree t []"
  by (simp add: linkfree_def entry_def is_link_def)

lemma linkfree_at: "linkfree t k \<Longrightarrow> fmlookup t k = Some n \<Longrightarrow> k \<noteq> [] \<Longrightarrow> \<not> is_link n"
  unfolding linkfree_def entry_def by (meson prefix_order.refl)

lemma strict_prefix_nonempty: "strict_prefix R k \<Longrightarrow> k \<noteq> []"
  by (auto simp: strict_prefix_def)

lemma abs_elements_plain: "is_abs p \<Longrightarrow> ''..'' \<notin> set (clean_elements p)"
  using clean_elements_front[of p] by (auto simp: dots_in_front_def)

lemma follow_linkfree:
  assumes "follow final fuel t cur xs = Inr k" and "''..'' \<notin> set xs"
    and "\<And>j n. prefix j (cur @ xs) \<Longrightarrow> j \<noteq> cur @ xs \<or> final \<Longrightarrow> entry t j = Some n \<Longrightarrow> \<not> is_link n"
  shows "k = cur @ xs \<and> (xs \<noteq> [] \<longrightarrow> butlast xs \<noteq> [] \<longrightarrow> (\<exists>m. entry t (cur @ butlast xs) = Some (Dir m)))"
  using assms
proof (induction final fuel t cur xs rule: follow.induct)
  case (2 final fuel t cur x xs)
  have x: "x \<noteq> ''..''" using "2.prems"(2) by auto
  have here: "\<not> is_link n" if "entry t (cur @ [x]) = Some n" "xs \<noteq> [] \<or> final" for n
    using "2.prems"(3)[of "cur @ [x]" n] that by (auto simp: prefix_def)
  show ?case
  proof (cases "entry t (cur @ [x])")
    case None
    with "2.prems"(1) x show ?thesis by (auto split: if_splits)
  next
    case (Some n)
    show ?thesis
    proof (cases n)
      case (Dir m)
      have k: "follow final fuel t (cur @ [x]) xs = Inr k" using "2.prems"(1) x Some Dir by simp
      have IH: "k = (cur @ [x]) @ xs \<and> (xs \<noteq> [] \<longrightarrow> butlast xs \<noteq> [] \<longrightarrow> (\<exists>m. entry t ((cur @ [x]) @ butlast xs) = Some (Dir m)))"
        using "2.IH"(2)[OF x Some Dir k] "2.prems"(2,3) by simp
      then show ?thesis using Some Dir by (cases xs rule: rev_cases) (auto simp: butlast_append)
    next
      case (Link target)
      then have "xs = [] \<and> \<not> final" using here[OF Some] by (auto simp: is_link_def)
      then show ?thesis using "2.prems"(1) x Some Link by simp
    qed (use "2.prems"(1) x Some in \<open>auto split: if_splits\<close>)
  qed
qed simp

lemma locate_linkfree:
  assumes "locate t p = Inr k" and "is_abs p" and "linkfree t (butlast (clean_elements p))"
  shows "k = clean_elements p" and "k \<noteq> [] \<Longrightarrow> \<exists>m. entry t (butlast k) = Some (Dir m)"
proof -
  have no: "\<not> is_link n" if "prefix j (clean_elements p)" "j \<noteq> clean_elements p" "entry t j = Some n" for j n
  proof -
    have "prefix j (butlast (clean_elements p))"
      using that(1,2) by (cases "clean_elements p" rule: rev_cases) auto
    then show ?thesis using assms(3) that(3) by (auto simp: linkfree_def)
  qed
  have f: "k = [] @ clean_elements p \<and> (clean_elements p \<noteq> [] \<longrightarrow> butlast (clean_elements p) \<noteq> [] \<longrightarrow>
      (\<exists>m. entry t ([] @ butlast (clean_elements p)) = Some (Dir m)))"
    by (rule follow_linkfree[OF assms(1)[unfolded locate_def] abs_elements_plain[OF assms(2)]]) (use no in simp)
  then show k: "k = clean_elements p" by simp
  show "\<exists>m. entry t (butlast k) = Some (Dir m)" if "k \<noteq> []"
    using f that by (cases "butlast (clean_elements p) = []") (auto simp: entry_def)
qed

lemma locate_final_linkfree:
  assumes "locate_final t p = Inr k" and "is_abs p" and "linkfree t (clean_elements p)"
  shows "k = clean_elements p"
  using follow_linkfree[OF assms(1)[unfolded locate_final_def] abs_elements_plain[OF assms(2)]] assms(3)
  by (auto simp: linkfree_def)

text \<open>Conversely a path whose directories exist is reached.\<close>

lemma follow_dirs:
  assumes "''..'' \<notin> set xs" and "\<And>ys zs. xs = ys @ zs \<Longrightarrow> ys \<noteq> [] \<Longrightarrow> zs \<noteq> [] \<Longrightarrow> \<exists>m. entry t (cur @ ys) = Some (Dir m)"
    and "\<And>n. final \<Longrightarrow> entry t (cur @ xs) = Some n \<Longrightarrow> \<not> is_link n"
  shows "follow final fuel t cur xs = Inr (cur @ xs)"
  using assms
proof (induction final fuel t cur xs rule: follow.induct)
  case (2 final fuel t cur x xs)
  have x: "x \<noteq> ''..''" using "2.prems"(1) by auto
  show ?case
  proof (cases "xs = []")
    case True
    then show ?thesis using x "2.prems"(3) by (auto split: option.split node.split)
  next
    case False
    then obtain m where m: "entry t (cur @ [x]) = Some (Dir m)" using "2.prems"(2)[of "[x]" xs] by auto
    have "follow final fuel t (cur @ [x]) xs = Inr ((cur @ [x]) @ xs)"
    proof (rule "2.IH"(2)[OF x m refl])
      show "''..'' \<notin> set xs" using "2.prems"(1) by simp
      show "\<exists>m. entry t ((cur @ [x]) @ ys) = Some (Dir m)" if "xs = ys @ zs" "ys \<noteq> []" "zs \<noteq> []" for ys zs
        using "2.prems"(2)[of "x # ys" zs] that by simp
      show "\<not> is_link n" if final "entry t ((cur @ [x]) @ xs) = Some n" for n
        using "2.prems"(3)[OF that(1)] that(2) by simp
    qed
    then show ?thesis using x m by simp
  qed
qed simp

section \<open>Trees\<close>

definition plain_key :: "key \<Rightarrow> bool" where
  "plain_key k \<longleftrightarrow> list_all plain_element k \<and> ''..'' \<notin> set k"

lemma plain_key_append [simp]: "plain_key (j @ k) \<longleftrightarrow> plain_key j \<and> plain_key k"
  by (auto simp: plain_key_def)

lemma plain_key_elements: "is_abs p \<Longrightarrow> plain_key (clean_elements p)"
  using clean_elements_plain abs_elements_plain by (simp add: plain_key_def)

text \<open>A tree is well formed when every entry lies in a directory and has a proper name.\<close>

definition wf_tree :: "tree \<Rightarrow> bool" where
  "wf_tree t \<longleftrightarrow> (\<forall>k n. fmlookup t k = Some n \<longrightarrow>
     k \<noteq> [] \<and> plain_key k \<and> (\<exists>m. entry t (butlast k) = Some (Dir m)))"

lemma wf_tree_above:
  assumes "wf_tree t" and "fmlookup t (k @ xs) = Some n" and "xs \<noteq> []"
  shows "\<exists>m. entry t k = Some (Dir m)"
  using assms(2,3)
proof (induction xs arbitrary: n rule: rev_induct)
  case (snoc x xs)
  obtain m where "entry t (butlast (k @ xs @ [x])) = Some (Dir m)"
    using assms(1) snoc.prems(1) by (auto simp: wf_tree_def)
  then have m: "entry t (k @ xs) = Some (Dir m)" by (simp add: butlast_append)
  show ?case
  proof (cases "xs = []")
    case True
    with m show ?thesis by auto
  next
    case False
    with m have "fmlookup t (k @ xs) = Some (Dir m)" by (simp add: entry_def)
    from snoc.IH[OF this False] show ?thesis .
  qed
qed simp

lemma locate_existing:
  assumes "wf_tree t" "is_abs p" "fmlookup t (butlast (clean_elements p)) = Some (Dir m) \<or> butlast (clean_elements p) = []"
  shows "locate t p = Inr (clean_elements p)"
proof -
  have "\<exists>m. entry t ([] @ ys) = Some (Dir m)" if "clean_elements p = ys @ zs" "ys \<noteq> []" "zs \<noteq> []" for ys zs
  proof -
    have b: "butlast (clean_elements p) = ys @ butlast zs" using that(1,3) by (simp add: butlast_append)
    then have "fmlookup t (ys @ butlast zs) = Some (Dir m)" using assms(3) that(2) by simp
    then show ?thesis
      using wf_tree_above[OF assms(1), of ys "butlast zs"] that(2) by (cases "butlast zs = []") (simp_all add: entry_def)
  qed
  then show ?thesis
    using follow_dirs[OF abs_elements_plain[OF assms(2)], where cur = "[]" and final = False and t = t and fuel = 40]
    by (simp add: locate_def)
qed

lemma locate_present:
  assumes "wf_tree t" "is_abs p" "fmlookup t (clean_elements p) = Some n"
  shows "locate t p = Inr (clean_elements p)"
proof -
  obtain m where "entry t (butlast (clean_elements p)) = Some (Dir m)" using assms(1,3) by (auto simp: wf_tree_def)
  then show ?thesis using locate_existing[OF assms(1,2)] by (auto simp: entry_def split: if_splits)
qed

lemma wf_tree_nothing_below: "wf_tree t \<Longrightarrow> (\<And>m. entry t k \<noteq> Some (Dir m)) \<Longrightarrow> xs \<noteq> [] \<Longrightarrow> fmlookup t (k @ xs) = None"
  using wf_tree_above by (metis not_Some_eq)

lemma set_below: "j \<in> set (below t k) \<longleftrightarrow> prefix k j \<and> j \<in> fmdom' t"
  by (auto simp: below_def sorted_list_of_fset.rep_eq fmdom'_alt_def)

lemma fmadd_cases: "fmlookup (fmadd m m') k = (case fmlookup m' k of None \<Rightarrow> fmlookup m k | Some v \<Rightarrow> Some v)"
  by (cases "fmlookup m' k") (simp_all add: fmdom_notI fmdomI)

lemma lookup_graft:
  "fmlookup (graft t a b) k =
     (if prefix b k then fmlookup t (a @ drop (length b) k)
      else if prefix a k then None else fmlookup t k)"
proof -
  let ?g = "\<lambda>j. b @ drop (length a) j"
  let ?m = "fmap_of_list (map (\<lambda>j. (?g j, the (fmlookup t j))) (below t a))"
  have inj: "inj_on ?g (set (below t a))"
    by (rule inj_onI) (auto simp: set_below prefix_def)
  have look: "fmlookup ?m (?g j) = fmlookup t j" if "j \<in> set (below t a)" for j
  proof -
    have "map_of (map (\<lambda>j. (?g j, the (fmlookup t j))) (below t a)) (?g j) = Some (the (fmlookup t j))"
    proof (rule map_of_is_SomeI)
      show "distinct (map fst (map (\<lambda>j. (?g j, the (fmlookup t j))) (below t a)))"
        using inj by (simp add: distinct_map comp_def below_def sorted_list_of_fset.rep_eq)
    qed (use that in auto)
    then show ?thesis using that by (auto simp: fmlookup_of_list set_below fmlookup_dom'_iff)
  qed
  have dom: "fmlookup ?m j \<noteq> None \<longleftrightarrow> prefix b j \<and> fmlookup t (a @ drop (length b) j) \<noteq> None" for j
  proof
    assume "fmlookup ?m j \<noteq> None"
    then have "j \<in> ?g ` set (below t a)"
      unfolding fmlookup_of_list map_of_eq_None_iff by (simp add: image_image)
    then obtain i where i: "j = ?g i" "prefix a i" "i \<in> fmdom' t" by (auto simp: set_below)
    obtain z where "i = a @ z" using i(2) by (rule prefixE)
    then have "a @ drop (length b) j = i" using i(1) by simp
    then show "prefix b j \<and> fmlookup t (a @ drop (length b) j) \<noteq> None"
      using i by (simp add: fmlookup_dom'_iff)
  next
    assume r: "prefix b j \<and> fmlookup t (a @ drop (length b) j) \<noteq> None"
    then have "a @ drop (length b) j \<in> set (below t a)" by (auto simp: set_below fmlookup_dom'_iff)
    from look[OF this] have "fmlookup ?m (?g (a @ drop (length b) j)) = fmlookup t (a @ drop (length b) j)" .
    moreover have "?g (a @ drop (length b) j) = j" using r by (auto simp: prefix_def)
    ultimately show "fmlookup ?m j \<noteq> None" using r by (simp only: simp_thms)
  qed
  show ?thesis
  proof (cases "prefix b k")
    case True
    then have k: "?g (a @ drop (length b) k) = k" by (auto simp: prefix_def)
    have "fmlookup ?m k = fmlookup t (a @ drop (length b) k)"
    proof (cases "fmlookup t (a @ drop (length b) k)")
      case None
      then show ?thesis using dom[of k] by auto
    next
      case (Some n)
      then have "a @ drop (length b) k \<in> set (below t a)" by (auto simp: set_below fmlookup_dom'_iff)
      from look[OF this] show ?thesis unfolding k .
    qed
    then show ?thesis using True unfolding graft_def fmadd_cases prune_def by (simp split: option.split)
  next
    case False
    then have "fmlookup ?m k = None" using dom[of k] by auto
    then show ?thesis using False unfolding graft_def fmadd_cases prune_def by simp
  qed
qed

section \<open>What a change does\<close>

definition same_outside :: "key \<Rightarrow> tree \<Rightarrow> tree \<Rightarrow> bool" where
  "same_outside R t t' \<longleftrightarrow> (\<forall>k. \<not> strict_prefix R k \<longrightarrow> fmlookup t' k = fmlookup t k)"

lemma same_outside_refl [simp]: "same_outside R t t"
  by (simp add: same_outside_def)

lemma same_outside_trans: "same_outside R t t' \<Longrightarrow> same_outside R t' t'' \<Longrightarrow> same_outside R t t''"
  by (simp add: same_outside_def)

text \<open>The assertion after a change: well formed, nothing outside changed, no link on a known key.\<close>

definition good_change :: "key \<Rightarrow> tree \<Rightarrow> tree \<Rightarrow> bool" where
  "good_change R t t' \<longleftrightarrow> wf_tree t' \<and> same_outside R t t' \<and> (\<forall>k. linkfree t k \<longrightarrow> linkfree t' k)"

lemma good_upd:
  assumes "wf_tree t" "strict_prefix R k" "\<exists>m. entry t (butlast k) = Some (Dir m)" "\<not> is_link n" "plain_key k"
    and "\<And>m. entry t k = Some (Dir m) \<Longrightarrow> is_dir n"
  shows "good_change R t (fmupd k n t)"
proof -
  have k: "k \<noteq> []" using assms(2) by (auto simp: strict_prefix_def)
  have dir: "\<exists>m'. entry (fmupd k n t) j = Some (Dir m')" if "entry t j = Some (Dir m)" for j m
  proof (cases "j = k")
    case True
    have "is_dir n" using assms(6)[of m] that True by simp
    then obtain m' where "n = Dir m'" unfolding is_dir_iff by auto
    then show ?thesis using True k by (simp add: entry_def)
  next
    case False
    then show ?thesis using that by (cases "j = []") (simp_all add: entry_def)
  qed
  have bk: "butlast k \<noteq> k" using k by (cases k rule: rev_cases) auto
  have wf: "wf_tree (fmupd k n t)"
    unfolding wf_tree_def
  proof (intro allI impI)
    fix j x assume "fmlookup (fmupd k n t) j = Some x"
    then have "j = k \<or> fmlookup t j = Some x" by (auto split: if_splits)
    then show "j \<noteq> [] \<and> plain_key j \<and> (\<exists>m. entry (fmupd k n t) (butlast j) = Some (Dir m))"
      using assms(1,3,5) dir k by (auto simp: wf_tree_def)
  qed
  have "linkfree (fmupd k n t) j" if "linkfree t j" for j
    using that assms(4) k by (auto simp: linkfree_def entry_def split: if_splits)
  moreover have "same_outside R t (fmupd k n t)" using assms(2) by (auto simp: same_outside_def)
  ultimately show ?thesis using wf by (simp add: good_change_def)
qed

lemma good_drop:
  assumes "wf_tree t" "strict_prefix R k" "\<And>xs. xs \<noteq> [] \<Longrightarrow> fmlookup t (k @ xs) = None"
  shows "good_change R t (fmdrop k t)"
proof -
  have k: "k \<noteq> []" using assms(2) by (auto simp: strict_prefix_def)
  have "wf_tree (fmdrop k t)"
    unfolding wf_tree_def
  proof (intro allI impI)
    fix j x assume "fmlookup (fmdrop k t) j = Some x"
    then have j: "fmlookup t j = Some x" "j \<noteq> k" by (auto split: if_splits)
    then obtain m where m: "entry t (butlast j) = Some (Dir m)" "j \<noteq> []" "plain_key j"
      using assms(1) by (auto simp: wf_tree_def)
    have "butlast j \<noteq> k"
    proof
      assume "butlast j = k"
      then have "j = k @ [last j]" using m(2) by (metis append_butlast_last_id)
      then show False using assms(3)[of "[last j]"] j(1) by simp
    qed
    then show "j \<noteq> [] \<and> plain_key j \<and> (\<exists>m. entry (fmdrop k t) (butlast j) = Some (Dir m))"
      using m by (auto simp: entry_def)
  qed
  moreover have "linkfree (fmdrop k t) j" if "linkfree t j" for j
    using that k by (auto simp: linkfree_def entry_def split: if_splits)
  moreover have "same_outside R t (fmdrop k t)" using assms(2) by (auto simp: same_outside_def)
  ultimately show ?thesis by (simp add: good_change_def)
qed

text \<open>Below the new place of a subtree there are the nodes of the old one.\<close>

lemma graft_changes:
  assumes wf: "wf_tree t" and R: "strict_prefix R a" "strict_prefix R b"
    and parent: "\<exists>m. entry t (butlast b) = Some (Dir m)" and a: "fmlookup t a = Some n"
    and pb: "plain_key b" and apart: "\<not> prefix a b \<or> \<not> is_dir n \<and> a \<noteq> b" and bdir: "\<And>m. entry t b \<noteq> Some (Dir m)"
  shows "wf_tree (graft t a b)" and "same_outside R t (graft t a b)"
    and "\<And>k. linkfree t k \<Longrightarrow> \<not> prefix b k \<or> (\<forall>xs. linkfree t (a @ xs)) \<Longrightarrow> linkfree (graft t a b) k"
proof -
  have ne: "a \<noteq> []" "b \<noteq> []" using R by (auto simp: strict_prefix_def)
  have ab: "\<not> prefix a (butlast b)"
  proof
    assume p: "prefix a (butlast b)"
    then have "prefix a b" using prefixeq_butlast prefix_order.trans by blast
    then have nd: "\<not> is_dir n" "a \<noteq> b" using apart by auto
    obtain zs where zs: "butlast b = a @ zs" using p by (rule prefixE)
    have "entry t a = Some n" using a ne by (simp add: entry_def)
    moreover have "\<exists>m. entry t a = Some (Dir m)"
      using parent wf_tree_above[OF wf, of a zs] by (cases "zs = []") (auto simp: zs entry_def split: if_splits)
    ultimately show False using nd by (auto simp: is_dir_def)
  qed
  have bb: "\<not> prefix b (butlast b)"
  proof -
    obtain u x where u: "b = u @ [x]" using ne(2) by (cases b rule: rev_cases) auto
    show ?thesis using prefix_length_le[of "u @ [x]" u] by (auto simp: u)
  qed
  have par: "entry (graft t a b) (butlast b) = entry t (butlast b)"
    using ab bb by (simp add: entry_def lookup_graft)
  show "wf_tree (graft t a b)"
    unfolding wf_tree_def
  proof (intro allI impI)
    fix j x assume j: "fmlookup (graft t a b) j = Some x"
    show "j \<noteq> [] \<and> plain_key j \<and> (\<exists>m. entry (graft t a b) (butlast j) = Some (Dir m))"
    proof (cases "prefix b j")
      case True
      then obtain zs where zs: "j = b @ zs" by (rule prefixE)
      have az: "fmlookup t (a @ zs) = Some x" using j by (simp add: lookup_graft zs)
      then have pj: "plain_key j" using wf pb zs by (auto simp: wf_tree_def)
      show ?thesis
      proof (cases "zs = []")
        case True
        then show ?thesis using par parent zs ne pj by simp
      next
        case False
        then have bl: "butlast j = b @ butlast zs" by (simp add: zs butlast_append)
        obtain m where "entry t (butlast (a @ zs)) = Some (Dir m)" using wf az by (auto simp: wf_tree_def)
        then have "entry t (a @ butlast zs) = Some (Dir m)" using False by (simp add: butlast_append)
        then have "fmlookup (graft t a b) (b @ butlast zs) = Some (Dir m)" using ne by (simp add: lookup_graft entry_def)
        then show ?thesis using bl ne zs pj by (simp add: entry_def)
      qed
    next
      case False
      then have tj: "fmlookup t j = Some x" "\<not> prefix a j" using j by (auto simp: lookup_graft split: if_splits)
      then obtain m where m: "entry t (butlast j) = Some (Dir m)" "j \<noteq> []" "plain_key j"
        using wf by (auto simp: wf_tree_def)
      have "\<not> prefix b (butlast j)"
        using False prefixeq_butlast prefix_order.trans by blast
      moreover have "\<not> prefix a (butlast j)"
        using tj(2) prefixeq_butlast prefix_order.trans by blast
      ultimately show ?thesis using m by (auto simp: entry_def lookup_graft)
    qed
  qed
  show "same_outside R t (graft t a b)"
    unfolding same_outside_def
  proof (intro allI impI)
    fix k assume k: "\<not> strict_prefix R k"
    have "\<not> prefix b k" "\<not> prefix a k" using R k prefix_order.less_le_trans by blast+
    then show "fmlookup (graft t a b) k = fmlookup t k" by (simp add: lookup_graft)
  qed
  show "linkfree (graft t a b) k" if k: "linkfree t k" and sub: "\<not> prefix b k \<or> (\<forall>xs. linkfree t (a @ xs))" for k
    unfolding linkfree_def
  proof (intro allI impI)
    fix j x assume j: "prefix j k" "entry (graft t a b) j = Some x"
    show "\<not> is_link x"
    proof (cases "prefix b j")
      case True
      then obtain zs where zs: "j = b @ zs" by (rule prefixE)
      then have "entry t (a @ zs) = Some x" using j(2) ne by (simp add: entry_def lookup_graft)
      moreover have "prefix b k" using True j(1) by (rule prefix_order.trans)
      ultimately show ?thesis using sub by (auto simp: linkfree_def)
    next
      case False
      then have "entry t j = Some x" using j(2) by (auto simp: entry_def lookup_graft split: if_splits)
      then show ?thesis using k j(1) by (auto simp: linkfree_def)
    qed
  qed
qed

section \<open>Triples\<close>

definition triple :: "('s \<Rightarrow> bool) \<Rightarrow> ('s, 'e, 'a) run \<Rightarrow> ('a \<Rightarrow> 's \<Rightarrow> bool) \<Rightarrow> ('s \<Rightarrow> bool) \<Rightarrow> bool" where
  "triple P m Q E \<longleftrightarrow> (\<forall>w. P w \<longrightarrow> (case m w of (Inl _, w') \<Rightarrow> E w' | (Inr x, w') \<Rightarrow> Q x w'))"

lemma triple_return: "(\<And>w. P w \<Longrightarrow> Q x w) \<Longrightarrow> triple P (io_return x) Q E"
  by (simp add: triple_def io_return_def)

lemma triple_fail: "(\<And>w. P w \<Longrightarrow> E w) \<Longrightarrow> triple P (io_fail e) Q E"
  by (simp add: triple_def io_fail_def)

lemma triple_of: "(\<And>x w. r = Inr x \<Longrightarrow> P w \<Longrightarrow> Q x w) \<Longrightarrow> (\<And>w. P w \<Longrightarrow> E w) \<Longrightarrow> triple P (io_of r) Q E"
  by (cases r) (auto simp: triple_def io_of_def)

text \<open>The two parts of a triple, for a run with a known outcome.\<close>

lemma tripleI:
  assumes "\<And>w e w'. P w \<Longrightarrow> m w = (Inl e, w') \<Longrightarrow> E w'" and "\<And>w x w'. P w \<Longrightarrow> m w = (Inr x, w') \<Longrightarrow> Q x w'"
  shows "triple P m Q E"
  unfolding triple_def
proof (intro allI impI)
  fix w assume "P w"
  obtain r w' where m: "m w = (r, w')" by fastforce
  show "case m w of (Inl _, w') \<Rightarrow> E w' | (Inr x, w') \<Rightarrow> Q x w'"
    using assms[OF \<open>P w\<close>] m by (cases r) simp_all
qed

lemma tripleD:
  assumes "triple P m Q E" and "P w"
  shows "m w = (Inl e, w') \<Longrightarrow> E w'" and "m w = (Inr x, w') \<Longrightarrow> Q x w'"
  using assms unfolding triple_def by force+

lemma io_bind_cases:
  assumes "io_bind m k w = (r, w')"
  obtains (first) e where "m w = (Inl e, w')" "r = Inl e"
  | (both) x v where "m w = (Inr x, v)" "k x v = (r, w')"
proof -
  obtain q v where m: "m w = (q, v)" by fastforce
  show thesis using assms m that by (cases q) (auto simp: io_bind_def)
qed

lemma triple_bind:
  assumes "triple P m R E" and "\<And>x. triple (R x) (k x) Q E"
  shows "triple P (io_bind m k) Q E"
proof (rule tripleI)
  fix w e w' assume w: "P w" "io_bind m k w = (Inl e, w')"
  from w(2) show "E w'"
    by (cases rule: io_bind_cases) (use tripleD(1)[OF assms(1) w(1)] tripleD(2)[OF assms(1) w(1)] tripleD(1)[OF assms(2)] in blast)+
next
  fix w x w' assume w: "P w" "io_bind m k w = (Inr x, w')"
  from w(2) show "Q x w'"
    by (cases rule: io_bind_cases) (use tripleD(2)[OF assms(1) w(1)] tripleD(2)[OF assms(2)] in blast)+
qed

lemma triple_then:
  "triple P m (\<lambda>_. R) E \<Longrightarrow> triple R k Q E \<Longrightarrow> triple P (io_then m k) Q E"
  unfolding io_then_def by (rule triple_bind)

lemma triple_map_error:
  assumes "triple P m Q E"
  shows "triple P (io_map_error f m) Q E"
  by (rule tripleI) (use tripleD[OF assms] in \<open>auto simp: io_map_error_def split: prod.splits sum.splits\<close>)

lemma triple_try:
  assumes "triple P m (\<lambda>x. Q (Inr x)) (\<lambda>w. \<forall>e. Q (Inl e) w)"
  shows "triple P (io_try m) Q E"
proof (rule tripleI)
  fix w r w' assume w: "P w" "io_try m w = (Inr r, w')"
  then have m: "m w = (r, w')" by (simp add: io_try_def split: prod.splits)
  show "Q r w'" using tripleD[OF assms w(1)] m by (cases r) auto
qed (simp add: io_try_def split: prod.splits)

lemma triple_try_same: "triple P m (\<lambda>_. R) R \<Longrightarrow> triple P (io_try m) (\<lambda>_. R) E"
  by (rule triple_try) simp

lemma triple_on_error:
  assumes "triple P m Q E'" and "triple E' c (\<lambda>_. E) E"
  shows "triple P (io_on_error m c) Q E"
proof (rule tripleI)
  fix w e w' assume w: "P w" "io_on_error m c w = (Inl e, w')"
  then obtain e' v where m: "m w = (Inl e', v)" "w' = snd (c v)"
    by (auto simp: io_on_error_def split: prod.splits sum.splits)
  have "E' v" using tripleD(1)[OF assms(1) w(1) m(1)] .
  then show "E w'" using tripleD[OF assms(2)] m(2) by (cases "c v"; cases "fst (c v)") auto
next
  fix w x w' assume "P w" "io_on_error m c w = (Inr x, w')"
  then show "Q x w'" using tripleD(2)[OF assms(1)] by (auto simp: io_on_error_def split: prod.splits sum.splits)
qed

lemma triple_conseq:
  assumes "triple P m Q E" and "\<And>w. P' w \<Longrightarrow> P w" and "\<And>x w. Q x w \<Longrightarrow> Q' x w" and "\<And>w. E w \<Longrightarrow> E' w"
  shows "triple P' m Q' E'"
  by (rule tripleI) (use assms tripleD[OF assms(1)] in blast)+

lemma triple_pure: "(b \<Longrightarrow> triple P m Q E) \<Longrightarrow> triple (\<lambda>w. b \<and> P w) m Q E"
  by (auto simp: triple_def)

lemma triple_each:
  "(\<And>x. x \<in> set xs \<Longrightarrow> triple I (f x) (\<lambda>_. I) E) \<Longrightarrow> triple I (io_each f xs) (\<lambda>_. I) E"
proof (induction xs)
  case Nil
  show ?case by (simp add: triple_return)
next
  case (Cons x xs)
  then show ?case by (auto intro!: triple_then)
qed

section \<open>Assertions\<close>

text \<open>
  No other process interferes (calls may still fail), and the random parts of temporary names
  are digits.
\<close>

definition calm :: "world \<Rightarrow> bool" where
  "calm w \<longleftrightarrow> (\<forall>ev \<in> set (w_events w). case ev of Interfere _ \<Rightarrow> False | _ \<Rightarrow> True) \<and>
     (\<forall>r \<in> set (w_random w). r \<noteq> [] \<and> list_all is_digit r)"

definition st :: "key \<Rightarrow> tree \<Rightarrow> key set \<Rightarrow> world \<Rightarrow> bool" where
  "st R t0 K w \<longleftrightarrow> calm w \<and> wf_tree (w_tree w) \<and> same_outside R t0 (w_tree w) \<and> (\<forall>k \<in> K. linkfree (w_tree w) k)"

lemma st_mono: "st R t0 K w \<Longrightarrow> K' \<subseteq> K \<Longrightarrow> st R t0 K' w"
  by (auto simp: st_def)

text \<open>The keys known to be link free are closed under prefixes.\<close>

definition known :: "key set \<Rightarrow> key \<Rightarrow> bool" where
  "known K k \<longleftrightarrow> (\<exists>j \<in> K. prefix k j)"

lemma st_known: "st R t0 K w \<Longrightarrow> known K k \<Longrightarrow> linkfree (w_tree w) k"
  using linkfree_prefix by (auto simp: st_def known_def)

lemma knownI: "k \<in> K \<Longrightarrow> known K k"
  by (auto simp: known_def)

lemma known_butlast: "known K k \<Longrightarrow> known K (butlast k)"
  unfolding known_def using prefixeq_butlast prefix_order.trans by blast

lemma known_mono: "known K k \<Longrightarrow> K \<subseteq> K' \<Longrightarrow> known K' k"
  by (auto simp: known_def)

definition subtree :: "key \<Rightarrow> key set" where
  "subtree k = {k @ xs | xs. True}"

lemma subtree_mem [simp]: "k @ xs \<in> subtree k" "k \<in> subtree k"
  by (auto simp: subtree_def)

lemma calm_perform: "calm w \<Longrightarrow> calm (w\<lparr>w_tree := t, w_fresh := n\<rparr>)" "calm w \<Longrightarrow> calm (w\<lparr>w_fresh := n\<rparr>)"
  by (simp_all add: calm_def)

lemma syscall_calm:
  assumes "calm w"
  obtains (failed) w' where "syscall f w = (Inl EIO, w')" "calm w'" "w_tree w' = w_tree w"
  | (error) e w' n where "syscall f w = (Inl e, w')" "calm w'" "w_tree w' = w_tree w" "f n (w_tree w) = Inl e"
  | (ok) x w' n where "syscall f w = (Inr x, w')" "calm w'" "f n (w_tree w) = Inr (x, w_tree w')"
proof -
  have run: thesis if "syscall f w = perform f v" "calm v" "w_tree v = w_tree w" for v
  proof (cases "f (w_fresh v) (w_tree v)")
    case (Inl e)
    then show ?thesis using that error by (simp add: perform_def calm_perform)
  next
    case (Inr p)
    then show ?thesis using that ok by (cases p) (simp add: perform_def calm_perform)
  qed
  show ?thesis
  proof (cases "w_events w")
    case Nil
    then show ?thesis using run[of w] assms by (simp add: syscall_def)
  next
    case (Cons ev evs)
    have c: "calm (w\<lparr>w_events := evs\<rparr>)" using assms Cons by (auto simp: calm_def)
    show ?thesis
    proof (cases ev)
      case Quiet
      then show ?thesis using run[of "w\<lparr>w_events := evs\<rparr>"] c Cons by (simp add: syscall_def)
    next
      case Fail
      then show ?thesis using failed c Cons by (simp add: syscall_def)
    next
      case (Interfere g)
      then show ?thesis using assms Cons by (auto simp: calm_def)
    qed
  qed
qed

lemma query_calm:
  assumes "calm w" and "query f w = (r, w')"
  shows "calm w' \<and> w_tree w' = w_tree w \<and> (r = Inl EIO \<or> r = f (w_tree w))"
  using assms(1)
proof (cases rule: syscall_calm[where f = "\<lambda>_ t. map_sum id (\<lambda>x. (x, t)) (f t)"])
  case (ok x v n)
  then show ?thesis using assms(2) by (cases "f (w_tree w)") (auto simp: query_def)
next
  case (error e v n)
  then show ?thesis using assms(2) by (cases "f (w_tree w)") (auto simp: query_def)
qed (use assms(2) in \<open>auto simp: query_def\<close>)

lemma change_calm:
  assumes "calm w" and "change f w = (r, w')"
  shows "calm w' \<and> (case r of Inl _ \<Rightarrow> w_tree w' = w_tree w | Inr _ \<Rightarrow> \<exists>n. f n (w_tree w) = Inr (w_tree w'))"
  using assms(1)
proof (cases rule: syscall_calm[where f = "\<lambda>n t. map_sum id (Pair ()) (f n t)"])
  case (ok x v n)
  then show ?thesis using assms(2) by (cases "f n (w_tree w)") (auto simp: change_def)
qed (use assms(2) in \<open>auto simp: change_def\<close>)

lemma triple_query: "triple (st R t0 K) (query f) (\<lambda>x w. st R t0 K w \<and> f (w_tree w) = Inr x) (st R t0 K)"
  by (rule tripleI) (use query_calm in \<open>fastforce simp: st_def\<close>)+

lemma triple_change:
  assumes "\<And>n t t'. wf_tree t \<Longrightarrow> (\<And>k. known K k \<Longrightarrow> linkfree t k) \<Longrightarrow> f n t = Inr t' \<Longrightarrow>
      wf_tree t' \<and> same_outside R t t' \<and> (\<forall>k \<in> K'. linkfree t' k)"
  shows "triple (st R t0 K) (change f) (\<lambda>_. st R t0 K') (st R t0 K)"
proof (rule tripleI)
  fix w e w' assume "st R t0 K w" "change f w = (Inl e, w')"
  then show "st R t0 K w'" using change_calm[of w f] by (auto simp: st_def)
next
  fix w x w' assume w: "st R t0 K w" and c: "change f w = (Inr x, w')"
  then obtain n where n: "calm w'" "f n (w_tree w) = Inr (w_tree w')"
    using change_calm[of w f] by (auto simp: st_def)
  then have "wf_tree (w_tree w') \<and> same_outside R (w_tree w) (w_tree w') \<and> (\<forall>k \<in> K'. linkfree (w_tree w') k)"
    using assms[OF _ _ n(2)] w st_known[OF w] by (auto simp: st_def)
  then show "st R t0 K' w'" using n(1) w same_outside_trans by (auto simp: st_def)
qed

section \<open>The calls\<close>

lemma linkfree_snoc: "linkfree t k \<Longrightarrow> (\<And>n. entry t (k @ [x]) = Some n \<Longrightarrow> \<not> is_link n) \<Longrightarrow> linkfree t (k @ [x])"
  by (auto simp: linkfree_def prefix_snoc)

lemma linkfree_missing:
  assumes "wf_tree t" "linkfree t k" "entry t (k @ [x]) = None"
  shows "linkfree t (k @ [x] @ xs)"
  unfolding linkfree_def
proof (intro allI impI)
  fix j n assume j: "prefix j (k @ [x] @ xs)" "entry t j = Some n"
  show "\<not> is_link n"
  proof (cases "prefix j k")
    case True
    then show ?thesis using assms(2) j(2) by (auto simp: linkfree_def)
  next
    case False
    then have "prefix (k @ [x]) j" using j(1) by (auto simp: prefix_append prefix_Cons)
    then obtain zs where zs: "j = (k @ [x]) @ zs" by (rule prefixE)
    then have "fmlookup t ((k @ [x]) @ zs) = None"
      using wf_tree_nothing_below[OF assms(1), of "k @ [x]" zs] assms(3) by (cases "zs = []") (simp_all add: entry_def)
    then show ?thesis using j(2) zs by (simp add: entry_def)
  qed
qed

text \<open>
  What \<open>lstat\<close> tells about a path whose parent is known: when the entry is missing nothing
  below it is a link; when it is not a link, the path itself is known.
\<close>

lemma triple_try_lstat:
  assumes p: "is_abs p" "clean_elements p = k @ [x]" "known K k"
  shows "triple (st R t0 K) (io_try (lstat p))
     (\<lambda>r w. case r of
        Inl e \<Rightarrow> if e = ENOENT then st R t0 (K \<union> subtree (k @ [x])) w else st R t0 K w
      | Inr n \<Rightarrow> if is_link n then st R t0 K w else st R t0 (insert (k @ [x]) K) w) E"
proof (rule tripleI)
  fix w r w' assume w: "st R t0 K w" "io_try (lstat p) w = (Inr r, w')"
  then have q: "lstat p w = (r, w')" by (simp add: io_try_def split: prod.splits)
  let ?t = "w_tree w"
  have c: "calm w'" "w_tree w' = ?t" "r = Inl EIO \<or> r = node_at ?t (locate ?t p)"
    using query_calm[of w _ r w'] q w(1) unfolding lstat_def by (auto simp: st_def)
  have wf: "wf_tree ?t" using w(1) by (simp add: st_def)
  have lf: "linkfree ?t k" using st_known[OF w(1) p(3)] .
  have stw: "st R t0 K w'" using w(1) c by (simp add: st_def)
  show "case r of Inl e \<Rightarrow> if e = ENOENT then st R t0 (K \<union> subtree (k @ [x])) w' else st R t0 K w'
      | Inr n \<Rightarrow> if is_link n then st R t0 K w' else st R t0 (insert (k @ [x]) K) w'"
  proof (cases r)
    case (Inl e)
    have "st R t0 (K \<union> subtree (k @ [x])) w'" if "e = ENOENT"
    proof -
      have none: "entry ?t (k @ [x]) = None"
      proof (rule ccontr)
        assume "entry ?t (k @ [x]) \<noteq> None"
        then obtain n where n: "fmlookup ?t (clean_elements p) = Some n" by (auto simp: entry_def p(2))
        have "node_at ?t (locate ?t p) = Inr n"
          using locate_present[OF wf p(1) n] n by (simp add: node_at_def entry_def p(2))
        then show False using c(3) Inl that by simp
      qed
      have "linkfree ?t j" if "j \<in> subtree (k @ [x])" for j
        using that linkfree_missing[OF wf lf none] by (auto simp: subtree_def)
      then show ?thesis using stw c(2) by (auto simp: st_def)
    qed
    then show ?thesis using Inl stw by simp
  next
    case (Inr n)
    then obtain j where j: "locate ?t p = Inr j" "entry ?t j = Some n"
      using c(3) by (auto simp: node_at_def split: sum.splits option.splits)
    have "j = k @ [x]" using locate_linkfree(1)[OF j(1) p(1)] lf by (simp add: p(2))
    then have "entry ?t (k @ [x]) = Some n" using j(2) by simp
    then have "linkfree ?t (k @ [x])" if "\<not> is_link n" by (intro linkfree_snoc[OF lf]) (use that in simp)
    then show ?thesis using Inr stw c(2) by (auto simp: st_def)
  qed
qed (simp add: io_try_def split: prod.splits)

lemma triple_lstat:
  "triple (st R t0 K) (lstat p) (\<lambda>n w. st R t0 K w \<and> node_at (w_tree w) (locate (w_tree w) p) = Inr n) (st R t0 K)"
  unfolding lstat_def by (rule triple_query)

lemma triple_open_file:
  "triple (st R t0 K) (open_file p) (\<lambda>n w. st R t0 K w \<and> node_at (w_tree w) (locate_final (w_tree w) p) = Inr n) (st R t0 K)"
  unfolding open_file_def by (rule triple_query)

lemma triple_sync: "triple (st R t0 K) (sync_file p) (\<lambda>_. st R t0 K) (st R t0 K)"
  unfolding sync_file_def by (rule triple_conseq[OF triple_query]) auto

text \<open>A new entry: its parent is a directory, and there is nothing below it.\<close>

lemma new_entry:
  assumes "wf_tree t" "locate t p = Inr k" "is_abs p" "linkfree t (butlast (clean_elements p))"
    and "entry t k = None" "strict_prefix R (clean_elements p)" "\<not> is_link n"
  shows "good_change R t (fmupd k n t)" and "\<And>xs. linkfree (fmupd k n t) (clean_elements p @ xs)"
proof -
  have k: "k = clean_elements p" by (rule locate_linkfree(1)[OF assms(2-4)])
  have ne: "k \<noteq> []" using assms(6) k by (auto simp: strict_prefix_def)
  then have parent: "\<exists>m. entry t (butlast k) = Some (Dir m)" using locate_linkfree(2)[OF assms(2-4)] by simp
  show good: "good_change R t (fmupd k n t)"
    by (rule good_upd[OF assms(1) _ parent assms(7)]) (use assms(3,5,6) k plain_key_elements in simp_all)
  show "linkfree (fmupd k n t) (clean_elements p @ xs)" for xs
    unfolding linkfree_def
  proof (intro allI impI)
    fix j x assume j: "prefix j (clean_elements p @ xs)" "entry (fmupd k n t) j = Some x"
    show "\<not> is_link x"
    proof (cases "prefix j (butlast k)")
      case True
      have "linkfree (fmupd k n t) (butlast k)" using good assms(4) k by (simp add: good_change_def)
      then show ?thesis using True j(2) by (auto simp: linkfree_def)
    next
      case False
      then have "prefix k j" using j(1) k ne
        by (metis append_butlast_last_id prefix_append prefix_order.refl prefix_same_cases prefix_snoc)
      then obtain zs where zs: "j = k @ zs" by (rule prefixE)
      have "fmlookup t (k @ zs) = None" if "zs \<noteq> []"
        using wf_tree_nothing_below[OF assms(1), of k zs] assms(5) that by simp
      then show ?thesis using j(2) zs ne assms(7) by (cases "zs = []") (auto simp: entry_def)
    qed
  qed
qed

lemma triple_mkdir:
  assumes p: "is_abs p" "strict_prefix R (clean_elements p)" "known K (butlast (clean_elements p))"
  shows "triple (st R t0 K) (mkdir p m) (\<lambda>_. st R t0 (K \<union> subtree (clean_elements p))) (st R t0 K)"
  unfolding mkdir_def
proof (rule triple_change)
  fix n t t' assume t: "wf_tree t" "\<And>k. known K k \<Longrightarrow> linkfree t k" "mkdir_tree p m t = Inr t'"
  then obtain k where k: "locate t p = Inr k" "entry t k = None" "t' = fmupd k (Dir m) t"
    by (auto simp: mkdir_tree_def split: sum.splits option.splits)
  note new = new_entry[OF t(1) k(1) p(1) t(2)[OF p(3)] k(2) p(2), of "Dir m"]
  show "wf_tree t' \<and> same_outside R t t' \<and> (\<forall>k \<in> K \<union> subtree (clean_elements p). linkfree t' k)"
    using new t(2) unfolding k(3) by (auto simp: good_change_def subtree_def knownI)
qed

lemma triple_create:
  assumes p: "is_abs p" "strict_prefix R (clean_elements p)" "known K (butlast (clean_elements p))"
  shows "triple (st R t0 K) (change (\<lambda>n. create_tree p m n)) (\<lambda>_. st R t0 (K \<union> subtree (clean_elements p))) (st R t0 K)"
proof (rule triple_change)
  fix n t t' assume t: "wf_tree t" "\<And>k. known K k \<Longrightarrow> linkfree t k" "create_tree p m n t = Inr t'"
  then obtain k where k: "locate t p = Inr k" "entry t k = None" "t' = fmupd k (File n m []) t"
    by (auto simp: create_tree_def split: sum.splits option.splits)
  note new = new_entry[OF t(1) k(1) p(1) t(2)[OF p(3)] k(2) p(2), of "File n m []"]
  show "wf_tree t' \<and> same_outside R t t' \<and> (\<forall>k \<in> K \<union> subtree (clean_elements p). linkfree t' k)"
    using new t(2) unfolding k(3) by (auto simp: good_change_def subtree_def knownI)
qed

text \<open>A change of an entry that exists.\<close>

lemma triple_update:
  assumes "strict_prefix R e"
    and "\<And>n t t'. wf_tree t \<Longrightarrow> (\<And>k. known K k \<Longrightarrow> linkfree t k) \<Longrightarrow> f n t = Inr t' \<Longrightarrow>
      \<exists>old new. fmlookup t e = Some old \<and> t' = fmupd e new t \<and> \<not> is_link new \<and> (is_dir old \<longrightarrow> is_dir new)"
  shows "triple (st R t0 K) (change f) (\<lambda>_. st R t0 K) (st R t0 K)"
proof (rule triple_change)
  fix n t t' assume t: "wf_tree t" "\<And>k. known K k \<Longrightarrow> linkfree t k" "f n t = Inr t'"
  then obtain old new where e: "fmlookup t e = Some old" "t' = fmupd e new t" "\<not> is_link new" "is_dir old \<longrightarrow> is_dir new"
    using assms(2) by blast
  have "good_change R t (fmupd e new t)"
  proof (rule good_upd[OF t(1) assms(1) _ e(3)])
    show "\<exists>m. entry t (butlast e) = Some (Dir m)" using t(1) e(1) by (auto simp: wf_tree_def)
    show "plain_key e" using t(1) e(1) by (auto simp: wf_tree_def)
    show "is_dir new" if "entry t e = Some (Dir m)" for m
      using that e(1,4) assms(1) by (auto simp: entry_def split: if_splits)
  qed
  then show "wf_tree t' \<and> same_outside R t t' \<and> (\<forall>k \<in> K. linkfree t' k)"
    using t(2) unfolding e(2) by (auto simp: good_change_def knownI)
qed

lemma triple_chmod:
  assumes p: "is_abs p" "strict_prefix R (clean_elements p)" "known K (clean_elements p)"
  shows "triple (st R t0 K) (chmod p m) (\<lambda>_. st R t0 K) (st R t0 K)"
  unfolding chmod_def
proof (rule triple_update[OF p(2)])
  fix n t t' assume t: "wf_tree t" "\<And>k. known K k \<Longrightarrow> linkfree t k" "chmod_tree p m t = Inr t'"
  then obtain k old where k: "locate_final t p = Inr k" "fmlookup t k = Some old" "t' = fmupd k (chmod_node m old) t"
    by (auto simp: chmod_tree_def split: sum.splits option.splits)
  have e: "k = clean_elements p" by (rule locate_final_linkfree[OF k(1) p(1) t(2)[OF p(3)]])
  have "\<not> is_link old"
    using linkfree_at[OF t(2)[OF p(3)] k(2)[unfolded e]] strict_prefix_nonempty[OF p(2)] by simp
  then show "\<exists>old new. fmlookup t (clean_elements p) = Some old \<and> t' = fmupd (clean_elements p) new t \<and> \<not> is_link new \<and>
      (is_dir old \<longrightarrow> is_dir new)"
    using k(2,3) unfolding e by (cases old) (auto simp: chmod_node_def)
qed

lemma triple_write_file:
  assumes p: "is_abs p" "strict_prefix R (clean_elements p)" "known K (clean_elements p)"
  shows "triple (st R t0 K) (write_file p d) (\<lambda>_. st R t0 K) (st R t0 K)"
  unfolding write_file_def
proof (rule triple_update[OF p(2)])
  fix n t t' assume t: "wf_tree t" "\<And>k. known K k \<Longrightarrow> linkfree t k" "append_tree p d t = Inr t'"
  then obtain k i m old where k: "locate_final t p = Inr k" "fmlookup t k = Some (File i m old)" "t' = fmupd k (File i m (old @ d)) t"
    by (auto simp: append_tree_def split: sum.splits option.splits node.splits)
  have e: "k = clean_elements p" by (rule locate_final_linkfree[OF k(1) p(1) t(2)[OF p(3)]])
  show "\<exists>old new. fmlookup t (clean_elements p) = Some old \<and> t' = fmupd (clean_elements p) new t \<and> \<not> is_link new \<and>
      (is_dir old \<longrightarrow> is_dir new)"
    using k(2,3) unfolding e by auto
qed

lemma remove_key_good:
  assumes "wf_tree t" "remove_key k t = Inr t'" "strict_prefix R k"
  shows "good_change R t t'"
proof -
  obtain old where k: "fmlookup t k = Some old" "t' = fmdrop k t" "is_dir old \<longrightarrow> below t k = [k]"
    using assms(2) by (auto simp: remove_key_def split: option.splits node.splits if_splits)
  have none: "fmlookup t (k @ xs) = None" if "xs \<noteq> []" for xs
  proof (cases "is_dir old")
    case True
    then have b: "set (below t k) = {k}" using k(3) by simp
    show ?thesis
    proof (rule ccontr)
      assume "fmlookup t (k @ xs) \<noteq> None"
      then have "k @ xs \<in> set (below t k)" by (auto simp: set_below fmlookup_dom'_iff)
      then show False using b that by simp
    qed
  next
    case False
    then show ?thesis using wf_tree_nothing_below[OF assms(1), of k xs] k(1) that strict_prefix_nonempty[OF assms(3)]
      by (auto simp: entry_def is_dir_iff)
  qed
  show ?thesis unfolding k(2) by (rule good_drop[OF assms(1,3) none])
qed

lemma triple_remove_key:
  assumes "strict_prefix R k"
  shows "triple (st R t0 K) (change (\<lambda>_. remove_key k)) (\<lambda>_. st R t0 K) (st R t0 K)"
proof (rule triple_change)
  fix n t t' assume t: "wf_tree t" "\<And>k. known K k \<Longrightarrow> linkfree t k" "remove_key k t = Inr t'"
  show "wf_tree t' \<and> same_outside R t t' \<and> (\<forall>k \<in> K. linkfree t' k)"
    using remove_key_good[OF t(1,3) assms] t(2) by (auto simp: good_change_def knownI)
qed

lemma triple_remove:
  assumes p: "is_abs p" "strict_prefix R (clean_elements p)" "known K (butlast (clean_elements p))"
  shows "triple (st R t0 K) (remove p) (\<lambda>_. st R t0 K) (st R t0 K)"
  unfolding remove_def
proof (rule triple_change)
  fix n t t' assume t: "wf_tree t" "\<And>k. known K k \<Longrightarrow> linkfree t k" "remove_tree p t = Inr t'"
  then obtain k where k: "locate t p = Inr k" "remove_key k t = Inr t'"
    by (auto simp: remove_tree_def split: sum.splits)
  have e: "k = clean_elements p" by (rule locate_linkfree(1)[OF k(1) p(1) t(2)[OF p(3)]])
  show "wf_tree t' \<and> same_outside R t t' \<and> (\<forall>k \<in> K. linkfree t' k)"
    using remove_key_good[OF t(1) k(2)] p(2) t(2) e by (auto simp: good_change_def knownI)
qed

lemma triple_remove_each:
  "list_all (strict_prefix R) ks \<Longrightarrow> triple (st R t0 K) (remove_each ks) (\<lambda>_. st R t0 K) (st R t0 K)"
proof (induction ks)
  case Nil
  then show ?case by (auto intro: triple_return)
next
  case (Cons k ks)
  then have rest: "triple (st R t0 K) (remove_each ks) (\<lambda>_. st R t0 K) (st R t0 K)"
    and k: "strict_prefix R k" by simp_all
  show ?case
    unfolding remove_each.simps
  proof (rule triple_bind)
    show "triple (st R t0 K) (io_try (change (\<lambda>_. remove_key k))) (\<lambda>_. st R t0 K) (st R t0 K)"
      by (rule triple_try_same[OF triple_remove_key[OF k]])
    fix r :: "errno + unit"
    have again: "triple (st R t0 K) (io_bind (io_try (remove_each ks)) (\<lambda>_. io_fail e)) (\<lambda>_. st R t0 K) (st R t0 K)" for e
      by (rule triple_bind[OF triple_try_same[OF rest]]) (auto intro: triple_fail)
    show "triple (st R t0 K)
        (case r of Inr _ \<Rightarrow> remove_each ks | Inl ENOENT \<Rightarrow> remove_each ks
         | Inl e \<Rightarrow> io_bind (io_try (remove_each ks)) (\<lambda>_. io_fail e)) (\<lambda>_. st R t0 K) (st R t0 K)"
      using rest again by (auto split: sum.split errno.split)
  qed
qed

lemma triple_remove_all:
  assumes p: "is_abs p" "strict_prefix R (clean_elements p)" "known K (butlast (clean_elements p))"
  shows "triple (st R t0 K) (remove_all p) (\<lambda>_. st R t0 K) (st R t0 K)"
  unfolding remove_all_def
proof (rule triple_bind)
  show "triple (st R t0 K) (io_try (keys_below p))
      (\<lambda>r w. (case r of Inl _ \<Rightarrow> True | Inr ks \<Rightarrow> list_all (strict_prefix R) ks) \<and> st R t0 K w) (st R t0 K)"
  proof (rule triple_try, rule tripleI)
    fix w e w' assume "st R t0 K w" "keys_below p w = (Inl e, w')"
    then show "\<forall>e. (case Inl e of Inl _ \<Rightarrow> True | Inr ks \<Rightarrow> list_all (strict_prefix R) ks) \<and> st R t0 K w'"
      using tripleD(1)[OF triple_query] unfolding keys_below_def by fastforce
  next
    fix w ks w' assume w: "st R t0 K w" "keys_below p w = (Inr ks, w')"
    from tripleD(2)[OF triple_query w(1) w(2)[unfolded keys_below_def]]
    have w': "st R t0 K w'" and k: "(case locate (w_tree w') p of Inl e \<Rightarrow> Inl e | Inr k \<Rightarrow> Inr (below (w_tree w') k)) = Inr ks" by blast+
    then obtain k where l: "locate (w_tree w') p = Inr k" "ks = below (w_tree w') k" by (auto split: sum.splits)
    have "k = clean_elements p" by (rule locate_linkfree(1)[OF l(1) p(1) st_known[OF w' p(3)]])
    then have "list_all (strict_prefix R) ks"
      using p(2) l(2) by (auto simp: list_all_iff set_below intro: prefix_order.less_le_trans)
    then show "(case Inr ks of Inl _ \<Rightarrow> True | Inr ks \<Rightarrow> list_all (strict_prefix R) ks) \<and> st R t0 K w'" using w' by simp
  qed
  fix r :: "errno + key list"
  show "triple (\<lambda>w. (case r of Inl _ \<Rightarrow> True | Inr ks \<Rightarrow> list_all (strict_prefix R) ks) \<and> st R t0 K w)
      (case r of Inl ENOENT \<Rightarrow> io_return () | Inl e \<Rightarrow> io_fail e | Inr ks \<Rightarrow> remove_each (rev ks))
      (\<lambda>_. st R t0 K) (st R t0 K)"
    by (rule triple_pure) (auto split: sum.splits errno.splits intro!: triple_return triple_fail triple_remove_each)
qed

text \<open>A rename keeps what is known when the moved subtree is known to hold no link.\<close>

lemma rename_tree_graft:
  assumes "wf_tree t" "rename_tree p q t = Inr t'" "is_abs p" "is_abs q"
    and "linkfree t (butlast (clean_elements p))" "linkfree t (butlast (clean_elements q))"
    and "strict_prefix R (clean_elements p)" "strict_prefix R (clean_elements q)"
  shows "wf_tree t'" and "same_outside R t t'"
    and "\<And>k. linkfree t k \<Longrightarrow> \<not> prefix (clean_elements q) k \<or> (\<forall>xs. linkfree t (clean_elements p @ xs)) \<Longrightarrow> linkfree t' k"
proof -
  let ?a = "clean_elements p" and ?b = "clean_elements q"
  obtain a b where l: "locate t p = Inr a" "locate t q = Inr b"
    using assms(2) by (auto simp: rename_tree_def split: sum.splits)
  have ab: "a = ?a" "b = ?b" using locate_linkfree(1)[OF l(1) assms(3,5)] locate_linkfree(1)[OF l(2) assms(4,6)] .
  have par: "\<exists>m. entry t (butlast ?b) = Some (Dir m)"
    using locate_linkfree(2)[OF l(2) assms(4,6)] strict_prefix_nonempty[OF assms(8)] unfolding ab(2) by blast
  obtain n where n: "fmlookup t ?a = Some n"
    using assms(2) l ab by (auto simp: rename_tree_def split: option.splits)
  have bd: "entry t ?b \<noteq> Some (Dir m)" for m
    using assms(2) l ab n by (auto simp: rename_tree_def split: option.splits)
  have cs: "t' = t \<or> t' = graft t ?a ?b \<and> (\<not> prefix ?a ?b \<or> \<not> is_dir n \<and> ?a \<noteq> ?b)"
    using assms(2) l ab n by (auto simp: rename_tree_def split: option.splits if_splits node.splits)
  have "wf_tree t' \<and> same_outside R t t' \<and>
      (\<forall>k. linkfree t k \<longrightarrow> \<not> prefix ?b k \<or> (\<forall>xs. linkfree t (?a @ xs)) \<longrightarrow> linkfree t' k)"
    using cs
  proof
    assume "t' = t"
    then show ?thesis using assms(1) by simp
  next
    assume g: "t' = graft t ?a ?b \<and> (\<not> prefix ?a ?b \<or> \<not> is_dir n \<and> ?a \<noteq> ?b)"
    note c = graft_changes[OF assms(1,7,8) par n plain_key_elements[OF assms(4)] conjunct2[OF g] bd]
    show ?thesis unfolding conjunct1[OF g] using c by blast
  qed
  then show "wf_tree t'" "same_outside R t t'"
    "\<And>k. linkfree t k \<Longrightarrow> \<not> prefix ?b k \<or> (\<forall>xs. linkfree t (?a @ xs)) \<Longrightarrow> linkfree t' k" by blast+
qed

lemma triple_rename:
  assumes p: "is_abs p" "strict_prefix R (clean_elements p)" "known K (butlast (clean_elements p))"
    and q: "is_abs q" "strict_prefix R (clean_elements q)" "known K (butlast (clean_elements q))"
    and K': "K' \<subseteq> K" "subtree (clean_elements p) \<subseteq> K \<or> (\<forall>k \<in> K'. \<not> prefix (clean_elements q) k)"
  shows "triple (st R t0 K) (rename p q) (\<lambda>_. st R t0 K') (st R t0 K)"
  unfolding rename_def
proof (rule triple_change)
  fix n t t' assume t: "wf_tree t" "\<And>k. known K k \<Longrightarrow> linkfree t k" "rename_tree p q t = Inr t'"
  note g = rename_tree_graft[OF t(1,3) p(1) q(1) t(2)[OF p(3)] t(2)[OF q(3)] p(2) q(2)]
  have "linkfree t' k" if "k \<in> K'" for k
  proof (rule g(3))
    show "linkfree t k" using that K'(1) t(2) by (auto simp: knownI)
    show "\<not> prefix (clean_elements q) k \<or> (\<forall>xs. linkfree t (clean_elements p @ xs))"
      using K'(2)
    proof
      assume sub: "subtree (clean_elements p) \<subseteq> K"
      have "linkfree t (clean_elements p @ xs)" for xs
        by (rule t(2)[OF knownI]) (use sub in \<open>auto simp: subtree_def\<close>)
      then show ?thesis by blast
    next
      assume "\<forall>k \<in> K'. \<not> prefix (clean_elements q) k"
      with that show ?thesis by blast
    qed
  qed
  then show "wf_tree t' \<and> same_outside R t t' \<and> (\<forall>k \<in> K'. linkfree t' k)" using g(1,2) by blast
qed

end
