(* ===== verification/SafeLogic.thy ===== *)
theory SafeLogic
  imports TreeLogic SafePath
begin

text \<open>
  Triples for the operations of \<open>internal/safepath\<close>: what a successful resolution guarantees of
  its candidate, and that every operation on a resolved path changes only entries strictly
  below the root, also when a call fails on the way.
\<close>

section \<open>Portable paths\<close>

lemma clean_elements_key_path:
  assumes "list_all plain_element k" "''..'' \<notin> set k"
  shows "clean_elements (key_path k) = k" and "is_abs (key_path k)"
  using elements_render[OF assms(1), of True] assms(2) clean_stack_no_dots[of k True "[]"]
  by (simp_all add: key_path_def clean_elements_def)

lemma bad_component_plain: "\<not> bad_component c \<Longrightarrow> CHR ''/'' \<notin> set c \<Longrightarrow> plain_element c \<and> c \<noteq> ''..''"
  by (auto simp: bad_component_def plain_element_def)

lemma normalize_portable_Inr:
  assumes "normalize_portable v = Inr s"
  shows "s = to_slashes v" and "s \<noteq> []" and "\<not> is_abs s" and "path_elements s = split_on CHR ''/'' s"
    and "''..'' \<notin> set (path_elements s)" and "list_all plain_element (path_elements s)" and "path_elements s \<noteq> []"
    and "\<And>c. c \<in> set (split_on CHR ''/'' s) \<Longrightarrow> \<not> bad_component c"
proof -
  let ?n = "to_slashes v"
  have n: "\<not> prefix ''/'' ?n" "\<not> list_ex bad_component (split_on CHR ''/'' ?n)" "s = clean_path ?n"
    using assms by (auto simp: normalize_portable_def Let_def split: if_splits)
  have ok: "plain_element c \<and> c \<noteq> ''..''" if "c \<in> set (split_on CHR ''/'' ?n)" for c
    using n(2) that split_on_fresh bad_component_plain by (auto simp: list_ex_iff)
  have pe: "path_elements ?n = split_on CHR ''/'' ?n"
    unfolding path_elements_def by (rule filter_True) (use ok in \<open>auto simp: plain_element_def\<close>)
  have abs: "\<not> is_abs ?n" using n(1) by (simp add: is_abs_def)
  have dots: "''..'' \<notin> set (path_elements ?n)" unfolding pe using ok by blast
  have ce: "clean_elements ?n = split_on CHR ''/'' ?n" using clean_relative[OF abs dots] pe by simp
  have ne: "split_on CHR ''/'' ?n \<noteq> []" by (rule split_on_nonempty)
  have s: "s = ?n" using n(3) abs ne by (simp add: clean_path_def render_clean_def ce join_split)
  show "s = ?n" "\<not> is_abs s" "path_elements s = split_on CHR ''/'' s" "''..'' \<notin> set (path_elements s)"
    using s abs pe dots by simp_all
  show "list_all plain_element (path_elements s)" by (rule path_elements_plain)
  show "path_elements s \<noteq> []" using s pe ne by simp
  then show "s \<noteq> []" by (auto simp: path_elements_def)
  show "\<not> bad_component c" if "c \<in> set (split_on CHR ''/'' s)" for c
    using n(2) s that by (auto simp: list_ex_iff)
qed

text \<open>A path strictly below the root.\<close>

definition inside :: "key \<Rightarrow> string \<Rightarrow> bool" where
  "inside R p \<longleftrightarrow> is_abs p \<and> strict_prefix R (clean_elements p)"

lemma insideD: "inside R p \<Longrightarrow> is_abs p" "inside R p \<Longrightarrow> strict_prefix R (clean_elements p)"
  "inside R p \<Longrightarrow> clean_elements p \<noteq> []"
  by (auto simp: inside_def strict_prefix_def)

lemma join_component:
  assumes "is_abs d" "plain_element c" "c \<noteq> ''..''"
  shows "clean_elements (join_path [d, c]) = clean_elements d @ [c]" and "is_abs (join_path [d, c])"
proof -
  have "path_elements (join_with ''/'' [c]) = [c]" by (rule elements_join) (use assms(2) in simp)
  then have "path_elements c = [c]" by simp
  moreover have "c \<noteq> []" using assms(2) by (simp add: plain_element_def)
  ultimately show "clean_elements (join_path [d, c]) = clean_elements d @ [c]" "is_abs (join_path [d, c])"
    using join_below[OF assms(1), of c] assms(3) by simp_all
qed

section \<open>The root\<close>

lemma triple_lstat_known:
  assumes "is_abs p" "clean_elements p = k @ [x]" "known K k"
  shows "triple (st R t0 K) (lstat p) (\<lambda>n w. if is_link n then st R t0 K w else st R t0 (insert (k @ [x]) K) w) (st R t0 K)"
proof (rule tripleI)
  fix w e w' assume "st R t0 K w" "lstat p w = (Inl e, w')"
  then show "st R t0 K w'" using tripleD(1)[OF triple_lstat] by blast
next
  fix w n w' assume "st R t0 K w" "lstat p w = (Inr n, w')"
  then show "if is_link n then st R t0 K w' else st R t0 (insert (k @ [x]) K) w'"
    using tripleD(2)[OF triple_try_lstat[OF assms], of R t0 w "Inr n" w'] by (simp add: io_try_def)
qed

lemma root_elements: "list_all plain_element (clean_elements p)" "is_abs p \<Longrightarrow> ''..'' \<notin> set (take n (clean_elements p))"
  using clean_elements_plain abs_elements_plain by (auto dest: in_set_takeD)

lemma key_path_take:
  assumes "is_abs root"
  shows "clean_elements (key_path (take n (clean_elements root))) = take n (clean_elements root)"
    and "is_abs (key_path (take n (clean_elements root)))"
proof -
  have "list_all plain_element (take n (clean_elements root))"
    using root_elements(1)[of root] by (auto simp: list_all_iff dest: in_set_takeD)
  from clean_elements_key_path[OF this root_elements(2)[OF assms]]
  show "clean_elements (key_path (take n (clean_elements root))) = take n (clean_elements root)"
    "is_abs (key_path (take n (clean_elements root)))" by simp_all
qed

lemma triple_chain:
  assumes root: "is_abs root" and i: "i \<le> length (clean_elements root)"
  shows "triple (st R t0 (insert (take i (clean_elements root)) K))
     (reject_chain_links (map (\<lambda>n. key_path (take n (clean_elements root))) [Suc i..<Suc (length (clean_elements root))]) info)
     (\<lambda>_. st R t0 (insert (clean_elements root) K)) (st R t0 K)"
  using i
proof (induction "length (clean_elements root) - i" arbitrary: i info)
  case 0
  then show ?case by (auto intro!: triple_return simp: st_def)
next
  case (Suc n)
  let ?es = "clean_elements root"
  have lt: "i < length ?es" using Suc.hyps(2) by simp
  then have up: "[Suc i..<Suc (length ?es)] = Suc i # [Suc (Suc i)..<Suc (length ?es)]" by (simp add: upt_rec)
  have snoc: "take (Suc i) ?es = take i ?es @ [?es ! i]" using lt by (simp add: take_Suc_conv_app_nth)
  have here: "is_abs (key_path (take (Suc i) ?es))" "clean_elements (key_path (take (Suc i) ?es)) = take i ?es @ [?es ! i]"
    using key_path_take[OF root, of "Suc i"] snoc by simp_all
  have k: "known (insert (take i ?es) K) (take i ?es)" by (rule knownI) simp
  have rest: "triple (st R t0 (insert (take (Suc i) ?es) K))
     (reject_chain_links (map (\<lambda>n. key_path (take n ?es)) [Suc (Suc i)..<Suc (length ?es)]) info')
     (\<lambda>_. st R t0 (insert ?es K)) (st R t0 K)" for info'
    using Suc.hyps(1)[of "Suc i" info'] Suc.hyps(2) lt by simp
  show ?case
    unfolding up list.map reject_chain_links.simps
  proof (rule triple_bind[OF triple_map_error])
    show "triple (st R t0 (insert (take i ?es) K)) (lstat (key_path (take (Suc i) ?es)))
        (\<lambda>n w. if is_link n then st R t0 K w else st R t0 (insert (take (Suc i) ?es) K) w) (st R t0 K)"
      by (rule triple_conseq[OF triple_lstat_known[OF here k]]) (auto simp: snoc st_def split: if_splits)
    fix n
    show "triple (\<lambda>w. if is_link n then st R t0 K w else st R t0 (insert (take (Suc i) ?es) K) w)
        (if is_link n then io_fail LinkUnsupported
         else reject_chain_links (map (\<lambda>n. key_path (take n ?es)) [Suc (Suc i)..<Suc (length ?es)]) n)
        (\<lambda>_. st R t0 (insert ?es K)) (st R t0 K)"
      using rest by (auto intro!: triple_fail)
  qed
qed

lemma triple_read: "triple (st R t0 K) (lstat p) (\<lambda>_. st R t0 K) (st R t0 K)"
  by (rule triple_conseq[OF triple_lstat]) auto

lemma st_Nil: "st R t0 K w \<Longrightarrow> st R t0 (insert [] K) w"
  by (simp add: st_def)

lemma triple_validate_root:
  assumes R: "R = clean_elements root"
  shows "triple (st R t0 K) (validate_root root)
     (\<lambda>p w. p = clean_path root \<and> is_abs root \<and> st R t0 (insert R K) w) (st R t0 K)"
proof (cases "root = [] \<or> \<not> is_abs root")
  case True
  then show ?thesis by (auto simp: validate_root_def intro: triple_fail)
next
  case False
  then have root: "is_abs root" by simp
  have chain: "root_chain root = key_path [] # map (\<lambda>n. key_path (take n R)) [Suc 0..<Suc (length R)]"
    unfolding root_chain_def R upt_conv_Cons[OF zero_less_Suc] by (simp del: upt_Suc)
  have "triple (st R t0 K) (reject_chain_links (root_chain root) Special) (\<lambda>_. st R t0 (insert R K)) (st R t0 K)"
    unfolding chain reject_chain_links.simps
  proof (rule triple_bind[OF triple_map_error[OF triple_read]])
    fix n
    have "triple (st R t0 (insert (take 0 R) K))
        (reject_chain_links (map (\<lambda>n. key_path (take n R)) [Suc 0..<Suc (length R)]) n)
        (\<lambda>_. st R t0 (insert R K)) (st R t0 K)"
      unfolding R by (rule triple_chain[OF root]) simp
    then have "triple (st R t0 K) (reject_chain_links (map (\<lambda>n. key_path (take n R)) [Suc 0..<Suc (length R)]) n)
        (\<lambda>_. st R t0 (insert R K)) (st R t0 K)"
      by (rule triple_conseq) (use st_Nil in simp_all)
    then show "triple (st R t0 K)
        (if is_link n then io_fail LinkUnsupported
         else reject_chain_links (map (\<lambda>n. key_path (take n R)) [Suc 0..<Suc (length R)]) n)
        (\<lambda>_. st R t0 (insert R K)) (st R t0 K)"
      by (auto intro: triple_fail)
  qed
  then show ?thesis
    unfolding validate_root_def using False
    by (auto intro!: triple_bind triple_return triple_fail dest: st_mono)
qed

section \<open>Resolution\<close>

lemma triple_reject_existing:
  assumes "is_abs cur" "list_all plain_element cs" "''..'' \<notin> set cs" "known K (clean_elements cur)"
  shows "triple (st R t0 K) (reject_existing_links cur cs)
     (\<lambda>_. st R t0 (insert (clean_elements cur @ cs) K)) (st R t0 K)"
  using assms
proof (induction cs arbitrary: cur K)
  case Nil
  then show ?case by (auto intro!: triple_return simp: st_def known_def intro: linkfree_prefix)
next
  case (Cons c cs)
  let ?here = "join_path [cur, c]" and ?k = "clean_elements cur"
  have here: "is_abs ?here" "clean_elements ?here = ?k @ [c]"
    using join_component[of cur c] Cons.prems by auto
  have rest: "triple (st R t0 (insert (?k @ [c]) K)) (reject_existing_links ?here cs)
      (\<lambda>_. st R t0 (insert (?k @ c # cs) K)) (st R t0 K)"
  proof (rule triple_conseq[OF Cons.IH[OF here(1), of "insert (?k @ [c]) K"]])
    show "known (insert (?k @ [c]) K) (clean_elements ?here)" by (rule knownI) (simp add: here(2))
  qed (use Cons.prems here(2) in \<open>auto elim: st_mono\<close>)
  have found: "triple (\<lambda>w. if is_link n then st R t0 K w else st R t0 (insert (?k @ [c]) K) w)
      (if is_link n then io_fail LinkUnsupported else reject_existing_links ?here cs)
      (\<lambda>_. st R t0 (insert (?k @ c # cs) K)) (st R t0 K)" for n
    using rest by (auto intro: triple_fail)
  show ?case
    unfolding reject_existing_links.simps Let_def
  proof (rule triple_bind[OF triple_try_lstat[OF here Cons.prems(4)]])
    fix r :: "errno + node"
    show "triple (\<lambda>w. case r of
            Inl e \<Rightarrow> if e = ENOENT then st R t0 (K \<union> subtree (?k @ [c])) w else st R t0 K w
          | Inr n \<Rightarrow> if is_link n then st R t0 K w else st R t0 (insert (?k @ [c]) K) w)
        (case r of Inl ENOENT \<Rightarrow> io_return () | Inl e \<Rightarrow> io_fail (OsError e)
         | Inr info \<Rightarrow> if is_link info then io_fail LinkUnsupported else reject_existing_links ?here cs)
        (\<lambda>_. st R t0 (insert (?k @ c # cs) K)) (st R t0 K)"
    proof (cases r)
      case (Inl e)
      have "insert (?k @ c # cs) K \<subseteq> K \<union> subtree (?k @ [c])"
        using subtree_mem(1)[of "?k @ [c]" cs] by auto
      then show ?thesis unfolding Inl by (cases e) (auto intro!: triple_return triple_fail elim: st_mono)
    next
      case (Inr n)
      then show ?thesis using found[of n] by simp
    qed
  qed
qed

lemma triple_resolve:
  assumes R: "R = clean_elements root"
  shows "triple (st R t0 K) (resolve root relative)
     (\<lambda>p w. inside R p \<and> st R t0 (insert (clean_elements p) (insert R K)) w) (st R t0 K)"
  unfolding resolve_def
proof (rule triple_bind[OF triple_validate_root[OF R]])
  fix rootPath
  show "triple (\<lambda>w. rootPath = clean_path root \<and> is_abs root \<and> st R t0 (insert R K) w)
      (io_bind (io_of (normalize_portable relative)) (\<lambda>normalized.
         let candidate = join_path [rootPath, normalized] in
         if \<not> contained rootPath candidate then io_fail UnsafePath
         else io_then (reject_existing_links rootPath (split_on CHR ''/'' normalized)) (io_return candidate)))
      (\<lambda>p w. inside R p \<and> st R t0 (insert (clean_elements p) (insert R K)) w) (st R t0 K)"
  proof (cases "rootPath = clean_path root \<and> is_abs root")
    case False
    then show ?thesis by (auto simp: triple_def)
  next
    case True
    then have root: "is_abs rootPath" "clean_elements rootPath = R" using R by simp_all
    show ?thesis
    proof (rule triple_bind)
      show "triple (\<lambda>w. rootPath = clean_path root \<and> is_abs root \<and> st R t0 (insert R K) w)
          (io_of (normalize_portable relative))
          (\<lambda>s w. normalize_portable relative = Inr s \<and> st R t0 (insert R K) w) (st R t0 K)"
        by (rule triple_of) (auto elim: st_mono)
      fix s
      show "triple (\<lambda>w. normalize_portable relative = Inr s \<and> st R t0 (insert R K) w)
          (let candidate = join_path [rootPath, s] in
           if \<not> contained rootPath candidate then io_fail UnsafePath
           else io_then (reject_existing_links rootPath (split_on CHR ''/'' s)) (io_return candidate))
          (\<lambda>p w. inside R p \<and> st R t0 (insert (clean_elements p) (insert R K)) w) (st R t0 K)"
      proof (rule triple_pure)
        assume "normalize_portable relative = Inr s"
        note n = normalize_portable_Inr[OF this]
        have cand: "clean_elements (join_path [rootPath, s]) = R @ split_on CHR ''/'' s" "is_abs (join_path [rootPath, s])"
          using join_below[OF root(1) n(2,5)] root(2) n(4) by simp_all
        have "strict_prefix R (R @ split_on CHR ''/'' s)" using n(4,7) by (auto simp: strict_prefix_def)
        then have tgt: "inside R (join_path [rootPath, s])" using cand by (simp add: inside_def)
        have "triple (st R t0 (insert R K)) (reject_existing_links rootPath (split_on CHR ''/'' s))
            (\<lambda>_. st R t0 (insert (R @ split_on CHR ''/'' s) (insert R K))) (st R t0 (insert R K))"
          using triple_reject_existing[OF root(1), of "split_on CHR ''/'' s" "insert R K" R t0] n(4-6) root(2)
          by (simp add: knownI)
        then have "triple (st R t0 (insert R K)) (reject_existing_links rootPath (split_on CHR ''/'' s))
            (\<lambda>_. st R t0 (insert (R @ split_on CHR ''/'' s) (insert R K))) (st R t0 K)"
          by (rule triple_conseq) (auto elim: st_mono)
        then show "triple (st R t0 (insert R K))
            (let candidate = join_path [rootPath, s] in
             if \<not> contained rootPath candidate then io_fail UnsafePath
             else io_then (reject_existing_links rootPath (split_on CHR ''/'' s)) (io_return candidate))
            (\<lambda>p w. inside R p \<and> st R t0 (insert (clean_elements p) (insert R K)) w) (st R t0 K)"
          using tgt cand(1) by (auto simp: Let_def intro!: triple_then triple_return triple_fail elim: st_mono)
      qed
    qed
  qed
qed

section \<open>Directories, temporary entries and files\<close>

lemma triple_make_parents:
  assumes "prefix R (clean_elements cur)" "is_abs cur" "list_all plain_element cs" "''..'' \<notin> set cs" "known K (clean_elements cur)"
  shows "triple (st R t0 K) (make_parents cur mode cs) (\<lambda>_. st R t0 K) (st R t0 K)"
  using assms
proof (induction cs arbitrary: cur K)
  case Nil
  then show ?case by (auto intro: triple_return)
next
  case (Cons c cs)
  let ?here = "join_path [cur, c]" and ?k = "clean_elements cur"
  let ?K = "insert (?k @ [c]) K"
  have here: "is_abs ?here" "clean_elements ?here = ?k @ [c]"
    using join_component[of cur c] Cons.prems by auto
  have below: "strict_prefix R (clean_elements ?here)"
    using Cons.prems(1) here(2) by (auto simp: strict_prefix_def)
  have rest: "triple (st R t0 ?K) (make_parents ?here mode cs) (\<lambda>_. st R t0 K) (st R t0 K)"
  proof (rule triple_conseq[OF Cons.IH[of ?here ?K]])
    show "prefix R (clean_elements ?here)" using below by (simp add: strict_prefix_def)
    show "known ?K (clean_elements ?here)" by (rule knownI) (simp add: here(2))
  qed (use Cons.prems here in \<open>auto elim: st_mono\<close>)
  show ?case
    unfolding make_parents.simps Let_def
  proof (rule triple_bind[OF triple_try_lstat[OF here Cons.prems(5)]])
    fix r :: "errno + node"
    let ?P = "\<lambda>w. case r of
            Inl e \<Rightarrow> if e = ENOENT then st R t0 (K \<union> subtree (?k @ [c])) w else st R t0 K w
          | Inr n \<Rightarrow> if is_link n then st R t0 K w else st R t0 ?K w"
    show "triple ?P
        (io_bind (case r of Inl ENOENT \<Rightarrow> io_then (os (mkdir ?here mode)) (os (lstat ?here))
           | Inl e \<Rightarrow> io_fail (OsError e) | Inr info \<Rightarrow> io_return info) (\<lambda>info.
         if is_link info then io_fail LinkUnsupported else if \<not> is_dir info then io_fail UnsafePath
         else make_parents ?here mode cs)) (\<lambda>_. st R t0 K) (st R t0 K)"
    proof (rule triple_bind)
      have made: "triple (st R t0 (K \<union> subtree (?k @ [c])))
          (io_then (os (mkdir ?here mode)) (os (lstat ?here)) :: (path_error, node) io)
          (\<lambda>n w. if is_link n then st R t0 K w else st R t0 ?K w) (st R t0 K)"
      proof (rule triple_then[OF triple_map_error triple_map_error])
        show "triple (st R t0 (K \<union> subtree (?k @ [c]))) (mkdir ?here mode) (\<lambda>_. st R t0 (K \<union> subtree (?k @ [c]))) (st R t0 K)"
          by (rule triple_conseq[OF triple_mkdir[OF here(1) below]])
            (use here Cons.prems(5) in \<open>auto intro: known_mono elim: st_mono\<close>)
        show "triple (st R t0 (K \<union> subtree (?k @ [c]))) (lstat ?here)
            (\<lambda>n w. if is_link n then st R t0 K w else st R t0 ?K w) (st R t0 K)"
          by (rule triple_conseq[OF triple_read[of R t0 "K \<union> subtree (?k @ [c])"]]) (auto elim: st_mono)
      qed
      show "triple ?P
          (case r of Inl ENOENT \<Rightarrow> io_then (os (mkdir ?here mode)) (os (lstat ?here))
           | Inl e \<Rightarrow> io_fail (OsError e) | Inr info \<Rightarrow> io_return info)
          (\<lambda>n w. if is_link n then st R t0 K w else st R t0 ?K w) (st R t0 K)"
      proof (cases r)
        case (Inl e)
        show ?thesis unfolding Inl using made by (cases e) (auto intro: triple_fail)
      next
        case (Inr n)
        then show ?thesis by (auto intro: triple_return)
      qed
      show "triple (\<lambda>w. if is_link n then st R t0 K w else st R t0 ?K w)
          (if is_link n then io_fail LinkUnsupported else if \<not> is_dir n then io_fail UnsafePath
           else make_parents ?here mode cs) (\<lambda>_. st R t0 K) (st R t0 K)" for n
        using rest by (auto intro: triple_fail elim: st_mono)
    qed
  qed
qed

lemma triple_mkdir_parent:
  assumes R: "R = clean_elements root"
  shows "triple (st R t0 K) (mkdir_parent root relative mode) (\<lambda>_. st R t0 K) (st R t0 K)"
  unfolding mkdir_parent_def
proof (rule triple_bind[OF triple_validate_root[OF R]])
  fix rootPath
  show "triple (\<lambda>w. rootPath = clean_path root \<and> is_abs root \<and> st R t0 (insert R K) w)
      (io_bind (io_of (normalize_portable relative)) (\<lambda>normalized.
         make_parents rootPath mode (butlast (split_on CHR ''/'' normalized))))
      (\<lambda>_. st R t0 K) (st R t0 K)"
  proof (cases "rootPath = clean_path root \<and> is_abs root")
    case False
    then show ?thesis by (auto simp: triple_def)
  next
    case True
    then have root: "is_abs rootPath" "clean_elements rootPath = R" using R by simp_all
    show ?thesis
    proof (rule triple_bind)
      show "triple (\<lambda>w. rootPath = clean_path root \<and> is_abs root \<and> st R t0 (insert R K) w)
          (io_of (normalize_portable relative))
          (\<lambda>s w. normalize_portable relative = Inr s \<and> st R t0 (insert R K) w) (st R t0 K)"
        by (rule triple_of) (auto elim: st_mono)
      fix s
      show "triple (\<lambda>w. normalize_portable relative = Inr s \<and> st R t0 (insert R K) w)
          (make_parents rootPath mode (butlast (split_on CHR ''/'' s))) (\<lambda>_. st R t0 K) (st R t0 K)"
      proof (rule triple_pure)
        assume "normalize_portable relative = Inr s"
        note n = normalize_portable_Inr[OF this]
        have "triple (st R t0 (insert R K)) (make_parents rootPath mode (butlast (split_on CHR ''/'' s)))
            (\<lambda>_. st R t0 (insert R K)) (st R t0 (insert R K))"
        proof (rule triple_make_parents[OF _ root(1)])
          show "list_all plain_element (butlast (split_on CHR ''/'' s))" "''..'' \<notin> set (butlast (split_on CHR ''/'' s))"
            using n(4-6) by (auto simp: list_all_iff dest: in_set_butlastD)
        qed (use root in \<open>simp_all add: knownI\<close>)
        then show "triple (st R t0 (insert R K)) (make_parents rootPath mode (butlast (split_on CHR ''/'' s)))
            (\<lambda>_. st R t0 K) (st R t0 K)"
          by (rule triple_conseq) (auto elim: st_mono)
      qed
    qed
  qed
qed

lemma triple_verify: "triple (st R t0 K) (verify_copy_source source opened) (\<lambda>_. st R t0 K) (st R t0 K)"
  unfolding verify_copy_source_def
  by (rule triple_bind[OF triple_map_error[OF triple_read]]) (auto intro: triple_fail triple_return)

lemma triple_open: "triple (st R t0 K) (open_file p) (\<lambda>_. st R t0 K) (st R t0 K)"
  by (rule triple_conseq[OF triple_open_file]) auto

lemma triple_open_verified: "triple (st R t0 K) (open_verified source) (\<lambda>_. st R t0 K) (st R t0 K)"
  unfolding open_verified_def
  by (rule triple_bind[OF triple_map_error[OF triple_read]])
    (auto intro!: triple_fail triple_return triple_then triple_verify triple_bind[OF triple_map_error[OF triple_open]])

lemma triple_read_regular: "triple (st R t0 K) (read_regular_file source) (\<lambda>_. st R t0 K) (st R t0 K)"
  unfolding read_regular_file_def read_regular_file_bounded_def
  by (rule triple_bind[OF triple_open_verified]) (auto intro!: triple_fail triple_return triple_then triple_verify)

text \<open>Temporary names: a fresh entry beside the destination.\<close>

definition temp_in :: "key \<Rightarrow> tree \<Rightarrow> key set \<Rightarrow> key \<Rightarrow> string \<Rightarrow> world \<Rightarrow> bool" where
  "temp_in R t0 K d p w \<longleftrightarrow> is_abs p \<and> butlast (clean_elements p) = d \<and> strict_prefix R (clean_elements p) \<and>
     st R t0 (K \<union> subtree (clean_elements p)) w"

lemma triple_make_temp_any:
  assumes stem: "hd stem = CHR ''.''" "CHR ''/'' \<notin> set stem" "2 < length stem"
    and mk: "\<And>c. plain_element c \<Longrightarrow> c \<noteq> ''..'' \<Longrightarrow>
      triple (st R t0 K) (mk (join_path [dir, c])) (\<lambda>_. T (join_path [dir, c])) (st R t0 K)"
  shows "triple (st R t0 K) (make_temp mk dir stem tries) T (st R t0 K)"
proof (induction tries)
  case 0
  then show ?case by (auto intro: triple_fail)
next
  case (Suc tries)
  have rnd: "triple (st R t0 K) next_random (\<lambda>r w. (r \<noteq> [] \<and> list_all is_digit r) \<and> st R t0 K w) (st R t0 K)"
    by (rule tripleI) (auto simp: next_random_def st_def calm_def split: list.splits)
  show ?case
    unfolding make_temp.simps Let_def
  proof (rule triple_bind[OF rnd], rule triple_pure)
    fix r :: string assume r: "r \<noteq> [] \<and> list_all is_digit r"
    let ?p = "join_path [dir, stem @ r]"
    have "CHR ''/'' \<notin> set r" using r by (auto simp: list_all_iff byte_in_def)
    moreover have "2 < length (stem @ r)" using stem(3) by simp
    then have "stem @ r \<noteq> []" "stem @ r \<noteq> ''.''" "stem @ r \<noteq> ''..''" by force+
    ultimately have c: "plain_element (stem @ r)" "stem @ r \<noteq> ''..''" using stem(2) by (auto simp: plain_element_def)
    have "triple (st R t0 K) (io_try (mk ?p))
        (\<lambda>res w. case res of Inl _ \<Rightarrow> st R t0 K w | Inr _ \<Rightarrow> T ?p w) (st R t0 K)"
      by (rule triple_try) (use mk[OF c] in simp)
    then show "triple (st R t0 K) (io_bind (io_try (mk ?p)) (\<lambda>res.
         case res of Inl EEXIST \<Rightarrow> make_temp mk dir stem tries | Inl e \<Rightarrow> io_fail e | Inr _ \<Rightarrow> io_return ?p))
        T (st R t0 K)"
    proof (rule triple_bind)
      fix res :: "errno + unit"
      show "triple (\<lambda>w. case res of Inl _ \<Rightarrow> st R t0 K w | Inr _ \<Rightarrow> T ?p w)
          (case res of Inl EEXIST \<Rightarrow> make_temp mk dir stem tries | Inl e \<Rightarrow> io_fail e | Inr _ \<Rightarrow> io_return ?p)
          T (st R t0 K)"
      proof (cases res)
        case (Inl e)
        show ?thesis unfolding Inl using Suc by (cases e) (auto intro: triple_fail)
      qed (auto intro!: triple_return)
    qed
  qed
qed

lemma triple_make_temp:
  assumes d: "is_abs dir" "prefix R (clean_elements dir)" "known K (clean_elements dir)"
    and stem: "hd stem = CHR ''.''" "CHR ''/'' \<notin> set stem" "2 < length stem"
    and mk: "\<And>p. is_abs p \<Longrightarrow> strict_prefix R (clean_elements p) \<Longrightarrow> known K (butlast (clean_elements p)) \<Longrightarrow>
      triple (st R t0 K) (mk p) (\<lambda>_. st R t0 (K \<union> subtree (clean_elements p))) (st R t0 K)"
  shows "triple (st R t0 K) (make_temp mk dir stem tries) (temp_in R t0 K (clean_elements dir)) (st R t0 K)"
proof (rule triple_make_temp_any[OF stem])
  fix c :: string assume "plain_element c" "c \<noteq> ''..''"
  note p = join_component[OF d(1) this]
  have below: "strict_prefix R (clean_elements (join_path [dir, c]))" using d(2) p(1) by (auto simp: strict_prefix_def)
  show "triple (st R t0 K) (mk (join_path [dir, c])) (\<lambda>_. temp_in R t0 K (clean_elements dir) (join_path [dir, c])) (st R t0 K)"
    by (rule triple_conseq[OF mk[OF p(2) below]]) (use d(3) p below in \<open>auto simp: temp_in_def\<close>)
qed

lemma triple_mkdir_temp:
  assumes "is_abs dir" "prefix R (clean_elements dir)" "known K (clean_elements dir)"
    and "hd stem = CHR ''.''" "CHR ''/'' \<notin> set stem" "2 < length stem"
  shows "triple (st R t0 K) (mkdir_temp dir stem) (temp_in R t0 K (clean_elements dir)) (st R t0 K)"
  unfolding mkdir_temp_def
proof (rule triple_bind)
  show "triple (st R t0 K) random_left (\<lambda>_. st R t0 K) (st R t0 K)" by (rule tripleI) (auto simp: random_left_def)
qed (rule triple_make_temp[OF assms triple_mkdir])

lemma triple_create_temp:
  assumes "is_abs dir" "prefix R (clean_elements dir)" "known K (clean_elements dir)"
    and "hd stem = CHR ''.''" "CHR ''/'' \<notin> set stem" "2 < length stem"
  shows "triple (st R t0 K) (create_temp dir stem) (temp_in R t0 K (clean_elements dir)) (st R t0 K)"
  unfolding create_temp_def
proof (rule triple_bind)
  show "triple (st R t0 K) random_left (\<lambda>_. st R t0 K) (st R t0 K)" by (rule tripleI) (auto simp: random_left_def)
qed (rule triple_make_temp[OF assms triple_create])

lemma dir_name_inside:
  assumes "inside R p"
  shows "is_abs (dir_name p)" "clean_elements (dir_name p) = butlast (clean_elements p)" "prefix R (butlast (clean_elements p))"
proof -
  have "list_all plain_element (butlast (clean_elements p))" "''..'' \<notin> set (butlast (clean_elements p))"
    using clean_elements_plain[of p] abs_elements_plain[OF insideD(1)[OF assms]]
    by (auto simp: list_all_iff dest: in_set_butlastD)
  then show "is_abs (dir_name p)" "clean_elements (dir_name p) = butlast (clean_elements p)"
    using clean_elements_key_path by (simp_all add: dir_name_def)
  show "prefix R (butlast (clean_elements p))"
    using insideD(2)[OF assms] by (cases "clean_elements p" rule: rev_cases) (auto simp: strict_prefix_def)
qed

lemma triple_atomic_write:
  assumes d: "inside R d" "known K (butlast (clean_elements d))"
    and w: "\<And>p K'. inside R p \<Longrightarrow> known K' (clean_elements p) \<Longrightarrow> triple (st R t0 K') (write p) (\<lambda>_. st R t0 K') (st R t0 K')"
  shows "triple (st R t0 K) (atomic_write d mode write) (\<lambda>_. st R t0 K) (st R t0 K)"
  unfolding atomic_write_def
proof (rule triple_bind[OF triple_map_error[OF triple_create_temp]])
  note dn = dir_name_inside[OF d(1)]
  show "is_abs (dir_name d)" "prefix R (clean_elements (dir_name d))" "known K (clean_elements (dir_name d))"
    using dn d(2) by simp_all
  show "hd ''.endstate-write-'' = CHR ''.''" "CHR ''/'' \<notin> set ''.endstate-write-''" "2 < length ''.endstate-write-''"
    by simp_all
  fix p
  let ?K = "K \<union> subtree (clean_elements p)"
  show "triple (temp_in R t0 K (clean_elements (dir_name d)) p)
      (io_on_error (io_then (os (chmod p (perm mode))) (io_then (write p) (io_then (os (sync_file p)) (os (rename p d)))))
        (os (remove p)))
      (\<lambda>_. st R t0 K) (st R t0 K)"
  proof (cases "is_abs p \<and> butlast (clean_elements p) = clean_elements (dir_name d) \<and> strict_prefix R (clean_elements p)")
    case False
    then show ?thesis by (auto simp: triple_def temp_in_def)
  next
    case True
    then have p: "inside R p" "butlast (clean_elements p) = butlast (clean_elements d)" using dn(2) by (simp_all add: inside_def)
    have k: "known ?K (clean_elements p)" "known ?K (butlast (clean_elements p))" "known ?K (butlast (clean_elements d))"
      using d(2) p(2) known_mono[of K _ ?K] by (auto intro: knownI)
    have body: "triple (st R t0 ?K)
        (io_then (os (chmod p (perm mode))) (io_then (write p) (io_then (os (sync_file p)) (os (rename p d)))))
        (\<lambda>_. st R t0 ?K) (st R t0 ?K)"
    proof (intro triple_then triple_map_error)
      show "triple (st R t0 ?K) (chmod p (perm mode)) (\<lambda>_. st R t0 ?K) (st R t0 ?K)"
        by (rule triple_chmod[OF insideD(1,2)[OF p(1)] k(1)])
      show "triple (st R t0 ?K) (write p) (\<lambda>_. st R t0 ?K) (st R t0 ?K)" by (rule w[OF p(1) k(1)])
      show "triple (st R t0 ?K) (sync_file p) (\<lambda>_. st R t0 ?K) (st R t0 ?K)" by (rule triple_sync)
      show "triple (st R t0 ?K) (rename p d) (\<lambda>_. st R t0 ?K) (st R t0 ?K)"
        by (rule triple_rename[OF insideD(1,2)[OF p(1)] k(2) insideD(1,2)[OF d(1)] k(3)]) auto
    qed
    have clean: "triple (st R t0 ?K) (os (remove p) :: (path_error, unit) io) (\<lambda>_. st R t0 ?K) (st R t0 ?K)"
      by (rule triple_map_error[OF triple_remove[OF insideD(1,2)[OF p(1)] k(2)]])
    show ?thesis
      by (rule triple_conseq[OF triple_on_error[OF body clean]]) (auto simp: temp_in_def elim: st_mono)
  qed
qed

lemma triple_atomic_write_file:
  "inside R d \<Longrightarrow> known K (butlast (clean_elements d)) \<Longrightarrow>
     triple (st R t0 K) (atomic_write_file d data mode) (\<lambda>_. st R t0 K) (st R t0 K)"
  unfolding atomic_write_file_def
  by (rule triple_atomic_write) (auto intro!: triple_map_error triple_write_file dest: insideD)

lemma triple_atomic_copy_file:
  "inside R d \<Longrightarrow> known K (butlast (clean_elements d)) \<Longrightarrow>
     triple (st R t0 K) (atomic_copy_file source d mode) (\<lambda>_. st R t0 K) (st R t0 K)"
  unfolding atomic_copy_file_def
  by (rule triple_bind[OF triple_open_verified])
    (auto intro!: triple_atomic_write triple_then triple_map_error triple_write_file triple_verify dest: insideD)

end
