(* ===== verification/MigrationSafety.thy ===== *)
theory MigrationSafety
  imports MigrationEngine SafeLogic
begin

text \<open>
  What the migration engine guarantees of the staging root, whatever the operations are and
  whichever call fails: nothing outside the root changes. And what an edit of a document leaves
  in the file.
\<close>

section \<open>Nothing outside the root changes\<close>

lemma triple_resolve_operation:
  assumes "R = clean_elements root"
  shows "triple (st R t0 K) (resolve_operation_path root p)
     (\<lambda>q w. inside R q \<and> st R t0 (insert (clean_elements q) K) w) (st R t0 K)"
  unfolding resolve_operation_path_def
  by (rule triple_map_error[OF triple_conseq[OF triple_resolve[OF assms]]]) (auto elim: st_mono)

text \<open>The relative paths of a walk are the names below the walked directory.\<close>

definition inner :: "string \<Rightarrow> bool" where
  "inner r \<longleftrightarrow> r \<noteq> [] \<and> ''..'' \<notin> set (path_elements r)"

lemma drop_common_below: "drop_common xs (xs @ ys) = ([], ys)"
  by (induction xs) (cases ys; simp)+

lemma rel_path_inner:
  assumes "plain_key (clean_elements p @ xs)" "is_abs p" "rel_path p (key_path (clean_elements p @ xs)) = Some r"
  shows "inner r"
proof -
  have k: "clean_elements (key_path (clean_elements p @ xs)) = clean_elements p @ xs" "is_abs (key_path (clean_elements p @ xs))"
    using clean_elements_key_path assms(1) unfolding plain_key_def by blast+
  have r: "r = render_clean False xs"
    using assms(2,3) k by (simp add: rel_path_def drop_common_below)
  have xs: "list_all plain_element xs" "''..'' \<notin> set xs" using assms(1) by (simp_all add: plain_key_def)
  show ?thesis
    using elements_render(1)[OF xs(1), of False] xs(2) r
    by (auto simp: inner_def render_clean_def path_elements_def split: if_splits)
qed

lemma triple_visit_entry:
  assumes R: "R = clean_elements root" and p: "\<exists>xs. p = key_path (clean_elements source @ xs) \<and> plain_key (clean_elements source @ xs)"
    and source: "is_abs source"
  shows "triple (st R t0 K) (visit_entry root source p) (\<lambda>e w. inner (ste_relative e) \<and> st R t0 K w) (st R t0 K)"
proof (cases "rel_path root p")
  case None
  then show ?thesis by (auto simp: visit_entry_def intro: triple_fail)
next
  case (Some r)
  have inn: "inner q" if "rel_path source p = Some q" for q using p that rel_path_inner source by blast
  have res: "triple (st R t0 K) (resolve root r) (\<lambda>_. st R t0 K) (st R t0 K)"
    by (rule triple_conseq[OF triple_resolve[OF R]]) (auto elim: st_mono)
  show ?thesis
    unfolding visit_entry_def Some option.case
    by (rule triple_bind[OF triple_map_error[OF res]], rule triple_bind[OF triple_map_error[OF triple_read]])
      (use inn in \<open>auto intro!: triple_fail triple_return split: option.splits\<close>)
qed

lemma triple_visit_all:
  assumes R: "R = clean_elements root" and source: "is_abs source"
    and ps: "\<forall>p \<in> set ps. \<exists>xs. p = key_path (clean_elements source @ xs) \<and> plain_key (clean_elements source @ xs)"
  shows "triple (st R t0 K) (visit_all root source ps)
     (\<lambda>es w. (\<forall>e \<in> set es. inner (ste_relative e)) \<and> st R t0 K w) (st R t0 K)"
  using ps
proof (induction ps)
  case Nil
  then show ?case by (auto intro: triple_return)
next
  case (Cons p ps)
  have one: "triple (st R t0 K) (visit_entry root source p) (\<lambda>e w. inner (ste_relative e) \<and> st R t0 K w) (st R t0 K)"
    by (rule triple_visit_entry[OF R _ source]) (use Cons.prems in simp)
  have rest: "triple (st R t0 K) (visit_all root source ps)
     (\<lambda>es w. (\<forall>e \<in> set es. inner (ste_relative e)) \<and> st R t0 K w) (st R t0 K)"
    using Cons by simp
  show ?case
    unfolding visit_all.simps
    by (rule triple_bind[OF one], rule triple_pure, rule triple_bind[OF rest], rule triple_return) auto
qed

lemma triple_walk_paths:
  assumes p: "is_abs p" "known K (butlast (clean_elements p))"
  shows "triple (st R t0 K) (walk_paths p)
     (\<lambda>ps w. (\<forall>q \<in> set ps. \<exists>xs. q = key_path (clean_elements p @ xs) \<and> plain_key (clean_elements p @ xs)) \<and> st R t0 K w)
     (st R t0 K)"
proof (rule tripleI)
  fix w e w' assume "st R t0 K w" "walk_paths p w = (Inl e, w')"
  then show "st R t0 K w'" using tripleD(1)[OF triple_query] unfolding walk_paths_def by blast
next
  fix w ps w' assume w: "st R t0 K w" "walk_paths p w = (Inr ps, w')"
  from tripleD(2)[OF triple_query w(1) w(2)[unfolded walk_paths_def]]
  have st: "st R t0 K w'" and r: "(case locate (w_tree w') p of Inl e \<Rightarrow> Inl e
      | Inr k \<Rightarrow> Inr (map (\<lambda>j. key_path (clean_elements p @ drop (length k) j)) (below (w_tree w') k))) = Inr ps" by blast+
  then obtain k where l: "locate (w_tree w') p = Inr k"
      "ps = map (\<lambda>j. key_path (clean_elements p @ drop (length k) j)) (below (w_tree w') k)" by (auto split: sum.splits)
  have k: "k = clean_elements p" by (rule locate_linkfree(1)[OF l(1) p(1) st_known[OF st p(2)]])
  have wf: "wf_tree (w_tree w')" using st by (simp add: st_def)
  have "\<exists>xs. q = key_path (clean_elements p @ xs) \<and> plain_key (clean_elements p @ xs)" if q: "q \<in> set ps" for q
  proof -
    obtain j where j: "j \<in> set (below (w_tree w') k)" "q = key_path (clean_elements p @ drop (length k) j)"
      using q l(2) by auto
    then obtain xs where xs: "j = k @ xs" by (auto simp: set_below elim: prefixE)
    obtain n where "fmlookup (w_tree w') j = Some n" using j(1) by (auto simp: set_below fmlookup_dom'_iff)
    then have "plain_key j" using wf by (auto simp: wf_tree_def)
    then show ?thesis using j(2) xs k by auto
  qed
  then show "(\<forall>q \<in> set ps. \<exists>xs. q = key_path (clean_elements p @ xs) \<and> plain_key (clean_elements p @ xs)) \<and> st R t0 K w'"
    using st by blast
qed

lemma triple_inspect:
  assumes R: "R = clean_elements root" and s: "is_abs source" "known K (butlast (clean_elements source))"
  shows "triple (st R t0 K) (inspect_source_tree root source)
     (\<lambda>(es, info) w. (is_dir info \<longrightarrow> (\<forall>e \<in> set es. inner (ste_relative e))) \<and> st R t0 K w) (st R t0 K)"
  unfolding inspect_source_tree_def
proof (rule triple_bind[OF triple_try_same[OF triple_read]])
  fix r :: "errno + node"
  have walk: "triple (st R t0 K)
      (io_bind (io_error (walk_paths source)) (\<lambda>paths.
         io_bind (visit_all root source paths) (\<lambda>entries. io_return (sort_by entry_less entries, info))))
      (\<lambda>(es, info) w. (is_dir info \<longrightarrow> (\<forall>e \<in> set es. inner (ste_relative e))) \<and> st R t0 K w) (st R t0 K)" for info
    by (rule triple_bind[OF triple_map_error[OF triple_walk_paths[OF s]]], rule triple_pure,
        rule triple_bind[OF triple_visit_all[OF R s(1)]], assumption) (auto intro: triple_return)
  show "triple (st R t0 K)
      (case r of Inl ENOENT \<Rightarrow> io_fail CodePathNotFound | Inl e \<Rightarrow> io_fail CodeIO
       | Inr info \<Rightarrow>
           if \<not> is_dir info \<and> \<not> is_regular info then io_fail CodeUnsupportedFileType
           else if is_regular info then io_return ([\<lparr>ste_relative = [], ste_info = info\<rparr>], info)
           else io_bind (io_error (walk_paths source)) (\<lambda>paths.
             io_bind (visit_all root source paths) (\<lambda>entries. io_return (sort_by entry_less entries, info))))
      (\<lambda>(es, info) w. (is_dir info \<longrightarrow> (\<forall>e \<in> set es. inner (ste_relative e))) \<and> st R t0 K w) (st R t0 K)"
    using walk by (auto split: sum.split errno.split intro!: triple_fail triple_return simp: is_dir_iff)
qed

lemma triple_copy_entry:
  assumes tmp: "inside R tmp" "subtree (clean_elements tmp) \<subseteq> K" and e: "inner (ste_relative e)"
  shows "triple (st R t0 K) (copy_entry source tmp e) (\<lambda>_. st R t0 K) (st R t0 K)"
proof -
  let ?p = "join_path [tmp, ste_relative e]" and ?k = "clean_elements tmp @ path_elements (ste_relative e)"
  have p: "clean_elements ?p = ?k" "is_abs ?p"
    using join_below[OF insideD(1)[OF tmp(1)], of "ste_relative e"] e by (simp_all add: inner_def)
  have pre: "strict_prefix R ?k" using insideD(2)[OF tmp(1)] by (rule prefix_order.less_le_trans) simp
  have tgt: "inside R ?p" using p pre by (simp add: inside_def)
  have "?k \<in> K" using tmp(2) by (auto simp: subtree_def)
  then have kb: "known K (butlast (clean_elements ?p))" using p(1) by (auto intro: known_butlast knownI)
  have dir: "triple (st R t0 K) (mkdir ?p m) (\<lambda>_. st R t0 K) (st R t0 K)" for m
    by (rule triple_conseq[OF triple_mkdir[OF insideD(1,2)[OF tgt] kb]]) (auto elim: st_mono)
  show ?thesis
    unfolding copy_entry_def Let_def
    using dir triple_atomic_copy_file[OF tgt kb]
    by (auto intro!: triple_return triple_map_error)
qed

lemma triple_copy_directory_tree:
  assumes d: "inside R d" "known K (butlast (clean_elements d))" and es: "\<forall>e \<in> set es. inner (ste_relative e)"
  shows "triple (st R t0 K) (copy_directory_tree source d es) (\<lambda>_. st R t0 K) (st R t0 K)"
  unfolding copy_directory_tree_def
proof (rule triple_bind[OF triple_map_error[OF triple_mkdir_temp]])
  note dn = dir_name_inside[OF d(1)]
  show "is_abs (dir_name d)" "prefix R (clean_elements (dir_name d))" "known K (clean_elements (dir_name d))"
    using dn d(2) by simp_all
  show "hd ''.endstate-copy-'' = CHR ''.''" "CHR ''/'' \<notin> set ''.endstate-copy-''" "2 < length ''.endstate-copy-''"
    by simp_all
  fix tmp
  let ?K = "K \<union> subtree (clean_elements tmp)"
  let ?body = "io_then (if es = [] then io_return () else io_error (chmod tmp (perm (node_mode (ste_info (hd es))))))
      (io_then (io_each (copy_entry source tmp) es) (io_error (rename tmp d)))"
  show "triple (temp_in R t0 K (clean_elements (dir_name d)) tmp) (io_on_error ?body (remove_all tmp))
      (\<lambda>_. st R t0 K) (st R t0 K)"
  proof (cases "is_abs tmp \<and> butlast (clean_elements tmp) = clean_elements (dir_name d) \<and> strict_prefix R (clean_elements tmp)")
    case False
    then show ?thesis by (auto simp: triple_def temp_in_def)
  next
    case True
    then have p: "inside R tmp" "butlast (clean_elements tmp) = butlast (clean_elements d)" using dn(2) by (simp_all add: inside_def)
    have k: "known ?K (clean_elements tmp)" "known ?K (butlast (clean_elements tmp))" "known ?K (butlast (clean_elements d))"
      using d(2) p(2) known_mono[of K _ ?K] by (auto intro: knownI)
    have body: "triple (st R t0 ?K) ?body (\<lambda>_. st R t0 ?K) (st R t0 ?K)"
    proof (intro triple_then)
      show "triple (st R t0 ?K) (if es = [] then io_return () else io_error (chmod tmp (perm (node_mode (ste_info (hd es))))))
          (\<lambda>_. st R t0 ?K) (st R t0 ?K)"
        using triple_chmod[OF insideD(1,2)[OF p(1)] k(1)] by (auto intro: triple_return triple_map_error)
      show "triple (st R t0 ?K) (io_each (copy_entry source tmp) es) (\<lambda>_. st R t0 ?K) (st R t0 ?K)"
        by (rule triple_each, rule triple_copy_entry[OF p(1)]) (use es in auto)
      show "triple (st R t0 ?K) (io_error (rename tmp d)) (\<lambda>_. st R t0 ?K) (st R t0 ?K)"
        by (rule triple_map_error, rule triple_rename[OF insideD(1,2)[OF p(1)] k(2) insideD(1,2)[OF d(1)] k(3)]) auto
    qed
    show ?thesis
      by (rule triple_conseq[OF triple_on_error[OF body triple_remove_all[OF insideD(1,2)[OF p(1)] k(2)]]])
        (auto simp: temp_in_def elim: st_mono)
  qed
qed

lemma triple_open_transfer:
  assumes R: "R = clean_elements root"
  shows "triple (st R t0 K) (open_transfer root operation)
     (\<lambda>(s, d, es, info) w. (inside R s \<and> inside R d \<and> (is_dir info \<longrightarrow> (\<forall>e \<in> set es. inner (ste_relative e)))) \<and>
        st R t0 (insert (clean_elements s) (insert (clean_elements d) K)) w) (st R t0 K)"
  unfolding open_transfer_def
proof (rule triple_bind[OF triple_resolve_operation[OF R]], rule triple_pure)
  fix s assume s: "inside R s"
  let ?K1 = "insert (clean_elements s) K"
  show "triple (st R t0 ?K1) (io_bind (resolve_operation_path root (op_target operation)) (\<lambda>target.
     io_then (io_when (target_is_source_or_descendant s target) CodeSourceDescendant)
     (io_bind (inspect_source_tree root s) (\<lambda>(entries, info).
     io_then (io_map_error map_path_error (mkdir_parent root (op_target operation) 493))
     (io_bind (resolve_operation_path root (op_target operation)) (\<lambda>_.
       io_return (s, target, entries, info)))))))
     (\<lambda>(s, d, es, info) w. (inside R s \<and> inside R d \<and> (is_dir info \<longrightarrow> (\<forall>e \<in> set es. inner (ste_relative e)))) \<and>
        st R t0 (insert (clean_elements s) (insert (clean_elements d) K)) w) (st R t0 K)"
  proof (rule triple_bind)
    show "triple (st R t0 ?K1) (resolve_operation_path root (op_target operation))
        (\<lambda>d w. inside R d \<and> st R t0 (insert (clean_elements d) ?K1) w) (st R t0 K)"
      by (rule triple_conseq[OF triple_resolve_operation[OF R, of t0 ?K1]]) (auto elim: st_mono)
    fix d
    let ?K2 = "insert (clean_elements d) ?K1"
    let ?Q = "\<lambda>(s, d, es, info) w. (inside R s \<and> inside R d \<and> (is_dir info \<longrightarrow> (\<forall>e \<in> set es. inner (ste_relative e)))) \<and>
        st R t0 (insert (clean_elements s) (insert (clean_elements d) K)) w"
    have weak: "st R t0 ?K2 w \<Longrightarrow> st R t0 K w" for w by (auto elim: st_mono)
    show "triple (\<lambda>w. inside R d \<and> st R t0 ?K2 w)
     (io_then (io_when (target_is_source_or_descendant s d) CodeSourceDescendant)
     (io_bind (inspect_source_tree root s) (\<lambda>(entries, info).
     io_then (io_map_error map_path_error (mkdir_parent root (op_target operation) 493))
     (io_bind (resolve_operation_path root (op_target operation)) (\<lambda>_. io_return (s, d, entries, info)))))) ?Q (st R t0 K)"
    proof (rule triple_pure, rule triple_then)
      assume d: "inside R d"
      show "triple (st R t0 ?K2) (io_when (target_is_source_or_descendant s d) CodeSourceDescendant) (\<lambda>_. st R t0 ?K2) (st R t0 K)"
        unfolding io_when_def using weak by (auto intro: triple_fail triple_return)
      have kb: "known ?K2 (butlast (clean_elements s))" by (rule known_butlast[OF knownI]) simp
      show "triple (st R t0 ?K2) (io_bind (inspect_source_tree root s) (\<lambda>(entries, info).
          io_then (io_map_error map_path_error (mkdir_parent root (op_target operation) 493))
          (io_bind (resolve_operation_path root (op_target operation)) (\<lambda>_. io_return (s, d, entries, info))))) ?Q (st R t0 K)"
      proof (rule triple_bind)
        show "triple (st R t0 ?K2) (inspect_source_tree root s)
            (\<lambda>r w. (is_dir (snd r) \<longrightarrow> (\<forall>e \<in> set (fst r). inner (ste_relative e))) \<and> st R t0 ?K2 w) (st R t0 K)"
          by (rule triple_conseq[OF triple_inspect[OF R insideD(1)[OF s] kb]]) (auto elim: st_mono)
        fix r :: "source_tree_entry list \<times> node"
        obtain es info where r: "r = (es, info)" by fastforce
        have again: "triple (st R t0 ?K2) (resolve_operation_path root (op_target operation)) (\<lambda>_. st R t0 ?K2) (st R t0 K)"
          by (rule triple_conseq[OF triple_resolve_operation[OF R, of t0 ?K2]]) (auto elim: st_mono)
        have parents: "triple (st R t0 ?K2) (io_map_error map_path_error (mkdir_parent root (op_target operation) 493))
            (\<lambda>_. st R t0 ?K2) (st R t0 K)"
          by (rule triple_map_error[OF triple_conseq[OF triple_mkdir_parent[OF R, of t0 ?K2]]]) (auto elim: st_mono)
        show "triple (\<lambda>w. (is_dir (snd r) \<longrightarrow> (\<forall>e \<in> set (fst r). inner (ste_relative e))) \<and> st R t0 ?K2 w)
            (case r of (entries, info) \<Rightarrow> io_then (io_map_error map_path_error (mkdir_parent root (op_target operation) 493))
              (io_bind (resolve_operation_path root (op_target operation)) (\<lambda>_. io_return (s, d, entries, info))))
            ?Q (st R t0 K)"
          unfolding r prod.case fst_conv snd_conv
          by (rule triple_pure, rule triple_then[OF parents], rule triple_bind[OF again], rule triple_return)
            (use s d in \<open>auto simp: insert_commute\<close>)
      qed
    qed
  qed
qed

lemma triple_finish_copy:
  assumes d: "inside R d" "known K (butlast (clean_elements d))" and es: "is_dir info \<longrightarrow> (\<forall>e \<in> set es. inner (ste_relative e))"
  shows "triple (st R t0 K) (finish_copy s d es info stat) (\<lambda>_. st R t0 K) (st R t0 K)"
proof -
  have tree: "triple (st R t0 K) (copy_directory_tree s d es) (\<lambda>_. st R t0 K) (st R t0 K)" if "is_dir info"
    by (rule triple_copy_directory_tree[OF d]) (use es that in simp)
  have copy: "triple (st R t0 K) (io_map_error map_path_error (atomic_copy_file s d m)) (\<lambda>_. st R t0 K) (st R t0 K)" for m
    by (rule triple_map_error[OF triple_atomic_copy_file[OF d]])
  show ?thesis
    using tree copy by (cases stat) (simp_all add: finish_copy_def triple_fail)
qed

lemma triple_finish_move:
  assumes s: "inside R s" "known K (butlast (clean_elements s))" and d: "inside R d" "known K (butlast (clean_elements d))"
  shows "triple (st R t0 K) (finish_move s d info stat) (\<lambda>_. st R t0 {}) (st R t0 {})"
proof -
  have weak: "st R t0 K w \<Longrightarrow> st R t0 {} w" for w by (auto elim: st_mono)
  have "triple (st R t0 K) (io_error (rename s d)) (\<lambda>_. st R t0 {}) (st R t0 {})"
    by (rule triple_map_error, rule triple_conseq[OF triple_rename[OF insideD(1,2)[OF s(1)] s(2) insideD(1,2)[OF d(1)] d(2)]])
      (use weak in auto)
  then show ?thesis
    using weak by (cases stat) (simp_all add: finish_move_def triple_fail)
qed

lemma triple_transfer:
  assumes R: "R = clean_elements root"
    and k: "\<And>s d es info K. inside R s \<Longrightarrow> inside R d \<Longrightarrow> is_dir info \<longrightarrow> (\<forall>e \<in> set es. inner (ste_relative e)) \<Longrightarrow>
      known K (butlast (clean_elements s)) \<Longrightarrow> known K (butlast (clean_elements d)) \<Longrightarrow>
      triple (st R t0 K) (k s d es info) (\<lambda>_. st R t0 {}) (st R t0 {})"
  shows "triple (st R t0 {}) (io_bind (open_transfer root operation) (\<lambda>(s, d, es, info). k s d es info))
     (\<lambda>_. st R t0 {}) (st R t0 {})"
proof (rule triple_bind[OF triple_open_transfer[OF R]])
  fix x :: "string \<times> string \<times> source_tree_entry list \<times> node"
  obtain s d es info where x: "x = (s, d, es, info)" by (cases x) auto
  show "triple (case x of (s, d, es, info) \<Rightarrow> \<lambda>w. (inside R s \<and> inside R d \<and>
        (is_dir info \<longrightarrow> (\<forall>e \<in> set es. inner (ste_relative e)))) \<and>
        st R t0 (insert (clean_elements s) (insert (clean_elements d) {})) w)
      (case x of (s, d, es, info) \<Rightarrow> k s d es info) (\<lambda>_. st R t0 {}) (st R t0 {})"
    unfolding x prod.case
    by (rule triple_pure, rule k) (auto intro: known_butlast knownI)
qed

lemma triple_apply_file_copy:
  assumes R: "R = clean_elements root"
  shows "triple (st R t0 {}) (apply_file_copy root operation) (\<lambda>_. st R t0 {}) (st R t0 {})"
  unfolding apply_file_copy_def
proof (rule triple_transfer[OF R])
  fix s d K and es :: "source_tree_entry list" and info
  assume d: "inside R d" "is_dir info \<longrightarrow> (\<forall>e \<in> set es. inner (ste_relative e))" "known K (butlast (clean_elements d))"
  have "triple (st R t0 K) (io_bind (io_try (lstat d)) (finish_copy s d es info)) (\<lambda>_. st R t0 K) (st R t0 K)"
    by (rule triple_bind[OF triple_try_same[OF triple_read]], rule triple_finish_copy[OF d(1,3,2)])
  then show "triple (st R t0 K) (io_bind (io_try (lstat d)) (finish_copy s d es info)) (\<lambda>_. st R t0 {}) (st R t0 {})"
    by (rule triple_conseq) (auto elim: st_mono)
qed

lemma triple_apply_file_move:
  assumes R: "R = clean_elements root"
  shows "triple (st R t0 {}) (apply_file_move root operation) (\<lambda>_. st R t0 {}) (st R t0 {})"
  unfolding apply_file_move_def
proof (rule triple_transfer[OF R])
  fix s d info K
  assume a: "inside R s" "inside R d" "known K (butlast (clean_elements s))" "known K (butlast (clean_elements d))"
  show "triple (st R t0 K) (io_bind (io_try (lstat d)) (finish_move s d info)) (\<lambda>_. st R t0 {}) (st R t0 {})"
    by (rule triple_bind[OF triple_try_same[OF triple_read]], rule triple_finish_move[OF a(1,3,2,4)])
qed

lemma triple_apply_file_delete:
  assumes R: "R = clean_elements root"
  shows "triple (st R t0 {}) (apply_file_delete root operation) (\<lambda>_. st R t0 {}) (st R t0 {})"
  unfolding apply_file_delete_def
proof (rule triple_bind[OF triple_resolve_operation[OF R]], rule triple_pure)
  fix s assume s: "inside R s"
  let ?K = "{clean_elements s}"
  have weak: "st R t0 K w \<Longrightarrow> st R t0 {} w" for K w by (auto elim: st_mono)
  have kb: "known ?K (butlast (clean_elements s))" by (rule known_butlast[OF knownI]) simp
  note dn = dir_name_inside[OF s]
  have insp: "triple (st R t0 ?K) (inspect_source_tree root s) (\<lambda>_. st R t0 ?K) (st R t0 {})"
    by (rule triple_conseq[OF triple_inspect[OF R insideD(1)[OF s] kb]]) (use weak in \<open>auto split: prod.splits\<close>)
  have tmp: "triple (st R t0 ?K) (io_error (mkdir_temp (dir_name s) ''.endstate-delete-''))
      (temp_in R t0 ?K (clean_elements (dir_name s))) (st R t0 {})"
    by (rule triple_map_error, rule triple_conseq[OF triple_mkdir_temp[of "dir_name s" R ?K _ t0]]) (use dn kb weak in auto)
  have rest: "triple (temp_in R t0 ?K (clean_elements (dir_name s)) t)
      (io_then (io_error (remove t)) (io_then (io_error (rename s t)) (io_error (remove_all t)))) (\<lambda>_. st R t0 {}) (st R t0 {})" for t
  proof (cases "is_abs t \<and> butlast (clean_elements t) = clean_elements (dir_name s) \<and> strict_prefix R (clean_elements t)")
    case False
    then show ?thesis by (auto simp: triple_def temp_in_def)
  next
    case True
    let ?L = "?K \<union> subtree (clean_elements t)"
    have t: "inside R t" "butlast (clean_elements t) = butlast (clean_elements s)" using True dn(2) by (simp_all add: inside_def)
    have k: "known ?L (butlast (clean_elements t))" "known ?L (butlast (clean_elements s))"
      using kb t(2) known_mono[of ?K _ ?L] by auto
    have del: "triple (st R t0 ?L) (io_error (remove t)) (\<lambda>_. st R t0 ?L) (st R t0 {})"
      by (rule triple_map_error, rule triple_conseq[OF triple_remove[OF insideD(1,2)[OF t(1)] k(1)]]) (use weak in auto)
    have tail: "triple (st R t0 ?L) (io_then (io_error (rename s t)) (io_error (remove_all t))) (\<lambda>_. st R t0 {}) (st R t0 {})"
    proof -
      let ?M = "{butlast (clean_elements t)}"
      have sub: "\<not> prefix (clean_elements t) (butlast (clean_elements t))"
        using insideD(3)[OF t(1)] prefix_length_le[of "clean_elements t" "butlast (clean_elements t)"]
        by (cases "clean_elements t" rule: rev_cases) auto
      have top: "st R t0 (insert (butlast (clean_elements t)) ?L) w" if "st R t0 ?L w" for w
        using st_known[OF that k(1)] that by (simp add: st_def)
      have ren: "triple (st R t0 ?L) (rename s t) (\<lambda>_. st R t0 ?M) (st R t0 {})"
        by (rule triple_conseq[OF triple_rename[OF insideD(1,2)[OF s] _ insideD(1,2)[OF t(1)], of "insert (butlast (clean_elements t)) ?L" ?M]])
          (use k sub top weak known_mono[of ?L _ "insert (butlast (clean_elements t)) ?L"] in auto)
      have rem: "triple (st R t0 ?M) (remove_all t) (\<lambda>_. st R t0 {}) (st R t0 {})"
        by (rule triple_conseq[OF triple_remove_all[OF insideD(1,2)[OF t(1)], of ?M t0]]) (use weak in \<open>auto intro: knownI\<close>)
      show "triple (st R t0 ?L) (io_then (io_error (rename s t)) (io_error (remove_all t))) (\<lambda>_. st R t0 {}) (st R t0 {})"
        by (rule triple_then[OF triple_map_error[OF ren] triple_map_error[OF rem]])
    qed
    show ?thesis
      by (rule triple_conseq[OF triple_then[OF del tail]]) (auto simp: temp_in_def)
  qed
  show "triple (st R t0 {clean_elements s})
      (io_bind (inspect_source_tree root s) (\<lambda>_.
       io_bind (io_error (mkdir_temp (dir_name s) ''.endstate-delete-'')) (\<lambda>tombstone.
       io_then (io_error (remove tombstone))
       (io_then (io_error (rename s tombstone)) (io_error (remove_all tombstone))))))
      (\<lambda>_. st R t0 {}) (st R t0 {})"
    by (rule triple_bind[OF insp], rule triple_bind[OF tmp], rule rest)
qed

lemma triple_read_operand:
  assumes R: "R = clean_elements root"
  shows "triple (st R t0 {}) (read_operand root p)
     (\<lambda>(target, _, _) w. inside R target \<and> st R t0 {clean_elements target} w) (st R t0 {})"
  unfolding read_operand_def
proof (rule triple_bind[OF triple_resolve_operation[OF R]], rule triple_pure)
  fix q assume q: "inside R q"
  let ?K = "{clean_elements q}"
  let ?Q = "\<lambda>(target, _, _) w. inside R target \<and> st R t0 {clean_elements target} w"
  have weak: "st R t0 ?K w \<Longrightarrow> st R t0 {} w" for w by (auto elim: st_mono)
  have stat: "triple (st R t0 ?K) (io_try (lstat q)) (\<lambda>_. st R t0 ?K) (st R t0 {})"
    by (rule triple_try_same[OF triple_read])
  have read: "triple (st R t0 ?K) (io_map_error map_path_error (read_regular_file q)) (\<lambda>_. st R t0 ?K) (st R t0 {})"
    by (rule triple_map_error, rule triple_conseq[OF triple_read_regular[where K = "?K"]]) (use weak in auto)
  have body: "triple (st R t0 ?K)
      (io_bind (io_map_error map_path_error (read_regular_file q)) (\<lambda>(data, mode). io_return (q, data, mode)))
      ?Q (st R t0 {})"
    by (rule triple_bind[OF read]) (use q in \<open>auto intro: triple_return split: prod.split\<close>)
  show "triple (st R t0 (insert (clean_elements q) {}))
      (io_bind (io_try (lstat q)) (\<lambda>r.
       case r of
         Inl ENOENT \<Rightarrow> io_fail CodePathNotFound
       | Inl _ \<Rightarrow> io_fail CodeIO
       | Inr info \<Rightarrow>
           if \<not> is_regular info then io_fail CodeUnsupportedFileType
           else io_bind (io_map_error map_path_error (read_regular_file q)) (\<lambda>(data, mode).
             io_return (q, data, mode)))) ?Q (st R t0 {})"
    by (rule triple_bind[OF stat]) (use body weak in \<open>auto split: sum.split errno.split intro!: triple_fail\<close>)
qed

lemma triple_apply_text_edit:
  assumes R: "R = clean_elements root"
  shows "triple (st R t0 {}) (apply_text_edit root operation edit) (\<lambda>_. st R t0 {}) (st R t0 {})"
  unfolding apply_text_edit_def
proof (rule triple_bind[OF triple_read_operand[OF R]])
  fix x :: "string \<times> string \<times> nat"
  obtain target data mode where x: "x = (target, data, mode)" by (cases x) auto
  let ?K = "{clean_elements target}"
  have weak: "st R t0 ?K w \<Longrightarrow> st R t0 {} w" for w by (auto elim: st_mono)
  have kb: "known ?K (butlast (clean_elements target))" by (rule known_butlast[OF knownI]) simp
  have enc: "triple (st R t0 ?K) (io_of (map_sum map_document_error id (edit data))) (\<lambda>_. st R t0 ?K) (st R t0 {})"
    by (rule triple_of) (use weak in auto)
  have store: "triple (st R t0 ?K) (io_map_error (\<lambda>_. CodeIO) (atomic_write_file target e mode)) (\<lambda>_. st R t0 {}) (st R t0 {})"
    if "inside R target" for e
    by (rule triple_map_error, rule triple_conseq[OF triple_atomic_write_file[OF that kb]]) (use weak in auto)
  show "triple (case x of (target, _, _) \<Rightarrow> \<lambda>w. inside R target \<and> st R t0 {clean_elements target} w)
      (case x of (target, data, mode) \<Rightarrow>
        io_bind (io_of (map_sum map_document_error id (edit data))) (\<lambda>encoded.
          io_map_error (\<lambda>_. CodeIO) (atomic_write_file target encoded mode))) (\<lambda>_. st R t0 {}) (st R t0 {})"
    unfolding x prod.case
    by (rule triple_pure, rule triple_bind[OF enc], rule store)
qed

lemma triple_apply_operation:
  assumes R: "R = clean_elements root"
  shows "triple (st R t0 {}) (apply_operation c root operation) (\<lambda>_. st R t0 {}) (st R t0 {})"
  using triple_apply_file_copy[OF R] triple_apply_file_move[OF R] triple_apply_file_delete[OF R] triple_apply_text_edit[OF R]
  by (simp add: apply_operation_def Let_def apply_json_operation_def apply_ini_operation_def triple_fail)

lemma triple_apply_operations:
  assumes R: "R = clean_elements root"
  shows "triple (st R t0 {}) (apply_operations c root i operations) (\<lambda>_. st R t0 {}) (st R t0 {})"
proof (induction operations arbitrary: i)
  case Nil
  then show ?case by (simp add: triple_return)
next
  case (Cons operation rest)
  then show ?case
    unfolding apply_operations.simps
    by (intro triple_then[OF triple_map_error[OF triple_apply_operation[OF R]]])
qed

lemma triple_engine_apply:
  assumes R: "R = clean_elements root"
  shows "triple (st R t0 {}) (engine_apply c root operations) (\<lambda>_. st R t0 {}) (st R t0 {})"
  unfolding engine_apply_def
proof (rule triple_bind)
  show "triple (st R t0 {})
      (io_map_error (\<lambda>e. \<lparr>oe_code = map_path_error e, oe_operation = [], oe_index = - 1\<rparr>) (validate_root root))
      (\<lambda>_. st R t0 {}) (st R t0 {})"
    by (rule triple_map_error, rule triple_conseq[OF triple_validate_root[OF R]]) (auto elim: st_mono)
qed (rule triple_apply_operations[OF R])

lemma engine_keeps_outside:
  assumes "calm w" "wf_tree (w_tree w)"
  shows "wf_tree (w_tree (snd (engine_apply c root operations w)))
    \<and> same_outside (clean_elements root) (w_tree w) (w_tree (snd (engine_apply c root operations w)))"
proof -
  have start: "st (clean_elements root) (w_tree w) {} w" using assms by (simp add: st_def)
  obtain r w' where run: "engine_apply c root operations w = (r, w')" by fastforce
  have "st (clean_elements root) (w_tree w) {} w'"
    using tripleD[OF triple_engine_apply[OF refl] start] run by (cases r) blast+
  then show ?thesis by (simp add: run st_def)
qed

end
