(* ===== verification/AtomicWrites.thy ===== *)
theory AtomicWrites
  imports SafeLogic
begin

text \<open>
  The exact effect of \<open>internal/safepath\<close> when no other process interferes: which operations
  leave the tree as it is, what a read returns, and that a replacement of a file is all or
  nothing.
\<close>

section \<open>Operations on a tree that is known\<close>

definition frozen :: "tree \<Rightarrow> world \<Rightarrow> bool" where
  "frozen t w \<longleftrightarrow> calm w \<and> w_tree w = t"

definition readonly :: "('e, 'a) io \<Rightarrow> bool" where
  "readonly m \<longleftrightarrow> (\<forall>t. triple (frozen t) m (\<lambda>_. frozen t) (frozen t))"

named_theorems readonly

lemma readonlyI: "(\<And>t. triple (frozen t) m (\<lambda>_. frozen t) (frozen t)) \<Longrightarrow> readonly m"
  by (simp add: readonly_def)

lemma readonlyD: "readonly m \<Longrightarrow> triple (frozen t) m (\<lambda>_. frozen t) (frozen t)"
  by (simp add: readonly_def)

lemma frozen_query: "triple (frozen t) (query f) (\<lambda>x w. f t = Inr x \<and> frozen t w) (frozen t)"
  by (rule tripleI) (use query_calm in \<open>fastforce simp: frozen_def\<close>)+

lemma frozen_change:
  "triple (frozen t) (change f) (\<lambda>_ w. \<exists>t'. (\<exists>n. f n t = Inr t') \<and> frozen t' w) (frozen t)"
proof (rule tripleI)
  fix w e w' assume "frozen t w" "change f w = (Inl e, w')"
  then show "frozen t w'" using change_calm[of w f] by (auto simp: frozen_def)
next
  fix w x w' assume "frozen t w" "change f w = (Inr x, w')"
  then show "\<exists>t'. (\<exists>n. f n t = Inr t') \<and> frozen t' w'" using change_calm[of w f] by (auto simp: frozen_def)
qed

lemma triple_ex: "(\<And>x. B x \<Longrightarrow> triple (P x) m Q E) \<Longrightarrow> triple (\<lambda>w. \<exists>x. B x \<and> P x w) m Q E"
  by (rule tripleI) (blast dest: tripleD)+

lemma triple_and:
  "triple P m Q E \<Longrightarrow> triple P' m Q' E' \<Longrightarrow>
     triple (\<lambda>w. P w \<and> P' w) m (\<lambda>x w. Q x w \<and> Q' x w) (\<lambda>w. E w \<and> E' w)"
  by (fastforce simp: triple_def split: prod.splits sum.splits)

lemma readonly_query [readonly]: "readonly (query f)"
  by (rule readonlyI, rule triple_conseq[OF frozen_query]) auto

lemma readonly_return [readonly]: "readonly (io_return x)" by (rule readonlyI, rule triple_return)
lemma readonly_fail [readonly]: "readonly (io_fail e)" by (rule readonlyI, rule triple_fail)
lemma readonly_of [readonly]: "readonly (io_of r)" by (rule readonlyI, rule triple_of)

lemma readonly_bind [readonly]: "readonly m \<Longrightarrow> (\<And>x. readonly (k x)) \<Longrightarrow> readonly (io_bind m k)"
  by (rule readonlyI, rule triple_bind) (auto dest: readonlyD)

lemma readonly_then [readonly]: "readonly m \<Longrightarrow> readonly k \<Longrightarrow> readonly (io_then m k)"
  unfolding io_then_def by (rule readonly_bind)

lemma readonly_map_error [readonly]: "readonly m \<Longrightarrow> readonly (io_map_error f m)"
  by (rule readonlyI, rule triple_map_error) (rule readonlyD)

lemma readonly_try [readonly]: "readonly m \<Longrightarrow> readonly (io_try m)"
  by (rule readonlyI, rule triple_try_same) (rule readonlyD)

lemma readonly_calls [readonly]: "readonly (lstat p)" "readonly (open_file p)" "readonly (sync_file p)"
  "readonly (walk_paths p)"
  by (simp_all add: lstat_def open_file_def sync_file_def walk_paths_def readonly)

lemma readonly_if [readonly]: "readonly a \<Longrightarrow> readonly b \<Longrightarrow> readonly (if c then a else b)"
  by simp

lemma readonly_chain [readonly]: "readonly (reject_chain_links ps info)"
  by (induction ps arbitrary: info) (auto intro!: readonly)

lemma readonly_validate_root [readonly]: "readonly (validate_root root)"
  unfolding validate_root_def by (auto intro!: readonly)

lemma readonly_reject_existing [readonly]: "readonly (reject_existing_links cur cs)"
proof (induction cs arbitrary: cur)
  case Nil
  then show ?case by (simp add: readonly)
next
  case (Cons c cs)
  have "readonly (case r of Inl ENOENT \<Rightarrow> io_return () | Inl e \<Rightarrow> io_fail (OsError e)
      | Inr info \<Rightarrow> if is_link info then io_fail LinkUnsupported else reject_existing_links (join_path [cur, c]) cs)"
    for r :: "errno + node"
    using Cons by (auto split: sum.split errno.split intro!: readonly)
  then show ?case by (auto simp: Let_def intro!: readonly)
qed

lemma readonly_resolve [readonly]: "readonly (resolve root relative)"
  unfolding resolve_def by (auto simp: Let_def intro!: readonly)

lemma readonly_verify [readonly]: "readonly (verify_copy_source p n)"
  unfolding verify_copy_source_def by (auto intro!: readonly)

section \<open>Resolution and reading\<close>

lemma resolve_value:
  "triple (\<lambda>_. True) (resolve root relative)
     (\<lambda>p _. is_abs root \<and> (\<exists>s. normalize_portable relative = Inr s \<and> p = join_path [clean_path root, s])) (\<lambda>_. True)"
proof -
  have root: "triple (\<lambda>_. True) (validate_root root) (\<lambda>p _. p = clean_path root \<and> is_abs root) (\<lambda>_. True)"
    unfolding validate_root_def
    by (auto intro!: triple_bind[where R = "\<lambda>_ _. True"] triple_return triple_fail) (simp add: triple_def split: prod.split sum.split)
  show ?thesis
    unfolding resolve_def
  proof (rule triple_bind[OF root])
    fix p
    have norm: "triple (\<lambda>w. p = clean_path root \<and> is_abs root) (io_of (normalize_portable relative))
        (\<lambda>s _. normalize_portable relative = Inr s \<and> p = clean_path root \<and> is_abs root) (\<lambda>_. True)"
      by (rule triple_of) auto
    show "triple (\<lambda>w. p = clean_path root \<and> is_abs root)
        (io_bind (io_of (normalize_portable relative)) (\<lambda>normalized.
           let candidate = join_path [p, normalized] in
           if \<not> contained p candidate then io_fail UnsafePath
           else io_then (reject_existing_links p (split_on CHR ''/'' normalized)) (io_return candidate)))
        (\<lambda>p _. is_abs root \<and> (\<exists>s. normalize_portable relative = Inr s \<and> p = join_path [clean_path root, s])) (\<lambda>_. True)"
      by (rule triple_bind[OF norm])
        (auto simp: Let_def triple_def io_fail_def io_then_def io_bind_def io_return_def split: prod.splits sum.splits)
  qed
qed

definition portable_key :: "string \<Rightarrow> string \<Rightarrow> key" where
  "portable_key root relative = clean_elements root @ split_on CHR ''/'' (to_slashes relative)"

definition resolved :: "tree \<Rightarrow> string \<Rightarrow> string \<Rightarrow> string \<Rightarrow> bool" where
  "resolved t root relative p \<longleftrightarrow> inside (clean_elements root) p \<and> clean_elements p = portable_key root relative \<and>
     linkfree t (clean_elements p)"

lemma frozen_resolve:
  assumes wf: "wf_tree t"
  shows "triple (frozen t) (resolve root relative) (\<lambda>p w. resolved t root relative p \<and> frozen t w) (frozen t)"
proof -
  let ?R = "clean_elements root"
  have st: "triple (frozen t) (resolve root relative)
      (\<lambda>p w. inside ?R p \<and> st ?R t (insert (clean_elements p) (insert ?R {})) w) (\<lambda>_. True)"
    by (rule triple_conseq[OF triple_resolve[OF refl, of root t "{}"]]) (use wf in \<open>auto simp: frozen_def st_def\<close>)
  have ro: "triple (frozen t) (resolve root relative) (\<lambda>_. frozen t) (frozen t)"
    by (rule readonlyD[OF readonly_resolve])
  have val: "triple (frozen t) (resolve root relative)
      (\<lambda>p _. is_abs root \<and> (\<exists>s. normalize_portable relative = Inr s \<and> p = join_path [clean_path root, s])) (\<lambda>_. True)"
    by (rule triple_conseq[OF resolve_value]) auto
  show ?thesis
  proof (rule triple_conseq[OF triple_and[OF st triple_and[OF ro val]]])
    fix p w
    assume "(inside ?R p \<and> st ?R t (insert (clean_elements p) (insert ?R {})) w) \<and> frozen t w \<and>
        is_abs root \<and> (\<exists>s. normalize_portable relative = Inr s \<and> p = join_path [clean_path root, s])"
    then obtain s where a: "inside ?R p" "st ?R t (insert (clean_elements p) (insert ?R {})) w" "frozen t w" "is_abs root"
      "normalize_portable relative = Inr s" "p = join_path [clean_path root, s]" by blast
    note n = normalize_portable_Inr[OF a(5)]
    have "clean_elements p = ?R @ split_on CHR ''/'' s"
      using join_below[of "clean_path root" s] a(4,6) n(2,4,5) by simp
    then show "resolved t root relative p \<and> frozen t w"
      using a(1-3) n(1) by (auto simp: resolved_def portable_key_def st_def frozen_def)
  qed auto
qed

lemma linkfree_butlast: "linkfree t k \<Longrightarrow> linkfree t (butlast k)"
  by (erule linkfree_prefix) (cases k rule: rev_cases; simp)

lemma node_at_linkfree:
  assumes "is_abs p" "linkfree t (clean_elements p)" "clean_elements p \<noteq> []"
  shows "node_at t (locate t p) = Inr n \<Longrightarrow> fmlookup t (clean_elements p) = Some n"
    and "node_at t (locate_final t p) = Inr n \<Longrightarrow> fmlookup t (clean_elements p) = Some n"
  using locate_linkfree(1)[OF _ assms(1) linkfree_butlast[OF assms(2)]] locate_final_linkfree[OF _ assms(1,2)] assms(3)
  by (auto simp: node_at_def entry_def split: sum.splits option.splits if_splits)

lemma frozen_open_verified:
  assumes p: "is_abs p" "linkfree t (clean_elements p)" "clean_elements p \<noteq> []"
  shows "triple (frozen t) (open_verified p)
     (\<lambda>n w. (is_regular n \<and> fmlookup t (clean_elements p) = Some n) \<and> frozen t w) (frozen t)"
proof -
  let ?Q = "\<lambda>n w. (is_regular n \<and> fmlookup t (clean_elements p) = Some n) \<and> frozen t w"
  have open': "triple (frozen t) (os (open_file p)) (\<lambda>n w. fmlookup t (clean_elements p) = Some n \<and> frozen t w) (frozen t)"
    unfolding open_file_def
    by (rule triple_map_error, rule triple_conseq[OF frozen_query]) (use node_at_linkfree(2)[OF p] in auto)
  have stat: "triple (frozen t) (os (lstat p)) (\<lambda>_. frozen t) (frozen t)" by (rule readonlyD) (intro readonly)
  have check: "triple (frozen t) (verify_copy_source p n) (\<lambda>_. frozen t) (frozen t)" for n
    by (rule readonlyD) (intro readonly)
  have rest: "triple (frozen t)
      (io_bind (os (open_file p)) (\<lambda>opened.
         if \<not> is_regular opened then io_fail SourceChanged
         else io_then (verify_copy_source p opened)
           (if \<not> same_file n opened then io_fail SourceChanged else io_return opened))) ?Q (frozen t)" for n
  proof (rule triple_bind[OF open'], rule triple_pure)
    fix opened assume o: "fmlookup t (clean_elements p) = Some opened"
    have "triple (frozen t) (io_then (verify_copy_source p opened)
        (if \<not> same_file n opened then io_fail SourceChanged else io_return opened)) ?Q (frozen t)" if "is_regular opened"
      by (rule triple_then[OF check]) (use that o in \<open>auto intro!: triple_fail triple_return\<close>)
    then show "triple (frozen t) (if \<not> is_regular opened then io_fail SourceChanged
         else io_then (verify_copy_source p opened)
           (if \<not> same_file n opened then io_fail SourceChanged else io_return opened)) ?Q (frozen t)"
      by (auto intro: triple_fail)
  qed
  show ?thesis
    unfolding open_verified_def
    by (rule triple_bind[OF stat]) (use rest in \<open>auto intro: triple_fail\<close>)
qed

lemma frozen_read_regular:
  assumes p: "is_abs p" "linkfree t (clean_elements p)" "clean_elements p \<noteq> []"
  shows "triple (frozen t) (read_regular_file p)
     (\<lambda>(data, mode) w. (\<exists>i. fmlookup t (clean_elements p) = Some (File i mode data)) \<and> frozen t w) (frozen t)"
  unfolding read_regular_file_def read_regular_file_bounded_def
proof (rule triple_bind[OF frozen_open_verified[OF p]], rule triple_pure)
  fix n assume n: "is_regular n \<and> fmlookup t (clean_elements p) = Some n"
  let ?Q = "\<lambda>(data, mode) w. (\<exists>i. fmlookup t (clean_elements p) = Some (File i mode data)) \<and> frozen t w"
  have check: "triple (frozen t) (verify_copy_source p n) (\<lambda>_. frozen t) (frozen t)"
    by (rule readonlyD) (intro readonly)
  have "triple (frozen t) (io_then (verify_copy_source p n) (io_return (file_data n, node_mode n))) ?Q (frozen t)"
    by (rule triple_then[OF check], rule triple_return)
      (use n in \<open>auto simp: is_regular_def file_data_def node_mode_def split: node.splits\<close>)
  then show "triple (frozen t) (if (2 ^ 63 - 1 :: int) < 0 \<or> 2 ^ 63 - 1 < int (length (file_data n)) then io_fail ByteLimit
      else io_then (verify_copy_source p n) (io_return (file_data n, node_mode n))) ?Q (frozen t)"
    by (auto intro: triple_fail)
qed

section \<open>The replacement of a file\<close>

lemma fmupd_twice: "fmupd k a (fmupd k b t) = fmupd k a t"
  by (rule fmap_ext) simp

lemma fmdrop_fresh: "fmlookup t k = None \<Longrightarrow> fmdrop k (fmupd k a t) = t"
  by (rule fmap_ext) auto

text \<open>What may be left of a temporary entry with the given stem, beside the destination.\<close>

definition leftover :: "tree \<Rightarrow> key \<Rightarrow> string \<Rightarrow> tree \<Rightarrow> bool" where
  "leftover t d stem t' \<longleftrightarrow> t' = t \<or>
     (\<exists>x n. fmlookup t (d @ [x]) = None \<and> prefix stem x \<and> is_regular n \<and> t' = fmupd (d @ [x]) n t)"

text \<open>A fresh path beside the destination.\<close>

definition fresh_in :: "tree \<Rightarrow> key \<Rightarrow> string \<Rightarrow> string \<Rightarrow> bool" where
  "fresh_in t d stem p \<longleftrightarrow> is_abs p \<and> (\<exists>x. clean_elements p = d @ [x] \<and> prefix stem x) \<and>
     fmlookup t (clean_elements p) = None"

lemma fresh_leftover:
  "fresh_in t d stem p \<Longrightarrow> is_regular n \<Longrightarrow> leftover t d stem (fmupd (clean_elements p) n t)"
  unfolding fresh_in_def leftover_def by metis

lemma create_tree_fresh:
  assumes "create_tree p m n t = Inr t'" "is_abs p" "clean_elements p = d @ [x]" "linkfree t d"
  shows "fmlookup t (clean_elements p) = None \<and> t' = fmupd (clean_elements p) (File n m []) t"
proof -
  obtain k where k: "locate t p = Inr k" "entry t k = None" "t' = fmupd k (File n m []) t"
    using assms(1) by (auto simp: create_tree_def split: sum.splits option.splits)
  have "k = clean_elements p" by (rule locate_linkfree(1)[OF k(1) assms(2)]) (use assms(3,4) in simp)
  then show ?thesis using k(2,3) assms(3) by (simp add: entry_def)
qed

lemma frozen_make_temp:
  assumes d: "is_abs dir" "linkfree t (clean_elements dir)" and stem: "CHR ''/'' \<notin> set stem" "2 < length stem"
    and mk: "\<And>p. is_abs p \<Longrightarrow> \<exists>x. clean_elements p = clean_elements dir @ [x] \<Longrightarrow>
      triple (frozen t) (mk p) (\<lambda>_ w. Q p w) (frozen t)"
  shows "triple (frozen t) (make_temp mk dir stem tries)
     (\<lambda>p w. (is_abs p \<and> (\<exists>x. clean_elements p = clean_elements dir @ [x] \<and> prefix stem x)) \<and> Q p w) (frozen t)"
proof (induction tries)
  case 0
  then show ?case by (auto intro: triple_fail)
next
  case (Suc tries)
  let ?G = "\<lambda>p w. (is_abs p \<and> (\<exists>x. clean_elements p = clean_elements dir @ [x] \<and> prefix stem x)) \<and> Q p w"
  have rnd: "triple (frozen t) next_random (\<lambda>r w. (r \<noteq> [] \<and> list_all is_digit r) \<and> frozen t w) (frozen t)"
    by (rule tripleI) (auto simp: next_random_def frozen_def calm_def split: list.splits)
  show ?case
    unfolding make_temp.simps Let_def
  proof (rule triple_bind[OF rnd], rule triple_pure)
    fix r :: string assume r: "r \<noteq> [] \<and> list_all is_digit r"
    let ?p = "join_path [dir, stem @ r]"
    have "CHR ''/'' \<notin> set r" using r by (auto simp: list_all_iff byte_in_def)
    moreover have "2 < length (stem @ r)" using stem(2) by simp
    then have "stem @ r \<noteq> []" "stem @ r \<noteq> ''.''" "stem @ r \<noteq> ''..''" by force+
    ultimately have c: "plain_element (stem @ r)" "stem @ r \<noteq> ''..''" using stem(1) by (auto simp: plain_element_def)
    then have p: "is_abs ?p" "clean_elements ?p = clean_elements dir @ [stem @ r]"
      using join_component[OF d(1)] by simp_all
    have "triple (frozen t) (io_try (mk ?p)) (\<lambda>res w. case res of Inl _ \<Rightarrow> frozen t w | Inr _ \<Rightarrow> Q ?p w) (frozen t)"
      by (rule triple_try) (use mk[OF p(1)] p(2) in simp)
    then show "triple (frozen t) (io_bind (io_try (mk ?p)) (\<lambda>res.
         case res of Inl EEXIST \<Rightarrow> make_temp mk dir stem tries | Inl e \<Rightarrow> io_fail e | Inr _ \<Rightarrow> io_return ?p)) ?G (frozen t)"
    proof (rule triple_bind)
      fix res :: "errno + unit"
      show "triple (\<lambda>w. case res of Inl _ \<Rightarrow> frozen t w | Inr _ \<Rightarrow> Q ?p w)
          (case res of Inl EEXIST \<Rightarrow> make_temp mk dir stem tries | Inl e \<Rightarrow> io_fail e | Inr _ \<Rightarrow> io_return ?p) ?G (frozen t)"
      proof (cases res)
        case (Inl e)
        show ?thesis unfolding Inl using Suc by (cases e) (auto intro: triple_fail)
      next
        case (Inr u)
        then show ?thesis using p by (auto intro!: triple_return)
      qed
    qed
  qed
qed

lemma frozen_create_temp:
  assumes d: "is_abs dir" "linkfree t (clean_elements dir)" and stem: "CHR ''/'' \<notin> set stem" "2 < length stem"
  shows "triple (frozen t) (create_temp dir stem)
     (\<lambda>p w. fresh_in t (clean_elements dir) stem p \<and> (\<exists>i. True \<and> frozen (fmupd (clean_elements p) (File i 384 []) t) w))
     (frozen t)"
proof -
  let ?Q = "\<lambda>p w. fmlookup t (clean_elements p) = None \<and> (\<exists>i. frozen (fmupd (clean_elements p) (File i 384 []) t) w)"
  have mk: "triple (frozen t) (change (\<lambda>n. create_tree p 384 n)) (\<lambda>_ w. ?Q p w) (frozen t)"
    if p: "is_abs p" "\<exists>x. clean_elements p = clean_elements dir @ [x]" for p
  proof -
    obtain x where x: "clean_elements p = clean_elements dir @ [x]" using p(2) by blast
    show ?thesis
      by (rule triple_conseq[OF frozen_change]) (use create_tree_fresh[OF _ p(1) x d(2)] in blast)+
  qed
  have left: "triple (frozen t) random_left (\<lambda>_. frozen t) (frozen t)" by (rule tripleI) (auto simp: random_left_def)
  show ?thesis
    unfolding create_temp_def
  proof (rule triple_bind[OF left])
    fix n
    show "triple (frozen t) (make_temp (\<lambda>p. change (\<lambda>n. create_tree p 384 n)) dir stem n)
     (\<lambda>p w. fresh_in t (clean_elements dir) stem p \<and> (\<exists>i. True \<and> frozen (fmupd (clean_elements p) (File i 384 []) t) w))
     (frozen t)"
      by (rule triple_conseq[OF frozen_make_temp[OF d stem mk]]) (auto simp: fresh_in_def)
  qed
qed

text \<open>Calls on the temporary file.\<close>

lemma tmp_linkfree:
  assumes "fresh_in t d stem p" "linkfree t d" "is_regular n"
  shows "linkfree (fmupd (clean_elements p) n t) (clean_elements p)"
proof -
  obtain x where x: "clean_elements p = d @ [x]" using assms(1) by (auto simp: fresh_in_def)
  have "linkfree (fmupd (d @ [x]) n t) d"
    using assms(2) by (auto simp: linkfree_def entry_def dest: prefix_length_le)
  then show ?thesis unfolding x by (rule linkfree_snoc) (use assms(3) in \<open>auto simp: entry_def is_link_def is_regular_def split: node.splits\<close>)
qed

lemma tmp_chmod:
  assumes "fresh_in t d stem p" "linkfree t d"
  shows "triple (frozen (fmupd (clean_elements p) (File i m0 data) t)) (chmod p m)
     (\<lambda>_. frozen (fmupd (clean_elements p) (File i m data) t)) (frozen (fmupd (clean_elements p) (File i m0 data) t))"
proof -
  let ?t = "fmupd (clean_elements p) (File i m0 data) t"
  have "t' = fmupd (clean_elements p) (File i m data) t" if c: "chmod_tree p m ?t = Inr t'" for t'
  proof -
    obtain k old where k: "locate_final ?t p = Inr k" "fmlookup ?t k = Some old" "t' = fmupd k (chmod_node m old) ?t"
      using c by (auto simp: chmod_tree_def split: sum.splits option.splits)
    have "k = clean_elements p"
      by (rule locate_final_linkfree[OF k(1)]) (use assms tmp_linkfree[OF assms] in \<open>auto simp: fresh_in_def is_regular_def\<close>)
    then show ?thesis using k(2,3) by (auto simp: chmod_node_def fmupd_twice)
  qed
  then show ?thesis
    unfolding chmod_def by (intro triple_conseq[OF frozen_change]) auto
qed

lemma tmp_write:
  assumes "fresh_in t d stem p" "linkfree t d"
  shows "triple (frozen (fmupd (clean_elements p) (File i m old) t)) (write_file p data)
     (\<lambda>_. frozen (fmupd (clean_elements p) (File i m (old @ data)) t)) (frozen (fmupd (clean_elements p) (File i m old) t))"
proof -
  let ?t = "fmupd (clean_elements p) (File i m old) t"
  have "t' = fmupd (clean_elements p) (File i m (old @ data)) t" if c: "append_tree p data ?t = Inr t'" for t'
  proof -
    obtain k j n o' where k: "locate_final ?t p = Inr k" "fmlookup ?t k = Some (File j n o')" "t' = fmupd k (File j n (o' @ data)) ?t"
      using c by (auto simp: append_tree_def split: sum.splits option.splits node.splits)
    have "k = clean_elements p"
      by (rule locate_final_linkfree[OF k(1)]) (use assms tmp_linkfree[OF assms] in \<open>auto simp: fresh_in_def is_regular_def\<close>)
    then show ?thesis using k(2,3) by (auto simp: fmupd_twice)
  qed
  then show ?thesis
    unfolding write_file_def by (intro triple_conseq[OF frozen_change]) auto
qed

lemma tmp_remove:
  assumes f: "fresh_in t d stem p" and d: "linkfree t d" and n: "is_regular n"
  shows "triple (frozen (fmupd (clean_elements p) n t)) (remove p)
     (\<lambda>_ w. \<exists>t'. leftover t d stem t' \<and> frozen t' w) (\<lambda>w. \<exists>t'. leftover t d stem t' \<and> frozen t' w)"
proof -
  let ?t = "fmupd (clean_elements p) n t"
  have keep: "leftover t d stem ?t" by (rule fresh_leftover[OF f n])
  have "t' = t" if c: "remove_tree p ?t = Inr t'" for t'
  proof -
    obtain k where k: "locate ?t p = Inr k" "remove_key k ?t = Inr t'"
      using c by (auto simp: remove_tree_def split: sum.splits)
    have "k = clean_elements p"
      by (rule locate_linkfree(1)[OF k(1)])
        (use f linkfree_butlast[OF tmp_linkfree[OF f d n]] in \<open>auto simp: fresh_in_def\<close>)
    then show ?thesis
      using k(2) n f by (auto simp: remove_key_def fmdrop_fresh fresh_in_def is_regular_def split: node.splits)
  qed
  then have "triple (frozen ?t) (remove p) (\<lambda>_ w. \<exists>t'. leftover t d stem t' \<and> frozen t' w) (frozen ?t)"
    unfolding remove_def by (intro triple_conseq[OF frozen_change]) (auto simp: leftover_def)
  then show ?thesis by (rule triple_conseq) (use keep in auto)
qed

lemma rename_tmp_tree:
  assumes wf: "wf_tree t" and f: "fresh_in t d stem p" and d: "linkfree t d" and n: "is_regular n"
    and q: "is_abs q" "butlast (clean_elements q) = d" "clean_elements q \<noteq> []"
    and r: "rename_tree p q (fmupd (clean_elements p) n t) = Inr t'"
  shows "t' = fmupd (clean_elements q) n t"
proof -
  let ?a = "clean_elements p" and ?b = "clean_elements q" and ?t = "fmupd (clean_elements p) n t"
  have lf: "linkfree ?t (butlast ?a)" by (rule linkfree_butlast[OF tmp_linkfree[OF f d n]])
  obtain x where x: "?a = d @ [x]" using f by (auto simp: fresh_in_def)
  obtain a b where l: "locate ?t p = Inr a" "locate ?t q = Inr b"
    using r by (auto simp: rename_tree_def split: sum.splits)
  have ab: "a = ?a" "b = ?b"
    using locate_linkfree(1)[OF l(1) _ lf] locate_linkfree(1)[OF l(2) q(1)] lf f q(2) x by (auto simp: fresh_in_def)
  have "t' = ?t \<and> ?a = ?b \<or> t' = graft ?t ?a ?b \<and> ?a \<noteq> ?b \<and> (\<forall>m. entry ?t ?b \<noteq> Some (Dir m))"
    using r l ab by (auto simp: rename_tree_def split: option.splits if_splits node.splits)
  then show ?thesis
  proof
    assume "t' = ?t \<and> ?a = ?b"
    then show ?thesis by simp
  next
    assume g: "t' = graft ?t ?a ?b \<and> ?a \<noteq> ?b \<and> (\<forall>m. entry ?t ?b \<noteq> Some (Dir m))"
    have na: "fmlookup t (?a @ zs) = None" for zs
    proof (cases "zs = []")
      case True
      then show ?thesis using f by (simp add: fresh_in_def)
    next
      case False
      then show ?thesis using wf_tree_nothing_below[OF wf _ False, of ?a] f x by (simp add: fresh_in_def entry_def)
    qed
    have nb: "fmlookup t (?b @ zs) = None" if "zs \<noteq> []" for zs
      using wf_tree_nothing_below[OF wf _ that, of ?b] g q(3) by (auto simp: entry_def)
    have "fmlookup (graft ?t ?a ?b) k = fmlookup (fmupd ?b n t) k" for k
    proof (cases "prefix ?b k")
      case True
      then obtain zs where zs: "k = ?b @ zs" by (rule prefixE)
      show ?thesis unfolding lookup_graft zs using na[of zs] nb[of zs] by (cases "zs = []") simp_all
    next
      case False
      then have kb: "k \<noteq> ?b" by auto
      show ?thesis
      proof (cases "prefix ?a k")
        case True
        then obtain zs where zs: "k = ?a @ zs" by (rule prefixE)
        show ?thesis unfolding lookup_graft using False kb True na[of zs] zs by simp
      next
        case nota: False
        then have "k \<noteq> ?a" by auto
        then show ?thesis unfolding lookup_graft using False kb nota by simp
      qed
    qed
    then show ?thesis using g by (simp add: fmap_ext)
  qed
qed

lemma tmp_rename:
  assumes "wf_tree t" "fresh_in t d stem p" "linkfree t d" "is_regular n"
    and "is_abs q" "butlast (clean_elements q) = d" "clean_elements q \<noteq> []"
  shows "triple (frozen (fmupd (clean_elements p) n t)) (rename p q)
     (\<lambda>_. frozen (fmupd (clean_elements q) n t)) (frozen (fmupd (clean_elements p) n t))"
  unfolding rename_def
  by (rule triple_conseq[OF frozen_change]) (use rename_tmp_tree[OF assms] in auto)

text \<open>
  All or nothing: on success exactly the destination is replaced, on failure the tree is as it
  was, but for the temporary entry if its removal failed too.
\<close>

definition replaced :: "tree \<Rightarrow> key \<Rightarrow> nat \<Rightarrow> string \<Rightarrow> tree \<Rightarrow> bool" where
  "replaced t k mode data t' \<longleftrightarrow> (\<exists>i. t' = fmupd k (File i mode data) t)"

abbreviation rests :: "tree \<Rightarrow> key \<Rightarrow> string \<Rightarrow> world \<Rightarrow> bool" where
  "rests t d stem w \<equiv> \<exists>t'. leftover t d stem t' \<and> frozen t' w"

lemma frozen_atomic_write:
  assumes wf: "wf_tree t" and q: "is_abs q" "linkfree t (butlast (clean_elements q))" "clean_elements q \<noteq> []"
    and w: "\<And>p i. fresh_in t (butlast (clean_elements q)) ''.endstate-write-'' p \<Longrightarrow>
      triple (frozen (fmupd (clean_elements p) (File i (perm mode) []) t)) (write p)
        (\<lambda>_. frozen (fmupd (clean_elements p) (File i (perm mode) data) t))
        (\<lambda>w. \<exists>n. is_regular n \<and> frozen (fmupd (clean_elements p) n t) w)"
  shows "triple (frozen t) (atomic_write q mode write)
     (\<lambda>_ w. \<exists>t'. replaced t (clean_elements q) (perm mode) data t' \<and> frozen t' w)
     (rests t (butlast (clean_elements q)) ''.endstate-write-'')"
proof -
  let ?d = "butlast (clean_elements q)" and ?s = "''.endstate-write-''"
  let ?Q = "\<lambda>_ w. \<exists>t'. replaced t (clean_elements q) (perm mode) data t' \<and> frozen t' w"
  have dn: "is_abs (dir_name q)" "clean_elements (dir_name q) = ?d"
    using dir_name_inside[of "[]" q] q(1,3) by (auto simp: inside_def strict_prefix_def)
  have tmp: "triple (frozen t) (os (create_temp (dir_name q) ?s))
     (\<lambda>p w. fresh_in t ?d ?s p \<and> (\<exists>i. True \<and> frozen (fmupd (clean_elements p) (File i 384 []) t) w)) (rests t ?d ?s)"
    by (rule triple_map_error, rule triple_conseq[OF frozen_create_temp[of _ t]]) (use dn q(2) in \<open>auto simp: leftover_def\<close>)
  show ?thesis
    unfolding atomic_write_def
  proof (rule triple_bind[OF tmp], rule triple_pure, rule triple_ex)
    fix p i assume f: "fresh_in t ?d ?s p"
    let ?T = "\<lambda>w. \<exists>n. is_regular n \<and> frozen (fmupd (clean_elements p) n t) w"
    let ?N = "\<lambda>m c. frozen (fmupd (clean_elements p) (File i m c) t)"
    have reg: "?N m c w \<Longrightarrow> ?T w" for m c w by (rule exI[of _ "File i m c"]) (simp add: is_regular_def)
    have c1: "triple (?N 384 []) (os (chmod p (perm mode))) (\<lambda>_. ?N (perm mode) []) ?T"
      by (rule triple_map_error, rule triple_conseq[OF tmp_chmod[OF f q(2)]]) (use reg in blast)+
    have c2: "triple (?N (perm mode) []) (write p) (\<lambda>_. ?N (perm mode) data) ?T" by (rule w[OF f])
    have c3: "triple (?N (perm mode) data) (os (sync_file p)) (\<lambda>_. ?N (perm mode) data) ?T"
      by (rule triple_map_error, rule triple_conseq[OF readonlyD[OF readonly_calls(3)]]) (use reg in blast)+
    have c4: "triple (?N (perm mode) data) (os (rename p q)) ?Q ?T"
      by (rule triple_map_error, rule triple_conseq[OF tmp_rename[OF wf f q(2) _ q(1) refl q(3), of "File i (perm mode) data"]])
        (use reg in \<open>auto simp: is_regular_def replaced_def\<close>)
    have clean: "triple ?T (os (remove p) :: (path_error, unit) io) (\<lambda>_. rests t ?d ?s) (rests t ?d ?s)"
      by (rule triple_ex, rule triple_map_error, rule tmp_remove[OF f q(2)])
    show "triple (?N 384 [])
        (io_on_error (io_then (os (chmod p (perm mode))) (io_then (write p) (io_then (os (sync_file p)) (os (rename p q)))))
          (os (remove p))) ?Q (rests t ?d ?s)"
      by (rule triple_on_error[OF triple_then[OF c1 triple_then[OF c2 triple_then[OF c3 c4]]] clean])
  qed
qed

lemma frozen_atomic_write_file:
  assumes "wf_tree t" "is_abs q" "linkfree t (butlast (clean_elements q))" "clean_elements q \<noteq> []"
  shows "triple (frozen t) (atomic_write_file q data mode)
     (\<lambda>_ w. \<exists>t'. replaced t (clean_elements q) (perm mode) data t' \<and> frozen t' w)
     (rests t (butlast (clean_elements q)) ''.endstate-write-'')"
  unfolding atomic_write_file_def
proof (rule frozen_atomic_write[OF assms])
  fix p i assume f: "fresh_in t (butlast (clean_elements q)) ''.endstate-write-'' p"
  show "triple (frozen (fmupd (clean_elements p) (File i (perm mode) []) t)) (os (write_file p data))
      (\<lambda>_. frozen (fmupd (clean_elements p) (File i (perm mode) data) t))
      (\<lambda>w. \<exists>n. is_regular n \<and> frozen (fmupd (clean_elements p) n t) w)"
    by (rule triple_map_error, rule triple_conseq[OF tmp_write[OF f assms(3), of i "perm mode" "[]" data]])
      (auto simp: is_regular_def intro: exI[of _ "File i (perm mode) []"])
qed

section \<open>Fresh directories and their removal\<close>

lemma readonly_st: "readonly m \<Longrightarrow> triple (st R t0 K) m (\<lambda>_. st R t0 K) (st R t0 K)"
proof (rule tripleI)
  fix w e w' assume m: "readonly m" "st R t0 K w" "m w = (Inl e, w')"
  have "frozen (w_tree w) w" using m(2) by (simp add: frozen_def st_def)
  from tripleD(1)[OF readonlyD[OF m(1)] this m(3)] show "st R t0 K w'" using m(2) by (simp add: frozen_def st_def)
next
  fix w x w' assume m: "readonly m" "st R t0 K w" "m w = (Inr x, w')"
  have "frozen (w_tree w) w" using m(2) by (simp add: frozen_def st_def)
  from tripleD(2)[OF readonlyD[OF m(1)] this m(3)] show "st R t0 K w'" using m(2) by (simp add: frozen_def st_def)
qed

lemma frozen_validate_root:
  assumes wf: "wf_tree t"
  shows "triple (frozen t) (validate_root root)
     (\<lambda>p w. (p = clean_path root \<and> is_abs root \<and> linkfree t (clean_elements root)) \<and> frozen t w) (frozen t)"
proof -
  let ?R = "clean_elements root"
  have st: "triple (frozen t) (validate_root root)
      (\<lambda>p w. p = clean_path root \<and> is_abs root \<and> st ?R t (insert ?R {}) w) (\<lambda>_. True)"
    by (rule triple_conseq[OF triple_validate_root[OF refl, of root t "{}"]]) (use wf in \<open>auto simp: frozen_def st_def\<close>)
  have ro: "triple (frozen t) (validate_root root) (\<lambda>_. frozen t) (frozen t)" by (rule readonlyD[OF readonly_validate_root])
  show ?thesis by (rule triple_conseq[OF triple_and[OF st ro]]) (auto simp: frozen_def st_def)
qed

lemma mkdir_tree_fresh:
  assumes "mkdir_tree p m t = Inr t'" "is_abs p" "clean_elements p = d @ [x]" "linkfree t d"
  shows "fmlookup t (clean_elements p) = None \<and> (\<exists>n. entry t d = Some (Dir n)) \<and> t' = fmupd (clean_elements p) (Dir m) t"
proof -
  obtain k where k: "locate t p = Inr k" "entry t k = None" "t' = fmupd k (Dir m) t"
    using assms(1) by (auto simp: mkdir_tree_def split: sum.splits option.splits)
  have lf: "linkfree t (butlast (clean_elements p))" using assms(3,4) by simp
  have "k = clean_elements p" by (rule locate_linkfree(1)[OF k(1) assms(2) lf])
  then show ?thesis using k(2,3) assms(3) locate_linkfree(2)[OF k(1) assms(2) lf] by (simp add: entry_def split: if_splits)
qed

lemma frozen_mkdir_temp:
  assumes d: "is_abs dir" "linkfree t (clean_elements dir)" and stem: "CHR ''/'' \<notin> set stem" "2 < length stem"
  shows "triple (frozen t) (mkdir_temp dir stem)
     (\<lambda>p w. (fresh_in t (clean_elements dir) stem p \<and> (\<exists>n. entry t (clean_elements dir) = Some (Dir n))) \<and>
        frozen (fmupd (clean_elements p) (Dir 448) t) w) (frozen t)"
proof -
  let ?Q = "\<lambda>p w. (fmlookup t (clean_elements p) = None \<and> (\<exists>n. entry t (clean_elements dir) = Some (Dir n))) \<and>
      frozen (fmupd (clean_elements p) (Dir 448) t) w"
  have mk: "triple (frozen t) (mkdir p 448) (\<lambda>_ w. ?Q p w) (frozen t)"
    if p: "is_abs p" "\<exists>x. clean_elements p = clean_elements dir @ [x]" for p
  proof -
    obtain x where x: "clean_elements p = clean_elements dir @ [x]" using p(2) by blast
    show ?thesis
      unfolding mkdir_def
      by (rule triple_conseq[OF frozen_change]) (use mkdir_tree_fresh[OF _ p(1) x d(2)] in blast)+
  qed
  have left: "triple (frozen t) random_left (\<lambda>_. frozen t) (frozen t)" by (rule tripleI) (auto simp: random_left_def)
  show ?thesis
    unfolding mkdir_temp_def
  proof (rule triple_bind[OF left])
    fix n
    show "triple (frozen t) (make_temp (\<lambda>p. mkdir p 448) dir stem n)
     (\<lambda>p w. (fresh_in t (clean_elements dir) stem p \<and> (\<exists>n. entry t (clean_elements dir) = Some (Dir n))) \<and>
        frozen (fmupd (clean_elements p) (Dir 448) t) w) (frozen t)"
      by (rule triple_conseq[OF frozen_make_temp[OF d stem mk]]) (auto simp: fresh_in_def)
  qed
qed

lemma frozen_try_change:
  "triple (frozen t) (io_try (change f))
     (\<lambda>r w. case r of Inr _ \<Rightarrow> \<exists>t'. (\<exists>n. f n t = Inr t') \<and> frozen t' w
        | Inl e \<Rightarrow> (e = EIO \<or> (\<exists>n. f n t = Inl e)) \<and> frozen t w) E"
proof (rule tripleI)
  fix w r w' assume w: "frozen t w" "io_try (change f) w = (Inr r, w')"
  then have c: "change f w = (r, w')" by (simp add: io_try_def split: prod.splits)
  have "calm w" "w_tree w = t" using w(1) by (simp_all add: frozen_def)
  from this(1) show "case r of Inr _ \<Rightarrow> \<exists>t'. (\<exists>n. f n t = Inr t') \<and> frozen t' w'
      | Inl e \<Rightarrow> (e = EIO \<or> (\<exists>n. f n t = Inl e)) \<and> frozen t w'"
  proof (cases rule: syscall_calm[where f = "\<lambda>n t. map_sum id (Pair ()) (f n t)"])
    case (failed v)
    then show ?thesis using c w(1) by (auto simp: change_def frozen_def)
  next
    case (error e v n)
    then have "f n t = Inl e" using \<open>w_tree w = t\<close> by (cases "f n t") auto
    then show ?thesis using error c w(1) by (auto simp: change_def frozen_def)
  next
    case (ok x v n)
    then have "f n t = Inr (w_tree v)" using \<open>w_tree w = t\<close> by (cases "f n t") auto
    then show ?thesis using ok c w(1) by (auto simp: change_def frozen_def)
  qed
qed (simp add: io_try_def split: prod.splits)

text \<open>The entries outside a set of keys.\<close>

definition same_but :: "key set \<Rightarrow> tree \<Rightarrow> tree \<Rightarrow> bool" where
  "same_but B t t' \<longleftrightarrow> (\<forall>k. k \<notin> B \<longrightarrow> fmlookup t' k = fmlookup t k)"

lemma same_but_mono: "same_but A t t' \<Longrightarrow> A \<subseteq> B \<Longrightarrow> same_but B t t'"
  by (auto simp: same_but_def)

lemma frozen_remove_each:
  "triple (frozen t) (remove_each ks) (\<lambda>_. frozen (fmfilter (\<lambda>j. j \<notin> set ks) t))
     (\<lambda>w. \<exists>t'. same_but (set ks) t t' \<and> frozen t' w)"
proof (induction ks arbitrary: t)
  case Nil
  have "fmfilter (\<lambda>j. j \<notin> set []) t = t" by (rule fmap_ext) simp
  then show ?case by (auto intro!: triple_return)
next
  case (Cons k ks)
  let ?Q = "\<lambda>_ :: unit. frozen (fmfilter (\<lambda>j. j \<notin> set (k # ks)) t)"
  let ?E = "\<lambda>w. \<exists>t'. same_but (set (k # ks)) t t' \<and> frozen t' w"
  have drop: "fmfilter (\<lambda>j. j \<notin> set ks) (fmdrop k t) = fmfilter (\<lambda>j. j \<notin> set (k # ks)) t"
    by (rule fmap_ext) auto
  have rest: "triple (frozen (fmdrop k t)) (remove_each ks) ?Q ?E"
  proof (rule triple_conseq[OF Cons.IH])
    fix w assume "\<exists>t'. same_but (set ks) (fmdrop k t) t' \<and> frozen t' w"
    then obtain t' where t': "same_but (set ks) (fmdrop k t) t'" "frozen t' w" by blast
    have "same_but (set (k # ks)) t t'" using t'(1) by (auto simp: same_but_def)
    then show "?E w" using t'(2) by blast
  qed (simp_all only: drop)
  have again: "triple (frozen t) (io_bind (io_try (remove_each ks)) (\<lambda>_. io_fail e)) ?Q ?E" for e
  proof (rule triple_bind)
    show "triple (frozen t) (io_try (remove_each ks)) (\<lambda>_. ?E) ?E"
    proof (rule triple_try_same, rule triple_conseq[OF Cons.IH])
      fix w assume "frozen (fmfilter (\<lambda>j. j \<notin> set ks) t) w"
      moreover have "same_but (set (k # ks)) t (fmfilter (\<lambda>j. j \<notin> set ks) t)" by (simp add: same_but_def)
      ultimately show "?E w" by blast
    next
      fix w assume "\<exists>t'. same_but (set ks) t t' \<and> frozen t' w"
      then show "?E w" using same_but_mono[of "set ks" t _ "set (k # ks)"] by auto
    qed
  qed (rule triple_fail, assumption)
  show ?case
    unfolding remove_each.simps
  proof (rule triple_bind[OF frozen_try_change])
    fix r :: "errno + unit"
    show "triple (\<lambda>w. case r of Inr _ \<Rightarrow> \<exists>t'. (\<exists>n. remove_key k t = Inr t') \<and> frozen t' w
          | Inl e \<Rightarrow> (e = EIO \<or> (\<exists>n. remove_key k t = Inl e)) \<and> frozen t w)
        (case r of Inr _ \<Rightarrow> remove_each ks | Inl ENOENT \<Rightarrow> remove_each ks
         | Inl e \<Rightarrow> io_bind (io_try (remove_each ks)) (\<lambda>_. io_fail e)) ?Q ?E"
    proof (cases r)
      case (Inr u)
      have "t' = fmdrop k t" if "remove_key k t = Inr t'" for t'
        using that by (auto simp: remove_key_def split: option.splits node.splits if_splits)
      then show ?thesis using rest unfolding Inr sum.case by (intro triple_ex) auto
    next
      case (Inl e)
      show ?thesis
      proof (cases "e = ENOENT")
        case True
        have "t = fmdrop k t" if "remove_key k t = Inl ENOENT"
        proof (rule fmap_ext)
          fix j
          have "fmlookup t k = None" using that by (auto simp: remove_key_def split: option.splits node.splits if_splits)
          then show "fmlookup t j = fmlookup (fmdrop k t) j" by auto
        qed
        then have "triple (\<lambda>w. (e = EIO \<or> (\<exists>n. remove_key k t = Inl e)) \<and> frozen t w) (remove_each ks) ?Q ?E"
          using rest True by (intro triple_pure) auto
        then show ?thesis unfolding Inl using True by simp
      next
        case False
        show ?thesis unfolding Inl sum.case
          by (rule triple_pure) (use False again in \<open>auto split: errno.split\<close>)
      qed
    qed
  qed
qed

lemma prune_below: "fmfilter (\<lambda>j. j \<notin> set (rev (below t k))) t = prune t k"
  by (rule fmap_ext) (auto simp: prune_def set_below fmlookup_dom'_iff)

lemma frozen_remove_all:
  assumes wf: "wf_tree t" and p: "is_abs p" "linkfree t (butlast (clean_elements p))" "clean_elements p \<noteq> []"
  shows "triple (frozen t) (remove_all p) (\<lambda>_. frozen (prune t (clean_elements p)))
     (\<lambda>w. \<exists>t'. same_but (subtree (clean_elements p)) t t' \<and> frozen t' w)"
  unfolding remove_all_def
proof (rule triple_bind)
  let ?k = "clean_elements p"
  let ?Q = "\<lambda>_ :: unit. frozen (prune t ?k)"
  let ?E = "\<lambda>w. \<exists>t'. same_but (subtree ?k) t t' \<and> frozen t' w"
  show "triple (frozen t) (io_try (keys_below p))
      (\<lambda>r w. ((r = Inl EIO \<or> r = (case locate t p of Inl e \<Rightarrow> Inl e | Inr k \<Rightarrow> Inr (below t k)))) \<and> frozen t w) ?E"
  proof (rule tripleI)
    fix w r w' assume w: "frozen t w" "io_try (keys_below p) w = (Inr r, w')"
    then have "keys_below p w = (r, w')" by (simp add: io_try_def split: prod.splits)
    then show "(r = Inl EIO \<or> r = (case locate t p of Inl e \<Rightarrow> Inl e | Inr k \<Rightarrow> Inr (below t k))) \<and> frozen t w'"
      using query_calm w(1) unfolding keys_below_def by (fastforce simp: frozen_def)
  qed (simp add: io_try_def split: prod.splits)
  fix r :: "errno + key list"
  show "triple (\<lambda>w. (r = Inl EIO \<or> r = (case locate t p of Inl e \<Rightarrow> Inl e | Inr k \<Rightarrow> Inr (below t k))) \<and> frozen t w)
      (case r of Inl ENOENT \<Rightarrow> io_return () | Inl e \<Rightarrow> io_fail e | Inr ks \<Rightarrow> remove_each (rev ks)) ?Q ?E"
  proof (rule triple_pure)
    assume r: "r = Inl EIO \<or> r = (case locate t p of Inl e \<Rightarrow> Inl e | Inr k \<Rightarrow> Inr (below t k))"
    have stay: "frozen t w \<Longrightarrow> ?E w" for w by (auto simp: same_but_def intro!: exI)
    show "triple (frozen t) (case r of Inl ENOENT \<Rightarrow> io_return () | Inl e \<Rightarrow> io_fail e | Inr ks \<Rightarrow> remove_each (rev ks)) ?Q ?E"
    proof (cases r)
      case (Inr ks)
      then obtain k where k: "locate t p = Inr k" "ks = below t k" using r by (auto split: sum.splits)
      have "k = ?k" by (rule locate_linkfree(1)[OF k(1) p(1,2)])
      then have ks: "ks = below t ?k" using k(2) by simp
      have "set (rev ks) \<subseteq> subtree ?k" by (auto simp: ks set_below subtree_def prefix_def)
      then have mono: "same_but (set (rev ks)) t t' \<Longrightarrow> same_but (subtree ?k) t t'" for t'
        by (rule same_but_mono[rotated])
      show ?thesis unfolding Inr sum.case
        by (rule triple_conseq[OF frozen_remove_each[of t "rev ks"]])
          (use mono in \<open>auto simp: ks prune_below simp del: set_rev\<close>)
    next
      case (Inl e)
      have "prune t ?k = t" if "locate t p = Inl ENOENT"
      proof (rule fmap_ext)
        fix j
        have "fmlookup t (?k @ xs) = None" for xs
        proof (rule ccontr)
          assume "fmlookup t (?k @ xs) \<noteq> None"
          then obtain n where n: "fmlookup t (?k @ xs) = Some n" by blast
          then obtain n' where "fmlookup t ?k = Some n'"
            using wf_tree_above[OF wf n] p(3) by (cases "xs = []") (auto simp: entry_def split: if_splits)
          from locate_present[OF wf p(1) this] show False using that by simp
        qed
        then show "fmlookup (prune t ?k) j = fmlookup t j" by (auto simp: prune_def elim!: prefixE)
      qed
      then show ?thesis unfolding Inl sum.case
        using r Inl stay by (auto split: errno.split sum.splits intro!: triple_fail triple_return)
    qed
  qed
qed

end
