(* ===== verification/EngineProperties.thy ===== *)
theory EngineProperties
  imports MigrationSafety AtomicWrites
begin

text \<open>
  The properties of the migration engine: confinement to the staging root, and what the edit of
  a document leaves on disk, call failures included. The runs of the witnesses are evaluated.
\<close>

section \<open>A small staging directory\<close>

definition sample_tree :: tree where
  "sample_tree = fmap_of_list
     [([''r''], Dir 493), ([''r'', ''a''], File 1 420 ''[s]''), ([''r'', ''d''], Dir 493),
      ([''r'', ''d'', ''!k''], File 2 384 ''x''), ([''o''], File 3 420 ''out'')]"

definition sample_world :: "event list \<Rightarrow> world" where
  "sample_world evs = \<lparr>w_tree = sample_tree, w_fresh = 7, w_random = [''12'', ''34''], w_events = evs\<rparr>"

definition no_codec :: json_codec where
  "no_codec = \<lparr>jc_decode = (\<lambda>_. None), jc_encode = (\<lambda>_. None)\<rparr>"

lemma wf_tree_of_list:
  assumes "list_all (\<lambda>(k, n). k \<noteq> [] \<and> plain_key k \<and>
      (butlast k = [] \<or> (case map_of kvs (butlast k) of Some (Dir _) \<Rightarrow> True | _ \<Rightarrow> False))) kvs"
  shows "wf_tree (fmap_of_list kvs)"
  unfolding wf_tree_def
proof (intro allI impI)
  fix k n assume "fmlookup (fmap_of_list kvs) k = Some n"
  then have "(k, n) \<in> set kvs" by (simp add: fmlookup_of_list map_of_SomeD)
  then have k: "k \<noteq> []" "plain_key k"
    "butlast k = [] \<or> (case map_of kvs (butlast k) of Some (Dir _) \<Rightarrow> True | _ \<Rightarrow> False)"
    using assms by (auto simp: list_all_iff)
  have "\<exists>m. entry (fmap_of_list kvs) (butlast k) = Some (Dir m)"
    using k(3) by (auto simp: entry_def fmlookup_of_list split: option.splits node.splits)
  then show "k \<noteq> [] \<and> plain_key k \<and> (\<exists>m. entry (fmap_of_list kvs) (butlast k) = Some (Dir m))"
    using k(1,2) by blast
qed

lemma wf_sample_tree: "wf_tree sample_tree"
  unfolding sample_tree_def by (rule wf_tree_of_list) code_simp

lemma calm_sample_world: "set evs \<subseteq> {Quiet, Fail} \<Longrightarrow> calm (sample_world evs)"
  by (auto simp: calm_def sample_world_def byte_in_def)

section \<open>Confinement\<close>

text \<open>
  Property C18. Whatever the operations are, whatever the root and the tree look like and
  whichever calls of the operating system fail, the engine changes no entry outside the staging
  root and not the root itself; the tree stays well formed.
\<close>

theorem engine_stays_in_root:
  assumes "calm w" and "wf_tree (w_tree w)" and "engine_apply c root operations w = (r, w')"
  shows "same_outside (clean_elements root) (w_tree w) (w_tree w') \<and> wf_tree (w_tree w')"
  using engine_keeps_outside[OF assms(1,2), of c root operations] assms(3) by simp

theorem engine_stays_in_root_witness:
  "same_outside [''r''] sample_tree (w_tree (snd (engine_apply no_codec ''/r''
      [empty_operation\<lparr>op_type := ''file-move'', op_source := ''a'', op_target := ''n/b''\<rparr>] (sample_world []))))
   \<and> wf_tree (w_tree (snd (engine_apply no_codec ''/r''
      [empty_operation\<lparr>op_type := ''file-move'', op_source := ''a'', op_target := ''n/b''\<rparr>] (sample_world []))))
   \<and> entry (w_tree (snd (engine_apply no_codec ''/r''
      [empty_operation\<lparr>op_type := ''file-move'', op_source := ''a'', op_target := ''n/b''\<rparr>] (sample_world []))))
      [''r'', ''n'', ''b''] = Some (File 1 420 ''[s]'')"
proof -
  let ?run = "engine_apply no_codec ''/r''
      [empty_operation\<lparr>op_type := ''file-move'', op_source := ''a'', op_target := ''n/b''\<rparr>] (sample_world [])"
  have "calm (sample_world [])" by (rule calm_sample_world) simp
  moreover have "wf_tree (w_tree (sample_world []))" using wf_sample_tree by (simp add: sample_world_def)
  moreover have "clean_elements ''/r'' = [''r'']" by code_simp
  moreover have "entry (w_tree (snd ?run)) [''r'', ''n'', ''b''] = Some (File 1 420 ''[s]'')" by code_simp
  moreover have "w_tree (sample_world []) = sample_tree" by (simp add: sample_world_def)
  ultimately show ?thesis
    using engine_stays_in_root[of "sample_world []" no_codec "''/r''" _ "fst ?run" "snd ?run"] by simp
qed

section \<open>The mode of a copied directory\<close>

text \<open>
  \<open>copyDirectoryTree\<close> gives the copy the mode of its first entry in lexical order. That is the
  directory itself (\<open>.\<close>) unless a name starts with a smaller byte: here the directory of mode
  0755 is copied with the mode 0600 of the file \<open>!k\<close> in it.
\<close>

theorem copied_directory_takes_mode_of_first_name:
  "entry (w_tree (snd (engine_apply no_codec ''/r''
     [empty_operation\<lparr>op_type := ''file-copy'', op_source := ''d'', op_target := ''e''\<rparr>] (sample_world []))))
     [''r'', ''e''] = Some (Dir 384)"
  by code_simp

section \<open>Portable paths\<close>

lemma prefix_replace_byte:
  "a \<notin> set w \<Longrightarrow> b \<notin> set w \<Longrightarrow> prefix w (replace_byte a b s) \<longleftrightarrow> prefix w s"
proof (induction w arbitrary: s)
  case (Cons c w)
  then show ?case by (cases s) (auto simp: replace_byte_def)
qed simp

lemma lead_width_replace_byte:
  "\<forall>w \<in> set runes. a \<notin> set w \<and> b \<notin> set w \<Longrightarrow> lead_width runes (replace_byte a b s) = lead_width runes s"
proof -
  assume "\<forall>w \<in> set runes. a \<notin> set w \<and> b \<notin> set w"
  then have "List.find (\<lambda>w. prefix w (replace_byte a b s)) runes = List.find (\<lambda>w. prefix w s) runes"
    by (intro find_cong) (auto simp: prefix_replace_byte)
  then show ?thesis by (simp add: lead_width_def)
qed

lemma to_slashes_trim: "trim_space s = s \<Longrightarrow> trim_space (to_slashes s) = to_slashes s"
proof -
  assume s: "trim_space s = s"
  have "rev (replace_byte a b s) = replace_byte a b (rev s)" for a b by (simp add: replace_byte_def rev_map)
  moreover have "list_all (\<lambda>w. BSLASH \<notin> set w \<and> CHR ''/'' \<notin> set w) space_runes" by code_simp
  moreover have "replace_byte a b s = [] \<longleftrightarrow> s = []" for a b by (simp add: replace_byte_def)
  ultimately have "no_outer_space (to_slashes s) = no_outer_space s"
    by (simp add: no_outer_space_def to_slashes_def lead_width_replace_byte list_all_iff)
  then show ?thesis using s trim_space_fixed by simp
qed

lemma to_slashes_twice: "to_slashes (to_slashes s) = to_slashes s"
  by (simp add: to_slashes_def replace_byte_def BSLASH_def)

lemma normalize_portable_conditions:
  assumes "normalize_portable v = Inr s"
  shows "v \<noteq> []" "v = trim_space v" "NUL \<notin> set v" "\<not> list_ex bad_component (split_on CHR ''/'' (to_slashes v))"
    "\<not> (prefix ''/'' (to_slashes v) \<or> has_drive_prefix (to_slashes v) \<or> CHR '':'' \<in> set (to_slashes v) \<or>
       contains_any (to_slashes v) ''$%~'')"
    "clean_path (to_slashes v) = s" "\<not> (s = ''.'' \<or> s = ''..'' \<or> prefix ''../'' s)"
  using assms by (auto simp: normalize_portable_def Let_def split: if_splits)

text \<open>
  A path that is accepted as portable is relative, climbs nowhere and has only
  proper components; accepting it again changes nothing.
\<close>

theorem portable_path_is_stable:
  assumes "normalize_portable v = Inr s"
  shows "normalize_portable s = Inr s \<and> \<not> is_abs s \<and> path_elements s = split_on CHR ''/'' s \<and>
    ''..'' \<notin> set (path_elements s) \<and> list_all (\<lambda>c. \<not> bad_component c) (path_elements s)"
proof -
  note n = normalize_portable_Inr[OF assms]
  note v = normalize_portable_conditions[OF assms]
  have "NUL \<notin> set s" using v(3) n(1) by (auto simp: to_slashes_def replace_byte_def NUL_def split: if_splits)
  moreover have "s = trim_space s" using to_slashes_trim v(2) n(1) by simp
  ultimately have "normalize_portable s = Inr s"
    using n(1,2) v(4-7) to_slashes_twice[of v] by (simp add: normalize_portable_def Let_def)
  then show ?thesis using n(3-5,8) by (auto simp: list_all_iff)
qed

theorem portable_path_is_stable_witness:
  "normalize_portable (''a'' @ [BSLASH] @ ''b'') = Inr ''a/b'' \<and> normalize_portable ''a/b'' = Inr ''a/b''"
proof -
  have "normalize_portable (''a'' @ [BSLASH] @ ''b'') = Inr ''a/b''" by code_simp
  from this portable_path_is_stable[OF this] show ?thesis by blast
qed

section \<open>Resolution\<close>

text \<open>
  Property C23. A resolved path lies strictly below the root, its elements are those of the root
  and of the portable path, and neither it nor anything above it is a link; resolving changes
  nothing.
\<close>

theorem resolution_passes_no_link:
  assumes "calm w" and "wf_tree (w_tree w)" and "resolve root relative w = (Inr p, w')"
  shows "inside (clean_elements root) p \<and> clean_elements p = portable_key root relative
    \<and> linkfree (w_tree w) (clean_elements p) \<and> w_tree w' = w_tree w"
  using tripleD(2)[OF frozen_resolve[OF assms(2)] _ assms(3)] assms(1)
  by (auto simp: frozen_def resolved_def)

theorem resolution_passes_no_link_witness:
  "fst (resolve ''/r'' ''d/new'' (sample_world [])) = Inr ''/r/d/new'' \<and> inside [''r''] ''/r/d/new''
   \<and> linkfree sample_tree (clean_elements ''/r/d/new'')"
proof -
  have run: "fst (resolve ''/r'' ''d/new'' (sample_world [])) = Inr ''/r/d/new''" by code_simp
  then have "resolve ''/r'' ''d/new'' (sample_world []) = (Inr ''/r/d/new'', snd (resolve ''/r'' ''d/new'' (sample_world [])))"
    by (metis prod.collapse)
  from resolution_passes_no_link[OF calm_sample_world[of "[]"] _ this] wf_sample_tree
  have "inside (clean_elements ''/r'') ''/r/d/new'' \<and> linkfree sample_tree (clean_elements ''/r/d/new'')"
    by (auto simp: sample_world_def)
  moreover have "clean_elements ''/r'' = [''r'']" by code_simp
  ultimately show ?thesis using run by metis
qed

section \<open>Document edits\<close>

lemma frozen_read_operand:
  assumes wf: "wf_tree t"
  shows "triple (frozen t) (read_operand root p)
     (\<lambda>(target, data, mode) w. (resolved t root p target \<and>
        (\<exists>i. fmlookup t (portable_key root p) = Some (File i mode data))) \<and> frozen t w) (frozen t)"
  unfolding read_operand_def resolve_operation_path_def
proof (rule triple_bind[OF triple_map_error[OF frozen_resolve[OF wf]]], rule triple_pure)
  fix q assume r: "resolved t root p q"
  then have q: "is_abs q" "linkfree t (clean_elements q)" "clean_elements q \<noteq> []" "clean_elements q = portable_key root p"
    using insideD by (auto simp: resolved_def)
  let ?Q = "\<lambda>(target, data, mode) w. (resolved t root p target \<and>
        (\<exists>i. fmlookup t (portable_key root p) = Some (File i mode data))) \<and> frozen t w"
  have stat: "triple (frozen t) (io_try (lstat q)) (\<lambda>_. frozen t) (frozen t)" by (rule readonlyD) (intro readonly)
  have body: "triple (frozen t)
      (io_bind (io_map_error map_path_error (read_regular_file q)) (\<lambda>(data, mode). io_return (q, data, mode)))
      ?Q (frozen t)"
    by (rule triple_bind[OF triple_map_error[OF frozen_read_regular[OF q(1-3)]]])
      (use r q(4) in \<open>auto intro: triple_return split: prod.split\<close>)
  show "triple (frozen t)
      (io_bind (io_try (lstat q)) (\<lambda>r.
       case r of
         Inl ENOENT \<Rightarrow> io_fail CodePathNotFound
       | Inl _ \<Rightarrow> io_fail CodeIO
       | Inr info \<Rightarrow>
           if \<not> is_regular info then io_fail CodeUnsupportedFileType
           else io_bind (io_map_error map_path_error (read_regular_file q)) (\<lambda>(data, mode).
             io_return (q, data, mode)))) ?Q (frozen t)"
    by (rule triple_bind[OF stat]) (use body in \<open>auto split: sum.split errno.split intro!: triple_fail\<close>)
qed

text \<open>What an edit leaves: the edited file on success, at most a temporary entry on failure.\<close>

definition edited :: "tree \<Rightarrow> key \<Rightarrow> (string \<Rightarrow> doc_code + string) \<Rightarrow> tree \<Rightarrow> bool" where
  "edited t k edit t' \<longleftrightarrow> (\<exists>i j mode data out. fmlookup t k = Some (File i mode data) \<and> edit data = Inr out \<and>
     t' = fmupd k (File j (perm mode) out) t)"

lemma editedI:
  "fmlookup t k = Some (File i mode data) \<Longrightarrow> edit data = Inr out \<Longrightarrow> replaced t k (perm mode) out t' \<Longrightarrow>
     edited t k edit t'"
  unfolding edited_def replaced_def by blast

lemma frozen_apply_text_edit:
  assumes wf: "wf_tree t"
  shows "triple (frozen t) (apply_text_edit root operation edit)
     (\<lambda>_ w. \<exists>t'. edited t (portable_key root (op_path operation)) edit t' \<and> frozen t' w)
     (rests t (butlast (portable_key root (op_path operation))) ''.endstate-write-'')"
  unfolding apply_text_edit_def
proof (rule triple_bind)
  let ?k = "portable_key root (op_path operation)"
  let ?E = "rests t (butlast ?k) ''.endstate-write-''"
  have stay: "frozen t w \<Longrightarrow> ?E w" for w by (auto simp: leftover_def)
  show "triple (frozen t) (read_operand root (op_path operation))
     (\<lambda>x w. (case x of (target, data, mode) \<Rightarrow> resolved t root (op_path operation) target \<and>
        (\<exists>i. fmlookup t ?k = Some (File i mode data))) \<and> frozen t w) ?E"
    by (rule triple_conseq[OF frozen_read_operand[OF wf]]) (use stay in auto)
  fix x :: "string \<times> string \<times> nat"
  obtain q data mode where x: "x = (q, data, mode)" by (cases x) auto
  show "triple (\<lambda>w. (case x of (target, data, mode) \<Rightarrow> resolved t root (op_path operation) target \<and>
        (\<exists>i. fmlookup t ?k = Some (File i mode data))) \<and> frozen t w)
      (case x of (target, data, mode) \<Rightarrow>
        io_bind (io_of (map_sum map_document_error id (edit data))) (\<lambda>encoded.
          io_map_error (\<lambda>_. CodeIO) (atomic_write_file target encoded mode)))
      (\<lambda>_ w. \<exists>t'. edited t ?k edit t' \<and> frozen t' w) ?E"
    unfolding x prod.case
  proof (rule triple_pure)
    assume r: "resolved t root (op_path operation) q \<and> (\<exists>i. fmlookup t ?k = Some (File i mode data))"
    then have q: "is_abs q" "linkfree t (butlast (clean_elements q))" "clean_elements q \<noteq> []" "clean_elements q = ?k"
      using insideD linkfree_butlast by (auto simp: resolved_def)
    have enc: "triple (frozen t) (io_of (map_sum map_document_error id (edit data)))
        (\<lambda>out w. edit data = Inr out \<and> frozen t w) ?E"
      by (rule triple_of) (use stay in \<open>cases "edit data"; auto\<close>)+
    show "triple (frozen t) (io_bind (io_of (map_sum map_document_error id (edit data))) (\<lambda>encoded.
          io_map_error (\<lambda>_. CodeIO) (atomic_write_file q encoded mode)))
      (\<lambda>_ w. \<exists>t'. edited t ?k edit t' \<and> frozen t' w) ?E"
    proof (rule triple_bind[OF enc], rule triple_pure)
      fix out assume out: "edit data = Inr out"
      show "triple (frozen t) (io_map_error (\<lambda>_. CodeIO) (atomic_write_file q out mode))
          (\<lambda>_ w. \<exists>t'. edited t ?k edit t' \<and> frozen t' w) ?E"
        by (rule triple_map_error, rule triple_conseq[OF frozen_atomic_write_file[OF wf q(1-3)]])
          (use r out q(4) editedI in fastforce)+
    qed
  qed
qed

definition document_edit :: "json_codec \<Rightarrow> migration_operation \<Rightarrow> string \<Rightarrow> doc_code + string" where
  "document_edit c operation = (if prefix ''json'' (op_type operation) then edit_json_text c operation else edit_ini_text operation)"

end
