(* ===== verification/ConfigValidate.thy ===== *)
theory ConfigValidate
  imports EngineProperties
begin

text \<open>
  \<open>internal/configvalidate\<close> (validate.go, errors.go): the validations of a staged or restored
  configuration set, with what an accepted root satisfies.
\<close>

section \<open>Errors\<close>

datatype validation_code =
    ValidationUnsupported | ValidationUnsafeRoot | ValidationUnsafePath | ValidationLinkUnsupported
  | ValidationSourceChanged | ValidationPathNotFound | ValidationFileType | ValidationMalformedJSON
  | ValidationInvalidJSONPath | ValidationJSONPathMissing | ValidationMalformedINI
  | ValidationInvalidINIAddress | ValidationINIKeyMissing | ValidationIO

text \<open>The definition that failed, none when the root itself is invalid.\<close>

record validation_error =
  ve_code :: validation_code
  ve_index :: int
  ve_validation :: "validation_def option"
  ve_hostPath :: string

definition validation_path_error :: "path_error \<Rightarrow> validation_code" where
  "validation_path_error e =
     (case e of
        OsError ENOENT \<Rightarrow> ValidationPathNotFound
      | UnsafeRoot \<Rightarrow> ValidationUnsafeRoot
      | UnsafePath \<Rightarrow> ValidationUnsafePath
      | LinkUnsupported \<Rightarrow> ValidationLinkUnsupported
      | SourceChanged \<Rightarrow> ValidationSourceChanged
      | _ \<Rightarrow> ValidationIO)"

definition validation_document_error :: "doc_code \<Rightarrow> validation_code" where
  "validation_document_error e =
     (case e of
        MalformedJSON \<Rightarrow> ValidationMalformedJSON
      | InvalidJSONPath \<Rightarrow> ValidationInvalidJSONPath
      | MalformedINI \<Rightarrow> ValidationMalformedINI
      | _ \<Rightarrow> ValidationIO)"

definition wrap_error :: "int \<Rightarrow> validation_def \<Rightarrow> string \<Rightarrow> validation_code \<Rightarrow> validation_error" where
  "wrap_error index definition hostPath code =
     \<lparr>ve_code = code, ve_index = index, ve_validation = Some definition, ve_hostPath = hostPath\<rparr>"

section \<open>One validation\<close>

definition validate_definition :: "validation_def \<Rightarrow> validation_code option" where
  "validate_definition d =
     (let t = vd_type d in
      if t = ''file-exists'' \<or> t = ''json-parse'' \<or> t = ''ini-parse'' then None
      else if t = ''json-path-exists''
      then (if validate_json_path (vd_jsonPath d) \<noteq> None then Some ValidationInvalidJSONPath else None)
      else if t = ''ini-key-exists''
      then (if validate_ini_address (vd_section d) (vd_key d) \<noteq> None then Some ValidationInvalidINIAddress else None)
      else Some ValidationUnsupported)"

definition read_validated_file :: "string \<Rightarrow> (validation_code, string) io" where
  "read_validated_file target =
     io_bind (io_try (lstat target)) (\<lambda>r.
       case r of
         Inl ENOENT \<Rightarrow> io_fail ValidationPathNotFound
       | Inl _ \<Rightarrow> io_fail ValidationIO
       | Inr info \<Rightarrow>
           if \<not> is_regular info then io_fail ValidationFileType
           else io_bind (io_map_error validation_path_error (read_regular_file target)) (\<lambda>(data, _). io_return data))"

text \<open>What the content of the file must satisfy.\<close>

definition validate_content :: "json_codec \<Rightarrow> validation_def \<Rightarrow> string \<Rightarrow> validation_code option" where
  "validate_content c d data =
     (let t = vd_type d in
      if t = ''json-parse''
      then (case parse_json c data of Inl e \<Rightarrow> Some (validation_document_error e) | Inr _ \<Rightarrow> None)
      else if t = ''json-path-exists'' then
        (case parse_json c data of
           Inl e \<Rightarrow> Some (validation_document_error e)
         | Inr document \<Rightarrow>
             (case json_path_exists document (vd_jsonPath d) of
                Inl _ \<Rightarrow> Some ValidationInvalidJSONPath
              | Inr exists \<Rightarrow> if exists then None else Some ValidationJSONPathMissing))
      else if t = ''ini-parse''
      then (case parse_ini data of Inl e \<Rightarrow> Some (validation_document_error e) | Inr _ \<Rightarrow> None)
      else if t = ''ini-key-exists'' then
        (case parse_ini data of
           Inl e \<Rightarrow> Some (validation_document_error e)
         | Inr document \<Rightarrow>
             (case ini_key_exists document (vd_section d) (vd_key d) of
                Inl _ \<Rightarrow> Some ValidationInvalidINIAddress
              | Inr exists \<Rightarrow> if exists then None else Some ValidationINIKeyMissing))
      else None)"

definition validate_one :: "json_codec \<Rightarrow> string \<Rightarrow> validation_def \<Rightarrow> (validation_code, unit) io" where
  "validate_one c target d =
     (if vd_type d \<in> set [''file-exists'', ''json-parse'', ''json-path-exists'', ''ini-parse'', ''ini-key-exists'']
      then io_bind (read_validated_file target) (\<lambda>data.
        case validate_content c d data of Some e \<Rightarrow> io_fail e | None \<Rightarrow> io_return ())
      else io_fail ValidationUnsupported)"

section \<open>Lists of validations\<close>

fun validate_each :: "json_codec \<Rightarrow> string \<Rightarrow> int \<Rightarrow> validation_def list \<Rightarrow> (validation_error, unit) io" where
  "validate_each c root index [] = io_return ()"
| "validate_each c root index (d # ds) =
     (case validate_definition d of
        Some e \<Rightarrow> io_fail (wrap_error index d [] e)
      | None \<Rightarrow>
          io_bind (io_map_error (\<lambda>e. wrap_error index d [] (validation_path_error e)) (resolve root (vd_path d))) (\<lambda>target.
          io_then (io_map_error (wrap_error index d target) (validate_one c target d))
            (validate_each c root (index + 1) ds)))"

definition validate_staging :: "json_codec \<Rightarrow> string \<Rightarrow> validation_def list \<Rightarrow> (validation_error, unit) io" where
  "validate_staging c root definitions =
     io_bind (io_map_error (\<lambda>e. \<lparr>ve_code = validation_path_error e, ve_index = - 1, ve_validation = None, ve_hostPath = []\<rparr>)
       (validate_root root)) (\<lambda>_. validate_each c root 0 definitions)"

text \<open>Validations bound to host paths.\<close>

definition base_name :: "string \<Rightarrow> string" where
  "base_name p = (if clean_elements p = [] then ''/'' else last (clean_elements p))"

definition resolve_host_path :: "string \<Rightarrow> (validation_code, string) io" where
  "resolve_host_path hostPath =
     (if hostPath = [] \<or> \<not> is_abs hostPath \<or> clean_path hostPath \<noteq> hostPath \<or>
         prefix [BSLASH, BSLASH] hostPath \<or> prefix ''//'' hostPath
      then io_fail ValidationUnsafePath
      else io_bind (io_map_error validation_path_error (resolve (dir_name hostPath) (base_name hostPath))) (\<lambda>target.
        if target \<noteq> hostPath then io_fail ValidationUnsafePath else io_return target))"

fun validate_resolved_from ::
    "json_codec \<Rightarrow> int \<Rightarrow> (validation_def \<times> string) list \<Rightarrow> (validation_error, unit) io" where
  "validate_resolved_from c index [] = io_return ()"
| "validate_resolved_from c index ((d, hostPath) # vs) =
     (case validate_definition d of
        Some e \<Rightarrow> io_fail (wrap_error index d hostPath e)
      | None \<Rightarrow>
          io_bind (io_map_error (wrap_error index d hostPath) (resolve_host_path hostPath)) (\<lambda>target.
          io_then (io_map_error (wrap_error index d target) (validate_one c target d))
            (validate_resolved_from c (index + 1) vs)))"

definition validate_resolved :: "json_codec \<Rightarrow> (validation_def \<times> string) list \<Rightarrow> (validation_error, unit) io" where
  "validate_resolved c validations = validate_resolved_from c 0 validations"

section \<open>What an accepted root satisfies\<close>

text \<open>The contract of a validation: a regular file at a path, with a content that passes.\<close>

definition satisfied :: "json_codec \<Rightarrow> tree \<Rightarrow> key \<Rightarrow> validation_def \<Rightarrow> bool" where
  "satisfied c t k d \<longleftrightarrow> validate_definition d = None \<and>
     (\<exists>i m data. fmlookup t k = Some (File i m data) \<and> validate_content c d data = None)"

lemma frozen_read_validated:
  assumes p: "is_abs p" "linkfree t (clean_elements p)" "clean_elements p \<noteq> []"
  shows "triple (frozen t) (read_validated_file p)
     (\<lambda>data w. (\<exists>i m. fmlookup t (clean_elements p) = Some (File i m data)) \<and> frozen t w) (frozen t)"
  unfolding read_validated_file_def
proof (rule triple_bind)
  show "triple (frozen t) (io_try (lstat p)) (\<lambda>_. frozen t) (frozen t)" by (rule readonlyD) (intro readonly)
  let ?Q = "\<lambda>data w. (\<exists>i m. fmlookup t (clean_elements p) = Some (File i m data)) \<and> frozen t w"
  fix r :: "errno + node"
  have "triple (frozen t) (io_bind (io_map_error validation_path_error (read_regular_file p)) (\<lambda>(data, _). io_return data))
      ?Q (frozen t)"
    by (rule triple_bind[OF triple_map_error[OF frozen_read_regular[OF p]]]) (auto intro: triple_return split: prod.split)
  then show "triple (frozen t)
      (case r of Inl ENOENT \<Rightarrow> io_fail ValidationPathNotFound | Inl _ \<Rightarrow> io_fail ValidationIO
       | Inr info \<Rightarrow> if \<not> is_regular info then io_fail ValidationFileType
           else io_bind (io_map_error validation_path_error (read_regular_file p)) (\<lambda>(data, _). io_return data))
      ?Q (frozen t)"
    by (auto split: sum.split errno.split intro!: triple_fail)
qed

lemma frozen_validate_one:
  assumes p: "is_abs p" "linkfree t (clean_elements p)" "clean_elements p \<noteq> []" and d: "validate_definition d = None"
  shows "triple (frozen t) (validate_one c p d) (\<lambda>_ w. satisfied c t (clean_elements p) d \<and> frozen t w) (frozen t)"
proof -
  have "triple (frozen t) (io_bind (read_validated_file p) (\<lambda>data.
        case validate_content c d data of Some e \<Rightarrow> io_fail e | None \<Rightarrow> io_return ()))
      (\<lambda>_ w. satisfied c t (clean_elements p) d \<and> frozen t w) (frozen t)"
    by (rule triple_bind[OF frozen_read_validated[OF p]], rule triple_pure)
      (use d in \<open>auto simp: satisfied_def intro!: triple_fail triple_return split: option.split\<close>)
  then show ?thesis by (auto simp: validate_one_def intro: triple_fail)
qed

lemma frozen_validate_each:
  assumes wf: "wf_tree t"
  shows "triple (frozen t) (validate_each c root i ds)
     (\<lambda>_ w. (\<forall>d \<in> set ds. satisfied c t (portable_key root (vd_path d)) d) \<and> frozen t w) (frozen t)"
proof (induction ds arbitrary: i)
  case Nil
  then show ?case by (auto intro: triple_return)
next
  case (Cons d ds)
  let ?Q = "\<lambda>_ w. (\<forall>d \<in> set (d # ds). satisfied c t (portable_key root (vd_path d)) d) \<and> frozen t w"
  show ?case
  proof (cases "validate_definition d")
    case None
    have "triple (frozen t)
        (io_bind (io_map_error (\<lambda>e. wrap_error i d [] (validation_path_error e)) (resolve root (vd_path d))) (\<lambda>target.
          io_then (io_map_error (wrap_error i d target) (validate_one c target d)) (validate_each c root (i + 1) ds)))
        ?Q (frozen t)"
    proof (rule triple_bind[OF triple_map_error[OF frozen_resolve[OF wf]]], rule triple_pure)
      fix p assume r: "resolved t root (vd_path d) p"
      then have p: "is_abs p" "linkfree t (clean_elements p)" "clean_elements p \<noteq> []"
        "clean_elements p = portable_key root (vd_path d)"
        using insideD by (auto simp: resolved_def)
      show "triple (frozen t)
          (io_then (io_map_error (wrap_error i d p) (validate_one c p d)) (validate_each c root (i + 1) ds)) ?Q (frozen t)"
        by (rule triple_then[OF triple_map_error[OF frozen_validate_one[OF p(1-3) None]]], rule triple_pure,
            rule triple_conseq[OF Cons]) (use p(4) in auto)
    qed
    then show ?thesis using None by simp
  qed (auto intro: triple_fail)
qed

lemma frozen_validate_staging:
  assumes "wf_tree t"
  shows "triple (frozen t) (validate_staging c root ds)
     (\<lambda>_ w. (\<forall>d \<in> set ds. satisfied c t (portable_key root (vd_path d)) d) \<and> frozen t w) (frozen t)"
  unfolding validate_staging_def
  by (rule triple_bind[OF triple_map_error[OF readonlyD[OF readonly_validate_root]] frozen_validate_each[OF assms]])

text \<open>
  Validation changes nothing, and a root it accepts satisfies every definition: at
  its path below the root there is a regular file whose content parses and holds the location
  asked for.
\<close>

theorem accepted_staging_satisfies_validations:
  assumes "calm w" and "wf_tree (w_tree w)" and "validate_staging c root ds w = (r, w')"
  shows "w_tree w' = w_tree w \<and>
    (case r of Inr _ \<Rightarrow> list_all (\<lambda>d. satisfied c (w_tree w) (portable_key root (vd_path d)) d) ds | Inl _ \<Rightarrow> True)"
proof -
  have start: "frozen (w_tree w) w" using assms(1) by (simp add: frozen_def)
  show ?thesis
    using tripleD[OF frozen_validate_staging[OF assms(2)] start] assms(3)
    by (cases r) (auto simp: frozen_def list_all_iff)
qed

theorem accepted_staging_satisfies_validations_witness:
  "satisfied no_codec sample_tree [''r'', ''a'']
     \<lparr>vd_type = ''ini-parse'', vd_path = ''a'', vd_jsonPath = [], vd_section = [], vd_key = []\<rparr>"
proof -
  let ?d = "\<lparr>vd_type = ''ini-parse'', vd_path = ''a'', vd_jsonPath = [], vd_section = [], vd_key = []\<rparr>"
  let ?run = "validate_staging no_codec ''/r'' [?d] (sample_world [])"
  have "(case fst ?run of Inl _ \<Rightarrow> False | Inr _ \<Rightarrow> True)" by code_simp
  then obtain u where run: "?run = (Inr u, snd ?run)" by (cases ?run; cases "fst ?run") auto
  have k: "portable_key ''/r'' ''a'' = [''r'', ''a'']" by code_simp
  show ?thesis
    using accepted_staging_satisfies_validations[OF calm_sample_world[of "[]"] _ run] wf_sample_tree k
    by (simp add: sample_world_def)
qed

end
