(* ===== verification/PayloadManifest.thy ===== *)
theory PayloadManifest
  imports EngineProperties Instances
begin

text \<open>
  The part of \<open>internal/bundle\<close> that indexes and verifies a captured payload
  (payload_manifest.go, paths.go, module_snapshot.go): portable paths of bundles, the index of
  all regular files below a root and the verification of such an index in both directions.
  SHA-256 in hexadecimal is the parameter \<open>sha\<close>.
\<close>

section \<open>Bundle paths\<close>

datatype integrity_code =
    IntegrityUnsafePath | IntegrityLinkUnsupported | IntegrityNotRegular
  | PayloadMissing | PayloadExtra | PayloadSizeMismatch | PayloadHashMismatch | PayloadDuplicate
  | PayloadInvalidEntry | SnapshotMissing | SnapshotHashMismatch | SnapshotConflict

datatype bundle_path_error = BundlePathUnsafe | BundleLink | BundleOs errno

definition has_control :: "string \<Rightarrow> bool" where
  "has_control c \<longleftrightarrow> (\<exists>b \<in> set c. byte b < 32)"

definition normalize_bundle_path :: "string \<Rightarrow> bundle_path_error + string" where
  "normalize_bundle_path value =
     (if value = [] \<or> trim_space value \<noteq> value \<or> NUL \<in> set value then Inl BundlePathUnsafe
      else let normalized = to_slashes value in
        if prefix ''/'' normalized \<or> has_drive_prefix normalized then Inl BundlePathUnsafe
        else if prefix ''~'' normalized \<or> contains_any normalized ''$%:'' then Inl BundlePathUnsafe
        else if list_ex (\<lambda>c. c = ''..'' \<or> has_control c) (split_on CHR ''/'' normalized) then Inl BundlePathUnsafe
        else let cleaned = clean_path normalized in
          if cleaned = ''.'' \<or> cleaned = [] \<or> cleaned = ''..'' \<or> prefix ''../'' cleaned then Inl BundlePathUnsafe
          else Inr cleaned)"

text \<open>The candidate is absolute; what is missing is no link.\<close>

fun no_links_in :: "string list \<Rightarrow> (bundle_path_error, unit) io" where
  "no_links_in [] = io_return ()"
| "no_links_in (p # ps) =
     io_bind (io_try (lstat p)) (\<lambda>r.
       case r of
         Inl ENOENT \<Rightarrow> no_links_in ps
       | Inl e \<Rightarrow> io_fail (BundleOs e)
       | Inr info \<Rightarrow> if is_link info then io_fail BundleLink else no_links_in ps)"

definition ensure_no_links :: "string \<Rightarrow> (bundle_path_error, unit) io" where
  "ensure_no_links candidate = no_links_in (root_chain candidate)"

definition integrity_path_error :: "bundle_path_error \<Rightarrow> integrity_code" where
  "integrity_path_error e =
     (case e of BundleLink \<Rightarrow> IntegrityLinkUnsupported | BundlePathUnsafe \<Rightarrow> IntegrityUnsafePath | BundleOs _ \<Rightarrow> IntegrityNotRegular)"

section \<open>The index of a payload\<close>

record payload_entry =
  pm_relativePath :: string
  pm_size :: int
  pm_sha256 :: string

definition is_payload_hash :: "string \<Rightarrow> bool" where
  "is_payload_hash s \<longleftrightarrow> length s = 64 \<and> list_all (\<lambda>c. is_digit c \<or> byte_in 97 102 c) s"

definition hash_regular_file :: "(string \<Rightarrow> string) \<Rightarrow> string \<Rightarrow> (integrity_code, int \<times> string) io" where
  "hash_regular_file sha hostPath =
     io_then (io_map_error integrity_path_error (ensure_no_links hostPath))
     (io_bind (io_try (open_file hostPath)) (\<lambda>r.
        case r of
          Inl ENOENT \<Rightarrow> io_fail PayloadMissing
        | Inl _ \<Rightarrow> io_fail IntegrityNotRegular
        | Inr info \<Rightarrow>
            if \<not> is_regular info then io_fail IntegrityNotRegular
            else io_return (int (length (file_data info)), sha (file_data info))))"

fun overlapping_payload :: "(string \<Rightarrow> string) \<Rightarrow> string list \<Rightarrow> string list \<Rightarrow> bool" where
  "overlapping_payload ul earlier [] = False"
| "overlapping_payload ul earlier (p # ps) =
     (list_ex (\<lambda>q. let k = to_lower ul p; e = to_lower ul q in k = e \<or> prefix (e @ ''/'') k \<or> prefix (k @ ''/'') e) earlier
      \<or> overlapping_payload ul (earlier @ [p]) ps)"

definition validate_payload_path_set :: "(string \<Rightarrow> string) \<Rightarrow> string list \<Rightarrow> integrity_code option" where
  "validate_payload_path_set ul paths = (if overlapping_payload ul [] paths then Some PayloadDuplicate else None)"

definition payload_less :: "payload_entry \<Rightarrow> payload_entry \<Rightarrow> bool" where
  "payload_less l r \<longleftrightarrow> pm_relativePath l < pm_relativePath r"

interpretation payload_order: slice_less payload_less
  by (rule slice_less_lex[where key = "\<lambda>e. [pm_relativePath e]"]) (simp_all add: payload_less_def)

text \<open>The callback of the walk: directories are passed over, regular files indexed.\<close>

definition visit_payload :: "(string \<Rightarrow> string) \<Rightarrow> string \<Rightarrow> string \<Rightarrow> (integrity_code, payload_entry list) io" where
  "visit_payload sha root hostPath =
     (if hostPath = clean_path root then io_return []
      else io_bind (io_map_error (\<lambda>_. IntegrityNotRegular) (lstat hostPath)) (\<lambda>info.
        if is_link info then io_fail IntegrityLinkUnsupported
        else if is_dir info then io_return []
        else if \<not> is_regular info then io_fail IntegrityNotRegular
        else (case rel_path root hostPath of
            None \<Rightarrow> io_fail IntegrityUnsafePath
          | Some relative \<Rightarrow>
              (case normalize_bundle_path relative of
                 Inl _ \<Rightarrow> io_fail IntegrityUnsafePath
               | Inr portable \<Rightarrow>
                   io_bind (hash_regular_file sha hostPath) (\<lambda>(size, hash).
                     io_return [\<lparr>pm_relativePath = portable, pm_size = size, pm_sha256 = hash\<rparr>])))))"

fun visit_payloads :: "(string \<Rightarrow> string) \<Rightarrow> string \<Rightarrow> string list \<Rightarrow> (integrity_code, payload_entry list) io" where
  "visit_payloads sha root [] = io_return []"
| "visit_payloads sha root (p # ps) =
     io_bind (visit_payload sha root p) (\<lambda>e. io_bind (visit_payloads sha root ps) (\<lambda>es. io_return (e @ es)))"

definition index_payload ::
    "(string \<Rightarrow> string) \<Rightarrow> (string \<Rightarrow> string) \<Rightarrow> string \<Rightarrow> (integrity_code, payload_entry list) io" where
  "index_payload sha ul root =
     io_bind (io_map_error (\<lambda>_. IntegrityNotRegular) (walk_paths root)) (\<lambda>paths.
     io_bind (visit_payloads sha root paths) (\<lambda>entries.
       case validate_payload_path_set ul (map pm_relativePath entries) of
         Some e \<Rightarrow> io_fail e
       | None \<Rightarrow> io_return (sort_by payload_less entries)))"

definition build_payload_manifest ::
    "(string \<Rightarrow> string) \<Rightarrow> (string \<Rightarrow> string) \<Rightarrow> string \<Rightarrow> (integrity_code, payload_entry list) io" where
  "build_payload_manifest sha ul root =
     (if trim_space root = [] \<or> \<not> is_abs root then io_fail IntegrityUnsafePath
      else io_then (io_map_error integrity_path_error (ensure_no_links root))
        (io_bind (io_try (lstat root)) (\<lambda>r.
           case r of
             Inl ENOENT \<Rightarrow> io_fail PayloadMissing
           | Inl _ \<Rightarrow> io_fail IntegrityNotRegular
           | Inr info \<Rightarrow>
               if is_link info then io_fail IntegrityLinkUnsupported
               else if \<not> is_dir info then io_fail IntegrityNotRegular
               else index_payload sha ul root)))"

section \<open>Verification\<close>

fun declared_entries :: "payload_entry list \<Rightarrow> integrity_code + payload_entry list" where
  "declared_entries [] = Inr []"
| "declared_entries (e # es) =
     (case normalize_bundle_path (pm_relativePath e) of
        Inl _ \<Rightarrow> Inl IntegrityUnsafePath
      | Inr portable \<Rightarrow>
          if pm_size e < 0 \<or> \<not> is_payload_hash (pm_sha256 e) then Inl PayloadInvalidEntry
          else try_res (declared_entries es) (\<lambda>ds. Inr (e\<lparr>pm_relativePath := portable\<rparr> # ds)))"

text \<open>The Go map from lower-cased paths to entries; the last entry of a key stays.\<close>

definition payload_map :: "(string \<Rightarrow> string) \<Rightarrow> payload_entry list \<Rightarrow> string \<Rightarrow> payload_entry option" where
  "payload_map ul es = map_of (rev (map (\<lambda>e. (to_lower ul (pm_relativePath e), e)) es))"

definition declared_mismatch ::
    "(string \<Rightarrow> string) \<Rightarrow> payload_entry list \<Rightarrow> payload_entry \<Rightarrow> integrity_code option" where
  "declared_mismatch ul actual e =
     (case payload_map ul actual (to_lower ul (pm_relativePath e)) of
        None \<Rightarrow> Some PayloadMissing
      | Some found \<Rightarrow>
          if pm_size found \<noteq> pm_size e then Some PayloadSizeMismatch
          else if pm_sha256 found \<noteq> pm_sha256 e then Some PayloadHashMismatch else None)"

definition compare_payload ::
    "(string \<Rightarrow> string) \<Rightarrow> payload_entry list \<Rightarrow> payload_entry list \<Rightarrow> integrity_code option" where
  "compare_payload ul declared actual =
     check (first_error (declared_mismatch ul actual) declared)
       (first_error (\<lambda>e. if payload_map ul declared (to_lower ul (pm_relativePath e)) = None then Some PayloadExtra else None) actual)"

definition verify_payload_manifest ::
    "(string \<Rightarrow> string) \<Rightarrow> (string \<Rightarrow> string) \<Rightarrow> string \<Rightarrow> payload_entry list \<Rightarrow> (integrity_code, unit) io" where
  "verify_payload_manifest sha ul root entries =
     io_bind (io_of (declared_entries entries)) (\<lambda>ds.
       case validate_payload_path_set ul (map pm_relativePath ds) of
         Some e \<Rightarrow> io_fail e
       | None \<Rightarrow>
           let declared = sort_by payload_less ds in
           io_bind (build_payload_manifest sha ul root) (\<lambda>actual.
             case compare_payload ul declared actual of Some e \<Rightarrow> io_fail e | None \<Rightarrow> io_return ()))"

end
