(* ===== verification/Stage.thy ===== *)
theory Stage
  imports ConfigValidate PayloadManifest
begin

text \<open>
  \<open>internal/migration/stage.go\<close> and \<open>progress.go\<close>: the staging of one captured payload. The
  payload is verified and copied into a fresh directory, the pinned migration edges are applied
  and validated there, and the observer is told of every step. The state holds the world, the
  answers the context gives when it is asked whether the run was cancelled, and the reporter.
\<close>

section \<open>Progress\<close>

datatype progress_stage = ProgressStaging | ProgressEdge | ProgressValidation
datatype progress_status = ProgressStarted | ProgressCompleted | ProgressFailed

record stage_progress =
  sp_captureID :: string
  sp_stage :: progress_stage
  sp_status :: progress_status
  sp_edgeIndex :: int
  sp_from :: string
  sp_to :: string
  sp_code :: "migration_code option"

record stage_state =
  ss_world :: world
  ss_canceled :: "bool list"
  ss_current :: "stage_progress option"
  ss_observed :: "stage_progress list"

definition stage_lift :: "('e, 'a) io \<Rightarrow> (stage_state, 'e, 'a) run" where
  "stage_lift m s = (case m (ss_world s) of (r, w) \<Rightarrow> (r, s\<lparr>ss_world := w\<rparr>))"

definition emit_progress :: "stage_progress \<Rightarrow> (stage_state, 'e, unit) run" where
  "emit_progress p s = (Inr (), s\<lparr>ss_observed := ss_observed s @ [p]\<rparr>)"

definition report_start ::
    "string \<Rightarrow> progress_stage \<Rightarrow> int \<Rightarrow> string \<Rightarrow> string \<Rightarrow> (stage_state, 'e, unit) run" where
  "report_start captureID stage edgeIndex src dst s =
     (let p = \<lparr>sp_captureID = captureID, sp_stage = stage, sp_status = ProgressStarted, sp_edgeIndex = edgeIndex,
        sp_from = src, sp_to = dst, sp_code = None\<rparr> in
      emit_progress p (s\<lparr>ss_current := Some p\<rparr>))"

definition report_complete :: "(stage_state, 'e, unit) run" where
  "report_complete s =
     (case ss_current s of None \<Rightarrow> (Inr (), s)
      | Some p \<Rightarrow> emit_progress (p\<lparr>sp_status := ProgressCompleted\<rparr>) (s\<lparr>ss_current := None\<rparr>))"

definition report_fail :: "migration_code \<Rightarrow> (stage_state, 'e, unit) run" where
  "report_fail code s =
     (case ss_current s of None \<Rightarrow> (Inr (), s)
      | Some p \<Rightarrow> emit_progress (p\<lparr>sp_status := ProgressFailed, sp_code := Some code\<rparr>) (s\<lparr>ss_current := None\<rparr>))"

section \<open>Requests and errors\<close>

record stage_request =
  sr_captureID :: string
  sr_payloadRoot :: string
  sr_payloadManifest :: "payload_entry list option"
  sr_sourceGeneration :: string
  sr_targetGeneration :: "generation_def option"
  sr_migrationEdges :: "migration_edge list"
  sr_tempParent :: string

datatype stage_phase =
    PhaseRequestValidation | PhaseSourceIntegrity | PhaseStageCreate | PhaseStageCopy | PhaseStagedIntegrity
  | PhasePathValidation | PhaseEdgeOperation | PhaseEdgeValidation | PhaseTargetValidation | PhaseCleanup

text \<open>\<open>se_cleanupFailed\<close>: the error of a failed clean-up was joined to the error.\<close>

record stage_error =
  se_code :: migration_code
  se_operation :: string
  se_index :: int
  se_phase :: stage_phase
  se_edgeIndex :: int
  se_validationIndex :: int
  se_integrityCode :: "integrity_code option"
  se_validationCode :: "validation_code option"
  se_cleanupFailed :: bool

definition new_stage_error :: "migration_code \<Rightarrow> stage_phase \<Rightarrow> int \<Rightarrow> stage_error" where
  "new_stage_error code phase edgeIndex =
     \<lparr>se_code = code, se_operation = [], se_index = - 1, se_phase = phase, se_edgeIndex = edgeIndex,
      se_validationIndex = - 1, se_integrityCode = None, se_validationCode = None, se_cleanupFailed = False\<rparr>"

definition integrity_stage_error :: "stage_phase \<Rightarrow> integrity_code \<Rightarrow> stage_error" where
  "integrity_stage_error phase e = (new_stage_error CodePayloadIntegrityFailed phase (- 1))\<lparr>se_integrityCode := Some e\<rparr>"

definition operation_stage_error :: "int \<Rightarrow> operation_error \<Rightarrow> stage_error" where
  "operation_stage_error edgeIndex e =
     (new_stage_error (oe_code e) PhaseEdgeOperation edgeIndex)\<lparr>se_operation := oe_operation e, se_index := oe_index e\<rparr>"

definition validation_stage_error :: "stage_phase \<Rightarrow> int \<Rightarrow> validation_error \<Rightarrow> stage_error" where
  "validation_stage_error phase edgeIndex e =
     (new_stage_error CodeValidationFailed phase edgeIndex)\<lparr>se_validationIndex := ve_index e, se_validationCode := Some (ve_code e)\<rparr>"

text \<open>The shape of a request; \<open>True\<close> when it is rejected.\<close>

definition invalid_stage_request :: "stage_request \<Rightarrow> bool" where
  "invalid_stage_request rq \<longleftrightarrow>
     sr_captureID rq = [] \<or> sr_payloadRoot rq = [] \<or> \<not> is_abs (sr_payloadRoot rq) \<or> sr_payloadManifest rq = None \<or>
     sr_sourceGeneration rq = [] \<or>
     (case sr_targetGeneration rq of None \<Rightarrow> True | Some g \<Rightarrow> gen_id g = [])"

section \<open>Pinned edges\<close>

fun pinned_from :: "string \<Rightarrow> string \<Rightarrow> string list \<Rightarrow> migration_edge list \<Rightarrow> string list option" where
  "pinned_from final current path [] = (if current \<noteq> final then None else Some path)"
| "pinned_from final current path (e # es) =
     (if edge_operations e = [] \<or> edge_validate e = [] then None
      else if edge_from e = [] \<or> edge_to e = [] \<or> edge_from e \<noteq> current \<or> edge_from e = edge_to e then None
      else if edge_to e \<in> set path then None
      else pinned_from final (edge_to e) (path @ [edge_to e]) es)"

definition validate_pinned_edges :: "string \<Rightarrow> string \<Rightarrow> migration_edge list \<Rightarrow> string list option" where
  "validate_pinned_edges src final edges =
     (if edges = [] then (if src \<noteq> final then None else Some [])
      else pinned_from final src [src] edges)"

section \<open>The stage\<close>

text \<open>What the host provides: the codec, the hash, lower case, the temporary directory.\<close>

record stage_host =
  sh_codec :: json_codec
  sh_sha :: "string \<Rightarrow> string"
  sh_lower :: "string \<Rightarrow> string"
  sh_temp :: "string option"

definition contained_host_path :: "string \<Rightarrow> string \<Rightarrow> bool" where
  "contained_host_path root candidate =
     (case rel_path root candidate of None \<Rightarrow> False
      | Some relative \<Rightarrow> relative \<noteq> ''..'' \<and> \<not> is_abs relative \<and>
          (relative = ''.'' \<or> length relative < 3 \<or> take 3 relative \<noteq> ''../''))"

definition resolve_stage_parent :: "stage_host \<Rightarrow> string \<Rightarrow> string \<Rightarrow> (migration_code, string) io" where
  "resolve_stage_parent h payloadRoot requested =
     (case (if requested = [] then sh_temp h else Some requested) of
        None \<Rightarrow> io_fail CodeIO
      | Some parent \<Rightarrow>
          io_then (io_bind (io_map_error map_path_error (validate_root parent)) (\<lambda>_. io_return ()))
            (if contained_host_path (clean_path payloadRoot) (clean_path parent) then io_fail CodeUnsafeRoot
             else io_return (clean_path parent)))"

definition copy_stage_payload_file :: "string \<Rightarrow> string \<Rightarrow> string \<Rightarrow> (migration_code, unit) io" where
  "copy_stage_payload_file payloadRoot stageRoot portable =
     io_bind (io_map_error map_path_error (resolve payloadRoot portable)) (\<lambda>source.
     io_bind (io_error (lstat source)) (\<lambda>info.
       if \<not> is_regular info then io_fail CodeIO
       else io_then (io_map_error map_path_error (mkdir_parent stageRoot portable 448))
         (io_bind (io_map_error map_path_error (resolve stageRoot portable)) (\<lambda>destination.
           io_map_error map_path_error (atomic_copy_file source destination (node_mode info))))))"

text \<open>The context is asked; an exhausted list means that it is never cancelled.\<close>

definition check_canceled :: "stage_error \<Rightarrow> (stage_state, stage_error, unit) run" where
  "check_canceled e s =
     (case ss_canceled s of [] \<Rightarrow> (Inr (), s)
      | b # bs \<Rightarrow> if b then (Inl e, s\<lparr>ss_canceled := bs\<rparr>) else (Inr (), s\<lparr>ss_canceled := bs\<rparr>))"

definition checkpoint :: "stage_phase \<Rightarrow> int \<Rightarrow> (stage_state, stage_error, unit) run" where
  "checkpoint phase index = check_canceled (new_stage_error CodeCanceled phase index)"

fun copy_payload_from :: "string \<Rightarrow> string \<Rightarrow> int \<Rightarrow> payload_entry list \<Rightarrow> (stage_state, stage_error, unit) run" where
  "copy_payload_from payloadRoot stageRoot index [] = io_return ()"
| "copy_payload_from payloadRoot stageRoot index (e # es) =
     io_then (check_canceled ((new_stage_error CodeCanceled PhaseStageCopy (- 1))\<lparr>se_index := index\<rparr>))
     (io_then (stage_lift (io_map_error
         (\<lambda>c. (new_stage_error c PhaseStageCopy (- 1))\<lparr>se_index := index, se_operation := ''file-copy''\<rparr>)
         (copy_stage_payload_file payloadRoot stageRoot (pm_relativePath e))))
       (copy_payload_from payloadRoot stageRoot (index + 1) es))"

definition apply_edge ::
    "stage_host \<Rightarrow> string \<Rightarrow> string \<Rightarrow> int \<Rightarrow> migration_edge \<Rightarrow> (stage_state, stage_error, unit) run" where
  "apply_edge h captureID stageRoot i e =
     io_then (report_start captureID ProgressEdge i (edge_from e) (edge_to e))
     (io_then (checkpoint PhaseEdgeOperation i)
     (io_then (stage_lift (io_map_error (operation_stage_error i) (engine_apply (sh_codec h) stageRoot (edge_operations e))))
     (io_then report_complete
     (io_then (report_start captureID ProgressValidation i (edge_from e) (edge_to e))
     (io_then (checkpoint PhaseEdgeValidation i)
     (io_then (stage_lift (io_map_error (validation_stage_error PhaseEdgeValidation i)
         (validate_staging (sh_codec h) stageRoot (edge_validate e))))
       report_complete))))))"

fun apply_edges ::
    "stage_host \<Rightarrow> string \<Rightarrow> string \<Rightarrow> int \<Rightarrow> migration_edge list \<Rightarrow> (stage_state, stage_error, unit) run" where
  "apply_edges h captureID stageRoot i [] = io_return ()"
| "apply_edges h captureID stageRoot i (e # es) =
     io_then (apply_edge h captureID stageRoot i e) (apply_edges h captureID stageRoot (i + 1) es)"

record stage_result =
  sg_root :: string
  sg_targetGeneration :: string
  sg_migrationPath :: "string list"

text \<open>The part of the run that owns the stage directory.\<close>

definition fill_stage ::
    "stage_host \<Rightarrow> stage_request \<Rightarrow> payload_entry list \<Rightarrow> generation_def \<Rightarrow> string \<Rightarrow> (stage_state, stage_error, stage_result) run" where
  "fill_stage h rq entries final stageRoot =
     io_then (stage_lift (io_map_error (\<lambda>_. new_stage_error CodeIO PhaseStageCreate (- 1)) (chmod stageRoot 448)))
     (io_then (stage_lift (io_map_error (\<lambda>e. new_stage_error (map_path_error e) PhaseStageCreate (- 1))
         (io_bind (validate_root stageRoot) (\<lambda>_. io_return ()))))
     (io_then (checkpoint PhaseStageCopy (- 1))
     (io_then (copy_payload_from (sr_payloadRoot rq) stageRoot 0 (sort_by payload_less entries))
     (io_then (stage_lift (io_map_error (integrity_stage_error PhaseStagedIntegrity)
         (verify_payload_manifest (sh_sha h) (sh_lower h) stageRoot entries)))
     (case validate_pinned_edges (sr_sourceGeneration rq) (gen_id final) (sr_migrationEdges rq) of
        None \<Rightarrow> io_fail (new_stage_error CodeInvalidMigrationPath PhasePathValidation (- 1))
      | Some path \<Rightarrow>
          io_then report_complete
          (io_then (apply_edges h (sr_captureID rq) stageRoot 0 (sr_migrationEdges rq))
          (io_then (report_start (sr_captureID rq) ProgressValidation (- 1) [] (gen_id final))
          (io_then (checkpoint PhaseTargetValidation (- 1))
          (io_then (stage_lift (io_map_error (validation_stage_error PhaseTargetValidation (- 1))
              (validate_staging (sh_codec h) stageRoot (gen_validate final))))
          (io_then report_complete
            (io_return \<lparr>sg_root = stageRoot, sg_targetGeneration = gen_id final, sg_migrationPath = path\<rparr>)))))))))))"

text \<open>The deferred calls: the stage is removed after an error, then the failure is reported.\<close>

definition with_cleanup ::
    "string \<Rightarrow> (stage_state, stage_error, 'a) run \<Rightarrow> (stage_state, stage_error, 'a) run" where
  "with_cleanup stageRoot m s =
     (case m s of
        (Inr x, s') \<Rightarrow> (Inr x, s')
      | (Inl e, s') \<Rightarrow>
          (case stage_lift (remove_all stageRoot) s' of
             (Inr _, s'') \<Rightarrow> (Inl e, s'')
           | (Inl _, s'') \<Rightarrow> (Inl (e\<lparr>se_cleanupFailed := True\<rparr>), s'')))"

definition with_report :: "(stage_state, stage_error, 'a) run \<Rightarrow> (stage_state, stage_error, 'a) run" where
  "with_report m s =
     (case m s of
        (Inr x, s') \<Rightarrow> (Inr x, s')
      | (Inl e, s') \<Rightarrow> (Inl e, snd (report_fail (se_code e) s' :: (stage_error + unit) \<times> stage_state)))"

definition run_stage ::
    "stage_host \<Rightarrow> stage_request \<Rightarrow> payload_entry list \<Rightarrow> generation_def \<Rightarrow> (stage_state, stage_error, stage_result) run" where
  "run_stage h rq entries final =
     io_then (report_start (sr_captureID rq) ProgressStaging (- 1) [] [])
     (with_report
       (io_then (stage_lift (io_map_error (integrity_stage_error PhaseSourceIntegrity)
           (verify_payload_manifest (sh_sha h) (sh_lower h) (sr_payloadRoot rq) entries)))
       (io_bind (stage_lift (io_map_error (\<lambda>c. new_stage_error c PhaseStageCreate (- 1))
           (resolve_stage_parent h (sr_payloadRoot rq) (sr_tempParent rq)))) (\<lambda>parent.
       (io_bind (stage_lift (io_map_error (\<lambda>_. new_stage_error CodeIO PhaseStageCreate (- 1))
           (mkdir_temp parent ''.endstate-stage-''))) (\<lambda>stageRoot.
         with_cleanup stageRoot (fill_stage h rq entries final stageRoot)))))))"

definition stage :: "stage_host \<Rightarrow> stage_request \<Rightarrow> (stage_state, stage_error, stage_result) run" where
  "stage h rq =
     io_then (checkpoint PhaseSourceIntegrity (- 1))
     (if invalid_stage_request rq then io_fail (new_stage_error CodeInvalidStageRequest PhaseRequestValidation (- 1))
      else run_stage h rq (the (sr_payloadManifest rq)) (the (sr_targetGeneration rq)))"

text \<open>\<open>StageResult.Close\<close>: the first result is kept (\<open>None\<close> before the first call).\<close>

definition close_stage :: "string \<Rightarrow> (errno + unit) option \<Rightarrow> (errno, (errno + unit) option) io" where
  "close_stage root closed =
     (case closed of
        Some r \<Rightarrow> io_return (Some r)
      | None \<Rightarrow> if root = [] then io_return (Some (Inr ())) else io_bind (io_try (remove_all root)) (\<lambda>r. io_return (Some r)))"

end
