(* ===== verification/PayloadProperties.thy ===== *)
theory PayloadProperties
  imports PayloadManifest
begin

text \<open>
  A verified payload is a closed world: its regular files and the entries of the index name each
  other, with equal sizes and hashes, and there is nothing else below the root. And the relation
  of the two grammars of portable paths the program has.
\<close>

section \<open>No links\<close>

lemma frozen_try_query: "triple (frozen t) (io_try (query f)) (\<lambda>r w. (r = Inl EIO \<or> r = f t) \<and> frozen t w) E"
proof (rule tripleI)
  fix w r w' assume w: "frozen t w" "io_try (query f) w = (Inr r, w')"
  then have "query f w = (r, w')" by (simp add: io_try_def split: prod.splits)
  then show "(r = Inl EIO \<or> r = f t) \<and> frozen t w'" using query_calm w(1) by (fastforce simp: frozen_def)
qed (simp add: io_try_def split: prod.splits)

lemma lstat_linkfree:
  assumes wf: "wf_tree t" and p: "is_abs p" "clean_elements p = k @ [x]" "linkfree t k"
  shows "node_at t (locate t p) = Inl ENOENT \<Longrightarrow> linkfree t (k @ [x])"
    and "node_at t (locate t p) = Inr n \<Longrightarrow> \<not> is_link n \<Longrightarrow> linkfree t (k @ [x])"
proof -
  show "linkfree t (k @ [x])" if none: "node_at t (locate t p) = Inl ENOENT"
  proof (rule linkfree_snoc[OF p(3)])
    fix n assume "entry t (k @ [x]) = Some n"
    then have n: "fmlookup t (clean_elements p) = Some n" by (simp add: entry_def p(2))
    have "node_at t (locate t p) = Inr n"
      using locate_present[OF wf p(1) n] n by (simp add: node_at_def entry_def p(2))
    then show "\<not> is_link n" using none by simp
  qed
  show "linkfree t (k @ [x])" if n: "node_at t (locate t p) = Inr n" "\<not> is_link n"
  proof (rule linkfree_snoc[OF p(3)])
    obtain j where j: "locate t p = Inr j" "entry t j = Some n"
      using n(1) by (auto simp: node_at_def split: sum.splits option.splits)
    have "j = k @ [x]" using locate_linkfree(1)[OF j(1) p(1)] p(2,3) by simp
    then show "\<not> is_link m" if "entry t (k @ [x]) = Some m" for m using j(2) n(2) that by simp
  qed
qed

lemma frozen_no_links_in:
  assumes wf: "wf_tree t" and root: "is_abs p" and i: "i \<le> length (clean_elements p)" "linkfree t (take i (clean_elements p))"
  shows "triple (frozen t)
     (no_links_in (map (\<lambda>n. key_path (take n (clean_elements p))) [Suc i..<Suc (length (clean_elements p))]))
     (\<lambda>_ w. linkfree t (clean_elements p) \<and> frozen t w) (frozen t)"
  using i
proof (induction "length (clean_elements p) - i" arbitrary: i)
  case 0
  then show ?case by (auto intro!: triple_return)
next
  case (Suc n)
  let ?es = "clean_elements p"
  let ?Q = "\<lambda>_ w. linkfree t ?es \<and> frozen t w"
  have lt: "i < length ?es" using Suc.hyps(2) by simp
  then have up: "[Suc i..<Suc (length ?es)] = Suc i # [Suc (Suc i)..<Suc (length ?es)]" by (simp add: upt_rec)
  have snoc: "take (Suc i) ?es = take i ?es @ [?es ! i]" using lt by (simp add: take_Suc_conv_app_nth)
  have here: "is_abs (key_path (take (Suc i) ?es))" "clean_elements (key_path (take (Suc i) ?es)) = take i ?es @ [?es ! i]"
    using key_path_take[OF root, of "Suc i"] snoc by simp_all
  note step = lstat_linkfree[OF wf here Suc.prems(2), folded snoc]
  let ?rest = "no_links_in (map (\<lambda>n. key_path (take n ?es)) [Suc (Suc i)..<Suc (length ?es)])"
  have rest: "triple (frozen t) ?rest ?Q (frozen t)" if "linkfree t (take (Suc i) ?es)"
    using Suc.hyps(1)[of "Suc i"] Suc.hyps(2) lt that by simp
  have stat: "triple (frozen t) (io_try (lstat (key_path (take (Suc i) ?es))))
      (\<lambda>r w. (r = Inl EIO \<or> r = node_at t (locate t (key_path (take (Suc i) ?es)))) \<and> frozen t w) (frozen t)"
    unfolding lstat_def by (rule frozen_try_query)
  show ?case
    unfolding up list.map no_links_in.simps
  proof (rule triple_bind[OF stat], rule triple_pure)
    fix r assume r: "r = Inl EIO \<or> r = node_at t (locate t (key_path (take (Suc i) ?es)))"
    show "triple (frozen t) (case r of Inl ENOENT \<Rightarrow> ?rest | Inl e \<Rightarrow> io_fail (BundleOs e)
        | Inr info \<Rightarrow> if is_link info then io_fail BundleLink else ?rest) ?Q (frozen t)"
      using rest r step by (auto split: sum.split errno.split intro!: triple_fail)
  qed
qed

lemma frozen_ensure_no_links:
  assumes "wf_tree t" "is_abs p"
  shows "triple (frozen t) (ensure_no_links p) (\<lambda>_ w. linkfree t (clean_elements p) \<and> frozen t w) (frozen t)"
proof -
  let ?es = "clean_elements p"
  let ?ps = "map (\<lambda>n. key_path (take n ?es)) [Suc 0..<Suc (length ?es)]"
  have chain: "root_chain p = key_path (take 0 ?es) # ?ps"
    unfolding root_chain_def by (subst upt_conv_Cons) simp_all
  have rest: "triple (frozen t) (no_links_in ?ps) (\<lambda>_ w. linkfree t ?es \<and> frozen t w) (frozen t)"
    using frozen_no_links_in[OF assms, of 0] by simp
  have stat: "triple (frozen t) (io_try (lstat (key_path (take 0 ?es)))) (\<lambda>_. frozen t) (frozen t)"
    by (rule readonlyD) (intro readonly)
  show ?thesis
    unfolding ensure_no_links_def chain no_links_in.simps
    by (rule triple_bind[OF stat]) (use rest in \<open>auto split: sum.split errno.split intro!: triple_fail\<close>)
qed

section \<open>The files of a payload\<close>

lemma frozen_hash:
  assumes "wf_tree t" "is_abs p" "clean_elements p \<noteq> []"
  shows "triple (frozen t) (hash_regular_file sha p)
     (\<lambda>(size, hash) w. (\<exists>i m d. fmlookup t (clean_elements p) = Some (File i m d) \<and> size = int (length d) \<and> hash = sha d)
        \<and> frozen t w) (frozen t)"
  unfolding hash_regular_file_def
proof (rule triple_then[OF triple_map_error[OF frozen_ensure_no_links[OF assms(1,2)]]], rule triple_pure)
  assume lf: "linkfree t (clean_elements p)"
  let ?Q = "\<lambda>(size, hash) w. (\<exists>i m d. fmlookup t (clean_elements p) = Some (File i m d) \<and> size = int (length d) \<and> hash = sha d)
        \<and> frozen t w"
  have op: "triple (frozen t) (io_try (open_file p))
      (\<lambda>r w. (r = Inl EIO \<or> r = node_at t (locate_final t p)) \<and> frozen t w) (frozen t)"
    unfolding open_file_def by (rule frozen_try_query)
  show "triple (frozen t) (io_bind (io_try (open_file p)) (\<lambda>r.
        case r of Inl ENOENT \<Rightarrow> io_fail PayloadMissing | Inl _ \<Rightarrow> io_fail IntegrityNotRegular
        | Inr info \<Rightarrow> if \<not> is_regular info then io_fail IntegrityNotRegular
            else io_return (int (length (file_data info)), sha (file_data info)))) ?Q (frozen t)"
  proof (rule triple_bind[OF op], rule triple_pure)
    fix r assume r: "r = Inl EIO \<or> r = node_at t (locate_final t p)"
    have found: "\<exists>i m d. fmlookup t (clean_elements p) = Some (File i m d) \<and> file_data n = d"
      if "r = Inr n" "is_regular n" for n
      using node_at_linkfree(2)[OF assms(2) lf assms(3), of n] r that
      by (auto simp: is_regular_def file_data_def split: node.splits)
    show "triple (frozen t) (case r of Inl ENOENT \<Rightarrow> io_fail PayloadMissing | Inl _ \<Rightarrow> io_fail IntegrityNotRegular
        | Inr info \<Rightarrow> if \<not> is_regular info then io_fail IntegrityNotRegular
            else io_return (int (length (file_data info)), sha (file_data info))) ?Q (frozen t)"
      using found by (auto split: sum.split errno.split intro!: triple_fail triple_return)
  qed
qed

text \<open>An entry of the index describes the file at the names below the root.\<close>

definition describes :: "(string \<Rightarrow> string) \<Rightarrow> tree \<Rightarrow> key \<Rightarrow> string list \<Rightarrow> payload_entry \<Rightarrow> bool" where
  "describes sha t R xs e \<longleftrightarrow> xs \<noteq> [] \<and> normalize_bundle_path (join_with ''/'' xs) = Inr (pm_relativePath e) \<and>
     (\<exists>i m d. fmlookup t (R @ xs) = Some (File i m d) \<and> pm_size e = int (length d) \<and> pm_sha256 e = sha d)"

text \<open>What the walk has seen of the entry at a key: a directory, or a file with an entry.\<close>

definition indexed :: "(string \<Rightarrow> string) \<Rightarrow> tree \<Rightarrow> key \<Rightarrow> payload_entry list \<Rightarrow> string list \<Rightarrow> bool" where
  "indexed sha t R es xs \<longleftrightarrow> xs = [] \<or> (\<exists>m. fmlookup t (R @ xs) = Some (Dir m)) \<or> (\<exists>e \<in> set es. describes sha t R xs e)"

lemma rel_path_below:
  assumes "is_abs root" "plain_key xs" "plain_key (clean_elements root)"
  shows "rel_path root (key_path (clean_elements root @ xs)) = Some (render_clean False xs)"
proof -
  have "clean_elements (key_path (clean_elements root @ xs)) = clean_elements root @ xs"
    "is_abs (key_path (clean_elements root @ xs))"
    using clean_elements_key_path[of "clean_elements root @ xs"] assms(2,3) by (auto simp: plain_key_def)
  then show ?thesis using assms(1) by (simp add: rel_path_def drop_common_below)
qed

lemma frozen_visit_payload:
  assumes wf: "wf_tree t" and root: "is_abs root" and n: "fmlookup t (clean_elements root @ xs) = Some n"
  shows "triple (frozen t) (visit_payload sha root (key_path (clean_elements root @ xs)))
     (\<lambda>es w. (indexed sha t (clean_elements root) es xs \<and> (\<forall>e \<in> set es. describes sha t (clean_elements root) xs e))
        \<and> frozen t w) (frozen t)"
proof -
  let ?R = "clean_elements root" and ?p = "key_path (clean_elements root @ xs)"
  let ?Q = "\<lambda>es w. (indexed sha t ?R es xs \<and> (\<forall>e \<in> set es. describes sha t ?R xs e)) \<and> frozen t w"
  have pk: "plain_key (?R @ xs)" "?R @ xs \<noteq> []" using wf n by (auto simp: wf_tree_def)
  then have p: "is_abs ?p" "clean_elements ?p = ?R @ xs"
    using clean_elements_key_path[of "?R @ xs"] by (auto simp: plain_key_def)
  show ?thesis
  proof (cases "?p = clean_path root")
    case True
    have "?R @ xs = ?R" using p(2) True by simp
    then show ?thesis unfolding visit_payload_def using True by (auto intro!: triple_return simp: indexed_def)
  next
    case False
    have xs: "xs \<noteq> []" using False root by (auto simp: key_path_def clean_path_def)
    have at: "node_at t (locate t ?p) = Inr n"
      using locate_present[OF wf p(1)] n xs p(2) by (simp add: node_at_def entry_def)
    have stat: "triple (frozen t) (io_map_error (\<lambda>_. IntegrityNotRegular) (lstat ?p))
        (\<lambda>i w. i = n \<and> frozen t w) (frozen t)"
      unfolding lstat_def by (rule triple_map_error, rule triple_conseq[OF frozen_query]) (use at in auto)
    have rel: "rel_path root ?p = Some (join_with ''/'' xs)"
      using rel_path_below[OF root, of xs] pk(1) xs by (simp add: render_clean_def)
    have hashed: "triple (frozen t) (io_bind (hash_regular_file sha ?p) (\<lambda>(size, hash).
        io_return [\<lparr>pm_relativePath = s, pm_size = size, pm_sha256 = hash\<rparr>])) ?Q (frozen t)"
      if "normalize_bundle_path (join_with ''/'' xs) = Inr s" for s
      by (rule triple_bind[OF frozen_hash[OF wf p(1)]])
        (use p(2) pk(2) that xs in \<open>auto intro!: triple_return simp: indexed_def describes_def split: prod.splits\<close>)
    show ?thesis
      unfolding visit_payload_def rel option.case
    proof (cases "?p = clean_path root")
      case no: False
      show "triple (frozen t) (if ?p = clean_path root then io_return []
        else io_bind (io_map_error (\<lambda>_. IntegrityNotRegular) (lstat ?p)) (\<lambda>info.
          if is_link info then io_fail IntegrityLinkUnsupported
          else if is_dir info then io_return []
          else if \<not> is_regular info then io_fail IntegrityNotRegular
          else (case normalize_bundle_path (join_with ''/'' xs) of
                 Inl _ \<Rightarrow> io_fail IntegrityUnsafePath
               | Inr portable \<Rightarrow> io_bind (hash_regular_file sha ?p) (\<lambda>(size, hash).
                     io_return [\<lparr>pm_relativePath = portable, pm_size = size, pm_sha256 = hash\<rparr>])))) ?Q (frozen t)"
        unfolding if_not_P[OF no]
        by (rule triple_bind[OF stat], rule triple_pure)
          (use hashed n in \<open>auto split: sum.split intro!: triple_fail triple_return simp: indexed_def is_dir_iff\<close>)
    qed (use False in simp)
  qed
qed

lemma indexed_mono: "indexed sha t R es xs \<Longrightarrow> set es \<subseteq> set fs \<Longrightarrow> indexed sha t R fs xs"
  unfolding indexed_def by blast

lemma frozen_visit_payloads:
  assumes wf: "wf_tree t" and root: "is_abs root" and "\<forall>xs \<in> set xss. fmlookup t (clean_elements root @ xs) \<noteq> None"
  shows "triple (frozen t) (visit_payloads sha root (map (\<lambda>xs. key_path (clean_elements root @ xs)) xss))
     (\<lambda>es w. ((\<forall>xs \<in> set xss. indexed sha t (clean_elements root) es xs) \<and>
        (\<forall>e \<in> set es. \<exists>xs. describes sha t (clean_elements root) xs e)) \<and> frozen t w) (frozen t)"
  using assms(3)
proof (induction xss)
  case Nil
  then show ?case by (auto intro: triple_return)
next
  case (Cons xs xss)
  let ?R = "clean_elements root"
  obtain n where n: "fmlookup t (?R @ xs) = Some n" using Cons.prems by auto
  have rest: "triple (frozen t) (visit_payloads sha root (map (\<lambda>xs. key_path (?R @ xs)) xss))
     (\<lambda>es w. ((\<forall>xs \<in> set xss. indexed sha t ?R es xs) \<and> (\<forall>e \<in> set es. \<exists>xs. describes sha t ?R xs e)) \<and> frozen t w) (frozen t)"
    using Cons by simp
  show ?case
    unfolding list.map visit_payloads.simps
  proof (rule triple_bind[OF frozen_visit_payload[OF wf root n]], rule triple_pure)
    fix es1 assume a: "indexed sha t ?R es1 xs \<and> (\<forall>e \<in> set es1. describes sha t ?R xs e)"
    show "triple (frozen t) (io_bind (visit_payloads sha root (map (\<lambda>xs. key_path (?R @ xs)) xss)) (\<lambda>es. io_return (es1 @ es)))
       (\<lambda>es w. ((\<forall>xs \<in> set (xs # xss). indexed sha t ?R es xs) \<and> (\<forall>e \<in> set es. \<exists>xs. describes sha t ?R xs e)) \<and> frozen t w)
       (frozen t)"
    proof (rule triple_bind[OF rest], rule triple_pure, rule triple_return)
      fix es2 w assume b: "(\<forall>xs \<in> set xss. indexed sha t ?R es2 xs) \<and> (\<forall>e \<in> set es2. \<exists>xs. describes sha t ?R xs e)" "frozen t w"
      have "indexed sha t ?R (es1 @ es2) ys" if "ys \<in> set (xs # xss)" for ys
        using that a b(1) indexed_mono[of sha t ?R es1 ys "es1 @ es2"] indexed_mono[of sha t ?R es2 ys "es1 @ es2"] by auto
      then show "((\<forall>ys \<in> set (xs # xss). indexed sha t ?R (es1 @ es2) ys) \<and>
          (\<forall>e \<in> set (es1 @ es2). \<exists>xs. describes sha t ?R xs e)) \<and> frozen t w"
        using a b by auto
    qed
  qed
qed

lemma frozen_walk_paths:
  assumes "is_abs p" "linkfree t (butlast (clean_elements p))"
  shows "triple (frozen t) (walk_paths p)
     (\<lambda>ps w. ps = map (\<lambda>xs. key_path (clean_elements p @ xs)) (map (drop (length (clean_elements p))) (below t (clean_elements p)))
        \<and> frozen t w) (frozen t)"
  unfolding walk_paths_def
  by (rule triple_conseq[OF frozen_query]) (use locate_linkfree(1)[OF _ assms] in \<open>auto split: sum.splits\<close>)

text \<open>The index describes every file below the root and nothing else.\<close>

definition index_of :: "(string \<Rightarrow> string) \<Rightarrow> (string \<Rightarrow> string) \<Rightarrow> tree \<Rightarrow> key \<Rightarrow> payload_entry list \<Rightarrow> bool" where
  "index_of sha ul t R es \<longleftrightarrow>
     (\<forall>xs n. xs \<noteq> [] \<longrightarrow> fmlookup t (R @ xs) = Some n \<longrightarrow> is_dir n \<or> (\<exists>e \<in> set es. describes sha t R xs e)) \<and>
     (\<forall>e \<in> set es. \<exists>xs. describes sha t R xs e) \<and>
     distinct (map (\<lambda>e. to_lower ul (pm_relativePath e)) es)"

lemma no_overlap_distinct:
  "\<not> overlapping_payload ul earlier ps \<Longrightarrow>
     distinct (map (to_lower ul) ps) \<and> (\<forall>p \<in> set ps. to_lower ul p \<notin> to_lower ul ` set earlier)"
proof (induction ps arbitrary: earlier)
  case (Cons p ps)
  from Cons.prems have p: "to_lower ul p \<notin> to_lower ul ` set earlier"
    and rest: "\<not> overlapping_payload ul (earlier @ [p]) ps" by (auto simp: list_ex_iff Let_def)
  show ?case using p Cons.IH[OF rest] by auto
qed simp

lemma distinct_sort_payload:
  assumes "distinct (map f es)"
  shows "distinct (map f (sort_by payload_less es))"
proof -
  have "mset (map f (sort_by payload_less es)) = mset (map f es)" by simp
  then show ?thesis using assms mset_eq_imp_distinct_iff by blast
qed

lemma frozen_index_payload:
  assumes wf: "wf_tree t" and root: "is_abs root" "linkfree t (clean_elements root)"
  shows "triple (frozen t) (index_payload sha ul root)
     (\<lambda>es w. index_of sha ul t (clean_elements root) es \<and> frozen t w) (frozen t)"
  unfolding index_payload_def
proof (rule triple_bind[OF triple_map_error[OF frozen_walk_paths[OF root(1) linkfree_butlast[OF root(2)]]]], rule triple_pure)
  let ?R = "clean_elements root"
  let ?xss = "map (drop (length ?R)) (below t ?R)"
  let ?Q = "\<lambda>es w. index_of sha ul t ?R es \<and> frozen t w"
  have xss: "xs \<in> set ?xss \<longleftrightarrow> fmlookup t (?R @ xs) \<noteq> None" for xs
  proof
    assume "xs \<in> set ?xss"
    then obtain k where k: "k \<in> fmdom' t" "prefix ?R k" "xs = drop (length ?R) k" by (auto simp: set_below)
    from k(2) obtain ys where "k = ?R @ ys" by (rule prefixE)
    then show "fmlookup t (?R @ xs) \<noteq> None" using k(1,3) by (simp add: fmlookup_dom'_iff)
  next
    assume "fmlookup t (?R @ xs) \<noteq> None"
    then have "?R @ xs \<in> set (below t ?R)" by (auto simp: set_below fmlookup_dom'_iff)
    then show "xs \<in> set ?xss" by force
  qed
  have visits: "triple (frozen t) (visit_payloads sha root (map (\<lambda>xs. key_path (?R @ xs)) ?xss))
     (\<lambda>es w. ((\<forall>xs \<in> set ?xss. indexed sha t ?R es xs) \<and> (\<forall>e \<in> set es. \<exists>xs. describes sha t ?R xs e)) \<and> frozen t w) (frozen t)"
    by (rule frozen_visit_payloads[OF wf root(1)]) (use xss in blast)
  fix ps assume ps: "ps = map (\<lambda>xs. key_path (?R @ xs)) ?xss"
  show "triple (frozen t) (io_bind (visit_payloads sha root ps) (\<lambda>entries.
       case validate_payload_path_set ul (map pm_relativePath entries) of
         Some e \<Rightarrow> io_fail e | None \<Rightarrow> io_return (sort_by payload_less entries))) ?Q (frozen t)"
    unfolding ps
  proof (rule triple_bind[OF visits], rule triple_pure)
    fix es assume es: "(\<forall>xs \<in> set ?xss. indexed sha t ?R es xs) \<and> (\<forall>e \<in> set es. \<exists>xs. describes sha t ?R xs e)"
    have "index_of sha ul t ?R (sort_by payload_less es)"
      if v: "validate_payload_path_set ul (map pm_relativePath es) = None"
    proof -
      have "distinct (map (\<lambda>e. to_lower ul (pm_relativePath e)) es)"
        using v no_overlap_distinct[of ul "[]" "map pm_relativePath es"]
        by (simp add: validate_payload_path_set_def comp_def split: if_splits)
      then have "distinct (map (\<lambda>e. to_lower ul (pm_relativePath e)) (sort_by payload_less es))"
        by (rule distinct_sort_payload)
      moreover have "is_dir n \<or> (\<exists>e \<in> set es. describes sha t ?R xs e)"
        if "xs \<noteq> []" "fmlookup t (?R @ xs) = Some n" for xs n
      proof -
        have "indexed sha t ?R es xs" using es that(2) xss[of xs] by blast
        then show ?thesis using that by (auto simp: indexed_def is_dir_iff)
      qed
      ultimately show ?thesis using es by (simp add: index_of_def)
    qed
    then show "triple (frozen t) (case validate_payload_path_set ul (map pm_relativePath es) of
        Some e \<Rightarrow> io_fail e | None \<Rightarrow> io_return (sort_by payload_less es)) ?Q (frozen t)"
      by (auto split: option.split intro!: triple_fail triple_return)
  qed
qed

lemma frozen_build_payload:
  assumes wf: "wf_tree t"
  shows "triple (frozen t) (build_payload_manifest sha ul root)
     (\<lambda>es w. index_of sha ul t (clean_elements root) es \<and> frozen t w) (frozen t)"
proof (cases "trim_space root = [] \<or> \<not> is_abs root")
  case True
  then show ?thesis by (auto simp: build_payload_manifest_def intro: triple_fail)
next
  case False
  then have root: "is_abs root" by simp
  let ?Q = "\<lambda>es w. index_of sha ul t (clean_elements root) es \<and> frozen t w"
  have "triple (frozen t) (io_then (io_map_error integrity_path_error (ensure_no_links root))
        (io_bind (io_try (lstat root)) (\<lambda>r.
           case r of
             Inl ENOENT \<Rightarrow> io_fail PayloadMissing
           | Inl _ \<Rightarrow> io_fail IntegrityNotRegular
           | Inr info \<Rightarrow>
               if is_link info then io_fail IntegrityLinkUnsupported
               else if \<not> is_dir info then io_fail IntegrityNotRegular
               else index_payload sha ul root))) ?Q (frozen t)"
  proof (rule triple_then[OF triple_map_error[OF frozen_ensure_no_links[OF wf root]]], rule triple_pure, rule triple_bind)
    show "triple (frozen t) (io_try (lstat root)) (\<lambda>_. frozen t) (frozen t)" by (rule readonlyD) (intro readonly)
    assume lf: "linkfree t (clean_elements root)"
    fix r :: "errno + node"
    show "triple (frozen t) (case r of
             Inl ENOENT \<Rightarrow> io_fail PayloadMissing
           | Inl _ \<Rightarrow> io_fail IntegrityNotRegular
           | Inr info \<Rightarrow>
               if is_link info then io_fail IntegrityLinkUnsupported
               else if \<not> is_dir info then io_fail IntegrityNotRegular
               else index_payload sha ul root) ?Q (frozen t)"
      using frozen_index_payload[OF wf root lf] by (auto split: sum.split errno.split intro!: triple_fail)
  qed
  then show ?thesis unfolding build_payload_manifest_def using False by simp
qed

section \<open>A verified payload\<close>

text \<open>A file below the root and an entry of the manifest that name the same content.\<close>

definition matches :: "(string \<Rightarrow> string) \<Rightarrow> (string \<Rightarrow> string) \<Rightarrow> tree \<Rightarrow> key \<Rightarrow> string list \<Rightarrow> payload_entry \<Rightarrow> bool" where
  "matches sha ul t R xs e \<longleftrightarrow>
     (\<exists>p q i m d. normalize_bundle_path (join_with ''/'' xs) = Inr p \<and> normalize_bundle_path (pm_relativePath e) = Inr q \<and>
        to_lower ul p = to_lower ul q \<and> fmlookup t (R @ xs) = Some (File i m d) \<and>
        pm_size e = int (length d) \<and> pm_sha256 e = sha d)"

definition closed_world :: "(string \<Rightarrow> string) \<Rightarrow> (string \<Rightarrow> string) \<Rightarrow> tree \<Rightarrow> key \<Rightarrow> payload_entry list \<Rightarrow> bool" where
  "closed_world sha ul t R entries \<longleftrightarrow>
     (\<forall>xs n. xs \<noteq> [] \<longrightarrow> fmlookup t (R @ xs) = Some n \<longrightarrow> is_dir n \<or> (\<exists>e \<in> set entries. matches sha ul t R xs e)) \<and>
     (\<forall>e \<in> set entries. \<exists>xs. matches sha ul t R xs e)"

lemma declared_entries_Inr:
  "declared_entries es = Inr ds \<Longrightarrow>
     (\<forall>d \<in> set ds. \<exists>e \<in> set es. normalize_bundle_path (pm_relativePath e) = Inr (pm_relativePath d) \<and>
        pm_size e = pm_size d \<and> pm_sha256 e = pm_sha256 d) \<and>
     (\<forall>e \<in> set es. \<exists>d \<in> set ds. normalize_bundle_path (pm_relativePath e) = Inr (pm_relativePath d) \<and>
        pm_size e = pm_size d \<and> pm_sha256 e = pm_sha256 d)"
proof (induction es arbitrary: ds)
  case (Cons e es)
  then obtain p ds' where d: "normalize_bundle_path (pm_relativePath e) = Inr p" "declared_entries es = Inr ds'"
    "ds = e\<lparr>pm_relativePath := p\<rparr> # ds'"
    by (auto split: sum.splits if_splits simp: try_res_def)
  show ?case unfolding d(3) using Cons.IH[OF d(2)] d(1) by simp
qed simp

lemma payload_map_Some: "payload_map ul es k = Some e \<Longrightarrow> e \<in> set es \<and> to_lower ul (pm_relativePath e) = k"
  unfolding payload_map_def by (auto dest!: map_of_SomeD)

lemma payload_map_distinct:
  assumes "distinct (map (\<lambda>e. to_lower ul (pm_relativePath e)) es)" "e \<in> set es"
  shows "payload_map ul es (to_lower ul (pm_relativePath e)) = Some e"
proof -
  have "map fst (rev (map (\<lambda>e. (to_lower ul (pm_relativePath e), e)) es)) = rev (map (\<lambda>e. to_lower ul (pm_relativePath e)) es)"
    by (simp add: rev_map comp_def)
  then have "distinct (map fst (rev (map (\<lambda>e. (to_lower ul (pm_relativePath e), e)) es)))"
    using assms(1) by (simp only: distinct_rev)
  then show ?thesis unfolding payload_map_def by (rule map_of_is_SomeI) (use assms(2) in auto)
qed

lemma compared_closed_world:
  assumes a: "index_of sha ul t R actual" and d: "declared_entries entries = Inr ds"
    and c: "compare_payload ul (sort_by payload_less ds) actual = None"
  shows "closed_world sha ul t R entries"
proof -
  have ok: "declared_mismatch ul actual e = None" if "e \<in> set ds" for e
    using c that by (simp add: compare_payload_def)
  have known: "payload_map ul (sort_by payload_less ds) (to_lower ul (pm_relativePath e)) \<noteq> None" if "e \<in> set actual" for e
    using c that by (auto simp: compare_payload_def split: if_splits)
  have dist: "distinct (map (\<lambda>e. to_lower ul (pm_relativePath e)) actual)" using a by (simp add: index_of_def)
  have pair: "matches sha ul t R xs e" if f: "f \<in> set actual" "describes sha t R xs f" and e: "e \<in> set entries"
    and g: "g \<in> set ds" "normalize_bundle_path (pm_relativePath e) = Inr (pm_relativePath g)" "pm_size e = pm_size g" "pm_sha256 e = pm_sha256 g"
    and low: "to_lower ul (pm_relativePath f) = to_lower ul (pm_relativePath g)" for xs e f g
  proof -
    have "payload_map ul actual (to_lower ul (pm_relativePath g)) = Some f"
      using payload_map_distinct[OF dist f(1)] low by simp
    then have "pm_size f = pm_size g" "pm_sha256 f = pm_sha256 g"
      using ok[OF g(1)] by (auto simp: declared_mismatch_def split: if_splits)
    then show ?thesis using f(2) g low unfolding matches_def describes_def by force
  qed
  have "\<exists>e \<in> set entries. matches sha ul t R xs e" if f: "f \<in> set actual" "describes sha t R xs f" for xs f
  proof -
    obtain g where g: "payload_map ul (sort_by payload_less ds) (to_lower ul (pm_relativePath f)) = Some g" using known[OF f(1)] by blast
    from payload_map_Some[OF g] have g': "g \<in> set ds" "to_lower ul (pm_relativePath g) = to_lower ul (pm_relativePath f)" by simp_all
    with declared_entries_Inr[OF d] obtain e where "e \<in> set entries" "normalize_bundle_path (pm_relativePath e) = Inr (pm_relativePath g)"
      "pm_size e = pm_size g" "pm_sha256 e = pm_sha256 g" by blast
    then show ?thesis using pair[OF f] g' by metis
  qed
  moreover have "\<exists>xs. matches sha ul t R xs e" if e: "e \<in> set entries" for e
  proof -
    obtain g where g: "g \<in> set ds" "normalize_bundle_path (pm_relativePath e) = Inr (pm_relativePath g)" "pm_size e = pm_size g"
      "pm_sha256 e = pm_sha256 g" using declared_entries_Inr[OF d] e by blast
    obtain f where f: "payload_map ul actual (to_lower ul (pm_relativePath g)) = Some f"
      using ok[OF g(1)] by (auto simp: declared_mismatch_def split: option.splits)
    note f' = payload_map_Some[OF f]
    obtain xs where "describes sha t R xs f" using a f' by (auto simp: index_of_def)
    then show ?thesis using pair[OF conjunct1[OF f'] _ e g] f' by blast
  qed
  ultimately show ?thesis using a unfolding closed_world_def index_of_def by blast
qed

lemma frozen_verify_payload:
  assumes wf: "wf_tree t"
  shows "triple (frozen t) (verify_payload_manifest sha ul root entries)
     (\<lambda>_ w. closed_world sha ul t (clean_elements root) entries \<and> frozen t w) (frozen t)"
  unfolding verify_payload_manifest_def
proof (rule triple_bind)
  show "triple (frozen t) (io_of (declared_entries entries))
      (\<lambda>ds w. declared_entries entries = Inr ds \<and> frozen t w) (frozen t)" by (rule triple_of) auto
  fix ds
  show "triple (\<lambda>w. declared_entries entries = Inr ds \<and> frozen t w)
      (case validate_payload_path_set ul (map pm_relativePath ds) of
         Some e \<Rightarrow> io_fail e
       | None \<Rightarrow>
           let declared = sort_by payload_less ds in
           io_bind (build_payload_manifest sha ul root) (\<lambda>actual.
             case compare_payload ul declared actual of Some e \<Rightarrow> io_fail e | None \<Rightarrow> io_return ()))
      (\<lambda>_ w. closed_world sha ul t (clean_elements root) entries \<and> frozen t w) (frozen t)"
  proof (rule triple_pure)
    assume d: "declared_entries entries = Inr ds"
    have "triple (frozen t) (io_bind (build_payload_manifest sha ul root) (\<lambda>actual.
             case compare_payload ul (sort_by payload_less ds) actual of Some e \<Rightarrow> io_fail e | None \<Rightarrow> io_return ()))
      (\<lambda>_ w. closed_world sha ul t (clean_elements root) entries \<and> frozen t w) (frozen t)"
    proof (rule triple_bind[OF frozen_build_payload[OF wf]], rule triple_pure)
      fix actual assume "index_of sha ul t (clean_elements root) actual"
      from compared_closed_world[OF this d]
      show "triple (frozen t) (case compare_payload ul (sort_by payload_less ds) actual of Some e \<Rightarrow> io_fail e | None \<Rightarrow> io_return ())
        (\<lambda>_ w. closed_world sha ul t (clean_elements root) entries \<and> frozen t w) (frozen t)"
        by (auto split: option.split intro!: triple_fail triple_return)
    qed
    then show "triple (frozen t) (case validate_payload_path_set ul (map pm_relativePath ds) of
         Some e \<Rightarrow> io_fail e
       | None \<Rightarrow>
           let declared = sort_by payload_less ds in
           io_bind (build_payload_manifest sha ul root) (\<lambda>actual.
             case compare_payload ul declared actual of Some e \<Rightarrow> io_fail e | None \<Rightarrow> io_return ()))
      (\<lambda>_ w. closed_world sha ul t (clean_elements root) entries \<and> frozen t w) (frozen t)"
      by (auto split: option.split intro!: triple_fail simp: Let_def)
  qed
qed

text \<open>
  Property C20. Verification of a payload changes nothing, and what it accepts is a closed world:
  everything below the root is a directory or a regular file that an entry of the manifest names,
  with its size and hash, and every entry names such a file.
\<close>

theorem verified_payload_is_closed_world:
  assumes "calm w" and "wf_tree (w_tree w)" and "verify_payload_manifest sha ul root entries w = (r, w')"
  shows "w_tree w' = w_tree w \<and>
    (case r of Inr _ \<Rightarrow> closed_world sha ul (w_tree w) (clean_elements root) entries | Inl _ \<Rightarrow> True)"
proof -
  have start: "frozen (w_tree w) w" using assms(1) by (simp add: frozen_def)
  show ?thesis
    using tripleD[OF frozen_verify_payload[OF assms(2)] start] assms(3) by (cases r) (auto simp: frozen_def)
qed

definition sample_hash :: "string \<Rightarrow> string" where
  "sample_hash s = replicate 63 CHR ''0'' @ (if s = ''x'' then ''1'' else ''2'')"

definition sample_payload :: "payload_entry list" where
  "sample_payload = [\<lparr>pm_relativePath = ''!K'', pm_size = 1, pm_sha256 = sample_hash ''x''\<rparr>]"

theorem verified_payload_is_closed_world_witness:
  "closed_world sample_hash id sample_tree [''r'', ''d''] sample_payload"
proof -
  let ?run = "verify_payload_manifest sample_hash id ''/r/d'' sample_payload (sample_world [])"
  have "(case fst ?run of Inl _ \<Rightarrow> False | Inr _ \<Rightarrow> True)" by code_simp
  then obtain u where run: "?run = (Inr u, snd ?run)" by (cases ?run; cases "fst ?run") auto
  have k: "clean_elements ''/r/d'' = [''r'', ''d'']" by code_simp
  show ?thesis
    using verified_payload_is_closed_world[OF calm_sample_world[of "[]"] _ run] wf_sample_tree k
    by (simp add: sample_world_def)
qed

end
