(* ===== verification/StageProperties.thy ===== *)
theory StageProperties
  imports Stage PayloadProperties
begin

text \<open>
  What \<open>Engine.Stage\<close> guarantees, whichever calls fail and whenever it is cancelled: after an
  error the tree is as before, after a success the result is a fresh directory that satisfies
  the target generation and nothing else has changed. The observer sees every step start and
  end once.
\<close>

section \<open>The file system inside the stage\<close>

lemma frozen_st:
  assumes "\<And>t. wf_tree t \<Longrightarrow> triple (frozen t) m (\<lambda>x w. Q x t \<and> frozen t w) (frozen t)"
  shows "triple (st R t0 K) m (\<lambda>x w. Q x (w_tree w) \<and> st R t0 K w) (st R t0 K)"
proof (rule tripleI)
  fix w e w' assume m: "st R t0 K w" "m w = (Inl e, w')"
  have "frozen (w_tree w) w" "wf_tree (w_tree w)" using m(1) by (simp_all add: frozen_def st_def)
  from tripleD(1)[OF assms[OF this(2)] this(1) m(2)] show "st R t0 K w'" using m(1) by (simp add: frozen_def st_def)
next
  fix w x w' assume m: "st R t0 K w" "m w = (Inr x, w')"
  have "frozen (w_tree w) w" "wf_tree (w_tree w)" using m(1) by (simp_all add: frozen_def st_def)
  from tripleD(2)[OF assms[OF this(2)] this(1) m(2)] show "Q x (w_tree w') \<and> st R t0 K w'"
    using m(1) by (auto simp: frozen_def st_def)
qed

lemma triple_verify_payload: "triple (st R t0 K) (verify_payload_manifest sha ul root es) (\<lambda>_. st R t0 K) (st R t0 K)"
  by (rule triple_conseq[OF frozen_st[OF frozen_verify_payload]]) auto

lemma triple_validate_staging:
  "triple (st R t0 K) (validate_staging c root ds)
     (\<lambda>_ w. (\<forall>d \<in> set ds. satisfied c (w_tree w) (portable_key root (vd_path d)) d) \<and> st R t0 K w) (st R t0 K)"
  by (rule frozen_st[OF frozen_validate_staging])

lemma triple_copy_stage_payload_file:
  assumes R: "R = clean_elements stageRoot"
  shows "triple (st R t0 {}) (copy_stage_payload_file payloadRoot stageRoot portable) (\<lambda>_. st R t0 {}) (st R t0 {})"
  unfolding copy_stage_payload_file_def
proof (rule triple_bind[OF triple_map_error[OF readonly_st[OF readonly_resolve]]], rule triple_bind[OF triple_map_error[OF triple_read]])
  fix source info
  let ?rest = "io_then (io_map_error map_path_error (mkdir_parent stageRoot portable 448))
         (io_bind (io_map_error map_path_error (resolve stageRoot portable)) (\<lambda>destination.
           io_map_error map_path_error (atomic_copy_file source destination (node_mode info))))"
  have parents: "triple (st R t0 {}) (io_map_error map_path_error (mkdir_parent stageRoot portable 448)) (\<lambda>_. st R t0 {}) (st R t0 {})"
    by (rule triple_map_error[OF triple_conseq[OF triple_mkdir_parent[OF R, of t0 "{}"]]]) (auto elim: st_mono)
  have res: "triple (st R t0 {}) (io_map_error map_path_error (resolve stageRoot portable))
      (\<lambda>p w. inside R p \<and> st R t0 {clean_elements p} w) (st R t0 {})"
    by (rule triple_map_error[OF triple_conseq[OF triple_resolve[OF R]]]) (auto elim: st_mono)
  have copy: "triple (st R t0 {clean_elements d}) (io_map_error map_path_error (atomic_copy_file source d m))
      (\<lambda>_. st R t0 {}) (st R t0 {})" if "inside R d" for d m
  proof -
    have kb: "known {clean_elements d} (butlast (clean_elements d))" by (rule known_butlast[OF knownI]) simp
    show ?thesis
      by (rule triple_map_error, rule triple_conseq[OF triple_atomic_copy_file[OF that kb]]) (auto elim: st_mono)
  qed
  have "triple (st R t0 {}) ?rest (\<lambda>_. st R t0 {}) (st R t0 {})"
    by (rule triple_then[OF parents triple_bind[OF res]], rule triple_pure, rule copy)
  then show "triple (st R t0 {}) (if \<not> is_regular info then io_fail CodeIO else ?rest) (\<lambda>_. st R t0 {}) (st R t0 {})"
    by (auto intro: triple_fail)
qed

section \<open>Steps of the stage\<close>

abbreviation on_world :: "(world \<Rightarrow> bool) \<Rightarrow> stage_state \<Rightarrow> bool" where
  "on_world P s \<equiv> P (ss_world s)"

lemma triple_stage_lift:
  assumes "triple P m Q E"
  shows "triple (on_world P) (stage_lift m) (\<lambda>x. on_world (Q x)) (on_world E)"
  by (rule tripleI) (use tripleD[OF assms] in \<open>auto simp: stage_lift_def split: prod.splits\<close>)

lemma triple_check_canceled: "triple (on_world P) (check_canceled e) (\<lambda>_. on_world P) (on_world P)"
  by (rule tripleI) (auto simp: check_canceled_def split: list.splits if_splits)

lemma triple_checkpoint: "triple (on_world P) (checkpoint phase i) (\<lambda>_. on_world P) (on_world P)"
  unfolding checkpoint_def by (rule triple_check_canceled)

lemma triple_report:
  "triple (on_world P) (report_start c phase i a b) (\<lambda>_. on_world P) (on_world P)"
  "triple (on_world P) report_complete (\<lambda>_. on_world P) (on_world P)"
  "triple (on_world P) (report_fail code) (\<lambda>_. on_world P) (on_world P)"
  by (rule tripleI; auto simp: report_start_def report_complete_def report_fail_def emit_progress_def Let_def split: option.splits)+

lemma triple_copy_payload_from:
  assumes R: "R = clean_elements stageRoot"
  shows "triple (on_world (st R t0 {})) (copy_payload_from payloadRoot stageRoot i es)
     (\<lambda>_. on_world (st R t0 {})) (on_world (st R t0 {}))"
proof (induction es arbitrary: i)
  case Nil
  then show ?case by (auto intro: triple_return)
next
  case (Cons e es)
  show ?case
    unfolding copy_payload_from.simps
    by (rule triple_then[OF triple_check_canceled
          triple_then[OF triple_stage_lift[OF triple_map_error[OF triple_copy_stage_payload_file[OF R]]] Cons]])
qed

lemma triple_apply_edges:
  assumes R: "R = clean_elements stageRoot"
  shows "triple (on_world (st R t0 {})) (apply_edges h c stageRoot i es)
     (\<lambda>_. on_world (st R t0 {})) (on_world (st R t0 {}))"
proof (induction es arbitrary: i)
  case Nil
  then show ?case by (auto intro: triple_return)
next
  case (Cons e es)
  let ?S = "on_world (st R t0 {})"
  have eng: "triple ?S (stage_lift (io_map_error (operation_stage_error i)
      (engine_apply (sh_codec h) stageRoot (edge_operations e)))) (\<lambda>_. ?S) ?S"
    by (rule triple_stage_lift[OF triple_map_error[OF triple_engine_apply[OF R]]])
  have val: "triple ?S (stage_lift (io_map_error (validation_stage_error PhaseEdgeValidation i)
      (validate_staging (sh_codec h) stageRoot (edge_validate e)))) (\<lambda>_. ?S) ?S"
    by (rule triple_stage_lift[OF triple_map_error], rule triple_conseq[OF triple_validate_staging]) auto
  have edge: "triple ?S (apply_edge h c stageRoot i e) (\<lambda>_. ?S) ?S"
    unfolding apply_edge_def
    by (rule triple_then[OF triple_report(1) triple_then[OF triple_checkpoint triple_then[OF eng
          triple_then[OF triple_report(2) triple_then[OF triple_report(1) triple_then[OF triple_checkpoint
          triple_then[OF val triple_report(2)]]]]]]])
  show ?case
    unfolding apply_edges.simps by (rule triple_then[OF edge Cons])
qed

text \<open>What a filled stage is.\<close>

definition staged :: "stage_host \<Rightarrow> stage_request \<Rightarrow> generation_def \<Rightarrow> string \<Rightarrow> stage_result \<Rightarrow> tree \<Rightarrow> bool" where
  "staged h rq final stageRoot res t \<longleftrightarrow> sg_root res = stageRoot \<and> sg_targetGeneration res = gen_id final \<and>
     validate_pinned_edges (sr_sourceGeneration rq) (gen_id final) (sr_migrationEdges rq) = Some (sg_migrationPath res) \<and>
     (\<forall>d \<in> set (gen_validate final). satisfied (sh_codec h) t (portable_key stageRoot (vd_path d)) d)"

lemma tmp_chmod_dir:
  assumes f: "fresh_in t d stem p" and d: "linkfree t d"
  shows "triple (frozen (fmupd (clean_elements p) (Dir m) t)) (chmod p m)
     (\<lambda>_. frozen (fmupd (clean_elements p) (Dir m) t)) (frozen (fmupd (clean_elements p) (Dir m) t))"
proof -
  let ?t = "fmupd (clean_elements p) (Dir m) t"
  obtain x where x: "clean_elements p = d @ [x]" using f by (auto simp: fresh_in_def)
  have "linkfree ?t d" using d x by (auto simp: linkfree_def entry_def dest: prefix_length_le)
  then have lf: "linkfree ?t (clean_elements p)" unfolding x by (rule linkfree_snoc) (auto simp: entry_def is_link_def)
  have "t' = ?t" if c: "chmod_tree p m ?t = Inr t'" for t'
  proof -
    obtain k old where k: "locate_final ?t p = Inr k" "fmlookup ?t k = Some old" "t' = fmupd k (chmod_node m old) ?t"
      using c by (auto simp: chmod_tree_def split: sum.splits option.splits)
    have "k = clean_elements p" by (rule locate_final_linkfree[OF k(1) _ lf]) (use f in \<open>simp add: fresh_in_def\<close>)
    then show ?thesis using k(2,3) by (auto simp: chmod_node_def fmupd_twice)
  qed
  then show ?thesis unfolding chmod_def by (intro triple_conseq[OF frozen_change]) auto
qed

lemma triple_fill_stage:
  fixes p :: string
  defines "R \<equiv> clean_elements p"
  assumes wf: "wf_tree (fmupd R (Dir 448) t)" and f: "fresh_in t d stem p" and d: "linkfree t d"
  shows "triple (on_world (frozen (fmupd R (Dir 448) t))) (fill_stage h rq es final p)
     (\<lambda>res s. staged h rq final p res (w_tree (ss_world s)) \<and> on_world (st R (fmupd R (Dir 448) t) {}) s)
     (on_world (st R (fmupd R (Dir 448) t) {}))"
proof -
  let ?t = "fmupd R (Dir 448) t"
  let ?S = "on_world (st R ?t {})"
  have enter: "frozen ?t w \<Longrightarrow> st R ?t {} w" for w using wf by (simp add: frozen_def st_def)
  have c1: "triple (on_world (frozen ?t)) (stage_lift (io_map_error (\<lambda>_. new_stage_error CodeIO PhaseStageCreate (- 1)) (chmod p 448)))
      (\<lambda>_. ?S) ?S"
    unfolding R_def
    by (rule triple_conseq[OF triple_stage_lift[OF triple_map_error[OF tmp_chmod_dir[OF f d, of 448]]]]) (use enter in \<open>auto simp: R_def\<close>)
  have c2: "triple ?S (stage_lift (io_map_error (\<lambda>e. new_stage_error (map_path_error e) PhaseStageCreate (- 1))
         (io_bind (validate_root p) (\<lambda>_. io_return ())))) (\<lambda>_. ?S) ?S"
    by (rule triple_stage_lift[OF triple_map_error[OF readonly_st]]) (intro readonly)
  have c3: "triple ?S (copy_payload_from (sr_payloadRoot rq) p 0 (sort_by payload_less es)) (\<lambda>_. ?S) ?S"
    by (rule triple_copy_payload_from[OF R_def[THEN meta_eq_to_obj_eq]])
  have c4: "triple ?S (stage_lift (io_map_error (integrity_stage_error PhaseStagedIntegrity)
         (verify_payload_manifest (sh_sha h) (sh_lower h) p es))) (\<lambda>_. ?S) ?S"
    by (rule triple_stage_lift[OF triple_map_error[OF triple_verify_payload]])
  have c5: "triple ?S (apply_edges h c p 0 edges) (\<lambda>_. ?S) ?S" for c edges
    by (rule triple_apply_edges[OF R_def[THEN meta_eq_to_obj_eq]])
  let ?V = "\<lambda>s. (\<forall>d \<in> set (gen_validate final). satisfied (sh_codec h) (w_tree (ss_world s)) (portable_key p (vd_path d)) d) \<and> ?S s"
  have c6: "triple ?S (stage_lift (io_map_error (validation_stage_error PhaseTargetValidation (- 1))
              (validate_staging (sh_codec h) p (gen_validate final)))) (\<lambda>_. ?V) ?S"
    by (rule triple_stage_lift[OF triple_map_error[OF triple_validate_staging]])
  have c7: "triple ?V report_complete (\<lambda>_. ?V) ?S"
    by (rule triple_conseq[OF triple_report(2)[where P = "\<lambda>w. (\<forall>d \<in> set (gen_validate final).
          satisfied (sh_codec h) (w_tree w) (portable_key p (vd_path d)) d) \<and> st R ?t {} w"]]) auto
  show ?thesis
    unfolding fill_stage_def
  proof (rule triple_then[OF c1 triple_then[OF c2 triple_then[OF triple_checkpoint triple_then[OF c3 triple_then[OF c4]]]]])
    show "triple ?S (case validate_pinned_edges (sr_sourceGeneration rq) (gen_id final) (sr_migrationEdges rq) of
        None \<Rightarrow> io_fail (new_stage_error CodeInvalidMigrationPath PhasePathValidation (- 1))
      | Some path \<Rightarrow>
          io_then report_complete
          (io_then (apply_edges h (sr_captureID rq) p 0 (sr_migrationEdges rq))
          (io_then (report_start (sr_captureID rq) ProgressValidation (- 1) [] (gen_id final))
          (io_then (checkpoint PhaseTargetValidation (- 1))
          (io_then (stage_lift (io_map_error (validation_stage_error PhaseTargetValidation (- 1))
              (validate_staging (sh_codec h) p (gen_validate final))))
          (io_then report_complete
            (io_return \<lparr>sg_root = p, sg_targetGeneration = gen_id final, sg_migrationPath = path\<rparr>)))))))
      (\<lambda>res s. staged h rq final p res (w_tree (ss_world s)) \<and> ?S s) ?S"
    proof (cases "validate_pinned_edges (sr_sourceGeneration rq) (gen_id final) (sr_migrationEdges rq)")
      case None
      then show ?thesis by (auto intro: triple_fail)
    next
      case (Some path)
      show ?thesis
        unfolding Some option.case
        by (rule triple_then[OF triple_report(2) triple_then[OF c5 triple_then[OF triple_report(1)
              triple_then[OF triple_checkpoint triple_then[OF c6 triple_then[OF c7 triple_return]]]]]])
          (auto simp: staged_def Some)
    qed
  qed
qed

section \<open>Errors and the clean-up\<close>

definition clean_error :: "(stage_state, stage_error, 'a) run \<Rightarrow> bool" where
  "clean_error m \<longleftrightarrow> (\<forall>s e s'. m s = (Inl e, s') \<longrightarrow> \<not> se_cleanupFailed e)"

named_theorems clean_errors

lemma clean_bind [clean_errors]:
  assumes a: "clean_error m" and b: "\<And>x. clean_error (k x)"
  shows "clean_error (io_bind m k)"
  unfolding clean_error_def
proof (intro allI impI)
  fix s e s' assume "io_bind m k s = (Inl e, s')"
  then show "\<not> se_cleanupFailed e"
  proof (cases rule: io_bind_cases)
    case (first e')
    then show ?thesis using a by (auto simp: clean_error_def)
  next
    case (both x v)
    then show ?thesis using b[of x] by (auto simp: clean_error_def)
  qed
qed

lemma clean_then [clean_errors]: "clean_error m \<Longrightarrow> clean_error k \<Longrightarrow> clean_error (io_then m k)"
  unfolding io_then_def by (rule clean_bind)

lemma clean_lift [clean_errors]: "(\<And>e. \<not> se_cleanupFailed (f e)) \<Longrightarrow> clean_error (stage_lift (io_map_error f m))"
  by (auto simp: clean_error_def stage_lift_def io_map_error_def split: prod.splits sum.splits)

lemma clean_canceled [clean_errors]: "\<not> se_cleanupFailed e \<Longrightarrow> clean_error (check_canceled e)"
  by (auto simp: clean_error_def check_canceled_def split: list.splits if_splits)

lemma clean_new: "\<not> se_cleanupFailed (new_stage_error c phase i)"
  "\<not> se_cleanupFailed (integrity_stage_error phase e)" "\<not> se_cleanupFailed (operation_stage_error i oe)"
  "\<not> se_cleanupFailed (validation_stage_error phase i ve)"
  by (simp_all add: new_stage_error_def integrity_stage_error_def operation_stage_error_def validation_stage_error_def)

lemma clean_basic [clean_errors]: "clean_error (checkpoint phase i)" "clean_error (report_start c k i a b)"
  "clean_error report_complete" "clean_error (io_return x)" "\<not> se_cleanupFailed e \<Longrightarrow> clean_error (io_fail e)"
  using clean_canceled clean_new(1)
  by (auto simp: checkpoint_def clean_error_def report_start_def report_complete_def emit_progress_def Let_def io_return_def
      io_fail_def split: option.splits)

lemma clean_copy [clean_errors]: "clean_error (copy_payload_from a b i es)"
proof (induction es arbitrary: i)
  case (Cons e es)
  then show ?case using clean_new(1) by (simp, intro clean_errors) (auto simp: clean_new new_stage_error_def)
qed (simp add: clean_errors)

lemma clean_edges [clean_errors]: "clean_error (apply_edges h c p i es)"
proof (induction es arbitrary: i)
  case (Cons e es)
  then show ?case by (simp add: apply_edge_def, intro clean_errors) (auto simp: clean_new)
qed (simp add: clean_errors)

lemma clean_fill [clean_errors]: "clean_error (fill_stage h rq es final p)"
  unfolding fill_stage_def
  by (intro clean_errors) (auto simp: clean_new intro!: clean_errors split: option.split)

text \<open>A run with a view of its result.\<close>

definition outcome :: "('s \<Rightarrow> bool) \<Rightarrow> ('s, 'e, 'a) run \<Rightarrow> ('e + 'a \<Rightarrow> 's \<Rightarrow> bool) \<Rightarrow> bool" where
  "outcome P m Z \<longleftrightarrow> (\<forall>s. P s \<longrightarrow> (case m s of (r, s') \<Rightarrow> Z r s'))"

lemma outcomeD: "outcome P m Z \<Longrightarrow> P s \<Longrightarrow> m s = (r, s') \<Longrightarrow> Z r s'"
  unfolding outcome_def by force

lemma outcome_bind:
  assumes "outcome P m (\<lambda>r s. case r of Inl e \<Rightarrow> Z (Inl e) s | Inr x \<Rightarrow> R x s)" and "\<And>x. outcome (R x) (k x) Z"
  shows "outcome P (io_bind m k) Z"
  unfolding outcome_def
proof (intro allI impI)
  fix s assume s: "P s"
  obtain r s' where m: "m s = (r, s')" by fastforce
  show "case io_bind m k s of (r, s') \<Rightarrow> Z r s'"
    using outcomeD[OF assms(1) s m] assms(2) m by (cases r) (auto simp: io_bind_def outcome_def)
qed

lemma outcome_pure: "(b \<Longrightarrow> outcome P m Z) \<Longrightarrow> outcome (\<lambda>s. b \<and> P s) m Z"
  by (cases b) (simp_all add: outcome_def)

lemma outcome_triple:
  assumes "triple P m Q E" and "clean_error m"
  shows "outcome P m (\<lambda>r s. case r of Inl e \<Rightarrow> \<not> se_cleanupFailed e \<and> E s | Inr x \<Rightarrow> Q x s)"
  unfolding outcome_def
proof (intro allI impI)
  fix s assume s: "P s"
  obtain r s' where m: "m s = (r, s')" by fastforce
  show "case m s of (r, s') \<Rightarrow> case r of Inl e \<Rightarrow> \<not> se_cleanupFailed e \<and> E s' | Inr x \<Rightarrow> Q x s'"
    using tripleD[OF assms(1) s] assms(2) m by (cases r) (auto simp: clean_error_def)
qed

lemma outcome_conseq:
  "outcome P m Z \<Longrightarrow> (\<And>r s. Z r s \<Longrightarrow> Z' r s) \<Longrightarrow> outcome P m Z'"
  unfolding outcome_def by (auto split: prod.splits)

text \<open>
  What a run of \<open>Stage\<close> leaves: after an error the tree it found, unless the clean-up failed too;
  after a success a fresh directory with everything asked for.
\<close>

definition stage_outcome ::
    "stage_host \<Rightarrow> stage_request \<Rightarrow> tree \<Rightarrow> stage_error + stage_result \<Rightarrow> tree \<Rightarrow> bool" where
  "stage_outcome h rq t r t' \<longleftrightarrow>
     (case r of
        Inl e \<Rightarrow> if se_cleanupFailed e then \<exists>k. fmlookup t k = None \<and> same_but (subtree k) t t' else t' = t
      | Inr res \<Rightarrow> fmlookup t (clean_elements (sg_root res)) = None \<and> same_but (subtree (clean_elements (sg_root res))) t t' \<and>
          staged h rq (the (sr_targetGeneration rq)) (sg_root res) res t')"

lemma linkfree_same_outside:
  assumes "same_outside R t t'" "prefix k R" "linkfree t k"
  shows "linkfree t' k"
  unfolding linkfree_def
proof (intro allI impI)
  fix j n assume j: "prefix j k" "entry t' j = Some n"
  have "\<not> strict_prefix R j" using prefix_order.trans[OF j(1) assms(2)] by (auto dest: prefix_order.less_le_trans)
  then have "entry t j = Some n" using j(2) assms(1) by (auto simp: same_outside_def entry_def)
  then show "\<not> is_link n" using assms(3) j(1) by (auto simp: linkfree_def)
qed

lemma fresh_below: "wf_tree t \<Longrightarrow> fresh_in t d stem p \<Longrightarrow> fmlookup t (clean_elements p @ xs) = None"
  using wf_tree_nothing_below[of t "clean_elements p" xs] by (cases "xs = []") (auto simp: fresh_in_def entry_def)

lemma stage_same_but:
  assumes "wf_tree t" "fresh_in t d stem p" "same_outside (clean_elements p) (fmupd (clean_elements p) (Dir m) t) t'"
  shows "same_but (subtree (clean_elements p)) t t'" and "prune t' (clean_elements p) = t"
proof -
  have out: "fmlookup t' j = fmlookup t j" if "\<not> prefix (clean_elements p) j" for j
    using assms(3) that by (auto simp: same_outside_def strict_prefix_def)
  then show "same_but (subtree (clean_elements p)) t t'" by (auto simp: same_but_def subtree_def prefix_def)
  show "prune t' (clean_elements p) = t"
  proof (rule fmap_ext)
    fix j show "fmlookup (prune t' (clean_elements p)) j = fmlookup t j"
      using out[of j] fresh_below[OF assms(1,2)] by (auto simp: prune_def elim!: prefixE)
  qed
qed

lemma outcome_with_cleanup:
  fixes p :: string
  defines "R \<equiv> clean_elements p"
  assumes wf: "wf_tree t" and f: "fresh_in t d stem p" and d: "linkfree t d"
    and m: "outcome P m (\<lambda>r s. case r of
      Inl e \<Rightarrow> \<not> se_cleanupFailed e \<and> on_world (st R (fmupd R (Dir 448) t) {}) s
    | Inr res \<Rightarrow> staged h rq final p res (w_tree (ss_world s)) \<and> on_world (st R (fmupd R (Dir 448) t) {}) s)"
    and final: "sr_targetGeneration rq = Some final"
  shows "outcome P (with_cleanup p m) (\<lambda>r s. stage_outcome h rq t r (w_tree (ss_world s)))"
  unfolding outcome_def
proof (intro allI impI)
  fix s assume s: "P s"
  obtain r s1 where r: "m s = (r, s1)" by fastforce
  let ?t1 = "fmupd R (Dir 448) t" and ?w = "ss_world s1"
  note o = outcomeD[OF m s r]
  have pd: "is_abs p" "butlast R = d" "R \<noteq> []" "fmlookup t R = None" using f by (auto simp: fresh_in_def R_def)
  have S: "st R ?t1 {} ?w" using o by (cases r) auto
  then have so: "same_outside R ?t1 (w_tree ?w)" "wf_tree (w_tree ?w)" "calm ?w" by (simp_all add: st_def)
  note sb = stage_same_but[OF wf f so(1)[unfolded R_def], folded R_def]
  show "case with_cleanup p m s of (r, s') \<Rightarrow> stage_outcome h rq t r (w_tree (ss_world s'))"
  proof (cases r)
    case (Inr res)
    then show ?thesis using o sb(1) pd(4) r final by (simp add: with_cleanup_def stage_outcome_def staged_def R_def)
  next
    case (Inl e)
    have e: "\<not> se_cleanupFailed e" using o Inl by simp
    have R0: "strict_prefix d R" using f by (auto simp: fresh_in_def R_def strict_prefix_def)
    have "linkfree ?t1 d" using d R0 by (auto simp: linkfree_def entry_def)
    then have lf: "linkfree (w_tree ?w) (butlast (clean_elements p))"
      using linkfree_same_outside[OF so(1), of d] R0 pd(2) by (simp add: R_def strict_prefix_def)
    have fz: "frozen (w_tree ?w) ?w" using so(3) by (simp add: frozen_def)
    obtain q w2 where q: "remove_all p ?w = (q, w2)" by fastforce
    show ?thesis
    proof (cases q)
      case (Inr u)
      have "frozen (prune (w_tree ?w) R) w2"
        using tripleD(2)[OF frozen_remove_all[OF so(2) pd(1) lf] fz] q Inr pd(3) by (simp add: R_def)
      then show ?thesis using Inl Inr r q e sb(2) by (simp add: with_cleanup_def stage_lift_def stage_outcome_def frozen_def)
    next
      case (Inl er)
      obtain t' where t': "same_but (subtree R) (w_tree ?w) t'" "frozen t' w2"
        using tripleD(1)[OF frozen_remove_all[OF so(2) pd(1) lf] fz] q Inl pd(3) by (auto simp: R_def)
      have "same_but (subtree R) t t'" using t'(1) sb(1) by (simp add: same_but_def)
      then show ?thesis
        using \<open>r = Inl e\<close> Inl r q t'(2) pd(4)
        by (auto simp: with_cleanup_def stage_lift_def stage_outcome_def frozen_def)
    qed
  qed
qed

lemma outcome_with_report:
  assumes "outcome P m (\<lambda>r s. Z r (ss_world s))"
  shows "outcome P (with_report m) (\<lambda>r s. Z r (ss_world s))"
  unfolding outcome_def
proof (intro allI impI)
  fix s assume s: "P s"
  obtain r s1 where r: "m s = (r, s1)" by fastforce
  have "ss_world (snd (report_fail c s1 :: (stage_error + unit) \<times> stage_state)) = ss_world s1" for c
    by (simp add: report_fail_def emit_progress_def split: option.split)
  then show "case with_report m s of (r, s') \<Rightarrow> Z r (ss_world s')"
    using outcomeD[OF assms s r] r by (cases r) (simp_all add: with_report_def)
qed

lemma frozen_resolve_stage_parent:
  assumes wf: "wf_tree t"
  shows "triple (frozen t) (resolve_stage_parent h a b)
     (\<lambda>p w. (is_abs p \<and> linkfree t (clean_elements p)) \<and> frozen t w) (frozen t)"
proof (cases "if b = [] then sh_temp h else Some b")
  case None
  then show ?thesis by (simp add: resolve_stage_parent_def triple_fail)
next
  case (Some parent)
  have v: "triple (frozen t) (io_bind (io_map_error map_path_error (validate_root parent)) (\<lambda>_. io_return ()))
      (\<lambda>_ w. (is_abs parent \<and> linkfree t (clean_elements parent)) \<and> frozen t w) (frozen t)"
    by (rule triple_bind[OF triple_map_error[OF frozen_validate_root[OF wf]]], rule triple_return) auto
  show ?thesis
    unfolding resolve_stage_parent_def Some option.case
    by (rule triple_then[OF v], rule triple_pure) (auto intro!: triple_fail triple_return)
qed

lemma outcome_fail_early:
  assumes "triple (on_world (frozen t)) m Q (on_world (frozen t))" "clean_error m"
  shows "outcome (on_world (frozen t)) m (\<lambda>r s. case r of Inl e \<Rightarrow> stage_outcome h rq t (Inl e) (w_tree (ss_world s)) | Inr x \<Rightarrow> Q x s)"
  by (rule outcome_conseq[OF outcome_triple[OF assms]]) (auto simp: stage_outcome_def frozen_def split: sum.splits)

lemma outcome_then:
  "outcome P m (\<lambda>r s. case r of Inl e \<Rightarrow> Z (Inl e) s | Inr x \<Rightarrow> R s) \<Longrightarrow> outcome R k Z \<Longrightarrow> outcome P (io_then m k) Z"
  unfolding io_then_def by (rule outcome_bind)

lemma outcome_run_stage:
  assumes wf: "wf_tree t" and final: "sr_targetGeneration rq = Some final"
  shows "outcome (on_world (frozen t)) (run_stage h rq es final) (\<lambda>r s. stage_outcome h rq t r (w_tree (ss_world s)))"
  unfolding run_stage_def
proof (rule outcome_then)
  let ?Z = "\<lambda>r s. stage_outcome h rq t r (w_tree (ss_world s))"
  show "outcome (on_world (frozen t)) (report_start (sr_captureID rq) ProgressStaging (- 1) [] [])
      (\<lambda>r s. case r of Inl e \<Rightarrow> ?Z (Inl e) s | Inr x \<Rightarrow> on_world (frozen t) s)"
    by (rule outcome_fail_early[OF triple_report(1) clean_basic(2)])
  have verify: "outcome (on_world (frozen t)) (stage_lift (io_map_error (integrity_stage_error PhaseSourceIntegrity)
        (verify_payload_manifest (sh_sha h) (sh_lower h) (sr_payloadRoot rq) es)))
      (\<lambda>r s. case r of Inl e \<Rightarrow> ?Z (Inl e) s | Inr x \<Rightarrow> on_world (frozen t) s)"
  proof (rule outcome_fail_early)
    show "triple (on_world (frozen t)) (stage_lift (io_map_error (integrity_stage_error PhaseSourceIntegrity)
        (verify_payload_manifest (sh_sha h) (sh_lower h) (sr_payloadRoot rq) es))) (\<lambda>_. on_world (frozen t)) (on_world (frozen t))"
      by (rule triple_stage_lift[OF triple_map_error], rule triple_conseq[OF frozen_verify_payload[OF wf]]) auto
  qed (intro clean_errors clean_new)
  have parent: "outcome (on_world (frozen t)) (stage_lift (io_map_error (\<lambda>c. new_stage_error c PhaseStageCreate (- 1))
           (resolve_stage_parent h (sr_payloadRoot rq) (sr_tempParent rq))))
      (\<lambda>r s. case r of Inl e \<Rightarrow> ?Z (Inl e) s
         | Inr p \<Rightarrow> (is_abs p \<and> linkfree t (clean_elements p)) \<and> on_world (frozen t) s)"
    by (rule outcome_fail_early[OF triple_stage_lift[OF triple_map_error[OF frozen_resolve_stage_parent[OF wf]]]])
      (intro clean_errors clean_new)
  have dir: "outcome (\<lambda>s. (is_abs p \<and> linkfree t (clean_elements p)) \<and> on_world (frozen t) s)
      (io_bind (stage_lift (io_map_error (\<lambda>_. new_stage_error CodeIO PhaseStageCreate (- 1))
           (mkdir_temp p ''.endstate-stage-''))) (\<lambda>q. with_cleanup q (fill_stage h rq es final q))) ?Z" for p
  proof (rule outcome_pure)
    assume True: "is_abs p \<and> linkfree t (clean_elements p)"
    have mk: "outcome (on_world (frozen t)) (stage_lift (io_map_error (\<lambda>_. new_stage_error CodeIO PhaseStageCreate (- 1))
           (mkdir_temp p ''.endstate-stage-'')))
        (\<lambda>r s. case r of Inl e \<Rightarrow> ?Z (Inl e) s
           | Inr q \<Rightarrow> (fresh_in t (clean_elements p) ''.endstate-stage-'' q \<and> (\<exists>n. entry t (clean_elements p) = Some (Dir n))) \<and>
               on_world (frozen (fmupd (clean_elements q) (Dir 448) t)) s)"
      by (rule outcome_fail_early[OF triple_stage_lift[OF triple_map_error[OF frozen_mkdir_temp]]])
        (use True in \<open>auto intro!: clean_errors clean_new\<close>)
    have fill: "outcome (\<lambda>s. (fresh_in t (clean_elements p) ''.endstate-stage-'' q \<and> (\<exists>n. entry t (clean_elements p) = Some (Dir n))) \<and>
               on_world (frozen (fmupd (clean_elements q) (Dir 448) t)) s)
        (with_cleanup q (fill_stage h rq es final q)) ?Z" for q
    proof (rule outcome_pure)
      assume fresh: "fresh_in t (clean_elements p) ''.endstate-stage-'' q \<and> (\<exists>n. entry t (clean_elements p) = Some (Dir n))"
      then obtain x n where x: "is_abs q" "clean_elements q = clean_elements p @ [x]" "fmlookup t (clean_elements q) = None"
        "entry t (clean_elements p) = Some (Dir n)" by (auto simp: fresh_in_def)
      have ne: "strict_prefix [] (clean_elements q)" using x(2) by (simp add: strict_prefix_def)
      have "good_change [] t (fmupd (clean_elements q) (Dir 448) t)"
        by (rule good_upd[OF wf ne]) (use x plain_key_elements[OF x(1)] in \<open>auto simp: is_link_def is_dir_def\<close>)
      then have wf': "wf_tree (fmupd (clean_elements q) (Dir 448) t)" by (simp add: good_change_def)
      show "outcome (on_world (frozen (fmupd (clean_elements q) (Dir 448) t))) (with_cleanup q (fill_stage h rq es final q)) ?Z"
        by (rule outcome_with_cleanup[OF wf conjunct1[OF fresh] conjunct2[OF True]
              outcome_triple[OF triple_fill_stage[OF wf' conjunct1[OF fresh] conjunct2[OF True]] clean_fill] final])
    qed
    show "outcome (on_world (frozen t))
      (io_bind (stage_lift (io_map_error (\<lambda>_. new_stage_error CodeIO PhaseStageCreate (- 1))
           (mkdir_temp p ''.endstate-stage-''))) (\<lambda>q. with_cleanup q (fill_stage h rq es final q))) ?Z"
      by (rule outcome_bind[OF mk fill])
  qed
  show "outcome (on_world (frozen t)) (with_report
      (io_then (stage_lift (io_map_error (integrity_stage_error PhaseSourceIntegrity)
           (verify_payload_manifest (sh_sha h) (sh_lower h) (sr_payloadRoot rq) es)))
       (io_bind (stage_lift (io_map_error (\<lambda>c. new_stage_error c PhaseStageCreate (- 1))
           (resolve_stage_parent h (sr_payloadRoot rq) (sr_tempParent rq)))) (\<lambda>parent.
       (io_bind (stage_lift (io_map_error (\<lambda>_. new_stage_error CodeIO PhaseStageCreate (- 1))
           (mkdir_temp parent ''.endstate-stage-''))) (\<lambda>stageRoot.
         with_cleanup stageRoot (fill_stage h rq es final stageRoot))))))) ?Z"
    by (rule outcome_with_report, rule outcome_then[OF verify], rule outcome_bind[OF parent dir])
qed

lemma outcome_stage:
  assumes wf: "wf_tree t"
  shows "outcome (on_world (frozen t)) (stage h rq) (\<lambda>r s. stage_outcome h rq t r (w_tree (ss_world s)))"
  unfolding stage_def
proof (rule outcome_then[OF outcome_fail_early[OF triple_checkpoint clean_basic(1)]])
  show "outcome (on_world (frozen t))
      (if invalid_stage_request rq then io_fail (new_stage_error CodeInvalidStageRequest PhaseRequestValidation (- 1))
       else run_stage h rq (the (sr_payloadManifest rq)) (the (sr_targetGeneration rq)))
      (\<lambda>r s. stage_outcome h rq t r (w_tree (ss_world s)))"
  proof (cases "invalid_stage_request rq")
    case True
    then show ?thesis
      by (simp add: outcome_def io_fail_def stage_outcome_def new_stage_error_def frozen_def)
  next
    case False
    then have "sr_targetGeneration rq = Some (the (sr_targetGeneration rq))"
      by (auto simp: invalid_stage_request_def split: option.splits)
    then show ?thesis using False outcome_run_stage[OF wf] by simp
  qed
qed


text \<open>A run that migrates one file, and the same run cancelled before the edge is applied.\<close>

definition sample_host :: stage_host where
  "sample_host = \<lparr>sh_codec = no_codec, sh_sha = sample_hash, sh_lower = id, sh_temp = Some ''/r''\<rparr>"

definition sample_check :: validation_def where
  "sample_check = \<lparr>vd_type = ''file-exists'', vd_path = ''k'', vd_jsonPath = [], vd_section = [], vd_key = []\<rparr>"

definition sample_request :: stage_request where
  "sample_request = \<lparr>sr_captureID = ''c'', sr_payloadRoot = ''/r/d'',
     sr_payloadManifest = Some [\<lparr>pm_relativePath = ''!k'', pm_size = 1, pm_sha256 = sample_hash ''x''\<rparr>],
     sr_sourceGeneration = ''1'',
     sr_targetGeneration = Some \<lparr>gen_id = ''2'', gen_order = 2, gen_matches = [], gen_accepts = [], gen_capture = None,
       gen_restore = [], gen_validate = [sample_check], gen_requiresAppClosed = False, gen_fingerprint = []\<rparr>,
     sr_migrationEdges = [\<lparr>edge_from = ''1'', edge_to = ''2'',
       edge_operations = [empty_operation\<lparr>op_type := ''file-move'', op_source := ''!k'', op_target := ''k''\<rparr>],
       edge_validate = [sample_check]\<rparr>],
     sr_tempParent = []\<rparr>"

definition sample_state :: "bool list \<Rightarrow> stage_state" where
  "sample_state cancel = \<lparr>ss_world = sample_world [], ss_canceled = cancel, ss_current = None, ss_observed = []\<rparr>"

definition cancel_at_edge :: "bool list" where "cancel_at_edge = [False, False, False, True]"


end
