(* ===== verification/StageProgress.thy ===== *)
theory StageProgress
  imports StageProperties
begin

text \<open>
  The protocol of the progress reporter, the pinned path, and the two grammars of portable paths.
\<close>

section \<open>Every step starts and ends once\<close>

text \<open>
  The steps of a request: the staging itself, for each edge its operations and its
  validation, and the validation of the target generation.
\<close>

definition step_of :: "string \<Rightarrow> progress_stage \<Rightarrow> int \<Rightarrow> string \<Rightarrow> string \<Rightarrow> stage_progress" where
  "step_of captureID k i src dst = \<lparr>sp_captureID = captureID, sp_stage = k, sp_status = ProgressStarted,
     sp_edgeIndex = i, sp_from = src, sp_to = dst, sp_code = None\<rparr>"

fun edge_steps :: "string \<Rightarrow> int \<Rightarrow> migration_edge list \<Rightarrow> stage_progress list" where
  "edge_steps c i [] = []"
| "edge_steps c i (e # es) =
     step_of c ProgressEdge i (edge_from e) (edge_to e) #
     step_of c ProgressValidation i (edge_from e) (edge_to e) # edge_steps c (i + 1) es"

definition stage_steps :: "stage_request \<Rightarrow> stage_progress list" where
  "stage_steps rq =
     step_of (sr_captureID rq) ProgressStaging (- 1) [] [] #
     edge_steps (sr_captureID rq) 0 (sr_migrationEdges rq) @
     [step_of (sr_captureID rq) ProgressValidation (- 1) [] (gen_id (the (sr_targetGeneration rq)))]"

text \<open>What the observer is told of a step that completes and of one that fails.\<close>

definition completed_step :: "stage_progress \<Rightarrow> stage_progress list" where
  "completed_step p = [p, p\<lparr>sp_status := ProgressCompleted\<rparr>]"

definition failed_step :: "migration_code \<Rightarrow> stage_progress \<Rightarrow> stage_progress list" where
  "failed_step c p = [p, p\<lparr>sp_status := ProgressFailed, sp_code := Some c\<rparr>]"

definition between_steps :: "stage_progress list \<Rightarrow> stage_progress list \<Rightarrow> stage_state \<Rightarrow> bool" where
  "between_steps L ps s \<longleftrightarrow> ss_current s = None \<and> ss_observed s = L @ concat (map completed_step ps)"

definition in_step :: "stage_progress list \<Rightarrow> stage_progress list \<Rightarrow> stage_progress \<Rightarrow> stage_state \<Rightarrow> bool" where
  "in_step L ps p s \<longleftrightarrow> ss_current s = Some p \<and> ss_observed s = L @ concat (map completed_step ps) @ [p]"

definition failing :: "stage_progress list \<Rightarrow> stage_progress list \<Rightarrow> stage_state \<Rightarrow> bool" where
  "failing L S s \<longleftrightarrow> (\<exists>ps p qs. S = ps @ p # qs \<and> in_step L ps p s)"

lemma step_start: "triple (between_steps L ps) (report_start c k i a b) (\<lambda>_. in_step L ps (step_of c k i a b)) E"
  by (rule tripleI) (auto simp: report_start_def emit_progress_def Let_def in_step_def between_steps_def step_of_def)

lemma step_complete: "triple (in_step L ps p) report_complete (\<lambda>_. between_steps L (ps @ [p])) E"
  by (rule tripleI) (auto simp: report_complete_def emit_progress_def completed_step_def in_step_def between_steps_def)

text \<open>What the other calls do not touch.\<close>

definition keeps_step :: "(stage_state, 'e, 'a) run \<Rightarrow> bool" where
  "keeps_step m \<longleftrightarrow> (\<forall>L ps p. triple (in_step L ps p) m (\<lambda>_. in_step L ps p) (in_step L ps p))"

lemma keeps_lift: "keeps_step (stage_lift m)"
  unfolding keeps_step_def by (intro allI, rule tripleI) (auto simp: stage_lift_def in_step_def split: prod.splits)

lemma keeps_canceled: "keeps_step (check_canceled e)"
  unfolding keeps_step_def
  by (intro allI, rule tripleI) (auto simp: check_canceled_def in_step_def split: list.splits if_splits)

lemma keeps_checkpoint: "keeps_step (checkpoint phase i)"
  unfolding checkpoint_def by (rule keeps_canceled)

lemma keeps_then: "keeps_step m \<Longrightarrow> keeps_step k \<Longrightarrow> keeps_step (io_then m k)"
  unfolding keeps_step_def by (blast intro: triple_then)

lemma keeps_copy: "keeps_step (copy_payload_from a b i es)"
proof (induction es arbitrary: i)
  case Nil
  then show ?case by (auto simp: keeps_step_def intro: triple_return)
qed (auto intro: keeps_then keeps_canceled keeps_lift)

lemma stay:
  assumes "keeps_step m" "S = ps @ p # qs"
  shows "triple (in_step L ps p) m (\<lambda>_. in_step L ps p) (failing L S)"
proof (rule triple_conseq)
  show "triple (in_step L ps p) m (\<lambda>_. in_step L ps p) (in_step L ps p)" using assms(1) by (simp add: keeps_step_def)
  show "failing L S s" if "in_step L ps p s" for s using assms(2) that unfolding failing_def by blast
qed

lemma step_edge:
  assumes S: "S = ps @ edge_steps c i [e] @ qs"
  shows "triple (between_steps L ps) (apply_edge h c root i e) (\<lambda>_. between_steps L (ps @ edge_steps c i [e])) (failing L S)"
proof -
  let ?p = "step_of c ProgressEdge i (edge_from e) (edge_to e)" and ?v = "step_of c ProgressValidation i (edge_from e) (edge_to e)"
  have p: "S = ps @ ?p # (?v # qs)" and v: "S = (ps @ [?p]) @ ?v # qs" using S by simp_all
  have fin: "ps @ edge_steps c i [e] = (ps @ [?p]) @ [?v]" by simp
  show ?thesis
    unfolding apply_edge_def fin
    by (rule triple_then[OF step_start triple_then[OF stay[OF keeps_checkpoint p] triple_then[OF stay[OF keeps_lift p]
          triple_then[OF step_complete triple_then[OF step_start triple_then[OF stay[OF keeps_checkpoint v]
            triple_then[OF stay[OF keeps_lift v] step_complete]]]]]]])
qed

lemma step_edges:
  "S = ps @ edge_steps c i es @ qs \<Longrightarrow>
     triple (between_steps L ps) (apply_edges h c root i es) (\<lambda>_. between_steps L (ps @ edge_steps c i es)) (failing L S)"
proof (induction es arbitrary: i ps)
  case Nil
  then show ?case by (auto intro: triple_return)
next
  case (Cons e es)
  have S: "S = ps @ edge_steps c i [e] @ edge_steps c (i + 1) es @ qs"
    "S = (ps @ edge_steps c i [e]) @ edge_steps c (i + 1) es @ qs" using Cons.prems by simp_all
  have fin: "ps @ edge_steps c i (e # es) = (ps @ edge_steps c i [e]) @ edge_steps c (i + 1) es" by simp
  show ?case
    unfolding apply_edges.simps fin by (rule triple_then[OF step_edge[OF S(1)] Cons.IH[OF S(2)]])
qed

lemma step_fill:
  assumes rq: "sr_targetGeneration rq = Some final"
  defines "first \<equiv> step_of (sr_captureID rq) ProgressStaging (- 1) [] []"
  shows "triple (in_step L [] first) (fill_stage h rq es final root) (\<lambda>_. between_steps L (stage_steps rq)) (failing L (stage_steps rq))"
  unfolding fill_stage_def
proof -
  let ?S = "stage_steps rq" and ?c = "sr_captureID rq" and ?edges = "edge_steps (sr_captureID rq) 0 (sr_migrationEdges rq)"
  let ?last = "step_of ?c ProgressValidation (- 1) [] (gen_id final)"
  have S: "?S = [] @ first # (?edges @ [?last])" "?S = ([] @ [first]) @ ?edges @ [?last]" "?S = (([] @ [first]) @ ?edges) @ ?last # []"
    "?S = (([] @ [first]) @ ?edges) @ [?last]"
    using rq by (simp_all add: stage_steps_def first_def)
  have rest: "triple (in_step L [] first)
     (case validate_pinned_edges (sr_sourceGeneration rq) (gen_id final) (sr_migrationEdges rq) of
        None \<Rightarrow> io_fail (new_stage_error CodeInvalidMigrationPath PhasePathValidation (- 1))
      | Some path \<Rightarrow>
          io_then report_complete
          (io_then (apply_edges h ?c root 0 (sr_migrationEdges rq))
          (io_then (report_start ?c ProgressValidation (- 1) [] (gen_id final))
          (io_then (checkpoint PhaseTargetValidation (- 1))
          (io_then (stage_lift (io_map_error (validation_stage_error PhaseTargetValidation (- 1))
              (validate_staging (sh_codec h) root (gen_validate final))))
          (io_then report_complete
            (io_return \<lparr>sg_root = root, sg_targetGeneration = gen_id final, sg_migrationPath = path\<rparr>)))))))
      (\<lambda>_. between_steps L ?S) (failing L ?S)"
  proof (cases "validate_pinned_edges (sr_sourceGeneration rq) (gen_id final) (sr_migrationEdges rq)")
    case None
    have "in_step L [] first s \<Longrightarrow> failing L ?S s" for s using S(1) unfolding failing_def by blast
    then show ?thesis unfolding None option.case by (rule triple_fail)
  next
    case (Some path)
    have fin: "triple (in_step L (([] @ [first]) @ ?edges) ?last)
        (io_then report_complete (io_return \<lparr>sg_root = root, sg_targetGeneration = gen_id final, sg_migrationPath = path\<rparr>))
        (\<lambda>_. between_steps L ?S) (failing L ?S)"
      by (rule triple_then[OF step_complete triple_return]) (simp only: S(4)[symmetric])
    show ?thesis
      unfolding Some option.case
      by (rule triple_then[OF step_complete triple_then[OF step_edges[OF S(2)] triple_then[OF step_start
            triple_then[OF stay[OF keeps_checkpoint S(3)] triple_then[OF stay[OF keeps_lift S(3)] fin]]]]])
  qed
  show "triple (in_step L [] first)
     (io_then (stage_lift (io_map_error (\<lambda>_. new_stage_error CodeIO PhaseStageCreate (- 1)) (chmod root 448)))
     (io_then (stage_lift (io_map_error (\<lambda>e. new_stage_error (map_path_error e) PhaseStageCreate (- 1))
         (io_bind (validate_root root) (\<lambda>_. io_return ()))))
     (io_then (checkpoint PhaseStageCopy (- 1))
     (io_then (copy_payload_from (sr_payloadRoot rq) root 0 (sort_by payload_less es))
     (io_then (stage_lift (io_map_error (integrity_stage_error PhaseStagedIntegrity)
         (verify_payload_manifest (sh_sha h) (sh_lower h) root es)))
     (case validate_pinned_edges (sr_sourceGeneration rq) (gen_id final) (sr_migrationEdges rq) of
        None \<Rightarrow> io_fail (new_stage_error CodeInvalidMigrationPath PhasePathValidation (- 1))
      | Some path \<Rightarrow>
          io_then report_complete
          (io_then (apply_edges h ?c root 0 (sr_migrationEdges rq))
          (io_then (report_start ?c ProgressValidation (- 1) [] (gen_id final))
          (io_then (checkpoint PhaseTargetValidation (- 1))
          (io_then (stage_lift (io_map_error (validation_stage_error PhaseTargetValidation (- 1))
              (validate_staging (sh_codec h) root (gen_validate final))))
          (io_then report_complete
            (io_return \<lparr>sg_root = root, sg_targetGeneration = gen_id final, sg_migrationPath = path\<rparr>))))))))))))
      (\<lambda>_. between_steps L ?S) (failing L ?S)"
    by (rule triple_then[OF stay[OF keeps_lift S(1)] triple_then[OF stay[OF keeps_lift S(1)]
          triple_then[OF stay[OF keeps_checkpoint S(1)] triple_then[OF stay[OF keeps_copy S(1)]
            triple_then[OF stay[OF keeps_lift S(1)] rest]]]]])
qed

lemma step_cleanup:
  assumes "triple P m (\<lambda>_. Q) (failing L S)"
  shows "triple P (with_cleanup p m) (\<lambda>_. Q) (failing L S)"
proof (rule tripleI)
  fix s e s' assume s: "P s" "with_cleanup p m s = (Inl e, s')"
  then obtain e1 s1 where m: "m s = (Inl e1, s1)" by (auto simp: with_cleanup_def split: prod.splits sum.splits)
  have "failing L S s1" by (rule tripleD(1)[OF assms s(1) m])
  moreover have "ss_current s' = ss_current s1" "ss_observed s' = ss_observed s1"
    using s(2) m by (auto simp: with_cleanup_def stage_lift_def split: prod.splits sum.splits)
  ultimately show "failing L S s'" by (simp add: failing_def in_step_def)
next
  fix s x s' assume s: "P s" "with_cleanup p m s = (Inr x, s')"
  then have "m s = (Inr x, s')" by (auto simp: with_cleanup_def split: prod.splits sum.splits)
  then show "Q s'" using tripleD(2)[OF assms s(1)] by blast
qed

text \<open>The log of a run that has started: complete steps, and the failed one after an error.\<close>

definition protocol :: "stage_progress list \<Rightarrow> stage_progress list \<Rightarrow> stage_error + stage_result \<Rightarrow> stage_state \<Rightarrow> bool" where
  "protocol S L r s \<longleftrightarrow> ss_current s = None \<and>
     (case r of
        Inr _ \<Rightarrow> ss_observed s = L @ concat (map completed_step S)
      | Inl e \<Rightarrow> \<exists>ps p qs. S = ps @ p # qs \<and>
          ss_observed s = L @ concat (map completed_step ps) @ failed_step (se_code e) p)"

lemma protocol_with_report:
  assumes m: "triple P m (\<lambda>_. between_steps L S) (failing L S)"
  shows "outcome P (with_report m) (protocol S L)"
  unfolding outcome_def
proof (intro allI impI)
  fix s assume s: "P s"
  obtain r s1 where r: "m s = (r, s1)" by fastforce
  show "case with_report m s of (r, s') \<Rightarrow> protocol S L r s'"
  proof (cases r)
    case (Inr x)
    then show ?thesis using tripleD(2)[OF m s] r by (auto simp: with_report_def protocol_def between_steps_def)
  next
    case (Inl e)
    then have "failing L S s1" using tripleD(1)[OF m s] r by blast
    then obtain ps p qs where p: "S = ps @ p # qs" "ss_current s1 = Some p"
      "ss_observed s1 = L @ concat (map completed_step ps) @ [p]" by (auto simp: failing_def in_step_def)
    let ?s = "snd (report_fail (se_code e) s1 :: (stage_error + unit) \<times> stage_state)"
    have "ss_observed ?s = L @ concat (map completed_step ps) @ failed_step (se_code e) p" "ss_current ?s = None"
      using p by (simp_all add: report_fail_def emit_progress_def failed_step_def)
    then have "protocol S L (Inl e) ?s" using p(1) unfolding protocol_def by auto
    then show ?thesis using Inl r by (simp add: with_report_def)
  qed
qed

lemma protocol_run_stage:
  assumes rq: "sr_targetGeneration rq = Some final"
  shows "outcome (between_steps L []) (run_stage h rq es final) (protocol (stage_steps rq) L)"
  unfolding run_stage_def
proof (rule outcome_then)
  let ?first = "step_of (sr_captureID rq) ProgressStaging (- 1) [] []"
  have S: "stage_steps rq = [] @ ?first # tl (stage_steps rq)" by (simp add: stage_steps_def)
  show "outcome (between_steps L []) (report_start (sr_captureID rq) ProgressStaging (- 1) [] [])
      (\<lambda>r s. case r of Inl e \<Rightarrow> protocol (stage_steps rq) L (Inl e) s | Inr x \<Rightarrow> in_step L [] ?first s)"
    using outcome_triple[OF step_start clean_basic(2), where E = "\<lambda>_. False"]
    by (rule outcome_conseq) (auto split: sum.splits)
  show "outcome (in_step L [] ?first) (with_report
       (io_then (stage_lift (io_map_error (integrity_stage_error PhaseSourceIntegrity)
           (verify_payload_manifest (sh_sha h) (sh_lower h) (sr_payloadRoot rq) es)))
       (io_bind (stage_lift (io_map_error (\<lambda>c. new_stage_error c PhaseStageCreate (- 1))
           (resolve_stage_parent h (sr_payloadRoot rq) (sr_tempParent rq)))) (\<lambda>parent.
       (io_bind (stage_lift (io_map_error (\<lambda>_. new_stage_error CodeIO PhaseStageCreate (- 1))
           (mkdir_temp parent ''.endstate-stage-''))) (\<lambda>stageRoot.
         with_cleanup stageRoot (fill_stage h rq es final stageRoot))))))) (protocol (stage_steps rq) L)"
    by (rule protocol_with_report, rule triple_then[OF stay[OF keeps_lift S]], rule triple_bind[OF stay[OF keeps_lift S]],
        rule triple_bind[OF stay[OF keeps_lift S]], rule step_cleanup, rule step_fill[OF rq])
qed

text \<open>A run begins when the request has the right shape and the context is not cancelled.\<close>

definition begins :: "stage_request \<Rightarrow> stage_state \<Rightarrow> bool" where
  "begins rq s \<longleftrightarrow> \<not> invalid_stage_request rq \<and> (case ss_canceled s of [] \<Rightarrow> True | b # _ \<Rightarrow> \<not> b)"

text \<open>
  Property C21. The observer sees the steps of the request (\<open>stage_steps\<close>: the staging, the operations and the
  validation of each edge in order, the validation of the target) each started and ended exactly once, in that
  order and nothing else. After a success all steps are completed. After an error the steps before some step are
  completed, that step is the failed one, with the code of the error, and nothing follows it; a run that is
  rejected before it begins reports nothing.
\<close>

theorem progress_follows_protocol:
  assumes "ss_current s = None" and "stage h rq s = (r, s')"
  shows "if begins rq s then protocol (stage_steps rq) (ss_observed s) r s'
    else ss_observed s' = ss_observed s \<and> (case r of Inl _ \<Rightarrow> True | Inr _ \<Rightarrow> False)"
proof (cases "begins rq s")
  case False
  then show ?thesis
    using assms(2)
    by (auto simp: begins_def stage_def io_then_def io_bind_def checkpoint_def check_canceled_def io_fail_def
        split: list.splits if_splits)
next
  case True
  then have rq: "sr_targetGeneration rq = Some (the (sr_targetGeneration rq))"
    by (auto simp: begins_def invalid_stage_request_def split: option.splits)
  let ?s = "s\<lparr>ss_canceled := tl (ss_canceled s)\<rparr>"
  have run: "run_stage h rq (the (sr_payloadManifest rq)) (the (sr_targetGeneration rq)) ?s = (r, s')"
  proof (cases "ss_canceled s")
    case Nil
    then have eq: "?s = s" by (cases s) simp
    show ?thesis
      unfolding eq
      using assms(2) True Nil by (simp add: begins_def stage_def io_then_def io_bind_def checkpoint_def check_canceled_def)
  next
    case (Cons b bs)
    then show ?thesis
      using assms(2) True by (auto simp: begins_def stage_def io_then_def io_bind_def checkpoint_def check_canceled_def)
  qed
  have "between_steps (ss_observed s) [] ?s" using assms(1) by (simp add: between_steps_def)
  from outcomeD[OF protocol_run_stage[OF rq] this run] show ?thesis using True by simp
qed

theorem progress_follows_protocol_witness:
  "protocol (stage_steps sample_request) [] (fst (stage sample_host sample_request (sample_state [])))
     (snd (stage sample_host sample_request (sample_state [])))
   \<and> (case fst (stage sample_host sample_request (sample_state [])) of Inl _ \<Rightarrow> False | Inr _ \<Rightarrow> True)
   \<and> map sp_stage (stage_steps sample_request) =
       [ProgressStaging, ProgressEdge, ProgressValidation, ProgressValidation]
   \<and> protocol (stage_steps sample_request) [] (fst (stage sample_host (sample_request\<lparr>sr_payloadManifest := Some []\<rparr>) (sample_state [])))
     (snd (stage sample_host (sample_request\<lparr>sr_payloadManifest := Some []\<rparr>) (sample_state [])))
   \<and> (case fst (stage sample_host (sample_request\<lparr>sr_payloadManifest := Some []\<rparr>) (sample_state [])) of
        Inl e \<Rightarrow> se_code e = CodePayloadIntegrityFailed | Inr _ \<Rightarrow> False)"
proof -
  let ?rq = "sample_request\<lparr>sr_payloadManifest := Some []\<rparr>"
  have b: "begins ?rq (sample_state [])" "begins sample_request (sample_state [])" by code_simp+
  have c: "ss_current (sample_state []) = None" "ss_observed (sample_state []) = []" by (simp_all add: sample_state_def)
  have e: "(case fst (stage sample_host ?rq (sample_state [])) of
      Inl e \<Rightarrow> se_code e = CodePayloadIntegrityFailed | Inr _ \<Rightarrow> False)"
    "(case fst (stage sample_host sample_request (sample_state [])) of Inl _ \<Rightarrow> False | Inr _ \<Rightarrow> True)" by code_simp+
  have k: "map sp_stage (stage_steps sample_request) =
       [ProgressStaging, ProgressEdge, ProgressValidation, ProgressValidation]" by code_simp
  have same: "stage_steps ?rq = stage_steps sample_request" by code_simp
  show ?thesis
    using progress_follows_protocol[OF c(1), of sample_host ?rq "fst (stage sample_host ?rq (sample_state []))"
        "snd (stage sample_host ?rq (sample_state []))"]
      progress_follows_protocol[OF c(1), of sample_host sample_request "fst (stage sample_host sample_request (sample_state []))"
        "snd (stage sample_host sample_request (sample_state []))"] b c(2) e k unfolding same by simp
qed

section \<open>The pinned path\<close>

definition proper_edge :: "migration_edge \<Rightarrow> bool" where
  "proper_edge e \<longleftrightarrow> edge_operations e \<noteq> [] \<and> edge_validate e \<noteq> [] \<and> edge_from e \<noteq> [] \<and> edge_to e \<noteq> []"

lemma pinned_from_iff:
  "path \<noteq> [] \<Longrightarrow> distinct path \<Longrightarrow> last path = current \<Longrightarrow>
     pinned_from final current path es = Some p \<longleftrightarrow>
       p = path @ map edge_to es \<and> map edge_from es = butlast (current # map edge_to es) \<and>
       last (current # map edge_to es) = final \<and> distinct (path @ map edge_to es) \<and> list_all proper_edge es"
proof (induction es arbitrary: current path)
  case Nil
  then show ?case by auto
next
  case (Cons e es)
  show ?case
  proof (cases "proper_edge e \<and> edge_from e = current \<and> edge_to e \<notin> set path")
    case True
    have "current \<in> set path" using Cons.prems(1,3) last_in_set by blast
    then have ne: "edge_from e \<noteq> edge_to e" using True by auto
    have "pinned_from final (edge_to e) (path @ [edge_to e]) es = Some p \<longleftrightarrow>
       p = (path @ [edge_to e]) @ map edge_to es \<and> map edge_from es = butlast (edge_to e # map edge_to es) \<and>
       last (edge_to e # map edge_to es) = final \<and> distinct ((path @ [edge_to e]) @ map edge_to es) \<and> list_all proper_edge es"
      by (rule Cons.IH) (use Cons.prems(2) True in auto)
    moreover have "pinned_from final current path (e # es) = pinned_from final (edge_to e) (path @ [edge_to e]) es"
      using True ne by (auto simp: proper_edge_def)
    ultimately show ?thesis using True by auto
  next
    case False
    then have "pinned_from final current path (e # es) = None" by (auto simp: proper_edge_def)
    then show ?thesis using False by auto
  qed
qed

text \<open>
  Property C22. \<open>validatePinnedEdges\<close> accepts exactly the contiguous paths from the source to the
  target generation that repeat no generation and whose edges have operations and validations,
  and returns the generations passed; without edges source and target must be the same.
\<close>

theorem pinned_edges_are_a_simple_path:
  "validate_pinned_edges src final edges = Some path \<longleftrightarrow>
     (if edges = [] then src = final \<and> path = []
      else path = src # map edge_to edges \<and> map edge_from edges = butlast path \<and> last path = final \<and>
        distinct path \<and> list_all proper_edge edges)"
  using pinned_from_iff[of "[src]" src final edges path] by (auto simp: validate_pinned_edges_def)

section \<open>Two grammars of portable paths\<close>

text \<open>
  Property C39. Every path the staging accepts is accepted by the index of a bundle, with the same
  normal form.
\<close>

theorem staged_paths_are_bundle_paths:
  assumes "normalize_portable v = Inr s"
  shows "normalize_bundle_path v = Inr s"
proof -
  note n = normalize_portable_Inr[OF assms]
  note v = normalize_portable_conditions[OF assms]
  have tilde: "\<not> prefix ''~'' (to_slashes v)" 
  proof -
    have "\<not> contains_any (to_slashes v) ''$%~''" using v(5) by blast
    then show ?thesis by (cases "to_slashes v") (auto simp: contains_any_def)
  qed
  have chars: "\<not> contains_any (to_slashes v) ''$%:''"
  proof -
    have "\<not> contains_any (to_slashes v) ''$%~''" "CHR '':'' \<notin> set (to_slashes v)" using v(5) by blast+
    then show ?thesis by (auto simp: contains_any_def)
  qed
  have comps: "\<not> list_ex (\<lambda>c. c = ''..'' \<or> has_control c) (split_on CHR ''/'' (to_slashes v))"
    using n(8) unfolding n(1) by (auto simp: list_ex_iff bad_component_def has_control_def)
  show ?thesis
    unfolding normalize_bundle_path_def Let_def v(6) v(2)[symmetric]
    using v(1,3,7) v(5)[unfolded de_Morgan_disj] tilde chars comps n(2)
    by (simp only: if_False simp_thms de_Morgan_disj)
qed

theorem staged_paths_are_bundle_paths_witness:
  "normalize_bundle_path (''a'' @ [BSLASH] @ ''b'') = Inr ''a/b''"
  by (rule staged_paths_are_bundle_paths) code_simp

text \<open>A run that never succeeds.\<close>

definition barred :: "('s, 'e, 'a) run \<Rightarrow> bool" where
  "barred m \<longleftrightarrow> (\<forall>s. case m s of (Inl _, _) \<Rightarrow> True | (Inr _, _) \<Rightarrow> False)"

lemma barredI: "(\<And>s x s'. m s = (Inr x, s') \<Longrightarrow> False) \<Longrightarrow> barred m"
  unfolding barred_def by (auto split: prod.split sum.split)

lemma barredD: "barred m \<Longrightarrow> m s \<noteq> (Inr x, s')"
  unfolding barred_def by (auto split: prod.splits sum.splits dest: spec[of _ s])

lemma barred_first: "barred m \<Longrightarrow> barred (io_bind m k)"
  by (rule barredI) (auto simp: io_bind_def dest: barredD split: prod.splits sum.splits)

lemma barred_rest: "(\<And>x. barred (k x)) \<Longrightarrow> barred (io_bind m k)"
  by (rule barredI) (auto simp: io_bind_def dest: barredD split: prod.splits sum.splits)

lemma barred_wrapped: "barred m \<Longrightarrow> barred (io_map_error f m)" "barred n \<Longrightarrow> barred (stage_lift n)"
proof -
  show "barred (io_map_error f m)" if m: "barred m"
    by (rule barredI) (auto simp: io_map_error_def barredD[OF m] split: prod.splits sum.splits)
  show "barred (stage_lift n)" if n: "barred n"
    by (rule barredI) (auto simp: stage_lift_def barredD[OF n] split: prod.splits)
qed

lemma barred_deferred: "barred m \<Longrightarrow> barred (with_cleanup p m)" "barred m \<Longrightarrow> barred (with_report m)"
proof -
  assume m: "barred m"
  show "barred (with_cleanup p m)"
    by (rule barredI) (auto simp: with_cleanup_def barredD[OF m] split: prod.splits sum.splits)
  show "barred (with_report m)"
    by (rule barredI) (auto simp: with_report_def barredD[OF m] split: prod.splits sum.splits)
qed

lemma barred_copy:
  assumes "CHR ''~'' \<in> set p" shows "barred (copy_stage_payload_file a b p)"
proof -
  have no: "normalize_portable p \<noteq> Inr s" for s
  proof
    assume "normalize_portable p = Inr s"
    then have "\<not> contains_any (to_slashes p) ''$%~''" using normalize_portable_conditions(5) by blast
    moreover have "CHR ''~'' \<in> set (to_slashes p)"
      using assms by (auto simp: to_slashes_def replace_byte_def BSLASH_def intro: rev_image_eqI)
    ultimately show False by (auto simp: contains_any_def)
  qed
  have "barred (resolve a p)"
    by (rule barredI) (use tripleD(2)[OF resolve_value TrueI] no in blast)
  then show ?thesis unfolding copy_stage_payload_file_def by (intro barred_first barred_wrapped)
qed

lemma barred_payload: "e \<in> set es \<Longrightarrow> CHR ''~'' \<in> set (pm_relativePath e) \<Longrightarrow> barred (copy_payload_from a b i es)"
proof (induction es arbitrary: i)
  case (Cons x es)
  show ?case
  proof (cases "e = x")
    case True
    then show ?thesis
      unfolding copy_payload_from.simps io_then_def using Cons.prems(2)
      by (intro barred_rest barred_first barred_wrapped) (simp add: barred_copy)
  next
    case False
    then have "barred (copy_payload_from a b j es)" for j using Cons by simp
    then show ?thesis unfolding copy_payload_from.simps io_then_def by (intro barred_rest)
  qed
qed simp

definition tilde_world :: world where
  "tilde_world = \<lparr>w_tree = fmap_of_list [([''p''], Dir 493), ([''p'', ''a~''], File 1 420 ''x''), ([''t''], Dir 493)],
     w_fresh = 7, w_random = [''1''], w_events = []\<rparr>"

definition tilde_payload :: "payload_entry list" where
  "tilde_payload = [\<lparr>pm_relativePath = ''a~'', pm_size = 1, pm_sha256 = sample_hash ''x''\<rparr>]"

definition tilde_request :: stage_request where
  "tilde_request = sample_request\<lparr>sr_payloadRoot := ''/p'', sr_payloadManifest := Some tilde_payload, sr_tempParent := ''/t''\<rparr>"

definition tilde_state :: stage_state where
  "tilde_state = \<lparr>ss_world = tilde_world, ss_canceled = [], ss_current = None, ss_observed = []\<rparr>"

text \<open>
  Property C40. The converse fails: no stage can be made of a payload with a file whose path holds a
  tilde, such as the backup file of an editor, whatever the tree, the hashes and the failures of calls, although
  such a payload is indexed by \<open>BuildPayloadManifest\<close> and accepted by \<open>VerifyPayloadManifest\<close>, as the
  witness shows, where the copy is what fails.
\<close>

theorem verified_payload_cannot_be_staged:
  assumes "sr_payloadManifest rq = Some es" and "e \<in> set es" and "CHR ''~'' \<in> set (pm_relativePath e)"
  shows "\<exists>err s'. stage h rq s = (Inl err, s')"
proof -
  have "barred (copy_payload_from a b i (sort_by payload_less es))" for a b i
    by (rule barred_payload[of e]) (use assms(2,3) in simp_all)
  then have "barred (fill_stage h rq es final p)" for final p
    unfolding fill_stage_def io_then_def by (rule barred_rest[OF barred_rest[OF barred_rest[OF barred_first]]])
  then have "barred (run_stage h rq es final)" for final
    unfolding run_stage_def io_then_def by (intro barred_deferred barred_rest)
  then have "barred (stage h rq)"
    unfolding stage_def io_then_def
    by (intro barred_rest) (auto simp: assms(1) barred_def io_fail_def)
  from barredD[OF this] show ?thesis by (metis obj_sumE surj_pair)
qed

theorem verified_payload_cannot_be_staged_witness:
  "fst (build_payload_manifest sample_hash id ''/p'' tilde_world) = Inr tilde_payload
   \<and> fst (verify_payload_manifest sample_hash id ''/p'' tilde_payload tilde_world) = Inr ()
   \<and> (\<exists>err s'. stage sample_host tilde_request tilde_state = (Inl err, s') \<and>
        se_code err = CodeUnsafePath \<and> se_operation err = ''file-copy'')"
proof -
  have accepted: "fst (build_payload_manifest sample_hash id ''/p'' tilde_world) = Inr tilde_payload"
    "fst (verify_payload_manifest sample_hash id ''/p'' tilde_payload tilde_world) = Inr ()" by code_simp+
  have p: "sr_payloadManifest tilde_request = Some tilde_payload" by (simp add: tilde_request_def)
  have "case stage sample_host tilde_request tilde_state of
      (Inl err, _) \<Rightarrow> se_code err = CodeUnsafePath \<and> se_operation err = ''file-copy'' | _ \<Rightarrow> True" by code_simp
  then show ?thesis
    using verified_payload_cannot_be_staged[OF p, of "hd tilde_payload" sample_host tilde_state] accepted
    by (auto simp: tilde_payload_def)
qed

end
