(* ===== verification/RestoreMerge.thy ===== *)
theory RestoreMerge
  imports IniDocument
begin

text \<open>
  The merges of the restore strategies (\<open>internal/restore\<close>: merge_json.go, merge_ini.go,
  append.go): objects are merged field by field, INI files section by section, and appended lines
  are those the target does not have yet. Restoring the same source again changes nothing.
\<close>

section \<open>JSON\<close>

text \<open>\<open>DeepMerge\<close> with the source first: a function of the target for every value of the source.\<close>

primrec merge_into :: "json \<Rightarrow> json \<Rightarrow> json" where
  "merge_into JNull = (\<lambda>t. t)"
| "merge_into (JBool b) = (\<lambda>t. JBool b)"
| "merge_into (JNum s) = (\<lambda>t. JNum s)"
| "merge_into (JStr s) = (\<lambda>t. JStr s)"
| "merge_into (JArr vs) = (\<lambda>t. JArr vs)"
| "merge_into (JObj m) =
     (let into = fmmap merge_into m in
      (\<lambda>t. case t of
         JObj tm \<Rightarrow> JObj (fmadd (fmadd tm m)
           (fmmap_keys (\<lambda>k f. f (the (fmlookup tm k))) (fmfilter (\<lambda>k. fmlookup tm k \<noteq> None) into)))
       | _ \<Rightarrow> JObj m))"

definition deep_merge :: "json \<Rightarrow> json \<Rightarrow> json" where
  "deep_merge target source = merge_into source target"

text \<open>The case distinction of the code.\<close>

definition merge_fields :: "(string, json) fmap \<Rightarrow> (string, json) fmap \<Rightarrow> (string, json) fmap" where
  "merge_fields tm sm = fmadd (fmadd tm sm)
     (fmmap_keys (\<lambda>k f. f (the (fmlookup tm k))) (fmfilter (\<lambda>k. fmlookup tm k \<noteq> None) (fmmap merge_into sm)))"

lemma merge_objects: "deep_merge (JObj tm) (JObj sm) = JObj (merge_fields tm sm)"
  by (simp add: deep_merge_def merge_fields_def Let_def)

lemma merge_fields_lookup [simp]:
  "fmlookup (merge_fields tm sm) k = (case (fmlookup tm k, fmlookup sm k) of
     (Some t, Some s) \<Rightarrow> Some (deep_merge t s) | (Some t, None) \<Rightarrow> Some t | (None, s) \<Rightarrow> s)"
  by (auto simp: merge_fields_def deep_merge_def fmdom_notI fmdomI split: option.splits)

lemma merge_other:
  "deep_merge t JNull = t" "deep_merge JNull s = s" "(\<And>m. s \<noteq> JObj m) \<Longrightarrow> s \<noteq> JNull \<Longrightarrow> deep_merge t s = s"
  "(\<And>m. t \<noteq> JObj m) \<Longrightarrow> s \<noteq> JNull \<Longrightarrow> deep_merge t s = s"
  by (cases s; auto simp: deep_merge_def Let_def split: json.splits)+

text \<open>A document by the names of nested fields.\<close>

fun at_fields :: "json \<Rightarrow> string list \<Rightarrow> json option" where
  "at_fields d [] = Some d"
| "at_fields (JObj m) (k # ks) = (case fmlookup m k of None \<Rightarrow> None | Some v \<Rightarrow> at_fields v ks)"
| "at_fields _ (k # ks) = None"

definition is_leaf :: "json \<Rightarrow> bool" where
  "is_leaf v \<longleftrightarrow> (case v of JObj _ \<Rightarrow> False | JNull \<Rightarrow> False | _ \<Rightarrow> True)"

lemma is_leaf_iff: "is_leaf v \<longleftrightarrow> v \<noteq> JNull \<and> (\<forall>m. v \<noteq> JObj m)"
  by (cases v) (auto simp: is_leaf_def)

lemma at_fields_Cons: "at_fields d (k # ks) = Some v \<longleftrightarrow> (\<exists>m x. d = JObj m \<and> fmlookup m k = Some x \<and> at_fields x ks = Some v)"
  by (cases d) (auto split: option.splits)

lemma merge_self: "deep_merge s s = s"
proof (induction s)
  case (JObj sm)
  have "merge_fields sm sm = sm" by (rule fmap_ext) (auto split: option.split intro!: JObj fmran'I)
  then show ?case by (simp add: merge_objects)
qed (simp_all add: deep_merge_def)

lemma merge_again: "deep_merge (deep_merge t s) s = deep_merge t s"
proof (induction s arbitrary: t)
  case (JObj sm)
  have "merge_fields (merge_fields tm sm) sm = merge_fields tm sm" for tm
    by (rule fmap_ext) (auto simp: merge_self split: option.split intro!: JObj fmran'I)
  then show ?case by (cases t) (simp_all add: merge_objects merge_other merge_self)
qed (simp_all add: deep_merge_def)

lemma at_fields_leaf: "(\<And>m. d \<noteq> JObj m) \<Longrightarrow> at_fields d (k # ks) = None"
  by (cases d) auto

text \<open>What the source says of a location is hidden behind a leaf on the way to it.\<close>

definition behind_leaf :: "json \<Rightarrow> string list \<Rightarrow> bool" where
  "behind_leaf s ks \<longleftrightarrow> (\<exists>p v. prefix p ks \<and> at_fields s p = Some v \<and> is_leaf v)"

lemma behind_leaf_simps [simp]:
  "behind_leaf s [] \<longleftrightarrow> is_leaf s"
  "behind_leaf (JObj m) (k # ks) \<longleftrightarrow> (case fmlookup m k of None \<Rightarrow> False | Some v \<Rightarrow> behind_leaf v ks)"
  "(\<And>m. s \<noteq> JObj m) \<Longrightarrow> behind_leaf s (k # ks) \<longleftrightarrow> is_leaf s"
proof -
  show "behind_leaf s [] \<longleftrightarrow> is_leaf s" by (simp add: behind_leaf_def)
next
  have "prefix p (k # ks) \<longleftrightarrow> p = [] \<or> (\<exists>q. p = k # q \<and> prefix q ks)" for p by (cases p) auto
  then show "behind_leaf (JObj m) (k # ks) \<longleftrightarrow> (case fmlookup m k of None \<Rightarrow> False | Some v \<Rightarrow> behind_leaf v ks)"
    by (auto simp: behind_leaf_def is_leaf_def split: option.splits)
next
  assume s: "\<And>m. s \<noteq> JObj m"
  have "at_fields s (c # p) = None" for c p using s by (rule at_fields_leaf)
  moreover have "prefix p (k # ks) \<longleftrightarrow> p = [] \<or> (\<exists>q. p = k # q \<and> prefix q ks)" for p by (cases p) auto
  ultimately show "behind_leaf s (k # ks) \<longleftrightarrow> is_leaf s" by (auto simp: behind_leaf_def)
qed

lemma merge_at:
  "at_fields (deep_merge t s) ks =
     (case at_fields s ks of
        None \<Rightarrow> (if behind_leaf s ks then None else at_fields t ks)
      | Some v \<Rightarrow> (case at_fields t ks of None \<Rightarrow> Some v | Some w \<Rightarrow> Some (deep_merge w v)))"
proof (induction ks arbitrary: s t)
  case (Cons k ks)
  show ?case
  proof (cases "\<exists>sm. s = JObj sm")
    case True
    then obtain sm where s: "s = JObj sm" by blast
    show ?thesis
    proof (cases "\<exists>tm. t = JObj tm")
      case True
      then show ?thesis using s Cons.IH by (auto simp: merge_objects split: option.splits)
    next
      case False
      then have "deep_merge t s = s" "at_fields t (k # ks) = None" using s by (auto simp: merge_other at_fields_leaf)
      then show ?thesis using s by (auto split: option.splits)
    qed
  next
    case False
    then have "at_fields s (k # ks) = None" "behind_leaf s (k # ks) \<longleftrightarrow> is_leaf s" by (auto simp: at_fields_leaf)
    moreover have "deep_merge t s = (if is_leaf s then s else t)" using False by (auto simp: merge_other is_leaf_iff)
    ultimately show ?thesis by simp
  qed
qed simp

section \<open>INI files\<close>

record ini_section =
  is_name :: string
  is_keys :: "string list"
  is_vals :: "(string, string) fmap"

type_synonym ini_file = "ini_section list"

definition empty_section :: "string \<Rightarrow> ini_section" where
  "empty_section name = \<lparr>is_name = name, is_keys = [], is_vals = fmempty\<rparr>"

text \<open>The first and the last section with a name, as \<open>ParseIni\<close> and \<open>MergeIni\<close> look it up.\<close>

definition sections_named :: "string \<Rightarrow> ini_file \<Rightarrow> nat list" where
  "sections_named name f = filter (\<lambda>i. is_name (f ! i) = name) [0..<length f]"

definition put_key :: "string \<Rightarrow> string \<Rightarrow> ini_section \<Rightarrow> ini_section" where
  "put_key key value sec =
     sec\<lparr>is_keys := (if fmlookup (is_vals sec) key = None then is_keys sec @ [key] else is_keys sec),
         is_vals := fmupd key value (is_vals sec)\<rparr>"

text \<open>A line of \<open>ParseIni\<close> on the sections read so far and the index of the current one.\<close>

definition parse_file_line :: "string \<Rightarrow> ini_file \<times> nat \<Rightarrow> ini_file \<times> nat" where
  "parse_file_line line st =
     (case st of (f, current) \<Rightarrow>
       let trimmed = trim_space (trim_right_cut [CR] line) in
       if trimmed = [] \<or> prefix '';'' trimmed \<or> prefix ''#'' trimmed then (f, current)
       else if prefix ''['' trimmed \<and> suffix '']'' trimmed then
         (let name = butlast (tl trimmed) in
          case sections_named name f of
            i # _ \<Rightarrow> (f, i)
          | [] \<Rightarrow> (f @ [empty_section name], length f))
       else if CHR ''='' \<in> set trimmed \<and> hd trimmed \<noteq> CHR ''='' then
         (f[current := put_key (trim_space (takeWhile (\<lambda>c. c \<noteq> CHR ''='') trimmed))
              (trim_space (tl (dropWhile (\<lambda>c. c \<noteq> CHR ''='') trimmed))) (f ! current)], current)
       else (f, current))"

definition parse_file :: "string \<Rightarrow> ini_file" where
  "parse_file content = fst (fold parse_file_line (split_on LF content) ([empty_section []], 0))"

definition merge_section :: "ini_section \<Rightarrow> ini_file \<Rightarrow> ini_file" where
  "merge_section source f =
     (let fill = fold (\<lambda>key. put_key key (case fmlookup (is_vals source) key of None \<Rightarrow> [] | Some v \<Rightarrow> v)) (is_keys source) in
      if sections_named (is_name source) f = [] then f @ [fill (empty_section (is_name source))]
      else (let i = last (sections_named (is_name source) f) in f[i := fill (f ! i)]))"

definition merge_ini :: "ini_file \<Rightarrow> ini_file \<Rightarrow> ini_file" where
  "merge_ini target source = fold merge_section source target"

definition section_body :: "ini_section \<Rightarrow> string" where
  "section_body sec = concat (map (\<lambda>k. k @ ''='' @ the (fmlookup (is_vals sec) k) @ [LF]) (sorted_keys (is_vals sec)))"

definition section_text :: "ini_section \<Rightarrow> string" where
  "section_text sec = ''['' @ is_name sec @ '']'' @ [LF] @ section_body sec"

definition format_ini :: "ini_file \<Rightarrow> string" where
  "format_ini f =
     (let named = sort_by (\<lambda>a b. is_name a < is_name b) (filter (\<lambda>sec. is_name sec \<noteq> []) f);
          global = filter (\<lambda>sec. is_name sec = []) f;
          head = (if global \<noteq> [] \<and> is_vals (last global) \<noteq> fmempty
                  then section_body (last global) @ (if named \<noteq> [] then [LF] else []) else []) in
      trim_right_cut [CR, LF] (head @ join_with [LF] (map section_text named)))"

section \<open>Appended lines\<close>

definition split_non_empty :: "string \<Rightarrow> string list" where
  "split_non_empty s = filter (\<lambda>l. l \<noteq> []) (split_on LF s)"

definition with_newline :: "string \<Rightarrow> string" where
  "with_newline s = (if s \<noteq> [] \<and> last s \<noteq> LF then s @ [LF] else s)"

text \<open>The content after an append; \<open>None\<close> when there is no target.\<close>

definition append_lines :: "string option \<Rightarrow> string \<Rightarrow> string" where
  "append_lines target source =
     (case target of
        None \<Rightarrow> with_newline source
      | Some content \<Rightarrow>
          let present = split_non_empty content;
              missing = filter (\<lambda>l. l \<notin> set present) (split_non_empty source) in
          with_newline (if missing = [] then content else with_newline content @ join_with [LF] missing @ [LF]))"

end
