(* ===== verification/RestoreMergeProperties.thy ===== *)
theory RestoreMergeProperties
  imports RestoreMerge
begin

text \<open>
  The merges are idempotent: an INI file that is printed and read again holds the same values,
  so merging the same source into the merged file prints the same text.
\<close>

section \<open>Trimming\<close>

lemma lead_width_prefix: "\<forall>w \<in> set runes. w \<noteq> [] \<Longrightarrow> lead_width runes (s @ t) = 0 \<Longrightarrow> lead_width runes s = 0"
  using lead_width_zero[of runes "s @ t"] lead_width_zero[of runes s] by (auto simp: prefix_append)

lemma space_runes_nonempty: "\<forall>w \<in> set space_runes. w \<noteq> []" "\<forall>w \<in> set (map rev space_runes). w \<noteq> []"
  by (simp_all add: space_runes_def)

lemma trim_space_trimmed: "no_outer_space (trim_space s)"
proof -
  let ?a = "trim_lead space_runes s" and ?t = "trim_space s"
  obtain u where u: "?a = ?t @ u" using trim_space_prefix[of s] by (auto simp: prefix_def)
  have "?a = [] \<or> lead_width space_runes ?a = 0" by (rule lead_width_trim_lead)
  then have "?t = [] \<or> lead_width space_runes ?t = 0"
    using u lead_width_prefix[OF space_runes_nonempty(1), of ?t u] by auto
  moreover have "rev ?t = [] \<or> lead_width (map rev space_runes) (rev ?t) = 0"
    unfolding trim_space_def rev_rev_ident by (rule lead_width_trim_lead)
  ultimately show ?thesis by (auto simp: no_outer_space_def)
qed

lemma trim_back_empty:
  "trim_lead (map rev space_runes) (rev a) = [] \<Longrightarrow> a = [] \<or> (\<exists>w \<in> set space_runes. prefix w a)"
proof (induction "map rev space_runes" "rev a" arbitrary: a rule: trim_lead.induct)
  case 1
  let ?runes = "map rev space_runes"
  show ?case
  proof (cases "rev a \<noteq> [] \<and> 0 < lead_width ?runes (rev a)")
    case True
    then obtain v where v: "List.find (\<lambda>w. prefix w (rev a)) ?runes = Some v"
      by (auto simp: lead_width_def split: option.splits)
    then have "v \<in> set ?runes" "prefix v (rev a)" by (auto dest: find_Some_in)
    then obtain w where w: "w \<in> set space_runes" "v = rev w" "prefix (rev w) (rev a)" by auto
    then obtain b where b: "a = b @ w" by (metis prefixE rev_append rev_rev_ident)
    have drop: "drop (lead_width ?runes (rev a)) (rev a) = rev b" using v w b by (simp add: lead_width_def)
    have "trim_lead ?runes (rev b) = []" using "1.prems" True drop by (subst (asm) trim_lead.simps) simp
    then have "b = [] \<or> (\<exists>w \<in> set space_runes. prefix w b)" using "1.hyps"[OF True drop] by blast
    then show ?thesis using b w(1) by (metis append_Nil prefix_append prefix_order.refl)
  next
    case False
    then show ?thesis using "1.prems" by (subst (asm) trim_lead.simps) auto
  qed
qed

lemma trim_front:
  assumes "no_outer_space (a @ t)" "a \<noteq> []"
  shows "trim_space a \<noteq> []" "hd (trim_space a) = hd a" "set (trim_space a) \<subseteq> set a"
proof -
  have "lead_width space_runes (a @ t) = 0" using assms by (auto simp: no_outer_space_def)
  then have lead: "lead_width space_runes a = 0" by (rule lead_width_prefix[OF space_runes_nonempty(1)])
  then have id: "trim_lead space_runes a = a" by (rule trim_lead_id)
  have none: "\<not> (\<exists>w \<in> set space_runes. prefix w a)" using lead lead_width_zero[OF space_runes_nonempty(1)] by blast
  show ne: "trim_space a \<noteq> []"
    using trim_back_empty[of a] none assms(2) by (auto simp: trim_space_def id)
  show "hd (trim_space a) = hd a"
    using trim_space_prefix[of a] ne unfolding id by (metis hd_append2 prefixE)
  show "set (trim_space a) \<subseteq> set a" by (rule set_trim_space)
qed

lemma trim_back:
  assumes "no_outer_space (a @ b)" "trim_space b \<noteq> []"
  shows "last (trim_space b) = last b" "b \<noteq> []"
proof -
  show "b \<noteq> []" using assms(2) by auto
  obtain u where u: "b = u @ trim_lead space_runes b" using trim_lead_suffix[of space_runes b] by (auto simp: suffix_def)
  let ?c = "trim_lead space_runes b"
  have "a @ b \<noteq> []" using \<open>b \<noteq> []\<close> by simp
  then have "lead_width (map rev space_runes) (rev (a @ b)) = 0" using assms(1) by (auto simp: no_outer_space_def)
  moreover have "rev (a @ b) = rev ?c @ (rev u @ rev a)" using u by (metis append_assoc rev_append)
  ultimately have "lead_width (map rev space_runes) (rev ?c) = 0"
    using lead_width_prefix[OF space_runes_nonempty(2), of "rev ?c" "rev u @ rev a"] by simp
  then have t: "trim_space b = ?c" by (simp add: trim_space_def trim_lead_id)
  then show "last (trim_space b) = last b" using u assms(2) by (metis last_appendR)
qed

lemma no_outer_space_assignment:
  assumes "k \<noteq> []" "no_outer_space k" "no_outer_space v"
  shows "no_outer_space (k @ CHR ''='' # v)"
proof -
  have fresh: "\<forall>w \<in> set space_runes. w \<noteq> [] \<and> CHR ''='' \<notin> set w"
    "\<forall>w \<in> set (map rev space_runes). w \<noteq> [] \<and> CHR ''='' \<notin> set w" by (simp_all add: space_runes_def)
  have front: "lead_width space_runes (k @ CHR ''='' # v) = 0"
    by (rule lead_width_zero_append[OF fresh(1)]) (use assms in \<open>simp add: no_outer_space_def\<close>)
  have "lead_width (map rev space_runes) (rev v @ CHR ''='' # rev k) = 0"
  proof (rule lead_width_zero_append[OF fresh(2)])
    show "lead_width (map rev space_runes) (rev v) = 0"
      using assms(3) by (cases "v = []") (simp_all add: no_outer_space_def, simp add: lead_width_def space_runes_def)
  qed
  then show ?thesis using front by (simp add: no_outer_space_def)
qed

section \<open>Well-formed files\<close>

text \<open>What \<open>ParseIni\<close> makes of a line: its key and value, its section, or nothing.\<close>

definition pair_ok :: "string \<Rightarrow> string \<Rightarrow> bool" where
  "pair_ok k v \<longleftrightarrow> k \<noteq> [] \<and> no_outer_space k \<and> no_outer_space v \<and> CHR ''='' \<notin> set k \<and> LF \<notin> set k \<and> LF \<notin> set v \<and>
     hd k \<noteq> CHR '';'' \<and> hd k \<noteq> CHR ''#'' \<and> (hd k = CHR ''['' \<longrightarrow> v \<noteq> [] \<longrightarrow> last v \<noteq> CHR '']'')"

definition section_ok :: "ini_section \<Rightarrow> bool" where
  "section_ok sec \<longleftrightarrow> LF \<notin> set (is_name sec) \<and> set (is_keys sec) = fset (fmdom (is_vals sec)) \<and>
     (\<forall>k v. fmlookup (is_vals sec) k = Some v \<longrightarrow> pair_ok k v)"

definition file_ok :: "ini_file \<Rightarrow> bool" where
  "file_ok f \<longleftrightarrow> distinct (map is_name f) \<and> f \<noteq> [] \<and> is_name (hd f) = [] \<and> list_all section_ok f"

definition file_at :: "ini_file \<Rightarrow> string \<Rightarrow> (string, string) fmap option" where
  "file_at f = map_of (map (\<lambda>sec. (is_name sec, is_vals sec)) f)"

lemma section_ok_put: "section_ok sec \<Longrightarrow> pair_ok k v \<Longrightarrow> section_ok (put_key k v sec)"
  by (auto simp: section_ok_def put_key_def fmdom_notD split: if_splits)

lemma section_ok_empty: "LF \<notin> set name \<Longrightarrow> section_ok (empty_section name)"
  by (simp add: section_ok_def empty_section_def)

lemma put_key_simps [simp]: "is_name (put_key k v sec) = is_name sec" "is_vals (put_key k v sec) = fmupd k v (is_vals sec)"
  by (simp_all add: put_key_def)

lemma empty_section_simps [simp]: "is_name (empty_section n) = n" "is_vals (empty_section n) = fmempty"
  by (simp_all add: empty_section_def)

lemma trim_cr: "no_outer_space s \<Longrightarrow> trim_right_cut [CR] s = s"
proof (cases s rule: rev_cases)
  case (snoc t c)
  assume "no_outer_space s"
  then have "lead_width (map rev space_runes) (c # rev t) = 0" using snoc by (simp add: no_outer_space_def)
  then have "\<not> prefix [CR] (c # rev t)" using lead_width_zero[OF space_runes_nonempty(2)] by (auto simp: space_runes_def CR_def)
  then have "c \<noteq> CR" by simp
  then show ?thesis using snoc by (simp add: trim_right_cut_def)
qed (simp add: trim_right_cut_def)

lemma sections_named_index:
  assumes "sections_named name f \<noteq> []"
  shows "hd (sections_named name f) < length f" "is_name (f ! hd (sections_named name f)) = name"
    "last (sections_named name f) < length f" "is_name (f ! last (sections_named name f)) = name"
  using hd_in_set[OF assms] last_in_set[OF assms] by (simp_all add: sections_named_def)

lemma sections_named_empty: "sections_named name f = [] \<longleftrightarrow> name \<notin> is_name ` set f"
  unfolding sections_named_def filter_empty_conv image_iff
  by (metis atLeastLessThan_iff in_set_conv_nth set_upt zero_le)

lemma file_at_index:
  assumes "distinct (map is_name f)" "i < length f"
  shows "file_at f (is_name (f ! i)) = Some (is_vals (f ! i))"
proof -
  have "distinct (map fst (map (\<lambda>sec. (is_name sec, is_vals sec)) f))" using assms(1) by (simp add: comp_def)
  then show ?thesis unfolding file_at_def using assms(2) by (intro map_of_is_SomeI) auto
qed

lemma file_at_none: "file_at f n = None \<longleftrightarrow> n \<notin> is_name ` set f"
  by (auto simp: file_at_def map_of_eq_None_iff image_iff)

lemma file_at_update:
  assumes "distinct (map is_name f)" "i < length f" "is_name sec = is_name (f ! i)"
  shows "file_at (f[i := sec]) = (file_at f)(is_name sec \<mapsto> is_vals sec)" "map is_name (f[i := sec]) = map is_name f"
proof -
  show m: "map is_name (f[i := sec]) = map is_name f"
    using assms(2,3) by (metis list_update_id map_update nth_map)
  have d: "distinct (map is_name (f[i := sec]))" using assms(1) m by simp
  show "file_at (f[i := sec]) = (file_at f)(is_name sec \<mapsto> is_vals sec)"
  proof
    fix n
    show "file_at (f[i := sec]) n = ((file_at f)(is_name sec \<mapsto> is_vals sec)) n"
    proof (cases "\<exists>j < length f. is_name (f ! j) = n")
      case False
      then have n: "n \<notin> set (map is_name f)" by (auto simp: in_set_conv_nth)
      then have "file_at f n = None" "file_at (f[i := sec]) n = None" unfolding file_at_none using m by (metis set_map)+
      moreover have "n \<noteq> is_name sec" using False assms by auto
      ultimately show ?thesis by simp
    next
      case True
      then obtain j where j: "j < length f" "is_name (f ! j) = n" by blast
      show ?thesis
      proof (cases "j = i")
        case True
        then show ?thesis using file_at_index[OF d, of i] j assms by simp
      next
        case False
        have "is_name (f ! j) \<noteq> is_name (f ! i)" using False j assms(1,2) by (metis distinct_conv_nth length_map nth_map)
        moreover have "file_at (f[i := sec]) n = Some (is_vals (f ! j))"
          using file_at_index[OF d, of j] j False by simp
        moreover have "file_at f n = Some (is_vals (f ! j))" using file_at_index[OF assms(1) j(1)] j(2) by simp
        ultimately show ?thesis using assms(3) j(2) by simp
      qed
    qed
  qed
qed

lemma file_at_append:
  assumes "is_name sec \<notin> is_name ` set f"
  shows "file_at (f @ [sec]) = (file_at f)(is_name sec \<mapsto> is_vals sec)"
proof
  fix n
  have "file_at f (is_name sec) = None" using assms by (simp add: file_at_none)
  then show "file_at (f @ [sec]) n = ((file_at f)(is_name sec \<mapsto> is_vals sec)) n"
    by (auto simp: file_at_def map_add_def split: option.splits)
qed

section \<open>Reading a line\<close>

text \<open>The effect of a line on the values and the name of the current section.\<close>

definition state_ok :: "ini_file \<times> nat \<Rightarrow> bool" where
  "state_ok st \<longleftrightarrow> file_ok (fst st) \<and> snd st < length (fst st)"

definition current_name :: "ini_file \<times> nat \<Rightarrow> string" where
  "current_name st = is_name (fst st ! snd st)"

lemma file_ok_update:
  assumes "file_ok f" "i < length f" "is_name sec = is_name (f ! i)" "section_ok sec"
  shows "file_ok (f[i := sec])"
proof -
  have m: "map is_name (f[i := sec]) = map is_name f" using assms by (intro file_at_update(2)) (simp_all add: file_ok_def)
  have "hd (map is_name (f[i := sec])) = hd (map is_name f)" using m by simp
  then have "is_name (hd (f[i := sec])) = []" using assms(1) by (simp add: file_ok_def hd_map)
  moreover have "list_all section_ok (f[i := sec])"
    using assms(1,4) set_update_subset_insert[of f i sec] by (auto simp: file_ok_def list_all_iff)
  ultimately show ?thesis using assms(1) m by (simp add: file_ok_def)
qed

lemma file_ok_append: "file_ok f \<Longrightarrow> section_ok sec \<Longrightarrow> is_name sec \<notin> is_name ` set f \<Longrightarrow> file_ok (f @ [sec])"
  by (auto simp: file_ok_def)

lemma parsed_pair:
  assumes t: "no_outer_space t" "LF \<notin> set t" "CHR ''='' \<in> set t" "hd t \<noteq> CHR ''=''" "hd t \<noteq> CHR '';''" "hd t \<noteq> CHR ''#''"
    "hd t = CHR ''['' \<Longrightarrow> last t \<noteq> CHR '']''"
  shows "pair_ok (trim_space (takeWhile (\<lambda>c. c \<noteq> CHR ''='') t)) (trim_space (tl (dropWhile (\<lambda>c. c \<noteq> CHR ''='') t)))"
proof -
  define a where "a = takeWhile (\<lambda>c. c \<noteq> CHR ''='') t"
  define b where "b = tl (dropWhile (\<lambda>c. c \<noteq> CHR ''='') t)"
  have split: "t = a @ CHR ''='' # b"
  proof -
    have ne: "dropWhile (\<lambda>c. c \<noteq> CHR ''='') t \<noteq> []" using t(3) by (auto simp: dropWhile_eq_Nil_conv)
    then have "hd (dropWhile (\<lambda>c. c \<noteq> CHR ''='') t) = CHR ''=''" using hd_dropWhile[OF ne] by simp
    then have "dropWhile (\<lambda>c. c \<noteq> CHR ''='') t = CHR ''='' # b" using ne b_def by (metis list.collapse)
    then show ?thesis using takeWhile_dropWhile_id[of "\<lambda>c. c \<noteq> CHR ''=''" t] a_def by simp
  qed
  have ane: "a \<noteq> []" using t(4) split by auto
  have fresh: "CHR ''='' \<notin> set a" using a_def by (auto dest: set_takeWhileD)
  have front: "no_outer_space (a @ (CHR ''='' # b))" using t(1) split by simp
  have rear: "no_outer_space ((a @ ''='') @ b)" using t(1) split by simp
  have lfs: "LF \<notin> set a" "LF \<notin> set b" using t(2) split by auto
  note k = trim_front[OF front ane]
  have hd: "hd (trim_space a) = hd t" using k(2) ane split by simp
  have "LF \<notin> set (trim_space b)" using lfs(2) set_trim_space[of b] by blast
  moreover have "last (trim_space b) = last t" if "trim_space b \<noteq> []" using trim_back[OF rear that] split by simp
  ultimately show ?thesis
    using k fresh lfs(1) hd t(5-7) trim_space_trimmed unfolding a_def[symmetric] b_def[symmetric] pair_ok_def by auto
qed

text \<open>The four kinds of trimmed lines.\<close>

definition skipped :: "string \<Rightarrow> bool" where
  "skipped t \<longleftrightarrow> t = [] \<or> prefix '';'' t \<or> prefix ''#'' t"

definition is_header :: "string \<Rightarrow> bool" where
  "is_header t \<longleftrightarrow> prefix ''['' t \<and> suffix '']'' t"

definition is_pair :: "string \<Rightarrow> bool" where
  "is_pair t \<longleftrightarrow> CHR ''='' \<in> set t \<and> hd t \<noteq> CHR ''=''"

definition enter_section :: "string \<Rightarrow> ini_file \<times> nat \<Rightarrow> ini_file \<times> nat" where
  "enter_section name st =
     (case sections_named name (fst st) of i # _ \<Rightarrow> (fst st, i) | [] \<Rightarrow> (fst st @ [empty_section name], length (fst st)))"

definition assign_pair :: "string \<Rightarrow> string \<Rightarrow> ini_file \<times> nat \<Rightarrow> ini_file \<times> nat" where
  "assign_pair k v st = ((fst st)[snd st := put_key k v (fst st ! snd st)], snd st)"

lemma parse_file_line_kinds:
  "parse_file_line l st =
     (let t = trim_space (trim_right_cut [CR] l) in
      if skipped t then st else if is_header t then enter_section (butlast (tl t)) st
      else if is_pair t
      then assign_pair (trim_space (takeWhile (\<lambda>c. c \<noteq> CHR ''='') t)) (trim_space (tl (dropWhile (\<lambda>c. c \<noteq> CHR ''='') t))) st
      else st)"
proof (cases st)
  case (Pair f i)
  show ?thesis
    unfolding Pair parse_file_line_def skipped_def is_header_def is_pair_def enter_section_def assign_pair_def Let_def
      prod.case fst_conv snd_conv by (rule refl)
qed

lemma state_ok_enter: "state_ok st \<Longrightarrow> LF \<notin> set name \<Longrightarrow> state_ok (enter_section name st)"
  using sections_named_index(1)[of name "fst st"] sections_named_empty[of name "fst st"]
  by (auto simp: enter_section_def state_ok_def intro!: file_ok_append section_ok_empty split: list.split)

lemma state_ok_assign: "state_ok st \<Longrightarrow> pair_ok k v \<Longrightarrow> state_ok (assign_pair k v st)"
proof -
  assume st: "state_ok st" and p: "pair_ok k v"
  then have f: "file_ok (fst st)" "snd st < length (fst st)" by (simp_all add: state_ok_def)
  then have "section_ok (fst st ! snd st)" by (simp add: file_ok_def list_all_length)
  then show ?thesis using file_ok_update[OF f _ section_ok_put[OF _ p]] f(2) by (simp add: assign_pair_def state_ok_def)
qed

lemma parse_file_line_ok:
  assumes st: "state_ok st" and l: "LF \<notin> set l"
  shows "state_ok (parse_file_line l st)"
proof -
  let ?t = "trim_space (trim_right_cut [CR] l)"
  have "set (trim_right_cut [CR] l) \<subseteq> set l" by (auto simp: trim_right_cut_def dest: set_dropWhileD)
  then have lf: "LF \<notin> set ?t" using l set_trim_space by blast
  have name: "LF \<notin> set (butlast (tl ?t))" using lf by (cases ?t) (auto dest: in_set_butlastD)
  have pair: "pair_ok (trim_space (takeWhile (\<lambda>c. c \<noteq> CHR ''='') ?t)) (trim_space (tl (dropWhile (\<lambda>c. c \<noteq> CHR ''='') ?t)))"
    if t: "\<not> skipped ?t" "\<not> is_header ?t" "is_pair ?t"
  proof (rule parsed_pair[OF trim_space_trimmed lf])
    have ne: "?t \<noteq> []" using t(1) by (auto simp: skipped_def)
    then show "hd ?t \<noteq> CHR '';''" "hd ?t \<noteq> CHR ''#''" using t(1) by (cases ?t; auto simp: skipped_def)+
    show "hd ?t = CHR ''['' \<Longrightarrow> last ?t \<noteq> CHR '']''"
      using t(2) ne unfolding is_header_def
      by (metis append_butlast_last_id hd_Cons_tl suffix_def Nil_prefix Cons_prefix_Cons)
  qed (use t(3) in \<open>auto simp: is_pair_def\<close>)
  show ?thesis
    using st state_ok_enter[OF st name] state_ok_assign[OF st pair] by (simp add: parse_file_line_kinds Let_def)
qed

lemma parse_lines_ok: "state_ok st \<Longrightarrow> \<forall>l \<in> set ls. LF \<notin> set l \<Longrightarrow> state_ok (fold parse_file_line ls st)"
  by (induction ls arbitrary: st) (simp_all add: parse_file_line_ok del: split_paired_All)

lemma state_ok_start: "state_ok ([empty_section []], 0)"
  by (simp add: state_ok_def file_ok_def section_ok_empty)

lemma parse_file_ok: "file_ok (parse_file content)"
  using parse_lines_ok[OF state_ok_start] split_on_fresh unfolding parse_file_def state_ok_def by blast

section \<open>Merging\<close>

lemma put_keys:
  "section_ok sec \<Longrightarrow> \<forall>k \<in> set ks. pair_ok k (f k) \<Longrightarrow> section_ok (fold (\<lambda>k. put_key k (f k)) ks sec)"
  "is_name (fold (\<lambda>k. put_key k (f k)) ks sec) = is_name sec"
  "fmlookup (is_vals (fold (\<lambda>k. put_key k (f k)) ks sec)) j = (if j \<in> set ks then Some (f j) else fmlookup (is_vals sec) j)"
  by (induction ks arbitrary: sec) (auto simp: section_ok_put)

text \<open>The values of a merged section.\<close>

definition merged_values :: "(string, string) fmap option \<Rightarrow> (string, string) fmap option \<Rightarrow> (string, string) fmap option" where
  "merged_values t s = (case (t, s) of (Some x, Some y) \<Rightarrow> Some (fmadd x y) | (None, y) \<Rightarrow> y | (x, None) \<Rightarrow> x)"

lemma merge_section_at:
  assumes f: "file_ok f" and s: "section_ok s"
  shows "file_ok (merge_section s f)"
    "file_at (merge_section s f) = (file_at f)(is_name s := merged_values (file_at f (is_name s)) (Some (is_vals s)))"
proof -
  let ?v = "\<lambda>key. case fmlookup (is_vals s) key of None \<Rightarrow> [] | Some v \<Rightarrow> v"
  let ?fill = "fold (\<lambda>key. put_key key (?v key)) (is_keys s)"
  have pairs: "\<forall>k \<in> set (is_keys s). pair_ok k (?v k)"
  proof
    fix k assume "k \<in> set (is_keys s)"
    then have "k |\<in>| fmdom (is_vals s)" using s by (simp add: section_ok_def)
    then obtain v where "fmlookup (is_vals s) k = Some v" by (rule fmdomE)
    then show "pair_ok k (?v k)" using s by (simp add: section_ok_def)
  qed
  have vals: "is_vals (?fill sec) = fmadd (is_vals sec) (is_vals s)" for sec
  proof (rule fmap_ext)
    fix k
    have "set (is_keys s) = fset (fmdom (is_vals s))" using s by (simp add: section_ok_def)
    then have "k \<in> set (is_keys s) \<longleftrightarrow> fmlookup (is_vals s) k \<noteq> None" by (simp only: fmlookup_dom_iff) blast
    then show "fmlookup (is_vals (?fill sec)) k = fmlookup (fmadd (is_vals sec) (is_vals s)) k"
      unfolding put_keys(3) by (auto simp: fmdom_notI fmdomI split: option.split)
  qed
  show "file_ok (merge_section s f)"
    "file_at (merge_section s f) = (file_at f)(is_name s := merged_values (file_at f (is_name s)) (Some (is_vals s)))"
  proof -
    have "file_ok (merge_section s f) \<and>
      file_at (merge_section s f) = (file_at f)(is_name s := merged_values (file_at f (is_name s)) (Some (is_vals s)))"
    proof (cases "sections_named (is_name s) f = []")
      case True
      then have new: "is_name s \<notin> is_name ` set f" by (simp add: sections_named_empty)
      then have none: "file_at f (is_name s) = None" by (simp add: file_at_none)
      have m: "merge_section s f = f @ [?fill (empty_section (is_name s))]" using True by (simp add: merge_section_def)
      have "section_ok (?fill (empty_section (is_name s)))"
        by (rule put_keys(1)[OF section_ok_empty pairs]) (use s in \<open>simp add: section_ok_def\<close>)
      then show ?thesis
        unfolding m using file_ok_append[OF f] file_at_append[of "?fill (empty_section (is_name s))" f] new none
        by (simp add: put_keys(2) vals merged_values_def)
    next
      case False
      let ?i = "last (sections_named (is_name s) f)"
      note i = sections_named_index(3,4)[OF False]
      have m: "merge_section s f = f[?i := ?fill (f ! ?i)]" using False by (simp add: merge_section_def Let_def)
      have d: "distinct (map is_name f)" using f by (simp add: file_ok_def)
      have sec: "section_ok (f ! ?i)" using f i by (simp add: file_ok_def list_all_length)
      have at: "file_at f (is_name s) = Some (is_vals (f ! ?i))" using file_at_index[OF d i(1)] i(2) by simp
      show ?thesis
        unfolding m using file_ok_update[OF f i(1) _ put_keys(1)[OF sec pairs]] file_at_update(1)[OF d i(1), of "?fill (f ! ?i)"] at i(2)
        by (simp add: put_keys(2) vals merged_values_def)
    qed
    then show "file_ok (merge_section s f)"
      "file_at (merge_section s f) = (file_at f)(is_name s := merged_values (file_at f (is_name s)) (Some (is_vals s)))" by blast+
  qed
qed

lemma merge_ini_at:
  assumes "file_ok t" "list_all section_ok s" "distinct (map is_name s)"
  shows "file_ok (merge_ini t s)" "file_at (merge_ini t s) n = merged_values (file_at t n) (file_at s n)"
proof -
  have "file_ok (fold merge_section s t) \<and> file_at (fold merge_section s t) n = merged_values (file_at t n) (file_at s n)"
    using assms
  proof (induction s arbitrary: t)
    case (Cons x s)
    note one = merge_section_at[OF Cons.prems(1), of x]
    have "file_at s (is_name x) = None" using Cons.prems(3) by (simp add: file_at_none)
    then show ?case
      using Cons.IH[of "merge_section x t"] Cons.prems one by (auto simp: file_at_def merged_values_def split: option.splits)
  qed (simp add: file_at_def merged_values_def split: option.split)
  then show "file_ok (merge_ini t s)" "file_at (merge_ini t s) n = merged_values (file_at t n) (file_at s n)"
    by (simp_all add: merge_ini_def)
qed

section \<open>Printing and reading\<close>

lemma blank_line [simp]: "parse_file_line [] st = st"
  by (simp add: parse_file_line_kinds trim_right_cut_def skipped_def)

lemma header_line: "parse_file_line (CHR ''['' # name @ [CHR '']'']) st = enter_section name st"
proof -
  have "trim_right_cut [CR] (CHR ''['' # name @ [CHR '']'']) = CHR ''['' # name @ [CHR '']'']"
    by (simp add: trim_right_cut_def CR_def)
  then show ?thesis by (simp add: parse_file_line_kinds trim_bracketed skipped_def is_header_def Let_def suffix_def)
qed

lemma pair_line:
  assumes p: "pair_ok k v"
  shows "parse_file_line (k @ CHR ''='' # v) st = assign_pair k v st"
proof -
  let ?t = "k @ CHR ''='' # v"
  have k: "k \<noteq> []" "no_outer_space k" "no_outer_space v" "CHR ''='' \<notin> set k" using p by (auto simp: pair_ok_def)
  have outer: "no_outer_space ?t" by (rule no_outer_space_assignment[OF k(1-3)])
  obtain c k' where ck: "k = c # k'" using k(1) by (cases k) auto
  have "\<not> skipped ?t" using p ck by (auto simp: skipped_def pair_ok_def)
  moreover have "\<not> is_header ?t"
  proof
    assume h: "is_header ?t"
    then have "last ?t = CHR '']''" by (auto simp: is_header_def suffix_def simp del: last_appendR)
    then have "v \<noteq> []" "last v = CHR '']''" by (simp_all split: if_splits)
    moreover have "hd k = CHR ''[''" using h ck by (simp add: is_header_def)
    ultimately show False using p by (simp add: pair_ok_def)
  qed
  moreover have "is_pair ?t" using k(4) ck by (auto simp: is_pair_def)
  ultimately show ?thesis
    unfolding parse_file_line_kinds trim_cr[OF outer] trim_space_id[OF outer] Let_def take_drop_equals[OF k(4)] list.sel(3)
      trim_space_id[OF k(2)] trim_space_id[OF k(3)] by simp
qed

lemma at_enter:
  assumes "state_ok st"
  shows "file_at (fst (enter_section name st)) = (if file_at (fst st) name = None then (file_at (fst st))(name \<mapsto> fmempty) else file_at (fst st))"
    "current_name (enter_section name st) = name"
proof -
  have "file_at (fst st) name = None \<longleftrightarrow> sections_named name (fst st) = []" by (simp add: file_at_none sections_named_empty)
  then show "file_at (fst (enter_section name st)) = (if file_at (fst st) name = None then (file_at (fst st))(name \<mapsto> fmempty) else file_at (fst st))"
    using file_at_append[of "empty_section name" "fst st"] sections_named_empty[of name "fst st"]
    by (cases "sections_named name (fst st)") (auto simp: enter_section_def)
  show "current_name (enter_section name st) = name"
    using sections_named_index(2)[of name "fst st"] by (auto simp: enter_section_def current_name_def split: list.split)
qed

lemma at_assign:
  assumes "state_ok st"
  shows "file_at (fst (assign_pair k v st)) = (file_at (fst st))(current_name st \<mapsto> fmupd k v (the (file_at (fst st) (current_name st))))"
    "current_name (assign_pair k v st) = current_name st"
proof -
  have d: "distinct (map is_name (fst st))" "snd st < length (fst st)" using assms by (simp_all add: state_ok_def file_ok_def)
  show "file_at (fst (assign_pair k v st)) = (file_at (fst st))(current_name st \<mapsto> fmupd k v (the (file_at (fst st) (current_name st))))"
    using file_at_update(1)[OF d, of "put_key k v (fst st ! snd st)"] file_at_index[OF d] by (simp add: assign_pair_def current_name_def)
  show "current_name (assign_pair k v st) = current_name st" using d(2) by (simp add: assign_pair_def current_name_def)
qed

lemma at_body:
  assumes "state_ok st" "file_at (fst st) (current_name st) = Some m" "\<forall>k \<in> set ks. pair_ok k (the (fmlookup vals k))"
  shows "state_ok (fold parse_file_line (map (assignment vals) ks) st) \<and>
    current_name (fold parse_file_line (map (assignment vals) ks) st) = current_name st \<and>
    file_at (fst (fold parse_file_line (map (assignment vals) ks) st)) =
      (file_at (fst st))(current_name st \<mapsto> fold (\<lambda>k. fmupd k (the (fmlookup vals k))) ks m)"
  using assms
proof (induction ks arbitrary: st m)
  case Nil
  then show ?case by (simp add: fun_upd_idem)
next
  case (Cons k ks)
  have p: "pair_ok k (the (fmlookup vals k))" using Cons.prems(3) by simp
  have line: "parse_file_line (assignment vals k) st = assign_pair k (the (fmlookup vals k)) st"
    unfolding assignment_def by (rule pair_line[OF p])
  note a = at_assign[OF Cons.prems(1), of k "the (fmlookup vals k)"]
  have "file_at (fst (assign_pair k (the (fmlookup vals k)) st)) (current_name (assign_pair k (the (fmlookup vals k)) st)) =
      Some (fmupd k (the (fmlookup vals k)) m)" using a Cons.prems(2) by simp
  from Cons.IH[OF state_ok_assign[OF Cons.prems(1) p] this] show ?case
    using Cons.prems(2,3) a by (simp add: line) (simp add: fun_eq_iff)
qed

lemma section_pairs: "section_ok sec \<Longrightarrow> k \<in> set (sorted_keys (is_vals sec)) \<Longrightarrow> pair_ok k (the (fmlookup (is_vals sec) k))"
  by (auto simp: section_ok_def elim!: fmdomE)

definition section_block :: "ini_section \<Rightarrow> string list" where
  "section_block sec = (CHR ''['' # is_name sec @ [CHR '']'']) # map (assignment (is_vals sec)) (sorted_keys (is_vals sec))"

lemma at_block:
  assumes st: "state_ok st" and sec: "section_ok sec" "file_at (fst st) (is_name sec) = None"
  shows "state_ok (fold parse_file_line (section_block sec) st)"
    "file_at (fst (fold parse_file_line (section_block sec) st)) = (file_at (fst st))(is_name sec \<mapsto> is_vals sec)"
proof -
  let ?st = "enter_section (is_name sec) st"
  have e: "state_ok ?st" using state_ok_enter[OF st] sec(1) by (simp add: section_ok_def)
  note at = at_enter[OF st, of "is_name sec"]
  have m: "file_at (fst ?st) (current_name ?st) = Some fmempty" using at sec(2) by simp
  note body = at_body[OF e m, of "sorted_keys (is_vals sec)" "is_vals sec"]
  show "state_ok (fold parse_file_line (section_block sec) st)"
    using body section_pairs[OF sec(1)] by (simp add: section_block_def header_line)
  show "file_at (fst (fold parse_file_line (section_block sec) st)) = (file_at (fst st))(is_name sec \<mapsto> is_vals sec)"
    using body section_pairs[OF sec(1)] at sec(2) by (simp add: section_block_def header_line fold_all_keys fun_upd_upd)
qed

lemma at_blocks:
  assumes "state_ok st" "list_all section_ok secs" "distinct (map is_name secs)" "\<forall>sec \<in> set secs. file_at (fst st) (is_name sec) = None"
  shows "state_ok (fold parse_file_line (separated (map section_block secs)) st) \<and>
    file_at (fst (fold parse_file_line (separated (map section_block secs)) st)) = file_at (fst st) ++ file_at secs"
  using assms
proof (induction secs arbitrary: st)
  case Nil
  then show ?case by (simp add: file_at_def)
next
  case (Cons sec secs)
  note b = at_block[OF Cons.prems(1), of sec]
  have fresh: "\<forall>x \<in> set secs. file_at (fst (fold parse_file_line (section_block sec) st)) (is_name x) = None"
  proof
    fix x assume x: "x \<in> set secs"
    have "is_name x \<in> is_name ` set secs" using x by (rule imageI)
    then have "is_name x \<noteq> is_name sec" using Cons.prems(3) by auto
    then show "file_at (fst (fold parse_file_line (section_block sec) st)) (is_name x) = None"
      using b(2) Cons.prems(2,4) x by simp
  qed
  have "file_at secs (is_name sec) = None" using Cons.prems(3) by (simp add: file_at_none)
  then have add: "(file_at (fst st))(is_name sec \<mapsto> is_vals sec) ++ file_at secs = file_at (fst st) ++ file_at (sec # secs)"
    by (auto simp: file_at_def map_add_def split: option.split)
  have split: "fold parse_file_line (separated (map section_block (sec # secs))) st =
      fold parse_file_line (separated (map section_block secs)) (fold parse_file_line (section_block sec) st)"
    by (cases secs) simp_all
  have ok: "section_ok sec" "file_at (fst st) (is_name sec) = None" "list_all section_ok secs" "distinct (map is_name secs)"
    using Cons.prems by simp_all
  note after = b[OF ok(1,2)]
  show ?case using Cons.IH[OF after(1) ok(3,4) fresh] unfolding split add[symmetric] after(2) .
qed

text \<open>Trailing line ends do not matter.\<close>

lemma trim_right_snoc: "c \<in> set chars \<Longrightarrow> trim_right_cut chars (s @ [c]) = trim_right_cut chars s"
  by (simp add: trim_right_cut_def)

lemma split_on_snoc: "split_on c (s @ [d]) = (if d = c then split_on c s @ [[]] else butlast (split_on c s) @ [last (split_on c s) @ [d]])"
  by (induction s) (auto simp: Let_def split: list.splits)

lemma parse_trimmed: "parse_file (trim_right_cut [CR, LF] s) = parse_file s"
proof (induction s rule: rev_induct)
  case (snoc c s)
  show ?case
  proof (cases "c \<in> set [CR, LF]")
    case True
    have "parse_file (s @ [c]) = parse_file s"
    proof (cases "c = LF")
      case True
      then show ?thesis by (simp add: parse_file_def split_on_snoc)
    next
      case False
      then have c: "c = CR" using True by simp
      have line: "parse_file_line (l @ [CR]) st = parse_file_line l st" for l st
        by (simp add: parse_file_line_kinds trim_right_snoc)
      have "fold parse_file_line (butlast ls @ [last ls @ [CR]]) st = fold parse_file_line ls st" if "ls \<noteq> []" for ls st
        using that by (cases ls rule: rev_cases) (simp_all add: line)
      from this[of "split_on LF s"] show ?thesis using False c unfolding parse_file_def split_on_snoc by simp
    qed
    then show ?thesis using snoc trim_right_snoc[OF True, of s] by simp
  qed (simp add: trim_right_cut_def)
qed (simp add: trim_right_cut_def)

section \<open>The printed file\<close>

interpretation section_less: slice_less "\<lambda>a b. is_name a < is_name b"
  by unfold_locales auto

definition named_sections :: "ini_file \<Rightarrow> ini_file" where
  "named_sections f = sort_by (\<lambda>a b. is_name a < is_name b) (filter (\<lambda>sec. is_name sec \<noteq> []) f)"

definition printed_lines :: "ini_file \<Rightarrow> string list" where
  "printed_lines f =
     (let g = the (file_at f []); body = map (assignment g) (sorted_keys g) in
      (if body \<noteq> [] then body @ (if named_sections f \<noteq> [] then [[]] else []) else []) @
      separated (map section_block (named_sections f)))"

lemma global_section:
  assumes "file_ok f"
  shows "filter (\<lambda>sec. is_name sec = []) f = [hd f]" "file_at f [] = Some (is_vals (hd f))"
proof -
  obtain g r where f: "f = g # r" "is_name g = []" "[] \<notin> is_name ` set r" using assms by (cases f) (auto simp: file_ok_def)
  then have "filter (\<lambda>sec. is_name sec = []) r = []" unfolding filter_empty_conv by (metis imageI)
  then show "filter (\<lambda>sec. is_name sec = []) f = [hd f]" using f by simp
  show "file_at f [] = Some (is_vals (hd f))" using f by (simp add: file_at_def)
qed

lemma section_body_lines: "section_body sec = unlines (map (assignment (is_vals sec)) (sorted_keys (is_vals sec)))"
  by (simp add: section_body_def unlines_def assignment_def comp_def)

lemma section_text_lines: "section_text sec = unlines (section_block sec)"
  by (simp add: section_text_def section_block_def section_body_lines)

lemma join_blocks: "join_with [LF] (map unlines gs) = unlines (separated gs)"
  by (induction gs rule: separated.induct) simp_all

lemma sorted_keys_Nil: "sorted_keys m = [] \<longleftrightarrow> m = fmempty"
  by (metis fmdom_empty fmrestrict_fset_dom fmrestrict_fset_null bot_fset.rep_eq fset_inject set_empty sorted_keys_facts(1))

lemma format_lines: "file_ok f \<Longrightarrow> format_ini f = trim_right_cut [CR, LF] (unlines (printed_lines f))"
proof -
  assume f: "file_ok f"
  have t: "map section_text secs = map unlines (map section_block secs)" for secs by (simp add: section_text_lines)
  show ?thesis
    using global_section[OF f]
    by (simp add: format_ini_def printed_lines_def named_sections_def Let_def section_body_lines t join_blocks sorted_keys_Nil
        del: map_map list.map_comp)
qed

lemma parse_format:
  assumes "file_ok f"
  shows "file_at (parse_file (format_ini f)) = file_at f"
proof -
  let ?g = "the (file_at f [])" and ?start = "([empty_section []], 0) :: ini_file \<times> nat"
  let ?body = "map (assignment ?g) (sorted_keys ?g)"
  let ?named = "named_sections f"
  have secs: "list_all section_ok f" "distinct (map is_name f)" using assms by (simp_all add: file_ok_def)
  have g: "?g = is_vals (hd f)" "section_ok (hd f)" using global_section(2)[OF assms] assms by (auto simp: file_ok_def list_all_iff)
  have named: "list_all section_ok ?named" "[] \<notin> is_name ` set ?named"
    using secs(1) by (auto simp: named_sections_def list_all_iff)
  have named_ne: "\<forall>sec \<in> set ?named. is_name sec \<noteq> []" by (simp add: named_sections_def)
  have perm: "mset ?named = mset (filter (\<lambda>sec. is_name sec \<noteq> []) f)" by (simp add: named_sections_def)
  have dist: "distinct (map is_name ?named)"
  proof -
    have "distinct (map is_name (filter (\<lambda>sec. is_name sec \<noteq> []) f))" by (rule distinct_map_filter[OF secs(2)])
    moreover have "mset (map is_name ?named) = mset (map is_name (filter (\<lambda>sec. is_name sec \<noteq> []) f))" using perm by (simp only: mset_map)
    ultimately show ?thesis using mset_eq_imp_distinct_iff by blast
  qed
  have lf: "\<forall>l \<in> set (printed_lines f). LF \<notin> set l"
  proof
    fix l assume "l \<in> set (printed_lines f)"
    then have "l = [] \<or> l \<in> set ?body \<or> (\<exists>sec \<in> set ?named. l \<in> set (section_block sec))"
      using set_separated[of "map section_block ?named"] by (fastforce simp: printed_lines_def Let_def split: if_splits)
    moreover have "LF \<notin> set (assignment (is_vals sec) k)" if "section_ok sec" "k \<in> set (sorted_keys (is_vals sec))" for sec k
      using section_pairs[OF that] by (auto simp: assignment_def pair_ok_def LF_def)
    moreover have "section_ok sec \<Longrightarrow> LF \<notin> set (CHR ''['' # is_name sec @ [CHR '']''])" for sec
      by (simp add: section_ok_def LF_def)
    ultimately show "LF \<notin> set l"
      using g named(1) by (auto simp: section_block_def list_all_iff simp del: sorted_keys_facts)
  qed
  have b: "state_ok (fold parse_file_line ?body ?start)"
    "file_at (fst (fold parse_file_line ?body ?start)) = [[] \<mapsto> ?g]"
    using at_body[OF state_ok_start, of fmempty "sorted_keys ?g" ?g] section_pairs[OF g(2)] g(1) fold_all_keys[of ?g]
    by (auto simp: current_name_def file_at_def)
  have blocks: "file_at (fst (fold parse_file_line (separated (map section_block ?named)) (fold parse_file_line ?body ?start))) =
      [[] \<mapsto> ?g] ++ file_at ?named"
    using at_blocks[OF b(1) named(1) dist] unfolding b(2) using named_ne by simp
  have "parse_file (format_ini f) = fst (fold parse_file_line (separated (map section_block ?named)) (fold parse_file_line ?body ?start))"
  proof -
    have "parse_file (format_ini f) = parse_file (unlines (printed_lines f))" by (simp only: format_lines[OF assms] parse_trimmed)
    also have "\<dots> = fst (fold parse_file_line (printed_lines f) ?start)" by (simp add: parse_file_def split_unlines[OF lf])
    finally show ?thesis by (simp add: printed_lines_def Let_def)
  qed
  moreover have "[[] \<mapsto> ?g] ++ file_at ?named = file_at f"
  proof
    fix n
    have at: "file_at ?named n = (if n = [] then None else file_at f n)"
    proof (cases "n = []")
      case False
      have "set (map (\<lambda>sec. (is_name sec, is_vals sec)) ?named) = set (filter (\<lambda>p. fst p \<noteq> []) (map (\<lambda>sec. (is_name sec, is_vals sec)) f))"
        by (auto simp: named_sections_def)
      then have "map_of (map (\<lambda>sec. (is_name sec, is_vals sec)) ?named) n =
          map_of (filter (\<lambda>p. fst p \<noteq> []) (map (\<lambda>sec. (is_name sec, is_vals sec)) f)) n"
        using dist secs(2) by (intro fun_cong[OF map_of_inject_set[THEN iffD2]]) (auto simp: comp_def distinct_map_filter filter_map)
      moreover have "map_of (filter (\<lambda>p. fst p \<noteq> []) xs) n = map_of xs n" for xs :: "(string \<times> (string, string) fmap) list"
        using False by (induction xs) auto
      ultimately show ?thesis using False by (simp add: file_at_def)
    qed (use named(2) file_at_none in auto)
    show "([[] \<mapsto> ?g] ++ file_at ?named) n = file_at f n"
      using global_section(2)[OF assms] by (auto simp: map_add_def at split: option.split)
  qed
  ultimately show ?thesis using blocks by simp
qed

lemma named_sorted:
  assumes "file_ok f"
  shows "map is_name (named_sections f) = sorted_list_of_set (dom (file_at f) - {[]})"
proof (rule sorted_distinct_set_unique)
  let ?n = "named_sections f"
  have perm: "mset ?n = mset (filter (\<lambda>sec. is_name sec \<noteq> []) f)" by (simp add: named_sections_def)
  have "sorted_wrt (\<lambda>x y. \<not> is_name y < is_name x) ?n" unfolding named_sections_def by (rule section_less.sorted_sort_by)
  then show "sorted (map is_name ?n)" by (simp add: sorted_map not_less)
  have "distinct (map is_name (filter (\<lambda>sec. is_name sec \<noteq> []) f))" by (rule distinct_map_filter) (use assms in \<open>simp add: file_ok_def\<close>)
  moreover have "mset (map is_name ?n) = mset (map is_name (filter (\<lambda>sec. is_name sec \<noteq> []) f))" using perm by (simp only: mset_map)
  ultimately show "distinct (map is_name ?n)" using mset_eq_imp_distinct_iff by blast
  have d: "dom (file_at f) = is_name ` set f" by (simp add: file_at_def dom_map_of_conv_image_fst image_image)
  show "set (map is_name ?n) = set (sorted_list_of_set (dom (file_at f) - {[]}))" by (auto simp: d named_sections_def)
qed simp_all

lemma format_cong:
  assumes f: "file_ok f" and g: "file_ok g" and eq: "file_at f = file_at g"
  shows "format_ini f = format_ini g"
proof -
  have block: "map section_block (named_sections f) = map (\<lambda>n. (CHR ''['' # n @ [CHR '']'']) #
      map (assignment (the (file_at f n))) (sorted_keys (the (file_at f n)))) (map is_name (named_sections f))" if f: "file_ok f" for f
  proof -
    have "file_at f (is_name sec) = Some (is_vals sec)" if "sec \<in> set (named_sections f)" for sec
    proof -
      have "sec \<in> set f" using that by (auto simp: named_sections_def)
      then obtain i where "i < length f" "f ! i = sec" by (auto simp: in_set_conv_nth)
      then show ?thesis using file_at_index[of f i] f by (simp add: file_ok_def)
    qed
    then show ?thesis by (simp add: section_block_def)
  qed
  have names: "map is_name (named_sections f) = map is_name (named_sections g)"
    using named_sorted[OF f] named_sorted[OF g] eq by simp
  then have "map section_block (named_sections f) = map section_block (named_sections g)" unfolding block[OF f] block[OF g] eq by simp
  moreover have "named_sections f = [] \<longleftrightarrow> named_sections g = []" using names by (metis map_is_Nil_conv)
  ultimately have "printed_lines f = printed_lines g" by (simp add: printed_lines_def eq)
  then show ?thesis by (simp add: format_lines[OF f] format_lines[OF g])
qed

text \<open>
  Property C34. Merging is idempotent on the texts: when a merge of an INI source into a target is
  printed and the same source is merged into that text again, the same text is printed.
\<close>

theorem ini_merge_is_idempotent:
  "format_ini (merge_ini (parse_file (format_ini (merge_ini (parse_file target) (parse_file source)))) (parse_file source)) =
     format_ini (merge_ini (parse_file target) (parse_file source))"
proof -
  let ?t = "parse_file target" and ?s = "parse_file source"
  let ?m = "merge_ini ?t ?s"
  have s: "list_all section_ok ?s" "distinct (map is_name ?s)" using parse_file_ok[of source] by (simp_all add: file_ok_def)
  note m = merge_ini_at[OF parse_file_ok s]
  have "fmadd (fmadd x y) y = fmadd x y" for x y :: "(string, string) fmap" by (rule fmap_ext) simp
  then have again: "merged_values (merged_values x y) y = merged_values x y" for x y
    by (auto simp: merged_values_def split: option.split)
  have "fmadd y y = y" for y :: "(string, string) fmap" by (rule fmap_ext) simp
  have "file_at (merge_ini (parse_file (format_ini ?m)) ?s) = file_at ?m"
    using m(2) parse_format[OF m(1)] again by (intro ext) simp
  then show ?thesis by (rule format_cong[OF m(1) m(1)])
qed

definition ini_value :: "ini_file \<Rightarrow> string \<Rightarrow> string \<Rightarrow> string option" where
  "ini_value f name key = (case file_at f name of None \<Rightarrow> None | Some vals \<Rightarrow> fmlookup vals key)"

text \<open>
  Property C33. The merged file holds every value of the source, and of the target every value the
  source does not have.
\<close>

theorem ini_merge_values:
  "ini_value (parse_file (format_ini (merge_ini (parse_file target) (parse_file source)))) name key =
     (case ini_value (parse_file source) name key of Some v \<Rightarrow> Some v | None \<Rightarrow> ini_value (parse_file target) name key)"
proof -
  let ?t = "parse_file target" and ?s = "parse_file source"
  have s: "list_all section_ok ?s" "distinct (map is_name ?s)" using parse_file_ok[of source] by (simp_all add: file_ok_def)
  note m = merge_ini_at[OF parse_file_ok s]
  show ?thesis
    unfolding ini_value_def parse_format[OF m(1)] m(2)
    by (auto simp: merged_values_def fmdom_notI fmdomI split: option.split)
qed

section \<open>JSON and appended lines\<close>

text \<open>
  Property C35. Merging a JSON source is idempotent, and it is fixed location by location (by the names of nested
  fields) what the result holds: a scalar or an array of the source wins; an object of the source
  makes an object; a location the source does not reach reads what the target has, unless a
  scalar or an array of the source replaced an object on the way to it. A null of the source does not overwrite,
  as \<open>DeepMerge\<close> returns the target when the source is nil: it shows only where the target has nothing.
\<close>

theorem json_merge_correct:
  "deep_merge (deep_merge t s) s = deep_merge t s \<and>
   (\<forall>ks. case at_fields s ks of
      Some JNull \<Rightarrow> at_fields (deep_merge t s) ks = (case at_fields t ks of None \<Rightarrow> Some JNull | Some w \<Rightarrow> Some w)
    | Some (JObj m) \<Rightarrow> (\<exists>n. at_fields (deep_merge t s) ks = Some (JObj n))
    | Some v \<Rightarrow> at_fields (deep_merge t s) ks = Some v
    | None \<Rightarrow> at_fields (deep_merge t s) ks =
        (if \<exists>p v. prefix p ks \<and> at_fields s p = Some v \<and> is_leaf v then None else at_fields t ks))"
proof (intro conjI allI)
  show "deep_merge (deep_merge t s) s = deep_merge t s" by (rule merge_again)
next
  fix ks
  have objects: "\<exists>n. deep_merge w (JObj m) = JObj n" for w m
    by (cases w) (simp_all add: merge_objects merge_other)
  show "case at_fields s ks of
      Some JNull \<Rightarrow> at_fields (deep_merge t s) ks = (case at_fields t ks of None \<Rightarrow> Some JNull | Some w \<Rightarrow> Some w)
    | Some (JObj m) \<Rightarrow> (\<exists>n. at_fields (deep_merge t s) ks = Some (JObj n))
    | Some v \<Rightarrow> at_fields (deep_merge t s) ks = Some v
    | None \<Rightarrow> at_fields (deep_merge t s) ks =
        (if \<exists>p v. prefix p ks \<and> at_fields s p = Some v \<and> is_leaf v then None else at_fields t ks)"
    unfolding behind_leaf_def[symmetric] merge_at[of t s ks]
    using objects by (auto simp: merge_other split: option.splits json.splits)
qed

lemma split_with_newline: "split_non_empty (with_newline s) = split_non_empty s"
  by (simp add: split_non_empty_def with_newline_def split_on_snoc)

lemma with_newline_twice: "with_newline (with_newline s) = with_newline s"
  by (simp add: with_newline_def)

lemma split_joined:
  assumes "\<forall>l \<in> set ls. l \<noteq> [] \<and> LF \<notin> set l" "s = [] \<or> last s = LF"
  shows "split_non_empty (s @ join_with [LF] ls @ [LF]) = split_non_empty s @ ls"
proof -
  have parts: "split_on LF (u @ LF # v) = split_on LF u @ split_on LF v" for u v
    by (induction u) (auto simp: Let_def split: list.splits)
  have joined: "split_non_empty (join_with [LF] ls @ [LF]) = ls"
  proof (cases "ls = []")
    case False
    have "split_on LF (join_with [LF] ls) = ls" using False assms(1) by (intro split_join) auto
    then show ?thesis using assms(1) by (simp add: split_non_empty_def split_on_snoc filter_id_conv)
  qed (simp add: split_non_empty_def split_on_snoc)
  show ?thesis
  proof (cases "s = []")
    case False
    then obtain u where u: "s = u @ [LF]" using assms(2) append_butlast_last_id by metis
    then have "s @ join_with [LF] ls @ [LF] = u @ LF # (join_with [LF] ls @ [LF])" by simp
    then show ?thesis using joined by (simp only: split_non_empty_def parts u filter_append) (simp add: split_on_snoc)
  qed (use joined in \<open>simp add: split_non_empty_def\<close>)
qed

lemma split_non_empty_lines: "l \<in> set (split_non_empty s) \<Longrightarrow> l \<noteq> [] \<and> LF \<notin> set l"
  by (auto simp: split_non_empty_def dest: split_on_fresh)

lemma append_lines_split:
  "split_non_empty (append_lines (Some c) source) =
     split_non_empty c @ filter (\<lambda>l. l \<notin> set (split_non_empty c)) (split_non_empty source)"
proof -
  let ?missing = "filter (\<lambda>l. l \<notin> set (split_non_empty c)) (split_non_empty source)"
  have "with_newline c = [] \<or> last (with_newline c) = LF" by (simp add: with_newline_def)
  moreover have "\<forall>l \<in> set ?missing. l \<noteq> [] \<and> LF \<notin> set l" using split_non_empty_lines by auto
  ultimately show ?thesis
    by (auto simp: append_lines_def Let_def split_with_newline split_joined simp del: append_assoc)
qed

text \<open>
  Appending is idempotent, keeps the lines of the target in their order and adds, in
  their order, exactly the lines of the source that the target does not have.
\<close>

theorem append_is_idempotent:
  "append_lines (Some (append_lines target source)) source = append_lines target source \<and>
   split_non_empty (append_lines target source) =
     (case target of None \<Rightarrow> split_non_empty source
      | Some c \<Rightarrow> split_non_empty c @ filter (\<lambda>l. l \<notin> set (split_non_empty c)) (split_non_empty source))"
proof -
  have lines: "split_non_empty (append_lines target source) =
     (case target of None \<Rightarrow> split_non_empty source
      | Some c \<Rightarrow> split_non_empty c @ filter (\<lambda>l. l \<notin> set (split_non_empty c)) (split_non_empty source))"
    by (cases target) (simp add: append_lines_def split_with_newline, simp add: append_lines_split)
  have "filter (\<lambda>l. l \<notin> set (split_non_empty (append_lines target source))) (split_non_empty source) = []"
    unfolding lines by (auto simp: filter_empty_conv split: option.split)
  moreover have "with_newline (append_lines target source) = append_lines target source"
    by (cases target) (simp_all only: append_lines_def option.case Let_def with_newline_twice)
  ultimately show ?thesis using lines by (simp add: append_lines_def[of "Some (append_lines target source)"] Let_def)
qed

end
