(* ===== verification/RestoreState.thy ===== *)
theory RestoreState
  imports PayloadProperties
begin

text \<open>
  The recorded states of \<open>internal/configrestore\<close> (filesystem_state.go, snapshot_types.go and the
  path functions of transaction_classification.go): what a restore target is before and after a
  transaction. A state is a map from relative paths to entries with a digest; the functions here
  compute the state a copy or a write is to reach and turn states into records and back.
  SHA-256 in hexadecimal is the parameter \<open>sha\<close>.
\<close>

section \<open>States\<close>

datatype state_kind = StateAbsent | StateFile | StateDirectory | StateRegistryValue

definition kind_name :: "state_kind \<Rightarrow> string" where
  "kind_name k = (case k of StateAbsent \<Rightarrow> ''absent'' | StateFile \<Rightarrow> ''file'' | StateDirectory \<Rightarrow> ''directory''
     | StateRegistryValue \<Rightarrow> ''registry-value'')"

text \<open>An entry of a scanned state, of a record and of a journal; they have the same fields.\<close>

record state_entry =
  en_path :: string
  en_kind :: state_kind
  en_mode :: nat
  en_size :: int
  en_hash :: string

type_synonym entries = "(string, state_entry) fmap"

record fs_state =
  fs_kind :: state_kind
  fs_mode :: nat
  fs_digest :: string
  fs_entries :: entries

record state_record =
  rc_kind :: state_kind
  rc_digest :: string
  rc_mode :: nat
  rc_backup :: string
  rc_entries :: "state_entry list"

section \<open>Digests\<close>

text \<open>\<open>binary.BigEndian.PutUint64\<close>; \<open>char_of\<close> keeps the lowest byte.\<close>

definition put_uint64 :: "nat \<Rightarrow> string" where
  "put_uint64 n = map (\<lambda>i. char_of (n div 256 ^ i)) (rev [0..<8])"

definition digest_string :: "string \<Rightarrow> string" where
  "digest_string value = put_uint64 (length value) @ value"

definition digest_entry :: "state_entry \<Rightarrow> string" where
  "digest_entry e = digest_string (en_path e) @ digest_string (kind_name (en_kind e)) @ put_uint64 (perm (en_mode e)) @
     put_uint64 (nat (en_size e mod 2 ^ 64)) @ digest_string (en_hash e)"

definition sorted_entries :: "entries \<Rightarrow> state_entry list" where
  "sorted_entries es = map (\<lambda>p. the (fmlookup es p)) (sorted_list_of_fset (fmdom es))"

definition state_bytes :: "state_kind \<Rightarrow> entries \<Rightarrow> string" where
  "state_bytes k es = digest_string ''endstate-filesystem-state-v1'' @ digest_string (kind_name k) @
     put_uint64 (size (fmdom es)) @ concat (map digest_entry (sorted_entries es))"

definition digest_filesystem_state :: "(string \<Rightarrow> string) \<Rightarrow> state_kind \<Rightarrow> entries \<Rightarrow> string" where
  "digest_filesystem_state sha k es = sha (state_bytes k es)"

definition digest_absent :: "(string \<Rightarrow> string) \<Rightarrow> string \<Rightarrow> string" where
  "digest_absent sha domain = sha (digest_string ''endstate-absent-state-v1'' @ digest_string domain)"

definition absent_state :: "(string \<Rightarrow> string) \<Rightarrow> fs_state" where
  "absent_state sha = \<lparr>fs_kind = StateAbsent, fs_mode = 0, fs_digest = digest_absent sha ''filesystem'', fs_entries = fmempty\<rparr>"

text \<open>A state with its digest, as every function builds it.\<close>

definition with_digest :: "(string \<Rightarrow> string) \<Rightarrow> state_kind \<Rightarrow> nat \<Rightarrow> entries \<Rightarrow> fs_state" where
  "with_digest sha k mode es = \<lparr>fs_kind = k, fs_mode = mode, fs_digest = digest_filesystem_state sha k es, fs_entries = es\<rparr>"

definition states_equal :: "fs_state \<Rightarrow> fs_state \<Rightarrow> bool" where
  "states_equal l r \<longleftrightarrow> fs_kind l = fs_kind r \<and> perm (fs_mode l) = perm (fs_mode r) \<and> fs_digest l = fs_digest r"

section \<open>Paths of entries\<close>

text \<open>\<open>path.Dir\<close>.\<close>

definition path_dir :: "string \<Rightarrow> string" where
  "path_dir p = clean_path (rev (dropWhile (\<lambda>c. c \<noteq> CHR ''/'') (rev p)))"

definition path_depth :: "string \<Rightarrow> nat" where
  "path_depth p = length (filter (\<lambda>c. c = CHR ''/'') p)"

definition path_less :: "string \<Rightarrow> string \<Rightarrow> bool" where
  "path_less l r = (if path_depth l \<noteq> path_depth r then path_depth l < path_depth r else l < r)"

interpretation path_order: slice_less path_less
  by standard (auto simp: path_less_def split: if_splits)

definition sorted_paths :: "entries \<Rightarrow> string list" where
  "sorted_paths es = sort_by path_less (sorted_list_of_fset (fmdom es))"

definition trim_prefix :: "string \<Rightarrow> string \<Rightarrow> string" where
  "trim_prefix p s = (if prefix p s then drop (length p) s else s)"

definition trim_suffix :: "string \<Rightarrow> string \<Rightarrow> string" where
  "trim_suffix p s = (if suffix p s then take (length s - length p) s else s)"

definition exclusion_search :: "string \<Rightarrow> string" where
  "exclusion_search pattern = trim_suffix ''**'' (trim_suffix ''/**'' (trim_prefix ''**'' (trim_prefix ''**/'' pattern)))"

definition copy_path_excluded :: "string \<Rightarrow> string list \<Rightarrow> bool" where
  "copy_path_excluded relative patterns \<longleftrightarrow>
     list_ex (\<lambda>p. exclusion_search p \<noteq> [] \<and> contains_str (exclusion_search p) relative) patterns"

definition has_excluded_ancestor :: "string \<Rightarrow> string list \<Rightarrow> bool" where
  "has_excluded_ancestor p excluded \<longleftrightarrow> list_ex (\<lambda>a. prefix (a @ ''/'') p) excluded"

section \<open>Desired states\<close>

datatype state_error =
    UnsupportedEntry | UnsupportedSource | AbsentNotEmpty | NotFilesystem | UnsafeEntryPath | EntriesUnordered
  | EntryModeBits | EntryContent | EntryKind | RootMismatch | FileDescendants | NoDirectoryParent | DigestMismatch

definition default_file_mode :: nat where "default_file_mode = 420"
definition default_directory_mode :: nat where "default_directory_mode = 493"

text \<open>One path of the source: the entries of the target and the excluded directories after it.\<close>

definition desired_copy_path ::
    "entries \<Rightarrow> string list \<Rightarrow> string \<Rightarrow> entries \<times> string list \<Rightarrow> state_error + entries \<times> string list" where
  "desired_copy_path source exclude p s =
     (case s of (es, excluded) \<Rightarrow>
        if p = ''.'' \<or> has_excluded_ancestor p excluded then Inr (es, excluded)
        else let e = the (fmlookup source p) in
          if copy_path_excluded p exclude then
            Inr (es, if en_kind e = StateDirectory then excluded @ [p] else excluded)
          else (case en_kind e of
              StateDirectory \<Rightarrow>
                (case fmlookup es p of
                   None \<Rightarrow> Inr (fmupd p e es, excluded)
                 | Some x \<Rightarrow>
                     if en_kind x = StateFile then Inr (fmupd p e (fmdrop p es), excluded) else Inr (es, excluded))
            | StateFile \<Rightarrow>
                (case fmlookup es p of
                   None \<Rightarrow> Inr (fmupd p e es, excluded)
                 | Some x \<Rightarrow>
                     if en_kind x = StateDirectory
                     then Inr (fmupd p e (fmfilter (\<lambda>c. \<not> (c = p \<or> prefix (p @ ''/'') c)) es), excluded)
                     else Inr (fmupd p (e\<lparr>en_mode := perm (en_mode x)\<rparr>) es, excluded))
            | _ \<Rightarrow> Inl UnsupportedEntry))"

fun desired_copy_paths ::
    "entries \<Rightarrow> string list \<Rightarrow> string list \<Rightarrow> entries \<times> string list \<Rightarrow> state_error + entries \<times> string list" where
  "desired_copy_paths source exclude [] s = Inr s"
| "desired_copy_paths source exclude (p # ps) s =
     try_res (desired_copy_path source exclude p s) (desired_copy_paths source exclude ps)"

definition root_directory_entry :: state_entry where
  "root_directory_entry = \<lparr>en_path = ''.'', en_kind = StateDirectory, en_mode = default_directory_mode, en_size = 0, en_hash = []\<rparr>"

definition desired_copy_state :: "(string \<Rightarrow> string) \<Rightarrow> fs_state \<Rightarrow> fs_state \<Rightarrow> string list \<Rightarrow> state_error + fs_state" where
  "desired_copy_state sha prior source exclude =
     (case fs_kind source of
        StateFile \<Rightarrow>
          let e = the (fmlookup (fs_entries source) ''.'');
              e' = (if fs_kind prior = StateFile then e\<lparr>en_mode := perm (fs_mode prior)\<rparr> else e) in
          Inr (with_digest sha StateFile (en_mode e') (fmupd ''.'' e' fmempty))
      | StateDirectory \<Rightarrow>
          let start = (if fs_kind prior = StateAbsent \<or> fs_kind prior = StateFile
                then fmupd ''.'' root_directory_entry fmempty else fs_entries prior) in
          try_res (desired_copy_paths (fs_entries source) exclude (sorted_paths (fs_entries source)) (start, []))
            (\<lambda>(es, _). Inr (with_digest sha StateDirectory (case fmlookup es ''.'' of None \<Rightarrow> 0 | Some r \<Rightarrow> en_mode r) es))
      | _ \<Rightarrow> Inl UnsupportedSource)"

definition file_entry :: "(string \<Rightarrow> string) \<Rightarrow> string \<Rightarrow> nat \<Rightarrow> string \<Rightarrow> state_entry" where
  "file_entry sha p mode data = \<lparr>en_path = p, en_kind = StateFile, en_mode = mode, en_size = int (length data), en_hash = sha data\<rparr>"

definition desired_write_state :: "(string \<Rightarrow> string) \<Rightarrow> fs_state \<Rightarrow> string \<Rightarrow> fs_state" where
  "desired_write_state sha prior content =
     (let mode = (if fs_kind prior = StateFile then perm (fs_mode prior) else default_file_mode) in
      with_digest sha StateFile mode (fmupd ''.'' (file_entry sha ''.'' mode content) fmempty))"

section \<open>Records\<close>

definition perm_entry :: "state_entry \<Rightarrow> state_entry" where "perm_entry e = e\<lparr>en_mode := perm (en_mode e)\<rparr>"

definition state_record :: "fs_state \<Rightarrow> string \<Rightarrow> state_record" where
  "state_record s backup =
     \<lparr>rc_kind = fs_kind s, rc_digest = fs_digest s, rc_mode = perm (fs_mode s), rc_backup = backup,
      rc_entries = map perm_entry (sorted_entries (fs_entries s))\<rparr>"

definition unsafe_entry_path :: "string \<Rightarrow> bool" where
  "unsafe_entry_path p \<longleftrightarrow> p = [] \<or> has_control p \<or> is_abs p \<or> clean_path p \<noteq> p \<or> p = ''..'' \<or>
     (p \<noteq> ''.'' \<and> prefix ''../'' p) \<or> CHR 0x5C \<in> set p"

definition record_entry_error :: "state_entry \<Rightarrow> string option \<Rightarrow> state_error option" where
  "record_entry_error e previous =
     (if unsafe_entry_path (en_path e) then Some UnsafeEntryPath
      else if (case previous of None \<Rightarrow> False | Some q \<Rightarrow> en_path e \<le> q) then Some EntriesUnordered
      else if en_mode e \<noteq> perm (en_mode e) then Some EntryModeBits
      else (case en_kind e of
          StateFile \<Rightarrow> if en_size e < 0 \<or> \<not> is_payload_hash (en_hash e) then Some EntryContent else None
        | StateDirectory \<Rightarrow> if en_size e \<noteq> 0 \<or> en_hash e \<noteq> [] then Some EntryContent else None
        | _ \<Rightarrow> Some EntryKind))"

fun record_entries_from :: "string option \<Rightarrow> entries \<Rightarrow> state_entry list \<Rightarrow> state_error + entries" where
  "record_entries_from previous es [] = Inr es"
| "record_entries_from previous es (e # rest) =
     guard_res (record_entry_error e previous)
       (record_entries_from (Some (en_path e)) (fmupd (en_path e) (perm_entry e) es) rest)"

definition has_directory_parent :: "entries \<Rightarrow> string \<Rightarrow> bool" where
  "has_directory_parent es p \<longleftrightarrow> p = ''.'' \<or>
     (case fmlookup es (path_dir p) of None \<Rightarrow> False | Some d \<Rightarrow> en_kind d = StateDirectory)"

definition filesystem_state_from_record :: "(string \<Rightarrow> string) \<Rightarrow> state_record \<Rightarrow> state_error + fs_state" where
  "filesystem_state_from_record sha r =
     (case rc_kind r of
        StateAbsent \<Rightarrow> if rc_entries r \<noteq> [] \<or> perm (rc_mode r) \<noteq> 0 then Inl AbsentNotEmpty else Inr (absent_state sha)
      | StateRegistryValue \<Rightarrow> Inl NotFilesystem
      | k \<Rightarrow>
          try_res (record_entries_from None fmempty (rc_entries r)) (\<lambda>es.
            case fmlookup es ''.'' of
              None \<Rightarrow> Inl RootMismatch
            | Some root \<Rightarrow>
                if en_kind root \<noteq> k \<or> perm (en_mode root) \<noteq> perm (rc_mode r) then Inl RootMismatch
                else if k = StateFile \<and> size (fmdom es) \<noteq> 1 then Inl FileDescendants
                else if \<not> fBall (fmdom es) (has_directory_parent es) then Inl NoDirectoryParent
                else Inr (with_digest sha k (perm (rc_mode r)) es)))"

definition journal_filesystem_state :: "(string \<Rightarrow> string) \<Rightarrow> state_record \<Rightarrow> state_error + fs_state" where
  "journal_filesystem_state sha r =
     try_res (filesystem_state_from_record sha r) (\<lambda>s. if fs_digest s \<noteq> rc_digest r then Inl DigestMismatch else Inr s)"

end
