(* ===== verification/RestoreStateProperties.thy ===== *)
theory RestoreStateProperties
  imports RestoreState
begin

text \<open>
  Properties of the recorded states: the paths of entries as lists of elements, the states a
  journal accepts (\<open>manifest\<close>), the round trip through a record, what the desired state of a copy
  holds at every path, and that equal digests mean equal states unless SHA-256 collides.
\<close>

section \<open>Portable paths\<close>

lemma portable_D:
  assumes "\<not> unsafe_entry_path p"
  shows "p = render_clean False (clean_elements p)" and "plain_key (clean_elements p)" and "\<not> is_abs p"
proof -
  have abs: "\<not> is_abs p" and cl: "clean_path p = p" and dots: "p \<noteq> ''..''" "p = ''.'' \<or> \<not> prefix ''../'' p"
    using assms by (auto simp: unsafe_entry_path_def)
  show r: "p = render_clean False (clean_elements p)" using cl abs by (simp add: clean_path_def)
  have plain: "list_all plain_element (clean_elements p)" by (rule clean_elements_plain)
  have "''..'' \<notin> set (clean_elements p)"
  proof
    assume d: "''..'' \<in> set (clean_elements p)"
    obtain n rest where f: "clean_elements p = replicate n ''..'' @ rest" "''..'' \<notin> set rest"
      using clean_elements_front[of p] by (auto simp: dots_in_front_def)
    then obtain m where "n = Suc m" using d by (cases n) auto
    then have "clean_elements p = ''..'' # replicate m ''..'' @ rest" using f by simp
    then have "p = ''..'' \<or> prefix ''../'' p"
      using r by (cases "replicate m ''..'' @ rest") (auto simp: render_clean_def join_with_Cons)
    then show False using dots by auto
  qed
  then show "plain_key (clean_elements p)" using plain by (simp add: plain_key_def)
  show "\<not> is_abs p" by (rule abs)
qed

lemma portable_inj: "\<not> unsafe_entry_path p \<Longrightarrow> \<not> unsafe_entry_path q \<Longrightarrow> clean_elements p = clean_elements q \<Longrightarrow> p = q"
  using portable_D(1) by metis

lemma elements_dot [simp]: "clean_elements ''.'' = []"
  by (simp add: clean_elements_def path_elements_def)

lemma portable_dot: "\<not> unsafe_entry_path p \<Longrightarrow> p = ''.'' \<longleftrightarrow> clean_elements p = []"
  using portable_D(1)[of p] by (auto simp: render_clean_def)

lemma portable_join: "\<not> unsafe_entry_path p \<Longrightarrow> p \<noteq> ''.'' \<Longrightarrow> p = join_with ''/'' (clean_elements p)"
  using portable_D(1)[of p] portable_dot[of p] by (auto simp: render_clean_def)

lemma join_snoc: "ws \<noteq> [] \<Longrightarrow> join_with sep (ws @ [w]) = join_with sep ws @ sep @ w"
  by (induction sep ws rule: join_with.induct) auto

lemma join_append: "vs \<noteq> [] \<Longrightarrow> ws \<noteq> [] \<Longrightarrow> join_with sep (vs @ ws) = join_with sep vs @ sep @ join_with sep ws"
  by (induction sep vs rule: join_with.induct) (auto simp: join_with_Cons)

lemma clean_render: "plain_key ws \<Longrightarrow> clean_elements (render_clean False ws) = ws"
  using elements_render[of ws False] clean_stack_no_dots[of ws False "[]"] by (simp add: clean_elements_def plain_key_def)

lemma render_inj: "plain_key ws \<Longrightarrow> plain_key vs \<Longrightarrow> render_clean False ws = render_clean False vs \<Longrightarrow> ws = vs"
  using clean_render by metis

lemma dropWhile_to_slash: "CHR ''/'' \<notin> set w \<Longrightarrow> dropWhile (\<lambda>c. c \<noteq> CHR ''/'') (rev (v @ ''/'' @ w)) = CHR ''/'' # rev v"
  by (induction w rule: rev_induct) auto

lemma path_dir_elements:
  assumes "plain_key (ws @ [w])"
  shows "path_dir (render_clean False (ws @ [w])) = render_clean False ws"
proof (cases "ws = []")
  case True
  have r: "rev (dropWhile (\<lambda>c. c \<noteq> CHR ''/'') (rev w)) = []"
    using assms by (auto simp: plain_key_def plain_element_def dropWhile_eq_Nil_conv)
  have "path_dir (render_clean False (ws @ [w])) = clean_path []" using True by (simp add: path_dir_def render_clean_def r)
  also have "\<dots> = ''.''" by (simp add: clean_path_def clean_elements_def path_elements_def is_abs_def render_clean_def)
  finally show ?thesis using True by (simp add: render_clean_def)
next
  case False
  have w: "CHR ''/'' \<notin> set w" and ws: "plain_key ws" using assms by (auto simp: plain_key_def plain_element_def)
  have "path_dir (render_clean False (ws @ [w])) = clean_path (join_with ''/'' ws @ ''/'')"
    using False dropWhile_to_slash[OF w, of "join_with ''/'' ws"] by (simp add: path_dir_def render_clean_def join_snoc)
  moreover have e: "path_elements (join_with ''/'' ws @ ''/'') = ws"
  proof -
    have "split_on CHR ''/'' (join_with ''/'' (ws @ [[]])) = ws @ [[]]"
      using ws by (intro split_join) (auto simp: plain_key_def plain_element_def list_all_iff)
    then show ?thesis
      using False ws by (auto simp: join_snoc path_elements_def filter_id_conv plain_key_def plain_element_def list_all_iff)
  qed
  moreover have "\<not> is_abs (join_with ''/'' ws @ ''/'')"
    using join_first[of ws] False ws by (cases "join_with ''/'' ws") (auto simp: is_abs_def plain_key_def)
  ultimately show ?thesis
    using ws clean_stack_no_dots[of ws False "[]"] by (simp add: clean_path_def clean_elements_def plain_key_def)
qed

lemma path_dir_portable:
  assumes "\<not> unsafe_entry_path p" "p \<noteq> ''.''"
  shows "clean_elements (path_dir p) = butlast (clean_elements p)" and "path_dir p = render_clean False (butlast (clean_elements p))"
proof -
  have ne: "clean_elements p \<noteq> []" using assms portable_dot by blast
  then obtain ws w where e: "clean_elements p = ws @ [w]" by (cases "clean_elements p" rule: rev_cases) auto
  have pl: "plain_key (ws @ [w])" using portable_D(2)[OF assms(1)] e by simp
  have "p = render_clean False (ws @ [w])" using portable_D(1)[OF assms(1)] e by simp
  then show d: "path_dir p = render_clean False (butlast (clean_elements p))" using path_dir_elements[OF pl] e by simp
  show "clean_elements (path_dir p) = butlast (clean_elements p)" unfolding d using pl e by (simp add: clean_render)
qed

lemma path_depth_elements:
  assumes "plain_key ws"
  shows "path_depth (render_clean False ws) = length ws - 1"
proof (cases "ws = []")
  case False
  then have "path_depth (join_with ''/'' ws) = length ws - 1" using assms
  proof (induction "''/''" ws rule: join_with.induct)
    case (2 w)
    then show ?case by (auto simp: path_depth_def plain_key_def plain_element_def filter_empty_conv)
  next
    case (3 w v vs)
    have "filter (\<lambda>c. c = CHR ''/'') w = []" using 3 by (auto simp: plain_key_def plain_element_def filter_empty_conv)
    then show ?case using 3 by (simp add: path_depth_def plain_key_def)
  qed simp
  then show ?thesis using False by (simp add: render_clean_def)
qed (simp add: path_depth_def render_clean_def)

lemma prefix_slash_elements:
  assumes "plain_key vs" "plain_key ws" "vs \<noteq> []"
  shows "prefix (render_clean False vs @ ''/'') (render_clean False ws) \<longleftrightarrow> strict_prefix vs ws"
proof
  assume "strict_prefix vs ws"
  then obtain us where "ws = vs @ us" "us \<noteq> []" by (auto simp: strict_prefix_def prefix_def)
  then show "prefix (render_clean False vs @ ''/'') (render_clean False ws)"
    using assms(3) by (auto simp: render_clean_def join_append prefix_def)
next
  assume p: "prefix (render_clean False vs @ ''/'') (render_clean False ws)"
  have vne: "join_with ''/'' vs \<noteq> []" using join_first[of vs] assms by (auto simp: plain_key_def)
  have "ws \<noteq> []"
  proof
    assume "ws = []"
    then have "prefix (join_with ''/'' vs @ ''/'') ''.''" using p assms(3) by (simp add: render_clean_def)
    then show False using vne by (cases "join_with ''/'' vs") auto
  qed
  then obtain r where r: "join_with ''/'' ws = join_with ''/'' vs @ ''/'' @ r"
    using p assms(3) by (auto simp: render_clean_def prefix_def)
  have "split_on CHR ''/'' (join_with ''/'' ws) = ws" "split_on CHR ''/'' (join_with ''/'' vs) = vs"
    using assms \<open>ws \<noteq> []\<close> by (auto intro!: split_join simp: plain_key_def plain_element_def list_all_iff)
  moreover have "split_on CHR ''/'' (u @ ''/'' @ r) = split_on CHR ''/'' u @ split_on CHR ''/'' r" for u
    by (induction u) (auto split: list.splits)
  ultimately show "strict_prefix vs ws" using r by (metis split_on_nonempty strict_prefixI' append_Cons list.exhaust)
qed

section \<open>Manifests\<close>

definition entry_content :: "state_entry \<Rightarrow> bool" where
  "entry_content e \<longleftrightarrow> en_mode e < 512 \<and>
     (case en_kind e of StateFile \<Rightarrow> 0 \<le> en_size e \<and> is_payload_hash (en_hash e)
      | StateDirectory \<Rightarrow> en_size e = 0 \<and> en_hash e = [] | _ \<Rightarrow> False)"

definition entries_ok :: "entries \<Rightarrow> bool" where
  "entries_ok es \<longleftrightarrow> (\<forall>p e. fmlookup es p = Some e \<longrightarrow>
     en_path e = p \<and> \<not> unsafe_entry_path p \<and> entry_content e \<and> has_directory_parent es p)"

text \<open>The states a journal accepts: exactly what it reads back from the record of the state.\<close>

definition manifest :: "(string \<Rightarrow> string) \<Rightarrow> fs_state \<Rightarrow> bool" where
  "manifest sha s \<longleftrightarrow>
     (case fs_kind s of
        StateAbsent \<Rightarrow> s = absent_state sha
      | StateRegistryValue \<Rightarrow> False
      | k \<Rightarrow> entries_ok (fs_entries s) \<and> s = with_digest sha k (fs_mode s) (fs_entries s) \<and>
          (\<exists>r. fmlookup (fs_entries s) ''.'' = Some r \<and> en_kind r = k \<and> en_mode r = fs_mode s) \<and>
          (k = StateFile \<longrightarrow> fmdom (fs_entries s) = {|''.''|}))"

lemma perm_small [simp]: "perm m = m \<longleftrightarrow> m < 512" "m = perm m \<longleftrightarrow> m < 512" "perm (perm m) = perm m" "perm m < 512" "m < 512 \<Longrightarrow> perm m = m"
  by (auto simp: perm_def)

lemma perm_entry_id [simp]: "en_mode e < 512 \<Longrightarrow> perm_entry e = e" "en_path (perm_entry e) = en_path e"
  by (simp_all add: perm_entry_def perm_def)

lemma perm_entry_content [simp]: "entry_content e \<Longrightarrow> perm_entry e = e"
  by (simp add: entry_content_def)

definition all_entries :: "entries \<Rightarrow> state_entry list \<Rightarrow> entries" where
  "all_entries es xs = foldl (\<lambda>m e. fmupd (en_path e) (perm_entry e) m) es xs"

definition follows :: "string option \<Rightarrow> string \<Rightarrow> bool" where
  "follows previous p \<longleftrightarrow> (case previous of None \<Rightarrow> True | Some q \<Rightarrow> q < p)"

lemma record_entry_error_None:
  "record_entry_error e previous = None \<longleftrightarrow> \<not> unsafe_entry_path (en_path e) \<and> follows previous (en_path e) \<and> entry_content e"
  by (auto simp: record_entry_error_def follows_def entry_content_def not_le split: option.splits state_kind.splits)

lemma record_entries_from_Inr:
  "record_entries_from previous es xs = Inr es' \<longleftrightarrow>
     (\<forall>e \<in> set xs. \<not> unsafe_entry_path (en_path e) \<and> entry_content e) \<and> sorted_wrt (<) (map en_path xs) \<and>
     list_all (\<lambda>e. follows previous (en_path e)) xs \<and> es' = all_entries es xs"
proof (induction xs arbitrary: previous es)
  case (Cons e xs)
  have "list_all (\<lambda>e'. follows (Some (en_path e)) (en_path e')) xs \<longleftrightarrow> (\<forall>p \<in> set (map en_path xs). en_path e < p)"
    by (auto simp: follows_def list_all_iff)
  moreover have "follows previous (en_path e) \<Longrightarrow> \<forall>p \<in> set (map en_path xs). en_path e < p \<Longrightarrow> list_all (\<lambda>e. follows previous (en_path e)) xs"
    by (auto simp: follows_def list_all_iff split: option.splits)
  ultimately show ?case
    by (auto simp: Cons.IH record_entry_error_None all_entries_def)
qed (auto simp: all_entries_def)

lemma all_entries_lookup:
  "distinct (map en_path xs) \<Longrightarrow> fmlookup (all_entries es xs) p =
     (case map_of (map (\<lambda>e. (en_path e, perm_entry e)) xs) p of None \<Rightarrow> fmlookup es p | Some e \<Rightarrow> Some e)"
proof (induction xs arbitrary: es)
  case (Cons e xs)
  have "map_of (map (\<lambda>e. (en_path e, perm_entry e)) xs) (en_path e) = None"
    using Cons.prems by (auto simp: map_of_eq_None_iff image_image)
  then show ?case using Cons by (auto simp: all_entries_def split: option.split)
qed (simp add: all_entries_def)

lemma all_entries_Some:
  assumes "distinct (map en_path xs)"
  shows "fmlookup (all_entries fmempty xs) p = Some e \<longleftrightarrow> (\<exists>x \<in> set xs. en_path x = p \<and> perm_entry x = e)"
proof -
  have "distinct (map fst (map (\<lambda>e. (en_path e, perm_entry e)) xs))" using assms by (simp add: comp_def)
  then have "map_of (map (\<lambda>e. (en_path e, perm_entry e)) xs) p = Some e \<longleftrightarrow> (p, e) \<in> (\<lambda>e. (en_path e, perm_entry e)) ` set xs"
    using map_of_eq_Some_iff by fastforce
  then show ?thesis unfolding all_entries_lookup[OF assms] by (auto split: option.splits)
qed

lemma sorted_wrt_distinct: "sorted_wrt (<) (xs :: 'a::linorder list) \<Longrightarrow> distinct xs"
  by (simp add: strict_sorted_iff)

lemma set_sorted_entries: "set (sorted_entries es) = {e. \<exists>p. fmlookup es p = Some e}"
proof -
  have "set (sorted_entries es) = (\<lambda>p. the (fmlookup es p)) ` fmdom' es"
    by (simp add: sorted_entries_def sorted_list_of_fset.rep_eq fmdom'_alt_def)
  also have "\<dots> = {e. \<exists>p. fmlookup es p = Some e}"
  proof (intro set_eqI iffI)
    fix e assume "e \<in> {e. \<exists>p. fmlookup es p = Some e}"
    then obtain p where "fmlookup es p = Some e" by auto
    then show "e \<in> (\<lambda>p. the (fmlookup es p)) ` fmdom' es" by (intro image_eqI[of _ _ p]) (auto intro: fmdom'I)
  qed (auto simp: fmlookup_dom'_iff)
  finally show ?thesis .
qed

lemma paths_sorted_entries: "entries_ok es \<Longrightarrow> map en_path (sorted_entries es) = sorted_list_of_fset (fmdom es)"
proof -
  assume ok: "entries_ok es"
  then have "en_path (the (fmlookup es p)) = p" if "p \<in> set (sorted_list_of_fset (fmdom es))" for p
    using that by (auto simp: entries_ok_def sorted_list_of_fset.rep_eq fmlookup_dom_iff)
  then show ?thesis unfolding sorted_entries_def map_map by (intro map_idI) simp
qed

lemma all_sorted_entries:
  assumes ok: "entries_ok es"
  shows "all_entries fmempty (map perm_entry (sorted_entries es)) = es"
    and "record_entries_from None fmempty (map perm_entry (sorted_entries es)) = Inr es"
proof -
  have id: "map perm_entry (sorted_entries es) = sorted_entries es"
    using ok set_sorted_entries by (intro map_idI) (auto simp: entries_ok_def)
  have s: "sorted_wrt (<) (map en_path (sorted_entries es))"
    unfolding paths_sorted_entries[OF ok] by (simp add: sorted_list_of_fset.rep_eq)
  have d: "distinct (map en_path (sorted_entries es))" by (rule sorted_wrt_distinct[OF s])
  show all: "all_entries fmempty (map perm_entry (sorted_entries es)) = es" unfolding id
  proof (rule fmap_ext)
    fix p
    have "fmlookup (all_entries fmempty (sorted_entries es)) p = Some e \<longleftrightarrow> fmlookup es p = Some e" for e
      unfolding all_entries_Some[OF d] set_sorted_entries using ok by (fastforce simp: entries_ok_def)
    then show "fmlookup (all_entries fmempty (sorted_entries es)) p = fmlookup es p"
      by (cases "fmlookup es p"; cases "fmlookup (all_entries fmempty (sorted_entries es)) p") auto
  qed
  show "record_entries_from None fmempty (map perm_entry (sorted_entries es)) = Inr es"
    unfolding record_entries_from_Inr using all s ok
    by (auto simp: id set_sorted_entries entries_ok_def follows_def list_all_iff)
qed

lemma fBall_parents: "entries_ok es \<Longrightarrow> fBall (fmdom es) (has_directory_parent es)"
  by (auto simp: entries_ok_def fmlookup_dom_iff intro!: fBallI)

lemma record_roundtrip:
  assumes m: "manifest sha s"
  shows "journal_filesystem_state sha (state_record s backup) = Inr s"
proof (cases "fs_kind s = StateAbsent")
  case True
  then have "s = absent_state sha" using m by (simp add: manifest_def)
  then show ?thesis
    by (simp add: journal_filesystem_state_def filesystem_state_from_record_def state_record_def absent_state_def sorted_entries_def perm_def
        sorted_list_of_fset.rep_eq)
next
  case False
  then have k: "fs_kind s = StateFile \<or> fs_kind s = StateDirectory" using m by (cases "fs_kind s") (auto simp: manifest_def)
  then have ok: "entries_ok (fs_entries s)" and d: "s = with_digest sha (fs_kind s) (fs_mode s) (fs_entries s)"
    and f: "fs_kind s = StateFile \<Longrightarrow> fmdom (fs_entries s) = {|''.''|}"
    using m by (auto simp: manifest_def)
  obtain r where r: "fmlookup (fs_entries s) ''.'' = Some r" "en_kind r = fs_kind s" "en_mode r = fs_mode s"
    using m k by (auto simp: manifest_def)
  have "entry_content r" using ok r(1) unfolding entries_ok_def by blast
  then have mode: "perm (fs_mode s) = fs_mode s" using r(3) by (simp add: entry_content_def)
  have dig: "fs_digest (with_digest sha (fs_kind s) (fs_mode s) (fs_entries s)) = fs_digest s" using d by simp
  have size: "size (fmdom (fs_entries s)) = Suc 0" if "fs_kind s = StateFile" using f[OF that] by simp
  have body: "filesystem_state_from_record sha (state_record s backup) = Inr s"
    using k
  proof
    assume "fs_kind s = StateFile"
    then show ?thesis
      using r mode size d[symmetric] fBall_parents[OF ok]
      by (simp add: filesystem_state_from_record_def state_record_def all_sorted_entries(2)[OF ok])
  next
    assume "fs_kind s = StateDirectory"
    then show ?thesis
      using r mode d[symmetric] fBall_parents[OF ok]
      by (simp add: filesystem_state_from_record_def state_record_def all_sorted_entries(2)[OF ok])
  qed
  show ?thesis unfolding journal_filesystem_state_def body by (simp add: state_record_def)
qed

section \<open>Ancestors\<close>

abbreviation is_below :: "string \<Rightarrow> string \<Rightarrow> bool" where
  "is_below q p \<equiv> prefix (q @ ''/'') p"

lemma below_elements:
  "\<not> unsafe_entry_path q \<Longrightarrow> \<not> unsafe_entry_path p \<Longrightarrow> q \<noteq> ''.'' \<Longrightarrow>
     is_below q p \<longleftrightarrow> strict_prefix (clean_elements q) (clean_elements p)"
  using prefix_slash_elements[of "clean_elements q" "clean_elements p"] portable_D(1,2) portable_dot by metis

lemma below_dot: "\<not> unsafe_entry_path p \<Longrightarrow> \<not> is_below ''.'' p"
proof
  assume p: "\<not> unsafe_entry_path p" "is_below ''.'' p"
  have pl: "plain_key (clean_elements p)" and eq: "p = render_clean False (clean_elements p)" using portable_D[OF p(1)] by auto
  obtain r where r: "p = ''./'' @ r" using p(2) by (auto simp: prefix_def)
  then have ne: "p \<noteq> ''.''" by auto
  then have j: "p = join_with ''/'' (clean_elements p)" "clean_elements p \<noteq> []" using portable_join portable_dot p(1) by auto
  have "split_on CHR ''/'' (join_with ''/'' (clean_elements p)) = clean_elements p"
    using pl j(2) by (intro split_join) (auto simp: plain_key_def plain_element_def list_all_iff)
  then have "split_on CHR ''/'' p = clean_elements p" using j(1) by simp
  moreover have "split_on CHR ''/'' p = ''.'' # split_on CHR ''/'' r"
    unfolding r using split_on_append[of "CHR ''/''" "''.''" r] by simp
  ultimately have "''.'' \<in> set (clean_elements p)" by (metis list.set_intros(1))
  then show False using pl by (auto simp: plain_key_def plain_element_def list_all_iff)
qed

lemma entries_okD:
  assumes "entries_ok es" "fmlookup es p = Some e"
  shows "en_path e = p" "\<not> unsafe_entry_path p" "entry_content e" "has_directory_parent es p"
  using assms unfolding entries_ok_def by blast+

lemma ancestor_directory:
  assumes ok: "entries_ok es" and p: "fmlookup es p = Some e" and vs: "strict_prefix vs (clean_elements p)" "vs \<noteq> []"
  shows "\<exists>d. fmlookup es (render_clean False vs) = Some d \<and> en_kind d = StateDirectory"
  using p vs(1)
proof (induction "length (clean_elements p)" arbitrary: p e rule: less_induct)
  case less
  have safe: "\<not> unsafe_entry_path p" and par: "has_directory_parent es p" using entries_okD[OF ok less.prems(1)] by auto
  have ne: "p \<noteq> ''.''" using less.prems(2) by auto
  then obtain d where d: "fmlookup es (path_dir p) = Some d" "en_kind d = StateDirectory"
    using par by (auto simp: has_directory_parent_def split: option.splits)
  note pd = path_dir_portable[OF safe ne]
  have "prefix vs (butlast (clean_elements p))"
    using less.prems(2) by (cases "clean_elements p" rule: rev_cases) (auto simp: strict_prefix_def)
  then consider "vs = butlast (clean_elements p)" | "strict_prefix vs (butlast (clean_elements p))" by (auto simp: strict_prefix_def)
  then show ?case
  proof cases
    case 1
    then show ?thesis using d pd(2) by auto
  next
    case 2
    have "length (clean_elements (path_dir p)) < length (clean_elements p)" using pd(1) less.prems(2) by (cases "clean_elements p") auto
    then show ?thesis using less.hyps[OF _ d(1)] 2 pd(1) by simp
  qed
qed

lemma below_directory:
  assumes "entries_ok es" "fmlookup es p = Some e" "fmlookup es q = Some x" "is_below q p"
  shows "en_kind x = StateDirectory" and "q \<noteq> ''.''"
proof -
  have safe: "\<not> unsafe_entry_path p" "\<not> unsafe_entry_path q" using assms entries_okD by blast+
  show ne: "q \<noteq> ''.''" using below_dot[OF safe(1)] assms(4) by auto
  then have "strict_prefix (clean_elements q) (clean_elements p)" "clean_elements q \<noteq> []"
    using below_elements[OF safe(2,1) ne] assms(4) portable_dot[OF safe(2)] by auto
  then show "en_kind x = StateDirectory"
    using ancestor_directory[OF assms(1,2)] portable_D(1)[OF safe(2)] assms(3) by fastforce
qed

lemma below_depth:
  assumes "\<not> unsafe_entry_path p" "\<not> unsafe_entry_path q" "q \<noteq> ''.''" "is_below q p"
  shows "path_depth q < path_depth p"
proof -
  have s: "strict_prefix (clean_elements q) (clean_elements p)" "clean_elements q \<noteq> []"
    using below_elements assms portable_dot by blast+
  have d: "path_depth p = length (clean_elements p) - 1" "path_depth q = length (clean_elements q) - 1"
    using path_depth_elements portable_D[OF assms(1)] portable_D[OF assms(2)] by metis+
  show ?thesis using s prefix_length_less[OF s(1)] by (cases "clean_elements q") (simp_all add: d)
qed

lemma below_trans: "is_below a b \<Longrightarrow> is_below b c \<Longrightarrow> is_below a c"
  by (auto simp: prefix_def)

section \<open>The desired state of a copy\<close>

text \<open>
  The paths of the source that are copied, what a copied entry becomes over an existing one, and
  the entries of the target that give way to a file copied over their directory.
\<close>

definition skipped :: "entries \<Rightarrow> string list \<Rightarrow> string \<Rightarrow> bool" where
  "skipped source exclude p \<longleftrightarrow> copy_path_excluded p exclude \<or>
     (\<exists>a e. fmlookup source a = Some e \<and> a \<noteq> ''.'' \<and> is_below a p \<and> copy_path_excluded a exclude)"

definition copied :: "entries \<Rightarrow> string list \<Rightarrow> string \<Rightarrow> bool" where
  "copied source exclude p \<longleftrightarrow> p \<noteq> ''.'' \<and> fmlookup source p \<noteq> None \<and> \<not> skipped source exclude p"

definition merge_entry :: "state_entry \<Rightarrow> state_entry option \<Rightarrow> state_entry" where
  "merge_entry e old =
     (case old of None \<Rightarrow> e
      | Some x \<Rightarrow>
          if en_kind e = StateFile \<and> en_kind x \<noteq> StateDirectory then e\<lparr>en_mode := perm (en_mode x)\<rparr>
          else if en_kind e = StateDirectory \<and> en_kind x \<noteq> StateFile then x else e)"

definition displaced :: "entries \<Rightarrow> string list \<Rightarrow> entries \<Rightarrow> string \<Rightarrow> bool" where
  "displaced source exclude start p \<longleftrightarrow>
     (\<exists>q e x. copied source exclude q \<and> is_below q p \<and> fmlookup source q = Some e \<and> en_kind e = StateFile \<and>
        fmlookup start q = Some x \<and> en_kind x = StateDirectory)"

definition overlaid :: "entries \<Rightarrow> string list \<Rightarrow> entries \<Rightarrow> string \<Rightarrow> state_entry option" where
  "overlaid source exclude start p =
     (if copied source exclude p then Some (merge_entry (the (fmlookup source p)) (fmlookup start p))
      else if displaced source exclude start p then None else fmlookup start p)"

text \<open>The same after the paths \<open>done\<close>.\<close>

definition overlaid_to :: "entries \<Rightarrow> string list \<Rightarrow> entries \<Rightarrow> string set \<Rightarrow> string \<Rightarrow> state_entry option" where
  "overlaid_to source exclude start seen p =
     (if p \<in> seen \<and> copied source exclude p then Some (merge_entry (the (fmlookup source p)) (fmlookup start p))
      else if \<exists>q e x. q \<in> seen \<and> copied source exclude q \<and> is_below q p \<and> fmlookup source q = Some e \<and> en_kind e = StateFile \<and>
        fmlookup start q = Some x \<and> en_kind x = StateDirectory then None
      else fmlookup start p)"

definition excluded_roots :: "entries \<Rightarrow> string list \<Rightarrow> string set \<Rightarrow> string set" where
  "excluded_roots source exclude seen =
     {q \<in> seen. q \<noteq> ''.'' \<and> copy_path_excluded q exclude \<and> (\<exists>e. fmlookup source q = Some e \<and> en_kind e = StateDirectory) \<and>
        (\<forall>a e. fmlookup source a = Some e \<and> a \<noteq> ''.'' \<and> is_below a q \<longrightarrow> \<not> copy_path_excluded a exclude)}"

lemma set_sorted_paths: "set (sorted_paths es) = fmdom' es"
  by (simp add: sorted_paths_def sorted_list_of_fset.rep_eq fmdom'_alt_def)

lemma ancestors_seen:
  assumes ok: "entries_ok source" and split: "sorted_paths source = seen @ p # rest"
    and a: "fmlookup source a = Some e" "a \<noteq> ''.''" "is_below a p"
  shows "a \<in> set seen"
proof -
  have p: "p \<in> fmdom' source" using split set_sorted_paths[of source] by auto
  then obtain x where "fmlookup source p = Some x" by (auto simp: fmlookup_dom'_iff)
  then have lt: "path_depth a < path_depth p" using entries_okD(2)[OF ok] a below_depth by blast
  have "sorted_wrt (\<lambda>x y. \<not> path_less y x) (seen @ p # rest)"
    using path_order.sorted_sort_by[of "sorted_list_of_fset (fmdom source)"] split by (simp add: sorted_paths_def)
  then have "\<forall>y \<in> set (p # rest). \<not> path_less y p" using path_order.lt_irrefl by (auto simp: sorted_wrt_append)
  moreover have "path_less a p" using lt by (simp add: path_less_def)
  moreover have "a \<in> set (seen @ p # rest)" using a(1) split set_sorted_paths[of source] by (auto intro: fmdom'I)
  ultimately show ?thesis by auto
qed

lemma excluded_ancestor:
  assumes ok: "entries_ok source" and split: "sorted_paths source = seen @ p # rest"
    and ex: "set excluded = excluded_roots source exclude (set seen)"
  shows "has_excluded_ancestor p excluded \<longleftrightarrow>
     (\<exists>a e. fmlookup source a = Some e \<and> a \<noteq> ''.'' \<and> is_below a p \<and> copy_path_excluded a exclude)"
proof
  assume "has_excluded_ancestor p excluded"
  then show "\<exists>a e. fmlookup source a = Some e \<and> a \<noteq> ''.'' \<and> is_below a p \<and> copy_path_excluded a exclude"
    using ex by (auto simp: has_excluded_ancestor_def list_ex_iff excluded_roots_def)
next
  assume "\<exists>a e. fmlookup source a = Some e \<and> a \<noteq> ''.'' \<and> is_below a p \<and> copy_path_excluded a exclude"
  then obtain a where a: "\<exists>e. fmlookup source a = Some e" "a \<noteq> ''.''" "is_below a p" "copy_path_excluded a exclude"
    and least: "\<And>b. (\<exists>e. fmlookup source b = Some e) \<and> b \<noteq> ''.'' \<and> is_below b p \<and> copy_path_excluded b exclude \<Longrightarrow> path_depth a \<le> path_depth b"
    using ex_has_least_nat[of "\<lambda>b. (\<exists>e. fmlookup source b = Some e) \<and> b \<noteq> ''.'' \<and> is_below b p \<and> copy_path_excluded b exclude" _ path_depth]
    by blast
  obtain e where e: "fmlookup source a = Some e" using a(1) by auto
  have "p \<in> fmdom' source" using split set_sorted_paths[of source] by auto
  then obtain x where x: "fmlookup source p = Some x" by (auto simp: fmlookup_dom'_iff)
  have "en_kind e = StateDirectory" by (rule below_directory(1)[OF ok x e a(3)])
  moreover have "\<not> copy_path_excluded b exclude" if "fmlookup source b = Some y" "b \<noteq> ''.''" "is_below b a" for b y
    using least[of b] below_trans[OF that(3) a(3)] that below_depth[OF _ _ that(2,3)] entries_okD(2)[OF ok] e by fastforce
  ultimately have "a \<in> excluded_roots source exclude (set seen)"
    using e a ancestors_seen[OF ok split e a(2,3)] by (auto simp: excluded_roots_def)
  then show "has_excluded_ancestor p excluded" using ex a(3) by (auto simp: has_excluded_ancestor_def list_ex_iff)
qed

lemma entry_kinds: "entry_content e \<Longrightarrow> en_kind e = StateFile \<or> en_kind e = StateDirectory"
  by (cases "en_kind e") (simp_all add: entry_content_def)

lemma overlaid_to_skip:
  "\<not> copied source exclude p \<Longrightarrow> overlaid_to source exclude start (insert p seen) = overlaid_to source exclude start seen"
  by (rule ext) (auto simp: overlaid_to_def)

lemma overlaid_here:
  assumes ok: "entries_ok source" and p: "fmlookup source p = Some e" "p \<notin> seen"
  shows "overlaid_to source exclude start seen p = fmlookup start p"
proof -
  have "en_kind x = StateDirectory" if "fmlookup source q = Some x" "is_below q p" for q x
    by (rule below_directory(1)[OF ok p(1) that])
  then show ?thesis using p(2) by (fastforce simp: overlaid_to_def)
qed

lemma desired_copy_paths_spec:
  assumes ok: "entries_ok source" and st: "entries_ok start"
    and "sorted_paths source = seen @ ps" "\<And>p. fmlookup es p = overlaid_to source exclude start (set seen) p"
    and "set excluded = excluded_roots source exclude (set seen)"
  shows "\<exists>es' ex'. desired_copy_paths source exclude ps (es, excluded) = Inr (es', ex') \<and>
     (\<forall>p. fmlookup es' p = overlaid_to source exclude start (fmdom' source) p)"
  using assms(3-)
proof (induction ps arbitrary: seen es excluded)
  case Nil
  then show ?case using set_sorted_paths[of source] by simp
next
  case (Cons p ps)
  let ?new = "insert p (set seen)"
  have next_split: "sorted_paths source = (seen @ [p]) @ ps" using Cons.prems(1) by simp
  have anc: "has_excluded_ancestor p excluded \<longleftrightarrow>
     (\<exists>a e. fmlookup source a = Some e \<and> a \<noteq> ''.'' \<and> is_below a p \<and> copy_path_excluded a exclude)"
    by (rule excluded_ancestor[OF ok Cons.prems(1,3)])
  have step: ?case if "desired_copy_path source exclude p (es, excluded) = Inr (es1, ex1)"
    "\<And>r. fmlookup es1 r = overlaid_to source exclude start ?new r" "set ex1 = excluded_roots source exclude ?new" for es1 ex1
    using Cons.IH[OF next_split, of es1 ex1] that by simp
  have "p \<in> fmdom' source" using Cons.prems(1) set_sorted_paths[of source] by auto
  then obtain e where e: "fmlookup source p = Some e" by (auto simp: fmlookup_dom'_iff)
  have kind: "en_kind e = StateFile \<or> en_kind e = StateDirectory" using entries_okD(3)[OF ok e] by (rule entry_kinds)
  show ?case
  proof (cases "p = ''.'' \<or> has_excluded_ancestor p excluded")
    case True
    then have "\<not> copied source exclude p" using anc by (auto simp: copied_def skipped_def)
    moreover have "excluded_roots source exclude ?new = excluded_roots source exclude (set seen)"
      using True anc by (auto simp: excluded_roots_def)
    ultimately show ?thesis using True Cons.prems
      by (intro step[of es excluded]) (auto simp: desired_copy_path_def overlaid_to_skip)
  next
    case free: False
    show ?thesis
    proof (cases "copy_path_excluded p exclude")
      case True
      have "\<not> copied source exclude p" using True by (simp add: copied_def skipped_def)
      moreover have "excluded_roots source exclude ?new =
          excluded_roots source exclude (set seen) \<union> (if en_kind e = StateDirectory then {p} else {})"
        using True free anc e by (auto simp: excluded_roots_def)
      ultimately show ?thesis using True free e Cons.prems
        by (intro step[of es "if en_kind e = StateDirectory then excluded @ [p] else excluded"])
          (auto simp: desired_copy_path_def overlaid_to_skip)
    next
      case False
      have cp: "copied source exclude p" using False free anc e by (auto simp: copied_def skipped_def)
      have unseen: "p \<notin> set seen"
      proof -
        have "distinct (sorted_paths source)" by (simp add: sorted_paths_def sorted_list_of_fset.rep_eq)
        then show ?thesis using Cons.prems(1) by simp
      qed
      have here: "fmlookup es p = fmlookup start p" using Cons.prems(2) overlaid_here[OF ok e unseen] by simp
      have roots: "set excluded = excluded_roots source exclude ?new"
        using False Cons.prems(3) by (auto simp: excluded_roots_def)
      let ?m = "merge_entry e (fmlookup start p)"
      let ?gone = "\<lambda>r. en_kind e = StateFile \<and> is_below p r \<and> (\<exists>x. fmlookup start p = Some x \<and> en_kind x = StateDirectory)"
      have other: "overlaid_to source exclude start ?new r = (if r = p then Some ?m else if ?gone r then None else fmlookup es r)" for r
      proof -
        have "\<not> copied source exclude r" if "?gone r"
          using that below_directory(1)[OF ok _ e] by (force simp: copied_def)
        then show ?thesis using cp e Cons.prems(2)[of r] unfolding overlaid_to_def by auto
      qed
      have start_kind: "en_kind x = StateFile \<or> en_kind x = StateDirectory" if "fmlookup start p = Some x" for x
        using entries_okD(3)[OF st that] by (rule entry_kinds)
      show ?thesis
      proof (cases "fmlookup start p")
        case None
        show ?thesis
          by (rule step[of "fmupd p e es" excluded])
            (use kind None False free e here roots in \<open>auto simp: desired_copy_path_def other merge_entry_def\<close>)
      next
        case (Some x)
        show ?thesis
        proof (cases "en_kind e = StateDirectory")
          case dir: True
          show ?thesis
            by (rule step[of "if en_kind x = StateFile then fmupd p e (fmdrop p es) else es" excluded])
              (use dir Some False free e here roots in \<open>auto simp: desired_copy_path_def other merge_entry_def\<close>)
        next
          case False
          then have fil: "en_kind e = StateFile" using kind by simp
          show ?thesis
            by (rule step[of "if en_kind x = StateDirectory
                then fmupd p e (fmfilter (\<lambda>c. \<not> (c = p \<or> is_below p c)) es)
                else fmupd p (e\<lparr>en_mode := perm (en_mode x)\<rparr>) es" excluded])
              (use fil start_kind[OF Some] Some \<open>\<not> copy_path_excluded p exclude\<close> free e here roots in
                \<open>auto simp: desired_copy_path_def other merge_entry_def\<close>)
        qed
      qed
    qed
  qed
qed

lemma overlaid_all: "overlaid_to source exclude start (fmdom' source) p = overlaid source exclude start p"
proof -
  have a: "q \<in> fmdom' source \<and> copied source exclude q \<longleftrightarrow> copied source exclude q" for q
    by (auto simp: copied_def fmlookup_dom'_iff)
  have b: "(q \<in> fmdom' source \<and> copied source exclude q \<and> X) = (copied source exclude q \<and> X)" for q X
    using a by blast
  show ?thesis unfolding overlaid_to_def overlaid_def displaced_def a b ..
qed

definition copy_start :: "fs_state \<Rightarrow> entries" where
  "copy_start prior = (if fs_kind prior = StateDirectory then fs_entries prior else fmupd ''.'' root_directory_entry fmempty)"

lemma safe_dot [simp]: "\<not> unsafe_entry_path ''.''"
  by code_simp

lemma has_parent_dot [simp]: "has_directory_parent es ''.''"
  by (simp add: has_directory_parent_def)

lemma manifest_dir:
  assumes "manifest sha s" "fs_kind s = StateDirectory"
  shows "entries_ok (fs_entries s)" and "\<exists>r. fmlookup (fs_entries s) ''.'' = Some r \<and> en_kind r = StateDirectory"
  using assms by (auto simp: manifest_def)

lemma copy_start_ok:
  assumes "manifest sha prior"
  shows "entries_ok (copy_start prior)" and "\<exists>r. fmlookup (copy_start prior) ''.'' = Some r \<and> en_kind r = StateDirectory"
  using assms manifest_dir[of sha prior]
  by (auto simp: copy_start_def entries_ok_def entry_content_def root_directory_entry_def default_directory_mode_def split: if_splits)

lemma parent_below:
  assumes ok: "entries_ok es" and p: "fmlookup es p = Some e" and ne: "p \<noteq> ''.''"
  shows "\<exists>d. fmlookup es (path_dir p) = Some d \<and> en_kind d = StateDirectory"
    and "path_dir p \<noteq> ''.'' \<Longrightarrow> is_below (path_dir p) p"
proof -
  show d: "\<exists>d. fmlookup es (path_dir p) = Some d \<and> en_kind d = StateDirectory"
    using entries_okD(4)[OF ok p] ne by (auto simp: has_directory_parent_def split: option.splits)
  have safe: "\<not> unsafe_entry_path p" "\<not> unsafe_entry_path (path_dir p)" using entries_okD(2)[OF ok] p d by blast+
  have "clean_elements p \<noteq> []" using portable_dot[OF safe(1)] ne by simp
  then have "strict_prefix (butlast (clean_elements p)) (clean_elements p)"
    by (cases "clean_elements p" rule: rev_cases) (auto simp: strict_prefix_def)
  then show "is_below (path_dir p) p" if "path_dir p \<noteq> ''.''"
    using below_elements[OF safe(2,1) that] path_dir_portable(1)[OF safe(1) ne] by simp
qed

lemma merge_entry_facts:
  assumes "entry_content e" "en_path e = p" "\<And>x. old = Some x \<Longrightarrow> entry_content x \<and> en_path x = p"
  shows "entry_content (merge_entry e old)" "en_path (merge_entry e old) = p" "en_kind (merge_entry e old) = en_kind e"
  using assms entry_kinds[OF assms(1)] entry_kinds
  by (cases old; auto simp: merge_entry_def entry_content_def)+

lemma overlaid_dot:
  assumes "\<not> unsafe_entry_path ''.''" and st: "entries_ok start" "entries_ok source"
  shows "overlaid source exclude start ''.'' = fmlookup start ''.''"
proof -
  have "\<not> displaced source exclude start ''.''"
    using entries_okD(2)[OF st(2)] below_elements[OF _ safe_dot] by (force simp: displaced_def copied_def)
  then show ?thesis by (simp add: overlaid_def copied_def)
qed

lemma overlaid_ok:
  assumes src: "entries_ok source" and st: "entries_ok start" "\<exists>r. fmlookup start ''.'' = Some r \<and> en_kind r = StateDirectory"
    and es: "\<And>p. fmlookup es p = overlaid source exclude start p"
  shows "entries_ok es"
  unfolding entries_ok_def
proof (intro allI impI)
  fix p e assume p: "fmlookup es p = Some e"
  have dot: "fmlookup es ''.'' = fmlookup start ''.''" using overlaid_dot[OF safe_dot st(1) src] es by simp
  have par: "has_directory_parent es p"
    if q: "p \<noteq> ''.''" "path_dir p \<noteq> ''.'' \<Longrightarrow> \<exists>d. overlaid source exclude start (path_dir p) = Some d \<and> en_kind d = StateDirectory"
    using q dot st(2) es by (cases "path_dir p = ''.''") (auto simp: has_directory_parent_def)
  show "en_path e = p \<and> \<not> unsafe_entry_path p \<and> entry_content e \<and> has_directory_parent es p"
  proof (cases "copied source exclude p")
    case True
    then obtain x where x: "fmlookup source p = Some x" and ne: "p \<noteq> ''.''" and ns: "\<not> skipped source exclude p"
      by (auto simp: copied_def)
    have e: "e = merge_entry x (fmlookup start p)" using p es True x by (simp add: overlaid_def)
    note m = merge_entry_facts[OF entries_okD(3,1)[OF src x], of "fmlookup start p"]
    have "\<exists>d. overlaid source exclude start (path_dir p) = Some d \<and> en_kind d = StateDirectory" if q: "path_dir p \<noteq> ''.''"
    proof -
      obtain d where d: "fmlookup source (path_dir p) = Some d" "en_kind d = StateDirectory" using parent_below(1)[OF src x ne] by auto
      have b: "is_below (path_dir p) p" by (rule parent_below(2)[OF src x ne q])
      have "\<not> skipped source exclude (path_dir p)" using ns d(1) q b below_trans[OF _ b] unfolding skipped_def by blast
      then have "copied source exclude (path_dir p)" using q d by (simp add: copied_def)
      then show ?thesis
        using d merge_entry_facts(3)[OF entries_okD(3,1)[OF src d(1)], of "fmlookup start (path_dir p)"] entries_okD(1,3)[OF st(1)]
        by (simp add: overlaid_def)
    qed
    then show ?thesis using par[OF ne] m entries_okD(1,3)[OF st(1)] entries_okD(2)[OF src x] e by blast
  next
    case False
    then have x: "fmlookup start p = Some e" and nd: "\<not> displaced source exclude start p"
      using p es by (auto simp: overlaid_def split: if_splits)
    have "\<exists>d. overlaid source exclude start (path_dir p) = Some d \<and> en_kind d = StateDirectory"
      if q: "path_dir p \<noteq> ''.''" and ne: "p \<noteq> ''.''"
    proof -
      obtain d where d: "fmlookup start (path_dir p) = Some d" "en_kind d = StateDirectory" using parent_below(1)[OF st(1) x ne] by auto
      have b: "is_below (path_dir p) p" by (rule parent_below(2)[OF st(1) x ne q])
      show ?thesis
      proof (cases "copied source exclude (path_dir p)")
        case True
        then obtain y where y: "fmlookup source (path_dir p) = Some y" by (auto simp: copied_def)
        have "en_kind y \<noteq> StateFile" using nd True b y d unfolding displaced_def by blast
        then have "en_kind y = StateDirectory" using entry_kinds[OF entries_okD(3)[OF src y]] by simp
        then show ?thesis
          using True y merge_entry_facts(3)[OF entries_okD(3,1)[OF src y], of "fmlookup start (path_dir p)"] entries_okD(1,3)[OF st(1)]
          by (simp add: overlaid_def)
      next
        case False
        have "\<not> displaced source exclude start (path_dir p)" using nd below_trans[OF _ b] unfolding displaced_def by blast
        then show ?thesis using False d by (simp add: overlaid_def)
      qed
    qed
    then show ?thesis using par x entries_okD[OF st(1) x] by (cases "p = ''.''") auto
  qed
qed

lemma desired_copy_directory:
  assumes "manifest sha prior" "manifest sha source" "fs_kind source = StateDirectory"
  shows "\<exists>d. desired_copy_state sha prior source exclude = Inr d \<and> manifest sha d \<and> fs_kind d = StateDirectory \<and>
     (\<forall>p. fmlookup (fs_entries d) p = overlaid (fs_entries source) exclude (copy_start prior) p)"
proof -
  note src = manifest_dir[OF assms(2,3)] and st = copy_start_ok[OF assms(1)]
  have "prior = absent_state sha \<or> fs_kind prior \<noteq> StateRegistryValue" using assms(1) by (auto simp: manifest_def split: state_kind.splits)
  then have start: "(if fs_kind prior = StateAbsent \<or> fs_kind prior = StateFile then fmupd ''.'' root_directory_entry fmempty
      else fs_entries prior) = copy_start prior"
    by (cases "fs_kind prior") (auto simp: copy_start_def absent_state_def)
  obtain es ex where run: "desired_copy_paths (fs_entries source) exclude (sorted_paths (fs_entries source)) (copy_start prior, []) = Inr (es, ex)"
    and "\<And>p. fmlookup es p = overlaid_to (fs_entries source) exclude (copy_start prior) (fmdom' (fs_entries source)) p"
    using desired_copy_paths_spec[OF src(1) st(1), of "[]" _ "copy_start prior" exclude "[]"]
    by (auto simp: overlaid_to_def excluded_roots_def)
  then have es: "fmlookup es p = overlaid (fs_entries source) exclude (copy_start prior) p" for p by (simp add: overlaid_all)
  obtain r where r: "fmlookup (copy_start prior) ''.'' = Some r" "en_kind r = StateDirectory" using st(2) by auto
  have dot: "fmlookup es ''.'' = Some r" using es overlaid_dot[OF safe_dot st(1) src(1)] r by simp
  let ?d = "with_digest sha StateDirectory (en_mode r) es"
  have "desired_copy_state sha prior source exclude = Inr ?d"
    using assms(3) run dot by (simp add: desired_copy_state_def start)
  moreover have "manifest sha ?d"
    using overlaid_ok[OF src(1) st es] dot r by (simp add: manifest_def with_digest_def)
  ultimately show ?thesis using es by (auto simp: with_digest_def)
qed

lemma desired_copy_file:
  assumes "manifest sha prior" "manifest sha source" "fs_kind source = StateFile"
  shows "\<exists>d. desired_copy_state sha prior source exclude = Inr d \<and> manifest sha d \<and> fs_kind d = StateFile"
proof -
  obtain e where e: "fmlookup (fs_entries source) ''.'' = Some e" "en_kind e = StateFile" and ok: "entries_ok (fs_entries source)"
    using assms(2,3) by (auto simp: manifest_def)
  have c: "entry_content e" "en_path e = ''.''" using entries_okD[OF ok e(1)] by auto
  then have c': "entry_content (e\<lparr>en_mode := perm m\<rparr>)" for m
    by (cases "en_kind e") (simp_all add: entry_content_def)
  show ?thesis
    using assms(3) e c c'[of "fs_mode prior"]
    by (auto simp: desired_copy_state_def manifest_def with_digest_def entries_ok_def Let_def)
qed

lemma desired_write_manifest:
  assumes "\<And>data. is_payload_hash (sha data)"
  shows "manifest sha (desired_write_state sha prior content)"
  using assms by (auto simp: desired_write_state_def manifest_def with_digest_def entries_ok_def file_entry_def
      entry_content_def default_file_mode_def Let_def)

section \<open>Digests\<close>

text \<open>The sizes a Go process can represent.\<close>

definition sized_entries :: "entries \<Rightarrow> bool" where
  "sized_entries es \<longleftrightarrow> size (fmdom es) < 2 ^ 64 \<and>
     (\<forall>p e. fmlookup es p = Some e \<longrightarrow> length p < 2 ^ 64 \<and> en_size e < 2 ^ 64)"

lemma digits_eq:
  "(\<And>i. i < k \<Longrightarrow> n div 256 ^ i mod 256 = m div 256 ^ i mod (256::nat)) \<Longrightarrow> n mod 256 ^ k = m mod 256 ^ k"
proof (induction k)
  case (Suc k)
  have "n mod 256 ^ k = m mod 256 ^ k" using Suc by simp
  moreover have "n div 256 ^ k mod 256 = m div 256 ^ k mod 256" using Suc.prems[of k] by simp
  moreover have "x mod 256 ^ Suc k = 256 ^ k * (x div 256 ^ k mod 256) + x mod 256 ^ k" for x :: nat
    using mod_mult2_eq[of x "256 ^ k" 256] by (simp add: mult.commute)
  ultimately show ?case by simp
qed simp

lemma put_uint64_inj: "n < 2 ^ 64 \<Longrightarrow> m < 2 ^ 64 \<Longrightarrow> put_uint64 n = put_uint64 m \<Longrightarrow> n = m"
proof -
  assume n: "n < 2 ^ 64" "m < 2 ^ 64" and eq: "put_uint64 n = put_uint64 m"
  have "n div 256 ^ i mod 256 = m div 256 ^ i mod 256" if "i < 8" for i
  proof -
    have "i \<in> set (rev [0..<8])" using that by simp
    then have "(char_of (n div 256 ^ i) :: char) = char_of (m div 256 ^ i)" using eq unfolding put_uint64_def map_eq_conv by blast
    then have "(of_char (char_of (n div 256 ^ i) :: char) :: nat) = of_char (char_of (m div 256 ^ i) :: char)" by simp
    then show ?thesis by (simp only: of_char_of)
  qed
  then have "n mod 256 ^ 8 = m mod 256 ^ 8" by (rule digits_eq)
  then show "n = m" using n by simp
qed

lemma put_uint64_append: "put_uint64 n @ r = put_uint64 m @ s \<Longrightarrow> n < 2 ^ 64 \<Longrightarrow> m < 2 ^ 64 \<Longrightarrow> n = m \<and> r = s"
proof -
  assume a: "put_uint64 n @ r = put_uint64 m @ s" "n < 2 ^ 64" "m < 2 ^ 64"
  have "length (put_uint64 n) = length (put_uint64 m)" by (simp add: put_uint64_def)
  then have "put_uint64 n = put_uint64 m \<and> r = s" using a(1) append_eq_append_conv by blast
  then show "n = m \<and> r = s" using put_uint64_inj[OF a(2,3)] by blast
qed

lemma digest_string_append:
  "digest_string a @ r = digest_string b @ s \<Longrightarrow> length a < 2 ^ 64 \<Longrightarrow> length b < 2 ^ 64 \<Longrightarrow> a = b \<and> r = s"
  unfolding digest_string_def by (metis append.assoc append_eq_append_conv put_uint64_append)

lemma kind_name_inj: "kind_name a = kind_name b \<longleftrightarrow> a = b"
  by (cases a; cases b) (simp_all add: kind_name_def)

lemma length_kind_name: "length (kind_name k) < 2 ^ 64"
  by (cases k) (simp_all add: kind_name_def)

lemma hash_length: "entry_content e \<Longrightarrow> length (en_hash e) < 2 ^ 64"
  by (cases "en_kind e") (auto simp: entry_content_def is_payload_hash_def)

lemma entry_sizes: "entry_content e \<Longrightarrow> 0 \<le> en_size e"
  by (cases "en_kind e") (auto simp: entry_content_def)

lemma digest_entry_append:
  assumes eq: "digest_entry a @ r = digest_entry b @ s"
    and a: "entry_content a" "length (en_path a) < 2 ^ 64" "en_size a < 2 ^ 64"
    and b: "entry_content b" "length (en_path b) < 2 ^ 64" "en_size b < 2 ^ 64"
  shows "a = b \<and> r = s"
proof -
  have small: "perm n < 2 ^ 64" for n by (rule less_trans[of _ 512]) simp_all
  have m: "nat (en_size x mod 2 ^ 64) = nat (en_size x)" "nat (en_size x) < 2 ^ 64"
    if "entry_content x" "en_size x < 2 ^ 64" for x
    using entry_sizes[OF that(1)] that(2) by (simp_all add: nat_less_iff)
  have "en_path a = en_path b" and t: "digest_string (kind_name (en_kind a)) @ put_uint64 (perm (en_mode a)) @
      put_uint64 (nat (en_size a)) @ digest_string (en_hash a) @ r =
    digest_string (kind_name (en_kind b)) @ put_uint64 (perm (en_mode b)) @ put_uint64 (nat (en_size b)) @ digest_string (en_hash b) @ s"
    using digest_string_append[OF eq[unfolded digest_entry_def append.assoc m(1)[OF a(1,3)] m(1)[OF b(1,3)]] a(2) b(2)] by blast+
  moreover have k: "en_kind a = en_kind b" and t2: "put_uint64 (perm (en_mode a)) @ put_uint64 (nat (en_size a)) @ digest_string (en_hash a) @ r =
    put_uint64 (perm (en_mode b)) @ put_uint64 (nat (en_size b)) @ digest_string (en_hash b) @ s"
    using digest_string_append[OF t length_kind_name length_kind_name] by (auto simp: kind_name_inj)
  moreover have p: "perm (en_mode a) = perm (en_mode b)" and t3: "put_uint64 (nat (en_size a)) @ digest_string (en_hash a) @ r =
    put_uint64 (nat (en_size b)) @ digest_string (en_hash b) @ s"
    using put_uint64_append[OF t2 small small] by auto
  moreover have "nat (en_size a) = nat (en_size b)" and t4: "digest_string (en_hash a) @ r = digest_string (en_hash b) @ s"
    using put_uint64_append[OF t3 m(2)[OF a(1,3)] m(2)[OF b(1,3)]] by auto
  moreover have "en_hash a = en_hash b" "r = s" using digest_string_append[OF t4 hash_length[OF a(1)] hash_length[OF b(1)]] by auto
  ultimately show ?thesis using a(1) b(1) entry_sizes[OF a(1)] entry_sizes[OF b(1)]
    by (cases a; cases b) (auto simp: entry_content_def)
qed

lemma digest_entries_inj:
  assumes "concat (map digest_entry xs) = concat (map digest_entry ys)" "length xs = length ys"
    and "\<And>e. e \<in> set xs \<union> set ys \<Longrightarrow> entry_content e \<and> length (en_path e) < 2 ^ 64 \<and> en_size e < 2 ^ 64"
  shows "xs = ys"
  using assms(2,1,3)
proof (induction xs ys rule: list_induct2)
  case (Cons x xs y ys)
  then show ?case using digest_entry_append[of x "concat (map digest_entry xs)" y "concat (map digest_entry ys)"] by simp
qed simp

lemma state_bytes_inj:
  assumes ok: "entries_ok a" "entries_ok b" and sz: "sized_entries a" "sized_entries b" and eq: "state_bytes k a = state_bytes l b"
  shows "k = l \<and> a = b"
proof -
  have "digest_string (kind_name k) @ put_uint64 (size (fmdom a)) @ concat (map digest_entry (sorted_entries a)) =
    digest_string (kind_name l) @ put_uint64 (size (fmdom b)) @ concat (map digest_entry (sorted_entries b))"
    using eq by (simp add: state_bytes_def)
  from digest_string_append[OF this length_kind_name length_kind_name]
  have k: "k = l" and t: "put_uint64 (size (fmdom a)) @ concat (map digest_entry (sorted_entries a)) =
      put_uint64 (size (fmdom b)) @ concat (map digest_entry (sorted_entries b))" by (auto simp: kind_name_inj)
  have "size (fmdom a) < 2 ^ 64" "size (fmdom b) < 2 ^ 64" using sz unfolding sized_entries_def by blast+
  from put_uint64_append[OF t this] have n: "size (fmdom a) = size (fmdom b)"
    and c: "concat (map digest_entry (sorted_entries a)) = concat (map digest_entry (sorted_entries b))" by auto
  have len: "length (sorted_entries es) = size (fmdom es)" for es :: entries
    by (simp add: sorted_entries_def sorted_list_of_fset.rep_eq)
  have "length (sorted_entries a) = length (sorted_entries b)" unfolding len by (rule n)
  then have "sorted_entries a = sorted_entries b"
  proof (rule digest_entries_inj[OF c])
    fix e assume "e \<in> set (sorted_entries a) \<union> set (sorted_entries b)"
    then obtain es p where "es \<in> {a, b}" "fmlookup es p = Some e" by (auto simp: set_sorted_entries)
    then show "entry_content e \<and> length (en_path e) < 2 ^ 64 \<and> en_size e < 2 ^ 64"
      using ok sz entries_okD(1,3) unfolding sized_entries_def by blast
  qed
  then have "a = b" using all_sorted_entries(1)[OF ok(1)] all_sorted_entries(1)[OF ok(2)] by metis
  then show ?thesis using k by blast
qed

lemma states_equal_states:
  assumes m: "manifest sha a" "manifest sha b" and sz: "sized_entries (fs_entries a)" "sized_entries (fs_entries b)"
    and eq: "states_equal a b"
  shows "a = b \<or> (\<exists>x y. x \<noteq> y \<and> sha x = sha y)"
proof (cases "fs_kind a = StateAbsent")
  case True
  then show ?thesis using m eq by (auto simp: states_equal_def manifest_def)
next
  case False
  have k: "fs_kind a = fs_kind b" using eq by (simp add: states_equal_def)
  have w: "entries_ok (fs_entries s) \<and> s = with_digest sha (fs_kind s) (fs_mode s) (fs_entries s) \<and>
      (\<exists>r. fmlookup (fs_entries s) ''.'' = Some r \<and> en_mode r = fs_mode s)" if "manifest sha s" "fs_kind s \<noteq> StateAbsent" for s
    using that by (cases "fs_kind s") (auto simp: manifest_def)
  have d: "sha (state_bytes (fs_kind a) (fs_entries a)) = sha (state_bytes (fs_kind b) (fs_entries b))"
  proof -
    have "fs_digest (with_digest sha (fs_kind a) (fs_mode a) (fs_entries a)) =
        fs_digest (with_digest sha (fs_kind b) (fs_mode b) (fs_entries b))"
      using w[OF m(1) False] w[OF m(2)] False k eq by (metis states_equal_def)
    then show ?thesis by (simp add: with_digest_def digest_filesystem_state_def)
  qed
  show ?thesis
  proof (cases "state_bytes (fs_kind a) (fs_entries a) = state_bytes (fs_kind b) (fs_entries b)")
    case True
    then have "fs_entries a = fs_entries b"
      using state_bytes_inj[OF _ _ sz] w[OF m(1) False] w[OF m(2)] False k by metis
    then show ?thesis using w[OF m(1) False] w[OF m(2)] False k by (metis option.inject)
  next
    case False
    then show ?thesis using d by blast
  qed
qed

end
