(* ===== verification/RestoreTypes.thy ===== *)
theory RestoreTypes
  imports RestoreStateProperties ConfigValidate
begin

text \<open>
  The data of a restore transaction (\<open>internal/configrestore\<close>: types.go, snapshot_types.go,
  journal_types.go, journal_format.go, transaction_types.go, registry_snapshot.go): actions,
  registry values, the journal and the state of a run. Strings with a closed vocabulary are
  datatypes; a journal with another word does not decode.
\<close>

section \<open>Actions\<close>

datatype action_kind = ActionCopy | ActionWriteFile | ActionDeleteFile | ActionRegistrySet

record registry_value =
  gv_key :: string
  gv_valueName :: string
  gv_valueType :: string
  gv_data :: string

record action =
  ac_kind :: action_kind
  ac_strategy :: string
  ac_source :: string
  ac_target :: string
  ac_sourceIsDirectory :: bool
  ac_exclude :: "string list"
  ac_desiredContent :: string
  ac_registryValue :: "registry_value option"
  ac_snapshotRequired :: bool

record prepared_action =
  pa_action :: action
  pa_prior :: state_record
  pa_desired :: state_record
  pa_sourceDigest :: string
  pa_missingParents :: "string list"

text \<open>Validations carry the host path they are resolved to.\<close>

record prepared_set =
  ps_snapshotRoot :: string
  ps_actions :: "prepared_action list"
  ps_validations :: "(validation_def \<times> string) list"

section \<open>Registry values\<close>

record registry_snapshot =
  gs_key :: string
  gs_valueName :: string
  gs_exists :: bool
  gs_valueType :: nat
  gs_data :: string

record registry_read =
  gr_exists :: bool
  gr_valueType :: nat
  gr_data :: string

text \<open>
  The registry by key and name, with the number of calls made on it. The three calls are code of
  the platform: functions of the arguments and the registry, which may fail and may change it.
\<close>

record registry =
  rg_values :: "(string \<times> string, nat \<times> string) fmap"
  rg_calls :: nat

record registry_mutator =
  rm_read :: "string \<Rightarrow> string \<Rightarrow> registry \<Rightarrow> (unit + registry_read) \<times> registry"
  rm_set :: "string \<Rightarrow> string \<Rightarrow> nat \<Rightarrow> string \<Rightarrow> registry \<Rightarrow> (unit + unit) \<times> registry"
  rm_delete :: "string \<Rightarrow> string \<Rightarrow> registry \<Rightarrow> (unit + unit) \<times> registry"

section \<open>The journal\<close>

datatype journal_state = JournalPending | JournalCommitted | JournalRolledBack
datatype validation_status = ValidationPending | ValidationNotRun | ValidationPassed | ValidationFailed
datatype rollback_outcome = RollbackNotAttempted | RollbackNotRequired | RollbackSucceeded

record journal_lineage =
  jl_runID :: string
  jl_captureID :: string
  jl_moduleID :: string
  jl_configSetID :: string
  jl_targetInstanceID :: string
  jl_sourceGeneration :: string
  jl_targetGeneration :: string
  jl_migrationPath :: "string list"
  jl_sourceGenerationFingerprint :: string
  jl_captureModuleRevision :: string
  jl_restoreModuleRevision :: string

record journal_action =
  ja_index :: int
  ja_kind :: action_kind
  ja_strategy :: string
  ja_target :: string
  ja_registryKey :: string
  ja_registryValueName :: string
  ja_missingParents :: "string list"
  ja_prior :: state_record
  ja_desired :: state_record
  ja_sourceDigest :: string

record journal_validation =
  jv_type :: string
  jv_path :: string
  jv_jsonPath :: string
  jv_section :: string
  jv_key :: string
  jv_hostPath :: string

record journal_intent =
  ji_transactionRoot :: string
  ji_path :: string
  ji_digest :: string
  ji_lineage :: journal_lineage
  ji_actions :: "journal_action list"
  ji_validations :: "journal_validation list"

record journal_marker =
  jm_path :: string
  jm_digest :: string
  jm_intentDigest :: string
  jm_state :: journal_state
  jm_validationStatus :: validation_status
  jm_rollbackOutcome :: rollback_outcome

text \<open>The fields an intent and a marker are digested over, and the decoded files.\<close>

record intent_identity =
  ii_format :: string
  ii_version :: int
  ii_state :: journal_state
  ii_lineage :: journal_lineage
  ii_actions :: "journal_action list"
  ii_validations :: "journal_validation list"
  ii_validationStatus :: validation_status
  ii_rollbackOutcome :: rollback_outcome

record intent_disk = intent_identity +
  ii_intentDigest :: string

record marker_identity =
  mi_format :: string
  mi_version :: int
  mi_intentDigest :: string
  mi_state :: journal_state
  mi_validationStatus :: validation_status
  mi_rollbackOutcome :: rollback_outcome

record marker_disk = marker_identity +
  mi_markerDigest :: string

text \<open>
  \<open>encoding/json\<close> on the structs of the journal: what \<open>Marshal\<close> writes, and what a decoder that
  disallows unknown fields and the end-of-input check make of a file (\<open>None\<close> is any error).
\<close>

record journal_codec =
  jc_encode_snapshot :: "registry_snapshot \<Rightarrow> string"
  jc_decode_snapshot :: "string \<Rightarrow> registry_snapshot option"
  jc_encode_intent_identity :: "intent_identity \<Rightarrow> string"
  jc_encode_intent :: "intent_disk \<Rightarrow> string"
  jc_decode_intent :: "string \<Rightarrow> intent_disk option"
  jc_encode_marker_identity :: "marker_identity \<Rightarrow> string"
  jc_encode_marker :: "marker_disk \<Rightarrow> string"
  jc_decode_marker :: "string \<Rightarrow> marker_disk option"

section \<open>The state of a transaction\<close>

datatype tx_error =
    TxCanceled | TxOs errno | TxRead path_error | TxState state_error
  | TxLink | TxNotDirectory | TxSpecialFile | TxUnsafeType | TxTooDeep
  | TxFileChanged | TxStateDiffers | TxParentExists | TxParentUnsafe | TxUnrelatedEntries
  | TxSourceChanged | TxContentDiffers | TxManifestDiffers | TxBackupInexact | TxUnclassified
  | TxRegistryMissing | TxRegistryRead | TxRegistryDiffers | TxRegistryValue
  | TxInput | TxJournal | TxAmbiguous | TxConflict | TxSnapshot | TxValidation validation_error
  | TxClosed | TxStore | TxReverted | TxJoined "tx_error list" | TxRecovery string tx_error

datatype tx_stage = StageCommit | StageValidation | StageRollback
datatype tx_progress = TxStarted | TxCompleted | TxFailed
datatype tx_reason = ReasonCommitFailed | ReasonTargetValidationFailed | ReasonJournalCompletionFailed

record tx_observation =
  ob_stage :: tx_stage
  ob_progress :: tx_progress
  ob_actionIndex :: int
  ob_validationIndex :: int
  ob_target :: string
  ob_reason :: "tx_reason option"
  ob_err :: "tx_error option"

record tx =
  tx_world :: world
  tx_canceled :: "bool list"
  tx_registry :: registry
  tx_touched :: "bool list"
  tx_began :: bool
  tx_observed :: "tx_observation list"

type_synonym 'a action_run = "(tx, tx_error, 'a) run"

text \<open>
  What the host provides: SHA-256 in hexadecimal, lower and upper case of strings not all ASCII, the
  number of elements of the longest path the kernel accepts, the registry calls (\<open>None\<close> when no
  mutator is given) and the codecs.
\<close>

record restore_host =
  rh_sha :: "string \<Rightarrow> string"
  rh_lower :: "string \<Rightarrow> string"
  rh_upper :: "string \<Rightarrow> string"
  rh_depth :: nat
  rh_registry :: "registry_mutator option"
  rh_journal :: journal_codec
  rh_json :: json_codec

end
