(* ===== verification/RestoreFiles.thy ===== *)
theory RestoreFiles
  imports RestoreTypes
begin

text \<open>
  The file operations of a restore transaction (\<open>internal/configrestore\<close>: target_links.go,
  filesystem_state.go, transaction_parents.go, transaction_filesystem.go, durable_unix.go,
  transaction_replace_unix.go), on a Unix host and without a host boundary, the nil case of
  \<open>HostBoundary\<close>.
\<close>

section \<open>Runs\<close>

definition tx_lift :: "('e, 'a) io \<Rightarrow> (tx, 'e, 'a) run" where
  "tx_lift m s = (case m (tx_world s) of (r, w) \<Rightarrow> (r, s\<lparr>tx_world := w\<rparr>))"

definition tx_os :: "(errno, 'a) io \<Rightarrow> 'a action_run" where
  "tx_os m = tx_lift (io_map_error TxOs m)"

definition tx_try :: "(errno, 'a) io \<Rightarrow> (errno + 'a) action_run" where
  "tx_try m = tx_lift (io_try m)"

text \<open>\<open>checkSnapshotContext\<close>; an exhausted list means that the context is never cancelled.\<close>

definition check_context :: "unit action_run" where
  "check_context s =
     (case tx_canceled s of [] \<Rightarrow> (Inr (), s)
      | b # bs \<Rightarrow> (if b then Inl TxCanceled else Inr (), s\<lparr>tx_canceled := bs\<rparr>))"

text \<open>\<open>context.WithoutCancel\<close>: the answers of the context are kept for the caller.\<close>

definition without_cancel :: "'a action_run \<Rightarrow> 'a action_run" where
  "without_cancel m s = (case m (s\<lparr>tx_canceled := []\<rparr>) of (r, s') \<Rightarrow> (r, s'\<lparr>tx_canceled := tx_canceled s\<rparr>))"

text \<open>\<open>defer\<close>: the clean-up always runs and its error is dropped.\<close>

definition io_finally :: "('s, 'e, 'a) run \<Rightarrow> ('s, 'f, unit) run \<Rightarrow> ('s, 'e, 'a) run" where
  "io_finally m c s = (case m s of (r, s') \<Rightarrow> (r, snd (c s')))"

fun io_fold :: "('a \<Rightarrow> 'b \<Rightarrow> ('s, 'e, 'b) run) \<Rightarrow> 'a list \<Rightarrow> 'b \<Rightarrow> ('s, 'e, 'b) run" where
  "io_fold f [] acc = io_return acc"
| "io_fold f (x # xs) acc = io_bind (f x acc) (io_fold f xs)"

section \<open>Calls\<close>

text \<open>\<open>os.ReadDir\<close>: the names in order.\<close>

definition child_names :: "tree \<Rightarrow> key \<Rightarrow> string list" where
  "child_names t k = map last (filter (\<lambda>j. length j = Suc (length k)) (below t k))"

definition read_dir :: "string \<Rightarrow> (errno, string list) io" where
  "read_dir p = query (\<lambda>t.
     case locate_final t p of Inl e \<Rightarrow> Inl e
     | Inr k \<Rightarrow> (case entry t k of None \<Rightarrow> Inl ENOENT | Some (Dir _) \<Rightarrow> Inr (child_names t k) | Some _ \<Rightarrow> Inl ENOTDIR))"

text \<open>\<open>syncUnixPath\<close>: opened without following a link, of the wanted type, then synced.\<close>

definition sync_unix_path :: "string \<Rightarrow> bool \<Rightarrow> (errno, unit) io" where
  "sync_unix_path p wantDirectory = query (\<lambda>t.
     case node_at t (locate t p) of
       Inl e \<Rightarrow> Inl e
     | Inr n \<Rightarrow>
         if is_link n then Inl ELOOP
         else if wantDirectory then (if is_dir n then Inr () else Inl ENOTDIR)
         else if is_regular n then Inr () else Inl EINVAL)"

definition sync_directory :: "string \<Rightarrow> (errno, unit) io" where
  "sync_directory p = sync_unix_path p True"

definition sync_durable_file :: "string \<Rightarrow> (errno, unit) io" where
  "sync_durable_file p = sync_unix_path p False"

section \<open>Links on the way to a target\<close>

fun target_links_in :: "string list \<Rightarrow> (tx_error, unit) io" where
  "target_links_in [] = io_return ()"
| "target_links_in (p # ps) =
     io_bind (io_try (lstat p)) (\<lambda>r.
       case r of
         Inl ENOENT \<Rightarrow> io_return ()
       | Inl e \<Rightarrow> io_fail (TxOs e)
       | Inr info \<Rightarrow>
           if is_link info then io_fail TxLink
           else if ps \<noteq> [] \<and> \<not> is_dir info then io_fail TxNotDirectory
           else target_links_in ps)"

definition reject_existing_target_links :: "string \<Rightarrow> unit action_run" where
  "reject_existing_target_links target = tx_lift (target_links_in (root_chain target))"

section \<open>Scanning\<close>

text \<open>The file is read in pieces of 64 KiB; the context is asked before every read.\<close>

definition hash_stable_regular_file :: "restore_host \<Rightarrow> string \<Rightarrow> node \<Rightarrow> (int \<times> string) action_run" where
  "hash_stable_regular_file h p expected =
     (if is_link expected \<or> \<not> is_regular expected then io_fail TxUnsafeType
      else io_bind (tx_os (open_file p)) (\<lambda>opened.
        if \<not> is_regular opened \<or> \<not> same_file expected opened then io_fail TxFileChanged
        else let data = file_data opened in
          io_then (io_each (\<lambda>_. check_context) (replicate (Suc ((length data + 65535) div 65536)) ()))
          (io_bind (tx_os (lstat p)) (\<lambda>current.
            if is_link current \<or> \<not> is_regular current \<or> \<not> same_file opened current \<or>
               length (file_data current) \<noteq> length data \<or> perm (node_mode current) \<noteq> perm (node_mode opened)
            then io_fail TxFileChanged
            else io_return (int (length data), rh_sha h data)))))"

fun scan_node :: "restore_host \<Rightarrow> nat \<Rightarrow> string \<Rightarrow> string \<Rightarrow> string \<Rightarrow> node \<Rightarrow> entries \<Rightarrow> entries action_run" where
  "scan_node h 0 root hostPath relative info es = io_fail TxTooDeep"
| "scan_node h (Suc depth) root hostPath relative info es =
     io_then check_context
     (if is_link info then io_fail TxLink
      else if is_regular info then
        io_bind (hash_stable_regular_file h hostPath info) (\<lambda>(size, hash).
          io_return (fmupd relative \<lparr>en_path = relative, en_kind = StateFile, en_mode = perm (node_mode info),
            en_size = size, en_hash = hash\<rparr> es))
      else if is_dir info then
        io_bind (tx_os (read_dir hostPath)) (\<lambda>names.
          io_fold (\<lambda>name es'.
              let childPath = join_path [hostPath, name] in
              io_then check_context
              (io_bind (tx_os (lstat childPath)) (\<lambda>childInfo.
                case rel_path root childPath of
                  None \<Rightarrow> io_fail TxUnsafeType
                | Some childRelative \<Rightarrow> scan_node h depth root childPath childRelative childInfo es')))
            names
            (fmupd relative \<lparr>en_path = relative, en_kind = StateDirectory, en_mode = perm (node_mode info),
               en_size = 0, en_hash = []\<rparr> es))
      else io_fail TxSpecialFile)"

definition scan_filesystem_state :: "restore_host \<Rightarrow> string \<Rightarrow> fs_state action_run" where
  "scan_filesystem_state h root =
     io_then check_context
     (io_then (reject_existing_target_links root)
     (io_bind (tx_try (lstat root)) (\<lambda>r.
       case r of
         Inl ENOENT \<Rightarrow> io_return (absent_state (rh_sha h))
       | Inl e \<Rightarrow> io_fail (TxOs e)
       | Inr info \<Rightarrow>
           io_bind (scan_node h (rh_depth h) root root ''.'' info fmempty) (\<lambda>es.
             let r = the (fmlookup es ''.'') in io_return (with_digest (rh_sha h) (en_kind r) (en_mode r) es)))))"

section \<open>Parent directories\<close>

fun missing_parents_from :: "string list \<Rightarrow> string list \<Rightarrow> (string list) action_run" where
  "missing_parents_from [] nearestFirst = io_fail TxParentUnsafe"
| "missing_parents_from (current # further) nearestFirst =
     io_bind (tx_try (lstat current)) (\<lambda>r.
       case r of
         Inr info \<Rightarrow> if \<not> is_dir info \<or> is_link info then io_fail TxParentUnsafe else io_return nearestFirst
       | Inl ENOENT \<Rightarrow> missing_parents_from further (nearestFirst @ [current])
       | Inl e \<Rightarrow> io_fail (TxOs e))"

text \<open>The parents of the target, nearest first, up to the root.\<close>

definition parent_chain :: "string \<Rightarrow> string list" where
  "parent_chain target =
     rev (map (\<lambda>n. key_path (take n (clean_elements target))) [0..<max 1 (length (clean_elements target))])"

definition find_missing_parents :: "string \<Rightarrow> (string list) action_run" where
  "find_missing_parents target =
     io_then (reject_existing_target_links target)
     (io_bind (missing_parents_from (parent_chain target) []) (\<lambda>nearestFirst. io_return (rev nearestFirst)))"

definition verify_missing_parents :: "string list \<Rightarrow> unit action_run" where
  "verify_missing_parents = io_each (\<lambda>parent.
     io_then (reject_existing_target_links parent)
     (io_bind (tx_try (lstat parent)) (\<lambda>r.
       case r of Inl ENOENT \<Rightarrow> io_return () | Inl e \<Rightarrow> io_fail (TxOs e) | Inr _ \<Rightarrow> io_fail TxParentExists)))"

definition verify_parent_state :: "string list \<Rightarrow> bool \<Rightarrow> unit action_run" where
  "verify_parent_state parents desired =
     (if \<not> desired then verify_missing_parents parents
      else io_each (\<lambda>parent.
        io_then (reject_existing_target_links parent)
        (io_bind (tx_try (lstat parent)) (\<lambda>r.
          case r of Inl _ \<Rightarrow> io_fail TxParentUnsafe
          | Inr info \<Rightarrow> if \<not> is_dir info \<or> is_link info then io_fail TxParentUnsafe else io_return ()))) parents)"

definition create_missing_parents :: "string list \<Rightarrow> unit action_run \<Rightarrow> unit action_run \<Rightarrow> unit action_run" where
  "create_missing_parents parents touch after =
     io_then (verify_missing_parents parents)
     (io_each (\<lambda>parent.
        io_then check_context
        (io_then (reject_existing_target_links parent)
        (io_bind (tx_try (lstat (dir_name parent))) (\<lambda>r.
          case r of Inl _ \<Rightarrow> io_fail TxParentUnsafe
          | Inr info \<Rightarrow>
              if \<not> is_dir info \<or> is_link info then io_fail TxParentUnsafe
              else io_then touch
                (io_then (tx_os (mkdir parent 493))
                (io_then (tx_os (chmod parent 493))
                (io_then (tx_os (sync_directory parent))
                (io_then (tx_os (sync_directory (dir_name parent)))
                  after))))))))
      parents)"

definition remove_recorded_parents :: "string list \<Rightarrow> unit action_run" where
  "remove_recorded_parents parents =
     io_each (\<lambda>parent.
        io_then check_context
        (io_then (reject_existing_target_links parent)
        (io_bind (tx_try (lstat parent)) (\<lambda>r.
          case r of
            Inl ENOENT \<Rightarrow> io_return ()
          | Inl _ \<Rightarrow> io_fail TxParentUnsafe
          | Inr info \<Rightarrow>
              if \<not> is_dir info \<or> is_link info then io_fail TxParentUnsafe
              else io_bind (tx_os (read_dir parent)) (\<lambda>names.
                if names \<noteq> [] then io_fail TxUnrelatedEntries
                else io_then (tx_os (remove parent)) (tx_os (sync_directory (dir_name parent))))))))
      (rev parents)"

section \<open>Changes of one target\<close>

definition no_touch :: "unit action_run" where "no_touch = io_return ()"

text \<open>\<open>removeSafeTransactionPath\<close>.\<close>

fun remove_safe :: "nat \<Rightarrow> string \<Rightarrow> unit action_run" where
  "remove_safe 0 target = io_fail TxTooDeep"
| "remove_safe (Suc depth) target =
     io_then check_context
     (io_then (reject_existing_target_links target)
     (io_bind (tx_try (lstat target)) (\<lambda>r.
       case r of
         Inl ENOENT \<Rightarrow> io_return ()
       | Inl e \<Rightarrow> io_fail (TxOs e)
       | Inr info \<Rightarrow>
           if is_link info then io_fail TxLink
           else io_then
             (if is_dir info then io_bind (tx_os (read_dir target)) (io_each (\<lambda>name. remove_safe depth (join_path [target, name])))
              else if \<not> is_regular info then io_fail TxSpecialFile
              else io_return ())
             (io_then (reject_existing_target_links target)
             (io_then (tx_os (remove target))
               (tx_os (sync_directory (dir_name target))))))))"

definition remove_safe_path :: "restore_host \<Rightarrow> string \<Rightarrow> unit action_run" where
  "remove_safe_path h target = remove_safe (rh_depth h) target"

definition prepare_file_destination :: "restore_host \<Rightarrow> string \<Rightarrow> unit action_run \<Rightarrow> unit action_run \<Rightarrow> unit action_run" where
  "prepare_file_destination h target touch after =
     io_then check_context
     (io_then (reject_existing_target_links target)
     (io_bind (tx_try (lstat target)) (\<lambda>r.
       case r of
         Inl ENOENT \<Rightarrow> io_return ()
       | Inl e \<Rightarrow> io_fail (TxOs e)
       | Inr info \<Rightarrow>
           if is_regular info then io_return ()
           else if \<not> is_dir info then io_fail TxUnsafeType
           else io_then touch (io_then (remove_safe_path h target) after))))"

definition verify_entry_data :: "restore_host \<Rightarrow> state_entry \<Rightarrow> string \<Rightarrow> unit action_run" where
  "verify_entry_data h e data =
     io_when (en_size e \<noteq> int (length data) \<or> en_hash e \<noteq> rh_sha h data) TxContentDiffers"

definition replace_transaction_file :: "string \<Rightarrow> string \<Rightarrow> unit action_run" where
  "replace_transaction_file temporary destination =
     io_then (tx_os (rename temporary destination)) (tx_os (sync_directory (dir_name destination)))"

definition write_temporary ::
    "string \<Rightarrow> string \<Rightarrow> string \<Rightarrow> nat \<Rightarrow> unit action_run \<Rightarrow> unit action_run \<Rightarrow> unit action_run" where
  "write_temporary temporary destination data mode touch after =
     io_then (tx_os (chmod temporary (perm mode)))
     (io_then (tx_os (write_file temporary data))
     (io_then (tx_os (sync_file temporary))
     (io_then check_context
     (io_then (reject_existing_target_links destination)
     (io_then touch
     (io_then (replace_transaction_file temporary destination)
       after))))))"

definition atomic_write_transaction_file ::
    "string \<Rightarrow> string \<Rightarrow> nat \<Rightarrow> unit action_run \<Rightarrow> unit action_run \<Rightarrow> unit action_run" where
  "atomic_write_transaction_file destination data mode touch after =
     io_then check_context
     (io_then (reject_existing_target_links (dir_name destination))
     (io_bind (tx_try (lstat (dir_name destination))) (\<lambda>r.
       case r of Inl _ \<Rightarrow> io_fail TxParentUnsafe
       | Inr info \<Rightarrow>
           if \<not> is_dir info \<or> is_link info then io_fail TxParentUnsafe
           else io_bind (tx_os (create_temp (dir_name destination) ''.endstate-transaction-'')) (\<lambda>temporary.
             io_finally (write_temporary temporary destination data mode touch after)
               (tx_os (remove temporary))))))"

text \<open>
  A regular file is removed and the function starts again; only another process can put a file
  there once more, so it starts again at most once for every event that is left, and one time.
\<close>

fun ensure_directory ::
    "restore_host \<Rightarrow> nat \<Rightarrow> string \<Rightarrow> nat \<Rightarrow> unit action_run \<Rightarrow> unit action_run \<Rightarrow> unit action_run" where
  "ensure_directory h 0 p mode touch after = io_fail TxTooDeep"
| "ensure_directory h (Suc again) p mode touch after =
     io_then check_context
     (io_then (reject_existing_target_links p)
     (io_bind (tx_try (lstat p)) (\<lambda>r.
       case r of
         Inl ENOENT \<Rightarrow>
           io_bind (tx_try (lstat (dir_name p))) (\<lambda>pr.
             case pr of Inl _ \<Rightarrow> io_fail TxParentUnsafe
             | Inr parentInfo \<Rightarrow>
                 if \<not> is_dir parentInfo \<or> is_link parentInfo then io_fail TxParentUnsafe
                 else io_then touch
                   (io_then (tx_os (mkdir p 448))
                   (io_then (tx_os (chmod p (perm mode)))
                   (io_then (tx_os (sync_directory p))
                   (io_then (tx_os (sync_directory (dir_name p)))
                     after)))))
       | Inl e \<Rightarrow> io_fail (TxOs e)
       | Inr info \<Rightarrow>
           if \<not> is_dir info then
             if \<not> is_regular info then io_fail TxUnsafeType
             else io_then touch
               (io_then (remove_safe_path h p)
               (io_then after
                 (ensure_directory h again p mode touch after)))
           else if perm (node_mode info) \<noteq> perm mode then
             io_then (reject_existing_target_links p)
             (io_then touch
             (io_then (tx_os (chmod p (perm mode)))
             (io_then (tx_os (sync_directory p))
               after)))
           else io_return ())))"

definition events_left :: "nat action_run" where
  "events_left s = (Inr (length (w_events (tx_world s))), s)"

definition ensure_transaction_directory ::
    "restore_host \<Rightarrow> string \<Rightarrow> nat \<Rightarrow> unit action_run \<Rightarrow> unit action_run \<Rightarrow> unit action_run" where
  "ensure_transaction_directory h p mode touch after =
     io_bind events_left (\<lambda>n. ensure_directory h (n + 2) p mode touch after)"

definition remove_transaction_file :: "string \<Rightarrow> unit action_run \<Rightarrow> unit action_run \<Rightarrow> unit action_run" where
  "remove_transaction_file target touch after =
     io_then check_context
     (io_then (reject_existing_target_links target)
     (io_bind (tx_try (lstat target)) (\<lambda>r.
       case r of
         Inl ENOENT \<Rightarrow> io_return ()
       | Inl e \<Rightarrow> io_fail (TxOs e)
       | Inr info \<Rightarrow>
           if \<not> is_regular info then io_fail TxUnsafeType
           else io_then touch
             (io_then (tx_os (remove target))
             (io_then (tx_os (sync_directory (dir_name target)))
               after)))))"

end
