(* ===== verification/RestoreActions.thy ===== *)
theory RestoreActions
  imports RestoreFiles
begin

text \<open>
  The commit and the rollback of one action (\<open>internal/configrestore\<close>: registry_snapshot.go,
  transaction_registry.go, transaction_state.go, transaction_filesystem.go and
  transaction_classification.go).
\<close>

section \<open>Registry snapshots\<close>

definition digest_registry_snapshot :: "restore_host \<Rightarrow> registry_snapshot \<Rightarrow> string" where
  "digest_registry_snapshot h s =
     rh_sha h (digest_string ''endstate-registry-state-v1'' @ digest_string (to_lower (rh_lower h) (gs_key s)) @
       digest_string (to_lower (rh_lower h) (gs_valueName s)) @
       (if \<not> gs_exists s then digest_string ''absent''
        else digest_string ''value'' @ put_uint64 (gs_valueType s) @ put_uint64 (length (gs_data s)) @ gs_data s))"

text \<open>
  \<open>strconv.ParseUint\<close> with 32 bits: decimal, or hexadecimal after \<open>0x\<close>, where underscores may
  separate digits.
\<close>

fun hex_value :: "nat \<Rightarrow> string \<Rightarrow> nat option" where
  "hex_value n [] = Some n"
| "hex_value n (c # cs) =
     (if c = CHR ''_'' then hex_value n cs
      else (case hex_digit c of None \<Rightarrow> None | Some d \<Rightarrow> hex_value (16 * n + d) cs))"

definition bad_underscores :: "string \<Rightarrow> bool" where
  "bad_underscores ds \<longleftrightarrow> ds \<noteq> [] \<and> last ds = CHR ''_'' \<or> contains_str ''__'' ds"

definition parse_dword :: "string \<Rightarrow> nat option" where
  "parse_dword value =
     (let t = trim_space value;
          n = (if prefix ''0x'' t \<or> prefix ''0X'' t
               then (if drop 2 t = [] \<or> bad_underscores (drop 2 t) then None else hex_value 0 (drop 2 t))
               else if t \<noteq> [] \<and> list_all is_digit t then Some (digits_value 0 t) else None) in
      case n of None \<Rightarrow> None | Some v \<Rightarrow> if v < 2 ^ 32 then Some v else None)"

text \<open>\<open>[]rune(s)\<close> and \<open>utf16.Encode\<close>.\<close>

function runes :: "string \<Rightarrow> nat list" where
  "runes s = (if s = [] then [] else rune_value s # runes (drop (max 1 (rune_width s)) s))"
  by auto
termination by (relation "measure length") auto

declare runes.simps [simp del]

definition utf16_units :: "nat \<Rightarrow> nat list" where
  "utf16_units r = (if r < 65536 then [r] else [55296 + (r - 65536) div 1024, 56320 + (r - 65536) mod 1024])"

definition little_endian :: "nat \<Rightarrow> nat \<Rightarrow> string" where
  "little_endian width n = map (\<lambda>i. char_of (n div 256 ^ i)) [0..<width]"

definition utf16_bytes :: "string \<Rightarrow> string" where
  "utf16_bytes s = concat (map (little_endian 2) (concat (map utf16_units (runes s))))"

definition ascii_upper :: "char \<Rightarrow> char" where
  "ascii_upper c = (if is_lower c then char_of (byte c - 32) else c)"

definition to_upper :: "(string \<Rightarrow> string) \<Rightarrow> string \<Rightarrow> string" where
  "to_upper uu s = (if list_all (\<lambda>c. byte c < 128) s then map ascii_upper s else uu s)"

definition desired_registry_snapshot :: "(string \<Rightarrow> string) \<Rightarrow> registry_value \<Rightarrow> registry_snapshot option" where
  "desired_registry_snapshot uu value =
     (let valueType = to_upper uu (trim_space (gv_valueType value));
          mk = (\<lambda>typ raw. \<lparr>gs_key = gv_key value, gs_valueName = gv_valueName value, gs_exists = True,
                 gs_valueType = typ, gs_data = raw\<rparr>) in
      if valueType = ''REG_DWORD'' then map_option (\<lambda>n. mk 4 (little_endian 4 n)) (parse_dword (gv_data value))
      else if valueType = ''REG_SZ'' then Some (mk 1 (utf16_bytes (gv_data value @ [NUL])))
      else if valueType = ''REG_EXPAND_SZ'' then Some (mk 2 (utf16_bytes (gv_data value @ [NUL])))
      else None)"

definition tx_registry_call :: "(registry \<Rightarrow> (unit + 'a) \<times> registry) \<Rightarrow> tx_error \<Rightarrow> 'a action_run" where
  "tx_registry_call f e s =
     (case f (tx_registry s) of (r, g) \<Rightarrow>
        (map_sum (\<lambda>_. e) id r, s\<lparr>tx_registry := g\<lparr>rg_calls := Suc (rg_calls (tx_registry s))\<rparr>\<rparr>))"

definition read_transaction_registry_snapshot :: "registry_mutator \<Rightarrow> string \<Rightarrow> string \<Rightarrow> registry_snapshot action_run" where
  "read_transaction_registry_snapshot m key valueName =
     io_then check_context
     (io_bind (tx_registry_call (rm_read m key valueName) TxRegistryRead) (\<lambda>r.
       if \<not> gr_exists r \<and> (gr_valueType r \<noteq> 0 \<or> gr_data r \<noteq> []) then io_fail TxRegistryRead
       else io_return \<lparr>gs_key = key, gs_valueName = valueName, gs_exists = gr_exists r,
         gs_valueType = gr_valueType r, gs_data = gr_data r\<rparr>))"

definition registry_snapshots_equal :: "registry_snapshot \<Rightarrow> registry_snapshot \<Rightarrow> bool" where
  "registry_snapshots_equal l r \<longleftrightarrow> l = r"

definition load_registry_snapshot :: "restore_host \<Rightarrow> string \<Rightarrow> registry_snapshot action_run" where
  "load_registry_snapshot h p =
     io_bind (tx_lift (io_map_error TxRead (read_regular_file p))) (\<lambda>(written, mode).
       if perm mode \<noteq> 384 then io_fail TxSnapshot
       else (case jc_decode_snapshot (rh_journal h) written of None \<Rightarrow> io_fail TxSnapshot | Some s \<Rightarrow> io_return s))"

definition persist_registry_snapshot :: "restore_host \<Rightarrow> string \<Rightarrow> registry_snapshot \<Rightarrow> unit action_run" where
  "persist_registry_snapshot h p snapshot =
     io_then (tx_lift (io_map_error TxRead
       (atomic_write_file p (jc_encode_snapshot (rh_journal h) snapshot @ [LF]) 384)))
     (io_bind (load_registry_snapshot h p) (\<lambda>verified.
       if registry_snapshots_equal snapshot verified then io_return () else io_fail TxSnapshot))"

section \<open>Verification of an action\<close>

definition registry_of :: "restore_host \<Rightarrow> registry_mutator action_run" where
  "registry_of h = (case rh_registry h of None \<Rightarrow> io_fail TxRegistryMissing | Some m \<Rightarrow> io_return m)"

definition journal_state_run :: "restore_host \<Rightarrow> state_record \<Rightarrow> fs_state action_run" where
  "journal_state_run h r = io_map_error TxState (io_of (journal_filesystem_state (rh_sha h) r))"

definition verify_action_state :: "restore_host \<Rightarrow> journal_action \<Rightarrow> bool \<Rightarrow> unit action_run" where
  "verify_action_state h a desired =
     (let want = (if desired then ja_desired a else ja_prior a) in
      if ja_kind a = ActionRegistrySet then
        io_bind (registry_of h) (\<lambda>m.
        io_bind (read_transaction_registry_snapshot m (ja_registryKey a) (ja_registryValueName a)) (\<lambda>actual.
          if (if gs_exists actual then StateRegistryValue else StateAbsent) \<noteq> rc_kind want \<or>
             digest_registry_snapshot h actual \<noteq> rc_digest want
          then io_fail TxStateDiffers else io_return ()))
      else
        io_then (verify_parent_state (ja_missingParents a) desired)
        (io_bind (scan_filesystem_state h (ja_target a)) (\<lambda>actual.
        io_bind (journal_state_run h want) (\<lambda>expected.
          if states_equal actual expected then io_return () else io_fail TxStateDiffers))))"

definition verify_all_states :: "restore_host \<Rightarrow> journal_action list \<Rightarrow> bool \<Rightarrow> unit action_run" where
  "verify_all_states h actions desired = io_each (\<lambda>a. verify_action_state h a desired) actions"

section \<open>Commit\<close>

definition entry_at :: "entries \<Rightarrow> string \<Rightarrow> state_entry" where
  "entry_at es p = the (fmlookup es p)"

text \<open>One path of a directory copy; the excluded directories are threaded through.\<close>

definition commit_copy_path ::
    "restore_host \<Rightarrow> action \<Rightarrow> fs_state \<Rightarrow> fs_state \<Rightarrow> unit action_run \<Rightarrow> unit action_run \<Rightarrow>
     string \<Rightarrow> string list \<Rightarrow> (string list) action_run" where
  "commit_copy_path h a source desired touch after relative excluded =
     (if relative = ''.'' \<or> has_excluded_ancestor relative excluded then io_return excluded
      else let sourceEntry = entry_at (fs_entries source) relative in
        if copy_path_excluded relative (ac_exclude a) then
          io_return (if en_kind sourceEntry = StateDirectory then excluded @ [relative] else excluded)
        else (case fmlookup (fs_entries desired) relative of
            None \<Rightarrow> io_fail TxManifestDiffers
          | Some desiredEntry \<Rightarrow>
              if en_kind desiredEntry \<noteq> en_kind sourceEntry then io_fail TxManifestDiffers
              else let sourcePath = join_path [ac_source a, relative]; targetPath = join_path [ac_target a, relative] in
                (case en_kind sourceEntry of
                   StateDirectory \<Rightarrow>
                     io_then (ensure_transaction_directory h targetPath (en_mode desiredEntry) touch after) (io_return excluded)
                 | StateFile \<Rightarrow>
                     io_bind (tx_lift (io_map_error TxRead (read_regular_file sourcePath))) (\<lambda>(data, _).
                     io_then (verify_entry_data h sourceEntry data)
                     (io_then (prepare_file_destination h targetPath touch after)
                     (io_then (atomic_write_transaction_file targetPath data (en_mode desiredEntry) touch after)
                       (io_return excluded))))
                 | _ \<Rightarrow> io_fail TxManifestDiffers)))"

definition commit_directory_copy ::
    "restore_host \<Rightarrow> action \<Rightarrow> fs_state \<Rightarrow> fs_state \<Rightarrow> unit action_run \<Rightarrow> unit action_run \<Rightarrow> unit action_run" where
  "commit_directory_copy h a source desired touch after =
     (case fmlookup (fs_entries desired) ''.'' of
        None \<Rightarrow> io_fail TxManifestDiffers
      | Some rootEntry \<Rightarrow>
          if en_kind rootEntry \<noteq> StateDirectory then io_fail TxManifestDiffers
          else io_then (ensure_transaction_directory h (ac_target a) (en_mode rootEntry) touch after)
            (io_bind (io_fold (commit_copy_path h a source desired touch after) (sorted_paths (fs_entries source)) [])
              (\<lambda>_. io_return ())))"

definition commit_copy_action ::
    "restore_host \<Rightarrow> action \<Rightarrow> journal_action \<Rightarrow> unit action_run \<Rightarrow> unit action_run \<Rightarrow> unit action_run" where
  "commit_copy_action h a j touch after =
     io_bind (scan_filesystem_state h (ac_source a)) (\<lambda>source.
       if fs_digest source \<noteq> ja_sourceDigest j then io_fail TxSourceChanged
       else io_bind (journal_state_run h (ja_desired j)) (\<lambda>desired.
         io_then
           (case fs_kind source of
              StateFile \<Rightarrow>
                io_bind (tx_lift (io_map_error TxRead (read_regular_file (ac_source a)))) (\<lambda>(data, _).
                io_then (verify_entry_data h (entry_at (fs_entries source) ''.'') data)
                (io_then (prepare_file_destination h (ac_target a) touch after)
                  (atomic_write_transaction_file (ac_target a) data (fs_mode desired) touch after)))
            | StateDirectory \<Rightarrow> commit_directory_copy h a source desired touch after
            | _ \<Rightarrow> io_fail TxManifestDiffers)
           (io_bind (scan_filesystem_state h (ac_source a)) (\<lambda>currentSource.
             if fs_digest currentSource \<noteq> ja_sourceDigest j then io_fail TxSourceChanged else io_return ()))))"

definition commit_registry_action ::
    "restore_host \<Rightarrow> action \<Rightarrow> journal_action \<Rightarrow> unit action_run \<Rightarrow> unit action_run \<Rightarrow> unit action_run" where
  "commit_registry_action h a j touch after =
     (case (rh_registry h, ac_registryValue a) of
        (Some m, Some value) \<Rightarrow>
          (case desired_registry_snapshot (rh_upper h) value of
             None \<Rightarrow> io_fail TxRegistryValue
           | Some desired \<Rightarrow>
               if gs_key desired \<noteq> ja_registryKey j \<or> gs_valueName desired \<noteq> ja_registryValueName j \<or>
                  digest_registry_snapshot h desired \<noteq> rc_digest (ja_desired j) then io_fail TxRegistryDiffers
               else io_then check_context
                 (io_then touch
                 (io_then (tx_registry_call (rm_set m (gs_key desired) (gs_valueName desired) (gs_valueType desired) (gs_data desired)) TxRegistryValue)
                   after)))
      | _ \<Rightarrow> io_fail TxRegistryMissing)"

definition execute_transaction_action ::
    "restore_host \<Rightarrow> prepared_action \<Rightarrow> journal_action \<Rightarrow> unit action_run \<Rightarrow> unit action_run \<Rightarrow> unit action_run" where
  "execute_transaction_action h p j touch after =
     (let a = pa_action p in
      io_then (if ac_kind a \<noteq> ActionRegistrySet then create_missing_parents (ja_missingParents j) touch after else io_return ())
      (case ac_kind a of
         ActionCopy \<Rightarrow> commit_copy_action h a j touch after
       | ActionWriteFile \<Rightarrow>
           io_bind (journal_state_run h (ja_desired j)) (\<lambda>desired.
           io_bind (journal_state_run h (ja_prior j)) (\<lambda>prior.
             if \<not> states_equal (desired_write_state (rh_sha h) prior (ac_desiredContent a)) desired then io_fail TxContentDiffers
             else atomic_write_transaction_file (ac_target a) (ac_desiredContent a) (fs_mode desired) touch after))
       | ActionDeleteFile \<Rightarrow> remove_transaction_file (ac_target a) touch after
       | ActionRegistrySet \<Rightarrow> commit_registry_action h a j touch after))"

section \<open>Classification of what a rollback finds\<close>

datatype rollback_class = RollbackPrior | RollbackDesired | RollbackProvablePartial

definition entries_equal :: "state_entry \<Rightarrow> state_entry \<Rightarrow> bool" where
  "entries_equal l r \<longleftrightarrow> en_path l = en_path r \<and> en_kind l = en_kind r \<and> perm (en_mode l) = perm (en_mode r) \<and>
     en_size l = en_size r \<and> en_hash l = en_hash r"

definition state_from_entries :: "(string \<Rightarrow> string) \<Rightarrow> entries \<Rightarrow> fs_state" where
  "state_from_entries sha es =
     (case fmlookup es ''.'' of None \<Rightarrow> absent_state sha | Some r \<Rightarrow> with_digest sha (en_kind r) (perm (en_mode r)) es)"

definition portable_within :: "string \<Rightarrow> string \<Rightarrow> bool" where
  "portable_within root candidate \<longleftrightarrow>
     (if root = ''.'' then candidate \<noteq> ''.'' else candidate \<noteq> root \<and> is_below root candidate)"

text \<open>Children before their parent; the number of entries bounds the depth.\<close>

fun removal_visit :: "entries \<Rightarrow> string \<Rightarrow> nat \<Rightarrow> string \<Rightarrow> string list" where
  "removal_visit es root 0 p = [p]"
| "removal_visit es root (Suc n) p =
     concat (map (removal_visit es root n)
       (filter (\<lambda>c. c \<noteq> root \<and> portable_within root c \<and> path_dir c = p) (sorted_list_of_fset (fmdom es)))) @ [p]"

definition removal_order :: "entries \<Rightarrow> string \<Rightarrow> string list" where
  "removal_order es root = removal_visit es root (size (fmdom es)) root"

text \<open>The entries are changed as the commit changes them; \<open>True\<close> when the actual state is met.\<close>

definition meets :: "(string \<Rightarrow> string) \<Rightarrow> fs_state \<Rightarrow> entries \<Rightarrow> bool \<times> entries" where
  "meets sha actual es = (states_equal actual (state_from_entries sha es), es)"

definition or_else :: "bool \<times> entries \<Rightarrow> (entries \<Rightarrow> bool \<times> entries) \<Rightarrow> bool \<times> entries" where
  "or_else r k = (if fst r then r else k (snd r))"

fun partial_removals :: "(string \<Rightarrow> string) \<Rightarrow> fs_state \<Rightarrow> string list \<Rightarrow> entries \<Rightarrow> bool \<times> entries" where
  "partial_removals sha actual [] es = (False, es)"
| "partial_removals sha actual (p # ps) es = or_else (meets sha actual (fmdrop p es)) (partial_removals sha actual ps)"

definition partial_remove :: "(string \<Rightarrow> string) \<Rightarrow> fs_state \<Rightarrow> string \<Rightarrow> entries \<Rightarrow> bool \<times> entries" where
  "partial_remove sha actual p es = partial_removals sha actual (removal_order es p) es"

definition partial_create :: "(string \<Rightarrow> string) \<Rightarrow> fs_state \<Rightarrow> string \<Rightarrow> state_entry \<Rightarrow> entries \<Rightarrow> bool \<times> entries" where
  "partial_create sha actual p e es =
     or_else (meets sha actual (fmupd p (e\<lparr>en_mode := 448\<rparr>) es)) (\<lambda>es'. meets sha actual (fmupd p e es'))"

definition partial_directory :: "(string \<Rightarrow> string) \<Rightarrow> fs_state \<Rightarrow> string \<Rightarrow> state_entry \<Rightarrow> entries \<Rightarrow> bool \<times> entries" where
  "partial_directory sha actual p e es =
     (case fmlookup es p of
        None \<Rightarrow> partial_create sha actual p e es
      | Some existing \<Rightarrow>
          (case en_kind existing of
             StateFile \<Rightarrow> or_else (partial_remove sha actual p es) (partial_create sha actual p e)
           | StateDirectory \<Rightarrow> if entries_equal existing e then (False, es) else meets sha actual (fmupd p e es)
           | _ \<Rightarrow> partial_create sha actual p e es))"

fun partial_paths :: "(string \<Rightarrow> string) \<Rightarrow> fs_state \<Rightarrow> entries \<Rightarrow> string list \<Rightarrow> entries \<Rightarrow> bool" where
  "partial_paths sha actual desired [] es = False"
| "partial_paths sha actual desired (p # ps) es =
     (let e = entry_at desired p; current = fmlookup es p in
      if p = ''.'' \<or> (case current of None \<Rightarrow> False | Some c \<Rightarrow> entries_equal c e) then partial_paths sha actual desired ps es
      else let r =
        (case en_kind e of
           StateDirectory \<Rightarrow> Some (partial_directory sha actual p e es)
         | StateFile \<Rightarrow>
             Some (or_else
               (if (case current of None \<Rightarrow> False | Some c \<Rightarrow> en_kind c = StateDirectory)
                then partial_remove sha actual p es else (False, es))
               (\<lambda>es'. meets sha actual (fmupd p e es')))
         | _ \<Rightarrow> None) in
        (case r of None \<Rightarrow> False
         | Some (True, _) \<Rightarrow> True
         | Some (False, es') \<Rightarrow> partial_paths sha actual desired ps es'))"

definition is_provable_partial :: "(string \<Rightarrow> string) \<Rightarrow> fs_state \<Rightarrow> fs_state \<Rightarrow> fs_state \<Rightarrow> bool" where
  "is_provable_partial sha actual prior desired =
     (case fs_kind desired of
        StateFile \<Rightarrow>
          fst (or_else
            (if fs_kind prior = StateDirectory then partial_remove sha actual ''.'' (fs_entries prior) else (False, fs_entries prior))
            (\<lambda>_. meets sha actual (fs_entries desired)))
      | StateDirectory \<Rightarrow>
          (let r = or_else
             (if fs_kind prior = StateFile then partial_remove sha actual ''.'' (fs_entries prior) else (False, fs_entries prior))
             (\<lambda>es. if fs_kind prior \<noteq> StateDirectory
                   then partial_directory sha actual ''.'' (entry_at (fs_entries desired) ''.'') es else (False, es)) in
           fst r \<or> partial_paths sha actual (fs_entries desired) (sorted_paths (fs_entries desired)) (snd r))
      | _ \<Rightarrow> False)"

definition classify_filesystem_rollback :: "restore_host \<Rightarrow> journal_action \<Rightarrow> (rollback_class \<times> fs_state) action_run" where
  "classify_filesystem_rollback h a =
     io_bind (journal_state_run h (ja_prior a)) (\<lambda>prior.
     io_bind (journal_state_run h (ja_desired a)) (\<lambda>desired.
     io_bind (scan_filesystem_state h (ja_target a)) (\<lambda>actual.
       if states_equal actual prior then io_return (RollbackPrior, actual)
       else if states_equal actual desired then io_return (RollbackDesired, actual)
       else if is_provable_partial (rh_sha h) actual prior desired then io_return (RollbackProvablePartial, actual)
       else io_fail TxUnclassified)))"

definition classify_registry_rollback :: "restore_host \<Rightarrow> registry_mutator \<Rightarrow> journal_action \<Rightarrow> rollback_class action_run" where
  "classify_registry_rollback h m a =
     io_bind (read_transaction_registry_snapshot m (ja_registryKey a) (ja_registryValueName a)) (\<lambda>actual.
       let digest = digest_registry_snapshot h actual in
       if digest = rc_digest (ja_prior a) \<and> gs_exists actual = (rc_kind (ja_prior a) = StateRegistryValue) then io_return RollbackPrior
       else if digest = rc_digest (ja_desired a) \<and> gs_exists actual = (rc_kind (ja_desired a) = StateRegistryValue)
       then io_return RollbackDesired
       else io_fail TxUnclassified)"

section \<open>Rollback\<close>

definition rollback_registry_action :: "restore_host \<Rightarrow> journal_action \<Rightarrow> unit action_run" where
  "rollback_registry_action h a =
     io_bind (registry_of h) (\<lambda>m.
     io_bind (load_registry_snapshot h (rc_backup (ja_prior a))) (\<lambda>prior.
       if gs_key prior \<noteq> ja_registryKey a \<or> gs_valueName prior \<noteq> ja_registryValueName a \<or>
          digest_registry_snapshot h prior \<noteq> rc_digest (ja_prior a) then io_fail TxRegistryDiffers
       else io_bind (classify_registry_rollback h m a) (\<lambda>c.
         if c = RollbackPrior then io_return ()
         else io_then check_context
           (if \<not> gs_exists prior
            then tx_registry_call (rm_delete m (gs_key prior) (gs_valueName prior)) TxRegistryValue
            else tx_registry_call (rm_set m (gs_key prior) (gs_valueName prior) (gs_valueType prior) (gs_data prior)) TxRegistryValue))))"

definition remove_desired_only :: "restore_host \<Rightarrow> string \<Rightarrow> fs_state \<Rightarrow> fs_state \<Rightarrow> unit action_run" where
  "remove_desired_only h target current prior =
     (if fs_kind current \<noteq> StateDirectory then
        (if fs_kind current \<noteq> StateAbsent then remove_safe_path h target else io_return ())
      else io_each (\<lambda>relative. remove_safe_path h (join_path [target, relative]))
        (filter (\<lambda>p. p \<noteq> ''.'' \<and> fmlookup (fs_entries prior) p = None) (sorted_paths (fs_entries current))))"

definition restore_recorded_path :: "restore_host \<Rightarrow> string \<Rightarrow> string \<Rightarrow> entries \<Rightarrow> string \<Rightarrow> unit action_run" where
  "restore_recorded_path h backupRoot targetRoot es relative =
     (let e = entry_at es relative;
          target = (if relative = ''.'' then targetRoot else join_path [targetRoot, relative]);
          backup = (if relative = ''.'' then backupRoot else join_path [backupRoot, relative]) in
      case en_kind e of
        StateDirectory \<Rightarrow> ensure_transaction_directory h target (en_mode e) no_touch no_touch
      | StateFile \<Rightarrow>
          io_bind (tx_lift (io_map_error TxRead (read_regular_file backup))) (\<lambda>(data, _).
          io_then (verify_entry_data h e data)
          (io_then (prepare_file_destination h target no_touch no_touch)
            (atomic_write_transaction_file target data (en_mode e) no_touch no_touch)))
      | _ \<Rightarrow> io_fail TxManifestDiffers)"

definition restore_recorded_directory :: "restore_host \<Rightarrow> string \<Rightarrow> string \<Rightarrow> fs_state \<Rightarrow> unit action_run" where
  "restore_recorded_directory h backupRoot targetRoot prior =
     io_each (restore_recorded_path h backupRoot targetRoot (fs_entries prior)) (sorted_paths (fs_entries prior))"

definition restore_filesystem_prior ::
    "restore_host \<Rightarrow> string \<Rightarrow> string \<Rightarrow> fs_state \<Rightarrow> fs_state \<Rightarrow> unit action_run" where
  "restore_filesystem_prior h target backupPath prior current =
     (case fs_kind prior of
        StateAbsent \<Rightarrow> remove_safe_path h target
      | StateFile \<Rightarrow>
          io_bind (scan_filesystem_state h backupPath) (\<lambda>backup.
            if \<not> states_equal backup prior then io_fail TxBackupInexact
            else io_then (if fs_kind current = StateDirectory then remove_safe_path h target else io_return ())
              (io_bind (tx_lift (io_map_error TxRead (read_regular_file backupPath))) (\<lambda>(data, _).
               io_then (verify_entry_data h (entry_at (fs_entries prior) ''.'') data)
                 (atomic_write_transaction_file target data (fs_mode prior) no_touch no_touch))))
      | StateDirectory \<Rightarrow>
          io_bind (scan_filesystem_state h backupPath) (\<lambda>backup.
            if \<not> states_equal backup prior then io_fail TxBackupInexact
            else io_then (remove_desired_only h target current prior)
              (restore_recorded_directory h backupPath target prior))
      | StateRegistryValue \<Rightarrow> io_fail TxManifestDiffers)"

definition rollback_transaction_action :: "restore_host \<Rightarrow> journal_action \<Rightarrow> unit action_run" where
  "rollback_transaction_action h a =
     (if ja_kind a = ActionRegistrySet then rollback_registry_action h a
      else io_bind (classify_filesystem_rollback h a) (\<lambda>(c, current).
        io_bind (journal_state_run h (ja_prior a)) (\<lambda>prior.
        io_then (if c \<noteq> RollbackPrior then restore_filesystem_prior h (ja_target a) (rc_backup (ja_prior a)) prior current
                 else io_return ())
          (remove_recorded_parents (ja_missingParents a)))))"

end
