(* ===== verification/RegistryData.thy ===== *)
theory RegistryData
  imports RestoreActions
begin

text \<open>
  The bytes a registry value is written with (\<open>desiredRegistrySnapshot\<close> in registry_snapshot.go): a
  number fits its four bytes, and the UTF-16 units of a string decode to its runes.
\<close>

section \<open>Reading the bytes back\<close>

fun le_value :: "string \<Rightarrow> nat" where
  "le_value [] = 0"
| "le_value (c # s) = byte c + 256 * le_value s"

fun units_of :: "string \<Rightarrow> nat list" where
  "units_of (a # b # s) = le_value [a, b] # units_of s"
| "units_of _ = []"

definition high_surrogate :: "nat \<Rightarrow> bool" where
  "high_surrogate u \<longleftrightarrow> 55296 \<le> u \<and> u < 56320"

fun utf16_decode :: "nat list \<Rightarrow> nat list" where
  "utf16_decode [] = []"
| "utf16_decode [u] = [u]"
| "utf16_decode (u # v # us) =
     (if high_surrogate u then (65536 + (u - 55296) * 1024 + (v - 56320)) # utf16_decode us
      else u # utf16_decode (v # us))"

text \<open>The code points, without surrogates.\<close>

definition scalar :: "nat \<Rightarrow> bool" where
  "scalar r \<longleftrightarrow> r < 55296 \<or> 57344 \<le> r \<and> r < 1114112"

lemma little_endian_Suc: "little_endian (Suc w) n = char_of n # little_endian w (n div 256)"
proof -
  have "[0..<Suc w] = 0 # map Suc [0..<w]" by (simp add: upt_conv_Cons map_Suc_upt del: upt_Suc)
  then show ?thesis by (simp add: little_endian_def div_mult2_eq comp_def del: upt_Suc)
qed

lemma little_endian_length [simp]: "length (little_endian w n) = w"
  by (simp add: little_endian_def)

lemma le_value_little_endian: "le_value (little_endian w n) = n mod 256 ^ w"
proof (induction w arbitrary: n)
  case (Suc w)
  have "le_value (little_endian (Suc w) n) = n mod 256 + 256 * (n div 256 mod 256 ^ w)"
    by (simp add: little_endian_Suc Suc)
  also have "\<dots> = n mod 256 ^ Suc w" by (simp add: mod_mult2_eq mult.commute)
  finally show ?case .
qed (simp add: little_endian_def)

lemma units_of_append: "even (length s) \<Longrightarrow> units_of (s @ t) = units_of s @ units_of t"
  by (induction s rule: units_of.induct) auto

lemma units_of_units: "list_all (\<lambda>u. u < 65536) us \<Longrightarrow> units_of (concat (map (little_endian 2) us)) = us"
proof (induction us)
  case (Cons u us)
  obtain a b where ab: "little_endian 2 u = [a, b]" by (simp add: numeral_2_eq_2 little_endian_Suc little_endian_def)
  have "le_value [a, b] = u" using le_value_little_endian[of 2 u] Cons.prems unfolding ab by simp
  then show ?case using Cons ab by simp
qed simp

lemma utf16_decode_units:
  "list_all scalar rs \<Longrightarrow> utf16_decode (concat (map utf16_units rs)) = rs \<and> list_all (\<lambda>u. u < 65536) (concat (map utf16_units rs))"
proof (induction rs)
  case (Cons r rs)
  let ?us = "concat (map utf16_units rs)"
  have IH: "utf16_decode ?us = rs" "list_all (\<lambda>u. u < 65536) ?us" using Cons by auto
  show ?case
  proof (cases "r < 65536")
    case True
    have "\<not> high_surrogate r" using Cons.prems by (auto simp: scalar_def high_surrogate_def)
    then have "utf16_decode (r # ?us) = r # rs" using IH(1) by (cases ?us) auto
    moreover have "utf16_units r = [r]" using True by (simp add: utf16_units_def)
    ultimately show ?thesis using True IH(2) by simp
  next
    case False
    define k where "k = r - 65536"
    have k: "r = 65536 + k" "k < 1048576" using False Cons.prems by (auto simp: scalar_def k_def)
    have d: "k div 1024 < 1024" using k(2) by (simp add: less_mult_imp_div_less)
    have h: "high_surrogate (55296 + k div 1024)" using d by (simp add: high_surrogate_def)
    have "utf16_units r = [55296 + k div 1024, 56320 + k mod 1024]" using False by (simp add: utf16_units_def k_def)
    moreover have "k mod 1024 < 1024" by simp
    ultimately show ?thesis using IH h d k(1) by simp
  qed
qed simp

lemma scalar_three:
  fixes x y z :: nat
  assumes "x \<le> 15" "y \<le> 63" "z \<le> 63" "x = 13 \<Longrightarrow> y \<le> 31"
  shows "scalar (x * 4096 + y * 64 + z)"
proof (cases "x \<le> 13")
  case True
  then have "x * 4096 + y * 64 + z < 55296" using assms by (cases "x = 13") auto
  then show ?thesis by (simp add: scalar_def)
next
  case False
  then have "57344 \<le> x * 4096 + y * 64 + z" "x * 4096 + y * 64 + z < 1114112" using assms by auto
  then show ?thesis by (simp add: scalar_def)
qed

lemma scalar_four:
  fixes x y z w :: nat
  assumes "x \<le> 4" "y \<le> 63" "z \<le> 63" "w \<le> 63" "x = 4 \<Longrightarrow> y \<le> 15" "x = 0 \<Longrightarrow> 16 \<le> y"
  shows "scalar (x * 262144 + y * 4096 + z * 64 + w)"
proof -
  have "57344 \<le> x * 262144 + y * 4096 + z * 64 + w" using assms by (cases "x = 0") auto
  moreover have "x * 262144 + y * 4096 + z * 64 + w < 1114112" using assms by (cases "x = 4") auto
  ultimately show ?thesis by (simp add: scalar_def)
qed

lemma rune_value_scalar: "s \<noteq> [] \<Longrightarrow> scalar (rune_value s)"
proof -
  assume s: "s \<noteq> []"
  consider "rune_width s = 0" | "rune_width s = 1" "byte (hd s) < 128"
    | "rune_width s = 2" "rune2 s" | "rune_width s = 3" "rune3 s" | "rune_width s = 4" "rune4 s"
    using s unfolding rune_width_def by presburger
  then show ?thesis
  proof cases
    case 1 then show ?thesis by (simp add: rune_value_def scalar_def)
  next
    case 2 then show ?thesis using s by (simp add: rune_value_def scalar_def hd_conv_nth)
  next
    case 3
    obtain c d t where "s = c # d # t" "byte_in 194 223 c" "continuation d"
      using 3(2) by (cases s rule: rune2.cases) auto
    then show ?thesis using 3(1) by (auto simp: rune_value_def scalar_def byte_in_def)
  next
    case 4
    obtain c d e t where t: "s = c # d # e # t" "byte_in 224 239 c" "continuation e"
        "if byte c = 224 then byte_in 160 191 d else if byte c = 237 then byte_in 128 159 d else continuation d"
      using 4(2) by (cases s rule: rune3.cases) auto
    have v: "rune_value s = (byte c - 224) * 4096 + (byte d - 128) * 64 + (byte e - 128)"
      using 4(1) t(1) by (simp add: rune_value_def numeral_2_eq_2)
    have b: "byte d - 128 \<le> 63" "byte e - 128 \<le> 63" "byte c - 224 \<le> 15" using t(2-4) by (auto simp: byte_in_def split: if_splits)
    have "byte c - 224 = 13 \<Longrightarrow> byte d - 128 \<le> 31" using t(4) by (auto simp: byte_in_def split: if_splits)
    then show ?thesis unfolding v by (intro scalar_three b)
  next
    case 5
    obtain c d e f t where t: "s = c # d # e # f # t" "byte_in 240 244 c" "continuation e" "continuation f"
        "if byte c = 240 then byte_in 144 191 d else if byte c = 244 then byte_in 128 143 d else continuation d"
      using 5(2) by (cases s rule: rune4.cases) auto
    have v: "rune_value s = (byte c - 240) * 262144 + (byte d - 128) * 4096 + (byte e - 128) * 64 + (byte f - 128)"
      using 5(1) t(1) by (simp add: rune_value_def numeral_2_eq_2 numeral_3_eq_3)
    have b: "byte d - 128 \<le> 63" "byte e - 128 \<le> 63" "byte f - 128 \<le> 63" "byte c - 240 \<le> 4" using t(2-5) by (auto simp: byte_in_def split: if_splits)
    have "byte c - 240 = 4 \<Longrightarrow> byte d - 128 \<le> 15" "byte c - 240 = 0 \<Longrightarrow> 16 \<le> byte d - 128"
      using t(2,5) by (auto simp: byte_in_def split: if_splits)
    then show ?thesis unfolding v by (intro scalar_four b)
  qed
qed

lemma runes_scalar: "list_all scalar (runes s)"
  by (induction s rule: runes.induct) (subst runes.simps, simp add: rune_value_scalar)

text \<open>
  Property C16. The data a registry value is written with: a \<open>REG_DWORD\<close> is below two to the power of 32
  and its four bytes read back as the number, and the units of a string decode to its runes with a zero.
\<close>

theorem registry_data_reads_back:
  "case desired_registry_snapshot uu v of
     None \<Rightarrow> True
   | Some snapshot \<Rightarrow> gs_exists snapshot \<and>
       (if gs_valueType snapshot = 4
        then length (gs_data snapshot) = 4 \<and> le_value (gs_data snapshot) < 2 ^ 32 \<and>
          parse_dword (gv_data v) = Some (le_value (gs_data snapshot))
        else utf16_decode (units_of (gs_data snapshot)) = runes (gv_data v @ [NUL]))"
proof -
  have dword: "le_value (little_endian 4 n) = n" "n < 2 ^ 32" if "parse_dword d = Some n" for d n
    using that le_value_little_endian[of 4 n] by (auto simp: parse_dword_def Let_def split: option.splits if_splits)
  have utf16: "utf16_decode (units_of (utf16_bytes s)) = runes s" for s
    using utf16_decode_units[OF runes_scalar[of s]] unfolding utf16_bytes_def by (simp add: units_of_units)
  show ?thesis
  proof (cases "desired_registry_snapshot uu v")
    case (Some snapshot)
    then show ?thesis
      using dword by (auto simp: desired_registry_snapshot_def Let_def utf16 split: if_splits)
  qed simp
qed

end
