(* ===== verification/RestoreJournal.thy ===== *)
theory RestoreJournal
  imports RestoreActions
begin

text \<open>
  The journal of a restore transaction (\<open>internal/configrestore\<close>: journal_format.go, journal.go,
  journal_snapshots.go, journal_markers.go, publish.go, publish_unix.go): the pending intent that
  authorises every change and the terminal marker that closes it, how they are encoded,
  validated, read back and published without replacing anything.
\<close>

section \<open>Formats\<close>

definition intent_format :: string where "intent_format = ''endstate.config-restore-intent''"
definition marker_format :: string where "marker_format = ''endstate.config-restore-marker''"
definition journal_version :: int where "journal_version = 1"

definition new_intent_disk ::
    "restore_host \<Rightarrow> journal_lineage \<Rightarrow> journal_action list \<Rightarrow> journal_validation list \<Rightarrow> intent_disk \<times> string" where
  "new_intent_disk h lineage actions validations =
     (let identity = \<lparr>ii_format = intent_format, ii_version = journal_version, ii_state = JournalPending,
            ii_lineage = lineage, ii_actions = actions, ii_validations = validations,
            ii_validationStatus = ValidationPending, ii_rollbackOutcome = RollbackNotAttempted\<rparr>;
          digest = rh_sha h (jc_encode_intent_identity (rh_journal h) identity);
          disk = intent_identity.extend identity (intent_disk.fields digest) in
      (disk, jc_encode_intent (rh_journal h) disk @ [LF]))"

definition decode_intent :: "restore_host \<Rightarrow> string \<Rightarrow> intent_disk option" where
  "decode_intent h data =
     (case jc_decode_intent (rh_journal h) data of None \<Rightarrow> None
      | Some disk \<Rightarrow>
          if ii_format disk \<noteq> intent_format \<or> ii_version disk \<noteq> journal_version \<or> ii_state disk \<noteq> JournalPending \<or>
             ii_validationStatus disk \<noteq> ValidationPending \<or> ii_rollbackOutcome disk \<noteq> RollbackNotAttempted then None
          else (case new_intent_disk h (ii_lineage disk) (ii_actions disk) (ii_validations disk) of
              (expected, canonical) \<Rightarrow>
                if ii_intentDigest disk \<noteq> ii_intentDigest expected \<or> data \<noteq> canonical then None else Some disk))"

definition intent_from_disk :: "string \<Rightarrow> string \<Rightarrow> intent_disk \<Rightarrow> journal_intent" where
  "intent_from_disk root p disk =
     \<lparr>ji_transactionRoot = root, ji_path = p, ji_digest = ii_intentDigest disk, ji_lineage = ii_lineage disk,
      ji_actions = ii_actions disk, ji_validations = ii_validations disk\<rparr>"

definition validate_marker_outcome :: "journal_state \<Rightarrow> validation_status \<Rightarrow> rollback_outcome \<Rightarrow> bool" where
  "validate_marker_outcome state validation rollback =
     (case state of
        JournalCommitted \<Rightarrow> validation = ValidationPassed \<and> rollback = RollbackNotRequired
      | JournalRolledBack \<Rightarrow>
          validation \<in> {ValidationNotRun, ValidationPassed, ValidationFailed} \<and>
          (case rollback of
             RollbackSucceeded \<Rightarrow> True | RollbackNotRequired \<Rightarrow> validation = ValidationNotRun | _ \<Rightarrow> False)
      | JournalPending \<Rightarrow> False)"

definition new_marker_disk ::
    "restore_host \<Rightarrow> string \<Rightarrow> journal_state \<Rightarrow> validation_status \<Rightarrow> rollback_outcome \<Rightarrow> marker_disk \<times> string" where
  "new_marker_disk h intentDigest state validation rollback =
     (let identity = \<lparr>mi_format = marker_format, mi_version = journal_version, mi_intentDigest = intentDigest,
            mi_state = state, mi_validationStatus = validation, mi_rollbackOutcome = rollback\<rparr>;
          digest = rh_sha h (jc_encode_marker_identity (rh_journal h) identity);
          disk = marker_identity.extend identity (marker_disk.fields digest) in
      (disk, jc_encode_marker (rh_journal h) disk @ [LF]))"

definition decode_marker :: "restore_host \<Rightarrow> string \<Rightarrow> marker_disk option" where
  "decode_marker h data =
     (case jc_decode_marker (rh_journal h) data of None \<Rightarrow> None
      | Some disk \<Rightarrow>
          if mi_format disk \<noteq> marker_format \<or> mi_version disk \<noteq> journal_version \<or> \<not> is_payload_hash (mi_intentDigest disk) \<or>
             \<not> validate_marker_outcome (mi_state disk) (mi_validationStatus disk) (mi_rollbackOutcome disk) then None
          else (case new_marker_disk h (mi_intentDigest disk) (mi_state disk) (mi_validationStatus disk) (mi_rollbackOutcome disk) of
              (expected, canonical) \<Rightarrow>
                if mi_markerDigest disk \<noteq> mi_markerDigest expected \<or> data \<noteq> canonical then None else Some disk))"

definition marker_from_disk :: "string \<Rightarrow> marker_disk \<Rightarrow> journal_marker" where
  "marker_from_disk p disk =
     \<lparr>jm_path = p, jm_digest = mi_markerDigest disk, jm_intentDigest = mi_intentDigest disk, jm_state = mi_state disk,
      jm_validationStatus = mi_validationStatus disk, jm_rollbackOutcome = mi_rollbackOutcome disk\<rparr>"

section \<open>Validation of an intent\<close>

definition format_action_index :: "nat \<Rightarrow> string" where
  "format_action_index i = (let d = decimal i in replicate (6 - length d) CHR ''0'' @ d)"

definition canonical_filesystem_target :: "string \<Rightarrow> string" where
  "canonical_filesystem_target target = trim_suffix ''/'' (clean_path target)"

definition filesystem_targets_overlap :: "string \<Rightarrow> string \<Rightarrow> bool" where
  "filesystem_targets_overlap l r \<longleftrightarrow> l = r \<or> is_below r l \<or> is_below l r"

text \<open>\<open>validateSnapshotPathSeparation\<close>; \<open>True\<close> when the path is accepted.\<close>

definition separate_path :: "string \<Rightarrow> string \<Rightarrow> bool" where
  "separate_path transactionRoot p \<longleftrightarrow> p \<noteq> [] \<and> is_abs p \<and> clean_path p = p \<and>
     \<not> filesystem_targets_overlap (canonical_filesystem_target transactionRoot) (canonical_filesystem_target p)"

definition concrete_host_path :: "string \<Rightarrow> bool" where
  "concrete_host_path p \<longleftrightarrow> p \<noteq> [] \<and> is_abs p \<and> clean_path p = p \<and> \<not> prefix [BSLASH, BSLASH] p \<and> \<not> prefix ''//'' p"

text \<open>
  \<open>strings.EqualFold\<close> with an ASCII string: besides upper and lower case, the Kelvin sign folds
  to k and the long s to s.
\<close>

fun fold_ascii :: "string \<Rightarrow> string" where
  "fold_ascii [] = []"
| "fold_ascii (c # cs) =
     (if take 2 cs = [CHR 0x84, CHR 0xAA] \<and> c = CHR 0xE2 then CHR ''k'' # fold_ascii (drop 2 cs)
      else if take 1 cs = [CHR 0xBF] \<and> c = CHR 0xC5 then CHR ''s'' # fold_ascii (drop 1 cs)
      else ascii_lower c # fold_ascii cs)"

definition equal_fold_ascii :: "string \<Rightarrow> string \<Rightarrow> bool" where
  "equal_fold_ascii a b \<longleftrightarrow> fold_ascii a = map ascii_lower b"

definition normalize_hkcu_key :: "string \<Rightarrow> string option" where
  "normalize_hkcu_key key =
     (if key = [] \<or> key \<noteq> trim_space key \<or> has_control key then None
      else let components = split_on BSLASH (replace_byte CHR ''/'' BSLASH key) in
        if length components < 2 \<or>
           (\<not> equal_fold_ascii (hd components) ''HKCU'' \<and> \<not> equal_fold_ascii (hd components) ''HKEY_CURRENT_USER'') then None
        else if list_ex (\<lambda>c. c = [] \<or> c = ''.'' \<or> c = ''..'' \<or> c \<noteq> trim_space c) (tl components) then None
        else Some (''HKCU'' @ [BSLASH] @ join_with [BSLASH] (tl components)))"

definition valid_strategy :: "journal_action \<Rightarrow> bool" where
  "valid_strategy a =
     (case ja_kind a of
        ActionCopy \<Rightarrow> ja_strategy a = ''copy''
      | ActionWriteFile \<Rightarrow> ja_strategy a \<in> set [''merge-json'', ''merge-ini'', ''append'']
      | ActionDeleteFile \<Rightarrow> ja_strategy a = ''delete-glob''
      | ActionRegistrySet \<Rightarrow> ja_strategy a = ''registry-set'')"

fun contiguous_parents :: "string list \<Rightarrow> bool" where
  "contiguous_parents (p # q # ps) = (dir_name q = p \<and> contiguous_parents (q # ps))"
| "contiguous_parents _ = True"

definition valid_missing_parents :: "string \<Rightarrow> journal_action \<Rightarrow> bool" where
  "valid_missing_parents transactionRoot a \<longleftrightarrow> ja_missingParents a = [] \<or>
     list_all (\<lambda>p. \<not> has_control p \<and> separate_path transactionRoot p) (ja_missingParents a) \<and>
     contiguous_parents (ja_missingParents a) \<and> last (ja_missingParents a) = dir_name (ja_target a)"

definition valid_filesystem_kinds :: "journal_action \<Rightarrow> bool" where
  "valid_filesystem_kinds a =
     (let prior = rc_kind (ja_prior a); desired = rc_kind (ja_desired a);
          priorFile = (prior = StateAbsent \<or> prior = StateFile) in
      case ja_kind a of
        ActionCopy \<Rightarrow> (priorFile \<or> prior = StateDirectory) \<and> (desired = StateFile \<or> desired = StateDirectory)
      | ActionWriteFile \<Rightarrow> priorFile \<and> desired = StateFile
      | ActionDeleteFile \<Rightarrow> priorFile \<and> desired = StateAbsent
      | ActionRegistrySet \<Rightarrow> False)"

definition valid_filesystem_state :: "(string \<Rightarrow> string) \<Rightarrow> state_record \<Rightarrow> bool" where
  "valid_filesystem_state sha r \<longleftrightarrow> rc_mode r = perm (rc_mode r) \<and>
     (case filesystem_state_from_record sha r of Inl _ \<Rightarrow> False | Inr s \<Rightarrow> fs_digest s = rc_digest r)"

definition valid_filesystem_action :: "restore_host \<Rightarrow> string \<Rightarrow> nat \<Rightarrow> journal_action \<Rightarrow> bool" where
  "valid_filesystem_action h transactionRoot index a \<longleftrightarrow>
     \<not> has_control (ja_target a) \<and> concrete_host_path (ja_target a) \<and> separate_path transactionRoot (ja_target a) \<and>
     ja_registryKey a = [] \<and> ja_registryValueName a = [] \<and> valid_filesystem_kinds a \<and>
     valid_filesystem_state (rh_sha h) (ja_prior a) \<and> valid_filesystem_state (rh_sha h) (ja_desired a) \<and>
     (if rc_kind (ja_prior a) = StateAbsent then rc_backup (ja_prior a) = []
      else rc_backup (ja_prior a) = join_path [transactionRoot, ''snapshots'', format_action_index index, ''prior'']) \<and>
     (if ja_kind a = ActionCopy then is_payload_hash (ja_sourceDigest a) else ja_sourceDigest a = [])"

definition valid_registry_action :: "string \<Rightarrow> nat \<Rightarrow> journal_action \<Rightarrow> bool" where
  "valid_registry_action transactionRoot index a \<longleftrightarrow>
     normalize_hkcu_key (ja_registryKey a) = Some (ja_registryKey a) \<and> ja_registryValueName a \<noteq> [] \<and>
     ja_registryValueName a = trim_space (ja_registryValueName a) \<and> \<not> has_control (ja_registryValueName a) \<and>
     ja_target a = ja_registryKey a @ [BSLASH] @ ja_registryValueName a \<and> ja_missingParents a = [] \<and>
     rc_backup (ja_prior a) = join_path [transactionRoot, ''snapshots'', format_action_index index, ''prior.registry''] \<and>
     rc_backup (ja_desired a) = [] \<and> rc_entries (ja_prior a) = [] \<and> rc_entries (ja_desired a) = [] \<and> ja_sourceDigest a = [] \<and>
     rc_mode (ja_prior a) = 0 \<and> rc_mode (ja_desired a) = 0 \<and>
     (rc_kind (ja_prior a) = StateAbsent \<or> rc_kind (ja_prior a) = StateRegistryValue) \<and>
     rc_kind (ja_desired a) = StateRegistryValue \<and> is_payload_hash (rc_digest (ja_prior a)) \<and> is_payload_hash (rc_digest (ja_desired a))"

text \<open>The owners are the canonical missing parents of the actions before.\<close>

fun valid_actions_from :: "restore_host \<Rightarrow> string \<Rightarrow> nat \<Rightarrow> string list \<Rightarrow> journal_action list \<Rightarrow> bool" where
  "valid_actions_from h transactionRoot index owners [] = True"
| "valid_actions_from h transactionRoot index owners (a # as) =
     (ja_index a = int index \<and> ja_target a \<noteq> [] \<and> ja_strategy a \<noteq> [] \<and> ja_strategy a = trim_space (ja_strategy a) \<and>
      NUL \<notin> set (ja_strategy a) \<and> valid_strategy a \<and> rc_backup (ja_desired a) = [] \<and>
      (let parents = map canonical_filesystem_target (ja_missingParents a) in
       if ja_kind a = ActionRegistrySet then
         valid_registry_action transactionRoot index a \<and> valid_actions_from h transactionRoot (Suc index) owners as
       else
         valid_missing_parents transactionRoot a \<and> distinct parents \<and> list_all (\<lambda>p. p \<notin> set owners) parents \<and>
         valid_filesystem_action h transactionRoot index a \<and>
         valid_actions_from h transactionRoot (Suc index) (owners @ parents) as))"

definition validate_journal_actions :: "restore_host \<Rightarrow> string \<Rightarrow> journal_action list \<Rightarrow> bool" where
  "validate_journal_actions h transactionRoot actions \<longleftrightarrow> actions \<noteq> [] \<and> valid_actions_from h transactionRoot 0 [] actions"

definition valid_identity :: "string \<Rightarrow> bool" where
  "valid_identity v \<longleftrightarrow> v \<noteq> [] \<and> v = trim_space v \<and> \<not> has_control v"

definition validate_journal_lineage :: "journal_lineage \<Rightarrow> bool" where
  "validate_journal_lineage l \<longleftrightarrow>
     list_all valid_identity [jl_runID l, jl_captureID l, jl_moduleID l, jl_configSetID l, jl_targetInstanceID l,
       jl_sourceGeneration l, jl_targetGeneration l] \<and>
     list_all is_payload_hash [jl_sourceGenerationFingerprint l, jl_captureModuleRevision l, jl_restoreModuleRevision l] \<and>
     (if jl_sourceGeneration l = jl_targetGeneration l then jl_migrationPath l = []
      else 2 \<le> length (jl_migrationPath l) \<and> hd (jl_migrationPath l) = jl_sourceGeneration l \<and>
        last (jl_migrationPath l) = jl_targetGeneration l) \<and>
     list_all valid_identity (jl_migrationPath l)"

definition canonical_portable_path :: "string \<Rightarrow> string" where
  "canonical_portable_path value = clean_path (to_slashes value)"

definition path_contained :: "string \<Rightarrow> string \<Rightarrow> bool" where
  "path_contained root candidate =
     (case rel_path (clean_path root) (clean_path candidate) of None \<Rightarrow> False
      | Some relative \<Rightarrow> relative \<noteq> ''..'' \<and> \<not> prefix ''../'' relative \<and> \<not> is_abs relative)"

definition validation_maps_to_action :: "journal_validation \<Rightarrow> journal_action \<Rightarrow> bool" where
  "validation_maps_to_action v a =
     (if ja_kind a = ActionDeleteFile \<or> ja_kind a = ActionRegistrySet then False
      else if rc_kind (ja_desired a) = StateFile then jv_hostPath v = ja_target a
      else if ja_kind a \<noteq> ActionCopy \<or> rc_kind (ja_desired a) \<noteq> StateDirectory \<or> \<not> path_contained (ja_target a) (jv_hostPath v)
      then False
      else (case rel_path (ja_target a) (jv_hostPath v) of
          None \<Rightarrow> False
        | Some relative \<Rightarrow>
            if is_abs relative then False
            else if relative = ''.'' then True
            else list_ex (\<lambda>e. canonical_portable_path (en_path e) = canonical_portable_path relative) (rc_entries (ja_desired a)) \<and>
              (let vp = canonical_portable_path (jv_path v); rp = canonical_portable_path relative in
               vp = rp \<or> suffix (''/'' @ rp) vp)))"

definition valid_validation_path :: "string \<Rightarrow> bool" where
  "valid_validation_path v \<longleftrightarrow> v \<noteq> [] \<and> v = trim_space v \<and> \<not> is_abs v \<and> clean_path v = v \<and> v \<noteq> ''..'' \<and>
     \<not> prefix ''../'' v \<and> BSLASH \<notin> set v \<and> \<not> has_control v \<and> \<not> prefix ''~'' v \<and> \<not> prefix ''$'' v \<and> CHR ''%'' \<notin> set v \<and>
     \<not> contains_str ''${'' v \<and> \<not> (2 \<le> length v \<and> v ! 1 = CHR '':'')"

definition valid_validation :: "string \<Rightarrow> journal_action list \<Rightarrow> journal_validation \<Rightarrow> bool" where
  "valid_validation transactionRoot actions v \<longleftrightarrow>
     valid_validation_path (jv_path v) \<and> concrete_host_path (jv_hostPath v) \<and> \<not> has_control (jv_hostPath v) \<and>
     separate_path transactionRoot (jv_hostPath v) \<and>
     (if jv_type v \<in> set [''file-exists'', ''json-parse'', ''ini-parse'']
      then jv_jsonPath v = [] \<and> jv_section v = [] \<and> jv_key v = []
      else if jv_type v = ''json-path-exists''
      then jv_section v = [] \<and> jv_key v = [] \<and> validate_json_path (jv_jsonPath v) = None
      else if jv_type v = ''ini-key-exists''
      then jv_jsonPath v = [] \<and> validate_ini_address (jv_section v) (jv_key v) = None
      else False) \<and>
     length (filter (validation_maps_to_action v) actions) = 1"

definition validate_journal_validations :: "string \<Rightarrow> journal_action list \<Rightarrow> journal_validation list \<Rightarrow> bool" where
  "validate_journal_validations transactionRoot actions validations \<longleftrightarrow>
     list_all (valid_validation transactionRoot actions) validations"

end
