(* ===== verification/RestoreMarkers.thy ===== *)
theory RestoreMarkers
  imports RestoreJournal
begin

text \<open>
  Reading, writing and publishing the journal (\<open>internal/configrestore\<close>: journal.go,
  journal_snapshots.go, journal_markers.go, publish.go, publish_unix.go). No checkpoint of a test
  is installed, so a checkpoint asks the context twice.
\<close>

section \<open>Calls\<close>

text \<open>\<open>os.ReadFile\<close>, and the entries of a directory with their nodes.\<close>

definition read_file :: "string \<Rightarrow> (errno, string) io" where
  "read_file p = io_bind (open_file p) (\<lambda>n.
     if is_dir n then io_fail EISDIR else io_return (file_data n))"

definition read_dir_nodes :: "string \<Rightarrow> (errno, (string \<times> node) list) io" where
  "read_dir_nodes p = query (\<lambda>t.
     case locate_final t p of Inl e \<Rightarrow> Inl e
     | Inr k \<Rightarrow>
         (case entry t k of None \<Rightarrow> Inl ENOENT
          | Some (Dir _) \<Rightarrow> Inr (map (\<lambda>name. (name, the (fmlookup t (k @ [name])))) (child_names t k))
          | Some _ \<Rightarrow> Inl ENOTDIR))"

text \<open>
  \<open>os.Link\<close>: the new name holds the same file. Neither name is written to afterwards, so the two
  entries never differ.
\<close>

definition link_tree :: "string \<Rightarrow> string \<Rightarrow> tree \<Rightarrow> errno + tree" where
  "link_tree p q t =
     (case (locate t p, locate t q) of
        (Inl e, _) \<Rightarrow> Inl e
      | (_, Inl e) \<Rightarrow> Inl e
      | (Inr a, Inr b) \<Rightarrow>
          (case fmlookup t a of None \<Rightarrow> Inl ENOENT
           | Some n \<Rightarrow>
               if entry t b \<noteq> None then Inl EEXIST
               else if is_dir n then Inl EINVAL
               else Inr (fmupd b n t)))"

definition link_file :: "string \<Rightarrow> string \<Rightarrow> (errno, unit) io" where
  "link_file p q = change (\<lambda>_. link_tree p q)"

text \<open>\<open>os.CreateTemp\<close> with a pattern that ends in a suffix after the random part.\<close>

definition create_temp_suffix :: "string \<Rightarrow> string \<Rightarrow> string \<Rightarrow> (errno, string) io" where
  "create_temp_suffix dir stem ending =
     io_bind random_left (\<lambda>n.
     io_bind (make_temp (\<lambda>p. change (\<lambda>i. create_tree (p @ ending) 384 i)) dir stem n) (\<lambda>p. io_return (p @ ending)))"

definition journal_checkpoint :: "unit action_run" where
  "journal_checkpoint = io_then check_context check_context"

text \<open>\<open>os.IsNotExist\<close>.\<close>

definition not_exist :: "tx_error \<Rightarrow> bool" where
  "not_exist e \<longleftrightarrow> e = TxOs ENOENT \<or> e = TxRead (OsError ENOENT)"

definition tx_attempt :: "'a action_run \<Rightarrow> (tx_error + 'a) action_run" where
  "tx_attempt = io_try"

section \<open>Snapshot artifacts\<close>

definition snapshot_layout :: "string \<Rightarrow> nat \<Rightarrow> bool" where
  "snapshot_layout name index \<longleftrightarrow> name = format_action_index index"

definition verify_action_artifact :: "restore_host \<Rightarrow> string \<Rightarrow> nat \<Rightarrow> journal_action \<Rightarrow> unit action_run" where
  "verify_action_artifact h snapshotRoot index a =
     io_bind (tx_os (read_dir_nodes (join_path [snapshotRoot, format_action_index index]))) (\<lambda>entries.
       if ja_kind a = ActionRegistrySet then
         (case entries of
            [(name, n)] \<Rightarrow>
              if name \<noteq> ''prior.registry'' \<or> is_dir n then io_fail TxSnapshot
              else io_bind (load_registry_snapshot h (rc_backup (ja_prior a))) (\<lambda>s.
                if gs_key s \<noteq> ja_registryKey a \<or> gs_valueName s \<noteq> ja_registryValueName a \<or>
                   gs_exists s \<noteq> (rc_kind (ja_prior a) = StateRegistryValue) \<or>
                   digest_registry_snapshot h s \<noteq> rc_digest (ja_prior a)
                then io_fail TxSnapshot else io_return ())
          | _ \<Rightarrow> io_fail TxSnapshot)
       else if rc_kind (ja_prior a) = StateAbsent then io_when (entries \<noteq> []) TxSnapshot
       else (case entries of
           [(name, _)] \<Rightarrow>
             if name \<noteq> ''prior'' then io_fail TxSnapshot
             else io_bind (scan_filesystem_state h (rc_backup (ja_prior a))) (\<lambda>actual.
               if fs_digest actual \<noteq> rc_digest (ja_prior a) \<or> perm (fs_mode actual) \<noteq> rc_mode (ja_prior a)
               then io_fail TxSnapshot else io_return ())
         | _ \<Rightarrow> io_fail TxSnapshot))"

fun walk_snapshot :: "nat \<Rightarrow> string \<Rightarrow> string list \<times> string list \<Rightarrow> (string list \<times> string list) action_run" where
  "walk_snapshot 0 root acc = io_fail TxTooDeep"
| "walk_snapshot (Suc depth) root acc =
     io_then check_context
     (io_bind (tx_os (lstat root)) (\<lambda>info.
      io_then check_context
      (if is_link info then io_fail TxLink
       else if is_dir info then
         io_bind (tx_os (read_dir root)) (\<lambda>names.
           io_fold (\<lambda>name. walk_snapshot depth (join_path [root, name])) names (fst acc, snd acc @ [root]))
       else if is_regular info then io_return (fst acc @ [root], snd acc)
       else io_fail TxSpecialFile)))"

definition verify_snapshot_artifacts :: "restore_host \<Rightarrow> string \<Rightarrow> journal_action list \<Rightarrow> (string list \<times> string list) action_run" where
  "verify_snapshot_artifacts h snapshotRoot actions =
     io_then check_context
     (io_then (reject_existing_target_links snapshotRoot)
     (io_bind (tx_os (read_dir_nodes snapshotRoot)) (\<lambda>roots.
       if length roots \<noteq> length actions \<or>
          list_ex (\<lambda>(i, name, n). \<not> snapshot_layout name i \<or> \<not> is_dir n) (zip [0..<length roots] roots)
       then io_fail TxSnapshot
       else io_then (io_each (\<lambda>(i, a). verify_action_artifact h snapshotRoot i a) (zip [0..<length actions] actions))
         (io_bind (walk_snapshot (rh_depth h) snapshotRoot ([], [])) (\<lambda>(files, dirs).
           io_return (sort files, sort dirs))))))"

section \<open>Reading an intent\<close>

definition validate_journal_root :: "string \<Rightarrow> string action_run" where
  "validate_journal_root root =
     (if root = [] \<or> \<not> is_abs root \<or> clean_path root \<noteq> root then io_fail TxInput
      else io_then (reject_existing_target_links root)
        (io_bind (tx_try (lstat root)) (\<lambda>r.
          case r of Inl _ \<Rightarrow> io_fail TxInput
          | Inr info \<Rightarrow> if \<not> is_dir info \<or> is_link info then io_fail TxInput else io_return root)))"

definition read_intent_metadata :: "restore_host \<Rightarrow> string \<Rightarrow> string \<Rightarrow> journal_intent action_run" where
  "read_intent_metadata h root p =
     io_then check_context
     (io_then (reject_existing_target_links (dir_name p))
     (io_bind (tx_lift (io_map_error TxRead (read_regular_file p))) (\<lambda>(data, _).
       case decode_intent h data of
         None \<Rightarrow> io_fail TxJournal
       | Some disk \<Rightarrow>
           if \<not> validate_journal_lineage (ii_lineage disk) \<or> \<not> validate_journal_actions h root (ii_actions disk) \<or>
              \<not> validate_journal_validations root (ii_actions disk) (ii_validations disk) then io_fail TxJournal
           else io_return (intent_from_disk root p disk))))"

definition read_intent_file :: "restore_host \<Rightarrow> string \<Rightarrow> string \<Rightarrow> journal_intent action_run" where
  "read_intent_file h root p =
     io_bind (read_intent_metadata h root p) (\<lambda>intent.
     io_bind (verify_snapshot_artifacts h (join_path [root, ''snapshots'']) (ji_actions intent)) (\<lambda>_.
       io_return intent))"

definition intent_path :: "string \<Rightarrow> string" where
  "intent_path root = join_path [root, ''journal'', ''intent.json'']"

definition read_journal_intent :: "restore_host \<Rightarrow> string \<Rightarrow> journal_intent action_run" where
  "read_journal_intent h transactionRoot =
     io_then check_context
     (io_bind (validate_journal_root transactionRoot) (\<lambda>root. read_intent_file h root (intent_path root)))"

definition verify_intent_for_marker :: "restore_host \<Rightarrow> journal_intent \<Rightarrow> journal_intent action_run" where
  "verify_intent_for_marker h intent =
     io_then check_context
     (if ji_transactionRoot intent = [] \<or> ji_digest intent = [] \<or> ji_path intent \<noteq> intent_path (ji_transactionRoot intent)
      then io_fail TxInput
      else io_bind (read_journal_intent h (ji_transactionRoot intent)) (\<lambda>verified.
        if ji_digest verified \<noteq> ji_digest intent then io_fail TxJournal else io_return verified))"

section \<open>Markers\<close>

definition journal_marker_path :: "string \<Rightarrow> string \<Rightarrow> string" where
  "journal_marker_path directory digest = join_path [directory, ''terminal-'' @ digest @ ''.json'']"

definition journal_directory :: "string \<Rightarrow> string" where
  "journal_directory root = join_path [root, ''journal'']"

definition read_marker_file :: "restore_host \<Rightarrow> string \<Rightarrow> string \<Rightarrow> journal_intent \<Rightarrow> journal_marker action_run" where
  "read_marker_file h root p intent =
     (if ji_transactionRoot intent \<noteq> root \<or> ji_digest intent = [] then io_fail TxInput
      else io_then (reject_existing_target_links (dir_name p))
        (io_bind (tx_lift (io_map_error TxRead (read_regular_file p))) (\<lambda>(data, _).
          case decode_marker h data of
            None \<Rightarrow> io_fail TxJournal
          | Some disk \<Rightarrow>
              if mi_intentDigest disk \<noteq> ji_digest intent \<or>
                 p \<noteq> journal_marker_path (journal_directory root) (mi_intentDigest disk) then io_fail TxJournal
              else io_return (marker_from_disk p disk))))"

definition require_pending_intent :: "restore_host \<Rightarrow> journal_intent \<Rightarrow> unit action_run" where
  "require_pending_intent h intent =
     (if ji_transactionRoot intent = [] \<or> ji_digest intent = [] then io_fail TxInput
      else io_bind (tx_attempt (read_marker_file h (ji_transactionRoot intent)
          (journal_marker_path (journal_directory (ji_transactionRoot intent)) (ji_digest intent)) intent)) (\<lambda>r.
        case r of
          Inl e \<Rightarrow> if not_exist e then io_return () else io_fail TxJournal
        | Inr _ \<Rightarrow> io_fail TxJournal))"

definition check_marker :: "restore_host \<Rightarrow> string \<Rightarrow> string \<Rightarrow> journal_intent \<Rightarrow> string \<Rightarrow> string \<Rightarrow> journal_marker action_run" where
  "check_marker h root p intent expectedBytes expectedDigest =
     io_bind (read_marker_file h root p intent) (\<lambda>existing.
     io_bind (tx_os (read_file p)) (\<lambda>data.
       if jm_digest existing \<noteq> expectedDigest \<or> data \<noteq> expectedBytes then io_fail TxConflict else io_return existing))"

definition reconcile_marker :: "restore_host \<Rightarrow> string \<Rightarrow> string \<Rightarrow> journal_intent \<Rightarrow> string \<Rightarrow> string \<Rightarrow> journal_marker action_run" where
  "reconcile_marker h root p intent expectedBytes expectedDigest =
     io_bind (check_marker h root p intent expectedBytes expectedDigest) (\<lambda>_.
     io_then (tx_os (sync_durable_file p))
     (io_then (tx_os (sync_directory (dir_name p)))
       (check_marker h root p intent expectedBytes expectedDigest)))"

section \<open>Publication\<close>

datatype publication_state = PublicationNotDurable | PublicationDurable | PublicationAmbiguous

definition publish_no_replace :: "string \<Rightarrow> string \<Rightarrow> (publication_state \<times> tx_error option) action_run" where
  "publish_no_replace temporary destination =
     io_bind (tx_try (link_file temporary destination)) (\<lambda>linked.
       case linked of
         Inl e \<Rightarrow> io_return (PublicationNotDurable, Some (TxOs e))
       | Inr _ \<Rightarrow>
           io_bind (tx_try (sync_directory (dir_name destination))) (\<lambda>synced.
             case synced of
               Inl e \<Rightarrow>
                 io_bind (tx_try (remove destination)) (\<lambda>removed.
                 io_bind (tx_try (sync_directory (dir_name destination))) (\<lambda>removeSynced.
                   if (removed = Inr () \<or> removed = Inl ENOENT) \<and> removeSynced = Inr ()
                   then io_return (PublicationNotDurable, Some (TxOs e))
                   else io_return (PublicationAmbiguous, Some TxAmbiguous)))
             | Inr _ \<Rightarrow>
                 io_bind (tx_try (remove temporary)) (\<lambda>removed.
                   if removed = Inr ()
                   then io_bind (tx_try (sync_directory (dir_name destination))) (\<lambda>_. io_return (PublicationDurable, None))
                   else io_return (PublicationDurable, None))))"

text \<open>\<open>publicationFailure\<close> with an error of the reconciliation.\<close>

definition publication_failure :: "publication_state \<Rightarrow> tx_error \<Rightarrow> tx_error \<Rightarrow> tx_error" where
  "publication_failure state publishErr reconciliationErr =
     (if state \<noteq> PublicationAmbiguous \<and> not_exist reconciliationErr then publishErr else TxAmbiguous)"

definition publish_marker ::
    "restore_host \<Rightarrow> string \<Rightarrow> string \<Rightarrow> journal_intent \<Rightarrow> marker_disk \<Rightarrow> string \<Rightarrow> string \<Rightarrow> journal_marker action_run" where
  "publish_marker h root p intent disk encoded temporary =
     io_then (tx_os (chmod temporary 384))
     (io_then (tx_os (write_file temporary encoded))
     (io_then (tx_os (sync_file temporary))
     (io_then journal_checkpoint
     (io_bind (publish_no_replace temporary p) (\<lambda>(publication, publishErr).
       if publishErr = None \<and> publication = PublicationDurable then io_return (marker_from_disk p disk)
       else io_bind (tx_attempt (reconcile_marker h root p intent encoded (mi_markerDigest disk))) (\<lambda>r.
         case r of
           Inr reconciled \<Rightarrow> io_return reconciled
         | Inl TxConflict \<Rightarrow> io_fail TxConflict
         | Inl e \<Rightarrow> io_fail (publication_failure publication
             (case publishErr of None \<Rightarrow> TxJournal | Some x \<Rightarrow> x) e)))))))"

definition persist_marker ::
    "restore_host \<Rightarrow> journal_intent \<Rightarrow> journal_state \<Rightarrow> validation_status \<Rightarrow> rollback_outcome \<Rightarrow> journal_marker action_run" where
  "persist_marker h intent state validation rollback =
     (if \<not> validate_marker_outcome state validation rollback then io_fail TxInput
      else io_bind (verify_intent_for_marker h intent) (\<lambda>verified.
        let root = ji_transactionRoot verified;
            directory = journal_directory root;
            p = journal_marker_path directory (ji_digest verified) in
        case new_marker_disk h (ji_digest verified) state validation rollback of
          (disk, encoded) \<Rightarrow>
            io_bind (tx_attempt (read_marker_file h root p verified)) (\<lambda>found.
              case found of
                Inr existing \<Rightarrow>
                  io_bind (tx_os (read_file p)) (\<lambda>existingBytes.
                    if jm_digest existing \<noteq> mi_markerDigest disk \<or> existingBytes \<noteq> encoded then io_fail TxConflict
                    else io_bind (tx_attempt (reconcile_marker h root p verified encoded (mi_markerDigest disk))) (\<lambda>r.
                      case r of Inr reconciled \<Rightarrow> io_return reconciled | Inl _ \<Rightarrow> io_fail TxAmbiguous))
              | Inl e \<Rightarrow>
                  if \<not> not_exist e then io_fail e
                  else io_bind (tx_os (create_temp_suffix directory ''.marker-'' ''.tmp'')) (\<lambda>temporary.
                    io_finally (publish_marker h root p verified disk encoded temporary)
                      (tx_os (remove temporary))))))"

definition persist_committed :: "restore_host \<Rightarrow> journal_intent \<Rightarrow> journal_marker action_run" where
  "persist_committed h intent = persist_marker h intent JournalCommitted ValidationPassed RollbackNotRequired"

definition persist_rolled_back :: "restore_host \<Rightarrow> journal_intent \<Rightarrow> validation_status \<Rightarrow> journal_marker action_run" where
  "persist_rolled_back h intent validation = persist_marker h intent JournalRolledBack validation RollbackSucceeded"

definition persist_aborted :: "restore_host \<Rightarrow> journal_intent \<Rightarrow> journal_marker action_run" where
  "persist_aborted h intent = persist_marker h intent JournalRolledBack ValidationNotRun RollbackNotRequired"

end
