(* ===== verification/PathMatch.thy ===== *)
theory PathMatch
  imports GoPaths
begin

text \<open>
  \<open>path.Match\<close> of Go's library (on Unix \<open>filepath.Match\<close> is the same function): shell patterns on
  bytes, with runes for \<open>?\<close> and classes. \<open>None\<close> is \<open>ErrBadPattern\<close>.
\<close>

section \<open>Chunks of a pattern\<close>

datatype glob_item = GByte char | GAny | GClass bool "(nat \<times> nat) list"

text \<open>\<open>scanChunk\<close> after the leading stars: the text up to the next star outside of a class.\<close>

fun scan_chunk :: "bool \<Rightarrow> string \<Rightarrow> string \<times> string" where
  "scan_chunk inrange [] = ([], [])"
| "scan_chunk inrange (c # cs) =
     (if c = BSLASH then
        (case cs of [] \<Rightarrow> ([c], [])
         | d # ds \<Rightarrow> (case scan_chunk inrange ds of (a, b) \<Rightarrow> (c # d # a, b)))
      else if c = CHR ''*'' \<and> \<not> inrange then ([], c # cs)
      else (case scan_chunk (c = CHR ''['' \<or> inrange \<and> c \<noteq> CHR '']'') cs of (a, b) \<Rightarrow> (c # a, b)))"

lemma scan_chunk_length: "scan_chunk r p = (a, b) \<Longrightarrow> length b \<le> length p"
  by (induction r p arbitrary: a rule: scan_chunk.induct) (auto split: if_splits list.splits prod.splits)

lemma scan_chunk_shorter:
  "scan_chunk False (dropWhile ((=) CHR ''*'') (c # p)) = (a, b) \<Longrightarrow> length b < Suc (length p)"
proof (cases "c = CHR ''*''")
  case True
  assume "scan_chunk False (dropWhile ((=) CHR ''*'') (c # p)) = (a, b)"
  then have "length b \<le> length (dropWhile ((=) CHR ''*'') p)" using True scan_chunk_length by auto
  then show ?thesis using length_dropWhile_le[of "(=) CHR ''*''" p] by linarith
next
  case False
  assume "scan_chunk False (dropWhile ((=) CHR ''*'') (c # p)) = (a, b)"
  then show ?thesis using False
    by (auto split: if_splits list.splits prod.splits dest!: scan_chunk_length)
qed

text \<open>\<open>getEsc\<close>: a possibly escaped rune of a class; something must follow it.\<close>

definition get_esc :: "string \<Rightarrow> (nat \<times> string) option" where
  "get_esc chunk =
     (if chunk = [] \<or> hd chunk = CHR ''-'' \<or> hd chunk = CHR '']'' then None
      else let c = (if hd chunk = BSLASH then tl chunk else chunk) in
        if c = [] \<or> rune_width c = 0 \<or> drop (rune_width c) c = [] then None
        else Some (rune_value c, drop (rune_width c) c))"

lemma get_esc_length: "get_esc s = Some (r, t) \<Longrightarrow> length t < length s"
  by (cases s) (auto simp: get_esc_def Let_def split: if_splits)

text \<open>The ranges of a class up to its bracket; at least one is needed.\<close>

function class_ranges :: "(nat \<times> nat) list \<Rightarrow> string \<Rightarrow> ((nat \<times> nat) list \<times> string) option" where
  "class_ranges acc chunk =
     (if chunk \<noteq> [] \<and> hd chunk = CHR '']'' \<and> acc \<noteq> [] then Some (acc, tl chunk)
      else (case get_esc chunk of
          None \<Rightarrow> None
        | Some (lo, rest) \<Rightarrow>
            if hd rest = CHR ''-'' then
              (case get_esc (tl rest) of None \<Rightarrow> None | Some (hi, rest') \<Rightarrow> class_ranges (acc @ [(lo, hi)]) rest')
            else class_ranges (acc @ [(lo, lo)]) rest))"
  by pat_completeness auto
termination by (relation "measure (\<lambda>(_, s). length s)") (auto dest!: get_esc_length)

declare class_ranges.simps [simp del]

lemma class_ranges_length: "class_ranges acc s = Some (rs, t) \<Longrightarrow> length t \<le> length s"
proof (induction "length s" arbitrary: acc s rule: less_induct)
  case less
  note IH = less(1)
  have ih: "length t \<le> length s" if "length u < length s" "class_ranges bs u = Some (rs, t)" for u bs
    using IH[OF that] that(1) by linarith
  have ih': "length t \<le> length s"
    if "length v < length s" "length u < length v - Suc 0" "class_ranges bs u = Some (rs, t)" for u v bs
    using ih[OF _ that(3)] that(1,2) by linarith
  show ?case
    using less(2) by (subst (asm) class_ranges.simps)
      (auto split: if_splits option.splits prod.splits dest!: get_esc_length intro: ih ih')
qed

text \<open>The items of a chunk, as \<open>matchChunk\<close> reads them whether or not they still match.\<close>

function glob_items :: "string \<Rightarrow> glob_item list option" where
  "glob_items [] = Some []"
| "glob_items (c # cs) =
     (if c = CHR ''['' then
        (let negated = (cs \<noteq> [] \<and> hd cs = CHR ''^'') in
         case class_ranges [] (if negated then tl cs else cs) of
           None \<Rightarrow> None
         | Some (ranges, rest) \<Rightarrow> map_option (Cons (GClass negated ranges)) (glob_items rest))
      else if c = CHR ''?'' then map_option (Cons GAny) (glob_items cs)
      else if c = BSLASH then
        (case cs of [] \<Rightarrow> None | d # ds \<Rightarrow> map_option (Cons (GByte d)) (glob_items ds))
      else map_option (Cons (GByte c)) (glob_items cs))"
  by pat_completeness auto
termination by (relation "measure length") (auto split: if_splits dest!: class_ranges_length)

section \<open>Matching\<close>

definition item_width :: "glob_item \<Rightarrow> string \<Rightarrow> nat option" where
  "item_width item s =
     (if s = [] then None
      else (case item of
          GByte b \<Rightarrow> if hd s = b then Some 1 else None
        | GAny \<Rightarrow> if hd s = CHR ''/'' then None else Some (max 1 (rune_width s))
        | GClass negated ranges \<Rightarrow>
            if list_ex (\<lambda>(lo, hi). lo \<le> rune_value s \<and> rune_value s \<le> hi) ranges = negated then None
            else Some (max 1 (rune_width s))))"

fun match_items :: "glob_item list \<Rightarrow> string \<Rightarrow> string option" where
  "match_items [] s = Some s"
| "match_items (i # is) s = (case item_width i s of None \<Rightarrow> None | Some n \<Rightarrow> match_items is (drop n s))"

text \<open>The places a starred chunk is tried at: a star does not cross a slash.\<close>

fun after_star :: "string \<Rightarrow> string list" where
  "after_star [] = []"
| "after_star (c # cs) = (if c = CHR ''/'' then [] else cs # after_star cs)"

definition first_match :: "glob_item list \<Rightarrow> bool \<Rightarrow> string list \<Rightarrow> string option" where
  "first_match is final starts =
     (case List.map_filter (\<lambda>s. case match_items is s of None \<Rightarrow> None | Some t \<Rightarrow> if t = [] \<or> \<not> final then Some t else None) starts of
        [] \<Rightarrow> None | t # _ \<Rightarrow> Some t)"

text \<open>The rest of a pattern after a mismatch: all of its chunks must be well formed.\<close>

function glob_valid :: "string \<Rightarrow> bool" where
  "glob_valid pattern =
     (if pattern = [] then True
      else (case scan_chunk False (dropWhile ((=) CHR ''*'') pattern) of (chunk, rest) \<Rightarrow>
        glob_items chunk \<noteq> None \<and> glob_valid rest))"
  by auto
termination by (relation "measure length") (auto simp: neq_Nil_conv dest!: sym[of "(_, _)"] scan_chunk_shorter)

declare glob_valid.simps [simp del]

function path_match :: "string \<Rightarrow> string \<Rightarrow> bool option" where
  "path_match pattern name =
     (if pattern = [] then Some (name = [])
      else (case scan_chunk False (dropWhile ((=) CHR ''*'') pattern) of (chunk, rest) \<Rightarrow>
        let star = (hd pattern = CHR ''*'') in
        if star \<and> chunk = [] then Some (CHR ''/'' \<notin> set name)
        else (case glob_items chunk of
            None \<Rightarrow> None
          | Some is \<Rightarrow>
              (case first_match is (rest = []) (name # (if star then after_star name else [])) of
                 Some t \<Rightarrow> path_match rest t
               | None \<Rightarrow> if glob_valid rest then Some False else None))))"
  by auto
termination
  by (relation "measure (\<lambda>(p, _). length p)") (auto simp: neq_Nil_conv dest!: sym[of "(_, _)"] scan_chunk_shorter)

declare path_match.simps [simp del]

section \<open>What a pattern means\<close>

text \<open>The chunks of a pattern, and the names they describe: stars stand for any bytes but slashes.\<close>

function glob_chunks :: "string \<Rightarrow> (bool \<times> glob_item list) list option" where
  "glob_chunks pattern =
     (if pattern = [] then Some []
      else (case scan_chunk False (dropWhile ((=) CHR ''*'') pattern) of (chunk, rest) \<Rightarrow>
        (case glob_items chunk of None \<Rightarrow> None
         | Some is \<Rightarrow> map_option (Cons (hd pattern = CHR ''*'', is)) (glob_chunks rest))))"
  by auto
termination by (relation "measure length") (auto simp: neq_Nil_conv dest!: sym[of "(_, _)"] scan_chunk_shorter)

declare glob_chunks.simps [simp del]

fun glob_describes :: "(bool \<times> glob_item list) list \<Rightarrow> string \<Rightarrow> bool" where
  "glob_describes [] name \<longleftrightarrow> name = []"
| "glob_describes ((star, is) # cs) name \<longleftrightarrow>
     (\<exists>skip s t. name = skip @ s \<and> (if star then CHR ''/'' \<notin> set skip else skip = []) \<and>
       match_items is s = Some t \<and> glob_describes cs t)"

text \<open>Names of ASCII characters without a slash, such as those of processes and of files.\<close>

definition plain_name :: "string \<Rightarrow> bool" where
  "plain_name s \<longleftrightarrow> list_all (\<lambda>c. byte c < 128 \<and> c \<noteq> CHR ''/'') s"

lemma plain_name_append [simp]: "plain_name (s @ t) \<longleftrightarrow> plain_name s \<and> plain_name t"
  by (auto simp: plain_name_def)

lemma plain_name_drop [intro]: "plain_name s \<Longrightarrow> plain_name (drop n s)"
  by (metis append_take_drop_id plain_name_append)

lemma plain_no_slash: "plain_name s \<Longrightarrow> CHR ''/'' \<notin> set s"
  by (auto simp: plain_name_def list_all_iff)

lemma glob_valid_iff: "glob_valid p \<longleftrightarrow> glob_chunks p \<noteq> None"
proof (induction p rule: glob_chunks.induct)
  case (1 p)
  then show ?case by (subst glob_valid.simps, subst glob_chunks.simps) (auto split: prod.splits option.splits)
qed

lemma path_match_step:
  assumes "p \<noteq> []" "scan_chunk False (dropWhile ((=) CHR ''*'') p) = (chunk, rest)"
    "\<not> (hd p = CHR ''*'' \<and> chunk = [])" "glob_items chunk = Some is"
  shows "path_match p name =
    (case first_match is (rest = []) (name # (if hd p = CHR ''*'' then after_star name else [])) of
       Some t \<Rightarrow> path_match rest t | None \<Rightarrow> if glob_valid rest then Some False else None)"
  unfolding path_match.simps[of p name] assms(2) prod.case Let_def if_not_P[OF assms(1)] if_not_P[OF assms(3)] assms(4) option.case
  by (rule refl)

lemma path_match_None: "path_match p name = None \<longleftrightarrow> glob_chunks p = None"
proof (induction p name rule: path_match.induct)
  case (1 p name)
  show ?case
  proof (cases "p = []")
    case True
    then show ?thesis by (simp add: path_match.simps glob_chunks.simps)
  next
    case False
    obtain chunk rest where c: "scan_chunk False (dropWhile ((=) CHR ''*'') p) = (chunk, rest)" by fastforce
    have triv: "rest = []" if "chunk = []"
      using c that hd_dropWhile[of "(=) CHR ''*''" p]
      by (cases "dropWhile ((=) CHR ''*'') p") (auto split: if_splits list.splits prod.splits dest: set_dropWhileD)
    note eqs = path_match.simps[of p name] glob_chunks.simps[of p] c
    show ?thesis
    proof (cases "hd p = CHR ''*'' \<and> chunk = []")
      case True
      then show ?thesis using False triv by (simp add: eqs glob_chunks.simps[of "[]"])
    next
      case step: False
      show ?thesis
      proof (cases "glob_items chunk")
        case None
        then show ?thesis using False step by (auto simp: eqs)
      next
        case (Some "is")
        define f where "f = first_match is (rest = []) (name # (if hd p = CHR ''*'' then after_star name else []))"
        have "path_match rest t = None \<longleftrightarrow> glob_chunks rest = None" if "f = Some t" for t
          using 1[OF False c[symmetric] refl step Some] that unfolding f_def by blast
        then have "path_match p name = None \<longleftrightarrow> glob_chunks rest = None"
          unfolding path_match_step[OF False c step Some] f_def[symmetric] by (auto simp: glob_valid_iff split: option.split)
        moreover have "glob_chunks p = None \<longleftrightarrow> glob_chunks rest = None" using False Some by (simp add: glob_chunks.simps[of p] c)
        ultimately show ?thesis by simp
      qed
    qed
  qed
qed

lemma scan_chunk_stop: "scan_chunk r p = (a, b) \<Longrightarrow> b = [] \<or> hd b = CHR ''*''"
  by (induction r p arbitrary: a rule: scan_chunk.induct) (auto split: if_splits list.splits prod.splits)

lemma chunks_starred: "b = [] \<or> hd b = CHR ''*'' \<Longrightarrow> glob_chunks b = Some cs \<Longrightarrow> cs \<noteq> [] \<Longrightarrow> fst (hd cs)"
  by (subst (asm) glob_chunks.simps) (auto split: if_splits prod.splits option.splits)

lemma describes_longer: "glob_describes cs t \<Longrightarrow> cs \<noteq> [] \<Longrightarrow> fst (hd cs) \<Longrightarrow> CHR ''/'' \<notin> set u \<Longrightarrow> glob_describes cs (u @ t)"
proof (cases cs)
  case (Cons c cs')
  assume d: "glob_describes cs t" "fst (hd cs)" "CHR ''/'' \<notin> set u"
  obtain "is" where c: "c = (True, is)" using d(2) Cons by (cases c) auto
  obtain skip s t' where "t = skip @ s" "CHR ''/'' \<notin> set skip" "match_items is s = Some t'" "glob_describes cs' t'"
    using d(1) Cons c by auto
  then have "u @ t = (u @ skip) @ s \<and> CHR ''/'' \<notin> set (u @ skip) \<and> match_items is s = Some t' \<and> glob_describes cs' t'"
    using d(3) by simp
  then show ?thesis unfolding Cons c glob_describes.simps if_True by blast
qed simp

lemma plain_match: "match_items is s = Some t \<Longrightarrow> plain_name s \<Longrightarrow> t = drop (length is) s \<and> length is \<le> length s"
proof (induction "is" arbitrary: s)
  case (Cons i "is")
  then obtain c s' where s: "s = c # s'" by (cases s) (auto simp: item_width_def)
  have "rune_width s = 1" using Cons.prems(2) s by (simp add: plain_name_def rune_width_def)
  then have "item_width i s = None \<or> item_width i s = Some 1" by (auto simp: item_width_def s split: glob_item.splits)
  then have "match_items is s' = Some t" using Cons.prems(1) s by auto
  then show ?case using Cons.IH[of s'] Cons.prems(2) s by (simp add: plain_name_def)
qed simp

lemma after_star_suffixes: "CHR ''/'' \<notin> set name \<Longrightarrow> s \<in> set (name # after_star name) \<longleftrightarrow> (\<exists>skip. name = skip @ s)"
proof (induction name)
  case (Cons c name)
  then have "s \<in> set (name # after_star name) \<longleftrightarrow> (\<exists>skip. name = skip @ s)" by simp
  moreover have "set ((c # name) # after_star (c # name)) = insert (c # name) (set (name # after_star name))"
    using Cons.prems by auto
  ultimately show ?case by (auto simp: Cons_eq_append_conv)
qed simp

lemma after_star_shorter: "sorted_wrt (\<lambda>a b. length b < length a) (s # after_star s)"
proof (induction s)
  case (Cons c s)
  have "length t < length (c # s)" if "t \<in> set (after_star s)" for t using Cons that by auto
  then show ?case using Cons by auto
qed simp

lemma first_match_Some:
  "first_match is final starts = Some t \<Longrightarrow>
     \<exists>as s bs. starts = as @ s # bs \<and> match_items is s = Some t \<and> (t = [] \<or> \<not> final) \<and>
       (\<forall>a \<in> set as. \<forall>u. match_items is a = Some u \<longrightarrow> u \<noteq> [] \<and> final)"
proof (induction starts)
  case (Cons a starts)
  show ?case
  proof (cases "\<exists>u. match_items is a = Some u \<and> (u = [] \<or> \<not> final)")
    case True
    then obtain u where u: "match_items is a = Some u" "u = [] \<or> \<not> final" by blast
    then have "t = u" using Cons.prems by (auto simp: first_match_def map_filter_simps)
    then have "a # starts = [] @ a # starts \<and> match_items is a = Some t \<and> (t = [] \<or> \<not> final)" using u by simp
    then show ?thesis by fastforce
  next
    case False
    then have "first_match is final starts = Some t"
      using Cons.prems by (auto simp: first_match_def map_filter_simps split: option.splits if_splits)
    then obtain as s bs where "starts = as @ s # bs" "match_items is s = Some t" "t = [] \<or> \<not> final"
      "\<forall>a \<in> set as. \<forall>u. match_items is a = Some u \<longrightarrow> u \<noteq> [] \<and> final"
      using Cons.IH by blast
    then show ?thesis using False by (intro exI[of _ "a # as"] exI[of _ s] exI[of _ bs]) auto
  qed
qed (simp add: first_match_def map_filter_simps)

lemma first_match_None:
  "first_match is final starts = None \<Longrightarrow> s \<in> set starts \<Longrightarrow> match_items is s = Some t \<Longrightarrow> t \<noteq> [] \<and> final"
  by (induction starts) (auto simp: first_match_def map_filter_simps split: option.splits if_splits)

theorem path_match_describes:
  assumes "glob_chunks p = Some cs" "plain_name name"
  shows "path_match p name = Some (glob_describes cs name)"
  using assms
proof (induction p name arbitrary: cs rule: path_match.induct)
  case (1 p name)
  note plain = 1(3)
  show ?case
  proof (cases "p = []")
    case True
    then show ?thesis using 1(2) by (auto simp: path_match.simps glob_chunks.simps)
  next
    case False
    obtain chunk rest where c: "scan_chunk False (dropWhile ((=) CHR ''*'') p) = (chunk, rest)" by fastforce
    define star where "star = (hd p = CHR ''*'')"
    obtain "is" cs' where cs: "glob_items chunk = Some is" "glob_chunks rest = Some cs'" "cs = (star, is) # cs'"
      using 1(2) False by (auto simp: glob_chunks.simps[of p] c star_def split: option.splits)
    define starts where "starts = name # (if star then after_star name else [])"
    have starts: "s \<in> set starts \<longleftrightarrow> (\<exists>skip. name = skip @ s \<and> (if star then CHR ''/'' \<notin> set skip else skip = []))" for s
      using after_star_suffixes[OF plain_no_slash[OF plain], of s] plain_no_slash[OF plain] by (auto simp: starts_def)
    have spec: "glob_describes cs name \<longleftrightarrow> (\<exists>s t. s \<in> set starts \<and> match_items is s = Some t \<and> glob_describes cs' t)"
      unfolding cs(3) glob_describes.simps starts by blast
    have last: "cs' = [] \<longleftrightarrow> rest = []" using cs(2) by (auto simp: glob_chunks.simps[of rest] split: if_splits prod.splits option.splits)
    show ?thesis
    proof (cases "star \<and> chunk = []")
      case True
      then have "is = []" "rest = []"
        using cs(1) c hd_dropWhile[of "(=) CHR ''*''" p]
        by (cases "dropWhile ((=) CHR ''*'') p"; auto split: if_splits list.splits prod.splits)+
      then have "glob_describes cs name" using True last plain_no_slash[OF plain] by (auto simp: cs(3) intro!: exI[of _ "[]"])
      then show ?thesis using True False plain_no_slash[OF plain] by (simp add: path_match.simps[of p] c star_def)
    next
      case step: False
      have code: "path_match p name = (case first_match is (rest = []) starts of
          Some t \<Rightarrow> path_match rest t | None \<Rightarrow> if glob_valid rest then Some False else None)"
        using path_match_step[OF False c _ cs(1)] step unfolding star_def starts_def by blast
      show ?thesis
      proof (cases "first_match is (rest = []) starts")
        case None
        have "\<not> glob_describes cs' t" if "s \<in> set starts" "match_items is s = Some t" for s t
          using first_match_None[OF None that] last by auto
        then show ?thesis using None cs(2) by (auto simp: code glob_valid_iff spec)
      next
        case (Some t)
        obtain as s bs where m: "starts = as @ s # bs" "match_items is s = Some t" "t = [] \<or> rest \<noteq> []"
            "\<forall>a \<in> set as. \<forall>u. match_items is a = Some u \<longrightarrow> u \<noteq> [] \<and> rest = []"
          using first_match_Some[OF Some] by blast
        have s: "s \<in> set starts" using m(1) by simp
        have in_plain: "plain_name u" if "u \<in> set starts" for u using that plain unfolding starts by auto
        have t: "t = drop (length is) s" "length is \<le> length s" using plain_match[OF m(2) in_plain[OF s]] by auto
        have IH: "path_match rest t = Some (glob_describes cs' t)"
          using 1(1)[OF False c[symmetric] refl _ cs(1) _ cs(2)] step Some in_plain[OF s] t(1)
          by (auto simp: star_def starts_def)
        have "glob_describes cs' t" if d: "u \<in> set starts" "match_items is u = Some v" "glob_describes cs' v" for u v
        proof (cases "rest = []")
          case True
          then show ?thesis using m(3) last by simp
        next
          case more: False
          have v: "v = drop (length is) u" "length is \<le> length u" using plain_match[OF d(2) in_plain[OF d(1)]] by auto
          have "u \<notin> set as" using d(2) more m(4) by blast
          moreover have "sorted_wrt (\<lambda>a b. length b < length a) starts" using after_star_shorter[of name] by (simp add: starts_def)
          ultimately have len: "length u \<le> length s" using d(1) m(1) by (auto simp: sorted_wrt_append)
          have "suffix u name" "suffix s name" using d(1) s starts by (auto simp: suffix_def)
          then have "suffix u s" using len by (rule suffix_length_suffix)
          then have "suffix v s" unfolding v(1) using suffix_drop suffix_order.trans by blast
          then have "suffix v t" unfolding t(1)
            by (rule suffix_length_suffix[OF _ suffix_drop]) (use v len in simp)
          then obtain x where x: "t = x @ v" by (auto simp: suffix_def)
          have "plain_name t" using in_plain[OF s] unfolding t(1) by (rule plain_name_drop)
          then have "CHR ''/'' \<notin> set x" using x by (simp add: plain_no_slash)
          then show ?thesis
            using describes_longer[OF d(3)] last more chunks_starred[OF scan_chunk_stop[OF c] cs(2)] x by simp
        qed
        then show ?thesis using IH Some s m(2) by (auto simp: code spec)
      qed
    qed
  qed
qed

end
