(* ===== verification/RestoreMaterialize.thy ===== *)
theory RestoreMaterialize
  imports RestoreMarkers RestoreMerge PathMatch Selection Stage
begin

text \<open>
  The read-only preflight of a restore (\<open>internal/configrestore\<close>: errors.go, types.go, preflight.go,
  materialize.go): the declared application must not run, every restore declaration is resolved to a
  concrete target, no two targets touch, and merges and globs become exact actions. There is no host
  boundary; without one the identities of a source and a target are their paths.
\<close>

section \<open>Errors\<close>

datatype restore_code =
    RestoreInvalidRequest | RestoreUnsupported | RestoreUnsafePath | RestoreSourceMissing
  | RestoreUnsupportedFileType | RestoreTargetOverlap | RestoreValidationMapping
  | RestoreInvalidRegistryTarget | RestoreInvalidRegistryValue | RestoreMalformedJSON
  | RestoreMaterialization | RestoreAppClosureConfig | RestoreProcessObservation | RestoreAppRunning
  | RestoreBackupFailed | RestoreJournalIntentFailed | RestoreJournalCompletionFailed

record restore_error =
  re_code :: restore_code
  re_actionIndex :: int
  re_validationIndex :: int
  re_mappingCount :: int
  re_target :: string
  re_processBasename :: string
  re_processPattern :: string

definition restore_error_at :: "restore_code \<Rightarrow> int \<Rightarrow> string \<Rightarrow> restore_error" where
  "restore_error_at code actionIndex target =
     \<lparr>re_code = code, re_actionIndex = actionIndex, re_validationIndex = - 1, re_mappingCount = - 1,
      re_target = target, re_processBasename = [], re_processPattern = []\<rparr>"

section \<open>The application must be closed\<close>

definition validate_process_pattern :: "restore_host \<Rightarrow> string \<Rightarrow> bool" where
  "validate_process_pattern h pattern \<longleftrightarrow>
     pattern \<noteq> [] \<and> pattern = trim_space pattern \<and> \<not> contains_any pattern [CHR ''/'', BSLASH, CHR '':''] \<and>
     NUL \<notin> set pattern \<and> \<not> has_control pattern \<and>
     path_match (to_lower (rh_lower h) pattern) ''process.exe'' \<noteq> None"

text \<open>\<open>path.Base\<close>.\<close>

definition portable_basename :: "string \<Rightarrow> string" where
  "portable_basename s =
     (let normalized = replace_byte BSLASH CHR ''/'' (trim_space s);
          parts = filter (\<lambda>w. w \<noteq> []) (split_on CHR ''/'' normalized) in
      if normalized = [] then ''.'' else if parts = [] then ''/'' else last parts)"

definition app_running :: "string \<Rightarrow> string \<Rightarrow> restore_error" where
  "app_running basename pattern =
     (restore_error_at RestoreAppRunning (- 1) [])\<lparr>re_processBasename := basename, re_processPattern := pattern\<rparr>"

definition observe_process :: "restore_host \<Rightarrow> string list \<Rightarrow> string \<Rightarrow> restore_error option" where
  "observe_process h patterns observed =
     (let basename = portable_basename observed in
      if basename = [] \<or> basename = ''.'' then None
      else first_error (\<lambda>pattern.
        case path_match (to_lower (rh_lower h) pattern) (to_lower (rh_lower h) basename) of
          None \<Rightarrow> Some (restore_error_at RestoreAppClosureConfig (- 1) [])
        | Some matched \<Rightarrow> if matched then Some (app_running basename pattern) else None) patterns)"

text \<open>The observer is the list of running processes it returns; \<open>Some None\<close> is its failure.\<close>

definition preflight_app_closure ::
    "restore_host \<Rightarrow> bool \<Rightarrow> string list \<Rightarrow> string list option option \<Rightarrow> restore_error option" where
  "preflight_app_closure h required patterns observer =
     (if \<not> required then None
      else if patterns = [] then Some (restore_error_at RestoreAppClosureConfig (- 1) [])
      else (case observer of
          None \<Rightarrow> Some (restore_error_at RestoreAppClosureConfig (- 1) [])
        | Some names \<Rightarrow>
            if list_ex (\<lambda>p. \<not> validate_process_pattern h p) patterns
            then Some (restore_error_at RestoreAppClosureConfig (- 1) [])
            else (case names of
                None \<Rightarrow> Some (restore_error_at RestoreProcessObservation (- 1) [])
              | Some observed \<Rightarrow> first_error (observe_process h patterns) observed)))"

section \<open>The request\<close>

record restore_request =
  rr_stage :: "stage_result option"
  rr_plan :: plan_set
  rr_processPatterns :: "string list"
  rr_processObserver :: "string list option option"

record materialized_set =
  ms_actions :: "action list"
  ms_validations :: "(validation_def \<times> string) list"
  ms_instance :: config_instance

type_synonym 'a restore_run = "(tx, restore_error, 'a) run"

definition invalid_request :: restore_error where
  "invalid_request = restore_error_at RestoreInvalidRequest (- 1) []"

definition validate_request :: "restore_request \<Rightarrow> (string \<times> target_instance \<times> generation_def) restore_run" where
  "validate_request rq =
     io_then (io_map_error (\<lambda>_. invalid_request) check_context)
     (case (rr_stage rq, ps_targetDef (rr_plan rq)) of
        (Some stg, Some generation) \<Rightarrow>
          (let plan = rr_plan rq; res = ps_resolution plan; src = ps_source plan in
           io_bind (tx_lift (io_map_error (\<lambda>_. restore_error_at RestoreInvalidRequest (- 1) (sg_root stg)) (validate_root (sg_root stg)))) (\<lambda>_.
           if gen_id generation = [] \<or> sg_targetGeneration stg \<noteq> gen_id generation \<or> cr_targetGeneration res \<noteq> gen_id generation
           then io_fail invalid_request
           else if cr_resolution res \<noteq> ResolutionDirect \<and> cr_resolution res \<noteq> ResolutionMigrate then io_fail invalid_request
           else (case filter (\<lambda>t. ti_id t = cr_targetInstanceID res) (ps_targets plan) of
               [selected] \<Rightarrow>
                 if ti_generation selected \<noteq> gen_id generation then io_fail invalid_request
                 else if ti_moduleID selected \<noteq> sc_moduleID src \<or> cr_moduleID res \<noteq> sc_moduleID src \<or>
                   cr_configSetID res \<noteq> sc_configSetID src then io_fail invalid_request
                 else io_return (sg_root stg, selected, generation)
             | _ \<Rightarrow> io_fail invalid_request)))
      | _ \<Rightarrow> io_fail invalid_request)"

definition target_config_instance :: "target_instance \<Rightarrow> config_instance" where
  "target_config_instance t =
     \<lparr>ci_id = ti_id t, ci_moduleID = ti_moduleID t, ci_detectorID = ti_detectorID t, ci_root = ti_root t,
      ci_version = (if ti_normalizedVersion t \<noteq> []
        then \<lparr>ve_raw = ti_rawVersion t, ve_normalized = ti_normalizedVersion t, ve_numeric = True\<rparr>
        else new_version_evidence (ti_rawVersion t)),
      ci_evidence = (let e = ti_evidence t in
        \<lparr>ie_type = evd_type e, ie_appID = evd_appID e, ie_backend = evd_backend e, ie_platform = evd_platform e,
         ie_ref = evd_ref e, ie_driver = evd_driver e, ie_path = []\<rparr>),
      ci_locator = []\<rparr>"

section \<open>Resolution of a declaration\<close>

record resolved_restore =
  rv_definition :: restore_def
  rv_source :: string
  rv_target :: string
  rv_sourceInfo :: "node option"
  rv_sourceMissing :: bool
  rv_registry :: "registry_value option"
  rv_canonical :: string
  rv_registryClaim :: bool

definition validate_relative_glob :: "string \<Rightarrow> bool" where
  "validate_relative_glob pattern \<longleftrightarrow>
     pattern \<noteq> [] \<and> pattern = trim_space pattern \<and> \<not> is_abs pattern \<and> \<not> contains_any pattern [CHR ''$'', CHR ''%'', CHR ''~'', NUL] \<and>
     (let normalized = to_slashes pattern in
      \<not> prefix ''/'' normalized \<and>
      list_all (\<lambda>c. c \<noteq> [] \<and> c \<noteq> ''.'' \<and> c \<noteq> ''..'' \<and> c = trim_space c) (split_on CHR ''/'' normalized) \<and>
      path_match normalized ''probe'' \<noteq> None)"

definition resolve_registry_value ::
    "restore_host \<Rightarrow> int \<Rightarrow> restore_def \<Rightarrow> config_instance \<Rightarrow> restore_error + registry_value" where
  "resolve_registry_value h index d i =
     (case expand_instance_template (rd_key d) i of
        Inl _ \<Rightarrow> Inl (restore_error_at RestoreInvalidRegistryTarget index (rd_key d))
      | Inr key \<Rightarrow>
        (case expand_instance_template (rd_valueName d) i of
           Inl _ \<Rightarrow> Inl (restore_error_at RestoreInvalidRegistryValue index (rd_key d))
         | Inr valueName \<Rightarrow>
           (case normalize_hkcu_key key of
              None \<Rightarrow> Inl (restore_error_at RestoreInvalidRegistryTarget index (rd_key d))
            | Some k \<Rightarrow>
                let bad = Inl (restore_error_at RestoreInvalidRegistryValue index k);
                    valueType = to_upper (rh_upper h) (trim_space (rd_valueType d));
                    found = Inr \<lparr>gv_key = k, gv_valueName = valueName, gv_valueType = valueType, gv_data = rd_data d\<rparr> in
                if valueName = [] \<or> valueName \<noteq> trim_space valueName \<or> has_control valueName then bad
                else if valueType = ''REG_DWORD'' then (if parse_dword (rd_data d) = None then bad else found)
                else if valueType = ''REG_SZ'' \<or> valueType = ''REG_EXPAND_SZ''
                then (if NUL \<in> set (rd_data d) then bad else found)
                else bad)))"

definition fs_types :: "string list" where
  "fs_types = [''copy'', ''merge-json'', ''merge-ini'', ''append'', ''delete-glob'']"

definition resolve_target ::
    "discovery_host \<Rightarrow> restore_def \<Rightarrow> config_instance \<Rightarrow> int \<Rightarrow> string restore_run" where
  "resolve_target dh d i index =
     io_bind (io_of (map_sum (\<lambda>_. restore_error_at RestoreUnsafePath index (rd_target d)) id
       (expand_instance_path dh (rd_target d) i HostPath))) (\<lambda>target.
     if \<not> concrete_host_path target then io_fail (restore_error_at RestoreUnsafePath index target)
     else io_then (io_map_error (\<lambda>_. restore_error_at RestoreUnsafePath index target) (reject_existing_target_links target))
       (io_return target))"

definition resolve_source :: "string \<Rightarrow> resolved_restore \<Rightarrow> int \<Rightarrow> resolved_restore restore_run" where
  "resolve_source stageRoot ent index =
     (let d = rv_definition ent; err = (\<lambda>code. restore_error_at code index (rv_target ent)) in
      if rd_source d = [] then io_fail (err RestoreUnsafePath)
      else io_bind (tx_lift (io_map_error (\<lambda>_. err RestoreUnsafePath) (resolve stageRoot (rd_source d)))) (\<lambda>source.
        io_bind (tx_lift (io_try (lstat source))) (\<lambda>r.
          case r of
            Inl ENOENT \<Rightarrow>
              if rd_optional d then io_return (ent\<lparr>rv_source := source, rv_sourceMissing := True\<rparr>)
              else io_fail (err RestoreSourceMissing)
          | Inl e \<Rightarrow> io_fail (err RestoreMaterialization)
          | Inr info \<Rightarrow>
              if rd_type d \<noteq> ''copy'' \<and> \<not> is_regular info then io_fail (err RestoreUnsupportedFileType)
              else if rd_type d = ''copy'' \<and> \<not> is_regular info \<and> \<not> is_dir info then io_fail (err RestoreUnsupportedFileType)
              else io_return (ent\<lparr>rv_source := source, rv_sourceInfo := Some info\<rparr>))))"

definition resolve_glob_target :: "resolved_restore \<Rightarrow> int \<Rightarrow> resolved_restore restore_run" where
  "resolve_glob_target ent index =
     (let err = (\<lambda>code. restore_error_at code index (rv_target ent)) in
      if \<not> validate_relative_glob (rd_pattern (rv_definition ent)) then io_fail (err RestoreUnsafePath)
      else io_bind (tx_lift (io_try (lstat (rv_target ent)))) (\<lambda>r.
        case r of
          Inl ENOENT \<Rightarrow> io_return ent
        | Inl e \<Rightarrow> io_fail (err RestoreMaterialization)
        | Inr info \<Rightarrow> if is_dir info then io_return ent else io_fail (err RestoreUnsupportedFileType)))"

definition resolve_definition ::
    "discovery_host \<Rightarrow> restore_host \<Rightarrow> string \<Rightarrow> config_instance \<Rightarrow> restore_def \<Rightarrow> int \<Rightarrow> resolved_restore restore_run" where
  "resolve_definition dh h stageRoot i d index =
     (if rd_type d \<in> set fs_types then
        io_bind (resolve_target dh d i index) (\<lambda>target.
          let ent = \<lparr>rv_definition = d, rv_source = [], rv_target = target, rv_sourceInfo = None, rv_sourceMissing = False,
                rv_registry = None, rv_canonical = canonical_filesystem_target target, rv_registryClaim = False\<rparr> in
          if rd_type d = ''delete-glob'' then resolve_glob_target ent index else resolve_source stageRoot ent index)
      else if rd_type d = ''registry-set'' then
        io_bind (io_of (resolve_registry_value h index d i)) (\<lambda>v.
          io_return \<lparr>rv_definition = d, rv_source = [], rv_target = gv_key v @ [BSLASH] @ gv_valueName v, rv_sourceInfo = None,
            rv_sourceMissing = False, rv_registry = Some v,
            rv_canonical = to_lower (rh_lower h) (gv_key v) @ [NUL] @ to_lower (rh_lower h) (gv_valueName v), rv_registryClaim = True\<rparr>)
      else io_fail (restore_error_at RestoreUnsupported index (rd_target d)))"

fun resolve_definitions ::
    "discovery_host \<Rightarrow> restore_host \<Rightarrow> string \<Rightarrow> config_instance \<Rightarrow> int \<Rightarrow> restore_def list \<Rightarrow> resolved_restore list restore_run" where
  "resolve_definitions dh h stageRoot i index [] = io_return []"
| "resolve_definitions dh h stageRoot i index (d # ds) =
     io_bind (resolve_definition dh h stageRoot i d index) (\<lambda>ent.
     io_bind (resolve_definitions dh h stageRoot i (index + 1) ds) (\<lambda>ents. io_return (ent # ents)))"

definition entries_overlap :: "resolved_restore \<Rightarrow> resolved_restore \<Rightarrow> bool" where
  "entries_overlap l r \<longleftrightarrow> rv_registryClaim l = rv_registryClaim r \<and>
     (if rv_registryClaim l then rv_canonical l = rv_canonical r
      else filesystem_targets_overlap (rv_canonical l) (rv_canonical r))"

fun overlap_with :: "resolved_restore \<Rightarrow> int \<Rightarrow> resolved_restore list \<Rightarrow> restore_error option" where
  "overlap_with left index [] = None"
| "overlap_with left index (e # es) =
     (if entries_overlap left e then Some (restore_error_at RestoreTargetOverlap index (rv_target e))
      else overlap_with left (index + 1) es)"

fun reject_overlapping_targets :: "int \<Rightarrow> resolved_restore list \<Rightarrow> restore_error option" where
  "reject_overlapping_targets index [] = None"
| "reject_overlapping_targets index (e # es) =
     check (overlap_with e (index + 1) es) (reject_overlapping_targets (index + 1) es)"

section \<open>Contents\<close>

text \<open>Why a content cannot be computed, and the code reported for it.\<close>

datatype content_error = TargetNotRegular | ContentPath path_error | ContentDocument doc_code

definition materialization_code :: "content_error \<Rightarrow> restore_code \<Rightarrow> restore_code" where
  "materialization_code e fallback =
     (case e of
        TargetNotRegular \<Rightarrow> RestoreUnsupportedFileType
      | ContentPath (OsError _) \<Rightarrow> fallback
      | ContentPath ByteLimit \<Rightarrow> fallback
      | ContentPath _ \<Rightarrow> RestoreUnsafePath
      | ContentDocument c \<Rightarrow> if c = MalformedJSON then RestoreMalformedJSON else fallback)"

definition read_source :: "string \<Rightarrow> (tx, content_error, string) run" where
  "read_source source =
     tx_lift (io_bind (io_map_error ContentPath (read_regular_file source)) (\<lambda>(data, mode). io_return data))"

definition read_optional_regular_file :: "string \<Rightarrow> (tx, content_error, string option) run" where
  "read_optional_regular_file target =
     io_bind (tx_lift (io_try (lstat target))) (\<lambda>r.
       case r of
         Inl ENOENT \<Rightarrow> io_return None
       | Inl e \<Rightarrow> io_fail (ContentPath (OsError e))
       | Inr info \<Rightarrow>
           if \<not> is_regular info then io_fail TargetNotRegular
           else io_bind (read_source target) (\<lambda>data. io_return (Some data)))"

definition merged_json :: "json_codec \<Rightarrow> json \<Rightarrow> string option \<Rightarrow> doc_code + string" where
  "merged_json c s target =
     try_res (case target of
         None \<Rightarrow> Inr (JObj fmempty)
       | Some data \<Rightarrow> if data = [] then Inr (JObj fmempty) else parse_json c data) (\<lambda>t.
     encode_json c (deep_merge t s))"

definition materialize_json_merge :: "json_codec \<Rightarrow> string \<Rightarrow> string \<Rightarrow> (tx, content_error, string) run" where
  "materialize_json_merge c source target =
     io_bind (read_source source) (\<lambda>sourceData.
     io_bind (io_of (map_sum ContentDocument id (parse_json c sourceData))) (\<lambda>s.
     io_bind (read_optional_regular_file target) (\<lambda>targetData.
       io_of (map_sum ContentDocument id (merged_json c s targetData)))))"

definition merged_ini :: "string \<Rightarrow> string option \<Rightarrow> string" where
  "merged_ini source target =
     format_ini (merge_ini (parse_file (case target of None \<Rightarrow> [] | Some data \<Rightarrow> data)) (parse_file source))"

definition materialize_ini_merge :: "string \<Rightarrow> string \<Rightarrow> (tx, content_error, string) run" where
  "materialize_ini_merge source target =
     io_bind (read_source source) (\<lambda>sourceData.
     io_bind (read_optional_regular_file target) (\<lambda>targetData. io_return (merged_ini sourceData targetData)))"

definition materialize_append :: "string \<Rightarrow> string \<Rightarrow> (tx, content_error, string) run" where
  "materialize_append source target =
     io_bind (read_source source) (\<lambda>sourceData.
     io_bind (read_optional_regular_file target) (\<lambda>targetData. io_return (append_lines targetData sourceData)))"

section \<open>Globs\<close>

definition stable_path_less :: "restore_host \<Rightarrow> string \<Rightarrow> string \<Rightarrow> bool" where
  "stable_path_less h l r =
     (let lf = to_lower (rh_lower h) l; rf = to_lower (rh_lower h) r in if lf \<noteq> rf then lf < rf else l < r)"

text \<open>The visit of a directory for the first component of a pattern; every error is the same.\<close>

fun glob_visit :: "string list \<Rightarrow> string \<Rightarrow> (tx, unit, string list) run" where
  "glob_visit [] current = io_return []"
| "glob_visit (c # cs) current =
     io_bind (tx_lift (io_try (read_dir current))) (\<lambda>r.
       case r of
         Inl ENOENT \<Rightarrow> io_return []
       | Inl e \<Rightarrow> io_fail ()
       | Inr names \<Rightarrow> io_fold (\<lambda>name matches.
           case path_match c name of
             None \<Rightarrow> io_fail ()
           | Some matched \<Rightarrow>
               if \<not> matched then io_return matches
               else let candidate = join_path [current, name] in
                 io_bind (tx_lift (io_map_error (\<lambda>_. ()) (lstat candidate))) (\<lambda>info.
                   if is_link info then io_fail ()
                   else if cs = [] then io_return (if is_regular info then matches @ [candidate] else matches)
                   else if is_dir info then io_bind (glob_visit cs candidate) (\<lambda>more. io_return (matches @ more))
                   else io_return matches)) names [])"

definition expand_delete_glob :: "string \<Rightarrow> string list \<Rightarrow> (tx, unit, string list) run" where
  "expand_delete_glob root components =
     io_then (io_map_error (\<lambda>_. ()) (reject_existing_target_links root)) (glob_visit components root)"

definition delete_action :: "string \<Rightarrow> action" where
  "delete_action p =
     \<lparr>ac_kind = ActionDeleteFile, ac_strategy = ''delete-glob'', ac_source = [], ac_target = clean_path p,
      ac_sourceIsDirectory = False, ac_exclude = [], ac_desiredContent = [], ac_registryValue = None, ac_snapshotRequired = True\<rparr>"

definition check_match :: "resolved_restore \<Rightarrow> int \<Rightarrow> string \<Rightarrow> action list \<Rightarrow> action list restore_run" where
  "check_match ent index p actions =
     (if \<not> path_contained (rv_target ent) p then io_fail (restore_error_at RestoreUnsafePath index p)
      else io_then (io_map_error (\<lambda>_. restore_error_at RestoreUnsafePath index p) (reject_existing_target_links p))
        (io_bind (tx_lift (io_map_error (\<lambda>_. restore_error_at RestoreMaterialization index p) (lstat p))) (\<lambda>info.
          io_return (if is_regular info then actions @ [delete_action p] else actions))))"

definition materialize_delete_glob :: "restore_host \<Rightarrow> resolved_restore \<Rightarrow> int \<Rightarrow> action list restore_run" where
  "materialize_delete_glob h ent index =
     io_bind (io_map_error (\<lambda>_. restore_error_at RestoreUnsafePath index (rv_target ent))
       (expand_delete_glob (rv_target ent) (split_on CHR ''/'' (to_slashes (rd_pattern (rv_definition ent)))))) (\<lambda>matches.
     io_fold (check_match ent index) (sort_by (stable_path_less h) matches) [])"

section \<open>Actions\<close>

definition write_action :: "resolved_restore \<Rightarrow> string \<Rightarrow> action" where
  "write_action ent content =
     \<lparr>ac_kind = ActionWriteFile, ac_strategy = rd_type (rv_definition ent), ac_source = rv_source ent, ac_target = rv_target ent,
      ac_sourceIsDirectory = False, ac_exclude = [], ac_desiredContent = content, ac_registryValue = None, ac_snapshotRequired = True\<rparr>"

definition copy_action :: "resolved_restore \<Rightarrow> action" where
  "copy_action ent =
     \<lparr>ac_kind = ActionCopy, ac_strategy = ''copy'', ac_source = rv_source ent, ac_target = rv_target ent,
      ac_sourceIsDirectory = (case rv_sourceInfo ent of None \<Rightarrow> False | Some info \<Rightarrow> is_dir info),
      ac_exclude = rd_exclude (rv_definition ent), ac_desiredContent = [], ac_registryValue = None, ac_snapshotRequired = True\<rparr>"

definition registry_action :: "resolved_restore \<Rightarrow> action" where
  "registry_action ent =
     \<lparr>ac_kind = ActionRegistrySet, ac_strategy = ''registry-set'', ac_source = [], ac_target = rv_target ent,
      ac_sourceIsDirectory = False, ac_exclude = [], ac_desiredContent = [], ac_registryValue = rv_registry ent,
      ac_snapshotRequired = True\<rparr>"

definition write_content ::
    "resolved_restore \<Rightarrow> int \<Rightarrow> restore_code \<Rightarrow> (tx, content_error, string) run \<Rightarrow> action list restore_run" where
  "write_content ent index fallback m =
     io_bind (io_map_error (\<lambda>e. restore_error_at (materialization_code e fallback) index (rv_target ent)) m) (\<lambda>content.
       io_return [write_action ent content])"

definition materialize_one :: "restore_host \<Rightarrow> resolved_restore \<Rightarrow> int \<Rightarrow> action list restore_run" where
  "materialize_one h ent index =
     (let t = rd_type (rv_definition ent) in
      if rv_sourceMissing ent then io_return []
      else if t = ''copy'' then io_return [copy_action ent]
      else if t = ''merge-json'' then
        write_content ent index RestoreMalformedJSON (materialize_json_merge (rh_json h) (rv_source ent) (rv_target ent))
      else if t = ''merge-ini'' then
        write_content ent index RestoreMaterialization (materialize_ini_merge (rv_source ent) (rv_target ent))
      else if t = ''append'' then
        write_content ent index RestoreMaterialization (materialize_append (rv_source ent) (rv_target ent))
      else if t = ''delete-glob'' then materialize_delete_glob h ent index
      else if t = ''registry-set'' then io_return [registry_action ent]
      else io_fail (restore_error_at RestoreUnsupported index (rv_target ent)))"

fun materialize_entries :: "restore_host \<Rightarrow> int \<Rightarrow> resolved_restore list \<Rightarrow> action list restore_run" where
  "materialize_entries h index [] = io_return []"
| "materialize_entries h index (e # es) =
     io_bind (materialize_one h e index) (\<lambda>concrete.
     io_bind (materialize_entries h (index + 1) es) (\<lambda>actions. io_return (concrete @ actions)))"

section \<open>Validations\<close>

text \<open>The host path a validation maps to through an entry; an escape from the target is an error.\<close>

definition map_validation_target :: "string \<Rightarrow> resolved_restore \<Rightarrow> unit + string option" where
  "map_validation_target validationPath ent =
     (let validation = canonical_portable_path validationPath; source = canonical_portable_path (rd_source (rv_definition ent)) in
      if validation = [] \<or> source = [] then Inr None
      else if validation = source then Inr (Some (rv_target ent))
      else if rd_type (rv_definition ent) \<noteq> ''copy'' \<or> (case rv_sourceInfo ent of None \<Rightarrow> True | Some info \<Rightarrow> \<not> is_dir info) \<or>
        \<not> prefix (source @ ''/'') validation then Inr None
      else let candidate = clean_path (join_path [rv_target ent, drop (length source + 1) validation]) in
        if path_contained (rv_target ent) candidate then Inr (Some candidate) else Inl ())"

definition maps_validations :: "resolved_restore \<Rightarrow> bool" where
  "maps_validations ent \<longleftrightarrow> \<not> rv_sourceMissing ent \<and> rv_source ent \<noteq> [] \<and> \<not> rv_registryClaim ent \<and>
     rd_type (rv_definition ent) \<noteq> ''delete-glob''"

definition mapping_error :: "int \<Rightarrow> nat \<Rightarrow> restore_error" where
  "mapping_error index n =
     (restore_error_at RestoreValidationMapping (- 1) [])\<lparr>re_validationIndex := index, re_mappingCount := int n\<rparr>"

fun validation_mappings :: "int \<Rightarrow> string \<Rightarrow> string list \<Rightarrow> resolved_restore list \<Rightarrow> restore_error + string list" where
  "validation_mappings index path found [] = Inr found"
| "validation_mappings index path found (e # es) =
     (if \<not> maps_validations e then validation_mappings index path found es
      else (case map_validation_target path e of
          Inl _ \<Rightarrow> Inl (mapping_error index (length found))
        | Inr None \<Rightarrow> validation_mappings index path found es
        | Inr (Some p) \<Rightarrow> validation_mappings index path (found @ [p]) es))"

fun resolve_validations ::
    "int \<Rightarrow> validation_def list \<Rightarrow> resolved_restore list \<Rightarrow> restore_error + (validation_def \<times> string) list" where
  "resolve_validations index [] entries = Inr []"
| "resolve_validations index (d # ds) entries =
     try_res (validation_mappings index (vd_path d) [] entries) (\<lambda>mappings.
       case mappings of
         [p] \<Rightarrow> try_res (resolve_validations (index + 1) ds entries) (\<lambda>rest. Inr ((d, p) # rest))
       | _ \<Rightarrow> Inl (mapping_error index (length mappings)))"

section \<open>Materialize\<close>

definition materialize :: "discovery_host \<Rightarrow> restore_host \<Rightarrow> restore_request \<Rightarrow> materialized_set restore_run" where
  "materialize dh h rq =
     io_bind (validate_request rq) (\<lambda>(root, target, generation).
     io_then (io_of (case preflight_app_closure h (gen_requiresAppClosed generation) (rr_processPatterns rq) (rr_processObserver rq) of
         None \<Rightarrow> Inr () | Some e \<Rightarrow> Inl e))
     (let i = target_config_instance target in
      io_bind (resolve_definitions dh h root i 0 (gen_restore generation)) (\<lambda>resolved.
      io_then (io_of (case reject_overlapping_targets 0 resolved of None \<Rightarrow> Inr () | Some e \<Rightarrow> Inl e))
      (io_bind (materialize_entries h 0 resolved) (\<lambda>actions.
       io_bind (io_of (resolve_validations 0 (gen_validate generation) resolved)) (\<lambda>validations.
         io_return \<lparr>ms_actions = actions, ms_validations = validations, ms_instance = i\<rparr>))))))"

end
