(* ===== verification/RestoreTransaction.thy ===== *)
theory RestoreTransaction
  imports RestoreMarkers
begin

text \<open>
  The execution of one journaled config set (\<open>internal/configrestore/transaction.go\<close> and
  transaction_types.go): every action is checked against its recorded prior state, committed and
  checked against its desired state; then the validations run on the targets and the committed
  marker is published. A failure before any change closes the journal as aborted; a later one
  rolls back the touched actions in reverse order, checks every prior state and closes the
  journal as rolled back; a failure whose outcome is unknown stops the run.
\<close>

datatype tx_status = TransactionRestored | TransactionFailed | TransactionRolledBack | TransactionRollbackFailed

record tx_request =
  rq_prepared :: "prepared_set option"
  rq_intent :: "journal_intent option"

record tx_result =
  xr_status :: tx_status
  xr_reason :: "tx_reason option"
  xr_primaryErr :: "tx_error option"
  xr_rollbackErr :: "tx_error list"
  xr_mutationBegan :: bool
  xr_failStop :: bool
  xr_marker :: "journal_marker option"

definition failed_result :: "tx_reason \<Rightarrow> tx_error \<Rightarrow> bool \<Rightarrow> tx_result" where
  "failed_result reason primary failStop =
     \<lparr>xr_status = TransactionFailed, xr_reason = Some reason, xr_primaryErr = Some primary, xr_rollbackErr = [],
      xr_mutationBegan = False, xr_failStop = failStop, xr_marker = None\<rparr>"

definition rollback_failed_result :: "tx_reason \<Rightarrow> tx_error \<Rightarrow> tx_error list \<Rightarrow> tx_result" where
  "rollback_failed_result reason primary rollbackErr =
     \<lparr>xr_status = TransactionRollbackFailed, xr_reason = Some reason, xr_primaryErr = Some primary, xr_rollbackErr = rollbackErr,
      xr_mutationBegan = True, xr_failStop = True, xr_marker = None\<rparr>"

definition rolled_back_result :: "tx_reason \<Rightarrow> tx_error \<Rightarrow> journal_marker \<Rightarrow> tx_result" where
  "rolled_back_result reason primary marker =
     \<lparr>xr_status = TransactionRolledBack, xr_reason = Some reason, xr_primaryErr = Some primary, xr_rollbackErr = [],
      xr_mutationBegan = True, xr_failStop = False, xr_marker = Some marker\<rparr>"

definition restored_result :: "bool \<Rightarrow> journal_marker \<Rightarrow> tx_result" where
  "restored_result began marker =
     \<lparr>xr_status = TransactionRestored, xr_reason = None, xr_primaryErr = None, xr_rollbackErr = [],
      xr_mutationBegan = began, xr_failStop = False, xr_marker = Some marker\<rparr>"

section \<open>Inputs\<close>

definition journal_action_state :: "state_record \<Rightarrow> state_record" where
  "journal_action_state r = r\<lparr>rc_mode := perm (rc_mode r), rc_entries := map perm_entry (rc_entries r)\<rparr>"

definition journal_action_of :: "nat \<Rightarrow> prepared_action \<Rightarrow> journal_action" where
  "journal_action_of index p =
     (let a = pa_action p in
      \<lparr>ja_index = int index, ja_kind = ac_kind a, ja_strategy = ac_strategy a, ja_target = ac_target a,
       ja_registryKey = (case ac_registryValue a of None \<Rightarrow> [] | Some v \<Rightarrow> gv_key v),
       ja_registryValueName = (case ac_registryValue a of None \<Rightarrow> [] | Some v \<Rightarrow> gv_valueName v),
       ja_missingParents = pa_missingParents p, ja_prior = journal_action_state (pa_prior p),
       ja_desired = journal_action_state (pa_desired p), ja_sourceDigest = pa_sourceDigest p\<rparr>)"

definition journal_validation_of :: "validation_def \<times> string \<Rightarrow> journal_validation" where
  "journal_validation_of v =
     (case v of (d, hostPath) \<Rightarrow>
        \<lparr>jv_type = vd_type d, jv_path = vd_path d, jv_jsonPath = vd_jsonPath d, jv_section = vd_section d,
         jv_key = vd_key d, jv_hostPath = hostPath\<rparr>)"

definition validate_intent_request ::
    "restore_host \<Rightarrow> prepared_set \<Rightarrow> string \<Rightarrow> journal_lineage \<Rightarrow>
     (string \<times> journal_lineage \<times> journal_action list \<times> journal_validation list) action_run" where
  "validate_intent_request h prepared transactionRoot lineage =
     io_then check_context
     (io_bind (validate_journal_root transactionRoot) (\<lambda>root.
        let actions = map (\<lambda>(i, p). journal_action_of i p) (zip [0..<length (ps_actions prepared)] (ps_actions prepared));
            validations = map journal_validation_of (ps_validations prepared) in
        if ps_snapshotRoot prepared \<noteq> join_path [root, ''snapshots''] \<or> ps_actions prepared = [] \<or>
           \<not> validate_journal_lineage lineage \<or> \<not> validate_journal_actions h root actions \<or>
           \<not> validate_journal_validations root actions validations
        then io_fail TxInput
        else io_return (root, lineage, actions, validations)))"

definition validate_inputs :: "restore_host \<Rightarrow> tx_request \<Rightarrow> (journal_intent \<times> prepared_action list) action_run" where
  "validate_inputs h rq =
     (case (rq_prepared rq, rq_intent rq) of
        (Some prepared, Some intent) \<Rightarrow>
          io_bind (verify_intent_for_marker h intent) (\<lambda>verified.
          io_then (require_pending_intent h verified)
          (io_bind (validate_intent_request h prepared (ji_transactionRoot verified) (ji_lineage verified))
            (\<lambda>(root, lineage, expectedActions, expectedValidations).
              if root \<noteq> ji_transactionRoot verified \<or> lineage \<noteq> ji_lineage verified \<or>
                 expectedActions \<noteq> ji_actions verified \<or> expectedValidations \<noteq> ji_validations verified then io_fail TxInput
              else if list_ex (\<lambda>a. ja_kind a = ActionRegistrySet) expectedActions \<and> rh_registry h = None
              then io_fail TxRegistryMissing
              else io_return (verified, ps_actions prepared))))
      | _ \<Rightarrow> io_fail TxInput)"

section \<open>Observations and checkpoints\<close>

definition observe :: "tx_observation \<Rightarrow> unit action_run" where
  "observe ob s = (Inr (), s\<lparr>tx_observed := tx_observed s @ [ob]\<rparr>)"

definition observation :: "tx_stage \<Rightarrow> tx_progress \<Rightarrow> int \<Rightarrow> int \<Rightarrow> string \<Rightarrow> tx_observation" where
  "observation stage progress ai vi target =
     \<lparr>ob_stage = stage, ob_progress = progress, ob_actionIndex = ai, ob_validationIndex = vi, ob_target = target,
      ob_reason = None, ob_err = None\<rparr>"

definition observe_failure :: "tx_stage \<Rightarrow> int \<Rightarrow> int \<Rightarrow> string \<Rightarrow> tx_reason option \<Rightarrow> tx_error \<Rightarrow> unit action_run" where
  "observe_failure stage ai vi target reason e =
     observe ((observation stage TxFailed ai vi target)\<lparr>ob_reason := reason, ob_err := Some e\<rparr>)"

definition run_checkpoint :: "unit action_run" where
  "run_checkpoint = io_then check_context check_context"

definition touch_action :: "nat \<Rightarrow> unit action_run" where
  "touch_action index s = (Inr (), s\<lparr>tx_touched := (tx_touched s)[index := True], tx_began := True\<rparr>)"

text \<open>An error is observed before it is returned.\<close>

definition observed_failure ::
    "tx_stage \<Rightarrow> int \<Rightarrow> int \<Rightarrow> string \<Rightarrow> tx_reason option \<Rightarrow> unit action_run \<Rightarrow> unit action_run" where
  "observed_failure stage ai vi target reason m =
     io_bind (io_try m) (\<lambda>r.
       case r of Inr _ \<Rightarrow> io_return ()
       | Inl e \<Rightarrow> io_then (observe_failure stage ai vi target reason e) (io_fail e))"

section \<open>Commit and validation\<close>

definition commit_one :: "restore_host \<Rightarrow> nat \<Rightarrow> prepared_action \<Rightarrow> journal_action \<Rightarrow> unit action_run" where
  "commit_one h index p a =
     io_then (observe (observation StageCommit TxStarted (int index) (- 1) (ja_target a)))
     (io_then (observed_failure StageCommit (int index) (- 1) (ja_target a) (Some ReasonCommitFailed)
        (io_then run_checkpoint
        (io_then (verify_action_state h a False)
        (io_then (execute_transaction_action h p a (touch_action index) run_checkpoint)
          (verify_action_state h a True)))))
     (observe (observation StageCommit TxCompleted (int index) (- 1) (ja_target a))))"

fun commit_from :: "restore_host \<Rightarrow> nat \<Rightarrow> prepared_action list \<Rightarrow> journal_action list \<Rightarrow> unit action_run" where
  "commit_from h index (p # ps) (a # as) = io_then (commit_one h index p a) (commit_from h (Suc index) ps as)"
| "commit_from h index _ _ = io_return ()"

definition validate_target :: "restore_host \<Rightarrow> nat \<Rightarrow> journal_validation \<Rightarrow> unit action_run" where
  "validate_target h index v =
     io_then (observe (observation StageValidation TxStarted (- 1) (int index) (jv_hostPath v)))
     (io_then (observed_failure StageValidation (- 1) (int index) (jv_hostPath v) (Some ReasonTargetValidationFailed)
        (io_then run_checkpoint
          (tx_lift (io_map_error TxValidation (validate_resolved (rh_json h)
            [(\<lparr>vd_type = jv_type v, vd_path = jv_path v, vd_jsonPath = jv_jsonPath v, vd_section = jv_section v, vd_key = jv_key v\<rparr>,
              jv_hostPath v)])))))
     (observe (observation StageValidation TxCompleted (- 1) (int index) (jv_hostPath v))))"

fun validate_from :: "restore_host \<Rightarrow> nat \<Rightarrow> journal_validation list \<Rightarrow> unit action_run" where
  "validate_from h index [] = io_return ()"
| "validate_from h index (v # vs) = io_then (validate_target h index v) (validate_from h (Suc index) vs)"

section \<open>Rollback\<close>

text \<open>The errors are collected; a touched action is rolled back whatever happened to the others.\<close>

definition rollback_one :: "restore_host \<Rightarrow> nat \<times> journal_action \<Rightarrow> tx_error list action_run" where
  "rollback_one h ia =
     (case ia of (index, a) \<Rightarrow>
        io_then (observe (observation StageRollback TxStarted (int index) (- 1) (ja_target a)))
        (io_bind (io_try (io_then run_checkpoint
           (io_then (rollback_transaction_action h a) (verify_action_state h a False)))) (\<lambda>r.
           case r of
             Inl e \<Rightarrow> io_then (observe_failure StageRollback (int index) (- 1) (ja_target a) None e) (io_return [e])
           | Inr _ \<Rightarrow>
               io_then (observe (observation StageRollback TxCompleted (int index) (- 1) (ja_target a))) (io_return []))))"

fun rollback_each :: "restore_host \<Rightarrow> (nat \<times> journal_action) list \<Rightarrow> tx_error list action_run" where
  "rollback_each h [] = io_return []"
| "rollback_each h (ia # rest) =
     io_bind (rollback_one h ia) (\<lambda>es. io_bind (rollback_each h rest) (\<lambda>fs. io_return (es @ fs)))"

definition touched_actions :: "bool list \<Rightarrow> journal_action list \<Rightarrow> (nat \<times> journal_action) list" where
  "touched_actions touched actions =
     rev (filter (\<lambda>(i, a). touched ! i) (zip [0..<length actions] actions))"

definition get_touched :: "(bool list) action_run" where "get_touched s = (Inr (tx_touched s), s)"
definition get_began :: "bool action_run" where "get_began s = (Inr (tx_began s), s)"

definition rollback_all :: "restore_host \<Rightarrow> journal_action list \<Rightarrow> tx_error list action_run" where
  "rollback_all h actions =
     io_bind get_touched (\<lambda>touched.
     io_bind (rollback_each h (touched_actions touched actions)) (\<lambda>es.
     io_bind (io_try (verify_all_states h actions False)) (\<lambda>r.
       io_return (es @ (case r of Inl e \<Rightarrow> [e] | Inr _ \<Rightarrow> [])))))"

section \<open>The transaction\<close>

definition finish_failure ::
    "restore_host \<Rightarrow> journal_intent \<Rightarrow> journal_action list \<Rightarrow> tx_reason \<Rightarrow> validation_status \<Rightarrow> tx_error \<Rightarrow> tx_result action_run" where
  "finish_failure h intent actions reason validation primary =
     io_bind get_began (\<lambda>began.
       if \<not> began then
         io_bind (io_try (without_cancel (io_then run_checkpoint (persist_aborted h intent)))) (\<lambda>r.
           case r of
             Inl closeErr \<Rightarrow> io_return ((failed_result reason primary True)\<lparr>xr_rollbackErr := [closeErr]\<rparr>)
           | Inr marker \<Rightarrow> io_return ((failed_result reason primary False)\<lparr>xr_marker := Some marker\<rparr>))
       else if primary = TxAmbiguous then io_return (rollback_failed_result reason primary [])
       else io_bind (without_cancel (rollback_all h actions)) (\<lambda>rollbackErr.
         if rollbackErr \<noteq> [] then io_return (rollback_failed_result reason primary rollbackErr)
         else io_bind (io_try (without_cancel (io_then run_checkpoint (persist_rolled_back h intent validation)))) (\<lambda>r.
           case r of
             Inl markerErr \<Rightarrow> io_return (rollback_failed_result reason primary [markerErr])
           | Inr marker \<Rightarrow> io_return (rolled_back_result reason primary marker))))"

definition begin_transaction :: "nat \<Rightarrow> unit action_run" where
  "begin_transaction n s = (Inr (), s\<lparr>tx_touched := replicate n False, tx_began := False\<rparr>)"

text \<open>A phase: its error ends the transaction with the given reason.\<close>

definition phase ::
    "(tx_error \<Rightarrow> tx_result action_run) \<Rightarrow> 'a action_run \<Rightarrow> ('a \<Rightarrow> tx_result action_run) \<Rightarrow> tx_result action_run" where
  "phase failure m k = io_bind (io_try m) (\<lambda>r. case r of Inl e \<Rightarrow> failure e | Inr x \<Rightarrow> k x)"

definition run_transaction :: "restore_host \<Rightarrow> journal_intent \<Rightarrow> prepared_action list \<Rightarrow> tx_result action_run" where
  "run_transaction h intent prepared =
     (let actions = ji_actions intent;
          commitFailure = finish_failure h intent actions ReasonCommitFailed ValidationNotRun;
          validationFailure = finish_failure h intent actions ReasonTargetValidationFailed ValidationFailed;
          completionFailure = finish_failure h intent actions ReasonJournalCompletionFailed ValidationPassed in
      io_then (begin_transaction (length actions))
      (phase commitFailure (verify_all_states h actions False) (\<lambda>_.
       phase commitFailure (commit_from h 0 prepared actions) (\<lambda>_.
       phase validationFailure (validate_from h 0 (ji_validations intent)) (\<lambda>_.
       phase completionFailure (io_then run_checkpoint (persist_committed h intent)) (\<lambda>marker.
         io_bind get_began (\<lambda>began. io_return (restored_result began marker))))))))"

definition execute_transaction :: "restore_host \<Rightarrow> tx_request \<Rightarrow> tx_result action_run" where
  "execute_transaction h rq =
     phase (\<lambda>e. io_return (failed_result ReasonCommitFailed e True)) (validate_inputs h rq)
       (\<lambda>(intent, prepared). run_transaction h intent prepared)"

end
