(* ===== verification/RestoreRuns.thy ===== *)
theory RestoreRuns
  imports RestoreTransaction
begin

text \<open>
  What every run of a transaction does to the state, whatever it returns: \<open>within R m\<close> says that a
  run relates the state before and after it by \<open>R\<close>. The rules are stated in locales, once for every
  order that is closed under the primitive steps, and interpreted on the orders the proofs need:
  the tree stays well formed, the log only grows, the marks of touched actions only grow.
\<close>

section \<open>Runs within an order\<close>

definition within :: "('s \<Rightarrow> 's \<Rightarrow> bool) \<Rightarrow> ('s, 'e, 'a) run \<Rightarrow> bool" where
  "within R m \<longleftrightarrow> (\<forall>s. R s (snd (m s)))"

named_theorems within

lemma withinD: "within R m \<Longrightarrow> m s = (r, s') \<Longrightarrow> R s s'"
  unfolding within_def by (metis snd_conv)

lemma withinI: "(\<And>s r s'. m s = (r, s') \<Longrightarrow> R s s') \<Longrightarrow> within R m"
  unfolding within_def by (metis prod.collapse)

locale step_order =
  fixes R :: "'s \<Rightarrow> 's \<Rightarrow> bool"
  assumes refl: "R s s" and trans: "R s s' \<Longrightarrow> R s' s'' \<Longrightarrow> R s s''"
begin

lemma within_return [within]: "within R (io_return x)" by (simp add: within_def io_return_def refl)
lemma within_fail [within]: "within R (io_fail e)" by (simp add: within_def io_fail_def refl)
lemma within_of [within]: "within R (io_of r)" by (simp add: within_def io_of_def refl)
lemma within_when [within]: "within R (io_when b e)" by (simp add: io_when_def within_return within_fail)

lemma within_bind [within]:
  assumes "within R m" "\<And>x. within R (k x)"
  shows "within R (io_bind m k)"
proof (rule withinI)
  fix s r s' assume "io_bind m k s = (r, s')"
  then show "R s s'" using withinD[OF assms(1)] withinD[OF assms(2)] trans
    by (cases rule: io_bind_cases) blast+
qed

lemma within_then [within]: "within R m \<Longrightarrow> within R k \<Longrightarrow> within R (io_then m k)"
  unfolding io_then_def by (rule within_bind)

lemma within_map_error [within]:
  assumes "within R m" shows "within R (io_map_error f m)"
  using assms by (simp add: within_def io_map_error_def split: prod.split sum.split) (metis snd_conv)

lemma within_try [within]:
  assumes "within R m" shows "within R (io_try m)"
  using assms by (simp add: within_def io_try_def split: prod.split) (metis snd_conv)

lemma within_finally [within]:
  assumes "within R m" "within R c" shows "within R (io_finally m c)"
proof (rule withinI)
  fix s r s' assume s: "io_finally m c s = (r, s')"
  obtain x v where m: "m s = (x, v)" by (cases "m s")
  then have "R s v" "R v s'" using withinD[OF assms(1) m] assms(2) s by (auto simp: io_finally_def within_def)
  then show "R s s'" by (rule trans)
qed

lemma within_if [within]: "within R a \<Longrightarrow> within R b \<Longrightarrow> within R (if c then a else b)" by simp

lemma within_each [within]: "(\<And>x. x \<in> set xs \<Longrightarrow> within R (f x)) \<Longrightarrow> within R (io_each f xs)"
  by (induction xs) (auto intro: within_return within_then)

lemma within_fold [within]: "(\<And>x acc. within R (f x acc)) \<Longrightarrow> within R (io_fold f xs acc)"
  by (induction xs arbitrary: acc) (auto intro: within_return within_bind)

lemma within_case_sum [within]:
  "(\<And>e. within R (f e)) \<Longrightarrow> (\<And>x. within R (g x)) \<Longrightarrow> within R (case r of Inl e \<Rightarrow> f e | Inr x \<Rightarrow> g x)"
  by (cases r) simp_all

lemma within_case_option [within]:
  "within R f \<Longrightarrow> (\<And>x. within R (g x)) \<Longrightarrow> within R (case r of None \<Rightarrow> f | Some x \<Rightarrow> g x)"
  by (cases r) simp_all

lemma within_case_prod [within]: "(\<And>x y. within R (f x y)) \<Longrightarrow> within R (case r of (x, y) \<Rightarrow> f x y)"
  by (cases r) simp

lemma within_case_list [within]:
  "within R f \<Longrightarrow> (\<And>x xs. within R (g x xs)) \<Longrightarrow> within R (case r of [] \<Rightarrow> f | x # xs \<Rightarrow> g x xs)"
  by (cases r) simp_all

lemma within_case_errno [within]:
  "within R a \<Longrightarrow> within R b \<Longrightarrow> within R c \<Longrightarrow> within R d \<Longrightarrow> within R e \<Longrightarrow> within R f \<Longrightarrow> within R g \<Longrightarrow> within R h \<Longrightarrow>
   within R (case r of ENOENT \<Rightarrow> a | EEXIST \<Rightarrow> b | ENOTDIR \<Rightarrow> c | EISDIR \<Rightarrow> d | ENOTEMPTY \<Rightarrow> e | ELOOP \<Rightarrow> f | EINVAL \<Rightarrow> g | EIO \<Rightarrow> h)"
  by (cases r) simp_all

lemma within_case_state_kind [within]:
  "within R a \<Longrightarrow> within R b \<Longrightarrow> within R c \<Longrightarrow> within R d \<Longrightarrow>
   within R (case r of StateAbsent \<Rightarrow> a | StateFile \<Rightarrow> b | StateDirectory \<Rightarrow> c | StateRegistryValue \<Rightarrow> d)"
  by (cases r) simp_all

lemma within_case_action_kind [within]:
  "within R a \<Longrightarrow> within R b \<Longrightarrow> within R c \<Longrightarrow> within R d \<Longrightarrow>
   within R (case r of ActionCopy \<Rightarrow> a | ActionWriteFile \<Rightarrow> b | ActionDeleteFile \<Rightarrow> c | ActionRegistrySet \<Rightarrow> d)"
  by (cases r) simp_all

end

section \<open>Lawful calls\<close>

text \<open>In a calm world a lawful call keeps the world calm and the tree well formed.\<close>

definition sane :: "world \<Rightarrow> bool" where
  "sane w \<longleftrightarrow> calm w \<and> wf_tree (w_tree w)"

definition sane_step :: "world \<Rightarrow> world \<Rightarrow> bool" where
  "sane_step w w' \<longleftrightarrow> (sane w \<longrightarrow> sane w')"

interpretation sane_order: step_order sane_step
  by standard (auto simp: sane_step_def)

definition tree_keeping :: "(nat \<Rightarrow> tree \<Rightarrow> errno + tree) \<Rightarrow> bool" where
  "tree_keeping f \<longleftrightarrow> (\<forall>n t t'. wf_tree t \<longrightarrow> f n t = Inr t' \<longrightarrow> wf_tree t')"

lemma sane_query [within]: "within sane_step (query f)"
  by (rule withinI) (use query_calm in \<open>fastforce simp: sane_step_def sane_def\<close>)

lemma sane_change: 
  assumes "tree_keeping f" shows "within sane_step (change f)"
proof (rule withinI)
  fix w r w' assume c: "change f w = (r, w')"
  show "sane_step w w'"
    unfolding sane_step_def
  proof
    assume w: "sane w"
    have "calm w' \<and> (case r of Inl _ \<Rightarrow> w_tree w' = w_tree w | Inr _ \<Rightarrow> \<exists>n. f n (w_tree w) = Inr (w_tree w'))"
      using w by (intro change_calm[OF _ c]) (simp add: sane_def)
    then show "sane w'" using w assms unfolding sane_def tree_keeping_def by (cases r) auto
  qed
qed

text \<open>Where the kernel finds a path, its parent is a directory.\<close>

lemma follow_parent:
  assumes "follow final fuel t cur xs = Inr k" "wf_tree t" "\<exists>m. entry t cur = Some (Dir m)" "plain_key cur" "list_all plain_element xs"
  shows "plain_key k \<and> (k = [] \<or> (\<exists>m. entry t (butlast k) = Some (Dir m)))"
  using assms
proof (induction final fuel t cur xs rule: follow.induct)
  case (1 final fuel t cur)
  have "\<exists>m. entry t (butlast cur) = Some (Dir m)" if "cur \<noteq> []"
    using 1 that by (auto simp: wf_tree_def entry_def split: if_splits)
  then show ?case using 1 by auto
next
  case (2 final fuel t cur x xs)
  have pc: "plain_key cur" "plain_element x" "list_all plain_element xs" using 2 by auto
  show ?case
  proof (cases "x = ''..''")
    case True
    have "\<exists>m. entry t (butlast cur) = Some (Dir m)"
    proof (cases "cur = []")
      case False
      then show ?thesis using "2.prems"(2,3) by (auto simp: wf_tree_def entry_def split: if_splits)
    qed (simp add: entry_def)
    moreover have "plain_key (butlast cur)" using pc(1) by (auto simp: plain_key_def list_all_iff dest: in_set_butlastD)
    ultimately show ?thesis using 2 True by simp
  next
    case False
    then have px: "plain_key (cur @ [x])" using pc by (auto simp: plain_key_def)
    show ?thesis
    proof (cases "entry t (cur @ [x])")
      case None
      then show ?thesis using 2 False px by (auto split: if_splits)
    next
      case (Some n)
      show ?thesis
      proof (cases n)
        case (Dir m)
        then show ?thesis using 2 False Some px by simp
      next
        case (Link l)
        have "list_all plain_element (path_elements l @ xs)" using path_elements_plain pc(3) by simp
        moreover have "\<exists>m. entry t (if is_abs l then [] else cur) = Some (Dir m)" "plain_key (if is_abs l then [] else cur)"
          using "2.prems"(3) pc(1) by (auto simp: entry_def plain_key_def)
        ultimately show ?thesis using 2 False Some Link px by (auto split: if_splits nat.splits)
      qed (use 2 False Some px in \<open>auto split: if_splits\<close>)
    qed
  qed
qed

lemma locate_parent:
  assumes "wf_tree t" "locate t p = Inr k \<or> locate_final t p = Inr k"
  shows "plain_key k" "k \<noteq> [] \<Longrightarrow> \<exists>m. entry t (butlast k) = Some (Dir m)"
  using follow_parent[OF _ assms(1), of _ 40 "[]" "clean_elements p" k] assms(2) clean_elements_plain[of p]
  by (auto simp: locate_def locate_final_def entry_def plain_key_def)

lemma wf_upd:
  assumes wf: "wf_tree t" and k: "plain_key k" "k \<noteq> []" "\<exists>m. entry t (butlast k) = Some (Dir m)"
    and old: "\<And>m. entry t k = Some (Dir m) \<Longrightarrow> is_dir n"
  shows "wf_tree (fmupd k n t)"
  unfolding wf_tree_def
proof (intro allI impI)
  fix j x assume j: "fmlookup (fmupd k n t) j = Some x"
  have parent: "\<exists>m. entry (fmupd k n t) (butlast i) = Some (Dir m)" if "\<exists>m. entry t (butlast i) = Some (Dir m)" for i
    using that old by (cases "butlast i = k") (auto simp: entry_def is_dir_iff)
  show "j \<noteq> [] \<and> plain_key j \<and> (\<exists>m. entry (fmupd k n t) (butlast j) = Some (Dir m))"
  proof (cases "j = k")
    case True then show ?thesis using k parent[of k] by simp
  next
    case False
    then show ?thesis using j wf parent[of j] by (auto simp: wf_tree_def)
  qed
qed

lemma wf_remove_key:
  assumes wf: "wf_tree t" and r: "remove_key k t = Inr t'"
  shows "wf_tree t'"
proof -
  have "fmlookup t k \<noteq> None" using r by (auto simp: remove_key_def split: option.splits)
  then have "strict_prefix [] k" using wf by (auto simp: wf_tree_def strict_prefix_def)
  then show ?thesis using remove_key_good[OF wf r] by (simp add: good_change_def)
qed

lemma wf_new:
  assumes wf: "wf_tree t" and k: "locate t p = Inr k" "entry t k = None"
  shows "wf_tree (fmupd k n t)"
proof -
  have "k \<noteq> []" using k(2) by (auto simp: entry_def)
  moreover have "plain_key k" "k \<noteq> [] \<Longrightarrow> \<exists>m. entry t (butlast k) = Some (Dir m)"
    using locate_parent[OF wf, of p k] k(1) by blast+
  ultimately show ?thesis by (intro wf_upd[OF wf]) (simp_all add: k(2))
qed

lemma wf_update:
  assumes wf: "wf_tree t" and k: "fmlookup t k = Some n" "is_dir n \<Longrightarrow> is_dir n'"
  shows "wf_tree (fmupd k n' t)"
  by (rule wf_upd[OF wf]) (use wf k in \<open>auto simp: wf_tree_def entry_def split: if_splits\<close>)

lemma tree_keeping_calls:
  "tree_keeping (\<lambda>_. mkdir_tree p m)" "tree_keeping (\<lambda>i. create_tree p m i)" "tree_keeping (\<lambda>_. chmod_tree p m)"
  "tree_keeping (\<lambda>_. append_tree p d)" "tree_keeping (\<lambda>_. remove_tree p)" "tree_keeping (\<lambda>_. remove_key k)"
  unfolding tree_keeping_def mkdir_tree_def create_tree_def chmod_tree_def append_tree_def remove_tree_def
  by (auto intro: wf_new wf_remove_key wf_update simp: chmod_node_def is_dir_iff split: sum.splits option.splits node.splits)

lemma tree_keeping_moves: "tree_keeping (\<lambda>_. rename_tree p q)" "tree_keeping (\<lambda>_. link_tree p q)"
proof -
  have "wf_tree t'" if wf: "wf_tree t" and r: "rename_tree p q t = Inr t'" for t t'
  proof -
    obtain a b where l: "locate t p = Inr a" "locate t q = Inr b" using r by (auto simp: rename_tree_def split: sum.splits)
    obtain n where n: "fmlookup t a = Some n" using r l by (auto simp: rename_tree_def split: option.splits)
    have bd: "entry t b \<noteq> Some (Dir m)" for m using r l n by (auto simp: rename_tree_def split: option.splits)
    have cs: "t' = t \<or> t' = graft t a b \<and> (\<not> prefix a b \<or> \<not> is_dir n \<and> a \<noteq> b)"
      using r l n by (auto simp: rename_tree_def split: option.splits if_splits node.splits)
    have ne: "strict_prefix [] a" "b \<noteq> []" using wf n bd[of 493] by (auto simp: wf_tree_def entry_def strict_prefix_def)
    have pb: "plain_key b" "\<exists>m. entry t (butlast b) = Some (Dir m)" using locate_parent[OF wf, of q b] l(2) ne(2) by blast+
    show ?thesis
    proof (cases "t' = t")
      case False
      then have "\<not> prefix a b \<or> \<not> is_dir n \<and> a \<noteq> b" "t' = graft t a b" using cs by blast+
      then show ?thesis using graft_changes(1)[OF wf ne(1) _ pb(2) n pb(1) _ bd] ne(2) by (metis strict_prefix_simps(2) neq_Nil_conv)
    qed (simp add: wf)
  qed
  then show "tree_keeping (\<lambda>_. rename_tree p q)" by (auto simp: tree_keeping_def)
  have "wf_tree t'" if wf: "wf_tree t" and r: "link_tree p q t = Inr t'" for t t'
  proof -
    obtain b n where b: "locate t q = Inr b" "entry t b = None" "t' = fmupd b n t"
      using r by (auto simp: link_tree_def split: sum.splits option.splits if_splits)
    then show ?thesis using wf_new[OF wf] by blast
  qed
  then show "tree_keeping (\<lambda>_. link_tree p q)" by (auto simp: tree_keeping_def)
qed

lemma sane_calls [within]:
  "within sane_step (lstat p)" "within sane_step (open_file p)" "within sane_step (sync_file p)"
  "within sane_step (read_dir p)" "within sane_step (read_dir_nodes p)"
  "within sane_step (sync_directory p)" "within sane_step (sync_durable_file p)"
  "within sane_step (mkdir p m)" "within sane_step (chmod p m)" "within sane_step (write_file p d)"
  "within sane_step (remove p)" "within sane_step (rename p q)" "within sane_step (link_file p q)"
  unfolding lstat_def open_file_def sync_file_def read_dir_def read_dir_nodes_def sync_directory_def sync_durable_file_def
    sync_unix_path_def mkdir_def chmod_def write_file_def remove_def rename_def link_file_def
  by (intro sane_query sane_change tree_keeping_calls tree_keeping_moves)+

lemma sane_create [within]: "within sane_step (change (create_tree p m))"
  by (intro sane_change) (use tree_keeping_calls(2) in simp)

lemma sane_random [within]: "within sane_step next_random" "within sane_step random_left"
  by (auto simp: within_def next_random_def random_left_def sane_step_def sane_def calm_def split: list.splits)

lemma sane_make_temp [within]: "(\<And>p. within sane_step (mk p)) \<Longrightarrow> within sane_step (make_temp mk dir stem n)"
  by (induction n) (auto simp: Let_def intro!: within)

lemma sane_temps [within]: "within sane_step (create_temp dir stem)" "within sane_step (create_temp_suffix dir stem ending)"
  unfolding create_temp_def create_temp_suffix_def by (intro within)+

lemma sane_readonly: "readonly m \<Longrightarrow> within sane_step m"
proof (rule withinI)
  fix w r w' assume m: "readonly m" "m w = (r, w')"
  have "sane w \<Longrightarrow> frozen (w_tree w) w'"
    using tripleD[OF readonlyD[OF m(1)], of "w_tree w" w] m(2) by (cases r) (auto simp: sane_def frozen_def)
  then show "sane_step w w'" by (auto simp: sane_step_def sane_def frozen_def)
qed

lemma sane_target_links [within]: "within sane_step (target_links_in ps)"
  by (induction ps) (auto intro!: within)

lemma sane_on_error [within]: "within sane_step m \<Longrightarrow> within sane_step c \<Longrightarrow> within sane_step (io_on_error m c)"
proof (rule withinI)
  fix w r w' assume m: "within sane_step m" "within sane_step c" "io_on_error m c w = (r, w')"
  obtain x v where v: "m w = (x, v)" by (cases "m w")
  then have "sane_step w v" "w' = v \<or> w' = snd (c v)" using withinD[OF m(1) v] m(3) by (auto simp: io_on_error_def split: sum.splits)
  moreover have "sane_step v (snd (c v))" using m(2) by (simp add: within_def)
  ultimately show "sane_step w w'" by (auto simp: sane_step_def)
qed

lemma readonly_files [readonly]: "readonly (open_verified p)" "readonly (read_regular_file p)" "readonly (resolve_host_path p)"
  by (auto simp: open_verified_def read_regular_file_def read_regular_file_bounded_def resolve_host_path_def intro!: readonly)

lemma readonly_validate_resolved_from [readonly]: "readonly (validate_resolved_from js i vs)"
  by (induction js i vs rule: validate_resolved_from.induct)
    (auto simp: validate_one_def read_validated_file_def intro!: readonly split: option.split sum.split errno.split)

lemma sane_files [within]:
  "within sane_step (read_regular_file p)" "within sane_step (read_file p)" "within sane_step (atomic_write_file p d m)"
  "within sane_step (validate_resolved js vs)"
  by (simp_all add: sane_readonly readonly read_file_def atomic_write_file_def atomic_write_def validate_resolved_def within)

section \<open>Runs on the world\<close>

locale world_order = step_order R for R :: "tx \<Rightarrow> tx \<Rightarrow> bool" +
  assumes world: "sane_step (tx_world s) w \<Longrightarrow> R s (s\<lparr>tx_world := w\<rparr>)"
    and recontext: "R s (s\<lparr>tx_canceled := c\<rparr>)"
begin

lemma within_lift [within]: "within sane_step m \<Longrightarrow> within R (tx_lift m)"
  by (rule withinI) (auto simp: tx_lift_def intro!: world dest: withinD split: prod.splits)

lemma within_context [within]: "within R check_context"
  by (rule withinI) (auto simp: check_context_def recontext refl split: list.splits)

lemma within_uncancelled [within]:
  assumes "within R m" shows "within R (without_cancel m)"
proof (rule withinI)
  fix s r s' assume s: "without_cancel m s = (r, s')"
  obtain x v where m: "m (s\<lparr>tx_canceled := []\<rparr>) = (x, v)" by (cases "m (s\<lparr>tx_canceled := []\<rparr>)")
  then have "R (s\<lparr>tx_canceled := []\<rparr>) v" "s' = v\<lparr>tx_canceled := tx_canceled s\<rparr>"
    using withinD[OF assms m] s by (simp_all add: without_cancel_def)
  then show "R s s'" using recontext trans by metis
qed

lemma within_os [within]: "within sane_step m \<Longrightarrow> within R (tx_os m)"
  unfolding tx_os_def by (intro within)

lemma within_tx_try [within]: "within sane_step m \<Longrightarrow> within R (tx_try m)"
  unfolding tx_try_def by (intro within)

lemma within_reject [within]: "within R (reject_existing_target_links p)"
  unfolding reject_existing_target_links_def by (intro within)

lemma within_hash [within]: "within R (hash_stable_regular_file h p n)"
  unfolding hash_stable_regular_file_def Let_def by (intro within)

lemma within_scan_node [within]: "within R (scan_node h d root p rel n es)"
  by (induction d arbitrary: p rel n es) (auto simp: Let_def intro!: within)

lemma within_scan [within]: "within R (scan_filesystem_state h p)"
  unfolding scan_filesystem_state_def Let_def by (intro within)

lemma within_parents_from [within]: "within R (missing_parents_from ps acc)"
  by (induction ps arbitrary: acc) (auto intro!: within)

lemma within_parents [within]:
  "within R (find_missing_parents target)" "within R (verify_missing_parents ps)"
  "within R (verify_parent_state ps d)" "within R (remove_recorded_parents ps)"
proof -
  show "within R (find_missing_parents target)" unfolding find_missing_parents_def by (intro within)
  show "within R (verify_missing_parents ps)" unfolding verify_missing_parents_def by (intro within)
  then show "within R (verify_parent_state ps d)" unfolding verify_parent_state_def by (intro within)
  show "within R (remove_recorded_parents ps)" unfolding remove_recorded_parents_def by (intro within)
qed

lemma within_create_parents [within]:
  "within R touch \<Longrightarrow> within R after \<Longrightarrow> within R (create_missing_parents ps touch after)"
  unfolding create_missing_parents_def by (intro within)

lemma within_remove_safe [within]: "within R (remove_safe d p)"
  by (induction d arbitrary: p) (auto intro!: within)

lemma within_no_touch [within]: "within R no_touch"
  unfolding no_touch_def by (intro within)

lemma within_prepare_file [within]:
  "within R touch \<Longrightarrow> within R after \<Longrightarrow> within R (prepare_file_destination h p touch after)"
  unfolding prepare_file_destination_def remove_safe_path_def by (intro within)

lemma within_verify_data [within]: "within R (verify_entry_data h e data)"
  unfolding verify_entry_data_def by (intro within)

lemma within_atomic_write [within]:
  "within R touch \<Longrightarrow> within R after \<Longrightarrow> within R (atomic_write_transaction_file p data mode touch after)"
  unfolding atomic_write_transaction_file_def write_temporary_def replace_transaction_file_def by (intro within)

lemma within_ensure_directory:
  "within R touch \<Longrightarrow> within R after \<Longrightarrow> within R (ensure_directory h n p mode touch after)"
  by (induction n) (simp_all add: remove_safe_path_def within)

lemma within_ensure [within]:
  assumes "within R touch" "within R after" shows "within R (ensure_transaction_directory h p mode touch after)"
proof -
  have "within R events_left" by (simp add: within_def events_left_def refl)
  then show ?thesis unfolding ensure_transaction_directory_def
    by (intro within_bind within_ensure_directory assms)
qed

lemma within_remove_file [within]:
  "within R touch \<Longrightarrow> within R after \<Longrightarrow> within R (remove_transaction_file p touch after)"
  unfolding remove_transaction_file_def by (intro within)

lemma within_journal_state [within]: "within R (journal_state_run h r)"
  unfolding journal_state_run_def by (intro within)

lemma within_registry_of [within]: "within R (registry_of h)"
  unfolding registry_of_def by (intro within)

lemma within_load_registry [within]: "within R (load_registry_snapshot h p)"
  unfolding load_registry_snapshot_def by (intro within)

lemma within_copy [within]:
  assumes "within R touch" "within R after"
  shows "within R (commit_copy_action h a j touch after)"
  unfolding commit_copy_action_def commit_directory_copy_def commit_copy_path_def Let_def
  by (intro within assms)

section \<open>Runs on the journal\<close>

lemma within_walk_snapshot [within]: "within R (walk_snapshot d root acc)"
  by (induction d arbitrary: root acc) (auto intro!: within)

lemma within_artifacts [within]: "within R (verify_snapshot_artifacts h root actions)"
proof -
  have "within R (verify_action_artifact h root i a)" for i a
    unfolding verify_action_artifact_def by (intro within)
  then show ?thesis unfolding verify_snapshot_artifacts_def by (intro within)
qed

lemma within_journal_root [within]: "within R (validate_journal_root root)"
  unfolding validate_journal_root_def by (intro within)

lemma within_read_intent [within]: "within R (read_journal_intent h root)"
  unfolding read_journal_intent_def read_intent_file_def read_intent_metadata_def by (intro within)

lemma within_verify_intent [within]: "within R (verify_intent_for_marker h intent)"
  unfolding verify_intent_for_marker_def by (intro within)

lemma within_read_marker [within]: "within R (read_marker_file h root p intent)"
  unfolding read_marker_file_def by (intro within)

lemma within_attempt [within]: "within R m \<Longrightarrow> within R (tx_attempt m)"
  unfolding tx_attempt_def by (intro within)

lemma within_pending [within]: "within R (require_pending_intent h intent)"
  unfolding require_pending_intent_def by (intro within)

lemma within_reconcile [within]: "within R (reconcile_marker h root p intent bytes digest)"
  unfolding reconcile_marker_def check_marker_def by (intro within)

lemma within_publish [within]: "within R (publish_no_replace temporary destination)"
  unfolding publish_no_replace_def by (intro within)

lemma within_publish_marker [within]: "within R (publish_marker h root p intent disk encoded temporary)"
  unfolding publish_marker_def journal_checkpoint_def
  by (intro within) (auto split: tx_error.split intro!: within)

lemma within_persist_marker [within]: "within R (persist_marker h intent state validation rollback)"
  unfolding persist_marker_def Let_def by (intro within)

lemma within_validate_request [within]: "within R (validate_intent_request h prepared root lineage)"
  unfolding validate_intent_request_def Let_def by (intro within)

lemma within_validate_inputs [within]: "within R (validate_inputs h rq)"
  unfolding validate_inputs_def by (intro within)

lemma within_checkpoint [within]: "within R run_checkpoint"
  unfolding run_checkpoint_def by (intro within)

end

section \<open>Runs on the world and the registry\<close>

locale run_order = world_order +
  assumes registry: "R s (s\<lparr>tx_registry := g\<rparr>)"
begin

lemma within_registry_call [within]: "within R (tx_registry_call f e)"
  by (rule withinI) (auto simp: tx_registry_call_def intro: registry split: prod.splits)

lemma within_verify_state [within]: "within R (verify_action_state h a d)"
  unfolding verify_action_state_def read_transaction_registry_snapshot_def Let_def by (intro within)

lemma within_verify_all [within]: "within R (verify_all_states h as d)"
  unfolding verify_all_states_def by (intro within)

lemma within_execute [within]:
  assumes "within R touch" "within R after"
  shows "within R (execute_transaction_action h p j touch after)"
  unfolding execute_transaction_action_def commit_registry_action_def Let_def by (intro within assms)

lemma within_classify [within]:
  "within R (classify_filesystem_rollback h a)" "within R (classify_registry_rollback h m a)"
proof -
  show "within R (classify_filesystem_rollback h a)" unfolding classify_filesystem_rollback_def by (intro within)
  show "within R (classify_registry_rollback h m a)"
    unfolding classify_registry_rollback_def read_transaction_registry_snapshot_def Let_def by (intro within)
qed

lemma within_restore_prior [within]: "within R (restore_filesystem_prior h target backup prior current)"
  unfolding restore_filesystem_prior_def remove_desired_only_def restore_recorded_directory_def restore_recorded_path_def
    remove_safe_path_def Let_def
  by (intro within)

lemma within_rollback_action [within]: "within R (rollback_transaction_action h a)"
  unfolding rollback_transaction_action_def rollback_registry_action_def by (intro within)

end

section \<open>Runs that observe\<close>

text \<open>The order is closed under the observations \<open>Q\<close> allows.\<close>

locale observed_order = run_order +
  fixes Q :: "tx_observation \<Rightarrow> bool"
  assumes observed: "Q ob \<Longrightarrow> R s (s\<lparr>tx_observed := tx_observed s @ [ob]\<rparr>)"
begin

lemma within_observe [within]: "Q ob \<Longrightarrow> within R (observe ob)"
  by (rule withinI) (auto simp: observe_def observed)

lemma within_observed_failure:
  assumes "\<And>e. Q ((observation stage TxFailed ai vi target)\<lparr>ob_reason := reason, ob_err := Some e\<rparr>)" "within R m"
  shows "within R (observed_failure stage ai vi target reason m)"
  unfolding observed_failure_def observe_failure_def by (intro within assms)

lemma within_commit_one:
  assumes "\<And>ob. ob_stage ob = StageCommit \<Longrightarrow> Q ob" "within R (touch_action index)"
  shows "within R (commit_one h index p a)"
  unfolding commit_one_def by (intro within within_observed_failure assms) (simp_all add: observation_def)

lemma within_validate_from:
  assumes "\<And>ob. ob_stage ob = StageValidation \<Longrightarrow> Q ob"
  shows "within R (validate_from h index vs)"
proof (induction h index vs rule: validate_from.induct)
  case (2 h index v vs)
  then show ?case unfolding validate_from.simps validate_target_def
    by (intro within within_observed_failure assms) (simp_all add: observation_def)
qed (simp add: within)

lemma within_rollback_one:
  assumes "\<And>ob. ob_stage ob = StageRollback \<Longrightarrow> Q ob"
  shows "within R (rollback_one h ia)"
  unfolding rollback_one_def observe_failure_def by (intro within assms) (simp_all add: observation_def)

lemma within_rollback_all:
  assumes "\<And>ob. ob_stage ob = StageRollback \<Longrightarrow> Q ob"
  shows "within R (rollback_all h actions)"
proof -
  have "within R (rollback_each h ias)" for ias
    by (induction ias) (auto intro!: within within_rollback_one assms)
  moreover have "within R get_touched" by (simp add: within_def get_touched_def refl)
  ultimately show ?thesis unfolding rollback_all_def by (intro within)
qed

lemma within_get_began [within]: "within R get_began"
  by (simp add: within_def get_began_def refl)

lemma within_finish_failure:
  assumes "\<And>ob. ob_stage ob = StageRollback \<Longrightarrow> Q ob"
  shows "within R (finish_failure h intent actions reason validation primary)"
  unfolding finish_failure_def persist_aborted_def persist_rolled_back_def
  by (intro within within_rollback_all assms)

end

end
