(* ===== verification/RestoreScan.thy ===== *)
theory RestoreScan
  imports RestoreRuns
begin

text \<open>
  Scanning a target reads exactly the state of the tree below it: a small logic for the runs that
  only read (\<open>only_reads\<close> runs leave the tree of a calm world as it is, and \<open>yields\<close> says what they return on a known tree), and the meaning of the checks built on a scan.
\<close>

section \<open>Runs that only read\<close>

definition calm_step :: "tx \<Rightarrow> tx \<Rightarrow> bool" where
  "calm_step s s' \<longleftrightarrow> (\<forall>t. frozen t (tx_world s) \<longrightarrow> frozen t (tx_world s'))"

abbreviation only_reads :: "(tx, 'e, 'a) run \<Rightarrow> bool" where
  "only_reads \<equiv> within calm_step"

definition yields :: "tree \<Rightarrow> 'a action_run \<Rightarrow> ('a \<Rightarrow> bool) \<Rightarrow> bool" where
  "yields t m Q \<longleftrightarrow> (\<forall>s x s'. frozen t (tx_world s) \<longrightarrow> m s = (Inr x, s') \<longrightarrow> Q x)"

interpretation calm_order: step_order calm_step
  by standard (simp_all add: calm_step_def)

lemmas only_readsD = withinD[where R = calm_step]

lemma only_reads_frozen: "only_reads m \<Longrightarrow> m s = (r, s') \<Longrightarrow> frozen t (tx_world s) \<Longrightarrow> frozen t (tx_world s')"
  using only_readsD calm_step_def by blast

lemma only_reads_context [within]: "only_reads check_context"
  by (auto simp: within_def check_context_def calm_step_def split: list.splits)

lemma only_reads_lift [within]: "readonly m \<Longrightarrow> only_reads (tx_lift m)"
proof (unfold within_def, rule allI)
  fix s :: tx assume m: "readonly m"
  obtain r w where mr: "m (tx_world s) = (r, w)" by (cases "m (tx_world s)")
  have "frozen t w" if "frozen t (tx_world s)" for t
    using tripleD[OF readonlyD[OF m] that] mr by (cases r) blast+
  then show "calm_step s (snd (tx_lift m s))" by (simp add: tx_lift_def mr calm_step_def)
qed

lemma readonly_reads [readonly]:
  "readonly (read_dir p)" "readonly (sync_unix_path p b)" "readonly (sync_directory p)" "readonly (sync_durable_file p)"
  unfolding read_dir_def sync_directory_def sync_durable_file_def sync_unix_path_def by (intro readonly)+

lemma only_reads_os [within]: "readonly m \<Longrightarrow> only_reads (tx_os m)"
  unfolding tx_os_def by (intro within readonly)

lemma only_reads_tx_try [within]: "readonly m \<Longrightarrow> only_reads (tx_try m)"
  unfolding tx_try_def by (intro within readonly)

lemma readonly_target_links [readonly]: "readonly (target_links_in ps)"
proof (induction ps)
  case (Cons p ps)
  show ?case unfolding target_links_in.simps
    by (rule readonly_bind) (use Cons in \<open>auto intro: readonly split: sum.split errno.split\<close>)
qed (auto intro: readonly)

lemma only_reads_reject [within]: "only_reads (reject_existing_target_links p)"
  unfolding reject_existing_target_links_def by (intro within readonly)

lemma only_reads_hash [within]: "only_reads (hash_stable_regular_file h p n)"
  unfolding hash_stable_regular_file_def Let_def by (intro within readonly)

lemma only_reads_scan_node [within]: "only_reads (scan_node h d root p rel n es)"
  by (induction d arbitrary: p rel n es) (auto simp: Let_def intro!: within readonly)

lemma only_reads_scan [within]: "only_reads (scan_filesystem_state h p)"
  unfolding scan_filesystem_state_def
  by (auto simp: Let_def intro!: within readonly)

section \<open>What they return\<close>

lemma yields_return [simp]: "Q x \<Longrightarrow> yields t (io_return x) Q" by (simp add: yields_def io_return_def)
lemma yields_fail [simp]: "yields t (io_fail e) Q" by (simp add: yields_def io_fail_def)

lemma yields_mono: "yields t m Q \<Longrightarrow> (\<And>x. Q x \<Longrightarrow> Q' x) \<Longrightarrow> yields t m Q'"
  by (auto simp: yields_def)

lemma yields_True: "yields t m (\<lambda>_. True)" by (simp add: yields_def)

lemma yields_bind:
  assumes "only_reads m" "yields t m P" "\<And>x. P x \<Longrightarrow> yields t (k x) Q"
  shows "yields t (io_bind m k) Q"
  unfolding yields_def
proof (intro allI impI)
  fix s x s' assume s: "frozen t (tx_world s)" "io_bind m k s = (Inr x, s')"
  obtain r v where m: "m s = (r, v)" by (cases "m s")
  show "Q x"
  proof (cases r)
    case (Inr y)
    then have "P y" "frozen t (tx_world v)" "k y v = (Inr x, s')"
      using assms(2) only_reads_frozen[OF assms(1) m s(1)] s m unfolding yields_def io_bind_def by auto
    then show ?thesis using assms(3)[of y] unfolding yields_def by blast
  next
    case (Inl e)
    then show ?thesis using s m by (simp add: io_bind_def)
  qed
qed

lemma yields_then: "only_reads m \<Longrightarrow> yields t m (\<lambda>_. P) \<Longrightarrow> (P \<Longrightarrow> yields t k Q) \<Longrightarrow> yields t (io_then m k) Q"
  unfolding io_then_def by (rule yields_bind)

lemma yields_skip: "only_reads m \<Longrightarrow> yields t k Q \<Longrightarrow> yields t (io_then m k) Q"
  by (rule yields_then[OF _ yields_True])

lemma yields_lift:
  assumes "triple (frozen t) m (\<lambda>x _. Q x) (\<lambda>_. True)"
  shows "yields t (tx_lift m) Q"
  unfolding yields_def
proof (intro allI impI)
  fix s x s' assume s: "frozen t (tx_world s)" "tx_lift m s = (Inr x, s')"
  obtain r w where m: "m (tx_world s) = (r, w)" by (cases "m (tx_world s)")
  with s(2) have "m (tx_world s) = (Inr x, w)" by (simp add: tx_lift_def)
  then show "Q x" by (rule tripleD(2)[OF assms s(1)])
qed

lemma yields_os: "yields t (tx_os (query f)) (\<lambda>x. f t = Inr x)"
  unfolding tx_os_def
  by (intro yields_lift triple_map_error) (rule triple_conseq[OF frozen_query], auto)

lemma yields_try: "yields t (tx_try (query f)) (\<lambda>r. r = Inl EIO \<or> r = f t)"
  unfolding tx_try_def
  by (intro yields_lift) (rule triple_conseq[OF frozen_try_query], auto)

lemma yields_map_error:
  assumes "yields t (m :: 'a action_run) Q"
  shows "yields t (io_map_error f m) Q"
  unfolding yields_def
proof (intro allI impI)
  fix s x s' assume s: "frozen t (tx_world s)" "io_map_error f m s = (Inr x, s')"
  obtain r v where m: "m s = (r, v)" by (cases "m s")
  with s(2) have "m s = (Inr x, v)" by (cases r) (simp_all add: io_map_error_def)
  then show "Q x" using assms s(1) unfolding yields_def by blast
qed

lemma yields_of: "yields t (io_of r) (\<lambda>x. r = Inr x)"
  by (simp add: yields_def io_of_def)

lemma yields_each:
  assumes "\<And>x. x \<in> set xs \<Longrightarrow> only_reads (f x) \<and> yields t (f x) (\<lambda>_. P x)"
  shows "yields t (io_each f xs) (\<lambda>_. \<forall>x \<in> set xs. P x)"
  using assms
proof (induction xs)
  case (Cons x xs)
  have "yields t (io_then (f x) (io_each f xs)) (\<lambda>_. \<forall>y \<in> set (x # xs). P y)"
    by (rule yields_then[where P = "P x"]) (use Cons in \<open>auto intro: yields_mono\<close>)
  then show ?case by simp
qed simp

lemma yields_links_in:
  assumes wf: "wf_tree t" and root: "is_abs p" and i: "i \<le> length (clean_elements p)" "linkfree t (take i (clean_elements p))"
  shows "triple (frozen t)
     (target_links_in (map (\<lambda>n. key_path (take n (clean_elements p))) [Suc i..<Suc (length (clean_elements p))]))
     (\<lambda>_ w. linkfree t (clean_elements p) \<and> frozen t w) (frozen t)"
  using i
proof (induction "length (clean_elements p) - i" arbitrary: i)
  case 0
  then show ?case by (auto intro!: triple_return)
next
  case (Suc n)
  let ?es = "clean_elements p"
  let ?Q = "\<lambda>_ w. linkfree t ?es \<and> frozen t w"
  have lt: "i < length ?es" using Suc.hyps(2) by simp
  then have up: "[Suc i..<Suc (length ?es)] = Suc i # [Suc (Suc i)..<Suc (length ?es)]" by (simp add: upt_rec)
  have snoc: "take (Suc i) ?es = take i ?es @ [?es ! i]" using lt by (simp add: take_Suc_conv_app_nth)
  have here: "is_abs (key_path (take (Suc i) ?es))" "clean_elements (key_path (take (Suc i) ?es)) = take i ?es @ [?es ! i]"
    using key_path_take[OF root, of "Suc i"] snoc by simp_all
  note step = lstat_linkfree[OF wf here Suc.prems(2), folded snoc]
  let ?ps = "map (\<lambda>n. key_path (take n ?es)) [Suc (Suc i)..<Suc (length ?es)]"
  have rest: "triple (frozen t) (target_links_in ?ps) ?Q (frozen t)" if "linkfree t (take (Suc i) ?es)"
    using Suc.hyps(1)[of "Suc i"] Suc.hyps(2) lt that by simp
  have gone: "linkfree t ?es" if none: "node_at t (locate t (key_path (take (Suc i) ?es))) = Inl ENOENT"
  proof -
    have "fmlookup t (take (Suc i) ?es) = None"
      using none locate_present[OF wf here(1)] here(2) snoc by (cases "fmlookup t (take (Suc i) ?es)") (auto simp: node_at_def entry_def)
    then have e: "entry t (take i ?es @ [?es ! i]) = None" using snoc by (simp add: entry_def)
    have "linkfree t (take i ?es @ [?es ! i] @ drop (Suc i) ?es)" by (rule linkfree_missing[OF wf Suc.prems(2) e])
    then show ?thesis using lt by (simp add: id_take_nth_drop[symmetric])
  qed
  have stat: "triple (frozen t) (io_try (lstat (key_path (take (Suc i) ?es))))
      (\<lambda>r w. (r = Inl EIO \<or> r = node_at t (locate t (key_path (take (Suc i) ?es)))) \<and> frozen t w) (frozen t)"
    unfolding lstat_def by (rule frozen_try_query)
  show ?case
    unfolding up list.map target_links_in.simps
  proof (rule triple_bind[OF stat], rule triple_pure)
    fix r assume r: "r = Inl EIO \<or> r = node_at t (locate t (key_path (take (Suc i) ?es)))"
    show "triple (frozen t) (case r of Inl ENOENT \<Rightarrow> io_return () | Inl e \<Rightarrow> io_fail (TxOs e)
        | Inr info \<Rightarrow> if is_link info then io_fail TxLink else if ?ps \<noteq> [] \<and> \<not> is_dir info then io_fail TxNotDirectory
            else target_links_in ?ps) ?Q (frozen t)"
      using rest r step gone by (auto split: sum.split errno.split intro!: triple_fail triple_return)
  qed
qed

lemma yields_reject:
  assumes "wf_tree t" "is_abs p"
  shows "yields t (reject_existing_target_links p) (\<lambda>_. linkfree t (clean_elements p))"
proof -
  let ?es = "clean_elements p"
  let ?ps = "map (\<lambda>n. key_path (take n ?es)) [Suc 0..<Suc (length ?es)]"
  have chain: "root_chain p = key_path (take 0 ?es) # ?ps"
    unfolding root_chain_def by (subst upt_conv_Cons) simp_all
  have rest: "triple (frozen t) (target_links_in ?ps) (\<lambda>_ w. linkfree t ?es \<and> frozen t w) (frozen t)"
    using yields_links_in[OF assms, of 0] by simp
  have root: "clean_elements (key_path []) = []" "is_abs (key_path [])" using clean_elements_key_path[of "[]"] by simp_all
  have "locate t (key_path []) = Inr []" by (simp add: locate_def root)
  then have "node_at t (locate t (key_path (take 0 ?es))) = Inr (Dir 493)" by (simp add: node_at_def entry_def)
  then have stat: "triple (frozen t) (io_try (lstat (key_path (take 0 ?es))))
      (\<lambda>r w. (r = Inl EIO \<or> r = Inr (Dir 493)) \<and> frozen t w) (frozen t)"
    unfolding lstat_def using frozen_try_query[of t "\<lambda>t. node_at t (locate t (key_path (take 0 ?es)))"] by simp
  have "triple (frozen t) (target_links_in (root_chain p)) (\<lambda>_ w. linkfree t ?es \<and> frozen t w) (frozen t)"
    unfolding chain target_links_in.simps
  proof (rule triple_bind[OF stat], rule triple_pure)
    fix r assume "r = Inl EIO \<or> r = Inr (Dir 493)"
    then show "triple (frozen t) (case r of Inl ENOENT \<Rightarrow> io_return () | Inl e \<Rightarrow> io_fail (TxOs e)
        | Inr info \<Rightarrow> if is_link info then io_fail TxLink else if ?ps \<noteq> [] \<and> \<not> is_dir info then io_fail TxNotDirectory
            else target_links_in ?ps) (\<lambda>_ w. linkfree t ?es \<and> frozen t w) (frozen t)"
      using rest by (auto intro!: triple_fail)
  qed
  then show ?thesis unfolding reject_existing_target_links_def by (intro yields_lift) (auto elim: triple_conseq)
qed

section \<open>The state of a tree\<close>

text \<open>What a scan is to find at a key: the entries of the nodes at and below it, by relative path.\<close>

definition node_entry :: "(string \<Rightarrow> string) \<Rightarrow> string \<Rightarrow> node \<Rightarrow> state_entry" where
  "node_entry sha p n =
     (case n of
        File _ m d \<Rightarrow> \<lparr>en_path = p, en_kind = StateFile, en_mode = perm m, en_size = int (length d), en_hash = sha d\<rparr>
      | _ \<Rightarrow> \<lparr>en_path = p, en_kind = StateDirectory, en_mode = perm (node_mode n), en_size = 0, en_hash = []\<rparr>)"

definition relative_name :: "key \<Rightarrow> key \<Rightarrow> string" where
  "relative_name k j = render_clean False (drop (length k) j)"

definition tree_entries :: "(string \<Rightarrow> string) \<Rightarrow> tree \<Rightarrow> key \<Rightarrow> entries" where
  "tree_entries sha t k =
     fmap_of_list (map (\<lambda>j. (relative_name k j, node_entry sha (relative_name k j) (the (fmlookup t j)))) (below t k))"

definition tree_state :: "(string \<Rightarrow> string) \<Rightarrow> tree \<Rightarrow> key \<Rightarrow> fs_state" where
  "tree_state sha t k =
     (case fmlookup t k of None \<Rightarrow> absent_state sha
      | Some n \<Rightarrow> let e = node_entry sha ''.'' n in with_digest sha (en_kind e) (en_mode e) (tree_entries sha t k))"

text \<open>The entries after a walk over the keys in \<open>S\<close>.\<close>

definition walked :: "(string \<Rightarrow> string) \<Rightarrow> tree \<Rightarrow> key \<Rightarrow> key set \<Rightarrow> entries \<Rightarrow> entries \<Rightarrow> bool" where
  "walked sha t R S es es' \<longleftrightarrow>
     (\<forall>j \<in> S. \<forall>n. prefix R j \<longrightarrow> fmlookup t j = Some n \<longrightarrow>
        fmlookup es' (relative_name R j) = Some (node_entry sha (relative_name R j) n)) \<and>
     (\<forall>p. (\<forall>j \<in> S. prefix R j \<longrightarrow> fmlookup t j \<noteq> None \<longrightarrow> p \<noteq> relative_name R j) \<longrightarrow> fmlookup es' p = fmlookup es p)"

lemma relative_name_inj:
  assumes "wf_tree t" "prefix R j" "prefix R k" "fmlookup t j \<noteq> None" "fmlookup t k \<noteq> None" "relative_name R j = relative_name R k"
  shows "j = k"
proof -
  obtain a b where "j = R @ a" "k = R @ b" using assms(2,3) by (auto simp: prefix_def)
  moreover then have "plain_key a" "plain_key b" using assms(1,4,5) by (auto simp: wf_tree_def)
  ultimately show ?thesis using assms(6) render_inj by (simp add: relative_name_def)
qed

lemma walked_empty [simp]: "walked sha t R {} es es' \<longleftrightarrow> es' = es"
  by (auto simp: walked_def intro: fmap_ext)

lemma walked_trans:
  assumes wf: "wf_tree t" and "walked sha t R S es es'" "walked sha t R T es' es''"
  shows "walked sha t R (S \<union> T) es es''"
  unfolding walked_def
proof (intro conjI ballI allI impI)
  fix j n assume j: "j \<in> S \<union> T" "prefix R j" "fmlookup t j = Some n"
  show "fmlookup es'' (relative_name R j) = Some (node_entry sha (relative_name R j) n)"
  proof (cases "j \<in> T")
    case True
    then show ?thesis using assms(3) j(2,3) by (simp add: walked_def)
  next
    case False
    then have "relative_name R j \<noteq> relative_name R k" if "k \<in> T" "prefix R k" "fmlookup t k \<noteq> None" for k
      using relative_name_inj[OF wf j(2) that(2) _ that(3)] j(3) that(1) by auto
    then have "fmlookup es'' (relative_name R j) = fmlookup es' (relative_name R j)" using assms(3) by (simp add: walked_def)
    then show ?thesis using assms(2) j False by (simp add: walked_def)
  qed
next
  fix p assume "\<forall>j \<in> S \<union> T. prefix R j \<longrightarrow> fmlookup t j \<noteq> None \<longrightarrow> p \<noteq> relative_name R j"
  then show "fmlookup es'' p = fmlookup es p" using assms(2,3) by (simp add: walked_def)
qed

lemma walked_here:
  assumes "fmlookup t j = Some n" "prefix R j"
  shows "walked sha t R {j} es (fmupd (relative_name R j) (node_entry sha (relative_name R j) n) es)"
  using assms by (simp add: walked_def)

lemma walked_absent: "walked sha t R S es es' \<Longrightarrow> (\<And>j. j \<in> T \<Longrightarrow> fmlookup t j = None) \<Longrightarrow> walked sha t R (S \<union> T) es es'"
  unfolding walked_def by (metis Un_iff option.distinct(1))

lemma walked_cong:
  assumes "walked sha t R S es es'" "\<And>j. prefix R j \<Longrightarrow> fmlookup t j \<noteq> None \<Longrightarrow> j \<in> S \<longleftrightarrow> j \<in> T"
  shows "walked sha t R T es es'"
  unfolding walked_def
proof (intro conjI ballI allI impI)
  fix j n assume j: "j \<in> T" "prefix R j" "fmlookup t j = Some n"
  then have "j \<in> S" using assms(2)[of j] by simp
  then show "fmlookup es' (relative_name R j) = Some (node_entry sha (relative_name R j) n)"
    using assms(1) j(2,3) by (simp add: walked_def)
next
  fix p assume p: "\<forall>j \<in> T. prefix R j \<longrightarrow> fmlookup t j \<noteq> None \<longrightarrow> p \<noteq> relative_name R j"
  have "p \<noteq> relative_name R j" if "j \<in> S" "prefix R j" "fmlookup t j \<noteq> None" for j
    using p that assms(2)[OF that(2,3)] by blast
  then show "fmlookup es' p = fmlookup es p" using assms(1) by (simp add: walked_def)
qed

lemma walked_all:
  assumes wf: "wf_tree t" and w: "walked sha t R {j. prefix R j} fmempty es"
  shows "es = tree_entries sha t R"
proof (rule fmap_ext)
  fix p
  let ?f = "\<lambda>j. (relative_name R j, node_entry sha (relative_name R j) (the (fmlookup t j)))"
  have dom: "prefix R j \<and> fmlookup t j \<noteq> None" if "j \<in> set (below t R)" for j
    using that by (auto simp: set_below fmlookup_dom'_iff)
  have dist: "distinct (map fst (map ?f (below t R)))"
  proof -
    have "distinct (below t R)" by (simp add: below_def sorted_list_of_fset.rep_eq)
    moreover have "x = y" if "x \<in> set (below t R)" "y \<in> set (below t R)" "relative_name R x = relative_name R y" for x y
      using relative_name_inj[OF wf] dom[OF that(1)] dom[OF that(2)] that(3) by blast
    ultimately show ?thesis by (auto simp: distinct_map comp_def intro!: inj_onI)
  qed
  show "fmlookup es p = fmlookup (tree_entries sha t R) p"
  proof (cases "\<exists>j \<in> set (below t R). p = relative_name R j")
    case True
    then obtain j where j: "j \<in> set (below t R)" "p = relative_name R j" by blast
    then have "fmlookup es p = Some (snd (?f j))" using w dom[OF j(1)] by (auto simp: walked_def)
    moreover have "map_of (map ?f (below t R)) p = Some (snd (?f j))"
      by (rule map_of_is_SomeI[OF dist]) (use j in auto)
    ultimately show ?thesis by (simp add: tree_entries_def fmap_of_list.rep_eq)
  next
    case False
    then have "map_of (map ?f (below t R)) p = None" by (auto simp: map_of_eq_None_iff)
    moreover have "fmlookup es p = None"
    proof -
      have "p \<noteq> relative_name R j" if "prefix R j" "fmlookup t j \<noteq> None" for j
      proof -
        from that have "j \<in> set (below t R)" by (auto simp: set_below fmlookup_dom'_iff)
        then show ?thesis using False by blast
      qed
      then show ?thesis using w by (auto simp: walked_def)
    qed
    ultimately show ?thesis by (simp add: tree_entries_def fmap_of_list.rep_eq)
  qed
qed

section \<open>The scan\<close>

lemma yields_hash:
  assumes p: "is_abs p" "linkfree t (clean_elements p)" "clean_elements p \<noteq> []"
    and n: "fmlookup t (clean_elements p) = Some n"
  shows "yields t (hash_stable_regular_file h p n)
     (\<lambda>(size, hash). \<exists>i m d. n = File i m d \<and> size = int (length d) \<and> hash = rh_sha h d)"
proof -
  have found: "opened = n" if "node_at t (locate_final t p) = Inr opened" for opened
    using node_at_linkfree(2)[OF p that] n by simp
  show ?thesis
    unfolding hash_stable_regular_file_def open_file_def lstat_def Let_def
    by (cases n) (auto intro!: yields_bind[OF _ yields_os] yields_skip within readonly dest!: found
        simp: file_data_def yields_True)
qed

text \<open>The children of a directory are the keys one element longer.\<close>

lemma child_names_iff:
  assumes wf: "wf_tree t"
  shows "c \<in> set (child_names t k) \<longleftrightarrow> fmlookup t (k @ [c]) \<noteq> None"
proof -
  have "(\<exists>j. j \<in> set (below t k) \<and> length j = Suc (length k) \<and> last j = c) \<longleftrightarrow> k @ [c] \<in> set (below t k)"
  proof
    assume "\<exists>j. j \<in> set (below t k) \<and> length j = Suc (length k) \<and> last j = c"
    then obtain j where j: "j \<in> set (below t k)" "length j = Suc (length k)" "last j = c" by blast
    then obtain xs where xs: "j = k @ xs" by (auto simp: set_below prefix_def)
    then have "length xs = 1" using j(2) by simp
    then have "xs = [c]" using j(3) xs by (cases xs) auto
    then show "k @ [c] \<in> set (below t k)" using j(1) xs by simp
  next
    assume "k @ [c] \<in> set (below t k)"
    then show "\<exists>j. j \<in> set (below t k) \<and> length j = Suc (length k) \<and> last j = c" by (intro exI[of _ "k @ [c]"]) simp
  qed
  then show ?thesis by (auto simp: child_names_def set_below fmlookup_dom'_iff image_iff)
qed

lemma keys_below_split:
  assumes wf: "wf_tree t" and "prefix k j" "fmlookup t j \<noteq> None"
  shows "j = k \<or> (\<exists>c \<in> set (child_names t k). prefix (k @ [c]) j)"
proof (cases "j = k")
  case False
  obtain zs where zs: "j = k @ zs" using assms(2) by (auto simp: prefix_def)
  with False obtain c xs where "zs = c # xs" by (cases zs) auto
  with zs have j: "j = (k @ [c]) @ xs" by simp
  have "fmlookup t (k @ [c]) \<noteq> None"
  proof (cases "xs = []")
    case True then show ?thesis using assms(3) j by simp
  next
    case xs: False
    then obtain m where "entry t (k @ [c]) = Some (Dir m)" using wf_tree_above[OF wf, of "k @ [c]" xs] assms(3) j by auto
    then show ?thesis by (simp add: entry_def)
  qed
  then have "c \<in> set (child_names t k)" using child_names_iff[OF wf] by simp
  then show ?thesis using j by (auto simp: prefix_def)
qed simp

lemma yields_fold:
  assumes "\<And>x acc. only_reads (f x acc)" "I {} acc"
    and "\<And>x acc S. x \<in> set xs \<Longrightarrow> I S acc \<Longrightarrow> yields t (f x acc) (I (insert x S))"
  shows "yields t (io_fold f xs acc) (I (set xs))"
proof -
  have "yields t (io_fold f ys acc) (I (S \<union> set ys))" if "I S acc" "set ys \<subseteq> set xs" for ys S acc
    using that
  proof (induction ys arbitrary: S acc)
    case (Cons y ys)
    show ?case unfolding io_fold.simps
    proof (rule yields_bind[OF assms(1)])
      show "yields t (f y acc) (I (insert y S))" using assms(3) Cons.prems by simp
      fix acc' assume "I (insert y S) acc'"
      then show "yields t (io_fold f ys acc') (I (S \<union> set (y # ys)))" using Cons.IH[of "insert y S" acc'] Cons.prems by simp
    qed
  qed simp
  from this[of "{}" acc xs] assms(2) show ?thesis by simp
qed

lemma yields_scan_node:
  assumes wf: "wf_tree t" and root: "is_abs root"
  shows "\<lbrakk>is_abs p; clean_elements p = clean_elements root @ xs; clean_elements p \<noteq> []; fmlookup t (clean_elements p) = Some n;
      \<not> is_link n \<Longrightarrow> linkfree t (clean_elements p)\<rbrakk> \<Longrightarrow>
    yields t (scan_node h d root p (render_clean False xs) n es)
      (walked (rh_sha h) t (clean_elements root) {j. prefix (clean_elements p) j} es)"
proof (induction d arbitrary: p xs n es)
  case (Suc d)
  let ?R = "clean_elements root" and ?k = "clean_elements p" and ?sha = "rh_sha h"
  let ?Q = "walked ?sha t ?R {j. prefix ?k j} es"
  have name: "relative_name ?R ?k = render_clean False xs" by (simp add: relative_name_def Suc.prems(2))
  have pre: "prefix ?R ?k" by (simp add: Suc.prems(2))
  note here = walked_here[OF Suc.prems(4) pre, unfolded name, of ?sha]
  have alone: "?Q (fmupd (render_clean False xs) (node_entry ?sha (render_clean False xs) n) es)" if "\<not> is_dir n"
  proof -
    have "entry t ?k \<noteq> Some (Dir m)" for m using that Suc.prems(3,4) by (cases n) (auto simp: entry_def)
    note none = wf_tree_nothing_below[OF wf this]
    have "walked ?sha t ?R ({?k} \<union> {j. strict_prefix ?k j}) es (fmupd (render_clean False xs) (node_entry ?sha (render_clean False xs) n) es)"
      by (rule walked_absent[OF here]) (use none in \<open>metis mem_Collect_eq prefixE strict_prefix_def append_Nil2\<close>)
    moreover have "{?k} \<union> {j. strict_prefix ?k j} = {j. prefix ?k j}" by (auto simp: strict_prefix_def)
    ultimately show ?thesis by simp
  qed
  show ?case
  proof (cases n)
    case (File i m dat)
    have "yields t (hash_stable_regular_file h p n)
        (\<lambda>(size, hash). \<exists>i m d. n = File i m d \<and> size = int (length d) \<and> hash = ?sha d)"
      by (rule yields_hash[OF Suc.prems(1) _ Suc.prems(3,4)]) (use Suc.prems(5) File in simp)
    then show ?thesis using alone File
      by (auto intro!: yields_skip within yields_bind[OF only_reads_hash] simp: node_entry_def node_mode_def)
  next
    case (Dir m)
    have lf: "linkfree t ?k" using Suc.prems(5) Dir by simp
    let ?es = "fmupd (render_clean False xs) \<lparr>en_path = render_clean False xs, en_kind = StateDirectory, en_mode = perm m, en_size = 0, en_hash = []\<rparr> es"
    let ?step = "\<lambda>name es'. io_then check_context (io_bind (tx_os (lstat (join_path [p, name]))) (\<lambda>childInfo.
                case rel_path root (join_path [p, name]) of None \<Rightarrow> io_fail TxUnsafeType
                | Some childRelative \<Rightarrow> scan_node h d root (join_path [p, name]) childRelative childInfo es'))"
    let ?I = "\<lambda>S es'. walked ?sha t ?R ({?k} \<union> {j. \<exists>c \<in> S. prefix (?k @ [c]) j}) es es'"
    have step: "only_reads (?step name es')" for name es'
      by (intro within readonly)
    have child: "yields t (?step c es') (?I (insert c S))" if c: "c \<in> set (child_names t ?k)" and I: "?I S es'" for c es' S
    proof -
      obtain cn where cn: "fmlookup t (?k @ [c]) = Some cn" using c child_names_iff[OF wf, of c ?k] by auto
      then have plain: "plain_key (?k @ [c])" using wf by (auto simp: wf_tree_def)
      then have q: "clean_elements (join_path [p, c]) = ?k @ [c]" "is_abs (join_path [p, c])"
        using join_component[OF Suc.prems(1), of c] by (auto simp: plain_key_def)
      have rel: "rel_path root (join_path [p, c]) = Some (render_clean False (xs @ [c]))"
        using root q Suc.prems(2) by (simp add: rel_path_def drop_common_below)
      have at: "node_at t (locate t (join_path [p, c])) = Inr cn"
        using locate_present[OF wf q(2)] q(1) cn by (simp add: node_at_def entry_def)
      have "yields t (scan_node h d root (join_path [p, c]) (render_clean False (xs @ [c])) cn es')
          (walked ?sha t ?R {j. prefix (?k @ [c]) j} es')"
        using Suc.IH[of "join_path [p, c]" "xs @ [c]" cn es'] q cn Suc.prems(2)
          linkfree_snoc[OF lf, of c] by (auto simp: entry_def)
      then have "yields t (scan_node h d root (join_path [p, c]) (render_clean False (xs @ [c])) cn es') (?I (insert c S))"
      proof (rule yields_mono)
        fix x assume "walked ?sha t ?R {j. prefix (?k @ [c]) j} es' x"
        from walked_trans[OF wf I this] show "?I (insert c S) x"
          by (rule back_subst[of "\<lambda>S. walked ?sha t ?R S es x"]) auto
      qed
      then show ?thesis unfolding lstat_def
        by (intro yields_skip within yields_bind[OF _ yields_os] readonly) (simp add: rel at)
    qed
    have read: "yields t (tx_os (read_dir p)) (\<lambda>names. names = child_names t ?k)"
    proof -
      have "locate_final t p = Inr j \<Longrightarrow> j = ?k" for j by (rule locate_final_linkfree[OF _ Suc.prems(1) lf])
      then show ?thesis unfolding read_dir_def
        by (intro yields_mono[OF yields_os]) (auto split: sum.splits option.splits node.splits)
    qed
    have start: "?I {} ?es" using here Dir by (simp add: node_entry_def node_mode_def)
    have "yields t (io_fold ?step (child_names t ?k) ?es) (?I (set (child_names t ?k)))"
      by (rule yields_fold[where I = ?I]) (use step child start in auto)
    moreover have "?Q es'" if "?I (set (child_names t ?k)) es'" for es'
    proof (rule walked_cong[OF that])
      fix j assume "fmlookup t j \<noteq> None"
      then show "j \<in> {?k} \<union> {j. \<exists>c \<in> set (child_names t ?k). prefix (?k @ [c]) j} \<longleftrightarrow> j \<in> {j. prefix ?k j}"
        using keys_below_split[OF wf, of ?k j] append_prefixD[of ?k _ j] by blast
    qed
    ultimately have fold: "yields t (io_fold ?step (child_names t ?k) ?es) ?Q" by (rule yields_mono)
    have "yields t (io_bind (tx_os (read_dir p)) (\<lambda>names. io_fold ?step names ?es)) ?Q"
      by (rule yields_bind[OF only_reads_os[OF readonly_reads(1)] read]) (simp add: fold)
    then show ?thesis unfolding scan_node.simps Dir Let_def
      by (simp add: node_mode_def yields_skip[OF only_reads_context])
  qed (simp_all add: yields_skip only_reads_context)
qed simp

text \<open>A scan that succeeds on a known tree returns exactly the state of the tree at the target.\<close>

lemma yields_scan:
  assumes wf: "wf_tree t" and p: "is_abs p" "clean_elements p \<noteq> []"
  shows "yields t (scan_filesystem_state h p)
     (\<lambda>s. s = tree_state (rh_sha h) t (clean_elements p) \<and> linkfree t (clean_elements p))"
  unfolding scan_filesystem_state_def
proof (rule yields_skip[OF only_reads_context], rule yields_then[OF only_reads_reject yields_reject[OF wf p(1)]])
  let ?k = "clean_elements p"
  let ?rest = "\<lambda>r. case r of
         Inl ENOENT \<Rightarrow> io_return (absent_state (rh_sha h))
       | Inl e \<Rightarrow> io_fail (TxOs e)
       | Inr info \<Rightarrow>
           io_bind (scan_node h (rh_depth h) p p ''.'' info fmempty) (\<lambda>es.
             let r = the (fmlookup es ''.'') in io_return (with_digest (rh_sha h) (en_kind r) (en_mode r) es))"
  assume lf: "linkfree t ?k"
  have gone: "tree_state (rh_sha h) t ?k = absent_state (rh_sha h)" if "node_at t (locate t p) = Inl ENOENT"
    using that locate_present[OF wf p(1)] p(2) by (cases "fmlookup t ?k") (auto simp: node_at_def entry_def tree_state_def)
  have found: "yields t (io_bind (scan_node h (rh_depth h) p p ''.'' info fmempty) (\<lambda>es.
             let r = the (fmlookup es ''.'') in io_return (with_digest (rh_sha h) (en_kind r) (en_mode r) es)))
      (\<lambda>s. s = tree_state (rh_sha h) t ?k)" if "node_at t (locate t p) = Inr info" for info
  proof (rule yields_bind[OF only_reads_scan_node])
    have n: "fmlookup t ?k = Some info" by (rule node_at_linkfree(1)[OF p(1) lf p(2) that])
    show "yields t (scan_node h (rh_depth h) p p ''.'' info fmempty) (walked (rh_sha h) t ?k {j. prefix ?k j} fmempty)"
      using yields_scan_node[OF wf p(1), of p "[]" info h "rh_depth h" fmempty] p n lf by (simp add: render_clean_def)
    fix es assume w: "walked (rh_sha h) t ?k {j. prefix ?k j} fmempty es"
    have "fmlookup es ''.'' = Some (node_entry (rh_sha h) ''.'' info)"
      using w n prefix_order.refl[of ?k] by (auto simp: walked_def relative_name_def render_clean_def)
    then show "yields t (let r = the (fmlookup es ''.'') in io_return (with_digest (rh_sha h) (en_kind r) (en_mode r) es))
        (\<lambda>s. s = tree_state (rh_sha h) t ?k)"
      using walked_all[OF wf w] n by (simp add: tree_state_def Let_def)
  qed
  show "yields t (io_bind (tx_try (lstat p)) ?rest) (\<lambda>s. s = tree_state (rh_sha h) t ?k \<and> linkfree t ?k)"
    unfolding lstat_def
  proof (rule yields_bind[OF _ yields_try])
    show "only_reads (tx_try (query (\<lambda>t. node_at t (locate t p))))" by (intro within readonly)
    fix r assume r: "r = Inl EIO \<or> r = node_at t (locate t p)"
    have "yields t (?rest r) (\<lambda>s. s = tree_state (rh_sha h) t ?k)"
      using r gone found by (auto split: sum.split errno.split)
    then show "yields t (?rest r) (\<lambda>s. s = tree_state (rh_sha h) t ?k \<and> linkfree t ?k)"
      by (rule yields_mono) (simp add: lf)
  qed
qed

text \<open>The check of the parents of a target.\<close>

lemma yields_parents_gone:
  assumes wf: "wf_tree t" and ps: "\<And>p. p \<in> set ps \<Longrightarrow> is_abs p \<and> clean_elements p \<noteq> []"
  shows "yields t (verify_missing_parents ps) (\<lambda>_. \<forall>p \<in> set ps. fmlookup t (clean_elements p) = None)"
  unfolding verify_missing_parents_def
proof (rule yields_each, rule conjI)
  fix p assume p: "p \<in> set ps"
  let ?m = "io_bind (tx_try (lstat p)) (\<lambda>r.
       case r of Inl ENOENT \<Rightarrow> io_return () | Inl e \<Rightarrow> io_fail (TxOs e) | Inr _ \<Rightarrow> io_fail TxParentExists)"
  have m: "only_reads ?m" unfolding lstat_def
    by (intro within readonly)
  show "only_reads (io_then (reject_existing_target_links p) ?m)" by (intro within m)
  have "fmlookup t (clean_elements p) = None" if "node_at t (locate t p) = Inl ENOENT"
    using that locate_present[OF wf] ps[OF p] by (cases "fmlookup t (clean_elements p)") (auto simp: node_at_def entry_def)
  then have "yields t ?m (\<lambda>_. fmlookup t (clean_elements p) = None)"
    unfolding lstat_def by (intro yields_bind[OF _ yields_try] within readonly) (auto split: sum.split errno.split)
  then show "yields t (io_then (reject_existing_target_links p) ?m) (\<lambda>_. fmlookup t (clean_elements p) = None)"
    by (rule yields_skip[OF only_reads_reject])
qed

end
