(* ===== verification/RestoreControl.thy ===== *)
theory RestoreControl
  imports RestoreScan
begin

text \<open>
  The control flow of a restore transaction: whatever the calls, the context and the other
  processes do, the executor returns a result, the result says what happened, and a rollback goes
  over every touched action once, in reverse order.
\<close>

section \<open>Orders of a transaction\<close>

definition same_marks :: "tx \<Rightarrow> tx \<Rightarrow> bool" where
  "same_marks s s' \<longleftrightarrow> tx_touched s' = tx_touched s \<and> tx_began s' = tx_began s"

interpretation marks_order: observed_order same_marks "\<lambda>_. True"
  by standard (simp_all add: same_marks_def)

text \<open>What is observed is appended.\<close>

definition logs :: "(tx_observation \<Rightarrow> bool) \<Rightarrow> tx \<Rightarrow> tx \<Rightarrow> bool" where
  "logs P s s' \<longleftrightarrow> (\<exists>ys. tx_observed s' = tx_observed s @ ys \<and> list_all P ys)"

interpretation log_order: observed_order "logs P" P for P
  by standard (auto simp: logs_def intro: exI[of _ "[]"])

text \<open>A change has begun when some action is marked, and a mark stays.\<close>

definition marked :: "nat \<Rightarrow> tx \<Rightarrow> bool" where
  "marked n s \<longleftrightarrow> length (tx_touched s) = n \<and> (tx_began s \<longleftrightarrow> True \<in> set (tx_touched s))"

definition keeps_marks :: "nat \<Rightarrow> tx \<Rightarrow> tx \<Rightarrow> bool" where
  "keeps_marks n s s' \<longleftrightarrow> (marked n s \<longrightarrow> marked n s' \<and> (\<forall>i < n. tx_touched s ! i \<longrightarrow> tx_touched s' ! i))"

interpretation touch_order: observed_order "keeps_marks n" "\<lambda>_. True" for n
  by standard (auto simp: keeps_marks_def marked_def)

text \<open>A world that is calm and well formed stays so.\<close>

definition stays_sane :: "tx \<Rightarrow> tx \<Rightarrow> bool" where
  "stays_sane s s' \<longleftrightarrow> sane_step (tx_world s) (tx_world s')"

interpretation sane_tx_order: observed_order stays_sane "\<lambda>_. True"
  by standard (auto simp: stays_sane_def sane_step_def)

lemma touch_keeps [within]: "i < n \<Longrightarrow> within (keeps_marks n) (touch_action i)"
  by (auto simp: within_def keeps_marks_def marked_def touch_action_def nth_list_update set_update_memI)

lemma touch_logs [within]: "within (logs P) (touch_action i)" "within stays_sane (touch_action i)"
  by (auto simp: within_def logs_def touch_action_def stays_sane_def sane_step_def intro: exI[of _ "[]"])

section \<open>Results\<close>

text \<open>A property of what a run returns when it returns.\<close>

definition gives :: "('s, 'e, 'a) run \<Rightarrow> ('a \<Rightarrow> bool) \<Rightarrow> bool" where
  "gives m Q \<longleftrightarrow> (\<forall>s x s'. m s = (Inr x, s') \<longrightarrow> Q x)"

lemma givesD: "gives m Q \<Longrightarrow> m s = (Inr x, s') \<Longrightarrow> Q x"
  unfolding gives_def by blast

lemma gives_return: "Q x \<Longrightarrow> gives (io_return x) Q" by (simp add: gives_def io_return_def)
lemma gives_fail [simp]: "gives (io_fail e) Q" by (simp add: gives_def io_fail_def)
lemma gives_True [simp]: "gives m (\<lambda>_. True)" by (simp add: gives_def)

lemma gives_bind: "gives m P \<Longrightarrow> (\<And>x. P x \<Longrightarrow> gives (k x) Q) \<Longrightarrow> gives (io_bind m k) Q"
  unfolding gives_def by (metis io_bind_cases sum.distinct(1))

lemma gives_skip: "(\<And>x. gives (k x) Q) \<Longrightarrow> gives (io_bind m k) Q"
  by (rule gives_bind[OF gives_True])

lemma gives_then: "gives k Q \<Longrightarrow> gives (io_then m k) Q"
  unfolding io_then_def by (rule gives_skip)

lemma gives_mono: "gives m P \<Longrightarrow> (\<And>x. P x \<Longrightarrow> Q x) \<Longrightarrow> gives m Q"
  by (simp add: gives_def)

lemma gives_try: "gives m Q \<Longrightarrow> gives (io_try m) (\<lambda>r. \<forall>x. r = Inr x \<longrightarrow> Q x)"
  by (auto simp: gives_def io_try_def split: prod.splits)

lemma gives_finally: "gives m Q \<Longrightarrow> gives (io_finally m c) Q"
  by (auto simp: gives_def io_finally_def split: prod.splits)

lemma gives_uncancelled: "gives m Q \<Longrightarrow> gives (without_cancel m) Q"
  by (auto simp: gives_def without_cancel_def split: prod.splits)

lemma triple_attempt:
  assumes "gives m Q" "within R m" "\<And>s s'. P s \<Longrightarrow> R s s' \<Longrightarrow> P' s'"
  shows "triple P (io_try m) (\<lambda>r s. (\<forall>x. r = Inr x \<longrightarrow> Q x) \<and> P' s) E"
proof (rule tripleI)
  fix s r s' assume s: "P s" "io_try m s = (Inr r, s')"
  obtain x v where m: "m s = (x, v)" by (cases "m s")
  then have "r = x" "s' = v" using s(2) by (simp_all add: io_try_def)
  then show "(\<forall>x. r = Inr x \<longrightarrow> Q x) \<and> P' s'"
    using givesD[OF assms(1)] assms(3)[OF s(1) withinD[OF assms(2) m]] m by blast
qed (simp add: io_try_def split: prod.splits)

section \<open>Markers\<close>

definition marks :: "restore_host \<Rightarrow> string \<Rightarrow> journal_state \<Rightarrow> validation_status \<Rightarrow> rollback_outcome \<Rightarrow> journal_marker \<Rightarrow> bool" where
  "marks h digest state validation rollback m \<longleftrightarrow>
     jm_digest m = mi_markerDigest (fst (new_marker_disk h digest state validation rollback))"

lemma gives_check_marker: "gives (check_marker h root p intent bytes digest) (\<lambda>m. jm_digest m = digest)"
  unfolding check_marker_def by (auto intro!: gives_skip gives_return)

lemma gives_reconcile: "gives (reconcile_marker h root p intent bytes digest) (\<lambda>m. jm_digest m = digest)"
  unfolding reconcile_marker_def by (intro gives_skip gives_then gives_check_marker)

lemma gives_publish_marker:
  "gives (publish_marker h root p intent disk encoded temporary) (\<lambda>m. jm_digest m = mi_markerDigest disk)"
  unfolding publish_marker_def
  by (intro gives_then gives_skip)
    (auto simp: marker_from_disk_def tx_attempt_def intro!: gives_return gives_bind[OF gives_try[OF gives_reconcile]]
      split: sum.split tx_error.split)

lemma gives_verify_intent: "gives (verify_intent_for_marker h intent) (\<lambda>v. ji_digest v = ji_digest intent)"
  unfolding verify_intent_for_marker_def by (auto intro!: gives_then gives_skip gives_return)

lemma gives_persist_marker:
  "gives (persist_marker h intent state validation rollback) (marks h (ji_digest intent) state validation rollback)"
proof (cases "validate_marker_outcome state validation rollback")
  case True
  have found: "gives (io_bind (tx_attempt (read_marker_file h root p v)) (\<lambda>found.
              case found of
                Inr existing \<Rightarrow>
                  io_bind (tx_os (read_file p)) (\<lambda>existingBytes.
                    if jm_digest existing \<noteq> mi_markerDigest disk \<or> existingBytes \<noteq> encoded then io_fail TxConflict
                    else io_bind (tx_attempt (reconcile_marker h root p v encoded (mi_markerDigest disk))) (\<lambda>r.
                      case r of Inr reconciled \<Rightarrow> io_return reconciled | Inl _ \<Rightarrow> io_fail TxAmbiguous))
              | Inl e \<Rightarrow>
                  if \<not> not_exist e then io_fail e
                  else io_bind (tx_os (create_temp_suffix directory ''.marker-'' ''.tmp'')) (\<lambda>temporary.
                    io_finally (publish_marker h root p v disk encoded temporary) (tx_os (remove temporary)))))
      (\<lambda>m. jm_digest m = mi_markerDigest disk)" for root p directory v disk encoded
    by (rule gives_skip) (auto intro!: gives_skip gives_finally gives_return gives_publish_marker
      gives_bind[OF gives_try[OF gives_reconcile]] simp: tx_attempt_def split: sum.split)
  show ?thesis
    unfolding persist_marker_def Let_def
    apply (simp only: True not_True_eq_False if_False)
    apply (rule gives_bind[OF gives_verify_intent])
    apply (split prod.split, intro allI impI)
    apply (rule gives_mono[OF found])
    apply (simp add: marks_def)
    done
qed (simp add: persist_marker_def)

section \<open>The outcome\<close>

text \<open>The status of the validations when a transaction fails for a reason.\<close>

definition validation_after :: "tx_reason \<Rightarrow> validation_status" where
  "validation_after r = (case r of ReasonCommitFailed \<Rightarrow> ValidationNotRun
     | ReasonTargetValidationFailed \<Rightarrow> ValidationFailed | ReasonJournalCompletionFailed \<Rightarrow> ValidationPassed)"

definition outcome :: "restore_host \<Rightarrow> string \<Rightarrow> tx_result \<Rightarrow> bool" where
  "outcome h digest res =
     (case xr_status res of
        TransactionRestored \<Rightarrow>
          xr_reason res = None \<and> xr_primaryErr res = None \<and> xr_rollbackErr res = [] \<and> \<not> xr_failStop res \<and>
          (\<exists>m. xr_marker res = Some m \<and> marks h digest JournalCommitted ValidationPassed RollbackNotRequired m)
      | TransactionFailed \<Rightarrow>
          \<not> xr_mutationBegan res \<and> xr_reason res \<noteq> None \<and> xr_primaryErr res \<noteq> None \<and>
          (if xr_failStop res then xr_marker res = None
           else xr_rollbackErr res = [] \<and>
             (\<exists>m. xr_marker res = Some m \<and> marks h digest JournalRolledBack ValidationNotRun RollbackNotRequired m))
      | TransactionRolledBack \<Rightarrow>
          xr_mutationBegan res \<and> xr_primaryErr res \<noteq> None \<and> xr_rollbackErr res = [] \<and> \<not> xr_failStop res \<and>
          (\<exists>r m. xr_reason res = Some r \<and> xr_marker res = Some m \<and>
             marks h digest JournalRolledBack (validation_after r) RollbackSucceeded m)
      | TransactionRollbackFailed \<Rightarrow>
          xr_mutationBegan res \<and> xr_failStop res \<and> xr_reason res \<noteq> None \<and> xr_primaryErr res \<noteq> None \<and> xr_marker res = None)"

text \<open>Runs that always return.\<close>

definition returns :: "('s, 'e, 'a) run \<Rightarrow> bool" where
  "returns m \<longleftrightarrow> (\<forall>s. \<exists>x s'. m s = (Inr x, s'))"

lemma returns_basic: "returns (io_return x)" "returns (io_try m)" "returns (observe ob)" "returns get_touched" "returns get_began"
  by (auto simp: returns_def io_return_def io_try_def observe_def get_touched_def get_began_def split: prod.splits)

lemma returns_bind: "returns m \<Longrightarrow> (\<And>x. returns (k x)) \<Longrightarrow> returns (io_bind m k)"
  unfolding returns_def io_bind_def by (metis (no_types, lifting) case_prod_conv sum.simps(6))

lemma returns_then: "returns m \<Longrightarrow> returns k \<Longrightarrow> returns (io_then m k)"
  unfolding io_then_def by (rule returns_bind)

lemma returns_uncancelled: "returns m \<Longrightarrow> returns (without_cancel m)"
  unfolding returns_def without_cancel_def by (metis (no_types, lifting) case_prod_conv)

lemma returns_rollback_all: "returns (rollback_all h actions)"
proof -
  have one: "returns (rollback_one h ia)" for ia
    unfolding rollback_one_def observe_failure_def
    by (auto intro!: returns_basic returns_bind returns_then split: prod.split sum.split)
  have "returns (rollback_each h ias)" for ias
    by (induction ias) (auto intro!: returns_basic returns_bind one)
  then show ?thesis unfolding rollback_all_def by (intro returns_basic returns_bind)
qed

lemma same_marks_began: "tx_began s = b \<Longrightarrow> same_marks s s' \<Longrightarrow> tx_began s' = b"
  by (simp add: same_marks_def)

lemma phase_outcome:
  fixes m :: "'a action_run"
  assumes failure: "\<And>e. triple P (failure e) Q (\<lambda>_. False)" and m: "gives m A" "within R m" "\<And>s s'. P s \<Longrightarrow> R s s' \<Longrightarrow> P s'"
    and k: "\<And>x. A x \<Longrightarrow> triple P (k x) Q (\<lambda>_. False)"
  shows "triple P (phase failure m k) Q (\<lambda>_. False)"
  unfolding phase_def
proof (rule triple_bind)
  show "triple P (io_try m :: (tx_error + 'a) action_run) (\<lambda>r s. (\<forall>x. r = Inr x \<longrightarrow> A x) \<and> P s) (\<lambda>_. False)"
    by (rule triple_attempt[where R = R]) (fact m)+
  fix r
  show "triple (\<lambda>s. (\<forall>x. r = Inr x \<longrightarrow> A x) \<and> P s) (case r of Inl e \<Rightarrow> failure e | Inr x \<Rightarrow> k x) Q (\<lambda>_. False)"
    by (rule triple_pure) (auto split: sum.split intro: failure k)
qed

text \<open>Publishing a marker is a phase too.\<close>

lemma finish_failure_phases:
  "finish_failure h intent actions reason validation primary =
     io_bind get_began (\<lambda>began.
       if \<not> began then
         phase (\<lambda>closeErr. io_return ((failed_result reason primary True)\<lparr>xr_rollbackErr := [closeErr]\<rparr>))
           (without_cancel (io_then run_checkpoint (persist_aborted h intent)))
           (\<lambda>marker. io_return ((failed_result reason primary False)\<lparr>xr_marker := Some marker\<rparr>))
       else if primary = TxAmbiguous then io_return (rollback_failed_result reason primary [])
       else io_bind (without_cancel (rollback_all h actions)) (\<lambda>rollbackErr.
         if rollbackErr \<noteq> [] then io_return (rollback_failed_result reason primary rollbackErr)
         else phase (\<lambda>markerErr. io_return (rollback_failed_result reason primary [markerErr]))
           (without_cancel (io_then run_checkpoint (persist_rolled_back h intent validation)))
           (\<lambda>marker. io_return (rolled_back_result reason primary marker))))"
  unfolding finish_failure_def phase_def by (rule refl)

lemma publish_outcome:
  assumes "\<And>e. outcome h digest (f e) \<and> xr_mutationBegan (f e) = b"
    and "\<And>m. marks h (ji_digest intent) state validation rollback m \<Longrightarrow> outcome h digest (g m) \<and> xr_mutationBegan (g m) = b"
  shows "triple (\<lambda>s. tx_began s = b)
     (phase (\<lambda>e. io_return (f e)) (without_cancel (io_then run_checkpoint (persist_marker h intent state validation rollback)))
        (\<lambda>m. io_return (g m)))
     (\<lambda>res s. outcome h digest res \<and> xr_mutationBegan res = tx_began s) (\<lambda>_. False)"
proof (rule phase_outcome)
  show "gives (without_cancel (io_then run_checkpoint (persist_marker h intent state validation rollback)))
      (marks h (ji_digest intent) state validation rollback)"
    by (intro gives_uncancelled gives_then gives_persist_marker)
  show "within same_marks (without_cancel (io_then run_checkpoint (persist_marker h intent state validation rollback)))"
    by (intro within)
qed (use assms in \<open>auto intro!: triple_return simp: same_marks_def\<close>)

lemma rollback_step:
  assumes "\<And>es. triple (\<lambda>s. tx_began s = b) (k es) Q (\<lambda>_. False)"
  shows "triple (\<lambda>s. tx_began s = b) (io_bind (without_cancel (rollback_all h actions)) k) Q (\<lambda>_. False)"
proof (rule triple_bind)
  show "triple (\<lambda>s. tx_began s = b) (without_cancel (rollback_all h actions)) (\<lambda>_ s. tx_began s = b) (\<lambda>_. False)"
  proof (rule tripleI)
    fix s r s' assume s: "tx_began s = b" "without_cancel (rollback_all h actions) s = (Inr r, s')"
    have "within same_marks (without_cancel (rollback_all h actions))"
      by (intro within marks_order.within_rollback_all) simp
    from withinD[OF this s(2)] show "tx_began s' = b" using s(1) by (simp add: same_marks_def)
  next
    fix s e s' assume "without_cancel (rollback_all h actions) s = (Inl e, s')"
    then show False using returns_uncancelled[OF returns_rollback_all, of h actions] unfolding returns_def
      by (metis prod.inject sum.distinct(1))
  qed
qed (rule assms)

lemma finish_outcome:
  "triple (\<lambda>s. tx_began s = b) (finish_failure h intent actions reason (validation_after reason) primary)
     (\<lambda>res s. outcome h (ji_digest intent) res \<and> xr_mutationBegan res = tx_began s) (\<lambda>_. False)"
  unfolding finish_failure_phases persist_aborted_def persist_rolled_back_def
proof (rule triple_bind)
  let ?Q = "\<lambda>res s. outcome h (ji_digest intent) res \<and> xr_mutationBegan res = tx_began s"
  show "triple (\<lambda>s. tx_began s = b) get_began (\<lambda>x s. x = b \<and> tx_began s = b) (\<lambda>_. False)"
    by (rule tripleI) (auto simp: get_began_def)
  fix began
  let ?m = "if \<not> began then
         phase (\<lambda>closeErr. io_return ((failed_result reason primary True)\<lparr>xr_rollbackErr := [closeErr]\<rparr>))
           (without_cancel (io_then run_checkpoint (persist_marker h intent JournalRolledBack ValidationNotRun RollbackNotRequired)))
           (\<lambda>marker. io_return ((failed_result reason primary False)\<lparr>xr_marker := Some marker\<rparr>))
       else if primary = TxAmbiguous then io_return (rollback_failed_result reason primary [])
       else io_bind (without_cancel (rollback_all h actions)) (\<lambda>rollbackErr.
         if rollbackErr \<noteq> [] then io_return (rollback_failed_result reason primary rollbackErr)
         else phase (\<lambda>markerErr. io_return (rollback_failed_result reason primary [markerErr]))
           (without_cancel (io_then run_checkpoint (persist_marker h intent JournalRolledBack (validation_after reason) RollbackSucceeded)))
           (\<lambda>marker. io_return (rolled_back_result reason primary marker)))"
  show "triple (\<lambda>s. began = b \<and> tx_began s = b) ?m ?Q (\<lambda>_. False)"
  proof (rule triple_pure)
    assume bb: "began = b"
    have bad: "outcome h (ji_digest intent) (rollback_failed_result reason primary es)" for es
      by (simp add: outcome_def rollback_failed_result_def)
    then have failed: "triple (\<lambda>s. tx_began s = True) (io_return (rollback_failed_result reason primary es)) ?Q (\<lambda>_. False)" for es
      by (intro triple_return) (simp add: rollback_failed_result_def)
    have undone: "triple (\<lambda>s. tx_began s = True) (phase (\<lambda>markerErr. io_return (rollback_failed_result reason primary [markerErr]))
           (without_cancel (io_then run_checkpoint (persist_marker h intent JournalRolledBack (validation_after reason) RollbackSucceeded)))
           (\<lambda>marker. io_return (rolled_back_result reason primary marker))) ?Q (\<lambda>_. False)"
      by (rule publish_outcome) (auto simp: bad outcome_def rolled_back_result_def rollback_failed_result_def)
    have closed: "triple (\<lambda>s. tx_began s = False) (phase (\<lambda>closeErr. io_return ((failed_result reason primary True)\<lparr>xr_rollbackErr := [closeErr]\<rparr>))
           (without_cancel (io_then run_checkpoint (persist_marker h intent JournalRolledBack ValidationNotRun RollbackNotRequired)))
           (\<lambda>marker. io_return ((failed_result reason primary False)\<lparr>xr_marker := Some marker\<rparr>))) ?Q (\<lambda>_. False)"
      by (rule publish_outcome) (auto simp: outcome_def failed_result_def)
    have rolled: "triple (\<lambda>s. tx_began s = True) (io_bind (without_cancel (rollback_all h actions)) (\<lambda>rollbackErr.
         if rollbackErr \<noteq> [] then io_return (rollback_failed_result reason primary rollbackErr)
         else phase (\<lambda>markerErr. io_return (rollback_failed_result reason primary [markerErr]))
           (without_cancel (io_then run_checkpoint (persist_marker h intent JournalRolledBack (validation_after reason) RollbackSucceeded)))
           (\<lambda>marker. io_return (rolled_back_result reason primary marker)))) ?Q (\<lambda>_. False)"
      by (rule rollback_step) (use failed undone in auto)
    show "triple (\<lambda>s. tx_began s = b) ?m ?Q (\<lambda>_. False)"
      using bb closed failed rolled by (cases b) auto
  qed
qed

lemma within_commit_from:
  assumes "i + length as \<le> n" shows "within (keeps_marks n) (commit_from h i ps as)"
  using assms by (induction h i ps as rule: commit_from.induct) (auto intro!: within touch_order.within_commit_one)

lemma run_outcome:
  "triple (\<lambda>_. True) (run_transaction h intent prepared)
     (\<lambda>res s. (outcome h (ji_digest intent) res \<and> xr_mutationBegan res = tx_began s) \<and> marked (length (ji_actions intent)) s) (\<lambda>_. False)"
proof -
  let ?n = "length (ji_actions intent)"
  let ?Q = "\<lambda>res s. (outcome h (ji_digest intent) res \<and> xr_mutationBegan res = tx_began s) \<and> marked ?n s"
  let ?fail = "\<lambda>reason. finish_failure h intent (ji_actions intent) reason (validation_after reason)"
  have failure: "triple (marked ?n) (?fail reason e) ?Q (\<lambda>_. False)" for reason e
  proof (rule tripleI)
    fix s f s' assume "?fail reason e s = (Inl f, s')"
    then show False using tripleD(1)[OF finish_outcome[of "tx_began s"], of s] by blast
  next
    fix s res s' assume s: "marked ?n s" "?fail reason e s = (Inr res, s')"
    have "within same_marks (?fail reason e)" by (rule marks_order.within_finish_failure) simp
    from withinD[OF this s(2)] have "marked ?n s'" using s(1) by (simp add: same_marks_def marked_def)
    then show "?Q res s'" using tripleD(2)[OF finish_outcome[of "tx_began s"], of s] s(2) by blast
  qed
  have start: "triple (\<lambda>_. True) (begin_transaction ?n) (\<lambda>_. marked ?n) (\<lambda>_. False)"
    by (rule tripleI) (auto simp: begin_transaction_def marked_def)
  have finished: "triple (marked ?n) (io_bind get_began (\<lambda>began. io_return (restored_result began m))) ?Q (\<lambda>_. False)"
    if "marks h (ji_digest intent) JournalCommitted ValidationPassed RollbackNotRequired m" for m
    by (rule tripleI) (use that in \<open>auto simp: io_bind_def get_began_def io_return_def outcome_def restored_result_def\<close>)
  have keep: "marked ?n s \<Longrightarrow> keeps_marks ?n s s' \<Longrightarrow> marked ?n s'" for s s' by (simp add: keeps_marks_def)
  have step: "triple (marked ?n) (phase (?fail reason) m k) ?Q (\<lambda>_. False)"
    if "gives m A" "within (keeps_marks ?n) m" "\<And>x. A x \<Longrightarrow> triple (marked ?n) (k x) ?Q (\<lambda>_. False)" for reason A k and m :: "'a action_run"
    by (rule phase_outcome[OF failure that(1,2) keep that(3)])
  have complete: "triple (marked ?n) (phase (?fail ReasonJournalCompletionFailed) (io_then run_checkpoint (persist_committed h intent))
      (\<lambda>marker. io_bind get_began (\<lambda>began. io_return (restored_result began marker)))) ?Q (\<lambda>_. False)"
    unfolding persist_committed_def
    by (rule step[OF gives_then[OF gives_persist_marker]]) (intro within finished | assumption)+
  have checked: "within (keeps_marks ?n) (validate_from h 0 vs)" for vs
    by (rule touch_order.within_validate_from) simp
  have all_steps: "triple (marked ?n)
     (phase (?fail ReasonCommitFailed) (verify_all_states h (ji_actions intent) False) (\<lambda>_.
      phase (?fail ReasonCommitFailed) (commit_from h 0 prepared (ji_actions intent)) (\<lambda>_.
      phase (?fail ReasonTargetValidationFailed) (validate_from h 0 (ji_validations intent)) (\<lambda>_.
      phase (?fail ReasonJournalCompletionFailed) (io_then run_checkpoint (persist_committed h intent))
      (\<lambda>marker. io_bind get_began (\<lambda>began. io_return (restored_result began marker))))))) ?Q (\<lambda>_. False)"
    by (rule step[OF gives_True touch_order.within_verify_all], rule step[OF gives_True within_commit_from],
        simp, rule step[OF gives_True checked], rule complete)
  show ?thesis
    using triple_then[OF start all_steps] by (simp add: run_transaction_def Let_def validation_after_def)
qed

definition requested_digest :: "tx_request \<Rightarrow> string" where
  "requested_digest rq = (case rq_intent rq of None \<Rightarrow> [] | Some i \<Rightarrow> ji_digest i)"

definition requested_actions :: "tx_request \<Rightarrow> nat" where
  "requested_actions rq = (case rq_prepared rq of None \<Rightarrow> 0 | Some p \<Rightarrow> length (ps_actions p))"

lemma gives_request_root:
  "gives (validate_intent_request h prepared root lineage) (\<lambda>(_, _, actions, _). length actions = length (ps_actions prepared))"
  unfolding validate_intent_request_def Let_def by (auto intro!: gives_then gives_skip gives_return)

lemma gives_inputs:
  "gives (validate_inputs h rq) (\<lambda>(intent, prepared). ji_digest intent = requested_digest rq \<and> length (ji_actions intent) = requested_actions rq)"
proof (cases "rq_prepared rq")
  case (Some prepared)
  show ?thesis
  proof (cases "rq_intent rq")
    case i: (Some intent)
    show ?thesis
      unfolding validate_inputs_def Some i
      by (simp, intro gives_bind[OF gives_verify_intent] gives_then gives_bind[OF gives_request_root])
        (auto simp: requested_digest_def requested_actions_def Some i intro!: gives_return)
  qed (simp add: validate_inputs_def Some)
qed (simp add: validate_inputs_def split: option.split)

lemma execute_phases:
  assumes "\<And>e. triple P (io_return (failed_result ReasonCommitFailed e True) :: tx_result action_run) Q (\<lambda>_. False)"
    and "within R (validate_inputs h rq)" "\<And>s s'. P s \<Longrightarrow> R s s' \<Longrightarrow> P s'"
    and "\<And>intent prepared. ji_digest intent = requested_digest rq \<Longrightarrow> length (ji_actions intent) = requested_actions rq \<Longrightarrow>
       triple P (run_transaction h intent prepared) Q (\<lambda>_. False)"
  shows "triple P (execute_transaction h rq) Q (\<lambda>_. False)"
  unfolding execute_transaction_def
  by (rule phase_outcome[OF assms(1) gives_inputs assms(2,3)]) (auto intro: assms(4))

text \<open>
  Property C5. Whatever calls fail, whenever the context is cancelled and whatever other processes do,
  Execute returns a result, and the result is one of four consistent kinds: restored with the
  committed marker and no error; failed before any change, closed by the aborted marker or else
  marked to stop; rolled back with the marker of that outcome and the status of the validations
  at the failure; or rollback failed, marked to stop and without a marker. A result says that changes
  began only when some action is marked as touched.
\<close>

theorem execution_outcome_is_consistent:
  "\<exists>res s'. execute_transaction h rq s = (Inr res, s') \<and> outcome h (requested_digest rq) res \<and>
     (xr_mutationBegan res \<longrightarrow> True \<in> set (tx_touched s'))"
proof -
  let ?Q = "\<lambda>res s. outcome h (requested_digest rq) res \<and> (xr_mutationBegan res \<longrightarrow> True \<in> set (tx_touched s))"
  have "triple (\<lambda>_. True) (execute_transaction h rq) ?Q (\<lambda>_. False)"
  proof (rule execute_phases)
    show "within same_marks (validate_inputs h rq)" by (intro within)
    show "triple (\<lambda>_. True) (io_return (failed_result ReasonCommitFailed e True) :: tx_result action_run) ?Q (\<lambda>_. False)" for e
      by (rule triple_return) (simp add: outcome_def failed_result_def)
    show "triple (\<lambda>_. True) (run_transaction h intent prepared) ?Q (\<lambda>_. False)" if "ji_digest intent = requested_digest rq" for intent prepared
      by (rule triple_conseq[OF run_outcome[of h intent prepared]]) (auto simp: that marked_def)
  qed simp
  from tripleD[OF this, of s] show ?thesis by (cases "execute_transaction h rq s"; cases "fst (execute_transaction h rq s)") auto
qed

section \<open>The order of a rollback\<close>

definition rollback_start :: "tx_observation \<Rightarrow> bool" where
  "rollback_start ob \<longleftrightarrow> ob_stage ob = StageRollback \<and> ob_progress ob = TxStarted"

definition rollback_starts :: "tx_observation list \<Rightarrow> int list" where
  "rollback_starts log = map ob_actionIndex (filter rollback_start log)"

definition starts :: "int list \<Rightarrow> tx \<Rightarrow> tx \<Rightarrow> bool" where
  "starts xs s s' \<longleftrightarrow> (\<exists>ys. tx_observed s' = tx_observed s @ ys \<and> rollback_starts ys = xs)"

lemma starts_trans: "starts xs s s' \<Longrightarrow> starts ys s' s'' \<Longrightarrow> starts (xs @ ys) s s''"
  by (auto simp: starts_def rollback_starts_def)

interpretation silent_order: observed_order "starts []" "\<lambda>ob. \<not> rollback_start ob"
  by standard (auto simp: starts_def rollback_starts_def)

lemma then_observe: "io_then (observe ob) k s = k (s\<lparr>tx_observed := tx_observed s @ [ob]\<rparr>)"
  by (simp add: io_then_def io_bind_def observe_def)

lemma starts_rollback_one:
  assumes "rollback_one h (i, a) s = (r, s')"
  shows "starts [int i] s s'"
proof -
  let ?ob = "observation StageRollback TxStarted (int i) (- 1) (ja_target a)"
  let ?v = "s\<lparr>tx_observed := tx_observed s @ [?ob]\<rparr>"
  let ?rest = "io_bind (io_try (io_then run_checkpoint
           (io_then (rollback_transaction_action h a) (verify_action_state h a False)))) (\<lambda>r.
           case r of
             Inl e \<Rightarrow> io_then (observe_failure StageRollback (int i) (- 1) (ja_target a) None e) (io_return [e])
           | Inr _ \<Rightarrow>
               io_then (observe (observation StageRollback TxCompleted (int i) (- 1) (ja_target a))) (io_return []))"
  have "within (starts []) ?rest"
    unfolding observe_failure_def by (intro within silent_order.within_observe) (simp_all add: rollback_start_def observation_def)
  moreover have "?rest ?v = (r, s')" using assms unfolding rollback_one_def prod.case then_observe .
  ultimately have "starts [] ?v s'" by (rule withinD)
  moreover have "starts [int i] s ?v" by (simp add: starts_def rollback_starts_def rollback_start_def observation_def)
  ultimately show ?thesis using starts_trans by fastforce
qed

lemma starts_rollback_each: "rollback_each h ias s = (r, s') \<Longrightarrow> starts (map (int \<circ> fst) ias) s s'"
proof (induction ias arbitrary: s r s')
  case Nil
  then show ?case by (simp add: io_return_def starts_def rollback_starts_def)
next
  case (Cons ia ias)
  obtain i a where ia: "ia = (i, a)" by (cases ia)
  obtain x v where one: "rollback_one h ia s = (x, v)" by (cases "rollback_one h ia s")
  have s1: "starts [int i] s v" using starts_rollback_one one unfolding ia by blast
  have ret: "\<exists>y. x = Inr y"
    using one by (auto simp: rollback_one_def ia observe_failure_def then_observe io_bind_def io_try_def io_return_def split: prod.splits sum.splits)
  then obtain y where y: "x = Inr y" by blast
  obtain x2 v2 where each: "rollback_each h ias v = (x2, v2)" by (cases "rollback_each h ias v")
  have "s' = v2" using Cons.prems one each y by (auto simp: io_bind_def io_return_def split: sum.splits)
  then show ?case using starts_trans[OF s1] Cons.IH[OF each] by (simp add: ia)
qed

definition touched_indices :: "nat \<Rightarrow> tx \<Rightarrow> int list" where
  "touched_indices n s = rev (map int (filter (\<lambda>i. tx_touched s ! i) [0..<n]))"

lemma touched_actions_indices:
  "map (int \<circ> fst) (touched_actions (tx_touched s) actions) = touched_indices (length actions) s"
proof -
  have "map fst (filter (\<lambda>(i, a). tx_touched s ! i) (zip [0..<length actions] actions)) =
      filter (\<lambda>i. tx_touched s ! i) (map fst (zip [0..<length actions] actions))"
    by (simp add: filter_map comp_def case_prod_unfold del: map_fst_zip)
  then show ?thesis by (simp add: touched_actions_def touched_indices_def flip: rev_map map_map)
qed

lemma starts_rollback_all:
  assumes "rollback_all h actions s = (r, s')"
  shows "starts (touched_indices (length actions) s) s s'"
proof -
  let ?ias = "touched_actions (tx_touched s) actions"
  obtain x v where each: "rollback_each h ?ias s = (x, v)" by (cases "rollback_each h ?ias s")
  have "starts [] v s'"
  proof (cases x)
    case (Inr es)
    let ?rest = "io_bind (io_try (verify_all_states h actions False)) (\<lambda>r. io_return (es @ (case r of Inl e \<Rightarrow> [e] | Inr _ \<Rightarrow> [])))"
    have "?rest v = (r, s')" using assms each Inr by (simp add: rollback_all_def get_touched_def io_bind_def)
    moreover have "within (starts []) ?rest" by (intro within)
    ultimately show ?thesis by (rule withinD[rotated])
  next
    case (Inl e)
    then show ?thesis using assms each
      by (simp add: rollback_all_def get_touched_def io_bind_def starts_def rollback_starts_def)
  qed
  then show ?thesis using starts_trans[OF starts_rollback_each[OF each]] by (fastforce simp: touched_actions_indices)
qed

text \<open>The log of a run since a state in which no rollback had started.\<close>

definition unrolled :: "tx \<Rightarrow> nat \<Rightarrow> tx \<Rightarrow> bool" where
  "unrolled s0 n s \<longleftrightarrow> marked n s \<and> starts [] s0 s"

definition rollback_log :: "tx \<Rightarrow> nat \<Rightarrow> tx_result \<Rightarrow> tx \<Rightarrow> bool" where
  "rollback_log s0 n res s \<longleftrightarrow>
     starts (if xr_mutationBegan res \<and> xr_status res \<noteq> TransactionRestored \<and> xr_primaryErr res \<noteq> Some TxAmbiguous
             then touched_indices n s else []) s0 s"

lemma within_conj: "within R m \<Longrightarrow> within R' m \<Longrightarrow> within (\<lambda>s s'. R s s' \<and> R' s s') m"
  by (simp add: within_def)

lemma touched_same: "same_marks s s' \<Longrightarrow> touched_indices n s' = touched_indices n s"
  by (simp add: same_marks_def touched_indices_def)

lemma starts_uncancelled_rollback:
  assumes "without_cancel (rollback_all h actions) s = (r, s')"
  shows "starts (touched_indices (length actions) s) s s'" and "same_marks s s'" and "\<exists>es. r = Inr es"
proof -
  obtain x v where m: "rollback_all h actions (s\<lparr>tx_canceled := []\<rparr>) = (x, v)" by (cases "rollback_all h actions (s\<lparr>tx_canceled := []\<rparr>)")
  then have "s' = v\<lparr>tx_canceled := tx_canceled s\<rparr>" using assms by (simp add: without_cancel_def)
  then show "starts (touched_indices (length actions) s) s s'"
    using starts_rollback_all[OF m] by (simp add: starts_def touched_indices_def)
  have "within same_marks (without_cancel (rollback_all h actions))"
    by (intro within marks_order.within_rollback_all) simp
  then show "same_marks s s'" using assms by (rule withinD)
  show "\<exists>es. r = Inr es"
    using returns_uncancelled[OF returns_rollback_all, of h actions] assms unfolding returns_def by (metis prod.inject)
qed

lemma finish_log:
  "triple (unrolled s0 (length actions)) (finish_failure h intent actions reason validation primary)
     (rollback_log s0 (length actions)) (\<lambda>_. True)"
proof (rule tripleI)
  let ?n = "length actions"
  fix s res s' assume s: "unrolled s0 ?n s" "finish_failure h intent actions reason validation primary s = (Inr res, s')"
  have publish: "within (starts []) (phase (\<lambda>e. io_return (f e)) (without_cancel (io_then run_checkpoint (persist_marker h intent st v ro)))
      (\<lambda>m. io_return (g m)))" for f g st v ro
    unfolding phase_def by (intro within)
  show "rollback_log s0 ?n res s'"
  proof (cases "tx_began s")
    case False
    then have "\<not> xr_mutationBegan res" "starts [] s s'"
      using s(2) withinD[OF publish] unfolding finish_failure_phases persist_aborted_def
      by (auto simp: io_bind_def[of get_began] get_began_def phase_def io_bind_def io_try_def io_return_def failed_result_def
          split: prod.splits sum.splits)
    then show ?thesis using s(1) starts_trans[of "[]" s0 s "[]" s'] by (simp add: rollback_log_def unrolled_def)
  next
    case began: True
    show ?thesis
    proof (cases "primary = TxAmbiguous")
      case True
      then have "res = rollback_failed_result reason primary []" "s' = s"
        using s(2) began unfolding finish_failure_phases by (simp_all add: io_bind_def get_began_def io_return_def)
      then show ?thesis using s(1) True by (simp add: rollback_log_def unrolled_def rollback_failed_result_def)
    next
      case False
      obtain x v where w: "without_cancel (rollback_all h actions) s = (x, v)" by (cases "without_cancel (rollback_all h actions) s")
      obtain es where es: "x = Inr es" using starts_uncancelled_rollback(3)[OF w] by blast
      let ?rest = "if es \<noteq> [] then io_return (rollback_failed_result reason primary es)
         else phase (\<lambda>markerErr. io_return (rollback_failed_result reason primary [markerErr]))
           (without_cancel (io_then run_checkpoint (persist_marker h intent JournalRolledBack validation RollbackSucceeded)))
           (\<lambda>marker. io_return (rolled_back_result reason primary marker))"
      have rest: "?rest v = (Inr res, s')"
        using s(2) began False w es unfolding finish_failure_phases persist_rolled_back_def
        by (simp add: io_bind_def[of get_began] get_began_def io_bind_def[of "without_cancel _"])
      have "within (\<lambda>s s'. starts [] s s' \<and> same_marks s s') ?rest"
        unfolding phase_def by (rule within_conj) (intro within)+
      from withinD[OF this rest] have after: "starts [] v s'" "same_marks v s'" by simp_all
      have "gives ?rest (\<lambda>res. xr_mutationBegan res \<and> xr_status res \<noteq> TransactionRestored \<and> xr_primaryErr res = Some primary)"
        unfolding phase_def by (auto intro!: gives_skip gives_return split: sum.split
          simp: rollback_failed_result_def rolled_back_result_def)
      from givesD[OF this rest] have res: "xr_mutationBegan res \<and> xr_status res \<noteq> TransactionRestored \<and> xr_primaryErr res = Some primary" .
      have "starts (touched_indices ?n s) s0 s'"
        using s(1) starts_trans[OF _ starts_trans[OF starts_uncancelled_rollback(1)[OF w] after(1)], of "[]" s0]
        by (simp add: unrolled_def)
      moreover have "touched_indices ?n s' = touched_indices ?n s"
        using touched_same[OF after(2)] touched_same[OF starts_uncancelled_rollback(2)[OF w]] by simp
      ultimately show ?thesis using res False by (simp add: rollback_log_def)
    qed
  qed
qed simp

lemma silent_commits: "within (starts []) (commit_from h i ps as)"
proof (induction h i ps as rule: commit_from.induct)
  case (1 h index p ps a as)
  have "within (starts []) (touch_action index)"
    by (simp add: within_def touch_action_def starts_def rollback_starts_def)
  then have "within (starts []) (commit_one h index p a)"
    by (intro silent_order.within_commit_one) (simp_all add: rollback_start_def)
  then show ?case using 1 by (auto intro: within)
qed (auto intro: within)

lemma run_log:
  "triple (\<lambda>s. starts [] s0 s) (run_transaction h intent prepared) (rollback_log s0 (length (ji_actions intent))) (\<lambda>_. False)"
proof (rule tripleI)
  fix s e s' assume "run_transaction h intent prepared s = (Inl e, s')"
  then show False using tripleD(1)[OF run_outcome] by blast
next
  let ?n = "length (ji_actions intent)"
  let ?Q = "rollback_log s0 ?n"
  let ?fail = "\<lambda>reason. finish_failure h intent (ji_actions intent) reason (validation_after reason)"
  have start: "triple (\<lambda>s. starts [] s0 s) (begin_transaction ?n) (\<lambda>_. unrolled s0 ?n) (\<lambda>_. True)"
    by (rule tripleI) (auto simp: begin_transaction_def marked_def unrolled_def starts_def)
  have finished: "triple (unrolled s0 ?n) (io_bind get_began (\<lambda>began. io_return (restored_result began m))) ?Q (\<lambda>_. True)" for m
    by (rule tripleI) (auto simp: io_bind_def get_began_def io_return_def rollback_log_def restored_result_def unrolled_def)
  have step: "triple (unrolled s0 ?n) (phase (?fail reason) m k) ?Q (\<lambda>_. True)"
    if m: "within (keeps_marks ?n) m" "within (starts []) m" and k: "\<And>x. triple (unrolled s0 ?n) (k x) ?Q (\<lambda>_. True)"
    for reason k and m :: "'a action_run"
    unfolding phase_def
  proof (rule triple_bind)
    have "within (\<lambda>s s'. keeps_marks ?n s s' \<and> starts [] s s') m" by (rule within_conj[OF m])
    then show "triple (unrolled s0 ?n) (io_try m :: (tx_error + 'a) action_run)
        (\<lambda>r s. (\<forall>x. r = Inr x \<longrightarrow> True) \<and> unrolled s0 ?n s) (\<lambda>_. True)"
      by (rule triple_attempt[OF gives_True])
        (auto simp: unrolled_def keeps_marks_def dest: starts_trans[of "[]" s0 _ "[]", simplified])
  qed (auto intro: finish_log k split: sum.split)
  have all_steps: "triple (unrolled s0 ?n)
     (phase (?fail ReasonCommitFailed) (verify_all_states h (ji_actions intent) False) (\<lambda>_.
      phase (?fail ReasonCommitFailed) (commit_from h 0 prepared (ji_actions intent)) (\<lambda>_.
      phase (?fail ReasonTargetValidationFailed) (validate_from h 0 (ji_validations intent)) (\<lambda>_.
      phase (?fail ReasonJournalCompletionFailed) (io_then run_checkpoint (persist_committed h intent))
      (\<lambda>marker. io_bind get_began (\<lambda>began. io_return (restored_result began marker))))))) ?Q (\<lambda>_. True)"
    unfolding persist_committed_def
    by (intro step finished touch_order.within_verify_all silent_order.within_verify_all within_commit_from silent_commits
        touch_order.within_validate_from silent_order.within_validate_from)
      (intro within | simp add: rollback_start_def)+
  fix s res s' assume "starts [] s0 s" "run_transaction h intent prepared s = (Inr res, s')"
  then show "?Q res s'"
    using tripleD(2)[OF triple_then[OF start all_steps]] by (simp add: run_transaction_def Let_def validation_after_def)
qed

text \<open>
  Property C6. A rollback starts on exactly the actions that were touched, each once and in the
  reverse of their order, whatever happens to the rollback of the others; there is no rollback
  when nothing was touched, when the transaction is restored, and when the outcome of the
  publication of a marker is unknown.
\<close>

theorem rollback_visits_touched_actions_in_reverse:
  "case execute_transaction h rq s of
     (Inl _, _) \<Rightarrow> False
   | (Inr res, s') \<Rightarrow>
       rollback_starts (drop (length (tx_observed s)) (tx_observed s')) =
         (if xr_mutationBegan res \<and> xr_status res \<noteq> TransactionRestored \<and> xr_primaryErr res \<noteq> Some TxAmbiguous
          then rev (map int (filter (\<lambda>i. tx_touched s' ! i) [0..<requested_actions rq])) else [])"
proof -
  let ?Q = "rollback_log s (requested_actions rq)"
  have T: "triple (\<lambda>v. starts [] s v) (execute_transaction h rq) ?Q (\<lambda>_. False)"
  proof (rule execute_phases)
    show "triple (\<lambda>v. starts [] s v) (io_return (failed_result ReasonCommitFailed e True) :: tx_result action_run) ?Q (\<lambda>_. False)" for e
      by (rule triple_return) (simp add: rollback_log_def failed_result_def)
    show "within (starts []) (validate_inputs h rq)" by (intro within)
    show "starts [] s v \<Longrightarrow> starts [] v v' \<Longrightarrow> starts [] s v'" for v v' using starts_trans[of "[]" s v "[]" v'] by simp
    show "triple (\<lambda>v. starts [] s v) (run_transaction h intent prepared) ?Q (\<lambda>_. False)"
      if "length (ji_actions intent) = requested_actions rq" for intent prepared
      using run_log[of s h intent prepared] that by simp
  qed
  have "starts [] s s" by (simp add: starts_def rollback_starts_def)
  note T = tripleD[OF T this]
  obtain r s' where e: "execute_transaction h rq s = (r, s')" by (cases "execute_transaction h rq s")
  show ?thesis
  proof (cases r)
    case (Inr res)
    have "?Q res s'" using T(2) e Inr by blast
    then show ?thesis by (auto simp: e Inr rollback_log_def starts_def touched_indices_def)
  qed (use T(1) e in blast)
qed

end
