(* ===== verification/RestorePublish.thy ===== *)
theory RestorePublish
  imports RestoreControl
begin

text \<open>
  In a calm world, publishing a marker changes nothing outside the transaction root: whatever
  fails, every entry that is not below the root is as it was.
\<close>

section \<open>Runs on a calm world\<close>

lemma triple_tx_lift:
  assumes "triple P m Q E"
  shows "triple (\<lambda>s. P (tx_world s)) (tx_lift m) (\<lambda>x s. Q x (tx_world s)) (\<lambda>s. E (tx_world s))"
  by (rule tripleI) (use tripleD[OF assms] in \<open>force simp: tx_lift_def split: prod.splits\<close>)+

lemma triple_tx_os:
  "triple P m Q E \<Longrightarrow> triple (\<lambda>s. P (tx_world s)) (tx_os m) (\<lambda>x s. Q x (tx_world s)) (\<lambda>s. E (tx_world s))"
  unfolding tx_os_def by (intro triple_tx_lift triple_map_error)

lemma triple_tx_try:
  assumes "triple P m (\<lambda>_. P) P"
  shows "triple (\<lambda>s. P (tx_world s)) (tx_try m) (\<lambda>_ s. P (tx_world s)) E"
  unfolding tx_try_def
  by (rule triple_conseq[OF triple_tx_lift[OF triple_try_same[OF assms, of "\<lambda>_. False"]]]) simp_all

text \<open>The assertion of \<open>TreeLogic\<close> on the world of a transaction.\<close>

definition within_root :: "key \<Rightarrow> tree \<Rightarrow> key set \<Rightarrow> tx \<Rightarrow> bool" where
  "within_root R t0 K s \<longleftrightarrow> st R t0 K (tx_world s)"

lemma triple_only_reads:
  assumes "only_reads m"
  shows "triple (within_root R t0 K) m (\<lambda>_. within_root R t0 K) (within_root R t0 K)"
proof -
  have "within_root R t0 K s'" if "within_root R t0 K s" "m s = (r, s')" for s r s'
    using only_reads_frozen[OF assms that(2), of "w_tree (tx_world s)"] that(1) by (auto simp: within_root_def frozen_def st_def)
  then show ?thesis by (intro tripleI) blast+
qed

lemma triple_finally:
  assumes "triple P m (\<lambda>_. J) J" "triple J c (\<lambda>_. I) I"
  shows "triple P (io_finally m c) (\<lambda>_. I) I"
proof -
  have "I s'" if s: "P s" "io_finally m c s = (r, s')" for s r s'
  proof -
    obtain x v where m: "m s = (x, v)" by (cases "m s")
    obtain y u where c: "c v = (y, u)" by (cases "c v")
    have "J v" using tripleD[OF assms(1) s(1)] m by (cases x) blast+
    then have "I u" using tripleD[OF assms(2)] c by (cases y) blast+
    then show ?thesis using s(2) m c by (simp add: io_finally_def)
  qed
  then show ?thesis by (intro tripleI) blast+
qed

section \<open>Linking and temporary names\<close>

lemma triple_link:
  assumes p: "is_abs p" "known K (clean_elements p)"
    and q: "is_abs q" "strict_prefix R (clean_elements q)" "known K (butlast (clean_elements q))"
  shows "triple (st R t0 K) (link_file p q) (\<lambda>_. st R t0 K) (st R t0 K)"
  unfolding link_file_def
proof (rule triple_change)
  fix n t t' assume t: "wf_tree t" "\<And>k. known K k \<Longrightarrow> linkfree t k" "link_tree p q t = Inr t'"
  obtain a b x where l: "locate t p = Inr a" "locate t q = Inr b" "fmlookup t a = Some x" "entry t b = None" "t' = fmupd b x t"
    using t(3) by (auto simp: link_tree_def split: sum.splits option.splits if_splits)
  have a: "a = clean_elements p" by (rule locate_linkfree(1)[OF l(1) p(1) linkfree_butlast[OF t(2)[OF p(2)]]])
  have "a \<noteq> []" using t(1) l(3) by (auto simp: wf_tree_def)
  then have "\<not> is_link x" using linkfree_at[OF t(2)[OF p(2)]] l(3) a by simp
  then show "wf_tree t' \<and> same_outside R t t' \<and> (\<forall>k \<in> K. linkfree t' k)"
    using new_entry(1)[OF t(1) l(2) q(1) t(2)[OF q(3)] l(4) q(2)] l(5) t(2) by (auto simp: good_change_def knownI)
qed

lemma key_path_append: "key_path (k @ [c]) @ e = key_path (k @ [c @ e])"
proof (cases "k = []")
  case False
  then show ?thesis using join_snoc[OF False, of "''/''"] by (simp add: key_path_def render_clean_def)
qed (simp add: key_path_def render_clean_def)

lemma join_path_component:
  assumes "is_abs d" "plain_element c" "c \<noteq> ''..''"
  shows "join_path [d, c] = key_path (clean_elements d @ [c])"
proof -
  have "clean_path (join_path [d, c]) = join_path [d, c]" using assms(1) by (auto simp: join_path_def is_abs_def)
  then show ?thesis using join_component[OF assms] by (simp add: clean_path_def key_path_def)
qed

lemma triple_create_temp_suffix:
  assumes d: "is_abs dir" "prefix R (clean_elements dir)" "known K (clean_elements dir)"
    and stem: "hd stem = CHR ''.''" "CHR ''/'' \<notin> set stem" "2 < length stem"
    and ending: "CHR ''/'' \<notin> set ending" "2 < length ending"
  shows "triple (st R t0 K) (create_temp_suffix dir stem ending) (temp_in R t0 K (clean_elements dir)) (st R t0 K)"
  unfolding create_temp_suffix_def
proof (rule triple_bind)
  show "triple (st R t0 K) random_left (\<lambda>_. st R t0 K) (st R t0 K)" by (rule tripleI) (auto simp: random_left_def)
  fix n
  show "triple (st R t0 K) (io_bind (make_temp (\<lambda>p. change (\<lambda>i. create_tree (p @ ending) 384 i)) dir stem n) (\<lambda>p. io_return (p @ ending)))
      (temp_in R t0 K (clean_elements dir)) (st R t0 K)"
  proof (rule triple_bind)
    show "triple (st R t0 K) (make_temp (\<lambda>p. change (\<lambda>i. create_tree (p @ ending) 384 i)) dir stem n)
        (\<lambda>p. temp_in R t0 K (clean_elements dir) (p @ ending)) (st R t0 K)"
    proof (rule triple_make_temp_any[OF stem])
      fix c :: string assume c: "plain_element c" "c \<noteq> ''..''"
      have long: "2 < length (c @ ending)" using ending(2) by simp
      then have "c @ ending \<noteq> ''.''" "c @ ending \<noteq> ''..''" by force+
      then have pc: "plain_element (c @ ending)" "c @ ending \<noteq> ''..''" using c(1) ending(1) by (auto simp: plain_element_def)
      have q: "join_path [dir, c] @ ending = join_path [dir, c @ ending]"
        using join_path_component[OF d(1) c] join_path_component[OF d(1) pc] key_path_append by simp
      note j = join_component[OF d(1) pc]
      have below: "strict_prefix R (clean_elements (join_path [dir, c @ ending]))" using d(2) j(1) by (auto simp: strict_prefix_def)
      show "triple (st R t0 K) (change (\<lambda>i. create_tree (join_path [dir, c] @ ending) 384 i))
          (\<lambda>_. temp_in R t0 K (clean_elements dir) (join_path [dir, c] @ ending)) (st R t0 K)"
        unfolding q
        by (rule triple_conseq[OF triple_create[OF j(2) below]]) (use d(3) j below in \<open>auto simp: temp_in_def\<close>)
    qed
  qed (auto intro: triple_return)
qed

section \<open>Publication\<close>

text \<open>To keep an assertion is an order, so the rules for runs within an order apply.\<close>

definition keeps :: "('s \<Rightarrow> bool) \<Rightarrow> 's \<Rightarrow> 's \<Rightarrow> bool" where
  "keeps I s s' \<longleftrightarrow> (I s \<longrightarrow> I s')"

interpretation keeps_order: step_order "keeps I" for I
  by standard (auto simp: keeps_def)

lemma keeps_triple: "within (keeps I) m \<longleftrightarrow> triple I m (\<lambda>_. I) I"
proof
  assume w: "within (keeps I) m"
  show "triple I m (\<lambda>_. I) I" by (rule tripleI) (use withinD[OF w] in \<open>auto simp: keeps_def\<close>)
next
  assume t: "triple I m (\<lambda>_. I) I"
  show "within (keeps I) m"
  proof (rule withinI)
    fix s r s' assume "m s = (r, s')"
    then show "keeps I s s'" using tripleD[OF t, of s] by (cases r) (auto simp: keeps_def)
  qed
qed

lemma keeps_only_reads: "only_reads m \<Longrightarrow> within (keeps (within_root R t0 K)) m"
  unfolding keeps_triple by (rule triple_only_reads)

lemma keeps_os:
  assumes "triple (st R t0 K) m (\<lambda>_. st R t0 K) (st R t0 K)"
  shows "within (keeps (within_root R t0 K)) (tx_os m)" and "within (keeps (within_root R t0 K)) (tx_try m)"
  using triple_tx_os[OF assms] triple_tx_try[OF assms] unfolding keeps_triple within_root_def by auto

lemma readonly_read_file [readonly]: "readonly (read_file p)"
  unfolding read_file_def by (intro readonly)

lemma only_reads_marker [within]: "only_reads (read_marker_file h root p intent)"
  unfolding read_marker_file_def by (intro within readonly)

lemma only_reads_reconcile [within]: "only_reads (reconcile_marker h root p intent bytes digest)"
  unfolding reconcile_marker_def check_marker_def by (intro within readonly)

lemma keeps_publish_no_replace:
  assumes tmp: "is_abs temporary" "strict_prefix R (clean_elements temporary)" "known K (clean_elements temporary)"
    and p: "is_abs p" "strict_prefix R (clean_elements p)" "known K (butlast (clean_elements p))"
  shows "within (keeps (within_root R t0 K)) (publish_no_replace temporary p)"
    and "within (keeps (within_root R t0 K)) (tx_os (chmod temporary m))"
    and "within (keeps (within_root R t0 K)) (tx_os (write_file temporary data))"
    and "within (keeps (within_root R t0 K)) (tx_os (sync_file q))" and "within (keeps (within_root R t0 K)) check_context"
proof -
  note tb = known_butlast[OF tmp(3)]
  show c: "within (keeps (within_root R t0 K)) (tx_os (chmod temporary m))" "within (keeps (within_root R t0 K)) (tx_os (write_file temporary data))"
    by (rule keeps_os[OF triple_chmod[OF tmp]] keeps_os[OF triple_write_file[OF tmp]])+
  show "within (keeps (within_root R t0 K)) (tx_os (sync_file q))" "within (keeps (within_root R t0 K)) check_context"
    by (intro keeps_only_reads within readonly)+
  have "within (keeps (within_root R t0 K)) (tx_try (sync_directory d))" for d by (intro keeps_only_reads within readonly)
  then show "within (keeps (within_root R t0 K)) (publish_no_replace temporary p)"
    unfolding publish_no_replace_def
    by (intro within keeps_os[OF triple_link[OF tmp(1,3) p]] keeps_os[OF triple_remove[OF p]] keeps_os[OF triple_remove[OF tmp(1,2) tb]])
qed

lemma keeps_publish:
  assumes tmp: "is_abs temporary" "strict_prefix R (clean_elements temporary)" "known K (clean_elements temporary)"
    and p: "is_abs p" "strict_prefix R (clean_elements p)" "known K (butlast (clean_elements p))"
  shows "within (keeps (within_root R t0 K)) (publish_marker h root p intent disk encoded temporary)"
proof -
  have "within (keeps (within_root R t0 K)) (reconcile_marker h root p intent encoded d)" for d
    by (intro keeps_only_reads within)
  then show ?thesis
    unfolding publish_marker_def journal_checkpoint_def tx_attempt_def
    by (intro within keeps_publish_no_replace[OF tmp p]) (auto split: tx_error.split intro!: within)
qed

text \<open>A body that works on a temporary file of a directory below the root, and removes it at the end.\<close>

lemma temporary_keeps_root:
  assumes d: "is_abs dir" "prefix R (clean_elements dir)" "known K (clean_elements dir)"
    and stem: "hd stem = CHR ''.''" "CHR ''/'' \<notin> set stem" "2 < length stem"
    and ending: "CHR ''/'' \<notin> set ending" "2 < length ending"
    and body: "\<And>temporary K'. is_abs temporary \<Longrightarrow> strict_prefix R (clean_elements temporary) \<Longrightarrow>
      known K' (clean_elements temporary) \<Longrightarrow> known K' (clean_elements dir) \<Longrightarrow> within (keeps (within_root R t0 K')) (m temporary)"
  shows "triple (within_root R t0 K)
     (io_bind (tx_os (create_temp_suffix dir stem ending)) (\<lambda>temporary. io_finally (m temporary) (tx_os (remove temporary))))
     (\<lambda>_. within_root R t0 K) (within_root R t0 K)"
proof (rule triple_bind)
  show "triple (within_root R t0 K) (tx_os (create_temp_suffix dir stem ending))
      (\<lambda>temporary s. temp_in R t0 K (clean_elements dir) temporary (tx_world s)) (within_root R t0 K)"
    unfolding within_root_def by (rule triple_tx_os[OF triple_create_temp_suffix[OF d stem ending]])
  fix temporary
  let ?K = "K \<union> subtree (clean_elements temporary)"
  let ?m = "io_finally (m temporary) (tx_os (remove temporary))"
  have kd: "known ?K (clean_elements dir)" using d(3) by (rule known_mono) simp
  have "triple (within_root R t0 ?K) ?m (\<lambda>_. within_root R t0 ?K) (within_root R t0 ?K)"
    if tmp: "is_abs temporary" "butlast (clean_elements temporary) = clean_elements dir" "strict_prefix R (clean_elements temporary)"
  proof (rule triple_finally)
    have kt: "known ?K (clean_elements temporary)" by (rule knownI) simp
    show "triple (within_root R t0 ?K) (m temporary) (\<lambda>_. within_root R t0 ?K) (within_root R t0 ?K)"
      unfolding keeps_triple[symmetric] by (rule body[OF tmp(1,3) kt kd])
    show "triple (within_root R t0 ?K) (tx_os (remove temporary)) (\<lambda>_. within_root R t0 ?K) (within_root R t0 ?K)"
      unfolding keeps_triple[symmetric] by (rule keeps_os(1)[OF triple_remove[OF tmp(1,3)]]) (simp add: tmp(2) kd)
  qed
  then have "triple (\<lambda>s. (is_abs temporary \<and> butlast (clean_elements temporary) = clean_elements dir \<and>
      strict_prefix R (clean_elements temporary)) \<and> within_root R t0 ?K s) ?m (\<lambda>_. within_root R t0 K) (within_root R t0 K)"
    by (intro triple_pure) (auto simp: within_root_def elim!: triple_conseq intro: st_mono)
  then show "triple (\<lambda>s. temp_in R t0 K (clean_elements dir) temporary (tx_world s)) ?m (\<lambda>_. within_root R t0 K) (within_root R t0 K)"
    by (simp add: temp_in_def within_root_def)
qed

lemma publish_keeps_root:
  assumes d: "is_abs dir" "prefix R (clean_elements dir)" "known K (clean_elements dir)"
    and p: "is_abs p" "butlast (clean_elements p) = clean_elements dir" "strict_prefix R (clean_elements p)"
  shows "triple (within_root R t0 K)
     (io_bind (tx_os (create_temp_suffix dir ''.marker-'' ''.tmp'')) (\<lambda>temporary.
        io_finally (publish_marker h root p intent disk encoded temporary) (tx_os (remove temporary))))
     (\<lambda>_. within_root R t0 K) (within_root R t0 K)"
  by (rule temporary_keeps_root[OF d]) (auto intro!: keeps_publish simp: p)

section \<open>The directory of the journal\<close>

lemma join_two: "root \<noteq> [] \<Longrightarrow> join_path [root, a, b] = join_path [root, a @ ''/'' @ b]"
  by (simp add: join_path_def)

lemma journal_paths:
  assumes "is_abs root"
  shows "clean_elements (journal_directory root) = clean_elements root @ [''journal'']" "is_abs (journal_directory root)"
    and "clean_elements (dir_name (intent_path root)) = clean_elements root @ [''journal'']" "is_abs (dir_name (intent_path root))"
proof -
  have ne: "root \<noteq> []" using assms by (auto simp: is_abs_def)
  show "clean_elements (journal_directory root) = clean_elements root @ [''journal'']" "is_abs (journal_directory root)"
    using join_below[OF assms, of "''journal''"] by (simp_all add: journal_directory_def path_elements_def)
  have p: "clean_elements (intent_path root) = clean_elements root @ [''journal'', ''intent.json'']"
    using join_below[OF assms, of "''journal/intent.json''"] join_two[OF ne, of "''journal''" "''intent.json''"]
    by (simp add: intent_path_def path_elements_def)
  have "plain_key (clean_elements root @ [''journal''])" using plain_key_elements[OF assms] by (simp add: plain_key_def plain_element_def)
  then show "clean_elements (dir_name (intent_path root)) = clean_elements root @ [''journal'']" "is_abs (dir_name (intent_path root))"
    using clean_elements_key_path[of "clean_elements root @ [''journal'']"] by (simp_all add: dir_name_def p butlast_append plain_key_def)
qed

text \<open>SHA-256 digests are written in hexadecimal.\<close>

definition hex_digests :: "restore_host \<Rightarrow> bool" where
  "hex_digests h \<longleftrightarrow> (\<forall>x. is_payload_hash (rh_sha h x))"

lemma marker_path:
  assumes "is_abs dir" "is_payload_hash digest"
  shows "is_abs (journal_marker_path dir digest)" "butlast (clean_elements (journal_marker_path dir digest)) = clean_elements dir"
    "clean_elements (journal_marker_path dir digest) = clean_elements dir @ [''terminal-'' @ digest @ ''.json'']"
proof -
  have "CHR ''/'' \<notin> set digest" using assms(2) by (auto simp: is_payload_hash_def list_all_iff byte_in_def)
  then have "plain_element (''terminal-'' @ digest @ ''.json'')" "''terminal-'' @ digest @ ''.json'' \<noteq> ''..''"
    by (auto simp: plain_element_def)
  note j = join_component[OF assms(1) this]
  show "is_abs (journal_marker_path dir digest)" "butlast (clean_elements (journal_marker_path dir digest)) = clean_elements dir"
    "clean_elements (journal_marker_path dir digest) = clean_elements dir @ [''terminal-'' @ digest @ ''.json'']"
    using j by (simp_all add: journal_marker_path_def)
qed

section \<open>A marker\<close>

lemma only_reads_walk [within]: "only_reads (walk_snapshot d root acc)"
  by (induction d arbitrary: root acc) (auto intro!: within readonly)

lemma readonly_dir_nodes [readonly]: "readonly (read_dir_nodes p)"
  unfolding read_dir_nodes_def by (intro readonly)

lemma only_reads_load [within]: "only_reads (load_registry_snapshot h p)"
  unfolding load_registry_snapshot_def by (intro within readonly)

lemma only_reads_artifacts [within]: "only_reads (verify_snapshot_artifacts h root actions)"
  unfolding verify_snapshot_artifacts_def verify_action_artifact_def by (intro within readonly)

lemma only_reads_root [within]: "only_reads (validate_journal_root root)"
  unfolding validate_journal_root_def by (intro within readonly)

lemma only_reads_metadata [within]: "only_reads (read_intent_metadata h root p)"
  unfolding read_intent_metadata_def by (intro within readonly)

lemma only_reads_intent [within]: "only_reads (read_journal_intent h root)"
  unfolding read_journal_intent_def read_intent_file_def by (intro within)

lemma only_reads_verify_intent [within]: "only_reads (verify_intent_for_marker h intent)"
  unfolding verify_intent_for_marker_def by (intro within)

lemma decode_intent_digest: "decode_intent h data = Some disk \<Longrightarrow> hex_digests h \<Longrightarrow> is_payload_hash (ii_intentDigest disk)"
  by (auto simp: decode_intent_def new_intent_disk_def intent_identity.defs intent_disk.defs hex_digests_def Let_def
      split: option.splits if_splits)

definition intent_ready :: "tree \<Rightarrow> string \<Rightarrow> journal_intent \<Rightarrow> bool" where
  "intent_ready t root v \<longleftrightarrow> ji_transactionRoot v = root \<and> is_abs root \<and> linkfree t (clean_elements root @ [''journal'']) \<and>
     is_payload_hash (ji_digest v)"

lemma yields_metadata:
  assumes "wf_tree t" "hex_digests h" and abs: "is_abs root"
  shows "yields t (read_intent_metadata h root (intent_path root)) (intent_ready t root)"
  unfolding read_intent_metadata_def
proof (rule yields_skip[OF only_reads_context], rule yields_then[OF only_reads_reject yields_reject[OF assms(1)]])
  show "is_abs (dir_name (intent_path root))" by (rule journal_paths(4)[OF abs])
  assume lf: "linkfree t (clean_elements (dir_name (intent_path root)))"
  show "yields t (io_bind (tx_lift (io_map_error TxRead (read_regular_file (intent_path root)))) (\<lambda>(data, _).
       case decode_intent h data of
         None \<Rightarrow> io_fail TxJournal
       | Some disk \<Rightarrow>
           if \<not> validate_journal_lineage (ii_lineage disk) \<or> \<not> validate_journal_actions h root (ii_actions disk) \<or>
              \<not> validate_journal_validations root (ii_actions disk) (ii_validations disk) then io_fail TxJournal
           else io_return (intent_from_disk root (intent_path root) disk))) (intent_ready t root)"
    using lf journal_paths(3)[OF abs] abs decode_intent_digest[OF _ assms(2)]
    by (auto intro!: yields_bind[OF _ yields_True] within readonly split: option.split prod.split
        simp: intent_ready_def intent_from_disk_def)
qed

lemma yields_verify_intent:
  assumes "wf_tree t" "hex_digests h"
  shows "yields t (verify_intent_for_marker h intent) (intent_ready t (ji_transactionRoot intent))"
proof -
  have root: "yields t (validate_journal_root root) (\<lambda>r. r = root \<and> is_abs root)" for root
    unfolding validate_journal_root_def
    by (auto intro!: yields_skip within readonly yields_bind[OF _ yields_True] split: sum.split)
  have checked: "yields t (read_intent_file h root (intent_path root)) (intent_ready t root)" if "is_abs root" for root
    unfolding read_intent_file_def
    by (rule yields_bind[OF only_reads_metadata yields_metadata[OF assms that]]) (auto intro!: yields_bind[OF only_reads_artifacts yields_True])
  have read: "yields t (read_journal_intent h root) (intent_ready t root)" for root
    unfolding read_journal_intent_def
    by (rule yields_skip[OF only_reads_context], rule yields_bind[OF only_reads_root root]) (auto intro: checked)
  show ?thesis
    unfolding verify_intent_for_marker_def
    by (auto intro!: yields_skip[OF only_reads_context] yields_bind[OF only_reads_intent read])
qed

lemma yields_triple:
  assumes "only_reads m" "yields t m Q"
  shows "triple (\<lambda>s. frozen t (tx_world s)) m (\<lambda>x s. Q x \<and> frozen t (tx_world s)) (\<lambda>s. frozen t (tx_world s))"
proof (rule tripleI)
  fix s e s' assume "frozen t (tx_world s)" "m s = (Inl e, s')"
  then show "frozen t (tx_world s')" using only_reads_frozen[OF assms(1)] by blast
next
  fix s x s' assume "frozen t (tx_world s)" "m s = (Inr x, s')"
  then show "Q x \<and> frozen t (tx_world s')" using only_reads_frozen[OF assms(1)] assms(2) unfolding yields_def by blast
qed

text \<open>Publishing a marker in a calm world leaves everything outside the transaction root as it is.\<close>

lemma persist_marker_keeps_outside:
  assumes wf: "wf_tree t" and hex: "hex_digests h"
  shows "triple (\<lambda>s. frozen t (tx_world s)) (persist_marker h intent state validation rollback)
     (\<lambda>_. within_root (clean_elements (ji_transactionRoot intent)) t {}) (within_root (clean_elements (ji_transactionRoot intent)) t {})"
proof (cases "validate_marker_outcome state validation rollback")
  case False
  then show ?thesis using wf by (auto simp: persist_marker_def within_root_def st_def frozen_def intro!: triple_fail)
next
  case True
  let ?root = "ji_transactionRoot intent" and ?R = "clean_elements (ji_transactionRoot intent)"
  let ?I = "within_root ?R t {}"
  have weak: "frozen t (tx_world s) \<Longrightarrow> ?I s" for s by (simp add: within_root_def st_def frozen_def wf)
  have bind: "triple (\<lambda>s. frozen t (tx_world s)) (io_bind (tx_attempt (read_marker_file h root p v)) (\<lambda>found.
              case found of
                Inr existing \<Rightarrow>
                  io_bind (tx_os (read_file p)) (\<lambda>existingBytes.
                    if jm_digest existing \<noteq> mi_markerDigest disk \<or> existingBytes \<noteq> encoded then io_fail TxConflict
                    else io_bind (tx_attempt (reconcile_marker h root p v encoded (mi_markerDigest disk))) (\<lambda>r.
                      case r of Inr reconciled \<Rightarrow> io_return reconciled | Inl _ \<Rightarrow> io_fail TxAmbiguous))
              | Inl e \<Rightarrow>
                  if \<not> not_exist e then io_fail e
                  else io_bind (tx_os (create_temp_suffix (journal_directory ?root) ''.marker-'' ''.tmp'')) (\<lambda>temporary.
                    io_finally (publish_marker h root p v disk encoded temporary) (tx_os (remove temporary))))) (\<lambda>_. ?I) ?I"
    if ready: "is_abs ?root" "linkfree t (?R @ [''journal''])" and p: "p = journal_marker_path (journal_directory ?root) d" "is_payload_hash d"
    for root p v disk encoded d
  proof -
    let ?W = "within_root ?R t {?R @ [''journal'']}"
    have start: "frozen t (tx_world s) \<Longrightarrow> ?W s" for s using ready(2) by (simp add: within_root_def st_def frozen_def wf)
    have dir: "is_abs (journal_directory ?root)" "clean_elements (journal_directory ?root) = ?R @ [''journal'']"
      using journal_paths[OF ready(1)] by simp_all
    note mp = marker_path[OF dir(1) p(2), folded p(1)]
    have below: "strict_prefix ?R (clean_elements p)" using mp(3) dir(2) by (auto simp: strict_prefix_def)
    have pub: "within (keeps ?W) (io_bind (tx_os (create_temp_suffix (journal_directory ?root) ''.marker-'' ''.tmp'')) (\<lambda>temporary.
                    io_finally (publish_marker h root p v disk encoded temporary) (tx_os (remove temporary))))"
      unfolding keeps_triple
      by (rule publish_keeps_root[OF dir(1) _ _ mp(1,2) below]) (simp_all add: dir(2) knownI)
    have marker: "within (keeps ?W) (read_marker_file h root p v)" "within (keeps ?W) (tx_os (read_file p))"
      "within (keeps ?W) (reconcile_marker h root p v encoded dg)" for dg
      by (intro keeps_only_reads within readonly)+
    have "triple ?W (io_bind (tx_attempt (read_marker_file h root p v)) (\<lambda>found.
              case found of
                Inr existing \<Rightarrow>
                  io_bind (tx_os (read_file p)) (\<lambda>existingBytes.
                    if jm_digest existing \<noteq> mi_markerDigest disk \<or> existingBytes \<noteq> encoded then io_fail TxConflict
                    else io_bind (tx_attempt (reconcile_marker h root p v encoded (mi_markerDigest disk))) (\<lambda>r.
                      case r of Inr reconciled \<Rightarrow> io_return reconciled | Inl _ \<Rightarrow> io_fail TxAmbiguous))
              | Inl e \<Rightarrow>
                  if \<not> not_exist e then io_fail e
                  else io_bind (tx_os (create_temp_suffix (journal_directory ?root) ''.marker-'' ''.tmp'')) (\<lambda>temporary.
                    io_finally (publish_marker h root p v disk encoded temporary) (tx_os (remove temporary))))) (\<lambda>_. ?W) ?W"
      unfolding keeps_triple[symmetric] tx_attempt_def by (intro within pub marker)
    then show ?thesis by (rule triple_conseq) (auto simp: within_root_def start[unfolded within_root_def] intro: st_mono)
  qed
  show ?thesis
    unfolding persist_marker_def Let_def
    apply (simp only: True not_True_eq_False if_False)
    apply (rule triple_bind[where R = "\<lambda>v s. intent_ready t ?root v \<and> frozen t (tx_world s)"])
     apply (rule triple_conseq[OF yields_triple[OF only_reads_verify_intent yields_verify_intent[OF wf hex]]])
       apply (simp_all add: weak)[3]
    apply (rule triple_pure)
    apply (split prod.split, intro allI impI)
    apply (simp only: intent_ready_def)
    apply (elim conjE)
    apply (rule bind)
       apply (assumption | rule refl | simp)+
    done
qed

end
