(* ===== verification/RestoreOutcome.thy ===== *)
theory RestoreOutcome
  imports RestorePublish TargetClaims
begin

text \<open>
  What the targets hold at the end of a transaction in a calm world: after a rollback every
  action has its recorded prior state again and every created parent is gone; after a restore
  every validation of the intent holds on the targets.
\<close>

section \<open>Targets apart from the transaction root\<close>

text \<open>A key that is neither above nor below another.\<close>

definition apart :: "key \<Rightarrow> key \<Rightarrow> bool" where
  "apart R k \<longleftrightarrow> \<not> prefix R k \<and> \<not> prefix k R"

lemma canonical_target:
  assumes "is_abs p"
  shows "canonical_filesystem_target p =
     (if clean_elements p = [] then [] else CHR ''/'' # join_with ''/'' (clean_elements p))"
proof (cases "clean_elements p = []")
  case True
  then show ?thesis using cleaned_text[OF assms] by (simp add: canonical_filesystem_target_def trim_suffix_def)
next
  case False
  let ?js = "join_with ''/'' (clean_elements p)"
  have ne: "?js \<noteq> []" using join_first[OF clean_elements_plain False] by blast
  have "last (CHR ''/'' # ?js) \<noteq> CHR ''/''"
    using trim_slash_cleaned[OF clean_elements_plain, of p] False ne
    by (cases ?js rule: rev_cases) (auto simp: trim_suffix_byte_def split: if_splits)
  then have "\<not> suffix ''/'' (CHR ''/'' # ?js)" by (metis last_snoc suffix_def)
  then show ?thesis using False cleaned_text[OF assms] by (simp add: canonical_filesystem_target_def trim_suffix_def)
qed

lemma below_canonical:
  assumes "is_abs p" "is_abs q"
  shows "is_below (canonical_filesystem_target p) (canonical_filesystem_target q) \<longleftrightarrow>
     strict_prefix (clean_elements p) (clean_elements q)"
proof -
  let ?a = "clean_elements p" and ?b = "clean_elements q"
  have nest: "is_below (if as = [] then [] else CHR ''/'' # join_with ''/'' as) (if bs = [] then [] else CHR ''/'' # join_with ''/'' bs)
      \<longleftrightarrow> (\<exists>rest. rest \<noteq> [] \<and> bs = as @ rest)" if "list_all plain_element as" "list_all plain_element bs" for as bs
    using join_slash_prefix[OF that] by (cases "as = []"; cases "bs = []") auto
  show ?thesis
    unfolding canonical_target[OF assms(1)] canonical_target[OF assms(2)] nest[OF clean_elements_plain clean_elements_plain]
    by (metis append_Nil2 prefix_def same_append_eq strict_prefix_def)
qed

lemma separate_path_apart:
  assumes "is_abs root" "separate_path root p"
  shows "apart (clean_elements root) (clean_elements p)" "is_abs p" "clean_elements p \<noteq> []"
proof -
  show p: "is_abs p" using assms(2) by (simp add: separate_path_def)
  have "canonical_filesystem_target root \<noteq> canonical_filesystem_target p" "\<not> strict_prefix (clean_elements root) (clean_elements p)"
    "\<not> strict_prefix (clean_elements p) (clean_elements root)"
    using assms(2) below_canonical[OF assms(1) p] below_canonical[OF p assms(1)]
    unfolding separate_path_def filesystem_targets_overlap_def by blast+
  moreover from this(1) have "clean_elements root \<noteq> clean_elements p"
    unfolding canonical_target[OF assms(1)] canonical_target[OF p] by metis
  ultimately show "apart (clean_elements root) (clean_elements p)" by (auto simp: apart_def strict_prefix_def)
  then show "clean_elements p \<noteq> []" by (auto simp: apart_def)
qed

lemma apart_outside:
  assumes "apart R k" "same_outside R t t'"
  shows "prefix k j \<Longrightarrow> fmlookup t' j = fmlookup t j"
proof -
  assume "prefix k j"
  then have "\<not> strict_prefix R j" using assms(1) by (auto simp: apart_def strict_prefix_def dest: prefix_same_cases)
  then show ?thesis using assms(2) by (simp add: same_outside_def)
qed

section \<open>Recorded states\<close>

text \<open>The target of an action and its missing parents are as the intent recorded them.\<close>

definition as_recorded :: "(string \<Rightarrow> string) \<Rightarrow> tree \<Rightarrow> journal_action \<Rightarrow> bool" where
  "as_recorded sha t a \<longleftrightarrow>
     (case journal_filesystem_state sha (ja_prior a) of Inl _ \<Rightarrow> False
      | Inr prior \<Rightarrow> states_equal (tree_state sha t (clean_elements (ja_target a))) prior) \<and>
     list_all (\<lambda>p. fmlookup t (clean_elements p) = None) (ja_missingParents a)"

lemma tree_state_cong:
  assumes "\<And>j. prefix k j \<Longrightarrow> fmlookup t' j = fmlookup t j"
  shows "tree_state sha t' k = tree_state sha t k"
proof -
  have dom: "k' \<in> set (sorted_list_of_fset (fmdom t)) \<longleftrightarrow> k' |\<in>| fmdom t" for t :: tree and k'
    by (simp add: sorted_list_of_fset.rep_eq)
  have sorted: "sorted_wrt (<) (below u k)" for u :: tree
    unfolding below_def by (rule sorted_wrt_filter) (simp add: sorted_list_of_fset.rep_eq)
  have "set (below t' k) = set (below t k)"
    using assms by (auto simp: set_below fmlookup_dom'_iff)
  then have b: "below t' k = below t k"
    by (intro strict_sorted_equal sorted)
  have "map (\<lambda>j. (relative_name k j, node_entry sha (relative_name k j) (the (fmlookup t' j)))) (below t k) =
      map (\<lambda>j. (relative_name k j, node_entry sha (relative_name k j) (the (fmlookup t j)))) (below t k)"
    by (rule map_cong) (use assms in \<open>auto simp: set_below\<close>)
  then have e: "tree_entries sha t' k = tree_entries sha t k" unfolding tree_entries_def b by (rule arg_cong)
  have "fmlookup t' k = fmlookup t k" by (rule assms) simp
  then show ?thesis unfolding tree_state_def e by (rule arg_cong)
qed

lemma as_recorded_outside:
  assumes out: "same_outside R t t'" and k: "apart R (clean_elements (ja_target a))"
    and ps: "\<And>p. p \<in> set (ja_missingParents a) \<Longrightarrow> apart R (clean_elements p)"
  shows "as_recorded sha t' a \<longleftrightarrow> as_recorded sha t a"
proof -
  have "fmlookup t' (clean_elements p) = fmlookup t (clean_elements p)" if "p \<in> set (ja_missingParents a)" for p
    by (rule apart_outside[OF ps[OF that] out]) simp
  then have l: "list_all (\<lambda>p. fmlookup t' (clean_elements p) = None) (ja_missingParents a) \<longleftrightarrow>
      list_all (\<lambda>p. fmlookup t (clean_elements p) = None) (ja_missingParents a)" by (simp add: list_all_iff)
  have s: "tree_state sha t' (clean_elements (ja_target a)) = tree_state sha t (clean_elements (ja_target a))"
    by (rule tree_state_cong) (rule apart_outside[OF k out])
  show ?thesis unfolding as_recorded_def l s ..
qed

text \<open>What the validation of an intent says of the paths of its filesystem actions.\<close>

definition placed :: "key \<Rightarrow> journal_action \<Rightarrow> bool" where
  "placed R a \<longleftrightarrow> (\<forall>p \<in> insert (ja_target a) (set (ja_missingParents a)). is_abs p \<and> clean_elements p \<noteq> [] \<and> apart R (clean_elements p))"

lemma valid_actions_placed:
  assumes "is_abs root"
  shows "valid_actions_from h root i owners as \<Longrightarrow> a \<in> set as \<Longrightarrow> ja_kind a \<noteq> ActionRegistrySet \<Longrightarrow>
     placed (clean_elements root) a"
proof (induction as arbitrary: i owners)
  case (Cons b bs)
  note sep = separate_path_apart[OF assms]
  show ?case
  proof (cases "a = b")
    case True
    then have "valid_missing_parents root b" "separate_path root (ja_target b)"
      using Cons.prems by (auto simp: Let_def valid_filesystem_action_def split: if_splits)
    then show ?thesis using True sep by (auto simp: placed_def valid_missing_parents_def list_all_iff)
  next
    case False
    have "\<exists>o'. valid_actions_from h root (Suc i) o' bs" using Cons.prems(1) by (auto simp: Let_def split: if_splits)
    then show ?thesis using Cons.IH Cons.prems(2,3) False by auto
  qed
qed simp

section \<open>What the checks of a transaction find\<close>

lemma only_reads_registry [within]: "only_reads (read_transaction_registry_snapshot m key n)" "only_reads (registry_of h)"
proof -
  have "only_reads (tx_registry_call f e)" for f :: "registry \<Rightarrow> (unit + 'a) \<times> registry" and e
    by (auto simp: within_def tx_registry_call_def calm_step_def split: prod.splits)
  then show "only_reads (read_transaction_registry_snapshot m key n)"
    unfolding read_transaction_registry_snapshot_def by (intro within)
  show "only_reads (registry_of h)" unfolding registry_of_def by (intro within)
qed

lemma only_reads_parents [within]: "only_reads (verify_missing_parents ps)" "only_reads (verify_parent_state ps d)"
proof -
  show m: "only_reads (verify_missing_parents ps)"
    unfolding verify_missing_parents_def lstat_def by (intro within readonly)
  show "only_reads (verify_parent_state ps d)"
    unfolding verify_parent_state_def lstat_def by (intro within m readonly)
qed

lemma only_reads_verify [within]: "only_reads (verify_action_state h a d)"
  unfolding verify_action_state_def journal_state_run_def Let_def by (intro within)

lemma only_reads_verify_all [within]: "only_reads (verify_all_states h as d)"
  unfolding verify_all_states_def by (intro within)

lemma yields_journal_state: "yields t (journal_state_run h r) (\<lambda>x. journal_filesystem_state (rh_sha h) r = Inr x)"
  unfolding journal_state_run_def yields_def io_map_error_def io_of_def by (auto split: sum.splits)

lemma only_reads_journal_state [within]: "only_reads (journal_state_run h r)"
  unfolding journal_state_run_def by (intro within)

lemma yields_verify:
  assumes wf: "wf_tree t" and a: "ja_kind a \<noteq> ActionRegistrySet" "placed R a"
  shows "yields t (verify_action_state h a False) (\<lambda>_. as_recorded (rh_sha h) t a)"
proof -
  have parents: "\<And>p. p \<in> set (ja_missingParents a) \<Longrightarrow> is_abs p \<and> clean_elements p \<noteq> []"
    and target: "is_abs (ja_target a)" "clean_elements (ja_target a) \<noteq> []" using a(2) by (auto simp: placed_def)
  show ?thesis
    unfolding verify_action_state_def verify_parent_state_def Let_def
    apply (simp only: a(1) if_False not_False_eq_True if_True)
    apply (rule yields_then[OF only_reads_parents(1) yields_parents_gone[OF wf parents]], assumption)
    apply (rule yields_bind[OF only_reads_scan yields_scan[OF wf target]])
    apply (rule yields_bind[OF only_reads_journal_state yields_journal_state])
    apply (auto simp: as_recorded_def list_all_iff)
    done
qed

definition all_recorded :: "(string \<Rightarrow> string) \<Rightarrow> tree \<Rightarrow> journal_action list \<Rightarrow> bool" where
  "all_recorded sha t as \<longleftrightarrow> list_all (as_recorded sha t) (filter (\<lambda>a. ja_kind a \<noteq> ActionRegistrySet) as)"

lemma yields_verify_all:
  assumes wf: "wf_tree t" and as: "\<And>a. a \<in> set as \<Longrightarrow> ja_kind a \<noteq> ActionRegistrySet \<Longrightarrow> placed R a"
  shows "yields t (verify_all_states h as False) (\<lambda>_. all_recorded (rh_sha h) t as)"
proof -
  have "yields t (verify_action_state h a False) (\<lambda>_. ja_kind a \<noteq> ActionRegistrySet \<longrightarrow> as_recorded (rh_sha h) t a)"
    if "a \<in> set as" for a
    using yields_verify[OF wf _ as[OF that]] yields_True by (cases "ja_kind a = ActionRegistrySet") auto
  then show ?thesis
    unfolding verify_all_states_def
    by (intro yields_mono[OF yields_each]) (auto simp: all_recorded_def list_all_iff intro: within)
qed

lemma frozen_resolve_host:
  assumes wf: "wf_tree t"
  shows "triple (frozen t) (resolve_host_path p)
     (\<lambda>target w. (target = p \<and> is_abs p \<and> linkfree t (clean_elements p) \<and> clean_elements p \<noteq> []) \<and> frozen t w) (frozen t)"
  unfolding resolve_host_path_def
  by (auto simp: resolved_def dest: insideD
    intro!: triple_fail triple_return triple_bind[OF triple_map_error[OF frozen_resolve[OF wf]]] triple_pure)

text \<open>The validations of an intent, as definitions with the place of their target.\<close>

definition validation_holds :: "json_codec \<Rightarrow> tree \<Rightarrow> journal_validation \<Rightarrow> bool" where
  "validation_holds c t v \<longleftrightarrow> satisfied c t (clean_elements (jv_hostPath v))
     \<lparr>vd_type = jv_type v, vd_path = jv_path v, vd_jsonPath = jv_jsonPath v, vd_section = jv_section v, vd_key = jv_key v\<rparr>"

lemma frozen_validate_resolved:
  assumes wf: "wf_tree t"
  shows "triple (frozen t) (validate_resolved c [(d, p)]) (\<lambda>_ w. satisfied c t (clean_elements p) d \<and> frozen t w) (frozen t)"
proof (cases "validate_definition d")
  case None
  then show ?thesis
    unfolding validate_resolved_def
    by (auto intro!: triple_bind[OF triple_map_error[OF frozen_resolve_host[OF wf]]] triple_pure triple_return
      triple_then[OF triple_map_error[OF frozen_validate_one]] triple_fail)
qed (auto simp: validate_resolved_def intro: triple_fail)

section \<open>The end of a transaction\<close>

lemma triple_phase:
  assumes "triple P m R E" and "\<And>e. triple E (failure e) Q X" and "\<And>x. triple (R x) (k x) Q X"
  shows "triple P (phase failure m k) Q X"
proof (rule tripleI)
  fix s e s' assume s: "P s" "phase failure m k s = (Inl e, s')"
  obtain r v where m: "m s = (r, v)" by (cases "m s")
  show "X s'"
    using s m tripleD[OF assms(1) s(1)] tripleD(1)[OF assms(2)] tripleD(1)[OF assms(3)]
    by (cases r) (auto simp: phase_def io_bind_def io_try_def)
next
  fix s x s' assume s: "P s" "phase failure m k s = (Inr x, s')"
  obtain r v where m: "m s = (r, v)" by (cases "m s")
  show "Q x s'"
    using s m tripleD[OF assms(1) s(1)] tripleD(2)[OF assms(2)] tripleD(2)[OF assms(3)]
    by (cases r) (auto simp: phase_def io_bind_def io_try_def)
qed

text \<open>Assertions on the tree of a calm and well-formed world.\<close>

definition holds :: "(tree \<Rightarrow> bool) \<Rightarrow> tx \<Rightarrow> bool" where
  "holds P s \<longleftrightarrow> sane (tx_world s) \<and> P (w_tree (tx_world s))"

abbreviation lawful :: "tx \<Rightarrow> bool" where
  "lawful \<equiv> holds (\<lambda>_. True)"

lemma lawful_within: "within stays_sane m \<Longrightarrow> triple lawful m (\<lambda>_. lawful) lawful"
  using withinD[of stays_sane m]
  by (intro tripleI) (auto simp: holds_def stays_sane_def sane_step_def)

lemma holds_yields:
  assumes m: "only_reads m" and y: "\<And>t. wf_tree t \<Longrightarrow> yields t m (Q t)"
  shows "triple lawful m (\<lambda>x. holds (\<lambda>t. Q t x)) lawful"
proof (rule tripleI)
  fix s r s' assume s: "lawful s"
  let ?t = "w_tree (tx_world s)"
  have f: "frozen ?t (tx_world s)" "wf_tree ?t" using s by (simp_all add: holds_def sane_def frozen_def)
  note T = tripleD[OF yields_triple[OF m y[OF f(2)]] f(1)]
  show "lawful s'" if "m s = (Inl r, s')" using T(1)[OF that] f(2) by (simp add: holds_def sane_def frozen_def)
next
  fix s x s' assume s: "lawful s"
  let ?t = "w_tree (tx_world s)"
  have f: "frozen ?t (tx_world s)" "wf_tree ?t" using s by (simp_all add: holds_def sane_def frozen_def)
  note T = tripleD[OF yields_triple[OF m y[OF f(2)]] f(1)]
  show "holds (\<lambda>t. Q t x) s'" if "m s = (Inr x, s')" using T(2)[OF that] f(2) by (simp add: holds_def sane_def frozen_def)
qed

lemma holds_uncancelled:
  assumes "triple (holds P) m (\<lambda>x. holds (Q x)) (holds E)"
  shows "triple (holds P) (without_cancel m) (\<lambda>x. holds (Q x)) (holds E)"
proof -
  have cut: "holds P (s\<lparr>tx_canceled := cs\<rparr>) = holds P s" for P s cs by (simp add: holds_def)
  show ?thesis
  proof (rule tripleI)
    fix s e s' assume s: "holds P s" "without_cancel m s = (Inl e, s')"
    obtain r v where m: "m (s\<lparr>tx_canceled := []\<rparr>) = (r, v)" by (cases "m (s\<lparr>tx_canceled := []\<rparr>)")
    with s(2) have "r = Inl e" "s' = v\<lparr>tx_canceled := tx_canceled s\<rparr>" by (simp_all add: without_cancel_def)
    then show "holds E s'" using tripleD(1)[OF assms, of "s\<lparr>tx_canceled := []\<rparr>"] s(1) m by (simp add: cut)
  next
    fix s x s' assume s: "holds P s" "without_cancel m s = (Inr x, s')"
    obtain r v where m: "m (s\<lparr>tx_canceled := []\<rparr>) = (r, v)" by (cases "m (s\<lparr>tx_canceled := []\<rparr>)")
    with s(2) have "r = Inr x" "s' = v\<lparr>tx_canceled := tx_canceled s\<rparr>" by (simp_all add: without_cancel_def)
    then show "holds (Q x) s'" using tripleD(2)[OF assms, of "s\<lparr>tx_canceled := []\<rparr>"] s(1) m by (simp add: cut)
  qed
qed

lemma holds_persist:
  assumes hex: "hex_digests h"
    and stable: "\<And>t t'. same_outside (clean_elements (ji_transactionRoot intent)) t t' \<Longrightarrow> P t \<Longrightarrow> P t'"
  shows "triple (holds P) (persist_marker h intent state validation rollback) (\<lambda>_. holds P) (holds P)"
proof -
  let ?m = "persist_marker h intent state validation rollback" and ?R = "clean_elements (ji_transactionRoot intent)"
  have out: "holds P s'" if "holds P s" "within_root ?R (w_tree (tx_world s)) {} s'" for s s'
    using that stable by (auto simp: holds_def within_root_def st_def sane_def)
  show ?thesis
  proof (rule tripleI)
    fix s e s' assume s: "holds P s" "?m s = (Inl e, s')"
    then have f: "frozen (w_tree (tx_world s)) (tx_world s)" "wf_tree (w_tree (tx_world s))" by (simp_all add: holds_def sane_def frozen_def)
    show "holds P s'" by (rule out[OF s(1) tripleD(1)[OF persist_marker_keeps_outside[OF f(2) hex] f(1) s(2)]])
  next
    fix s x s' assume s: "holds P s" "?m s = (Inr x, s')"
    then have f: "frozen (w_tree (tx_world s)) (tx_world s)" "wf_tree (w_tree (tx_world s))" by (simp_all add: holds_def sane_def frozen_def)
    show "holds P s'" by (rule out[OF s(1) tripleD(2)[OF persist_marker_keeps_outside[OF f(2) hex] f(1) s(2)]])
  qed
qed

lemma holds_publish:
  assumes hex: "hex_digests h"
    and stable: "\<And>t t'. same_outside (clean_elements (ji_transactionRoot intent)) t t' \<Longrightarrow> P t \<Longrightarrow> P t'"
  shows "triple (holds P) (io_then run_checkpoint (persist_marker h intent state validation rollback)) (\<lambda>_. holds P) (holds P)"
proof (rule triple_then[where R = "holds P"])
  have c: "only_reads run_checkpoint" unfolding run_checkpoint_def by (intro within)
  have "holds P s'" if "holds P s" "run_checkpoint s = (r, s')" for s r s'
    using only_reads_frozen[OF c that(2), of "w_tree (tx_world s)"] that(1) by (auto simp: holds_def sane_def frozen_def)
  then show "triple (holds P) run_checkpoint (\<lambda>_. holds P) (holds P)" by (intro tripleI) blast+
qed (rule holds_persist[OF assms])

section \<open>An accepted intent\<close>

definition accepted :: "restore_host \<Rightarrow> journal_intent \<Rightarrow> bool" where
  "accepted h intent \<longleftrightarrow> is_abs (ji_transactionRoot intent) \<and>
     validate_journal_actions h (ji_transactionRoot intent) (ji_actions intent) \<and>
     validate_journal_validations (ji_transactionRoot intent) (ji_actions intent) (ji_validations intent)"

definition actions_of_request :: "tx_request \<Rightarrow> journal_action list" where
  "actions_of_request rq = (case rq_prepared rq of None \<Rightarrow> []
     | Some p \<Rightarrow> map (\<lambda>(i, a). journal_action_of i a) (zip [0..<length (ps_actions p)] (ps_actions p)))"

definition validations_of_request :: "tx_request \<Rightarrow> journal_validation list" where
  "validations_of_request rq = (case rq_prepared rq of None \<Rightarrow> [] | Some p \<Rightarrow> map journal_validation_of (ps_validations p))"

lemma accepted_placed:
  assumes "accepted h intent" "a \<in> set (ji_actions intent)" "ja_kind a \<noteq> ActionRegistrySet"
  shows "placed (clean_elements (ji_transactionRoot intent)) a"
  using assms valid_actions_placed unfolding accepted_def validate_journal_actions_def by blast

lemma accepted_recorded_outside:
  assumes "accepted h intent" "same_outside (clean_elements (ji_transactionRoot intent)) t t'"
  shows "all_recorded sha t' (ji_actions intent) \<longleftrightarrow> all_recorded sha t (ji_actions intent)"
proof -
  have "as_recorded sha t' a \<longleftrightarrow> as_recorded sha t a" if "a \<in> set (ji_actions intent)" "ja_kind a \<noteq> ActionRegistrySet" for a
    by (rule as_recorded_outside[OF assms(2)]) (use accepted_placed[OF assms(1) that] in \<open>auto simp: placed_def\<close>)
  then show ?thesis by (auto simp: all_recorded_def list_all_iff)
qed

lemma accepted_validations_outside:
  assumes "accepted h intent" "same_outside (clean_elements (ji_transactionRoot intent)) t t'"
  shows "list_all (validation_holds c t') (ji_validations intent) \<longleftrightarrow> list_all (validation_holds c t) (ji_validations intent)"
proof -
  have "fmlookup t' (clean_elements (jv_hostPath v)) = fmlookup t (clean_elements (jv_hostPath v))" if "v \<in> set (ji_validations intent)" for v
  proof (rule apart_outside[OF _ assms(2)])
    have "is_abs (ji_transactionRoot intent)" "separate_path (ji_transactionRoot intent) (jv_hostPath v)"
      using assms(1) that by (auto simp: accepted_def validate_journal_validations_def list_all_iff valid_validation_def)
    then show "apart (clean_elements (ji_transactionRoot intent)) (clean_elements (jv_hostPath v))" by (rule separate_path_apart(1))
  qed simp
  then show ?thesis by (auto simp: list_all_iff validation_holds_def satisfied_def)
qed

lemma gives_root: "gives (validate_journal_root root) (\<lambda>r. r = root \<and> is_abs root)"
  unfolding validate_journal_root_def by (auto intro!: gives_skip gives_then gives_return split: sum.split)

lemma gives_request:
  "gives (validate_intent_request h prepared root lineage) (\<lambda>(r, l, actions, validations).
     is_abs r \<and> validate_journal_actions h r actions \<and> validate_journal_validations r actions validations \<and>
     actions = map (\<lambda>(i, p). journal_action_of i p) (zip [0..<length (ps_actions prepared)] (ps_actions prepared)) \<and>
     validations = map journal_validation_of (ps_validations prepared))"
  unfolding validate_intent_request_def Let_def
  by (intro gives_then gives_bind[OF gives_root]) (auto intro!: gives_return)

lemma gives_accepted:
  "gives (validate_inputs h rq) (\<lambda>(intent, prepared). accepted h intent \<and> ji_actions intent = actions_of_request rq \<and>
     ji_validations intent = validations_of_request rq)"
proof (cases "rq_prepared rq")
  case (Some prepared)
  show ?thesis
  proof (cases "rq_intent rq")
    case i: (Some intent)
    show ?thesis
      unfolding validate_inputs_def Some i
      by (simp, intro gives_skip gives_then gives_bind[OF gives_request])
        (auto simp: accepted_def actions_of_request_def validations_of_request_def Some intro!: gives_return)
  qed (simp add: validate_inputs_def Some)
qed (simp add: validate_inputs_def split: option.split)

section \<open>Rollback and validation\<close>

lemma sane_rollback_each: "within stays_sane (rollback_each h ias)"
  by (induction ias) (auto intro!: within sane_tx_order.within_rollback_one)

lemma lawful_rollback:
  assumes "accepted h intent"
  shows "triple lawful (rollback_all h (ji_actions intent))
     (\<lambda>es. holds (\<lambda>t. es = [] \<longrightarrow> all_recorded (rh_sha h) t (ji_actions intent))) lawful"
  unfolding rollback_all_def
proof (rule triple_bind)
  let ?as = "ji_actions intent"
  show "triple lawful get_touched (\<lambda>_. lawful) lawful" by (rule tripleI) (simp_all add: get_touched_def)
  fix touched
  show "triple lawful (io_bind (rollback_each h (touched_actions touched ?as)) (\<lambda>es.
     io_bind (io_try (verify_all_states h ?as False)) (\<lambda>r. io_return (es @ (case r of Inl e \<Rightarrow> [e] | Inr _ \<Rightarrow> [])))) :: tx_error list action_run)
     (\<lambda>es. holds (\<lambda>t. es = [] \<longrightarrow> all_recorded (rh_sha h) t ?as)) lawful"
  proof (rule triple_bind)
    show "triple lawful (rollback_each h (touched_actions touched ?as)) (\<lambda>_. lawful) lawful"
      by (rule lawful_within[OF sane_rollback_each])
    fix es
    have y: "yields t (verify_all_states h ?as False) (\<lambda>_. all_recorded (rh_sha h) t ?as)" if "wf_tree t" for t
      by (rule yields_verify_all[OF that]) (rule accepted_placed[OF assms])
    show "triple lawful (io_bind (io_try (verify_all_states h ?as False)) (\<lambda>r. io_return (es @ (case r of Inl e \<Rightarrow> [e] | Inr _ \<Rightarrow> []))) :: tx_error list action_run)
       (\<lambda>es. holds (\<lambda>t. es = [] \<longrightarrow> all_recorded (rh_sha h) t ?as)) lawful"
    proof (rule triple_bind)
      show "triple lawful (io_try (verify_all_states h ?as False) :: (tx_error + unit) action_run)
          (\<lambda>r. holds (\<lambda>t. r = Inr () \<longrightarrow> all_recorded (rh_sha h) t ?as)) lawful"
        by (rule triple_try, rule triple_conseq[OF holds_yields[OF only_reads_verify_all y]]) (auto simp: holds_def)
    qed (auto intro!: triple_return simp: holds_def split: sum.splits)
  qed
qed

lemma only_reads_observe [within]: "only_reads (observe ob)"
  by (simp add: within_def observe_def calm_step_def)

lemma only_reads_checkpoint [within]: "only_reads run_checkpoint"
  unfolding run_checkpoint_def by (intro within)

lemma only_reads_observed [within]: "only_reads m \<Longrightarrow> only_reads (observed_failure stage ai vi target reason m)"
  unfolding observed_failure_def observe_failure_def by (intro within)

lemma only_reads_resolved [within]: "only_reads (tx_lift (io_map_error TxValidation (validate_resolved c vs)))"
  unfolding validate_resolved_def by (intro within readonly)

lemma only_reads_validate_target [within]: "only_reads (validate_target h i v)"
  unfolding validate_target_def by (intro within)

lemma only_reads_validate_from [within]: "only_reads (validate_from h i vs)"
  by (induction h i vs rule: validate_from.induct) (auto intro: within)

lemma yields_observed: "only_reads m \<Longrightarrow> yields t m (\<lambda>_. P) \<Longrightarrow> yields t (observed_failure stage ai vi target reason m) (\<lambda>_. P)"
proof -
  assume m: "only_reads m" "yields t m (\<lambda>_. P)"
  have "yields t (io_try m :: (tx_error + unit) action_run) (\<lambda>r. r = Inr () \<longrightarrow> P)"
    using m(2) by (auto simp: yields_def io_try_def split: prod.splits)
  then show ?thesis unfolding observed_failure_def
    by (rule yields_bind[OF calm_order.within_try[OF m(1)]])
      (auto split: sum.split intro!: yields_skip within simp: observe_failure_def)
qed

lemma yields_validate_from:
  assumes wf: "wf_tree t"
  shows "yields t (validate_from h i vs) (\<lambda>_. list_all (validation_holds (rh_json h) t) vs)"
proof (induction h i vs rule: validate_from.induct)
  case (2 h i v vs)
  have "yields t (tx_lift (io_map_error TxValidation (validate_resolved (rh_json h) [(d, p)])))
      (\<lambda>_. satisfied (rh_json h) t (clean_elements p) d)" for d p
    by (intro yields_lift triple_map_error) (rule triple_conseq[OF frozen_validate_resolved[OF wf]], auto)
  then have checked: "yields t (io_then run_checkpoint (tx_lift (io_map_error TxValidation (validate_resolved (rh_json h) [(d, p)]))))
      (\<lambda>_. satisfied (rh_json h) t (clean_elements p) d)" for d p
    by (rule yields_skip[OF only_reads_checkpoint])
  have "yields t (validate_target h i v) (\<lambda>_. validation_holds (rh_json h) t v)"
    unfolding validate_target_def
  proof (rule yields_skip[OF only_reads_observe], rule yields_then[where P = "validation_holds (rh_json h) t v"])
    show "only_reads (observed_failure stage ai vi target reason (io_then run_checkpoint
        (tx_lift (io_map_error TxValidation (validate_resolved (rh_json h) vs)))))" for stage ai vi target reason vs
      by (rule only_reads_observed[OF calm_order.within_then[OF only_reads_checkpoint only_reads_resolved]])
    then show "yields t (observed_failure StageValidation (- 1) (int i) (jv_hostPath v) (Some ReasonTargetValidationFailed)
        (io_then run_checkpoint (tx_lift (io_map_error TxValidation (validate_resolved (rh_json h)
          [(\<lparr>vd_type = jv_type v, vd_path = jv_path v, vd_jsonPath = jv_jsonPath v, vd_section = jv_section v, vd_key = jv_key v\<rparr>,
            jv_hostPath v)]))))) (\<lambda>_. validation_holds (rh_json h) t v)"
      unfolding validation_holds_def
      by (intro yields_observed[OF calm_order.within_then[OF only_reads_checkpoint only_reads_resolved] checked])
  qed (rule yields_mono[OF yields_True])
  then show ?case by (auto intro!: yields_then[OF only_reads_validate_target] yields_mono[OF 2])
qed simp

section \<open>The transaction\<close>

text \<open>What a result promises about the tree.\<close>

definition promised :: "restore_host \<Rightarrow> journal_action list \<Rightarrow> journal_validation list \<Rightarrow> tx_result \<Rightarrow> tree \<Rightarrow> bool" where
  "promised h actions validations res t =
     (case xr_status res of
        TransactionRolledBack \<Rightarrow> all_recorded (rh_sha h) t actions
      | TransactionRestored \<Rightarrow> list_all (validation_holds (rh_json h) t) validations
      | _ \<Rightarrow> True)"

lemma promised_simps [simp]:
  "promised h as vs (failed_result reason e b) t" "promised h as vs ((failed_result reason e b)\<lparr>xr_rollbackErr := es\<rparr>) t"
  "promised h as vs ((failed_result reason e b)\<lparr>xr_marker := m\<rparr>) t" "promised h as vs (rollback_failed_result reason e es) t"
  "promised h as vs (rolled_back_result reason e mk) t \<longleftrightarrow> all_recorded (rh_sha h) t as"
  "promised h as vs (restored_result b mk) t \<longleftrightarrow> list_all (validation_holds (rh_json h) t) vs"
  by (simp_all add: promised_def failed_result_def rollback_failed_result_def rolled_back_result_def restored_result_def)

lemma holds_return: "(\<And>t. P t \<Longrightarrow> Q x t) \<Longrightarrow> triple (holds P) (io_return x) (\<lambda>x. holds (Q x)) X"
  by (rule triple_return) (simp add: holds_def)

lemma holds_mono: "triple P m Q (holds E) \<Longrightarrow> triple P m Q lawful"
  by (erule triple_conseq) (simp_all add: holds_def)

lemma promised_finish:
  assumes acc: "accepted h intent" and hex: "hex_digests h"
  shows "triple lawful (finish_failure h intent (ji_actions intent) reason validation primary)
     (\<lambda>res. holds (promised h (ji_actions intent) vs res)) lawful"
  unfolding finish_failure_phases
proof (rule triple_bind)
  let ?as = "ji_actions intent"
  let ?Q = "\<lambda>res. holds (promised h ?as vs res)"
  show "triple lawful get_began (\<lambda>_. lawful) lawful" by (rule tripleI) (simp_all add: get_began_def)
  fix began
  have publish: "triple (holds P) (without_cancel (io_then run_checkpoint (persist_marker h intent s v r))) (\<lambda>_. holds P) (holds P)"
    if "\<And>t t'. same_outside (clean_elements (ji_transactionRoot intent)) t t' \<Longrightarrow> P t \<Longrightarrow> P t'" for P s v r
    by (rule holds_uncancelled[OF holds_publish[OF hex that]])
  have aborted: "triple lawful (phase (\<lambda>closeErr. io_return ((failed_result reason primary True)\<lparr>xr_rollbackErr := [closeErr]\<rparr>))
           (without_cancel (io_then run_checkpoint (persist_aborted h intent)))
           (\<lambda>marker. io_return ((failed_result reason primary False)\<lparr>xr_marker := Some marker\<rparr>))) ?Q lawful"
    unfolding persist_aborted_def by (rule triple_phase[OF publish]) (auto intro: holds_return)
  have rolled: "triple (holds (\<lambda>t. all_recorded (rh_sha h) t ?as))
      (phase (\<lambda>markerErr. io_return (rollback_failed_result reason primary [markerErr]))
           (without_cancel (io_then run_checkpoint (persist_rolled_back h intent validation)))
           (\<lambda>marker. io_return (rolled_back_result reason primary marker))) ?Q lawful"
    unfolding persist_rolled_back_def
    by (rule triple_phase[OF publish]) (auto simp: accepted_recorded_outside[OF acc] intro: holds_return)
  have decided: "triple (holds (\<lambda>t. es = [] \<longrightarrow> all_recorded (rh_sha h) t ?as))
      (if es \<noteq> [] then io_return (rollback_failed_result reason primary es)
       else phase (\<lambda>markerErr. io_return (rollback_failed_result reason primary [markerErr]))
           (without_cancel (io_then run_checkpoint (persist_rolled_back h intent validation)))
           (\<lambda>marker. io_return (rolled_back_result reason primary marker))) ?Q lawful" for es
    using rolled by (cases "es = []") (auto intro: holds_return)
  have undone: "triple lawful (io_bind (without_cancel (rollback_all h ?as)) (\<lambda>es.
         if es \<noteq> [] then io_return (rollback_failed_result reason primary es)
         else phase (\<lambda>markerErr. io_return (rollback_failed_result reason primary [markerErr]))
           (without_cancel (io_then run_checkpoint (persist_rolled_back h intent validation)))
           (\<lambda>marker. io_return (rolled_back_result reason primary marker)))) ?Q lawful"
    by (rule triple_bind[OF holds_uncancelled[OF lawful_rollback[OF acc]] decided])
  show "triple lawful
     (if \<not> began then
         phase (\<lambda>closeErr. io_return ((failed_result reason primary True)\<lparr>xr_rollbackErr := [closeErr]\<rparr>))
           (without_cancel (io_then run_checkpoint (persist_aborted h intent)))
           (\<lambda>marker. io_return ((failed_result reason primary False)\<lparr>xr_marker := Some marker\<rparr>))
       else if primary = TxAmbiguous then io_return (rollback_failed_result reason primary [])
       else io_bind (without_cancel (rollback_all h ?as)) (\<lambda>rollbackErr.
         if rollbackErr \<noteq> [] then io_return (rollback_failed_result reason primary rollbackErr)
         else phase (\<lambda>markerErr. io_return (rollback_failed_result reason primary [markerErr]))
           (without_cancel (io_then run_checkpoint (persist_rolled_back h intent validation)))
           (\<lambda>marker. io_return (rolled_back_result reason primary marker)))) ?Q lawful"
    using aborted undone by (auto intro: holds_return)
qed

lemma promised_run:
  assumes acc: "accepted h intent" and hex: "hex_digests h"
  shows "triple lawful (run_transaction h intent prepared)
     (\<lambda>res. holds (promised h (ji_actions intent) (ji_validations intent) res)) lawful"
proof -
  let ?as = "ji_actions intent" and ?vs = "ji_validations intent"
  let ?Q = "\<lambda>res. holds (promised h ?as ?vs res)"
  let ?V = "\<lambda>t. list_all (validation_holds (rh_json h) t) ?vs"
  note failure = promised_finish[OF acc hex]
  have start: "triple lawful (begin_transaction n) (\<lambda>_. lawful) lawful" for n
    by (rule tripleI) (auto simp: begin_transaction_def holds_def)
  have check: "triple lawful (verify_all_states h ?as False) (\<lambda>_. lawful) lawful"
    by (rule lawful_within) (intro within)
  have commits: "within stays_sane (commit_from h i ps as)" for i ps as
    by (induction h i ps as rule: commit_from.induct) (auto intro!: within sane_tx_order.within_commit_one)
  have targets: "triple lawful (validate_from h 0 ?vs) (\<lambda>_. holds ?V) lawful"
    by (rule holds_yields[OF only_reads_validate_from yields_validate_from])
  have "triple (holds ?V) (io_then run_checkpoint (persist_committed h intent)) (\<lambda>_. holds ?V) (holds ?V)"
    unfolding persist_committed_def
    by (rule holds_publish[OF hex]) (simp add: accepted_validations_outside[OF acc])
  then have complete: "triple (holds ?V) (io_then run_checkpoint (persist_committed h intent)) (\<lambda>_. holds ?V) lawful"
    by (rule holds_mono)
  have finished: "triple (holds ?V) (io_bind get_began (\<lambda>began. io_return (restored_result began marker))) ?Q lawful" for marker
    by (rule tripleI) (auto simp: io_bind_def get_began_def io_return_def holds_def)
  show ?thesis
    unfolding run_transaction_def Let_def
    by (intro triple_then[OF start] triple_phase[OF check] failure triple_phase[OF lawful_within[OF commits]]
        triple_phase[OF targets] triple_phase[OF complete] finished)
qed

lemma promised_execute:
  assumes hex: "hex_digests h"
  shows "triple lawful (execute_transaction h rq)
     (\<lambda>res. holds (promised h (actions_of_request rq) (validations_of_request rq) res)) lawful"
  unfolding execute_transaction_def
proof (rule triple_phase)
  show "triple lawful (validate_inputs h rq) (\<lambda>r s. (case r of (intent, prepared) \<Rightarrow> accepted h intent \<and>
      ji_actions intent = actions_of_request rq \<and> ji_validations intent = validations_of_request rq) \<and> lawful s) lawful"
  proof (rule tripleI)
    have w: "within stays_sane (validate_inputs h rq)" by (intro within)
    fix s e s' assume "lawful s" "validate_inputs h rq s = (Inl e, s')"
    then show "lawful s'" using tripleD(1)[OF lawful_within[OF w]] by blast
  next
    have w: "within stays_sane (validate_inputs h rq)" by (intro within)
    fix s r s' assume "lawful s" "validate_inputs h rq s = (Inr r, s')"
    then show "(case r of (intent, prepared) \<Rightarrow> accepted h intent \<and>
        ji_actions intent = actions_of_request rq \<and> ji_validations intent = validations_of_request rq) \<and> lawful s'"
      using tripleD(2)[OF lawful_within[OF w]] givesD[OF gives_accepted] by blast
  qed
  show "triple lawful (io_return (failed_result ReasonCommitFailed e True) :: tx_result action_run)
      (\<lambda>res. holds (promised h (actions_of_request rq) (validations_of_request rq) res)) lawful" for e
    by (rule holds_return) simp
  show "triple (\<lambda>s. (case r of (intent, prepared) \<Rightarrow> accepted h intent \<and>
      ji_actions intent = actions_of_request rq \<and> ji_validations intent = validations_of_request rq) \<and> lawful s)
      (case r of (intent, prepared) \<Rightarrow> run_transaction h intent prepared)
      (\<lambda>res. holds (promised h (actions_of_request rq) (validations_of_request rq) res)) lawful" for r
  proof (cases r)
    case (Pair intent prepared)
    show ?thesis unfolding Pair prod.case
    proof (rule triple_pure)
      assume a: "accepted h intent \<and> ji_actions intent = actions_of_request rq \<and> ji_validations intent = validations_of_request rq"
      then show "triple lawful (run_transaction h intent prepared)
          (\<lambda>res. holds (promised h (actions_of_request rq) (validations_of_request rq) res)) lawful"
        using promised_run[OF _ hex, of intent prepared] by simp
    qed
  qed
qed

text \<open>
  Property C2. When Execute reports a rollback in a calm world, every filesystem target has exactly
  its recorded prior state again - kind, permissions, content and entries - and every directory
  the transaction recorded as missing is gone, whichever calls failed on the way.
\<close>

theorem rolled_back_targets_are_as_recorded:
  assumes "calm (tx_world s)" and "wf_tree (w_tree (tx_world s))" and "hex_digests h"
    and "execute_transaction h rq s = (Inr res, s')" and "xr_status res = TransactionRolledBack"
  shows "all_recorded (rh_sha h) (w_tree (tx_world s')) (actions_of_request rq)"
proof -
  have "lawful s" using assms(1,2) by (simp add: holds_def sane_def)
  from tripleD(2)[OF promised_execute[OF assms(3)] this assms(4)] show ?thesis
    using assms(5) by (simp add: holds_def promised_def)
qed

text \<open>
  Property C4. When Execute reports a restored set in a calm world, every validation of the set holds
  on the targets it leaves: a regular file at the host path whose content parses and has the
  location asked for.
\<close>

theorem restored_targets_satisfy_validations:
  assumes "calm (tx_world s)" and "wf_tree (w_tree (tx_world s))" and "hex_digests h"
    and "execute_transaction h rq s = (Inr res, s')" and "xr_status res = TransactionRestored"
  shows "list_all (validation_holds (rh_json h) (w_tree (tx_world s'))) (validations_of_request rq)"
proof -
  have "lawful s" using assms(1,2) by (simp add: holds_def sane_def)
  from tripleD(2)[OF promised_execute[OF assms(3)] this assms(4)] show ?thesis
    using assms(5) by (simp add: holds_def promised_def)
qed

end
