(* ===== verification/RestoreGives.thy ===== *)
theory RestoreGives
  imports RestoreControl
begin

text \<open>
  Rules for what a run returns when it returns, shared by the properties of materialisation, of the
  store and of recovery.
\<close>

section \<open>Values of successful runs\<close>

named_theorems gives_intro

lemmas [gives_intro] = gives_True gives_return gives_fail

lemma gives_of [gives_intro]: "(\<And>x. r = Inr x \<Longrightarrow> Q x) \<Longrightarrow> gives (io_of r) Q"
  by (simp add: gives_def io_of_def)

lemma gives_fold:
  assumes "P acc" "\<And>x a. x \<in> set xs \<Longrightarrow> P a \<Longrightarrow> gives (f x a) P"
  shows "gives (io_fold f xs acc) P"
  using assms
proof (induction xs arbitrary: acc)
  case (Cons x xs)
  show ?case unfolding io_fold.simps
    by (rule gives_bind[of _ P]) (use Cons in auto)
qed (simp add: gives_return)

lemma gives_map_error: "gives m Q \<Longrightarrow> gives (io_map_error f m) Q"
  by (auto simp: gives_def io_map_error_def split: prod.splits sum.splits)

lemma gives_case_option [gives_intro]:
  "gives f Q \<Longrightarrow> (\<And>x. r = Some x \<Longrightarrow> gives (g x) Q) \<Longrightarrow> gives (case r of None \<Rightarrow> f | Some x \<Rightarrow> g x) Q"
  by (cases r) simp_all

lemma gives_case_sum [gives_intro]:
  "(\<And>e. r = Inl e \<Longrightarrow> gives (f e) Q) \<Longrightarrow> (\<And>x. r = Inr x \<Longrightarrow> gives (g x) Q) \<Longrightarrow>
   gives (case r of Inl e \<Rightarrow> f e | Inr x \<Rightarrow> g x) Q"
  by (cases r) simp_all

lemma gives_if [gives_intro]: "(b \<Longrightarrow> gives f Q) \<Longrightarrow> (\<not> b \<Longrightarrow> gives g Q) \<Longrightarrow> gives (if b then f else g) Q"
  by simp

end
