(* ===== verification/RestoreMaterializeProperties.thy ===== *)
theory RestoreMaterializeProperties
  imports RestoreMaterialize RestoreOutcome RestoreGives
begin

text \<open>
  What the preflight of a restore guarantees, whatever the tree is and whichever calls fail: the
  actions of different declarations never touch each other, every action has a concrete target, each
  validation is bound to a path one action writes; and nothing is changed by it.
\<close>

section \<open>Paths\<close>

lemma drop_common_prefix: "drop_common xs ys = ([], t) \<Longrightarrow> ys = xs @ t"
  by (induction xs ys rule: drop_common.induct) (auto split: if_splits)

lemma join_dots:
  "''..'' \<notin> set (b # bs) \<Longrightarrow> render_clean False (replicate (length (b # bs)) ''..'' @ t) = ''..'' \<or>
     prefix ''../'' (render_clean False (replicate (length (b # bs)) ''..'' @ t))"
  by (cases "replicate (length bs) ''..'' @ t") (auto simp: render_clean_def join_with_Cons)

lemma path_contained_prefix:
  assumes "path_contained root p" "is_abs root"
  shows "is_abs p" "prefix (clean_elements root) (clean_elements p)"
proof -
  obtain rel where rel: "rel_path (clean_path root) (clean_path p) = Some rel" "rel \<noteq> ''..''" "\<not> prefix ''../'' rel"
    using assms(1) by (auto simp: path_contained_def split: option.splits)
  show "is_abs p" using rel(1) assms(2) by (auto simp: rel_path_def split: if_splits)
  obtain b t where d: "drop_common (clean_elements root) (clean_elements p) = (b, t)" by fastforce
  have "b = []" using rel d join_dots[of "hd b" "tl b" t] by (cases b) (auto simp: rel_path_def split: if_splits)
  then show "prefix (clean_elements root) (clean_elements p)" using drop_common_prefix d by (auto simp: prefix_def)
qed

lemma targets_overlap_iff:
  assumes "is_abs p" "is_abs q"
  shows "filesystem_targets_overlap (canonical_filesystem_target p) (canonical_filesystem_target q) \<longleftrightarrow>
     \<not> apart (clean_elements p) (clean_elements q)"
proof -
  have "canonical_filesystem_target p = canonical_filesystem_target q \<longleftrightarrow> clean_elements p = clean_elements q"
  proof
    assume eq: "canonical_filesystem_target p = canonical_filesystem_target q"
    then have "\<not> is_below (canonical_filesystem_target p) (canonical_filesystem_target q)" by simp
    show "clean_elements p = clean_elements q"
    proof (cases "clean_elements p = [] \<or> clean_elements q = []")
      case True
      then show ?thesis using eq canonical_target[OF assms(1)] canonical_target[OF assms(2)] by (auto split: if_splits)
    next
      case False
      then have "join_with ''/'' (clean_elements p) = join_with ''/'' (clean_elements q)"
        using eq canonical_target[OF assms(1)] canonical_target[OF assms(2)] by simp
      then show ?thesis using elements_join[OF clean_elements_plain, of p] elements_join[OF clean_elements_plain, of q] by metis
    qed
  qed (use canonical_target[OF assms(1)] canonical_target[OF assms(2)] in simp)
  then show ?thesis
    unfolding filesystem_targets_overlap_def below_canonical[OF assms] below_canonical[OF assms(2,1)]
    by (auto simp: apart_def strict_prefix_def)
qed

lemma apart_below: "apart a b \<Longrightarrow> prefix a c \<Longrightarrow> prefix b d \<Longrightarrow> apart c d"
  unfolding apart_def by (metis prefix_order.trans prefix_same_cases)

lemma concrete_clean:
  assumes "is_abs p"
  shows "concrete_host_path (clean_path p)"
proof -
  obtain c where c: "clean_path p = CHR ''/'' # c" "c = join_with ''/'' (clean_elements p)"
    using cleaned_text[OF assms] by (auto split: if_splits)
  have "\<not> prefix ''//'' (clean_path p)"
    using c join_first[OF clean_elements_plain, of p] by (cases "clean_elements p = []") (auto simp: prefix_def)
  moreover have "clean_path p \<noteq> [] \<and> \<not> prefix [BSLASH, BSLASH] (clean_path p)" unfolding c(1) by (simp add: BSLASH_def)
  ultimately show ?thesis using assms by (simp add: concrete_host_path_def)
qed

section \<open>Resolved declarations\<close>

definition resolved_ok :: "restore_host \<Rightarrow> restore_def \<Rightarrow> resolved_restore \<Rightarrow> bool" where
  "resolved_ok h d ent \<longleftrightarrow> rv_definition ent = d \<and>
     (if rv_registryClaim ent then rd_type d = ''registry-set'' \<and> \<not> rv_sourceMissing ent \<and>
        (\<exists>v. rv_registry ent = Some v \<and>
          rv_canonical ent = to_lower (rh_lower h) (gv_key v) @ [NUL] @ to_lower (rh_lower h) (gv_valueName v))
      else rd_type d \<in> set fs_types \<and> concrete_host_path (rv_target ent) \<and>
        rv_canonical ent = canonical_filesystem_target (rv_target ent) \<and>
        (rd_type d = ''delete-glob'' \<longrightarrow> rv_source ent = [] \<and> \<not> rv_sourceMissing ent))"

lemma gives_resolve_target: "gives (resolve_target dh d i index) concrete_host_path"
  unfolding resolve_target_def
  by (rule gives_bind[OF gives_True]) (auto intro!: gives_intro gives_then)

lemma gives_resolve_source:
  assumes "resolved_ok h d ent" "rd_type d \<noteq> ''delete-glob''" "\<not> rv_registryClaim ent"
  shows "gives (resolve_source root ent index) (resolved_ok h d)"
proof -
  have ok: "resolved_ok h d (ent\<lparr>rv_source := p, rv_sourceMissing := b\<rparr>)" "resolved_ok h d (ent\<lparr>rv_source := p, rv_sourceInfo := n\<rparr>)" for p b n
    using assms by (auto simp: resolved_ok_def)
  show ?thesis
    unfolding resolve_source_def Let_def
    by (auto intro!: gives_intro gives_bind[OF gives_True] ok split: sum.split errno.split)
qed

lemma gives_resolve_glob: "resolved_ok h d ent \<Longrightarrow> gives (resolve_glob_target ent index) (resolved_ok h d)"
  unfolding resolve_glob_target_def Let_def
  by (auto intro!: gives_intro gives_bind[OF gives_True] split: sum.split errno.split)

lemma gives_resolve_definition: "gives (resolve_definition dh h root i d index) (resolved_ok h d)"
proof (cases "rd_type d \<in> set fs_types")
  case True
  have ok: "resolved_ok h d \<lparr>rv_definition = d, rv_source = [], rv_target = target, rv_sourceInfo = None, rv_sourceMissing = False,
      rv_registry = None, rv_canonical = canonical_filesystem_target target, rv_registryClaim = False\<rparr>"
    if "concrete_host_path target" for target using that True by (simp add: resolved_ok_def)
  show ?thesis
    unfolding resolve_definition_def Let_def if_P[OF True]
    by (rule gives_bind[OF gives_resolve_target])
      (auto intro!: gives_resolve_source gives_resolve_glob ok)
next
  case False
  show ?thesis
    unfolding resolve_definition_def if_not_P[OF False]
    by (auto intro!: gives_intro gives_bind[OF gives_True] simp: resolved_ok_def)
qed

lemma gives_resolve_definitions:
  "gives (resolve_definitions dh h root i index ds) (list_all2 (resolved_ok h) ds)"
proof (induction ds arbitrary: index)
  case (Cons d ds)
  show ?case unfolding resolve_definitions.simps
    by (rule gives_bind[OF gives_resolve_definition], rule gives_bind[OF Cons]) (auto intro: gives_intro)
qed (simp add: gives_intro)

lemma overlap_with_None: "overlap_with l index es = None \<Longrightarrow> list_all (\<lambda>e. \<not> entries_overlap l e) es"
  by (induction l index es rule: overlap_with.induct) (auto split: if_splits)

lemma no_overlap_sorted:
  "reject_overlapping_targets index es = None \<Longrightarrow> sorted_wrt (\<lambda>l r. \<not> entries_overlap l r) es"
  by (induction index es rule: reject_overlapping_targets.induct)
    (auto simp: check_def list_all_iff dest!: overlap_with_None split: option.splits)

section \<open>Actions of a declaration\<close>

definition kind_of_type :: "string \<Rightarrow> action_kind" where
  "kind_of_type t = (if t = ''copy'' then ActionCopy else if t = ''delete-glob'' then ActionDeleteFile
     else if t = ''registry-set'' then ActionRegistrySet else ActionWriteFile)"

definition declared_by :: "restore_def \<Rightarrow> action \<Rightarrow> bool" where
  "declared_by d a \<longleftrightarrow> ac_strategy a = rd_type d \<and> ac_kind a = kind_of_type (rd_type d) \<and> ac_snapshotRequired a \<and>
     (if ac_kind a = ActionRegistrySet then ac_registryValue a \<noteq> None
      else ac_registryValue a = None \<and> concrete_host_path (ac_target a))"

definition made_of :: "resolved_restore \<Rightarrow> action \<Rightarrow> bool" where
  "made_of ent a \<longleftrightarrow> declared_by (rv_definition ent) a \<and>
     (if rv_registryClaim ent then ac_registryValue a = rv_registry ent
      else is_abs (rv_target ent) \<and> prefix (clean_elements (rv_target ent)) (clean_elements (ac_target a)))"

definition action_apart :: "restore_host \<Rightarrow> action \<Rightarrow> action \<Rightarrow> bool" where
  "action_apart h a b \<longleftrightarrow>
     (case (ac_registryValue a, ac_registryValue b) of
        (Some v, Some w) \<Rightarrow> to_lower (rh_lower h) (gv_key v) \<noteq> to_lower (rh_lower h) (gv_key w) \<or>
          to_lower (rh_lower h) (gv_valueName v) \<noteq> to_lower (rh_lower h) (gv_valueName w)
      | (None, None) \<Rightarrow> apart (clean_elements (ac_target a)) (clean_elements (ac_target b))
      | _ \<Rightarrow> True)"

lemma made_apart:
  assumes "resolved_ok h d l" "resolved_ok h e r" "\<not> entries_overlap l r" "made_of l a" "made_of r b"
  shows "action_apart h a b"
proof (cases "rv_registryClaim l"; cases "rv_registryClaim r")
  assume "rv_registryClaim l" "rv_registryClaim r"
  then show ?thesis using assms by (auto simp: resolved_ok_def entries_overlap_def made_of_def action_apart_def)
next
  assume "rv_registryClaim l" "\<not> rv_registryClaim r"
  then show ?thesis using assms
    by (auto simp: resolved_ok_def made_of_def action_apart_def declared_by_def kind_of_type_def fs_types_def split: if_splits option.splits)
next
  assume "\<not> rv_registryClaim l" "rv_registryClaim r"
  then show ?thesis using assms
    by (auto simp: resolved_ok_def made_of_def action_apart_def declared_by_def kind_of_type_def fs_types_def split: if_splits option.splits)
next
  assume c: "\<not> rv_registryClaim l" "\<not> rv_registryClaim r"
  have none: "ac_registryValue a = None" "ac_registryValue b = None"
    using assms(1,2,4,5) c
    by (auto simp: resolved_ok_def made_of_def declared_by_def kind_of_type_def fs_types_def split: if_splits)
  have abs: "is_abs (rv_target l)" "is_abs (rv_target r)"
    and pre: "prefix (clean_elements (rv_target l)) (clean_elements (ac_target a))" "prefix (clean_elements (rv_target r)) (clean_elements (ac_target b))"
    using assms(4,5) c by (simp_all add: made_of_def)
  have "apart (clean_elements (rv_target l)) (clean_elements (rv_target r))"
    using assms(1-3) c targets_overlap_iff[OF abs] by (simp add: entries_overlap_def resolved_ok_def)
  then show ?thesis using apart_below[OF _ pre] none by (simp add: action_apart_def)
qed

lemma gives_check_match:
  assumes "resolved_ok h d ent" "rd_type d = ''delete-glob''" "list_all (made_of ent) acts" "\<not> rv_registryClaim ent"
  shows "gives (check_match ent index p acts) (list_all (made_of ent))"
proof (cases "path_contained (rv_target ent) p")
  case True
  have abs: "is_abs (rv_target ent)" using assms(1,4) by (simp add: resolved_ok_def concrete_host_path_def)
  note p = path_contained_prefix[OF True abs]
  have "made_of ent (delete_action p)"
    using assms abs p concrete_clean[OF p(1)]
    by (simp add: made_of_def delete_action_def declared_by_def kind_of_type_def resolved_ok_def)
  then show ?thesis
    unfolding check_match_def using True assms(3)
    by (auto intro!: gives_intro gives_then gives_bind[OF gives_True])
qed (simp add: check_match_def gives_intro)

text \<open>The actions of an entry; only a glob has more than one.\<close>

definition group_of :: "resolved_restore \<Rightarrow> action list \<Rightarrow> bool" where
  "group_of ent acts \<longleftrightarrow> list_all (made_of ent) acts \<and>
     (if rd_type (rv_definition ent) = ''delete-glob'' then True
      else if rv_sourceMissing ent then acts = []
      else length acts = 1 \<and>
        (case acts of a # _ \<Rightarrow> (rv_registryClaim ent \<or> ac_target a = rv_target ent) \<and>
          (ac_kind a = ActionCopy \<longrightarrow> ac_sourceIsDirectory a = (case rv_sourceInfo ent of None \<Rightarrow> False | Some info \<Rightarrow> is_dir info))
         | [] \<Rightarrow> False))"

lemma gives_materialize_one:
  assumes ok: "resolved_ok h d ent"
  shows "gives (materialize_one h ent index) (group_of ent)"
proof -
  have t: "rv_definition ent = d" using ok by (simp add: resolved_ok_def)
  have written: "gives (write_content ent index c m) (group_of ent)"
    if "rd_type d \<in> {''merge-json'', ''merge-ini'', ''append''}" "\<not> rv_sourceMissing ent" for c m
    unfolding write_content_def using ok that
    by (intro gives_bind[OF gives_True] gives_return)
      (auto simp: group_of_def made_of_def declared_by_def write_action_def kind_of_type_def resolved_ok_def
        concrete_host_path_def split: if_splits)
  have glob: "gives (materialize_delete_glob h ent index) (group_of ent)" if d: "rd_type d = ''delete-glob''"
  proof -
    have c: "\<not> rv_registryClaim ent" using ok d by (auto simp: resolved_ok_def)
    have "gives (materialize_delete_glob h ent index) (list_all (made_of ent))"
      unfolding materialize_delete_glob_def
      by (rule gives_bind[OF gives_True], rule gives_fold) (use gives_check_match[OF ok d _ c] in auto)
    then show ?thesis by (rule gives_mono) (simp add: group_of_def t d)
  qed
  have copy: "group_of ent [copy_action ent]" if "rd_type d = ''copy''" "\<not> rv_sourceMissing ent"
    using ok that by (auto simp: group_of_def made_of_def declared_by_def copy_action_def kind_of_type_def resolved_ok_def
      concrete_host_path_def split: if_splits)
  have reg: "group_of ent [registry_action ent]" if "rd_type d = ''registry-set''" "\<not> rv_sourceMissing ent"
    using ok that by (auto simp: group_of_def made_of_def declared_by_def registry_action_def kind_of_type_def resolved_ok_def
      fs_types_def split: if_splits)
  have missing: "group_of ent []" if "rv_sourceMissing ent" using that by (simp add: group_of_def)
  show ?thesis
    unfolding materialize_one_def Let_def t
    by (auto intro!: gives_intro written glob copy reg missing)
qed

lemma gives_materialize_entries:
  assumes "list_all2 (resolved_ok h) ds es"
  shows "gives (materialize_entries h index es) (\<lambda>acts. \<exists>groups. acts = concat groups \<and> list_all2 group_of es groups)"
  using assms
proof (induction ds es arbitrary: index rule: list_all2_induct)
  case Nil
  show ?case by (auto intro!: gives_intro exI[of _ "[]"])
next
  case (Cons d ds e es)
  show ?case
    unfolding materialize_entries.simps
  proof (rule gives_bind[OF gives_materialize_one[OF Cons.hyps(1)]], rule gives_bind[OF Cons.IH], rule gives_return)
    fix g rest assume "group_of e g" "\<exists>groups. rest = concat groups \<and> list_all2 group_of es groups"
    then obtain gs where "rest = concat gs" "list_all2 group_of es gs" by blast
    then show "\<exists>groups. g @ rest = concat groups \<and> list_all2 group_of (e # es) groups"
      using \<open>group_of e g\<close> by (intro exI[of _ "g # gs"]) simp
  qed
qed

section \<open>Validations\<close>

definition writes_to :: "string \<Rightarrow> action \<Rightarrow> bool" where
  "writes_to p a \<longleftrightarrow> (ac_kind a = ActionCopy \<or> ac_kind a = ActionWriteFile) \<and>
     (p = ac_target a \<or> ac_kind a = ActionCopy \<and> ac_sourceIsDirectory a \<and>
        prefix (clean_elements (ac_target a)) (clean_elements p))"

lemma mappings_from:
  "validation_mappings index path found es = Inr ps \<Longrightarrow> p \<in> set ps \<Longrightarrow>
     p \<in> set found \<or> (\<exists>e \<in> set es. maps_validations e \<and> map_validation_target path e = Inr (Some p))"
  by (induction index path found es rule: validation_mappings.induct) (auto split: if_splits sum.splits option.splits)

lemma resolve_validations_all:
  "resolve_validations index ds es = Inr vs \<Longrightarrow> map fst vs = ds \<and>
     (\<forall>(d, p) \<in> set vs. \<exists>e \<in> set es. maps_validations e \<and> map_validation_target (vd_path d) e = Inr (Some p))"
proof (induction ds arbitrary: index vs)
  case (Cons d ds)
  obtain p rest where r: "validation_mappings index (vd_path d) [] es = Inr [p]" "resolve_validations (index + 1) ds es = Inr rest"
      "vs = (d, p) # rest"
    using Cons.prems by (auto simp: try_res_def split: sum.splits list.splits)
  then show ?case using Cons.IH[OF r(2)] mappings_from[OF r(1)] by auto
qed simp

lemma group_writes:
  assumes ok: "resolved_ok h d e" and g: "group_of e acts" and m: "maps_validations e" "map_validation_target path e = Inr (Some p)"
  shows "list_ex (writes_to p) acts"
proof -
  have e: "\<not> rv_registryClaim e" "rd_type (rv_definition e) \<noteq> ''delete-glob''" "\<not> rv_sourceMissing e"
    using m(1) by (auto simp: maps_validations_def)
  have abs: "is_abs (rv_target e)" using ok e(1) by (simp add: resolved_ok_def concrete_host_path_def)
  obtain a where a: "acts = [a]" "ac_target a = rv_target e" "made_of e a"
      "ac_kind a = ActionCopy \<Longrightarrow> ac_sourceIsDirectory a = (case rv_sourceInfo e of None \<Rightarrow> False | Some info \<Rightarrow> is_dir info)"
    using g e by (cases acts) (auto simp: group_of_def)
  have kind: "ac_kind a = kind_of_type (rd_type (rv_definition e))" "rd_type (rv_definition e) \<in> set fs_types"
    using a(3) ok e(1) by (auto simp: made_of_def declared_by_def resolved_ok_def)
  have target: "p = rv_target e \<or> rd_type (rv_definition e) = ''copy'' \<and> (case rv_sourceInfo e of None \<Rightarrow> False | Some info \<Rightarrow> is_dir info) \<and>
      path_contained (rv_target e) p"
    using m(2) by (auto simp: map_validation_target_def Let_def split: if_splits option.splits)
  show ?thesis
    using target
  proof
    assume "p = rv_target e"
    then show ?thesis using a(1,2) kind e(2) by (auto simp: writes_to_def kind_of_type_def fs_types_def)
  next
    assume c: "rd_type (rv_definition e) = ''copy'' \<and> (case rv_sourceInfo e of None \<Rightarrow> False | Some info \<Rightarrow> is_dir info) \<and>
      path_contained (rv_target e) p"
    then have "ac_kind a = ActionCopy" using kind(1) by (simp add: kind_of_type_def)
    then show ?thesis using a path_contained_prefix(2)[OF _ abs] c by (auto simp: writes_to_def)
  qed
qed

section \<open>The set\<close>

definition materialized_from :: "restore_host \<Rightarrow> restore_request \<Rightarrow> generation_def \<Rightarrow> resolved_restore list \<Rightarrow> action list list \<Rightarrow> materialized_set \<Rightarrow> bool" where
  "materialized_from h rq g es groups ms \<longleftrightarrow>
     ps_targetDef (rr_plan rq) = Some g \<and>
     preflight_app_closure h (gen_requiresAppClosed g) (rr_processPatterns rq) (rr_processObserver rq) = None \<and>
     list_all2 (resolved_ok h) (gen_restore g) es \<and> reject_overlapping_targets 0 es = None \<and>
     ms_actions ms = concat groups \<and> list_all2 group_of es groups \<and>
     resolve_validations 0 (gen_validate g) es = Inr (ms_validations ms)"

lemma gives_validate_request: "gives (validate_request rq) (\<lambda>(root, t, g). ps_targetDef (rr_plan rq) = Some g)"
  unfolding validate_request_def Let_def
  by (auto intro!: gives_intro gives_then gives_bind[OF gives_True] split: option.split list.split)

lemma gives_materialize: "gives (materialize dh h rq) (\<lambda>ms. \<exists>g es groups. materialized_from h rq g es groups ms)"
  unfolding materialize_def Let_def
proof (rule gives_bind[OF gives_validate_request], clarify)
  fix root target g assume g: "ps_targetDef (rr_plan rq) = Some g"
  let ?pre = "preflight_app_closure h (gen_requiresAppClosed g) (rr_processPatterns rq) (rr_processObserver rq)"
  show "gives (io_then (io_of (case ?pre of None \<Rightarrow> Inr () | Some e \<Rightarrow> Inl e))
      (io_bind (resolve_definitions dh h root (target_config_instance target) 0 (gen_restore g)) (\<lambda>resolved.
       io_then (io_of (case reject_overlapping_targets 0 resolved of None \<Rightarrow> Inr () | Some e \<Rightarrow> Inl e))
       (io_bind (materialize_entries h 0 resolved) (\<lambda>actions.
        io_bind (io_of (resolve_validations 0 (gen_validate g) resolved)) (\<lambda>validations.
         io_return \<lparr>ms_actions = actions, ms_validations = validations, ms_instance = target_config_instance target\<rparr>))))))
     (\<lambda>ms. \<exists>g es groups. materialized_from h rq g es groups ms)" (is "gives (io_then _ ?rest) ?Q")
    unfolding io_then_def
  proof (rule gives_bind[of _ "\<lambda>_. ?pre = None"])
    show "gives (io_of (case ?pre of None \<Rightarrow> Inr () | Some e \<Rightarrow> Inl e)) (\<lambda>_. ?pre = None)"
      by (rule gives_of) (auto split: option.splits)
    assume pre: "?pre = None"
    show "gives (io_bind (resolve_definitions dh h root (target_config_instance target) 0 (gen_restore g)) (\<lambda>resolved.
       io_bind (io_of (case reject_overlapping_targets 0 resolved of None \<Rightarrow> Inr () | Some e \<Rightarrow> Inl e)) (\<lambda>_.
       io_bind (materialize_entries h 0 resolved) (\<lambda>actions.
        io_bind (io_of (resolve_validations 0 (gen_validate g) resolved)) (\<lambda>validations.
         io_return \<lparr>ms_actions = actions, ms_validations = validations, ms_instance = target_config_instance target\<rparr>)))))
      ?Q"
    proof (rule gives_bind[OF gives_resolve_definitions])
      fix es assume es: "list_all2 (resolved_ok h) (gen_restore g) es"
      show "gives (io_bind (io_of (case reject_overlapping_targets 0 es of None \<Rightarrow> Inr () | Some e \<Rightarrow> Inl e)) (\<lambda>_.
         io_bind (materialize_entries h 0 es) (\<lambda>actions.
          io_bind (io_of (resolve_validations 0 (gen_validate g) es)) (\<lambda>validations.
           io_return \<lparr>ms_actions = actions, ms_validations = validations, ms_instance = target_config_instance target\<rparr>))))
        ?Q"
      proof (rule gives_bind[of _ "\<lambda>_. reject_overlapping_targets 0 es = None"], rule gives_of)
        show "reject_overlapping_targets 0 es = None" if "(case reject_overlapping_targets 0 es of None \<Rightarrow> Inr () | Some e \<Rightarrow> Inl e) = Inr x" for x
          using that by (auto split: option.splits)
        assume ov: "reject_overlapping_targets 0 es = None"
        show "gives (io_bind (materialize_entries h 0 es) (\<lambda>actions.
          io_bind (io_of (resolve_validations 0 (gen_validate g) es)) (\<lambda>validations.
           io_return \<lparr>ms_actions = actions, ms_validations = validations, ms_instance = target_config_instance target\<rparr>))) ?Q"
        proof (rule gives_bind[OF gives_materialize_entries[OF es]])
          fix acts assume "\<exists>groups. acts = concat groups \<and> list_all2 group_of es groups"
          then obtain groups where "acts = concat groups" "list_all2 group_of es groups" by blast
          then have "?Q \<lparr>ms_actions = acts, ms_validations = vs, ms_instance = target_config_instance target\<rparr>"
            if "resolve_validations 0 (gen_validate g) es = Inr vs" for vs
            using g pre es ov that by (auto simp: materialized_from_def)
          then show "gives (io_bind (io_of (resolve_validations 0 (gen_validate g) es)) (\<lambda>validations.
             io_return \<lparr>ms_actions = acts, ms_validations = validations, ms_instance = target_config_instance target\<rparr>)) ?Q"
            by (intro gives_bind[OF gives_of] gives_return) auto
        qed
      qed
    qed
  qed
qed

lemma materialized_groups:
  assumes "materialized_from h rq g es groups ms"
  shows "sorted_wrt (\<lambda>as bs. list_all (\<lambda>a. list_all (action_apart h a) bs) as) groups"
    and "list_all2 (\<lambda>d as. list_all (declared_by d) as \<and> (rd_type d = ''delete-glob'' \<or> length as \<le> 1)) (gen_restore g) groups"
proof -
  have es: "list_all2 (resolved_ok h) (gen_restore g) es" "sorted_wrt (\<lambda>l r. \<not> entries_overlap l r) es" "list_all2 group_of es groups"
    using assms no_overlap_sorted by (auto simp: materialized_from_def)
  have n: "length es = length groups" "length es = length (gen_restore g)" using es(1,3) by (auto dest: list_all2_lengthD)
  have ok: "resolved_ok h (gen_restore g ! i) (es ! i)" "group_of (es ! i) (groups ! i)" if "i < length es" for i
    using es(1,3) that by (auto simp: list_all2_conv_all_nth)
  show "sorted_wrt (\<lambda>as bs. list_all (\<lambda>a. list_all (action_apart h a) bs) as) groups"
    unfolding sorted_wrt_iff_nth_less
  proof (intro allI impI)
    fix i j assume ij: "i < j" "j < length groups"
    then have "\<not> entries_overlap (es ! i) (es ! j)" using es(2) n by (simp add: sorted_wrt_iff_nth_less)
    then show "list_all (\<lambda>a. list_all (action_apart h a) (groups ! j)) (groups ! i)"
      using made_apart[OF ok(1)[of i] ok(1)[of j]] ok(2)[of i] ok(2)[of j] ij n by (auto simp: group_of_def list_all_iff)
  qed
  show "list_all2 (\<lambda>d as. list_all (declared_by d) as \<and> (rd_type d = ''delete-glob'' \<or> length as \<le> 1)) (gen_restore g) groups"
    unfolding list_all2_conv_all_nth
  proof (intro conjI allI impI)
    show "length (gen_restore g) = length groups" using n by simp
    fix i assume "i < length (gen_restore g)"
    then have "resolved_ok h (gen_restore g ! i) (es ! i)" "group_of (es ! i) (groups ! i)" using ok n by auto
    then show "list_all (declared_by (gen_restore g ! i)) (groups ! i)" "rd_type (gen_restore g ! i) = ''delete-glob'' \<or> length (groups ! i) \<le> 1"
      by (auto simp: group_of_def made_of_def resolved_ok_def list_all_iff split: if_splits)
  qed
qed

text \<open>
  Property C12. The actions of a materialised set come in groups, one for every restore declaration of
  the pinned generation and in its order. The actions of a group carry out its declaration on concrete
  targets, more than one only for a glob, and no two actions of different groups touch each other.
\<close>

theorem materialized_actions_are_apart:
  assumes "materialize dh h rq s = (Inr ms, s')"
  shows "\<exists>groups. ms_actions ms = concat groups \<and>
    sorted_wrt (\<lambda>as bs. list_all (\<lambda>a. list_all (action_apart h a) bs) as) groups \<and>
    (case ps_targetDef (rr_plan rq) of None \<Rightarrow> False
     | Some g \<Rightarrow> list_all2 (\<lambda>d as. list_all (declared_by d) as \<and> (rd_type d = ''delete-glob'' \<or> length as \<le> 1)) (gen_restore g) groups)"
proof -
  obtain g es groups where m: "materialized_from h rq g es groups ms" using givesD[OF gives_materialize assms] by blast
  then show ?thesis using materialized_groups[OF m] by (intro exI[of _ groups]) (simp add: materialized_from_def)
qed

text \<open>
  Property C13. Every validation of the pinned generation is bound, in order, to a path that an action of
  the set writes: the target of the action, or a path below it when a directory is copied.
\<close>

theorem validations_are_of_written_paths:
  assumes "materialize dh h rq s = (Inr ms, s')"
  shows "(case ps_targetDef (rr_plan rq) of None \<Rightarrow> False | Some g \<Rightarrow> map fst (ms_validations ms) = gen_validate g) \<and>
    list_all (\<lambda>(d, p). list_ex (writes_to p) (ms_actions ms)) (ms_validations ms)"
proof -
  obtain g es groups where m: "materialized_from h rq g es groups ms" using givesD[OF gives_materialize assms] by blast
  then have m': "ps_targetDef (rr_plan rq) = Some g" "list_all2 (resolved_ok h) (gen_restore g) es" "ms_actions ms = concat groups"
    "list_all2 group_of es groups" "resolve_validations 0 (gen_validate g) es = Inr (ms_validations ms)"
    by (simp_all add: materialized_from_def)
  note v = resolve_validations_all[OF m'(5)]
  have "list_ex (writes_to p) (ms_actions ms)" if dp: "(d, p) \<in> set (ms_validations ms)" for d p
  proof -
    obtain e where e: "e \<in> set es" "maps_validations e" "map_validation_target (vd_path d) e = Inr (Some p)"
      using bspec[OF conjunct2[OF v] dp] unfolding prod.case by (elim bexE conjE)
    from e(1) obtain i where i: "i < length es" "e = es ! i" unfolding in_set_conv_nth by blast
    have "list_ex (writes_to p) (groups ! i)"
    proof (rule group_writes[OF _ _ e(2,3)])
      show "resolved_ok h (gen_restore g ! i) e"
        using list_all2_nthD2[OF m'(2) i(1)] i(2) by simp
      show "group_of e (groups ! i)" using list_all2_nthD[OF m'(4) i(1)] i(2) by simp
    qed
    then obtain a where "a \<in> set (groups ! i)" "writes_to p a" by (auto simp: list_ex_iff)
    moreover have "groups ! i \<in> set groups" using i list_all2_lengthD[OF m'(4)] by simp
    ultimately show ?thesis unfolding m'(3) list_ex_iff by auto
  qed
  then show ?thesis using v m'(1) by (auto simp: list_all_iff)
qed

section \<open>Nothing is changed\<close>

lemma only_reads_source [within]: "only_reads (read_source p)" "only_reads (read_optional_regular_file p)"
  unfolding read_optional_regular_file_def read_source_def
  by (auto intro!: within readonly split: sum.split errno.split)

lemma only_reads_content [within]:
  "only_reads (materialize_json_merge c p q)" "only_reads (materialize_ini_merge p q)" "only_reads (materialize_append p q)"
  unfolding materialize_json_merge_def materialize_ini_merge_def materialize_append_def by (intro within)+

lemma only_reads_glob_visit [within]: "only_reads (glob_visit cs p)"
  by (induction cs arbitrary: p) (auto simp: Let_def intro!: within readonly)

lemma only_reads_materialize_one [within]: "only_reads (materialize_one h ent index)"
  unfolding materialize_one_def write_content_def materialize_delete_glob_def expand_delete_glob_def check_match_def Let_def
  by (intro within readonly)

lemma only_reads_entries [within]: "only_reads (materialize_entries h index es)"
  by (induction es arbitrary: index) (auto intro!: within)

lemma only_reads_resolve_definition [within]: "only_reads (resolve_definition dh h root i d index)"
  unfolding resolve_definition_def resolve_target_def resolve_source_def resolve_glob_target_def Let_def
  by (intro within readonly)

lemma only_reads_resolve_definitions [within]: "only_reads (resolve_definitions dh h root i index ds)"
  by (induction ds arbitrary: index) (auto intro!: within)

lemma only_reads_materialize: "only_reads (materialize dh h rq)"
  unfolding materialize_def validate_request_def Let_def by (intro within readonly)

text \<open>
  Property C14. The preflight changes nothing: when no other process interferes the tree after it is the
  tree before it, whatever it returns and whichever calls fail.
\<close>

theorem materialize_changes_nothing:
  assumes "calm (tx_world s)"
  shows "w_tree (tx_world (snd (materialize dh h rq s))) = w_tree (tx_world s)"
proof -
  have "frozen (w_tree (tx_world s)) (tx_world s)" using assms by (simp add: frozen_def)
  then have "frozen (w_tree (tx_world s)) (tx_world (snd (materialize dh h rq s)))"
    using only_reads_materialize by (auto simp: within_def calm_step_def)
  then show ?thesis by (simp add: frozen_def)
qed

section \<open>The application is closed\<close>

lemma path_match_plain:
  assumes "path_match p other \<noteq> None"
  shows "path_match p name = Some False \<longleftrightarrow>
     (if plain_name name then \<not> glob_describes (the (glob_chunks p)) name else path_match p name = Some False)"
proof -
  obtain cs where "glob_chunks p = Some cs" using assms path_match_None[of p other] by (cases "glob_chunks p") simp_all
  then show ?thesis using path_match_describes by simp
qed

lemma observe_process_None:
  assumes "list_all (validate_process_pattern h) patterns"
  shows "observe_process h patterns n = None \<longleftrightarrow>
     portable_basename n = ''.'' \<or> portable_basename n = [] \<or>
     list_all (\<lambda>p. path_match (to_lower (rh_lower h) p) (to_lower (rh_lower h) (portable_basename n)) = Some False) patterns"
  by (auto simp: observe_process_def Let_def list_all_iff split: option.splits)

text \<open>
  Property C15. An application that must be closed is accepted exactly when patterns are given, all are
  well formed, and no observed process fits one: the stars of a pattern stand for any characters, the
  other items for one each, and case does not matter.
\<close>

theorem closed_application_is_not_running:
  "preflight_app_closure h True patterns (Some (Some observed)) = None \<longleftrightarrow>
     patterns \<noteq> [] \<and> list_all (validate_process_pattern h) patterns \<and>
     list_all (\<lambda>n. portable_basename n = ''.'' \<or> portable_basename n = [] \<or>
       list_all (\<lambda>p. let pattern = to_lower (rh_lower h) p; name = to_lower (rh_lower h) (portable_basename n) in
         if plain_name name then \<not> glob_describes (the (glob_chunks pattern)) name
         else path_match pattern name = Some False) patterns) observed"
proof -
  have eq: "(let pattern = to_lower (rh_lower h) p; name = to_lower (rh_lower h) (portable_basename n) in
         if plain_name name then \<not> glob_describes (the (glob_chunks pattern)) name
         else path_match pattern name = Some False) \<longleftrightarrow>
      path_match (to_lower (rh_lower h) p) (to_lower (rh_lower h) (portable_basename n)) = Some False"
    if "validate_process_pattern h p" for p n
    unfolding Let_def by (rule path_match_plain[symmetric]) (use that in \<open>auto simp: validate_process_pattern_def\<close>)
  show ?thesis
  proof (cases "list_all (validate_process_pattern h) patterns")
    case True
    have valid: "\<not> list_ex (\<lambda>p. \<not> validate_process_pattern h p) patterns" using True by (auto simp: list_all_iff list_ex_iff)
    have each: "list_all (\<lambda>p. let pattern = to_lower (rh_lower h) p; name = to_lower (rh_lower h) (portable_basename n) in
         if plain_name name then \<not> glob_describes (the (glob_chunks pattern)) name
         else path_match pattern name = Some False) patterns \<longleftrightarrow>
       list_all (\<lambda>p. path_match (to_lower (rh_lower h) p) (to_lower (rh_lower h) (portable_basename n)) = Some False) patterns" for n
      by (rule list.pred_cong[OF refl]) (use True eq in \<open>auto simp: list_all_iff\<close>)
    have "preflight_app_closure h True patterns (Some (Some observed)) = None \<longleftrightarrow>
        patterns \<noteq> [] \<and> list_all (\<lambda>n. observe_process h patterns n = None) observed"
      using valid by (simp add: preflight_app_closure_def list_all_iff)
    then show ?thesis unfolding each observe_process_None[OF True] using True by simp
  next
    case False
    then have "list_ex (\<lambda>p. \<not> validate_process_pattern h p) patterns" by (auto simp: list_all_iff list_ex_iff)
    then show ?thesis using False by (simp add: preflight_app_closure_def)
  qed
qed

end
