(* ===== verification/RestoreSample.thy ===== *)
theory RestoreSample
  imports RestoreOutcome "HOL-Library.Code_Target_Nat"
begin

text \<open>
  A small set restored by the executor, evaluated in the kernel: the directory \<open>/h/d\<close> is missing, a
  file is written below it, and the validation of the file succeeds or fails with the codec.
\<close>

lemma put_uint64_code [code]:
  "put_uint64 n = (if n < 256 then [CHR 0x00, CHR 0x00, CHR 0x00, CHR 0x00, CHR 0x00, CHR 0x00, CHR 0x00, char_of n] else map (\<lambda>i. char_of (n div 256 ^ i)) (rev [0..<8]))"
proof (cases "n < 256")
  case True
  have small: "char_of (n div 256 ^ k) = CHR 0x00" if "0 < k" for k
  proof -
    have "n < 256 ^ k" using True self_le_power[of "256 :: nat" k] that by linarith
    then show ?thesis by (simp add: char_of_def)
  qed
  have "rev [0..<8] = [7, 6, 5, 4, 3, 2, 1, 0 :: nat]" by (simp add: upt_rec)
  then have "put_uint64 n = map (\<lambda>i. char_of (n div 256 ^ i)) [7, 6, 5, 4, 3, 2, 1, 0]" by (simp only: put_uint64_def)
  also have "\<dots> = [CHR 0x00, CHR 0x00, CHR 0x00, CHR 0x00, CHR 0x00, CHR 0x00, CHR 0x00, char_of n]"
    by (simp only: list.map small power_0 div_by_1 zero_less_numeral zero_less_one)
  finally show ?thesis using True by simp
qed (simp add: put_uint64_def)

definition sample_sha :: "string \<Rightarrow> string" where
  "sample_sha s = replicate 63 CHR ''a'' @ (if even (length s) then ''0'' else ''1'')"

definition sample_action :: action where
  "sample_action = \<lparr>ac_kind = ActionWriteFile, ac_strategy = ''append'', ac_source = [], ac_target = ''/h/d/f'',
     ac_sourceIsDirectory = False, ac_exclude = [], ac_desiredContent = ''x'', ac_registryValue = None, ac_snapshotRequired = True\<rparr>"

definition sample_prepared :: prepared_set where
  "sample_prepared = \<lparr>ps_snapshotRoot = ''/t/snapshots'',
     ps_actions = [\<lparr>pa_action = sample_action, pa_prior = state_record (absent_state sample_sha) [],
       pa_desired = state_record (desired_write_state sample_sha (absent_state sample_sha) ''x'') [],
       pa_sourceDigest = [], pa_missingParents = [''/h/d'']\<rparr>],
     ps_validations = [(\<lparr>vd_type = ''json-parse'', vd_path = ''f'', vd_jsonPath = [], vd_section = [], vd_key = []\<rparr>, ''/h/d/f'')]\<rparr>"

definition sample_lineage :: journal_lineage where
  "sample_lineage = (let d = sample_sha [] in
     \<lparr>jl_runID = ''r'', jl_captureID = ''c'', jl_moduleID = ''m'', jl_configSetID = ''s'', jl_targetInstanceID = ''i'',
      jl_sourceGeneration = ''g'', jl_targetGeneration = ''g'', jl_migrationPath = [], jl_sourceGenerationFingerprint = d,
      jl_captureModuleRevision = d, jl_restoreModuleRevision = d\<rparr>)"

definition sample_disk :: intent_disk where
  "sample_disk = \<lparr>ii_format = intent_format, ii_version = journal_version, ii_state = JournalPending, ii_lineage = sample_lineage,
     ii_actions = map (\<lambda>(i, p). journal_action_of i p) (zip [0..<length (ps_actions sample_prepared)] (ps_actions sample_prepared)),
     ii_validations = map journal_validation_of (ps_validations sample_prepared),
     ii_validationStatus = ValidationPending, ii_rollbackOutcome = RollbackNotAttempted, ii_intentDigest = sample_sha ''identity''\<rparr>"

definition sample_marker :: "journal_state \<Rightarrow> validation_status \<Rightarrow> rollback_outcome \<Rightarrow> marker_disk" where
  "sample_marker s v r = \<lparr>mi_format = marker_format, mi_version = journal_version, mi_intentDigest = sample_sha ''identity'',
     mi_state = s, mi_validationStatus = v, mi_rollbackOutcome = r, mi_markerDigest = sample_sha ''marker''\<rparr>"

definition sample_host :: "json option \<Rightarrow> restore_host" where
  "sample_host parsed = \<lparr>rh_sha = sample_sha, rh_lower = id, rh_upper = id, rh_depth = 9, rh_registry = None,
     rh_journal = \<lparr>jc_encode_snapshot = (\<lambda>_. []), jc_decode_snapshot = (\<lambda>_. None),
       jc_encode_intent_identity = (\<lambda>_. ''identity''), jc_encode_intent = (\<lambda>_. ''intent''),
       jc_decode_intent = (\<lambda>s. if s = ''intent'' @ [LF] then Some sample_disk else None),
       jc_encode_marker_identity = (\<lambda>_. ''marker''), jc_encode_marker = (\<lambda>_. ''m''), jc_decode_marker = (\<lambda>_. None)\<rparr>,
     rh_json = \<lparr>jc_decode = (\<lambda>_. parsed), jc_encode = (\<lambda>_. None)\<rparr>\<rparr>"

definition sample_request :: tx_request where
  "sample_request = \<lparr>rq_prepared = Some sample_prepared,
     rq_intent = Some (intent_from_disk ''/t'' (intent_path ''/t'') sample_disk)\<rparr>"

definition sample_files :: tree where
  "sample_files = fmap_of_list [([''h''], Dir 493), ([''t''], Dir 493), ([''t'', ''journal''], Dir 493),
     ([''t'', ''journal'', ''intent.json''], File 1 384 (''intent'' @ [LF])),
     ([''t'', ''snapshots''], Dir 493), ([''t'', ''snapshots'', ''000000''], Dir 493)]"

definition sample_start :: "event list \<Rightarrow> tx" where
  "sample_start evs = \<lparr>tx_world = \<lparr>w_tree = sample_files, w_fresh = 2, w_random = [''7'', ''8'', ''9''], w_events = evs\<rparr>,
     tx_canceled = [], tx_registry = \<lparr>rg_values = fmempty, rg_calls = 0\<rparr>, tx_touched = [], tx_began = False, tx_observed = []\<rparr>"

definition ends_as :: "tx_status \<Rightarrow> (tx_error + tx_result) \<times> tx \<Rightarrow> bool" where
  "ends_as status r = (case fst r of Inl _ \<Rightarrow> False | Inr res \<Rightarrow> xr_status res = status \<and> xr_mutationBegan res)"

lemma sample_rolled_back: "ends_as TransactionRolledBack (execute_transaction (sample_host None) sample_request (sample_start []))"
  by code_simp

lemma sample_restored: "ends_as TransactionRestored (execute_transaction (sample_host (Some JNull)) sample_request (sample_start []))"
  by code_simp

lemma sample_facts: "wf_tree sample_files" "hex_digests (sample_host j)" "calm (tx_world (sample_start []))"
proof -
  show "wf_tree sample_files" unfolding sample_files_def by (rule wf_tree_of_list) code_simp
  have "list_all (\<lambda>c. is_digit c \<or> byte_in 97 102 c) (replicate 63 CHR ''a'' @ ''0'')"
    "list_all (\<lambda>c. is_digit c \<or> byte_in 97 102 c) (replicate 63 CHR ''a'' @ ''1'')" by code_simp+
  then show "hex_digests (sample_host j)"
    by (simp add: hex_digests_def sample_host_def sample_sha_def is_payload_hash_def)
  show "calm (tx_world (sample_start []))" by (simp add: sample_start_def calm_def byte_in_def)
qed

lemma ends_asE:
  assumes "ends_as status r"
  obtains res s' where "r = (Inr res, s')" "xr_status res = status" "xr_mutationBegan res"
  using assms by (cases r) (auto simp: ends_as_def split: sum.splits)

theorem rolled_back_targets_are_as_recorded_witness:
  "all_recorded sample_sha (w_tree (tx_world (snd (execute_transaction (sample_host None) sample_request (sample_start [])))))
     (actions_of_request sample_request)"
proof -
  obtain res s' where run: "execute_transaction (sample_host None) sample_request (sample_start []) = (Inr res, s')"
    "xr_status res = TransactionRolledBack"
    by (rule ends_asE[OF sample_rolled_back])
  have "all_recorded (rh_sha (sample_host None)) (w_tree (tx_world s')) (actions_of_request sample_request)"
    by (rule rolled_back_targets_are_as_recorded[OF sample_facts(3) _ sample_facts(2) run])
      (simp add: sample_start_def sample_facts(1))
  moreover have "rh_sha (sample_host None) = sample_sha" by (simp add: sample_host_def)
  ultimately show ?thesis by (simp add: run(1))
qed

theorem restored_targets_satisfy_validations_witness:
  "list_all (validation_holds (rh_json (sample_host (Some JNull)))
       (w_tree (tx_world (snd (execute_transaction (sample_host (Some JNull)) sample_request (sample_start []))))))
     (validations_of_request sample_request)"
proof -
  obtain res s' where run: "execute_transaction (sample_host (Some JNull)) sample_request (sample_start []) = (Inr res, s')"
    "xr_status res = TransactionRestored"
    by (rule ends_asE[OF sample_restored])
  have "list_all (validation_holds (rh_json (sample_host (Some JNull))) (w_tree (tx_world s'))) (validations_of_request sample_request)"
    by (rule restored_targets_satisfy_validations[OF sample_facts(3) _ sample_facts(2) run])
      (simp add: sample_start_def sample_facts(1))
  then show ?thesis by (simp add: run(1))
qed

theorem execution_outcome_is_consistent_witness:
  "True \<in> set (tx_touched (snd (execute_transaction (sample_host None) sample_request (sample_start []))))"
proof -
  obtain res s' where run: "execute_transaction (sample_host None) sample_request (sample_start []) = (Inr res, s')"
    "xr_mutationBegan res"
    by (rule ends_asE[OF sample_rolled_back])
  show ?thesis using execution_outcome_is_consistent[of "sample_host None" sample_request "sample_start []"] run by simp
qed

end
