(* ===== verification/RestoreMaterializeSample.thy ===== *)
theory RestoreMaterializeSample
  imports RestoreMaterializeProperties RestoreSample
begin

text \<open>
  A request materialised in the kernel: a staged file is copied, a staged INI file is merged into the one
  of the host, and the backup files of the host directory are deleted.
\<close>

definition copy_declaration :: restore_def where
  "copy_declaration = \<lparr>rd_type = ''copy'', rd_source = ''a'', rd_target = ''/h/a'', rd_pattern = [], rd_backup = False,
     rd_optional = False, rd_exclude = [], rd_key = [], rd_valueName = [], rd_valueType = [], rd_data = []\<rparr>"

definition sample_generation :: generation_def where
  "sample_generation = empty_generation\<lparr>gen_id := ''g'',
     gen_restore := [copy_declaration,
       copy_declaration\<lparr>rd_type := ''merge-ini'', rd_source := ''i'', rd_target := ''/h/i''\<rparr>,
       copy_declaration\<lparr>rd_type := ''delete-glob'', rd_source := [], rd_target := ''/h/d'', rd_pattern := ''*.bak''\<rparr>],
     gen_validate := [empty_validation\<lparr>vd_type := ''file-exists'', vd_path := ''i''\<rparr>]\<rparr>"

definition sample_target :: target_instance where
  "sample_target = \<lparr>ti_id = ''t'', ti_moduleID = ''m'', ti_detectorID = ''d'', ti_rawVersion = [], ti_normalizedVersion = [],
     ti_evidence = \<lparr>evd_type = [], evd_appID = [], evd_backend = [], evd_platform = [], evd_ref = [], evd_driver = []\<rparr>,
     ti_generation = ''g'', ti_fingerprint = [], ti_moduleRevision = [], ti_root = ''/h''\<rparr>"

definition sample_plan :: plan_set where
  "sample_plan = \<lparr>ps_source = \<lparr>sc_captureID = ''c'', sc_moduleID = ''m'', sc_configSetID = ''s'',
       sc_instance = \<lparr>si_id = [], si_detectorID = [], si_rawVersion = [], si_normalizedVersion = [],
         si_evidence = ti_evidence sample_target\<rparr>,
       sc_generation = ''g'', sc_fingerprint = [], sc_moduleRevision = [], sc_moduleSchemaVersion = 2, sc_payloadIntegrityFailed = False\<rparr>,
     ps_targets = [sample_target],
     ps_resolution = (sample_resolution ResolutionDirect StatusPlanned)\<lparr>cr_moduleID := ''m'', cr_configSetID := ''s'',
       cr_targetInstanceID := ''t'', cr_targetGeneration := ''g''\<rparr>,
     ps_targetDef = Some sample_generation, ps_edges = []\<rparr>"

definition sample_restore_request :: restore_request where
  "sample_restore_request = \<lparr>rr_stage = Some \<lparr>sg_root = ''/s'', sg_targetGeneration = ''g'', sg_migrationPath = []\<rparr>,
     rr_plan = sample_plan, rr_processPatterns = [], rr_processObserver = None\<rparr>"

definition sample_stage_files :: tree where
  "sample_stage_files = fmap_of_list [([''h''], Dir 493), ([''h'', ''d''], Dir 493), ([''h'', ''d'', ''x.bak''], File 4 420 []),
     ([''h'', ''d'', ''y''], File 5 420 []), ([''h'', ''i''], File 3 420 ''k=1''), ([''s''], Dir 448),
     ([''s'', ''a''], File 1 420 ''x''), ([''s'', ''i''], File 2 420 ''k=2'')]"

definition sample_stage_start :: tx where
  "sample_stage_start = \<lparr>tx_world = \<lparr>w_tree = sample_stage_files, w_fresh = 9, w_random = [], w_events = []\<rparr>,
     tx_canceled = [], tx_registry = \<lparr>rg_values = fmempty, rg_calls = 0\<rparr>, tx_touched = [], tx_began = False, tx_observed = []\<rparr>"

definition sample_discovery :: discovery_host where
  "sample_discovery = \<lparr>dh_glob = (\<lambda>_. None), dh_badPattern = (\<lambda>_. False), dh_expandEnv = id, dh_cwd = ''/''\<rparr>"

definition sample_outcome :: "(restore_error + materialized_set) \<times> tx" where
  "sample_outcome = materialize sample_discovery (sample_host None) sample_restore_request sample_stage_start"

definition sample_summary :: "(action_kind \<times> string \<times> string) list" where
  "sample_summary = (case fst sample_outcome of Inl _ \<Rightarrow> []
     | Inr ms \<Rightarrow> map (\<lambda>a. (ac_kind a, ac_target a, ac_desiredContent a)) (ms_actions ms))"

lemma sample_materialized:
  "sample_summary = [(ActionCopy, ''/h/a'', []), (ActionWriteFile, ''/h/i'', ''k=2''), (ActionDeleteFile, ''/h/d/x.bak'', [])]"
  by code_simp

lemma sample_outcome_ok: obtains ms s' where "materialize sample_discovery (sample_host None) sample_restore_request sample_stage_start = (Inr ms, s')"
    "map (\<lambda>a. (ac_kind a, ac_target a, ac_desiredContent a)) (ms_actions ms) =
       [(ActionCopy, ''/h/a'', []), (ActionWriteFile, ''/h/i'', ''k=2''), (ActionDeleteFile, ''/h/d/x.bak'', [])]"
  using sample_materialized by (cases sample_outcome) (auto simp: sample_summary_def sample_outcome_def split: sum.splits)

theorem materialized_actions_are_apart_witness:
  "\<exists>ms s' groups. materialize sample_discovery (sample_host None) sample_restore_request sample_stage_start = (Inr ms, s') \<and>
     length (ms_actions ms) = 3 \<and> ms_actions ms = concat groups \<and> length groups = 3 \<and>
     sorted_wrt (\<lambda>as bs. list_all (\<lambda>a. list_all (action_apart (sample_host None) a) bs) as) groups"
proof -
  obtain ms s' where m: "materialize sample_discovery (sample_host None) sample_restore_request sample_stage_start = (Inr ms, s')"
      "map (\<lambda>a. (ac_kind a, ac_target a, ac_desiredContent a)) (ms_actions ms) =
         [(ActionCopy, ''/h/a'', []), (ActionWriteFile, ''/h/i'', ''k=2''), (ActionDeleteFile, ''/h/d/x.bak'', [])]"
    by (rule sample_outcome_ok)
  have n: "length (ms_actions ms) = 3" using arg_cong[OF m(2), of length] by simp
  obtain groups where g: "ms_actions ms = concat groups"
      "sorted_wrt (\<lambda>as bs. list_all (\<lambda>a. list_all (action_apart (sample_host None) a) bs) as) groups"
      "case ps_targetDef (rr_plan sample_restore_request) of None \<Rightarrow> False
       | Some g \<Rightarrow> list_all2 (\<lambda>d as. list_all (declared_by d) as \<and> (rd_type d = ''delete-glob'' \<or> length as \<le> 1)) (gen_restore g) groups"
    using materialized_actions_are_apart[OF m(1)] by blast
  have "length groups = 3"
    using g(3) by (auto simp: sample_restore_request_def sample_plan_def sample_generation_def dest!: list_all2_lengthD)
  then show ?thesis using m(1) n g by blast
qed

theorem validations_are_of_written_paths_witness:
  "\<exists>ms s'. materialize sample_discovery (sample_host None) sample_restore_request sample_stage_start = (Inr ms, s') \<and>
     length (ms_validations ms) = 1 \<and> list_all (\<lambda>(d, p). list_ex (writes_to p) (ms_actions ms)) (ms_validations ms)"
proof -
  obtain ms s' where m: "materialize sample_discovery (sample_host None) sample_restore_request sample_stage_start = (Inr ms, s')"
    by (rule sample_outcome_ok)
  have v: "case ps_targetDef (rr_plan sample_restore_request) of None \<Rightarrow> False | Some g \<Rightarrow> map fst (ms_validations ms) = gen_validate g"
    "list_all (\<lambda>(d, p). list_ex (writes_to p) (ms_actions ms)) (ms_validations ms)"
    using validations_are_of_written_paths[OF m] by blast+
  have "length (map fst (ms_validations ms)) = 1"
    using v(1) by (simp add: sample_restore_request_def sample_plan_def sample_generation_def)
  then show ?thesis using m v(2) by auto
qed

theorem materialize_changes_nothing_witness:
  "w_tree (tx_world (snd (materialize sample_discovery (sample_host None) sample_restore_request sample_stage_start))) = sample_stage_files"
proof -
  have "calm (tx_world sample_stage_start)" by (simp add: sample_stage_start_def calm_def)
  then have "w_tree (tx_world (snd (materialize sample_discovery (sample_host None) sample_restore_request sample_stage_start))) =
      w_tree (tx_world sample_stage_start)" by (rule materialize_changes_nothing)
  then show ?thesis by (simp add: sample_stage_start_def)
qed

end
