(* ===== verification/StoreFormat.thy ===== *)
theory StoreFormat
  imports RestoreMarkers Instances "HOL-Library.Word"
begin

text \<open>
  The records of the restore store (\<open>internal/configrestore/store_format.go\<close>): the descriptor of a
  transaction, the registration of a legacy journal and the note that a member was reverted. Each
  carries the digest of its other fields, and a file is accepted only when it is byte for byte
  what the engine would write for the fields it decodes to. Mutation ordinals are 64-bit words, start
  times are instants. Of \<open>encoding/json\<close> and \<open>time\<close> the model takes the functions of \<open>store_codec\<close>.
\<close>

section \<open>Records\<close>

definition descriptor_format :: string where "descriptor_format = ''endstate.config-restore-transaction''"
definition legacy_member_format :: string where "legacy_member_format = ''endstate.config-restore-legacy-member''"
definition member_revert_format :: string where "member_revert_format = ''endstate.config-restore-member-revert''"
definition store_version :: int where "store_version = 1"

datatype store_member_kind = StoreMemberGeneration | StoreMemberLegacy

record descriptor_identity =
  di_format :: string
  di_version :: int
  di_transactionID :: string
  di_restoreRunID :: string
  di_runID :: string
  di_runStartedAt :: string
  di_mutationOrdinal :: "64 word"
  di_captureID :: string

record descriptor_disk = descriptor_identity +
  di_descriptorDigest :: string

record legacy_identity =
  li_format :: string
  li_version :: int
  li_memberID :: string
  li_restoreRunID :: string
  li_runID :: string
  li_runStartedAt :: string
  li_mutationOrdinal :: "64 word"
  li_journalPath :: string
  li_journalDigest :: string

record legacy_disk = legacy_identity +
  li_memberDigest :: string

record revert_identity =
  ri_format :: string
  ri_version :: int
  ri_kind :: store_member_kind
  ri_memberID :: string
  ri_sourceDigest :: string

record revert_disk = revert_identity +
  ri_revertDigest :: string

text \<open>
  \<open>json.Marshal\<close> on the records, and the decoder that disallows unknown fields with the
  end-of-input check (\<open>None\<close> is any error). A time is written in UTC with \<open>RFC3339Nano\<close>; reading one
  gives the instant and whether it was written in UTC.
\<close>

record store_codec =
  sc_encode_descriptor_identity :: "descriptor_identity \<Rightarrow> string"
  sc_encode_descriptor :: "descriptor_disk \<Rightarrow> string"
  sc_decode_descriptor :: "string \<Rightarrow> descriptor_disk option"
  sc_encode_legacy_identity :: "legacy_identity \<Rightarrow> string"
  sc_encode_legacy :: "legacy_disk \<Rightarrow> string"
  sc_decode_legacy :: "string \<Rightarrow> legacy_disk option"
  sc_encode_revert_identity :: "revert_identity \<Rightarrow> string"
  sc_encode_revert :: "revert_disk \<Rightarrow> string"
  sc_decode_revert :: "string \<Rightarrow> revert_disk option"
  sc_format_time :: "int \<Rightarrow> string"
  sc_parse_time :: "string \<Rightarrow> (int \<times> bool) option"

record store_host =
  sh_restore :: restore_host
  sh_codec :: store_codec

abbreviation sh_sha :: "store_host \<Rightarrow> string \<Rightarrow> string" where
  "sh_sha h \<equiv> rh_sha (sh_restore h)"

section \<open>Identities\<close>

definition is_opaque_store_id :: "string \<Rightarrow> bool" where
  "is_opaque_store_id s \<longleftrightarrow> length s = 32 \<and> list_all (\<lambda>c. is_digit c \<or> byte_in 97 102 c) s"

text \<open>\<open>newOpaqueStoreID\<close> on the sixteen bytes drawn: each is written with two digits.\<close>

definition opaque_store_id :: "string \<Rightarrow> string" where
  "opaque_store_id bytes = concat (map (\<lambda>c. [hex_char (byte c div 16), hex_char (byte c mod 16)]) bytes)"

definition canonical_start :: "store_codec \<Rightarrow> string \<Rightarrow> int option" where
  "canonical_start c s =
     (case sc_parse_time c s of None \<Rightarrow> None
      | Some (started, utc) \<Rightarrow> if \<not> utc \<or> sc_format_time c started \<noteq> s then None else Some started)"

text \<open>The path of a legacy journal: a clean absolute path, or a path below the logs directory.\<close>

definition valid_legacy_journal_identity :: "string \<Rightarrow> bool" where
  "valid_legacy_journal_identity v \<longleftrightarrow>
     (if v \<noteq> [] \<and> is_abs v \<and> clean_path v = v \<and> \<not> has_control v then True
      else if \<not> prefix ''$ENDSTATE_ROOT/logs/'' v \<or> has_control v \<or> BSLASH \<in> set v then False
      else let relative = drop (length ''$ENDSTATE_ROOT/'') v in
        relative \<noteq> [] \<and> relative \<noteq> ''.'' \<and> relative \<noteq> ''..'' \<and> \<not> is_abs relative \<and> clean_path relative = relative \<and>
        \<not> prefix ''../'' relative)"

section \<open>Descriptors of transactions\<close>

definition new_transaction_descriptor ::
    "store_host \<Rightarrow> string \<Rightarrow> string \<Rightarrow> string \<Rightarrow> int \<Rightarrow> 64 word \<Rightarrow> string \<Rightarrow> descriptor_disk \<times> string" where
  "new_transaction_descriptor h transactionID restoreRunID runID started ordinal captureID =
     (let identity = \<lparr>di_format = descriptor_format, di_version = store_version, di_transactionID = transactionID,
            di_restoreRunID = restoreRunID, di_runID = runID, di_runStartedAt = sc_format_time (sh_codec h) started,
            di_mutationOrdinal = ordinal, di_captureID = captureID\<rparr>;
          digest = sh_sha h (sc_encode_descriptor_identity (sh_codec h) identity);
          disk = descriptor_identity.extend identity (descriptor_disk.fields digest) in
      (disk, sc_encode_descriptor (sh_codec h) disk @ [LF]))"

definition decode_transaction_descriptor :: "store_host \<Rightarrow> string \<Rightarrow> (descriptor_disk \<times> string) option" where
  "decode_transaction_descriptor h data =
     (case sc_decode_descriptor (sh_codec h) data of None \<Rightarrow> None
      | Some disk \<Rightarrow>
          (case canonical_start (sh_codec h) (di_runStartedAt disk) of None \<Rightarrow> None
           | Some started \<Rightarrow>
               if di_format disk \<noteq> descriptor_format \<or> di_version disk \<noteq> store_version \<or>
                  \<not> is_opaque_store_id (di_transactionID disk) \<or> \<not> is_opaque_store_id (di_restoreRunID disk) \<or>
                  \<not> valid_identity (di_runID disk) \<or> \<not> valid_identity (di_captureID disk) then None
               else (case new_transaction_descriptor h (di_transactionID disk) (di_restoreRunID disk) (di_runID disk) started
                        (di_mutationOrdinal disk) (di_captureID disk) of
                   (expected, canonical) \<Rightarrow>
                     if di_descriptorDigest disk \<noteq> di_descriptorDigest expected \<or> data \<noteq> canonical then None
                     else Some (disk, canonical))))"

section \<open>Registered legacy journals\<close>

definition new_legacy_member ::
    "store_host \<Rightarrow> string \<Rightarrow> string \<Rightarrow> string \<Rightarrow> int \<Rightarrow> 64 word \<Rightarrow> string \<Rightarrow> string \<Rightarrow> (legacy_disk \<times> string) option" where
  "new_legacy_member h memberID restoreRunID runID started ordinal journalPath journalDigest =
     (if \<not> valid_legacy_journal_identity journalPath then None
      else let identity = \<lparr>li_format = legacy_member_format, li_version = store_version, li_memberID = memberID,
            li_restoreRunID = restoreRunID, li_runID = runID, li_runStartedAt = sc_format_time (sh_codec h) started,
            li_mutationOrdinal = ordinal, li_journalPath = journalPath, li_journalDigest = journalDigest\<rparr>;
          digest = sh_sha h (sc_encode_legacy_identity (sh_codec h) identity);
          disk = legacy_identity.extend identity (legacy_disk.fields digest) in
      Some (disk, sc_encode_legacy (sh_codec h) disk @ [LF]))"

definition decode_legacy_member :: "store_host \<Rightarrow> string \<Rightarrow> (legacy_disk \<times> int) option" where
  "decode_legacy_member h data =
     (case sc_decode_legacy (sh_codec h) data of None \<Rightarrow> None
      | Some disk \<Rightarrow>
          (case canonical_start (sh_codec h) (li_runStartedAt disk) of None \<Rightarrow> None
           | Some started \<Rightarrow>
               if li_format disk \<noteq> legacy_member_format \<or> li_version disk \<noteq> store_version \<or>
                  \<not> is_opaque_store_id (li_memberID disk) \<or> \<not> is_opaque_store_id (li_restoreRunID disk) \<or>
                  \<not> valid_identity (li_runID disk) \<or> \<not> valid_legacy_journal_identity (li_journalPath disk) \<or>
                  \<not> is_payload_hash (li_journalDigest disk) then None
               else (case new_legacy_member h (li_memberID disk) (li_restoreRunID disk) (li_runID disk) started
                        (li_mutationOrdinal disk) (li_journalPath disk) (li_journalDigest disk) of
                   None \<Rightarrow> None
                 | Some (expected, canonical) \<Rightarrow>
                     if li_memberDigest disk \<noteq> li_memberDigest expected \<or> data \<noteq> canonical then None
                     else Some (disk, started))))"

section \<open>Reverted members\<close>

definition new_member_revert :: "store_host \<Rightarrow> store_member_kind \<Rightarrow> string \<Rightarrow> string \<Rightarrow> revert_disk \<times> string" where
  "new_member_revert h kind memberID sourceDigest =
     (let identity = \<lparr>ri_format = member_revert_format, ri_version = store_version, ri_kind = kind,
            ri_memberID = memberID, ri_sourceDigest = sourceDigest\<rparr>;
          digest = sh_sha h (sc_encode_revert_identity (sh_codec h) identity);
          disk = revert_identity.extend identity (revert_disk.fields digest) in
      (disk, sc_encode_revert (sh_codec h) disk @ [LF]))"

definition decode_member_revert :: "store_host \<Rightarrow> string \<Rightarrow> (revert_disk \<times> string) option" where
  "decode_member_revert h data =
     (case sc_decode_revert (sh_codec h) data of None \<Rightarrow> None
      | Some disk \<Rightarrow>
          if ri_format disk \<noteq> member_revert_format \<or> ri_version disk \<noteq> store_version \<or>
             \<not> is_opaque_store_id (ri_memberID disk) \<or> \<not> is_payload_hash (ri_sourceDigest disk) then None
          else (case new_member_revert h (ri_kind disk) (ri_memberID disk) (ri_sourceDigest disk) of
              (expected, canonical) \<Rightarrow>
                if ri_revertDigest disk \<noteq> ri_revertDigest expected \<or> data \<noteq> canonical then None
                else Some (disk, canonical)))"

section \<open>Accepted records\<close>

lemma opaque_id_plain:
  assumes "is_opaque_store_id s"
  shows "plain_element s" "s \<noteq> ''..''" "length s = 32"
proof -
  have "CHR ''/'' \<notin> set s"
  proof
    assume "CHR ''/'' \<in> set s"
    then have "is_digit CHR ''/'' \<or> byte_in 97 102 CHR ''/''" using assms by (auto simp: is_opaque_store_id_def list_all_iff)
    then show False by (simp add: byte_in_def)
  qed
  moreover show "length s = 32" using assms by (simp add: is_opaque_store_id_def)
  ultimately show "plain_element s" "s \<noteq> ''..''" by (auto simp: plain_element_def)
qed

lemma hex_char_lower: "n < 16 \<Longrightarrow> is_digit (hex_char n) \<or> byte_in 97 102 (hex_char n)"
  by (simp add: hex_char_def byte_in_def)

lemma opaque_store_id_valid: "length bytes = 16 \<Longrightarrow> is_opaque_store_id (opaque_store_id bytes)"
proof -
  have "length (opaque_store_id bytes) = 2 * length bytes" by (induction bytes) (simp_all add: opaque_store_id_def)
  moreover have "list_all (\<lambda>c. is_digit c \<or> byte_in 97 102 c) (opaque_store_id bytes)"
  proof (induction bytes)
    case (Cons c cs)
    have "byte c div 16 < 16" "byte c mod 16 < 16" using byte_less_256[of c] by (auto simp: less_mult_imp_div_less)
    then show ?case using Cons hex_char_lower by (simp add: opaque_store_id_def)
  qed (simp add: opaque_store_id_def)
  ultimately show "length bytes = 16 \<Longrightarrow> ?thesis" by (simp add: is_opaque_store_id_def)
qed

lemma canonical_start_Some: "canonical_start c s = Some started \<Longrightarrow> sc_format_time c started = s"
  by (auto simp: canonical_start_def split: option.splits if_splits)

lemma decoded_descriptor:
  assumes "decode_transaction_descriptor h data = Some (disk, canonical)"
  obtains started where "canonical_start (sh_codec h) (di_runStartedAt disk) = Some started"
    and "new_transaction_descriptor h (di_transactionID disk) (di_restoreRunID disk) (di_runID disk) started
      (di_mutationOrdinal disk) (di_captureID disk) = (disk, data)"
    and "canonical = data" "is_opaque_store_id (di_transactionID disk)" "is_opaque_store_id (di_restoreRunID disk)"
    and "valid_identity (di_runID disk)" "valid_identity (di_captureID disk)"
proof -
  have d: "case canonical_start (sh_codec h) (di_runStartedAt disk) of None \<Rightarrow> False
     | Some started \<Rightarrow> new_transaction_descriptor h (di_transactionID disk) (di_restoreRunID disk) (di_runID disk) started
      (di_mutationOrdinal disk) (di_captureID disk) = (disk, data) \<and> canonical = data \<and>
      is_opaque_store_id (di_transactionID disk) \<and> is_opaque_store_id (di_restoreRunID disk) \<and>
      valid_identity (di_runID disk) \<and> valid_identity (di_captureID disk)"
    using assms
    by (auto simp: decode_transaction_descriptor_def new_transaction_descriptor_def Let_def descriptor_identity.defs
        descriptor_disk.defs dest!: canonical_start_Some split: option.splits if_splits)
  show thesis
  proof (cases "canonical_start (sh_codec h) (di_runStartedAt disk)")
    case (Some started)
    show thesis by (rule that[of started]) (use d Some in simp_all)
  qed (use d in simp)
qed

lemma decoded_legacy:
  assumes "decode_legacy_member h data = Some (disk, started)"
  shows "new_legacy_member h (li_memberID disk) (li_restoreRunID disk) (li_runID disk) started
      (li_mutationOrdinal disk) (li_journalPath disk) (li_journalDigest disk) = Some (disk, data)"
    and "is_opaque_store_id (li_memberID disk)" "is_opaque_store_id (li_restoreRunID disk)"
    and "valid_legacy_journal_identity (li_journalPath disk)"
  using assms
  by (auto simp: decode_legacy_member_def new_legacy_member_def Let_def legacy_identity.defs legacy_disk.defs
      dest!: canonical_start_Some split: option.splits if_splits)

lemma decoded_revert:
  assumes "decode_member_revert h data = Some (disk, canonical)"
  shows "new_member_revert h (ri_kind disk) (ri_memberID disk) (ri_sourceDigest disk) = (disk, data)" "canonical = data"
    and "is_opaque_store_id (ri_memberID disk)" "is_payload_hash (ri_sourceDigest disk)"
  using assms
  by (auto simp: decode_member_revert_def new_member_revert_def Let_def revert_identity.defs revert_disk.defs
      split: option.splits if_splits)

text \<open>
  Property C11. A file the store accepts is exactly what the engine writes for the fields it reads
  from it, digest included, and these fields have the shape the engine gives them: opaque
  identities of 32 lower-case hexadecimal digits, a run and a capture that are valid identities.
\<close>

theorem accepted_store_records_are_canonical:
  "(case decode_transaction_descriptor h data of None \<Rightarrow> True
     | Some (disk, _) \<Rightarrow> is_opaque_store_id (di_transactionID disk) \<and> is_opaque_store_id (di_restoreRunID disk) \<and>
         valid_identity (di_runID disk) \<and> valid_identity (di_captureID disk) \<and>
         (\<exists>started. new_transaction_descriptor h (di_transactionID disk) (di_restoreRunID disk) (di_runID disk) started
            (di_mutationOrdinal disk) (di_captureID disk) = (disk, data))) \<and>
   (case decode_legacy_member h data of None \<Rightarrow> True
     | Some (disk, started) \<Rightarrow> is_opaque_store_id (li_memberID disk) \<and> is_opaque_store_id (li_restoreRunID disk) \<and>
         new_legacy_member h (li_memberID disk) (li_restoreRunID disk) (li_runID disk) started
           (li_mutationOrdinal disk) (li_journalPath disk) (li_journalDigest disk) = Some (disk, data)) \<and>
   (case decode_member_revert h data of None \<Rightarrow> True
     | Some (disk, _) \<Rightarrow> is_opaque_store_id (ri_memberID disk) \<and> is_payload_hash (ri_sourceDigest disk) \<and>
         new_member_revert h (ri_kind disk) (ri_memberID disk) (ri_sourceDigest disk) = (disk, data))"
proof (intro conjI)
  show "case decode_transaction_descriptor h data of None \<Rightarrow> True
     | Some (disk, _) \<Rightarrow> is_opaque_store_id (di_transactionID disk) \<and> is_opaque_store_id (di_restoreRunID disk) \<and>
         valid_identity (di_runID disk) \<and> valid_identity (di_captureID disk) \<and>
         (\<exists>started. new_transaction_descriptor h (di_transactionID disk) (di_restoreRunID disk) (di_runID disk) started
            (di_mutationOrdinal disk) (di_captureID disk) = (disk, data))"
    by (auto split: option.split elim!: decoded_descriptor)
qed (auto split: option.split simp: decoded_legacy decoded_revert)

end
