(* ===== verification/RestoreStore.thy ===== *)
theory RestoreStore
  imports StoreFormat RestoreTransaction
begin

text \<open>
  The live store of restore transactions (\<open>internal/configrestore\<close>: live.go, store_runs.go): the guard
  that holds the mutation lock, the transaction roots it allocates and discards, the members of a
  restore run (transactions of the engine and registered legacy journals), the runs that can still
  be reverted, and the revert itself. There is no host boundary. The random bytes of an identity,
  the clock and the lock are arguments: they are calls of other packages.
\<close>

section \<open>The guard\<close>

record guard =
  gu_storeRoot :: string
  gu_transactions :: string
  gu_legacyMembers :: string
  gu_legacyReverts :: string
  gu_legacyRevertWork :: string
  gu_runID :: string
  gu_restoreRunID :: string
  gu_runStartedAt :: int
  gu_nextOrdinal :: "64 word"
  gu_locked :: bool
  gu_closed :: bool

definition require_lease :: "guard \<Rightarrow> unit action_run" where
  "require_lease g = io_when (gu_closed g \<or> \<not> gu_locked g) TxClosed"

record lock_service =
  lk_acquire :: "string \<Rightarrow> bool action_run"
  lk_release :: "unit action_run"

definition close_guard :: "lock_service \<Rightarrow> guard \<Rightarrow> guard action_run" where
  "close_guard lk g =
     (if gu_closed g then io_return g
      else io_then (lk_release lk) (io_return (g\<lparr>gu_locked := False, gu_closed := True\<rparr>)))"

definition validate_mutation_lock_path :: "string \<Rightarrow> bool \<Rightarrow> unit action_run" where
  "validate_mutation_lock_path p allowMissing =
     io_then (reject_existing_target_links p)
     (io_bind (tx_try (lstat p)) (\<lambda>r.
       case r of
         Inl e \<Rightarrow> if e = ENOENT \<and> allowMissing then io_return () else io_fail (TxOs e)
       | Inr info \<Rightarrow> io_when (\<not> is_regular info \<or> is_link info) TxUnsafeType))"

definition ensure_store_directory :: "string \<Rightarrow> unit action_run" where
  "ensure_store_directory p =
     io_then (reject_existing_target_links p)
     (io_bind (tx_try (mkdir p 448)) (\<lambda>made.
        case made of
          Inl e \<Rightarrow>
            if e \<noteq> EEXIST then io_fail (TxOs e)
            else io_bind (tx_try (lstat p)) (\<lambda>r. case r of Inl _ \<Rightarrow> io_fail TxUnsafeType
              | Inr info \<Rightarrow> io_when (\<not> is_dir info \<or> is_link info) TxUnsafeType)
        | Inr _ \<Rightarrow>
            io_bind (tx_try (lstat p)) (\<lambda>r. case r of Inl _ \<Rightarrow> io_fail TxUnsafeType
              | Inr info \<Rightarrow>
                  if \<not> is_dir info \<or> is_link info then io_fail TxUnsafeType
                  else io_then (tx_os (sync_directory p))
                    (if dir_name p \<noteq> p then tx_os (sync_directory (dir_name p)) else io_return ()))))"

definition ensure_store_directories :: "string list \<Rightarrow> unit action_run" where
  "ensure_store_directories = io_each ensure_store_directory"

section \<open>Publishing a record\<close>

definition read_store_file :: "string \<Rightarrow> string action_run" where
  "read_store_file p = io_bind (tx_lift (io_map_error TxRead (read_regular_file p))) (\<lambda>(data, _). io_return data)"

definition write_store_record :: "string \<Rightarrow> string \<Rightarrow> string \<Rightarrow> unit action_run" where
  "write_store_record temporary destination data =
     io_then (tx_os (chmod temporary 384))
     (io_then (tx_os (write_file temporary data))
     (io_then (tx_os (sync_file temporary))
     (io_bind (publish_no_replace temporary destination) (\<lambda>(publication, publishErr).
        case publishErr of
          Some e \<Rightarrow> io_fail e
        | None \<Rightarrow> if publication \<noteq> PublicationDurable then io_fail TxAmbiguous else io_return ()))))"

definition publish_store_record :: "string \<Rightarrow> string \<Rightarrow> string \<Rightarrow> unit action_run" where
  "publish_store_record directory name data =
     io_then (reject_existing_target_links directory)
     (io_bind (tx_os (create_temp_suffix directory ''.store-record-'' ''.tmp'')) (\<lambda>temporary.
        io_finally (write_store_record temporary (join_path [directory, name]) data) (tx_os (remove temporary))))"

text \<open>When publishing fails, a file that already holds the same bytes is made durable and kept.\<close>

definition reconcile_store_record :: "tx_error \<Rightarrow> string \<Rightarrow> string \<Rightarrow> string \<Rightarrow> unit action_run" where
  "reconcile_store_record publishErr directory p data =
     io_bind (tx_attempt (read_store_file p)) (\<lambda>r.
       case r of
         Inl e \<Rightarrow> io_fail (TxJoined [publishErr, e])
       | Inr existing \<Rightarrow>
           if existing \<noteq> data then io_fail (TxJoined [publishErr])
           else io_then (io_map_error (\<lambda>e. TxJoined [publishErr, e]) (tx_os (sync_durable_file p)))
             (io_then (io_map_error (\<lambda>e. TxJoined [publishErr, e]) (tx_os (sync_directory directory)))
             (io_bind (tx_attempt (read_store_file p)) (\<lambda>again.
               case again of
                 Inl e \<Rightarrow> io_fail (TxJoined [publishErr, e, TxStore])
               | Inr now \<Rightarrow> if now \<noteq> data then io_fail (TxJoined [publishErr, TxStore]) else io_return ()))))"

definition publish_immutable_store_record :: "string \<Rightarrow> string \<Rightarrow> string \<Rightarrow> unit action_run" where
  "publish_immutable_store_record directory name data =
     io_bind (tx_attempt (publish_store_record directory name data)) (\<lambda>r.
       case r of
         Inr _ \<Rightarrow> io_return ()
       | Inl publishErr \<Rightarrow> reconcile_store_record publishErr directory (join_path [directory, name]) data)"

section \<open>Transaction roots\<close>

text \<open>The arguments are the bytes drawn for each attempt; none left means that drawing failed.\<close>

fun create_root_attempts ::
    "store_host \<Rightarrow> guard \<Rightarrow> string \<Rightarrow> nat \<Rightarrow> string list \<Rightarrow> (string \<times> guard) action_run" where
  "create_root_attempts h g captureID 0 draws = io_fail TxStore"
| "create_root_attempts h g captureID (Suc attempts) [] = io_fail TxInput"
| "create_root_attempts h g captureID (Suc attempts) (bytes # draws) =
     (let transactionID = opaque_store_id bytes;
          root = join_path [gu_transactions g, transactionID] in
      io_bind (tx_try (mkdir root 448)) (\<lambda>r.
        case r of
          Inl e \<Rightarrow> if e = EEXIST then create_root_attempts h g captureID attempts draws else io_fail (TxOs e)
        | Inr _ \<Rightarrow>
            io_then (tx_os (sync_directory root))
            (io_then (tx_os (sync_directory (gu_transactions g)))
            (io_then (publish_store_record root ''transaction.json''
               (snd (new_transaction_descriptor h transactionID (gu_restoreRunID g) (gu_runID g) (gu_runStartedAt g)
                  (gu_nextOrdinal g) captureID)))
              (io_return (root, g\<lparr>gu_nextOrdinal := gu_nextOrdinal g + 1\<rparr>))))))"

definition create_transaction_root :: "store_host \<Rightarrow> guard \<Rightarrow> string \<Rightarrow> string list \<Rightarrow> (string \<times> guard) action_run" where
  "create_transaction_root h g captureID draws =
     io_then (require_lease g)
     (if \<not> valid_identity captureID then io_fail TxInput else create_root_attempts h g captureID 8 draws)"

definition read_stored_descriptor :: "store_host \<Rightarrow> string \<Rightarrow> (descriptor_disk \<times> int) action_run" where
  "read_stored_descriptor h root =
     io_bind (read_store_file (join_path [root, ''transaction.json''])) (\<lambda>data.
       case decode_transaction_descriptor h data of
         None \<Rightarrow> io_fail TxStore
       | Some (descriptor, _) \<Rightarrow>
           if di_transactionID descriptor \<noteq> Instances.base_name root then io_fail TxStore
           else (case sc_parse_time (sh_codec h) (di_runStartedAt descriptor) of
               None \<Rightarrow> io_fail TxStore
             | Some (started, _) \<Rightarrow> io_return (descriptor, started)))"

definition discard_transaction_root :: "store_host \<Rightarrow> guard \<Rightarrow> string \<Rightarrow> unit action_run" where
  "discard_transaction_root h g root =
     io_then (require_lease g)
     (if root = [] \<or> \<not> is_abs root \<or> clean_path root \<noteq> root \<or> dir_name root \<noteq> gu_transactions g \<or>
         \<not> is_opaque_store_id (Instances.base_name root) then io_fail TxInput
      else io_then (reject_existing_target_links root)
        (io_bind (tx_try (lstat (intent_path root))) (\<lambda>r.
          case r of
            Inr _ \<Rightarrow> io_return ()
          | Inl e \<Rightarrow>
              if e \<noteq> ENOENT then io_fail (TxOs e)
              else io_bind (read_stored_descriptor h root) (\<lambda>_.
                without_cancel (remove_safe_path (sh_restore h) root)))))"

section \<open>Members\<close>

record store_member =
  sm_kind :: store_member_kind
  sm_ordinal :: "64 word"
  sm_captureID :: string
  sm_legacyPath :: string
  sm_storeRoot :: string
  sm_restoreRun :: string
  sm_memberID :: string
  sm_sourceDigest :: string

definition legacy_handle :: "string \<Rightarrow> legacy_disk \<Rightarrow> store_member" where
  "legacy_handle storeRoot disk =
     \<lparr>sm_kind = StoreMemberLegacy, sm_ordinal = li_mutationOrdinal disk, sm_captureID = [], sm_legacyPath = li_journalPath disk,
      sm_storeRoot = storeRoot, sm_restoreRun = li_restoreRunID disk, sm_memberID = li_memberID disk,
      sm_sourceDigest = li_memberDigest disk\<rparr>"

definition valid_member :: "guard \<Rightarrow> store_member_kind \<Rightarrow> store_member option \<Rightarrow> bool" where
  "valid_member g kind member =
     (case member of None \<Rightarrow> False
      | Some m \<Rightarrow> sm_kind m = kind \<and> sm_storeRoot m = gu_storeRoot g \<and> is_opaque_store_id (sm_memberID m) \<and>
          is_opaque_store_id (sm_restoreRun m) \<and> is_payload_hash (sm_sourceDigest m))"

definition record_path :: "string \<Rightarrow> string \<Rightarrow> string" where
  "record_path directory memberID = join_path [directory, memberID @ ''.json'']"

definition member_reverted :: "store_host \<Rightarrow> string \<Rightarrow> store_member_kind \<Rightarrow> string \<Rightarrow> string \<Rightarrow> bool action_run" where
  "member_reverted h p kind memberID sourceDigest =
     io_bind (tx_attempt (read_store_file p)) (\<lambda>r.
       case r of
         Inl e \<Rightarrow> if not_exist e then io_return False else io_fail e
       | Inr data \<Rightarrow>
           (case decode_member_revert h data of
              None \<Rightarrow> io_fail TxStore
            | Some (disk, _) \<Rightarrow>
                if ri_kind disk \<noteq> kind \<or> ri_memberID disk \<noteq> memberID \<or> ri_sourceDigest disk \<noteq> sourceDigest
                then io_fail TxStore else io_return True))"

definition decode_legacy_run :: "store_host \<Rightarrow> string \<Rightarrow> (legacy_disk \<times> int) action_run" where
  "decode_legacy_run h data = (case decode_legacy_member h data of None \<Rightarrow> io_fail TxStore | Some r \<Rightarrow> io_return r)"

definition load_legacy_member :: "store_host \<Rightarrow> guard \<Rightarrow> store_member option \<Rightarrow> legacy_disk action_run" where
  "load_legacy_member h g member =
     (if \<not> valid_member g StoreMemberLegacy member then io_fail TxInput
      else let m = the member in
        io_bind (read_store_file (record_path (gu_legacyMembers g) (sm_memberID m))) (\<lambda>data.
        io_bind (decode_legacy_run h data) (\<lambda>(disk, _).
          if li_memberID disk \<noteq> sm_memberID m \<or> li_restoreRunID disk \<noteq> sm_restoreRun m \<or>
             li_mutationOrdinal disk \<noteq> sm_ordinal m \<or> li_memberDigest disk \<noteq> sm_sourceDigest m \<or>
             li_journalPath disk \<noteq> sm_legacyPath m then io_fail TxStore
          else io_return disk)))"

definition load_legacy_member_by_id :: "store_host \<Rightarrow> guard \<Rightarrow> string \<Rightarrow> legacy_disk action_run" where
  "load_legacy_member_by_id h g memberID =
     (if \<not> is_opaque_store_id memberID then io_fail TxInput
      else io_bind (read_store_file (record_path (gu_legacyMembers g) memberID)) (\<lambda>data.
        io_bind (decode_legacy_run h data) (\<lambda>(disk, _).
          if li_memberID disk \<noteq> memberID then io_fail TxStore else io_return disk)))"

section \<open>Legacy journals\<close>

definition is_store_publication_temp :: "string \<Rightarrow> bool" where
  "is_store_publication_temp name \<longleftrightarrow>
     length ''.store-record-'' + length ''.tmp'' < length name \<and> prefix ''.store-record-'' name \<and> suffix ''.tmp'' name \<and>
     list_all is_digit (drop (length ''.store-record-'') (take (length name - length ''.tmp'') name))"

definition reconcile_store_publication_temps :: "string \<Rightarrow> unit action_run" where
  "reconcile_store_publication_temps directory =
     io_bind (tx_os (read_dir directory)) (\<lambda>names.
       let temps = filter is_store_publication_temp names in
       io_then (io_each (\<lambda>name. let p = join_path [directory, name] in
           io_then (reject_existing_target_links p)
           (io_bind (tx_os (lstat p)) (\<lambda>info.
             if \<not> is_regular info \<or> is_link info then io_fail TxUnsafeType else tx_os (remove p)))) temps)
         (if temps \<noteq> [] then tx_os (sync_directory directory) else io_return ()))"

text \<open>Directories and names with another extension are passed over.\<close>

fun find_legacy_in :: "store_host \<Rightarrow> guard \<Rightarrow> string \<Rightarrow> string \<Rightarrow> (string \<times> node) list \<Rightarrow> store_member option action_run" where
  "find_legacy_in h g journalPath journalDigest [] = io_return None"
| "find_legacy_in h g journalPath journalDigest ((name, n) # es) =
     (if is_dir n \<or> \<not> suffix ''.json'' name then find_legacy_in h g journalPath journalDigest es
      else io_bind (read_store_file (join_path [gu_legacyMembers g, name])) (\<lambda>data.
        io_bind (decode_legacy_run h data) (\<lambda>(disk, _).
          if li_journalPath disk = journalPath \<and> li_journalDigest disk = journalDigest
          then io_return (Some (legacy_handle (gu_storeRoot g) disk))
          else find_legacy_in h g journalPath journalDigest es)))"

definition find_legacy_journal :: "store_host \<Rightarrow> guard \<Rightarrow> string \<Rightarrow> string \<Rightarrow> store_member option action_run" where
  "find_legacy_journal h g journalPath journalDigest =
     io_then (reconcile_store_publication_temps (gu_legacyMembers g))
     (io_bind (tx_os (read_dir_nodes (gu_legacyMembers g))) (find_legacy_in h g journalPath journalDigest))"

definition read_legacy_journal :: "store_host \<Rightarrow> string \<Rightarrow> (string \<times> string) action_run" where
  "read_legacy_journal h p =
     (if p = [] \<or> \<not> is_abs p \<or> clean_path p \<noteq> p then io_fail TxInput
      else io_then (reject_existing_target_links p)
        (io_bind (read_store_file p) (\<lambda>data. io_return (data, sh_sha h data))))"

text \<open>\<open>draw\<close> holds the bytes of the new identity, \<open>None\<close> when drawing them fails.\<close>

definition register_legacy_journal ::
    "store_host \<Rightarrow> guard \<Rightarrow> string \<Rightarrow> string option \<Rightarrow> (store_member \<times> guard) action_run" where
  "register_legacy_journal h g p draw =
     io_then (require_lease g)
     (io_bind (read_legacy_journal h p) (\<lambda>(data, digest).
      io_bind (find_legacy_journal h g p digest) (\<lambda>existing.
        case existing of
          Some m \<Rightarrow> io_return (m, g)
        | None \<Rightarrow>
            (case draw of None \<Rightarrow> io_fail TxInput
             | Some bytes \<Rightarrow>
                 (case new_legacy_member h (opaque_store_id bytes) (gu_restoreRunID g) (gu_runID g) (gu_runStartedAt g)
                     (gu_nextOrdinal g) p digest of
                    None \<Rightarrow> io_fail TxStore
                  | Some (disk, encoded) \<Rightarrow>
                      io_then (publish_immutable_store_record (gu_legacyMembers g) (opaque_store_id bytes @ ''.json'') encoded)
                        (io_return (legacy_handle (gu_storeRoot g) disk, g\<lparr>gu_nextOrdinal := gu_nextOrdinal g + 1\<rparr>)))))))"

text \<open>A file with the digest the member was registered with.\<close>

definition read_registered_journal :: "store_host \<Rightarrow> legacy_disk \<Rightarrow> string action_run" where
  "read_registered_journal h disk =
     io_bind (read_store_file (li_journalPath disk)) (\<lambda>data.
       if sh_sha h data \<noteq> li_journalDigest disk then io_fail TxStore else io_return data)"

definition legacy_reverted :: "store_host \<Rightarrow> guard \<Rightarrow> string \<Rightarrow> string \<Rightarrow> bool action_run" where
  "legacy_reverted h g memberID memberDigest =
     member_reverted h (record_path (gu_legacyReverts g) memberID) StoreMemberLegacy memberID memberDigest"

definition prepare_legacy_member_revert ::
    "store_host \<Rightarrow> guard \<Rightarrow> store_member option \<Rightarrow> (string \<times> string) action_run" where
  "prepare_legacy_member_revert h g member =
     io_then check_context
     (io_then (require_lease g)
     (io_bind (load_legacy_member h g member) (\<lambda>disk.
      io_bind (legacy_reverted h g (li_memberID disk) (li_memberDigest disk)) (\<lambda>reverted.
        if reverted then io_fail TxReverted
        else io_bind (read_registered_journal h disk) (\<lambda>journalData.
          let root = join_path [gu_legacyRevertWork g, li_memberID disk] in
          io_then (reject_existing_target_links root)
          (io_bind (tx_try (mkdir root 448)) (\<lambda>made.
            case made of
              Inl e \<Rightarrow>
                if e \<noteq> EEXIST then io_fail (TxOs e)
                else io_bind (tx_try (lstat root)) (\<lambda>r. case r of Inl _ \<Rightarrow> io_fail TxUnsafeType
                  | Inr info \<Rightarrow>
                      if \<not> is_dir info \<or> is_link info then io_fail TxUnsafeType
                      else io_then (tx_os (sync_directory root)) (io_return (root, journalData)))
            | Inr _ \<Rightarrow>
                io_bind (tx_try (lstat root)) (\<lambda>r. case r of Inl _ \<Rightarrow> io_fail TxUnsafeType
                  | Inr info \<Rightarrow>
                      if \<not> is_dir info \<or> is_link info then io_fail TxUnsafeType
                      else io_then (tx_os (sync_directory root))
                        (io_then (tx_os (sync_directory (gu_legacyRevertWork g))) (io_return (root, journalData)))))))))))"

definition legacy_journal_consumed :: "store_host \<Rightarrow> guard \<Rightarrow> string \<Rightarrow> bool action_run" where
  "legacy_journal_consumed h g p =
     io_then check_context
     (io_then (require_lease g)
     (io_bind (read_legacy_journal h p) (\<lambda>(data, digest).
      io_bind (find_legacy_journal h g p digest) (\<lambda>member.
        case member of None \<Rightarrow> io_return False
        | Some m \<Rightarrow> legacy_reverted h g (sm_memberID m) (sm_sourceDigest m)))))"

definition retire_legacy_revert_work :: "store_host \<Rightarrow> guard \<Rightarrow> string \<Rightarrow> unit action_run" where
  "retire_legacy_revert_work h g memberID =
     (if \<not> is_opaque_store_id memberID then io_fail TxInput
      else without_cancel (remove_safe_path (sh_restore h) (join_path [gu_legacyRevertWork g, memberID])))"

definition mark_legacy_member_reverted :: "store_host \<Rightarrow> guard \<Rightarrow> store_member option \<Rightarrow> unit action_run" where
  "mark_legacy_member_reverted h g member =
     io_then check_context
     (io_then (require_lease g)
     (io_bind (load_legacy_member h g member) (\<lambda>disk.
      io_bind (legacy_reverted h g (li_memberID disk) (li_memberDigest disk)) (\<lambda>reverted.
        if reverted then retire_legacy_revert_work h g (li_memberID disk)
        else io_bind (read_registered_journal h disk) (\<lambda>_.
          io_then (publish_immutable_store_record (gu_legacyReverts g) (li_memberID disk @ ''.json'')
             (snd (new_member_revert h StoreMemberLegacy (li_memberID disk) (li_memberDigest disk))))
            (retire_legacy_revert_work h g (li_memberID disk)))))))"

section \<open>Active runs\<close>

record store_run =
  sr_id :: string
  sr_runID :: string
  sr_started :: int
  sr_members :: "store_member list"

text \<open>The runs in the order they are met, and the ordinals taken in each.\<close>

type_synonym store_runs = "store_run list \<times> (string \<times> 64 word) list"

definition add_member :: "string \<Rightarrow> string \<Rightarrow> int \<Rightarrow> store_member \<Rightarrow> store_runs \<Rightarrow> store_runs option" where
  "add_member restoreRunID runID started member acc =
     (case acc of (runs, ordinals) \<Rightarrow>
        let ordinal = (restoreRunID, sm_ordinal member) in
        case List.find (\<lambda>r. sr_id r = restoreRunID) runs of
          None \<Rightarrow>
            if ordinal \<in> set ordinals then None
            else Some (runs @ [\<lparr>sr_id = restoreRunID, sr_runID = runID, sr_started = started, sr_members = [member]\<rparr>], ordinal # ordinals)
        | Some run \<Rightarrow>
            if sr_runID run \<noteq> runID \<or> sr_started run \<noteq> started \<or> ordinal \<in> set ordinals then None
            else Some (map (\<lambda>r. if sr_id r = restoreRunID then r\<lparr>sr_members := sr_members r @ [member]\<rparr> else r) runs,
              ordinal # ordinals))"

definition add_member_run :: "(string \<times> string \<times> int \<times> store_member) option \<Rightarrow> store_runs \<Rightarrow> store_runs action_run" where
  "add_member_run found acc =
     (case found of None \<Rightarrow> io_return acc
      | Some (restoreRunID, runID, started, member) \<Rightarrow>
          (case add_member restoreRunID runID started member acc of None \<Rightarrow> io_fail TxStore | Some acc' \<Rightarrow> io_return acc'))"

definition lineage_matches :: "descriptor_disk \<Rightarrow> journal_intent \<Rightarrow> bool" where
  "lineage_matches d intent \<longleftrightarrow> di_runID d = jl_runID (ji_lineage intent) \<and> di_captureID d = jl_captureID (ji_lineage intent)"

definition terminal_path :: "string \<Rightarrow> journal_intent \<Rightarrow> string" where
  "terminal_path root intent = journal_marker_path (journal_directory root) (ji_digest intent)"

definition generation_member ::
    "store_host \<Rightarrow> guard \<Rightarrow> string \<times> node \<Rightarrow> (string \<times> string \<times> int \<times> store_member) option action_run" where
  "generation_member h g e =
     (case e of (name, n) \<Rightarrow> let root = join_path [gu_transactions g, name] in
      io_then check_context
      (if \<not> is_dir n \<or> \<not> is_opaque_store_id name then io_fail TxStore
       else io_bind (tx_try (lstat (intent_path root))) (\<lambda>r.
         case r of
           Inl x \<Rightarrow> if x = ENOENT then io_return None else io_fail (TxOs x)
         | Inr _ \<Rightarrow>
             io_bind (read_stored_descriptor h root) (\<lambda>(descriptor, started).
             io_bind (read_intent_metadata (sh_restore h) root (intent_path root)) (\<lambda>intent.
               if \<not> lineage_matches descriptor intent then io_fail TxStore
               else io_bind (read_marker_file (sh_restore h) root (terminal_path root intent) intent) (\<lambda>terminal.
                 if jm_state terminal = JournalRolledBack then io_return None
                 else if jm_state terminal \<noteq> JournalCommitted then io_fail TxStore
                 else io_bind (member_reverted h (join_path [root, ''reverted.json'']) StoreMemberGeneration
                     (di_transactionID descriptor) (jm_digest terminal)) (\<lambda>reverted.
                   if reverted then io_return None
                   else io_return (Some (di_restoreRunID descriptor, di_runID descriptor, started,
                     \<lparr>sm_kind = StoreMemberGeneration, sm_ordinal = di_mutationOrdinal descriptor,
                      sm_captureID = di_captureID descriptor, sm_legacyPath = [], sm_storeRoot = gu_storeRoot g,
                      sm_restoreRun = di_restoreRunID descriptor, sm_memberID = di_transactionID descriptor,
                      sm_sourceDigest = jm_digest terminal\<rparr>)))))))))"

definition legacy_member ::
    "store_host \<Rightarrow> guard \<Rightarrow> string \<times> node \<Rightarrow> (string \<times> string \<times> int \<times> store_member) option action_run" where
  "legacy_member h g e =
     (case e of (name, n) \<Rightarrow> let memberID = trim_suffix ''.json'' name in
      io_then check_context
      (if is_dir n \<or> \<not> is_opaque_store_id memberID \<or> name \<noteq> memberID @ ''.json'' then io_fail TxStore
       else io_bind (read_store_file (join_path [gu_legacyMembers g, name])) (\<lambda>data.
         io_bind (decode_legacy_run h data) (\<lambda>(disk, started).
           if li_memberID disk \<noteq> memberID then io_fail TxStore
           else io_bind (legacy_reverted h g memberID (li_memberDigest disk)) (\<lambda>reverted.
             if reverted then io_return None
             else io_bind (read_registered_journal h disk) (\<lambda>_.
               io_return (Some (li_restoreRunID disk, li_runID disk, started, legacy_handle (gu_storeRoot g) disk))))))))"

definition run_before :: "store_run \<Rightarrow> store_run \<Rightarrow> bool" where
  "run_before l r = (if sr_started l \<noteq> sr_started r then sr_started r < sr_started l else sr_id r < sr_id l)"

definition member_before :: "store_member \<Rightarrow> store_member \<Rightarrow> bool" where
  "member_before l r \<longleftrightarrow> sm_ordinal l < sm_ordinal r"

definition order_runs :: "store_run list \<Rightarrow> store_run list" where
  "order_runs runs = sort_by run_before (map (\<lambda>r. r\<lparr>sr_members := sort_by member_before (sr_members r)\<rparr>) runs)"

definition active_store_runs :: "store_host \<Rightarrow> guard \<Rightarrow> store_run list action_run" where
  "active_store_runs h g =
     io_then check_context
     (io_then (require_lease g)
     (io_bind (tx_os (read_dir_nodes (gu_transactions g))) (\<lambda>transactionEntries.
      io_bind (io_fold (\<lambda>e acc. io_bind (generation_member h g e) (\<lambda>found. add_member_run found acc)) transactionEntries ([], [])) (\<lambda>acc.
      io_then (reconcile_store_publication_temps (gu_legacyMembers g))
      (io_bind (tx_os (read_dir_nodes (gu_legacyMembers g))) (\<lambda>legacyEntries.
      io_bind (io_fold (\<lambda>e acc. io_bind (legacy_member h g e) (\<lambda>found. add_member_run found acc)) legacyEntries acc) (\<lambda>all.
        io_return (order_runs (fst all)))))))))"

section \<open>Reverting a transaction of the engine\<close>

definition load_active_generation_member :: "store_host \<Rightarrow> guard \<Rightarrow> store_member option \<Rightarrow> journal_intent action_run" where
  "load_active_generation_member h g member =
     (if \<not> valid_member g StoreMemberGeneration member then io_fail TxInput
      else let m = the member; root = join_path [gu_transactions g, sm_memberID m] in
        io_bind (read_stored_descriptor h root) (\<lambda>(descriptor, _).
        io_bind (read_intent_metadata (sh_restore h) root (intent_path root)) (\<lambda>metadata.
          if \<not> lineage_matches descriptor metadata \<or> di_transactionID descriptor \<noteq> sm_memberID m \<or>
             di_restoreRunID descriptor \<noteq> sm_restoreRun m \<or> di_mutationOrdinal descriptor \<noteq> sm_ordinal m \<or>
             di_captureID descriptor \<noteq> sm_captureID m then io_fail TxStore
          else io_bind (read_marker_file (sh_restore h) root (terminal_path root metadata) metadata) (\<lambda>terminal.
            if jm_state terminal \<noteq> JournalCommitted \<or> jm_digest terminal \<noteq> sm_sourceDigest m then io_fail TxStore
            else io_bind (member_reverted h (join_path [root, ''reverted.json'']) StoreMemberGeneration
                (sm_memberID m) (sm_sourceDigest m)) (\<lambda>reverted.
              if reverted then io_fail TxReverted else read_journal_intent (sh_restore h) root)))))"

definition preflight_action :: "restore_host \<Rightarrow> journal_action \<Rightarrow> unit action_run" where
  "preflight_action h a =
     (if ja_kind a = ActionRegistrySet
      then io_bind (registry_of h) (\<lambda>m. io_bind (classify_registry_rollback h m a) (\<lambda>_. io_return ()))
      else io_bind (classify_filesystem_rollback h a) (\<lambda>_. io_return ()))"

definition preflight_generation_revert :: "restore_host \<Rightarrow> journal_action list \<Rightarrow> unit action_run" where
  "preflight_generation_revert h actions = io_each (preflight_action h) (rev actions)"

record generation_revert_action =
  gra_index :: int
  gra_kind :: action_kind
  gra_target :: string
  gra_backupUsed :: bool

record generation_revert_result =
  grr_actionCount :: nat
  grr_actions :: "generation_revert_action list"

definition generation_action_target :: "journal_action \<Rightarrow> string" where
  "generation_action_target a =
     (if ja_kind a \<noteq> ActionRegistrySet then ja_target a else ja_registryKey a @ ''::'' @ ja_registryValueName a)"

definition reverted_action :: "journal_action \<Rightarrow> generation_revert_action" where
  "reverted_action a =
     \<lparr>gra_index = ja_index a, gra_kind = ja_kind a, gra_target = generation_action_target a,
      gra_backupUsed = (rc_kind (ja_prior a) \<noteq> StateAbsent)\<rparr>"

text \<open>The actions restored and the errors, in the order the actions are visited.\<close>

fun revert_actions :: "restore_host \<Rightarrow> journal_action list \<Rightarrow> (generation_revert_action list \<times> tx_error list) action_run" where
  "revert_actions h [] = io_return ([], [])"
| "revert_actions h (a # as) =
     io_bind (io_try (rollback_transaction_action h a)) (\<lambda>r.
     io_bind (revert_actions h as) (\<lambda>(reverted, errors).
       case r of
         Inl e \<Rightarrow> io_return (reverted, e # errors)
       | Inr _ \<Rightarrow> io_return (reverted_action a # reverted, errors)))"

definition revert_all :: "restore_host \<Rightarrow> journal_action list \<Rightarrow> (generation_revert_action list \<times> tx_error list) action_run" where
  "revert_all h actions =
     io_bind (revert_actions h (rev actions)) (\<lambda>(reverted, errors).
     io_bind (io_try (verify_all_states h actions False)) (\<lambda>r.
       io_return (reverted, errors @ (case r of Inl e \<Rightarrow> [e] | Inr _ \<Rightarrow> []))))"

text \<open>An error before the first change is an error of the run; a later one comes with the result.\<close>

definition revert_generation_member ::
    "store_host \<Rightarrow> guard \<Rightarrow> store_member option \<Rightarrow> (generation_revert_result \<times> tx_error option) action_run" where
  "revert_generation_member h g member =
     io_then check_context
     (io_then (require_lease g)
     (io_bind (load_active_generation_member h g member) (\<lambda>intent.
      let m = the member; actions = ji_actions intent; root = join_path [gu_transactions g, sm_memberID m] in
      io_then (preflight_generation_revert (sh_restore h) actions)
      (io_bind (without_cancel (revert_all (sh_restore h) actions)) (\<lambda>(reverted, errors).
        let result = \<lparr>grr_actionCount = 0, grr_actions = reverted\<rparr> in
        if errors \<noteq> [] then io_return (result, Some (TxJoined errors))
        else io_bind (tx_attempt (publish_immutable_store_record root ''reverted.json''
            (snd (new_member_revert h StoreMemberGeneration (sm_memberID m) (sm_sourceDigest m))))) (\<lambda>r.
          case r of
            Inl e \<Rightarrow> io_return (result, Some e)
          | Inr _ \<Rightarrow> io_return (result\<lparr>grr_actionCount := length reverted\<rparr>, None)))))))"

end
