(* ===== verification/LegacyWork.thy ===== *)
theory LegacyWork
  imports RestoreStore
begin

text \<open>
  The work directories of legacy reverts (\<open>internal/configrestore/recovery.go\<close>, the part on legacy
  revert work, and \<open>ParseJournal\<close> of \<open>internal/restore/journal.go\<close>): which names and records a work
  directory may hold, how a record is bound to an entry of the registered journal, and the
  reconciliation that retires the directories of reverted members.
\<close>

section \<open>Journals and records\<close>

record legacy_entry =
  le_resolvedSourcePath :: string
  le_targetPath :: string
  le_targetExistedBefore :: bool
  le_backupRequested :: bool
  le_backupCreated :: bool
  le_backupPath :: string
  le_action :: string
  le_error :: string
  le_restoreType :: string

record legacy_journal =
  lj_runID :: string
  lj_timestamp :: string
  lj_manifestPath :: string
  lj_manifestDir :: string
  lj_exportRoot :: string
  lj_entries :: "legacy_entry list"

record work_state =
  ws_kind :: string
  ws_digest :: string

record work_prepared =
  wp_version :: int
  wp_entryIndex :: int
  wp_entryDigest :: string
  wp_target :: string
  wp_before :: work_state
  wp_desired :: work_state
  wp_desiredSource :: string
  wp_stagePath :: string
  wp_heldPath :: string

record work_completed =
  wc_version :: int
  wc_entryIndex :: int
  wc_entryDigest :: string
  wc_action :: string

text \<open>\<open>encoding/json\<close> on the records; the decoders refuse unknown fields and further input.\<close>

record work_codec =
  wk_parse_journal :: "string \<Rightarrow> legacy_journal option"
  wk_encode_entry :: "legacy_entry \<Rightarrow> string"
  wk_encode_prepared :: "work_prepared \<Rightarrow> string"
  wk_decode_prepared :: "string \<Rightarrow> work_prepared option"
  wk_encode_completed :: "work_completed \<Rightarrow> string"
  wk_decode_completed :: "string \<Rightarrow> work_completed option"

definition parse_journal :: "work_codec \<Rightarrow> string \<Rightarrow> legacy_journal option" where
  "parse_journal c data =
     (let bom = [CHR 0xEF, CHR 0xBB, CHR 0xBF] in
      wk_parse_journal c (if prefix bom data then drop (length bom) data else data))"

text \<open>A record is read only in the form it is written.\<close>

definition decode_canonical :: "(string \<Rightarrow> 'a option) \<Rightarrow> ('a \<Rightarrow> string) \<Rightarrow> string \<Rightarrow> 'a option" where
  "decode_canonical decode encode data =
     (case decode data of None \<Rightarrow> None | Some r \<Rightarrow> if data \<noteq> encode r @ [LF] then None else Some r)"

section \<open>Names\<close>

definition is_work_scratch :: "string \<Rightarrow> string \<Rightarrow> string \<Rightarrow> bool" where
  "is_work_scratch name pre post \<longleftrightarrow>
     length pre + length post < length name \<and> prefix pre name \<and> suffix post name \<and>
     list_all is_digit (drop (length pre) (take (length name - length post) name))"

definition is_legacy_revert_record_temp :: "string \<Rightarrow> bool" where
  "is_legacy_revert_record_temp name = is_work_scratch name ''.legacy-revert-record-'' ''.tmp''"

definition is_legacy_registry_state_temp :: "string \<Rightarrow> bool" where
  "is_legacy_registry_state_temp name = is_work_scratch name ''.registry-state-'' ''.reg''"

definition six_digits :: "string \<Rightarrow> nat option" where
  "six_digits digits = (if length digits \<noteq> 6 \<or> \<not> list_all is_digit digits then None else atoi_digits digits)"

definition parse_registry_import_stage_name :: "string \<Rightarrow> nat option" where
  "parse_registry_import_stage_name name =
     (if \<not> prefix ''entry-'' name \<or> \<not> suffix ''-registry-stage.reg'' name then None
      else six_digits (trim_suffix ''-registry-stage.reg'' (trim_prefix ''entry-'' name)))"

definition parse_work_record_name :: "string \<Rightarrow> (nat \<times> bool) option" where
  "parse_work_record_name name =
     (if \<not> prefix ''entry-'' name then None
      else let rest = trim_prefix ''entry-'' name; completed = suffix ''-completed.json'' rest;
             post = (if completed then ''-completed.json'' else ''.json'') in
        if \<not> suffix post rest then None
        else map_option (\<lambda>index. (index, completed)) (six_digits (trim_suffix post rest)))"

definition work_record_name :: "nat \<Rightarrow> string" where
  "work_record_name index = ''entry-'' @ format_action_index index @ ''.json''"

section \<open>Scratch locations\<close>

definition registry_import_scratch :: "string \<Rightarrow> string \<Rightarrow> (string \<times> string) option" where
  "registry_import_scratch target digest =
     (if length digest < 16 then None
      else case dropWhile (\<lambda>c. c \<noteq> BSLASH) (replace_byte CHR ''/'' BSLASH target) of
        [] \<Rightarrow> None
      | _ # subkey \<Rightarrow>
          let parts = split_on BSLASH subkey; name = last parts; parent = join_with [BSLASH] (butlast parts) in
          if name = [] then None
          else let pre = ''HKCU'' @ [BSLASH] @ (if parent \<noteq> [] then parent @ [BSLASH] else []);
                   scratch = (\<lambda>kind. pre @ ''.'' @ name @ ''.endstate-revert-'' @ take 16 digest @ kind) in
            Some (scratch ''-stage'', scratch ''-held''))"

text \<open>\<open>filepath.Dir\<close> of a path that need not be absolute.\<close>

definition parent_path :: "string \<Rightarrow> string" where
  "parent_path p = render_clean (is_abs p) (butlast (clean_elements p))"

definition filesystem_scratch :: "string \<Rightarrow> string \<Rightarrow> string \<Rightarrow> string" where
  "filesystem_scratch target tag kind =
     (let clean = clean_path target in
      join_path [parent_path clean, ''.'' @ Instances.base_name clean @ ''.endstate-revert-'' @ tag @ ''-'' @ kind])"

section \<open>Records of an entry\<close>

definition is_registry_entry :: "legacy_entry \<Rightarrow> bool" where
  "is_registry_entry e \<longleftrightarrow> le_restoreType e = ''registry-import'' \<or> le_restoreType e = ''registry-set''"

definition has_backup :: "legacy_entry \<Rightarrow> bool" where
  "has_backup e \<longleftrightarrow> le_backupCreated e \<and> le_backupPath e \<noteq> []"

definition valid_work_state :: "work_state \<Rightarrow> bool" where
  "valid_work_state s \<longleftrightarrow> is_payload_hash (ws_digest s) \<and>
     ws_kind s \<in> set [''file'', ''directory'', ''absent'', ''registry-key'', ''registry-value'']"

definition state_fits_entry :: "work_state \<Rightarrow> legacy_entry \<Rightarrow> bool" where
  "state_fits_entry s e =
     (if le_restoreType e = ''registry-import'' then ws_kind s \<in> set [''registry-key'', ''absent'']
      else if le_restoreType e = ''registry-set'' then ws_kind s \<in> set [''registry-value'', ''absent'']
      else ws_kind s \<in> set [''file'', ''directory'', ''absent''])"

definition desired_fits_entry :: "work_state \<Rightarrow> legacy_entry \<Rightarrow> bool" where
  "desired_fits_entry s e =
     (if le_restoreType e = ''registry-import'' then
        (if le_targetExistedBefore e then has_backup e \<and> ws_kind s = ''registry-key''
         else \<not> le_backupCreated e \<and> le_backupPath e = [] \<and> ws_kind s = ''absent'')
      else if le_restoreType e = ''registry-set'' then
        has_backup e \<and> (if le_targetExistedBefore e then ws_kind s = ''registry-value'' else ws_kind s = ''absent'')
      else if le_targetExistedBefore e then has_backup e \<and> ws_kind s \<in> set [''file'', ''directory'']
      else \<not> le_backupCreated e \<and> le_backupPath e = [] \<and> ws_kind s = ''absent'')"

definition expected_source :: "legacy_entry \<Rightarrow> string" where
  "expected_source e =
     (if is_registry_entry e then le_backupPath e
      else if has_backup e then clean_path (le_backupPath e) else [])"

definition scratch_fits :: "work_prepared \<Rightarrow> legacy_entry \<Rightarrow> string \<Rightarrow> bool" where
  "scratch_fits r e digest =
     (if le_restoreType e = ''registry-import'' then
        (case registry_import_scratch (le_targetPath e) digest of
           None \<Rightarrow> False
         | Some (stage, held) \<Rightarrow>
             if has_backup e then wp_stagePath r = stage \<and> wp_heldPath r = held
             else wp_stagePath r = [] \<and> wp_heldPath r = [])
      else if le_restoreType e = ''registry-set'' then wp_stagePath r = [] \<and> wp_heldPath r = []
      else wp_stagePath r = filesystem_scratch (le_targetPath e) (take 16 digest) ''stage'' \<and>
        wp_heldPath r = filesystem_scratch (le_targetPath e) (take 16 digest) ''held'')"

definition prepared_fits :: "work_prepared \<Rightarrow> nat \<Rightarrow> legacy_entry \<Rightarrow> string \<Rightarrow> bool" where
  "prepared_fits r index e digest \<longleftrightarrow>
     wp_version r = 1 \<and> wp_entryIndex r = int index \<and> wp_entryDigest r = digest \<and>
     valid_work_state (wp_before r) \<and> valid_work_state (wp_desired r) \<and>
     state_fits_entry (wp_before r) e \<and> state_fits_entry (wp_desired r) e \<and> desired_fits_entry (wp_desired r) e \<and>
     wp_target r = (if is_registry_entry e then le_targetPath e else clean_path (le_targetPath e)) \<and>
     wp_desiredSource r = expected_source e \<and> scratch_fits r e digest"

definition entry_digest :: "store_host \<Rightarrow> work_codec \<Rightarrow> legacy_entry \<Rightarrow> string" where
  "entry_digest h c e = sh_sha h (wk_encode_entry c e)"

definition read_work_prepared :: "work_codec \<Rightarrow> string \<Rightarrow> nat \<Rightarrow> legacy_entry \<Rightarrow> string \<Rightarrow> work_prepared action_run" where
  "read_work_prepared c p index e digest =
     io_bind (read_store_file p) (\<lambda>data.
       case decode_canonical (wk_decode_prepared c) (wk_encode_prepared c) data of
         None \<Rightarrow> io_fail TxStore
       | Some r \<Rightarrow> if prepared_fits r index e digest then io_return r else io_fail TxStore)"

definition completed_fits :: "work_completed \<Rightarrow> nat \<Rightarrow> string \<Rightarrow> bool" where
  "completed_fits r index digest \<longleftrightarrow> wc_version r = 1 \<and> wc_entryIndex r = int index \<and> wc_entryDigest r = digest \<and>
     wc_action r \<in> set [''reverted'', ''deleted'']"

definition validate_work_record :: "store_host \<Rightarrow> work_codec \<Rightarrow> string \<Rightarrow> string \<Rightarrow> legacy_journal \<Rightarrow> unit action_run" where
  "validate_work_record h c root name journal =
     (case parse_work_record_name name of
        None \<Rightarrow> io_fail TxStore
      | Some (index, completed) \<Rightarrow>
          if length (lj_entries journal) \<le> index then io_fail TxStore
          else let e = lj_entries journal ! index; digest = entry_digest h c e in
            if le_action e \<noteq> ''restored'' then io_fail TxStore
            else if \<not> completed then
              io_bind (read_work_prepared c (join_path [root, name]) index e digest) (\<lambda>_. io_return ())
            else io_bind (read_store_file (join_path [root, name])) (\<lambda>data.
              case decode_canonical (wk_decode_completed c) (wk_encode_completed c) data of
                None \<Rightarrow> io_fail TxStore
              | Some r \<Rightarrow>
                  if \<not> completed_fits r index digest then io_fail TxStore
                  else io_bind (read_work_prepared c (join_path [root, work_record_name index]) index e digest) (\<lambda>prepared.
                    io_when ((wc_action r = ''deleted'') \<noteq> (ws_kind (wp_desired prepared) = ''absent'')) TxStore)))"

definition validate_registry_import_stage ::
    "store_host \<Rightarrow> work_codec \<Rightarrow> string \<Rightarrow> nat \<Rightarrow> legacy_journal \<Rightarrow> unit action_run" where
  "validate_registry_import_stage h c root index journal =
     (if length (lj_entries journal) \<le> index then io_fail TxStore
      else let e = lj_entries journal ! index; digest = entry_digest h c e in
        if le_action e \<noteq> ''restored'' \<or> le_restoreType e \<noteq> ''registry-import'' \<or> \<not> has_backup e then io_fail TxStore
        else io_bind (read_work_prepared c (join_path [root, work_record_name index]) index e digest) (\<lambda>prepared.
          io_when (wp_stagePath prepared = [] \<or> wp_heldPath prepared = []) TxStore))"

section \<open>A work directory\<close>

definition validate_work_entry :: "store_host \<Rightarrow> work_codec \<Rightarrow> string \<Rightarrow> legacy_journal \<Rightarrow> string \<Rightarrow> unit action_run" where
  "validate_work_entry h c root journal name =
     (let p = join_path [root, name] in
      io_bind (tx_os (lstat p)) (\<lambda>info.
        if is_link info then io_fail TxLink
        else if \<not> is_regular info then io_fail TxSpecialFile
        else if is_legacy_revert_record_temp name then io_return ()
        else if is_legacy_registry_state_temp name then tx_os (remove p)
        else case parse_registry_import_stage_name name of
            Some index \<Rightarrow> validate_registry_import_stage h c root index journal
          | None \<Rightarrow> validate_work_record h c root name journal))"

definition validate_legacy_revert_work_tree :: "store_host \<Rightarrow> work_codec \<Rightarrow> string \<Rightarrow> legacy_journal \<Rightarrow> unit action_run" where
  "validate_legacy_revert_work_tree h c root journal =
     io_then check_context
     (io_then (reject_existing_target_links root)
     (io_bind (tx_os (lstat root)) (\<lambda>info.
       if \<not> is_dir info \<or> is_link info then io_fail TxUnsafeType
       else io_bind (tx_os (read_dir root)) (\<lambda>names.
         io_then (io_each (validate_work_entry h c root journal) names)
           (if list_ex is_legacy_registry_state_temp (filter (\<lambda>name. \<not> is_legacy_revert_record_temp name) names)
            then tx_os (sync_directory root) else io_return ())))))"

definition read_legacy_revert_journal :: "store_host \<Rightarrow> work_codec \<Rightarrow> legacy_disk \<Rightarrow> legacy_journal action_run" where
  "read_legacy_revert_journal h c disk =
     io_bind (read_registered_journal h disk) (\<lambda>data.
       case parse_journal c data of None \<Rightarrow> io_fail TxStore | Some journal \<Rightarrow> io_return journal)"

definition reconcile_work_root :: "store_host \<Rightarrow> work_codec \<Rightarrow> guard \<Rightarrow> string \<Rightarrow> node \<Rightarrow> unit action_run" where
  "reconcile_work_root h c g memberID n =
     (let root = join_path [gu_legacyRevertWork g, memberID] in
      if \<not> is_opaque_store_id memberID \<or> \<not> is_dir n then io_fail TxStore
      else io_bind (tx_os (lstat root)) (\<lambda>info.
        if \<not> is_dir info \<or> is_link info then io_fail TxUnsafeType
        else io_bind (load_legacy_member_by_id h g memberID) (\<lambda>disk.
          io_bind (read_legacy_revert_journal h c disk) (\<lambda>journal.
          io_then (validate_legacy_revert_work_tree h c root journal)
          (io_bind (legacy_reverted h g memberID (li_memberDigest disk)) (\<lambda>reverted.
            if reverted then retire_legacy_revert_work h g memberID else io_return ()))))))"

definition work_label :: "string \<Rightarrow> string" where
  "work_label memberID = ''legacy-revert-work/'' @ memberID"

definition reconcile_legacy_revert_work :: "store_host \<Rightarrow> work_codec \<Rightarrow> guard \<Rightarrow> unit action_run" where
  "reconcile_legacy_revert_work h c g =
     io_then check_context
     (io_bind (io_map_error (TxRecovery ''legacy-revert-work'')
        (io_then (reject_existing_target_links (gu_legacyRevertWork g)) (tx_os (read_dir_nodes (gu_legacyRevertWork g))))) (\<lambda>es.
       io_each (\<lambda>(memberID, n). io_then check_context
         (io_map_error (TxRecovery (work_label memberID)) (reconcile_work_root h c g memberID n))) es))"

section \<open>Names of records\<close>

lemma digits_value_split: "digits_value 0 (s @ t) = digits_value 0 s * 10 ^ length t + digits_value 0 t"
proof (induction t rule: rev_induct)
  case (snoc c t)
  have "digits_value 0 (s @ t @ [c]) = 10 * digits_value 0 (s @ t) + (byte c - 48)"
    using digits_value_snoc[of 0 "s @ t" c] by simp
  then show ?case using snoc digits_value_snoc[of 0 t c] by (simp add: algebra_simps)
qed simp

lemma digits_value_zeros: "digits_value 0 (replicate k CHR ''0'') = 0"
  by (induction k) simp_all

text \<open>Digits are the padded decimal of their value.\<close>

lemma decimal_padded:
  assumes "list_all is_digit s" "s \<noteq> []"
  shows "length (decimal (digits_value 0 s)) \<le> length s \<and>
     replicate (length s - length (decimal (digits_value 0 s))) CHR ''0'' @ decimal (digits_value 0 s) = s"
  using assms
proof (induction s rule: rev_induct)
  case (snoc c s)
  let ?v = "digits_value 0 s" and ?d = "byte c - 48"
  have d: "?d < 10" "char_of (48 + ?d) = c" using snoc.prems by (auto simp: byte_in_def)
  have snoc_value: "digits_value 0 (s @ [c]) = 10 * ?v + ?d" by (rule digits_value_snoc)
  show ?case
  proof (cases "?v = 0")
    case True
    have zeros: "s = replicate (length s) CHR ''0''"
    proof (cases "s = []")
      case False
      have "char_of (48 :: nat) = CHR ''0''" by code_simp
      then have z: "decimal 0 = ''0''" by (simp add: decimal.simps)
      have "replicate (length s - 1) CHR ''0'' @ ''0'' = s" "1 \<le> length s"
        using snoc.IH snoc.prems False True z by (auto simp: Suc_le_eq)
      then show ?thesis by (metis Suc_diff_1 less_le_trans zero_less_one replicate_Suc replicate_append_same)
    qed simp
    have "decimal (digits_value 0 (s @ [c])) = [c]" using d True snoc_value by (simp add: decimal.simps)
    then show ?thesis using zeros by simp
  next
    case False
    then have ne: "s \<noteq> []" by auto
    have "decimal (10 * ?v + ?d) = decimal ?v @ [c]"
      using False d by (subst decimal.simps) simp
    then show ?thesis using snoc.IH snoc.prems ne snoc_value by simp
  qed
qed simp

lemma digits_value_below: "list_all is_digit s \<Longrightarrow> digits_value 0 s < 10 ^ length s"
proof (induction s rule: rev_induct)
  case (snoc c s)
  then have "byte c - 48 \<le> 9" "digits_value 0 s + 1 \<le> 10 ^ length s" by (auto simp: byte_in_def)
  then have "10 * digits_value 0 s + (byte c - 48) < 10 * 10 ^ length s" by linarith
  then show ?case by (simp only: digits_value_snoc length_append length_Cons list.size power_add) simp
qed simp

lemma decimal_length: "n < 10 ^ k \<Longrightarrow> 0 < k \<Longrightarrow> length (decimal n) \<le> k"
proof (induction k arbitrary: n)
  case (Suc k)
  show ?case
  proof (cases "n < 10")
    case False
    then have "0 < k" "n div 10 < 10 ^ k" using Suc.prems by (auto intro!: gr0I simp: less_mult_imp_div_less)
    then have "length (decimal (n div 10)) \<le> k" by (intro Suc.IH)
    then show ?thesis using False by (subst decimal.simps) simp
  qed (simp add: decimal.simps)
qed simp

lemma six_digits_iff: "six_digits s = Some n \<longleftrightarrow> n < 1000000 \<and> s = format_action_index n"
proof
  assume a: "six_digits s = Some n"
  then have s: "length s = 6" "list_all is_digit s" "n = digits_value 0 s"
    by (auto simp: six_digits_def atoi_digits_def Let_def split: if_splits)
  then have "n < 1000000" using digits_value_below[of s] by simp
  moreover have "s = format_action_index n"
    using decimal_padded[of s] s by (cases "s = []") (simp_all add: format_action_index_def Let_def)
  ultimately show "n < 1000000 \<and> s = format_action_index n" ..
next
  assume a: "n < 1000000 \<and> s = format_action_index n"
  then have l: "length (decimal n) \<le> 6" using decimal_length[of n 6] by simp
  have "length s = 6" using a l by (simp add: format_action_index_def Let_def)
  moreover have "list_all is_digit s"
    using a decimal_digits[of n] by (auto simp: format_action_index_def Let_def list_all_iff byte_in_def)
  moreover have "digits_value 0 s = n"
    using a digits_value_split[of "replicate (6 - length (decimal n)) CHR ''0''" "decimal n"]
    by (simp add: format_action_index_def Let_def digits_value_zeros digits_value_decimal)
  ultimately show "six_digits s = Some n" using a by (simp add: six_digits_def atoi_digits_def Let_def)
qed

lemma suffix_end: "suffix post (d @ post)" "trim_suffix post (d @ post) = d"
  by (auto simp: trim_suffix_def suffix_def)

lemma trim_suffix_eq: "suffix post s \<Longrightarrow> trim_suffix post s = d \<longleftrightarrow> s = d @ post"
  by (auto simp: trim_suffix_def suffix_def)

text \<open>
  The name of a work record is read back to its index and its kind, and no other name is
  read: a name is accepted exactly when it is the six-digit index, below one million, between the
  prefix and one of the two endings.
\<close>

theorem work_record_names:
  "parse_work_record_name name = Some (index, completed) \<longleftrightarrow>
     index < 1000000 \<and> name = ''entry-'' @ format_action_index index @ (if completed then ''-completed.json'' else ''.json'')"
  (is "?l \<longleftrightarrow> ?r")
proof -
  have six: "list_all is_digit (format_action_index i) \<and> length (format_action_index i) = 6" if "i < 1000000" for i
    using six_digits_iff[of "format_action_index i" i] that by (auto simp: six_digits_def split: if_splits)
  have body: "\<not> suffix ''-completed.json'' (d @ ''.json'')" if "list_all is_digit d" for d
  proof
    assume "suffix ''-completed.json'' (d @ ''.json'')"
    then obtain zs where "d @ ''.json'' = (zs @ ''-completed'') @ ''.json''" by (auto simp: suffix_def)
    then have "d = zs @ ''-completed''" by blast
    then have "is_digit CHR ''-''" using that by simp
    then show False by (simp add: byte_in_def)
  qed
  show ?thesis
  proof (cases "prefix ''entry-'' name")
    case False
    then show ?thesis by (auto simp: parse_work_record_name_def)
  next
    case True
    then obtain rest where name: "name = ''entry-'' @ rest" by (auto simp: prefix_def)
    have "?l \<longleftrightarrow> (let fin = suffix ''-completed.json'' rest; post = (if fin then ''-completed.json'' else ''.json'') in
        fin = completed \<and> suffix post rest \<and> six_digits (trim_suffix post rest) = Some index)"
      by (auto simp: parse_work_record_name_def name trim_prefix_def Let_def)
    also have "\<dots> \<longleftrightarrow> ?r"
      using six body by (auto simp: name Let_def six_digits_iff trim_suffix_eq suffix_end)
    finally show ?thesis .
  qed
qed

end
