(* ===== verification/RestoreRecovery.thy ===== *)
theory RestoreRecovery
  imports LegacyWork
begin

text \<open>
  Recovery (\<open>internal/configrestore\<close>: recovery.go and \<open>BeginLive\<close> of live.go): under the mutation lock
  the store is scanned for transactions with a durable intent and no terminal marker, roots without
  an intent are removed, and every pending transaction is rolled back, newest first, and closed.
\<close>

section \<open>Pending transactions\<close>

record pending_transaction =
  pt_descriptor :: descriptor_disk
  pt_started :: int
  pt_intent :: journal_intent

type_synonym scan_state = "(string \<times> 64 word) list \<times> pending_transaction list"

definition scan_intent :: "store_host \<Rightarrow> string \<Rightarrow> string \<Rightarrow> scan_state \<Rightarrow> scan_state action_run" where
  "scan_intent h name root acc =
     (case acc of (ordinals, pending) \<Rightarrow>
      io_bind (read_stored_descriptor h root) (\<lambda>(descriptor, started).
      io_bind (read_intent_metadata (sh_restore h) root (intent_path root)) (\<lambda>metadata.
        let ordinal = (di_restoreRunID descriptor, di_mutationOrdinal descriptor) in
        if di_transactionID descriptor \<noteq> name \<or> \<not> lineage_matches descriptor metadata then io_fail TxStore
        else if ordinal \<in> set ordinals then io_fail TxStore
        else io_bind (tx_attempt (read_marker_file (sh_restore h) root (terminal_path root metadata) metadata)) (\<lambda>found.
          case found of
            Inr marker \<Rightarrow>
              if jm_state marker \<noteq> JournalCommitted \<and> jm_state marker \<noteq> JournalRolledBack then io_fail TxStore
              else io_return (ordinal # ordinals, pending)
          | Inl e \<Rightarrow>
              if \<not> not_exist e then io_fail e
              else io_bind (read_journal_intent (sh_restore h) root) (\<lambda>intent.
                io_return (ordinal # ordinals,
                  pending @ [\<lparr>pt_descriptor = descriptor, pt_started = started, pt_intent = intent\<rparr>]))))))"

definition scan_entry :: "store_host \<Rightarrow> guard \<Rightarrow> string \<times> node \<Rightarrow> scan_state \<Rightarrow> scan_state action_run" where
  "scan_entry h g e acc =
     (case e of (name, n) \<Rightarrow> let root = join_path [gu_transactions g, name] in
      io_then check_context
      (io_map_error (TxRecovery name)
        (if \<not> is_dir n \<or> \<not> is_opaque_store_id name then io_fail TxStore
         else io_then (reject_existing_target_links root)
           (io_bind (tx_try (lstat (intent_path root))) (\<lambda>r.
             case r of
               Inl x \<Rightarrow>
                 if x = ENOENT then io_then (without_cancel (remove_safe_path (sh_restore h) root)) (io_return acc)
                 else io_fail (TxOs x)
             | Inr _ \<Rightarrow> scan_intent h name root acc)))))"

definition pending_before :: "pending_transaction \<Rightarrow> pending_transaction \<Rightarrow> bool" where
  "pending_before l r =
     (if pt_started l \<noteq> pt_started r then pt_started r < pt_started l
      else if di_restoreRunID (pt_descriptor l) \<noteq> di_restoreRunID (pt_descriptor r)
      then di_restoreRunID (pt_descriptor r) < di_restoreRunID (pt_descriptor l)
      else di_mutationOrdinal (pt_descriptor r) < di_mutationOrdinal (pt_descriptor l))"

definition scan_pending :: "store_host \<Rightarrow> guard \<Rightarrow> pending_transaction list action_run" where
  "scan_pending h g =
     io_then check_context
     (io_bind (io_map_error (TxRecovery []) (tx_os (read_dir_nodes (gu_transactions g)))) (\<lambda>es.
      io_bind (io_fold (scan_entry h g) es ([], [])) (\<lambda>(_, pending).
        io_return (sort_by pending_before pending))))"

section \<open>Recovery\<close>

text \<open>Every action is rolled back, whatever happened to the others; the errors are collected.\<close>

fun rollback_pending :: "restore_host \<Rightarrow> journal_action list \<Rightarrow> tx_error list action_run" where
  "rollback_pending h [] = io_return []"
| "rollback_pending h (a # as) =
     io_bind (io_try (rollback_transaction_action h a)) (\<lambda>r.
     io_bind (rollback_pending h as) (\<lambda>errors.
       io_return (case r of Inl e \<Rightarrow> e # errors | Inr _ \<Rightarrow> errors)))"

definition recover_one :: "restore_host \<Rightarrow> pending_transaction \<Rightarrow> unit action_run" where
  "recover_one h t =
     (let actions = ji_actions (pt_intent t) in
      io_bind (rollback_pending h (rev actions)) (\<lambda>errors.
      io_bind (io_try (verify_all_states h actions False)) (\<lambda>r.
        let all = errors @ (case r of Inl e \<Rightarrow> [e] | Inr _ \<Rightarrow> []) in
        if all \<noteq> [] then io_fail (TxJoined all)
        else io_bind (persist_rolled_back h (pt_intent t) ValidationNotRun) (\<lambda>_. io_return ()))))"

definition recover_each :: "restore_host \<Rightarrow> pending_transaction list \<Rightarrow> unit action_run" where
  "recover_each h = io_each (\<lambda>t.
     io_map_error (TxRecovery (di_transactionID (pt_descriptor t))) (without_cancel (recover_one h t)))"

definition recover_pending :: "store_host \<Rightarrow> work_codec \<Rightarrow> guard \<Rightarrow> unit action_run" where
  "recover_pending h c g =
     io_then (reconcile_legacy_revert_work h c g)
       (io_bind (scan_pending h g) (recover_each (sh_restore h)))"

section \<open>Acquiring the store\<close>

definition config_root :: "string \<Rightarrow> string" where
  "config_root stateDir = join_path [stateDir, ''config-restore'']"

definition store_root :: "string \<Rightarrow> string" where
  "store_root stateDir = join_path [config_root stateDir, ''v1'']"

definition mutation_lock :: "string \<Rightarrow> string" where
  "mutation_lock stateDir = join_path [config_root stateDir, ''mutation.lock'']"

definition new_guard :: "string \<Rightarrow> string \<Rightarrow> string \<Rightarrow> int \<Rightarrow> guard" where
  "new_guard stateDir runID restoreRunID now =
     (let root = store_root stateDir in
      \<lparr>gu_storeRoot = root, gu_transactions = join_path [root, ''transactions''],
       gu_legacyMembers = join_path [root, ''legacy-members''], gu_legacyReverts = join_path [root, ''legacy-reverts''],
       gu_legacyRevertWork = join_path [root, ''legacy-revert-work''], gu_runID = runID, gu_restoreRunID = restoreRunID,
       gu_runStartedAt = now, gu_nextOrdinal = 0, gu_locked = True, gu_closed = False\<rparr>)"

definition store_directories :: "string \<Rightarrow> string list" where
  "store_directories stateDir =
     (let root = store_root stateDir in
      [stateDir, config_root stateDir, root, join_path [root, ''transactions''], join_path [root, ''legacy-members''],
       join_path [root, ''legacy-reverts''], join_path [root, ''legacy-revert-work'']])"

text \<open>\<open>draw\<close> holds the bytes drawn for the restore run, \<open>now\<close> the time of the clock.\<close>

definition begin_live ::
    "store_host \<Rightarrow> work_codec \<Rightarrow> lock_service \<Rightarrow> string \<Rightarrow> string \<Rightarrow> string option \<Rightarrow> int \<Rightarrow> guard action_run" where
  "begin_live h c lk stateDir runID draw now =
     (if stateDir = [] \<or> \<not> is_abs stateDir \<or> clean_path stateDir \<noteq> stateDir \<or> \<not> valid_identity runID then io_fail TxInput
      else io_then (ensure_store_directories (store_directories stateDir))
        (io_then (validate_mutation_lock_path (mutation_lock stateDir) True)
        (io_bind (lk_acquire lk (mutation_lock stateDir)) (\<lambda>locked.
          if \<not> locked then io_fail TxClosed
          else io_bind (io_try (io_then (validate_mutation_lock_path (mutation_lock stateDir) False)
              (case draw of
                 None \<Rightarrow> io_fail TxInput
               | Some bytes \<Rightarrow>
                   let g = new_guard stateDir runID (opaque_store_id bytes) now in
                   io_then (recover_pending h c g) (io_return g)))) (\<lambda>r.
            case r of
              Inr g \<Rightarrow> io_return g
            | Inl e \<Rightarrow> io_bind (io_try (lk_release lk)) (\<lambda>_ :: tx_error + unit. io_fail e))))))"

end
