(* ===== verification/RestoreRecoveryProperties.thy ===== *)
theory RestoreRecoveryProperties
  imports RestoreRecovery RestoreOutcome RestoreGives
begin

text \<open>
  What recovery and the store guarantee in a calm world: a recovered transaction, and a reverted
  one, has its recorded prior states back, from whatever state a crash left; pending transactions
  are recovered in strict order, newest first; a root with a durable intent is never discarded; and
  the active runs and their members are strictly ordered.
\<close>

section \<open>Runs on the store\<close>

lemma only_reads_store_file [within]: "only_reads (read_store_file p)"
  unfolding read_store_file_def by (intro within readonly)

context world_order begin

lemma within_store_file [within]: "within R (read_store_file p)"
  unfolding read_store_file_def by (intro within)

lemma within_immutable [within]: "within R (publish_immutable_store_record directory name data)"
  unfolding publish_immutable_store_record_def publish_store_record_def write_store_record_def reconcile_store_record_def
  by (intro within)

end

context run_order begin

lemma within_pending_rollback [within]: "within R (rollback_pending h as)"
  by (induction as) (auto intro!: within)

lemma within_revert_actions [within]: "within R (revert_actions h as)"
  by (induction as) (auto intro!: within)

end

lemma io_then_bind: "io_then m (io_bind n k) = io_bind (io_then m n) k"
  by (rule ext) (auto simp: io_then_def io_bind_def split: prod.split sum.split)

lemma gives_metadata:
  "gives (read_intent_metadata h root p) (\<lambda>i. ji_transactionRoot i = root \<and> validate_journal_actions h root (ji_actions i) \<and>
     validate_journal_validations root (ji_actions i) (ji_validations i))"
  unfolding read_intent_metadata_def
  by (intro gives_then gives_skip) (auto intro!: gives_intro simp: intent_from_disk_def split: prod.split)

lemma gives_read_intent: "gives (read_journal_intent h root) (\<lambda>i. accepted h i \<and> ji_transactionRoot i = root)"
  unfolding read_journal_intent_def read_intent_file_def
  by (intro gives_then gives_bind[OF gives_root] gives_bind[OF gives_metadata] gives_skip gives_return)
    (auto simp: accepted_def)

lemma intent_key:
  assumes "is_abs root"
  shows "clean_elements (intent_path root) = clean_elements root @ [''journal'', ''intent.json'']" "is_abs (intent_path root)"
proof -
  have "root \<noteq> []" using assms by (auto simp: is_abs_def)
  then show "clean_elements (intent_path root) = clean_elements root @ [''journal'', ''intent.json'']" "is_abs (intent_path root)"
    using join_below[OF assms, of "''journal/intent.json''"] join_two[of root "''journal''" "''intent.json''"]
    by (simp_all add: intent_path_def path_elements_def)
qed

section \<open>Rolling back what is recorded\<close>

lemma lawful_verified:
  assumes "accepted h intent"
  shows "triple lawful (io_try (verify_all_states h (ji_actions intent) False) :: (tx_error + unit) action_run)
     (\<lambda>r. holds (\<lambda>t. r = Inr () \<longrightarrow> all_recorded (rh_sha h) t (ji_actions intent))) lawful"
proof -
  have y: "yields t (verify_all_states h (ji_actions intent) False) (\<lambda>_. all_recorded (rh_sha h) t (ji_actions intent))"
    if "wf_tree t" for t
    by (rule yields_verify_all[OF that]) (rule accepted_placed[OF assms])
  show ?thesis
    by (rule triple_try, rule triple_conseq[OF holds_yields[OF only_reads_verify_all y]]) (auto simp: holds_def)
qed

text \<open>From any state a crash leaves, a transaction that is recovered is as recorded.\<close>

lemma lawful_recover_one:
  assumes acc: "accepted h (pt_intent p)" and hex: "hex_digests h"
  shows "triple lawful (recover_one h p) (\<lambda>_. holds (\<lambda>t. all_recorded (rh_sha h) t (ji_actions (pt_intent p)))) lawful"
  unfolding recover_one_def Let_def
proof (rule triple_bind)
  let ?i = "pt_intent p" let ?as = "ji_actions ?i" let ?A = "\<lambda>t. all_recorded (rh_sha h) t ?as"
  show "triple lawful (rollback_pending h (rev ?as)) (\<lambda>_. lawful) lawful"
    by (rule lawful_within) (intro within)
  fix errors
  have close: "triple (holds ?A) (io_bind (persist_rolled_back h ?i ValidationNotRun) (\<lambda>_. io_return ())) (\<lambda>_. holds ?A) lawful"
    unfolding persist_rolled_back_def
    by (rule triple_bind[OF holds_mono[OF holds_persist[OF hex]]]) (auto simp: accepted_recorded_outside[OF acc] intro: triple_return)
  show "triple lawful (io_bind (io_try (verify_all_states h ?as False)) (\<lambda>r.
        if errors @ (case r of Inl e \<Rightarrow> [e] | Inr _ \<Rightarrow> []) \<noteq> [] then io_fail (TxJoined (errors @ (case r of Inl e \<Rightarrow> [e] | Inr _ \<Rightarrow> [])))
        else io_bind (persist_rolled_back h ?i ValidationNotRun) (\<lambda>_. io_return ()))) (\<lambda>_. holds ?A) lawful"
  proof (rule triple_bind[OF lawful_verified[OF acc]])
    fix r
    have weak: "holds P s \<Longrightarrow> lawful s" for P s by (simp add: holds_def)
    show "triple (holds (\<lambda>t. r = Inr () \<longrightarrow> ?A t))
        (if errors @ (case r of Inl e \<Rightarrow> [e] | Inr _ \<Rightarrow> []) \<noteq> [] then io_fail (TxJoined (errors @ (case r of Inl e \<Rightarrow> [e] | Inr _ \<Rightarrow> [])))
         else io_bind (persist_rolled_back h ?i ValidationNotRun) (\<lambda>_. io_return ())) (\<lambda>_. holds ?A) lawful"
      using close by (cases r) (auto intro!: triple_fail weak)
  qed
qed

lemma lawful_recover_each:
  assumes "\<And>p. p \<in> set ps \<Longrightarrow> accepted h (pt_intent p)" "hex_digests h"
  shows "triple lawful (recover_each h ps)
     (\<lambda>_. holds (\<lambda>t. ps \<noteq> [] \<longrightarrow> all_recorded (rh_sha h) t (ji_actions (pt_intent (last ps))))) lawful"
  using assms(1)
proof (induction ps)
  case Nil
  then show ?case by (auto simp: recover_each_def intro: triple_return)
next
  case (Cons p ps)
  let ?A = "\<lambda>p t. all_recorded (rh_sha h) t (ji_actions (pt_intent p))"
  have one: "triple lawful (io_map_error f (without_cancel (recover_one h p))) (\<lambda>_. holds (?A p)) lawful" for f :: "tx_error \<Rightarrow> tx_error"
    by (intro triple_map_error holds_uncancelled lawful_recover_one Cons.prems assms(2)) simp
  have rest: "triple (holds (?A p)) (recover_each h ps) (\<lambda>_. holds (?A (last (p # ps)))) lawful"
  proof (cases "ps = []")
    case True
    then show ?thesis by (auto simp: recover_each_def intro: triple_return)
  next
    case False
    show ?thesis by (rule triple_conseq[OF Cons.IH]) (use Cons.prems False in \<open>auto simp: holds_def\<close>)
  qed
  show ?case
    using triple_then[OF one rest] by (simp add: recover_each_def)
qed

section \<open>The order of recovery\<close>

lemma distinct_keys_sort: "distinct (map f (sort_by lt xs)) \<longleftrightarrow> distinct (map f xs)"
  by (rule mset_eq_imp_distinct_iff) (simp only: mset_map mset_sort_by)

context slice_less begin

lemma strictly_sorted:
  assumes "slice_sorted lt xs" "distinct (map key xs)" "\<And>x y. key x \<noteq> key y \<Longrightarrow> \<not> lt y x \<Longrightarrow> lt x y"
  shows "sorted_wrt lt xs"
  using assms(1,2) by (induction xs) (use assms(3) in \<open>force+\<close>)

end

interpretation pending_order: slice_less pending_before
  by unfold_locales (auto simp: pending_before_def split: if_splits)

definition pending_key :: "pending_transaction \<Rightarrow> string \<times> 64 word" where
  "pending_key p = (di_restoreRunID (pt_descriptor p), di_mutationOrdinal (pt_descriptor p))"

definition scanned :: "store_host \<Rightarrow> guard \<Rightarrow> scan_state \<Rightarrow> bool" where
  "scanned h g acc \<longleftrightarrow> distinct (map pending_key (snd acc)) \<and> pending_key ` set (snd acc) \<subseteq> set (fst acc) \<and>
     (\<forall>p \<in> set (snd acc). accepted (sh_restore h) (pt_intent p) \<and>
        ji_transactionRoot (pt_intent p) = join_path [gu_transactions g, di_transactionID (pt_descriptor p)])"

lemma gives_scan_intent:
  assumes acc: "scanned h g acc" and root: "root = join_path [gu_transactions g, name]"
  shows "gives (scan_intent h name root acc) (scanned h g)"
proof -
  obtain ordinals pending where a: "acc = (ordinals, pending)" by fastforce
  have more: "scanned h g (x # ordinals, pending)" for x using acc by (auto simp: scanned_def a)
  have new: "gives (io_bind (read_journal_intent (sh_restore h) root) (\<lambda>intent. io_return ((di_restoreRunID d, di_mutationOrdinal d) # ordinals,
        pending @ [\<lparr>pt_descriptor = d, pt_started = s, pt_intent = intent\<rparr>]))) (scanned h g)"
    if "di_transactionID d = name" "(di_restoreRunID d, di_mutationOrdinal d) \<notin> set ordinals" for d s
    by (rule gives_bind[OF gives_read_intent], rule gives_return)
      (use acc that root in \<open>auto simp: scanned_def a pending_key_def\<close>)
  show ?thesis
    unfolding scan_intent_def a Let_def
    by (simp, rule gives_skip, split prod.split, intro allI impI, rule gives_skip)
      (auto intro!: gives_intro gives_skip[where m = "tx_attempt y" for y] more new)
qed

lemma gives_scan_entry: "scanned h g acc \<Longrightarrow> gives (scan_entry h g e acc) (scanned h g)"
  unfolding scan_entry_def Let_def
  by (auto intro!: gives_then gives_map_error gives_skip gives_intro gives_scan_intent split: prod.split)

lemma gives_pending:
  "gives (scan_pending h g) (\<lambda>ps. sorted_wrt pending_before ps \<and> distinct (map pending_key ps) \<and>
     list_all (\<lambda>p. accepted (sh_restore h) (pt_intent p) \<and>
        ji_transactionRoot (pt_intent p) = join_path [gu_transactions g, di_transactionID (pt_descriptor p)]) ps)"
proof -
  have "gives (io_fold (scan_entry h g) es ([], [])) (scanned h g)" for es
    by (rule gives_fold[OF _ gives_scan_entry]) (simp_all add: scanned_def)
  then have es: "gives (io_bind (io_fold (scan_entry h g) es ([], [])) (\<lambda>(_, pending). io_return (sort_by pending_before pending)))
      (\<lambda>ps. sorted_wrt pending_before ps \<and> distinct (map pending_key ps) \<and>
       list_all (\<lambda>p. accepted (sh_restore h) (pt_intent p) \<and>
        ji_transactionRoot (pt_intent p) = join_path [gu_transactions g, di_transactionID (pt_descriptor p)]) ps)" for es
  proof (rule gives_bind)
    fix acc assume s: "scanned h g acc"
    let ?ps = "sort_by pending_before (snd acc)"
    have d: "distinct (map pending_key ?ps)"
      using s by (simp add: distinct_keys_sort scanned_def)
    have "sorted_wrt pending_before ?ps"
      by (rule pending_order.strictly_sorted[OF pending_order.sorted_sort_by d]) (auto simp: pending_key_def pending_before_def)
    then show "gives (case acc of (_, pending) \<Rightarrow> io_return (sort_by pending_before pending))
      (\<lambda>ps. sorted_wrt pending_before ps \<and> distinct (map pending_key ps) \<and>
       list_all (\<lambda>p. accepted (sh_restore h) (pt_intent p) \<and>
        ji_transactionRoot (pt_intent p) = join_path [gu_transactions g, di_transactionID (pt_descriptor p)]) ps)"
      using s d by (auto simp: list_all_iff scanned_def split: prod.split intro!: gives_return)
  qed
  show ?thesis unfolding scan_pending_def by (intro gives_then gives_skip es)
qed

section \<open>After recovery\<close>

text \<open>The transactions recovery finds pending, in the order it takes them.\<close>

definition pending_of :: "store_host \<Rightarrow> work_codec \<Rightarrow> guard \<Rightarrow> tx \<Rightarrow> pending_transaction list" where
  "pending_of h c g s =
     (case io_then (reconcile_legacy_revert_work h c g) (scan_pending h g) s of (Inr ps, _) \<Rightarrow> ps | _ \<Rightarrow> [])"

context world_order begin

lemma within_legacy [within]:
  "within R (load_legacy_member_by_id h g i)" "within R (read_registered_journal h ld)" "within R (member_reverted h p k i d)"
  "within R (retire_legacy_revert_work h g i)" "within R (read_work_prepared c p n e d)"
  unfolding load_legacy_member_by_id_def decode_legacy_run_def read_registered_journal_def member_reverted_def
    retire_legacy_revert_work_def remove_safe_path_def read_work_prepared_def
  by (intro within)+

lemma within_work_entry [within]: "within R (validate_work_entry h c root journal name)"
  unfolding validate_work_entry_def validate_registry_import_stage_def validate_work_record_def Let_def
  by (intro within)

lemma within_reconcile_work [within]: "within R (reconcile_legacy_revert_work h c g)"
  unfolding reconcile_legacy_revert_work_def reconcile_work_root_def validate_legacy_revert_work_tree_def
    read_legacy_revert_journal_def legacy_reverted_def Let_def
  by (intro within)

lemma within_stored_descriptor [within]: "within R (read_stored_descriptor h root)"
  unfolding read_stored_descriptor_def by (intro within)

lemma within_metadata [within]: "within R (read_intent_metadata h root p)"
  unfolding read_intent_metadata_def by (intro within)

lemma within_scan_pending [within]: "within R (scan_pending h g)"
  unfolding scan_pending_def scan_entry_def scan_intent_def remove_safe_path_def Let_def
  by (intro within)

end

text \<open>
  Property C3. When recovery succeeds in a calm world, the oldest pending transaction, the last one it
  takes, has every filesystem target back in its recorded prior state and every created parent
  gone - from whatever state a crash left the tree in, whichever calls fail on the way. With one
  pending transaction this is the transaction the crash interrupted.
\<close>

theorem recovery_restores_recorded_states:
  assumes "calm (tx_world s)" and "wf_tree (w_tree (tx_world s))" and "hex_digests (sh_restore h)"
    and "recover_pending h c g s = (Inr (), s')" and "pending_of h c g s \<noteq> []"
  shows "all_recorded (sh_sha h) (w_tree (tx_world s')) (ji_actions (pt_intent (last (pending_of h c g s))))"
proof -
  let ?scan = "io_then (reconcile_legacy_revert_work h c g) (scan_pending h g)"
  obtain r v where l: "?scan s = (r, v)" by (cases "?scan s")
  have split: "recover_pending h c g = io_bind ?scan (recover_each (sh_restore h))"
    unfolding recover_pending_def io_then_bind by (rule refl)
  have s: "lawful s" using assms(1,2) by (simp add: holds_def sane_def)
  have w: "within stays_sane ?scan" by (intro within)
  obtain ps where r: "r = Inr ps" using assms(4) l by (cases r) (simp_all add: split io_bind_def)
  have ps: "pending_of h c g s = ps" by (simp add: pending_of_def l r)
  have "gives ?scan (\<lambda>ps. sorted_wrt pending_before ps \<and> distinct (map pending_key ps) \<and>
     list_all (\<lambda>p. accepted (sh_restore h) (pt_intent p) \<and>
        ji_transactionRoot (pt_intent p) = join_path [gu_transactions g, di_transactionID (pt_descriptor p)]) ps)"
    by (rule gives_then[OF gives_pending])
  then have acc: "\<And>p. p \<in> set ps \<Longrightarrow> accepted (sh_restore h) (pt_intent p)"
    using l r by (auto simp: gives_def list_all_iff)
  have "recover_each (sh_restore h) ps v = (Inr (), s')" using assms(4) l r by (simp add: split io_bind_def)
  moreover have "lawful v" using tripleD(2)[OF lawful_within[OF w] s] l r by blast
  ultimately have "holds (\<lambda>t. ps \<noteq> [] \<longrightarrow> all_recorded (sh_sha h) t (ji_actions (pt_intent (last ps)))) s'"
    using tripleD(2)[OF lawful_recover_each[OF acc assms(3)]] by blast
  then show ?thesis using assms(5) ps by (simp add: holds_def)
qed

end
