(* ===== verification/SettledReads.thy ===== *)
theory SettledReads
  imports RestoreRecoveryProperties
begin

text \<open>
  Runs that only read and whose answer is fixed by the tree: on one tree every run of them ends with the
  same result, or with an error of the kind a failing call gives. What the store reads of its members is
  of this kind, so that the members of a tree are well defined.
\<close>

section \<open>Settled runs\<close>

definition settled :: "('s \<Rightarrow> bool) \<Rightarrow> ('e \<Rightarrow> bool) \<Rightarrow> ('s, 'e, 'a) run \<Rightarrow> bool" where
  "settled P lost m \<longleftrightarrow> (\<exists>r0. \<forall>s r s'. P s \<longrightarrow> m s = (r, s') \<longrightarrow> P s' \<and> (r = r0 \<or> (\<exists>e. r = Inl e \<and> lost e)))"

named_theorems settled

lemma settledI: "(\<And>s r s'. P s \<Longrightarrow> m s = (r, s') \<Longrightarrow> P s' \<and> (r = r0 \<or> (\<exists>e. r = Inl e \<and> lost e))) \<Longrightarrow> settled P lost m"
  unfolding settled_def by blast

lemma settled_same: "settled P lost m \<Longrightarrow> P s \<Longrightarrow> m s = (Inr x, s') \<Longrightarrow> P v \<Longrightarrow> m v = (Inr y, v') \<Longrightarrow> x = y"
  unfolding settled_def by (metis Inl_Inr_False sum.inject(2))

lemma settled_keeps: "settled P lost m \<Longrightarrow> P s \<Longrightarrow> m s = (r, s') \<Longrightarrow> P s'"
  unfolding settled_def by blast

lemma settled_return [settled]: "settled P lost (io_return x)" by (rule settledI[of _ _ "Inr x"]) (simp add: io_return_def)
lemma settled_fail [settled]: "settled P lost (io_fail e)" by (rule settledI[of _ _ "Inl e"]) (simp add: io_fail_def)
lemma settled_of [settled]: "settled P lost (io_of r)" by (rule settledI[of _ _ r]) (simp add: io_of_def)

lemma settled_bind [settled]:
  assumes "settled P lost m" "\<And>x. settled P lost (k x)"
  shows "settled P lost (io_bind m k)"
proof -
  obtain r0 where r0': "\<forall>s r s'. P s \<longrightarrow> m s = (r, s') \<longrightarrow> P s' \<and> (r = r0 \<or> (\<exists>e. r = Inl e \<and> lost e))"
    using assms(1) unfolding settled_def by blast
  note r0 = r0'[rule_format]
  show ?thesis
  proof (cases r0)
    case (Inl e0)
    show ?thesis
      by (rule settledI[of _ _ "Inl e0"]) (use r0 Inl in \<open>fastforce simp: io_bind_def split: prod.splits sum.splits\<close>)
  next
    case (Inr x)
    obtain r1 where r1': "\<forall>s r s'. P s \<longrightarrow> k x s = (r, s') \<longrightarrow> P s' \<and> (r = r1 \<or> (\<exists>e. r = Inl e \<and> lost e))"
      using assms(2) unfolding settled_def by blast
    note r1 = r1'[rule_format]
    show ?thesis
    proof (rule settledI[of _ _ r1])
      fix s r s' assume s: "P s" "io_bind m k s = (r, s')"
      obtain q v where q: "m s = (q, v)" by fastforce
      have v: "P v" "q = r0 \<or> (\<exists>e. q = Inl e \<and> lost e)" using r0[OF s(1) q] by blast+
      show "P s' \<and> (r = r1 \<or> (\<exists>e. r = Inl e \<and> lost e))"
        using v(2)
      proof
        assume "q = r0"
        then have "k x v = (r, s')" using s(2) q Inr by (simp add: io_bind_def)
        then show ?thesis by (rule r1[OF v(1)])
      next
        assume "\<exists>e. q = Inl e \<and> lost e"
        then show ?thesis using s(2) q v(1) by (auto simp: io_bind_def)
      qed
    qed
  qed
qed

lemma settled_then [settled]: "settled P lost m \<Longrightarrow> settled P lost k \<Longrightarrow> settled P lost (io_then m k)"
  unfolding io_then_def by (rule settled_bind)

lemma settled_map_error:
  assumes "settled P l m" "\<And>e. l e \<Longrightarrow> lost (f e)"
  shows "settled P lost (io_map_error f m)"
proof -
  obtain r0 where r0': "\<forall>s r s'. P s \<longrightarrow> m s = (r, s') \<longrightarrow> P s' \<and> (r = r0 \<or> (\<exists>e. r = Inl e \<and> l e))"
    using assms(1) unfolding settled_def by blast
  note r0 = r0'[rule_format]
  show ?thesis
  proof (rule settledI[of _ _ "map_sum f id r0"])
    fix s r s' assume s: "P s" "io_map_error f m s = (r, s')"
    obtain q v where q: "m s = (q, v)" by fastforce
    have v: "P v" "q = r0 \<or> (\<exists>e. q = Inl e \<and> l e)" using r0[OF s(1) q] by blast+
    have "r = map_sum f id q" "s' = v" using s(2) q by (cases q; simp add: io_map_error_def)+
    then show "P s' \<and> (r = map_sum f id r0 \<or> (\<exists>e. r = Inl e \<and> lost e))" using v assms(2) by auto
  qed
qed

text \<open>A run whose errors are looked at: an error of a failing call must not be taken for an answer.\<close>

lemma settled_attempt:
  assumes "settled P l m" "\<And>r. settled P lost (k r)" "\<And>e. l e \<Longrightarrow> \<exists>e'. lost e' \<and> k (Inl e) = io_fail e'"
  shows "settled P lost (io_bind (io_try m) k)"
proof -
  obtain r0 where r0': "\<forall>s r s'. P s \<longrightarrow> m s = (r, s') \<longrightarrow> P s' \<and> (r = r0 \<or> (\<exists>e. r = Inl e \<and> l e))"
    using assms(1) unfolding settled_def by blast
  note r0 = r0'[rule_format]
  obtain r1 where r1': "\<forall>s r s'. P s \<longrightarrow> k r0 s = (r, s') \<longrightarrow> P s' \<and> (r = r1 \<or> (\<exists>e. r = Inl e \<and> lost e))"
    using assms(2) unfolding settled_def by blast
  note r1 = r1'[rule_format]
  show ?thesis
  proof (rule settledI[of _ _ r1])
    fix s r s' assume s: "P s" "io_bind (io_try m) k s = (r, s')"
    obtain q v where q: "m s = (q, v)" by fastforce
    have v: "P v" "q = r0 \<or> (\<exists>e. q = Inl e \<and> l e)" using r0[OF s(1) q] by blast+
    have k: "k q v = (r, s')" using s(2) q by (simp add: io_bind_def io_try_def)
    show "P s' \<and> (r = r1 \<or> (\<exists>e. r = Inl e \<and> lost e))"
      using v(2)
    proof
      assume "q = r0"
      then show ?thesis using r1[OF v(1)] k by simp
    next
      assume "\<exists>e. q = Inl e \<and> l e"
      then obtain e' where "lost e'" "k q = io_fail e'" using assms(3) by blast
      then show ?thesis using k v(1) by (auto simp: io_fail_def)
    qed
  qed
qed

lemma settled_if [settled]: "settled P lost a \<Longrightarrow> settled P lost b \<Longrightarrow> settled P lost (if c then a else b)" by simp

lemma settled_case_prod [settled]: "(\<And>x y. settled P lost (f x y)) \<Longrightarrow> settled P lost (case r of (x, y) \<Rightarrow> f x y)"
  by (cases r) simp

lemma settled_case_option [settled]:
  "settled P lost f \<Longrightarrow> (\<And>x. settled P lost (g x)) \<Longrightarrow> settled P lost (case r of None \<Rightarrow> f | Some x \<Rightarrow> g x)"
  by (cases r) simp_all

lemma settled_case_sum [settled]:
  "(\<And>e. settled P lost (f e)) \<Longrightarrow> (\<And>x. settled P lost (g x)) \<Longrightarrow> settled P lost (case r of Inl e \<Rightarrow> f e | Inr x \<Rightarrow> g x)"
  by (cases r) simp_all

section \<open>Reads of a tree\<close>

abbreviation (input) eio :: "errno \<Rightarrow> bool" where "eio e \<equiv> e = EIO"
abbreviation (input) path_eio :: "path_error \<Rightarrow> bool" where "path_eio e \<equiv> e = OsError EIO"

definition lost_call :: "tx_error \<Rightarrow> bool" where "lost_call e \<longleftrightarrow> \<not> not_exist e"

lemma lost_call_simps [simp]: "lost_call (TxOs EIO)" "lost_call (TxRead (OsError EIO))" "lost_call TxCanceled"
  by (simp_all add: lost_call_def not_exist_def)

abbreviation on_tree :: "tree \<Rightarrow> tx \<Rightarrow> bool" where "on_tree t s \<equiv> frozen t (tx_world s)"

lemma settled_query: "settled (frozen t) eio (query f)"
proof (rule settledI[of _ _ "f t"])
  fix w r w' assume "frozen t w" "query f w = (r, w')"
  then show "frozen t w' \<and> (r = f t \<or> (\<exists>e. r = Inl e \<and> e = EIO))"
    using query_calm[of w f r w'] by (auto simp: frozen_def)
qed

lemma settled_path [settled]:
  "settled (frozen t) path_eio (os (lstat p))" "settled (frozen t) path_eio (os (open_file p))"
  unfolding lstat_def open_file_def by (rule settled_map_error[OF settled_query]; simp)+

lemma settled_read_regular: "settled (frozen t) path_eio (read_regular_file p)"
  unfolding read_regular_file_def read_regular_file_bounded_def open_verified_def verify_copy_source_def
  by (intro settled)

lemma settled_lift:
  assumes "settled (frozen t) l m" shows "settled (on_tree t) l (tx_lift m)"
proof -
  obtain r0 where r0': "\<forall>s r s'. frozen t s \<longrightarrow> m s = (r, s') \<longrightarrow> frozen t s' \<and> (r = r0 \<or> (\<exists>e. r = Inl e \<and> l e))"
    using assms unfolding settled_def by blast
  note r0 = r0'[rule_format]
  show ?thesis
    by (rule settledI[of _ _ r0]) (use r0 in \<open>fastforce simp: tx_lift_def split: prod.splits\<close>)
qed

lemma settled_file [settled]: "settled (on_tree t) lost_call (tx_lift (io_map_error TxRead (read_regular_file p)))"
  by (rule settled_lift, rule settled_map_error[OF settled_read_regular]) simp

lemma settled_store_file [settled]: "settled (on_tree t) lost_call (read_store_file p)"
  unfolding read_store_file_def by (intro settled)

lemma settled_nodes [settled]: "settled (on_tree t) lost_call (tx_os (read_dir_nodes p))"
  unfolding tx_os_def read_dir_nodes_def by (rule settled_lift, rule settled_map_error[OF settled_query]) simp

lemma settled_links: "settled (frozen t) lost_call (target_links_in ps)"
proof (induction ps)
  case (Cons p ps)
  show ?case
    unfolding target_links_in.simps lstat_def
  proof (rule settled_attempt[OF settled_query])
    fix r
    show "settled (frozen t) lost_call (case r of
         Inl ENOENT \<Rightarrow> io_return ()
       | Inl e \<Rightarrow> io_fail (TxOs e)
       | Inr info \<Rightarrow> if is_link info then io_fail TxLink
           else if ps \<noteq> [] \<and> \<not> is_dir info then io_fail TxNotDirectory else target_links_in ps)"
      using Cons by (auto split: sum.split errno.split intro!: settled)
  qed (auto intro: exI[of _ "TxOs EIO"])
qed (simp add: settled)

lemma settled_reject [settled]: "settled (on_tree t) lost_call (reject_existing_target_links p)"
  unfolding reject_existing_target_links_def by (rule settled_lift[OF settled_links])

lemma settled_context [settled]: "settled (on_tree t) lost_call check_context"
  by (rule settledI[of _ _ "Inr ()"]) (auto simp: check_context_def split: list.splits if_splits)

text \<open>\<open>tx_try\<close> of a query.\<close>

lemma settled_try_lstat:
  assumes "\<And>r. settled (on_tree t) lost_call (k r)" "k (Inl EIO) = io_fail (TxOs EIO)"
  shows "settled (on_tree t) lost_call (io_bind (tx_try (lstat p)) k)"
proof -
  have "tx_try (lstat p) = io_try (tx_lift (lstat p))"
    by (rule ext) (simp add: tx_try_def tx_lift_def io_try_def split: prod.split)
  then show ?thesis
    unfolding lstat_def
    by (simp only:) (rule settled_attempt[OF settled_lift[OF settled_query] assms(1)], use assms(2) lost_call_simps(1) in blast)
qed

section \<open>What the store reads\<close>

lemma settled_member_reverted [settled]: "settled (on_tree t) lost_call (member_reverted h p kind i d)"
  unfolding member_reverted_def tx_attempt_def
  by (rule settled_attempt[OF settled_store_file]) (auto simp: lost_call_def split: sum.split intro!: settled)

lemma settled_metadata [settled]: "settled (on_tree t) lost_call (read_intent_metadata h root p)"
  unfolding read_intent_metadata_def by (intro settled)

lemma settled_marker [settled]: "settled (on_tree t) lost_call (read_marker_file h root p intent)"
  unfolding read_marker_file_def by (intro settled)

lemma settled_descriptor [settled]: "settled (on_tree t) lost_call (read_stored_descriptor h root)"
  unfolding read_stored_descriptor_def by (intro settled)

lemma settled_generation_member: "settled (on_tree t) lost_call (generation_member h g e)"
proof (cases e)
  case (Pair name n)
  show ?thesis
    unfolding generation_member_def Pair prod.case Let_def
    by (intro settled_then settled_if settled_context settled_fail settled_try_lstat) (auto intro!: settled)
qed

lemma settled_legacy_member: "settled (on_tree t) lost_call (legacy_member h g e)"
  unfolding legacy_member_def legacy_reverted_def read_registered_journal_def decode_legacy_run_def Let_def
  by (intro settled)

text \<open>What a run answers on a tree, when no call fails.\<close>

definition answers :: "tree \<Rightarrow> 'a action_run \<Rightarrow> 'a \<Rightarrow> bool" where
  "answers t m x \<longleftrightarrow> (\<exists>s s'. on_tree t s \<and> m s = (Inr x, s'))"

lemma answersI: "on_tree t s \<Longrightarrow> m s = (Inr x, s') \<Longrightarrow> answers t m x"
  unfolding answers_def by blast

lemma answers_unique: "settled (on_tree t) lost m \<Longrightarrow> answers t m x \<Longrightarrow> answers t m y \<Longrightarrow> x = y"
  unfolding answers_def using settled_same by metis

end
