(* ===== verification/RestoreStoreProperties.thy ===== *)
theory RestoreStoreProperties
  imports SettledReads
begin

text \<open>
  What the store guarantees of its members: reverting a transaction gives its targets the recorded
  prior states back and reports every action once, a root with a durable intent is never discarded,
  and the active runs and their members are strictly ordered.
\<close>

section \<open>Publishing a record keeps what is outside its directory\<close>

lemma keeps_write_record:
  assumes tmp: "is_abs temporary" "strict_prefix R (clean_elements temporary)" "known K (clean_elements temporary)"
    and p: "is_abs p" "strict_prefix R (clean_elements p)" "known K (butlast (clean_elements p))"
  shows "within (keeps (within_root R t0 K)) (write_store_record temporary p data)"
  unfolding write_store_record_def by (intro within keeps_publish_no_replace[OF tmp p])

lemma record_keeps_root:
  assumes d: "is_abs dir" "known K (clean_elements dir)" and name: "plain_element name" "name \<noteq> ''..''"
  shows "triple (within_root (clean_elements dir) t0 K)
     (io_bind (tx_os (create_temp_suffix dir ''.store-record-'' ''.tmp'')) (\<lambda>temporary.
        io_finally (write_store_record temporary (join_path [dir, name]) data) (tx_os (remove temporary))))
     (\<lambda>_. within_root (clean_elements dir) t0 K) (within_root (clean_elements dir) t0 K)"
  by (rule temporary_keeps_root[OF d(1) _ d(2)])
    (use join_component[OF d(1) name] in \<open>auto intro!: keeps_write_record simp: strict_prefix_def\<close>)

lemma publish_keeps_outside:
  assumes wf: "wf_tree t" and d: "is_abs dir" and name: "plain_element name" "name \<noteq> ''..''"
  shows "triple (\<lambda>s. frozen t (tx_world s)) (publish_immutable_store_record dir name data)
     (\<lambda>_. within_root (clean_elements dir) t {}) (within_root (clean_elements dir) t {})"
  unfolding publish_immutable_store_record_def
proof (rule triple_bind)
  let ?I = "within_root (clean_elements dir) t {}" and ?W = "within_root (clean_elements dir) t {clean_elements dir}"
  have weak: "frozen t (tx_world s) \<Longrightarrow> ?I s" for s by (simp add: within_root_def st_def frozen_def wf)
  have start: "linkfree t (clean_elements dir) \<Longrightarrow> frozen t (tx_world s) \<Longrightarrow> ?W s" for s
    by (simp add: within_root_def st_def frozen_def wf)
  have stop: "?W s \<Longrightarrow> ?I s" for s by (auto simp: within_root_def intro: st_mono)
  have rec: "triple (\<lambda>s. frozen t (tx_world s)) (publish_store_record dir name data) (\<lambda>_. ?I) ?I"
    unfolding publish_store_record_def
  proof (rule triple_then)
    show "triple (\<lambda>s. frozen t (tx_world s)) (reject_existing_target_links dir)
        (\<lambda>_ s. linkfree t (clean_elements dir) \<and> frozen t (tx_world s)) ?I"
      by (rule triple_conseq[OF yields_triple[OF only_reads_reject yields_reject[OF wf d]]]) (auto simp: weak)
    show "triple (\<lambda>s. linkfree t (clean_elements dir) \<and> frozen t (tx_world s))
        (io_bind (tx_os (create_temp_suffix dir ''.store-record-'' ''.tmp'')) (\<lambda>temporary.
          io_finally (write_store_record temporary (join_path [dir, name]) data) (tx_os (remove temporary)))) (\<lambda>_. ?I) ?I"
      by (rule triple_conseq[OF record_keeps_root[OF d _ name, where K = "{clean_elements dir}" and ?t0.0 = t]]) (auto simp: start stop knownI)
  qed
  show "triple (\<lambda>s. frozen t (tx_world s)) (tx_attempt (publish_store_record dir name data)) (\<lambda>_. ?I) ?I"
    unfolding tx_attempt_def using rec by (rule triple_try_same)
  fix r
  have "within (keeps ?I) (reconcile_store_record e dir (join_path [dir, name]) data)" for e
    unfolding reconcile_store_record_def tx_attempt_def
    by (intro keeps_only_reads) (intro within readonly)
  then show "triple ?I (case r of Inl publishErr \<Rightarrow> reconcile_store_record publishErr dir (join_path [dir, name]) data
      | Inr _ \<Rightarrow> io_return ()) (\<lambda>_. ?I) ?I"
    unfolding keeps_triple by (auto split: sum.split intro: triple_return)
qed

lemma holds_record:
  assumes d: "is_abs dir" and name: "plain_element name" "name \<noteq> ''..''"
    and stable: "\<And>t t'. same_outside (clean_elements dir) t t' \<Longrightarrow> P t \<Longrightarrow> P t'"
  shows "triple (holds P) (publish_immutable_store_record dir name data) (\<lambda>_. holds P) (holds P)"
proof -
  let ?m = "publish_immutable_store_record dir name data" and ?R = "clean_elements dir"
  have out: "holds P s'" if "holds P s" "within_root ?R (w_tree (tx_world s)) {} s'" for s s'
    using that stable by (auto simp: holds_def within_root_def st_def sane_def)
  have run: "holds P s'" if s: "holds P s" "?m s = (r, s')" for s r s'
  proof -
    have f: "frozen (w_tree (tx_world s)) (tx_world s)" "wf_tree (w_tree (tx_world s))"
      using s(1) by (simp_all add: holds_def sane_def frozen_def)
    show ?thesis
      using tripleD[OF publish_keeps_outside[OF f(2) d name] f(1)] s(2) out[OF s(1)] by (cases r) blast+
  qed
  then show ?thesis by (intro tripleI) blast+
qed

section \<open>Reverting a transaction\<close>

text \<open>The intent a revert works from.\<close>

definition revert_intent :: "store_host \<Rightarrow> guard \<Rightarrow> store_member option \<Rightarrow> tx \<Rightarrow> journal_intent option" where
  "revert_intent h g member s =
     (case io_then check_context (io_then (require_lease g) (load_active_generation_member h g member)) s of
        (Inr intent, _) \<Rightarrow> Some intent
      | _ \<Rightarrow> None)"

definition apply_revert ::
    "store_host \<Rightarrow> guard \<Rightarrow> store_member option \<Rightarrow> journal_intent \<Rightarrow> (generation_revert_result \<times> tx_error option) action_run" where
  "apply_revert h g member intent =
     (let m = the member; actions = ji_actions intent; root = join_path [gu_transactions g, sm_memberID m] in
      io_then (preflight_generation_revert (sh_restore h) actions)
      (io_bind (without_cancel (revert_all (sh_restore h) actions)) (\<lambda>(reverted, errors).
        let result = \<lparr>grr_actionCount = 0, grr_actions = reverted\<rparr> in
        if errors \<noteq> [] then io_return (result, Some (TxJoined errors))
        else io_bind (tx_attempt (publish_immutable_store_record root ''reverted.json''
            (snd (new_member_revert h StoreMemberGeneration (sm_memberID m) (sm_sourceDigest m))))) (\<lambda>r.
          case r of
            Inl e \<Rightarrow> io_return (result, Some e)
          | Inr _ \<Rightarrow> io_return (result\<lparr>grr_actionCount := length reverted\<rparr>, None)))))"

lemma revert_split:
  "revert_generation_member h g member =
     io_bind (io_then check_context (io_then (require_lease g) (load_active_generation_member h g member))) (apply_revert h g member)"
  unfolding revert_generation_member_def apply_revert_def[abs_def] io_then_bind by (rule refl)

lemma gives_load_active:
  "gives (load_active_generation_member h g member)
     (\<lambda>i. accepted (sh_restore h) i \<and> ji_transactionRoot i = join_path [gu_transactions g, sm_memberID (the member)] \<and>
        is_opaque_store_id (sm_memberID (the member)))"
proof (cases "valid_member g StoreMemberGeneration member")
  case True
  then have "is_opaque_store_id (sm_memberID (the member))" by (auto simp: valid_member_def split: option.splits)
  then show ?thesis
    unfolding load_active_generation_member_def Let_def
    by (auto simp: True intro!: gives_skip gives_intro gives_mono[OF gives_read_intent] split: prod.split)
qed (simp add: load_active_generation_member_def)

lemma gives_revert_actions:
  "gives (revert_actions h as) (\<lambda>(reverted, errors). errors = [] \<longrightarrow> reverted = map reverted_action as)"
proof (induction as)
  case (Cons a as)
  show ?case unfolding revert_actions.simps
    by (rule gives_skip, rule gives_bind[OF Cons]) (auto intro!: gives_return split: sum.split)
qed (simp add: gives_return)

lemma lawful_revert_all:
  assumes acc: "accepted h intent"
  shows "triple lawful (revert_all h (ji_actions intent)) (\<lambda>(reverted, errors).
     holds (\<lambda>t. errors = [] \<longrightarrow> all_recorded (rh_sha h) t (ji_actions intent) \<and> reverted = map reverted_action (rev (ji_actions intent)))) lawful"
  unfolding revert_all_def
proof (rule triple_bind)
  let ?as = "ji_actions intent"
  have w: "within stays_sane (revert_actions h (rev ?as))" by (intro within)
  show "triple lawful (revert_actions h (rev ?as))
      (\<lambda>x s. (case x of (reverted, errors) \<Rightarrow> errors = [] \<longrightarrow> reverted = map reverted_action (rev ?as)) \<and> lawful s) lawful"
  proof (rule tripleI)
    fix s e s' assume "lawful s" "revert_actions h (rev ?as) s = (Inl e, s')"
    then show "lawful s'" using tripleD(1)[OF lawful_within[OF w]] by blast
  next
    fix s x s' assume "lawful s" "revert_actions h (rev ?as) s = (Inr x, s')"
    then show "(case x of (reverted, errors) \<Rightarrow> errors = [] \<longrightarrow> reverted = map reverted_action (rev ?as)) \<and> lawful s'"
      using tripleD(2)[OF lawful_within[OF w]] givesD[OF gives_revert_actions] by blast
  qed
  fix x :: "generation_revert_action list \<times> tx_error list"
  obtain reverted errors where x: "x = (reverted, errors)" by fastforce
  show "triple (\<lambda>s. (case x of (reverted, errors) \<Rightarrow> errors = [] \<longrightarrow> reverted = map reverted_action (rev ?as)) \<and> lawful s)
      (case x of (reverted, errors) \<Rightarrow> (io_bind (io_try (verify_all_states h ?as False)) (\<lambda>r.
         io_return (reverted, errors @ (case r of Inl e \<Rightarrow> [e] | Inr _ \<Rightarrow> []))) ::
           (generation_revert_action list \<times> tx_error list) action_run))
      (\<lambda>(reverted, errors). holds (\<lambda>t. errors = [] \<longrightarrow> all_recorded (rh_sha h) t ?as \<and> reverted = map reverted_action (rev ?as))) lawful"
    unfolding x prod.case
  proof (rule triple_pure, rule triple_bind)
    show "triple lawful (io_try (verify_all_states h ?as False) :: (tx_error + unit) action_run)
      (\<lambda>r. holds (\<lambda>t. r = Inr () \<longrightarrow> all_recorded (rh_sha h) t ?as)) lawful" by (rule lawful_verified[OF acc])
  next
    fix r assume "errors = [] \<longrightarrow> reverted = map reverted_action (rev ?as)"
    then show "triple (holds (\<lambda>t. r = Inr () \<longrightarrow> all_recorded (rh_sha h) t ?as))
       (io_return (reverted, errors @ (case r of Inl e \<Rightarrow> [e] | Inr _ \<Rightarrow> [])))
       (\<lambda>(reverted, errors). holds (\<lambda>t. errors = [] \<longrightarrow> all_recorded (rh_sha h) t ?as \<and> reverted = map reverted_action (rev ?as))) lawful"
      by (intro triple_return) (auto simp: holds_def split: sum.splits)
  qed
qed

definition revert_done :: "store_host \<Rightarrow> journal_intent \<Rightarrow> generation_revert_result \<times> tx_error option \<Rightarrow> tree \<Rightarrow> bool" where
  "revert_done h intent x t \<longleftrightarrow> (case x of
     (res, None) \<Rightarrow> all_recorded (sh_sha h) t (ji_actions intent) \<and>
        grr_actions res = map reverted_action (rev (ji_actions intent)) \<and> grr_actionCount res = length (ji_actions intent)
   | (res, Some _) \<Rightarrow> grr_actionCount res = 0)"

lemma lawful_apply_revert:
  assumes acc: "accepted (sh_restore h) intent"
    and root: "ji_transactionRoot intent = join_path [gu_transactions g, sm_memberID (the member)]"
  shows "triple lawful (apply_revert h g member intent) (\<lambda>x. holds (revert_done h intent x)) lawful"
  unfolding apply_revert_def Let_def
proof (rule triple_then)
  let ?h = "sh_restore h" and ?as = "ji_actions intent" and ?root = "join_path [gu_transactions g, sm_memberID (the member)]"
  let ?A = "\<lambda>t. all_recorded (sh_sha h) t ?as"
  have "within stays_sane (preflight_action ?h a)" for a unfolding preflight_action_def by (intro within)
  then have "within stays_sane (preflight_generation_revert ?h ?as)" unfolding preflight_generation_revert_def by (intro within)
  then show "triple lawful (preflight_generation_revert ?h ?as) (\<lambda>_. lawful) lawful" by (rule lawful_within)
  have weak: "holds P s \<Longrightarrow> lawful s" for P s by (simp add: holds_def)
  have abs: "is_abs ?root" using acc root by (simp add: accepted_def)
  have name: "plain_element ''reverted.json''" "''reverted.json'' \<noteq> ''..''" by (simp_all add: plain_element_def)
  have publish: "triple (holds ?A) (tx_attempt (publish_immutable_store_record ?root ''reverted.json'' data)) (\<lambda>_. holds ?A) lawful" for data
    unfolding tx_attempt_def
    by (rule triple_try_same, rule holds_record[OF abs name]) (simp add: accepted_recorded_outside[OF acc, unfolded root])
  have closing: "triple (holds (\<lambda>t. errors = [] \<longrightarrow> ?A t \<and> reverted = map reverted_action (rev ?as)))
      (if errors \<noteq> [] then io_return (\<lparr>grr_actionCount = 0, grr_actions = reverted\<rparr>, Some (TxJoined errors))
       else io_bind (tx_attempt (publish_immutable_store_record ?root ''reverted.json'' data)) (\<lambda>r.
          case r of
            Inl e \<Rightarrow> io_return (\<lparr>grr_actionCount = 0, grr_actions = reverted\<rparr>, Some e)
          | Inr _ \<Rightarrow> io_return (\<lparr>grr_actionCount = 0, grr_actions = reverted\<rparr>\<lparr>grr_actionCount := length reverted\<rparr>, None)))
      (\<lambda>x. holds (revert_done h intent x)) lawful" for errors reverted data
  proof (cases "errors = []")
    case True
    have "triple (\<lambda>s. reverted = map reverted_action (rev ?as) \<and> holds ?A s)
      (io_bind (tx_attempt (publish_immutable_store_record ?root ''reverted.json'' data)) (\<lambda>r.
          case r of
            Inl e \<Rightarrow> io_return (\<lparr>grr_actionCount = 0, grr_actions = reverted\<rparr>, Some e)
          | Inr _ \<Rightarrow> io_return (\<lparr>grr_actionCount = 0, grr_actions = reverted\<rparr>\<lparr>grr_actionCount := length reverted\<rparr>, None)))
      (\<lambda>x. holds (revert_done h intent x)) lawful"
      by (rule triple_pure, rule triple_bind[OF publish])
        (auto split: sum.split intro!: triple_return simp: holds_def revert_done_def)
    then show ?thesis
      by (subst if_not_P, simp add: True, elim triple_conseq) (auto simp: holds_def True)
  next
    case False
    then show ?thesis by (simp, intro triple_return) (auto simp: holds_def revert_done_def)
  qed
  show "triple lawful (io_bind (without_cancel (revert_all ?h ?as)) (\<lambda>(reverted, errors).
        if errors \<noteq> [] then io_return (\<lparr>grr_actionCount = 0, grr_actions = reverted\<rparr>, Some (TxJoined errors))
        else io_bind (tx_attempt (publish_immutable_store_record ?root ''reverted.json''
            (snd (new_member_revert h StoreMemberGeneration (sm_memberID (the member)) (sm_sourceDigest (the member)))))) (\<lambda>r.
          case r of
            Inl e \<Rightarrow> io_return (\<lparr>grr_actionCount = 0, grr_actions = reverted\<rparr>, Some e)
          | Inr _ \<Rightarrow> io_return (\<lparr>grr_actionCount = 0, grr_actions = reverted\<rparr>\<lparr>grr_actionCount := length reverted\<rparr>, None))))
      (\<lambda>x. holds (revert_done h intent x)) lawful"
  proof (rule triple_bind)
    show "triple lawful (without_cancel (revert_all ?h ?as)) (\<lambda>x. holds (\<lambda>t. snd x = [] \<longrightarrow> ?A t \<and> fst x = map reverted_action (rev ?as))) lawful"
      by (rule holds_uncancelled, rule triple_conseq[OF lawful_revert_all[OF acc]]) auto
    fix x :: "generation_revert_action list \<times> tx_error list"
    obtain reverted errors where x: "x = (reverted, errors)" by fastforce
    show "triple (holds (\<lambda>t. snd x = [] \<longrightarrow> ?A t \<and> fst x = map reverted_action (rev ?as)))
      (case x of (reverted, errors) \<Rightarrow>
        if errors \<noteq> [] then io_return (\<lparr>grr_actionCount = 0, grr_actions = reverted\<rparr>, Some (TxJoined errors))
        else io_bind (tx_attempt (publish_immutable_store_record ?root ''reverted.json''
            (snd (new_member_revert h StoreMemberGeneration (sm_memberID (the member)) (sm_sourceDigest (the member)))))) (\<lambda>r.
          case r of
            Inl e \<Rightarrow> io_return (\<lparr>grr_actionCount = 0, grr_actions = reverted\<rparr>, Some e)
          | Inr _ \<Rightarrow> io_return (\<lparr>grr_actionCount = 0, grr_actions = reverted\<rparr>\<lparr>grr_actionCount := length reverted\<rparr>, None)))
      (\<lambda>x. holds (revert_done h intent x)) lawful"
      unfolding x prod.case fst_conv snd_conv by (rule closing)
  qed
qed

text \<open>
  Property C7. When RevertGenerationMember succeeds in a calm world, every filesystem target of the
  intent it read has its recorded prior state again, every created parent is gone, and the result
  lists all actions of the intent once, in reverse order.
\<close>

theorem reverted_member_is_as_recorded:
  assumes "calm (tx_world s)" and "wf_tree (w_tree (tx_world s))"
    and "revert_generation_member h g member s = (Inr (res, None), s')"
  shows "\<exists>intent. revert_intent h g member s = Some intent \<and>
     all_recorded (sh_sha h) (w_tree (tx_world s')) (ji_actions intent) \<and>
     grr_actions res = map reverted_action (rev (ji_actions intent)) \<and> grr_actionCount res = length (ji_actions intent)"
proof -
  let ?load = "io_then check_context (io_then (require_lease g) (load_active_generation_member h g member))"
  obtain r v where l: "?load s = (r, v)" by (cases "?load s")
  have w: "within stays_sane ?load"
    unfolding require_lease_def load_active_generation_member_def read_stored_descriptor_def member_reverted_def Let_def
      read_intent_metadata_def
    by (intro within)
  have s: "lawful s" using assms(1,2) by (simp add: holds_def sane_def)
  have "gives ?load (\<lambda>i. accepted (sh_restore h) i \<and> ji_transactionRoot i = join_path [gu_transactions g, sm_memberID (the member)])"
    by (intro gives_then gives_mono[OF gives_load_active]) blast
  note loaded = givesD[OF this]
  show ?thesis
  proof (cases r)
    case (Inl e)
    then show ?thesis using assms(3) l by (simp add: revert_split io_bind_def)
  next
    case (Inr intent)
    have v: "lawful v" using tripleD(2)[OF lawful_within[OF w] s] l Inr by blast
    have "apply_revert h g member intent v = (Inr (res, None), s')"
      using assms(3) l Inr by (simp add: revert_split io_bind_def)
    from tripleD(2)[OF lawful_apply_revert v this] have "holds (revert_done h intent (res, None)) s'"
      using loaded l Inr by blast
    then show ?thesis using l Inr by (auto simp: holds_def revert_done_def revert_intent_def)
  qed
qed

section \<open>Discarding a root\<close>

lemma discard_keeps_intent:
  "if wf_tree t \<and> fmlookup t (clean_elements root @ [''journal'', ''intent.json'']) \<noteq> None
   then triple (\<lambda>s. frozen t (tx_world s)) (discard_transaction_root h g root)
     (\<lambda>_ s. frozen t (tx_world s)) (\<lambda>s. frozen t (tx_world s))
   else True"
proof (cases "wf_tree t \<and> fmlookup t (clean_elements root @ [''journal'', ''intent.json'']) \<noteq> None")
  case True
  let ?F = "\<lambda>s. frozen t (tx_world s)"
  have lease: "triple ?F (require_lease g) (\<lambda>_. ?F) ?F"
    unfolding require_lease_def io_when_def by (auto intro: triple_fail triple_return)
  have body: "triple ?F (io_then (reject_existing_target_links root)
        (io_bind (tx_try (lstat (intent_path root))) (\<lambda>r. case r of Inr _ \<Rightarrow> io_return ()
          | Inl e \<Rightarrow> if e \<noteq> ENOENT then io_fail (TxOs e)
              else io_bind (read_stored_descriptor h root) (\<lambda>_. without_cancel (remove_safe_path (sh_restore h) root))))) (\<lambda>_. ?F) ?F"
    if root: "is_abs root"
  proof (rule triple_then)
    show "triple ?F (reject_existing_target_links root) (\<lambda>_ s. linkfree t (clean_elements root) \<and> ?F s) ?F"
      using True root by (intro yields_triple only_reads_reject yields_reject) auto
    note key = intent_key[OF root]
    obtain n where n: "fmlookup t (clean_elements (intent_path root)) = Some n" using True key(1) by auto
    have at: "node_at t (locate t (intent_path root)) = Inr n"
      using locate_present[OF _ key(2) n] True n key(1) by (simp add: node_at_def entry_def)
    show "triple (\<lambda>s. linkfree t (clean_elements root) \<and> ?F s)
        (io_bind (tx_try (lstat (intent_path root))) (\<lambda>r. case r of Inr _ \<Rightarrow> io_return ()
          | Inl e \<Rightarrow> if e \<noteq> ENOENT then io_fail (TxOs e)
              else io_bind (read_stored_descriptor h root) (\<lambda>_. without_cancel (remove_safe_path (sh_restore h) root)))) (\<lambda>_. ?F) ?F"
    proof (rule triple_pure, rule triple_bind)
      show "triple ?F (tx_try (lstat (intent_path root))) (\<lambda>r s. (r = Inl EIO \<or> (\<exists>n. r = Inr n)) \<and> ?F s) ?F"
        unfolding lstat_def
        by (rule yields_triple[OF only_reads_tx_try yields_mono[OF yields_try]]) (auto intro: readonly simp: at)
      show "triple (\<lambda>s. (r = Inl EIO \<or> (\<exists>n. r = Inr n)) \<and> ?F s) (case r of Inr _ \<Rightarrow> io_return ()
          | Inl e \<Rightarrow> if e \<noteq> ENOENT then io_fail (TxOs e)
              else io_bind (read_stored_descriptor h root) (\<lambda>_. without_cancel (remove_safe_path (sh_restore h) root))) (\<lambda>_. ?F) ?F"
        for r :: "errno + node"
        by (rule triple_pure) (auto intro: triple_fail triple_return)
    qed
  qed
  have "triple ?F (discard_transaction_root h g root) (\<lambda>_. ?F) ?F"
    unfolding discard_transaction_root_def
    by (rule triple_then[OF lease]) (use body in \<open>auto intro: triple_fail\<close>)
  then show ?thesis using True by simp
next
  case False
  then show ?thesis by (simp only: if_False)
qed

text \<open>
  Property C9. Discarding a transaction root that holds a journal intent changes nothing: whatever the
  arguments are and whichever call fails, the tree stays as it was.
\<close>

theorem durable_intent_is_never_discarded:
  assumes "calm (tx_world s)" and "wf_tree (w_tree (tx_world s))"
    and "fmlookup (w_tree (tx_world s)) (clean_elements root @ [''journal'', ''intent.json'']) \<noteq> None"
    and "discard_transaction_root h g root s = (r, s')"
  shows "w_tree (tx_world s') = w_tree (tx_world s)"
proof -
  let ?F = "\<lambda>s'. frozen (w_tree (tx_world s)) (tx_world s')"
  have kept: "triple ?F (discard_transaction_root h g root) (\<lambda>_. ?F) ?F"
    using discard_keeps_intent[of "w_tree (tx_world s)" root h g] assms(2,3) by simp
  have "?F s'"
  proof (cases r)
    case (Inl e)
    then show ?thesis using tripleD(1)[OF kept, of s e s'] assms(1,4) by (simp add: frozen_def)
  next
    case (Inr x)
    then show ?thesis using tripleD(2)[OF kept, of s x s'] assms(1,4) by (simp add: frozen_def)
  qed
  then show ?thesis by (simp add: frozen_def)
qed

section \<open>Active runs\<close>

interpretation run_order_by: slice_less run_before
  by unfold_locales (auto simp: run_before_def split: if_splits)

interpretation member_order_by: slice_less member_before
  by unfold_locales (auto simp: member_before_def)

text \<open>The runs collected so far: distinct runs, each with distinct ordinals that are noted as taken.\<close>

definition collected :: "guard \<Rightarrow> store_runs \<Rightarrow> bool" where
  "collected g acc \<longleftrightarrow> distinct (map sr_id (fst acc)) \<and>
     (\<forall>r \<in> set (fst acc). sr_members r \<noteq> [] \<and> distinct (map sm_ordinal (sr_members r)) \<and>
        (\<forall>m \<in> set (sr_members r). sm_restoreRun m = sr_id r \<and> sm_storeRoot m = gu_storeRoot g \<and>
           (sr_id r, sm_ordinal m) \<in> set (snd acc)))"

definition own_member :: "guard \<Rightarrow> string \<times> string \<times> int \<times> store_member \<Rightarrow> bool" where
  "own_member g x \<longleftrightarrow> (case x of (restoreRunID, _, _, m) \<Rightarrow> sm_restoreRun m = restoreRunID \<and> sm_storeRoot m = gu_storeRoot g)"

lemma collected_add:
  assumes c: "collected g acc" and m: "sm_restoreRun m = rid" "sm_storeRoot m = gu_storeRoot g"
    and a: "add_member rid runID started m acc = Some acc'"
  shows "collected g acc'"
proof -
  obtain runs ordinals where acc: "acc = (runs, ordinals)" by fastforce
  show ?thesis
  proof (cases "List.find (\<lambda>r. sr_id r = rid) runs")
    case None
    then have "rid \<notin> sr_id ` set runs" by (auto simp: find_None_iff)
    then show ?thesis using c m a None by (auto simp: add_member_def acc collected_def Let_def split: if_splits)
  next
    case (Some run)
    let ?f = "\<lambda>r. if sr_id r = rid then r\<lparr>sr_members := sr_members r @ [m]\<rparr> else r"
    have a': "acc' = (map ?f runs, (rid, sm_ordinal m) # ordinals)" "(rid, sm_ordinal m) \<notin> set ordinals"
      using a Some by (auto simp: add_member_def acc Let_def split: if_splits)
    have ids: "map sr_id (map ?f runs) = map sr_id runs" by simp
    have new: "sm_ordinal m \<notin> sm_ordinal ` set (sr_members r)" if "r \<in> set runs" "sr_id r = rid" for r
      using c that a'(2) by (auto simp: collected_def acc)
    have taken: "(rid, sm_ordinal k) \<in> set ordinals" if "r \<in> set runs" "sr_id r = rid" "k \<in> set (sr_members r)" for r k
      using c that by (auto simp: collected_def acc)
    show ?thesis
      unfolding collected_def a'(1) fst_conv snd_conv ids
      using c m new taken by (auto simp: collected_def acc)
  qed
qed

lemma gives_collect:
  assumes "\<And>e. gives (load e) (\<lambda>found. case found of None \<Rightarrow> True | Some x \<Rightarrow> own_member g x)" "collected g acc"
  shows "gives (io_fold (\<lambda>e acc. io_bind (load e) (\<lambda>found. add_member_run found acc)) es acc) (collected g)"
proof (rule gives_fold[where P = "collected g", OF assms(2)])
  fix e acc assume c: "collected g acc"
  show "gives (io_bind (load e) (\<lambda>found. add_member_run found acc)) (collected g)"
    by (rule gives_bind[OF assms(1)])
      (use c in \<open>auto simp: add_member_run_def own_member_def intro!: gives_intro intro: collected_add split: option.splits prod.splits\<close>)
qed

lemma gives_members:
  "gives (generation_member h g e) (\<lambda>found. case found of None \<Rightarrow> True | Some x \<Rightarrow> own_member g x)"
  "gives (legacy_member h g e) (\<lambda>found. case found of None \<Rightarrow> True | Some x \<Rightarrow> own_member g x)"
  unfolding generation_member_def legacy_member_def Let_def
  by (auto intro!: gives_then gives_skip gives_intro simp: own_member_def legacy_handle_def split: prod.split)

text \<open>The members the runs hold, each with the identity, the program run and the start of its run.\<close>

definition listed :: "store_run list \<Rightarrow> (string \<times> string \<times> int \<times> store_member) set" where
  "listed runs = {(sr_id r, sr_runID r, sr_started r, m) | r m. r \<in> set runs \<and> m \<in> set (sr_members r)}"

lemma listed_iff:
  "(i, p, b, k) \<in> listed runs \<longleftrightarrow> (\<exists>r \<in> set runs. i = sr_id r \<and> p = sr_runID r \<and> b = sr_started r \<and> k \<in> set (sr_members r))"
  by (auto simp: listed_def)

lemma listed_add:
  assumes c: "collected g acc" and a: "add_member rid runID started m acc = Some acc'"
  shows "listed (fst acc') = insert (rid, runID, started, m) (listed (fst acc))"
proof -
  obtain runs ordinals where acc: "acc = (runs, ordinals)" by fastforce
  show ?thesis
  proof (cases "List.find (\<lambda>r. sr_id r = rid) runs")
    case None
    then have "acc' = (runs @ [\<lparr>sr_id = rid, sr_runID = runID, sr_started = started, sr_members = [m]\<rparr>], (rid, sm_ordinal m) # ordinals)"
      using a by (auto simp: add_member_def acc Let_def split: if_splits)
    then show ?thesis by (auto simp: acc listed_iff)
  next
    case (Some run)
    let ?f = "\<lambda>r. if sr_id r = rid then r\<lparr>sr_members := sr_members r @ [m]\<rparr> else r"
    have run: "run \<in> set runs" "sr_id run = rid" using Some by (auto simp: find_Some_iff)
    have same: "r = run" if "r \<in> set runs" "sr_id r = rid" for r
      using c that run by (auto simp: collected_def acc dest: map_of_is_SomeI inj_onD simp add: distinct_map)
    have a': "acc' = (map ?f runs, (rid, sm_ordinal m) # ordinals)" "sr_runID run = runID" "sr_started run = started"
      using a Some by (auto simp: add_member_def acc Let_def split: if_splits)
    show ?thesis
    proof (rule set_eqI)
      fix x :: "string \<times> string \<times> int \<times> store_member"
      obtain i p b k where x: "x = (i, p, b, k)" by (cases x) auto
      have held: "k \<in> set (sr_members (?f r)) \<longleftrightarrow> k \<in> set (sr_members r) \<or> r = run \<and> k = m" if "r \<in> set runs" for r
        using same[OF that] run(2) by (cases "sr_id r = rid") auto
      have f: "sr_id (?f r) = sr_id r" "sr_runID (?f r) = sr_runID r" "sr_started (?f r) = sr_started r" for r by simp_all
      have "x \<in> listed (map ?f runs) \<longleftrightarrow> (\<exists>r \<in> set runs. i = sr_id r \<and> p = sr_runID r \<and> b = sr_started r \<and> k \<in> set (sr_members (?f r)))"
        unfolding x listed_iff set_map Set.bex_simps(7) f ..
      also have "\<dots> \<longleftrightarrow> (\<exists>r \<in> set runs. i = sr_id r \<and> p = sr_runID r \<and> b = sr_started r \<and>
          (k \<in> set (sr_members r) \<or> r = run \<and> k = m))"
        using held by blast
      also have "\<dots> \<longleftrightarrow> x = (rid, runID, started, m) \<or> x \<in> listed runs"
        using run a'(2,3) by (auto simp: listed_iff x)
      finally show "x \<in> listed (fst acc') \<longleftrightarrow> x \<in> insert (rid, runID, started, m) (listed (fst acc))"
        by (simp add: a'(1) acc)
    qed
  qed
qed

lemma bind_ok: "io_bind m k s = (Inr y, s') \<longleftrightarrow> (\<exists>x v. m s = (Inr x, v) \<and> k x v = (Inr y, s'))"
  by (auto simp: io_bind_def split: prod.splits sum.splits)

lemma then_ok: "io_then m k s = (Inr y, s') \<longleftrightarrow> (\<exists>v. m s = (Inr (), v) \<and> k v = (Inr y, s'))"
  by (simp add: io_then_def bind_ok)

text \<open>A pass over entries adds exactly the members that the entries hold on the tree.\<close>

lemma collect_exactly:
  assumes load: "\<And>e. settled (on_tree t) lost_call (load e)" "\<And>e. gives (load e) (\<lambda>found. case found of None \<Rightarrow> True | Some x \<Rightarrow> own_member g x)"
    and s: "on_tree t s" "collected g acc"
    and run: "io_fold (\<lambda>e acc. io_bind (load e) (\<lambda>found. add_member_run found acc)) es acc s = (Inr acc', s')"
  shows "on_tree t s' \<and> collected g acc' \<and>
     listed (fst acc') = listed (fst acc) \<union> {x. \<exists>e \<in> set es. answers t (load e) (Some x)}"
  using s run
proof (induction es arbitrary: acc s)
  case Nil
  then show ?case by (simp add: io_return_def)
next
  case (Cons e es)
  obtain found v mid u where l: "load e s = (Inr found, v)" and m: "add_member_run found acc v = (Inr mid, u)"
    and rest: "io_fold (\<lambda>e acc. io_bind (load e) (\<lambda>found. add_member_run found acc)) es mid u = (Inr acc', s')"
    using Cons.prems(3) unfolding io_fold.simps bind_ok by blast
  have v: "on_tree t v" by (rule settled_keeps[OF load(1) Cons.prems(1) l])
  have own: "case found of None \<Rightarrow> True | Some x \<Rightarrow> own_member g x" using load(2)[of e] l by (auto simp: gives_def)
  have found: "answers t (load e) y \<longleftrightarrow> y = found" for y
    using answersI[where m = "load e", OF Cons.prems(1) l] answers_unique[OF load(1)] by blast
  have mid: "u = v \<and> collected g mid \<and> listed (fst mid) = listed (fst acc) \<union> {x. found = Some x}"
  proof (cases found)
    case None
    then show ?thesis using m Cons.prems(2) by (simp add: add_member_run_def io_return_def)
  next
    case (Some x)
    obtain rid runID started k where x: "x = (rid, runID, started, k)" by (cases x) auto
    then have a: "add_member rid runID started k acc = Some mid" "u = v"
      using m Some by (auto simp: add_member_run_def io_fail_def io_return_def split: option.splits)
    have k: "sm_restoreRun k = rid" "sm_storeRoot k = gu_storeRoot g" using own Some x by (simp_all add: own_member_def)
    show ?thesis using collected_add[OF Cons.prems(2) k a(1)] listed_add[OF Cons.prems(2) a(1)] a(2) Some x by auto
  qed
  then have next_run: "io_fold (\<lambda>e acc. io_bind (load e) (\<lambda>found. add_member_run found acc)) es mid v = (Inr acc', s')"
    using rest by simp
  have "on_tree t s' \<and> collected g acc' \<and>
     listed (fst acc') = listed (fst mid) \<union> {x. \<exists>e \<in> set es. answers t (load e) (Some x)}"
    by (rule Cons.IH[OF v _ next_run]) (use mid in blast)
  then show ?case using found mid by auto
qed

lemma listed_order: "listed (order_runs runs) = listed runs"
proof (rule set_eqI)
  fix x :: "string \<times> string \<times> int \<times> store_member"
  obtain i p b k where x: "x = (i, p, b, k)" by (cases x) auto
  show "x \<in> listed (order_runs runs) \<longleftrightarrow> x \<in> listed runs"
    unfolding x listed_iff order_runs_def set_sort_by set_map by simp
qed

text \<open>The members on a tree: those of the entries of a directory that the loader accepts.\<close>

definition members_in :: "tree \<Rightarrow> string \<Rightarrow>
    (string \<times> node \<Rightarrow> (string \<times> string \<times> int \<times> store_member) option action_run) \<Rightarrow> (string \<times> string \<times> int \<times> store_member) set" where
  "members_in t dir load =
     {x. \<exists>es e. answers t (tx_os (read_dir_nodes dir)) es \<and> e \<in> set es \<and> answers t (load e) (Some x)}"

lemma members_inI:
  assumes "answers t (tx_os (read_dir_nodes dir)) es"
  shows "members_in t dir load = {x. \<exists>e \<in> set es. answers t (load e) (Some x)}"
proof -
  have "es' = es" if "answers t (tx_os (read_dir_nodes dir)) es'" for es'
    using answers_unique[OF settled_nodes that assms] .
  then show ?thesis using assms unfolding members_in_def by blast
qed

lemma ordered_runs:
  assumes c: "collected g acc"
  shows "sorted_wrt (\<lambda>l r. sr_started r < sr_started l \<or> sr_started l = sr_started r \<and> sr_id r < sr_id l) (order_runs (fst acc))"
    "distinct (map sr_id (order_runs (fst acc)))"
    "list_all (\<lambda>r. sr_members r \<noteq> [] \<and> sorted_wrt (\<lambda>l m. sm_ordinal l < sm_ordinal m) (sr_members r) \<and>
       list_all (\<lambda>m. sm_restoreRun m = sr_id r \<and> sm_storeRoot m = gu_storeRoot g) (sr_members r)) (order_runs (fst acc))"
proof -
  let ?rs = "map (\<lambda>r. r\<lparr>sr_members := sort_by member_before (sr_members r)\<rparr>) (fst acc)"
  show ids: "distinct (map sr_id (order_runs (fst acc)))"
    using c unfolding order_runs_def distinct_keys_sort by (simp add: collected_def comp_def)
  have "sorted_wrt run_before (order_runs (fst acc))"
    using ids unfolding order_runs_def
    by (rule run_order_by.strictly_sorted[OF run_order_by.sorted_sort_by]) (auto simp: run_before_def)
  then show "sorted_wrt (\<lambda>l r. sr_started r < sr_started l \<or> sr_started l = sr_started r \<and> sr_id r < sr_id l) (order_runs (fst acc))"
    by (rule sorted_wrt_mono_rel[rotated]) (auto simp: run_before_def split: if_splits)
  have "sorted_wrt (\<lambda>l m. sm_ordinal l < sm_ordinal m) (sort_by member_before ms)" if "distinct (map sm_ordinal ms)" for ms
  proof -
    have "sorted_wrt member_before (sort_by member_before ms)"
    proof (rule member_order_by.strictly_sorted[OF member_order_by.sorted_sort_by])
      show "distinct (map sm_ordinal (sort_by member_before ms))" using that by (simp only: distinct_keys_sort)
    qed (auto simp: member_before_def)
    then show ?thesis by (rule sorted_wrt_mono_rel[rotated]) (simp add: member_before_def)
  qed
  moreover have "sort_by member_before ms \<noteq> []" if "ms \<noteq> []" for ms
    using that by (metis set_sort_by set_empty)
  ultimately show "list_all (\<lambda>r. sr_members r \<noteq> [] \<and> sorted_wrt (\<lambda>l m. sm_ordinal l < sm_ordinal m) (sr_members r) \<and>
       list_all (\<lambda>m. sm_restoreRun m = sr_id r \<and> sm_storeRoot m = gu_storeRoot g) (sr_members r)) (order_runs (fst acc))"
    using c by (auto simp: list_all_iff order_runs_def collected_def)
qed

text \<open>
  Property C10. The active runs of the store are listed newest first: by their start descending, and for one
  start by their identity descending; no identity occurs twice. The members of a run come in strictly
  ascending mutation ordinals; every run has a member, and every member belongs to its run and to this
  store. Nothing active is missing and nothing else is listed: the members listed are exactly those that
  the entries of the transactions hold on the tree the listing starts from and those that the
  registered legacy members hold on the tree it leaves, in which it has reconciled the temporary files of
  publications.
\<close>

theorem active_runs_are_ordered:
  assumes "calm (tx_world s)" and "wf_tree (w_tree (tx_world s))" and "active_store_runs h g s = (Inr runs, s')"
  shows "sorted_wrt (\<lambda>l r. sr_started r < sr_started l \<or> sr_started l = sr_started r \<and> sr_id r < sr_id l) runs \<and>
     distinct (map sr_id runs) \<and>
     list_all (\<lambda>r. sr_members r \<noteq> [] \<and> sorted_wrt (\<lambda>l m. sm_ordinal l < sm_ordinal m) (sr_members r) \<and>
       list_all (\<lambda>m. sm_restoreRun m = sr_id r \<and> sm_storeRoot m = gu_storeRoot g) (sr_members r)) runs \<and>
     listed runs = members_in (w_tree (tx_world s)) (gu_transactions g) (generation_member h g) \<union>
       members_in (w_tree (tx_world s')) (gu_legacyMembers g) (legacy_member h g)"
proof -
  let ?t = "w_tree (tx_world s)" and ?add = "\<lambda>load e acc. io_bind (load e) (\<lambda>found. add_member_run found acc)"
  obtain s1 s2 es s3 acc s4 s5 ls s6 all where s1: "check_context s = (Inr (), s1)"
    and s2: "require_lease g s1 = (Inr (), s2)" and s3: "tx_os (read_dir_nodes (gu_transactions g)) s2 = (Inr es, s3)"
    and s4: "io_fold (?add (generation_member h g)) es ([], []) s3 = (Inr acc, s4)"
    and s5: "reconcile_store_publication_temps (gu_legacyMembers g) s4 = (Inr (), s5)"
    and s6: "tx_os (read_dir_nodes (gu_legacyMembers g)) s5 = (Inr ls, s6)"
    and s7: "io_fold (?add (legacy_member h g)) ls acc s6 = (Inr all, s')" "runs = order_runs (fst all)"
    using assms(3) unfolding active_store_runs_def bind_ok then_ok by (auto simp: io_return_def)
  have t0: "on_tree ?t s" using assms(1) by (simp add: frozen_def)
  have t1: "on_tree ?t s1" by (rule settled_keeps[OF settled_context t0 s1])
  have t2: "on_tree ?t s2" using s2 t1 by (auto simp: require_lease_def io_when_def io_return_def io_fail_def split: if_splits)
  have t3: "on_tree ?t s3" by (rule settled_keeps[OF settled_nodes t2 s3])
  have empty: "collected g ([], [])" by (simp add: collected_def)
  note first = collect_exactly[OF settled_generation_member gives_members(1) t3 empty s4]
  then have "sane (tx_world s4)" using assms(2) by (simp add: sane_def frozen_def)
  moreover have "within stays_sane (reconcile_store_publication_temps (gu_legacyMembers g))"
    unfolding reconcile_store_publication_temps_def remove_safe_path_def Let_def by (intro within)
  ultimately have "sane (tx_world s5)" using withinD[where R = stays_sane and m = "reconcile_store_publication_temps (gu_legacyMembers g)", OF _ s5] by (auto simp: stays_sane_def sane_step_def)
  then have t5: "on_tree (w_tree (tx_world s5)) s5" by (simp add: sane_def frozen_def)
  have t6: "on_tree (w_tree (tx_world s5)) s6" by (rule settled_keeps[OF settled_nodes t5 s6])
  have acc: "collected g acc" using first by blast
  note second = collect_exactly[OF settled_legacy_member gives_members(2) t6 acc s7(1)]
  have final: "w_tree (tx_world s') = w_tree (tx_world s5)" using second by (simp add: frozen_def)
  have listed: "listed runs = members_in ?t (gu_transactions g) (generation_member h g) \<union>
       members_in (w_tree (tx_world s')) (gu_legacyMembers g) (legacy_member h g)"
    unfolding s7(2) listed_order final members_inI[OF answersI[where m = "tx_os (read_dir_nodes (gu_transactions g))", OF t2 s3]]
      members_inI[OF answersI[where m = "tx_os (read_dir_nodes (gu_legacyMembers g))", OF t5 s6]]
    using first second by (simp add: listed_def)
  have all: "collected g all" using second by blast
  show ?thesis using ordered_runs[OF all] listed s7(2) by simp
qed

end
