(* ===== verification/PendingScan.thy ===== *)
theory PendingScan
  imports RestoreRecoveryProperties
begin

text \<open>
  The scan for pending transactions (\<open>scanPending\<close> in \<open>internal/restoretransaction/store_recovery.go\<close>):
  in a calm world it removes nothing of a transaction with a durable intent, and it finds every transaction with
  an intent and without a terminal marker.
\<close>

section \<open>A part of the tree that is kept\<close>

definition agrees :: "tree \<Rightarrow> key \<Rightarrow> tree \<Rightarrow> bool" where
  "agrees t0 J t \<longleftrightarrow> (\<forall>rest. fmlookup t (J @ rest) = fmlookup t0 (J @ rest))"

text \<open>Reading on a tree of which an assertion holds.\<close>

lemma holds_reads:
  assumes m: "only_reads m" and y: "\<And>t. wf_tree t \<Longrightarrow> P t \<Longrightarrow> yields t m (Q t)"
  shows "triple (holds P) m (\<lambda>x. holds (\<lambda>t. P t \<and> Q t x)) (holds P)"
proof (rule tripleI)
  fix s e s' assume s: "holds P s" "m s = (Inl e, s')"
  have f: "frozen (w_tree (tx_world s)) (tx_world s)" using s(1) by (simp add: holds_def sane_def frozen_def)
  show "holds P s'" using only_reads_frozen[OF m s(2) f] s(1) by (simp add: holds_def sane_def frozen_def)
next
  fix s x s' assume s: "holds P s" "m s = (Inr x, s')"
  let ?t = "w_tree (tx_world s)"
  have f: "frozen ?t (tx_world s)" "wf_tree ?t" "P ?t" using s(1) by (simp_all add: holds_def sane_def frozen_def)
  have "Q ?t x" using y[OF f(2,3)] f(1) s(2) unfolding yields_def by blast
  then show "holds (\<lambda>t. P t \<and> Q t x) s'"
    using only_reads_frozen[OF m s(2) f(1)] f(2,3) by (simp add: holds_def sane_def frozen_def)
qed

lemma holds_only_reads:
  fixes m :: "'a action_run"
  assumes "only_reads m" shows "triple (holds P) m (\<lambda>_. holds P) (holds P)"
proof -
  have "triple (holds P) m (\<lambda>x. holds (\<lambda>t. P t \<and> True)) (holds P)" by (rule holds_reads[OF assms]) (rule yields_True)
  then show ?thesis by simp
qed

lemma holds_change:
  assumes "\<And>n t t'. wf_tree t \<Longrightarrow> P t \<Longrightarrow> f n t = Inr t' \<Longrightarrow> wf_tree t' \<and> Q t'"
  shows "triple (holds P) (tx_os (change f)) (\<lambda>_. holds Q) (holds P)"
proof (rule tripleI)
  fix s e s' assume s: "holds P s" "tx_os (change f) s = (Inl e, s')"
  then obtain e1 where c: "change f (tx_world s) = (Inl e1, tx_world s')"
    by (auto simp: tx_os_def tx_lift_def io_map_error_def split: prod.splits sum.splits)
  show "holds P s'" using change_calm[OF _ c] s(1) by (auto simp: holds_def sane_def)
next
  fix s x s' assume s: "holds P s" "tx_os (change f) s = (Inr x, s')"
  then have c: "change f (tx_world s) = (Inr x, tx_world s')"
    by (auto simp: tx_os_def tx_lift_def io_map_error_def split: prod.splits sum.splits)
  show "holds Q s'" using change_calm[OF _ c] s(1) assms by (auto simp: holds_def sane_def)
qed

lemma child_name_plain:
  assumes "wf_tree t" "x \<in> set (child_names t k)" shows "plain_element x" "x \<noteq> ''..''" "fmlookup t (k @ [x]) \<noteq> None"
proof -
  obtain j where j: "j \<in> set (below t k)" "length j = Suc (length k)" "x = last j" using assms(2) by (auto simp: child_names_def)
  then obtain zs where "j = k @ zs" "length zs = 1" by (auto simp: set_below elim!: prefixE)
  then have jk: "j = k @ [x]" using j(3) by (cases zs) auto
  then show "fmlookup t (k @ [x]) \<noteq> None" using j(1) by (simp add: set_below fmlookup_dom'_iff)
  then have "plain_key (k @ [x])" using assms(1) by (auto simp: wf_tree_def)
  then show "plain_element x" "x \<noteq> ''..''" by (auto simp: plain_key_def)
qed

text \<open>Removing what is apart from a key keeps what is at and below the key.\<close>

lemma remove_keeps_apart:
  assumes "is_abs target" "\<not> prefix J (clean_elements target)" "\<not> prefix (clean_elements target) J"
  shows "triple (holds (agrees t0 J)) (remove_safe depth target) (\<lambda>_. holds (agrees t0 J)) (holds (agrees t0 J))"
  using assms
proof (induction depth arbitrary: target)
  case 0
  then show ?case by (auto intro: triple_fail)
next
  case (Suc depth)
  let ?I = "holds (agrees t0 J)" and ?k = "clean_elements target"
  have dir: "triple ?I (if is_dir info then io_bind (tx_os (read_dir target)) (io_each (\<lambda>name. remove_safe depth (join_path [target, name])))
              else if \<not> is_regular info then io_fail TxSpecialFile else io_return ()) (\<lambda>_. ?I) ?I" for info
  proof -
    have names: "yields t (tx_os (read_dir target)) (\<lambda>names. \<forall>x \<in> set names. plain_element x \<and> x \<noteq> ''..'')" if "wf_tree t" for t
      unfolding read_dir_def
      by (rule yields_mono[OF yields_os]) (use child_name_plain[OF that] in \<open>auto split: sum.splits option.splits node.splits\<close>)
    have only: "only_reads (tx_os (read_dir target))" unfolding read_dir_def by (intro within readonly)
    have each: "triple ?I (io_each (\<lambda>name. remove_safe depth (join_path [target, name])) names) (\<lambda>_. ?I) ?I"
      if "\<forall>x \<in> set names. plain_element x \<and> x \<noteq> ''..''" for names
    proof (rule triple_each)
      fix x assume "x \<in> set names"
      then have "is_abs (join_path [target, x])" "clean_elements (join_path [target, x]) = ?k @ [x]"
        using that join_component[OF Suc.prems(1)] by auto
      then show "triple ?I (remove_safe depth (join_path [target, x])) (\<lambda>_. ?I) ?I"
        using Suc.prems by (intro Suc.IH) (auto dest: append_prefixD)
    qed
    have "triple ?I (io_bind (tx_os (read_dir target)) (io_each (\<lambda>name. remove_safe depth (join_path [target, name])))) (\<lambda>_. ?I) ?I"
    proof (rule triple_bind[OF holds_reads[OF only names]])
      fix names
      show "triple (holds (\<lambda>t. agrees t0 J t \<and> (\<forall>x \<in> set names. plain_element x \<and> x \<noteq> ''..'')))
          (io_each (\<lambda>name. remove_safe depth (join_path [target, name])) names) (\<lambda>_. ?I) ?I"
      proof (cases "\<forall>x \<in> set names. plain_element x \<and> x \<noteq> ''..''")
        case True
        then show ?thesis using each[OF True] by simp
      next
        case False
        then show ?thesis by (auto simp: holds_def intro!: tripleI)
      qed
    qed
    then show ?thesis by (auto intro: triple_fail triple_return)
  qed
  have del: "triple (holds (\<lambda>t. agrees t0 J t \<and> linkfree t ?k)) (tx_os (remove target)) (\<lambda>_. ?I) ?I"
    unfolding remove_def
  proof (rule triple_conseq[OF holds_change])
    fix n t t' assume t: "wf_tree t" "agrees t0 J t \<and> linkfree t ?k" "remove_tree target t = Inr t'"
    then obtain k where k: "locate t target = Inr k" "remove_key k t = Inr t'" by (auto simp: remove_tree_def split: sum.splits)
    have kk: "k = ?k" by (rule locate_linkfree(1)[OF k(1) Suc.prems(1) linkfree_butlast]) (use t(2) in blast)
    have "t' = fmdrop ?k t" using k(2) kk by (auto simp: remove_key_def split: option.splits node.splits if_splits)
    moreover have "J @ rest \<noteq> ?k" for rest using Suc.prems(2) by (metis prefixI)
    ultimately show "wf_tree t' \<and> agrees t0 J t'" using t(2) wf_remove_key[OF t(1) k(2)] by (auto simp: agrees_def)
  qed (auto simp: holds_def)
  have links: "triple ?I (reject_existing_target_links target) (\<lambda>_. holds (\<lambda>t. agrees t0 J t \<and> linkfree t ?k)) ?I"
    by (rule holds_reads[OF only_reads_reject]) (use yields_reject[OF _ Suc.prems(1)] in auto)
  have quiet: "triple ?I check_context (\<lambda>_. ?I) ?I" "triple ?I (reject_existing_target_links target) (\<lambda>_. ?I) ?I"
    "triple ?I (tx_try (lstat target)) (\<lambda>_. ?I) ?I" "triple ?I (tx_os (sync_directory d)) (\<lambda>_. ?I) ?I" for d
    by (intro holds_only_reads within readonly)+
  have rest: "triple ?I (io_then (if is_dir info then io_bind (tx_os (read_dir target)) (io_each (\<lambda>name. remove_safe depth (join_path [target, name])))
              else if \<not> is_regular info then io_fail TxSpecialFile else io_return ())
             (io_then (reject_existing_target_links target)
             (io_then (tx_os (remove target)) (tx_os (sync_directory (dir_name target)))))) (\<lambda>_. ?I) ?I" for info
    by (rule triple_then[OF dir triple_then[OF links triple_then[OF del quiet(4)]]])
  show ?case
    unfolding remove_safe.simps
    by (rule triple_then[OF quiet(1) triple_then[OF quiet(2) triple_bind[OF quiet(3)]]])
      (use rest in \<open>auto split: sum.split errno.split intro: triple_fail triple_return\<close>)
qed

section \<open>The entries of the scan\<close>

definition pending_ids :: "scan_state \<Rightarrow> string set" where
  "pending_ids acc = di_transactionID ` pt_descriptor ` set (snd acc)"

lemma gives_scan_grows: "gives (scan_intent h name root acc) (\<lambda>acc'. pending_ids acc \<subseteq> pending_ids acc')"
  unfolding scan_intent_def
  by (cases acc) (auto intro!: gives_intro gives_skip gives_bind[OF gives_True] simp: pending_ids_def Let_def split: prod.split)

lemma gives_entry_grows: "gives (scan_entry h g e acc) (\<lambda>acc'. pending_ids acc \<subseteq> pending_ids acc')"
  unfolding scan_entry_def Let_def
  by (auto intro!: gives_then gives_map_error gives_skip gives_intro gives_scan_grows split: prod.split)

lemma only_reads_descriptor [within]: "only_reads (read_stored_descriptor h root)"
  unfolding read_stored_descriptor_def by (intro within)

lemma only_reads_attempt [within]: "only_reads m \<Longrightarrow> only_reads (tx_attempt m)"
  unfolding tx_attempt_def by (intro within)

lemma only_reads_scan_intent: "only_reads (scan_intent h name root acc)"
  unfolding scan_intent_def Let_def by (intro within)

lemma opaque_plain: "is_opaque_store_id name \<Longrightarrow> plain_element name \<and> name \<noteq> ''..''"
  by (auto simp: is_opaque_store_id_def plain_element_def list_all_iff byte_in_def)

text \<open>An entry leaves alone what is below another name.\<close>

lemma entry_keeps_other:
  fixes name :: string
  assumes K: "is_abs (gu_transactions g)" and other: "fst e \<noteq> name"
  defines "J \<equiv> clean_elements (gu_transactions g) @ [name]"
  shows "triple (holds (agrees t0 J)) (scan_entry h g e acc) (\<lambda>_. holds (agrees t0 J)) (holds (agrees t0 J))"
proof -
  let ?I = "holds (agrees t0 J)"
  obtain i n where e: "e = (i, n)" by fastforce
  let ?root = "join_path [gu_transactions g, i]"
  have quiet: "triple ?I check_context (\<lambda>_. ?I) ?I" "triple ?I (reject_existing_target_links ?root) (\<lambda>_. ?I) ?I"
    "triple ?I (tx_try (lstat (intent_path ?root))) (\<lambda>_. ?I) ?I" "triple ?I (scan_intent h i ?root acc) (\<lambda>_. ?I) ?I"
    by (intro holds_only_reads only_reads_scan_intent within readonly)+
  have gone: "triple ?I (without_cancel (remove_safe_path (sh_restore h) ?root)) (\<lambda>_. ?I) ?I" if "is_opaque_store_id i"
    unfolding remove_safe_path_def
  proof (rule holds_uncancelled, rule remove_keeps_apart)
    have p: "is_abs ?root" "clean_elements ?root = clean_elements (gu_transactions g) @ [i]"
      using join_component[OF K] opaque_plain[OF that] by auto
    show "is_abs ?root" by (rule p(1))
    show "\<not> prefix J (clean_elements ?root)" "\<not> prefix (clean_elements ?root) J"
      using other e by (simp_all add: p(2) J_def)
  qed
  show ?thesis
    unfolding scan_entry_def e prod.case Let_def
  proof (rule triple_then[OF quiet(1)], rule triple_map_error)
    show "triple ?I (if \<not> is_dir n \<or> \<not> is_opaque_store_id i then io_fail TxStore
       else io_then (reject_existing_target_links ?root)
        (io_bind (tx_try (lstat (intent_path ?root))) (\<lambda>r. case r of
           Inl x \<Rightarrow> if x = ENOENT then io_then (without_cancel (remove_safe_path (sh_restore h) ?root)) (io_return acc) else io_fail (TxOs x)
         | Inr _ \<Rightarrow> scan_intent h i ?root acc))) (\<lambda>_. ?I) ?I"
    proof (cases "\<not> is_dir n \<or> \<not> is_opaque_store_id i")
      case False
      then have "is_opaque_store_id i" by simp
      note g = gone[OF this]
      show ?thesis
        using False quiet(4) g
        by (auto intro!: triple_then[OF quiet(2)] triple_bind[OF quiet(3)] triple_fail triple_then[OF g] triple_return
            split: sum.split)
    qed (auto intro: triple_fail)
  qed
qed

text \<open>An entry with an intent and without a terminal marker is found pending.\<close>

definition undecided :: "tree \<Rightarrow> key \<Rightarrow> bool" where
  "undecided t J \<longleftrightarrow> fmlookup t (J @ [''journal'', ''intent.json'']) \<noteq> None \<and>
     (\<forall>d. fmlookup t (J @ [''journal'', ''terminal-'' @ d @ ''.json'']) = None)"

lemma yields_no_marker:
  assumes wf: "wf_tree t" and p: "is_abs root" and d: "is_payload_hash (ji_digest intent)"
    and gone: "\<forall>d. fmlookup t (clean_elements root @ [''journal'', ''terminal-'' @ d @ ''.json'']) = None"
  shows "yields t (read_marker_file h root (terminal_path root intent) intent) (\<lambda>_. False)"
proof -
  let ?m = "terminal_path root intent"
  have m: "is_abs ?m" "clean_elements ?m = clean_elements root @ [''journal'', ''terminal-'' @ ji_digest intent @ ''.json'']"
    using marker_path(1,3)[OF journal_paths(2)[OF p] d] journal_paths(1)[OF p] by (simp_all add: terminal_path_def)
  have dir: "is_abs (dir_name ?m)" "clean_elements (dir_name ?m) = butlast (clean_elements ?m)"
    using dir_name_inside[of "[]" ?m] m by (auto simp: inside_def strict_prefix_def)
  have none: "yields t (tx_lift (io_map_error TxRead (read_regular_file ?m))) (\<lambda>_. False)"
    if "linkfree t (clean_elements (dir_name ?m))"
  proof (rule yields_lift, rule triple_map_error)
    have "linkfree t (clean_elements root @ [''journal''])" using that unfolding dir(2) m(2) by (simp add: butlast_append)
    then have "linkfree t ((clean_elements root @ [''journal'']) @ [''terminal-'' @ ji_digest intent @ ''.json''])"
      by (rule linkfree_snoc) (use gone in \<open>auto simp: entry_def\<close>)
    then have lf: "linkfree t (clean_elements ?m)" by (simp add: m(2))
    show "triple (frozen t) (read_regular_file ?m) (\<lambda>_ _. False) (\<lambda>_. True)"
      by (rule triple_conseq[OF frozen_read_regular[OF m(1) lf]]) (use gone m(2) in auto)
  qed
  have only: "only_reads (tx_lift (io_map_error TxRead (read_regular_file ?m)))" by (intro within readonly)
  have "yields t (io_then (reject_existing_target_links (dir_name ?m))
     (io_bind (tx_lift (io_map_error TxRead (read_regular_file ?m))) k)) (\<lambda>_. False)" for k :: "string \<times> nat \<Rightarrow> journal_marker action_run"
    by (rule yields_then[OF only_reads_reject yields_reject[OF wf dir(1)]], rule yields_bind[OF only none]) simp_all
  then show ?thesis unfolding read_marker_file_def by simp
qed

lemma yields_attempt:
  assumes "only_reads m" "yields t m Q"
  shows "yields t (tx_attempt m) (\<lambda>r. case r of Inl _ \<Rightarrow> True | Inr x \<Rightarrow> Q x)"
  unfolding yields_def tx_attempt_def
proof (intro allI impI)
  fix s x s' assume s: "frozen t (tx_world s)" "io_try m s = (Inr x, s')"
  then have "m s = (x, s')" by (simp add: io_try_def split: prod.splits)
  then show "case x of Inl _ \<Rightarrow> True | Inr y \<Rightarrow> Q y" using assms(2) s(1) by (cases x) (auto simp: yields_def)
qed

lemma yields_scan_intent:
  assumes wf: "wf_tree t" and hex: "hex_digests (sh_restore h)" and p: "is_abs root"
    and u: "undecided t (clean_elements root)"
  shows "yields t (scan_intent h name root acc) (\<lambda>acc'. name \<in> pending_ids acc')"
proof -
  obtain ordinals pending where acc: "acc = (ordinals, pending)" by fastforce
  have marked: "yields t (tx_attempt (read_marker_file (sh_restore h) root (terminal_path root i) i))
      (\<lambda>r. case r of Inl _ \<Rightarrow> True | Inr _ \<Rightarrow> False)" if "intent_ready t root i" for i
    using yields_attempt[OF only_reads_marker yields_no_marker[OF wf p]] that u by (simp add: intent_ready_def undecided_def)
  have add: "yields t (io_bind (read_journal_intent (sh_restore h) root) (\<lambda>intent.
        io_return (os, pending @ [\<lparr>pt_descriptor = d, pt_started = b, pt_intent = intent\<rparr>]))) (\<lambda>acc'. name \<in> pending_ids acc')"
    if "di_transactionID d = name" for os d b
    by (rule yields_bind[OF only_reads_intent yields_True]) (use that in \<open>auto simp: pending_ids_def\<close>)
  have tail: "yields t (io_bind (tx_attempt (read_marker_file (sh_restore h) root (terminal_path root i) i)) (\<lambda>found.
          case found of
            Inr marker \<Rightarrow>
              if jm_state marker \<noteq> JournalCommitted \<and> jm_state marker \<noteq> JournalRolledBack then io_fail TxStore
              else io_return (os, pending)
          | Inl e \<Rightarrow>
              if \<not> not_exist e then io_fail e
              else io_bind (read_journal_intent (sh_restore h) root) (\<lambda>intent.
                io_return (os, pending @ [\<lparr>pt_descriptor = d, pt_started = b, pt_intent = intent\<rparr>])))) (\<lambda>acc'. name \<in> pending_ids acc')"
    if "intent_ready t root i" "di_transactionID d = name" for i os d b
  proof (rule yields_bind[OF _ marked[OF that(1)]])
    show "only_reads (tx_attempt (read_marker_file (sh_restore h) root (terminal_path root i) i))" by (intro within)
    fix r :: "tx_error + journal_marker" assume "case r of Inl _ \<Rightarrow> True | Inr _ \<Rightarrow> False"
    then obtain e where r: "r = Inl e" by (cases r) auto
    show "yields t (case r of
            Inr marker \<Rightarrow>
              if jm_state marker \<noteq> JournalCommitted \<and> jm_state marker \<noteq> JournalRolledBack then io_fail TxStore
              else io_return (os, pending)
          | Inl e \<Rightarrow>
              if \<not> not_exist e then io_fail e
              else io_bind (read_journal_intent (sh_restore h) root) (\<lambda>intent.
                io_return (os, pending @ [\<lparr>pt_descriptor = d, pt_started = b, pt_intent = intent\<rparr>]))) (\<lambda>acc'. name \<in> pending_ids acc')"
      using add[OF that(2)] by (simp add: r)
  qed
  show ?thesis
    unfolding scan_intent_def acc prod.case Let_def
  proof (rule yields_bind[OF only_reads_descriptor yields_True])
    fix x :: "descriptor_disk \<times> int"
    obtain d b where x: "x = (d, b)" by fastforce
    show "yields t (case x of (descriptor, started) \<Rightarrow>
        io_bind (read_intent_metadata (sh_restore h) root (intent_path root)) (\<lambda>metadata.
        if di_transactionID descriptor \<noteq> name \<or> \<not> lineage_matches descriptor metadata then io_fail TxStore
        else if (di_restoreRunID descriptor, di_mutationOrdinal descriptor) \<in> set ordinals then io_fail TxStore
        else io_bind (tx_attempt (read_marker_file (sh_restore h) root (terminal_path root metadata) metadata)) (\<lambda>found.
          case found of
            Inr marker \<Rightarrow>
              if jm_state marker \<noteq> JournalCommitted \<and> jm_state marker \<noteq> JournalRolledBack then io_fail TxStore
              else io_return ((di_restoreRunID descriptor, di_mutationOrdinal descriptor) # ordinals, pending)
          | Inl e \<Rightarrow>
              if \<not> not_exist e then io_fail e
              else io_bind (read_journal_intent (sh_restore h) root) (\<lambda>intent.
                io_return ((di_restoreRunID descriptor, di_mutationOrdinal descriptor) # ordinals,
                  pending @ [\<lparr>pt_descriptor = descriptor, pt_started = started, pt_intent = intent\<rparr>]))))) (\<lambda>acc'. name \<in> pending_ids acc')"
      unfolding x prod.case
    proof (rule yields_bind[OF only_reads_metadata yields_metadata[OF wf hex p]])
      fix i assume i: "intent_ready t root i"
      show "yields t (if di_transactionID d \<noteq> name \<or> \<not> lineage_matches d i then io_fail TxStore
        else if (di_restoreRunID d, di_mutationOrdinal d) \<in> set ordinals then io_fail TxStore
        else io_bind (tx_attempt (read_marker_file (sh_restore h) root (terminal_path root i) i)) (\<lambda>found.
          case found of
            Inr marker \<Rightarrow>
              if jm_state marker \<noteq> JournalCommitted \<and> jm_state marker \<noteq> JournalRolledBack then io_fail TxStore
              else io_return ((di_restoreRunID d, di_mutationOrdinal d) # ordinals, pending)
          | Inl e \<Rightarrow>
              if \<not> not_exist e then io_fail e
              else io_bind (read_journal_intent (sh_restore h) root) (\<lambda>intent.
                io_return ((di_restoreRunID d, di_mutationOrdinal d) # ordinals,
                  pending @ [\<lparr>pt_descriptor = d, pt_started = b, pt_intent = intent\<rparr>])))) (\<lambda>acc'. name \<in> pending_ids acc')"
        using tail[OF i] by simp
    qed
  qed
qed

lemma undecided_agrees: "agrees t0 J t \<Longrightarrow> undecided t J \<longleftrightarrow> undecided t0 J"
  by (simp add: undecided_def agrees_def)

lemma entry_finds:
  fixes name :: string
  assumes K: "is_abs (gu_transactions g)" and hex: "hex_digests (sh_restore h)"
  defines "J \<equiv> clean_elements (gu_transactions g) @ [name]"
  assumes u: "undecided t0 J"
  shows "triple (holds (agrees t0 J)) (scan_entry h g (name, n) acc)
     (\<lambda>acc'. holds (\<lambda>t. agrees t0 J t \<and> name \<in> pending_ids acc')) (holds (agrees t0 J))"
proof -
  let ?I = "holds (agrees t0 J)" and ?root = "join_path [gu_transactions g, name]"
  let ?Q = "\<lambda>acc'. holds (\<lambda>t. agrees t0 J t \<and> name \<in> pending_ids acc')"
  have quiet: "triple ?I check_context (\<lambda>_. ?I) ?I" "triple ?I (reject_existing_target_links ?root) (\<lambda>_. ?I) ?I"
    by (intro holds_only_reads within readonly)+
  have body: "triple ?I (io_bind (tx_try (lstat (intent_path ?root))) (\<lambda>r. case r of
           Inl x \<Rightarrow> if x = ENOENT then io_then (without_cancel (remove_safe_path (sh_restore h) ?root)) (io_return acc) else io_fail (TxOs x)
         | Inr _ \<Rightarrow> scan_intent h name ?root acc)) ?Q ?I" if "is_opaque_store_id name"
  proof -
    have root: "is_abs ?root" "clean_elements ?root = J"
      using join_component[OF K] opaque_plain[OF that] by (auto simp: J_def)
    have stat: "yields t (tx_try (lstat (intent_path ?root))) (\<lambda>r. r = Inl EIO \<or> (\<exists>n. r = Inr n))"
      if t: "wf_tree t" "agrees t0 J t" for t
    proof -
      note key = intent_key[OF root(1)]
      have "undecided t J" using undecided_agrees[OF t(2)] u by simp
      then obtain n where n: "fmlookup t (clean_elements (intent_path ?root)) = Some n"
        using key(1) root(2) by (auto simp: undecided_def)
      have "node_at t (locate t (intent_path ?root)) = Inr n"
        using locate_present[OF t(1) key(2) n] n key(1) by (simp add: node_at_def entry_def)
      then show ?thesis unfolding lstat_def by (intro yields_mono[OF yields_try]) auto
    qed
    have found: "triple ?I (scan_intent h name ?root acc) ?Q ?I"
      by (rule holds_reads[OF only_reads_scan_intent yields_scan_intent[OF _ hex root(1)]])
        (use u undecided_agrees root(2) in auto)
    show ?thesis
    proof (rule triple_bind[OF holds_reads[OF _ stat]])
      show "only_reads (tx_try (lstat (intent_path ?root)))" by (intro within readonly)
      fix r :: "errno + node"
      show "triple (holds (\<lambda>t. agrees t0 J t \<and> (r = Inl EIO \<or> (\<exists>n. r = Inr n)))) (case r of
           Inl x \<Rightarrow> if x = ENOENT then io_then (without_cancel (remove_safe_path (sh_restore h) ?root)) (io_return acc) else io_fail (TxOs x)
         | Inr _ \<Rightarrow> scan_intent h name ?root acc) ?Q ?I"
      proof (cases r)
        case (Inl x)
        show ?thesis
        proof (cases "x = EIO")
          case True
          then show ?thesis by (auto simp: Inl holds_def intro: triple_fail)
        next
          case False
          then show ?thesis by (auto simp: Inl holds_def intro!: tripleI)
        qed
      next
        case (Inr k)
        then show ?thesis using found by simp
      qed
    qed
  qed
  show ?thesis
    unfolding scan_entry_def prod.case Let_def
  proof (rule triple_then[OF quiet(1)], rule triple_map_error)
    show "triple ?I (if \<not> is_dir n \<or> \<not> is_opaque_store_id name then io_fail TxStore
       else io_then (reject_existing_target_links ?root)
        (io_bind (tx_try (lstat (intent_path ?root))) (\<lambda>r. case r of
           Inl x \<Rightarrow> if x = ENOENT then io_then (without_cancel (remove_safe_path (sh_restore h) ?root)) (io_return acc) else io_fail (TxOs x)
         | Inr _ \<Rightarrow> scan_intent h name ?root acc))) ?Q ?I"
    proof (cases "\<not> is_dir n \<or> \<not> is_opaque_store_id name")
      case False
      then show ?thesis using triple_then[OF quiet(2) body] by simp
    qed (auto intro: triple_fail)
  qed
qed

lemma triple_and_gives: "triple P m Q E \<Longrightarrow> gives m G \<Longrightarrow> triple P m (\<lambda>x s. Q x s \<and> G x) E"
  by (rule tripleI) (auto simp: gives_def dest: tripleD)

lemma scan_finds:
  fixes name :: string
  assumes K: "is_abs (gu_transactions g)" and hex: "hex_digests (sh_restore h)"
  defines "J \<equiv> clean_elements (gu_transactions g) @ [name]"
  assumes u: "undecided t0 J"
  shows "name \<in> fst ` set es \<or> name \<in> pending_ids acc \<Longrightarrow>
     triple (holds (agrees t0 J)) (io_fold (scan_entry h g) es acc) (\<lambda>acc' _. name \<in> pending_ids acc') (\<lambda>_. True)"
proof (induction es arbitrary: acc)
  case Nil
  then show ?case by (auto intro: triple_return)
next
  case (Cons e es)
  let ?I = "holds (agrees t0 J)"
  have go: "triple ?I (scan_entry h g e acc)
      (\<lambda>acc' s. ?I s \<and> (name \<in> fst ` set es \<or> name \<in> pending_ids acc')) (\<lambda>_. True)"
  proof (cases "fst e = name")
    case True
    then show ?thesis
      using entry_finds[where ?t0.0 = t0 and n = "snd e" and acc = acc, OF K hex u[unfolded J_def]] unfolding J_def
      by (cases e) (auto elim!: triple_conseq simp: holds_def)
  next
    case False
    have t: "triple ?I (scan_entry h g e acc) (\<lambda>acc' s. ?I s \<and> pending_ids acc \<subseteq> pending_ids acc') ?I"
      using triple_and_gives[OF entry_keeps_other[where ?t0.0 = t0 and h = h and acc = acc, OF K False] gives_entry_grows] unfolding J_def .
    show ?thesis by (rule triple_conseq[OF t]) (use Cons.prems False in auto)
  qed
  show ?case
    unfolding io_fold.simps
  proof (rule triple_bind[OF go])
    fix acc'
    show "triple (\<lambda>s. ?I s \<and> (name \<in> fst ` set es \<or> name \<in> pending_ids acc')) (io_fold (scan_entry h g) es acc')
        (\<lambda>acc'' _. name \<in> pending_ids acc'') (\<lambda>_. True)"
    proof (cases "name \<in> fst ` set es \<or> name \<in> pending_ids acc'")
      case True
      then show ?thesis using Cons.IH[OF True] by simp
    next
      case False
      then show ?thesis by (auto intro!: tripleI)
    qed
  qed
qed

lemma lists_entry:
  assumes wf: "wf_tree t" and p: "is_abs p" and n: "fmlookup t (clean_elements p @ name # x # xs) \<noteq> None"
  shows "yields t (tx_os (read_dir_nodes p)) (\<lambda>es. name \<in> fst ` set es)"
proof -
  let ?k = "clean_elements p"
  obtain v where v: "fmlookup t (?k @ name # x # xs) = Some v" using n by blast
  have dirs: "\<exists>m. entry t ([] @ ys) = Some (Dir m)" if "?k = ys @ zs" for ys zs
    using wf_tree_above[OF wf, of ys "zs @ name # x # xs" v] v that by simp
  have k: "\<exists>m. entry t ?k = Some (Dir m)" using dirs[of ?k "[]"] by simp
  have "locate_final t p = Inr ([] @ ?k)"
    unfolding locate_final_def
    by (rule follow_dirs[OF abs_elements_plain[OF p]]) (use dirs k in \<open>auto simp: is_link_def\<close>)
  moreover have "?k @ [name] \<in> set (below t ?k)"
    using wf_tree_above[OF wf, of "?k @ [name]" "x # xs" v] v by (auto simp: set_below entry_def fmlookup_dom'_iff)
  then have "name \<in> set (child_names t ?k)" by (force simp: child_names_def)
  ultimately show ?thesis
    unfolding read_dir_nodes_def by (intro yields_mono[OF yields_os]) (use k in \<open>auto simp: image_image\<close>)
qed

lemma scan_pending_complete:
  assumes w: "calm (tx_world s)" "wf_tree (w_tree (tx_world s))" and K: "is_abs (gu_transactions g)"
    and hex: "hex_digests (sh_restore h)" and run: "scan_pending h g s = (Inr ps, s')"
    and u: "undecided (w_tree (tx_world s)) (clean_elements (gu_transactions g) @ [name])"
  shows "name \<in> di_transactionID ` pt_descriptor ` set ps"
proof -
  let ?t = "w_tree (tx_world s)" and ?J = "clean_elements (gu_transactions g) @ [name]"
  let ?I = "holds (\<lambda>t. t = ?t)"
  have start: "?I s" using w by (simp add: holds_def sane_def)
  have asked: "triple ?I check_context (\<lambda>_. ?I) ?I" by (intro holds_only_reads within)
  have nodes: "triple ?I (io_map_error (TxRecovery []) (tx_os (read_dir_nodes (gu_transactions g))))
      (\<lambda>es. holds (\<lambda>t. t = ?t \<and> name \<in> fst ` set es)) ?I"
  proof (rule triple_map_error, rule holds_reads)
    show "only_reads (tx_os (read_dir_nodes (gu_transactions g)))" unfolding read_dir_nodes_def by (intro within readonly)
    show "yields t (tx_os (read_dir_nodes (gu_transactions g))) (\<lambda>es. name \<in> fst ` set es)" if "wf_tree t" "t = ?t" for t
      using lists_entry[OF that(1) K] u that(2) by (auto simp: undecided_def)
  qed
  have fold: "triple (holds (\<lambda>t. t = ?t \<and> name \<in> fst ` set es))
      (io_bind (io_fold (scan_entry h g) es ([], [])) (\<lambda>(_, pending). io_return (sort_by pending_before pending)))
      (\<lambda>ps _. name \<in> di_transactionID ` pt_descriptor ` set ps) (\<lambda>_. True)" for es
  proof (cases "name \<in> fst ` set es")
    case True
    then have "name \<in> fst ` set es \<or> name \<in> pending_ids ([], [])" by blast
    note go = scan_finds[OF K hex u this]
    have start: "holds (\<lambda>t. t = ?t \<and> name \<in> fst ` set es) v \<Longrightarrow> holds (agrees ?t ?J) v" for v
      by (simp add: holds_def agrees_def)
    show ?thesis
    proof (rule triple_bind)
      show "triple (holds (\<lambda>t. t = ?t \<and> name \<in> fst ` set es)) (io_fold (scan_entry h g) es ([], []))
          (\<lambda>acc _. name \<in> pending_ids acc) (\<lambda>_. True)"
        by (rule triple_conseq[OF go]) (use start in auto)
      show "triple (\<lambda>_. name \<in> pending_ids acc) (case acc of (_, pending) \<Rightarrow> io_return (sort_by pending_before pending))
          (\<lambda>ps _. name \<in> di_transactionID ` pt_descriptor ` set ps) (\<lambda>_. True)" for acc
        by (rule tripleI) (auto simp: io_return_def pending_ids_def split: prod.splits)
    qed
  qed (auto simp: holds_def intro!: tripleI)
  have "triple ?I (scan_pending h g) (\<lambda>ps _. name \<in> di_transactionID ` pt_descriptor ` set ps) (\<lambda>_. True)"
    unfolding scan_pending_def
    by (rule triple_then[OF triple_conseq[OF asked] triple_bind[OF triple_conseq[OF nodes] fold]]) auto
  from tripleD(2)[OF this start run] show ?thesis .
qed

text \<open>
  Property C8. The pending transactions a scan leaves to recover are in a strict order, newest first: by the start
  of their run descending, for one start by the identity of the run descending, and within a run by the
  mutation ordinal descending. No run has two of one ordinal, and every one carries an intent that was read from its own
  root, validated and checked against its snapshots. None is missed: every transaction that has a
  durable intent and no terminal marker when the scan starts is among them, whichever roots without an intent the scan
  removes on the way.
\<close>

theorem pending_is_newest_first:
  assumes "calm (tx_world s)" and "wf_tree (w_tree (tx_world s))" and "is_abs (gu_transactions g)"
    and "hex_digests (sh_restore h)" and "scan_pending h g s = (Inr ps, s')"
  shows "sorted_wrt (\<lambda>p q. pt_started q < pt_started p \<or> pt_started p = pt_started q \<and>
         (di_restoreRunID (pt_descriptor q) < di_restoreRunID (pt_descriptor p) \<or>
          di_restoreRunID (pt_descriptor p) = di_restoreRunID (pt_descriptor q) \<and>
          di_mutationOrdinal (pt_descriptor q) < di_mutationOrdinal (pt_descriptor p))) ps \<and>
     distinct (map (\<lambda>p. (di_restoreRunID (pt_descriptor p), di_mutationOrdinal (pt_descriptor p))) ps) \<and>
     list_all (\<lambda>p. accepted (sh_restore h) (pt_intent p) \<and>
        ji_transactionRoot (pt_intent p) = join_path [gu_transactions g, di_transactionID (pt_descriptor p)]) ps \<and>
     {name. undecided (w_tree (tx_world s)) (clean_elements (gu_transactions g) @ [name])}
       \<subseteq> (\<lambda>p. di_transactionID (pt_descriptor p)) ` set ps"
proof -
  have order: "sorted_wrt pending_before ps" "distinct (map pending_key ps)"
    "list_all (\<lambda>p. accepted (sh_restore h) (pt_intent p) \<and>
        ji_transactionRoot (pt_intent p) = join_path [gu_transactions g, di_transactionID (pt_descriptor p)]) ps"
    using gives_pending[of h g] assms(5) by (auto simp: gives_def)
  have "sorted_wrt (\<lambda>p q. pt_started q < pt_started p \<or> pt_started p = pt_started q \<and>
         (di_restoreRunID (pt_descriptor q) < di_restoreRunID (pt_descriptor p) \<or>
          di_restoreRunID (pt_descriptor p) = di_restoreRunID (pt_descriptor q) \<and>
          di_mutationOrdinal (pt_descriptor q) < di_mutationOrdinal (pt_descriptor p))) ps"
    by (rule sorted_wrt_mono_rel[OF _ order(1)]) (auto simp: pending_before_def split: if_splits)
  moreover have "distinct (map (\<lambda>p. (di_restoreRunID (pt_descriptor p), di_mutationOrdinal (pt_descriptor p))) ps)"
    using order(2) by (simp add: pending_key_def[abs_def])
  moreover have "{name. undecided (w_tree (tx_world s)) (clean_elements (gu_transactions g) @ [name])}
       \<subseteq> (\<lambda>p. di_transactionID (pt_descriptor p)) ` set ps"
    using scan_pending_complete[OF assms] by (auto simp: image_image)
  ultimately show ?thesis using order(3) by blast
qed

end
