(* ===== verification/RestoreRecoverySample.thy ===== *)
theory RestoreRecoverySample
  imports RestoreSample RestoreStoreProperties PendingScan
begin

text \<open>
  A store with one transaction, evaluated in the kernel: its file is written and its directory
  created. Without a terminal marker a crash interrupted it and recovery rolls it back; with a
  committed marker it is a member that can be reverted.
\<close>

definition sample_id :: string where "sample_id = replicate 32 CHR ''a''"

definition sample_descriptor :: descriptor_disk where
  "sample_descriptor = \<lparr>di_format = descriptor_format, di_version = store_version, di_transactionID = sample_id,
     di_restoreRunID = sample_id, di_runID = ''r'', di_runStartedAt = ''T'', di_mutationOrdinal = 0, di_captureID = ''c'',
     di_descriptorDigest = sample_sha ''i''\<rparr>"

definition sample_store :: store_host where
  "sample_store = \<lparr>sh_restore = (sample_host None)\<lparr>rh_journal := (rh_journal (sample_host None))\<lparr>jc_decode_marker :=
       (\<lambda>s. if s = ''m'' @ [LF] then Some (sample_marker JournalCommitted ValidationPassed RollbackNotRequired) else None)\<rparr>\<rparr>,
     sh_codec = \<lparr>sc_encode_descriptor_identity = (\<lambda>_. ''i''), sc_encode_descriptor = (\<lambda>_. ''d''),
       sc_decode_descriptor = (\<lambda>s. if s = ''d'' @ [LF] then Some sample_descriptor else None),
       sc_encode_legacy_identity = (\<lambda>_. []), sc_encode_legacy = (\<lambda>_. []), sc_decode_legacy = (\<lambda>_. None),
       sc_encode_revert_identity = (\<lambda>_. []), sc_encode_revert = (\<lambda>_. ''r''), sc_decode_revert = (\<lambda>_. None),
       sc_format_time = (\<lambda>_. ''T''), sc_parse_time = (\<lambda>_. Some (0, True))\<rparr>\<rparr>"

definition sample_work :: work_codec where
  "sample_work = \<lparr>wk_parse_journal = (\<lambda>_. None), wk_encode_entry = (\<lambda>_. []), wk_encode_prepared = (\<lambda>_. []),
     wk_decode_prepared = (\<lambda>_. None), wk_encode_completed = (\<lambda>_. []), wk_decode_completed = (\<lambda>_. None)\<rparr>"

definition sample_guard :: guard where
  "sample_guard = \<lparr>gu_storeRoot = ''/v'', gu_transactions = ''/t'', gu_legacyMembers = ''/m'', gu_legacyReverts = ''/m'',
     gu_legacyRevertWork = ''/w'', gu_runID = ''r'', gu_restoreRunID = sample_id, gu_runStartedAt = 0, gu_nextOrdinal = 0,
     gu_locked = True, gu_closed = False\<rparr>"

definition sample_member :: "store_member option" where
  "sample_member = Some \<lparr>sm_kind = StoreMemberGeneration, sm_ordinal = 0, sm_captureID = ''c'', sm_legacyPath = [],
     sm_storeRoot = ''/v'', sm_restoreRun = sample_id, sm_memberID = sample_id, sm_sourceDigest = sample_sha ''marker''\<rparr>"

definition sample_terminal :: "(key \<times> node) list" where
  "sample_terminal = [([''t'', sample_id, ''journal'', ''terminal-'' @ sample_sha ''identity'' @ ''.json''], File 4 384 (''m'' @ [LF]))]"

definition sample_entries :: "(key \<times> node) list" where
  "sample_entries = [([''h''], Dir 493), ([''h'', ''d''], Dir 493), ([''h'', ''d'', ''f''], File 3 420 ''x''),
     ([''t''], Dir 448), ([''w''], Dir 448), ([''t'', sample_id], Dir 448),
     ([''t'', sample_id, ''transaction.json''], File 1 384 (''d'' @ [LF])), ([''t'', sample_id, ''journal''], Dir 448),
     ([''t'', sample_id, ''journal'', ''intent.json''], File 2 384 (''intent'' @ [LF])),
     ([''t'', sample_id, ''snapshots''], Dir 448), ([''t'', sample_id, ''snapshots'', ''000000''], Dir 448)]"

definition sample_stored :: "(key \<times> node) list \<Rightarrow> tree" where
  "sample_stored terminal = fmap_of_list (sample_entries @ terminal)"

definition sample_crash :: "(key \<times> node) list \<Rightarrow> tx" where
  "sample_crash terminal = \<lparr>tx_world = \<lparr>w_tree = sample_stored terminal, w_fresh = 5, w_random = [''7'', ''8''], w_events = []\<rparr>,
     tx_canceled = [], tx_registry = \<lparr>rg_values = fmempty, rg_calls = 0\<rparr>, tx_touched = [], tx_began = False, tx_observed = []\<rparr>"

definition is_done :: "('e + 'a) \<times> 's \<Rightarrow> bool" where
  "is_done r = (case fst r of Inl _ \<Rightarrow> False | Inr _ \<Rightarrow> True)"

lemma sample_pending: "length (pending_of sample_store sample_work sample_guard (sample_crash [])) = 1"
  by code_simp

lemma sample_recovered: "is_done (recover_pending sample_store sample_work sample_guard (sample_crash []))"
  by code_simp

definition reverted_all :: "nat \<Rightarrow> (tx_error + generation_revert_result \<times> tx_error option) \<times> tx \<Rightarrow> bool" where
  "reverted_all n r = (case fst r of Inr (res, None) \<Rightarrow> grr_actionCount res = n | _ \<Rightarrow> False)"

lemma sample_reverted: "reverted_all 1 (revert_generation_member sample_store sample_guard sample_member (sample_crash sample_terminal))"
  by code_simp

lemma sample_stored_facts: "wf_tree (sample_stored terminal)" if "terminal = [] \<or> terminal = sample_terminal"
proof -
  have "wf_tree (sample_stored [])" "wf_tree (sample_stored sample_terminal)"
    unfolding sample_stored_def by (rule wf_tree_of_list, code_simp)+
  then show ?thesis using that by blast
qed

lemma sample_crash_facts:
  "calm (tx_world (sample_crash terminal))" "hex_digests (sh_restore sample_store)" "sh_sha sample_store = sample_sha"
proof -
  show "calm (tx_world (sample_crash terminal))" by (simp add: sample_crash_def calm_def byte_in_def)
  show "sh_sha sample_store = sample_sha" by (simp add: sample_store_def sample_host_def)
  then show "hex_digests (sh_restore sample_store)" using sample_facts(2)[of None]
    by (simp add: hex_digests_def sample_host_def)
qed

theorem recovery_restores_recorded_states_witness:
  "all_recorded sample_sha (w_tree (tx_world (snd (recover_pending sample_store sample_work sample_guard (sample_crash [])))))
     (ji_actions (pt_intent (last (pending_of sample_store sample_work sample_guard (sample_crash [])))))"
proof -
  let ?r = "recover_pending sample_store sample_work sample_guard (sample_crash [])"
  obtain s' where run: "?r = (Inr (), s')" using sample_recovered by (cases ?r) (auto simp: is_done_def split: sum.splits)
  have some: "pending_of sample_store sample_work sample_guard (sample_crash []) \<noteq> []" using sample_pending by auto
  have wf: "wf_tree (w_tree (tx_world (sample_crash [])))" using sample_stored_facts by (simp add: sample_crash_def)
  show ?thesis
    using recovery_restores_recorded_states[OF sample_crash_facts(1) wf sample_crash_facts(2) run some]
    by (simp add: run sample_crash_facts(3))
qed

theorem reverted_member_is_as_recorded_witness:
  "\<exists>intent. revert_intent sample_store sample_guard sample_member (sample_crash sample_terminal) = Some intent \<and>
     all_recorded sample_sha (w_tree (tx_world (snd (revert_generation_member sample_store sample_guard sample_member
       (sample_crash sample_terminal))))) (ji_actions intent)"
proof -
  let ?r = "revert_generation_member sample_store sample_guard sample_member (sample_crash sample_terminal)"
  obtain res s' where run: "?r = (Inr (res, None), s')"
    using sample_reverted by (cases ?r) (auto simp: reverted_all_def split: sum.splits option.splits)
  have wf: "wf_tree (w_tree (tx_world (sample_crash sample_terminal)))" using sample_stored_facts by (simp add: sample_crash_def)
  show ?thesis
    using reverted_member_is_as_recorded[OF sample_crash_facts(1) wf run]
    by (auto simp: run sample_crash_facts(3))
qed

theorem durable_intent_is_never_discarded_witness:
  "w_tree (tx_world (snd (discard_transaction_root sample_store sample_guard (''/t/'' @ sample_id) (sample_crash [])))) =
     sample_stored []"
proof -
  let ?r = "discard_transaction_root sample_store sample_guard (''/t/'' @ sample_id) (sample_crash [])"
  have wf: "wf_tree (w_tree (tx_world (sample_crash [])))" using sample_stored_facts by (simp add: sample_crash_def)
  have "clean_elements (''/t/'' @ sample_id) = [''t'', sample_id]" by code_simp
  moreover have "fmlookup (sample_stored []) [''t'', sample_id, ''journal'', ''intent.json''] = Some (File 2 384 (''intent'' @ [LF]))"
    by code_simp
  ultimately have "fmlookup (w_tree (tx_world (sample_crash []))) (clean_elements (''/t/'' @ sample_id) @ [''journal'', ''intent.json'']) \<noteq> None"
    by (simp add: sample_crash_def)
  from durable_intent_is_never_discarded[OF sample_crash_facts(1) wf this, of sample_store sample_guard "fst ?r" "snd ?r"]
  show ?thesis by (simp add: sample_crash_def)
qed

text \<open>The interrupted transaction is the one the scan finds; the committed one is active.\<close>

lemma sample_undecided: "undecided (sample_stored []) [''t'', sample_id]"
proof -
  have "fmlookup (sample_stored []) [''t'', sample_id, ''journal'', ''intent.json''] \<noteq> None" by code_simp
  moreover have none: "list_all (\<lambda>e. \<not> prefix ''terminal-'' (last (fst e))) sample_entries" by code_simp
  have "fmlookup (sample_stored []) ([''t'', sample_id] @ [''journal'', ''terminal-'' @ d @ ''.json'']) = None" for d
  proof (rule ccontr)
    assume "fmlookup (sample_stored []) ([''t'', sample_id] @ [''journal'', ''terminal-'' @ d @ ''.json'']) \<noteq> None"
    then obtain n where "([''t'', sample_id] @ [''journal'', ''terminal-'' @ d @ ''.json''], n) \<in> set sample_entries"
      by (auto simp: sample_stored_def fmlookup_of_list dest: map_of_SomeD)
    then have "\<not> prefix ''terminal-'' (''terminal-'' @ d @ ''.json'')" using none unfolding list_all_iff by fastforce
    then show False by simp
  qed
  ultimately show ?thesis by (simp add: undecided_def)
qed

definition pending_names :: "(tx_error + pending_transaction list) \<times> tx \<Rightarrow> string list" where
  "pending_names r = (case fst r of Inl _ \<Rightarrow> [] | Inr ps \<Rightarrow> map (\<lambda>p. di_transactionID (pt_descriptor p)) ps)"

lemma sample_scanned: "is_done (scan_pending sample_store sample_guard (sample_crash []))"
  by code_simp

theorem pending_is_newest_first_witness:
  "sample_id \<in> set (pending_names (scan_pending sample_store sample_guard (sample_crash [])))"
proof -
  let ?r = "scan_pending sample_store sample_guard (sample_crash [])"
  obtain ps s' where run: "?r = (Inr ps, s')" using sample_scanned by (cases ?r) (auto simp: is_done_def split: sum.splits)
  have wf: "wf_tree (w_tree (tx_world (sample_crash [])))" using sample_stored_facts by (simp add: sample_crash_def)
  have K: "is_abs (gu_transactions sample_guard)" "clean_elements (gu_transactions sample_guard) = [''t'']" by code_simp+
  have "w_tree (tx_world (sample_crash [])) = sample_stored []" by (simp add: sample_crash_def)
  then show ?thesis
    using pending_is_newest_first[OF sample_crash_facts(1) wf K(1) sample_crash_facts(2) run] sample_undecided
    by (auto simp: K(2) run pending_names_def)
qed

definition sample_reader :: guard where
  "sample_reader = sample_guard\<lparr>gu_legacyMembers := ''/w''\<rparr>"

definition listed_runs :: "(tx_error + store_run list) \<times> tx \<Rightarrow> store_run list" where
  "listed_runs r = (case fst r of Inl _ \<Rightarrow> [] | Inr runs \<Rightarrow> runs)"

lemma sample_active: "map sr_id (listed_runs (active_store_runs sample_store sample_reader (sample_crash sample_terminal))) = [sample_id]"
  by code_simp

theorem active_runs_are_ordered_witness:
  "\<exists>x. x \<in> members_in (sample_stored sample_terminal) ''/t'' (generation_member sample_store sample_reader) \<union>
      members_in (w_tree (tx_world (snd (active_store_runs sample_store sample_reader (sample_crash sample_terminal))))) ''/w''
        (legacy_member sample_store sample_reader) \<and> fst x = sample_id"
proof -
  let ?r = "active_store_runs sample_store sample_reader (sample_crash sample_terminal)"
  obtain runs s' where run: "?r = (Inr runs, s')" "map sr_id runs = [sample_id]"
    using sample_active by (cases ?r) (auto simp: listed_runs_def split: sum.splits)
  have wf: "wf_tree (w_tree (tx_world (sample_crash sample_terminal)))" using sample_stored_facts by (simp add: sample_crash_def)
  have dirs: "gu_transactions sample_reader = ''/t''" "gu_legacyMembers sample_reader = ''/w''"
    by (simp_all add: sample_reader_def sample_guard_def)
  have tree: "w_tree (tx_world (sample_crash sample_terminal)) = sample_stored sample_terminal" by (simp add: sample_crash_def)
  note rule = active_runs_are_ordered[OF sample_crash_facts(1) wf run(1), unfolded dirs tree]
  obtain r where r: "runs = [r]" "sr_id r = sample_id" using run(2) by (cases runs) auto
  obtain m where "m \<in> set (sr_members r)" using rule r(1) by (cases "sr_members r") auto
  then have "(sample_id, sr_runID r, sr_started r, m) \<in> listed runs" using r by (auto simp: listed_def)
  then show ?thesis using rule unfolding run(1) snd_conv by (metis fst_conv)
qed

end
