(* ===== verification/RestorePrepare.thy ===== *)
theory RestorePrepare
  imports RestoreMaterialize RestoreMarkers
begin

text \<open>
  Snapshots before a restore (\<open>internal/configrestore\<close>: snapshots.go, \<open>copyFilesystemSnapshot\<close> of
  filesystem_state.go): the prior state of every target is scanned and copied into a private directory of
  the transaction root, everything is verified again, and the directory is published by one rename.
\<close>

section \<open>Copying a state\<close>

text \<open>A file is copied in pieces of 64 KiB; the context is asked before every read.\<close>

function pieces :: "string \<Rightarrow> string list" where
  "pieces data = (if data = [] then [] else take 65536 data # pieces (drop 65536 data))"
  by pat_completeness auto
termination by (relation "measure length") auto

declare pieces.simps [simp del]

definition fill_snapshot_file :: "string \<Rightarrow> string \<Rightarrow> node \<Rightarrow> nat \<Rightarrow> unit action_run" where
  "fill_snapshot_file source destination opened mode =
     io_then (io_each (\<lambda>piece. io_then check_context (tx_os (write_file destination piece))) (pieces (file_data opened)))
     (io_then check_context
     (io_bind (tx_try (lstat source)) (\<lambda>r.
        case r of
          Inl _ \<Rightarrow> io_fail TxFileChanged
        | Inr current \<Rightarrow>
            if is_link current \<or> \<not> same_file opened current \<or> perm (node_mode current) \<noteq> perm (node_mode opened) \<or>
               length (file_data current) \<noteq> length (file_data opened)
            then io_fail TxFileChanged
            else io_then (tx_os (sync_file destination)) (tx_os (chmod destination (perm mode))))))"

definition copy_snapshot_file :: "string \<Rightarrow> string \<Rightarrow> nat \<Rightarrow> unit action_run" where
  "copy_snapshot_file source destination mode =
     io_then check_context
     (io_bind (tx_try (lstat source)) (\<lambda>r.
        case r of
          Inl _ \<Rightarrow> io_fail TxUnsafeType
        | Inr info \<Rightarrow>
            if \<not> is_regular info \<or> is_link info then io_fail TxUnsafeType
            else io_bind (tx_os (open_file source)) (\<lambda>opened.
              if \<not> same_file info opened then io_fail TxFileChanged
              else io_then (tx_os (change (\<lambda>i. create_tree destination 384 i)))
                (io_on_error (fill_snapshot_file source destination opened mode) (tx_os (remove destination))))))"

text \<open>The first argument bounds the depth of the tree, as the kernel bounds the length of a path.\<close>

fun copy_snapshot_directory :: "nat \<Rightarrow> string \<Rightarrow> string \<Rightarrow> string \<Rightarrow> fs_state \<Rightarrow> unit action_run" where
  "copy_snapshot_directory 0 source destination relative expected = io_fail TxTooDeep"
| "copy_snapshot_directory (Suc depth) source destination relative expected =
     io_then check_context
     (case fmlookup (fs_entries expected) relative of
        None \<Rightarrow> io_fail TxFileChanged
      | Some e \<Rightarrow>
          if en_kind e \<noteq> StateDirectory then io_fail TxFileChanged
          else io_bind (tx_try (lstat source)) (\<lambda>r.
            case r of
              Inl _ \<Rightarrow> io_fail TxFileChanged
            | Inr info \<Rightarrow>
                if \<not> is_dir info \<or> is_link info \<or> perm (node_mode info) \<noteq> perm (en_mode e) then io_fail TxFileChanged
                else io_then (tx_os (mkdir destination 448))
                  (io_bind (tx_os (read_dir source)) (\<lambda>names.
                    io_then (io_each (\<lambda>name.
                        let childSource = join_path [source, name]; childDestination = join_path [destination, name];
                            childRelative = (if relative \<noteq> ''.'' then join_path [relative, name] else name) in
                        case fmlookup (fs_entries expected) childRelative of
                          None \<Rightarrow> io_fail TxFileChanged
                        | Some child \<Rightarrow>
                            io_bind (tx_try (lstat childSource)) (\<lambda>c.
                              case c of
                                Inl _ \<Rightarrow> io_fail TxFileChanged
                              | Inr childInfo \<Rightarrow>
                                  if is_link childInfo then io_fail TxFileChanged
                                  else if en_kind child = StateDirectory
                                  then copy_snapshot_directory depth childSource childDestination childRelative expected
                                  else if en_kind child = StateFile then
                                    (if \<not> is_regular childInfo \<or> perm (node_mode childInfo) \<noteq> perm (en_mode child)
                                     then io_fail TxFileChanged
                                     else copy_snapshot_file childSource childDestination (en_mode child))
                                  else io_fail TxUnsafeType)) names)
                      (tx_os (chmod destination (perm (en_mode e))))))))"

definition copy_filesystem_snapshot :: "restore_host \<Rightarrow> string \<Rightarrow> string \<Rightarrow> fs_state \<Rightarrow> unit action_run" where
  "copy_filesystem_snapshot h source destination expected =
     (if fs_kind expected = StateAbsent then io_return ()
      else io_then check_context
        (io_then (reject_existing_target_links source)
          (if fs_kind expected = StateFile then copy_snapshot_file source destination (fs_mode expected)
           else if fs_kind expected = StateDirectory
           then copy_snapshot_directory (rh_depth h) source destination ''.'' expected
           else io_fail TxUnsafeType)))"

section \<open>The request\<close>

text \<open>\<open>None\<close> stands for a set or a list of actions that is nil.\<close>

record snapshot_request =
  sq_set :: "materialized_set option"
  sq_transactionRoot :: string
  sq_registryReader :: "registry_mutator option"

definition separate_action :: "string \<Rightarrow> action \<Rightarrow> bool" where
  "separate_action root a \<longleftrightarrow> ac_snapshotRequired a \<and>
     (ac_kind a \<noteq> ActionRegistrySet \<longrightarrow> separate_path root (ac_target a) \<and>
        (ac_kind a = ActionCopy \<longrightarrow> separate_path root (ac_source a)))"

definition validate_snapshot_request :: "snapshot_request \<Rightarrow> (materialized_set \<times> string) action_run" where
  "validate_snapshot_request rq =
     io_then check_context
     (case sq_set rq of
        None \<Rightarrow> io_fail TxInput
      | Some ms \<Rightarrow>
          let root = sq_transactionRoot rq in
          if root = [] \<or> \<not> is_abs root \<or> clean_path root \<noteq> root then io_fail TxInput
          else io_then (reject_existing_target_links root)
            (io_bind (tx_try (lstat root)) (\<lambda>r.
              case r of
                Inl _ \<Rightarrow> io_fail TxInput
              | Inr info \<Rightarrow>
                  if \<not> is_dir info \<or> is_link info \<or> \<not> list_all (separate_action root) (ms_actions ms)
                  then io_fail TxInput else io_return (ms, root))))"

definition read_registry_snapshot :: "registry_mutator option \<Rightarrow> registry_value option \<Rightarrow> registry_snapshot action_run" where
  "read_registry_snapshot reader v =
     (case (reader, v) of
        (Some m, Some x) \<Rightarrow> read_transaction_registry_snapshot m (gv_key x) (gv_valueName x)
      | _ \<Rightarrow> io_fail TxRegistryMissing)"

definition registry_state_record :: "restore_host \<Rightarrow> registry_snapshot \<Rightarrow> string \<Rightarrow> state_record" where
  "registry_state_record h s backup =
     \<lparr>rc_kind = (if gs_exists s then StateRegistryValue else StateAbsent), rc_digest = digest_registry_snapshot h s,
      rc_mode = 0, rc_backup = backup, rc_entries = []\<rparr>"

section \<open>One action\<close>

text \<open>What is remembered of an action until its snapshot is published; the backup is the temporary one.\<close>

datatype prior_snapshot = PriorFilesystem fs_state string | PriorRegistry registry_snapshot string

record prepared_internal =
  pi_record :: prepared_action
  pi_missingParents :: "string list"
  pi_prior :: prior_snapshot

definition prepared_action_of ::
    "action \<Rightarrow> state_record \<Rightarrow> state_record \<Rightarrow> string \<Rightarrow> string list \<Rightarrow> prepared_action" where
  "prepared_action_of a prior desired sourceDigest missingParents =
     \<lparr>pa_action = a, pa_prior = prior, pa_desired = desired, pa_sourceDigest = sourceDigest,
      pa_missingParents = missingParents\<rparr>"

text \<open>The desired state of a filesystem action with the digest of its source.\<close>

definition desired_action_state :: "restore_host \<Rightarrow> action \<Rightarrow> fs_state \<Rightarrow> (fs_state \<times> string) action_run" where
  "desired_action_state h a prior =
     (case ac_kind a of
        ActionCopy \<Rightarrow>
          io_bind (scan_filesystem_state h (ac_source a)) (\<lambda>source.
            if fs_kind source = StateAbsent \<or> ac_sourceIsDirectory a \<noteq> (fs_kind source = StateDirectory)
            then io_fail TxSourceChanged
            else io_bind (io_map_error TxState (io_of (desired_copy_state (rh_sha h) prior source (ac_exclude a)))) (\<lambda>desired.
              io_return (desired, fs_digest source)))
      | ActionWriteFile \<Rightarrow> io_return (desired_write_state (rh_sha h) prior (ac_desiredContent a), [])
      | _ \<Rightarrow> io_return (absent_state (rh_sha h), []))"

definition backup_filesystem_state :: "restore_host \<Rightarrow> string \<Rightarrow> string \<Rightarrow> fs_state \<Rightarrow> unit action_run" where
  "backup_filesystem_state h target temporaryBackup prior =
     (if fs_kind prior = StateAbsent then io_return ()
      else io_then (copy_filesystem_snapshot h target temporaryBackup prior)
        (io_bind (scan_filesystem_state h temporaryBackup) (\<lambda>backup.
          io_when (\<not> states_equal prior backup) TxBackupInexact)))"

definition prepare_filesystem_action ::
    "restore_host \<Rightarrow> action \<Rightarrow> string \<Rightarrow> string \<Rightarrow> prepared_internal action_run" where
  "prepare_filesystem_action h a actionDirectory finalDirectory =
     io_bind (find_missing_parents (ac_target a)) (\<lambda>missingParents.
     io_bind (scan_filesystem_state h (ac_target a)) (\<lambda>prior.
       if (ac_kind a = ActionWriteFile \<or> ac_kind a = ActionDeleteFile) \<and> fs_kind prior = StateDirectory
       then io_fail TxUnsafeType
       else io_then (backup_filesystem_state h (ac_target a) (join_path [actionDirectory, ''prior'']) prior)
         (io_bind (scan_filesystem_state h (ac_target a)) (\<lambda>current.
           if \<not> states_equal prior current then io_fail TxStateDiffers
           else io_bind (desired_action_state h a prior) (\<lambda>(desired, sourceDigest).
             io_return
               \<lparr>pi_record = prepared_action_of a
                  (state_record prior (if fs_kind prior = StateAbsent then [] else join_path [finalDirectory, ''prior'']))
                  (state_record desired []) sourceDigest missingParents,
                pi_missingParents = missingParents,
                pi_prior = PriorFilesystem prior
                  (if fs_kind prior = StateAbsent then [] else join_path [actionDirectory, ''prior''])\<rparr>)))))"

definition prepare_registry_action ::
    "restore_host \<Rightarrow> registry_mutator option \<Rightarrow> action \<Rightarrow> string \<Rightarrow> string \<Rightarrow> prepared_internal action_run" where
  "prepare_registry_action h reader a actionDirectory finalDirectory =
     io_bind (read_registry_snapshot reader (ac_registryValue a)) (\<lambda>prior.
     let temporaryBackup = join_path [actionDirectory, ''prior.registry''] in
     io_then (persist_registry_snapshot h temporaryBackup prior)
     (io_bind (read_registry_snapshot reader (ac_registryValue a)) (\<lambda>current.
       if \<not> registry_snapshots_equal prior current then io_fail TxRegistryDiffers
       else (case ac_registryValue a of None \<Rightarrow> io_fail TxRegistryValue
         | Some v \<Rightarrow>
             (case desired_registry_snapshot (rh_upper h) v of None \<Rightarrow> io_fail TxRegistryValue
              | Some desired \<Rightarrow>
                  io_return
                    \<lparr>pi_record = prepared_action_of a
                       (registry_state_record h prior (join_path [finalDirectory, ''prior.registry'']))
                       (registry_state_record h desired []) [] [],
                     pi_missingParents = [], pi_prior = PriorRegistry prior temporaryBackup\<rparr>)))))"

definition prepare_snapshot_action ::
    "restore_host \<Rightarrow> registry_mutator option \<Rightarrow> action \<Rightarrow> nat \<Rightarrow> string \<Rightarrow> string \<Rightarrow> prepared_internal action_run" where
  "prepare_snapshot_action h reader a index actionDirectory finalRoot =
     (let finalDirectory = join_path [finalRoot, format_action_index index] in
      if ac_kind a = ActionRegistrySet then prepare_registry_action h reader a actionDirectory finalDirectory
      else prepare_filesystem_action h a actionDirectory finalDirectory)"

fun prepare_actions ::
    "restore_host \<Rightarrow> registry_mutator option \<Rightarrow> string \<Rightarrow> string \<Rightarrow> nat \<Rightarrow> action list \<Rightarrow> prepared_internal list action_run" where
  "prepare_actions h reader temporaryRoot finalRoot index [] = io_return []"
| "prepare_actions h reader temporaryRoot finalRoot index (a # as) =
     io_then check_context
     (let actionDirectory = join_path [temporaryRoot, format_action_index index] in
      io_then (tx_os (mkdir actionDirectory 448))
      (io_bind (prepare_snapshot_action h reader a index actionDirectory finalRoot) (\<lambda>prepared.
       io_then check_context
       (io_bind (prepare_actions h reader temporaryRoot finalRoot (Suc index) as) (\<lambda>others.
         io_return (prepared # others))))))"

section \<open>Missing parents belong to one action\<close>

fun owned_parents :: "string list \<Rightarrow> string list \<Rightarrow> string list \<times> string list" where
  "owned_parents claimed [] = (claimed, [])"
| "owned_parents claimed (p # ps) =
     (if canonical_filesystem_target p \<in> set claimed then owned_parents claimed ps
      else case owned_parents (canonical_filesystem_target p # claimed) ps of (claimed', owned) \<Rightarrow> (claimed', p # owned))"

fun assign_parents :: "string list \<Rightarrow> prepared_internal list \<Rightarrow> prepared_internal list" where
  "assign_parents claimed [] = []"
| "assign_parents claimed (p # ps) =
     (case owned_parents claimed (pa_missingParents (pi_record p)) of (claimed', owned) \<Rightarrow>
        p\<lparr>pi_record := (pi_record p)\<lparr>pa_missingParents := owned\<rparr>\<rparr> # assign_parents claimed' ps)"

section \<open>The last verification\<close>

definition verify_prepared_action :: "restore_host \<Rightarrow> registry_mutator option \<Rightarrow> prepared_internal \<Rightarrow> unit action_run" where
  "verify_prepared_action h reader p =
     (let a = pa_action (pi_record p) in
      case pi_prior p of
        PriorFilesystem prior temporaryBackup \<Rightarrow>
          io_then (verify_missing_parents (pi_missingParents p))
          (io_then (if fs_kind prior = StateAbsent then io_return ()
             else io_bind (scan_filesystem_state h temporaryBackup) (\<lambda>backup.
               io_when (\<not> states_equal prior backup) TxBackupInexact))
          (io_bind (scan_filesystem_state h (ac_target a)) (\<lambda>current.
             if \<not> states_equal prior current then io_fail TxStateDiffers
             else if ac_kind a \<noteq> ActionCopy then io_return ()
             else io_bind (scan_filesystem_state h (ac_source a)) (\<lambda>source.
               io_when (fs_digest source \<noteq> pa_sourceDigest (pi_record p)) TxSourceChanged))))
      | PriorRegistry prior temporaryBackup \<Rightarrow>
          io_bind (load_registry_snapshot h temporaryBackup) (\<lambda>backup.
            if \<not> registry_snapshots_equal prior backup then io_fail TxBackupInexact
            else io_bind (read_registry_snapshot reader (ac_registryValue a)) (\<lambda>current.
              io_when (\<not> registry_snapshots_equal prior current) TxRegistryDiffers)))"

section \<open>Preparation\<close>

definition require_absent :: "string \<Rightarrow> unit action_run" where
  "require_absent p =
     io_bind (tx_try (lstat p)) (\<lambda>r.
       case r of Inr _ \<Rightarrow> io_fail TxConflict | Inl e \<Rightarrow> if e \<noteq> ENOENT then io_fail (TxOs e) else io_return ())"

definition fill_snapshots ::
    "restore_host \<Rightarrow> registry_mutator option \<Rightarrow> materialized_set \<Rightarrow> string \<Rightarrow> string \<Rightarrow> string \<Rightarrow> prepared_set action_run" where
  "fill_snapshots h reader ms root finalRoot temporaryRoot =
     io_then (tx_os (chmod temporaryRoot 448))
     (io_then (reject_existing_target_links temporaryRoot)
     (io_bind (prepare_actions h reader temporaryRoot finalRoot 0 (ms_actions ms)) (\<lambda>prepared.
       let owned = assign_parents [] prepared in
       io_then check_context
       (io_then (io_each (verify_prepared_action h reader) owned)
       (io_then check_context
       (io_then (reject_existing_target_links root)
       (io_then (require_absent finalRoot)
       (io_then (tx_os (rename temporaryRoot finalRoot))
         (io_return \<lparr>ps_snapshotRoot = finalRoot, ps_actions = map pi_record owned,
            ps_validations = ms_validations ms\<rparr>)))))))))"

text \<open>The deferred call removes the temporary root unless it was published.\<close>

definition discard_on_error :: "string \<Rightarrow> 'a action_run \<Rightarrow> 'a action_run" where
  "discard_on_error temporaryRoot m =
     io_bind (io_try m) (\<lambda>r.
       case r of
         Inr x \<Rightarrow> io_return x
       | Inl e \<Rightarrow>
           io_bind (tx_try (remove_all temporaryRoot)) (\<lambda>cleaned.
             case cleaned of Inl e' \<Rightarrow> io_fail (TxJoined [e, TxOs e']) | Inr _ \<Rightarrow> io_fail e))"

definition prepare_snapshots :: "restore_host \<Rightarrow> snapshot_request \<Rightarrow> prepared_set action_run" where
  "prepare_snapshots h rq =
     io_bind (validate_snapshot_request rq) (\<lambda>(ms, root).
       let finalRoot = join_path [root, ''snapshots''] in
       io_then (require_absent finalRoot)
         (if ms_actions ms = [] then
            io_return \<lparr>ps_snapshotRoot = [], ps_actions = [], ps_validations = ms_validations ms\<rparr>
          else io_bind (tx_os (mkdir_temp root ''.snapshots-preparing-'')) (\<lambda>temporaryRoot.
            discard_on_error temporaryRoot
              (fill_snapshots h (sq_registryReader rq) ms root finalRoot temporaryRoot))))"

end
