(* ===== verification/RestoreIntent.thy ===== *)
theory RestoreIntent
  imports RestoreTransaction
begin

text \<open>
  Publication of an intent (\<open>internal/configrestore\<close>: \<open>PersistIntent\<close> of journal.go,
  \<open>validateAndSyncPreparedSnapshots\<close> of journal_snapshots.go): before any target is changed, the
  snapshots are verified and made durable and the intent is written to a temporary file, synced and
  linked to its name without replacing anything.
\<close>

text \<open>\<open>None\<close> stands for a prepared set that is nil.\<close>

record intent_request =
  jq_transactionRoot :: string
  jq_lineage :: journal_lineage
  jq_prepared :: "prepared_set option"

definition deeper :: "string \<Rightarrow> string \<Rightarrow> bool" where
  "deeper l r =
     (let depth = (\<lambda>p. count_list (clean_path p) CHR ''/'') in if depth l \<noteq> depth r then depth r < depth l else l < r)"

definition sync_snapshots :: "string list \<Rightarrow> string list \<Rightarrow> unit action_run" where
  "sync_snapshots files directories =
     io_then (io_each (\<lambda>p. io_then journal_checkpoint (tx_os (sync_durable_file p))) files)
       (io_each (\<lambda>p. io_then journal_checkpoint (tx_os (sync_directory p))) (sort_by deeper directories))"

definition sync_prepared_snapshots :: "restore_host \<Rightarrow> string \<Rightarrow> prepared_set \<Rightarrow> journal_action list \<Rightarrow> unit action_run" where
  "sync_prepared_snapshots h root prepared actions =
     (if \<not> validate_journal_actions h root actions then io_fail TxJournal
      else io_bind (verify_snapshot_artifacts h (ps_snapshotRoot prepared) actions) (\<lambda>(files, directories).
        io_then (sync_snapshots files directories)
        (io_bind (verify_snapshot_artifacts h (ps_snapshotRoot prepared) actions) (\<lambda>_.
          io_then journal_checkpoint (tx_os (sync_directory root))))))"

definition ensure_journal_directory :: "string \<Rightarrow> bool action_run" where
  "ensure_journal_directory p =
     io_bind (tx_try (mkdir p 448)) (\<lambda>made.
       if made \<noteq> Inr () \<and> made \<noteq> Inl EEXIST then io_fail (TxOs (projl made))
       else io_then (reject_existing_target_links p)
         (io_bind (tx_try (lstat p)) (\<lambda>r.
           case r of
             Inl _ \<Rightarrow> io_fail TxUnsafeType
           | Inr info \<Rightarrow> if \<not> is_dir info \<or> is_link info then io_fail TxUnsafeType else io_return (made = Inr ()))))"

definition check_intent :: "restore_host \<Rightarrow> string \<Rightarrow> string \<Rightarrow> string \<Rightarrow> string \<Rightarrow> journal_intent action_run" where
  "check_intent h root p expectedBytes expectedDigest =
     io_bind (read_intent_file h root p) (\<lambda>existing.
     io_bind (tx_os (read_file p)) (\<lambda>data.
       if ji_digest existing \<noteq> expectedDigest \<or> data \<noteq> expectedBytes then io_fail TxConflict else io_return existing))"

definition reconcile_intent :: "restore_host \<Rightarrow> string \<Rightarrow> string \<Rightarrow> string \<Rightarrow> string \<Rightarrow> journal_intent action_run" where
  "reconcile_intent h root p expectedBytes expectedDigest =
     without_cancel
       (io_bind (check_intent h root p expectedBytes expectedDigest) (\<lambda>_.
        io_then (tx_os (sync_durable_file p))
        (io_then (tx_os (sync_directory (dir_name p)))
          (check_intent h root p expectedBytes expectedDigest))))"

definition publish_intent :: "restore_host \<Rightarrow> string \<Rightarrow> intent_disk \<Rightarrow> string \<Rightarrow> string \<Rightarrow> journal_intent action_run" where
  "publish_intent h root disk encoded temporary =
     io_then (tx_os (chmod temporary 384))
     (io_then (tx_os (write_file temporary encoded))
     (io_then (tx_os (sync_file temporary))
     (io_then check_context
     (io_then journal_checkpoint
     (io_bind (publish_no_replace temporary (intent_path root)) (\<lambda>(publication, publishErr).
       if publishErr \<noteq> None \<or> publication \<noteq> PublicationDurable then
         io_bind (tx_attempt (reconcile_intent h root (intent_path root) encoded (ii_intentDigest disk))) (\<lambda>r.
           case r of
             Inr reconciled \<Rightarrow> io_return reconciled
           | Inl e \<Rightarrow> io_fail (publication_failure publication (case publishErr of None \<Rightarrow> TxJournal | Some x \<Rightarrow> x) e))
       else io_then journal_checkpoint
         (io_then (tx_os (sync_directory (journal_directory root)))
         (io_bind (read_intent_file h root (intent_path root)) (\<lambda>verified.
           if ji_digest verified \<noteq> ii_intentDigest disk then io_fail TxConflict else io_return verified)))))))))"

definition store_intent :: "restore_host \<Rightarrow> string \<Rightarrow> intent_disk \<Rightarrow> string \<Rightarrow> journal_intent action_run" where
  "store_intent h root disk encoded =
     io_bind (tx_attempt (read_intent_file h root (intent_path root))) (\<lambda>found.
       case found of
         Inr existing \<Rightarrow>
           io_bind (tx_os (read_file (intent_path root))) (\<lambda>existingBytes.
             if ji_digest existing \<noteq> ii_intentDigest disk \<or> existingBytes \<noteq> encoded then io_fail TxConflict
             else io_bind (tx_attempt (reconcile_intent h root (intent_path root) encoded (ii_intentDigest disk))) (\<lambda>r.
               case r of Inr reconciled \<Rightarrow> io_return reconciled | Inl _ \<Rightarrow> io_fail TxAmbiguous))
       | Inl e \<Rightarrow>
           if \<not> not_exist e then io_fail e
           else io_bind (tx_os (create_temp_suffix (journal_directory root) ''.intent-'' ''.tmp'')) (\<lambda>temporary.
             io_finally (publish_intent h root disk encoded temporary) (tx_os (remove temporary))))"

definition persist_intent :: "restore_host \<Rightarrow> intent_request \<Rightarrow> journal_intent action_run" where
  "persist_intent h rq =
     (case jq_prepared rq of
        None \<Rightarrow> io_then check_context (io_bind (validate_journal_root (jq_transactionRoot rq)) (\<lambda>_. io_fail TxInput))
      | Some prepared \<Rightarrow>
          io_bind (validate_intent_request h prepared (jq_transactionRoot rq) (jq_lineage rq))
            (\<lambda>(root, lineage, actions, validations).
            io_then (sync_prepared_snapshots h root prepared actions)
              (case new_intent_disk h lineage actions validations of
                 (disk, encoded) \<Rightarrow>
                   io_bind (ensure_journal_directory (journal_directory root)) (\<lambda>created.
                   io_then (if created then tx_os (sync_directory root) else io_return ())
                     (store_intent h root disk encoded)))))"

end
