(* ===== verification/RestoreLiveSet.thy ===== *)
theory RestoreLiveSet
  imports RestorePrepare RestoreIntent ConfigResolution
begin

text \<open>
  Restoring one configuration set (\<open>internal/commands/config_restore_live_set.go\<close>): snapshots are
  prepared, a set that is already up to date is skipped, the intent is persisted, and the transaction
  is executed.
\<close>

record live_set_request =
  lr_materialized :: "materialized_set option"
  lr_transactionRoot :: string
  lr_lineage :: journal_lineage

record set_outcome =
  so_status :: terminal_status
  so_reason :: "resolution_reason option"
  so_err :: "tx_error option"
  so_canContinue :: bool
  so_prepared :: "prepared_set option"

definition failed_set :: "resolution_reason \<Rightarrow> tx_error option \<Rightarrow> bool \<Rightarrow> prepared_set option \<Rightarrow> set_outcome" where
  "failed_set reason e canContinue prepared =
     \<lparr>so_status = StatusFailed, so_reason = Some reason, so_err = e, so_canContinue = canContinue, so_prepared = prepared\<rparr>"

definition already_current :: "prepared_set \<Rightarrow> bool" where
  "already_current prepared \<longleftrightarrow>
     list_all (\<lambda>p. rc_kind (pa_prior p) = rc_kind (pa_desired p) \<and> rc_digest (pa_prior p) = rc_digest (pa_desired p))
       (ps_actions prepared)"

definition public_status :: "tx_status \<Rightarrow> terminal_status" where
  "public_status s =
     (case s of
        TransactionRestored \<Rightarrow> StatusRestored
      | TransactionRolledBack \<Rightarrow> StatusRolledBack
      | TransactionRollbackFailed \<Rightarrow> StatusRollbackFailed
      | TransactionFailed \<Rightarrow> StatusFailed)"

definition public_reason :: "tx_reason \<Rightarrow> resolution_reason" where
  "public_reason r =
     (case r of
        RestoreTypes.ReasonCommitFailed \<Rightarrow> ConfigResolution.ReasonCommitFailed
      | RestoreTypes.ReasonTargetValidationFailed \<Rightarrow> ConfigResolution.ReasonTargetValidationFailed
      | RestoreTypes.ReasonJournalCompletionFailed \<Rightarrow> ConfigResolution.ReasonJournalCompletionFailed)"

definition transaction_outcome :: "prepared_set \<Rightarrow> tx_result \<Rightarrow> set_outcome" where
  "transaction_outcome prepared res =
     \<lparr>so_status = public_status (xr_status res), so_reason = map_option public_reason (xr_reason res),
      so_err = xr_primaryErr res, so_canContinue = \<not> xr_failStop res, so_prepared = Some prepared\<rparr>"

definition execute_live_set :: "restore_host \<Rightarrow> live_set_request \<Rightarrow> set_outcome action_run" where
  "execute_live_set h rq =
     io_bind (tx_attempt (prepare_snapshots h \<lparr>sq_set = lr_materialized rq, sq_transactionRoot = lr_transactionRoot rq,
         sq_registryReader = rh_registry h\<rparr>)) (\<lambda>r.
       case r of
         Inl e \<Rightarrow> io_return (failed_set ReasonBackupFailed (Some e) True None)
       | Inr prepared \<Rightarrow>
           if already_current prepared
           then io_return \<lparr>so_status = StatusSkipped, so_reason = Some ReasonAlreadyUpToDate, so_err = None,
             so_canContinue = True, so_prepared = Some prepared\<rparr>
           else io_bind (tx_attempt (persist_intent h \<lparr>jq_transactionRoot = lr_transactionRoot rq, jq_lineage = lr_lineage rq,
               jq_prepared = Some prepared\<rparr>)) (\<lambda>p.
             case p of
               Inl e \<Rightarrow> io_return (failed_set ReasonJournalIntentFailed (Some e) False (Some prepared))
             | Inr intent \<Rightarrow>
                 io_bind (execute_transaction h \<lparr>rq_prepared = Some prepared, rq_intent = Some intent\<rparr>) (\<lambda>res.
                   io_return (transaction_outcome prepared res))))"

end
