(* ===== verification/RestorePrepareProperties.thy ===== *)
theory RestorePrepareProperties
  imports RestoreLiveSet RestoreOutcome RestoreGives
begin

text \<open>
  What the preparation of a restore guarantees in a calm world: nothing outside the transaction root
  changes, whatever fails, and the prior states that are recorded are the states of the targets.
\<close>

section \<open>Calls below the temporary directory\<close>

definition temp_dir :: "key \<Rightarrow> key set \<Rightarrow> string \<Rightarrow> bool" where
  "temp_dir R K p \<longleftrightarrow> is_abs p \<and> strict_prefix R (clean_elements p) \<and> subtree (clean_elements p) \<subseteq> K"

definition plain_name :: "string \<Rightarrow> bool" where
  "plain_name c \<longleftrightarrow> plain_element c \<and> c \<noteq> ''..''"

lemma temp_join:
  assumes d: "temp_dir R K d" and c: "plain_name c"
  shows "temp_dir R K (join_path [d, c])" and "butlast (clean_elements (join_path [d, c])) = clean_elements d"
proof -
  have j: "clean_elements (join_path [d, c]) = clean_elements d @ [c]" "is_abs (join_path [d, c])"
    using d join_component[of d c] c by (auto simp: temp_dir_def plain_name_def)
  have "subtree (clean_elements d @ [c]) \<subseteq> subtree (clean_elements d)" by (auto simp: subtree_def)
  then show "temp_dir R K (join_path [d, c])" using d j by (auto simp: temp_dir_def strict_prefix_def)
  show "butlast (clean_elements (join_path [d, c])) = clean_elements d" using j(1) by simp
qed

lemma temp_known:
  assumes "temp_dir R K d"
  shows "known K (clean_elements d)" and "K \<union> subtree (clean_elements d) = K"
proof -
  have "subtree (clean_elements d) \<subseteq> K" using assms by (simp add: temp_dir_def)
  then show "K \<union> subtree (clean_elements d) = K" and "known K (clean_elements d)"
    using subtree_mem(2)[of "clean_elements d"] by (auto intro!: knownI simp del: subtree_mem)
qed

lemma keeps_inside:
  assumes d: "temp_dir R K d" and k: "known K (butlast (clean_elements d))"
  shows "within (keeps (within_root R t0 K)) (tx_os (mkdir d m))"
    and "within (keeps (within_root R t0 K)) (tx_os (change (\<lambda>i. create_tree d m i)))"
    and "within (keeps (within_root R t0 K)) (tx_os (remove d))"
    and "within (keeps (within_root R t0 K)) (tx_os (chmod d m))"
    and "within (keeps (within_root R t0 K)) (tx_os (write_file d data))"
proof -
  have p: "is_abs d" "strict_prefix R (clean_elements d)" using d by (simp_all add: temp_dir_def)
  note same = temp_known(2)[OF d]
  show "within (keeps (within_root R t0 K)) (tx_os (mkdir d m))"
    by (rule keeps_os(1)) (use triple_mkdir[OF p k, of t0 m] same in simp)
  show "within (keeps (within_root R t0 K)) (tx_os (change (\<lambda>i. create_tree d m i)))"
    by (rule keeps_os(1)) (use triple_create[OF p k, of t0 m] same in simp)
  show "within (keeps (within_root R t0 K)) (tx_os (remove d))" by (rule keeps_os(1)[OF triple_remove[OF p k]])
  show "within (keeps (within_root R t0 K)) (tx_os (chmod d m))" by (rule keeps_os(1)[OF triple_chmod[OF p temp_known(1)[OF d]]])
  show "within (keeps (within_root R t0 K)) (tx_os (write_file d data))"
    by (rule keeps_os(1)[OF triple_write_file[OF p temp_known(1)[OF d]]])
qed

lemma keeps_names:
  assumes k: "\<And>names. list_all plain_name names \<Longrightarrow> within (keeps (within_root R t0 K)) (k names)"
  shows "within (keeps (within_root R t0 K)) (io_bind (tx_os (read_dir p)) k)"
  unfolding keeps_triple
proof (rule triple_bind)
  let ?read = "\<lambda>t. case locate_final t p of Inl e \<Rightarrow> Inl e
     | Inr k \<Rightarrow> (case entry t k of None \<Rightarrow> Inl ENOENT | Some (Dir _) \<Rightarrow> Inr (child_names t k) | Some _ \<Rightarrow> Inl ENOTDIR)"
  have "list_all plain_name names" if t: "wf_tree t" "?read t = Inr names" for t names
  proof -
    obtain j where j: "names = child_names t j" using t(2) by (auto split: sum.splits option.splits node.splits)
    have "plain_name c" if "c \<in> set names" for c
    proof -
      have "fmlookup t (j @ [c]) \<noteq> None" using child_names_iff[OF t(1)] that j by simp
      then have "plain_key (j @ [c])" using t(1) by (auto simp: wf_tree_def)
      then show ?thesis by (auto simp: plain_key_def plain_name_def)
    qed
    then show ?thesis by (simp add: list_all_iff)
  qed
  then have "triple (st R t0 K) (read_dir p) (\<lambda>names w. list_all plain_name names \<and> st R t0 K w) (st R t0 K)"
    unfolding read_dir_def by (intro triple_conseq[OF triple_query]) (auto simp: st_def)
  then show "triple (within_root R t0 K) (tx_os (read_dir p)) (\<lambda>names s. list_all plain_name names \<and> within_root R t0 K s) (within_root R t0 K)"
    unfolding within_root_def by (rule triple_tx_os)
  show "triple (\<lambda>s. list_all plain_name names \<and> within_root R t0 K s) (k names) (\<lambda>_. within_root R t0 K) (within_root R t0 K)" for names
    by (rule triple_pure) (use k in \<open>simp add: keeps_triple\<close>)
qed

lemma keeps_on_error:
  "within (keeps I) m \<Longrightarrow> within (keeps I) c \<Longrightarrow> within (keeps I) (io_on_error m c)"
  unfolding within_def io_on_error_def keeps_def by (force split: prod.splits sum.splits)

lemma only_reads_missing [within]: "only_reads (find_missing_parents target)"
proof -
  have "only_reads (missing_parents_from ps acc)" for ps acc
    by (induction ps arbitrary: acc) (auto simp: lstat_def intro!: within readonly)
  then show ?thesis unfolding find_missing_parents_def by (intro within)
qed

section \<open>Copies\<close>

lemma keeps_reading:
  "within (keeps (within_root R t0 K)) check_context" "within (keeps (within_root R t0 K)) (tx_try (lstat p))"
  "within (keeps (within_root R t0 K)) (tx_os (open_file p))" "within (keeps (within_root R t0 K)) (tx_os (sync_file p))"
  "within (keeps (within_root R t0 K)) (reject_existing_target_links p)" "within (keeps (within_root R t0 K)) (scan_filesystem_state h p)"
  by (intro keeps_only_reads within readonly)+

lemma keeps_copy_file:
  assumes d: "temp_dir R K d" and k: "known K (butlast (clean_elements d))"
  shows "within (keeps (within_root R t0 K)) (copy_snapshot_file source d mode)"
  unfolding copy_snapshot_file_def fill_snapshot_file_def
  by (intro within keeps_on_error keeps_reading keeps_inside[OF d k])

lemma keeps_copy_directory:
  "temp_dir R K d \<Longrightarrow> known K (butlast (clean_elements d)) \<Longrightarrow>
     within (keeps (within_root R t0 K)) (copy_snapshot_directory depth source d relative expected)"
proof (induction depth arbitrary: source d relative)
  case (Suc depth)
  note inside = keeps_inside[OF Suc.prems]
  have child: "within (keeps (within_root R t0 K)) (copy_snapshot_directory depth s (join_path [d, c]) r expected)"
    "within (keeps (within_root R t0 K)) (copy_snapshot_file s (join_path [d, c]) mode)" if "plain_name c" for c s r mode
  proof -
    note j = temp_join[OF Suc.prems(1) that]
    have k: "known K (butlast (clean_elements (join_path [d, c])))" using temp_known(1)[OF Suc.prems(1)] j(2) by simp
    show "within (keeps (within_root R t0 K)) (copy_snapshot_directory depth s (join_path [d, c]) r expected)" by (rule Suc.IH[OF j(1) k])
    show "within (keeps (within_root R t0 K)) (copy_snapshot_file s (join_path [d, c]) mode)" by (rule keeps_copy_file[OF j(1) k])
  qed
  show ?case
    unfolding copy_snapshot_directory.simps Let_def
    by (intro within keeps_names keeps_reading inside) (auto simp: list_all_iff intro: child)
qed (simp add: within)

lemma keeps_copy_snapshot:
  assumes d: "temp_dir R K d" and k: "known K (butlast (clean_elements d))"
  shows "within (keeps (within_root R t0 K)) (copy_filesystem_snapshot h source d expected)"
  unfolding copy_filesystem_snapshot_def
  by (intro within keeps_reading keeps_copy_file[OF d k] keeps_copy_directory[OF d k])

lemma keeps_load: "within (keeps (within_root R t0 K)) (load_registry_snapshot h p)"
  by (intro keeps_only_reads within)

lemma keeps_read_registry: "within (keeps (within_root R t0 K)) (read_registry_snapshot reader v)"
  unfolding read_registry_snapshot_def by (intro keeps_only_reads) (auto intro!: within split: option.split prod.split)

lemma keeps_persist_registry:
  assumes d: "temp_dir R K d" and k: "known K (butlast (clean_elements d))"
  shows "within (keeps (within_root R t0 K)) (persist_registry_snapshot h d snapshot)"
proof -
  have "inside R d" using d by (simp add: temp_dir_def inside_def)
  then have "triple (st R t0 K) (atomic_write_file d data m) (\<lambda>_. st R t0 K) (st R t0 K)" for data m
    by (rule triple_atomic_write_file[OF _ k])
  then have "within (keeps (within_root R t0 K)) (tx_lift (io_map_error TxRead (atomic_write_file d data m)))" for data m
    unfolding keeps_triple within_root_def by (intro triple_tx_lift triple_map_error)
  then show ?thesis unfolding persist_registry_snapshot_def by (intro within keeps_load)
qed

section \<open>What a state that is kept tells\<close>

lemma triple_kept_yields:
  assumes m: "only_reads m" and q: "\<And>t. wf_tree t \<Longrightarrow> yields t m (Q t)"
  shows "triple (within_root R t0 K) m (\<lambda>x s. Q (w_tree (tx_world s)) x \<and> within_root R t0 K s) (within_root R t0 K)"
proof (rule tripleI)
  fix s e s' assume "within_root R t0 K s" "m s = (Inl e, s')"
  then show "within_root R t0 K s'" using tripleD(1)[OF triple_only_reads[OF m]] by blast
next
  fix s x s' assume s: "within_root R t0 K s" "m s = (Inr x, s')"
  have f: "frozen (w_tree (tx_world s)) (tx_world s)" "wf_tree (w_tree (tx_world s))"
    using s(1) by (simp_all add: within_root_def st_def frozen_def)
  have "w_tree (tx_world s') = w_tree (tx_world s)" using only_reads_frozen[OF m s(2) f(1)] by (simp add: frozen_def)
  moreover have "Q (w_tree (tx_world s)) x" using q[OF f(2)] f(1) s(2) unfolding yields_def by blast
  ultimately show "Q (w_tree (tx_world s')) x \<and> within_root R t0 K s'"
    using tripleD(2)[OF triple_only_reads[OF m] s] by simp
qed

lemma triple_scan_apart:
  assumes p: "is_abs p" "apart R (clean_elements p)"
  shows "triple (within_root R t0 K) (scan_filesystem_state h p)
     (\<lambda>x s. x = tree_state (rh_sha h) t0 (clean_elements p) \<and> within_root R t0 K s) (within_root R t0 K)"
proof (rule triple_conseq[OF triple_kept_yields[OF only_reads_scan]])
  have ne: "clean_elements p \<noteq> []" using p(2) by (auto simp: apart_def)
  show "yields t (scan_filesystem_state h p) (\<lambda>x. x = tree_state (rh_sha h) t (clean_elements p))" if "wf_tree t" for t
    by (rule yields_mono[OF yields_scan[OF that p(1) ne]]) simp
  fix x s assume "x = tree_state (rh_sha h) (w_tree (tx_world s)) (clean_elements p) \<and> within_root R t0 K s"
  moreover from this have "same_outside R t0 (w_tree (tx_world s))" by (simp add: within_root_def st_def)
  then have "tree_state (rh_sha h) (w_tree (tx_world s)) (clean_elements p) = tree_state (rh_sha h) t0 (clean_elements p)"
    by (intro tree_state_cong apart_outside[OF p(2)])
  ultimately show "x = tree_state (rh_sha h) t0 (clean_elements p) \<and> within_root R t0 K s" by simp
qed simp_all

lemma triple_reject_known:
  assumes p: "is_abs p"
  shows "triple (within_root R t0 K) (reject_existing_target_links p) (\<lambda>_. within_root R t0 (insert (clean_elements p) K))
     (within_root R t0 K)"
  by (rule triple_conseq[OF triple_kept_yields[OF only_reads_reject yields_reject[OF _ p]]])
    (auto simp: within_root_def st_def)

lemma triple_gives:
  assumes "within (keeps I) m" "gives m Q"
  shows "triple I m (\<lambda>x s. Q x \<and> I s) I"
proof (rule tripleI)
  fix s e s' assume "I s" "m s = (Inl e, s')"
  then show "I s'" using tripleD(1)[OF assms(1)[unfolded keeps_triple]] by blast
next
  fix s x s' assume "I s" "m s = (Inr x, s')"
  then show "Q x \<and> I s'" using tripleD(2)[OF assms(1)[unfolded keeps_triple]] givesD[OF assms(2)] by blast
qed

section \<open>One action\<close>

text \<open>The prior state of a filesystem action is recorded as the state its target has in the tree.\<close>

definition recorded_action :: "(string \<Rightarrow> string) \<Rightarrow> tree \<Rightarrow> action \<Rightarrow> prepared_action \<Rightarrow> bool" where
  "recorded_action sha t a p \<longleftrightarrow> pa_action p = a \<and>
     (ac_kind a \<noteq> ActionRegistrySet \<longrightarrow>
        pa_prior p = state_record (tree_state sha t (clean_elements (ac_target a))) (rc_backup (pa_prior p)))"

lemma keeps_desired: "within (keeps (within_root R t0 K)) (desired_action_state h a prior)"
  unfolding desired_action_state_def
  by (cases "ac_kind a") (auto intro!: within keeps_reading split: prod.split)

lemma triple_prepare_filesystem:
  assumes target: "is_abs (ac_target a)" "apart R (clean_elements (ac_target a))"
    and d: "temp_dir R K d"
  shows "triple (within_root R t0 K) (prepare_filesystem_action h a d final)
     (\<lambda>p s. recorded_action (rh_sha h) t0 a (pi_record p) \<and> within_root R t0 K s) (within_root R t0 K)"
  unfolding prepare_filesystem_action_def
proof (rule triple_bind)
  have "plain_name ''prior''" by (simp add: plain_name_def plain_element_def)
  note prior = temp_join[OF d this]
  have kp: "known K (butlast (clean_elements (join_path [d, ''prior''])))" using temp_known(1)[OF d] prior(2) by simp
  show "triple (within_root R t0 K) (find_missing_parents (ac_target a)) (\<lambda>_. within_root R t0 K) (within_root R t0 K)"
    by (rule triple_only_reads) (intro within)
  fix missing
  let ?rest = "\<lambda>prior. if (ac_kind a = ActionWriteFile \<or> ac_kind a = ActionDeleteFile) \<and> fs_kind prior = StateDirectory
       then io_fail TxUnsafeType
       else io_then (backup_filesystem_state h (ac_target a) (join_path [d, ''prior'']) prior)
         (io_bind (scan_filesystem_state h (ac_target a)) (\<lambda>current.
           if \<not> states_equal prior current then io_fail TxStateDiffers
           else io_bind (desired_action_state h a prior) (\<lambda>(desired, sourceDigest).
             io_return
               \<lparr>pi_record = prepared_action_of a
                  (state_record prior (if fs_kind prior = StateAbsent then [] else join_path [final, ''prior'']))
                  (state_record desired []) sourceDigest missing,
                pi_missingParents = missing,
                pi_prior = PriorFilesystem prior
                  (if fs_kind prior = StateAbsent then [] else join_path [d, ''prior''])\<rparr>)))"
  show "triple (within_root R t0 K) (io_bind (scan_filesystem_state h (ac_target a)) ?rest)
      (\<lambda>p s. recorded_action (rh_sha h) t0 a (pi_record p) \<and> within_root R t0 K s) (within_root R t0 K)"
  proof (rule triple_bind[OF triple_scan_apart[OF target]], rule triple_pure)
    fix prior assume x: "prior = tree_state (rh_sha h) t0 (clean_elements (ac_target a))"
    have "within (keeps (within_root R t0 K)) (?rest prior)"
      unfolding backup_filesystem_state_def
      by (intro within keeps_reading keeps_copy_snapshot[OF prior(1) kp] keeps_desired)
    moreover have "gives (?rest prior) (\<lambda>p. recorded_action (rh_sha h) t0 a (pi_record p))"
      by (auto intro!: gives_then gives_skip gives_return gives_if gives_fail split: prod.split
          simp: recorded_action_def prepared_action_of_def x state_record_def)
    ultimately show "triple (within_root R t0 K) (?rest prior)
        (\<lambda>p s. recorded_action (rh_sha h) t0 a (pi_record p) \<and> within_root R t0 K s) (within_root R t0 K)"
      by (rule triple_gives)
  qed
qed

lemma plain_digits: "list_all is_digit c \<Longrightarrow> c \<noteq> [] \<Longrightarrow> plain_name c"
  unfolding plain_name_def plain_element_def by (auto simp: list_all_iff byte_in_def)

lemma plain_index: "plain_name (format_action_index i)"
proof (rule plain_digits)
  have "is_digit CHR ''0''" by (simp add: byte_in_def)
  then show "list_all is_digit (format_action_index i)"
    using decimal_digits[of i] by (auto simp: format_action_index_def Let_def list_all_iff)
qed (simp add: format_action_index_def Let_def)

lemma triple_prepare_registry:
  assumes a: "ac_kind a = ActionRegistrySet" and d: "temp_dir R K d"
  shows "triple (within_root R t0 K) (prepare_registry_action h reader a d final)
     (\<lambda>p s. recorded_action (rh_sha h) t0 a (pi_record p) \<and> within_root R t0 K s) (within_root R t0 K)"
proof (rule triple_gives)
  have "plain_name ''prior.registry''" by (simp add: plain_name_def plain_element_def)
  note prior = temp_join[OF d this]
  have kp: "known K (butlast (clean_elements (join_path [d, ''prior.registry''])))" using temp_known(1)[OF d] prior(2) by simp
  show "within (keeps (within_root R t0 K)) (prepare_registry_action h reader a d final)"
    unfolding prepare_registry_action_def Let_def by (intro within keeps_read_registry keeps_persist_registry[OF prior(1) kp])
  show "gives (prepare_registry_action h reader a d final) (\<lambda>p. recorded_action (rh_sha h) t0 a (pi_record p))"
    unfolding prepare_registry_action_def Let_def
    by (auto intro!: gives_then gives_skip gives_return split: option.split simp: recorded_action_def prepared_action_of_def a)
qed

lemma triple_prepare_action:
  assumes a: "ac_kind a \<noteq> ActionRegistrySet \<Longrightarrow> is_abs (ac_target a) \<and> apart R (clean_elements (ac_target a))"
    and d: "temp_dir R K d"
  shows "triple (within_root R t0 K) (prepare_snapshot_action h reader a i d final)
     (\<lambda>p s. recorded_action (rh_sha h) t0 a (pi_record p) \<and> within_root R t0 K s) (within_root R t0 K)"
  unfolding prepare_snapshot_action_def Let_def
  using triple_prepare_filesystem[OF _ _ d] triple_prepare_registry[OF _ d] a by auto

lemma triple_prepare_actions:
  assumes as: "\<And>a. a \<in> set as \<Longrightarrow> ac_kind a \<noteq> ActionRegistrySet \<Longrightarrow> is_abs (ac_target a) \<and> apart R (clean_elements (ac_target a))"
    and d: "temp_dir R K d"
  shows "triple (within_root R t0 K) (prepare_actions h reader d final i as)
     (\<lambda>ps s. list_all2 (recorded_action (rh_sha h) t0) as (map pi_record ps) \<and> within_root R t0 K s) (within_root R t0 K)"
  using as
proof (induction as arbitrary: i)
  case Nil
  then show ?case by (auto intro: triple_return)
next
  case (Cons a as)
  let ?I = "within_root R t0 K"
  note asked = keeps_reading(1)[of R t0 K, unfolded keeps_triple]
  note j = temp_join[OF d plain_index, of i]
  have kj: "known K (butlast (clean_elements (join_path [d, format_action_index i])))" using temp_known(1)[OF d] j(2) by simp
  note made = keeps_inside(1)[OF j(1) kj, of t0 448, unfolded keeps_triple]
  have others: "triple (\<lambda>s. recorded_action (rh_sha h) t0 a (pi_record p) \<and> ?I s)
      (io_then check_context (io_bind (prepare_actions h reader d final (Suc i) as) (\<lambda>ps. io_return (p # ps))))
      (\<lambda>ps s. list_all2 (recorded_action (rh_sha h) t0) (a # as) (map pi_record ps) \<and> ?I s) ?I" for p
    by (rule triple_pure, rule triple_then[OF asked], rule triple_bind[OF Cons.IH])
      (use Cons.prems in \<open>auto intro!: triple_return\<close>)
  show ?case unfolding prepare_actions.simps Let_def
    by (rule triple_then[OF asked], rule triple_then[OF made],
        rule triple_bind[OF triple_prepare_action[OF _ j(1)] others]) (use Cons.prems in auto)
qed

lemma assign_parents_records:
  "list_all2 (recorded_action sha t) as (map pi_record ps) \<Longrightarrow>
     list_all2 (recorded_action sha t) as (map pi_record (assign_parents claimed ps))"
proof (induction claimed ps arbitrary: as rule: assign_parents.induct)
  case (2 claimed p ps)
  then show ?case by (auto simp: list_all2_Cons2 recorded_action_def split: prod.split)
qed simp

section \<open>Preparation\<close>

lemma keeps_verify_prepared: "within (keeps (within_root R t0 K)) (verify_prepared_action h reader p)"
proof -
  have "within (keeps (within_root R t0 K)) (verify_missing_parents ps)" for ps by (intro keeps_only_reads within)
  then show ?thesis unfolding verify_prepared_action_def Let_def
    by (auto split: prior_snapshot.split intro!: within keeps_reading keeps_load keeps_read_registry)
qed

lemma keeps_require_absent: "within (keeps (within_root R t0 K)) (require_absent p)"
  unfolding require_absent_def by (intro within keeps_reading)

lemma triple_fill:
  assumes as: "\<And>a. a \<in> set (ms_actions ms) \<Longrightarrow> ac_kind a \<noteq> ActionRegistrySet \<Longrightarrow> is_abs (ac_target a) \<and> apart R (clean_elements (ac_target a))"
    and d: "temp_dir R K d" "known K (butlast (clean_elements d))"
    and q: "is_abs q" "strict_prefix R (clean_elements q)" "known K (butlast (clean_elements q))"
  shows "triple (within_root R t0 K) (fill_snapshots h reader ms root q d)
     (\<lambda>p s. list_all2 (recorded_action (rh_sha h) t0) (ms_actions ms) (ps_actions p) \<and> within_root R t0 {} s) (within_root R t0 K)"
proof -
  let ?I = "within_root R t0 K"
  let ?set = "\<lambda>owned. \<lparr>ps_snapshotRoot = q, ps_actions = map pi_record owned, ps_validations = ms_validations ms\<rparr>"
  let ?Q = "\<lambda>p s. list_all2 (recorded_action (rh_sha h) t0) (ms_actions ms) (ps_actions p) \<and> within_root R t0 {} s"
  have check: "triple ?I check_context (\<lambda>_. ?I) ?I" "triple ?I (io_each (verify_prepared_action h reader) ps) (\<lambda>_. ?I) ?I"
    "triple ?I (reject_existing_target_links p) (\<lambda>_. ?I) ?I" "triple ?I (require_absent q) (\<lambda>_. ?I) ?I"
    "triple ?I (tx_os (chmod d 448)) (\<lambda>_. ?I) ?I" for ps p
    unfolding keeps_triple[symmetric] by (intro within keeps_reading keeps_verify_prepared keeps_require_absent keeps_inside(4)[OF d])+
  have t: "is_abs d" "strict_prefix R (clean_elements d)" using d(1) by (simp_all add: temp_dir_def)
  have move: "triple ?I (tx_os (rename d q)) (\<lambda>_. within_root R t0 {}) ?I"
    unfolding within_root_def by (rule triple_tx_os[OF triple_rename[OF t d(2) q]]) simp_all
  have rest: "triple ?I (io_then check_context (io_then (io_each (verify_prepared_action h reader) owned)
       (io_then check_context (io_then (reject_existing_target_links root) (io_then (require_absent q)
       (io_then (tx_os (rename d q)) (io_return (?set owned)))))))) ?Q ?I"
    if "list_all2 (recorded_action (rh_sha h) t0) (ms_actions ms) (map pi_record owned)" for owned
    by (intro triple_then[OF check(1)] triple_then[OF check(2)] triple_then[OF check(3)] triple_then[OF check(4)] triple_then[OF move]
        triple_return) (use that in simp_all)
  show ?thesis
    unfolding fill_snapshots_def Let_def
    by (rule triple_then[OF check(5)], rule triple_then[OF check(3)], rule triple_bind[OF triple_prepare_actions[OF as d(1)]],
        assumption, assumption, rule triple_pure, rule rest, rule assign_parents_records)
qed

lemma triple_discard:
  assumes m: "triple I m Q I" and c: "triple I (tx_try (remove_all d)) (\<lambda>_. E) E" and e: "\<And>s. I s \<Longrightarrow> E s"
  shows "triple I (discard_on_error d m) Q E"
  unfolding discard_on_error_def
proof (rule triple_bind)
  show "triple I (io_try m) (\<lambda>r s. case r of Inl _ \<Rightarrow> I s | Inr x \<Rightarrow> Q x s) E"
    by (rule tripleI) (use tripleD[OF m] in \<open>auto simp: io_try_def split: prod.splits sum.splits\<close>)
  fix r
  show "triple (\<lambda>s. case r of Inl _ \<Rightarrow> I s | Inr x \<Rightarrow> Q x s)
      (case r of Inr x \<Rightarrow> io_return x
       | Inl e \<Rightarrow> io_bind (tx_try (remove_all d)) (\<lambda>cleaned. case cleaned of Inl e' \<Rightarrow> io_fail (TxJoined [e, TxOs e']) | Inr _ \<Rightarrow> io_fail e))
      Q E"
    by (cases r) (auto intro!: triple_return triple_bind[OF c] triple_fail split: sum.split)
qed

definition separated :: "snapshot_request \<Rightarrow> bool" where
  "separated rq \<longleftrightarrow> is_abs (sq_transactionRoot rq) \<and>
     (case sq_set rq of None \<Rightarrow> False | Some ms \<Rightarrow> list_all (separate_action (sq_transactionRoot rq)) (ms_actions ms))"

lemma separated_target:
  assumes "separated rq" "sq_set rq = Some ms" "a \<in> set (ms_actions ms)" "ac_kind a \<noteq> ActionRegistrySet"
  shows "is_abs (ac_target a) \<and> apart (clean_elements (sq_transactionRoot rq)) (clean_elements (ac_target a))"
  using assms separate_path_apart[of "sq_transactionRoot rq" "ac_target a"]
  by (auto simp: separated_def separate_action_def list_all_iff)

lemma only_reads_request [within]: "only_reads (validate_snapshot_request rq)"
  unfolding validate_snapshot_request_def Let_def lstat_def by (intro within readonly)

lemma yields_request:
  assumes wf: "wf_tree t"
  shows "yields t (validate_snapshot_request rq) (\<lambda>(ms, root). sq_set rq = Some ms \<and> root = sq_transactionRoot rq \<and> separated rq \<and>
     linkfree t (clean_elements root))"
  unfolding validate_snapshot_request_def Let_def
proof (rule yields_skip[OF only_reads_context])
  let ?root = "sq_transactionRoot rq"
  let ?Q = "\<lambda>(ms, root). sq_set rq = Some ms \<and> root = sq_transactionRoot rq \<and> separated rq \<and> linkfree t (clean_elements root)"
  have stat: "only_reads (tx_try (lstat p))" for p by (intro within readonly)
  have "yields t (io_then (reject_existing_target_links ?root) (io_bind (tx_try (lstat ?root)) (\<lambda>r.
              case r of
                Inl _ \<Rightarrow> io_fail TxInput
              | Inr info \<Rightarrow>
                  if \<not> is_dir info \<or> is_link info \<or> \<not> list_all (separate_action ?root) (ms_actions ms)
                  then io_fail TxInput else io_return (ms, ?root)))) ?Q"
    if "is_abs ?root" "sq_set rq = Some ms" for ms
    by (rule yields_then[OF only_reads_reject yields_reject[OF wf that(1)]])
      (use that in \<open>auto intro!: yields_bind[OF stat yields_True] split: sum.split simp: separated_def\<close>)
  then show "yields t (case sq_set rq of None \<Rightarrow> io_fail TxInput
      | Some ms \<Rightarrow>
          if ?root = [] \<or> \<not> is_abs ?root \<or> clean_path ?root \<noteq> ?root then io_fail TxInput
          else io_then (reject_existing_target_links ?root) (io_bind (tx_try (lstat ?root)) (\<lambda>r.
              case r of
                Inl _ \<Rightarrow> io_fail TxInput
              | Inr info \<Rightarrow>
                  if \<not> is_dir info \<or> is_link info \<or> \<not> list_all (separate_action ?root) (ms_actions ms)
                  then io_fail TxInput else io_return (ms, ?root)))) ?Q"
    by (auto split: option.split)
qed

lemma triple_prepare:
  fixes h :: restore_host and rq :: snapshot_request
  assumes wf: "wf_tree t"
  defines "R \<equiv> clean_elements (sq_transactionRoot rq)"
  shows "triple (\<lambda>s. frozen t (tx_world s)) (prepare_snapshots h rq)
     (\<lambda>p s. separated rq \<and> list_all2 (recorded_action (rh_sha h) t) (ms_actions (the (sq_set rq))) (ps_actions p) \<and> within_root R t {} s)
     (\<lambda>s. (frozen t (tx_world s) \<or> separated rq) \<and> within_root R t {} s)"
  unfolding prepare_snapshots_def
proof (rule triple_bind)
  let ?F = "\<lambda>s. frozen t (tx_world s)" and ?W = "within_root R t {R}" and ?I = "within_root R t {}"
  let ?E = "\<lambda>s. (?F s \<or> separated rq) \<and> ?I s"
  let ?Q = "\<lambda>p s. separated rq \<and> list_all2 (recorded_action (rh_sha h) t) (ms_actions (the (sq_set rq))) (ps_actions p) \<and> ?I s"
  have weak: "?F s \<Longrightarrow> ?I s" for s by (simp add: within_root_def st_def frozen_def wf)
  have start: "linkfree t R \<Longrightarrow> ?F s \<Longrightarrow> ?W s" for s by (simp add: within_root_def st_def frozen_def wf)
  have stop: "within_root R t K s \<Longrightarrow> ?I s" for K s by (auto simp: within_root_def intro: st_mono)
  show "triple ?F (validate_snapshot_request rq) (\<lambda>r s. (case r of (ms, root) \<Rightarrow> sq_set rq = Some ms \<and> root = sq_transactionRoot rq \<and>
      separated rq \<and> linkfree t (clean_elements root)) \<and> ?F s) ?E"
    by (rule triple_conseq[OF yields_triple[OF only_reads_request yields_request[OF wf]]]) (auto intro: weak)
  fix r
  show "triple (\<lambda>s. (case r of (ms, root) \<Rightarrow> sq_set rq = Some ms \<and> root = sq_transactionRoot rq \<and>
      separated rq \<and> linkfree t (clean_elements root)) \<and> ?F s)
      (case r of (ms, root) \<Rightarrow> let finalRoot = join_path [root, ''snapshots''] in
       io_then (require_absent finalRoot)
         (if ms_actions ms = [] then
            io_return \<lparr>ps_snapshotRoot = [], ps_actions = [], ps_validations = ms_validations ms\<rparr>
          else io_bind (tx_os (mkdir_temp root ''.snapshots-preparing-'')) (\<lambda>temporaryRoot.
            discard_on_error temporaryRoot
              (fill_snapshots h (sq_registryReader rq) ms root finalRoot temporaryRoot)))) ?Q ?E"
  proof (cases r, simp only: prod.case Let_def, rule triple_pure)
    fix ms root assume r: "sq_set rq = Some ms \<and> root = sq_transactionRoot rq \<and> separated rq \<and> linkfree t (clean_elements root)"
    then have abs: "is_abs root" and R: "clean_elements root = R" and sep: "separated rq" and ms: "sq_set rq = Some ms"
      by (auto simp: separated_def R_def)
    let ?q = "join_path [root, ''snapshots'']"
    have "plain_element ''snapshots''" "''snapshots'' \<noteq> ''..''" by (simp_all add: plain_element_def)
    note j = join_component[OF abs this]
    have q: "is_abs ?q" "strict_prefix R (clean_elements ?q)" "butlast (clean_elements ?q) = R"
      using j R by (auto simp: strict_prefix_def)
    let ?fill = "\<lambda>d. fill_snapshots h (sq_registryReader rq) ms root ?q d"
    have fill: "triple (\<lambda>s. temp_in R t {R} R d (tx_world s)) (discard_on_error d (?fill d)) ?Q ?E" for d
    proof -
      let ?K = "{R} \<union> subtree (clean_elements d)"
      have "triple (within_root R t ?K) (discard_on_error d (?fill d)) ?Q ?E"
        if d: "is_abs d" "butlast (clean_elements d) = R" "strict_prefix R (clean_elements d)"
      proof (rule triple_discard)
        have k: "temp_dir R ?K d" "known ?K (butlast (clean_elements d))" "known ?K (butlast (clean_elements ?q))"
          using d q(3) by (auto simp: temp_dir_def intro: knownI)
        show "triple (within_root R t ?K) (?fill d) ?Q (within_root R t ?K)"
          by (rule triple_conseq[OF triple_fill[OF _ k(1,2) q(1,2) k(3)]]) (use separated_target[OF sep ms] sep ms R_def in auto)
        show "triple (within_root R t ?K) (tx_try (remove_all d)) (\<lambda>_. ?E) ?E"
          using keeps_os(2)[OF triple_remove_all[OF d(1,3) k(2)], of t] unfolding keeps_triple
          by (rule triple_conseq) (use sep stop in blast)+
        show "?E s" if "within_root R t ?K s" for s using that sep stop by blast
      qed
      then have "triple (\<lambda>s. (is_abs d \<and> butlast (clean_elements d) = R \<and> strict_prefix R (clean_elements d)) \<and> within_root R t ?K s)
          (discard_on_error d (?fill d)) ?Q ?E"
        by (intro triple_pure) blast
      then show ?thesis by (simp add: temp_in_def within_root_def)
    qed
    have "triple ?W (io_then (require_absent ?q) (if ms_actions ms = [] then
            io_return \<lparr>ps_snapshotRoot = [], ps_actions = [], ps_validations = ms_validations ms\<rparr>
          else io_bind (tx_os (mkdir_temp root ''.snapshots-preparing-'')) (\<lambda>d. discard_on_error d (?fill d)))) ?Q ?E"
    proof (rule triple_then)
      show "triple ?W (require_absent ?q) (\<lambda>_. ?W) ?E"
        using keeps_require_absent[of R t "{R}" ?q] unfolding keeps_triple by (rule triple_conseq) (use sep stop in blast)+
      have temp: "triple ?W (tx_os (mkdir_temp root ''.snapshots-preparing-'')) (\<lambda>d s. temp_in R t {R} R d (tx_world s)) ?W"
        unfolding within_root_def
        using triple_tx_os[OF triple_mkdir_temp[OF abs, of R "{R}" "''.snapshots-preparing-''" t]] R by (simp add: knownI)
      have "triple ?W (io_bind (tx_os (mkdir_temp root ''.snapshots-preparing-'')) (\<lambda>d. discard_on_error d (?fill d))) ?Q ?E"
        by (rule triple_bind[OF triple_conseq[OF temp] fill]) (use sep stop in blast)+
      then show "triple ?W (if ms_actions ms = [] then
            io_return \<lparr>ps_snapshotRoot = [], ps_actions = [], ps_validations = ms_validations ms\<rparr>
          else io_bind (tx_os (mkdir_temp root ''.snapshots-preparing-'')) (\<lambda>d. discard_on_error d (?fill d))) ?Q ?E"
        using sep ms stop by (auto intro!: triple_return)
    qed
    then show "triple ?F (io_then (require_absent ?q) (if ms_actions ms = [] then
            io_return \<lparr>ps_snapshotRoot = [], ps_actions = [], ps_validations = ms_validations ms\<rparr>
          else io_bind (tx_os (mkdir_temp root ''.snapshots-preparing-'')) (\<lambda>d. discard_on_error d (?fill d)))) ?Q ?E"
      by (rule triple_conseq) (use start r R in auto)
  qed
qed

end
