(* ===== verification/RestoreLiveSetProperties.thy ===== *)
theory RestoreLiveSetProperties
  imports RestorePrepareProperties
begin

text \<open>
  Restoring a set as a whole, in a calm world: unless the set is reported restored, or failed after
  its transaction began, every filesystem target is as it was before the call.
\<close>

section \<open>The intent is published below the transaction root\<close>

lemma yields_journal_root:
  assumes wf: "wf_tree t"
  shows "yields t (validate_journal_root root) (\<lambda>r. r = root \<and> is_abs root \<and> linkfree t (clean_elements root))"
proof (cases "is_abs root")
  case True
  have stat: "only_reads (tx_try (lstat root))" by (intro within readonly)
  have "yields t (io_then (reject_existing_target_links root)
        (io_bind (tx_try (lstat root)) (\<lambda>r.
          case r of Inl _ \<Rightarrow> io_fail TxInput
          | Inr info \<Rightarrow> if \<not> is_dir info \<or> is_link info then io_fail TxInput else io_return root)))
      (\<lambda>r. r = root \<and> is_abs root \<and> linkfree t (clean_elements root))"
    by (rule yields_then[OF only_reads_reject yields_reject[OF wf True]])
      (use True in \<open>auto intro!: yields_bind[OF stat yields_True] split: sum.split\<close>)
  then show ?thesis unfolding validate_journal_root_def
    by (cases "root = [] \<or> \<not> is_abs root \<or> clean_path root \<noteq> root") (simp_all only: if_True if_False yields_fail)
qed (simp add: validate_journal_root_def)

lemma only_reads_validate_request [within]: "only_reads (validate_intent_request h prepared root lineage)"
  unfolding validate_intent_request_def Let_def by (intro within)

lemma yields_intent_request:
  assumes wf: "wf_tree t"
  shows "yields t (validate_intent_request h prepared root lineage)
     (\<lambda>(r, _). r = root \<and> is_abs root \<and> linkfree t (clean_elements root))"
  unfolding validate_intent_request_def Let_def
  by (rule yields_skip[OF only_reads_context], rule yields_bind[OF only_reads_root yields_journal_root[OF wf]]) auto

lemma only_reads_intent_file [within]: "only_reads (read_intent_file h root p)"
  unfolding read_intent_file_def by (intro within)

lemma only_reads_uncancelled [within]: "only_reads m \<Longrightarrow> only_reads (without_cancel m)"
  unfolding within_def without_cancel_def calm_step_def by (auto split: prod.split) (metis snd_conv tx.select_convs(1) tx.surjective tx.update_convs(2))

lemma only_reads_reconcile_intent [within]: "only_reads (reconcile_intent h root p bytes digest)"
proof -
  have c: "only_reads (check_intent h root p bytes digest)" unfolding check_intent_def by (intro within readonly)
  have "only_reads (io_bind (check_intent h root p bytes digest) (\<lambda>_.
        io_then (tx_os (sync_durable_file p)) (io_then (tx_os (sync_directory (dir_name p))) (check_intent h root p bytes digest))))"
    by (intro within c readonly)
  then show ?thesis unfolding reconcile_intent_def by (rule only_reads_uncancelled)
qed

lemma only_reads_sync_prepared [within]: "only_reads (sync_prepared_snapshots h root prepared actions)"
  unfolding sync_prepared_snapshots_def sync_snapshots_def journal_checkpoint_def by (intro within readonly)

lemma keeps_publish_intent:
  assumes tmp: "is_abs temporary" "strict_prefix R (clean_elements temporary)" "known K (clean_elements temporary)"
    and p: "is_abs (intent_path root)" "strict_prefix R (clean_elements (intent_path root))" "known K (butlast (clean_elements (intent_path root)))"
  shows "within (keeps (within_root R t0 K)) (publish_intent h root disk encoded temporary)"
proof -
  have "within (keeps (within_root R t0 K)) (reconcile_intent h root (intent_path root) encoded d)"
    "within (keeps (within_root R t0 K)) (tx_os (sync_directory q))" "within (keeps (within_root R t0 K)) (read_intent_file h root (intent_path root))" for d q
    by (intro keeps_only_reads within readonly)+
  then show ?thesis
    unfolding publish_intent_def journal_checkpoint_def tx_attempt_def
    by (intro within keeps_publish_no_replace[OF tmp p])
qed

lemma intent_place:
  assumes "is_abs root"
  shows "is_abs (intent_path root)" "butlast (clean_elements (intent_path root)) = clean_elements (journal_directory root)"
    "strict_prefix (clean_elements root) (clean_elements (intent_path root))"
proof -
  have ne: "root \<noteq> []" using assms by (auto simp: is_abs_def)
  have p: "clean_elements (intent_path root) = clean_elements root @ [''journal'', ''intent.json'']" "is_abs (intent_path root)"
    using join_below[OF assms, of "''journal/intent.json''"] join_two[OF ne, of "''journal''" "''intent.json''"]
    by (simp_all add: intent_path_def path_elements_def)
  then show "is_abs (intent_path root)" "butlast (clean_elements (intent_path root)) = clean_elements (journal_directory root)"
    "strict_prefix (clean_elements root) (clean_elements (intent_path root))"
    using journal_paths(1)[OF assms] by (simp_all add: butlast_append strict_prefix_def)
qed

lemma store_intent_keeps:
  assumes root: "is_abs root" and K: "known K (clean_elements (journal_directory root))"
  shows "within (keeps (within_root (clean_elements root) t0 K)) (store_intent h root disk encoded)"
proof -
  let ?R = "clean_elements root" and ?d = "journal_directory root"
  note dir = journal_paths(1,2)[OF root]
  note p = intent_place[OF root]
  have body: "within (keeps (within_root ?R t0 K)) (io_bind (tx_os (create_temp_suffix ?d ''.intent-'' ''.tmp'')) (\<lambda>temporary.
      io_finally (publish_intent h root disk encoded temporary) (tx_os (remove temporary))))"
    unfolding keeps_triple
    by (rule temporary_keeps_root[OF dir(2) _ K]) (auto simp: dir(1) p intro!: keeps_publish_intent)
  have reads: "within (keeps (within_root ?R t0 K)) (read_intent_file h root (intent_path root))"
    "within (keeps (within_root ?R t0 K)) (tx_os (read_file (intent_path root)))"
    "within (keeps (within_root ?R t0 K)) (reconcile_intent h root (intent_path root) encoded (ii_intentDigest disk))"
    by (intro keeps_only_reads within readonly)+
  show ?thesis unfolding store_intent_def tx_attempt_def by (intro within reads body)
qed

lemma triple_journal_directory:
  assumes root: "is_abs root"
  shows "triple (within_root (clean_elements root) t0 {clean_elements root}) (ensure_journal_directory (journal_directory root))
     (\<lambda>_. within_root (clean_elements root) t0 {clean_elements (journal_directory root)})
     (within_root (clean_elements root) t0 {})"
  unfolding ensure_journal_directory_def
proof (rule triple_bind)
  let ?R = "clean_elements root" and ?d = "journal_directory root"
  let ?W = "within_root ?R t0 {?R}" and ?D = "within_root ?R t0 {clean_elements ?d}" and ?I = "within_root ?R t0 {}"
  note dir = journal_paths(1,2)[OF root]
  have stop: "within_root ?R t0 K s \<Longrightarrow> ?I s" for K s by (auto simp: within_root_def intro: st_mono)
  have b: "strict_prefix ?R (clean_elements ?d)" "known {?R} (butlast (clean_elements ?d))" by (simp_all add: dir(1) strict_prefix_def knownI)
  have "triple (st ?R t0 {?R}) (mkdir ?d m) (\<lambda>_. st ?R t0 {?R}) (st ?R t0 {?R})" for m
    by (rule triple_conseq[OF triple_mkdir[OF dir(2) b]]) (auto intro: st_mono)
  from keeps_os(2)[OF this]
  show "triple ?W (tx_try (mkdir ?d 448)) (\<lambda>_. ?W) ?I" unfolding keeps_triple by (rule triple_conseq) (use stop in blast)+
  fix made :: "errno + unit"
  have "within (keeps ?D) (io_bind (tx_try (lstat ?d)) (\<lambda>r.
           case r of
             Inl _ \<Rightarrow> io_fail TxUnsafeType
           | Inr info \<Rightarrow> if \<not> is_dir info \<or> is_link info then io_fail TxUnsafeType else io_return (made = Inr ())))"
    by (intro within keeps_reading)
  then have look: "triple ?D (io_bind (tx_try (lstat ?d)) (\<lambda>r.
           case r of
             Inl _ \<Rightarrow> io_fail TxUnsafeType
           | Inr info \<Rightarrow> if \<not> is_dir info \<or> is_link info then io_fail TxUnsafeType else io_return (made = Inr ()))) (\<lambda>_. ?D) ?I"
    unfolding keeps_triple by (rule triple_conseq) (use stop in blast)+
  have rest: "triple ?W (io_then (reject_existing_target_links ?d) (io_bind (tx_try (lstat ?d)) (\<lambda>r.
           case r of
             Inl _ \<Rightarrow> io_fail TxUnsafeType
           | Inr info \<Rightarrow> if \<not> is_dir info \<or> is_link info then io_fail TxUnsafeType else io_return (made = Inr ())))) (\<lambda>_. ?D) ?I"
    by (rule triple_then[OF triple_conseq[OF triple_reject_known[OF dir(2)]] look])
      (auto simp: within_root_def intro: st_mono)
  then show "triple ?W (if made \<noteq> Inr () \<and> made \<noteq> Inl EEXIST then io_fail (TxOs (projl made))
       else io_then (reject_existing_target_links ?d) (io_bind (tx_try (lstat ?d)) (\<lambda>r.
           case r of
             Inl _ \<Rightarrow> io_fail TxUnsafeType
           | Inr info \<Rightarrow> if \<not> is_dir info \<or> is_link info then io_fail TxUnsafeType else io_return (made = Inr ())))) (\<lambda>_. ?D) ?I"
    using stop by (auto intro: triple_fail)
qed

lemma triple_persist_intent:
  fixes h :: restore_host and rq :: intent_request
  defines "R \<equiv> clean_elements (jq_transactionRoot rq)"
  assumes prepared: "jq_prepared rq = Some prepared"
  shows "triple (within_root R t0 {}) (persist_intent h rq) (\<lambda>_. within_root R t0 {}) (within_root R t0 {})"
  unfolding persist_intent_def prepared option.case
proof (rule triple_bind)
  let ?root = "jq_transactionRoot rq"
  let ?I = "within_root R t0 {}" and ?W = "within_root R t0 {R}"
  have stop: "within_root R t0 K s \<Longrightarrow> ?I s" for K s by (auto simp: within_root_def intro: st_mono)
  show "triple ?I (validate_intent_request h prepared ?root (jq_lineage rq))
      (\<lambda>x s. (case x of (r, _) \<Rightarrow> r = ?root \<and> is_abs ?root) \<and> ?W s) ?I"
    by (rule triple_conseq[OF triple_kept_yields[OF only_reads_validate_request yields_intent_request]])
      (auto simp: within_root_def st_def R_def)
  fix x :: "string \<times> journal_lineage \<times> journal_action list \<times> journal_validation list"
  obtain r lineage actions validations where x: "x = (r, lineage, actions, validations)" by (cases x) auto
  obtain disk encoded where d: "new_intent_disk h lineage actions validations = (disk, encoded)" by fastforce
  have "triple ?W (io_then (sync_prepared_snapshots h ?root prepared actions)
      (io_bind (ensure_journal_directory (journal_directory ?root)) (\<lambda>created.
         io_then (if created then tx_os (sync_directory ?root) else io_return ()) (store_intent h ?root disk encoded)))) (\<lambda>_. ?I) ?I"
    if root: "is_abs ?root"
  proof (rule triple_then)
    have "only_reads (sync_prepared_snapshots h ?root prepared actions)" by (intro within)
    from triple_only_reads[OF this, of R t0 "{R}"]
    show "triple ?W (sync_prepared_snapshots h ?root prepared actions) (\<lambda>_. ?W) ?I" by (rule triple_conseq) (use stop in blast)+
    let ?D = "within_root R t0 {clean_elements (journal_directory ?root)}"
    have "within (keeps ?D) (io_then (if created then tx_os (sync_directory ?root) else io_return ()) (store_intent h ?root disk encoded))" for created
    proof -
      have "within (keeps ?D) (tx_os (sync_directory ?root))" by (intro keeps_only_reads within readonly)
      then show ?thesis using store_intent_keeps[OF root knownI[OF singletonI], of t0 h disk encoded] unfolding R_def
        by (intro within)
    qed
    then have store: "triple ?D (io_then (if created then tx_os (sync_directory ?root) else io_return ()) (store_intent h ?root disk encoded)) (\<lambda>_. ?I) ?I" for created
      unfolding keeps_triple by (rule triple_conseq) (use stop in blast)+
    show "triple ?W (io_bind (ensure_journal_directory (journal_directory ?root)) (\<lambda>created.
         io_then (if created then tx_os (sync_directory ?root) else io_return ()) (store_intent h ?root disk encoded))) (\<lambda>_. ?I) ?I"
      by (rule triple_bind[OF triple_journal_directory[OF root, folded R_def] store])
  qed
  then show "triple (\<lambda>s. (case x of (r, _) \<Rightarrow> r = ?root \<and> is_abs ?root) \<and> ?W s)
      (case x of (root, lineage, actions, validations) \<Rightarrow> io_then (sync_prepared_snapshots h root prepared actions)
         (case new_intent_disk h lineage actions validations of
            (disk, encoded) \<Rightarrow> io_bind (ensure_journal_directory (journal_directory root)) (\<lambda>created.
              io_then (if created then tx_os (sync_directory root) else io_return ()) (store_intent h root disk encoded)))) (\<lambda>_. ?I) ?I"
    unfolding x prod.case by (intro triple_pure) (auto simp: d)
qed

section \<open>Targets before and after\<close>

definition target_kept :: "(string \<Rightarrow> string) \<Rightarrow> tree \<Rightarrow> tree \<Rightarrow> action \<Rightarrow> bool" where
  "target_kept sha t t' a \<longleftrightarrow> ac_kind a = ActionRegistrySet \<or>
     states_equal (tree_state sha t' (clean_elements (ac_target a))) (tree_state sha t (clean_elements (ac_target a)))"

lemma states_equal_refl [simp]: "states_equal x x"
  by (simp add: states_equal_def)

lemma kept_outside:
  assumes sep: "separated rq" and ms: "sq_set rq = Some ms"
    and w: "within_root (clean_elements (sq_transactionRoot rq)) t K s"
  shows "list_all (target_kept sha t (w_tree (tx_world s))) (ms_actions ms)"
proof -
  have out: "same_outside (clean_elements (sq_transactionRoot rq)) t (w_tree (tx_world s))"
    using w by (simp add: within_root_def st_def)
  have "target_kept sha t (w_tree (tx_world s)) a" if "a \<in> set (ms_actions ms)" for a
  proof (cases "ac_kind a = ActionRegistrySet")
    case False
    then have "apart (clean_elements (sq_transactionRoot rq)) (clean_elements (ac_target a))"
      using separated_target[OF sep ms that] by blast
    then have "tree_state sha (w_tree (tx_world s)) (clean_elements (ac_target a)) = tree_state sha t (clean_elements (ac_target a))"
      by (intro tree_state_cong apart_outside[OF _ out])
    then show ?thesis by (simp add: target_kept_def)
  qed (simp add: target_kept_def)
  then show ?thesis by (simp add: list_all_iff)
qed

lemma state_of_record:
  assumes "journal_filesystem_state sha (journal_action_state (state_record x b)) = Inr y"
  shows "states_equal y x"
  using assms
  by (cases "fs_kind x")
    (auto simp: journal_filesystem_state_def filesystem_state_from_record_def journal_action_state_def state_record_def
      states_equal_def absent_state_def with_digest_def try_res_Inr split: if_splits option.splits)

lemma kept_recorded:
  assumes r: "list_all2 (recorded_action sha t) as ps"
    and all: "all_recorded sha t' (map (\<lambda>(i, p). journal_action_of i p) (zip [0..<length ps] ps))"
  shows "list_all (target_kept sha t t') as"
proof -
  have "target_kept sha t t' (as ! i)" if i: "i < length as" for i
  proof (cases "ac_kind (as ! i) = ActionRegistrySet")
    case False
    let ?p = "ps ! i"
    have len: "length ps = length as" and p: "recorded_action sha t (as ! i) ?p"
      using r i by (auto simp: list_all2_conv_all_nth)
    have "journal_action_of i ?p \<in> set (map (\<lambda>(i, p). journal_action_of i p) (zip [0..<length ps] ps))"
      using i len by (auto simp: in_set_zip intro!: image_eqI[of _ _ "(i, ?p)"] exI[of _ i])
    moreover have "ja_kind (journal_action_of i ?p) \<noteq> ActionRegistrySet"
      using p False by (simp add: recorded_action_def journal_action_of_def Let_def)
    ultimately have "as_recorded sha t' (journal_action_of i ?p)" using all by (auto simp: all_recorded_def list_all_iff)
    then obtain y where y: "journal_filesystem_state sha (journal_action_state (pa_prior ?p)) = Inr y"
      "states_equal (tree_state sha t' (clean_elements (ac_target (as ! i)))) y"
      using p by (auto simp: as_recorded_def journal_action_of_def recorded_action_def Let_def split: sum.splits)
    obtain b where "pa_prior ?p = state_record (tree_state sha t (clean_elements (ac_target (as ! i)))) b"
      using p False by (auto simp: recorded_action_def)
    then have "states_equal y (tree_state sha t (clean_elements (ac_target (as ! i))))" using state_of_record y(1) by simp
    then show ?thesis using y(2) by (simp add: target_kept_def states_equal_def)
  qed (simp add: target_kept_def)
  then show ?thesis by (simp add: list_all_length)
qed

section \<open>The outcome of a set\<close>

text \<open>Outcomes that promise that no target is changed.\<close>

definition claims_unchanged :: "set_outcome \<Rightarrow> bool" where
  "claims_unchanged o' \<longleftrightarrow> so_status o' = StatusSkipped \<or> so_status o' = StatusRolledBack \<or>
     so_reason o' = Some ReasonBackupFailed \<or> so_reason o' = Some ReasonJournalIntentFailed"

lemma transaction_outcome_unchanged:
  "claims_unchanged (transaction_outcome prepared res) \<longleftrightarrow> xr_status res = TransactionRolledBack"
  by (auto simp: claims_unchanged_def transaction_outcome_def public_status_def public_reason_def split: tx_status.splits tx_reason.splits)

text \<open>
  Property C1. When a set ends as skipped or rolled back, or fails because its snapshots or its
  intent could not be written, every filesystem target of the materialised set has the state it had
  before the call: kind, permissions, content and entries. This holds in a calm world, from every
  tree and whichever calls fail, and composes preparation, journal, commit and rollback.
\<close>

theorem set_without_success_keeps_targets:
  assumes "calm (tx_world s)" and "wf_tree (w_tree (tx_world s))" and "hex_digests h"
    and "lr_materialized rq = Some ms" and "execute_live_set h rq s = (Inr out, s')" and "claims_unchanged out"
  shows "list_all (target_kept (rh_sha h) (w_tree (tx_world s)) (w_tree (tx_world s'))) (ms_actions ms)"
proof -
  let ?t = "w_tree (tx_world s)"
  let ?R = "clean_elements (lr_transactionRoot rq)"
  let ?sq = "\<lparr>sq_set = lr_materialized rq, sq_transactionRoot = lr_transactionRoot rq, sq_registryReader = rh_registry h\<rparr>"
  have f: "frozen ?t (tx_world s)" using assms(1) by (simp add: frozen_def)
  obtain r1 s1 where p: "prepare_snapshots h ?sq s = (r1, s1)" by (cases "prepare_snapshots h ?sq s")
  note prep = tripleD[OF triple_prepare[OF assms(2), where rq = ?sq and h = h], OF f]
  show ?thesis
  proof (cases r1)
    case (Inl e)
    then have "s' = s1" using assms(5) p by (simp add: execute_live_set_def tx_attempt_def io_bind_def io_try_def io_return_def)
    moreover have "(frozen ?t (tx_world s1) \<or> separated ?sq) \<and> within_root ?R ?t {} s1"
      using prep(1) p Inl by simp
    ultimately show ?thesis
      using kept_outside[of ?sq ms ?t "{}" s1] assms(4) by (auto simp: frozen_def target_kept_def list_all_iff)
  next
    case (Inr prepared)
    then have sep: "separated ?sq" and rec: "list_all2 (recorded_action (rh_sha h) ?t) (ms_actions ms) (ps_actions prepared)"
      and w1: "within_root ?R ?t {} s1" using prep(2) p assms(4) by auto
    note kept = kept_outside[OF sep, of ms ?t]
    let ?jq = "\<lparr>jq_transactionRoot = lr_transactionRoot rq, jq_lineage = lr_lineage rq, jq_prepared = Some prepared\<rparr>"
    obtain r2 s2 where j: "persist_intent h ?jq s1 = (r2, s2)" by (cases "persist_intent h ?jq s1")
    have persist: "triple (within_root ?R ?t {}) (persist_intent h ?jq) (\<lambda>_. within_root ?R ?t {}) (within_root ?R ?t {})"
      using triple_persist_intent[where rq = ?jq and prepared = prepared and h = h] by (simp only: intent_request.select_convs)
    have w2: "within_root ?R ?t {} s2"
    proof (cases r2)
      case (Inl e)
      then show ?thesis using tripleD(1)[OF persist w1, of e s2] j by (simp only: simp_thms)
    next
      case (Inr x)
      then show ?thesis using tripleD(2)[OF persist w1, of x s2] j by (simp only: simp_thms)
    qed
    show ?thesis
    proof (cases "already_current prepared")
      case True
      then have "s' = s1" using assms(5) p Inr by (simp add: execute_live_set_def tx_attempt_def io_bind_def io_try_def io_return_def)
      then show ?thesis using kept[of "{}" s1] w1 assms(4) by simp
    next
      case current: False
      show ?thesis
      proof (cases r2)
        case (Inl e)
        then have "s' = s2"
          using assms(5) p Inr j current by (simp add: execute_live_set_def tx_attempt_def io_bind_def io_try_def io_return_def)
        then show ?thesis using kept[of "{}" s2] w2 assms(4) by simp
      next
        case (Inr intent)
        let ?rq = "\<lparr>rq_prepared = Some prepared, rq_intent = Some intent\<rparr>"
        obtain r3 s3 where x: "execute_transaction h ?rq s2 = (r3, s3)" by (cases "execute_transaction h ?rq s2")
        obtain res where res: "r3 = Inr res" "out = transaction_outcome prepared res" "s' = s3"
          using assms(5) p \<open>r1 = Inr prepared\<close> j current Inr x
          by (cases r3) (simp_all add: execute_live_set_def tx_attempt_def io_bind_def io_try_def io_return_def)
        have "lawful s2" using w2 by (simp add: holds_def sane_def within_root_def st_def)
        from tripleD(2)[OF promised_execute[OF assms(3)] this, of ?rq res s3]
        have "all_recorded (rh_sha h) (w_tree (tx_world s3)) (actions_of_request ?rq)"
          using x res(1,2) assms(6) by (simp add: transaction_outcome_unchanged holds_def promised_def)
        then show ?thesis using kept_recorded[OF rec] res(3) by (simp add: actions_of_request_def)
      qed
    qed
  qed
qed

end
