(* ===== verification/RestoreLiveSetSample.thy ===== *)
theory RestoreLiveSetSample
  imports RestoreSample RestoreLiveSetProperties
begin

text \<open>
  A whole restore evaluated in the kernel: the set of \<open>RestoreSample\<close> is prepared, journalled and
  committed, its validation fails, and it is rolled back.
\<close>

definition live_instance :: config_instance where
  "live_instance = \<lparr>ci_id = ''i'', ci_moduleID = ''m'', ci_detectorID = ''d'', ci_root = ''/h'',
     ci_version = \<lparr>ve_raw = [], ve_normalized = [], ve_numeric = False\<rparr>,
     ci_evidence = \<lparr>ie_type = [], ie_appID = [], ie_backend = [], ie_platform = [], ie_ref = [], ie_driver = [], ie_path = []\<rparr>,
     ci_locator = []\<rparr>"

definition live_set :: materialized_set where
  "live_set = \<lparr>ms_actions = [sample_action], ms_validations = ps_validations sample_prepared, ms_instance = live_instance\<rparr>"

definition live_request :: live_set_request where
  "live_request = \<lparr>lr_materialized = Some live_set, lr_transactionRoot = ''/t'', lr_lineage = sample_lineage\<rparr>"

definition live_tree :: tree where
  "live_tree = fmap_of_list [([''h''], Dir 493), ([''t''], Dir 448)]"

definition live_start :: tx where
  "live_start = \<lparr>tx_world = \<lparr>w_tree = live_tree, w_fresh = 2, w_random = [''4'', ''5'', ''6'', ''7'', ''8'', ''9''], w_events = []\<rparr>,
     tx_canceled = [], tx_registry = \<lparr>rg_values = fmempty, rg_calls = 0\<rparr>, tx_touched = [], tx_began = False, tx_observed = []\<rparr>"

definition set_ends_as :: "terminal_status \<Rightarrow> (tx_error + set_outcome) \<times> tx \<Rightarrow> bool" where
  "set_ends_as status r = (case fst r of Inl _ \<Rightarrow> False | Inr out \<Rightarrow> so_status out = status)"

lemma live_rolled_back: "set_ends_as StatusRolledBack (execute_live_set (sample_host None) live_request live_start)"
  by code_simp

lemma live_facts: "wf_tree live_tree" "calm (tx_world live_start)"
proof -
  show "wf_tree live_tree" unfolding live_tree_def by (rule wf_tree_of_list) code_simp
  show "calm (tx_world live_start)" by (simp add: live_start_def calm_def byte_in_def)
qed

theorem set_without_success_keeps_targets_witness:
  "target_kept sample_sha live_tree (w_tree (tx_world (snd (execute_live_set (sample_host None) live_request live_start))))
     sample_action"
proof -
  obtain out s' where run: "execute_live_set (sample_host None) live_request live_start = (Inr out, s')"
    "so_status out = StatusRolledBack"
    using live_rolled_back
    by (cases "execute_live_set (sample_host None) live_request live_start") (auto simp: set_ends_as_def split: sum.splits)
  have "list_all (target_kept (rh_sha (sample_host None)) (w_tree (tx_world live_start)) (w_tree (tx_world s')))
      (ms_actions live_set)"
    by (rule set_without_success_keeps_targets[OF live_facts(2) _ sample_facts(2) _ run(1)])
      (simp_all add: live_start_def live_facts(1) live_request_def claims_unchanged_def run(2))
  moreover have "rh_sha (sample_host None) = sample_sha" "ms_actions live_set = [sample_action]"
    "w_tree (tx_world live_start) = live_tree"
    by (simp_all add: sample_host_def live_set_def live_start_def)
  ultimately show ?thesis by (simp add: run(1))
qed

end
