(* ===== verification/RestorePlanning.thy ===== *)
theory RestorePlanning
  imports Projection PayloadManifest
begin

text \<open>
  Planning a restore (\<open>internal/commands\<close>: config_restore_planning.go, config_restore_coordinator.go):
  detection of the targets, the plan of the selected sources with the filtered ones, and the
  coordinator that lets only a final, enabled pass be executed.
\<close>

section \<open>Inputs and evidence\<close>

record restore_source =
  cs_source :: source_capture
  cs_payloadRoot :: string
  cs_payloadManifest :: "payload_entry list option"
  cs_selected :: bool

text \<open>The runtime of a command: its sources, the mappings of the user and the pinned catalog.\<close>

record restore_runtime =
  rt_sources :: "restore_source list"
  rt_mappings :: "string \<Rightarrow> string option"
  rt_resolver :: "compatibility_resolver option"
  rt_modules :: "string \<Rightarrow> module_def option"

record detection_failure =
  df_moduleID :: string
  df_driver :: string
  df_ref :: string
  df_detail :: string

text \<open>\<open>de_glob\<close> is \<open>None\<close> for a nil function: the discovery then uses the one of the host.\<close>

record detection_evidence =
  de_packages :: "string \<Rightarrow> package_evidence list"
  de_failedModules :: "string list"
  de_failures :: "detection_failure list"
  de_glob :: "(string \<Rightarrow> string list option) option"

record planning_host =
  ph_discovery :: discovery_host
  ph_sha :: "string \<Rightarrow> string"
  ph_lower :: "string \<Rightarrow> string"
  ph_regexp :: regexp
  ph_engine :: pattern_engine

definition discovery_of :: "planning_host \<Rightarrow> detection_evidence \<Rightarrow> discovery_host" where
  "discovery_of ph ev =
     (case de_glob ev of None \<Rightarrow> ph_discovery ph | Some g \<Rightarrow> (ph_discovery ph)\<lparr>dh_glob := g\<rparr>)"

section \<open>The plan\<close>

definition recompute_summary :: "config_plan \<Rightarrow> config_plan" where
  "recompute_summary plan = plan\<lparr>cp_summary := summarize_config_resolutions (map ps_resolution (cp_sets plan))\<rparr>"

definition empty_plan :: config_plan where
  "empty_plan = \<lparr>cp_sets = [], cp_summary = empty_summary\<rparr>"

definition selected_sources :: "restore_source list \<Rightarrow> source_capture list" where
  "selected_sources sources = map cs_source (filter cs_selected sources)"

definition selected_module_ids :: "source_capture list \<Rightarrow> string list" where
  "selected_module_ids sources = sort_by (<) (remdups (map sc_moduleID sources))"

definition skipped_resolution :: "resolution_reason \<Rightarrow> config_resolution" where
  "skipped_resolution reason =
     \<lparr>cr_captureID = [], cr_moduleID = [], cr_configSetID = [], cr_sourceInstance = None, cr_sourceInstanceID = [],
      cr_targetInstanceID = [], cr_targetCandidates = [], cr_sourceGeneration = [], cr_sourceFingerprint = [],
      cr_targetGeneration = [], cr_resolution = ResolutionUnknown, cr_reason = Some reason, cr_migrationPath = [],
      cr_captureRevision = [], cr_restoreRevision = [], cr_resolvedTargets = [], cr_status = StatusSkipped,
      cr_label = [], cr_message = [], cr_remediation = None\<rparr>"

definition project_set :: "plan_set \<Rightarrow> plan_set" where
  "project_set p = p\<lparr>ps_resolution := project_config_resolution p\<rparr>"

text \<open>The targets of the selected modules, with the modules whose detection failed.\<close>

fun discover_module_targets ::
    "planning_host \<Rightarrow> compatibility_resolver option \<Rightarrow> detection_evidence \<Rightarrow> string list \<Rightarrow> string list \<Rightarrow>
     (string \<times> target_instance list) list \<times> string list" where
  "discover_module_targets ph r ev failed [] = ([], failed)"
| "discover_module_targets ph r ev failed (m # ms) =
     (if m \<in> set failed then
        (case discover_module_targets ph r ev failed ms of (ts, fs) \<Rightarrow> ((m, []) # ts, fs))
      else case discover_targets (ph_sha ph) (ph_lower ph) (discovery_of ph ev) (ph_engine ph) r m (de_packages ev m) of
        Inl _ \<Rightarrow> (case discover_module_targets ph r ev (m # failed) ms of (ts, fs) \<Rightarrow> ((m, []) # ts, fs))
      | Inr targets \<Rightarrow> (case discover_module_targets ph r ev failed ms of (ts, fs) \<Rightarrow> ((m, targets) # ts, fs)))"

definition failed_modules :: "detection_evidence \<Rightarrow> string list" where
  "failed_modules ev = de_failedModules ev @ filter (\<lambda>m. m \<noteq> []) (map df_moduleID (de_failures ev))"

definition fail_detection :: "string list \<Rightarrow> plan_set \<Rightarrow> plan_set" where
  "fail_detection failed p =
     (if sc_moduleID (ps_source p) \<in> set failed
      then project_set \<lparr>ps_source = ps_source p, ps_targets = [],
        ps_resolution = skipped_resolution ReasonTargetDetectionFailed, ps_targetDef = None, ps_edges = []\<rparr>
      else p)"

definition apply_detection_failures :: "string list \<Rightarrow> config_plan \<Rightarrow> config_plan" where
  "apply_detection_failures failed plan =
     (if failed = [] then plan else recompute_summary (plan\<lparr>cp_sets := map (fail_detection failed) (cp_sets plan)\<rparr>))"

definition filtered_plan_set :: "source_capture \<Rightarrow> plan_set" where
  "filtered_plan_set s =
     project_set \<lparr>ps_source = s, ps_targets = [], ps_resolution = skipped_resolution ReasonRestoreFiltered,
       ps_targetDef = None, ps_edges = []\<rparr>"

definition restore_source_less :: "restore_source \<Rightarrow> restore_source \<Rightarrow> bool" where
  "restore_source_less l r = source_capture_less (cs_source l) (cs_source r)"

text \<open>The planned set of a capture; of several with one identifier the last is kept in the map.\<close>

definition planned_for :: "config_plan \<Rightarrow> string \<Rightarrow> plan_set option" where
  "planned_for plan = map_of (rev (map (\<lambda>p. (sc_captureID (ps_source p), p)) (cp_sets plan)))"

definition merged_set :: "config_plan \<Rightarrow> restore_source \<Rightarrow> plan_set list" where
  "merged_set plan v =
     (if cs_selected v
      then (case planned_for plan (sc_captureID (cs_source v)) of None \<Rightarrow> [] | Some p \<Rightarrow> [p])
      else [filtered_plan_set (cs_source v)])"

definition merge_filtered :: "config_plan \<Rightarrow> restore_source list \<Rightarrow> config_plan" where
  "merge_filtered plan sources =
     recompute_summary (plan\<lparr>cp_sets := concat (map (merged_set plan) (sort_by restore_source_less sources))\<rparr>)"

definition build_fresh_plan :: "planning_host \<Rightarrow> restore_runtime \<Rightarrow> detection_evidence \<Rightarrow> config_plan" where
  "build_fresh_plan ph rt ev =
     (case rt_resolver rt of
        None \<Rightarrow> empty_plan
      | Some r \<Rightarrow>
          let sources = selected_sources (rt_sources rt) in
          case discover_module_targets ph (Some r) ev (failed_modules ev) (selected_module_ids sources) of
            (targets, failed) \<Rightarrow>
              merge_filtered
                (apply_detection_failures failed
                  (resolve_sources (discovery_of ph ev) (ph_lower ph) (ph_regexp ph) r sources
                    (\<lambda>m. case map_of targets m of None \<Rightarrow> [] | Some ts \<Rightarrow> ts) (rt_mappings rt)))
                (rt_sources rt))"

section \<open>The coordinator\<close>

datatype detection_pass = DetectionPreview | DetectionFinal

datatype coordinator_error = EvidenceSourceNil | EvidenceFailed

text \<open>
  The source of evidence queries the host at every call: each call of the coordinator carries the
  answers of its pass, as a function of the modules it is asked about. \<open>None\<close> is a nil source.
\<close>

type_synonym evidence_source = "(detection_pass \<Rightarrow> (string \<times> module_def) list \<Rightarrow> unit + detection_evidence) option"

record coordinator =
  co_latest :: config_plan
  co_finalized :: bool
  co_allowed :: bool
  co_failures :: "detection_failure list"

definition new_coordinator :: coordinator where
  "new_coordinator = \<lparr>co_latest = empty_plan, co_finalized = False, co_allowed = False, co_failures = []\<rparr>"

definition modules_for :: "restore_runtime \<Rightarrow> string list \<Rightarrow> (string \<times> module_def) list" where
  "modules_for rt ids = List.map_filter (\<lambda>i. map_option (\<lambda>d. (i, d)) (rt_modules rt i)) ids"

definition fresh_evidence ::
    "restore_runtime \<Rightarrow> evidence_source \<Rightarrow> detection_pass \<Rightarrow> coordinator_error + detection_evidence" where
  "fresh_evidence rt src pass =
     (let ids = selected_module_ids (selected_sources (rt_sources rt)) in
      if ids = [] then Inr \<lparr>de_packages = \<lambda>_. [], de_failedModules = [], de_failures = [], de_glob = None\<rparr>
      else case src of
        None \<Rightarrow> Inl EvidenceSourceNil
      | Some f \<Rightarrow> (case f pass (modules_for rt ids) of Inl _ \<Rightarrow> Inl EvidenceFailed | Inr ev \<Rightarrow> Inr ev))"

definition failure_key :: "detection_failure \<Rightarrow> string" where
  "failure_key f = df_moduleID f @ [NUL] @ df_driver f @ [NUL] @ df_ref f @ [NUL] @ df_detail f"

definition normalized_failure :: "(string \<Rightarrow> string) \<Rightarrow> detection_failure \<Rightarrow> detection_failure" where
  "normalized_failure ul f =
     (let driver = to_lower ul (trim_space (df_driver f)); ref = trim_space (df_ref f) in
      \<lparr>df_moduleID = trim_space (df_moduleID f), df_driver = driver,
       df_ref = (if driver = ''chocolatey'' then to_lower ul ref else ref), df_detail = trim_space (df_detail f)\<rparr>)"

fun first_failures :: "string list \<Rightarrow> detection_failure list \<Rightarrow> detection_failure list" where
  "first_failures seen [] = []"
| "first_failures seen (f # fs) =
     (if df_moduleID f = [] \<or> failure_key f \<in> set seen then first_failures seen fs
      else f # first_failures (failure_key f # seen) fs)"

definition failure_less :: "detection_failure \<Rightarrow> detection_failure \<Rightarrow> bool" where
  "failure_less l r = (failure_key l < failure_key r)"

definition normalized_failures :: "(string \<Rightarrow> string) \<Rightarrow> detection_failure list \<Rightarrow> detection_failure list" where
  "normalized_failures ul fs = sort_by failure_less (first_failures [] (map (normalized_failure ul) fs))"

definition not_enabled :: "plan_set \<Rightarrow> plan_set" where
  "not_enabled p =
     (if cr_reason (ps_resolution p) = Some ReasonRestoreFiltered then p
      else project_set (p\<lparr>ps_resolution := (ps_resolution p)\<lparr>cr_reason := Some ReasonRestoreNotEnabled, cr_status := StatusSkipped\<rparr>\<rparr>))"

definition overlay_not_enabled :: "config_plan \<Rightarrow> config_plan" where
  "overlay_not_enabled plan = recompute_summary (plan\<lparr>cp_sets := map not_enabled (cp_sets plan)\<rparr>)"

definition preview_plan ::
    "planning_host \<Rightarrow> restore_runtime \<Rightarrow> evidence_source \<Rightarrow> coordinator \<Rightarrow> (coordinator_error + config_plan) \<times> coordinator" where
  "preview_plan ph rt src c0 =
     (let c = c0\<lparr>co_allowed := False, co_failures := []\<rparr> in
      case fresh_evidence rt src DetectionPreview of
        Inl e \<Rightarrow> (Inl e, c)
      | Inr ev \<Rightarrow>
          let plan = build_fresh_plan ph rt ev in (Inr plan, c\<lparr>co_latest := plan, co_finalized := False\<rparr>))"

definition final_plan ::
    "planning_host \<Rightarrow> restore_runtime \<Rightarrow> evidence_source \<Rightarrow> bool \<Rightarrow> coordinator \<Rightarrow>
     (coordinator_error + config_plan) \<times> coordinator" where
  "final_plan ph rt src restoreEnabled c0 =
     (let c = c0\<lparr>co_allowed := False, co_failures := []\<rparr> in
      case fresh_evidence rt src DetectionFinal of
        Inl e \<Rightarrow> (Inl e, c)
      | Inr ev \<Rightarrow>
          let plan = build_fresh_plan ph rt ev;
              c' = c\<lparr>co_failures := normalized_failures (ph_lower ph) (de_failures ev), co_latest := plan, co_finalized := True\<rparr> in
          if \<not> restoreEnabled then (Inr (overlay_not_enabled plan), c')
          else (Inr plan, c'\<lparr>co_allowed := True\<rparr>))"

definition execution_plan :: "coordinator \<Rightarrow> config_plan option" where
  "execution_plan c = (if \<not> co_allowed c then None else if \<not> co_finalized c then None else Some (co_latest c))"

end
