(* ===== verification/RestorePlanningProperties.thy ===== *)
theory RestorePlanningProperties
  imports RestorePlanning
begin

text \<open>
  The plan of a restore has one set for every source, and only the latest final, enabled pass
  with fresh evidence can be executed.
\<close>

section \<open>Sources are kept\<close>

lemma candidate_source: "ps_source (resolve_candidate rx r source t) = source"
  by (auto simp: resolve_candidate_def match_target_def resolve_generations_def finish_compatibility_def Let_def
      split: option.splits sum.splits prod.splits)

lemma mapped_source:
  assumes "list_all (\<lambda>c. ps_source c = source) cs"
  shows "ps_source (resolve_mapped source cs rs mapped) = source"
proof (cases "List.find (\<lambda>(c, t). ti_id t = mapped) (zip cs rs)")
  case None
  then show ?thesis by (simp add: resolve_mapped_def unresolved_source_plan_def Let_def)
next
  case (Some x)
  then have "fst x \<in> set cs" by (auto simp: find_Some_iff)
  then have "ps_source (fst x) = source" using assms by (simp add: list_all_iff)
  then show ?thesis using Some by (cases x) (simp add: resolve_mapped_def Let_def)
qed

lemma detected_source:
  assumes "list_all (\<lambda>c. ps_source c = source) cs"
  shows "ps_source (resolve_detected source cs rs) = source"
proof -
  have hd: "ps_source (hd xs) = source" if "xs \<noteq> []" "set xs \<subseteq> set cs" for xs
    using assms hd_in_set[OF that(1)] that(2) by (simp add: list_all_iff subset_iff)
  let ?v = "filter viable_set cs"
  let ?e = "filter (\<lambda>c. exact_version_match (sc_instance source) (hd (ps_targets c))) ?v"
  have "cs \<noteq> []" if "candidates_share_outcome cs" using that by (cases cs) (simp_all add: candidates_share_outcome_def)
  moreover have "ps_source (hd ?v) = source" if "length ?v = 1" by (rule hd) (use that in auto)
  moreover have "ps_source (hd ?e) = source" if "length ?e = 1" by (rule hd) (use that in auto)
  ultimately show ?thesis using hd[of cs]
    by (auto simp: resolve_detected_def Let_def clear_selected_target_def unresolved_source_plan_def)
qed

lemma resolved_source: "ps_source (resolve_source_targets rx r source targets mappings) = source"
  by (auto simp: resolve_source_targets_def Let_def unresolved_source_plan_def list_all_iff candidate_source
      intro!: detected_source mapped_source split: option.splits)

lemma collected_sources:
  "collect_claims h ul n ps = (sets, selected, claims) \<Longrightarrow> map ps_source sets = map ps_source ps"
proof (induction ps arbitrary: n sets selected claims)
  case (Cons p ps)
  have "ps_source (fst (resolve_plan_set_targets h ul p n)) = ps_source p" for p n
    by (simp add: resolve_plan_set_targets_def with_targets_def Let_def split: option.splits)
  then have "resolve_plan_set_targets h ul p n = (q, x) \<Longrightarrow> ps_source q = ps_source p" for p n q x by (metis fst_conv)
  then show ?case using Cons
    by (auto simp: mark_target_collision_def split: prod.splits if_splits option.splits)
qed simp

lemma marked_sources: "map ps_source (foldl mark_at sets is) = map ps_source sets"
proof (induction "is" arbitrary: sets)
  case (Cons i "is")
  have "map ps_source (mark_at sets i) = map ps_source sets"
    by (cases "i < length sets") (simp_all add: mark_at_def mark_target_collision_def map_update list_update_beyond
        list_update_same_conv)
  then show ?case using Cons.IH by simp
qed simp

lemma collision_sources: "map ps_source (resolve_plan_collisions h ul sets) = map ps_source sets"
  by (auto simp: resolve_plan_collisions_def marked_sources mark_target_instance_competition_def split: prod.splits
      dest: collected_sources)

lemma planned_sources:
  "map ps_source (cp_sets (resolve_sources h ul rx r sources targets mappings)) = sort_by source_capture_less sources"
  by (simp add: resolve_sources_def Let_def comp_def)
    (simp only: collision_sources list.map_comp comp_def resolved_source list.map_ident)

section \<open>The plan of a pass\<close>

lemma project_source_kept [simp]: "ps_source (project_set p) = ps_source p"
  by (simp add: project_set_def)

lemma projected_outcome [simp]:
  "cr_status (project_config_resolution p) = cr_status (ps_resolution p)"
  "cr_reason (project_config_resolution p) = cr_reason (ps_resolution p)"
  "cr_resolution (project_config_resolution p) = cr_resolution (ps_resolution p)"
  by (simp_all add: project_split present_fields projected_facts_fields)

lemma fail_detection_source [simp]: "ps_source (fail_detection failed p) = ps_source p"
  by (simp add: fail_detection_def)

text \<open>The planned sets of a pass before the filtered sources are merged in.\<close>

definition detected_plan :: "planning_host \<Rightarrow> restore_runtime \<Rightarrow> detection_evidence \<Rightarrow> compatibility_resolver \<Rightarrow> config_plan \<times> string list" where
  "detected_plan ph rt ev r =
     (let sources = selected_sources (rt_sources rt) in
      case discover_module_targets ph (Some r) ev (failed_modules ev) (selected_module_ids sources) of
        (targets, failed) \<Rightarrow>
          (apply_detection_failures failed
             (resolve_sources (discovery_of ph ev) (ph_lower ph) (ph_regexp ph) r sources
               (\<lambda>m. case map_of targets m of None \<Rightarrow> [] | Some ts \<Rightarrow> ts) (rt_mappings rt)), failed))"

lemma build_plan_split:
  "rt_resolver rt = Some r \<Longrightarrow>
     build_fresh_plan ph rt ev = merge_filtered (fst (detected_plan ph rt ev r)) (rt_sources rt)"
  by (simp add: build_fresh_plan_def detected_plan_def Let_def split: prod.splits)

text \<open>
  What the discovery of a pass says of a module: it fails when the evidence reports a failure or the targets
  cannot be discovered, and a module that fails has no target.
\<close>

definition module_targets :: "planning_host \<Rightarrow> compatibility_resolver \<Rightarrow> detection_evidence \<Rightarrow> string \<Rightarrow> target_instance list option" where
  "module_targets ph r ev m =
     (if m \<in> set (failed_modules ev) then None
      else case discover_targets (ph_sha ph) (ph_lower ph) (discovery_of ph ev) (ph_engine ph) (Some r) m (de_packages ev m) of
        Inl _ \<Rightarrow> None
      | Inr ts \<Rightarrow> Some ts)"

definition detected_targets :: "planning_host \<Rightarrow> compatibility_resolver \<Rightarrow> detection_evidence \<Rightarrow> string \<Rightarrow> target_instance list" where
  "detected_targets ph r ev m = (case module_targets ph r ev m of None \<Rightarrow> [] | Some ts \<Rightarrow> ts)"

lemma discovery_of_modules:
  assumes "discover_module_targets ph (Some r) ev failed ms = (ts, fs)" and "distinct ms"
    and "\<And>m. m \<in> set ms \<Longrightarrow> m \<in> set failed \<longleftrightarrow> m \<in> set (failed_modules ev)"
  shows "ts = map (\<lambda>m. (m, detected_targets ph r ev m)) ms \<and>
     set fs = set failed \<union> {m \<in> set ms. module_targets ph r ev m = None}"
  using assms
proof (induction ms arbitrary: failed ts fs)
  case (Cons m ms)
  let ?d = "discover_targets (ph_sha ph) (ph_lower ph) (discovery_of ph ev) (ph_engine ph) (Some r) m (de_packages ev m)"
  have agree: "x \<in> set (m # failed) \<longleftrightarrow> x \<in> set (failed_modules ev)" "x \<in> set failed \<longleftrightarrow> x \<in> set (failed_modules ev)"
    if "x \<in> set ms" for x using Cons.prems(2,3) that by auto
  have ms: "distinct ms" using Cons.prems(2) by simp
  obtain ts1 fs1 where r1: "discover_module_targets ph (Some r) ev failed ms = (ts1, fs1)" by (rule prod.exhaust)
  obtain ts2 fs2 where r2: "discover_module_targets ph (Some r) ev (m # failed) ms = (ts2, fs2)" by (rule prod.exhaust)
  note one = Cons.IH[OF r1 ms agree(2)] and two = Cons.IH[OF r2 ms agree(1)]
  show ?case
  proof (cases "m \<in> set failed")
    case True
    then have "module_targets ph r ev m = None" "ts = (m, []) # ts1" "fs = fs1"
      using Cons.prems(1,3) r1 by (auto simp: module_targets_def)
    then show ?thesis using one True by (auto simp: detected_targets_def)
  next
    case False
    then have m: "m \<notin> set (failed_modules ev)" using Cons.prems(3) by simp
    show ?thesis
    proof (cases ?d)
      case (Inl e)
      then have "module_targets ph r ev m = None" "ts = (m, []) # ts2" "fs = fs2"
        using Cons.prems(1) r2 False m by (auto simp: module_targets_def)
      then show ?thesis using two by (auto simp: detected_targets_def)
    next
      case (Inr xs)
      then have "module_targets ph r ev m = Some xs" "ts = (m, xs) # ts1" "fs = fs1"
        using Cons.prems(1) r1 False m by (auto simp: module_targets_def)
      then show ?thesis using one by (auto simp: detected_targets_def)
    qed
  qed
qed simp

lemma resolve_sources_cong:
  assumes "\<And>s. s \<in> set sources \<Longrightarrow> f (sc_moduleID s) = g (sc_moduleID s)"
  shows "resolve_sources h ul rx r sources f mappings = resolve_sources h ul rx r sources g mappings"
proof -
  have "map (\<lambda>s. resolve_source_targets rx r s (sorted_target_instances (f (sc_moduleID s))) mappings) (sort_by source_capture_less sources) =
      map (\<lambda>s. resolve_source_targets rx r s (sorted_target_instances (g (sc_moduleID s))) mappings) (sort_by source_capture_less sources)"
    by (rule map_cong[OF refl]) (simp add: assms)
  then show ?thesis by (simp only: resolve_sources_def)
qed

text \<open>The plan the resolver makes of the selected sources and the detected targets.\<close>

definition resolved_plan :: "planning_host \<Rightarrow> restore_runtime \<Rightarrow> detection_evidence \<Rightarrow> compatibility_resolver \<Rightarrow> config_plan" where
  "resolved_plan ph rt ev r =
     resolve_sources (discovery_of ph ev) (ph_lower ph) (ph_regexp ph) r (selected_sources (rt_sources rt))
       (detected_targets ph r ev) (rt_mappings rt)"

lemma detected_plan_sets:
  obtains fs where "cp_sets (fst (detected_plan ph rt ev r)) = map (fail_detection fs) (cp_sets (resolved_plan ph rt ev r))"
    "set fs = set (failed_modules ev) \<union>
       {m \<in> sc_moduleID ` set (selected_sources (rt_sources rt)). module_targets ph r ev m = None}"
proof -
  let ?S = "selected_sources (rt_sources rt)"
  obtain ts fs where d: "discover_module_targets ph (Some r) ev (failed_modules ev) (selected_module_ids ?S) = (ts, fs)"
    by (rule prod.exhaust)
  have ids: "distinct (selected_module_ids ?S)" "set (selected_module_ids ?S) = sc_moduleID ` set ?S"
    by (simp_all add: selected_module_ids_def)
  have ts: "ts = map (\<lambda>m. (m, detected_targets ph r ev m)) (selected_module_ids ?S)"
    "set fs = set (failed_modules ev) \<union> {m \<in> sc_moduleID ` set ?S. module_targets ph r ev m = None}"
    using discovery_of_modules[OF d ids(1)] ids(2) by simp_all
  have "map_of ts m = Some (detected_targets ph r ev m)" if "m \<in> sc_moduleID ` set ?S" for m
    using that unfolding ts(1) map_of_map_restrict ids(2)[symmetric] by simp
  then have "resolve_sources (discovery_of ph ev) (ph_lower ph) (ph_regexp ph) r ?S
      (\<lambda>m. case map_of ts m of None \<Rightarrow> [] | Some ts \<Rightarrow> ts) (rt_mappings rt) = resolved_plan ph rt ev r"
    unfolding resolved_plan_def by (intro resolve_sources_cong) simp
  moreover have "map (fail_detection []) xs = xs" for xs by (rule map_idI) (simp add: fail_detection_def)
  ultimately have "cp_sets (fst (detected_plan ph rt ev r)) = map (fail_detection fs) (cp_sets (resolved_plan ph rt ev r))"
    using d by (auto simp: detected_plan_def Let_def apply_detection_failures_def recompute_summary_def)
  then show ?thesis using ts(2) by (rule that)
qed

lemma detected_sources:
  "map ps_source (cp_sets (fst (detected_plan ph rt ev r))) = sort_by source_capture_less (selected_sources (rt_sources rt))"
  by (simp add: detected_plan_def apply_detection_failures_def recompute_summary_def planned_sources Let_def comp_def
      split: prod.splits)

lemma detected_set:
  assumes p: "p \<in> set (cp_sets (fst (detected_plan ph rt ev r)))" and s: "ps_source p \<in> set (selected_sources (rt_sources rt))"
  shows "case module_targets ph r ev (sc_moduleID (ps_source p)) of
      None \<Rightarrow> cr_status (ps_resolution p) = StatusSkipped \<and> cr_reason (ps_resolution p) = Some ReasonTargetDetectionFailed \<and>
        ps_targetDef p = None \<and> ps_targets p = []
    | Some _ \<Rightarrow> p \<in> set (cp_sets (resolved_plan ph rt ev r))"
proof (rule detected_plan_sets[of ph rt ev r])
  fix fs
  assume sets: "cp_sets (fst (detected_plan ph rt ev r)) = map (fail_detection fs) (cp_sets (resolved_plan ph rt ev r))"
    and fs: "set fs = set (failed_modules ev) \<union>
       {m \<in> sc_moduleID ` set (selected_sources (rt_sources rt)). module_targets ph r ev m = None}"
  obtain q where q: "p = fail_detection fs q" "q \<in> set (cp_sets (resolved_plan ph rt ev r))" using p sets by auto
  have "sc_moduleID (ps_source p) \<in> set fs \<longleftrightarrow> module_targets ph r ev (sc_moduleID (ps_source p)) = None"
    using fs s by (auto simp: module_targets_def)
  then have "sc_moduleID (ps_source q) \<in> set fs \<longleftrightarrow> module_targets ph r ev (sc_moduleID (ps_source p)) = None"
    using q(1) by simp
  then show ?thesis using q by (auto simp: fail_detection_def project_set_def skipped_resolution_def split: option.split)
qed

text \<open>With distinct captures the map of planned sets finds the set of every selected source.\<close>

lemma planned_for_source:
  assumes "map ps_source (cp_sets plan) = sources" and "distinct (map sc_captureID sources)" and "s \<in> set sources"
  shows "\<exists>p \<in> set (cp_sets plan). planned_for plan (sc_captureID s) = Some p \<and> ps_source p = s"
proof -
  obtain p where p: "p \<in> set (cp_sets plan)" "ps_source p = s" using assms(1,3) by auto
  let ?kv = "map (\<lambda>p. (sc_captureID (ps_source p), p)) (cp_sets plan)"
  have "map fst ?kv = map sc_captureID sources" unfolding assms(1)[symmetric] by simp
  then have "distinct (map fst (rev ?kv))" using assms(2) by (simp only: rev_map[symmetric] distinct_rev)
  moreover have "(sc_captureID s, p) \<in> set (rev ?kv)" using p by auto
  ultimately have "planned_for plan (sc_captureID s) = Some p" unfolding planned_for_def by (rule map_of_is_SomeI)
  then show ?thesis using p by blast
qed

definition accounted ::
    "planning_host \<Rightarrow> restore_runtime \<Rightarrow> compatibility_resolver \<Rightarrow> detection_evidence \<Rightarrow> restore_source \<Rightarrow> plan_set \<Rightarrow> bool" where
  "accounted ph rt r ev v p \<longleftrightarrow> ps_source p = cs_source v \<and>
     (if \<not> cs_selected v
      then cr_status (ps_resolution p) = StatusSkipped \<and> cr_reason (ps_resolution p) = Some ReasonRestoreFiltered \<and>
        ps_targetDef p = None \<and> ps_targets p = []
      else case module_targets ph r ev (sc_moduleID (cs_source v)) of
        None \<Rightarrow> cr_status (ps_resolution p) = StatusSkipped \<and> cr_reason (ps_resolution p) = Some ReasonTargetDetectionFailed \<and>
          ps_targetDef p = None \<and> ps_targets p = []
      | Some _ \<Rightarrow> p \<in> set (cp_sets (resolved_plan ph rt ev r)))"

lemma merged_set_accounted:
  assumes "distinct (map (sc_captureID \<circ> cs_source) (rt_sources rt))" and "v \<in> set (rt_sources rt)"
  shows "\<exists>p. merged_set (fst (detected_plan ph rt ev r)) v = [p] \<and> accounted ph rt r ev v p"
proof (cases "cs_selected v")
  case True
  have "distinct (map sc_captureID (selected_sources (rt_sources rt)))"
    using distinct_map_filter[OF assms(1)] by (simp add: selected_sources_def)
  then have "distinct (map sc_captureID (sort_by source_capture_less (selected_sources (rt_sources rt))))"
    by (simp add: distinct_map)
  moreover have sel: "cs_source v \<in> set (selected_sources (rt_sources rt))"
    using assms(2) True by (auto simp: selected_sources_def)
  then have "cs_source v \<in> set (sort_by source_capture_less (selected_sources (rt_sources rt)))" by simp
  ultimately obtain p where p: "p \<in> set (cp_sets (fst (detected_plan ph rt ev r)))" "ps_source p = cs_source v"
    "planned_for (fst (detected_plan ph rt ev r)) (sc_captureID (cs_source v)) = Some p"
    using planned_for_source[OF detected_sources] by blast
  then show ?thesis using True detected_set[OF p(1)] sel by (simp add: merged_set_def accounted_def)
next
  case False
  then show ?thesis
    by (simp add: merged_set_def accounted_def filtered_plan_set_def project_set_def skipped_resolution_def)
qed

lemma list_all2_concat_singletons:
  assumes "\<And>x. x \<in> set xs \<Longrightarrow> \<exists>y. f x = [y] \<and> Q x y"
  shows "list_all2 Q xs (concat (map f xs))"
  using assms
proof (induction xs)
  case (Cons x xs)
  obtain y where "f x = [y]" "Q x y" using Cons.prems[of x] by auto
  moreover have "list_all2 Q xs (concat (map f xs))" by (rule Cons.IH) (simp add: Cons.prems)
  ultimately show ?case by simp
qed simp

text \<open>
  Property C25. When the captures have distinct identifiers, the plan of a pass has exactly one set for every
  source of the backup, in the order of the captures. A source the user filtered out is skipped as filtered;
  a selected source of a module whose detection failed, by the evidence of the pass or by an error of the discovery
  of its targets, is skipped for that reason, both without a target; every other source has the set
  that the resolver makes of the selected sources and the targets that were detected. The
  summary is that of the sets.
\<close>

theorem plan_covers_every_source:
  assumes "rt_resolver rt = Some r" and "distinct (map (sc_captureID \<circ> cs_source) (rt_sources rt))"
  shows "list_all2 (accounted ph rt r ev) (sort_by restore_source_less (rt_sources rt)) (cp_sets (build_fresh_plan ph rt ev)) \<and>
     cp_summary (build_fresh_plan ph rt ev) =
       summarize_config_resolutions (map ps_resolution (cp_sets (build_fresh_plan ph rt ev)))"
proof
  show "list_all2 (accounted ph rt r ev) (sort_by restore_source_less (rt_sources rt)) (cp_sets (build_fresh_plan ph rt ev))"
    unfolding build_plan_split[OF assms(1)] merge_filtered_def recompute_summary_def
    by (simp, rule list_all2_concat_singletons, rule merged_set_accounted[OF assms(2)]) simp
qed (simp add: build_plan_split[OF assms(1)] merge_filtered_def recompute_summary_def)

definition sample_runtime :: restore_runtime where
  "sample_runtime =
     \<lparr>rt_sources = [\<lparr>cs_source = sample_source, cs_payloadRoot = ''/b/p'', cs_payloadManifest = Some [], cs_selected = True\<rparr>,
        \<lparr>cs_source = sample_source\<lparr>sc_captureID := ''c0''\<rparr>, cs_payloadRoot = ''/b/q'', cs_payloadManifest = Some [], cs_selected = False\<rparr>],
      rt_mappings = \<lambda>_. None, rt_resolver = Some sample_resolver, rt_modules = \<lambda>_. None\<rparr>"

definition sample_detection :: detection_evidence where
  "sample_detection = \<lparr>de_packages = \<lambda>_. [], de_failedModules = [sc_moduleID sample_source], de_failures = [], de_glob = None\<rparr>"

definition sample_planning :: planning_host where
  "sample_planning = \<lparr>ph_discovery = sample_host, ph_sha = id, ph_lower = id, ph_regexp = \<lambda>_. None,
     ph_engine = \<lparr>pe_match = \<lambda>_. None, pe_groups = \<lambda>_. [], pe_version = \<lambda>_ _. None\<rparr>\<rparr>"

theorem plan_covers_every_source_witness:
  "map (\<lambda>p. cr_reason (ps_resolution p)) (cp_sets (build_fresh_plan sample_planning sample_runtime sample_detection)) =
     [Some ReasonRestoreFiltered, Some ReasonTargetDetectionFailed]"
proof -
  have ids: "sc_captureID sample_source = ''c1''" by (simp add: sample_source_def)
  have "distinct (map (sc_captureID \<circ> cs_source) (rt_sources sample_runtime))"
    by (simp add: sample_runtime_def ids)
  note plan = plan_covers_every_source[where ph = sample_planning and ev = sample_detection, OF _ this, of sample_resolver]
  have "sort_by restore_source_less (rt_sources sample_runtime) = rev (rt_sources sample_runtime)"
    by (simp add: sample_runtime_def restore_source_less_def source_capture_less_def ids)
  then have "list_all2 (accounted sample_planning sample_runtime sample_resolver sample_detection) (rev (rt_sources sample_runtime))
      (cp_sets (build_fresh_plan sample_planning sample_runtime sample_detection))"
    using plan by (simp add: sample_runtime_def)
  then show ?thesis
    by (auto simp: sample_runtime_def list_all2_Cons1 accounted_def module_targets_def sample_detection_def failed_modules_def)
qed

section \<open>What may be executed\<close>

datatype coordinator_call = CallPreview evidence_source | CallFinal evidence_source bool

fun coordinator_step :: "planning_host \<Rightarrow> restore_runtime \<Rightarrow> coordinator \<Rightarrow> coordinator_call \<Rightarrow> coordinator" where
  "coordinator_step ph rt c (CallPreview src) = snd (preview_plan ph rt src c)"
| "coordinator_step ph rt c (CallFinal src enabled) = snd (final_plan ph rt src enabled c)"

definition coordinator_run :: "planning_host \<Rightarrow> restore_runtime \<Rightarrow> coordinator_call list \<Rightarrow> coordinator" where
  "coordinator_run ph rt calls = foldl (coordinator_step ph rt) new_coordinator calls"

lemma step_execution_plan:
  "execution_plan (coordinator_step ph rt c call) = Some plan \<longleftrightarrow>
     (\<exists>src ev. call = CallFinal src True \<and> fresh_evidence rt src DetectionFinal = Inr ev \<and> plan = build_fresh_plan ph rt ev)"
  by (cases call)
    (auto simp: execution_plan_def preview_plan_def final_plan_def Let_def split: sum.splits)

text \<open>
  Property C24. Whatever calls a coordinator has seen, it hands out a plan for execution exactly when
  the last of them was a final pass with restoring enabled whose evidence was obtained, and then the
  plan is the one built from that evidence: never from a preview, an earlier pass or a failed one.
\<close>

theorem only_final_pass_is_executed:
  "execution_plan (coordinator_run ph rt calls) = Some plan \<longleftrightarrow>
     (\<exists>earlier src ev. calls = earlier @ [CallFinal src True] \<and> fresh_evidence rt src DetectionFinal = Inr ev \<and>
        plan = build_fresh_plan ph rt ev)"
proof (cases calls rule: rev_cases)
  case Nil
  then show ?thesis by (simp add: coordinator_run_def new_coordinator_def execution_plan_def)
next
  case (snoc earlier call)
  then show ?thesis by (simp add: coordinator_run_def step_execution_plan)
qed

end
