(* ===== verification/DocumentEdits.thy ===== *)
theory DocumentEdits
  imports EngineProperties RestoreRuns
begin

text \<open>
  The edit of a JSON or INI document with a budget of failing calls: the exact effect of
  \<open>applyTextEdit\<close> (\<open>internal/migration/engine.go\<close>) through \<open>safepath.AtomicWriteFile\<close> when calls of
  the operating system fail, and what one failure leaves.
\<close>

section \<open>A budget of failing calls\<close>

definition fails :: "world \<Rightarrow> nat" where
  "fails w = length (filter (\<lambda>ev. case ev of Fail \<Rightarrow> True | _ \<Rightarrow> False) (w_events w))"

definition thrifty :: "world \<Rightarrow> world \<Rightarrow> bool" where
  "thrifty w w' \<longleftrightarrow> fails w' \<le> fails w"

interpretation thrift: step_order thrifty
  by standard (auto simp: thrifty_def)

lemma perform_events: "perform f w = (r, w') \<Longrightarrow> w_events w' = w_events w"
  by (auto simp: perform_def split: sum.splits prod.splits)

lemma thrifty_syscall: "within thrifty (syscall f)"
  by (rule withinI) (auto simp: thrifty_def fails_def syscall_def dest!: perform_events split: list.splits event.splits)

lemma thrifty_calls [within]: "within thrifty (query f)" "within thrifty (change g)" "within thrifty random_left"
  "within thrifty next_random"
  using thrifty_syscall by (auto simp: query_def change_def within_def random_left_def next_random_def thrifty_def fails_def
    split: list.splits)

lemma thrifty_make_temp: "(\<And>p. within thrifty (mk p)) \<Longrightarrow> within thrifty (make_temp mk dir stem tries)"
  by (induction tries) (auto intro!: within simp: Let_def)

lemma thrifty_create_temp: "within thrifty (create_temp dir stem)"
  unfolding create_temp_def by (intro within thrifty_make_temp)

lemma thrifty_chain: "within thrifty (reject_chain_links ps info)"
  by (induction ps arbitrary: info) (auto intro!: within simp: lstat_def)

lemma thrifty_reject: "within thrifty (reject_existing_links cur cs)"
  by (induction cs arbitrary: cur) (auto intro!: within simp: lstat_def Let_def)

lemma thrifty_resolve: "within thrifty (resolve root relative)"
  unfolding resolve_def validate_root_def Let_def by (intro within thrifty_chain thrifty_reject)

lemma thrifty_read_regular: "within thrifty (read_regular_file p)"
  unfolding read_regular_file_def read_regular_file_bounded_def open_verified_def verify_copy_source_def lstat_def open_file_def
  by (intro within)

lemma thrifty_read_operand: "within thrifty (read_operand root p)"
  unfolding read_operand_def resolve_operation_path_def lstat_def
  by (intro within thrifty_resolve thrifty_read_regular)

text \<open>A known tree and at most \<open>n\<close> calls that will still fail.\<close>

definition budget :: "nat \<Rightarrow> tree \<Rightarrow> world \<Rightarrow> bool" where
  "budget n t w \<longleftrightarrow> frozen t w \<and> fails w \<le> n"

lemma budget_triple:
  assumes "triple (frozen t) m Q E" and "within thrifty m"
  shows "triple (budget n t) m (\<lambda>x w. Q x w \<and> fails w \<le> n) (\<lambda>w. E w \<and> fails w \<le> n)"
  using tripleD[OF assms(1)] withinD[OF assms(2)] unfolding thrifty_def budget_def
  by (intro tripleI) (meson le_trans)+

text \<open>A call that has no reason to fail on the tree fails at the expense of the budget.\<close>

lemma sure_change:
  assumes "\<And>i. f i t = Inr t'"
  shows "triple (budget n t) (change f) (\<lambda>_. budget n t') (\<lambda>w. 0 < n \<and> budget (n - 1) t w)"
proof (rule tripleI)
  fix w e w' assume w: "budget n t w" and c: "change f w = (Inl e, w')"
  have "w_tree w = t" "calm w" using w by (simp_all add: budget_def frozen_def)
  then obtain evs where ev: "w_events w = Fail # evs" "w' = w\<lparr>w_events := evs\<rparr>"
    using c assms by (auto simp: change_def syscall_def perform_def calm_def split: list.splits event.splits)
  then show "0 < n \<and> budget (n - 1) t w'" using w by (auto simp: budget_def frozen_def calm_def fails_def)
next
  fix w x w' assume w: "budget n t w" and c: "change f w = (Inr x, w')"
  have "fails w' \<le> fails w" using withinD[OF thrifty_calls(2) c] by (simp add: thrifty_def)
  moreover have "frozen t' w'" using change_calm[of w f] w c assms by (auto simp: budget_def frozen_def)
  ultimately show "budget n t' w'" using w by (simp add: budget_def)
qed

lemma sure_sync: "triple (budget n t) (sync_file p) (\<lambda>_. budget n t) (\<lambda>w. 0 < n \<and> budget (n - 1) t w)"
proof -
  have "sync_file p = change (\<lambda>_. Inr)" by (simp add: sync_file_def query_def change_def)
  then show ?thesis using sure_change[of "\<lambda>_. Inr" t t n] by simp
qed

section \<open>The replacement of a file\<close>

lemma locate_final_present:
  assumes "wf_tree t" "is_abs p" "fmlookup t (clean_elements p) = Some n" "\<not> is_link n"
  shows "locate_final t p = Inr (clean_elements p)"
proof -
  have "\<exists>m. entry t ([] @ ys) = Some (Dir m)" if "clean_elements p = ys @ zs" "ys \<noteq> []" "zs \<noteq> []" for ys zs
    using wf_tree_above[OF assms(1), of ys zs n] assms(3) that by simp
  moreover have "\<not> is_link n'" if "entry t ([] @ clean_elements p) = Some n'" for n'
    using that assms(3,4) by (auto simp: entry_def is_link_def split: if_splits)
  ultimately show ?thesis
    using follow_dirs[OF abs_elements_plain[OF assms(2)], where cur = "[]" and final = True and t = t and fuel = 40]
    by (simp add: locate_final_def)
qed

lemma wf_temporary:
  assumes "wf_tree t" "fresh_in t d stem p" "entry t d = Some (Dir m)"
  shows "wf_tree (fmupd (clean_elements p) n t)"
proof (rule wf_upd[OF assms(1)])
  obtain x where x: "clean_elements p = d @ [x]" "is_abs p" "fmlookup t (d @ [x]) = None" using assms(2) by (auto simp: fresh_in_def)
  show "plain_key (clean_elements p)" using x(2) by (rule plain_key_elements)
  show "clean_elements p \<noteq> []" "\<exists>m. entry t (butlast (clean_elements p)) = Some (Dir m)" using x(1) assms(3) by auto
  show "is_dir n" if "entry t (clean_elements p) = Some (Dir m)" for m using that x by (simp add: entry_def)
qed

lemma frugal_atomic_write_file:
  assumes wf: "wf_tree t" and q: "is_abs q" "linkfree t (butlast (clean_elements q))"
    and old: "fmlookup t (clean_elements q) = Some old" "is_regular old"
  shows "triple (budget 1 t) (atomic_write_file q data mode) (\<lambda>_ _. True) (frozen t)"
  unfolding atomic_write_file_def atomic_write_def
proof -
  let ?q = "clean_elements q" and ?d = "butlast (clean_elements q)" and ?s = "''.endstate-write-''"
  have ne: "?q \<noteq> []" and dir: "\<exists>m. entry t ?d = Some (Dir m)" using wf old(1) by (auto simp: wf_tree_def)
  then obtain m where m: "entry t ?d = Some (Dir m)" by blast
  have dn: "is_abs (dir_name q)" "clean_elements (dir_name q) = ?d"
    using dir_name_inside[of "[]" q] q(1) ne by (auto simp: inside_def strict_prefix_def)
  have "triple (budget 1 t) (create_temp (dir_name q) ?s)
     (\<lambda>p w. (fresh_in t ?d ?s p \<and> (\<exists>i. True \<and> frozen (fmupd (clean_elements p) (File i 384 []) t) w)) \<and> fails w \<le> 1)
     (\<lambda>w. frozen t w \<and> fails w \<le> 1)"
    using budget_triple[OF frozen_create_temp[of "dir_name q" t ?s] thrifty_create_temp] dn q(2) by simp
  then have tmp: "triple (budget 1 t) (os (create_temp (dir_name q) ?s))
     (\<lambda>p w. fresh_in t ?d ?s p \<and> (\<exists>i. True \<and> budget 1 (fmupd (clean_elements p) (File i 384 []) t) w)) (frozen t)"
    by (intro triple_map_error, elim triple_conseq) (auto simp: budget_def)
  show "triple (budget 1 t)
     (io_bind (os (create_temp (dir_name q) ?s)) (\<lambda>p.
        io_on_error (io_then (os (chmod p (perm mode))) (io_then (os (write_file p data))
           (io_then (os (sync_file p)) (os (rename p q))))) (os (remove p)))) (\<lambda>_ _. True) (frozen t)"
  proof (rule triple_bind[OF tmp], rule triple_pure, rule triple_ex)
    fix p i assume f: "fresh_in t ?d ?s p"
    then obtain x where x: "is_abs p" "clean_elements p = ?d @ [x]" "fmlookup t (?d @ [x]) = None" by (auto simp: fresh_in_def)
    let ?U = "\<lambda>n. fmupd (clean_elements p) n t" and ?E = "\<lambda>w. \<exists>n. is_regular n \<and> budget 0 (fmupd (clean_elements p) n t) w"
    let ?N = "\<lambda>m c. ?U (File i m c)"
    have here: "locate_final (?U n) p = Inr (clean_elements p)" "locate (?U n) p = Inr (clean_elements p)"
      if "is_regular n" for n
      using locate_final_present[OF wf_temporary[OF wf f m] x(1)] locate_present[OF wf_temporary[OF wf f m] x(1)] that
      by (auto simp: is_regular_def is_link_def split: node.splits)
    have reg: "is_regular (File i m c)" for m c by (simp add: is_regular_def)
    have apart: "clean_elements p \<noteq> ?q" using x(2,3) old(1) by auto
    have there: "locate (?U n) q = Inr ?q" for n
      by (rule locate_present[OF wf_temporary[OF wf f m] q(1)]) (use old(1) apart in simp)
    have plain: "entry (?U n) ?q = Some old" for n using old(1) apart ne by (simp add: entry_def)
    have last: "triple (budget 1 T) m' Q (\<lambda>w. 0 < (1::nat) \<and> budget (1 - 1) T w) \<Longrightarrow>
        T = ?N m'' c \<Longrightarrow> triple (budget 1 T) (os m') Q ?E" for T m' Q m'' c
      by (rule triple_map_error, erule triple_conseq) (use reg in force)+
    have c1: "triple (budget 1 (?N 384 [])) (os (chmod p (perm mode))) (\<lambda>_. budget 1 (?N (perm mode) [])) ?E"
      unfolding chmod_def
      by (rule last[OF sure_change refl]) (simp add: chmod_tree_def here[OF reg] chmod_node_def fmupd_twice)
    have c2: "triple (budget 1 (?N (perm mode) [])) (os (write_file p data)) (\<lambda>_. budget 1 (?N (perm mode) data)) ?E"
      unfolding write_file_def
      by (rule last[OF sure_change refl]) (simp add: append_tree_def here[OF reg] fmupd_twice)
    have c3: "triple (budget 1 (?N (perm mode) data)) (os (sync_file p)) (\<lambda>_. budget 1 (?N (perm mode) data)) ?E"
      by (rule last[OF sure_sync refl])
    have moved: "\<exists>t'. rename_tree p q (?N (perm mode) data) = Inr t'"
      using old(2) plain by (auto simp: rename_tree_def here[OF reg] there is_dir_def is_regular_def split: node.splits)
    then obtain t' where t': "rename_tree p q (?N (perm mode) data) = Inr t'" by blast
    have c4: "triple (budget 1 (?N (perm mode) data)) (os (rename p q)) (\<lambda>_ _. True) ?E"
      unfolding rename_def
      by (rule last[OF triple_conseq[OF sure_change[of _ _ t']] refl]) (use t' in auto)
    have clean: "triple ?E (os (remove p) :: (path_error, unit) io) (\<lambda>_. frozen t) (frozen t)"
    proof (rule triple_ex, rule triple_map_error)
      fix n assume n: "is_regular n"
      have "remove_tree p (?U n) = Inr t"
        unfolding remove_tree_def here(2)[OF n] sum.case remove_key_def
        using n x(2,3) by (simp add: is_regular_def fmdrop_fresh split: node.splits)
      then show "triple (budget 0 (?U n)) (remove p) (\<lambda>_. frozen t) (frozen t)"
        unfolding remove_def by (intro triple_conseq[OF sure_change[of _ _ t]]) (auto simp: budget_def)
    qed
    show "triple (budget 1 (?N 384 []))
        (io_on_error (io_then (os (chmod p (perm mode))) (io_then (os (write_file p data))
           (io_then (os (sync_file p)) (os (rename p q))))) (os (remove p))) (\<lambda>_ _. True) (frozen t)"
      by (rule triple_on_error[OF triple_then[OF c1 triple_then[OF c2 triple_then[OF c3 c4]]] clean])
  qed
qed

lemma frugal_apply_text_edit:
  assumes wf: "wf_tree t"
  shows "triple (budget 1 t) (apply_text_edit root operation edit) (\<lambda>_ _. True) (frozen t)"
  unfolding apply_text_edit_def
proof (rule triple_bind)
  let ?k = "portable_key root (op_path operation)"
  show "triple (budget 1 t) (read_operand root (op_path operation))
     (\<lambda>x w. (case x of (target, data, mode) \<Rightarrow> resolved t root (op_path operation) target \<and>
        (\<exists>i. fmlookup t ?k = Some (File i mode data))) \<and> budget 1 t w) (frozen t)"
    by (rule triple_conseq[OF budget_triple[OF frozen_read_operand[OF wf] thrifty_read_operand]])
      (auto simp: budget_def split: prod.splits)
  fix x :: "string \<times> string \<times> nat"
  obtain q data mode where x: "x = (q, data, mode)" by (cases x) auto
  show "triple (\<lambda>w. (case x of (target, data, mode) \<Rightarrow> resolved t root (op_path operation) target \<and>
        (\<exists>i. fmlookup t ?k = Some (File i mode data))) \<and> budget 1 t w)
      (case x of (target, data, mode) \<Rightarrow>
        io_bind (io_of (map_sum map_document_error id (edit data))) (\<lambda>encoded.
          io_map_error (\<lambda>_. CodeIO) (atomic_write_file target encoded mode))) (\<lambda>_ _. True) (frozen t)"
    unfolding x prod.case
  proof (rule triple_pure)
    assume r: "resolved t root (op_path operation) q \<and> (\<exists>i. fmlookup t ?k = Some (File i mode data))"
    then obtain i where q: "is_abs q" "linkfree t (butlast (clean_elements q))"
        "fmlookup t (clean_elements q) = Some (File i mode data)" "is_regular (File i mode data)"
      using insideD linkfree_butlast by (auto simp: resolved_def is_regular_def)
    have enc: "triple (budget 1 t) (io_of (map_sum map_document_error id (edit data))) (\<lambda>_. budget 1 t) (frozen t)"
      by (rule triple_of) (auto simp: budget_def)
    show "triple (budget 1 t) (io_bind (io_of (map_sum map_document_error id (edit data))) (\<lambda>encoded.
          io_map_error (\<lambda>_. CodeIO) (atomic_write_file q encoded mode))) (\<lambda>_ _. True) (frozen t)"
      by (rule triple_bind[OF enc], rule triple_map_error, rule frugal_atomic_write_file[OF wf q])
  qed
qed

text \<open>
  Property C19. The edit of a JSON or INI document is all or nothing. On success the file at the
  path of the operation was a regular file, the edit of its content succeeded, and the tree differs from
  the old one exactly in the content of that file. After an error the tree is as it was when at most
  one call of the operating system fails (whichever it is); when more fail, the tree is as it was but for
  one temporary file in the directory of the document, which a failing removal leaves there.
\<close>

theorem document_edit_is_all_or_nothing:
  assumes "calm w" and "wf_tree (w_tree w)"
    and "op_type operation \<in> {''json-set'', ''json-delete'', ''json-move'', ''ini-set'', ''ini-delete'', ''ini-move''}"
    and "apply_operation c root operation w = (r, w')"
  shows "case r of
      Inr _ \<Rightarrow> edited (w_tree w) (portable_key root (op_path operation)) (document_edit c operation) (w_tree w')
    | Inl _ \<Rightarrow> leftover (w_tree w) (butlast (portable_key root (op_path operation))) ''.endstate-write-'' (w_tree w') \<and>
        (if fails w \<le> 1 then w_tree w' = w_tree w else True)"
proof -
  have run: "apply_text_edit root operation (document_edit c operation) w = (r, w')"
    using assms(3,4)
    by (auto simp: apply_operation_def Let_def is_supported_operation_type_def apply_json_operation_def
        apply_ini_operation_def document_edit_def)
  have start: "frozen (w_tree w) w" using assms(1) by (simp add: frozen_def)
  have frugal: "budget 1 (w_tree w) w" if "fails w \<le> 1" using that start by (simp add: budget_def)
  show ?thesis
    using tripleD[OF frozen_apply_text_edit[OF assms(2)] start] tripleD(1)[OF frugal_apply_text_edit[OF assms(2)] frugal] run
    by (cases r) (auto simp: frozen_def)
qed

theorem document_edit_is_all_or_nothing_witness:
  "edited sample_tree [''r'', ''a''] (document_edit no_codec
      (empty_operation\<lparr>op_type := ''ini-set'', op_path := ''a'', op_section := ''s'', op_key := ''k'', op_value := Some (JStr ''v'')\<rparr>))
     (w_tree (snd (apply_operation no_codec ''/r''
       (empty_operation\<lparr>op_type := ''ini-set'', op_path := ''a'', op_section := ''s'', op_key := ''k'', op_value := Some (JStr ''v'')\<rparr>)
       (sample_world []))))
   \<and> leftover sample_tree [''r''] ''.endstate-write-''
      (w_tree (snd (apply_operation no_codec ''/r''
       (empty_operation\<lparr>op_type := ''ini-set'', op_path := ''a'', op_section := ''s'', op_key := ''k'', op_value := Some (JStr ''v'')\<rparr>)
       (sample_world (replicate 11 Quiet @ replicate 4 Fail)))))
   \<and> w_tree (snd (apply_operation no_codec ''/r''
       (empty_operation\<lparr>op_type := ''ini-set'', op_path := ''a'', op_section := ''s'', op_key := ''k'', op_value := Some (JStr ''v'')\<rparr>)
       (sample_world (replicate 11 Quiet @ [Fail])))) = sample_tree"
proof -
  let ?op = "empty_operation\<lparr>op_type := ''ini-set'', op_path := ''a'', op_section := ''s'', op_key := ''k'', op_value := Some (JStr ''v'')\<rparr>"
  let ?run = "\<lambda>evs. apply_operation no_codec ''/r'' ?op (sample_world evs)"
  let ?bad = "replicate 11 Quiet @ replicate 4 Fail" and ?once = "replicate 11 Quiet @ [Fail]"
  have k: "portable_key ''/r'' (op_path ?op) = [''r'', ''a'']" by code_simp
  have t: "w_tree (sample_world evs) = sample_tree" for evs by (simp add: sample_world_def)
  have kind: "op_type ?op \<in> {''json-set'', ''json-delete'', ''json-move'', ''ini-set'', ''ini-delete'', ''ini-move''}" by simp
  have "(case fst (?run []) of Inl _ \<Rightarrow> False | Inr _ \<Rightarrow> True)" by code_simp
  then obtain u where good: "?run [] = (Inr u, snd (?run []))" by (cases "?run []"; cases "fst (?run [])") auto
  have "(case fst (?run ?bad) of Inl _ \<Rightarrow> True | Inr _ \<Rightarrow> False)" by code_simp
  then obtain e where bad: "?run ?bad = (Inl e, snd (?run ?bad))" by (cases "?run ?bad"; cases "fst (?run ?bad)") auto
  have "(case fst (?run ?once) of Inl _ \<Rightarrow> True | Inr _ \<Rightarrow> False)" by code_simp
  then obtain e' where once: "?run ?once = (Inl e', snd (?run ?once))" by (cases "?run ?once"; cases "fst (?run ?once)") auto
  have few: "fails (sample_world ?once) \<le> 1" by (simp add: fails_def sample_world_def)
  show ?thesis
    using document_edit_is_all_or_nothing[OF calm_sample_world _ kind good]
      document_edit_is_all_or_nothing[OF calm_sample_world _ kind bad]
      document_edit_is_all_or_nothing[OF calm_sample_world _ kind once] few wf_sample_tree
    unfolding t k sum.case by auto
qed

end
