(* ===== verification/Spec2Isabelle.thy ===== *)
theory Spec2Isabelle
  imports Versions MigrationGraph JsonPath JsonDocument IniDocument Projection StageProgress RestoreMergeProperties RegistryData RestoreMaterializeSample RestoreRecoverySample LegacyWork RestoreLiveSetSample RestorePlanningProperties DocumentEdits
begin

text \<open>
  This development models the configuration portability engine of Endstate, the Go program under
  \<open>src/go-engine\<close>. The engine captures the configuration files of applications as sets, decides
  into which instances of an application on another machine each set may be restored, migrates the
  captured files from the generation of the source to the generation of the target in a staging
  directory, and restores them. The theories follow the code, package by package.

  \<^bold>\<open>The theories.\<close>
  \<^item> \<open>Prelude\<close>: sums as results (\<open>try_res\<close>), stable insertion sort for \<open>sort.Slice\<close> with the locale
    \<open>slice_less\<close> of comparison functions, finite graphs and lists of maps.
  \<^item> \<open>GoStrings\<close>: Go strings as lists of bytes: \<open>strings.TrimSpace\<close>, \<open>Split\<close>, UTF-8 validity.
  \<^item> \<open>GoPaths\<close>: \<open>path/filepath\<close> on Unix: \<open>Clean\<close>, \<open>Join\<close>, \<open>Rel\<close>.
  \<^item> \<open>ModuleTypes\<close> (\<open>internal/modules/types.go\<close>): the records of a module declaration.
  \<^item> \<open>Versions\<close> (\<open>internal/modules/version.go\<close>): numeric versions, ranges, \<open>SelectGeneration\<close>.
  \<^item> \<open>MigrationGraph\<close>, \<open>ModuleValidation\<close> (\<open>internal/modules/validation.go\<close>): the validator of module
    declarations; the graph of migrations is acyclic and has unique routes.
  \<^item> \<open>JsonPath\<close>, \<open>DocumentStore\<close>, \<open>JsonDocument\<close>, \<open>IniDocument\<close> (\<open>internal/configdoc\<close>): locations in
    documents and the edits of migrations. The laws of a keyed store of values are the locale of
    \<open>DocumentStore\<close>, interpreted for JSON and for INI documents.
  \<^item> \<open>Instances\<close> (\<open>internal/modules/instances.go\<close>, \<open>instance_template.go\<close>): discovery of instances and
    their paths.
  \<^item> \<open>TargetClaims\<close> (\<open>internal/configtarget/target.go\<close>): when two restored targets touch.
  \<^item> \<open>ConfigResolution\<close>, \<open>Compatibility\<close>, \<open>Selection\<close>, \<open>Collision\<close>, \<open>Projection\<close>
    (\<open>internal/planner/config_*.go\<close>): the plan: which set goes to which instance, over which route,
    and what is shown of it.
  \<^item> \<open>FileSystem\<close>: the file system below \<open>os\<close> and \<open>path/filepath\<close>: a tree of nodes, a \<open>world\<close> with the
    tree, and the calls that read and change it. Each call takes the next event of the world: it
    goes through, it fails, or another process changes the tree just before it.
  \<^item> \<open>SafePath\<close> (\<open>internal/safepath\<close>): portable paths, resolution below a root, atomic files.
  \<^item> \<open>TreeLogic\<close>, \<open>SafeLogic\<close>, \<open>AtomicWrites\<close>: triples (precondition, operation, postcondition for
    a result and for an error) for the calls and for \<open>safepath\<close>.
  \<^item> \<open>MigrationEngine\<close> (\<open>internal/migration\<close>): the operations and \<open>Engine.Apply\<close>;
    \<open>MigrationSafety\<close>, \<open>EngineProperties\<close> and \<open>DocumentEdits\<close> (edits with a budget of failing calls): what they
    guarantee.
  \<^item> \<open>ConfigValidate\<close> (\<open>internal/configvalidate\<close>): the validations of a root.
  \<^item> \<open>PayloadManifest\<close> (\<open>internal/bundle/payload_manifest.go\<close>, \<open>paths.go\<close>): the index of a payload and its
    verification; \<open>PayloadProperties\<close>: a verified payload is a closed world.
  \<^item> \<open>Stage\<close> (\<open>internal/migration/stage.go\<close>, \<open>progress.go\<close>): the staging of a payload;
    \<open>StageProperties\<close>, \<open>StageProgress\<close>: it is transactional and reports the steps of its request once each.

  \<^item> \<open>RestoreState\<close> (\<open>internal/configrestore\<close>: filesystem_state.go, transaction_classification.go): the
    recorded state of a target, its scan and digest, the state a copy is meant to leave, and what a
    rollback may find. \<open>RestoreStateProperties\<close>: digests and records determine the state.
  \<^item> \<open>RestoreTypes\<close>, \<open>RestoreFiles\<close>, \<open>RestoreActions\<close>: the result types and the state of a run, the file
    operations of a commit and of a rollback, the actions on files and on the registry.
  \<^item> \<open>RestoreJournal\<close>, \<open>RestoreMarkers\<close>: the journal: intents and their validation, snapshots, markers
    and their publication without replacement. \<open>RestoreTransaction\<close> (transaction.go): \<open>Execute\<close>.
  \<^item> \<open>RestoreRuns\<close>, \<open>RestoreScan\<close>, \<open>RestoreControl\<close>, \<open>RestorePublish\<close>, \<open>RestoreOutcome\<close>: the logic of runs of
    a transaction, what a scan reads, the control flow of \<open>Execute\<close>, the durability of markers, and
    the states a transaction leaves. \<open>RestoreSample\<close> evaluates whole transactions.
  \<^item> \<open>RestoreMerge\<close> (\<open>internal/restore\<close>: merge_json.go, merge_ini.go, append.go): the merges of the restore
    strategies; \<open>RestoreMergeProperties\<close>: which values of target and source they keep.
  \<^item> \<open>PathMatch\<close>: \<open>path.Match\<close>. \<open>RestoreMaterialize\<close> (materialize.go, preflight.go): the actions of a set
    on concrete targets; \<open>RestoreMaterializeProperties\<close>, \<open>RestoreMaterializeSample\<close>: they are apart, and
    nothing is changed. \<open>RegistryData\<close>: the bytes of registry values.
  \<^item> \<open>RestoreGives\<close>: the calculus of what a run returns when it succeeds (\<open>gives\<close>).
  \<^item> \<open>StoreFormat\<close>, \<open>RestoreStore\<close> (store_format.go, live.go, store_runs.go): the immutable records of
    the store, transaction roots, legacy members, the active runs and the revert of a committed
    transaction. \<open>LegacyWork\<close>, \<open>RestoreRecovery\<close> (recovery.go, \<open>BeginLive\<close>): work directories of legacy
    reverts and the recovery after a crash.
  \<^item> \<open>RestoreStoreProperties\<close>, \<open>RestoreRecoveryProperties\<close>: what reverting and recovery guarantee;
    \<open>SettledReads\<close>: runs whose answer the tree fixes, so that the members of a store are well defined;
    \<open>PendingScan\<close>: the scan of recovery is ordered and misses no interrupted transaction;
    \<open>RestoreRecoverySample\<close> evaluates a store with one transaction.

  \<^item> \<open>RestorePrepare\<close> (snapshots.go), \<open>RestoreIntent\<close> (\<open>PersistIntent\<close> of journal.go): the snapshots
    before a restore and the publication of an intent. \<open>RestoreLiveSet\<close>
    (\<open>internal/commands/config_restore_live_set.go\<close>): one set, from its snapshots to its outcome.
    \<open>RestorePrepareProperties\<close>, \<open>RestoreLiveSetProperties\<close>: preparation records the states it found and
    writes below the transaction root only, so a set without success leaves its targets as they
    were; \<open>RestoreLiveSetSample\<close> evaluates a set that is rolled back.
  \<^item> \<open>RestorePlanning\<close> (\<open>internal/commands\<close>: config_restore_planning.go, config_restore_coordinator.go):
    detection and plan of a pass and the coordinator of a command; \<open>RestorePlanningProperties\<close>: every
    source is planned once, and only a final, enabled pass can be executed.

  \<^bold>\<open>How the parts interact.\<close> The coordinator detects targets and asks the planner for a plan of the
  selected sources. The planner (\<open>Selection\<close>, \<open>Collision\<close>) takes declarations accepted by the
  validator and instances found by discovery, and pins a route of migrations. A stage copies the
  payload a manifest describes and applies the engine along that route. Materialisation turns the
  staged set into actions; the prior states of their targets are copied and an intent is published;
  a transaction commits, validates and publishes a marker, or rolls back. The store keeps the transactions of a run; recovery closes those a crash
  left open, and a revert takes a committed one back.

  \<^bold>\<open>Correspondence.\<close> Structs are records, string enumerations are datatypes, errors are the left
  side of a sum with the code of the error (messages are left out), maps are finite maps or
  association lists, and code that ranges over a Go map is modelled on a list with a theorem that
  the order does not matter. Integers are unbounded where the code only counts elements.
  Recursions over a decreasing structure are \<open>fun\<close>; searches in graphs carry fuel, and the theorems
  about them state that the fuel chosen (the number of generations) is enough. The builds modelled
  are those for Unix: file names are case sensitive and the separator is the slash.

  \<^bold>\<open>Parameters.\<close> The regular expression engine, SHA-256, the lower case of non-ASCII letters, the
  environment, glob expansion and the decoder and encoder of JSON and time texts (the codecs) are
  arguments of the definitions that use them, and so are the calls on the registry
  (\<open>registry_mutator\<close>), the file lock (\<open>lock_service\<close>), random bytes, the clock and the depth at
  which the kernel gives up following links. \<open>hex_digests\<close> states of SHA-256 that its results are 64
  lower-case hexadecimal digits.

  \<^bold>\<open>What is shown.\<close> The plan: a selected target is the only viable one or named by the user; sets
  that a plan still restores never write where another one writes; plans do not depend on the
  order of discovery; projections leak no host path. The validator: accepted declarations have
  acyclic migrations with unique routes, and paths that stay below their roots. Documents: edits
  change one location, INI text is read back as written. The engine: nothing outside the staging
  root changes; the edit of a document replaces it or, when one call fails, leaves the tree as it was (when
  its clean-up fails too, one temporary file remains). A stage is transactional up to remains of its own directory,
  which the error reports, when their removal fails too.
  A restore: materialised actions touch separate targets; whatever fails, \<open>Execute\<close> returns one of
  four consistent results, and when it reports a rollback the targets are as they were recorded,
  when it reports success the validations hold. A set that ends as skipped, rolled back, or failed
  before its transaction leaves every filesystem target as it was. After a crash recovery finds every transaction with an
  intent and no terminal marker, takes them newest first and leaves the recorded states; a root with a durable intent is
  never discarded; the active runs list exactly the members of the store, newest run first.

  \<^bold>\<open>Not modelled.\<close> A file does not change while it is open, permission bits do not restrict the
  calls, and the umask is zero; a call that reports a failure has had no effect. The host boundary
  of the validation harness is absent (it is nil in production), the checkpoints of the tests too,
  and the variants of files for Windows and macOS. The rest of
  the program is not modelled: the commands other than the planning of a restore and the
  restore of one set, and the envelope around them, print and prompt, the
  drivers of package managers, the realizer, the scheduler and the backup service call programs and
  services outside the repository, and the validation harness tests the built executable.
\<close>

end
